(* ===== verification/Prelude.thy ===== *)
theory Prelude
  imports Main "HOL-Library.Word" "HOL-Library.Multiset" "HOL-Library.Code_Target_Numeral"
begin

text \<open>
  Shared vocabulary of the development: the Rust standard-library types and operations the
  modelled crates use (clock values, byte strings, \<open>BTreeMap\<close>, bounded \<open>VecDeque\<close>s), the
  generic run of a component over a list of operations, and the two locales every stateful
  component instantiates (\<open>component\<close>: an invariant that rules out panics;
  \<open>traced_component\<close>: a compositional relation between the operations performed and the
  values returned).
\<close>

section \<open>Clock values, byte strings, saturating arithmetic\<close>

text \<open>
  \<open>std::time::Instant\<close> and \<open>Duration\<close> are nanosecond counts.  \<open>Instant\<close>s of one process start
  at 0; \<open>saturating_duration_since\<close> is truncated subtraction.
\<close>

type_synonym instant = nat
type_synonym duration = nat
type_synonym byte = "8 word"
type_synonym bytes = "byte list"

definition ms :: "nat \<Rightarrow> duration" where
  "ms n = n * 1000000"

definition as_millis :: "duration \<Rightarrow> nat" where
  "as_millis d = d div 1000000"

definition saturating_duration_since :: "instant \<Rightarrow> instant \<Rightarrow> duration" where
  "saturating_duration_since later earlier = later - earlier"

text \<open>\<open>Ord::clamp\<close> (callers guarantee \<open>lo \<le> hi\<close>; Rust panics otherwise).\<close>

definition clamp :: "'a::linorder \<Rightarrow> 'a \<Rightarrow> 'a \<Rightarrow> 'a" where
  "clamp lo hi x = (if x < lo then lo else if hi < x then hi else x)"

lemma clamp_bounds: "lo \<le> hi \<Longrightarrow> lo \<le> clamp lo hi x \<and> clamp lo hi x \<le> hi"
  by (auto simp: clamp_def)

lemma clamp_inside [simp]: "lo \<le> x \<Longrightarrow> x \<le> hi \<Longrightarrow> clamp lo hi x = x"
  by (auto simp: clamp_def)

lemma clamp_mono: "lo \<le> hi \<Longrightarrow> x \<le> y \<Longrightarrow> clamp lo hi x \<le> clamp lo hi y"
  by (auto simp: clamp_def)

text \<open>Rust's integer division truncates toward zero.\<close>

definition rust_div :: "int \<Rightarrow> int \<Rightarrow> int" where
  "rust_div a b = sgn a * sgn b * (\<bar>a\<bar> div \<bar>b\<bar>)"

lemma rust_div_nonneg: "0 \<le> a \<Longrightarrow> 0 < b \<Longrightarrow> rust_div a b = a div b"
  by (cases "a = 0") (simp_all add: rust_div_def)

lemma rust_div_neg: "a < 0 \<Longrightarrow> 0 < b \<Longrightarrow> rust_div a b = - ((- a) div b)"
  by (simp add: rust_div_def)

lemma div_le_dividend_int: "0 \<le> a \<Longrightarrow> 0 < b \<Longrightarrow> a div b \<le> (a::int)"
  by (cases "b = 1") (auto intro: order_less_imp_le int_div_less_self simp: le_less)

lemma rust_div_le: "0 < b \<Longrightarrow> \<bar>rust_div a b\<bar> \<le> \<bar>a\<bar>"
  by (cases "a = 0") (simp_all add: rust_div_def abs_mult abs_sgn_eq div_le_dividend_int
      pos_imp_zdiv_nonneg_iff)

definition u32_max :: nat where
  "u32_max = 4294967295"

definition saturating_add_u32 :: "nat \<Rightarrow> nat \<Rightarrow> nat" where
  "saturating_add_u32 a b = min u32_max (a + b)"

text \<open>\<open>VecDeque\<close> bounded by \<open>while len > n { pop_front }\<close>.\<close>

definition keep_last :: "nat \<Rightarrow> 'a list \<Rightarrow> 'a list" where
  "keep_last n xs = drop (length xs - n) xs"

lemma length_keep_last [simp]: "length (keep_last n xs) = min n (length xs)"
  by (auto simp: keep_last_def)

lemma set_keep_last: "x \<in> set (keep_last n xs) \<Longrightarrow> x \<in> set xs"
  by (auto simp: keep_last_def dest: in_set_dropD)

section \<open>\<open>BTreeMap\<close>\<close>

text \<open>
  A \<open>BTreeMap\<close> is its ascending list of entries.  \<open>first_key_value\<close> is the head of the list,
  \<open>pop_first\<close> its tail.
\<close>

type_synonym ('k, 'v) btree = "('k \<times> 'v) list"

fun bt_insert :: "'k::linorder \<Rightarrow> 'v \<Rightarrow> ('k, 'v) btree \<Rightarrow> ('k, 'v) btree" where
  "bt_insert k v [] = [(k, v)]"
| "bt_insert k v ((k', v') # t) =
     (if k < k' then (k, v) # (k', v') # t
      else if k = k' then (k, v) # t
      else (k', v') # bt_insert k v t)"

fun bt_get :: "('k::linorder, 'v) btree \<Rightarrow> 'k \<Rightarrow> 'v option" where
  "bt_get [] k = None"
| "bt_get ((k', v') # t) k = (if k = k' then Some v' else bt_get t k)"

definition bt_remove :: "'k::linorder \<Rightarrow> ('k, 'v) btree \<Rightarrow> ('k, 'v) btree" where
  "bt_remove k t = filter (\<lambda>(k', _). k' \<noteq> k) t"

text \<open>\<open>split_off(&k)\<close> leaves the keys below \<open>k\<close> and returns those from \<open>k\<close> on.\<close>

definition bt_below :: "'k::linorder \<Rightarrow> ('k, 'v) btree \<Rightarrow> ('k, 'v) btree" where
  "bt_below k t = filter (\<lambda>(k', _). k' < k) t"

definition bt_from :: "'k::linorder \<Rightarrow> ('k, 'v) btree \<Rightarrow> ('k, 'v) btree" where
  "bt_from k t = filter (\<lambda>(k', _). k \<le> k') t"

definition bt_ok :: "('k::linorder, 'v) btree \<Rightarrow> bool" where
  "bt_ok t = sorted_wrt (<) (map fst t)"

lemma bt_ok_Nil [simp]: "bt_ok []"
  by (simp add: bt_ok_def)

lemma bt_ok_Cons: "bt_ok ((k, v) # t) \<longleftrightarrow> (\<forall>x \<in> set t. k < fst x) \<and> bt_ok t"
  by (simp add: bt_ok_def)

lemma set_bt_insert_sub: "x \<in> set (bt_insert k v t) \<Longrightarrow> x = (k, v) \<or> x \<in> set t"
  by (induction t) (auto split: if_splits)

lemma bt_insert_ok: "bt_ok t \<Longrightarrow> bt_ok (bt_insert k v t)"
  by (induction t) (fastforce simp: bt_ok_Cons dest: set_bt_insert_sub split: if_splits)+

lemma bt_insert_neq_Nil [simp]: "bt_insert k v t \<noteq> []"
  by (induction t) (auto split: if_splits)

lemma bt_get_insert: "bt_get (bt_insert k v t) = (bt_get t)(k := Some v)"
  by (induction t) (auto simp: fun_eq_iff)

lemma bt_get_None_iff: "bt_get t k = None \<longleftrightarrow> k \<notin> fst ` set t"
  by (induction t) (auto split: if_splits)

lemma bt_get_Some_in: "bt_get t k = Some v \<Longrightarrow> (k, v) \<in> set t"
  by (induction t) (auto split: if_splits)

lemma mset_bt_insert:
  "bt_get t k = None \<Longrightarrow> mset (bt_insert k v t) = add_mset (k, v) (mset t)"
  by (induction t) (auto split: if_splits)

lemma length_bt_insert: "bt_get t k = None \<Longrightarrow> length (bt_insert k v t) = Suc (length t)"
  by (metis mset_bt_insert size_add_mset size_mset)

lemma bt_insert_last:
  "bt_ok t \<Longrightarrow> (\<forall>x \<in> set t. fst x < k) \<Longrightarrow> bt_insert k v t = t @ [(k, v)]"
  by (induction t) (auto simp: bt_ok_Cons)

lemma bt_filter_ok: "bt_ok t \<Longrightarrow> bt_ok (filter P t)"
  by (induction t) (auto simp: bt_ok_Cons)

lemma bt_remove_ok: "bt_ok t \<Longrightarrow> bt_ok (bt_remove k t)"
  unfolding bt_remove_def by (rule bt_filter_ok)

lemma bt_get_remove: "bt_get (bt_remove k t) = (bt_get t)(k := None)"
  unfolding bt_remove_def by (induction t) (auto simp: fun_eq_iff)

lemma bt_below_from_append: "bt_ok t \<Longrightarrow> bt_below k t @ bt_from k t = t"
proof (induction t)
  case Nil
  then show ?case by (simp add: bt_below_def bt_from_def)
next
  case (Cons a t)
  show ?case
  proof (cases "fst a < k")
    case True
    with Cons show ?thesis by (cases a) (auto simp: bt_below_def bt_from_def bt_ok_Cons)
  next
    case False
    with Cons.prems have "\<forall>x \<in> set (a # t). \<not> fst x < k"
      by (cases a) (auto simp: bt_ok_Cons)
    then have "bt_below k (a # t) = []" "bt_from k (a # t) = a # t"
      by (auto simp: bt_below_def bt_from_def filter_empty_conv filter_id_conv)
    then show ?thesis by simp
  qed
qed

lemma mset_filter_split: "mset (filter (\<lambda>x. \<not> P x) xs) + mset (filter P xs) = mset xs"
  by (induction xs) auto

section \<open>The ordered-map interface\<close>

text \<open>
  What the clients of a \<open>BTreeMap\<close> rely on: \<open>insert\<close>/\<open>get\<close>/\<open>remove\<close> agree with map update, and
  the first entry carries the least key.
\<close>

locale ordered_map =
  fixes ins :: "'k::linorder \<Rightarrow> 'v \<Rightarrow> 'm \<Rightarrow> 'm"
    and look :: "'m \<Rightarrow> 'k \<Rightarrow> 'v option"
    and del :: "'k \<Rightarrow> 'm \<Rightarrow> 'm"
    and entries :: "'m \<Rightarrow> ('k \<times> 'v) list"
    and ok :: "'m \<Rightarrow> bool"
  assumes look_ins: "ok m \<Longrightarrow> look (ins k v m) = (look m)(k := Some v)"
    and look_del: "ok m \<Longrightarrow> look (del k m) = (look m)(k := None)"
    and ok_ins: "ok m \<Longrightarrow> ok (ins k v m)"
    and ok_del: "ok m \<Longrightarrow> ok (del k m)"
    and entries_sorted: "ok m \<Longrightarrow> sorted_wrt (<) (map fst (entries m))"
    and entries_look: "ok m \<Longrightarrow> (k, v) \<in> set (entries m) \<longleftrightarrow> look m k = Some v"
begin

lemma first_is_least:
  assumes "ok m" and "entries m = (k, v) # rest" and "look m k' = Some v'"
  shows "k \<le> k'"
proof -
  from assms(1,3) have "(k', v') \<in> set (entries m)" by (simp add: entries_look)
  with assms(2) entries_sorted [OF assms(1)] show ?thesis by force
qed

lemma first_look: "ok m \<Longrightarrow> entries m = (k, v) # rest \<Longrightarrow> look m k = Some v"
  using entries_look by fastforce

lemma look_ins_same: "ok m \<Longrightarrow> look (ins k v m) k = Some v"
  by (simp add: look_ins)

lemma look_ins_other: "ok m \<Longrightarrow> k' \<noteq> k \<Longrightarrow> look (ins k v m) k' = look m k'"
  by (simp add: look_ins)

lemma del_after_ins: "ok m \<Longrightarrow> look m k = None \<Longrightarrow> look (del k (ins k v m)) = look m"
  by (auto simp: look_del look_ins ok_ins fun_eq_iff)

end

lemma bt_get_iff_in: "bt_ok t \<Longrightarrow> (k, v) \<in> set t \<longleftrightarrow> bt_get t k = Some v"
  by (induction t) (force simp: bt_ok_Cons dest: bt_get_Some_in split: if_splits)+

interpretation bt: ordered_map bt_insert bt_get bt_remove "\<lambda>t. t" bt_ok
  by unfold_locales
    (auto simp: bt_get_insert bt_get_remove bt_insert_ok bt_remove_ok bt_get_iff_in,
      simp add: bt_ok_def)

section \<open>Components: operations, runs, invariants\<close>

text \<open>
  A component is a step function over its operations; \<open>None\<close> is a panic of the Rust code
  (\<open>expect\<close>, an out-of-range index, an arithmetic underflow).  \<open>run_ops\<close> performs a list of
  operations and collects what they return.
\<close>

fun run_ops :: "('s \<Rightarrow> 'op \<Rightarrow> ('s \<times> 'out list) option) \<Rightarrow> 's \<Rightarrow> 'op list \<Rightarrow>
    ('s \<times> 'out list) option" where
  "run_ops step s [] = Some (s, [])"
| "run_ops step s (op # ops) =
     (case step s op of
        None \<Rightarrow> None
      | Some (s', out) \<Rightarrow>
          (case run_ops step s' ops of
             None \<Rightarrow> None
           | Some (s'', outs) \<Rightarrow> Some (s'', out @ outs)))"

lemma run_ops_append:
  "run_ops step s (xs @ ys) =
     (case run_ops step s xs of
        None \<Rightarrow> None
      | Some (s', out) \<Rightarrow>
          (case run_ops step s' ys of
             None \<Rightarrow> None
           | Some (s'', outs) \<Rightarrow> Some (s'', out @ outs)))"
  by (induction xs arbitrary: s) (auto split: option.splits)

lemma run_ops_total: "(\<And>s op. step s op \<noteq> None) \<Longrightarrow> \<exists>s' outs. run_ops step s ops = Some (s', outs)"
proof (induction ops arbitrary: s)
  case (Cons op ops)
  obtain s1 o1 where "step s op = Some (s1, o1)" using Cons.prems [of s op] by auto
  with Cons.IH [OF Cons.prems, of s1] show ?case by auto
qed simp

lemma run_ops_Cons: "step s op = Some (s1, o1) \<Longrightarrow> run_ops step s1 ops = Some (s2, o2) \<Longrightarrow>
    run_ops step s (op # ops) = Some (s2, o1 @ o2)"
  by simp

locale component =
  fixes step :: "'s \<Rightarrow> 'op \<Rightarrow> ('s \<times> 'out list) option"
    and inv :: "'s \<Rightarrow> bool"
  assumes step_ok: "inv s \<Longrightarrow> \<exists>s' out. step s op = Some (s', out) \<and> inv s'"
begin

lemma step_inv: "inv s \<Longrightarrow> step s op = Some (s', out) \<Longrightarrow> inv s'"
  using step_ok [of s op] by auto

lemma run_ok: "inv s \<Longrightarrow> \<exists>s' outs. run_ops step s ops = Some (s', outs) \<and> inv s'"
proof (induction ops arbitrary: s)
  case Nil
  then show ?case by simp
next
  case (Cons op ops)
  obtain s1 o1 where "step s op = Some (s1, o1)" "inv s1"
    using step_ok [OF Cons.prems] by blast
  with Cons.IH [of s1] show ?case by auto
qed

lemma run_inv: "inv s \<Longrightarrow> run_ops step s ops = Some (s', outs) \<Longrightarrow> inv s'"
  using run_ok [of s ops] by auto

end

text \<open>
  A compositional relation between the state before, the operations, the values returned and the
  state after: it holds of every run as soon as it holds of every single step.
\<close>

locale traced_component = component step inv
  for step :: "'s \<Rightarrow> 'op \<Rightarrow> ('s \<times> 'out list) option" and inv :: "'s \<Rightarrow> bool" +
  fixes rel :: "'s \<Rightarrow> 'op list \<Rightarrow> 'out list \<Rightarrow> 's \<Rightarrow> bool"
  assumes rel_refl: "inv s \<Longrightarrow> rel s [] [] s"
    and rel_step: "inv s \<Longrightarrow> step s op = Some (s', out) \<Longrightarrow> rel s [op] out s'"
    and rel_trans: "rel s xs out1 s1 \<Longrightarrow> rel s1 ys out2 s2 \<Longrightarrow> rel s (xs @ ys) (out1 @ out2) s2"
begin

lemma run_rel: "inv s \<Longrightarrow> run_ops step s ops = Some (s', outs) \<Longrightarrow> rel s ops outs s'"
proof (induction ops arbitrary: s outs)
  case Nil
  then show ?case by (simp add: rel_refl)
next
  case (Cons op ops)
  from Cons.prems(2) obtain s1 o1 o2 where
    1: "step s op = Some (s1, o1)" "run_ops step s1 ops = Some (s', o2)" "outs = o1 @ o2"
    by (auto split: option.splits)
  have "rel s [op] o1 s1" by (rule rel_step [OF Cons.prems(1) 1(1)])
  moreover have "rel s1 ops o2 s'"
    by (rule Cons.IH [OF step_inv [OF Cons.prems(1) 1(1)] 1(2)])
  ultimately show ?case using rel_trans [of s "[op]" o1 s1 ops o2 s'] 1(3) by simp
qed

end

section \<open>Incremental decoders\<close>

text \<open>
  A fallible operation that also changes its receiver returns an outcome and the receiver's new
  state.  \<open>Panic\<close> is a panic of the Rust code.
\<close>

datatype ('e, 'a) outcome = Ok 'a | Err 'e | Panic

text \<open>First one call, then (when it succeeded) the next; the outputs are concatenated.\<close>

definition and_then ::
  "('e, 'o list) outcome \<times> 's \<Rightarrow> ('s \<Rightarrow> ('e, 'o list) outcome \<times> 's) \<Rightarrow> ('e, 'o list) outcome \<times> 's" where
  "and_then r f =
     (case r of
        (Ok a, s) \<Rightarrow> (case f s of (Ok b, s') \<Rightarrow> (Ok (a @ b), s') | (x, s') \<Rightarrow> (x, s'))
      | (x, s) \<Rightarrow> (x, s))"

lemma and_then_Ok:
  "and_then (Ok a, s) f = (case f s of (Ok b, s') \<Rightarrow> (Ok (a @ b), s') | (x, s') \<Rightarrow> (x, s'))"
  by (simp add: and_then_def)

lemma and_then_simps [simp]:
  "and_then (Err e, s) f = (Err e, s)" "and_then (Panic, s) f = (Panic, s)"
  by (simp_all add: and_then_def)

lemma and_then_Ok_Nil [simp]: "and_then (Ok [], s) f = f s"
  by (cases "f s"; cases "fst (f s)") (auto simp: and_then_Ok)

lemma and_then_assoc: "and_then (and_then r f) g = and_then r (\<lambda>s. and_then (f s) g)"
  by (cases r; cases "fst r") (auto simp: and_then_def split: prod.splits outcome.splits)

lemma and_then_unit [simp]: "and_then r (\<lambda>s. (Ok [], s)) = r"
  by (cases r; cases "fst r") (auto simp: and_then_Ok)

lemma and_then_cong: "(\<And>s. f s = g s) \<Longrightarrow> and_then r f = and_then r g"
  by (metis ext)

fun feed_all :: "('i list \<Rightarrow> 's \<Rightarrow> ('e, 'o list) outcome \<times> 's) \<Rightarrow> 'i list list \<Rightarrow> 's \<Rightarrow>
    ('e, 'o list) outcome \<times> 's" where
  "feed_all push [] s = (Ok [], s)"
| "feed_all push (x # xs) s = and_then (push x s) (feed_all push xs)"

text \<open>
  The contract of an incremental decoder: feeding a concatenation is feeding the parts one after
  the other.  Then the cuts between calls never show.
\<close>

locale incremental =
  fixes push :: "'i list \<Rightarrow> 's \<Rightarrow> ('e, 'o list) outcome \<times> 's"
  assumes push_Nil: "push [] s = (Ok [], s)"
    and push_append: "push (xs @ ys) s = and_then (push xs s) (push ys)"
begin

lemma feed_all_concat: "feed_all push chunks s = push (concat chunks) s"
proof (induction chunks arbitrary: s)
  case Nil
  then show ?case by (simp add: push_Nil)
next
  case (Cons x xs)
  have "feed_all push xs = push (concat xs)" using Cons by blast
  then show ?case by (simp add: push_append)
qed

lemma feed_all_eq: "concat xs = concat ys \<Longrightarrow> feed_all push xs s = feed_all push ys s"
  by (simp add: feed_all_concat)

end

end
