(* ===== verification/Inbound_Types.thy ===== *)
theory Inbound_Types
  imports Prelude
begin

text \<open>
  Data shared by the inbound audio path of \<open>crates/core\<close>: RTP packets (\<open>media.rs\<close>) and the
  counters of one inbound stage (\<open>inbound_audio/stats.rs\<close>).  The counters are \<open>AtomicU64\<close>s; they
  are modelled as \<open>nat\<close> (a stage would have to see \<open>2 ^ 64\<close> packets before one wraps).
\<close>

record rtp_packet =
  payload :: bytes
  sequence_number :: "16 word"
  timestamp :: "32 word"
  payload_type :: "8 word"

record stage_stats =
  packets_received :: nat
  packets_discarded :: nat
  reordered :: nat
  lost :: nat
  late_after_loss :: nat
  concealed_samples :: nat
  concealment_events :: nat
  fec_decodes :: nat
  plc_decodes :: nat
  lost_not_concealed :: nat
  resets :: nat
  current_wait_ms :: nat
  undecodable :: nat

definition default_stats :: stage_stats where
  "default_stats = \<lparr>packets_received = 0, packets_discarded = 0, reordered = 0, lost = 0,
     late_after_loss = 0, concealed_samples = 0, concealment_events = 0, fec_decodes = 0,
     plc_decodes = 0, lost_not_concealed = 0, resets = 0, current_wait_ms = 0, undecodable = 0\<rparr>"

text \<open>Output of the reorder buffer (\<open>StageOut\<close>).\<close>

datatype stage_out =
    Packet rtp_packet
  | Lost nat "bytes option"

fun packets_of :: "stage_out list \<Rightarrow> rtp_packet list" where
  "packets_of [] = []"
| "packets_of (Packet p # os) = p # packets_of os"
| "packets_of (Lost n nx # os) = packets_of os"

fun lost_of :: "stage_out list \<Rightarrow> nat" where
  "lost_of [] = 0"
| "lost_of (Packet p # os) = lost_of os"
| "lost_of (Lost n nx # os) = n + lost_of os"

lemma packets_of_append [simp]: "packets_of (xs @ ys) = packets_of xs @ packets_of ys"
  by (induction xs rule: packets_of.induct) auto

lemma lost_of_append [simp]: "lost_of (xs @ ys) = lost_of xs + lost_of ys"
  by (induction xs rule: lost_of.induct) auto

end
