(* ===== verification/Reorder.thy ===== *)
theory Reorder
  imports Inbound_Types
begin

text \<open>
  \<open>crates/core/src/inbound_audio/reorder.rs\<close>: the RTP reorder buffer with its adaptive, bounded
  wait.  Extended sequence numbers (\<open>i64\<close> in the code) are \<open>int\<close>; the unwrapping of a 16-bit
  sequence number against the highest one seen is done on words, as in the code.  The buffer never
  reads the clock except in \<open>flush_held\<close>, whose \<open>Instant::now()\<close> is an argument here.  The
  \<open>expect\<close> of \<open>advance\<close> is the result \<open>None\<close>.
\<close>

section \<open>State\<close>

definition MIN_WAIT :: duration where "MIN_WAIT = ms 20"
definition MAX_WAIT :: duration where "MAX_WAIT = ms 60"
definition WAIT_MARGIN :: duration where "WAIT_MARGIN = ms 5"
definition OBSERVATION_WINDOW :: duration where "OBSERVATION_WINDOW = ms 10000"
definition MAX_OBSERVATIONS :: nat where "MAX_OBSERVATIONS = 64"
definition RESET_JUMP :: int where "RESET_JUMP = 1000"
definition MAX_HELD :: nat where "MAX_HELD = 50"
definition MAX_LOST_RANGES :: nat where "MAX_LOST_RANGES = 64"

lemmas reorder_consts = MIN_WAIT_def MAX_WAIT_def WAIT_MARGIN_def OBSERVATION_WINDOW_def
  MAX_OBSERVATIONS_def RESET_JUMP_def MAX_HELD_def MAX_LOST_RANGES_def ms_def

record held =
  h_packet :: rtp_packet
  h_arrived :: instant

record lost_range =
  lr_start :: int
  lr_end :: int
  lr_gap_since :: instant

record reorder_buffer =
  rb_stats :: stage_stats
  rb_next :: "int option"
  rb_max_ext :: int
  rb_held :: "(int, held) btree"
  rb_ready :: "stage_out list"
  rb_gap_since :: "instant option"
  rb_lost_ranges :: "lost_range list"
  rb_observations :: "(instant \<times> duration) list"
  rb_wait :: duration

definition reorder_new :: "stage_stats \<Rightarrow> reorder_buffer" where
  "reorder_new stats = \<lparr>
     rb_stats = stats\<lparr>current_wait_ms := as_millis MIN_WAIT\<rparr>,
     rb_next = None, rb_max_ext = 0, rb_held = [], rb_ready = [], rb_gap_since = None,
     rb_lost_ranges = [], rb_observations = [], rb_wait = MIN_WAIT\<rparr>"

section \<open>Operations\<close>

definition next_deadline :: "reorder_buffer \<Rightarrow> instant option" where
  "next_deadline b =
     (if rb_held b = [] then None else map_option (\<lambda>t. t + rb_wait b) (rb_gap_since b))"

definition wait_of :: "(instant \<times> duration) list \<Rightarrow> duration" where
  "wait_of obs = clamp MIN_WAIT MAX_WAIT (foldr (\<lambda>(_, d) m. max d m) obs 0 + WAIT_MARGIN)"

definition refresh_wait :: "instant \<Rightarrow> reorder_buffer \<Rightarrow> reorder_buffer" where
  "refresh_wait now b =
     (let obs = dropWhile (\<lambda>(t, _). OBSERVATION_WINDOW \<le> saturating_duration_since now t)
                  (rb_observations b);
          w = wait_of obs
      in b\<lparr>rb_observations := obs, rb_wait := w,
           rb_stats := (rb_stats b)\<lparr>current_wait_ms := as_millis w\<rparr>\<rparr>)"

definition observe :: "instant \<Rightarrow> duration \<Rightarrow> reorder_buffer \<Rightarrow> reorder_buffer" where
  "observe now delay b =
     refresh_wait now
       (b\<lparr>rb_observations := keep_last MAX_OBSERVATIONS (rb_observations b @ [(now, delay)])\<rparr>)"

definition emit_held_head :: "reorder_buffer \<Rightarrow> reorder_buffer" where
  "emit_held_head b =
     (case rb_held b of
        [] \<Rightarrow> b
      | (ext, h) # rest \<Rightarrow>
          b\<lparr>rb_held := rest, rb_next := Some (ext + 1),
            rb_ready := rb_ready b @ [Packet (h_packet h)]\<rparr>)"

definition declare_lost :: "int \<Rightarrow> int \<Rightarrow> instant \<Rightarrow> reorder_buffer \<Rightarrow> reorder_buffer" where
  "declare_lost start stop fallback b =
     (let count = nat (stop - start);
          nx = map_option (\<lambda>h. payload (h_packet h)) (bt_get (rb_held b) stop);
          since = (case rb_gap_since b of None \<Rightarrow> fallback | Some t \<Rightarrow> t);
          range = \<lparr>lr_start = start, lr_end = stop, lr_gap_since = since\<rparr>
      in b\<lparr>rb_stats := (rb_stats b)\<lparr>lost := lost (rb_stats b) + count\<rparr>,
           rb_lost_ranges := keep_last MAX_LOST_RANGES (rb_lost_ranges b @ [range]),
           rb_ready := rb_ready b @ [Lost count nx],
           rb_next := Some stop\<rparr>)"

text \<open>The loop of \<open>advance\<close>: emit, declare a gap lost, or stop at a gap that may still fill.\<close>

function advance :: "instant \<Rightarrow> reorder_buffer \<Rightarrow> reorder_buffer option" where
  "advance now b =
     (case rb_held b of
        [] \<Rightarrow> Some (b\<lparr>rb_gap_since := None\<rparr>)
      | (first, head) # rest \<Rightarrow>
          (case rb_next b of
             None \<Rightarrow> None
           | Some nxt \<Rightarrow>
               if first = nxt then advance now ((emit_held_head b)\<lparr>rb_gap_since := None\<rparr>)
               else
                 (let since = (case rb_gap_since b of None \<Rightarrow> h_arrived head | Some t \<Rightarrow> t);
                      b1 = b\<lparr>rb_gap_since := Some since\<rparr>
                  in if since + rb_wait b1 \<le> now \<or> MAX_HELD < length (rb_held b1)
                     then advance now ((declare_lost nxt first now b1)\<lparr>rb_gap_since := None\<rparr>)
                     else Some b1)))"
  by pat_completeness auto
termination
  by (relation "measure (\<lambda>(now, b). 2 * length (rb_held b)
        + (case rb_held b of [] \<Rightarrow> 0 | (f, _) # _ \<Rightarrow> if rb_next b = Some f then 0 else 1))")
    (auto simp: emit_held_head_def declare_lost_def Let_def split: list.splits)

declare advance.simps [simp del]

text \<open>The loop of \<open>flush_held\<close>.\<close>

function flush_loop :: "instant \<Rightarrow> reorder_buffer \<Rightarrow> reorder_buffer" where
  "flush_loop now b =
     (case rb_held b of
        [] \<Rightarrow> b
      | (first, h) # rest \<Rightarrow>
          (let nxt = (case rb_next b of None \<Rightarrow> first | Some n \<Rightarrow> n);
               b1 = (if first \<noteq> nxt then declare_lost nxt first now b else b)
           in flush_loop now (emit_held_head b1)))"
  by pat_completeness auto
termination
  by (relation "measure (\<lambda>(now, b). length (rb_held b))")
    (auto simp: emit_held_head_def declare_lost_def Let_def)

declare flush_loop.simps [simp del]

definition flush_held :: "instant \<Rightarrow> reorder_buffer \<Rightarrow> reorder_buffer" where
  "flush_held now b = (flush_loop now b)\<lparr>rb_gap_since := None\<rparr>"

definition reorder_reset :: "instant \<Rightarrow> rtp_packet \<Rightarrow> reorder_buffer \<Rightarrow> reorder_buffer" where
  "reorder_reset now p b =
     (let b1 = flush_held now (b\<lparr>rb_stats := (rb_stats b)\<lparr>resets := resets (rb_stats b) + 1\<rparr>\<rparr>);
          ext = uint (sequence_number p)
      in b1\<lparr>rb_lost_ranges := [], rb_gap_since := None, rb_next := Some (ext + 1),
            rb_max_ext := ext, rb_ready := rb_ready b1 @ [Packet p]\<rparr>)"

text \<open>\<open>seq.wrapping_sub(self.max_ext as u16) as i16\<close>.\<close>

definition seq_diff :: "16 word \<Rightarrow> int \<Rightarrow> int" where
  "seq_diff seq mx = sint (seq - word_of_int mx)"

definition bump_discarded :: "reorder_buffer \<Rightarrow> reorder_buffer" where
  "bump_discarded b =
     b\<lparr>rb_stats := (rb_stats b)\<lparr>packets_discarded := packets_discarded (rb_stats b) + 1\<rparr>\<rparr>"

text \<open>A packet below \<open>next\<close>: a duplicate, or one whose gap was already declared lost.\<close>

definition push_late :: "int \<Rightarrow> instant \<Rightarrow> reorder_buffer \<Rightarrow> reorder_buffer" where
  "push_late ext now b =
     (let b1 = bump_discarded b
      in case find (\<lambda>r. lr_start r \<le> ext \<and> ext < lr_end r) (rb_lost_ranges b1) of
           None \<Rightarrow> b1
         | Some r \<Rightarrow>
             observe now (saturating_duration_since now (lr_gap_since r))
               (b1\<lparr>rb_stats := (rb_stats b1)\<lparr>late_after_loss := late_after_loss (rb_stats b1) + 1\<rparr>\<rparr>))"

text \<open>A new packet at or above \<open>next\<close>: emitted at once, or held.\<close>

definition push_new :: "rtp_packet \<Rightarrow> int \<Rightarrow> int \<Rightarrow> instant \<Rightarrow> reorder_buffer \<Rightarrow> reorder_buffer option" where
  "push_new p ext nxt now b =
     (let b1 = (if ext < rb_max_ext b
                then b\<lparr>rb_stats := (rb_stats b)\<lparr>reordered := reordered (rb_stats b) + 1\<rparr>\<rparr> else b);
          b2 = (if rb_max_ext b1 < ext then b1\<lparr>rb_max_ext := ext\<rparr> else b1)
      in if ext = nxt \<and> rb_held b2 = []
         then Some (b2\<lparr>rb_next := Some (nxt + 1), rb_ready := rb_ready b2 @ [Packet p]\<rparr>)
         else
           (let b3 = (if ext = nxt
                      then (case rb_gap_since b2 of
                              None \<Rightarrow> b2
                            | Some since \<Rightarrow> observe now (saturating_duration_since now since) b2)
                      else b2)
            in advance now
                 (b3\<lparr>rb_held := bt_insert ext \<lparr>h_packet = p, h_arrived = now\<rparr> (rb_held b3)\<rparr>)))"

definition reorder_push :: "rtp_packet \<Rightarrow> instant \<Rightarrow> reorder_buffer \<Rightarrow> reorder_buffer option" where
  "reorder_push p now b0 =
     (let b = refresh_wait now
                (b0\<lparr>rb_stats := (rb_stats b0)\<lparr>packets_received := packets_received (rb_stats b0) + 1\<rparr>\<rparr>)
      in case rb_next b of
           None \<Rightarrow>
             (let ext = uint (sequence_number p)
              in Some (b\<lparr>rb_next := Some (ext + 1), rb_max_ext := ext,
                         rb_ready := rb_ready b @ [Packet p]\<rparr>))
         | Some nxt \<Rightarrow>
             (let diff = seq_diff (sequence_number p) (rb_max_ext b)
              in if RESET_JUMP < \<bar>diff\<bar> then Some (reorder_reset now p b)
                 else
                   (let ext = rb_max_ext b + diff
                    in if ext < nxt then Some (push_late ext now b)
                       else if bt_get (rb_held b) ext \<noteq> None then Some (bump_discarded b)
                       else push_new p ext nxt now b)))"

definition reorder_poll :: "instant \<Rightarrow> reorder_buffer \<Rightarrow> (reorder_buffer \<times> stage_out list) option" where
  "reorder_poll now b =
     (case advance now (refresh_wait now b) of
        None \<Rightarrow> None
      | Some b1 \<Rightarrow> Some (b1\<lparr>rb_ready := []\<rparr>, rb_ready b1))"

definition reorder_flush :: "instant \<Rightarrow> reorder_buffer \<Rightarrow> reorder_buffer \<times> stage_out list" where
  "reorder_flush now b = (let b1 = flush_held now b in (b1\<lparr>rb_ready := []\<rparr>, rb_ready b1))"

text \<open>The three operations a stage performs on its buffer.\<close>

datatype reorder_op = Push rtp_packet instant | Poll instant | Flush instant

fun reorder_step :: "reorder_buffer \<Rightarrow> reorder_op \<Rightarrow> (reorder_buffer \<times> stage_out list) option" where
  "reorder_step b (Push p now) = map_option (\<lambda>b'. (b', [])) (reorder_push p now b)"
| "reorder_step b (Poll now) = reorder_poll now b"
| "reorder_step b (Flush now) = Some (reorder_flush now b)"

section \<open>Abstract specification: output tiles the sequence space\<close>

text \<open>
  \<open>tiling r c os c'\<close>: reading \<open>os\<close> from sequence position \<open>c\<close> ends at position \<open>c'\<close> after \<open>r\<close>
  stream resets.  A packet stands exactly at the current position, a loss of \<open>n\<close> advances it by
  \<open>n > 0\<close> and is directly followed by the packet whose payload it carries.  Position \<open>None\<close> is
  "before the first packet".
\<close>

inductive tiling :: "nat \<Rightarrow> int option \<Rightarrow> stage_out list \<Rightarrow> int option \<Rightarrow> bool" where
  nil: "tiling 0 c [] c"
| at_position: "sequence_number p = word_of_int c \<Longrightarrow> tiling r (Some (c + 1)) os c' \<Longrightarrow>
     tiling r (Some c) (Packet p # os) c'"
| gap: "0 < n \<Longrightarrow> tiling r (Some (c + int n)) (Packet p # os) c' \<Longrightarrow>
     sequence_number p = word_of_int (c + int n) \<Longrightarrow>
     tiling r (Some c) (Lost n (Some (payload p)) # Packet p # os) c'"
| start: "tiling r (Some (uint (sequence_number p) + 1)) os c' \<Longrightarrow>
     tiling r None (Packet p # os) c'"
| reset: "tiling r None (Packet p # os) c' \<Longrightarrow> tiling (Suc r) (Some c) (Packet p # os) c'"

inductive_simps tiling_Nil [simp]: "tiling r c [] c'"

lemma tiling_trans: "tiling r c xs c' \<Longrightarrow> tiling q c' ys c'' \<Longrightarrow> tiling (r + q) c (xs @ ys) c''"
proof (induction rule: tiling.induct)
  case (gap n r c p os c')
  then show ?case using tiling.gap [of n "r + q" c p "os @ ys" c''] by simp
qed (auto intro: tiling.intros)

definition held_packets :: "reorder_buffer \<Rightarrow> rtp_packet list" where
  "held_packets b = map (h_packet \<circ> snd) (rb_held b)"

text \<open>What a buffer may do on its own: move held packets and declared gaps to the output.\<close>

definition moves :: "reorder_buffer \<Rightarrow> stage_out list \<Rightarrow> reorder_buffer \<Rightarrow> bool" where
  "moves b os b' \<longleftrightarrow>
     rb_ready b' = rb_ready b @ os \<and> tiling 0 (rb_next b) os (rb_next b') \<and>
     held_packets b = packets_of os @ held_packets b' \<and>
     rb_stats b' = (rb_stats b)\<lparr>lost := lost (rb_stats b) + lost_of os\<rparr> \<and>
     rb_max_ext b' = rb_max_ext b \<and> rb_wait b' = rb_wait b \<and>
     rb_observations b' = rb_observations b"

lemma moves_refl: "moves b [] b"
  by (simp add: moves_def)

lemma moves_trans: "moves b xs b1 \<Longrightarrow> moves b1 ys b2 \<Longrightarrow> moves b (xs @ ys) b2"
  by (auto simp: moves_def intro: tiling_trans [where r = 0 and q = 0, simplified])

section \<open>Invariant\<close>

text \<open>
  \<open>held_ok b n\<close>: the held packets are at or above position \<open>n\<close>, at most the highest position
  seen, and filed under the extension of their own sequence number.
\<close>

definition held_ok :: "reorder_buffer \<Rightarrow> int \<Rightarrow> bool" where
  "held_ok b n \<longleftrightarrow>
     bt_ok (rb_held b) \<and>
     (\<forall>(k, h) \<in> set (rb_held b).
        word_of_int k = sequence_number (h_packet h) \<and> n \<le> k \<and> k \<le> rb_max_ext b) \<and>
     (if rb_held b = [] then rb_max_ext b = n - 1 else rb_max_ext b \<in> fst ` set (rb_held b))"

definition ranges_ok :: "reorder_buffer \<Rightarrow> bool" where
  "ranges_ok b \<longleftrightarrow> length (rb_lost_ranges b) \<le> MAX_LOST_RANGES \<and>
     (\<forall>r \<in> set (rb_lost_ranges b). lr_start r < lr_end r)"

definition wait_ok :: "reorder_buffer \<Rightarrow> bool" where
  "wait_ok b \<longleftrightarrow> rb_wait b = wait_of (rb_observations b) \<and>
     length (rb_observations b) \<le> MAX_OBSERVATIONS"

definition reorder_inv :: "reorder_buffer \<Rightarrow> bool" where
  "reorder_inv b \<longleftrightarrow>
     wait_ok b \<and> ranges_ok b \<and> length (rb_held b) \<le> MAX_HELD \<and>
     (rb_held b = [] \<longleftrightarrow> rb_gap_since b = None) \<and>
     (case rb_next b of
        None \<Rightarrow> rb_held b = [] \<and> rb_max_ext b = 0
      | Some n \<Rightarrow> held_ok b n \<and> n \<notin> fst ` set (rb_held b))"

lemma reorder_inv_new: "reorder_inv (reorder_new st)"
  by (simp add: reorder_inv_def reorder_new_def wait_ok_def ranges_ok_def reorder_consts
      wait_of_def clamp_def)

lemma refresh_wait_fields [simp]:
  "rb_next (refresh_wait now b) = rb_next b" "rb_held (refresh_wait now b) = rb_held b"
  "rb_max_ext (refresh_wait now b) = rb_max_ext b" "rb_ready (refresh_wait now b) = rb_ready b"
  "rb_gap_since (refresh_wait now b) = rb_gap_since b"
  "rb_lost_ranges (refresh_wait now b) = rb_lost_ranges b"
  "packets_received (rb_stats (refresh_wait now b)) = packets_received (rb_stats b)"
  "packets_discarded (rb_stats (refresh_wait now b)) = packets_discarded (rb_stats b)"
  "lost (rb_stats (refresh_wait now b)) = lost (rb_stats b)"
  "resets (rb_stats (refresh_wait now b)) = resets (rb_stats b)"
  by (simp_all add: refresh_wait_def Let_def)

lemma refresh_wait_ok:
  "length (rb_observations b) \<le> MAX_OBSERVATIONS \<Longrightarrow> wait_ok (refresh_wait now b)"
  by (simp add: wait_ok_def refresh_wait_def Let_def) (meson length_dropWhile_le order_trans)

lemma wait_of_bounds: "MIN_WAIT \<le> wait_of obs" "wait_of obs \<le> MAX_WAIT"
  using clamp_bounds [of MIN_WAIT MAX_WAIT] by (simp_all add: wait_of_def reorder_consts)

lemma foldr_max_dropWhile:
  "foldr (\<lambda>(_, d) m. max d m) (dropWhile P obs) 0 \<le> (foldr (\<lambda>(_, d) m. max d m) obs 0 :: nat)"
  by (induction obs) auto

lemma wait_of_dropWhile: "wait_of (dropWhile P obs) \<le> wait_of obs"
  unfolding wait_of_def
  by (rule clamp_mono) (simp_all add: reorder_consts foldr_max_dropWhile)

text \<open>Forgetting old observations never lengthens the wait.\<close>

lemma refresh_wait_shrinks: "wait_ok b \<Longrightarrow> rb_wait (refresh_wait now b) \<le> rb_wait b"
  by (simp add: wait_ok_def refresh_wait_def Let_def wait_of_dropWhile)

lemma observe_fields [simp]:
  "rb_next (observe now d b) = rb_next b" "rb_held (observe now d b) = rb_held b"
  "rb_max_ext (observe now d b) = rb_max_ext b" "rb_ready (observe now d b) = rb_ready b"
  "rb_gap_since (observe now d b) = rb_gap_since b"
  "rb_lost_ranges (observe now d b) = rb_lost_ranges b"
  "packets_received (rb_stats (observe now d b)) = packets_received (rb_stats b)"
  "packets_discarded (rb_stats (observe now d b)) = packets_discarded (rb_stats b)"
  "lost (rb_stats (observe now d b)) = lost (rb_stats b)"
  "resets (rb_stats (observe now d b)) = resets (rb_stats b)"
  by (simp_all add: observe_def)

lemma observe_wait_ok: "wait_ok (observe now d b)"
  unfolding observe_def by (rule refresh_wait_ok) simp

section \<open>The loops\<close>

lemma gap_update [simp]:
  "moves (b\<lparr>rb_gap_since := x\<rparr>) os b' = moves b os b'"
  "moves b os (b'\<lparr>rb_gap_since := x\<rparr>) = moves b os b'"
  "held_ok (b\<lparr>rb_gap_since := x\<rparr>) n = held_ok b n"
  "ranges_ok (b\<lparr>rb_gap_since := x\<rparr>) = ranges_ok b"
  "wait_ok (b\<lparr>rb_gap_since := x\<rparr>) = wait_ok b"
  by (simp_all add: moves_def held_packets_def held_ok_def ranges_ok_def wait_ok_def)

lemma emit_held_head_step:
  assumes "held_ok b n" and "rb_next b = Some n" and "rb_held b = (n, h) # rest"
  shows "moves b [Packet (h_packet h)] (emit_held_head b)"
    and "held_ok (emit_held_head b) (n + 1)"
    and "rb_next (emit_held_head b) = Some (n + 1)"
    and "ranges_ok (emit_held_head b) = ranges_ok b"
proof -
  have "sequence_number (h_packet h) = word_of_int n"
    using assms(1,3) by (auto simp: held_ok_def)
  then show "moves b [Packet (h_packet h)] (emit_held_head b)"
    using assms(2,3)
    by (auto simp: moves_def emit_held_head_def held_packets_def intro: tiling.intros)
  have above: "\<forall>x \<in> set rest. n < fst x"
    using assms(1,3) by (auto simp: held_ok_def bt_ok_Cons)
  have "rb_max_ext b \<in> insert n (fst ` set rest)"
    using assms(1,3) by (auto simp: held_ok_def)
  then have "if rest = [] then rb_max_ext b = n else rb_max_ext b \<in> fst ` set rest"
    using above assms(1,3) by (cases rest) (auto simp: held_ok_def)
  then show "held_ok (emit_held_head b) (n + 1)"
    using assms(1,3) above by (auto simp: held_ok_def emit_held_head_def bt_ok_Cons)
  show "rb_next (emit_held_head b) = Some (n + 1)"
    and "ranges_ok (emit_held_head b) = ranges_ok b"
    using assms(3) by (simp_all add: emit_held_head_def ranges_ok_def)
qed

lemma declare_lost_fields [simp]:
  "rb_held (declare_lost s e t b) = rb_held b" "rb_next (declare_lost s e t b) = Some e"
  "rb_max_ext (declare_lost s e t b) = rb_max_ext b" "rb_wait (declare_lost s e t b) = rb_wait b"
  "rb_gap_since (declare_lost s e t b) = rb_gap_since b"
  by (simp_all add: declare_lost_def Let_def)

lemma declare_lost_step:
  assumes "held_ok b n" and "rb_next b = Some n" and "rb_held b = (f, h) # rest" and "f \<noteq> n"
  shows "n < f" and "held_ok (declare_lost n f t b) f"
    and "ranges_ok b \<Longrightarrow> ranges_ok (declare_lost n f t b)"
    and "moves (declare_lost n f t b) (Packet (h_packet h) # os) b' \<Longrightarrow>
         moves b (Lost (nat (f - n)) (Some (payload (h_packet h))) # Packet (h_packet h) # os) b'"
proof -
  show lt: "n < f" using assms(1,3,4) by (auto simp: held_ok_def)
  show "held_ok (declare_lost n f t b) f"
    using assms(1,3) by (auto simp: held_ok_def bt_ok_Cons)
  show "ranges_ok (declare_lost n f t b)" if "ranges_ok b"
    using that lt by (auto simp: ranges_ok_def declare_lost_def Let_def dest!: set_keep_last)
  have "sequence_number (h_packet h) = word_of_int (n + int (nat (f - n)))"
    using assms(1,3) lt by (auto simp: held_ok_def)
  then show "moves b (Lost (nat (f - n)) (Some (payload (h_packet h))) # Packet (h_packet h) # os) b'"
    if "moves (declare_lost n f t b) (Packet (h_packet h) # os) b'"
    using that lt assms(2,3)
    by (auto simp: moves_def declare_lost_def Let_def held_packets_def intro!: tiling.gap)
qed

definition settled :: "instant \<Rightarrow> reorder_buffer \<Rightarrow> bool" where
  "settled now b \<longleftrightarrow>
     length (rb_held b) \<le> MAX_HELD \<and> (rb_held b = [] \<longleftrightarrow> rb_gap_since b = None) \<and>
     (\<forall>t. rb_gap_since b = Some t \<longrightarrow> now < t + rb_wait b) \<and> ranges_ok b \<and>
     (\<exists>n. rb_next b = Some n \<and> held_ok b n \<and> n \<notin> fst ` set (rb_held b))"

lemma advance_spec:
  assumes "held_ok b n" and "rb_next b = Some n" and "ranges_ok b"
  shows "\<exists>b' os. advance now b = Some b' \<and> moves b os b' \<and> settled now b' \<and>
    (\<forall>h rest. rb_held b = (n, h) # rest \<longrightarrow> (\<exists>os'. os = Packet (h_packet h) # os'))"
  using assms
proof (induction now b arbitrary: n rule: advance.induct)
  case (1 now b)
  show ?case
  proof (cases "rb_held b")
    case Nil
    then have "advance now b = Some (b\<lparr>rb_gap_since := None\<rparr>)" by (simp add: advance.simps)
    with Nil 1 show ?thesis
      by (auto simp: settled_def MAX_HELD_def held_ok_def ranges_ok_def
          intro!: exI [of _ "[]"] moves_refl)
  next
    case (Cons x rest)
    obtain f h where x: "x = (f, h)" by (cases x)
    note held = Cons [unfolded x]
    show ?thesis
    proof (cases "f = n")
      case True
      let ?b = "(emit_held_head b)\<lparr>rb_gap_since := None\<rparr>"
      have e1: "rb_held b = (n, h) # rest" using held True by simp
      note e = emit_held_head_step [OF 1(3,4) e1]
      obtain b' os where "advance now ?b = Some b'" "moves ?b os b'" "settled now b'"
        using 1(1) [OF held refl 1(4) True, of "n + 1"] e 1(4,5) e1 by auto
      moreover have "moves b (Packet (h_packet h) # os) b'"
        using moves_trans [OF e(1), of os b'] calculation(2) by simp
      ultimately show ?thesis
        using held True 1(4) by (auto simp: advance.simps [of now b])
    next
      case False
      let ?since = "case rb_gap_since b of None \<Rightarrow> h_arrived h | Some t \<Rightarrow> t"
      let ?b1 = "b\<lparr>rb_gap_since := Some ?since\<rparr>"
      show ?thesis
      proof (cases "?since + rb_wait b \<le> now \<or> MAX_HELD < length (rb_held b)")
        case True
        let ?b2 = "declare_lost n f now ?b1"
        have b1: "held_ok ?b1 n" "rb_next ?b1 = Some n" "rb_held ?b1 = (f, h) # rest"
          using 1(3,4) held by simp_all
        note d = declare_lost_step [OF b1 False]
        obtain b' os where a: "advance now (?b2\<lparr>rb_gap_since := None\<rparr>) = Some b'"
          "moves ?b2 os b'" "settled now b'" "\<exists>os'. os = Packet (h_packet h) # os'"
          using 1(2) [OF held refl 1(4) False refl refl _, of f] True d(2,3) 1(5) held by auto
        then have "moves b (Lost (nat (f - n)) (Some (payload (h_packet h))) # os) b'"
          using d(4) by auto
        then show ?thesis
          using a held False True 1(4) by (auto simp: advance.simps [of now b])
      next
        case stop: False
        then have "advance now b = Some ?b1"
          using held False 1(4) by (auto simp: advance.simps [of now b] Let_def)
        moreover have "n \<notin> fst ` set (rb_held b)"
          using 1(3) held False by (auto simp: held_ok_def bt_ok_Cons)
        ultimately show ?thesis
          using held False 1 stop by (auto simp: settled_def intro!: exI [of _ "[]"] moves_refl)
      qed
    qed
  qed
qed

lemma flush_loop_spec:
  assumes "held_ok b n" and "rb_next b = Some n"
  shows "\<exists>os n'. moves b os (flush_loop now b) \<and> rb_next (flush_loop now b) = Some n' \<and>
    held_ok (flush_loop now b) n' \<and> rb_held (flush_loop now b) = [] \<and>
    (\<forall>h rest. rb_held b = (n, h) # rest \<longrightarrow> (\<exists>os'. os = Packet (h_packet h) # os'))"
  using assms
proof (induction now b arbitrary: n rule: flush_loop.induct)
  case (1 now b)
  show ?case
  proof (cases "rb_held b")
    case Nil
    with 1 show ?thesis
      by (auto simp: flush_loop.simps [of now b] intro!: exI [of _ "[]"] moves_refl)
  next
    case (Cons x rest)
    obtain f h where x: "x = (f, h)" by (cases x)
    note held = Cons [unfolded x]
    let ?b1 = "if f \<noteq> n then declare_lost n f now b else b"
    have b1: "held_ok ?b1 f" "rb_next ?b1 = Some f" "rb_held ?b1 = (f, h) # rest"
      using declare_lost_step(2) [OF 1(2,3) held] 1(2,3) held by auto
    note e = emit_held_head_step [OF b1]
    have fl: "flush_loop now b = flush_loop now (emit_held_head ?b1)"
      using held 1(3) by (simp add: flush_loop.simps [of now b] Let_def)
    obtain os n' where r: "moves (emit_held_head ?b1) os (flush_loop now b)"
      "rb_next (flush_loop now b) = Some n'" "held_ok (flush_loop now b) n'"
      "rb_held (flush_loop now b) = []"
      using 1(1) [OF held refl refl _ e(2)] e(3) 1(3) fl by auto
    have m: "moves ?b1 (Packet (h_packet h) # os) (flush_loop now b)"
      using moves_trans [OF e(1) r(1)] by simp
    show ?thesis
    proof (cases "f = n")
      case True
      then show ?thesis using m r held by auto
    next
      case False
      have "moves b (Lost (nat (f - n)) (Some (payload (h_packet h))) # Packet (h_packet h) # os)
          (flush_loop now b)"
        using declare_lost_step(4) [OF 1(2,3) held False] m False by auto
      then show ?thesis using r held False by auto
    qed
  qed
qed

lemma flush_loop_empty: "rb_held b = [] \<Longrightarrow> flush_loop now b = b"
  by (simp add: flush_loop.simps)

lemma advance_empty: "rb_held b = [] \<Longrightarrow> advance now b = Some (b\<lparr>rb_gap_since := None\<rparr>)"
  by (simp add: advance.simps)

lemma flush_loop_ranges:
  assumes "held_ok b n" and "rb_next b = Some n" and "ranges_ok b"
  shows "ranges_ok (flush_loop now b)"
  using assms
proof (induction now b arbitrary: n rule: flush_loop.induct)
  case (1 now b)
  show ?case
  proof (cases "rb_held b")
    case Nil
    with 1 show ?thesis by (simp add: flush_loop.simps [of now b])
  next
    case (Cons x rest)
    obtain f h where x: "x = (f, h)" by (cases x)
    note held = Cons [unfolded x]
    let ?b1 = "if f \<noteq> n then declare_lost n f now b else b"
    have b1: "held_ok ?b1 f" "rb_next ?b1 = Some f" "rb_held ?b1 = (f, h) # rest"
      using declare_lost_step(2) [OF 1(2,3) held] 1(2,3) held by auto
    have "ranges_ok ?b1" using declare_lost_step(3) [OF 1(2,3) held] 1(4) by auto
    then show ?thesis
      using 1(1) [OF held refl refl _ emit_held_head_step(2) [OF b1]]
        emit_held_head_step(3,4) [OF b1] held 1(3)
      by (simp add: flush_loop.simps [of now b] Let_def)
  qed
qed

section \<open>Every operation: no panic, invariant, specification\<close>

fun pushed :: "reorder_op list \<Rightarrow> rtp_packet list" where
  "pushed [] = []"
| "pushed (Push p now # ops) = p # pushed ops"
| "pushed (Poll now # ops) = pushed ops"
| "pushed (Flush now # ops) = pushed ops"

lemma pushed_append [simp]: "pushed (xs @ ys) = pushed xs @ pushed ys"
  by (induction xs rule: pushed.induct) auto

text \<open>
  The contract between operations and output: what was produced tiles the sequence space, every
  packet pushed is produced, still held, or counted as discarded, and the counters are exact.
\<close>

definition reorder_rel :: "reorder_buffer \<Rightarrow> reorder_op list \<Rightarrow> stage_out list \<Rightarrow> reorder_buffer \<Rightarrow> bool" where
  "reorder_rel b ops outs b' \<longleftrightarrow>
     (\<exists>produced dropped r.
        rb_ready b @ produced = outs @ rb_ready b' \<and>
        tiling r (rb_next b) produced (rb_next b') \<and>
        resets (rb_stats b') = resets (rb_stats b) + r \<and>
        mset (pushed ops) + mset (held_packets b) =
          mset (packets_of produced) + mset (held_packets b') + dropped \<and>
        packets_received (rb_stats b') = packets_received (rb_stats b) + length (pushed ops) \<and>
        packets_discarded (rb_stats b') = packets_discarded (rb_stats b) + size dropped \<and>
        lost (rb_stats b') = lost (rb_stats b) + lost_of produced)"

lemma reorder_rel_trans:
  assumes "reorder_rel b xs o1 b1" and "reorder_rel b1 ys o2 b2"
  shows "reorder_rel b (xs @ ys) (o1 @ o2) b2"
proof -
  obtain p d r where 1: "rb_ready b @ p = o1 @ rb_ready b1" "tiling r (rb_next b) p (rb_next b1)"
    "resets (rb_stats b1) = resets (rb_stats b) + r"
    "mset (pushed xs) + mset (held_packets b) = mset (packets_of p) + mset (held_packets b1) + d"
    "packets_received (rb_stats b1) = packets_received (rb_stats b) + length (pushed xs)"
    "packets_discarded (rb_stats b1) = packets_discarded (rb_stats b) + size d"
    "lost (rb_stats b1) = lost (rb_stats b) + lost_of p"
    using assms(1) unfolding reorder_rel_def by blast
  obtain p' d' r' where 2: "rb_ready b1 @ p' = o2 @ rb_ready b2"
    "tiling r' (rb_next b1) p' (rb_next b2)" "resets (rb_stats b2) = resets (rb_stats b1) + r'"
    "mset (pushed ys) + mset (held_packets b1) = mset (packets_of p') + mset (held_packets b2) + d'"
    "packets_received (rb_stats b2) = packets_received (rb_stats b1) + length (pushed ys)"
    "packets_discarded (rb_stats b2) = packets_discarded (rb_stats b1) + size d'"
    "lost (rb_stats b2) = lost (rb_stats b1) + lost_of p'"
    using assms(2) unfolding reorder_rel_def by blast
  have "rb_ready b @ p @ p' = (o1 @ o2) @ rb_ready b2"
    by (metis 1(1) 2(1) append.assoc)
  moreover have "mset (pushed (xs @ ys)) + mset (held_packets b) =
      mset (packets_of (p @ p')) + mset (held_packets b2) + (d + d')"
    using 1(4) 2(4) by (simp add: union_ac) (metis (no_types, lifting) union_assoc union_commute)
  ultimately show ?thesis
    using tiling_trans [OF 1(2) 2(2)] 1(3,5-7) 2(3,5-7) unfolding reorder_rel_def
    by (intro exI [of _ "p @ p'"] exI [of _ "d + d'"] exI [of _ "r + r'"]) simp
qed

lemma moves_rel:
  assumes "moves b produced b1" and "rb_ready b @ produced = outs @ rb_ready b'"
    and "rb_next b' = rb_next b1" and "rb_held b' = rb_held b1" and "rb_stats b' = rb_stats b1"
  shows "reorder_rel b [] outs b'"
  using assms unfolding reorder_rel_def moves_def held_packets_def
  by (intro exI [of _ produced] exI [of _ "{#}"] exI [of _ 0]) simp

lemma seq_diff_ext: "word_of_int (mx + seq_diff seq mx) = seq"
  by (simp add: seq_diff_def)

lemma held_ok_raise:
  assumes "held_ok b n" and "n \<le> ext" and "bt_get (rb_held b) ext = None"
    and "word_of_int ext = sequence_number p"
  shows "held_ok (b\<lparr>rb_max_ext := max ext (rb_max_ext b),
           rb_held := bt_insert ext \<lparr>h_packet = p, h_arrived = now\<rparr> (rb_held b)\<rparr>) n"
proof -
  let ?t = "bt_insert ext \<lparr>h_packet = p, h_arrived = now\<rparr> (rb_held b)"
  have keys: "set ?t = insert (ext, \<lparr>h_packet = p, h_arrived = now\<rparr>) (set (rb_held b))"
    using mset_bt_insert [OF assms(3)] by (metis set_mset_add_mset_insert set_mset_mset)
  have "max ext (rb_max_ext b) \<in> fst ` set ?t"
    using assms(1,2) keys by (cases "rb_held b") (auto simp: held_ok_def max_def)
  moreover have "bt_ok ?t" using assms(1) bt_insert_ok by (auto simp: held_ok_def)
  ultimately show ?thesis
    using assms keys by (auto simp: held_ok_def)
qed

lemma push_new_spec:
  assumes inv: "wait_ok b" "ranges_ok b" "held_ok b n" "n \<notin> fst ` set (rb_held b)"
      "length (rb_held b) \<le> MAX_HELD" "rb_held b = [] \<longleftrightarrow> rb_gap_since b = None"
    and nxt: "rb_next b = Some n" and ext: "n \<le> ext" "word_of_int ext = sequence_number p"
    and new: "bt_get (rb_held b) ext = None"
  shows "\<exists>b' os. push_new p ext n now b = Some b' \<and> reorder_inv b' \<and>
    rb_ready b' = rb_ready b @ os \<and> tiling 0 (Some n) os (rb_next b') \<and>
    add_mset p (mset (held_packets b)) = mset (packets_of os) + mset (held_packets b') \<and>
    packets_received (rb_stats b') = packets_received (rb_stats b) \<and>
    packets_discarded (rb_stats b') = packets_discarded (rb_stats b) \<and>
    resets (rb_stats b') = resets (rb_stats b) \<and>
    lost (rb_stats b') = lost (rb_stats b) + lost_of os"
proof (cases "ext = n \<and> rb_held b = []")
  case True
  then show ?thesis using inv nxt ext
    by (auto simp: push_new_def reorder_inv_def wait_ok_def ranges_ok_def held_ok_def Let_def
        held_packets_def intro!: exI [of _ "[Packet p]"] tiling.intros)
next
  case False
  define b1 where "b1 = (if ext < rb_max_ext b
      then b\<lparr>rb_stats := (rb_stats b)\<lparr>reordered := reordered (rb_stats b) + 1\<rparr>\<rparr> else b)"
  define b2 where "b2 = (if rb_max_ext b1 < ext then b1\<lparr>rb_max_ext := ext\<rparr> else b1)"
  define b3 where "b3 = (if ext = n then (case rb_gap_since b2 of None \<Rightarrow> b2
      | Some since \<Rightarrow> observe now (saturating_duration_since now since) b2) else b2)"
  define b4 where "b4 = b3\<lparr>rb_held := bt_insert ext \<lparr>h_packet = p, h_arrived = now\<rparr> (rb_held b3)\<rparr>"
  have eq: "push_new p ext n now b = advance now b4"
    unfolding push_new_def Let_def b1_def [symmetric] b2_def [symmetric] b3_def [symmetric]
      b4_def [symmetric]
    using False by (auto simp: b2_def b1_def)
  have f: "rb_held b3 = rb_held b" "rb_next b3 = Some n" "rb_ready b3 = rb_ready b"
    "rb_max_ext b3 = max ext (rb_max_ext b)" "rb_lost_ranges b3 = rb_lost_ranges b"
    "packets_received (rb_stats b3) = packets_received (rb_stats b)"
    "packets_discarded (rb_stats b3) = packets_discarded (rb_stats b)"
    "resets (rb_stats b3) = resets (rb_stats b)" "lost (rb_stats b3) = lost (rb_stats b)"
    using nxt by (auto simp: b3_def b2_def b1_def split: option.splits)
  have w: "wait_ok b4"
    using inv(1) observe_wait_ok
    by (auto simp: b4_def b3_def b2_def b1_def wait_ok_def split: option.splits)
  have h: "held_ok b4 n"
    using held_ok_raise [OF inv(3) ext(1) new ext(2), of now] f
    by (simp add: held_ok_def b4_def)
  have r: "ranges_ok b4" using inv(2) f by (simp add: ranges_ok_def b4_def)
  have n4: "rb_next b4 = Some n" using f by (simp add: b4_def)
  obtain b' os where a: "advance now b4 = Some b'" "moves b4 os b'" "settled now b'"
    using advance_spec [OF h n4 r, of now] by blast
  have hp: "mset (held_packets b4) = add_mset p (mset (held_packets b))"
    using f by (simp add: held_packets_def b4_def mset_bt_insert [OF new])
  have "wait_ok b'" using w a(2) by (simp add: wait_ok_def moves_def)
  then have "reorder_inv b'" using a(3) by (auto simp: reorder_inv_def settled_def)
  moreover have "add_mset p (mset (held_packets b)) = mset (packets_of os) + mset (held_packets b')"
    using hp a(2) by (simp add: moves_def)
  ultimately show ?thesis
    using eq a f by (auto simp: moves_def b4_def intro!: exI [of _ os])
qed

lemma reset_spec:
  assumes "wait_ok b" and "held_ok b n" and "rb_next b = Some n"
  shows "reorder_inv (reorder_reset now p b)"
    and "\<exists>os n'. rb_ready (reorder_reset now p b) = rb_ready b @ os @ [Packet p] \<and>
      tiling 0 (Some n) os (Some n') \<and> held_packets b = packets_of os \<and>
      held_packets (reorder_reset now p b) = [] \<and>
      rb_next (reorder_reset now p b) = Some (uint (sequence_number p) + 1) \<and>
      packets_received (rb_stats (reorder_reset now p b)) = packets_received (rb_stats b) \<and>
      packets_discarded (rb_stats (reorder_reset now p b)) = packets_discarded (rb_stats b) \<and>
      resets (rb_stats (reorder_reset now p b)) = resets (rb_stats b) + 1 \<and>
      lost (rb_stats (reorder_reset now p b)) = lost (rb_stats b) + lost_of os"
proof -
  let ?b0 = "b\<lparr>rb_stats := (rb_stats b)\<lparr>resets := resets (rb_stats b) + 1\<rparr>\<rparr>"
  have "held_ok ?b0 n" "rb_next ?b0 = Some n" using assms by (simp_all add: held_ok_def)
  then obtain os n' where m: "moves ?b0 os (flush_loop now ?b0)"
    "rb_next (flush_loop now ?b0) = Some n'" "rb_held (flush_loop now ?b0) = []"
    using flush_loop_spec [of ?b0 n now] by blast
  then show "reorder_inv (reorder_reset now p b)" using assms(1)
    by (auto simp: reorder_inv_def reorder_reset_def flush_held_def Let_def wait_ok_def moves_def
        ranges_ok_def held_ok_def)
  show "\<exists>os n'. rb_ready (reorder_reset now p b) = rb_ready b @ os @ [Packet p] \<and>
      tiling 0 (Some n) os (Some n') \<and> held_packets b = packets_of os \<and>
      held_packets (reorder_reset now p b) = [] \<and>
      rb_next (reorder_reset now p b) = Some (uint (sequence_number p) + 1) \<and>
      packets_received (rb_stats (reorder_reset now p b)) = packets_received (rb_stats b) \<and>
      packets_discarded (rb_stats (reorder_reset now p b)) = packets_discarded (rb_stats b) \<and>
      resets (rb_stats (reorder_reset now p b)) = resets (rb_stats b) + 1 \<and>
      lost (rb_stats (reorder_reset now p b)) = lost (rb_stats b) + lost_of os"
    using m assms(3)
    by (intro exI [of _ os] exI [of _ n'])
      (auto simp: reorder_reset_def flush_held_def Let_def moves_def held_packets_def)
qed

lemma push_late_spec:
  assumes "reorder_inv b"
  shows "reorder_inv (push_late ext now b)"
    and "rb_next (push_late ext now b) = rb_next b" and "rb_held (push_late ext now b) = rb_held b"
    and "rb_ready (push_late ext now b) = rb_ready b"
    and "packets_received (rb_stats (push_late ext now b)) = packets_received (rb_stats b)"
    and "packets_discarded (rb_stats (push_late ext now b)) = packets_discarded (rb_stats b) + 1"
    and "resets (rb_stats (push_late ext now b)) = resets (rb_stats b)"
    and "lost (rb_stats (push_late ext now b)) = lost (rb_stats b)"
  using assms observe_wait_ok
  by (auto simp: push_late_def bump_discarded_def Let_def reorder_inv_def ranges_ok_def held_ok_def
      wait_ok_def split: option.splits)

lemma reorder_push_spec:
  assumes "reorder_inv b0"
  shows "\<exists>b'. reorder_push p now b0 = Some b' \<and> reorder_inv b' \<and> reorder_rel b0 [Push p now] [] b'"
proof -
  define b where "b = refresh_wait now
      (b0\<lparr>rb_stats := (rb_stats b0)\<lparr>packets_received := packets_received (rb_stats b0) + 1\<rparr>\<rparr>)"
  have f: "rb_next b = rb_next b0" "rb_held b = rb_held b0" "rb_ready b = rb_ready b0"
    "rb_max_ext b = rb_max_ext b0" "rb_gap_since b = rb_gap_since b0"
    "held_packets b = held_packets b0"
    "packets_received (rb_stats b) = packets_received (rb_stats b0) + 1"
    "packets_discarded (rb_stats b) = packets_discarded (rb_stats b0)"
    "resets (rb_stats b) = resets (rb_stats b0)" "lost (rb_stats b) = lost (rb_stats b0)"
    by (simp_all add: b_def held_packets_def)
  have "wait_ok b" using assms refresh_wait_ok by (auto simp: b_def reorder_inv_def wait_ok_def)
  then have inv: "reorder_inv b"
    using assms f
    by (auto simp: reorder_inv_def b_def ranges_ok_def held_ok_def split: option.splits)
  have push: "reorder_push p now b0 = (case rb_next b of
       None \<Rightarrow> Some (b\<lparr>rb_next := Some (uint (sequence_number p) + 1),
                 rb_max_ext := uint (sequence_number p), rb_ready := rb_ready b @ [Packet p]\<rparr>)
     | Some nxt \<Rightarrow>
         (let diff = seq_diff (sequence_number p) (rb_max_ext b); ext = rb_max_ext b + diff
          in if RESET_JUMP < \<bar>diff\<bar> then Some (reorder_reset now p b)
             else if ext < nxt then Some (push_late ext now b)
             else if bt_get (rb_held b) ext \<noteq> None then Some (bump_discarded b)
             else push_new p ext nxt now b))"
    unfolding reorder_push_def b_def [symmetric] Let_def ..
  have rel: "reorder_rel b0 [Push p now] [] b'"
    if "rb_ready b' = rb_ready b @ os" "tiling r (rb_next b) os (rb_next b')"
      "add_mset p (mset (held_packets b)) = mset (packets_of os) + mset (held_packets b') + d"
      "packets_received (rb_stats b') = packets_received (rb_stats b)"
      "packets_discarded (rb_stats b') = packets_discarded (rb_stats b) + size d"
      "resets (rb_stats b') = resets (rb_stats b) + r"
      "lost (rb_stats b') = lost (rb_stats b) + lost_of os" for b' os r d
    unfolding reorder_rel_def using that f
    by (intro exI [of _ os] exI [of _ d] exI [of _ r]) simp
  show ?thesis
  proof (cases "rb_next b")
    case None
    let ?b = "b\<lparr>rb_next := Some (uint (sequence_number p) + 1),
        rb_max_ext := uint (sequence_number p), rb_ready := rb_ready b @ [Packet p]\<rparr>"
    have "reorder_inv ?b"
      using inv None by (auto simp: reorder_inv_def held_ok_def wait_ok_def ranges_ok_def)
    moreover have "reorder_rel b0 [Push p now] [] ?b"
      using inv None
      by (intro rel [of _ "[Packet p]" 0 "{#}"])
        (auto simp: reorder_inv_def held_packets_def intro: tiling.intros)
    ultimately show ?thesis using push None by simp
  next
    case (Some n)
    define ext where "ext = rb_max_ext b + seq_diff (sequence_number p) (rb_max_ext b)"
    have ext: "word_of_int ext = sequence_number p" unfolding ext_def by (rule seq_diff_ext)
    have i: "wait_ok b" "ranges_ok b" "held_ok b n" "n \<notin> fst ` set (rb_held b)"
      "length (rb_held b) \<le> MAX_HELD" "rb_held b = [] \<longleftrightarrow> rb_gap_since b = None"
      using inv Some by (auto simp: reorder_inv_def)
    consider (reset) "RESET_JUMP < \<bar>seq_diff (sequence_number p) (rb_max_ext b)\<bar>"
      | (late) "\<not> RESET_JUMP < \<bar>seq_diff (sequence_number p) (rb_max_ext b)\<bar>" "ext < n"
      | (dup) "\<not> RESET_JUMP < \<bar>seq_diff (sequence_number p) (rb_max_ext b)\<bar>" "n \<le> ext"
          "bt_get (rb_held b) ext \<noteq> None"
      | (new) "\<not> RESET_JUMP < \<bar>seq_diff (sequence_number p) (rb_max_ext b)\<bar>" "n \<le> ext"
          "bt_get (rb_held b) ext = None"
      by linarith
    then show ?thesis
    proof cases
      case reset
      note rs = reset_spec [OF i(1,3) Some, of now p]
      obtain os n' where o: "rb_ready (reorder_reset now p b) = rb_ready b @ os @ [Packet p]"
        "tiling 0 (Some n) os (Some n')" "held_packets b = packets_of os"
        "held_packets (reorder_reset now p b) = []"
        "rb_next (reorder_reset now p b) = Some (uint (sequence_number p) + 1)"
        "packets_received (rb_stats (reorder_reset now p b)) = packets_received (rb_stats b)"
        "packets_discarded (rb_stats (reorder_reset now p b)) = packets_discarded (rb_stats b)"
        "resets (rb_stats (reorder_reset now p b)) = resets (rb_stats b) + 1"
        "lost (rb_stats (reorder_reset now p b)) = lost (rb_stats b) + lost_of os"
        using rs(2) by blast
      have "tiling 1 (Some n') [Packet p] (Some (uint (sequence_number p) + 1))"
        using tiling.reset [of 0 p "[]"] by (auto intro: tiling.intros)
      then have "tiling 1 (Some n) (os @ [Packet p]) (Some (uint (sequence_number p) + 1))"
        using tiling_trans [OF o(2)] by fastforce
      then have "reorder_rel b0 [Push p now] [] (reorder_reset now p b)"
        using o Some by (intro rel [of _ "os @ [Packet p]" 1 "{#}"]) auto
      then show ?thesis using push Some reset rs(1) by (simp add: Let_def)
    next
      case late
      have "reorder_rel b0 [Push p now] [] (push_late ext now b)"
        using push_late_spec [OF inv, of ext now]
        by (intro rel [of _ "[]" 0 "{#p#}"]) (auto simp: held_packets_def)
      then show ?thesis
        using push Some late push_late_spec(1) [OF inv] by (simp add: Let_def ext_def)
    next
      case dup
      have "reorder_inv (bump_discarded b)"
        using inv by (auto simp: reorder_inv_def bump_discarded_def wait_ok_def ranges_ok_def
            held_ok_def split: option.splits)
      moreover have "reorder_rel b0 [Push p now] [] (bump_discarded b)"
        by (intro rel [of _ "[]" 0 "{#p#}"]) (auto simp: held_packets_def bump_discarded_def)
      ultimately show ?thesis using push Some dup by (simp add: Let_def ext_def)
    next
      case new
      obtain b' os where n: "push_new p ext n now b = Some b'" "reorder_inv b'"
        "rb_ready b' = rb_ready b @ os" "tiling 0 (Some n) os (rb_next b')"
        "add_mset p (mset (held_packets b)) = mset (packets_of os) + mset (held_packets b')"
        "packets_received (rb_stats b') = packets_received (rb_stats b)"
        "packets_discarded (rb_stats b') = packets_discarded (rb_stats b)"
        "resets (rb_stats b') = resets (rb_stats b)"
        "lost (rb_stats b') = lost (rb_stats b) + lost_of os"
        using push_new_spec [OF i Some new(2) ext new(3), of now] by blast
      have "reorder_rel b0 [Push p now] [] b'"
        using n Some by (intro rel [of _ os 0 "{#}"]) auto
      then show ?thesis using push Some new n(1,2) by (simp add: Let_def ext_def)
    qed
  qed
qed

text \<open>Polling settles the buffer: what is still held waits for a gap that has not expired.\<close>

lemma reorder_poll_spec:
  assumes "reorder_inv b0"
  shows "\<exists>b' outs. reorder_poll now b0 = Some (b', outs) \<and> reorder_inv b' \<and>
    reorder_rel b0 [Poll now] outs b' \<and> rb_ready b' = [] \<and>
    (\<forall>t. rb_gap_since b' = Some t \<longrightarrow> now < t + rb_wait b')"
proof -
  define b where "b = refresh_wait now b0"
  have w: "wait_ok b" using assms refresh_wait_ok by (auto simp: b_def reorder_inv_def wait_ok_def)
  have rel: "reorder_rel b0 [Poll now] outs b'" if "reorder_rel b [] outs b'" for outs b'
    using that unfolding reorder_rel_def by (simp add: b_def held_packets_def)
  show ?thesis
  proof (cases "rb_next b0")
    case None
    let ?b1 = "b\<lparr>rb_gap_since := None\<rparr>"
    have "rb_held b = []" using assms None by (simp add: reorder_inv_def b_def)
    then have "reorder_poll now b0 = Some (?b1\<lparr>rb_ready := []\<rparr>, rb_ready b)"
      by (simp add: reorder_poll_def advance_empty flip: b_def)
    moreover have "reorder_inv (?b1\<lparr>rb_ready := []\<rparr>)"
      using assms None w by (auto simp: reorder_inv_def b_def wait_ok_def ranges_ok_def)
    moreover have "reorder_rel b [] (rb_ready b) (?b1\<lparr>rb_ready := []\<rparr>)"
      by (rule moves_rel [OF moves_refl]) simp_all
    ultimately show ?thesis using rel by auto
  next
    case (Some n)
    have "held_ok b n" "rb_next b = Some n" "ranges_ok b"
      using assms Some by (auto simp: reorder_inv_def b_def held_ok_def ranges_ok_def)
    then obtain b1 os where a: "advance now b = Some b1" "moves b os b1" "settled now b1"
      using advance_spec [of b n now] by blast
    have "reorder_poll now b0 = Some (b1\<lparr>rb_ready := []\<rparr>, rb_ready b1)"
      using a(1) by (simp add: reorder_poll_def flip: b_def)
    moreover have "reorder_inv (b1\<lparr>rb_ready := []\<rparr>)"
      using a w by (auto simp: reorder_inv_def settled_def wait_ok_def ranges_ok_def held_ok_def moves_def)
    moreover have "reorder_rel b [] (rb_ready b1) (b1\<lparr>rb_ready := []\<rparr>)"
      using a(2) by (intro moves_rel [OF a(2)]) (auto simp: moves_def)
    ultimately show ?thesis using rel a(3) by (auto simp: settled_def)
  qed
qed

lemma reorder_flush_spec:
  assumes "reorder_inv b"
  shows "reorder_inv (fst (reorder_flush now b))"
    and "reorder_rel b [Flush now] (snd (reorder_flush now b)) (fst (reorder_flush now b))"
    and "rb_held (fst (reorder_flush now b)) = []"
proof -
  let ?b1 = "flush_loop now b"
  have fl: "reorder_flush now b = (?b1\<lparr>rb_gap_since := None, rb_ready := []\<rparr>, rb_ready ?b1)"
    by (simp add: reorder_flush_def flush_held_def Let_def)
  have *: "\<exists>os. moves b os ?b1 \<and> rb_held ?b1 = [] \<and> ranges_ok ?b1 \<and>
      (case rb_next ?b1 of None \<Rightarrow> rb_max_ext ?b1 = 0 | Some n \<Rightarrow> held_ok ?b1 n)"
  proof (cases "rb_next b")
    case None
    then show ?thesis using assms
      by (auto simp: reorder_inv_def flush_loop_empty intro: moves_refl exI [of _ "[]"])
  next
    case (Some n)
    moreover have "ranges_ok ?b1"
      using assms Some flush_loop_ranges [of b n now] by (auto simp: reorder_inv_def)
    ultimately show ?thesis using assms flush_loop_spec [of b n now]
      by (fastforce simp: reorder_inv_def)
  qed
  then obtain os where m: "moves b os ?b1" "rb_held ?b1 = []" "ranges_ok ?b1"
      "case rb_next ?b1 of None \<Rightarrow> rb_max_ext ?b1 = 0 | Some n \<Rightarrow> held_ok ?b1 n"
    by blast
  show "reorder_inv (fst (reorder_flush now b))"
    using assms m unfolding fl
    by (auto simp: reorder_inv_def moves_def wait_ok_def ranges_ok_def held_ok_def split: option.splits)
  have "reorder_rel b [] (rb_ready ?b1) (?b1\<lparr>rb_gap_since := None, rb_ready := []\<rparr>)"
    using m(1) by (intro moves_rel [OF m(1)]) (auto simp: moves_def)
  then show "reorder_rel b [Flush now] (snd (reorder_flush now b)) (fst (reorder_flush now b))"
    unfolding fl reorder_rel_def by simp
  show "rb_held (fst (reorder_flush now b)) = []" using m unfolding fl by simp
qed

interpretation reorder: traced_component reorder_step reorder_inv reorder_rel
proof
  fix s op assume "reorder_inv s"
  then show "\<exists>s' out. reorder_step s op = Some (s', out) \<and> reorder_inv s'"
    using reorder_push_spec reorder_poll_spec reorder_flush_spec(1)
    by (cases op) (fastforce simp: prod_eq_iff)+
next
  fix s show "reorder_rel s [] [] s"
    unfolding reorder_rel_def by (intro exI [of _ "[]"] exI [of _ "{#}"] exI [of _ 0]) simp
next
  fix s op s' out assume i: "reorder_inv s" and st: "reorder_step s op = Some (s', out)"
  show "reorder_rel s [op] out s'"
  proof (cases op)
    case (Push p now)
    then show ?thesis using st reorder_push_spec [OF i, of p now] by auto
  next
    case (Poll now)
    then show ?thesis using st reorder_poll_spec [OF i, of now] by auto
  next
    case (Flush now)
    then show ?thesis using st reorder_flush_spec(2) [OF i, of now] by auto
  qed
next
  fix s xs o1 s1 ys o2 s2
  assume "reorder_rel s xs o1 s1" and "reorder_rel s1 ys o2 s2"
  then show "reorder_rel s (xs @ ys) (o1 @ o2) s2" by (rule reorder_rel_trans)
qed

section \<open>Properties\<close>

definition reorder_start :: reorder_buffer where
  "reorder_start = reorder_new default_stats"

lemma reorder_start_inv: "reorder_inv reorder_start"
  unfolding reorder_start_def by (rule reorder_inv_new)

text \<open>Concrete packets for the witnesses: sequence numbers 65534, 0 (65535 is missing), 5000.\<close>

definition demo_packet :: "16 word \<Rightarrow> rtp_packet" where
  "demo_packet q = \<lparr>payload = [ucast q], sequence_number = q, timestamp = 0, payload_type = 111\<rparr>"

definition demo_ops :: "reorder_op list" where
  "demo_ops = [Push (demo_packet 65534) 0, Push (demo_packet 0) 0, Push (demo_packet 0) 5,
     Poll (ms 20), Push (demo_packet 5000) (ms 21), Poll (ms 21)]"

text \<open>
  C1: whatever packets arrive, in whatever order, and whenever the buffer is polled or flushed,
  its output reads the 16-bit sequence space in order: every packet stands exactly at the next
  position, every declared loss has a positive length and is followed by the packet that ends it,
  and only the resets counted in the statistics restart the sequence.
\<close>

theorem reorder_output_tiles:
  assumes "run_ops reorder_step reorder_start ops = Some (b, outs)"
  shows "tiling (resets (rb_stats b)) None (outs @ rb_ready b) (rb_next b)"
  using reorder.run_rel [OF reorder_start_inv assms]
  by (auto simp: reorder_rel_def reorder_start_def reorder_new_def default_stats_def)

theorem reorder_output_tiles_witness:
  "\<exists>b. run_ops reorder_step reorder_start demo_ops =
       Some (b, [Packet (demo_packet 65534), Lost 1 (Some [0]), Packet (demo_packet 0),
                 Packet (demo_packet 5000)]) \<and>
     tiling 1 None ([Packet (demo_packet 65534), Lost 1 (Some [0]), Packet (demo_packet 0),
                 Packet (demo_packet 5000)] @ rb_ready b) (rb_next b)"
proof -
  have "map_option (\<lambda>(b, outs). (resets (rb_stats b), outs))
      (run_ops reorder_step reorder_start demo_ops) =
    Some (1, [Packet (demo_packet 65534), Lost 1 (Some [0]), Packet (demo_packet 0),
                 Packet (demo_packet 5000)])"
    by code_simp
  then show ?thesis using reorder_output_tiles [of demo_ops] by force
qed

text \<open>
  C3: no sequence of operations makes the buffer panic; it never holds more than 50 packets after
  an operation, and its adaptive wait stays between 20 and 60 ms.
\<close>

theorem reorder_never_panics:
  "\<exists>b outs. run_ops reorder_step reorder_start ops = Some (b, outs) \<and>
     length (rb_held b) \<le> 50 \<and> ms 20 \<le> rb_wait b \<and> rb_wait b \<le> ms 60"
  using reorder.run_ok [OF reorder_start_inv, of ops] wait_of_bounds
  by (force simp: reorder_inv_def wait_ok_def MAX_HELD_def MIN_WAIT_def MAX_WAIT_def)

text \<open>
  C2: a received packet is never lost to capacity: every packet pushed is emitted once, or still
  held, or one of the discarded ones (duplicates and packets later than their declared loss), and
  the counters \<open>packets_received\<close>, \<open>packets_discarded\<close> and \<open>lost\<close> are exact.
\<close>

theorem reorder_conserves_packets:
  assumes "run_ops reorder_step reorder_start ops = Some (b, outs)"
  shows "\<exists>dropped. mset (pushed ops) =
      mset (packets_of (outs @ rb_ready b)) + mset (held_packets b) + dropped \<and>
    packets_discarded (rb_stats b) = size dropped \<and>
    packets_received (rb_stats b) = length (pushed ops) \<and>
    lost (rb_stats b) = lost_of (outs @ rb_ready b)"
  using reorder.run_rel [OF reorder_start_inv assms]
  by (auto simp: reorder_rel_def reorder_start_def reorder_new_def default_stats_def
      held_packets_def)

theorem reorder_conserves_packets_witness:
  "\<exists>b outs dropped. run_ops reorder_step reorder_start demo_ops = Some (b, outs) \<and>
     mset (pushed demo_ops) = mset (packets_of (outs @ rb_ready b)) + mset (held_packets b) + dropped \<and>
     size dropped = 1"
proof -
  have "map_option (\<lambda>(b, outs). packets_discarded (rb_stats b))
      (run_ops reorder_step reorder_start demo_ops) = Some 1"
    by code_simp
  then show ?thesis using reorder_conserves_packets [of demo_ops] by fastforce
qed

text \<open>
  C4: the bounded wait is honoured: a poll at or after the deadline announced by
  \<open>next_deadline\<close> releases the head gap, as one \<open>Lost\<close> directly followed by the packet that was
  waiting behind it; the deadline is at most 60 ms after the gap was first seen.
\<close>

theorem reorder_deadline_releases:
  assumes "run_ops reorder_step reorder_start ops = Some (b, outs)"
    and "next_deadline b = Some d" and "d \<le> now"
  shows "\<exists>b' n p rest since. reorder_poll now b =
      Some (b', rb_ready b @ Lost n (Some (payload p)) # Packet p # rest) \<and>
    hd (held_packets b) = p \<and> rb_gap_since b = Some since \<and> d \<le> since + ms 60"
proof -
  have inv: "reorder_inv b" by (rule reorder.run_inv [OF reorder_start_inv assms(1)])
  obtain f h rest where held: "rb_held b = (f, h) # rest"
    using assms(2) by (cases "rb_held b") (auto simp: next_deadline_def)
  obtain since where since: "rb_gap_since b = Some since" "d = since + rb_wait b"
    using assms(2) by (auto simp: next_deadline_def split: if_splits)
  obtain n where n: "rb_next b = Some n" "held_ok b n" "n \<noteq> f"
    using inv held by (auto simp: reorder_inv_def split: option.splits)
  let ?b = "(refresh_wait now b)\<lparr>rb_gap_since := Some since\<rparr>"
  let ?lost = "declare_lost n f now ?b"
  have b: "held_ok ?b n" "rb_next ?b = Some n" "rb_held ?b = (f, h) # rest" "f \<noteq> n"
    "ranges_ok ?b"
    using n held inv by (auto simp: held_ok_def reorder_inv_def ranges_ok_def)
  note dl = declare_lost_step [OF b(1-4)]
  have "since + rb_wait (refresh_wait now b) \<le> now"
    using refresh_wait_shrinks [of b now] inv since assms(3) by (auto simp: reorder_inv_def)
  then have "advance now (refresh_wait now b) = advance now (?lost\<lparr>rb_gap_since := None\<rparr>)"
    using held n since by (simp add: advance.simps [of now "refresh_wait now b"] Let_def)
  moreover obtain b' os' where "advance now (?lost\<lparr>rb_gap_since := None\<rparr>) = Some b'"
    "moves ?lost (Packet (h_packet h) # os') b'"
    using advance_spec [of "?lost\<lparr>rb_gap_since := None\<rparr>" f now] dl(2) dl(3) [OF b(5)] held by fastforce
  moreover from this have "rb_ready b' =
      rb_ready b @ Lost (nat (f - n)) (Some (payload (h_packet h))) # Packet (h_packet h) # os'"
    using dl(4) by (simp add: moves_def)
  ultimately show ?thesis
    using held since inv wait_of_bounds(2) [of "rb_observations b"]
    by (auto simp: reorder_poll_def held_packets_def reorder_inv_def wait_ok_def MAX_WAIT_def)
qed

theorem reorder_deadline_releases_witness:
  "\<exists>b outs b' n p rest.
     run_ops reorder_step reorder_start [Push (demo_packet 7) 0, Push (demo_packet 9) (ms 3)] =
       Some (b, outs) \<and>
     reorder_poll (ms 23) b = Some (b', rb_ready b @ Lost n (Some (payload p)) # Packet p # rest)"
proof -
  have "map_option (\<lambda>(b, outs). next_deadline b)
      (run_ops reorder_step reorder_start [Push (demo_packet 7) 0, Push (demo_packet 9) (ms 3)]) =
    Some (Some (ms 23))"
    by code_simp
  then show ?thesis
    using reorder_deadline_releases [of "[Push (demo_packet 7) 0, Push (demo_packet 9) (ms 3)]"]
    by force
qed

text \<open>
  a clean link adds no delay: when nothing is held and the packet at the next position
  arrives, the poll at the same instant returns it and no deadline is pending.
\<close>

theorem reorder_in_order_immediate:
  assumes "run_ops reorder_step reorder_start ops = Some (b, outs)"
    and "rb_held b = []" and "rb_next b = Some n" and "sequence_number p = word_of_int n"
  shows "\<exists>b1 b2. reorder_push p now b = Some b1 \<and> next_deadline b1 = None \<and>
    reorder_poll now b1 = Some (b2, rb_ready b @ [Packet p]) \<and> rb_next b2 = Some (n + 1)"
proof -
  have inv: "reorder_inv b" by (rule reorder.run_inv [OF reorder_start_inv assms(1)])
  have "rb_max_ext b = n - 1" using inv assms(2,3) by (auto simp: reorder_inv_def held_ok_def)
  then have "seq_diff (sequence_number p) (rb_max_ext b) = 1"
    using assms(4) by (simp add: seq_diff_def)
  then have "\<exists>b1. reorder_push p now b = Some b1 \<and> rb_held b1 = [] \<and>
      rb_ready b1 = rb_ready b @ [Packet p] \<and> rb_next b1 = Some (n + 1)"
    using assms(2,3) \<open>rb_max_ext b = n - 1\<close>
    by (auto simp: reorder_push_def push_new_def RESET_JUMP_def Let_def)
  then show ?thesis
    by (auto simp: reorder_poll_def advance_empty next_deadline_def)
qed

theorem reorder_in_order_immediate_witness:
  "\<exists>b outs b1 b2.
     run_ops reorder_step reorder_start [Push (demo_packet 65535) 0, Poll 0] = Some (b, outs) \<and>
     reorder_push (demo_packet 0) (ms 20) b = Some b1 \<and> next_deadline b1 = None \<and>
     reorder_poll (ms 20) b1 = Some (b2, rb_ready b @ [Packet (demo_packet 0)])"
proof -
  have "map_option (\<lambda>(b, outs). (rb_held b = [], rb_next b))
      (run_ops reorder_step reorder_start [Push (demo_packet 65535) 0, Poll 0]) =
    Some (True, Some 65536)"
    by code_simp
  then obtain b outs where b: "run_ops reorder_step reorder_start
      [Push (demo_packet 65535) 0, Poll 0] = Some (b, outs)" "rb_held b = []"
      "rb_next b = Some 65536"
    by auto
  have "sequence_number (demo_packet 0) = word_of_int 65536"
    by (simp add: demo_packet_def)
  then show ?thesis using reorder_in_order_immediate [OF b] b(1) by blast
qed

end
