(* ===== verification/Text_Model.thy ===== *)
theory Text_Model
  imports Prelude
begin

text \<open>
  Rust \<open>str\<close>/\<open>String\<close> values as lists of Unicode scalar values.  \<open>char::is_whitespace\<close> is the
  Unicode property \<open>White_Space\<close> (25 code points), written out; \<open>str::trim\<close> and
  \<open>split_whitespace\<close> are built on it as in the standard library.
\<close>

type_synonym uchar = nat
type_synonym ustring = "uchar list"

definition utext :: "string \<Rightarrow> ustring" where
  "utext s = map of_char s"

definition is_whitespace :: "uchar \<Rightarrow> bool" where
  "is_whitespace c \<longleftrightarrow> (9 \<le> c \<and> c \<le> 13) \<or> c = 32 \<or> c = 133 \<or> c = 160 \<or> c = 5760 \<or>
     (8192 \<le> c \<and> c \<le> 8202) \<or> c = 8232 \<or> c = 8233 \<or> c = 8239 \<or> c = 8287 \<or> c = 12288"

definition trim_start :: "ustring \<Rightarrow> ustring" where
  "trim_start t = dropWhile is_whitespace t"

definition trim_end :: "ustring \<Rightarrow> ustring" where
  "trim_end t = rev (dropWhile is_whitespace (rev t))"

definition trim :: "ustring \<Rightarrow> ustring" where
  "trim t = trim_end (trim_start t)"

text \<open>\<open>split_whitespace\<close>: the maximal runs of non-whitespace, in order.\<close>

fun words_acc :: "ustring \<Rightarrow> ustring \<Rightarrow> ustring list" where
  "words_acc w [] = (if w = [] then [] else [rev w])"
| "words_acc w (c # cs) =
     (if is_whitespace c then (if w = [] then words_acc [] cs else rev w # words_acc [] cs)
      else words_acc (c # w) cs)"

definition split_whitespace :: "ustring \<Rightarrow> ustring list" where
  "split_whitespace t = words_acc [] t"

lemma trim_start_id: "t = [] \<or> \<not> is_whitespace (hd t) \<Longrightarrow> trim_start t = t"
  by (cases t) (auto simp: trim_start_def)

lemma trim_end_id: "t = [] \<or> \<not> is_whitespace (last t) \<Longrightarrow> trim_end t = t"
  by (cases t rule: rev_cases) (auto simp: trim_end_def)

lemma trim_id: "\<not> is_whitespace (hd t) \<Longrightarrow> \<not> is_whitespace (last t) \<Longrightarrow> trim t = t"
  by (simp add: trim_def trim_start_id trim_end_id)

lemma trim_Nil [simp]: "trim [] = []"
  by (simp add: trim_def trim_start_def trim_end_def)

text \<open>\<open>format!("{n}")\<close> of an unsigned integer.\<close>

fun decimal :: "nat \<Rightarrow> ustring" where
  "decimal n = (if n < 10 then [48 + n] else decimal (n div 10) @ [48 + n mod 10])"

declare decimal.simps [simp del]

end
