(* ===== verification/Pipeline.thy ===== *)
theory Pipeline
  imports Text_Model
begin

text \<open>
  Data of \<open>crates/speech/src/pipeline.rs\<close> that the speech components exchange: transcripts, the
  items of an STT provider's output stream, how a provider ends an utterance, and synthesized
  audio chunks.
\<close>

datatype stt_transcript = Partial ustring | Final ustring

datatype stt_output = Transcript stt_transcript | FinalizeDone

datatype finalize_mode = Inline | Deferred

record tts_audio_chunk =
  pcm :: bytes
  duration_ms :: nat

text \<open>\<open>SpeechError\<close> (\<open>error.rs\<close>) and its \<open>Display\<close>.\<close>

datatype speech_error =
    Config ustring
  | NotAttached
  | AlreadyRunning
  | NotRunning
  | Vendor ustring ustring
  | Vad ustring
  | Tts ustring
  | Stt ustring
  | TtsShutdownUnhealthy
  | Internal ustring

fun speech_error_to_string :: "speech_error \<Rightarrow> ustring" where
  "speech_error_to_string (Config e) = utext ''invalid configuration: '' @ e"
| "speech_error_to_string NotAttached = utext ''voice agent not attached''"
| "speech_error_to_string AlreadyRunning = utext ''voice agent already running''"
| "speech_error_to_string NotRunning = utext ''voice agent not running''"
| "speech_error_to_string (Vendor v e) = utext ''vendor error ('' @ v @ utext ''): '' @ e"
| "speech_error_to_string (Vad e) = utext ''VAD error: '' @ e"
| "speech_error_to_string (Tts e) = utext ''TTS error: '' @ e"
| "speech_error_to_string (Stt e) = utext ''STT error: '' @ e"
| "speech_error_to_string TtsShutdownUnhealthy =
     utext ''TTS shutdown unhealthy: worker join timed out (recycle required)''"
| "speech_error_to_string (Internal e) = utext ''internal error: '' @ e"

definition DEFAULT_STT_FINALIZE_WAIT_MS :: nat where
  "DEFAULT_STT_FINALIZE_WAIT_MS = 10000"

end
