(* ===== verification/Stt_Deferred.thy ===== *)
theory Stt_Deferred
  imports Pipeline
begin

text \<open>
  \<open>crates/speech/src/stt_deferred.rs\<close>: the output queue of a deferred STT provider.  One
  utterance is one \<open>Final\<close>, directly followed by one \<open>FinalizeDone\<close> per finalize request.
\<close>

section \<open>State and operations\<close>

datatype item = Output stt_output | Failure ustring

record deferred_finals =
  df_queue :: "item list"
  df_pending :: "instant list"
  df_segments :: ustring

definition deferred_new :: deferred_finals where
  "deferred_new = \<lparr>df_queue = [], df_pending = [], df_segments = []\<rparr>"

definition deferred_pending :: "deferred_finals \<Rightarrow> nat" where
  "deferred_pending d = length (df_pending d)"

definition deferred_has_segments :: "deferred_finals \<Rightarrow> bool" where
  "deferred_has_segments d \<longleftrightarrow> df_segments d \<noteq> []"

definition deferred_join :: "ustring \<Rightarrow> ustring \<Rightarrow> ustring" where
  "deferred_join head tail = (if head = [] then tail else head @ utext '' '' @ tail)"

definition deferred_enqueue :: "item \<Rightarrow> deferred_finals \<Rightarrow> deferred_finals" where
  "deferred_enqueue i d = d\<lparr>df_queue := df_queue d @ [i]\<rparr>"

definition deferred_interim :: "ustring \<Rightarrow> deferred_finals \<Rightarrow> deferred_finals" where
  "deferred_interim t d =
     (let t = trim t
      in if t = [] then d
         else deferred_enqueue (Output (Transcript (Partial (deferred_join (df_segments d) t)))) d)"

definition deferred_segment :: "ustring \<Rightarrow> deferred_finals \<Rightarrow> deferred_finals" where
  "deferred_segment t d =
     (let t = trim t
      in if t = [] then d
         else
           (let s = deferred_join (df_segments d) t
            in deferred_enqueue (Output (Transcript (Partial s))) (d\<lparr>df_segments := s\<rparr>)))"

definition deferred_request :: "instant \<Rightarrow> deferred_finals \<Rightarrow> deferred_finals" where
  "deferred_request now d = d\<lparr>df_pending := df_pending d @ [now]\<rparr>"

definition deferred_flush :: "deferred_finals \<Rightarrow> deferred_finals" where
  "deferred_flush d =
     (if df_segments d = [] then d
      else deferred_enqueue (Output (Transcript (Final (df_segments d)))) (d\<lparr>df_segments := []\<rparr>))"

definition deferred_answer :: "deferred_finals \<Rightarrow> bool \<times> deferred_finals" where
  "deferred_answer d =
     (case df_pending d of
        [] \<Rightarrow> (False, d)
      | _ # rest \<Rightarrow> (True, deferred_enqueue (Output FinalizeDone) (deferred_flush (d\<lparr>df_pending := rest\<rparr>))))"

definition deferred_fail :: "ustring \<Rightarrow> deferred_finals \<Rightarrow> deferred_finals" where
  "deferred_fail msg d =
     (let d1 = deferred_enqueue (Failure msg) d
      in case df_pending d1 of
           [] \<Rightarrow> d1
         | _ # rest \<Rightarrow> deferred_enqueue (Output FinalizeDone) (deferred_flush (d1\<lparr>df_pending := rest\<rparr>)))"

definition deferred_fail_without_answer :: "ustring \<Rightarrow> deferred_finals \<Rightarrow> deferred_finals" where
  "deferred_fail_without_answer msg d = deferred_enqueue (Failure msg) d"

lemma pending_answer: "df_pending (snd (deferred_answer d)) = tl (df_pending d)"
  by (cases "df_pending d") (simp_all add: deferred_answer_def deferred_enqueue_def deferred_flush_def)

function deferred_expire :: "instant \<Rightarrow> duration \<Rightarrow> deferred_finals \<Rightarrow> deferred_finals" where
  "deferred_expire now wait d =
     (case df_pending d of
        [] \<Rightarrow> d
      | at # _ \<Rightarrow>
          if wait \<le> saturating_duration_since now at then deferred_expire now wait (snd (deferred_answer d)) else d)"
  by pat_completeness auto
termination
  by (relation "measure (\<lambda>(now, wait, d). length (df_pending d))") (auto simp: pending_answer)

declare deferred_expire.simps [simp del]

text \<open>\<open>while self.answer() {}\<close>\<close>

function deferred_answer_all :: "deferred_finals \<Rightarrow> deferred_finals" where
  "deferred_answer_all d =
     (case df_pending d of [] \<Rightarrow> d | _ # _ \<Rightarrow> deferred_answer_all (snd (deferred_answer d)))"
  by pat_completeness auto
termination
  by (relation "measure (\<lambda>d. length (df_pending d))") (auto simp: pending_answer)

declare deferred_answer_all.simps [simp del]

definition deferred_lost :: "ustring \<Rightarrow> deferred_finals \<Rightarrow> deferred_finals" where
  "deferred_lost msg d =
     (if df_pending d = [] \<and> df_segments d = [] then d
      else
        (let d1 = deferred_enqueue (Failure msg) d
         in if df_pending d1 = [] then d1\<lparr>df_segments := []\<rparr> else deferred_answer_all d1))"

fun is_transcript :: "item \<Rightarrow> bool" where
  "is_transcript (Output (Transcript t)) = True"
| "is_transcript _ = False"

definition deferred_discard_transcripts :: "deferred_finals \<Rightarrow> nat \<times> deferred_finals" where
  "deferred_discard_transcripts d =
     (let q = filter (\<lambda>i. \<not> is_transcript i) (df_queue d)
      in (length (df_queue d) - length q, d\<lparr>df_queue := q\<rparr>))"

definition deferred_clear :: "deferred_finals \<Rightarrow> deferred_finals" where
  "deferred_clear d = d\<lparr>df_queue := [], df_pending := [], df_segments := []\<rparr>"

definition deferred_next_output :: "deferred_finals \<Rightarrow> (speech_error + stt_output option) \<times> deferred_finals" where
  "deferred_next_output d =
     (case df_queue d of
        [] \<Rightarrow> (Inr None, d)
      | Failure msg # q \<Rightarrow> (Inl (Stt msg), d\<lparr>df_queue := q\<rparr>)
      | Output out # q \<Rightarrow> (Inr (Some out), d\<lparr>df_queue := q\<rparr>))"

fun take_transcript :: "item list \<Rightarrow> (speech_error + stt_transcript option) \<times> item list" where
  "take_transcript [] = (Inr None, [])"
| "take_transcript (Failure msg # q) = (Inl (Stt msg), q)"
| "take_transcript (Output (Transcript t) # q) = (Inr (Some t), q)"
| "take_transcript (Output FinalizeDone # q) = take_transcript q"

definition deferred_next_transcript :: "deferred_finals \<Rightarrow> (speech_error + stt_transcript option) \<times> deferred_finals" where
  "deferred_next_transcript d = (let (r, q) = take_transcript (df_queue d) in (r, d\<lparr>df_queue := q\<rparr>))"

section \<open>Runs\<close>

text \<open>
  The operations of a provider's life between two \<open>clear\<close>s.  \<open>NextOutput\<close> returns the item it
  takes from the queue (an error is the failure item).
\<close>

datatype deferred_op =
    Interim ustring | Segment ustring | Request instant | Answer | Fail ustring | FailWithoutAnswer ustring
  | Expire instant duration | LostConnection ustring | Discard | NextOutput

fun popped :: "(speech_error + stt_output option) \<Rightarrow> item list" where
  "popped (Inl (Stt msg)) = [Failure msg]"
| "popped (Inr (Some out)) = [Output out]"
| "popped _ = []"

fun deferred_step :: "deferred_finals \<Rightarrow> deferred_op \<Rightarrow> (deferred_finals \<times> item list) option" where
  "deferred_step d (Interim t) = Some (deferred_interim t d, [])"
| "deferred_step d (Segment t) = Some (deferred_segment t d, [])"
| "deferred_step d (Request now) = Some (deferred_request now d, [])"
| "deferred_step d Answer = Some (snd (deferred_answer d), [])"
| "deferred_step d (Fail msg) = Some (deferred_fail msg d, [])"
| "deferred_step d (FailWithoutAnswer msg) = Some (deferred_fail_without_answer msg d, [])"
| "deferred_step d (Expire now wait) = Some (deferred_expire now wait d, [])"
| "deferred_step d (LostConnection msg) = Some (deferred_lost msg d, [])"
| "deferred_step d Discard = Some (snd (deferred_discard_transcripts d), [])"
| "deferred_step d NextOutput = (let (r, d') = deferred_next_output d in Some (d', popped r))"

section \<open>Specification\<close>

abbreviation Done :: item where "Done \<equiv> Output FinalizeDone"

text \<open>Every final is directly followed by a marker.\<close>

fun finals_closed :: "item list \<Rightarrow> bool" where
  "finals_closed [] = True"
| "finals_closed (Output (Transcript (Final t)) # xs) =
     ((case xs of Output FinalizeDone # _ \<Rightarrow> True | _ \<Rightarrow> False) \<and> finals_closed xs)"
| "finals_closed (_ # xs) = finals_closed xs"

definition markers :: "item list \<Rightarrow> nat" where
  "markers xs = count_list xs Done"

definition requests :: "deferred_op list \<Rightarrow> nat" where
  "requests ops = length (filter (\<lambda>op. case op of Request _ \<Rightarrow> True | _ \<Rightarrow> False) ops)"

text \<open>What closing an utterance delivers before its marker.\<close>

definition flush_items :: "deferred_finals \<Rightarrow> item list" where
  "flush_items d =
     (if df_segments d = [] then [] else [Output (Transcript (Final (df_segments d)))])"

lemma markers_simps [simp]:
  "markers [] = 0" "markers (xs @ ys) = markers xs + markers ys"
  "markers (Output FinalizeDone # xs) = Suc (markers xs)"
  "markers (Output (Transcript t) # xs) = markers xs" "markers (Failure m # xs) = markers xs"
  by (simp_all add: markers_def)

lemma markers_replicate [simp]: "markers (replicate k Done) = k"
  by (induction k) simp_all

lemma requests_append [simp]: "requests (xs @ ys) = requests xs + requests ys"
  by (simp add: requests_def)

lemma finals_closed_append: "finals_closed xs \<Longrightarrow> finals_closed ys \<Longrightarrow> finals_closed (xs @ ys)"
  by (induction xs rule: finals_closed.induct) (auto split: list.splits item.splits stt_output.splits)

lemma finals_closed_filter:
  "finals_closed (h @ q) \<Longrightarrow> finals_closed (h @ filter (\<lambda>i. \<not> is_transcript i) q)"
proof (induction h rule: finals_closed.induct)
  case 1
  then show ?case
    by (induction q rule: finals_closed.induct) (auto split: if_splits list.splits)
next
  case (2 t xs)
  then show ?case
    by (cases xs; cases q) (auto split: list.splits item.splits stt_output.splits)
qed auto

lemma finals_closed_replicate [simp]: "finals_closed (replicate k Done)"
  by (induction k) auto

lemma markers_filter [simp]: "markers (filter (\<lambda>i. \<not> is_transcript i) q) = markers q"
  by (induction q rule: finals_closed.induct) auto

section \<open>What each operation does\<close>

lemma answer_queue:
  "df_pending d \<noteq> [] \<Longrightarrow>
     snd (deferred_answer d) =
       d\<lparr>df_queue := df_queue d @ flush_items d @ [Done], df_pending := tl (df_pending d), df_segments := []\<rparr>"
  by (cases "df_pending d")
    (simp_all add: deferred_answer_def deferred_flush_def deferred_enqueue_def flush_items_def)

lemma answer_idle: "df_pending d = [] \<Longrightarrow> deferred_answer d = (False, d)"
  by (simp add: deferred_answer_def)

lemma fail_queue:
  "deferred_fail msg d =
     (if df_pending d = [] then deferred_enqueue (Failure msg) d
      else snd (deferred_answer (deferred_enqueue (Failure msg) d)))"
  by (cases "df_pending d") (simp_all add: deferred_fail_def deferred_answer_def deferred_enqueue_def Let_def)

lemma answer_all_queue:
  "df_pending d \<noteq> [] \<Longrightarrow> deferred_answer_all d =
     d\<lparr>df_queue := df_queue d @ flush_items d @ replicate (length (df_pending d)) Done,
       df_pending := [], df_segments := []\<rparr>"
proof (induction d rule: deferred_answer_all.induct)
  case (1 d)
  obtain at rest where p: "df_pending d = at # rest" using 1(2) by (cases "df_pending d") auto
  show ?case
  proof (cases rest)
    case Nil
    then show ?thesis using p
      by (simp add: deferred_answer_all.simps [of d] answer_queue)
        (simp add: deferred_answer_all.simps)
  next
    case (Cons at' rest')
    then have "df_pending (snd (deferred_answer d)) \<noteq> []" using p by (simp add: pending_answer)
    then show ?thesis using 1(1) [OF p] p
      by (simp add: deferred_answer_all.simps [of d] answer_queue flush_items_def)
  qed
qed

lemma expire_queue:
  "deferred_expire now wait d =
     (let k = length (takeWhile (\<lambda>at. wait \<le> saturating_duration_since now at) (df_pending d))
      in if k = 0 then d
         else d\<lparr>df_queue := df_queue d @ flush_items d @ replicate k Done,
                df_pending := drop k (df_pending d), df_segments := []\<rparr>)"
proof (induction now wait d rule: deferred_expire.induct)
  case (1 now wait d)
  show ?case
  proof (cases "df_pending d")
    case Nil
    then show ?thesis by (simp add: deferred_expire.simps)
  next
    case (Cons at rest)
    show ?thesis
    proof (cases "wait \<le> saturating_duration_since now at")
      case True
      have "deferred_expire now wait d = deferred_expire now wait (snd (deferred_answer d))"
        using Cons True by (simp add: deferred_expire.simps [of now wait d])
      then show ?thesis
        using 1 [OF Cons True] Cons True
        by (simp add: answer_queue flush_items_def Let_def split: if_splits)
    next
      case False
      then show ?thesis using Cons by (simp add: deferred_expire.simps)
    qed
  qed
qed

lemmas deferred_defs = deferred_interim_def deferred_segment_def deferred_request_def
  deferred_fail_without_answer_def deferred_lost_def deferred_discard_transcripts_def
  deferred_next_output_def deferred_enqueue_def

section \<open>Every run\<close>

definition deferred_rel ::
  "deferred_finals \<Rightarrow> deferred_op list \<Rightarrow> item list \<Rightarrow> deferred_finals \<Rightarrow> bool" where
  "deferred_rel d ops outs d' \<longleftrightarrow>
     markers outs + markers (df_queue d') + deferred_pending d' =
       markers (df_queue d) + deferred_pending d + requests ops \<and>
     (\<forall>h. finals_closed (h @ df_queue d) \<longrightarrow> finals_closed (h @ outs @ df_queue d'))"

lemma flush_items_facts [simp]:
  "markers (flush_items d) = 0" "finals_closed (flush_items d @ Done # replicate k Done)"
  by (simp_all add: flush_items_def)

text \<open>An operation that only appends closed blocks and answers as many requests as it appends markers.\<close>

definition appends :: "deferred_finals \<Rightarrow> deferred_op \<Rightarrow> deferred_finals \<Rightarrow> bool" where
  "appends d op d' \<longleftrightarrow>
     (\<exists>xs. df_queue d' = df_queue d @ xs \<and> finals_closed xs \<and>
        markers xs + deferred_pending d' = deferred_pending d + requests [op])"

lemma appends_rel: "appends d op d' \<Longrightarrow> deferred_rel d [op] [] d'"
  using finals_closed_append by (fastforce simp: appends_def deferred_rel_def)

lemma appendsI:
  "df_queue d' = df_queue d @ xs \<Longrightarrow> finals_closed xs \<Longrightarrow>
   markers xs + deferred_pending d' = deferred_pending d + requests [op] \<Longrightarrow> appends d op d'"
  by (auto simp: appends_def)

lemma expire_appends: "appends d (Expire now wait) (deferred_expire now wait d)"
proof (cases "takeWhile (\<lambda>at. wait \<le> saturating_duration_since now at) (df_pending d)")
  case Nil
  then show ?thesis
    by (intro appendsI [of _ _ "[]"]) (simp_all add: expire_queue requests_def)
next
  case (Cons a l)
  have "Suc (length l) \<le> length (df_pending d)"
    using Cons length_takeWhile_le by (metis length_Cons)
  then show ?thesis using Cons
    by (intro appendsI [of _ _ "flush_items d @ replicate (Suc (length l)) Done"])
      (simp_all add: expire_queue requests_def deferred_pending_def Let_def)
qed

lemma answer_appends:
  assumes "requests [op] = 0"
  shows "appends d op (snd (deferred_answer d))"
proof (cases "df_pending d")
  case Nil
  then show ?thesis using assms
    by (intro appendsI [of _ _ "[]"]) (simp_all add: answer_idle)
next
  case (Cons a l)
  then show ?thesis using assms finals_closed.simps
    by (intro appendsI [of _ _ "flush_items d @ [Done]"])
      (simp_all add: answer_queue deferred_pending_def flush_items_def)
qed

lemma lost_appends: "appends d (LostConnection msg) (deferred_lost msg d)"
proof (cases "df_pending d")
  case Nil
  then show ?thesis
    by (intro appendsI [of _ _ "if df_segments d = [] then [] else [Failure msg]"])
      (simp_all add: deferred_lost_def deferred_enqueue_def requests_def deferred_pending_def Let_def)
next
  case (Cons a l)
  then show ?thesis
    by (intro appendsI [of _ _ "Failure msg # flush_items d @ replicate (Suc (length l)) Done"])
      (simp_all add: deferred_lost_def deferred_enqueue_def requests_def deferred_pending_def Let_def
        answer_all_queue flush_items_def)
qed

lemma fail_appends: "appends d (Fail msg) (deferred_fail msg d)"
proof (cases "df_pending d")
  case Nil
  then show ?thesis
    by (intro appendsI [of _ _ "[Failure msg]"])
      (simp_all add: fail_queue deferred_enqueue_def requests_def deferred_pending_def)
next
  case (Cons a l)
  then show ?thesis
    by (intro appendsI [of _ _ "Failure msg # flush_items d @ [Done]"])
      (simp_all add: fail_queue answer_queue deferred_enqueue_def requests_def deferred_pending_def
        flush_items_def)
qed

lemma transcript_appends:
  "appends d (Interim t) (deferred_interim t d)" "appends d (Segment t) (deferred_segment t d)"
  "appends d (Request now) (deferred_request now d)"
  "appends d (FailWithoutAnswer msg) (deferred_fail_without_answer msg d)"
  by (auto simp: appends_def deferred_defs Let_def requests_def deferred_pending_def)

lemma popped_cases:
  obtains (failure) msg where "i = Failure msg" | (marker) "i = Done"
    | (transcript) t where "i = Output (Transcript t)"
  by (metis item.exhaust stt_output.exhaust)

lemma deferred_step_rel: "deferred_step d op = Some (d', outs) \<Longrightarrow> deferred_rel d [op] outs d'"
proof (cases op)
  case Discard
  assume "deferred_step d op = Some (d', outs)"
  with Discard show ?thesis
    using finals_closed_filter
    by (auto simp: deferred_rel_def deferred_defs Let_def requests_def deferred_pending_def)
next
  case NextOutput
  assume "deferred_step d op = Some (d', outs)"
  note st = this NextOutput
  show ?thesis
  proof (cases "df_queue d")
    case Nil
    then show ?thesis using st
      by (auto simp: deferred_rel_def deferred_next_output_def requests_def)
  next
    case (Cons i q)
    then show ?thesis using st
      by (cases i rule: popped_cases)
        (auto simp: deferred_rel_def deferred_next_output_def requests_def deferred_pending_def)
  qed
qed (use transcript_appends expire_appends answer_appends lost_appends fail_appends in
    \<open>auto intro: appends_rel simp: requests_def\<close>)

interpretation deferred: traced_component deferred_step "\<lambda>_. True" deferred_rel
proof
  fix s op show "\<exists>s' out. deferred_step s op = Some (s', out) \<and> True"
    by (cases op) (auto split: prod.splits)
next
  fix s show "deferred_rel s [] [] s" by (simp add: deferred_rel_def requests_def)
next
  fix s op s' out assume "deferred_step s op = Some (s', out)"
  then show "deferred_rel s [op] out s'" by (rule deferred_step_rel)
next
  fix s xs o1 s1 ys o2 s2
  assume a: "deferred_rel s xs o1 s1" and b: "deferred_rel s1 ys o2 s2"
  have "finals_closed (h @ (o1 @ o2) @ df_queue s2)" if "finals_closed (h @ df_queue s)" for h
    using a b that by (simp add: deferred_rel_def) (metis append.assoc)
  then show "deferred_rel s (xs @ ys) (o1 @ o2) s2"
    using a b by (simp add: deferred_rel_def)
qed

section \<open>Properties\<close>

text \<open>
  C7: between two \<open>clear\<close>s, the markers delivered, the markers queued and the finalizes still
  pending always add up to the finalizes requested, and in the stream of delivered and queued items
  every final is directly followed by the marker that closes its utterance.
\<close>

theorem deferred_one_marker_per_request:
  assumes "run_ops deferred_step deferred_new ops = Some (d, outs)"
  shows "markers (outs @ df_queue d) + deferred_pending d = requests ops \<and>
    finals_closed (outs @ df_queue d)"
proof -
  have "deferred_rel deferred_new ops outs d" by (rule deferred.run_rel [OF TrueI assms])
  then have "markers outs + markers (df_queue d) + deferred_pending d = requests ops"
    and "finals_closed ([] @ outs @ df_queue d)"
    unfolding deferred_rel_def
    by (auto simp: deferred_new_def deferred_pending_def dest: spec [of _ "[]"])
  then show ?thesis by simp
qed

definition demo_deferred_ops :: "deferred_op list" where
  "demo_deferred_ops = [Segment (utext ''hello ''), Request 0, Interim (utext ''wor''),
     Segment (utext ''world''), Request 7, Answer, NextOutput, Discard, NextOutput, Expire 9 5]"

theorem deferred_one_marker_per_request_witness:
  "\<exists>d outs. run_ops deferred_step deferred_new demo_deferred_ops = Some (d, outs) \<and>
     outs = [Output (Transcript (Partial (utext ''hello''))), Done] \<and>
     markers (outs @ df_queue d) + deferred_pending d = 2 \<and> finals_closed (outs @ df_queue d)"
proof -
  have "map_option snd (run_ops deferred_step deferred_new demo_deferred_ops) =
      Some [Output (Transcript (Partial (utext ''hello''))), Done]"
    by code_simp
  then obtain d where d: "run_ops deferred_step deferred_new demo_deferred_ops =
      Some (d, [Output (Transcript (Partial (utext ''hello''))), Done])"
    by auto
  have "requests demo_deferred_ops = 2" by (simp add: requests_def demo_deferred_ops_def)
  then show ?thesis using d deferred_one_marker_per_request [OF d] by auto
qed

text \<open>
  the one final of an utterance is its non-blank segments joined by single spaces, in order,
  delivered right before the marker of the oldest pending finalize; nothing stays behind.
\<close>

fun spaced :: "ustring list \<Rightarrow> ustring" where
  "spaced [] = []"
| "spaced [t] = t"
| "spaced (t # t' # ts) = t @ utext '' '' @ spaced (t' # ts)"

lemma spaced_snoc: "ts \<noteq> [] \<Longrightarrow> spaced (ts @ [t]) = spaced ts @ utext '' '' @ t"
  by (induction ts rule: spaced.induct) auto

lemma spaced_Nil_iff: "[] \<notin> set ts \<Longrightarrow> spaced ts = [] \<longleftrightarrow> ts = []"
  by (induction ts rule: spaced.induct) auto

definition nonblank :: "ustring list \<Rightarrow> ustring list" where
  "nonblank ts = filter (\<lambda>t. t \<noteq> []) (map trim ts)"

lemma segments_spaced:
  assumes "df_segments d = spaced us" and "[] \<notin> set us"
  shows "df_segments (fold deferred_segment ts d) = spaced (us @ nonblank ts) \<and>
    df_pending (fold deferred_segment ts d) = df_pending d"
  using assms
proof (induction ts arbitrary: d us)
  case Nil
  then show ?case by (simp add: nonblank_def)
next
  case (Cons t ts)
  have "df_segments (deferred_segment t d) = spaced (us @ nonblank [t])"
    using Cons.prems spaced_Nil_iff [of us] spaced_snoc [of us "trim t"]
    by (cases us) (auto simp: deferred_segment_def deferred_enqueue_def deferred_join_def
        nonblank_def Let_def)
  moreover have "[] \<notin> set (us @ nonblank [t])" using Cons.prems by (auto simp: nonblank_def)
  moreover have "df_pending (deferred_segment t d) = df_pending d"
    by (simp add: deferred_segment_def deferred_enqueue_def Let_def)
  ultimately show ?case
    using Cons.IH [of "deferred_segment t d" "us @ nonblank [t]"] by (auto simp: nonblank_def)
qed

theorem deferred_final_joins_segments:
  assumes "df_segments d = []" and "df_pending d \<noteq> []" and "nonblank ts \<noteq> []"
  shows "\<exists>q. df_queue (snd (deferred_answer (fold deferred_segment ts d))) =
      q @ [Output (Transcript (Final (spaced (nonblank ts)))), Done] \<and>
    df_segments (snd (deferred_answer (fold deferred_segment ts d))) = []"
proof -
  have s: "df_segments (fold deferred_segment ts d) = spaced (nonblank ts)"
    and p: "df_pending (fold deferred_segment ts d) \<noteq> []"
    using segments_spaced [of d "[]" ts] assms by simp_all
  have "[] \<notin> set (nonblank ts)" by (simp add: nonblank_def)
  then have "spaced (nonblank ts) \<noteq> []" using spaced_Nil_iff assms(3) by blast
  then show ?thesis using answer_queue [OF p] s by (simp add: flush_items_def)
qed

theorem deferred_final_joins_segments_witness:
  "\<exists>q. df_queue (snd (deferred_answer (fold deferred_segment
       [utext '' one'', utext ''  '', utext ''two'' ] (deferred_request 3 deferred_new)))) =
     q @ [Output (Transcript (Final (utext ''one two''))), Done]"
proof -
  have "nonblank [utext '' one'', utext ''  '', utext ''two''] = [utext ''one'', utext ''two'']"
    by code_simp
  moreover have "spaced [utext ''one'', utext ''two''] = utext ''one two''" by code_simp
  ultimately show ?thesis
    using deferred_final_joins_segments [of "deferred_request 3 deferred_new"
        "[utext '' one'', utext ''  '', utext ''two'' ]"]
    by (auto simp: deferred_request_def deferred_new_def)
qed

text \<open>
  a lost connection answers everything: unless it was idle, one error is queued, then the text
  so far as a final of the oldest pending finalize, then exactly one marker per pending finalize;
  afterwards nothing is pending and no segment is kept.
\<close>

theorem deferred_lost_answers_all:
  "deferred_lost msg d =
     (if df_pending d = [] \<and> df_segments d = [] then d
      else d\<lparr>df_queue := df_queue d @ [Failure msg] @
               (if df_pending d = [] then []
                else flush_items d @ replicate (deferred_pending d) Done),
             df_pending := [], df_segments := []\<rparr>)"
  by (cases "df_pending d")
    (auto simp: deferred_lost_def deferred_enqueue_def answer_all_queue flush_items_def
      deferred_pending_def)

end
