(* ===== verification/Float_Ops.thy ===== *)
theory Float_Ops
  imports Prelude
begin

text \<open>
  IEEE-754 arithmetic (\<open>f64\<close>, \<open>f32\<close>).  The floating-point hardware and \<open>libm\<close> are not code of
  the repository: a model that computes with floats takes their operations as an argument, one
  record per float type, and every theorem holds whatever these operations return (NaN and
  infinities included) unless it names a hypothesis about them.

  \<open>fl_to_int\<close> is truncation toward zero (0 for NaN, beyond every machine range for the
  infinities); \<open>as_i16\<close> and \<open>as_usize\<close> are Rust's saturating casts built on it.
\<close>

record 'f float_ops =
  fl_of_int :: "int \<Rightarrow> 'f"
  fl_ratio :: "int \<Rightarrow> int \<Rightarrow> 'f"
  fl_add :: "'f \<Rightarrow> 'f \<Rightarrow> 'f"
  fl_sub :: "'f \<Rightarrow> 'f \<Rightarrow> 'f"
  fl_mul :: "'f \<Rightarrow> 'f \<Rightarrow> 'f"
  fl_div :: "'f \<Rightarrow> 'f \<Rightarrow> 'f"
  fl_lt :: "'f \<Rightarrow> 'f \<Rightarrow> bool"
  fl_le :: "'f \<Rightarrow> 'f \<Rightarrow> bool"
  fl_eq :: "'f \<Rightarrow> 'f \<Rightarrow> bool"
  fl_is_nan :: "'f \<Rightarrow> bool"
  fl_neg :: "'f \<Rightarrow> 'f"
  fl_abs :: "'f \<Rightarrow> 'f"
  fl_sqrt :: "'f \<Rightarrow> 'f"
  fl_sin :: "'f \<Rightarrow> 'f"
  fl_cos :: "'f \<Rightarrow> 'f"
  fl_atan2 :: "'f \<Rightarrow> 'f \<Rightarrow> 'f"
  fl_log10 :: "'f \<Rightarrow> 'f"
  fl_ceil :: "'f \<Rightarrow> 'f"
  fl_round :: "'f \<Rightarrow> 'f"
  fl_pi :: "'f"
  fl_epsilon :: "'f"
  fl_neg_inf :: "'f"
  fl_to_int :: "'f \<Rightarrow> int"
  fl_of_bits :: "32 word \<Rightarrow> 'f"
  fl_max :: "'f \<Rightarrow> 'f \<Rightarrow> 'f"
  fl_nan :: "'f"
  fl_total_le :: "'f \<Rightarrow> 'f \<Rightarrow> bool"

definition fl_clamp :: "'f float_ops \<Rightarrow> 'f \<Rightarrow> 'f \<Rightarrow> 'f \<Rightarrow> 'f" where
  "fl_clamp fl lo hi x = (if fl_lt fl x lo then lo else if fl_lt fl hi x then hi else x)"

definition as_i16 :: "'f float_ops \<Rightarrow> 'f \<Rightarrow> 16 word" where
  "as_i16 fl x = word_of_int (clamp (- 32768) 32767 (fl_to_int fl x))"

definition as_usize :: "'f float_ops \<Rightarrow> 'f \<Rightarrow> nat" where
  "as_usize fl x = nat (clamp 0 18446744073709551615 (fl_to_int fl x))"

definition as_i32 :: "'f float_ops \<Rightarrow> 'f \<Rightarrow> int" where
  "as_i32 fl x = clamp (- 2147483648) 2147483647 (fl_to_int fl x)"

text \<open>
  An instance to evaluate the models on: integers stand for floats, scaled by nothing, with
  the transcendental functions cut to their integer values near 0.
\<close>

definition int_ops :: "int float_ops" where
  "int_ops = \<lparr>fl_of_int = (\<lambda>n. n), fl_ratio = (\<lambda>a b. a div b), fl_add = (+), fl_sub = (-),
     fl_mul = (*), fl_div = (div), fl_lt = (<), fl_le = (\<le>), fl_eq = (=),
     fl_is_nan = (\<lambda>_. False), fl_neg = uminus, fl_abs = abs, fl_sqrt = (\<lambda>x. x),
     fl_sin = (\<lambda>_. 0), fl_cos = (\<lambda>_. 1), fl_atan2 = (\<lambda>_ _. 0), fl_log10 = (\<lambda>x. x), fl_ceil = (\<lambda>x. x),
     fl_round = (\<lambda>x. x), fl_pi = 3, fl_epsilon = 0, fl_neg_inf = - 1000000, fl_to_int = (\<lambda>x. x),
     fl_of_bits = sint, fl_max = max, fl_nan = 0, fl_total_le = (\<le>)\<rparr>"

end
