(* ===== verification/Pcm.thy ===== *)
theory Pcm
  imports Float_Ops
begin

text \<open>
  \<open>crates/speech/src/pcm.rs\<close>: 16-bit PCM conversions shared by the speech components, and the
  streaming mono to 48 kHz stereo converter.  A sample is a \<open>16 word\<close> read with \<open>sint\<close>.
\<close>

unbundle bit_operations_syntax

type_synonym sample = "16 word"

section \<open>Little-endian samples\<close>

definition i16_from_le :: "byte \<Rightarrow> byte \<Rightarrow> sample" where
  "i16_from_le lo hi = push_bit 8 (ucast hi) OR ucast lo"

definition i16_to_le :: "sample \<Rightarrow> bytes" where
  "i16_to_le w = [ucast w, ucast (drop_bit 8 w)]"

text \<open>\<open>as_chunks::<2>().0\<close>: the complete pairs.\<close>

fun pairs :: "'a list \<Rightarrow> ('a \<times> 'a) list" where
  "pairs (a # b # xs) = (a, b) # pairs xs"
| "pairs _ = []"

definition samples_of :: "bytes \<Rightarrow> sample list" where
  "samples_of pcm = map (\<lambda>(lo, hi). i16_from_le lo hi) (pairs pcm)"

definition i16_samples_to_bytes :: "sample list \<Rightarrow> bytes" where
  "i16_samples_to_bytes samples = concat (map i16_to_le samples)"

lemma le_bytes_roundtrip: "i16_to_le w = [lo, hi] \<Longrightarrow> i16_from_le lo hi = w"
  unfolding i16_to_le_def i16_from_le_def
  by (auto intro!: bit_word_eqI simp: bit_simps)

lemma le_bytes_inverse: "i16_to_le (i16_from_le lo hi) = [lo, hi]"
proof -
  have "\<not> bit lo (8 + n)" for n using bit_imp_le_length [of lo "8 + n"] by auto
  then show ?thesis
    unfolding i16_to_le_def i16_from_le_def by (auto intro!: bit_word_eqI simp: bit_simps)
qed

lemma length_i16_to_le [simp]: "length (i16_to_le w) = 2"
  by (simp add: i16_to_le_def)

lemma length_pairs [simp]: "length (pairs xs) = length xs div 2"
  by (induction xs rule: pairs.induct) auto

lemma pairs_append: "even (length xs) \<Longrightarrow> pairs (xs @ ys) = pairs xs @ pairs ys"
  by (induction xs rule: pairs.induct) auto

lemma samples_of_append: "even (length xs) \<Longrightarrow> samples_of (xs @ ys) = samples_of xs @ samples_of ys"
  by (simp add: samples_of_def pairs_append)

lemma length_samples_of [simp]: "length (samples_of pcm) = length pcm div 2"
  by (simp add: samples_of_def)

lemma samples_roundtrip: "samples_of (i16_samples_to_bytes ss) = ss"
proof (induction ss)
  case Nil
  then show ?case by (simp add: samples_of_def i16_samples_to_bytes_def)
next
  case (Cons s ss)
  have "samples_of (i16_to_le s) = [s]"
    using le_bytes_roundtrip [of s] by (simp add: samples_of_def i16_to_le_def)
  then show ?case
    using Cons samples_of_append [of "i16_to_le s"] by (simp add: i16_samples_to_bytes_def)
qed

lemma length_i16_samples_to_bytes [simp]: "length (i16_samples_to_bytes ss) = 2 * length ss"
  by (induction ss) (simp_all add: i16_samples_to_bytes_def)

section \<open>Conversions\<close>

definition WEBRTC_PCM_SAMPLE_RATE :: nat where "WEBRTC_PCM_SAMPLE_RATE = 48000"
definition WEBRTC_PCM_CHANNELS :: nat where "WEBRTC_PCM_CHANNELS = 2"
definition STT_PCM_SAMPLE_RATE :: nat where "STT_PCM_SAMPLE_RATE = 16000"
definition STT_MIN_BATCH_BYTES :: nat where "STT_MIN_BATCH_BYTES = 3200"
definition STT_PREFERRED_BATCH_BYTES :: nat where "STT_PREFERRED_BATCH_BYTES = 32000"

definition silence_mono_s16le_bytes :: "nat \<Rightarrow> bytes" where
  "silence_mono_s16le_bytes duration_ms =
     (let samples = max 1 (STT_PCM_SAMPLE_RATE * duration_ms div 1000)
      in replicate (samples * 2) 0)"

text \<open>\<open>samples.chunks(2)\<close>: the last chunk may hold one sample.\<close>

fun downmix :: "sample list \<Rightarrow> sample list" where
  "downmix [] = []"
| "downmix [l] = [l]"
| "downmix (l # r # xs) = word_of_int (rust_div (sint l + sint r) 2) # downmix xs"

fun downsample_by_3 :: "sample list \<Rightarrow> sample list" where
  "downsample_by_3 (a # b # c # xs) =
     word_of_int (rust_div (sint a + sint b + sint c) 3) # downsample_by_3 xs"
| "downsample_by_3 _ = []"

definition stereo_48k_to_mono_16k :: "bytes \<Rightarrow> sample list" where
  "stereo_48k_to_mono_16k pcm =
     (if length pcm < 4 then [] else downsample_by_3 (downmix (samples_of pcm)))"

text \<open>\<open>pcm_rms_i16\<close> in \<open>f64\<close> (the final narrowing to \<open>f32\<close> is the caller's).\<close>

definition pcm_rms_i16 :: "'f float_ops \<Rightarrow> sample list \<Rightarrow> 'f" where
  "pcm_rms_i16 fl samples =
     (if samples = [] then fl_of_int fl 0
      else
        (let sum_sq = fold (\<lambda>s acc.
               (let norm = fl_div fl (fl_of_int fl (sint s)) (fl_of_int fl 32767)
                in fl_add fl acc (fl_mul fl norm norm))) samples (fl_of_int fl 0)
         in fl_sqrt fl (fl_div fl sum_sq (fl_of_int fl (int (length samples))))))"

definition duration_ms_from_mono_s16le :: "nat \<Rightarrow> nat \<Rightarrow> nat" where
  "duration_ms_from_mono_s16le byte_len sample_rate =
     (if sample_rate = 0 then 1
      else max 1 (byte_len div 2 * 1000 div sample_rate) mod 2 ^ 32)"

definition mono_s16le_to_stereo :: "bytes \<Rightarrow> bytes" where
  "mono_s16le_to_stereo pcm = concat (map (\<lambda>(lo, hi). [lo, hi, lo, hi]) (pairs pcm))"

definition mono_s16le_bytes_to_f32 :: "'f float_ops \<Rightarrow> bytes \<Rightarrow> 'f list" where
  "mono_s16le_bytes_to_f32 fl pcm =
     map (\<lambda>s. fl_div fl (fl_of_int fl (sint s)) (fl_of_int fl 32768)) (samples_of pcm)"

definition u32_to_le :: "32 word \<Rightarrow> bytes" where
  "u32_to_le w = [ucast w, ucast (drop_bit 8 w), ucast (drop_bit 16 w), ucast (drop_bit 24 w)]"

definition u16_to_le :: "16 word \<Rightarrow> bytes" where
  "u16_to_le w = [ucast w, ucast (drop_bit 8 w)]"

text \<open>\<open>b"..."\<close> literals.\<close>

definition ascii :: "string \<Rightarrow> bytes" where
  "ascii s = map of_char s"

text \<open>\<open>36 + data_size\<close> overflows \<open>u32\<close> for 4 GiB of PCM: \<open>None\<close> is the panic.\<close>

definition mono16_le_to_wav :: "bytes \<Rightarrow> bytes option" where
  "mono16_le_to_wav pcm_le =
     (let data_size = of_nat (length pcm_le) :: 32 word
      in if unat data_size + 36 \<ge> 2 ^ 32 then None
         else Some (ascii ''RIFF'' @ u32_to_le (36 + data_size) @ ascii ''WAVE'' @ ascii ''fmt '' @
           u32_to_le 16 @ u16_to_le 1 @ u16_to_le 1 @
           u32_to_le (of_nat STT_PCM_SAMPLE_RATE) @ u32_to_le (of_nat STT_PCM_SAMPLE_RATE * 2) @
           u16_to_le 2 @ u16_to_le 16 @ ascii ''data'' @ u32_to_le data_size @ pcm_le))"

definition duration_ms_from_stereo_48k :: "nat \<Rightarrow> nat" where
  "duration_ms_from_stereo_48k byte_len = max 1 (byte_len div 192 mod 2 ^ 32)"

section \<open>The streaming mono to 48 kHz stereo converter\<close>

record mono_to_stereo_48k =
  cv_src_rate :: nat
  cv_last :: "sample option"
  cv_pos :: nat
  cv_odd :: "byte option"

definition converter_new :: "nat \<Rightarrow> mono_to_stereo_48k option" where
  "converter_new src_rate =
     (if \<not> (8000 \<le> src_rate \<and> src_rate \<le> WEBRTC_PCM_SAMPLE_RATE) then None
      else Some \<lparr>cv_src_rate = src_rate, cv_last = None, cv_pos = 0, cv_odd = None\<rparr>)"

definition lerp :: "sample \<Rightarrow> sample \<Rightarrow> nat \<Rightarrow> sample" where
  "lerp a b pos =
     word_of_int (sint a + rust_div ((sint b - sint a) * int pos) (int WEBRTC_PCM_SAMPLE_RATE))"

definition push_stereo :: "sample \<Rightarrow> bytes" where
  "push_stereo s = i16_to_le s @ i16_to_le s"

text \<open>
  \<open>while self.pos < 48000 { push_frame(...); self.pos += self.src_rate }\<close>.  A rate of 0 would loop
  forever; \<open>new\<close> rejects it, and the loop below returns at once.
\<close>

function interval :: "nat \<Rightarrow> (nat \<Rightarrow> sample) \<Rightarrow> nat \<Rightarrow> bytes \<times> nat" where
  "interval rate at pos =
     (if pos < WEBRTC_PCM_SAMPLE_RATE \<and> 0 < rate
      then (let (out, pos') = interval rate at (pos + rate) in (push_stereo (at pos) @ out, pos'))
      else ([], pos))"
  by pat_completeness auto
termination
  by (relation "measure (\<lambda>(rate, at, pos). WEBRTC_PCM_SAMPLE_RATE - pos)") auto

declare interval.simps [simp del]

definition convert_sample :: "sample \<Rightarrow> mono_to_stereo_48k \<Rightarrow> bytes \<times> mono_to_stereo_48k" where
  "convert_sample cur c =
     (if cv_src_rate c = WEBRTC_PCM_SAMPLE_RATE then (push_stereo cur, c)
      else
        (case cv_last c of
           None \<Rightarrow> ([], c\<lparr>cv_last := Some cur, cv_pos := 0\<rparr>)
         | Some prev \<Rightarrow>
             (let (out, pos) = interval (cv_src_rate c) (lerp prev cur) (cv_pos c)
              in (out, c\<lparr>cv_pos := pos - WEBRTC_PCM_SAMPLE_RATE, cv_last := Some cur\<rparr>))))"

fun convert_samples :: "sample list \<Rightarrow> mono_to_stereo_48k \<Rightarrow> bytes \<times> mono_to_stereo_48k" where
  "convert_samples [] c = ([], c)"
| "convert_samples (s # ss) c =
     (let (out, c1) = convert_sample s c; (outs, c2) = convert_samples ss c1 in (out @ outs, c2))"

definition converter_push :: "bytes \<Rightarrow> mono_to_stereo_48k \<Rightarrow> bytes \<times> mono_to_stereo_48k" where
  "converter_push mono_s16le c =
     (let input = (case cv_odd c of None \<Rightarrow> mono_s16le | Some b \<Rightarrow> b # mono_s16le);
          odd = (if length input mod 2 = 1 then Some (last input) else None);
          input = (if length input mod 2 = 1 then butlast input else input)
      in convert_samples (samples_of input) (c\<lparr>cv_odd := odd\<rparr>))"

definition converter_finish :: "mono_to_stereo_48k \<Rightarrow> bytes \<times> mono_to_stereo_48k" where
  "converter_finish c =
     (let out = (case cv_last c of None \<Rightarrow> []
                 | Some prev \<Rightarrow> fst (interval (cv_src_rate c) (\<lambda>_. prev) (cv_pos c)))
      in (out, c\<lparr>cv_last := None, cv_pos := 0, cv_odd := None\<rparr>))"

section \<open>Chunk boundaries do not matter\<close>

definition carried :: "mono_to_stereo_48k \<Rightarrow> bytes" where
  "carried c = (case cv_odd c of None \<Rightarrow> [] | Some b \<Rightarrow> [b])"

definition leftover :: "bytes \<Rightarrow> bytes" where
  "leftover bs = (if even (length bs) then [] else [last bs])"

definition keep_odd :: "bytes \<Rightarrow> mono_to_stereo_48k \<Rightarrow> mono_to_stereo_48k" where
  "keep_odd bs c = c\<lparr>cv_odd := (if even (length bs) then None else Some (last bs))\<rparr>"

lemma convert_sample_odd:
  "convert_sample s (c\<lparr>cv_odd := x\<rparr>) = apsnd (\<lambda>c. c\<lparr>cv_odd := x\<rparr>) (convert_sample s c)"
  by (auto simp: convert_sample_def split: option.splits prod.splits)

lemma convert_samples_odd:
  "convert_samples ss (c\<lparr>cv_odd := x\<rparr>) = apsnd (\<lambda>c. c\<lparr>cv_odd := x\<rparr>) (convert_samples ss c)"
  by (induction ss arbitrary: c) (auto simp: convert_sample_odd split: prod.splits)

lemma convert_samples_append:
  "convert_samples (xs @ ys) c =
     (let (o1, c1) = convert_samples xs c; (o2, c2) = convert_samples ys c1 in (o1 @ o2, c2))"
  by (induction xs arbitrary: c) (auto split: prod.splits)

lemma pairs_butlast: "odd (length xs) \<Longrightarrow> pairs (butlast xs) = pairs xs"
  by (induction xs rule: pairs.induct) auto

lemma push_unfold:
  "converter_push bs c =
     convert_samples (samples_of (if even (length (carried c @ bs)) then carried c @ bs
       else butlast (carried c @ bs))) (keep_odd (carried c @ bs) c)"
  by (cases "cv_odd c")
    (simp_all add: converter_push_def carried_def keep_odd_def odd_iff_mod_2_eq_one
      even_iff_mod_2_eq_zero Let_def del: butlast.simps last.simps)

lemma convert_samples_keep:
  "convert_samples ss (keep_odd bs c) = apsnd (keep_odd bs) (convert_samples ss c)"
  unfolding keep_odd_def by (rule convert_samples_odd)

lemma push_eq:
  "converter_push bs c =
     apsnd (keep_odd (carried c @ bs)) (convert_samples (samples_of (carried c @ bs)) c)"
  unfolding push_unfold convert_samples_keep by (auto simp: samples_of_def pairs_butlast)

lemma samples_split: "samples_of (xs @ ys) = samples_of xs @ samples_of (leftover xs @ ys)"
proof (cases "even (length xs)")
  case True
  then show ?thesis by (simp add: samples_of_append leftover_def)
next
  case False
  then have "xs \<noteq> []" "even (length (butlast xs))" by auto
  then have "samples_of (butlast xs @ last xs # ys) = samples_of (butlast xs) @ samples_of (last xs # ys)"
    by (intro samples_of_append)
  then show ?thesis
    using \<open>xs \<noteq> []\<close> False
    by (simp add: leftover_def samples_of_def pairs_butlast append_butlast_last_id flip: append_Cons)
      (metis append.assoc append_Cons append_Nil append_butlast_last_id)
qed

lemma keep_odd_carried: "carried (keep_odd bs c) = leftover bs"
  by (simp add: carried_def keep_odd_def leftover_def)

lemma keep_odd_split: "keep_odd (leftover xs @ ys) (keep_odd xs c) = keep_odd (xs @ ys) c"
  by (auto simp: keep_odd_def leftover_def last_append)

lemma keep_odd_commute: "keep_odd ys (keep_odd xs c) = keep_odd ys c"
  by (simp add: keep_odd_def)

lemma push_append:
  "converter_push (xs @ ys) c =
     (let (o1, c1) = converter_push xs c; (o2, c2) = converter_push ys c1 in (o1 @ o2, c2))"
proof -
  obtain o1 c1 where 1: "convert_samples (samples_of (carried c @ xs)) c = (o1, c1)"
    by (cases "convert_samples (samples_of (carried c @ xs)) c")
  obtain o2 c2 where 2: "convert_samples (samples_of (leftover (carried c @ xs) @ ys)) c1 = (o2, c2)"
    by (cases "convert_samples (samples_of (leftover (carried c @ xs) @ ys)) c1")
  have "converter_push ys (keep_odd (carried c @ xs) c1) =
      (o2, keep_odd (carried c @ xs @ ys) c2)"
    using keep_odd_split [of "carried c @ xs" ys c2] 2
    by (simp add: push_eq keep_odd_carried convert_samples_keep)
  moreover have "converter_push (xs @ ys) c = (o1 @ o2, keep_odd (carried c @ xs @ ys) c2)"
    using 1 2 samples_split [of "carried c @ xs" ys]
    by (simp add: push_eq convert_samples_append)
  ultimately show ?thesis using 1 by (simp add: push_eq [of xs])
qed

lemma push_Nil: "converter_push [] c = ([], c)"
  by (cases "cv_odd c") (auto simp: push_eq carried_def keep_odd_def samples_of_def)

fun push_chunks :: "bytes list \<Rightarrow> mono_to_stereo_48k \<Rightarrow> bytes \<times> mono_to_stereo_48k" where
  "push_chunks [] c = ([], c)"
| "push_chunks (x # xs) c =
     (let (o1, c1) = converter_push x c; (o2, c2) = push_chunks xs c1 in (o1 @ o2, c2))"

lemma push_chunks_whole: "push_chunks chunks c = converter_push (concat chunks) c"
  by (induction chunks arbitrary: c) (auto simp: push_Nil push_append)

text \<open>
  C23: the converter is continuous across calls.  Whatever way the input bytes are cut into calls of
  \<open>push\<close> (odd cuts through a sample included), the output and the state reached are those of pushing
  the whole input at once.
\<close>

theorem converter_chunk_invariant:
  "push_chunks chunks c = converter_push (concat chunks) c"
  by (rule push_chunks_whole)

section \<open>How much is produced\<close>

lemma length_push_stereo [simp]: "length (push_stereo s) = 4"
  by (simp add: push_stereo_def)

lemma interval_result:
  assumes "interval rate at pos = (out, pos')" and "0 < rate" and "pos < WEBRTC_PCM_SAMPLE_RATE"
  shows "\<exists>m. length out = 4 * m \<and> pos' = pos + rate * m \<and>
    WEBRTC_PCM_SAMPLE_RATE \<le> pos' \<and> pos' < WEBRTC_PCM_SAMPLE_RATE + rate"
  using assms
proof (induction rate at pos arbitrary: out rule: interval.induct)
  case (1 rate at pos)
  obtain out1 where r: "interval rate at (pos + rate) = (out1, pos')" "out = push_stereo (at pos) @ out1"
    using 1(2,3,4) by (subst (asm) interval.simps) (auto split: prod.splits)
  show ?case
  proof (cases "pos + rate < WEBRTC_PCM_SAMPLE_RATE")
    case True
    then obtain m where "length out1 = 4 * m" "pos' = pos + rate + rate * m"
        "WEBRTC_PCM_SAMPLE_RATE \<le> pos'" "pos' < WEBRTC_PCM_SAMPLE_RATE + rate"
      using 1(1) [OF _ r(1)] 1(3,4) by auto
    then show ?thesis using r(2) by (intro exI [of _ "Suc m"]) simp
  next
    case False
    then have "out1 = []" "pos' = pos + rate" using r(1) by (auto simp: interval.simps)
    then show ?thesis using False 1(3,4) r(2) by (intro exI [of _ 1]) simp
  qed
qed

text \<open>\<open>k\<close> samples in, \<open>m\<close> stereo frames out so far.\<close>

definition converter_at :: "nat \<Rightarrow> nat \<Rightarrow> nat \<Rightarrow> mono_to_stereo_48k \<Rightarrow> bool" where
  "converter_at rate k m c \<longleftrightarrow> cv_src_rate c = rate \<and>
     (if rate = WEBRTC_PCM_SAMPLE_RATE then cv_last c = None \<and> m = k
      else if k = 0 then cv_last c = None \<and> m = 0
      else cv_last c \<noteq> None \<and> cv_pos c < rate \<and>
        rate * m = (k - 1) * WEBRTC_PCM_SAMPLE_RATE + cv_pos c)"

lemma convert_sample_at:
  assumes "converter_at rate k m c" and "8000 \<le> rate" and "rate \<le> WEBRTC_PCM_SAMPLE_RATE"
    and "convert_sample s c = (out, c')"
  shows "\<exists>m'. length out = 4 * m' \<and> converter_at rate (Suc k) (m + m') c'"
proof (cases "rate = WEBRTC_PCM_SAMPLE_RATE \<or> k = 0")
  case True
  then show ?thesis
    using assms by (auto simp: converter_at_def convert_sample_def WEBRTC_PCM_SAMPLE_RATE_def split: if_splits)
next
  case False
  then obtain prev where l: "cv_last c = Some prev" "cv_src_rate c = rate" "cv_pos c < rate"
      "rate * m = (k - 1) * WEBRTC_PCM_SAMPLE_RATE + cv_pos c"
    using assms(1) by (auto simp: converter_at_def)
  obtain pos' where i: "interval rate (lerp prev s) (cv_pos c) = (out, pos')"
      "c' = c\<lparr>cv_pos := pos' - WEBRTC_PCM_SAMPLE_RATE, cv_last := Some s\<rparr>"
    using assms(4) l False by (auto simp: convert_sample_def split: prod.splits)
  obtain m' where r: "length out = 4 * m'" "pos' = cv_pos c + rate * m'"
      "WEBRTC_PCM_SAMPLE_RATE \<le> pos'" "pos' < WEBRTC_PCM_SAMPLE_RATE + rate"
    using interval_result [OF i(1)] l(3) assms(2,3) by auto
  obtain j where "k = Suc j" using False by (cases k) auto
  then have "converter_at rate (Suc k) (m + m') c'"
    using l r i(2) False by (auto simp: converter_at_def algebra_simps)
  then show ?thesis using r(1) by blast
qed

lemma convert_samples_at:
  assumes "converter_at rate k m c" and "8000 \<le> rate" and "rate \<le> WEBRTC_PCM_SAMPLE_RATE"
    and "convert_samples ss c = (out, c')"
  shows "\<exists>m'. length out = 4 * m' \<and> converter_at rate (k + length ss) (m + m') c'"
  using assms
proof (induction ss arbitrary: k m c out)
  case (Cons s ss)
  obtain o1 c1 o2 where c: "convert_sample s c = (o1, c1)" "convert_samples ss c1 = (o2, c')" "out = o1 @ o2"
    using Cons.prems(4) by (auto split: prod.splits)
  obtain m1 where m1: "length o1 = 4 * m1" "converter_at rate (Suc k) (m + m1) c1"
    using convert_sample_at [OF Cons.prems(1-3) c(1)] by blast
  obtain m2 where "length o2 = 4 * m2" "converter_at rate (Suc k + length ss) (m + m1 + m2) c'"
    using Cons.IH [OF m1(2) Cons.prems(2,3) c(2)] by blast
  then show ?case using m1(1) c(3) by (intro exI [of _ "m1 + m2"]) (simp add: add.assoc)
qed simp

lemma ceil_unique: "n \<le> rate * m \<Longrightarrow> rate * m < n + rate \<Longrightarrow> m = (n + rate - 1) div rate"
  for n rate m :: nat
  by (rule div_nat_eqI [symmetric]) (auto simp: algebra_simps)

lemma finish_length:
  assumes "converter_at rate k m c" and "8000 \<le> rate" and "rate \<le> WEBRTC_PCM_SAMPLE_RATE"
  shows "4 * m + length (fst (converter_finish c)) =
    4 * ((k * WEBRTC_PCM_SAMPLE_RATE + rate - 1) div rate)"
proof (cases "rate = WEBRTC_PCM_SAMPLE_RATE \<or> k = 0")
  case True
  then show ?thesis using assms
    by (auto simp: converter_at_def converter_finish_def WEBRTC_PCM_SAMPLE_RATE_def
        intro!: div_nat_eqI [symmetric] split: if_splits)
next
  case False
  then obtain prev where l: "cv_last c = Some prev" "cv_src_rate c = rate" "cv_pos c < rate"
      "rate * m = (k - 1) * WEBRTC_PCM_SAMPLE_RATE + cv_pos c"
    using assms by (auto simp: converter_at_def)
  obtain tail pos' where i: "interval rate (\<lambda>_. prev) (cv_pos c) = (tail, pos')"
    by (cases "interval rate (\<lambda>_. prev) (cv_pos c)")
  obtain m' where r: "length tail = 4 * m'" "pos' = cv_pos c + rate * m'"
      "WEBRTC_PCM_SAMPLE_RATE \<le> pos'" "pos' < WEBRTC_PCM_SAMPLE_RATE + rate"
    using interval_result [OF i] l(3) assms(2,3) by auto
  obtain j where j: "k = Suc j" using False by (cases k) auto
  have "rate * (m + m') = j * WEBRTC_PCM_SAMPLE_RATE + pos'"
    using l(4) r(2) j by (simp add: algebra_simps)
  then have "m + m' = (k * WEBRTC_PCM_SAMPLE_RATE + rate - 1) div rate"
    using r(3,4) j by (intro ceil_unique) auto
  moreover have "fst (converter_finish c) = tail" using i l by (simp add: converter_finish_def)
  ultimately show ?thesis using r(1) by simp
qed

text \<open>
  converting \<open>n\<close> complete samples at \<open>rate\<close> Hz and flushing the tail yields exactly
  \<open>\<lceil>n \<cdot> 48000 / rate\<rceil>\<close> stereo frames of four bytes, however the input was cut: no drift, nothing lost.
\<close>

theorem converter_output_length:
  assumes "converter_new rate = Some c" and "push_chunks chunks c = (out, c')"
  shows "length (out @ fst (converter_finish c')) =
    4 * ((length (concat chunks) div 2 * WEBRTC_PCM_SAMPLE_RATE + rate - 1) div rate)"
proof -
  let ?n = "length (concat chunks) div 2"
  have c: "8000 \<le> rate" "rate \<le> WEBRTC_PCM_SAMPLE_RATE" "carried c = []" "converter_at rate 0 0 c"
    using assms(1) by (auto simp: converter_new_def converter_at_def carried_def split: if_splits)
  obtain c1 where c1: "convert_samples (samples_of (concat chunks)) c = (out, c1)"
      "c' = keep_odd (concat chunks) c1"
    using assms(2) push_chunks_whole [of chunks c] c(3)
    by (cases "convert_samples (samples_of (concat chunks)) c") (simp add: push_eq)
  obtain m where m: "length out = 4 * m" "converter_at rate ?n m c1"
    using convert_samples_at [OF c(4,1,2) c1(1)] by auto
  then have "converter_at rate ?n m c'" using c1(2) by (simp add: converter_at_def keep_odd_def)
  then show ?thesis using finish_length [OF _ c(1,2)] m(1) by simp
qed

theorem converter_output_length_witness:
  "\<exists>c out c'. converter_new 16000 = Some c \<and> push_chunks [[1, 0, 2], [0, 3, 0, 9]] c = (out, c') \<and>
     length (out @ fst (converter_finish c')) = 36"
proof -
  obtain c where c: "converter_new 16000 = Some c"
    by (simp add: converter_new_def WEBRTC_PCM_SAMPLE_RATE_def)
  obtain out c' where p: "push_chunks [[1, 0, 2], [0, 3, 0, 9]] c = (out, c')"
    by (cases "push_chunks [[1, 0, 2], [0, 3, 0, 9]] c")
  have "length (out @ fst (converter_finish c')) = 36"
    using converter_output_length [OF c p] by (simp add: WEBRTC_PCM_SAMPLE_RATE_def)
  with c p show ?thesis by blast
qed

end
