(* ===== verification/Wav_Stream.thy ===== *)
theory Wav_Stream
  imports Pcm Text_Model
begin

text \<open>
  \<open>crates/vendor-groq/src/wav.rs\<close>: the incremental WAV reader of the Groq TTS body.  It walks the
  RIFF chunks as bytes arrive and returns the PCM payload of the \<open>data\<close> chunk.
\<close>

section \<open>State and operations\<close>

datatype wav_state = Riff | ChunkHeader | Fmt nat | Skip nat | Data

record wav_stream =
  ws_state :: wav_state
  ws_head :: bytes
  ws_rate :: "nat option"

definition wav_new :: wav_stream where
  "wav_new = \<lparr>ws_state = Riff, ws_head = [], ws_rate = None\<rparr>"

definition wav_rate :: "wav_stream \<Rightarrow> nat option" where
  "wav_rate w = ws_rate w"

definition wav_in_data :: "wav_stream \<Rightarrow> bool" where
  "wav_in_data w \<longleftrightarrow> ws_state w = Data"

text \<open>\<open>u32::from_le_bytes\<close> and \<open>u16::from_le_bytes\<close>, read as naturals.\<close>

definition le32 :: "bytes \<Rightarrow> nat" where
  "le32 b = unat (b ! 0) + 256 * unat (b ! 1) + 65536 * unat (b ! 2) + 16777216 * unat (b ! 3)"

definition le16 :: "bytes \<Rightarrow> nat" where
  "le16 b = unat (b ! 0) + 256 * unat (b ! 1)"

text \<open>\<open>want - self.head.len()\<close> panics when the head is already longer: \<open>None\<close>.\<close>

definition wav_take :: "wav_stream \<Rightarrow> bytes \<Rightarrow> nat \<Rightarrow> (bool \<times> wav_stream \<times> bytes) option" where
  "wav_take w rest want =
     (if want < length (ws_head w) then None
      else
        (let need = want - length (ws_head w); n = min need (length rest);
             w = w\<lparr>ws_head := ws_head w @ take n rest\<rparr>
         in Some (length (ws_head w) = want, w, drop n rest)))"

definition not_a_wav :: ustring where
  "not_a_wav = utext ''Groq TTS response is not a WAV file''"

definition data_before_fmt :: ustring where
  "data_before_fmt = utext ''Groq TTS WAV has a data chunk before its fmt chunk''"

text \<open>The checks on a complete \<open>fmt \<close> chunk body; the state entered after a good one.\<close>

definition wav_fmt :: "nat \<Rightarrow> wav_stream \<Rightarrow> (ustring, unit) outcome \<times> wav_stream" where
  "wav_fmt len w =
     (if len < 16 then (Err (utext ''Groq TTS WAV fmt chunk is '' @ decimal len @ utext '' bytes''), w)
      else
        (let tag = le16 (take 2 (ws_head w)); channels = le16 (take 2 (drop 2 (ws_head w)));
             rate = le32 (take 4 (drop 4 (ws_head w))); bits = le16 (take 2 (drop 14 (ws_head w)));
             w = w\<lparr>ws_head := []\<rparr>
         in if tag \<noteq> 1 \<or> bits \<noteq> 16 then
              (Err (utext ''Groq TTS WAV is not 16-bit PCM (format tag '' @ decimal tag @ utext '', '' @
                 decimal bits @ utext '' bits)''), w)
            else if channels \<noteq> 1 then
              (Err (utext ''Groq TTS WAV has '' @ decimal channels @
                 utext '' channels; only mono is supported''), w)
            else if rate = 0 then (Err (utext ''Groq TTS WAV has sample rate 0''), w)
            else (Ok (), w\<lparr>ws_rate := Some rate,
                    ws_state := (if len mod 2 = 1 then Skip 1 else ChunkHeader)\<rparr>)))"

definition wav_chunk_header :: "wav_stream \<Rightarrow> (ustring, unit) outcome \<times> wav_stream" where
  "wav_chunk_header w =
     (let size = le32 (take 4 (drop 4 (ws_head w))); id = take 4 (ws_head w); w = w\<lparr>ws_head := []\<rparr>
      in if id = ascii ''fmt '' then (Ok (), w\<lparr>ws_state := Fmt size\<rparr>)
         else if id = ascii ''data'' then
           (if ws_rate w = None then (Err data_before_fmt, w) else (Ok (), w\<lparr>ws_state := Data\<rparr>))
         else (Ok (), w\<lparr>ws_state := Skip (size + size mod 2)\<rparr>))"

definition wav_riff :: "wav_stream \<Rightarrow> (ustring, unit) outcome \<times> wav_stream" where
  "wav_riff w =
     (if take 4 (ws_head w) \<noteq> ascii ''RIFF'' \<or> take 4 (drop 8 (ws_head w)) \<noteq> ascii ''WAVE''
      then (Err not_a_wav, w)
      else (Ok (), w\<lparr>ws_head := [], ws_state := ChunkHeader\<rparr>))"

text \<open>
  A header state collects \<open>want\<close> bytes and then decides: how many bytes each state wants, and the
  decision on the complete head.
\<close>

fun wav_want :: "wav_state \<Rightarrow> nat" where
  "wav_want Riff = 12"
| "wav_want ChunkHeader = 8"
| "wav_want (Fmt len) = len"
| "wav_want _ = 0"

definition wav_header :: "wav_stream \<Rightarrow> (ustring, unit) outcome \<times> wav_stream" where
  "wav_header w =
     (case ws_state w of
        Riff \<Rightarrow> wav_riff w
      | ChunkHeader \<Rightarrow> wav_chunk_header w
      | Fmt len \<Rightarrow> wav_fmt len w
      | _ \<Rightarrow> (Ok (), w))"

lemma wav_header_shrinks:
  "wav_header w = (Ok (), w') \<Longrightarrow> length (ws_head w) = wav_want (ws_state w) \<Longrightarrow>
   ws_state w \<noteq> Data \<Longrightarrow> (\<forall>n. ws_state w \<noteq> Skip n) \<Longrightarrow> ws_head w' = [] \<and> 8 \<le> length (ws_head w)"
  by (cases "ws_state w")
    (auto simp: wav_header_def wav_riff_def wav_chunk_header_def wav_fmt_def Let_def split: if_splits)

lemma wav_take_True:
  "wav_take w rest want = Some (True, w1, rest1) \<Longrightarrow>
     ws_state w1 = ws_state w \<and> length (ws_head w1) = want \<and>
     length rest1 + want = length rest + length (ws_head w)"
  by (auto simp: wav_take_def Let_def split: if_splits)

definition in_header :: "wav_state \<Rightarrow> bool" where
  "in_header st = (case st of Data \<Rightarrow> False | Skip _ \<Rightarrow> False | _ \<Rightarrow> True)"

lemma in_header_simps [simp]:
  "in_header Riff" "in_header ChunkHeader" "in_header (Fmt n)" "\<not> in_header Data" "\<not> in_header (Skip n)"
  by (simp_all add: in_header_def)

lemma wav_progress:
  assumes "wav_take w rest want = Some (True, w1, rest1)" and "wav_header w1 = (Ok u, w2)"
    and "in_header (ws_state w)" and "want = wav_want (ws_state w)"
  shows "2 * (length rest1 + length (ws_head w2)) + 1 < 2 * (length rest + length (ws_head w))"
proof -
  have t: "ws_state w1 = ws_state w" "length (ws_head w1) = want"
      "length rest1 + want = length rest + length (ws_head w)"
    using wav_take_True [OF assms(1)] by auto
  moreover have "ws_head w2 = [] \<and> 8 \<le> length (ws_head w1)"
    using wav_header_shrinks [of w1 w2] assms(2-4) t by (cases "ws_state w") auto
  ultimately show ?thesis by simp
qed

lemma wav_progress_measure:
  assumes "wav_take w rest want = Some (True, w1, rest1)" and "(Ok u, w2) = wav_header w1"
    and "in_header (ws_state w)" and "want = wav_want (ws_state w)"
  shows "2 * length rest1 + 2 * length (ws_head w2) + (case ws_state w2 of Skip x \<Rightarrow> 1 | _ \<Rightarrow> 0)
    < 2 * length rest + 2 * length (ws_head w)"
  using wav_progress [OF assms(1) assms(2) [symmetric] assms(3,4)] by (simp split: wav_state.split)

text \<open>\<open>while !rest.is_empty() { match self.state { ... } }\<close>\<close>

function wav_feed :: "bytes \<Rightarrow> wav_stream \<Rightarrow> (ustring, bytes) outcome \<times> wav_stream" where
  "wav_feed rest w =
     (if rest = [] then (Ok [], w)
      else
        (case ws_state w of
           Data \<Rightarrow> (Ok rest, w)
         | Skip left \<Rightarrow>
             (let n = min left (length rest)
              in wav_feed (drop n rest)
                   (w\<lparr>ws_state := (if left = n then ChunkHeader else Skip (left - n))\<rparr>))
         | _ \<Rightarrow>
             (case wav_take w rest (wav_want (ws_state w)) of
                None \<Rightarrow> (Panic, w)
              | Some (False, w1, _) \<Rightarrow> (Ok [], w1)
              | Some (True, w1, rest1) \<Rightarrow>
                  (case wav_header w1 of
                     (Ok _, w2) \<Rightarrow> wav_feed rest1 w2
                   | (Err e, w2) \<Rightarrow> (Err e, w2)
                   | (Panic, w2) \<Rightarrow> (Panic, w2)))))"
  by pat_completeness auto

termination
proof (relation "measure (\<lambda>(rest, w). 2 * (length rest + length (ws_head w)) +
    (case ws_state w of Skip _ \<Rightarrow> 1 | _ \<Rightarrow> 0))", goal_cases)
  case 1
  then show ?case by simp
next
  case 2
  then show ?case by auto (rule wav_progress_measure, assumption, assumption, simp, simp)
next
  case 3
  then show ?case by auto (rule wav_progress_measure, assumption, assumption, simp, simp)
next
  case 4
  then show ?case by auto (rule wav_progress_measure, assumption, assumption, simp, simp)
next
  case 5
  then show ?case by (auto simp: min_def split: if_splits)
qed

declare wav_feed.simps [simp del]

section \<open>The cuts between calls never show\<close>

lemma wav_feed_Nil [simp]: "wav_feed [] w = (Ok [], w)"
  by (simp add: wav_feed.simps)

lemma wav_feed_Data: "ws_state w = Data \<Longrightarrow> wav_feed rest w = (Ok rest, w)"
  by (simp add: wav_feed.simps)

lemma wav_feed_Skip:
  "ws_state w = Skip left \<Longrightarrow> rest \<noteq> [] \<Longrightarrow> wav_feed rest w =
     wav_feed (drop (min left (length rest)) rest)
       (w\<lparr>ws_state := (if left \<le> length rest then ChunkHeader else Skip (left - length rest))\<rparr>)"
  by (subst wav_feed.simps) (auto simp: Let_def min_def)

definition wav_resume :: "bytes \<Rightarrow> (ustring, unit) outcome \<times> wav_stream \<Rightarrow>
    (ustring, bytes) outcome \<times> wav_stream" where
  "wav_resume rest r =
     (case r of (Ok _, w) \<Rightarrow> wav_feed rest w | (Err e, w) \<Rightarrow> (Err e, w) | (Panic, w) \<Rightarrow> (Panic, w))"

lemma wav_feed_header:
  "in_header (ws_state w) \<Longrightarrow> rest \<noteq> [] \<Longrightarrow> wav_feed rest w =
     (case wav_take w rest (wav_want (ws_state w)) of
        None \<Rightarrow> (Panic, w)
      | Some (False, w1, _) \<Rightarrow> (Ok [], w1)
      | Some (True, w1, rest1) \<Rightarrow> wav_resume rest1 (wav_header w1))"
  by (subst wav_feed.simps)
    (cases "ws_state w"; simp add: wav_resume_def split: option.splits prod.splits outcome.splits bool.splits)

lemma wav_take_append:
  "wav_take w (xs @ ys) want =
     (case wav_take w xs want of
        None \<Rightarrow> None
      | Some (True, w1, rest1) \<Rightarrow> Some (True, w1, rest1 @ ys)
      | Some (False, w1, _) \<Rightarrow> wav_take w1 ys want)"
  by (auto simp: wav_take_def Let_def min_def split: bool.splits)

lemma wav_take_False:
  "wav_take w xs want = Some (False, w1, r) \<Longrightarrow> ws_state w1 = ws_state w \<and> length (ws_head w1) < want"
  by (auto simp: wav_take_def Let_def min_def split: if_splits)

lemma wav_feed_append: "wav_feed (xs @ ys) w = and_then (wav_feed xs w) (wav_feed ys)"
proof (induction xs w rule: wav_feed.induct)
  case (1 xs w)
  consider (Nil) "xs = []" | (YNil) "ys = []" | (Data) "ws_state w = Data"
    | (Skip) left where "ws_state w = Skip left" "xs \<noteq> []" "ys \<noteq> []"
    | (Header) "in_header (ws_state w)" "xs \<noteq> []" "ys \<noteq> []"
    by (cases "ws_state w") auto
  then show ?case
  proof cases
    case Skip
    show ?thesis
    proof (cases "left \<le> length xs")
      case True
      then show ?thesis using 1(4) Skip by (simp add: wav_feed_Skip min_def Let_def)
    next
      case False
      then show ?thesis using Skip
        by (simp add: wav_feed_Skip min_def add.commute)
    qed
  next
    case Header
    show ?thesis
    proof (cases "wav_take w xs (wav_want (ws_state w))")
      case None
      then show ?thesis using Header by (simp add: wav_feed_header wav_take_append)
    next
      case (Some r)
      obtain b w1 rest1 where r: "r = (b, w1, rest1)" by (cases r)
      show ?thesis
      proof (cases b)
        case True
        then have "wav_resume (rest1 @ ys) (wav_header w1) =
            and_then (wav_resume rest1 (wav_header w1)) (wav_feed ys)"
          using 1(1-3) Header Some r
          by (cases "ws_state w"; cases "wav_header w1"; cases "fst (wav_header w1)")
            (auto simp: wav_resume_def)
        then show ?thesis using Header Some r True by (simp add: wav_feed_header wav_take_append)
      next
        case False
        then have "ws_state w1 = ws_state w \<and> length (ws_head w1) < wav_want (ws_state w)"
          using Some r wav_take_False [of w xs _ w1 rest1] by auto
        then have "ws_state w1 = ws_state w" "wav_take w1 ys (wav_want (ws_state w)) \<noteq> None"
          by (auto simp: wav_take_def Let_def)
        then show ?thesis using Header Some r False
          by (auto simp: wav_feed_header wav_take_append split: option.splits)
      qed
    qed
  next
    case Data
    then show ?thesis by (simp add: wav_feed_Data and_then_Ok)
  qed simp_all
qed

interpretation wav: incremental wav_feed
  by unfold_locales (simp_all add: wav_feed_append)

text \<open>
  the reader returns the same payload, error and state however the body is cut into calls.
\<close>

theorem wav_cut_invariant:
  "feed_all wav_feed chunks wav_new = wav_feed (concat chunks) wav_new"
  by (rule wav.feed_all_concat)

section \<open>Reading back a wavf\<close>

lemma wav_feed_exact:
  "in_header (ws_state w) \<Longrightarrow> ws_head w = [] \<Longrightarrow> length h = wav_want (ws_state w) \<Longrightarrow> h \<noteq> [] \<Longrightarrow>
   wav_feed h w = wav_resume [] (wav_header (w\<lparr>ws_head := h\<rparr>))"
  by (simp add: wav_feed_header wav_take_def Let_def)

lemma ascii_consts:
  "ascii ''RIFF'' = [82, 73, 70, 70]" "ascii ''WAVE'' = [87, 65, 86, 69]"
  "ascii ''fmt '' = [102, 109, 116, 32]" "ascii ''data'' = [100, 97, 116, 97]"
  by code_simp+

lemma u32_bytes: "u32_to_le w = [ucast w, ucast (drop_bit 8 w), ucast (drop_bit 16 w), ucast (drop_bit 24 w)]"
  by (simp add: u32_to_le_def)

definition wav_fmt_body :: bytes where
  "wav_fmt_body = u16_to_le 1 @ u16_to_le 1 @ u32_to_le (of_nat STT_PCM_SAMPLE_RATE) @
     u32_to_le (of_nat STT_PCM_SAMPLE_RATE * 2) @ u16_to_le 2 @ u16_to_le 16"

lemma fmt_body: "wav_fmt_body = [1, 0, 1, 0, 128, 62, 0, 0, 0, 125, 0, 0, 2, 0, 16, 0]"
  by code_simp

lemma fmt_body_facts:
  "length wav_fmt_body = 16" "le16 (take 2 wav_fmt_body) = 1" "le16 (take 2 (drop 2 wav_fmt_body)) = 1"
  "le32 (take 4 (drop 4 wav_fmt_body)) = 16000" "le16 (drop 14 wav_fmt_body) = 16"
  by (simp_all add: fmt_body le16_def le32_def)

lemma le32_16: "le32 (u32_to_le 16) = 16"
  by code_simp

lemma feed_riff:
  "wav_feed (ascii ''RIFF'' @ u32_to_le n @ ascii ''WAVE'') wav_new = (Ok [], wav_new\<lparr>ws_state := ChunkHeader\<rparr>)"
  by (subst wav_feed_exact)
    (simp_all add: wav_new_def wav_header_def wav_riff_def wav_resume_def ascii_consts u32_bytes)

lemma feed_fmt_header:
  "wav_feed (ascii ''fmt '' @ u32_to_le 16) \<lparr>ws_state = ChunkHeader, ws_head = [], ws_rate = r\<rparr> =
     (Ok [], \<lparr>ws_state = Fmt 16, ws_head = [], ws_rate = r\<rparr>)"
  using le32_16
  by (subst wav_feed_exact)
    (simp_all add: wav_header_def wav_chunk_header_def wav_resume_def ascii_consts u32_bytes Let_def)

lemma feed_fmt:
  "wav_feed wav_fmt_body \<lparr>ws_state = Fmt 16, ws_head = [], ws_rate = r\<rparr> =
     (Ok [], \<lparr>ws_state = ChunkHeader, ws_head = [], ws_rate = Some 16000\<rparr>)"
  by (subst wav_feed_exact)
    (simp_all add: wav_header_def wav_fmt_def wav_resume_def fmt_body_facts Let_def flip: length_0_conv)

lemma feed_data_header:
  "wav_feed (ascii ''data'' @ u32_to_le n) \<lparr>ws_state = ChunkHeader, ws_head = [], ws_rate = Some r\<rparr> =
     (Ok [], \<lparr>ws_state = Data, ws_head = [], ws_rate = Some r\<rparr>)"
  by (subst wav_feed_exact)
    (simp_all add: wav_header_def wav_chunk_header_def wav_resume_def ascii_consts u32_bytes Let_def)

lemma wav_feed_then: "wav_feed xs w = (Ok [], w') \<Longrightarrow> wav_feed (xs @ ys) w = wav_feed ys w'"
  by (simp add: wav_feed_append)

lemma wav_file_parts:
  "mono16_le_to_wav pcm = Some wavf \<Longrightarrow> \<exists>a b. wavf =
     (ascii ''RIFF'' @ u32_to_le a @ ascii ''WAVE'') @ (ascii ''fmt '' @ u32_to_le 16) @ wav_fmt_body @
     (ascii ''data'' @ u32_to_le b) @ pcm"
  by (auto simp: mono16_le_to_wav_def wav_fmt_body_def Let_def split: if_splits)

lemma feed_wav_file:
  assumes "mono16_le_to_wav pcm = Some wavf"
  shows "wav_feed wavf wav_new = (Ok pcm, \<lparr>ws_state = Data, ws_head = [], ws_rate = Some 16000\<rparr>)"
proof -
  obtain a b where f: "wavf =
     (ascii ''RIFF'' @ u32_to_le a @ ascii ''WAVE'') @ (ascii ''fmt '' @ u32_to_le 16) @ wav_fmt_body @
     (ascii ''data'' @ u32_to_le b) @ pcm"
    using wav_file_parts [OF assms] by blast
  have n: "wav_new\<lparr>ws_state := ChunkHeader\<rparr> = \<lparr>ws_state = ChunkHeader, ws_head = [], ws_rate = None\<rparr>"
    by (simp add: wav_new_def)
  have "wav_feed wavf wav_new = wav_feed pcm \<lparr>ws_state = Data, ws_head = [], ws_rate = Some 16000\<rparr>"
    by (simp only: f feed_riff [THEN wav_feed_then] n feed_fmt_header [THEN wav_feed_then]
        feed_fmt [THEN wav_feed_then] feed_data_header [THEN wav_feed_then])
  then show ?thesis by (simp add: wav_feed_Data)
qed

text \<open>
  C27: a file built by \<open>mono16_le_to_wav\<close> and fed to the reader in any pieces comes back as the same
  PCM bytes, at 16 kHz, with the reader in the \<open>data\<close> chunk.
\<close>

theorem wav_roundtrip:
  assumes "mono16_le_to_wav pcm = Some wavf" and "concat chunks = wavf"
  shows "\<exists>w. feed_all wav_feed chunks wav_new = (Ok pcm, w) \<and> wav_rate w = Some 16000 \<and> wav_in_data w"
  using feed_wav_file [OF assms(1)] assms(2)
  by (simp add: wav.feed_all_concat wav_rate_def wav_in_data_def)

lemma demo_wav: "\<exists>wavf. mono16_le_to_wav [1, 2, 3, 4] = Some wavf"
  by (simp add: mono16_le_to_wav_def Let_def)

theorem wav_roundtrip_witness:
  "\<exists>wavf w. mono16_le_to_wav [1, 2, 3, 4] = Some wavf \<and>
     feed_all wav_feed (map (\<lambda>b. [b]) wavf) wav_new = (Ok [1, 2, 3, 4], w) \<and> wav_rate w = Some 16000"
proof -
  obtain wavf where f: "mono16_le_to_wav [1, 2, 3, 4] = Some wavf" using demo_wav by blast
  moreover have "concat (map (\<lambda>b. [b]) wavf) = wavf" by (induction wavf) auto
  ultimately show ?thesis using wav_roundtrip [OF f] by blast
qed

section \<open>Safety\<close>

definition wav_inv :: "wav_stream \<Rightarrow> bool" where
  "wav_inv w \<longleftrightarrow>
     (if in_header (ws_state w) then length (ws_head w) \<le> wav_want (ws_state w) else ws_head w = []) \<and>
     (ws_state w = Data \<longrightarrow> ws_rate w \<noteq> None) \<and> ws_rate w \<noteq> Some 0"

lemma wav_riff_ok: "fst (wav_riff w) \<noteq> Panic" "wav_inv w \<Longrightarrow> ws_state w = Riff \<Longrightarrow> wav_inv (snd (wav_riff w))"
  by (simp_all add: wav_riff_def wav_inv_def)

lemma wav_chunk_header_ok:
  "fst (wav_chunk_header w) \<noteq> Panic"
  "wav_inv w \<Longrightarrow> ws_state w = ChunkHeader \<Longrightarrow> wav_inv (snd (wav_chunk_header w))"
  by (simp_all add: wav_chunk_header_def wav_inv_def Let_def)

lemma wav_fmt_ok:
  "fst (wav_fmt n w) \<noteq> Panic" "wav_inv w \<Longrightarrow> ws_state w = Fmt n \<Longrightarrow> wav_inv (snd (wav_fmt n w))"
  by (simp_all add: wav_fmt_def wav_inv_def Let_def)

lemma wav_header_ok:
  "wav_inv w \<Longrightarrow> in_header (ws_state w) \<Longrightarrow>
   fst (wav_header w) \<noteq> Panic \<and> wav_inv (snd (wav_header w))"
  by (cases "ws_state w") (simp_all add: wav_header_def wav_riff_ok wav_chunk_header_ok wav_fmt_ok)

lemma wav_take_inv:
  assumes "wav_inv w" and "in_header (ws_state w)"
  obtains b w1 rest1 where "wav_take w rest (wav_want (ws_state w)) = Some (b, w1, rest1)"
    and "wav_inv w1" and "ws_state w1 = ws_state w"
proof -
  have "length (ws_head w) \<le> wav_want (ws_state w)" using assms by (simp add: wav_inv_def)
  then show ?thesis using that assms by (auto simp: wav_take_def wav_inv_def Let_def)
qed

definition safe :: "(ustring, bytes) outcome \<times> wav_stream \<Rightarrow> bool" where
  "safe r \<longleftrightarrow> fst r \<noteq> Panic \<and> wav_inv (snd r)"

lemma wav_resume_safe:
  "wav_inv w \<Longrightarrow> in_header (ws_state w) \<Longrightarrow>
   (\<And>w2. wav_header w = (Ok (), w2) \<Longrightarrow> wav_inv w2 \<Longrightarrow> safe (wav_feed rest w2)) \<Longrightarrow>
   safe (wav_resume rest (wav_header w))"
  using wav_header_ok [of w]
  by (cases "wav_header w"; cases "fst (wav_header w)") (auto simp: wav_resume_def safe_def)

lemma wav_feed_safe: "wav_inv w \<Longrightarrow> safe (wav_feed rest w)"
proof (induction rest w rule: wav_feed.induct)
  case (1 rest w)
  consider (Nil) "rest = []" | (Data) "ws_state w = Data"
    | (Skip) left where "ws_state w = Skip left" "rest \<noteq> []"
    | (Header) "in_header (ws_state w)" "rest \<noteq> []"
    by (cases "ws_state w") auto
  then show ?case
  proof cases
    case Skip
    let ?w = "w\<lparr>ws_state := (if left \<le> length rest then ChunkHeader else Skip (left - length rest))\<rparr>"
    have "wav_inv ?w" using 1(5) Skip by (simp add: wav_inv_def)
    then show ?thesis
      using 1(4) [OF Skip(2,1) refl] Skip by (simp add: wav_feed_Skip min_def split: if_splits)
  next
    case Header
    obtain b w1 rest1 where t: "wav_take w rest (wav_want (ws_state w)) = Some (b, w1, rest1)"
        "wav_inv w1" "ws_state w1 = ws_state w"
      using wav_take_inv [OF 1(5) Header(1)] by blast
    have IH: "safe (wav_feed rest1 w2)" if "b" "wav_header w1 = (Ok (), w2)" "wav_inv w2" for w2
      using 1(1-3) Header t(1) that by (cases "ws_state w") simp_all
    show ?thesis
    proof (cases b)
      case True
      then show ?thesis
        using wav_resume_safe [OF t(2), of rest1] IH Header t by (simp add: wav_feed_header)
    next
      case False
      then show ?thesis using Header t by (simp add: wav_feed_header safe_def)
    qed
  qed (use 1(5) in \<open>auto simp: wav_feed_Data safe_def\<close>)
qed

text \<open>
  no input panics the reader, and once it is inside the \<open>data\<close> chunk it knows a non-zero rate.
\<close>

theorem wav_never_panics:
  "fst (wav_feed body wav_new) \<noteq> Panic \<and>
   (\<not> wav_in_data (snd (wav_feed body wav_new)) \<or>
    (\<exists>rate. wav_rate (snd (wav_feed body wav_new)) = Some rate \<and> 0 < rate))"
proof -
  have "safe (wav_feed body wav_new)" by (rule wav_feed_safe) (simp add: wav_inv_def wav_new_def)
  then show ?thesis by (auto simp: safe_def wav_inv_def wav_in_data_def wav_rate_def)
qed

theorem wav_never_panics_witness:
  "\<exists>wavf rate. mono16_le_to_wav [1, 2, 3, 4] = Some wavf \<and>
     wav_rate (snd (wav_feed wavf wav_new)) = Some rate \<and> 0 < rate"
proof -
  obtain wavf where f: "mono16_le_to_wav [1, 2, 3, 4] = Some wavf" using demo_wav by blast
  have "wav_in_data (snd (wav_feed wavf wav_new))"
    by (simp add: feed_wav_file [OF f] wav_in_data_def)
  with f show ?thesis using wav_never_panics [of wavf] by blast
qed

end
