(* ===== verification/Mix_Bus.thy ===== *)
theory Mix_Bus
  imports Pcm
begin

text \<open>
  \<open>crates/mixer/src/frame.rs\<close> and \<open>bus.rs\<close>: 20 ms stereo frames, and the summing bus with its
  soft limiter.
\<close>

section \<open>Frames\<close>

definition SAMPLE_RATE :: nat where "SAMPLE_RATE = 48000"
definition CHANNELS :: nat where "CHANNELS = 2"
definition FRAME_MS :: nat where "FRAME_MS = 20"
definition FRAME_HOLD_MS :: nat where "FRAME_HOLD_MS = 2 * FRAME_MS"
definition FRAME_BYTES :: nat where "FRAME_BYTES = 3840"
definition SAMPLES_PER_CHANNEL :: nat where "SAMPLES_PER_CHANNEL = SAMPLE_RATE * FRAME_MS div 1000"
definition SAMPLES_PER_FRAME :: nat where "SAMPLES_PER_FRAME = SAMPLES_PER_CHANNEL * CHANNELS"

lemma frame_sizes [simp]:
  "SAMPLES_PER_CHANNEL = 960" "SAMPLES_PER_FRAME = 1920" "FRAME_BYTES = 3840" "FRAME_MS = 20"
  by (simp_all add: SAMPLES_PER_CHANNEL_def SAMPLES_PER_FRAME_def FRAME_BYTES_def FRAME_MS_def
      SAMPLE_RATE_def CHANNELS_def)

record frame =
  fr_pcm :: bytes
  fr_timestamp_us :: "nat option"

definition frame_new :: "bytes \<Rightarrow> nat option \<Rightarrow> frame" where
  "frame_new pcm ts = \<lparr>fr_pcm = pcm, fr_timestamp_us = ts\<rparr>"

definition is_valid :: "frame \<Rightarrow> bool" where
  "is_valid f \<longleftrightarrow> length (fr_pcm f) = FRAME_BYTES"

definition silence_frame :: frame where
  "silence_frame = \<lparr>fr_pcm = replicate FRAME_BYTES 0, fr_timestamp_us = None\<rparr>"

lemma silence_valid [simp]: "is_valid silence_frame"
  by (simp add: is_valid_def silence_frame_def)

text \<open>The single-slot hold of \<open>FrameBuffer\<close>.\<close>

record stored_frame =
  sf_frame :: frame
  sf_pushed_at :: instant

type_synonym frame_buffer = "stored_frame option"

definition buffer_new :: frame_buffer where "buffer_new = None"

definition buffer_push :: "frame \<Rightarrow> instant \<Rightarrow> frame_buffer \<Rightarrow> frame_buffer" where
  "buffer_push f now _ = Some \<lparr>sf_frame = f, sf_pushed_at = now\<rparr>"

definition buffer_current :: "instant \<Rightarrow> frame_buffer \<Rightarrow> frame" where
  "buffer_current now b =
     (case b of
        Some s \<Rightarrow>
          if saturating_duration_since now (sf_pushed_at s) \<le> ms FRAME_HOLD_MS then sf_frame s
          else silence_frame
      | None \<Rightarrow> silence_frame)"

definition buffer_clear :: "frame_buffer \<Rightarrow> frame_buffer" where "buffer_clear _ = None"

section \<open>The bus\<close>

definition i32_min :: int where "i32_min = - 2147483648"
definition i32_max :: int where "i32_max = 2147483647"

definition saturating_add_i32 :: "int \<Rightarrow> int \<Rightarrow> int" where
  "saturating_add_i32 a b = clamp i32_min i32_max (a + b)"

definition KNEE :: int where "KNEE = 29491"

text \<open>\<open>sample.abs()\<close> overflows on \<open>i32::MIN\<close>: \<open>None\<close> is that panic.\<close>

definition soft_clip :: "int \<Rightarrow> sample option" where
  "soft_clip s =
     (if s = i32_min then None
      else
        (let sign = (if 0 \<le> s then 1 else - 1); abs = \<bar>s\<bar>;
             limited = (if abs \<le> KNEE then abs else KNEE + rust_div (abs - KNEE) 4);
             capped = min limited 32767
         in Some (word_of_int (clamp (- 32768) 32767 (sign * capped)))))"

definition mix_add :: "frame \<Rightarrow> int list \<Rightarrow> int list" where
  "mix_add input accum =
     (if length (fr_pcm input) \<noteq> FRAME_BYTES then accum
      else map2 (\<lambda>a s. saturating_add_i32 a (sint s)) accum (samples_of (fr_pcm input)))"

fun clip_all :: "int list \<Rightarrow> sample list option" where
  "clip_all [] = Some []"
| "clip_all (s # ss) =
     (case soft_clip s of
        None \<Rightarrow> None
      | Some c \<Rightarrow> map_option ((#) c) (clip_all ss))"

definition mix :: "frame list \<Rightarrow> frame option" where
  "mix inputs =
     (let accum = fold mix_add inputs (replicate SAMPLES_PER_FRAME 0)
      in map_option (\<lambda>pcm. frame_new (i16_samples_to_bytes pcm) None) (clip_all accum))"

section \<open>The limiter\<close>

definition limiter :: "int \<Rightarrow> int" where
  "limiter s = sgn s * (if \<bar>s\<bar> \<le> KNEE then \<bar>s\<bar> else min 32767 (KNEE + (\<bar>s\<bar> - KNEE) div 4))"

lemma sint_word_of_int_16: "- 32768 \<le> x \<Longrightarrow> x \<le> 32767 \<Longrightarrow> sint (word_of_int x :: 16 word) = x"
  by (simp add: sint_sbintrunc' signed_take_bit_int_eq_self)

lemma limiter_bounds: "- 32767 \<le> limiter s \<and> limiter s \<le> 32767"
  by (cases s "0 :: int" rule: linorder_cases) (auto simp: limiter_def KNEE_def min_def sgn_if)

lemma limiter_exact: "\<bar>s\<bar> \<le> KNEE \<Longrightarrow> limiter s = s"
  by (simp add: limiter_def abs_mult_sgn mult.commute)

lemma limiter_odd: "limiter (- s) = - limiter s"
  by (simp add: limiter_def)

lemma limiter_mono: "s \<le> t \<Longrightarrow> limiter s \<le> limiter t"
  by (auto simp: limiter_def KNEE_def sgn_if min_def zdiv_mono1)

lemma soft_clip_limiter:
  "s \<noteq> i32_min \<Longrightarrow> \<exists>c. soft_clip s = Some c \<and> sint c = limiter s"
proof -
  assume s: "s \<noteq> i32_min"
  have "soft_clip s = Some (word_of_int (limiter s))"
    using s limiter_bounds [of s]
    by (auto simp: soft_clip_def limiter_def Let_def KNEE_def rust_div_nonneg min_def clamp_def sgn_if)
  then show ?thesis using limiter_bounds [of s] by (simp add: sint_word_of_int_16)
qed

section \<open>The mix is the limited exact sum\<close>

definition frame_samples :: "frame \<Rightarrow> int list" where
  "frame_samples f =
     (if is_valid f then map sint (samples_of (fr_pcm f)) else replicate SAMPLES_PER_FRAME 0)"

lemma length_frame_samples [simp]: "length (frame_samples f) = 1920"
  by (simp add: frame_samples_def is_valid_def)

definition sum_at :: "frame list \<Rightarrow> nat \<Rightarrow> int" where
  "sum_at inputs i = (\<Sum>f \<leftarrow> inputs. frame_samples f ! i)"

lemma sint_16_bounds: "- 32768 \<le> sint (w :: 16 word) \<and> sint w \<le> 32767"
  using sint_greater_eq [of w] sint_lt [of w] by simp

lemma frame_samples_bounds: "i < 1920 \<Longrightarrow> \<bar>frame_samples f ! i\<bar> \<le> 32768"
  using sint_16_bounds [of "samples_of (fr_pcm f) ! i"]
  by (auto simp: frame_samples_def is_valid_def nth_replicate abs_le_iff)

lemma sum_at_bounds: "i < 1920 \<Longrightarrow> \<bar>sum_at inputs i\<bar> \<le> 32768 * int (length inputs)"
proof (induction inputs)
  case (Cons f fs)
  then show ?case using frame_samples_bounds [of i f] by (simp add: sum_at_def)
qed (simp add: sum_at_def)

lemma length_mix_add [simp]: "length accum = 1920 \<Longrightarrow> length (mix_add f accum) = 1920"
  by (simp add: mix_add_def)

lemma mix_add_nth:
  assumes "length accum = 1920" and "i < 1920" and "\<bar>accum ! i + frame_samples f ! i\<bar> \<le> i32_max"
  shows "mix_add f accum ! i = accum ! i + frame_samples f ! i"
  using assms
  by (auto simp: mix_add_def frame_samples_def is_valid_def saturating_add_i32_def clamp_def
      i32_min_def i32_max_def nth_replicate)

lemma fold_mix_add:
  assumes "length accum = 1920" and "\<forall>i < 1920. \<bar>accum ! i\<bar> \<le> 32768 * int k"
    and "k + length inputs \<le> 65535"
  shows "length (fold mix_add inputs accum) = 1920 \<and>
    (\<forall>i < 1920. fold mix_add inputs accum ! i = accum ! i + sum_at inputs i)"
  using assms
proof (induction inputs arbitrary: accum k)
  case (Cons f fs)
  have b: "\<bar>accum ! i + frame_samples f ! i\<bar> \<le> 32768 * int (Suc k)" if "i < 1920" for i
    using Cons.prems(2) frame_samples_bounds [OF that, of f] that by fastforce
  have k: "32768 * int (Suc k) \<le> i32_max" using Cons.prems(3) by (simp add: i32_max_def)
  have a: "mix_add f accum ! i = accum ! i + frame_samples f ! i" if "i < 1920" for i
    by (rule mix_add_nth [OF Cons.prems(1) that order_trans [OF b [OF that] k]])
  have "\<forall>i < 1920. \<bar>mix_add f accum ! i\<bar> \<le> 32768 * int (Suc k)" using a b by simp
  then show ?case
    using Cons.IH [of "mix_add f accum" "Suc k"] Cons.prems(1,3) a by (simp add: sum_at_def)
qed (simp add: sum_at_def)

lemma clip_all_limiter:
  "i32_min \<notin> set ss \<Longrightarrow> \<exists>cs. clip_all ss = Some cs \<and> map sint cs = map limiter ss"
proof (induction ss)
  case (Cons s ss)
  obtain c where c: "soft_clip s = Some c" "sint c = limiter s"
    using soft_clip_limiter [of s] Cons.prems by auto
  with Cons show ?case by auto
qed simp

lemma mix_samples:
  assumes "length inputs \<le> 65535"
  obtains cs where "mix inputs = Some (frame_new (i16_samples_to_bytes cs) None)"
    and "map sint cs = map (\<lambda>i. limiter (sum_at inputs i)) [0..<1920]"
proof -
  let ?acc = "fold mix_add inputs (replicate 1920 0)"
  have f: "length ?acc = 1920" "\<forall>i < 1920. ?acc ! i = sum_at inputs i"
    using fold_mix_add [of "replicate 1920 0" 0 inputs] assms by simp_all
  then have eq: "?acc = map (sum_at inputs) [0..<1920]" by (intro nth_equalityI) auto
  have "\<bar>sum_at inputs i\<bar> < 2147483648" if "i < 1920" for i
    using sum_at_bounds [OF that, of inputs] assms by linarith
  then have "i32_min \<notin> set ?acc" unfolding eq by (force simp: i32_min_def)
  then obtain cs where "clip_all ?acc = Some cs" "map sint cs = map limiter ?acc"
    using clip_all_limiter by blast
  then show ?thesis using that [of cs] by (simp add: mix_def eq comp_def)
qed

lemma mix_valid: "length inputs \<le> 65535 \<Longrightarrow> \<exists>out. mix inputs = Some out \<and> is_valid out"
proof -
  assume "length inputs \<le> 65535"
  then obtain cs where cs: "mix inputs = Some (frame_new (i16_samples_to_bytes cs) None)"
      "map sint cs = map (\<lambda>i. limiter (sum_at inputs i)) [0..<1920]"
    using mix_samples by blast
  have "length cs = 1920" using arg_cong [OF cs(2), of length] by simp
  then show ?thesis using cs(1) by (simp add: frame_new_def is_valid_def)
qed

text \<open>
  C28: mixing up to 65535 frames never fails and is exact: sample \<open>i\<close> of the output is the limiter
  applied to the true sum of the inputs' samples \<open>i\<close> (frames of a wrong length count as silence), so it
  stays within \<open>\<plusminus>32767\<close> and equals the sum itself whenever that is at most 29491 in magnitude.
\<close>

theorem mix_exact:
  assumes "length inputs \<le> 65535"
  shows "\<exists>out. mix inputs = Some out \<and> is_valid out \<and>
    (\<forall>i < 1920. let total = sum_at inputs i; s = sint (samples_of (fr_pcm out) ! i)
       in s = limiter total \<and> \<bar>s\<bar> \<le> 32767 \<and> (\<bar>total\<bar> \<le> 29491 \<longrightarrow> s = total))"
proof -
  obtain cs where cs: "mix inputs = Some (frame_new (i16_samples_to_bytes cs) None)"
      "map sint cs = map (\<lambda>i. limiter (sum_at inputs i)) [0..<1920]"
    using mix_samples [OF assms] .
  have len: "length cs = 1920" using arg_cong [OF cs(2), of length] by simp
  have "sint (cs ! i) = limiter (sum_at inputs i)" if "i < 1920" for i
    using arg_cong [OF cs(2), of "\<lambda>l. l ! i"] len that by simp
  then show ?thesis using cs(1) len limiter_bounds limiter_exact
    by (auto simp: frame_new_def is_valid_def samples_roundtrip Let_def abs_le_iff KNEE_def
        minus_le_iff)
qed

text \<open>
  the order in which the sources are visited (a \<open>HashMap\<close> gives no order) does not change the
  mix.
\<close>

theorem mix_order_irrelevant:
  assumes "mset inputs = mset inputs'" and "length inputs \<le> 65535"
  shows "mix inputs = mix inputs'"
proof -
  have len: "length inputs' \<le> 65535" using assms by (metis size_mset)
  obtain cs where cs: "mix inputs = Some (frame_new (i16_samples_to_bytes cs) None)"
      "map sint cs = map (\<lambda>i. limiter (sum_at inputs i)) [0..<1920]"
    using mix_samples [OF assms(2)] .
  obtain cs' where cs': "mix inputs' = Some (frame_new (i16_samples_to_bytes cs') None)"
      "map sint cs' = map (\<lambda>i. limiter (sum_at inputs' i)) [0..<1920]"
    using mix_samples [OF len] .
  have "sum_at inputs i = sum_at inputs' i" for i
    using assms(1) unfolding sum_at_def by (metis mset_map sum_mset_sum_list)
  then have "map sint cs = map sint cs'" using cs(2) cs'(2) by simp
  then have "cs = cs'" by (rule map_injective) (rule injI, rule signed_word_eqI, simp)
  then show ?thesis using cs(1) cs'(1) by simp
qed

definition demo_frame :: "byte \<Rightarrow> frame" where
  "demo_frame b = frame_new (replicate FRAME_BYTES b) None"

theorem mix_exact_witness:
  "\<exists>out. mix [demo_frame 1, demo_frame 2, demo_frame 0] = Some out \<and> is_valid out"
  using mix_exact [of "[demo_frame 1, demo_frame 2, demo_frame 0]"] by auto

theorem mix_order_irrelevant_witness:
  "mix [demo_frame 1, demo_frame 2] = mix [demo_frame 2, demo_frame 1]"
  by (rule mix_order_irrelevant) simp_all

end
