(* ===== verification/Elastic.thy ===== *)
theory Elastic
  imports Mix_Bus
begin

text \<open>
  \<open>crates/mixer/src/elastic.rs\<close>: the elastic FIFO of one mix source, and \<open>pacer.rs\<close>: the slot
  scheduler of an outbound loop.  Float arithmetic (jitter estimate, RMS levels, cross-fades) uses
  the \<open>float_ops\<close> argument \<open>fl\<close>; log lines and telemetry are not modelled.
\<close>

section \<open>Constants and levels\<close>

definition QUEUE_CAPACITY :: nat where "QUEUE_CAPACITY = 50"
definition MIN_TARGET_FRAMES :: nat where "MIN_TARGET_FRAMES = 2"
definition MAX_TARGET_FRAMES :: nat where "MAX_TARGET_FRAMES = 8"
definition SHRINK_MARGIN_FRAMES :: nat where "SHRINK_MARGIN_FRAMES = 2"
definition SHRINK_AFTER_TICKS :: nat where "SHRINK_AFTER_TICKS = 10"
definition REPREFILL_AFTER_EMPTY_TICKS :: nat where "REPREFILL_AFTER_EMPTY_TICKS = 3"
definition CROSSFADE_SAMPLES :: nat where "CROSSFADE_SAMPLES = SAMPLES_PER_CHANNEL div 2"
definition TALKSPURT_GAP :: duration where "TALKSPURT_GAP = ms 200"
definition WARN_INTERVAL :: duration where "WARN_INTERVAL = ms 1000"

definition SILENCE_THRESHOLD_DBFS :: "'f float_ops \<Rightarrow> 'f" where
  "SILENCE_THRESHOLD_DBFS fl = fl_of_int fl (- 50)"

definition frame_rms_dbfs :: "'f float_ops \<Rightarrow> frame \<Rightarrow> 'f" where
  "frame_rms_dbfs fl f =
     (let ss = samples_of (fr_pcm f);
          sum = fold (\<lambda>s acc. let v = fl_div fl (fl_of_int fl (sint s)) (fl_of_int fl 32768)
                  in fl_add fl acc (fl_mul fl v v)) ss (fl_of_int fl 0);
          n = length ss
      in if n = 0 \<or> fl_eq fl sum (fl_of_int fl 0) then fl_neg_inf fl
         else fl_mul fl (fl_of_int fl 10) (fl_log10 fl (fl_div fl sum (fl_of_int fl (int n)))))"

text \<open>The Hann cross-fade of one channel sample, and of the second half of the frame.\<close>

definition crossfade :: "'f float_ops \<Rightarrow> nat \<Rightarrow> sample \<Rightarrow> sample \<Rightarrow> sample" where
  "crossfade fl i a b =
     (let phase = fl_div fl (fl_mul fl (fl_div fl (fl_pi fl) (fl_of_int fl 2)) (fl_of_int fl (int (i + 1))))
            (fl_of_int fl (int CROSSFADE_SAMPLES));
          w = fl_mul fl (fl_sin fl phase) (fl_sin fl phase);
          x = fl_of_int fl (sint a); y = fl_of_int fl (sint b)
      in as_i16 fl (fl_clamp fl (fl_of_int fl (- 32768)) (fl_of_int fl 32767)
           (fl_round fl (fl_add fl (fl_mul fl x (fl_sub fl (fl_of_int fl 1) w)) (fl_mul fl y w)))))"

definition merge_pair :: "'f float_ops \<Rightarrow> frame \<Rightarrow> frame \<Rightarrow> frame" where
  "merge_pair fl a b =
     (if fl_lt fl (frame_rms_dbfs fl a) (SILENCE_THRESHOLD_DBFS fl) then b
      else if fl_lt fl (frame_rms_dbfs fl b) (SILENCE_THRESHOLD_DBFS fl) then a
      else
        (let sa = samples_of (fr_pcm a); sb = samples_of (fr_pcm b);
             start = (SAMPLES_PER_CHANNEL - CROSSFADE_SAMPLES) * 2;
             out = map (\<lambda>j. if j < start then sa ! j
                             else crossfade fl ((j - start) div 2) (sa ! j) (sb ! j))
                     [0..<SAMPLES_PER_FRAME]
         in frame_new (i16_samples_to_bytes out) None))"

definition fade_out :: "'f float_ops \<Rightarrow> frame \<Rightarrow> frame" where
  "fade_out fl f =
     (let faded = (\<lambda>i s.
            (let t = fl_div fl (fl_of_int fl (int (i div 2))) (fl_of_int fl (int SAMPLES_PER_CHANNEL));
                 gain = fl_sub fl (fl_of_int fl 1) (fl_mul fl (fl_ratio fl 1 2) t)
             in as_i16 fl (fl_round fl (fl_mul fl (fl_of_int fl (sint s)) gain))));
          ss = samples_of (fr_pcm f)
      in frame_new (i16_samples_to_bytes (map2 faded [0..<length ss] ss)) None)"

section \<open>The queue\<close>

record source_stats =
  ss_pushed :: nat
  ss_played :: nat
  ss_compressed :: nat
  ss_concealed :: nat
  ss_overflow_compressed :: nat
  ss_decode_errors :: nat
  ss_listener_catchup_compressed :: nat
  ss_listener_skipped :: nat
  ss_depth :: nat
  ss_target :: nat

record 'f elastic =
  el_frames :: "frame list"
  el_prefilling :: bool
  el_prefill_waited :: nat
  el_over_ticks :: nat
  el_empty_ticks :: nat
  el_last_played :: "frame option"
  el_last_arrival :: "instant option"
  el_jitter_ms :: 'f
  el_target :: nat
  el_pushed :: nat
  el_played :: nat
  el_compressed :: nat
  el_concealed :: nat
  el_overflow_compressed :: nat
  el_decode_errors :: nat
  el_last_warn :: "instant option"
  el_last_decode_warn :: "instant option"
  el_warnings :: nat

definition elastic_new :: "'f float_ops \<Rightarrow> 'f elastic" where
  "elastic_new fl = \<lparr>el_frames = [], el_prefilling = True, el_prefill_waited = 0, el_over_ticks = 0,
     el_empty_ticks = 0, el_last_played = None, el_last_arrival = None, el_jitter_ms = fl_of_int fl 0,
     el_target = MIN_TARGET_FRAMES, el_pushed = 0, el_played = 0, el_compressed = 0,
     el_concealed = 0, el_overflow_compressed = 0, el_decode_errors = 0, el_last_warn = None,
     el_last_decode_warn = None, el_warnings = 0\<rparr>"

text \<open>\<open>Duration::as_secs_f64\<close>\<close>

definition as_secs_f64 :: "'f float_ops \<Rightarrow> duration \<Rightarrow> 'f" where
  "as_secs_f64 fl d = fl_add fl (fl_of_int fl (int (d div 1000000000)))
     (fl_div fl (fl_of_int fl (int (d mod 1000000000))) (fl_of_int fl 1000000000))"

definition update_jitter :: "'f float_ops \<Rightarrow> instant \<Rightarrow> 'f elastic \<Rightarrow> 'f elastic" where
  "update_jitter fl now q =
     (case el_last_arrival q of
        None \<Rightarrow> q\<lparr>el_last_arrival := Some now\<rparr>
      | Some prev \<Rightarrow>
          (let gap = saturating_duration_since now prev
           in if TALKSPURT_GAP < gap then
                q\<lparr>el_prefilling := True, el_prefill_waited := 0, el_last_arrival := Some now\<rparr>
              else
                (let delta_ms = fl_mul fl (as_secs_f64 fl gap) (fl_of_int fl 1000);
                     dev = fl_abs fl (fl_sub fl delta_ms (fl_of_int fl (int FRAME_MS)));
                     alpha = (if fl_lt fl (el_jitter_ms q) dev then fl_ratio fl 1 4
                              else fl_div fl (fl_of_int fl 1) (fl_of_int fl 32));
                     jitter = fl_add fl (el_jitter_ms q) (fl_mul fl (fl_sub fl dev (el_jitter_ms q)) alpha);
                     frames = as_usize fl (fl_ceil fl (fl_div fl jitter (fl_of_int fl (int FRAME_MS)))) + 1
                 in q\<lparr>el_jitter_ms := jitter,
                      el_target := clamp MIN_TARGET_FRAMES MAX_TARGET_FRAMES frames,
                      el_last_arrival := Some now\<rparr>)))"

definition warn_due :: "instant option \<Rightarrow> instant \<Rightarrow> bool" where
  "warn_due warned now =
     (case warned of None \<Rightarrow> True | Some prev \<Rightarrow> WARN_INTERVAL \<le> saturating_duration_since now prev)"

definition warn_overflow :: "instant \<Rightarrow> 'f elastic \<Rightarrow> 'f elastic" where
  "warn_overflow now q =
     (if warn_due (el_last_warn q) now
      then q\<lparr>el_last_warn := Some now, el_warnings := el_warnings q + 1\<rparr> else q)"

definition make_room :: "'f float_ops \<Rightarrow> instant \<Rightarrow> 'f elastic \<Rightarrow> 'f elastic" where
  "make_room fl now q =
     (if QUEUE_CAPACITY \<le> length (el_frames q) then
        (case el_frames q of
           a # b # rest \<Rightarrow>
             warn_overflow now (q\<lparr>el_frames := merge_pair fl a b # rest,
               el_overflow_compressed := el_overflow_compressed q + 1\<rparr>)
         | _ \<Rightarrow> q)
      else q)"

definition elastic_push :: "'f float_ops \<Rightarrow> frame \<Rightarrow> instant \<Rightarrow> 'f elastic \<Rightarrow> 'f elastic" where
  "elastic_push fl f now q =
     (if \<not> is_valid f then q
      else
        (let q = update_jitter fl now q;
             q = q\<lparr>el_pushed := el_pushed q + 1\<rparr>;
             q = make_room fl now q
         in q\<lparr>el_frames := el_frames q @ [f]\<rparr>))"

definition elastic_note_decode_error :: "instant \<Rightarrow> 'f elastic \<Rightarrow> 'f elastic" where
  "elastic_note_decode_error now q =
     (let q = q\<lparr>el_decode_errors := el_decode_errors q + 1\<rparr>
      in if warn_due (el_last_decode_warn q) now then q\<lparr>el_last_decode_warn := Some now\<rparr> else q)"

definition underrun :: "'f float_ops \<Rightarrow> 'f elastic \<Rightarrow> frame \<times> 'f elastic" where
  "underrun fl q =
     (let q = q\<lparr>el_empty_ticks := el_empty_ticks q + 1\<rparr>;
          (out, q) =
            (if el_empty_ticks q = 1 then
               (case el_last_played q of
                  Some f \<Rightarrow> (fade_out fl f, q\<lparr>el_concealed := el_concealed q + 1\<rparr>)
                | None \<Rightarrow> (silence_frame, q))
             else (silence_frame, q));
          q = (if REPREFILL_AFTER_EMPTY_TICKS \<le> el_empty_ticks q
               then q\<lparr>el_prefilling := True, el_prefill_waited := 0\<rparr> else q)
      in (out, q))"

text \<open>The prefill gate of \<open>pop\<close>: whether playing may start, and the state after the check.\<close>

definition prefill :: "'f elastic \<Rightarrow> bool \<times> 'f elastic" where
  "prefill q =
     (if el_prefilling q then
        (let q = (if el_frames q \<noteq> [] then q\<lparr>el_prefill_waited := el_prefill_waited q + 1\<rparr> else q);
             ready = (el_target q \<le> length (el_frames q) \<or>
                      (el_frames q \<noteq> [] \<and> el_target q \<le> el_prefill_waited q))
         in if ready then (True, q\<lparr>el_prefilling := False, el_prefill_waited := 0\<rparr>) else (False, q))
      else (True, q))"

definition count_over :: "'f elastic \<Rightarrow> 'f elastic" where
  "count_over q = q\<lparr>el_over_ticks :=
     (if el_target q + SHRINK_MARGIN_FRAMES < length (el_frames q) then el_over_ticks q + 1 else 0)\<rparr>"

definition play :: "'f float_ops \<Rightarrow> 'f elastic \<Rightarrow> frame \<times> 'f elastic" where
  "play fl q =
     (case el_frames q of
        [] \<Rightarrow> underrun fl q
      | first # rest \<Rightarrow>
          (let q = q\<lparr>el_empty_ticks := 0, el_frames := rest\<rparr>;
               (out, q) =
                 (if SHRINK_AFTER_TICKS \<le> el_over_ticks q then
                    (case rest of
                       [] \<Rightarrow> (first, q)
                     | second # rest' \<Rightarrow>
                         (merge_pair fl first second,
                          q\<lparr>el_frames := rest', el_compressed := el_compressed q + 1\<rparr>))
                  else (first, q))
           in (out, q\<lparr>el_played := el_played q + 1, el_last_played := Some out\<rparr>)))"

definition elastic_pop :: "'f float_ops \<Rightarrow> 'f elastic \<Rightarrow> frame \<times> 'f elastic" where
  "elastic_pop fl q =
     (let (ready, q) = prefill q
      in if ready then play fl (count_over q) else (silence_frame, q))"

definition elastic_stats :: "'f elastic \<Rightarrow> source_stats" where
  "elastic_stats q = \<lparr>ss_pushed = el_pushed q, ss_played = el_played q,
     ss_compressed = el_compressed q, ss_concealed = el_concealed q,
     ss_overflow_compressed = el_overflow_compressed q, ss_decode_errors = el_decode_errors q,
     ss_listener_catchup_compressed = 0, ss_listener_skipped = 0,
     ss_depth = length (el_frames q), ss_target = el_target q\<rparr>"

section \<open>The outbound pacer\<close>

definition MAX_BURST_WRITES :: nat where "MAX_BURST_WRITES = 4"

record pacer =
  pa_anchor :: instant
  pa_written :: nat
  pa_skipped_total :: nat
  pa_reanchors :: nat

definition pacer_new :: "instant \<Rightarrow> pacer" where
  "pacer_new anchor = \<lparr>pa_anchor = anchor, pa_written = 0, pa_skipped_total = 0, pa_reanchors = 0\<rparr>"

definition slot_at :: "pacer \<Rightarrow> nat \<Rightarrow> instant" where
  "slot_at p n = pa_anchor p + ms (FRAME_MS * n)"

definition next_due :: "pacer \<Rightarrow> instant" where
  "next_due p = slot_at p (pa_written p + 1)"

text \<open>The slots to render (\<open>DueSlots::at\<close>) and how many were skipped (\<open>DueSlots::skipped\<close>).\<close>

definition due_slots :: "instant \<Rightarrow> pacer \<Rightarrow> (instant list \<times> nat) \<times> pacer" where
  "due_slots now p =
     (let elapsed = as_millis (saturating_duration_since now (pa_anchor p)) div FRAME_MS;
          due = elapsed - pa_written p;
          (skipped, p) =
            (if MAX_BURST_WRITES < due
             then (due - MAX_BURST_WRITES,
                   p\<lparr>pa_written := pa_written p + (due - MAX_BURST_WRITES),
                     pa_skipped_total := pa_skipped_total p + (due - MAX_BURST_WRITES),
                     pa_reanchors := pa_reanchors p + 1\<rparr>)
             else (0, p));
          at = map (slot_at p) [pa_written p + 1..<elapsed + 1]
      in ((at, skipped), p\<lparr>pa_written := max (pa_written p) elapsed\<rparr>))"

section \<open>Runs of a queue\<close>

datatype elastic_op = EPush frame instant | EPop | EDecodeError instant

text \<open>A pop returns one frame; it is a source frame when the \<open>played\<close> counter moved.\<close>

fun elastic_step :: "'f float_ops \<Rightarrow> 'f elastic \<Rightarrow> elastic_op \<Rightarrow> ('f elastic \<times> frame list) option" where
  "elastic_step fl q (EPush f now) = Some (elastic_push fl f now q, [])"
| "elastic_step fl q (EDecodeError now) = Some (elastic_note_decode_error now q, [])"
| "elastic_step fl q EPop =
     (let (out, q') = elastic_pop fl q in Some (q', if el_played q' = el_played q then [] else [out]))"

definition elastic_inv :: "'f elastic \<Rightarrow> bool" where
  "elastic_inv q \<longleftrightarrow>
     el_pushed q = el_played q + el_compressed q + el_overflow_compressed q + length (el_frames q) \<and>
     length (el_frames q) \<le> QUEUE_CAPACITY \<and>
     MIN_TARGET_FRAMES \<le> el_target q \<and> el_target q \<le> MAX_TARGET_FRAMES"

text \<open>What pushing and popping do to the frames and the counters.\<close>

lemma jitter_same [simp]:
  "el_frames (update_jitter fl now q) = el_frames q" "el_pushed (update_jitter fl now q) = el_pushed q"
  "el_played (update_jitter fl now q) = el_played q"
  "el_compressed (update_jitter fl now q) = el_compressed q"
  "el_overflow_compressed (update_jitter fl now q) = el_overflow_compressed q"
  by (simp_all add: update_jitter_def Let_def split: option.split)

lemma jitter_target:
  "MIN_TARGET_FRAMES \<le> el_target q \<Longrightarrow> el_target q \<le> MAX_TARGET_FRAMES \<Longrightarrow>
   MIN_TARGET_FRAMES \<le> el_target (update_jitter fl now q) \<and>
   el_target (update_jitter fl now q) \<le> MAX_TARGET_FRAMES"
  using clamp_bounds [of MIN_TARGET_FRAMES MAX_TARGET_FRAMES]
  by (simp add: update_jitter_def Let_def MIN_TARGET_FRAMES_def MAX_TARGET_FRAMES_def split: option.split)

lemma warn_same [simp]:
  "el_frames (warn_overflow now q) = el_frames q" "el_pushed (warn_overflow now q) = el_pushed q"
  "el_played (warn_overflow now q) = el_played q" "el_compressed (warn_overflow now q) = el_compressed q"
  "el_overflow_compressed (warn_overflow now q) = el_overflow_compressed q"
  "el_target (warn_overflow now q) = el_target q"
  by (simp_all add: warn_overflow_def)

lemma push_result:
  assumes "is_valid f" and "elastic_inv q"
  obtains (room) "length (el_frames q) < QUEUE_CAPACITY"
      "el_frames (elastic_push fl f now q) = el_frames q @ [f]"
      "el_overflow_compressed (elastic_push fl f now q) = el_overflow_compressed q"
    | (full) a b rest where "length (el_frames q) = QUEUE_CAPACITY" "el_frames q = a # b # rest"
      "el_frames (elastic_push fl f now q) = merge_pair fl a b # rest @ [f]"
      "el_overflow_compressed (elastic_push fl f now q) = el_overflow_compressed q + 1"
proof (cases "length (el_frames q) < QUEUE_CAPACITY")
  case True
  with room assms show ?thesis by (simp add: elastic_push_def make_room_def Let_def)
next
  case False
  then obtain a b rest where "el_frames q = a # b # rest"
    by (cases "el_frames q"; cases "tl (el_frames q)") (auto simp: QUEUE_CAPACITY_def)
  with full False assms show ?thesis
    by (simp add: elastic_push_def make_room_def elastic_inv_def Let_def)
qed

lemma push_counters:
  "is_valid f \<Longrightarrow> el_pushed (elastic_push fl f now q) = el_pushed q + 1"
  "el_played (elastic_push fl f now q) = el_played q"
  "el_compressed (elastic_push fl f now q) = el_compressed q"
  "\<not> is_valid f \<Longrightarrow> elastic_push fl f now q = q"
  by (simp_all add: elastic_push_def make_room_def Let_def split: list.split)

lemma push_target:
  "elastic_inv q \<Longrightarrow> MIN_TARGET_FRAMES \<le> el_target (elastic_push fl f now q) \<and>
     el_target (elastic_push fl f now q) \<le> MAX_TARGET_FRAMES"
  using jitter_target [of q fl now]
  by (simp add: elastic_push_def make_room_def elastic_inv_def Let_def split: list.split)

lemma prefill_same:
  "prefill q = (r, q') \<Longrightarrow> el_frames q' = el_frames q \<and> el_pushed q' = el_pushed q \<and>
     el_played q' = el_played q \<and> el_compressed q' = el_compressed q \<and>
     el_overflow_compressed q' = el_overflow_compressed q \<and> el_target q' = el_target q"
  by (auto simp: prefill_def Let_def split: if_splits)

lemma underrun_same:
  "underrun fl q = (out, q') \<Longrightarrow> el_frames q' = el_frames q \<and> el_pushed q' = el_pushed q \<and>
     el_played q' = el_played q \<and> el_compressed q' = el_compressed q \<and>
     el_overflow_compressed q' = el_overflow_compressed q \<and> el_target q' = el_target q"
  by (auto simp: underrun_def Let_def split: if_splits option.splits)

text \<open>A pop plays nothing, the oldest frame, or the two oldest frames merged.\<close>

definition pop_counts :: "'f elastic \<Rightarrow> nat \<Rightarrow> nat \<Rightarrow> 'f elastic \<Rightarrow> bool" where
  "pop_counts q p c q' \<longleftrightarrow> el_pushed q' = el_pushed q \<and> el_played q' = el_played q + p \<and>
     el_compressed q' = el_compressed q + c \<and>
     el_overflow_compressed q' = el_overflow_compressed q \<and> el_target q' = el_target q"

lemma play_result:
  assumes "play fl q = (out, q')"
  obtains (idle) "el_frames q = []" "el_frames q' = el_frames q" "pop_counts q 0 0 q'"
    | (one) "el_frames q = out # el_frames q'" "pop_counts q 1 0 q'"
    | (two) a b where "el_frames q = a # b # el_frames q'" "out = merge_pair fl a b"
      "pop_counts q 1 1 q'"
proof (cases "el_frames q")
  case Nil
  then show ?thesis using assms underrun_same [of fl q] idle by (auto simp: play_def pop_counts_def)
next
  case (Cons first rest)
  then show ?thesis using assms one two
    by (cases rest) (auto simp: play_def pop_counts_def Let_def split: if_splits)
qed

lemma pop_result:
  assumes "elastic_pop fl q = (out, q')"
  obtains (idle) "el_frames q' = el_frames q" "pop_counts q 0 0 q'"
    | (one) "el_frames q = out # el_frames q'" "pop_counts q 1 0 q'"
    | (two) a b where "el_frames q = a # b # el_frames q'" "out = merge_pair fl a b"
      "pop_counts q 1 1 q'"
proof -
  obtain r q1 where p: "prefill q = (r, q1)" by (cases "prefill q")
  note s = prefill_same [OF p]
  show ?thesis
  proof (cases r)
    case False
    then show ?thesis using assms p s idle by (auto simp: elastic_pop_def pop_counts_def)
  next
    case True
    then have "play fl (count_over q1) = (out, q')" using assms p by (simp add: elastic_pop_def)
    then show ?thesis
      by (cases rule: play_result) (use s idle one two in \<open>auto simp: count_over_def pop_counts_def\<close>)
  qed
qed

section \<open>Every run\<close>

text \<open>\<open>merges fl xs f\<close>: \<open>f\<close> is what merging the consecutive frames \<open>xs\<close> pairwise gives.\<close>

inductive merges :: "'f float_ops \<Rightarrow> frame list \<Rightarrow> frame \<Rightarrow> bool" for fl where
  single: "merges fl [f] f"
| join: "merges fl xs a \<Longrightarrow> merges fl ys b \<Longrightarrow> merges fl (xs @ ys) (merge_pair fl a b)"

definition pushed_frames :: "elastic_op list \<Rightarrow> frame list" where
  "pushed_frames ops =
     concat (map (\<lambda>op. case op of EPush f _ \<Rightarrow> if is_valid f then [f] else [] | _ \<Rightarrow> []) ops)"

lemma pushed_frames_append [simp]: "pushed_frames (xs @ ys) = pushed_frames xs @ pushed_frames ys"
  by (simp add: pushed_frames_def)

text \<open>
  \<open>tiles fl src out\<close>: \<open>out\<close> covers \<open>src\<close> in order, without gap or overlap: it is the pairwise merge of
  consecutive non-empty blocks of \<open>src\<close>.
\<close>

definition tiles :: "'f float_ops \<Rightarrow> frame list \<Rightarrow> frame list \<Rightarrow> bool" where
  "tiles fl src out \<longleftrightarrow> (\<exists>blocks. concat blocks = src \<and> list_all2 (merges fl) blocks out)"

lemma tiles_snoc: "tiles fl src out \<Longrightarrow> tiles fl (src @ [f]) (out @ [f])"
proof -
  assume "tiles fl src out"
  then obtain bs where "concat bs = src" "list_all2 (merges fl) bs out" by (auto simp: tiles_def)
  then have "concat (bs @ [[f]]) = src @ [f]" "list_all2 (merges fl) (bs @ [[f]]) (out @ [f])"
    by (auto intro: list_all2_appendI single)
  then show ?thesis unfolding tiles_def by blast
qed

lemma tiles_merge:
  assumes "tiles fl src (h @ a # b # t)"
  shows "tiles fl src (h @ merge_pair fl a b # t)"
proof -
  obtain bs where bs: "concat bs = src" "list_all2 (merges fl) bs (h @ a # b # t)"
    using assms by (auto simp: tiles_def)
  then obtain hs x y ts where p: "bs = hs @ x # y # ts" "list_all2 (merges fl) hs h"
      "merges fl x a" "merges fl y b" "list_all2 (merges fl) ts t"
    by (auto simp: list_all2_append2 list_all2_Cons2)
  then have "list_all2 (merges fl) (hs @ (x @ y) # ts) (h @ merge_pair fl a b # t)"
    by (intro list_all2_appendI) (auto intro: join)
  moreover have "concat (hs @ (x @ y) # ts) = src" using bs(1) p(1) by simp
  ultimately show ?thesis unfolding tiles_def by blast
qed

definition elastic_rel :: "'f float_ops \<Rightarrow> 'f elastic \<Rightarrow> elastic_op list \<Rightarrow> frame list \<Rightarrow> 'f elastic \<Rightarrow> bool" where
  "elastic_rel fl q ops outs q' \<longleftrightarrow>
     el_played q' = el_played q + length outs \<and>
     el_pushed q' = el_pushed q + length (pushed_frames ops) \<and>
     (\<forall>src h. tiles fl src (h @ el_frames q) \<longrightarrow>
        tiles fl (src @ pushed_frames ops) (h @ outs @ el_frames q'))"

lemma elastic_push_rel:
  assumes "elastic_inv q"
  shows "elastic_inv (elastic_push fl f now q)"
    and "elastic_rel fl q [EPush f now] [] (elastic_push fl f now q)"
proof -
  have "elastic_inv (elastic_push fl f now q) \<and>
      elastic_rel fl q [EPush f now] [] (elastic_push fl f now q)"
  proof (cases "is_valid f")
    case False
    then show ?thesis using assms by (simp add: push_counters elastic_rel_def pushed_frames_def)
  next
    case True
    note c = push_counters(1) [OF True, of fl now q] push_counters(2,3) [of fl f now q]
      push_target [OF assms, of fl f now]
    show ?thesis
    proof (rule push_result [OF True assms, of fl now], goal_cases)
      case 1
      note room = this
      have "tiles fl (src @ [f]) (h @ el_frames q @ [f])" if "tiles fl src (h @ el_frames q)" for src h
        using tiles_snoc [OF that] by simp
      then show ?thesis using room c assms True
        by (simp add: elastic_inv_def elastic_rel_def pushed_frames_def)
    next
      case (2 a b rest)
      note full = this
      have "tiles fl (src @ [f]) (h @ merge_pair fl a b # rest @ [f])"
        if "tiles fl src (h @ el_frames q)" for src h
        using tiles_snoc [OF tiles_merge [of fl src h a b rest]] that full(2) by simp
      then show ?thesis using full c assms True
        by (simp add: elastic_inv_def elastic_rel_def pushed_frames_def)
    qed
  qed
  then show "elastic_inv (elastic_push fl f now q)"
    and "elastic_rel fl q [EPush f now] [] (elastic_push fl f now q)" by simp_all
qed

lemma elastic_pop_rel:
  assumes "elastic_inv q" and "elastic_step fl q EPop = Some (q', outs)"
  shows "elastic_inv q' \<and> elastic_rel fl q [EPop] outs q'"
proof -
  obtain out where p: "elastic_pop fl q = (out, q')"
      "outs = (if el_played q' = el_played q then [] else [out])"
    using assms(2) by (auto split: prod.splits)
  show ?thesis
    using p(1)
  proof (cases rule: pop_result)
    case (two a b)
    then show ?thesis using assms(1) p(2) tiles_merge [of fl _ _ a b]
      by (auto simp: elastic_inv_def elastic_rel_def pop_counts_def pushed_frames_def)
  qed (use assms(1) p(2) in \<open>auto simp: elastic_inv_def elastic_rel_def pop_counts_def pushed_frames_def\<close>)
qed

lemma decode_error_rel:
  "elastic_inv q \<Longrightarrow> elastic_inv (elastic_note_decode_error now q) \<and>
     elastic_rel fl q [EDecodeError now] [] (elastic_note_decode_error now q)"
  by (auto simp: elastic_note_decode_error_def elastic_inv_def elastic_rel_def pushed_frames_def Let_def)

lemma elastic_step_rel:
  "elastic_inv q \<Longrightarrow> elastic_step fl q op = Some (q', outs) \<Longrightarrow>
     elastic_inv q' \<and> elastic_rel fl q [op] outs q'"
  by (cases op) (auto simp: elastic_push_rel decode_error_rel dest: elastic_pop_rel simp del: elastic_step.simps(3))

interpretation elastic: traced_component "elastic_step fl" elastic_inv "elastic_rel fl" for fl
proof
  fix s :: "'a elastic" and op assume i: "elastic_inv s"
  have "elastic_step fl s op \<noteq> None" by (cases op) (auto split: prod.splits)
  then show "\<exists>s' out. elastic_step fl s op = Some (s', out) \<and> elastic_inv s'"
    using elastic_step_rel [OF i] by fastforce
next
  fix s :: "'a elastic" show "elastic_rel fl s [] [] s"
    by (simp add: elastic_rel_def pushed_frames_def)
next
  fix s :: "'a elastic" and op s' out
  assume "elastic_inv s" "elastic_step fl s op = Some (s', out)"
  then show "elastic_rel fl s [op] out s'" using elastic_step_rel by blast
next
  fix s :: "'a elastic" and xs o1 s1 ys o2 s2
  assume a: "elastic_rel fl s xs o1 s1" and b: "elastic_rel fl s1 ys o2 s2"
  have "tiles fl (src @ pushed_frames (xs @ ys)) (h @ (o1 @ o2) @ el_frames s2)"
    if "tiles fl src (h @ el_frames s)" for src h
    using a b that by (simp add: elastic_rel_def) (metis append.assoc)
  then show "elastic_rel fl s (xs @ ys) (o1 @ o2) s2" using a b by (simp add: elastic_rel_def)
qed

lemma elastic_new_inv: "elastic_inv (elastic_new fl)"
  by (simp add: elastic_inv_def elastic_new_def MIN_TARGET_FRAMES_def MAX_TARGET_FRAMES_def)

section \<open>Properties\<close>

text \<open>
  C20: the accounting invariant of the module documentation.  After any operations, whatever the
  float unit returns, every pushed frame was played, absorbed by slimming, absorbed at capacity, or
  is still queued; the queue never exceeds 50 frames and its target stays within 2 to 8.
\<close>

theorem elastic_accounting:
  assumes "run_ops (elastic_step fl) (elastic_new fl) ops = Some (q, outs)"
  shows "ss_pushed (elastic_stats q) = ss_played (elastic_stats q) + ss_compressed (elastic_stats q) +
      ss_overflow_compressed (elastic_stats q) + ss_depth (elastic_stats q) \<and>
    ss_played (elastic_stats q) = length outs \<and>
    ss_pushed (elastic_stats q) = length (pushed_frames ops) \<and>
    ss_depth (elastic_stats q) \<le> 50 \<and>
    2 \<le> ss_target (elastic_stats q) \<and> ss_target (elastic_stats q) \<le> 8"
proof -
  have "elastic_inv q" by (rule elastic.run_inv [OF elastic_new_inv assms])
  moreover have "elastic_rel fl (elastic_new fl) ops outs q"
    by (rule elastic.run_rel [OF elastic_new_inv assms])
  ultimately show ?thesis
    by (simp add: elastic_inv_def elastic_rel_def elastic_stats_def elastic_new_def
        QUEUE_CAPACITY_def MIN_TARGET_FRAMES_def MAX_TARGET_FRAMES_def)
qed

text \<open>
  C21: nothing is reordered, repeated or lost silently.  The source frames played, followed by the
  frames still queued, are the valid frames pushed, in order, with some runs of neighbours merged
  into one.
\<close>

theorem elastic_tiles_input:
  assumes "run_ops (elastic_step fl) (elastic_new fl) ops = Some (q, outs)"
  shows "tiles fl (pushed_frames ops) (outs @ el_frames q)"
proof -
  have "elastic_rel fl (elastic_new fl) ops outs q"
    by (rule elastic.run_rel [OF elastic_new_inv assms])
  moreover have "tiles fl [] ([] @ el_frames (elastic_new fl))"
    by (simp add: tiles_def elastic_new_def)
  ultimately have "tiles fl ([] @ pushed_frames ops) ([] @ outs @ el_frames q)"
    unfolding elastic_rel_def by blast
  then show ?thesis by simp
qed

lemma pop_prefilling:
  assumes "el_prefilling q" and "el_frames q \<noteq> []" and "el_prefill_waited q + 1 < el_target q"
    and "length (el_frames q) < el_target q"
  shows "elastic_pop fl q = (silence_frame, q\<lparr>el_prefill_waited := el_prefill_waited q + 1\<rparr>)"
  using assms by (simp add: elastic_pop_def prefill_def Let_def)

lemma play_plays:
  assumes "el_frames q \<noteq> []"
  shows "el_played (snd (play fl q)) = el_played q + 1"
proof -
  obtain out q' where p: "play fl q = (out, q')" by (cases "play fl q")
  then show ?thesis by (cases rule: play_result) (use assms p in \<open>auto simp: pop_counts_def\<close>)
qed

lemma pop_ready:
  assumes "el_frames q \<noteq> []"
    and "el_prefilling q \<Longrightarrow> el_target q \<le> el_prefill_waited q + 1 \<or> el_target q \<le> length (el_frames q)"
  shows "el_played (snd (elastic_pop fl q)) = el_played q + 1"
proof -
  have "\<exists>q1. prefill q = (True, q1)"
    using assms by (cases "el_prefilling q") (simp_all add: prefill_def Let_def disj_commute)
  then obtain q1 where p: "prefill q = (True, q1)" by blast
  then have "elastic_pop fl q = play fl (count_over q1)" by (simp add: elastic_pop_def)
  then show ?thesis
    using prefill_same [OF p] assms(1) play_plays [of "count_over q1" fl] by (simp add: count_over_def)
qed

lemma elastic_step_total: "elastic_step fl q op \<noteq> None"
  by (cases op) (auto split: prod.splits)

lemma plays_within:
  assumes "el_frames q \<noteq> []" and "el_target q \<le> el_prefill_waited q + Suc n"
  shows "\<exists>q' outs. run_ops (elastic_step fl) q (replicate (Suc n) EPop) = Some (q', outs) \<and> outs \<noteq> []"
  using assms
proof (induction n arbitrary: q)
  case 0
  then have "el_played (snd (elastic_pop fl q)) = el_played q + 1" by (intro pop_ready) auto
  then show ?case by (cases "elastic_pop fl q") simp
next
  case (Suc n)
  obtain out q1 where p: "elastic_pop fl q = (out, q1)" by (cases "elastic_pop fl q")
  obtain q2 o2 where r: "run_ops (elastic_step fl) q1 (replicate (Suc n) EPop) = Some (q2, o2)"
    using run_ops_total [of "elastic_step fl" q1 "replicate (Suc n) EPop"] elastic_step_total by blast
  show ?case
  proof (cases "el_played q1 = el_played q")
    case False
    then have "elastic_step fl q EPop = Some (q1, [out])" using p by simp
    from run_ops_Cons [OF this r] show ?thesis by (auto simp del: run_ops.simps)
  next
    case True
    then have "el_prefilling q" "\<not> el_target q \<le> el_prefill_waited q + 1"
        "\<not> el_target q \<le> length (el_frames q)"
      using pop_ready [of q fl] p Suc.prems by auto
    then have q1: "q1 = q\<lparr>el_prefill_waited := el_prefill_waited q + 1\<rparr>"
      using pop_prefilling [of q fl] p Suc.prems by simp
    have "\<exists>q' outs. run_ops (elastic_step fl) q1 (replicate (Suc n) EPop) = Some (q', outs) \<and> outs \<noteq> []"
      by (rule Suc.IH) (use q1 Suc.prems in simp_all)
    then have "o2 \<noteq> []" using r by auto
    moreover have "elastic_step fl q EPop = Some (q1, [])" using p True by simp
    ultimately show ?thesis
      using run_ops_Cons [of "elastic_step fl" q EPop q1 "[]", OF _ r] by (auto simp del: run_ops.simps)
  qed
qed

text \<open>
  C22: bounded start-up latency.  Whenever a frame is queued, one of the next \<open>target\<close> (at most 8)
  media ticks plays a source frame, even if no further frame ever arrives.
\<close>

theorem elastic_plays_within_target:
  assumes "el_frames q \<noteq> []" and "0 < el_target q"
  shows "\<exists>q' outs. run_ops (elastic_step fl) q (replicate (el_target q) EPop) = Some (q', outs) \<and> outs \<noteq> []"
proof -
  obtain n where "el_target q = Suc n" using assms(2) by (cases "el_target q") auto
  then show ?thesis using plays_within [OF assms(1), of n fl] by simp
qed

section \<open>The pacer\<close>

text \<open>
  one call of the pacer renders at most four slots, consecutive and ending with the slot of the
  present; together with the slots it reports as skipped they are exactly the slots that became due
  since the last call, so no slot is rendered twice or dropped uncounted.
\<close>

theorem pacer_slots_exact:
  assumes "due_slots now p = ((at, skipped), p')"
  shows "length at \<le> 4 \<and> pa_written p' = pa_written p + skipped + length at \<and>
    at = map (slot_at p) [pa_written p + skipped + 1..<pa_written p' + 1] \<and>
    pa_skipped_total p' = pa_skipped_total p + skipped \<and>
    pa_written p' = max (pa_written p) ((now - pa_anchor p) div 20000000)"
proof -
  have e: "as_millis (saturating_duration_since now (pa_anchor p)) div FRAME_MS =
      (now - pa_anchor p) div 20000000"
    using div_mult2_eq [of "now - pa_anchor p" 1000000 20]
    by (simp add: as_millis_def saturating_duration_since_def)
  define n where "n = (now - pa_anchor p) div 20000000"
  have d: "due_slots now p =
      (if 4 < n - pa_written p
       then ((map (slot_at p) [pa_written p + (n - pa_written p - 4) + 1..<n + 1], n - pa_written p - 4),
             p\<lparr>pa_written := max (pa_written p + (n - pa_written p - 4)) n,
               pa_skipped_total := pa_skipped_total p + (n - pa_written p - 4),
               pa_reanchors := pa_reanchors p + 1\<rparr>)
       else ((map (slot_at p) [pa_written p + 1..<n + 1], 0), p\<lparr>pa_written := max (pa_written p) n\<rparr>))"
    unfolding due_slots_def e by (simp add: Let_def MAX_BURST_WRITES_def slot_at_def n_def fun_eq_iff)
  show ?thesis
  proof (cases "4 < n - pa_written p")
    case True
    then have "at = map (slot_at p) [n - 4 + 1..<n + 1]" "skipped = n - pa_written p - 4"
        "pa_written p' = n" "pa_skipped_total p' = pa_skipped_total p + skipped"
      using assms d by (auto simp del: upt_Suc)
    then show ?thesis using True by (simp add: n_def [symmetric] del: upt_Suc)
  next
    case False
    then have "at = map (slot_at p) [pa_written p + 1..<n + 1]" "skipped = 0"
        "pa_written p' = max (pa_written p) n" "pa_skipped_total p' = pa_skipped_total p"
      using assms d by (auto simp del: upt_Suc)
    then show ?thesis using False by (simp add: n_def [symmetric] max_def del: upt_Suc)
  qed
qed

theorem pacer_slots_exact_witness:
  "\<exists>at skipped p'. due_slots (ms 200) (pacer_new 0) = ((at, skipped), p') \<and> pa_written p' = 10 \<and>
     length at \<le> 4 \<and> skipped + length at = 10"
proof -
  obtain r p' where "due_slots (ms 200) (pacer_new 0) = (r, p')" by (rule prod.exhaust)
  then obtain at skipped where d: "due_slots (ms 200) (pacer_new 0) = ((at, skipped), p')"
    by (cases r) simp
  have e: "(ms 200 - pa_anchor (pacer_new 0)) div 20000000 = 10" "pa_written (pacer_new 0) = 0"
    by (simp_all add: ms_def pacer_new_def)
  note f = pacer_slots_exact [OF d, unfolded e]
  have "pa_written p' = max 0 10" "length at \<le> 4" "pa_written p' = 0 + skipped + length at"
    using f by blast+
  then have "pa_written p' = 10 \<and> length at \<le> 4 \<and> skipped + length at = 10" by simp
  with d show ?thesis by blast
qed

definition demo_elastic :: "elastic_op list" where
  "demo_elastic = [EPush (demo_frame 1) 0, EPop, EPush (demo_frame 2) (ms 20), EPop, EPop]"

theorem elastic_plays_within_target_witness:
  "\<exists>q' outs. run_ops (elastic_step int_ops)
      (elastic_push int_ops (demo_frame 1) 0 (elastic_new int_ops)) (replicate 2 EPop) = Some (q', outs) \<and>
    outs \<noteq> []"
proof -
  let ?q = "elastic_push int_ops (demo_frame 1) 0 (elastic_new int_ops)"
  have "el_frames ?q = [demo_frame 1] \<and> el_target ?q = 2"
    by (simp add: elastic_push_def update_jitter_def make_room_def elastic_new_def is_valid_def
        demo_frame_def frame_new_def MIN_TARGET_FRAMES_def QUEUE_CAPACITY_def)
  then show ?thesis using elastic_plays_within_target [of ?q int_ops] by simp
qed

lemma demo_elastic_run: "\<exists>q outs. run_ops (elastic_step int_ops) (elastic_new int_ops) demo_elastic = Some (q, outs)"
  by (rule run_ops_total) (rule elastic_step_total)

lemma demo_elastic_pushed: "pushed_frames demo_elastic = [demo_frame 1, demo_frame 2]"
  by (simp add: demo_elastic_def pushed_frames_def demo_frame_def frame_new_def is_valid_def)

theorem elastic_accounting_witness:
  "\<exists>q outs. run_ops (elastic_step int_ops) (elastic_new int_ops) demo_elastic = Some (q, outs) \<and>
     ss_pushed (elastic_stats q) = 2 \<and> ss_played (elastic_stats q) = length outs"
  using demo_elastic_run elastic_accounting [of int_ops demo_elastic] demo_elastic_pushed by fastforce

theorem elastic_tiles_input_witness:
  "\<exists>q outs. run_ops (elastic_step int_ops) (elastic_new int_ops) demo_elastic = Some (q, outs) \<and>
     tiles int_ops [demo_frame 1, demo_frame 2] (outs @ el_frames q)"
  using demo_elastic_run elastic_tiles_input [of int_ops demo_elastic] demo_elastic_pushed by fastforce

end
