(* ===== verification/Spatial.thy ===== *)
theory Spatial
  imports Mix_Bus
begin

text \<open>
  \<open>crates/mixer/src/spatial.rs\<close>: vectors, unit quaternions, named placements, distance gains and
  equal-power panning, over an argument \<open>fs\<close> of \<open>f32\<close> operations.
\<close>

section \<open>Vectors, quaternions, poses\<close>

datatype spatial_error = SpatialInvalid

record 'f vec3 =
  v_x :: 'f
  v_y :: 'f
  v_z :: 'f

definition vec3_try_new :: "'f float_ops \<Rightarrow> 'f \<Rightarrow> 'f \<Rightarrow> 'f \<Rightarrow> spatial_error + 'f vec3" where
  "vec3_try_new fs x y z =
     (if fl_is_nan fs x \<or> fl_is_nan fs y \<or> fl_is_nan fs z then Inl SpatialInvalid
      else Inr \<lparr>v_x = x, v_y = y, v_z = z\<rparr>)"

definition vec3_zero :: "'f float_ops \<Rightarrow> 'f vec3" where
  "vec3_zero fs = \<lparr>v_x = fl_of_int fs 0, v_y = fl_of_int fs 0, v_z = fl_of_int fs 0\<rparr>"

definition vec3_sub :: "'f float_ops \<Rightarrow> 'f vec3 \<Rightarrow> 'f vec3 \<Rightarrow> 'f vec3" where
  "vec3_sub fs a b = \<lparr>v_x = fl_sub fs (v_x a) (v_x b), v_y = fl_sub fs (v_y a) (v_y b),
     v_z = fl_sub fs (v_z a) (v_z b)\<rparr>"

definition vec3_length :: "'f float_ops \<Rightarrow> 'f vec3 \<Rightarrow> 'f" where
  "vec3_length fs a = fl_sqrt fs (fl_add fs (fl_add fs (fl_mul fs (v_x a) (v_x a))
     (fl_mul fs (v_y a) (v_y a))) (fl_mul fs (v_z a) (v_z a)))"

record 'f quat =
  q_x :: 'f
  q_y :: 'f
  q_z :: 'f
  q_w :: 'f

definition quat_try_new :: "'f float_ops \<Rightarrow> 'f \<Rightarrow> 'f \<Rightarrow> 'f \<Rightarrow> 'f \<Rightarrow> spatial_error + 'f quat" where
  "quat_try_new fs x y z w =
     (if fl_is_nan fs x \<or> fl_is_nan fs y \<or> fl_is_nan fs z \<or> fl_is_nan fs w then Inl SpatialInvalid
      else
        (let len_sq = fl_add fs (fl_add fs (fl_add fs (fl_mul fs x x) (fl_mul fs y y)) (fl_mul fs z z))
               (fl_mul fs w w)
         in if fl_lt fs len_sq (fl_epsilon fs) then Inl SpatialInvalid
            else
              (let inv_len = fl_div fs (fl_of_int fs 1) (fl_sqrt fs len_sq)
               in Inr \<lparr>q_x = fl_mul fs x inv_len, q_y = fl_mul fs y inv_len,
                       q_z = fl_mul fs z inv_len, q_w = fl_mul fs w inv_len\<rparr>)))"

definition quat_identity :: "'f float_ops \<Rightarrow> 'f quat" where
  "quat_identity fs = \<lparr>q_x = fl_of_int fs 0, q_y = fl_of_int fs 0, q_z = fl_of_int fs 0,
     q_w = fl_of_int fs 1\<rparr>"

definition rotate_inverse :: "'f float_ops \<Rightarrow> 'f quat \<Rightarrow> 'f vec3 \<Rightarrow> 'f vec3" where
  "rotate_inverse fs q v =
     (let qx = q_x q; qy = q_y q; qz = q_z q; qw = q_w q;
          two = fl_of_int fs 2;
          tx = fl_mul fs two (fl_sub fs (fl_mul fs qy (v_z v)) (fl_mul fs qz (v_y v)));
          ty = fl_mul fs two (fl_sub fs (fl_mul fs qz (v_x v)) (fl_mul fs qx (v_z v)));
          tz = fl_mul fs two (fl_sub fs (fl_mul fs qx (v_y v)) (fl_mul fs qy (v_x v)))
      in \<lparr>v_x = fl_add fs (fl_add fs (v_x v) (fl_mul fs qw tx))
                 (fl_sub fs (fl_mul fs qy tz) (fl_mul fs qz ty)),
          v_y = fl_add fs (fl_add fs (v_y v) (fl_mul fs qw ty))
                 (fl_sub fs (fl_mul fs qz tx) (fl_mul fs qx tz)),
          v_z = fl_add fs (fl_add fs (v_z v) (fl_mul fs qw tz))
                 (fl_sub fs (fl_mul fs qx ty) (fl_mul fs qy tx))\<rparr>)"

record 'f client_pose =
  cp_position :: "'f vec3"
  cp_orientation :: "'f quat"

definition pose_try_new :: "'f vec3 \<Rightarrow> 'f quat \<Rightarrow> spatial_error + 'f client_pose" where
  "pose_try_new p q = Inr \<lparr>cp_position = p, cp_orientation = q\<rparr>"

definition pose_center :: "'f float_ops \<Rightarrow> 'f client_pose" where
  "pose_center fs = \<lparr>cp_position = vec3_zero fs, cp_orientation = quat_identity fs\<rparr>"

section \<open>Placements and gains\<close>

datatype mix_placement =
  Center | PlaceLeft | PlaceRight | PlaceFront | PlaceBehind | PlaceBelow | PlaceAbove

fun listener_relative :: "'f float_ops \<Rightarrow> mix_placement \<Rightarrow> 'f vec3 \<times> 'f" where
  "listener_relative fs PlaceLeft =
     (\<lparr>v_x = fl_of_int fs (- 1), v_y = fl_of_int fs 0, v_z = fl_of_int fs 0\<rparr>, fl_of_int fs 1)"
| "listener_relative fs PlaceRight =
     (\<lparr>v_x = fl_of_int fs 1, v_y = fl_of_int fs 0, v_z = fl_of_int fs 0\<rparr>, fl_of_int fs 1)"
| "listener_relative fs PlaceBehind =
     (\<lparr>v_x = fl_of_int fs 0, v_y = fl_of_int fs 0, v_z = fl_of_int fs 1\<rparr>, fl_ratio fs 35 100)"
| "listener_relative fs PlaceAbove =
     (\<lparr>v_x = fl_of_int fs 0, v_y = fl_of_int fs 1, v_z = fl_ratio fs (- 25) 100\<rparr>, fl_ratio fs 85 100)"
| "listener_relative fs PlaceBelow =
     (\<lparr>v_x = fl_of_int fs 0, v_y = fl_of_int fs (- 1), v_z = fl_ratio fs (- 25) 100\<rparr>, fl_ratio fs 85 100)"
| "listener_relative fs _ =
     (\<lparr>v_x = fl_of_int fs 0, v_y = fl_of_int fs 0, v_z = fl_of_int fs (- 1)\<rparr>, fl_of_int fs 1)"

record 'f distance_params =
  dp_reference_distance :: 'f
  dp_max_distance :: 'f
  dp_rolloff :: 'f

definition default_distance_params :: "'f float_ops \<Rightarrow> 'f distance_params" where
  "default_distance_params fs = \<lparr>dp_reference_distance = fl_of_int fs 1,
     dp_max_distance = fl_of_int fs 50, dp_rolloff = fl_of_int fs 1\<rparr>"

definition gain_at_distance :: "'f float_ops \<Rightarrow> 'f distance_params \<Rightarrow> 'f \<Rightarrow> 'f" where
  "gain_at_distance fs dp distance =
     (if fl_le fs distance (dp_reference_distance dp) then fl_of_int fs 1
      else if fl_le fs (dp_max_distance dp) distance then fl_of_int fs 0
      else
        (let range = fl_sub fs (dp_max_distance dp) (dp_reference_distance dp)
         in if fl_le fs range (fl_epsilon fs) then fl_of_int fs 0
            else
              (let t = fl_div fs (fl_sub fs distance (dp_reference_distance dp)) range
               in fl_clamp fs (fl_of_int fs 0) (fl_of_int fs 1)
                    (fl_sub fs (fl_of_int fs 1) (fl_mul fs t (dp_rolloff dp))))))"

record 'f pan_gains =
  pg_left :: 'f
  pg_right :: 'f

definition frac_pi_2 :: "'f float_ops \<Rightarrow> 'f" where
  "frac_pi_2 fs = fl_div fs (fl_pi fs) (fl_of_int fs 2)"

definition pan_gains_from_local ::
  "'f float_ops \<Rightarrow> 'f vec3 \<Rightarrow> 'f \<Rightarrow> 'f distance_params \<Rightarrow> 'f pan_gains" where
  "pan_gains_from_local fs local distance_scale dp =
     (let distance = vec3_length fs local;
          dist_gain = fl_mul fs (gain_at_distance fs dp distance) distance_scale;
          azimuth = (if fl_lt fs distance (fl_epsilon fs) then fl_of_int fs 0
                     else fl_atan2 fs (v_x local) (fl_neg fs (v_z local)));
          pan = fl_clamp fs (fl_of_int fs (- 1)) (fl_of_int fs 1) (fl_div fs azimuth (frac_pi_2 fs));
          t = fl_mul fs (fl_add fs pan (fl_of_int fs 1)) (fl_ratio fs 1 2);
          l = fl_mul fs (fl_cos fs (fl_mul fs t (frac_pi_2 fs))) dist_gain;
          r = fl_mul fs (fl_sin fs (fl_mul fs t (frac_pi_2 fs))) dist_gain
      in \<lparr>pg_left = l, pg_right = r\<rparr>)"

definition pan_gains_positional ::
  "'f float_ops \<Rightarrow> 'f client_pose \<Rightarrow> 'f client_pose \<Rightarrow> 'f distance_params \<Rightarrow> 'f pan_gains" where
  "pan_gains_positional fs listener source dp =
     (let world_delta = vec3_sub fs (cp_position source) (cp_position listener);
          local = rotate_inverse fs (cp_orientation listener) world_delta
      in pan_gains_from_local fs local (fl_of_int fs 1) dp)"

definition pan_gains_placement ::
  "'f float_ops \<Rightarrow> mix_placement \<Rightarrow> 'f distance_params \<Rightarrow> 'f pan_gains" where
  "pan_gains_placement fs placement dp =
     (if placement = Center \<or> placement = PlaceFront
      then \<lparr>pg_left = fl_of_int fs 1, pg_right = fl_of_int fs 1\<rparr>
      else (let (dir, scale) = listener_relative fs placement
            in pan_gains_from_local fs dir scale dp))"

text \<open>The samples of each \<open>(left, right)\<close> pair: the mean of both, times the gain of the channel.\<close>

fun pan_samples :: "'f float_ops \<Rightarrow> 'f pan_gains \<Rightarrow> sample list \<Rightarrow> sample list" where
  "pan_samples fs g (l # r # ss) =
     (let mid = fl_mul fs (fl_add fs (fl_of_int fs (sint l)) (fl_of_int fs (sint r))) (fl_ratio fs 1 2);
          l_out = as_i32 fs (fl_round fs (fl_mul fs mid (pg_left g)));
          r_out = as_i32 fs (fl_round fs (fl_mul fs mid (pg_right g)))
      in word_of_int l_out # word_of_int r_out # pan_samples fs g ss)"
| "pan_samples fs g ss = ss"

definition apply_pan_gains :: "'f float_ops \<Rightarrow> frame \<Rightarrow> 'f pan_gains \<Rightarrow> frame" where
  "apply_pan_gains fs f g =
     (if length (fr_pcm f) \<noteq> FRAME_BYTES then f
      else frame_new (i16_samples_to_bytes (pan_samples fs g (samples_of (fr_pcm f)))) (fr_timestamp_us f))"

definition pan_frame_with_placement ::
  "'f float_ops \<Rightarrow> frame \<Rightarrow> mix_placement \<Rightarrow> 'f distance_params \<Rightarrow> frame" where
  "pan_frame_with_placement fs f placement dp = apply_pan_gains fs f (pan_gains_placement fs placement dp)"

lemma length_pan_samples [simp]: "length (pan_samples fs g ss) = length ss"
  by (induction fs g ss rule: pan_samples.induct) (simp_all add: Let_def)

lemma pan_valid [simp]: "is_valid (apply_pan_gains fs f g) \<longleftrightarrow> is_valid f"
  by (simp add: apply_pan_gains_def is_valid_def frame_new_def)

end
