(* ===== verification/Mix_Graph.thy ===== *)
theory Mix_Graph
  imports Elastic Spatial Text_Model "HOL-Library.List_Lexorder"
begin

text \<open>
  \<open>crates/mixer/src/graph.rs\<close>: the per-listener mix graph.  Source slots live in an ordered map
  (the order in which the code's \<open>HashMap\<close> visits them does not matter, see
  \<open>mix_order_irrelevant\<close>); the other hash maps are maps, the hash sets are sets.  \<open>fl\<close> is \<open>f64\<close>
  (queues), \<open>fs\<close> is \<open>f32\<close> (panning); telemetry is not modelled.
\<close>

section \<open>State\<close>

type_synonym participant_id = ustring

definition MAX_CATCHUP_TICKS :: nat where "MAX_CATCHUP_TICKS = 8"
definition HISTORY_TICKS :: nat where "HISTORY_TICKS = 2 * MAX_CATCHUP_TICKS + 2"

datatype listener_step =
    Single nat
  | Merged nat nat
  | Skipped nat nat

record 'd source_slot =
  sl_queue :: "'d elastic"
  sl_history :: "frame list"
  sl_listener_catchup_compressed :: nat
  sl_listener_skipped :: nat

definition slot_new :: "'d float_ops \<Rightarrow> 'd source_slot" where
  "slot_new fl = \<lparr>sl_queue = elastic_new fl, sl_history = [], sl_listener_catchup_compressed = 0,
     sl_listener_skipped = 0\<rparr>"

definition frame_at_lag :: "'d source_slot \<Rightarrow> nat \<Rightarrow> frame" where
  "frame_at_lag s lag =
     (if 1 + lag \<le> length (sl_history s) then sl_history s ! (length (sl_history s) - (1 + lag))
      else silence_frame)"

record ('d, 'f) mix_graph =
  mg_inputs :: "(participant_id, 'd source_slot) btree"
  mg_clock :: "instant option"
  mg_tick_count :: nat
  mg_listener_ticks :: "participant_id \<Rightarrow> nat option"
  mg_mixing_enabled :: bool
  mg_global_mute :: "participant_id set"
  mg_listener_mute :: "participant_id \<times> participant_id \<Rightarrow> bool option"
  mg_listener_routes :: "participant_id \<Rightarrow> participant_id set option"
  mg_poses :: "participant_id \<Rightarrow> 'f client_pose option"
  mg_positional_enabled :: bool
  mg_default_mix_placement :: mix_placement
  mg_tts_mix_placement :: mix_placement
  mg_source_mix_placements :: "participant_id \<Rightarrow> mix_placement option"
  mg_tts_poses :: "participant_id \<Rightarrow> 'f client_pose option"
  mg_distance_params :: "'f distance_params"
  mg_groups :: "ustring \<Rightarrow> participant_id set option"
  mg_member_group :: "participant_id \<Rightarrow> ustring option"

definition graph_new :: "'f float_ops \<Rightarrow> ('d, 'f) mix_graph" where
  "graph_new fs = \<lparr>mg_inputs = [], mg_clock = None, mg_tick_count = 0, mg_listener_ticks = Map.empty,
     mg_mixing_enabled = True, mg_global_mute = {}, mg_listener_mute = Map.empty,
     mg_listener_routes = Map.empty, mg_poses = Map.empty, mg_positional_enabled = False,
     mg_default_mix_placement = Center, mg_tts_mix_placement = Center,
     mg_source_mix_placements = Map.empty, mg_tts_poses = Map.empty,
     mg_distance_params = default_distance_params fs, mg_groups = Map.empty,
     mg_member_group = Map.empty\<rparr>"

section \<open>Sources, mutes, routes, poses\<close>

definition entry_or_new :: "'d float_ops \<Rightarrow> participant_id \<Rightarrow> ('d, 'f) mix_graph \<Rightarrow> 'd source_slot" where
  "entry_or_new fl p g = (case bt_get (mg_inputs g) p of Some s \<Rightarrow> s | None \<Rightarrow> slot_new fl)"

definition add_input :: "'d float_ops \<Rightarrow> participant_id \<Rightarrow> ('d, 'f) mix_graph \<Rightarrow> ('d, 'f) mix_graph" where
  "add_input fl p g = g\<lparr>mg_inputs := bt_insert p (entry_or_new fl p g) (mg_inputs g)\<rparr>"

definition set_mixing_enabled :: "bool \<Rightarrow> ('d, 'f) mix_graph \<Rightarrow> ('d, 'f) mix_graph" where
  "set_mixing_enabled b g = g\<lparr>mg_mixing_enabled := b\<rparr>"

definition is_globally_muted :: "participant_id \<Rightarrow> ('d, 'f) mix_graph \<Rightarrow> bool" where
  "is_globally_muted target g \<longleftrightarrow> target \<in> mg_global_mute g"

definition is_listener_muted :: "participant_id \<Rightarrow> participant_id \<Rightarrow> ('d, 'f) mix_graph \<Rightarrow> bool" where
  "is_listener_muted listener target g =
     (case mg_listener_mute g (listener, target) of Some b \<Rightarrow> b | None \<Rightarrow> False)"

definition set_global_mute :: "participant_id \<Rightarrow> bool \<Rightarrow> ('d, 'f) mix_graph \<Rightarrow> ('d, 'f) mix_graph" where
  "set_global_mute target muted g =
     g\<lparr>mg_global_mute := (if muted then insert target (mg_global_mute g) else mg_global_mute g - {target})\<rparr>"

definition set_listener_mute ::
  "participant_id \<Rightarrow> participant_id \<Rightarrow> bool \<Rightarrow> ('d, 'f) mix_graph \<Rightarrow> ('d, 'f) mix_graph" where
  "set_listener_mute listener target muted g =
     g\<lparr>mg_listener_mute := (mg_listener_mute g)((listener, target) := (if muted then Some True else None))\<rparr>"

definition set_listener_sources ::
  "participant_id \<Rightarrow> participant_id list \<Rightarrow> ('d, 'f) mix_graph \<Rightarrow> ('d, 'f) mix_graph" where
  "set_listener_sources listener sources g =
     (if sources = [] then g\<lparr>mg_listener_routes := (mg_listener_routes g)(listener := None)\<rparr>
      else g\<lparr>mg_listener_routes := (mg_listener_routes g)(listener := Some (set sources))\<rparr>)"

definition clear_listener_routes :: "participant_id \<Rightarrow> ('d, 'f) mix_graph \<Rightarrow> ('d, 'f) mix_graph" where
  "clear_listener_routes listener g =
     g\<lparr>mg_listener_routes := (mg_listener_routes g)(listener := None)\<rparr>"

definition set_pose :: "participant_id \<Rightarrow> 'f client_pose \<Rightarrow> ('d, 'f) mix_graph \<Rightarrow> ('d, 'f) mix_graph" where
  "set_pose p pose g = g\<lparr>mg_poses := (mg_poses g)(p := Some pose)\<rparr>"

definition clear_pose :: "participant_id \<Rightarrow> ('d, 'f) mix_graph \<Rightarrow> ('d, 'f) mix_graph" where
  "clear_pose p g = g\<lparr>mg_poses := (mg_poses g)(p := None)\<rparr>"

definition set_positional_enabled :: "bool \<Rightarrow> ('d, 'f) mix_graph \<Rightarrow> ('d, 'f) mix_graph" where
  "set_positional_enabled b g = g\<lparr>mg_positional_enabled := b\<rparr>"

definition set_default_mix_placement :: "mix_placement \<Rightarrow> ('d, 'f) mix_graph \<Rightarrow> ('d, 'f) mix_graph" where
  "set_default_mix_placement pl g = g\<lparr>mg_default_mix_placement := pl\<rparr>"

definition set_tts_mix_placement :: "mix_placement \<Rightarrow> ('d, 'f) mix_graph \<Rightarrow> ('d, 'f) mix_graph" where
  "set_tts_mix_placement pl g = g\<lparr>mg_tts_mix_placement := pl\<rparr>"

definition set_source_mix_placement ::
  "participant_id \<Rightarrow> mix_placement \<Rightarrow> ('d, 'f) mix_graph \<Rightarrow> ('d, 'f) mix_graph" where
  "set_source_mix_placement p pl g =
     g\<lparr>mg_source_mix_placements := (mg_source_mix_placements g)(p := Some pl)\<rparr>"

definition clear_source_mix_placement :: "participant_id \<Rightarrow> ('d, 'f) mix_graph \<Rightarrow> ('d, 'f) mix_graph" where
  "clear_source_mix_placement p g =
     g\<lparr>mg_source_mix_placements := (mg_source_mix_placements g)(p := None)\<rparr>"

definition set_tts_pose :: "participant_id \<Rightarrow> 'f client_pose \<Rightarrow> ('d, 'f) mix_graph \<Rightarrow> ('d, 'f) mix_graph" where
  "set_tts_pose p pose g = g\<lparr>mg_tts_poses := (mg_tts_poses g)(p := Some pose)\<rparr>"

definition clear_tts_pose :: "participant_id \<Rightarrow> ('d, 'f) mix_graph \<Rightarrow> ('d, 'f) mix_graph" where
  "clear_tts_pose p g = g\<lparr>mg_tts_poses := (mg_tts_poses g)(p := None)\<rparr>"

definition set_distance_params :: "'f distance_params \<Rightarrow> ('d, 'f) mix_graph \<Rightarrow> ('d, 'f) mix_graph" where
  "set_distance_params dp g = g\<lparr>mg_distance_params := dp\<rparr>"

section \<open>Groups\<close>

text \<open>
  The loop over the members sets each member's route on its own, so it is one update of the map;
  the \<open>retain\<close> then drops the routes of participants that are in no group.
\<close>

definition rebuild_group_routes :: "ustring \<Rightarrow> ('d, 'f) mix_graph \<Rightarrow> ('d, 'f) mix_graph" where
  "rebuild_group_routes group_id g =
     (case mg_groups g group_id of
        None \<Rightarrow> g
      | Some members \<Rightarrow>
          (let routes = (\<lambda>listener.
                 if listener \<in> members
                 then (if members - {listener} = {} then None else Some (members - {listener}))
                 else mg_listener_routes g listener)
           in g\<lparr>mg_listener_routes :=
                (\<lambda>listener. if mg_member_group g listener = None then None else routes listener)\<rparr>))"

definition leave_members :: "participant_id \<Rightarrow> ustring \<Rightarrow> ('d, 'f) mix_graph \<Rightarrow> ('d, 'f) mix_graph" where
  "leave_members p group_id g =
     g\<lparr>mg_groups := (mg_groups g)(group_id := map_option (\<lambda>members. members - {p}) (mg_groups g group_id))\<rparr>"

definition join_one :: "ustring \<Rightarrow> participant_id \<Rightarrow> ('d, 'f) mix_graph \<Rightarrow> ('d, 'f) mix_graph" where
  "join_one group_id p g =
     (let old = mg_member_group g p;
          g = g\<lparr>mg_member_group := (mg_member_group g)(p := Some group_id)\<rparr>
      in case old of
           None \<Rightarrow> g
         | Some old \<Rightarrow> if old \<noteq> group_id then rebuild_group_routes old (leave_members p old g) else g)"

definition set_group_members :: "ustring \<Rightarrow> participant_id list \<Rightarrow> ('d, 'f) mix_graph \<Rightarrow> ('d, 'f) mix_graph" where
  "set_group_members group_id members g =
     (let g = fold (join_one group_id) (remdups members) g;
          g = g\<lparr>mg_groups := (mg_groups g)(group_id := Some (set members))\<rparr>
      in rebuild_group_routes group_id g)"

definition move_to_group :: "participant_id \<Rightarrow> ustring \<Rightarrow> ('d, 'f) mix_graph \<Rightarrow> ('d, 'f) mix_graph" where
  "move_to_group p group_id g =
     (let old_group = mg_member_group g p;
          g = g\<lparr>mg_member_group := (mg_member_group g)(p := None)\<rparr>;
          g = (case old_group of None \<Rightarrow> g | Some old \<Rightarrow> leave_members p old g);
          g = g\<lparr>mg_groups := (mg_groups g)(group_id :=
                  Some (insert p (case mg_groups g group_id of Some m \<Rightarrow> m | None \<Rightarrow> {})))\<rparr>;
          g = g\<lparr>mg_member_group := (mg_member_group g)(p := Some group_id)\<rparr>;
          g = (case old_group of
                 None \<Rightarrow> g
               | Some old \<Rightarrow> if old \<noteq> group_id then rebuild_group_routes old g else g)
      in rebuild_group_routes group_id g)"

definition remove_from_group :: "participant_id \<Rightarrow> ('d, 'f) mix_graph \<Rightarrow> ('d, 'f) mix_graph" where
  "remove_from_group p g =
     (case mg_member_group g p of
        None \<Rightarrow> g
      | Some group_id \<Rightarrow>
          (let g = g\<lparr>mg_member_group := (mg_member_group g)(p := None)\<rparr>;
               g = leave_members p group_id g;
               g = g\<lparr>mg_listener_routes := (mg_listener_routes g)(p := None)\<rparr>
           in rebuild_group_routes group_id g))"

definition forget_input :: "participant_id \<Rightarrow> ('d, 'f) mix_graph \<Rightarrow> ('d, 'f) mix_graph" where
  "forget_input p g =
     g\<lparr>mg_inputs := bt_remove p (mg_inputs g),
       mg_listener_ticks := (mg_listener_ticks g)(p := None),
       mg_global_mute := mg_global_mute g - {p},
       mg_poses := (mg_poses g)(p := None),
       mg_source_mix_placements := (mg_source_mix_placements g)(p := None),
       mg_tts_poses := (mg_tts_poses g)(p := None),
       mg_listener_mute := (\<lambda>(listener, target).
         if listener \<noteq> p \<and> target \<noteq> p then mg_listener_mute g (listener, target) else None),
       mg_listener_routes := (\<lambda>listener.
         case mg_listener_routes g listener of
           None \<Rightarrow> None
         | Some sources \<Rightarrow>
             (let sources = sources - {p}
              in if sources = {} then None
                 else if listener \<noteq> p then Some sources else None))\<rparr>"

definition remove_input :: "participant_id \<Rightarrow> ('d, 'f) mix_graph \<Rightarrow> ('d, 'f) mix_graph" where
  "remove_input p g =
     (let g = forget_input p g
      in case mg_member_group g p of
           None \<Rightarrow> g
         | Some group_id \<Rightarrow>
             (let g = g\<lparr>mg_member_group := (mg_member_group g)(p := None)\<rparr>
              in rebuild_group_routes group_id (leave_members p group_id g)))"

section \<open>The media clock\<close>

definition push_frame_at ::
  "'d float_ops \<Rightarrow> participant_id \<Rightarrow> frame \<Rightarrow> instant \<Rightarrow> ('d, 'f) mix_graph \<Rightarrow> ('d, 'f) mix_graph" where
  "push_frame_at fl p f now g =
     (let g = (if mg_clock g = None then g\<lparr>mg_clock := Some now\<rparr> else g);
          slot = entry_or_new fl p g
      in g\<lparr>mg_inputs := bt_insert p (slot\<lparr>sl_queue := elastic_push fl f now (sl_queue slot)\<rparr>) (mg_inputs g)\<rparr>)"

definition graph_note_decode_error :: "participant_id \<Rightarrow> instant \<Rightarrow> ('d, 'f) mix_graph \<Rightarrow> ('d, 'f) mix_graph" where
  "graph_note_decode_error p now g =
     (case bt_get (mg_inputs g) p of
        None \<Rightarrow> g
      | Some slot \<Rightarrow>
          g\<lparr>mg_inputs := bt_insert p (slot\<lparr>sl_queue := elastic_note_decode_error now (sl_queue slot)\<rparr>)
             (mg_inputs g)\<rparr>)"

definition graph_source_stats :: "participant_id \<Rightarrow> ('d, 'f) mix_graph \<Rightarrow> source_stats option" where
  "graph_source_stats p g =
     map_option (\<lambda>slot. (elastic_stats (sl_queue slot))
       \<lparr>ss_listener_catchup_compressed := sl_listener_catchup_compressed slot,
        ss_listener_skipped := sl_listener_skipped slot\<rparr>) (bt_get (mg_inputs g) p)"

definition slot_tick :: "'d float_ops \<Rightarrow> 'd source_slot \<Rightarrow> 'd source_slot" where
  "slot_tick fl slot =
     (let (f, q) = elastic_pop fl (sl_queue slot);
          h = (if length (sl_history slot) = HISTORY_TICKS then tl (sl_history slot) else sl_history slot)
      in slot\<lparr>sl_queue := q, sl_history := h @ [f]\<rparr>)"

definition TICK_MICROS :: nat where "TICK_MICROS = FRAME_MS * 1000"

definition as_micros :: "duration \<Rightarrow> nat" where
  "as_micros d = d div 1000"

definition advance_to :: "'d float_ops \<Rightarrow> instant \<Rightarrow> ('d, 'f) mix_graph \<Rightarrow> ('d, 'f) mix_graph" where
  "advance_to fl now g =
     (case mg_clock g of
        None \<Rightarrow> g\<lparr>mg_clock := Some now\<rparr>
      | Some clock \<Rightarrow>
          (let ticks = as_micros (saturating_duration_since now clock) div TICK_MICROS
           in if ticks = 0 then g
              else
                (let run = (if MAX_CATCHUP_TICKS < ticks then 1 else ticks)
                 in g\<lparr>mg_clock := Some (if MAX_CATCHUP_TICKS < ticks then now else clock + ms FRAME_MS * ticks),
                      mg_inputs := map (apsnd (slot_tick fl ^^ run)) (mg_inputs g),
                      mg_tick_count := mg_tick_count g + run\<rparr>)))"

definition div_ceil :: "nat \<Rightarrow> nat \<Rightarrow> nat" where
  "div_ceil a b = (a + b - 1) div b"

text \<open>
  A render at \<open>now\<close> may lie before the clock; it is then \<open>behind\<close> whole ticks early and may only hear
  ticks up to \<open>newest\<close>.
\<close>

definition newest_tick :: "instant \<Rightarrow> ('d, 'f) mix_graph \<Rightarrow> nat" where
  "newest_tick now g =
     (let behind = (case mg_clock g of
            Some clock \<Rightarrow> if now < clock then div_ceil (as_micros (clock - now)) TICK_MICROS else 0
          | None \<Rightarrow> 0)
      in mg_tick_count g - behind)"

text \<open>
  The step of a listener at \<open>cursor\<close>, with its new cursor.  \<open>None\<close> is the underflow panic of
  \<open>tick_count - *cursor\<close>; the other subtractions are guarded by the conditions of their branches.
\<close>

definition plan_listener_step :: "nat \<Rightarrow> nat \<Rightarrow> nat \<Rightarrow> (listener_step \<times> nat) option" where
  "plan_listener_step tick_count newest cursor =
     (let trailing = newest - cursor;
          oldest_held = tick_count - (HISTORY_TICKS - 1)
      in if 0 < trailing \<and> cursor + 1 < oldest_held then
           (let (heard, skipped) =
                  (if newest < oldest_held then (newest, trailing)
                   else if MAX_CATCHUP_TICKS \<le> newest - oldest_held then (newest, trailing - 1)
                   else (oldest_held, oldest_held - cursor - 1))
            in Some (Skipped (tick_count - heard) skipped, heard))
         else if trailing \<le> 1 then
           (let cursor = (if trailing = 1 then cursor + 1 else cursor)
            in if tick_count < cursor then None else Some (Single (tick_count - cursor), cursor))
         else if MAX_CATCHUP_TICKS < trailing then
           Some (Skipped (tick_count - newest) (trailing - 1), newest)
         else
           Some (Merged (tick_count - (cursor + 1)) (tick_count - (cursor + 2)), cursor + 2))"

definition listener_cursor :: "participant_id \<Rightarrow> instant \<Rightarrow> ('d, 'f) mix_graph \<Rightarrow> nat" where
  "listener_cursor listener now g =
     (case mg_listener_ticks g listener of Some c \<Rightarrow> c | None \<Rightarrow> newest_tick now g)"

definition next_listener_step ::
  "participant_id \<Rightarrow> instant \<Rightarrow> ('d, 'f) mix_graph \<Rightarrow> (listener_step \<times> ('d, 'f) mix_graph) option" where
  "next_listener_step listener now g =
     map_option (\<lambda>(st, c). (st, g\<lparr>mg_listener_ticks := (mg_listener_ticks g)(listener := Some c)\<rparr>))
       (plan_listener_step (mg_tick_count g) (newest_tick now g) (listener_cursor listener now g))"

section \<open>Rendering\<close>

definition pose_or_center :: "'f float_ops \<Rightarrow> participant_id \<Rightarrow> ('d, 'f) mix_graph \<Rightarrow> 'f client_pose" where
  "pose_or_center fs p g = (case mg_poses g p of Some x \<Rightarrow> x | None \<Rightarrow> pose_center fs)"

definition pan_tts_frame :: "'f float_ops \<Rightarrow> frame \<Rightarrow> participant_id \<Rightarrow> ('d, 'f) mix_graph \<Rightarrow> frame" where
  "pan_tts_frame fs f listener g =
     (case (if mg_positional_enabled g then mg_tts_poses g listener else None) of
        Some tts_pose \<Rightarrow>
          apply_pan_gains fs f
            (pan_gains_positional fs (pose_or_center fs listener g) tts_pose (mg_distance_params g))
      | None \<Rightarrow> pan_frame_with_placement fs f (mg_tts_mix_placement g) (mg_distance_params g))"

definition source_gains ::
  "'f float_ops \<Rightarrow> participant_id \<Rightarrow> participant_id \<Rightarrow> ('d, 'f) mix_graph \<Rightarrow> 'f pan_gains" where
  "source_gains fs listener source g =
     (if mg_positional_enabled g \<and> mg_poses g source \<noteq> None then
        pan_gains_positional fs (pose_or_center fs listener g) (pose_or_center fs source g)
          (mg_distance_params g)
      else
        (case mg_source_mix_placements g source of
           Some placement \<Rightarrow> pan_gains_placement fs placement (mg_distance_params g)
         | None \<Rightarrow>
             if mg_positional_enabled g then
               pan_gains_positional fs (pose_or_center fs listener g) (pose_center fs)
                 (mg_distance_params g)
             else pan_gains_placement fs (mg_default_mix_placement g) (mg_distance_params g)))"

definition pan_source_for_listener ::
  "'f float_ops \<Rightarrow> participant_id \<Rightarrow> participant_id \<Rightarrow> frame \<Rightarrow> ('d, 'f) mix_graph \<Rightarrow> frame" where
  "pan_source_for_listener fs listener source f g = apply_pan_gains fs f (source_gains fs listener source g)"

text \<open>The \<open>continue\<close>s of the render loop: whether \<open>source\<close> is skipped for \<open>listener\<close>.\<close>

definition skip_source :: "participant_id \<Rightarrow> participant_id \<Rightarrow> ('d, 'f) mix_graph \<Rightarrow> bool" where
  "skip_source listener source g =
     (if source = listener then True
      else if (case mg_listener_routes g listener of Some allowed \<Rightarrow> source \<notin> allowed | None \<Rightarrow> False) then True
      else if source \<in> mg_global_mute g then True
      else (case mg_listener_mute g (listener, source) of Some b \<Rightarrow> b | None \<Rightarrow> False))"

fun raw_frame :: "'d float_ops \<Rightarrow> listener_step \<Rightarrow> 'd source_slot \<Rightarrow> frame" where
  "raw_frame fl (Single lag) slot = frame_at_lag slot lag"
| "raw_frame fl (Skipped lag _) slot = frame_at_lag slot lag"
| "raw_frame fl (Merged older newer) slot = merge_pair fl (frame_at_lag slot older) (frame_at_lag slot newer)"

fun step_counts :: "listener_step \<Rightarrow> nat \<times> nat" where
  "step_counts (Single _) = (0, 0)"
| "step_counts (Merged _ _) = (1, 0)"
| "step_counts (Skipped _ skipped) = (0, skipped)"

definition count_step :: "nat \<times> nat \<Rightarrow> participant_id list \<Rightarrow> ('d, 'f) mix_graph \<Rightarrow> ('d, 'f) mix_graph" where
  "count_step c heard g =
     (let (merged, skipped) = c
      in if 0 < merged + skipped then
           g\<lparr>mg_inputs := map (\<lambda>(p, slot).
              if p \<in> set heard then
                (p, slot\<lparr>sl_listener_catchup_compressed := sl_listener_catchup_compressed slot + merged,
                         sl_listener_skipped := sl_listener_skipped slot + skipped\<rparr>)
              else (p, slot)) (mg_inputs g)\<rparr>
         else g)"

definition render_output ::
  "'d float_ops \<Rightarrow> 'f float_ops \<Rightarrow> participant_id \<Rightarrow> instant \<Rightarrow> ('d, 'f) mix_graph \<Rightarrow>
     (frame \<times> ('d, 'f) mix_graph) option" where
  "render_output fl fs listener now g =
     (case next_listener_step listener now (advance_to fl now g) of
        None \<Rightarrow> None
      | Some (step, g) \<Rightarrow>
          if \<not> mg_mixing_enabled g then Some (silence_frame, g)
          else
            (let heard = filter (\<lambda>(p, _). \<not> skip_source listener p g) (mg_inputs g);
                 sources = map (\<lambda>(p, slot). pan_source_for_listener fs listener p (raw_frame fl step slot) g) heard;
                 g = count_step (step_counts step) (map fst heard) g
             in map_option (\<lambda>out. (out, g)) (mix sources)))"

section \<open>Who is heard\<close>

definition audible :: "participant_id \<Rightarrow> participant_id \<Rightarrow> ('d, 'f) mix_graph \<Rightarrow> bool" where
  "audible listener source g \<longleftrightarrow> source \<noteq> listener \<and>
     (\<forall>allowed. mg_listener_routes g listener = Some allowed \<longrightarrow> source \<in> allowed) \<and>
     \<not> is_globally_muted source g \<and> \<not> is_listener_muted listener source g"

lemma skip_audible: "skip_source listener source g \<longleftrightarrow> \<not> audible listener source g"
  by (auto simp: skip_source_def audible_def is_globally_muted_def is_listener_muted_def split: option.splits)

lemma audible_inputs [simp]:
  "audible l p (g\<lparr>mg_inputs := i\<rparr>) = audible l p g" "audible l p (g\<lparr>mg_clock := c\<rparr>) = audible l p g"
  "audible l p (g\<lparr>mg_tick_count := n\<rparr>) = audible l p g"
  "audible l p (g\<lparr>mg_listener_ticks := t\<rparr>) = audible l p g"
  by (simp_all add: audible_def is_globally_muted_def is_listener_muted_def)

text \<open>\<open>advance_to\<close> decides on the clock alone and ticks every slot the same number of times.\<close>

definition advance_plan :: "instant option \<Rightarrow> instant \<Rightarrow> instant option \<times> nat" where
  "advance_plan clock now =
     (case clock of
        None \<Rightarrow> (Some now, 0)
      | Some c \<Rightarrow>
          (let ticks = as_micros (saturating_duration_since now c) div TICK_MICROS
           in if ticks = 0 then (Some c, 0)
              else if MAX_CATCHUP_TICKS < ticks then (Some now, 1)
              else (Some (c + ms FRAME_MS * ticks), ticks)))"

lemma apsnd_id [simp]: "apsnd (\<lambda>x. x) = (\<lambda>x. x)" "apsnd id = id"
  by (simp_all add: fun_eq_iff)

lemma advance_to_plan:
  "advance_to fl now g =
     g\<lparr>mg_clock := fst (advance_plan (mg_clock g) now),
       mg_inputs := map (apsnd (slot_tick fl ^^ snd (advance_plan (mg_clock g) now))) (mg_inputs g),
       mg_tick_count := mg_tick_count g + snd (advance_plan (mg_clock g) now)\<rparr>"
  by (auto simp: advance_to_def advance_plan_def Let_def id_def split: option.split)

lemma cursor_inputs [simp]:
  "newest_tick now (g\<lparr>mg_inputs := i\<rparr>) = newest_tick now g"
  "listener_cursor l now (g\<lparr>mg_inputs := i\<rparr>) = listener_cursor l now g"
  by (simp_all add: newest_tick_def listener_cursor_def split: option.split)

lemma next_step_inputs:
  "next_listener_step l now (g\<lparr>mg_inputs := i\<rparr>) =
     map_option (\<lambda>(st, g). (st, g\<lparr>mg_inputs := i\<rparr>)) (next_listener_step l now g)"
  by (cases "plan_listener_step (mg_tick_count g) (newest_tick now g) (listener_cursor l now g)")
    (auto simp: next_listener_step_def)

lemma next_step_ticks_only:
  "next_listener_step l now g = Some (st, g') \<Longrightarrow> \<exists>t. g' = g\<lparr>mg_listener_ticks := t\<rparr>"
  by (auto simp: next_listener_step_def)

lemma pose_inputs [simp]: "pose_or_center fs p (g\<lparr>mg_inputs := i\<rparr>) = pose_or_center fs p g"
  by (simp add: pose_or_center_def)

lemma gains_inputs [simp]: "source_gains fs l p (g\<lparr>mg_inputs := i\<rparr>) = source_gains fs l p g"
  by (simp add: source_gains_def split: option.split)

lemma pan_inputs [simp]:
  "pan_source_for_listener fs l p f (g\<lparr>mg_inputs := i\<rparr>) = pan_source_for_listener fs l p f g"
  by (simp add: pan_source_for_listener_def)

definition rendered ::
  "'d float_ops \<Rightarrow> 'f float_ops \<Rightarrow> participant_id \<Rightarrow> listener_step \<Rightarrow> ('d, 'f) mix_graph \<Rightarrow> frame option" where
  "rendered fl fs l st g =
     (if \<not> mg_mixing_enabled g then Some silence_frame
      else mix (map (\<lambda>(p, slot). pan_source_for_listener fs l p (raw_frame fl st slot) g)
             (filter (\<lambda>(p, _). audible l p g) (mg_inputs g))))"

lemma render_output_frame:
  "map_option fst (render_output fl fs l now g) =
     (case next_listener_step l now (advance_to fl now g) of
        None \<Rightarrow> None | Some (st, g') \<Rightarrow> rendered fl fs l st g')"
  by (auto simp: render_output_def rendered_def skip_audible Let_def option.map_comp comp_def option.map_ident
      split: option.split)

lemma filter_map_apsnd: "filter (\<lambda>(p, _). P p) (map (apsnd f) xs) = map (apsnd f) (filter (\<lambda>(p, _). P p) xs)"
  by (induction xs) auto

lemma render_same_audible:
  assumes "filter (\<lambda>(p, _). audible l p g) (mg_inputs g) = filter (\<lambda>(p, _). audible l p g) inputs"
  shows "map_option fst (render_output fl fs l now g) =
    map_option fst (render_output fl fs l now (g\<lparr>mg_inputs := inputs\<rparr>))"
proof -
  let ?tick = "map (apsnd (slot_tick fl ^^ snd (advance_plan (mg_clock g) now)))"
  let ?g = "advance_to fl now g"
  have a: "advance_to fl now (g\<lparr>mg_inputs := inputs\<rparr>) = ?g\<lparr>mg_inputs := ?tick inputs\<rparr>"
    by (simp add: advance_to_plan)
  have f: "filter (\<lambda>(p, _). audible l p g) (mg_inputs ?g) = filter (\<lambda>(p, _). audible l p g) (?tick inputs)"
    using assms by (simp add: advance_to_plan filter_map_apsnd)
  have "rendered fl fs l st g' = rendered fl fs l st (g'\<lparr>mg_inputs := ?tick inputs\<rparr>)"
    if step: "next_listener_step l now ?g = Some (st, g')" for st g'
  proof -
    obtain t where t: "g' = ?g\<lparr>mg_listener_ticks := t\<rparr>" using next_step_ticks_only [OF step] by blast
    then have "audible l p g' = audible l p g" for p by (simp add: advance_to_plan)
    with t f show ?thesis by (simp add: rendered_def)
  qed
  then show ?thesis
    unfolding render_output_frame a next_step_inputs
    by (cases "next_listener_step l now ?g") auto
qed

text \<open>
  C29: non-interference.  What a listener hears depends only on the sources audible to it.  Its own
  input, sources muted for everyone or for it, and sources outside its allow-list (another mix
  group's) can hold anything, or be added and removed, without changing one sample of its output.
\<close>

theorem render_depends_on_audible:
  assumes "filter (\<lambda>(p, _). audible l p g) (mg_inputs g) = filter (\<lambda>(p, _). audible l p g) inputs"
  shows "map_option fst (render_output fl fs l now g) =
    map_option fst (render_output fl fs l now (g\<lparr>mg_inputs := inputs\<rparr>))"
  by (rule render_same_audible [OF assms])

section \<open>Every tick is heard or counted\<close>

definition cursors_ok :: "('d, 'f) mix_graph \<Rightarrow> bool" where
  "cursors_ok g \<longleftrightarrow> (\<forall>l c. mg_listener_ticks g l = Some c \<longrightarrow> c \<le> mg_tick_count g)"

text \<open>
  The ticks a step plays for a listener that moves from \<open>c\<close> to \<open>c'\<close>, as far as the history holds
  them.
\<close>

fun heard_ticks :: "nat \<Rightarrow> nat \<Rightarrow> nat \<Rightarrow> listener_step \<Rightarrow> nat list" where
  "heard_ticks c c' tick_count (Single lag) = (if c < c' then [tick_count - lag] else [])"
| "heard_ticks c c' tick_count (Merged older newer) = [tick_count - older, tick_count - newer]"
| "heard_ticks c c' tick_count (Skipped lag skipped) =
     (if lag < HISTORY_TICKS then [tick_count - lag] else [])"

lemma newest_le: "newest_tick now g \<le> mg_tick_count g"
  by (simp add: newest_tick_def Let_def)

lemma cursor_le: "cursors_ok g \<Longrightarrow> listener_cursor l now g \<le> mg_tick_count g"
  using newest_le [of now g] by (auto simp: listener_cursor_def cursors_ok_def split: option.splits)

lemma plan_accounted:
  assumes "newest \<le> tick_count" and "c \<le> tick_count"
  shows "\<exists>st c'. plan_listener_step tick_count newest c = Some (st, c') \<and> c' \<le> tick_count \<and>
    heard_ticks c c' tick_count st = [c + snd (step_counts st) + 1..<c' + 1] \<and>
    c' = c + snd (step_counts st) + length (heard_ticks c c' tick_count st) \<and>
    (\<forall>t \<in> set (heard_ticks c c' tick_count st). tick_count - t < HISTORY_TICKS)"
proof -
  define oldest where "oldest = tick_count - (HISTORY_TICKS - 1)"
  have H: "HISTORY_TICKS = 18" "MAX_CATCHUP_TICKS = 8"
    by (simp_all add: HISTORY_TICKS_def MAX_CATCHUP_TICKS_def)
  note plan = plan_listener_step_def [of tick_count newest c, folded oldest_def, unfolded Let_def]
  consider (gone) "c < newest" "c + 1 < oldest" "newest < oldest"
    | (jump) "c < newest" "c + 1 < oldest" "oldest + 8 \<le> newest"
    | (oldest) "c < newest" "c + 1 < oldest" "oldest \<le> newest" "newest < oldest + 8"
    | (step) "\<not> (c < newest \<and> c + 1 < oldest)" "newest = c + 1"
    | (repeat) "newest \<le> c"
    | (late) "\<not> (c < newest \<and> c + 1 < oldest)" "c + 8 < newest"
    | (merge) "\<not> (c < newest \<and> c + 1 < oldest)" "c + 1 < newest" "newest \<le> c + 8"
    by linarith
  then show ?thesis
  proof cases
    case gone
    then have "plan_listener_step tick_count newest c = Some (Skipped (tick_count - newest) (newest - c), newest)"
      by (simp add: plan H)
    moreover have "\<not> tick_count - newest < HISTORY_TICKS" using gone assms by (simp add: oldest_def H)
    ultimately show ?thesis using gone assms by simp
  next
    case jump
    then have "plan_listener_step tick_count newest c = Some (Skipped (tick_count - newest) (newest - c - 1), newest)"
      by (simp add: plan H)
    moreover have "tick_count - newest < HISTORY_TICKS" using jump assms by (simp add: oldest_def H)
    ultimately show ?thesis using jump assms by simp
  next
    case oldest
    then have "plan_listener_step tick_count newest c =
        Some (Skipped (tick_count - oldest) (oldest - c - 1), oldest)"
      by (auto simp add: plan H)
    moreover have "tick_count - oldest < HISTORY_TICKS" using assms by (simp add: oldest_def H)
    ultimately show ?thesis using oldest assms by simp
  next
    case step
    then have "plan_listener_step tick_count newest c = Some (Single (tick_count - (c + 1)), c + 1)"
      unfolding plan using assms by (simp add: H)
    moreover have "tick_count - (c + 1) < HISTORY_TICKS" using step assms by (simp add: oldest_def H)
    ultimately show ?thesis using step assms by simp
  next
    case repeat
    then have "plan_listener_step tick_count newest c = Some (Single (tick_count - c), c)"
      using assms by (simp add: plan H)
    then show ?thesis using assms by simp
  next
    case late
    then have "plan_listener_step tick_count newest c = Some (Skipped (tick_count - newest) (newest - c - 1), newest)"
      using assms by (auto simp add: plan H)
    moreover have "tick_count - newest < HISTORY_TICKS" using late assms by (simp add: oldest_def H)
    ultimately show ?thesis using late assms by simp
  next
    case merge
    then have "plan_listener_step tick_count newest c =
        Some (Merged (tick_count - (c + 1)) (tick_count - (c + 2)), c + 2)"
      using assms by (auto simp add: plan H)
    moreover have "tick_count - (c + 1) < HISTORY_TICKS" using merge assms by (simp add: oldest_def H)
    ultimately show ?thesis using merge assms by (simp add: upt_rec)
  qed
qed

lemma listener_ticks_accounted_aux:
  assumes "cursors_ok g"
  shows "\<exists>st g'. next_listener_step l now g = Some (st, g') \<and> cursors_ok g'"
proof -
  obtain st c' where "plan_listener_step (mg_tick_count g) (newest_tick now g) (listener_cursor l now g) =
      Some (st, c')" "c' \<le> mg_tick_count g"
    using plan_accounted [OF newest_le cursor_le [OF assms], of now l now] by blast
  then show ?thesis using assms by (auto simp: next_listener_step_def cursors_ok_def)
qed

text \<open>
  C30: a render never loses or repeats a tick without counting it.  Whatever the lateness of the
  listener, the step succeeds, and the positions it moves past are exactly the skipped ones (as many
  as it reports), then the ones it hears, in order; a heard tick is always still in the history.
\<close>

theorem listener_ticks_accounted:
  assumes "cursors_ok g"
  shows "\<exists>st g' c'. next_listener_step l now g = Some (st, g') \<and>
    mg_listener_ticks g' = (mg_listener_ticks g)(l := Some c') \<and> cursors_ok g' \<and>
    (let c = listener_cursor l now g; skipped = snd (step_counts st);
         heard = heard_ticks c c' (mg_tick_count g) st
     in heard = [c + skipped + 1..<c' + 1] \<and> c' = c + skipped + length heard \<and>
        (\<forall>t \<in> set heard. mg_tick_count g - t < HISTORY_TICKS))"
proof -
  let ?c = "listener_cursor l now g"
  obtain st c' where p: "plan_listener_step (mg_tick_count g) (newest_tick now g) ?c = Some (st, c')"
      "c' \<le> mg_tick_count g"
      "heard_ticks ?c c' (mg_tick_count g) st = [?c + snd (step_counts st) + 1..<c' + 1]"
      "c' = ?c + snd (step_counts st) + length (heard_ticks ?c c' (mg_tick_count g) st)"
      "\<forall>t \<in> set (heard_ticks ?c c' (mg_tick_count g) st). mg_tick_count g - t < HISTORY_TICKS"
    using plan_accounted [OF newest_le cursor_le [OF assms], of now l now] by blast
  let ?g = "g\<lparr>mg_listener_ticks := (mg_listener_ticks g)(l := Some c')\<rparr>"
  have "cursors_ok ?g" using assms p(2) by (auto simp: cursors_ok_def)
  moreover have "next_listener_step l now g = Some (st, ?g)" by (simp add: next_listener_step_def p(1))
  ultimately show ?thesis using p(3-5) unfolding Let_def
    by (intro exI [of _ st] exI [of _ ?g] exI [of _ c'] conjI) simp_all
qed

section \<open>Exclusive mix groups\<close>

text \<open>A listener's allow-list inside a group: everyone else of the group.\<close>

definition route_of :: "participant_id set \<Rightarrow> participant_id \<Rightarrow> participant_id set option" where
  "route_of members p = (if members - {p} = {} then None else Some (members - {p}))"

definition members_ok :: "('d, 'f) mix_graph \<Rightarrow> bool" where
  "members_ok g \<longleftrightarrow>
     (\<forall>p k. mg_member_group g p = Some k \<longleftrightarrow> (\<exists>members. mg_groups g k = Some members \<and> p \<in> members))"

definition routes_except :: "ustring set \<Rightarrow> ('d, 'f) mix_graph \<Rightarrow> bool" where
  "routes_except ks g \<longleftrightarrow>
     (\<forall>k members p. k \<notin> ks \<longrightarrow> mg_groups g k = Some members \<longrightarrow> p \<in> members \<longrightarrow>
        mg_listener_routes g p = route_of members p)"

definition group_ok :: "('d, 'f) mix_graph \<Rightarrow> bool" where
  "group_ok g \<longleftrightarrow> members_ok g \<and> routes_except {} g"

lemma members_okD: "members_ok g \<Longrightarrow> mg_groups g k = Some m \<Longrightarrow> p \<in> m \<Longrightarrow> mg_member_group g p = Some k"
  by (auto simp: members_ok_def)

lemma members_ok_unique:
  "members_ok g \<Longrightarrow> mg_groups g k = Some m \<Longrightarrow> p \<in> m \<Longrightarrow> mg_groups g k' = Some m' \<Longrightarrow> p \<in> m' \<Longrightarrow> k = k'"
  by (metis members_okD option.inject)

lemma leave_other:
  assumes "members_ok g" and "mg_member_group g p \<noteq> Some j"
  shows "map_option (\<lambda>m. m - {p}) (mg_groups g j) = mg_groups g j"
proof (cases "mg_groups g j")
  case (Some m)
  then have "p \<notin> m" using members_okD [OF assms(1) Some] assms(2) by blast
  then show ?thesis using Some by simp
qed simp

lemma rebuild_same [simp]:
  "mg_groups (rebuild_group_routes k g) = mg_groups g"
  "mg_member_group (rebuild_group_routes k g) = mg_member_group g"
  by (simp_all add: rebuild_group_routes_def Let_def split: option.split)

lemma rebuild_ok:
  assumes "members_ok g" and "routes_except (insert k ks) g"
  shows "members_ok (rebuild_group_routes k g)" and "routes_except ks (rebuild_group_routes k g)"
proof -
  show "members_ok (rebuild_group_routes k g)" using assms(1) by (simp add: members_ok_def)
  show "routes_except ks (rebuild_group_routes k g)"
    unfolding routes_except_def
  proof (intro allI impI)
    fix k' members p
    assume k': "k' \<notin> ks" "mg_groups (rebuild_group_routes k g) k' = Some members" "p \<in> members"
    then have m: "mg_groups g k' = Some members" "mg_member_group g p = Some k'"
      using members_okD [OF assms(1)] by auto
    show "mg_listener_routes (rebuild_group_routes k g) p = route_of members p"
    proof (cases "k' = k")
      case True
      then show ?thesis using m k'(3) by (simp add: rebuild_group_routes_def route_of_def)
    next
      case False
      then have r: "mg_listener_routes g p = route_of members p"
        using assms(2) k'(1,3) m(1) by (auto simp: routes_except_def)
      have "p \<notin> mk" if "mg_groups g k = Some mk" for mk
        using members_okD [OF assms(1) that] m(2) False by auto
      then show ?thesis using r m(2) by (auto simp: rebuild_group_routes_def Let_def split: option.split)
    qed
  qed
qed

lemma leave_same [simp]:
  "mg_member_group (leave_members p k g) = mg_member_group g"
  "mg_listener_routes (leave_members p k g) = mg_listener_routes g"
  by (simp_all add: leave_members_def)

lemma leave_groups:
  "mg_groups (leave_members p k g) j =
     (if j = k then map_option (\<lambda>m. m - {p}) (mg_groups g k) else mg_groups g j)"
  by (simp add: leave_members_def)

lemma move_to_group_ok:
  assumes "group_ok g"
  shows "group_ok (move_to_group p k g)"
proof -
  define mid where "mid = (let g1 = g\<lparr>mg_member_group := (mg_member_group g)(p := None)\<rparr>;
          g2 = (case mg_member_group g p of None \<Rightarrow> g1 | Some old \<Rightarrow> leave_members p old g1);
          g3 = g2\<lparr>mg_groups := (mg_groups g2)(k :=
                  Some (insert p (case mg_groups g2 k of Some m \<Rightarrow> m | None \<Rightarrow> {})))\<rparr>
      in g3\<lparr>mg_member_group := (mg_member_group g3)(p := Some k)\<rparr>)"
  have mid: "mg_member_group mid = (mg_member_group g)(p := Some k)"
      "mg_listener_routes mid = mg_listener_routes g"
      "\<And>j. mg_groups mid j = (if j = k then Some (insert p (case mg_groups g k of Some m \<Rightarrow> m | None \<Rightarrow> {}))
         else map_option (\<lambda>m. m - {p}) (mg_groups g j))"
    using leave_other [of g p] assms
    by (auto simp: mid_def Let_def leave_groups group_ok_def split: option.split)
  have mem: "members_ok mid"
    using assms members_ok_unique [of g] by (auto simp: members_ok_def group_ok_def mid split: option.splits)
  let ?ks = "insert k (set_option (mg_member_group g p))"
  have routes: "routes_except ?ks mid"
  proof -
    have "mg_listener_routes g q = route_of (m - {p}) q"
      if "j \<notin> ?ks" "mg_groups g j = Some m" "q \<in> m - {p}" for j m q
    proof -
      have "p \<notin> m" using that(1,2) members_okD [of g j m p] assms by (auto simp: group_ok_def)
      then show ?thesis using that assms by (auto simp: group_ok_def routes_except_def)
    qed
    then show ?thesis by (auto simp: routes_except_def mid)
  qed
  have fin: "move_to_group p k g = rebuild_group_routes k
      (case mg_member_group g p of None \<Rightarrow> mid | Some old \<Rightarrow>
         if old \<noteq> k then rebuild_group_routes old mid else mid)"
    by (cases "mg_member_group g p") (simp_all add: move_to_group_def mid_def Let_def)
  show ?thesis
  proof (cases "mg_member_group g p")
    case None
    then show ?thesis using rebuild_ok [OF mem] routes fin by (simp add: group_ok_def)
  next
    case (Some old)
    show ?thesis
    proof (cases "old = k")
      case True
      then show ?thesis using rebuild_ok [OF mem] routes fin Some by (simp add: group_ok_def)
    next
      case False
      have "routes_except (insert old {k}) mid" using routes Some by (simp add: insert_commute)
      then have "members_ok (rebuild_group_routes old mid)" "routes_except {k} (rebuild_group_routes old mid)"
        using rebuild_ok [OF mem] by blast+
      then show ?thesis using rebuild_ok [of "rebuild_group_routes old mid" k "{}"] fin Some False
        by (simp add: group_ok_def)
    qed
  qed
qed

text \<open>Leaving: the participant is taken out of its group and its routes are whatever.\<close>

lemma leave_ok:
  assumes "group_ok g" and "mg_member_group g p = Some k"
    and "mg_member_group g' = (mg_member_group g)(p := None)"
    and "\<And>j. mg_groups g' j = (if j = k then map_option (\<lambda>m. m - {p}) (mg_groups g k) else mg_groups g j)"
    and "\<And>q j. mg_member_group g q = Some j \<Longrightarrow> j \<noteq> k \<Longrightarrow> mg_listener_routes g' q = mg_listener_routes g q"
  shows "group_ok (rebuild_group_routes k g')"
proof -
  have "mg_member_group g' q = Some j \<longleftrightarrow> (\<exists>m. mg_groups g' j = Some m \<and> q \<in> m)" for q j
  proof (cases "q = p")
    case True
    have "p \<notin> m" if "mg_groups g' j = Some m" for m
      using that assms(1,2) members_okD [of g j _ p]
      by (auto simp: assms(4) group_ok_def split: if_splits)
    then show ?thesis using True by (simp add: assms(3))
  next
    case False
    then show ?thesis using assms(1) by (auto simp: assms(3,4) group_ok_def members_ok_def)
  qed
  then have "members_ok g'" unfolding members_ok_def by blast
  moreover have "routes_except {k} g'"
    using assms(1) members_okD [of g] assms(5)
    by (fastforce simp: group_ok_def routes_except_def assms(4))
  ultimately show ?thesis using rebuild_ok [of g' k "{}"] by (simp add: group_ok_def)
qed

lemma remove_from_group_ok: "group_ok g \<Longrightarrow> group_ok (remove_from_group p g)"
proof (cases "mg_member_group g p")
  case (Some k)
  assume ok: "group_ok g"
  have "p \<noteq> q" if "mg_member_group g q = Some j" "j \<noteq> k" for q j using Some that by auto
  then show ?thesis using Some
    by (simp add: remove_from_group_def Let_def) (rule leave_ok [OF ok Some]; auto simp: leave_groups)
qed (simp add: remove_from_group_def)

text \<open>Removing a source also takes it out of everybody's allow-list.\<close>

lemma forget_same [simp]:
  "mg_groups (forget_input p g) = mg_groups g" "mg_member_group (forget_input p g) = mg_member_group g"
  by (simp_all add: forget_input_def)

lemma forget_routes:
  assumes "group_ok g" and "mg_member_group g q = Some j" and "mg_member_group g p \<noteq> Some j"
  shows "mg_listener_routes (forget_input p g) q = mg_listener_routes g q"
proof -
  obtain m where m: "mg_groups g j = Some m" "q \<in> m"
    using assms(1,2) by (auto simp: group_ok_def members_ok_def)
  have "p \<notin> m" using assms(1,3) m by (auto simp: group_ok_def dest: members_okD)
  moreover have "mg_listener_routes g q = route_of m q"
    using assms(1) m by (auto simp: group_ok_def routes_except_def)
  ultimately show ?thesis using m(2) by (auto simp: route_of_def forget_input_def Let_def)
qed

lemma remove_input_ok:
  assumes "group_ok g"
  shows "group_ok (remove_input p g)"
proof (cases "mg_member_group g p")
  case None
  have "mg_listener_routes (forget_input p g) q = mg_listener_routes g q"
    if "mg_groups g j = Some m" "q \<in> m" for q j m
    using forget_routes [OF assms, of q j p] None members_okD [of g j m q] assms that
    by (simp add: group_ok_def)
  then show ?thesis
    using assms None by (simp add: remove_input_def group_ok_def members_ok_def routes_except_def)
next
  case (Some k)
  let ?g = "leave_members p k (forget_input p g\<lparr>mg_member_group := (mg_member_group g)(p := None)\<rparr>)"
  have "group_ok (rebuild_group_routes k ?g)"
    by (rule leave_ok [OF assms Some]) (use forget_routes [OF assms] Some in \<open>simp_all add: leave_groups\<close>)
  then show ?thesis using Some by (simp add: remove_input_def)
qed

text \<open>
  Setting a group's members: ids join one by one; the group's own entry is replaced at the end.
  During the loop the group stands for the ids already mapped to it.
\<close>

definition joining :: "ustring \<Rightarrow> ('d, 'f) mix_graph \<Rightarrow> ('d, 'f) mix_graph" where
  "joining k g = g\<lparr>mg_groups := (mg_groups g)(k := Some {p. mg_member_group g p = Some k})\<rparr>"

definition joining_ok :: "ustring \<Rightarrow> ('d, 'f) mix_graph \<Rightarrow> bool" where
  "joining_ok k g \<longleftrightarrow> members_ok (joining k g) \<and> routes_except {k} (joining k g)"

lemma joining_start: "group_ok g \<Longrightarrow> joining_ok k g"
  by (auto simp: joining_ok_def joining_def group_ok_def members_ok_def routes_except_def)

lemma joining_rebuild:
  "old \<noteq> k \<Longrightarrow> joining k (rebuild_group_routes old g) = rebuild_group_routes old (joining k g)"
  by (cases g) (auto simp add: joining_def rebuild_group_routes_def Let_def fun_eq_iff split: option.split)

lemma join_one_member: "mg_member_group (join_one k p g) = (mg_member_group g)(p := Some k)"
  by (simp add: join_one_def Let_def split: option.split)

lemma join_one_ok:
  assumes "joining_ok k g"
  shows "joining_ok k (join_one k p g)"
proof -
  let ?g = "g\<lparr>mg_member_group := (mg_member_group g)(p := Some k)\<rparr>"
  have ok: "members_ok (joining k g)" "routes_except {k} (joining k g)"
    using assms by (simp_all add: joining_ok_def)
  have mem: "mg_member_group g q = Some j \<longleftrightarrow> (\<exists>m. mg_groups g j = Some m \<and> q \<in> m)" if "j \<noteq> k" for q j
    using ok(1) [unfolded members_ok_def, rule_format, of q j] that by (simp add: joining_def)
  have routes: "mg_listener_routes g q = route_of m q"
    if "j \<noteq> k" "mg_groups g j = Some m" "q \<in> m" for j m q
    using ok(2) [unfolded routes_except_def, rule_format, of j m q] that by (simp add: joining_def)
  show ?thesis
  proof (cases "\<exists>old. mg_member_group g p = Some old \<and> old \<noteq> k")
    case False
    then have j: "join_one k p g = ?g" by (auto simp: join_one_def Let_def split: option.split)
    have "p \<notin> m" if "mg_groups g j = Some m" "j \<noteq> k" for j m
      using False mem [OF that(2), of p] that by auto
    then have m: "mg_member_group (joining k ?g) q = Some j \<longleftrightarrow> (\<exists>m. mg_groups (joining k ?g) j = Some m \<and> q \<in> m)" for q j
      using mem [of j q] by (cases "j = k") (auto simp: joining_def)
    have "members_ok (joining k ?g)" unfolding members_ok_def by (intro allI m)
    moreover have "routes_except {k} (joining k ?g)"
      using routes by (simp add: joining_def routes_except_def)
    ultimately show ?thesis by (simp add: joining_ok_def j)
  next
    case True
    then obtain old where old: "mg_member_group g p = Some old" "old \<noteq> k" by blast
    let ?l = "leave_members p old ?g"
    have j: "join_one k p g = rebuild_group_routes old ?l" using old by (simp add: join_one_def Let_def)
    have only: "p \<notin> m" if "mg_groups g j = Some m" "j \<noteq> k" "j \<noteq> old" for j m
      using old mem [OF that(2), of p] that by auto
    have m: "mg_member_group (joining k ?l) q = Some j \<longleftrightarrow> (\<exists>m. mg_groups (joining k ?l) j = Some m \<and> q \<in> m)" for q j
    proof (cases "j = k")
      case True
      then show ?thesis by (simp add: joining_def)
    next
      case False
      then show ?thesis using mem [OF False, of q] only [of j] old
        by (cases "q = p"; cases "j = old") (auto simp: joining_def leave_groups)
    qed
    have "members_ok (joining k ?l)" unfolding members_ok_def by (intro allI m)
    moreover have "routes_except (insert old {k}) (joining k ?l)"
      by (auto simp: joining_def routes_except_def leave_groups intro: routes)
    ultimately show ?thesis
      using rebuild_ok [of "joining k ?l" old "{k}"] joining_rebuild [OF old(2), of ?l]
      by (simp add: joining_ok_def j)
  qed
qed

lemma join_all_ok:
  "joining_ok k g \<Longrightarrow> joining_ok k (fold (join_one k) ps g) \<and>
     {p. mg_member_group (fold (join_one k) ps g) p = Some k} = {p. mg_member_group g p = Some k} \<union> set ps"
proof (induction ps arbitrary: g)
  case (Cons p ps)
  from Cons.IH [OF join_one_ok [OF Cons.prems, of p]]
  show ?case by (auto simp: join_one_member)
qed simp

text \<open>
  Replacing a membership keeps the bookkeeping only when nobody is left out: a dropped member keeps
  its \<open>member_group\<close> entry.
\<close>

lemma set_group_members_ok:
  assumes "group_ok g" and "{p. mg_member_group g p = Some k} \<subseteq> set members"
  shows "group_ok (set_group_members k members g)"
proof -
  let ?g = "fold (join_one k) (remdups members) g"
  have j: "joining_ok k ?g" "{p. mg_member_group ?g p = Some k} = set members"
    using join_all_ok [OF joining_start [OF assms(1)], of k "remdups members"] assms(2) by auto
  then have "joining k ?g = ?g\<lparr>mg_groups := (mg_groups ?g)(k := Some (set members))\<rparr>"
    by (simp add: joining_def)
  then show ?thesis
    using j(1) rebuild_ok [of "joining k ?g" k "{}"]
    by (simp add: set_group_members_def joining_ok_def group_ok_def Let_def)
qed

datatype group_op =
  GAdd participant_id | GRemove participant_id | GMove participant_id ustring
  | GLeave participant_id | GSet ustring "participant_id list"

fun group_step :: "'d float_ops \<Rightarrow> group_op \<Rightarrow> ('d, 'f) mix_graph \<Rightarrow> ('d, 'f) mix_graph" where
  "group_step fl (GAdd p) g = add_input fl p g"
| "group_step fl (GRemove p) g = remove_input p g"
| "group_step fl (GMove p k) g = move_to_group p k g"
| "group_step fl (GLeave p) g = remove_from_group p g"
| "group_step fl (GSet k members) g = set_group_members k members g"

fun group_op_ok :: "group_op \<Rightarrow> ('d, 'f) mix_graph \<Rightarrow> bool" where
  "group_op_ok (GSet k members) g \<longleftrightarrow> {p. mg_member_group g p = Some k} \<subseteq> set members"
| "group_op_ok _ g \<longleftrightarrow> True"

fun group_ops_ok :: "'d float_ops \<Rightarrow> group_op list \<Rightarrow> ('d, 'f) mix_graph \<Rightarrow> bool" where
  "group_ops_ok fl [] g \<longleftrightarrow> True"
| "group_ops_ok fl (op # ops) g \<longleftrightarrow> group_op_ok op g \<and> group_ops_ok fl ops (group_step fl op g)"

lemma group_step_ok:
  assumes "group_ok g" and "group_op_ok op g"
  shows "group_ok (group_step fl op g)"
proof (cases op)
  case (GAdd p)
  have "group_ok (g\<lparr>mg_inputs := i\<rparr>)" for i
    using assms(1) by (simp add: group_ok_def members_ok_def routes_except_def)
  then show ?thesis using GAdd by (simp add: add_input_def)
qed (use assms in \<open>simp_all add: remove_input_ok move_to_group_ok remove_from_group_ok set_group_members_ok\<close>)

lemma group_run_ok:
  "group_ok g \<Longrightarrow> group_ops_ok fl ops g \<Longrightarrow> group_ok (fold (group_step fl) ops g)"
  by (induction ops arbitrary: g) (simp_all add: group_step_ok)

lemma group_ok_new: "group_ok (graph_new fs)"
  by (simp add: group_ok_def members_ok_def routes_except_def graph_new_def)

lemma group_ok_audible:
  assumes "group_ok g" and "mg_groups g k = Some members" and "p \<in> members" and "members \<noteq> {p}"
    and "audible p q g"
  shows "q \<in> members"
proof -
  have "mg_listener_routes g p = route_of members p"
    using assms(1-3) by (auto simp: group_ok_def routes_except_def)
  then show ?thesis using assms(3,4,5) by (auto simp: route_of_def audible_def split: if_splits)
qed



text \<open>
  leaving a group opens everything: a participant taken out of its group has no allow-list any
  more, so it hears every source that is not muted for it.
\<close>

theorem left_group_hears_everyone:
  assumes "mg_member_group g p = Some k" and "mg_groups g k \<noteq> None"
  shows "audible p q (remove_from_group p g) =
    (q \<noteq> p \<and> \<not> is_globally_muted q g \<and> \<not> is_listener_muted p q g)"
  using assms
  by (auto simp: remove_from_group_def leave_members_def rebuild_group_routes_def audible_def
      is_globally_muted_def is_listener_muted_def Let_def)

definition demo_groups :: "(int, int) mix_graph" where
  "demo_groups = move_to_group [2] [9] (move_to_group [1] [9] (graph_new int_ops))"

theorem left_group_hears_everyone_witness:
  "audible [1] [3] (remove_from_group [1] demo_groups) = True"
proof -
  have g: "mg_member_group demo_groups [1] = Some [9]" "mg_groups demo_groups [9] \<noteq> None"
      "\<not> is_globally_muted [3] demo_groups" "\<not> is_listener_muted [1] [3] demo_groups"
    by (simp_all add: demo_groups_def move_to_group_def rebuild_group_routes_def graph_new_def
        is_globally_muted_def is_listener_muted_def Let_def)
  from left_group_hears_everyone [OF g(1,2), of "[3]"] g(3,4) show ?thesis by simp
qed

text \<open>A member dropped by \<open>set_group_members\<close> keeps its group entry and its allow-list.\<close>

lemma dropped_member_keeps_routes:
  "a \<noteq> b \<Longrightarrow> (let g = set_group_members k [a] (set_group_members k [a, b] (graph_new fs))
     in mg_groups g k = Some {a} \<and> mg_member_group g b = Some k \<and> mg_listener_routes g b = Some {a})"
  by (auto simp: set_group_members_def join_one_def rebuild_group_routes_def graph_new_def Let_def)

section \<open>Rendering always succeeds\<close>

text \<open>
  with the cursors in order and at most 65535 sources, a render returns a frame of exactly 3840
  bytes, keeps the cursors in order, and leaves the set of sources as it was.
\<close>

theorem render_total:
  assumes "cursors_ok g" and "length (mg_inputs g) \<le> 65535"
  shows "\<exists>out g'. render_output fl fs l now g = Some (out, g') \<and> is_valid out \<and> cursors_ok g' \<and>
    map fst (mg_inputs g') = map fst (mg_inputs g)"
proof -
  let ?a = "advance_to fl now g"
  have a: "cursors_ok ?a" "length (mg_inputs ?a) = length (mg_inputs g)"
      "map fst (mg_inputs ?a) = map fst (mg_inputs g)"
    using assms(1) by (auto simp: advance_to_plan cursors_ok_def intro: trans_le_add1)
  obtain st g' where st: "next_listener_step l now ?a = Some (st, g')" "cursors_ok g'"
    using listener_ticks_accounted_aux [OF a(1)] by blast
  obtain t where t: "g' = ?a\<lparr>mg_listener_ticks := t\<rparr>" using next_step_ticks_only [OF st(1)] by blast
  let ?heard = "filter (\<lambda>(p, _). \<not> skip_source l p g') (mg_inputs g')"
  let ?sources = "map (\<lambda>(p, slot). pan_source_for_listener fs l p (raw_frame fl st slot) g') ?heard"
  have "length ?heard \<le> length (mg_inputs g')" by (rule length_filter_le)
  then have "length ?sources \<le> 65535" using assms(2) a(2) t by (simp only: length_map) simp
  then obtain out where out: "mix ?sources = Some out" "is_valid out" using mix_valid by blast
  have c: "cursors_ok (count_step n hs g')" "map fst (mg_inputs (count_step n hs g')) = map fst (mg_inputs g')" for n hs
    using st(2) by (auto simp: count_step_def cursors_ok_def Let_def comp_def split: prod.split)
  show ?thesis
  proof (cases "mg_mixing_enabled g'")
    case True
    then show ?thesis using st out c a(3) t by (simp add: render_output_def Let_def)
  next
    case False
    then show ?thesis using st a(3) t by (simp add: render_output_def)
  qed
qed

section \<open>Witnesses\<close>

definition demo_self :: "(int, int) mix_graph" where
  "demo_self = push_frame_at int_ops [1] (demo_frame 1) 0 (graph_new int_ops)"

theorem render_depends_on_audible_witness:
  "map_option fst (render_output int_ops int_ops [1] (ms 40) demo_self) =
   map_option fst (render_output int_ops int_ops [1] (ms 40) (demo_self\<lparr>mg_inputs := []\<rparr>))"
  by (rule render_depends_on_audible)
    (simp add: demo_self_def push_frame_at_def graph_new_def audible_def Let_def)

definition demo_late :: "(int, int) mix_graph" where
  "demo_late = (graph_new int_ops)\<lparr>mg_tick_count := 30, mg_listener_ticks := [[1] \<mapsto> 3]\<rparr>"

theorem listener_ticks_accounted_witness:
  "\<exists>st g' c'. next_listener_step [1] 0 demo_late = Some (st, g') \<and>
     c' = 3 + snd (step_counts st) + length (heard_ticks 3 c' 30 st)"
proof -
  have "cursors_ok demo_late" "listener_cursor [1] 0 demo_late = 3" "mg_tick_count demo_late = 30"
    by (simp_all add: cursors_ok_def demo_late_def listener_cursor_def graph_new_def)
  with listener_ticks_accounted [of demo_late "[1]" 0] show ?thesis by (auto simp: Let_def)
qed

theorem render_total_witness:
  "\<exists>out g'. render_output int_ops int_ops [1] 7 demo_late = Some (out, g') \<and> is_valid out"
proof -
  have "cursors_ok demo_late" "length (mg_inputs demo_late) \<le> 65535"
    by (simp_all add: cursors_ok_def demo_late_def graph_new_def)
  with render_total [of demo_late int_ops int_ops "[1]" 7] show ?thesis by blast
qed

end
