(* ===== verification/Tts_Send_Order.thy ===== *)
theory Tts_Send_Order
  imports Text_Model
begin

text \<open>
  \<open>crates/speech/src/tts_send_order.rs\<close>: the ticket sequencer of \<open>send_text_to_tts\<close>.  Each method
  holds the mutex for its whole body, so a run is a sequence of calls; \<open>wait_turn\<close> is the check its
  loop makes after every wake-up.
\<close>

section \<open>State and operations\<close>

record order_state =
  os_next_ticket :: nat
  os_next_turn :: nat
  os_released_ahead :: "nat list"
  os_cancel_below :: nat
  os_pending_reply :: "(nat, ustring) btree"

record tts_send_ticket =
  tk_id :: nat
  tk_reply_id :: "ustring option"
  tk_released :: bool

record tts_flush_cut =
  fc_below :: nat
  fc_in_flight_replies :: "ustring list"

definition order_new :: order_state where
  "order_new = \<lparr>os_next_ticket = 0, os_next_turn = 0, os_released_ahead = [], os_cancel_below = 0,
     os_pending_reply = []\<rparr>"

definition reserve_with_reply :: "ustring option \<Rightarrow> order_state \<Rightarrow> tts_send_ticket \<times> order_state" where
  "reserve_with_reply reply_id s =
     (let tid = os_next_ticket s;
          s = s\<lparr>os_next_ticket := tid + 1\<rparr>;
          s = (case reply_id of
                 None \<Rightarrow> s
               | Some r \<Rightarrow> s\<lparr>os_pending_reply := bt_insert tid r (os_pending_reply s)\<rparr>)
      in (\<lparr>tk_id = tid, tk_reply_id = reply_id, tk_released = False\<rparr>, s))"

text \<open>\<open>loop { if !released_ahead.remove(&next_turn) { break } next_turn += 1 }\<close>\<close>

function skip_released :: "order_state \<Rightarrow> order_state" where
  "skip_released s =
     (if os_next_turn s \<in> set (os_released_ahead s)
      then skip_released (s\<lparr>os_released_ahead := removeAll (os_next_turn s) (os_released_ahead s),
                            os_next_turn := os_next_turn s + 1\<rparr>)
      else s)"
  by pat_completeness auto
termination
  by (relation "measure (\<lambda>s. length (os_released_ahead s))") (auto intro: length_removeAll_less)

declare skip_released.simps [simp del]

definition order_release :: "nat \<Rightarrow> order_state \<Rightarrow> order_state" where
  "order_release tid s =
     (let s = s\<lparr>os_pending_reply := bt_remove tid (os_pending_reply s)\<rparr>
      in if tid = os_next_turn s then skip_released (s\<lparr>os_next_turn := os_next_turn s + 1\<rparr>)
         else if os_next_turn s < tid then s\<lparr>os_released_ahead := List.insert tid (os_released_ahead s)\<rparr>
         else s)"

definition ticket_release :: "tts_send_ticket \<Rightarrow> order_state \<Rightarrow> tts_send_ticket \<times> order_state" where
  "ticket_release t s =
     (if \<not> tk_released t then (t\<lparr>tk_released := True\<rparr>, order_release (tk_id t) s) else (t, s))"

definition order_cut :: "order_state \<Rightarrow> tts_flush_cut \<times> order_state" where
  "order_cut s =
     (let s = s\<lparr>os_cancel_below := max (os_cancel_below s) (os_next_ticket s)\<rparr>;
          s = (if os_next_turn s < os_cancel_below s
               then skip_released (s\<lparr>os_next_turn := os_cancel_below s,
                      os_released_ahead := filter (\<lambda>i. os_cancel_below s \<le> i) (os_released_ahead s)\<rparr>)
               else s);
          in_flight = map snd (bt_below (os_cancel_below s) (os_pending_reply s));
          s = s\<lparr>os_pending_reply := bt_from (os_cancel_below s) (os_pending_reply s)\<rparr>
      in (\<lparr>fc_below = os_next_ticket s, fc_in_flight_replies = in_flight\<rparr>, s))"

definition order_claim :: "nat \<Rightarrow> order_state \<Rightarrow> bool \<times> order_state" where
  "order_claim tid s =
     (if tid < os_cancel_below s then (False, s)
      else (True, s\<lparr>os_pending_reply := bt_remove tid (os_pending_reply s)\<rparr>))"

datatype turn = TicketCancelled | MyTurn | KeepWaiting

definition wait_turn :: "nat \<Rightarrow> order_state \<Rightarrow> turn" where
  "wait_turn tid s =
     (if tid < os_cancel_below s then TicketCancelled
      else if os_next_turn s = tid then MyTurn
      else KeepWaiting)"

section \<open>The agent's tickets\<close>

text \<open>
  The sequencer with the tickets it handed out (ticket \<open>i\<close> at position \<open>i\<close>).  A step returns the
  reply ids that stop being pending, each with its ticket and the party that will end the reply.
\<close>

datatype reply_fate = InQueue | Flushed | GaveUp

record send_system =
  sys_order :: order_state
  sys_tickets :: "tts_send_ticket list"

definition system_new :: send_system where
  "system_new = \<lparr>sys_order = order_new, sys_tickets = []\<rparr>"

datatype send_op = SReserve "ustring option" | SRelease nat | SCut | SClaim nat

definition left_pending :: "reply_fate \<Rightarrow> order_state \<Rightarrow> order_state \<Rightarrow> (nat \<times> ustring \<times> reply_fate) list" where
  "left_pending fate s s' =
     map (\<lambda>(i, r). (i, r, fate)) (filter (\<lambda>(i, _). bt_get (os_pending_reply s') i = None) (os_pending_reply s))"

fun send_step :: "send_system \<Rightarrow> send_op \<Rightarrow> (send_system \<times> (nat \<times> ustring \<times> reply_fate) list) option" where
  "send_step y (SReserve r) =
     (let (t, s) = reserve_with_reply r (sys_order y)
      in Some (y\<lparr>sys_order := s, sys_tickets := sys_tickets y @ [t]\<rparr>, []))"
| "send_step y (SRelease i) =
     (if i < length (sys_tickets y) then
        (let (t, s) = ticket_release (sys_tickets y ! i) (sys_order y)
         in Some (y\<lparr>sys_order := s, sys_tickets := (sys_tickets y)[i := t]\<rparr>,
                  left_pending GaveUp (sys_order y) s))
      else Some (y, []))"
| "send_step y SCut =
     (let (c, s) = order_cut (sys_order y)
      in Some (y\<lparr>sys_order := s\<rparr>, left_pending Flushed (sys_order y) s))"
| "send_step y (SClaim i) =
     (let (b, s) = order_claim i (sys_order y)
      in Some (y\<lparr>sys_order := s\<rparr>, left_pending InQueue (sys_order y) s))"

section \<open>Invariant\<close>

text \<open>A ticket is over when its turn was released or a cut cancelled it.\<close>

definition is_over :: "send_system \<Rightarrow> nat \<Rightarrow> bool" where
  "is_over y i \<longleftrightarrow> i < length (sys_tickets y) \<and>
     (tk_released (sys_tickets y ! i) \<or> i < os_cancel_below (sys_order y))"

definition turns_ok :: "send_system \<Rightarrow> bool" where
  "turns_ok y \<longleftrightarrow>
     (let s = sys_order y; n = length (sys_tickets y)
      in os_next_ticket s = n \<and> (\<forall>i < n. tk_id (sys_tickets y ! i) = i) \<and>
         os_cancel_below s \<le> os_next_turn s \<and> os_next_turn s \<le> n \<and>
         (\<forall>i < os_next_turn s. is_over y i) \<and> \<not> is_over y (os_next_turn s) \<and>
         set (os_released_ahead s) = {i. os_next_turn s < i \<and> i < n \<and> tk_released (sys_tickets y ! i)})"

definition pending_ok :: "send_system \<Rightarrow> bool" where
  "pending_ok y \<longleftrightarrow>
     (let s = sys_order y
      in bt_ok (os_pending_reply s) \<and>
         (\<forall>(i, r) \<in> set (os_pending_reply s). i < length (sys_tickets y) \<and> os_cancel_below s \<le> i \<and>
            \<not> tk_released (sys_tickets y ! i) \<and> tk_reply_id (sys_tickets y ! i) = Some r))"

lemma is_over_iff: "is_over y i \<longleftrightarrow> i < length (sys_tickets y) \<and>
    (tk_released (sys_tickets y ! i) \<or> i < os_cancel_below (sys_order y))"
  by (rule is_over_def)

text \<open>\<open>skip_released\<close> moves the turn over a run of released tickets and nothing else.\<close>

lemma skip_released_same [simp]:
  "os_next_ticket (skip_released s) = os_next_ticket s" "os_cancel_below (skip_released s) = os_cancel_below s"
  "os_pending_reply (skip_released s) = os_pending_reply s"
  by (induction s rule: skip_released.induct; subst skip_released.simps; simp)+

lemma skip_released_result:
  "os_next_turn s \<le> os_next_turn (skip_released s) \<and>
     os_next_turn (skip_released s) \<notin> set (os_released_ahead s) \<and>
     {os_next_turn s..<os_next_turn (skip_released s)} \<subseteq> set (os_released_ahead s) \<and>
     set (os_released_ahead (skip_released s)) =
       set (os_released_ahead s) - {os_next_turn s..<os_next_turn (skip_released s)}"
proof (induction s rule: skip_released.induct)
  case (1 s)
  show ?case
  proof (cases "os_next_turn s \<in> set (os_released_ahead s)")
    case True
    let ?s = "s\<lparr>os_released_ahead := removeAll (os_next_turn s) (os_released_ahead s), os_next_turn := os_next_turn s + 1\<rparr>"
    have e: "skip_released s = skip_released ?s" using True by (simp add: skip_released.simps [of s])
    have IH: "os_next_turn s + 1 \<le> os_next_turn (skip_released ?s)"
        "os_next_turn (skip_released ?s) \<notin> set (os_released_ahead s) - {os_next_turn s}"
        "{os_next_turn s + 1..<os_next_turn (skip_released ?s)} \<subseteq> set (os_released_ahead s) - {os_next_turn s}"
        "set (os_released_ahead (skip_released ?s)) = set (os_released_ahead s) - {os_next_turn s} -
           {os_next_turn s + 1..<os_next_turn (skip_released ?s)}"
      using 1(1) [OF True] by (simp_all del: Diff_iff)
    have i: "{os_next_turn s..<os_next_turn (skip_released ?s)} =
        insert (os_next_turn s) {os_next_turn s + 1..<os_next_turn (skip_released ?s)}"
      using IH(1) by auto
    show ?thesis unfolding e i using IH True by auto
  next
    case False
    then have "skip_released s = s" by (simp add: skip_released.simps)
    then show ?thesis using False by simp
  qed
qed

lemma turns_okD:
  assumes "turns_ok y"
  shows "os_next_ticket (sys_order y) = length (sys_tickets y)"
    "i < length (sys_tickets y) \<Longrightarrow> tk_id (sys_tickets y ! i) = i"
    "os_cancel_below (sys_order y) \<le> os_next_turn (sys_order y)"
    "os_next_turn (sys_order y) \<le> length (sys_tickets y)"
    "i < os_next_turn (sys_order y) \<Longrightarrow> is_over y i"
    "\<not> is_over y (os_next_turn (sys_order y))"
    "set (os_released_ahead (sys_order y)) =
       {i. os_next_turn (sys_order y) < i \<and> i < length (sys_tickets y) \<and> tk_released (sys_tickets y ! i)}"
  using assms by (simp_all add: turns_ok_def Let_def)

lemma reserve_turns:
  assumes "turns_ok y" and "reserve_with_reply r (sys_order y) = (t, s)"
  shows "turns_ok (y\<lparr>sys_order := s, sys_tickets := sys_tickets y @ [t]\<rparr>)"
proof -
  note d = turns_okD [OF assms(1)]
  have s: "os_next_ticket s = length (sys_tickets y) + 1" "os_next_turn s = os_next_turn (sys_order y)"
      "os_cancel_below s = os_cancel_below (sys_order y)" "set (os_released_ahead s) = set (os_released_ahead (sys_order y))"
      "t = \<lparr>tk_id = length (sys_tickets y), tk_reply_id = r, tk_released = False\<rparr>"
    using assms(2) d(1) by (auto simp: reserve_with_reply_def Let_def split: option.splits)
  let ?y = "y\<lparr>sys_order := s, sys_tickets := sys_tickets y @ [t]\<rparr>"
  have old: "sys_tickets ?y ! i = sys_tickets y ! i" if "i < length (sys_tickets y)" for i
    using that by (simp add: nth_append)
  have new: "sys_tickets ?y ! length (sys_tickets y) = t" by simp
  have over: "is_over ?y i \<longleftrightarrow> is_over y i" for i
  proof (cases "i < length (sys_tickets y)")
    case True
    then show ?thesis using old [OF True] s(3) by (simp add: is_over_iff)
  next
    case False
    then show ?thesis using new s(3,5) d(3,4) by (cases "i = length (sys_tickets y)") (simp_all add: is_over_iff)
  qed
  have ids: "tk_id (sys_tickets ?y ! i) = i" if "i < length (sys_tickets ?y)" for i
    using that d(2) [of i] old [of i] new s(5) by (cases "i = length (sys_tickets y)") simp_all
  have rel: "(i < length (sys_tickets ?y) \<and> tk_released (sys_tickets ?y ! i)) =
      (i < length (sys_tickets y) \<and> tk_released (sys_tickets y ! i))" for i
    using old [of i] new s(5) by (cases "i = length (sys_tickets y)") auto
  have "set (os_released_ahead s) = {i. os_next_turn s < i \<and> i < length (sys_tickets ?y) \<and>
      tk_released (sys_tickets ?y ! i)}"
    unfolding rel using d(7) s(2,4) by simp
  then show ?thesis
    using d(3-6) s(1-4) ids over unfolding turns_ok_def Let_def by simp
qed

lemma release_turns:
  assumes "turns_ok y" and "i < length (sys_tickets y)"
    and "ticket_release (sys_tickets y ! i) (sys_order y) = (t, s)"
  shows "turns_ok (y\<lparr>sys_order := s, sys_tickets := (sys_tickets y)[i := t]\<rparr>)"
proof (cases "tk_released (sys_tickets y ! i)")
  case True
  then have "t = sys_tickets y ! i" "s = sys_order y" using assms(3) by (simp_all add: ticket_release_def)
  then show ?thesis using assms(1) by (simp add: turns_ok_def is_over_def Let_def)
next
  case False
  note d = turns_okD [OF assms(1)]
  let ?o = "sys_order y" and ?T = "sys_tickets y"
  have t: "t = (?T ! i)\<lparr>tk_released := True\<rparr>" and s: "s = order_release i ?o"
    using False assms(2,3) d(2) by (auto simp: ticket_release_def)
  let ?y = "y\<lparr>sys_order := s, sys_tickets := ?T[i := t]\<rparr>"
  have rel: "tk_released (?T[i := t] ! j) \<longleftrightarrow> j = i \<or> tk_released (?T ! j)" if "j < length ?T" for j
    using that t assms(2) by (cases "j = i") simp_all
  have ids: "\<forall>j < length ?T. tk_id (?T[i := t] ! j) = j"
  proof (intro allI impI)
    fix j assume "j < length ?T"
    then show "tk_id (?T[i := t] ! j) = j" using d(2) [of j] t by (cases "j = i") simp_all
  qed
  have same: "os_next_ticket s = length ?T" "os_cancel_below s = os_cancel_below ?o"
    using d(1) by (simp_all add: s order_release_def Let_def)
  have over: "is_over ?y j \<longleftrightarrow> j = i \<or> is_over y j" for j
    using rel [of j] assms(2) same(2) by (cases "j < length ?T") (auto simp: is_over_iff)
  have mem: "j \<in> set (os_released_ahead ?o) \<longleftrightarrow> os_next_turn ?o < j \<and> j < length ?T \<and> tk_released (?T ! j)" for j
    unfolding d(7) by simp
  consider (turn) "i = os_next_turn ?o" | (ahead) "os_next_turn ?o < i" | (behind) "i < os_next_turn ?o"
    by linarith
  then show ?thesis
  proof cases
    case turn
    define s0 where "s0 = ?o\<lparr>os_pending_reply := bt_remove i (os_pending_reply ?o), os_next_turn := os_next_turn ?o + 1\<rparr>"
    have s0: "s = skip_released s0" using turn by (simp add: s s0_def order_release_def Let_def)
    have r: "os_next_turn ?o + 1 \<le> os_next_turn s" "os_next_turn s \<notin> set (os_released_ahead ?o)"
        "{os_next_turn ?o + 1..<os_next_turn s} \<subseteq> set (os_released_ahead ?o)"
        "set (os_released_ahead s) = set (os_released_ahead ?o) - {os_next_turn ?o + 1..<os_next_turn s}"
      using skip_released_result [of s0] by (simp_all add: s0 s0_def)
    have le: "os_next_turn s \<le> length ?T"
    proof (rule ccontr)
      assume "\<not> os_next_turn s \<le> length ?T"
      then have "length ?T \<in> {os_next_turn ?o + 1..<os_next_turn s}" using turn assms(2) by auto
      with r(3) d(7) show False by blast
    qed
    have below: "is_over ?y j" if "j < os_next_turn s" for j
    proof (cases "j \<le> os_next_turn ?o")
      case True
      then show ?thesis using d(5) [of j] turn over by (cases "j = i") auto
    next
      case False
      then have "j \<in> set (os_released_ahead ?o)" using r(3) that by auto
      then show ?thesis using d(7) over by (auto simp: is_over_iff)
    qed
    have "\<not> (os_next_turn s < length ?T \<and> tk_released (?T ! os_next_turn s))"
      using r(1,2) unfolding d(7) by simp
    then have "\<not> is_over y (os_next_turn s)" using r(1) d(3) by (simp add: is_over_iff)
    then have at: "\<not> is_over ?y (os_next_turn s)" using r(1) turn unfolding over by simp
    have "set (os_released_ahead s) = {j. os_next_turn s < j \<and> j < length ?T \<and> tk_released (?T[i := t] ! j)}"
    proof (rule set_eqI)
      fix j
      show "j \<in> set (os_released_ahead s) \<longleftrightarrow>
          j \<in> {j. os_next_turn s < j \<and> j < length ?T \<and> tk_released (?T[i := t] ! j)}"
      proof (cases "os_next_turn s < j")
        case True
        then show ?thesis using r(1) turn rel [of j] mem [of j] unfolding r(4) by auto
      next
        case False
        have "j \<noteq> os_next_turn s \<or> j \<notin> set (os_released_ahead ?o)" using r(2) by blast
        then show ?thesis using False mem [of j] unfolding r(4) by auto
      qed
    qed
    then show ?thesis
      using ids same le below at r(1) d(3) by (simp add: turns_ok_def Let_def)
  next
    case ahead
    then have s': "s = ?o\<lparr>os_pending_reply := bt_remove i (os_pending_reply ?o),
        os_released_ahead := List.insert i (os_released_ahead ?o)\<rparr>"
      by (simp add: s order_release_def Let_def)
    have f: "set (os_released_ahead s) = insert i (set (os_released_ahead ?o))" "os_next_turn s = os_next_turn ?o"
      by (simp_all add: s')
    have "set (os_released_ahead s) = {j. os_next_turn s < j \<and> j < length ?T \<and> tk_released (?T[i := t] ! j)}"
    proof (rule set_eqI)
      fix j
      show "j \<in> set (os_released_ahead s) \<longleftrightarrow>
          j \<in> {j. os_next_turn s < j \<and> j < length ?T \<and> tk_released (?T[i := t] ! j)}"
        using mem [of j] rel [of j] ahead assms(2) f by auto
    qed
    moreover have "\<not> is_over ?y (os_next_turn s)" using d(6) ahead unfolding over f by simp
    ultimately show ?thesis
      using ids same d(3-5) f(2) unfolding turns_ok_def Let_def over by simp
  next
    case behind
    then have s': "s = ?o\<lparr>os_pending_reply := bt_remove i (os_pending_reply ?o)\<rparr>"
      by (simp add: s order_release_def Let_def)
    have f: "set (os_released_ahead s) = set (os_released_ahead ?o)" "os_next_turn s = os_next_turn ?o"
      by (simp_all add: s')
    have "set (os_released_ahead s) = {j. os_next_turn s < j \<and> j < length ?T \<and> tk_released (?T[i := t] ! j)}"
    proof (rule set_eqI)
      fix j
      show "j \<in> set (os_released_ahead s) \<longleftrightarrow>
          j \<in> {j. os_next_turn s < j \<and> j < length ?T \<and> tk_released (?T[i := t] ! j)}"
        using mem [of j] rel [of j] behind f by auto
    qed
    moreover have "\<not> is_over ?y (os_next_turn s)" using d(6) behind unfolding over f by simp
    ultimately show ?thesis
      using ids same d(3-5) f(2) unfolding turns_ok_def Let_def over by simp
  qed
qed

lemma turns_pending [simp]: "turns_ok (y\<lparr>sys_order := sys_order y\<lparr>os_pending_reply := p\<rparr>\<rparr>) = turns_ok y"
  by (simp add: turns_ok_def is_over_def Let_def)

lemma cut_result:
  assumes "turns_ok y" and "pending_ok y"
  shows "order_cut (sys_order y) =
    (\<lparr>fc_below = length (sys_tickets y), fc_in_flight_replies = map snd (os_pending_reply (sys_order y))\<rparr>,
     \<lparr>os_next_ticket = length (sys_tickets y), os_next_turn = length (sys_tickets y),
      os_released_ahead = [], os_cancel_below = length (sys_tickets y), os_pending_reply = []\<rparr>)"
proof -
  let ?o = "sys_order y" and ?n = "length (sys_tickets y)"
  note d = turns_okD [OF assms(1)]
  have c: "max (os_cancel_below ?o) (os_next_ticket ?o) = ?n" using d(1,3,4) by simp
  have "filter (\<lambda>i. ?n \<le> i) (os_released_ahead ?o) = []"
    using d(7) by (auto simp: filter_empty_conv)
  moreover have "skip_released s = s" if "os_released_ahead s = []" for s
    using that by (simp add: skip_released.simps)
  moreover have "os_released_ahead ?o = []" if "\<not> os_next_turn ?o < ?n"
  proof -
    have "set (os_released_ahead ?o) = {}" unfolding d(7) using that by auto
    then show ?thesis by simp
  qed
  moreover have "bt_below ?n (os_pending_reply ?o) = os_pending_reply ?o \<and> bt_from ?n (os_pending_reply ?o) = []"
    using assms(2) by (fastforce simp: pending_ok_def bt_below_def bt_from_def filter_id_conv filter_empty_conv Let_def)
  ultimately show ?thesis
    using c d(1,4) by (cases ?o) (auto simp: order_cut_def Let_def)
qed

text \<open>The replies handed to the agent: \<open>(ticket, reply id)\<close> of every ticket reserved with one.\<close>

definition replies :: "tts_send_ticket list \<Rightarrow> (nat \<times> ustring) list" where
  "replies ts = concat (map (\<lambda>i. case tk_reply_id (ts ! i) of None \<Rightarrow> [] | Some r \<Rightarrow> [(i, r)]) [0..<length ts])"

definition ended :: "(nat \<times> ustring \<times> reply_fate) list \<Rightarrow> (nat \<times> ustring) list" where
  "ended outs = map (\<lambda>(i, r, _). (i, r)) outs"

definition send_inv :: "send_system \<Rightarrow> bool" where
  "send_inv y \<longleftrightarrow> turns_ok y \<and> pending_ok y"

definition send_rel ::
  "send_system \<Rightarrow> send_op list \<Rightarrow> (nat \<times> ustring \<times> reply_fate) list \<Rightarrow> send_system \<Rightarrow> bool" where
  "send_rel y ops outs y' \<longleftrightarrow>
     mset (ended outs) + mset (os_pending_reply (sys_order y')) + mset (replies (sys_tickets y)) =
     mset (os_pending_reply (sys_order y)) + mset (replies (sys_tickets y'))"

lemma replies_snoc:
  "replies (ts @ [t]) = replies ts @ (case tk_reply_id t of None \<Rightarrow> [] | Some r \<Rightarrow> [(length ts, r)])"
proof -
  have "concat (map (\<lambda>i. case tk_reply_id ((ts @ [t]) ! i) of None \<Rightarrow> [] | Some r \<Rightarrow> [(i, r)]) [0..<length ts]) =
      replies ts"
    unfolding replies_def by (rule arg_cong [where f = concat], rule map_cong) (simp_all add: nth_append)
  then show ?thesis by (simp add: replies_def [of "ts @ [t]"])
qed

lemma replies_update:
  "i < length ts \<Longrightarrow> tk_reply_id t = tk_reply_id (ts ! i) \<Longrightarrow> replies (ts[i := t]) = replies ts"
proof -
  assume a: "i < length ts" "tk_reply_id t = tk_reply_id (ts ! i)"
  have "tk_reply_id (ts[i := t] ! j) = tk_reply_id (ts ! j)" for j
    using a by (cases "j = i"; cases "j < length ts") auto
  then show ?thesis by (simp add: replies_def)
qed

text \<open>Entries leave the pending map by key; those that leave are reported.\<close>

lemma left_pending_filter:
  assumes "bt_ok (os_pending_reply s)"
    and "os_pending_reply s' = filter (\<lambda>(i, _). Q i) (os_pending_reply s)"
  shows "mset (ended (left_pending fate s s')) + mset (os_pending_reply s') = mset (os_pending_reply s)"
proof -
  have "bt_get (os_pending_reply s') i = None \<longleftrightarrow> \<not> Q i" if "(i, r) \<in> set (os_pending_reply s)" for i r
    using that unfolding assms(2) bt_get_None_iff by force
  then have "filter (\<lambda>(i, _). bt_get (os_pending_reply s') i = None) (os_pending_reply s) =
      filter (\<lambda>(i, _). \<not> Q i) (os_pending_reply s)"
    by (intro filter_cong) auto
  then have "ended (left_pending fate s s') = filter (\<lambda>(i, _). \<not> Q i) (os_pending_reply s)"
    by (simp add: ended_def left_pending_def comp_def case_prod_beta)
  moreover have "(\<lambda>(i, _). \<not> Q i) = (\<lambda>x. \<not> (case x of (i, _) \<Rightarrow> Q i))" by auto
  ultimately show ?thesis
    using assms(2) mset_filter_split [of "\<lambda>x. case x of (i, _) \<Rightarrow> Q i" "os_pending_reply s"] by simp
qed

lemma release_pending:
  "os_pending_reply (order_release i s) = filter (\<lambda>(j, _). j \<noteq> i) (os_pending_reply s)"
  "os_cancel_below (order_release i s) = os_cancel_below s"
  by (simp_all add: order_release_def bt_remove_def Let_def)

lemma pending_okD:
  assumes "pending_ok y"
  shows "bt_ok (os_pending_reply (sys_order y))"
    and "(i, r) \<in> set (os_pending_reply (sys_order y)) \<Longrightarrow> i < length (sys_tickets y) \<and>
      os_cancel_below (sys_order y) \<le> i \<and> \<not> tk_released (sys_tickets y ! i) \<and>
      tk_reply_id (sys_tickets y ! i) = Some r"
  using assms by (auto simp: pending_ok_def Let_def)

lemma reserve_step:
  assumes "send_inv y" and "reserve_with_reply r (sys_order y) = (t, s)"
    and "y' = y\<lparr>sys_order := s, sys_tickets := sys_tickets y @ [t]\<rparr>"
  shows "pending_ok y' \<and> send_rel y ops [] y'"
proof -
  have t: "turns_ok y" and p: "pending_ok y" using assms(1) by (simp_all add: send_inv_def)
  let ?P = "os_pending_reply (sys_order y)" and ?n = "length (sys_tickets y)"
  have keys: "\<forall>x \<in> set ?P. fst x < ?n" using pending_okD(2) [OF p] by force
  have s: "os_cancel_below s = os_cancel_below (sys_order y)"
      "os_pending_reply s = (case r of None \<Rightarrow> ?P | Some r \<Rightarrow> ?P @ [(?n, r)])"
      "t = \<lparr>tk_id = ?n, tk_reply_id = r, tk_released = False\<rparr>"
    using assms(2) turns_okD(1) [OF t] bt_insert_last [OF pending_okD(1) [OF p] keys]
    by (auto simp: reserve_with_reply_def Let_def split: option.splits)
  have ins: "?P @ [(?n, q)] = bt_insert ?n q ?P" for q
    by (rule bt_insert_last [OF pending_okD(1) [OF p] keys, symmetric])
  have "bt_ok (os_pending_reply s)"
    using bt_insert_ok [OF pending_okD(1) [OF p]] pending_okD(1) [OF p]
    by (simp add: s(2) ins split: option.split)
  moreover have "\<forall>(i, q) \<in> set (os_pending_reply s). i < length (sys_tickets y') \<and>
      os_cancel_below s \<le> i \<and> \<not> tk_released (sys_tickets y' ! i) \<and> tk_reply_id (sys_tickets y' ! i) = Some q"
    using s assms(3) turns_okD(3,4) [OF t]
    by (auto simp: nth_append dest!: pending_okD(2) [OF p] split: option.splits)
  ultimately have "pending_ok y'" using assms(3) by (simp add: pending_ok_def Let_def)
  moreover have "send_rel y ops [] y'"
    using s assms(3) by (auto simp: send_rel_def ended_def replies_snoc split: option.splits)
  ultimately show ?thesis by blast
qed

lemma release_step:
  assumes "send_inv y" and "i < length (sys_tickets y)"
    and "ticket_release (sys_tickets y ! i) (sys_order y) = (t, s)"
    and "y' = y\<lparr>sys_order := s, sys_tickets := (sys_tickets y)[i := t]\<rparr>"
  shows "pending_ok y' \<and> send_rel y ops (left_pending GaveUp (sys_order y) s) y'"
proof (cases "tk_released (sys_tickets y ! i)")
  case True
  then have e: "t = sys_tickets y ! i" "s = sys_order y" using assms(3) by (simp_all add: ticket_release_def)
  have p: "pending_ok y" using assms(1) by (simp add: send_inv_def)
  have "mset (ended (left_pending GaveUp (sys_order y) s)) + mset (os_pending_reply s) = mset (os_pending_reply s)"
    using left_pending_filter [OF pending_okD(1) [OF p], of s "\<lambda>_. True"] e by simp
  then show ?thesis using p e assms(4) by (simp add: send_rel_def pending_ok_def)
next
  case False
  have t: "turns_ok y" and p: "pending_ok y" using assms(1) by (simp_all add: send_inv_def)
  have e: "t = (sys_tickets y ! i)\<lparr>tk_released := True\<rparr>" "s = order_release i (sys_order y)"
    using False assms(2,3) turns_okD(2) [OF t] by (auto simp: ticket_release_def)
  have "mset (ended (left_pending GaveUp (sys_order y) s)) + mset (os_pending_reply s) =
      mset (os_pending_reply (sys_order y))"
    by (rule left_pending_filter [OF pending_okD(1) [OF p], of _ "\<lambda>j. j \<noteq> i"])
      (simp add: e(2) release_pending)
  moreover have "replies ((sys_tickets y)[i := t]) = replies (sys_tickets y)"
    using replies_update [OF assms(2), of t] e(1) by simp
  moreover have "bt_ok (os_pending_reply s)"
    using bt_filter_ok [OF pending_okD(1) [OF p]] by (simp add: e(2) release_pending)
  moreover have "\<forall>(j, q) \<in> set (os_pending_reply s). j < length (sys_tickets y) \<and>
      os_cancel_below s \<le> j \<and> \<not> tk_released ((sys_tickets y)[i := t] ! j) \<and>
      tk_reply_id ((sys_tickets y)[i := t] ! j) = Some q"
    using pending_okD(2) [OF p] by (auto simp: e(2) release_pending)
  ultimately show ?thesis using assms(4) by (simp add: send_rel_def pending_ok_def Let_def)
qed

lemma claim_step:
  assumes "send_inv y" and "order_claim i (sys_order y) = (b, s)"
  shows "send_inv (y\<lparr>sys_order := s\<rparr>) \<and> send_rel y ops (left_pending InQueue (sys_order y) s) (y\<lparr>sys_order := s\<rparr>)"
proof -
  have t: "turns_ok y" and p: "pending_ok y" using assms(1) by (simp_all add: send_inv_def)
  obtain Q where q: "os_pending_reply s = filter (\<lambda>(j, _). Q j) (os_pending_reply (sys_order y))"
      "s = sys_order y\<lparr>os_pending_reply := os_pending_reply s\<rparr>"
  proof (cases "i < os_cancel_below (sys_order y)")
    case True
    then show ?thesis using that [of "\<lambda>_. True"] assms(2) by (simp add: order_claim_def)
  next
    case False
    then show ?thesis using that [of "\<lambda>j. j \<noteq> i"] assms(2) by (auto simp: order_claim_def bt_remove_def)
  qed
  have "pending_ok (y\<lparr>sys_order := s\<rparr>)"
    using pending_okD [OF p] bt_filter_ok [OF pending_okD(1) [OF p]]
    by (subst q(2)) (auto simp: pending_ok_def q(1) Let_def)
  moreover have "turns_ok (y\<lparr>sys_order := s\<rparr>)" using t by (subst q(2)) simp
  moreover have "send_rel y ops (left_pending InQueue (sys_order y) s) (y\<lparr>sys_order := s\<rparr>)"
    using left_pending_filter [OF pending_okD(1) [OF p] q(1)] by (simp add: send_rel_def)
  ultimately show ?thesis by (simp add: send_inv_def)
qed

lemma cut_step:
  assumes "send_inv y" and "order_cut (sys_order y) = (c, s)"
  shows "send_inv (y\<lparr>sys_order := s\<rparr>) \<and> send_rel y ops (left_pending Flushed (sys_order y) s) (y\<lparr>sys_order := s\<rparr>)"
proof -
  have t: "turns_ok y" and p: "pending_ok y" using assms(1) by (simp_all add: send_inv_def)
  have s: "s = \<lparr>os_next_ticket = length (sys_tickets y), os_next_turn = length (sys_tickets y),
      os_released_ahead = [], os_cancel_below = length (sys_tickets y), os_pending_reply = []\<rparr>"
    using cut_result [OF t p] assms(2) by simp
  have "turns_ok (y\<lparr>sys_order := s\<rparr>)"
    using turns_okD(2) [OF t] by (auto simp: s turns_ok_def is_over_def Let_def)
  moreover have "send_rel y ops (left_pending Flushed (sys_order y) s) (y\<lparr>sys_order := s\<rparr>)"
    using left_pending_filter [OF pending_okD(1) [OF p], of s "\<lambda>_. False" Flushed]
    by (simp add: send_rel_def s case_prod_beta)
  moreover have "pending_ok (y\<lparr>sys_order := s\<rparr>)" by (simp add: s pending_ok_def)
  ultimately show ?thesis by (simp add: send_inv_def)
qed

lemma send_step_rel:
  assumes "send_inv y" and "send_step y op = Some (y', outs)"
  shows "send_inv y' \<and> send_rel y [op] outs y'"
proof (cases op)
  case (SReserve r)
  obtain t s where r: "reserve_with_reply r (sys_order y) = (t, s)" by (cases "reserve_with_reply r (sys_order y)")
  then have "y' = y\<lparr>sys_order := s, sys_tickets := sys_tickets y @ [t]\<rparr>" "outs = []"
    using assms(2) SReserve by simp_all
  then show ?thesis using reserve_step [OF assms(1) r] reserve_turns [OF _ r] assms(1)
    by (simp add: send_inv_def)
next
  case (SRelease i)
  show ?thesis
  proof (cases "i < length (sys_tickets y)")
    case True
    obtain t s where r: "ticket_release (sys_tickets y ! i) (sys_order y) = (t, s)"
      by (cases "ticket_release (sys_tickets y ! i) (sys_order y)")
    then have "y' = y\<lparr>sys_order := s, sys_tickets := (sys_tickets y)[i := t]\<rparr>"
        "outs = left_pending GaveUp (sys_order y) s"
      using assms(2) SRelease True by simp_all
    then show ?thesis using release_step [OF assms(1) True r] release_turns [OF _ True r] assms(1)
      by (simp add: send_inv_def)
  next
    case False
    then show ?thesis using assms SRelease by (auto simp: send_rel_def ended_def)
  qed
next
  case SCut
  then show ?thesis using assms cut_step [OF assms(1)] by (auto split: prod.splits)
next
  case (SClaim i)
  then show ?thesis using assms claim_step [OF assms(1)] by (auto split: prod.splits)
qed

interpretation send: traced_component send_step send_inv send_rel
proof
  fix s op assume i: "send_inv s"
  have "send_step s op \<noteq> None" by (cases op) (auto split: prod.splits)
  then show "\<exists>s' out. send_step s op = Some (s', out) \<and> send_inv s'"
    using send_step_rel [OF i] by fastforce
next
  fix s show "send_rel s [] [] s" by (simp add: send_rel_def ended_def)
next
  fix s op s' out assume "send_inv s" "send_step s op = Some (s', out)"
  then show "send_rel s [op] out s'" using send_step_rel by blast
next
  fix s xs o1 s1 ys o2 s2
  assume a: "send_rel s xs o1 s1" and b: "send_rel s1 ys o2 s2"
  let ?E = "\<lambda>x. mset (ended x)" and ?P = "\<lambda>x. mset (os_pending_reply (sys_order x))"
    and ?R = "\<lambda>x. mset (replies (sys_tickets x))"
  have "(?E (o1 @ o2) + ?P s2 + ?R s) + (?P s1 + ?R s1) = (?E o1 + ?P s1 + ?R s) + (?E o2 + ?P s2 + ?R s1)"
    by (simp add: ended_def)
  also have "\<dots> = (?P s + ?R s1) + (?P s1 + ?R s2)" using a b by (simp only: send_rel_def)
  also have "\<dots> = (?P s + ?R s2) + (?P s1 + ?R s1)" by simp
  finally show "send_rel s (xs @ ys) (o1 @ o2) s2" unfolding send_rel_def by (simp only: add_right_cancel)
qed

lemma system_new_inv: "send_inv system_new"
  by (simp add: send_inv_def turns_ok_def pending_ok_def system_new_def order_new_def is_over_def)

section \<open>Properties\<close>

text \<open>
  C35: the sequencer serves tickets in call order and never blocks one.  In every reachable state a
  ticket gets its turn exactly when it is not cancelled, still holds its turn, and every lower
  ticket has reached the queue, given up or been cancelled; a cancelled ticket is told so at once.
\<close>

theorem send_turn_order:
  assumes "run_ops send_step system_new ops = Some (y, outs)" and "i < length (sys_tickets y)"
  shows "wait_turn i (sys_order y) =
    (if i < os_cancel_below (sys_order y) then TicketCancelled
     else if (\<forall>j < i. is_over y j) \<and> \<not> tk_released (sys_tickets y ! i) then MyTurn
     else KeepWaiting)"
proof -
  have t: "turns_ok y" using send.run_inv [OF system_new_inv assms(1)] by (simp add: send_inv_def)
  note d = turns_okD [OF t]
  have "os_next_turn (sys_order y) = i \<longleftrightarrow> (\<forall>j < i. is_over y j) \<and> \<not> tk_released (sys_tickets y ! i)"
    if "\<not> i < os_cancel_below (sys_order y)"
  proof
    assume "os_next_turn (sys_order y) = i"
    then show "(\<forall>j < i. is_over y j) \<and> \<not> tk_released (sys_tickets y ! i)"
      using d(5,6) assms(2) by (auto simp: is_over_iff)
  next
    assume r: "(\<forall>j < i. is_over y j) \<and> \<not> tk_released (sys_tickets y ! i)"
    then have "\<not> is_over y i" using that by (simp add: is_over_iff)
    then have "\<not> i < os_next_turn (sys_order y)" using d(5) by blast
    moreover have "\<not> os_next_turn (sys_order y) < i" using d(6) r by blast
    ultimately show "os_next_turn (sys_order y) = i" by simp
  qed
  then show ?thesis by (simp add: wait_turn_def)
qed

text \<open>
  every reply id handed to the agent is ended by exactly one party.  In any run the replies that
  reached the queue, were flushed by a cut or were given up, together with those still pending, are
  exactly the replies of the tickets reserved, each once.
\<close>

theorem send_replies_end_once:
  assumes "run_ops send_step system_new ops = Some (y, outs)"
  shows "mset (map (\<lambda>(i, r, _). (i, r)) outs) + mset (os_pending_reply (sys_order y)) =
      mset (replies (sys_tickets y)) \<and>
    distinct (map fst outs @ map fst (os_pending_reply (sys_order y)))"
proof -
  have "send_rel system_new ops outs y" by (rule send.run_rel [OF system_new_inv assms])
  then have m: "mset (ended outs) + mset (os_pending_reply (sys_order y)) = mset (replies (sys_tickets y))"
    by (simp add: send_rel_def system_new_def order_new_def replies_def)
  have d: "distinct (map fst (replies ts))" for ts
  proof (induction ts rule: rev_induct)
    case (snoc t ts)
    have "\<forall>x \<in> set (replies ts). fst x < length ts" by (auto simp: replies_def split: option.splits)
    then show ?case using snoc by (fastforce simp: replies_snoc split: option.split)
  qed (simp add: replies_def)
  have "mset (map fst (ended outs @ os_pending_reply (sys_order y))) = mset (map fst (replies (sys_tickets y)))"
    using m by (metis mset_append mset_map)
  then have "distinct (map fst (ended outs @ os_pending_reply (sys_order y)))"
    using d mset_eq_imp_distinct_iff by blast
  moreover have "map fst (ended outs @ os_pending_reply (sys_order y)) =
      map fst outs @ map fst (os_pending_reply (sys_order y))"
    by (auto simp: ended_def)
  ultimately have "distinct (map fst outs @ map fst (os_pending_reply (sys_order y)))" by (simp only:)
  then show ?thesis using m unfolding ended_def by blast
qed

definition demo_send :: "send_op list" where
  "demo_send = [SReserve (Some [65]), SReserve (Some [66]), SReserve (Some [67]), SRelease 1, SClaim 0,
     SRelease 0, SCut, SReserve (Some [68]), SClaim 2]"

lemma demo_send_run:
  "\<exists>y. run_ops send_step system_new demo_send =
     Some (y, [(1, [66], GaveUp), (0, [65], InQueue), (2, [67], Flushed)]) \<and>
     length (sys_tickets y) = 4 \<and> os_cancel_below (sys_order y) = 3 \<and> os_pending_reply (sys_order y) = [(3, [68])]"
proof -
  have "map_option (\<lambda>(y, outs). (outs, length (sys_tickets y), os_cancel_below (sys_order y),
      os_pending_reply (sys_order y))) (run_ops send_step system_new demo_send) =
    Some ([(1, [66], GaveUp), (0, [65], InQueue), (2, [67], Flushed)], 4, 3, [(3, [68])])"
    by code_simp
  then show ?thesis by auto
qed

theorem send_turn_order_witness:
  "\<exists>y outs. run_ops send_step system_new demo_send = Some (y, outs) \<and>
     wait_turn 2 (sys_order y) = TicketCancelled"
proof -
  obtain y outs where y: "run_ops send_step system_new demo_send = Some (y, outs)"
      "length (sys_tickets y) = 4" "os_cancel_below (sys_order y) = 3"
    using demo_send_run by blast
  then show ?thesis using send_turn_order [OF y(1), of 2] by auto
qed

theorem send_replies_end_once_witness:
  "\<exists>y outs. run_ops send_step system_new demo_send = Some (y, outs) \<and> length outs = 3 \<and>
     distinct (map fst outs @ map fst (os_pending_reply (sys_order y)))"
proof -
  obtain y where y: "run_ops send_step system_new demo_send =
      Some (y, [(1, [66], GaveUp), (0, [65], InQueue), (2, [67], Flushed)])"
    using demo_send_run by blast
  show ?thesis
    by (intro exI conjI, rule y, simp, rule conjunct2 [OF send_replies_end_once [OF y]])
qed

end
