(* ===== verification/Tts_Buffer.thy ===== *)
theory Tts_Buffer
  imports Pipeline
begin

text \<open>
  \<open>crates/speech/src/tts_buffer.rs\<close>: the outbound TTS queue with its reply ledger.  Every method
  holds the lock for its whole body; the \<open>held\<close> flag of \<open>TtsDrainHold\<close> is a field here.
\<close>

section \<open>State and operations\<close>

definition PCM_BYTES_PER_MS :: nat where "PCM_BYTES_PER_MS = 192"

record reply_ledger_entry =
  rl_reply_id :: ustring
  rl_queued_bytes :: nat
  rl_played_bytes :: nat
  rl_started :: bool
  rl_complete :: bool
  rl_first_chunk_ms :: "nat option"

datatype reply_transition =
    Started ustring "nat option"
  | Ended ustring nat nat

record flushed_reply =
  fl_id :: ustring
  fl_played_ms :: nat
  fl_synthesized_ms :: nat
  fl_synthesis_complete :: bool

definition played_ms :: "nat \<Rightarrow> nat" where
  "played_ms played_bytes =
     (if played_bytes div PCM_BYTES_PER_MS \<le> u32_max then played_bytes div PCM_BYTES_PER_MS else u32_max)"

record tts_buffer =
  tb_queue :: "tts_audio_chunk list"
  tb_speaking :: bool
  tb_producing :: bool
  tb_frame_carry :: bytes
  tb_flushed_generation :: "64 word"
  tb_generation :: "64 word"
  tb_reply_ledger :: "reply_ledger_entry list"
  tb_flushed_replies :: "flushed_reply list"
  tb_held :: bool

definition tts_buffer_new :: tts_buffer where
  "tts_buffer_new = \<lparr>tb_queue = [], tb_speaking = False, tb_producing = False, tb_frame_carry = [],
     tb_flushed_generation = 0, tb_generation = 0, tb_reply_ledger = [], tb_flushed_replies = [],
     tb_held = False\<rparr>"

definition book_bytes :: "ustring \<Rightarrow> nat option \<Rightarrow> nat \<Rightarrow> reply_ledger_entry list \<Rightarrow> reply_ledger_entry list" where
  "book_bytes i first_chunk_ms n ledger =
     (let fresh = ledger @ [\<lparr>rl_reply_id = i, rl_queued_bytes = n, rl_played_bytes = 0, rl_started = False,
            rl_complete = False, rl_first_chunk_ms = first_chunk_ms\<rparr>]
      in if ledger = [] then fresh
         else
           (let tail = last ledger
            in if \<not> rl_complete tail \<and> rl_reply_id tail = i
               then butlast ledger @ [tail\<lparr>rl_queued_bytes := rl_queued_bytes tail + n\<rparr>]
               else fresh))"

definition enqueue_tagged_if_generation ::
  "tts_audio_chunk list \<Rightarrow> 64 word option \<Rightarrow> (ustring \<times> nat option) option \<Rightarrow> tts_buffer \<Rightarrow> bool \<times> tts_buffer" where
  "enqueue_tagged_if_generation chunks expect_generation reply b =
     (if chunks = [] then (False, b)
      else if (case expect_generation of Some expected \<Rightarrow> tb_generation b \<noteq> expected | None \<Rightarrow> False) then (False, b)
      else
        (let b = b\<lparr>tb_speaking := True\<rparr>;
             n = (\<Sum>c \<leftarrow> chunks. length (pcm c));
             b = (case reply of
                    None \<Rightarrow> b
                  | Some (i, first_chunk_ms) \<Rightarrow>
                      if 0 < n then b\<lparr>tb_reply_ledger := book_bytes i first_chunk_ms n (tb_reply_ledger b)\<rparr> else b)
         in (True, b\<lparr>tb_queue := tb_queue b @ chunks\<rparr>)))"

definition tts_enqueue :: "tts_audio_chunk list \<Rightarrow> tts_buffer \<Rightarrow> tts_buffer" where
  "tts_enqueue chunks b = snd (enqueue_tagged_if_generation chunks None None b)"

definition enqueue_if_generation ::
  "tts_audio_chunk list \<Rightarrow> 64 word option \<Rightarrow> tts_buffer \<Rightarrow> bool \<times> tts_buffer" where
  "enqueue_if_generation chunks g b = enqueue_tagged_if_generation chunks g None b"

definition enqueue_tagged ::
  "tts_audio_chunk list \<Rightarrow> (ustring \<times> nat option) option \<Rightarrow> tts_buffer \<Rightarrow> tts_buffer" where
  "enqueue_tagged chunks reply b = snd (enqueue_tagged_if_generation chunks None reply b)"

text \<open>\<open>iter_mut().rev().find(..)\<close>: the last entry with the id.\<close>

fun complete_first :: "ustring \<Rightarrow> reply_ledger_entry list \<Rightarrow> reply_ledger_entry list" where
  "complete_first i [] = []"
| "complete_first i (e # es) =
     (if rl_reply_id e = i then e\<lparr>rl_complete := True\<rparr> # es else e # complete_first i es)"

definition mark_reply_complete :: "ustring \<Rightarrow> tts_buffer \<Rightarrow> tts_buffer" where
  "mark_reply_complete i b = b\<lparr>tb_reply_ledger := rev (complete_first i (rev (tb_reply_ledger b)))\<rparr>"

text \<open>\<open>None\<close> is the underflow panic of \<open>queued_bytes - played_bytes\<close>.\<close>

fun consume_ledger :: "nat \<Rightarrow> reply_ledger_entry list \<Rightarrow>
    (reply_transition list \<times> reply_ledger_entry list) option" where
  "consume_ledger remaining [] = Some ([], [])"
| "consume_ledger remaining (head # rest) =
     (if rl_queued_bytes head < rl_played_bytes head then None
      else
        (let n = min remaining (rl_queued_bytes head - rl_played_bytes head);
             started = (if 0 < n \<and> \<not> rl_started head
                        then [Started (rl_reply_id head) (rl_first_chunk_ms head)] else []);
             head = (if 0 < n then head\<lparr>rl_started := True, rl_played_bytes := rl_played_bytes head + n\<rparr> else head)
         in if rl_complete head \<and> rl_started head \<and> rl_queued_bytes head \<le> rl_played_bytes head then
              map_option (\<lambda>(out, ledger).
                  (started @ [Ended (rl_reply_id head) (played_ms (rl_played_bytes head))
                                (played_ms (rl_queued_bytes head))] @ out, ledger))
                (consume_ledger (remaining - n) rest)
            else Some (started, head # rest)))"

definition consume_played :: "nat \<Rightarrow> tts_buffer \<Rightarrow> (reply_transition list \<times> tts_buffer) option" where
  "consume_played n b =
     map_option (\<lambda>(out, ledger). (out, b\<lparr>tb_reply_ledger := ledger\<rparr>)) (consume_ledger n (tb_reply_ledger b))"

definition take_flushed_replies :: "tts_buffer \<Rightarrow> flushed_reply list \<times> tts_buffer" where
  "take_flushed_replies b = (tb_flushed_replies b, b\<lparr>tb_flushed_replies := []\<rparr>)"

definition set_producing :: "bool \<Rightarrow> tts_buffer \<Rightarrow> tts_buffer" where
  "set_producing producing b =
     (let b = b\<lparr>tb_producing := producing\<rparr>
      in if producing then b\<lparr>tb_speaking := True\<rparr>
         else if tb_queue b = [] then b\<lparr>tb_speaking := False\<rparr>
         else b)"

definition is_producing :: "tts_buffer \<Rightarrow> bool" where
  "is_producing b = tb_producing b"

definition flushed_of :: "reply_ledger_entry \<Rightarrow> flushed_reply" where
  "flushed_of e = \<lparr>fl_id = rl_reply_id e, fl_played_ms = played_ms (rl_played_bytes e),
     fl_synthesized_ms = played_ms (rl_queued_bytes e), fl_synthesis_complete = rl_complete e\<rparr>"

definition tts_flush :: "tts_buffer \<Rightarrow> 64 word \<times> tts_buffer" where
  "tts_flush b =
     (let b = b\<lparr>tb_queue := [], tb_frame_carry := [],
               tb_flushed_replies := tb_flushed_replies b @ map flushed_of (tb_reply_ledger b),
               tb_reply_ledger := [], tb_speaking := False, tb_producing := False, tb_held := False,
               tb_generation := tb_generation b + 1\<rparr>;
          b = b\<lparr>tb_flushed_generation := tb_generation b\<rparr>
      in (tb_generation b, b))"

text \<open>
  \<open>flush_with_reply_events\<close>: the generation and, per dropped reply, the arguments of its
  \<open>agent_reply_end\<close> event (id, played, interrupted, synthesized, complete).
\<close>

definition flush_with_reply_events ::
  "tts_buffer \<Rightarrow> (64 word \<times> (ustring \<times> nat \<times> bool \<times> nat \<times> bool) list) \<times> tts_buffer" where
  "flush_with_reply_events b =
     (let (generation, b) = tts_flush b; (replies, b) = take_flushed_replies b
      in ((generation, map (\<lambda>r. (fl_id r, fl_played_ms r, True, fl_synthesized_ms r, fl_synthesis_complete r)) replies), b))"

definition take_frame_carry :: "tts_buffer \<Rightarrow> bytes \<times> tts_buffer" where
  "take_frame_carry b = (tb_frame_carry b, b\<lparr>tb_frame_carry := []\<rparr>)"

definition store_frame_carry :: "bytes \<Rightarrow> tts_buffer \<Rightarrow> tts_buffer" where
  "store_frame_carry carry b = b\<lparr>tb_frame_carry := carry\<rparr>"

definition pop_chunk_marking :: "bool \<Rightarrow> tts_buffer \<Rightarrow> tts_audio_chunk option \<times> tts_buffer" where
  "pop_chunk_marking hold b =
     (let (chunk, b) = (case tb_queue b of [] \<Rightarrow> (None, b) | c # q \<Rightarrow> (Some c, b\<lparr>tb_queue := q\<rparr>));
          b = (if chunk = None \<and> \<not> tb_producing b then b\<lparr>tb_speaking := False\<rparr> else b);
          b = (if hold \<and> chunk \<noteq> None then b\<lparr>tb_held := True\<rparr> else b)
      in (chunk, b))"

definition drop_hold :: "tts_buffer \<Rightarrow> tts_buffer" where
  "drop_hold b = b\<lparr>tb_held := False\<rparr>"

definition tts_is_speaking :: "tts_buffer \<Rightarrow> bool" where
  "tts_is_speaking b \<longleftrightarrow> tb_speaking b \<or> tb_producing b \<or> tb_held b"

definition pending_count :: "tts_buffer \<Rightarrow> nat" where
  "pending_count b = length (tb_queue b)"

definition current_generation :: "tts_buffer \<Rightarrow> 64 word" where
  "current_generation b = tb_generation b"

definition push_raw_pcm :: "bytes \<Rightarrow> nat \<Rightarrow> tts_buffer \<Rightarrow> tts_buffer" where
  "push_raw_pcm data dur b = tts_enqueue [\<lparr>pcm = data, duration_ms = dur\<rparr>] b"

section \<open>Runs\<close>

text \<open>
  What a run shows of the replies: an entry is opened by an enqueue, and closed by an \<open>Ended\<close>
  transition or by a flush.  \<open>Popped\<close> is the audio handed to the drain worker.
\<close>

datatype buffer_event =
    Opened ustring
  | Transition reply_transition
  | Dropped flushed_reply
  | Popped tts_audio_chunk

datatype buffer_op =
    BEnqueue "tts_audio_chunk list" "64 word option" "(ustring \<times> nat option) option"
  | BComplete ustring
  | BConsume nat
  | BProducing bool
  | BFlush
  | BTakeFlushed
  | BPop bool
  | BDropHold
  | BStoreCarry bytes

definition opened_ids :: "tts_buffer \<Rightarrow> tts_buffer \<Rightarrow> buffer_event list" where
  "opened_ids b b' = map (\<lambda>e. Opened (rl_reply_id e)) (drop (length (tb_reply_ledger b)) (tb_reply_ledger b'))"

fun buffer_step :: "tts_buffer \<Rightarrow> buffer_op \<Rightarrow> (tts_buffer \<times> buffer_event list) option" where
  "buffer_step b (BEnqueue cs g r) =
     (let b' = snd (enqueue_tagged_if_generation cs g r b) in Some (b', opened_ids b b'))"
| "buffer_step b (BComplete i) = Some (mark_reply_complete i b, [])"
| "buffer_step b (BConsume n) = map_option (\<lambda>(out, b'). (b', map Transition out)) (consume_played n b)"
| "buffer_step b (BProducing p) = Some (set_producing p b, [])"
| "buffer_step b BFlush =
     (let b' = snd (tts_flush b)
      in Some (b', map Dropped (drop (length (tb_flushed_replies b)) (tb_flushed_replies b'))))"
| "buffer_step b BTakeFlushed = Some (snd (take_flushed_replies b), [])"
| "buffer_step b (BPop hold) =
     (let (c, b') = pop_chunk_marking hold b
      in Some (b', case c of None \<Rightarrow> [] | Some c \<Rightarrow> [Popped c]))"
| "buffer_step b BDropHold = Some (drop_hold b, [])"
| "buffer_step b (BStoreCarry c) = Some (store_frame_carry c b, [])"

section \<open>Invariant\<close>

definition ids :: "reply_ledger_entry list \<Rightarrow> ustring list" where
  "ids ledger = map rl_reply_id ledger"

fun opened :: "buffer_event list \<Rightarrow> ustring list" where
  "opened [] = []"
| "opened (Opened i # es) = i # opened es"
| "opened (_ # es) = opened es"

fun closed :: "buffer_event list \<Rightarrow> ustring list" where
  "closed [] = []"
| "closed (Transition (Ended i p s) # es) = i # closed es"
| "closed (Dropped r # es) = fl_id r # closed es"
| "closed (_ # es) = closed es"

definition fully_played :: "buffer_event list \<Rightarrow> bool" where
  "fully_played es \<longleftrightarrow> (\<forall>i p s. Transition (Ended i p s) \<in> set es \<longrightarrow> p = s)"

lemma opened_append [simp]: "opened (xs @ ys) = opened xs @ opened ys"
  by (induction xs rule: opened.induct) simp_all

lemma closed_append [simp]: "closed (xs @ ys) = closed xs @ closed ys"
  by (induction xs rule: closed.induct) simp_all

lemma opened_Opened [simp]: "opened (map (\<lambda>e. Opened (f e)) es) = map f es"
  by (induction es) simp_all

lemma closed_Opened [simp]: "closed (map (\<lambda>e. Opened (f e)) es) = []"
  by (induction es) simp_all

lemma opened_Transition [simp]: "opened (map Transition ts) = []"
  by (induction ts) simp_all

lemma opened_Dropped [simp]: "opened (map Dropped rs) = []"
  by (induction rs) simp_all

lemma closed_Dropped [simp]: "closed (map Dropped rs) = map fl_id rs"
  by (induction rs) simp_all

lemma fully_played_append [simp]: "fully_played (xs @ ys) \<longleftrightarrow> fully_played xs \<and> fully_played ys"
  by (auto simp: fully_played_def)

lemma fully_played_Ended [simp]:
  "fully_played (Transition (Ended i p s) # es) \<longleftrightarrow> p = s \<and> fully_played es"
  by (auto simp: fully_played_def)

definition entry_ok :: "reply_ledger_entry \<Rightarrow> bool" where
  "entry_ok e \<longleftrightarrow> rl_played_bytes e \<le> rl_queued_bytes e"

definition buffer_inv :: "tts_buffer \<Rightarrow> bool" where
  "buffer_inv b \<longleftrightarrow> (\<forall>e \<in> set (tb_reply_ledger b). entry_ok e) \<and> (tb_queue b \<noteq> [] \<longrightarrow> tb_speaking b)"

definition buffer_rel :: "tts_buffer \<Rightarrow> buffer_op list \<Rightarrow> buffer_event list \<Rightarrow> tts_buffer \<Rightarrow> bool" where
  "buffer_rel b ops outs b' \<longleftrightarrow>
     ids (tb_reply_ledger b) @ opened outs = closed outs @ ids (tb_reply_ledger b') \<and> fully_played outs"

lemma book_bytes_result:
  "\<exists>new. ids (book_bytes i f n ledger) = ids ledger @ new \<and>
     map rl_reply_id (drop (length ledger) (book_bytes i f n ledger)) = new \<and>
     ((\<forall>e \<in> set ledger. entry_ok e) \<longrightarrow> (\<forall>e \<in> set (book_bytes i f n ledger). entry_ok e))"
proof (cases ledger rule: rev_cases)
  case Nil
  then show ?thesis by (simp add: book_bytes_def ids_def entry_ok_def)
next
  case (snoc es e)
  then show ?thesis by (auto simp: book_bytes_def ids_def entry_ok_def Let_def)
qed

lemma complete_first_ids [simp]:
  "map rl_reply_id (complete_first i es) = map rl_reply_id es"
  by (induction i es rule: complete_first.induct) simp_all

lemma complete_first_ok:
  "\<forall>e \<in> set es. entry_ok e \<Longrightarrow> \<forall>e \<in> set (complete_first i es). entry_ok e"
  by (induction i es rule: complete_first.induct) (auto simp: entry_ok_def)

lemma consume_result:
  assumes "\<forall>e \<in> set ledger. entry_ok e"
  obtains out ledger' where "consume_ledger n ledger = Some (out, ledger')"
    and "ids ledger = closed (map Transition out) @ ids ledger'"
    and "\<forall>e \<in> set ledger'. entry_ok e" and "fully_played (map Transition out)"
proof -
  have "\<exists>out ledger'. consume_ledger n ledger = Some (out, ledger') \<and>
      ids ledger = closed (map Transition out) @ ids ledger' \<and> (\<forall>e \<in> set ledger'. entry_ok e) \<and>
      fully_played (map Transition out)"
    using assms
  proof (induction n ledger rule: consume_ledger.induct)
    case (1 n)
    then show ?case by (simp add: ids_def fully_played_def)
  next
    case (2 n e es)
    define k where "k = min n (rl_queued_bytes e - rl_played_bytes e)"
    define s where "s = (if 0 < k \<and> \<not> rl_started e then [Started (rl_reply_id e) (rl_first_chunk_ms e)] else [])"
    define e' where "e' = (if 0 < k then e\<lparr>rl_started := True, rl_played_bytes := rl_played_bytes e + k\<rparr> else e)"
    have ok: "rl_played_bytes e \<le> rl_queued_bytes e" "entry_ok e'" "rl_reply_id e' = rl_reply_id e"
      using 2(2) by (auto simp: entry_ok_def e'_def k_def)
    have nl: "(rl_queued_bytes e < rl_played_bytes e) = False" using ok(1) by simp
    have s: "closed (map Transition s) = []" "fully_played (map Transition s)"
      by (auto simp: s_def fully_played_def)
    have c: "consume_ledger n (e # es) =
        (if rl_complete e' \<and> rl_started e' \<and> rl_queued_bytes e' \<le> rl_played_bytes e' then
           map_option (\<lambda>(out, ledger). (s @ [Ended (rl_reply_id e') (played_ms (rl_played_bytes e'))
              (played_ms (rl_queued_bytes e'))] @ out, ledger)) (consume_ledger (n - k) es)
         else Some (s, e' # es))"
      by (subst consume_ledger.simps(2))
        (simp only: nl if_False Let_def k_def [symmetric] s_def [symmetric] e'_def [symmetric])
    show ?case
    proof (cases "rl_complete e' \<and> rl_started e' \<and> rl_queued_bytes e' \<le> rl_played_bytes e'")
      case False
      then have "consume_ledger n (e # es) = Some (s, e' # es)" using c by auto
      then show ?thesis using ok s 2(2) by (simp add: ids_def del: consume_ledger.simps)
    next
      case True
      obtain out ledger' where r: "consume_ledger (n - k) es = Some (out, ledger')"
          "ids es = closed (map Transition out) @ ids ledger'" "\<forall>e \<in> set ledger'. entry_ok e"
          "fully_played (map Transition out)"
        using 2(1) [OF _ k_def s_def e'_def True] ok(1) 2(2) by auto
      have eq: "rl_queued_bytes e' = rl_played_bytes e'" using True ok(2) by (simp add: entry_ok_def)
      have "consume_ledger n (e # es) = Some (s @ [Ended (rl_reply_id e') (played_ms (rl_played_bytes e'))
          (played_ms (rl_queued_bytes e'))] @ out, ledger')"
        using c True r(1) by simp
      then show ?thesis using r ok s eq by (simp add: ids_def del: consume_ledger.simps)
    qed
  qed
  then show ?thesis using that by blast
qed

lemma enqueue_result:
  obtains (same) "snd (enqueue_tagged_if_generation cs g r b) = b"
  | (plain) "snd (enqueue_tagged_if_generation cs g r b) = b\<lparr>tb_speaking := True, tb_queue := tb_queue b @ cs\<rparr>"
  | (tagged) i f n where "snd (enqueue_tagged_if_generation cs g r b) =
      b\<lparr>tb_speaking := True, tb_reply_ledger := book_bytes i f n (tb_reply_ledger b), tb_queue := tb_queue b @ cs\<rparr>"
proof (cases "cs = [] \<or> (case g of Some x \<Rightarrow> tb_generation b \<noteq> x | None \<Rightarrow> False)")
  case True
  then show ?thesis using same by (auto simp: enqueue_tagged_if_generation_def)
next
  case False
  show ?thesis
  proof (cases "r = None \<or> (\<Sum>c \<leftarrow> cs. length (pcm c)) = 0")
    case True
    then show ?thesis using False plain
      by (cases r) (auto simp: enqueue_tagged_if_generation_def Let_def simp del: sum_list_eq_0_iff)
  next
    case nz: False
    then obtain i f where "r = Some (i, f)" by auto
    then show ?thesis using False nz tagged [of i f "\<Sum>c \<leftarrow> cs. length (pcm c)"]
      by (simp add: enqueue_tagged_if_generation_def Let_def del: sum_list_eq_0_iff)
  qed
qed

lemma enqueue_rel:
  assumes "buffer_inv b" and "buffer_step b (BEnqueue cs g r) = Some (b', outs)"
  shows "buffer_inv b' \<and> buffer_rel b ops outs b'"
proof -
  have e: "b' = snd (enqueue_tagged_if_generation cs g r b)" "outs = opened_ids b b'"
    using assms(2) by (auto simp: Let_def)
  have "buffer_inv b' \<and> ids (tb_reply_ledger b') = ids (tb_reply_ledger b) @ opened outs \<and>
      closed outs = [] \<and> fully_played outs"
  proof (rule enqueue_result [of cs g r b], goal_cases)
    case (3 i f n)
    then show ?case using assms(1) book_bytes_result [of i f n "tb_reply_ledger b"]
      by (auto simp: e opened_ids_def buffer_inv_def fully_played_def)
  qed (use assms(1) in \<open>auto simp: e opened_ids_def buffer_inv_def fully_played_def\<close>)
  then show ?thesis by (simp add: buffer_rel_def)
qed

lemma flushed_ids: "map fl_id (map flushed_of es) = map rl_reply_id es"
  by (simp add: flushed_of_def comp_def)

lemma buffer_step_rel:
  assumes "buffer_inv b"
  shows "\<exists>b' outs. buffer_step b op = Some (b', outs) \<and> buffer_inv b' \<and> buffer_rel b [op] outs b'"
proof (cases op)
  case (BEnqueue cs g r)
  obtain b' outs where "buffer_step b op = Some (b', outs)" using BEnqueue by (simp add: Let_def)
  then show ?thesis using enqueue_rel [OF assms, of cs g r b' outs] BEnqueue by auto
next
  case (BComplete i)
  then show ?thesis using assms complete_first_ok [of "rev (tb_reply_ledger b)" i]
    by (simp add: mark_reply_complete_def buffer_inv_def buffer_rel_def ids_def fully_played_def rev_map [symmetric])
next
  case (BConsume n)
  obtain out ledger' where "consume_ledger n (tb_reply_ledger b) = Some (out, ledger')"
      "ids (tb_reply_ledger b) = closed (map Transition out) @ ids ledger'"
      "\<forall>e \<in> set ledger'. entry_ok e" "fully_played (map Transition out)"
    using consume_result assms unfolding buffer_inv_def by blast
  then show ?thesis using BConsume assms
    by (simp add: consume_played_def buffer_inv_def buffer_rel_def)
next
  case (BProducing p)
  then show ?thesis using assms
    by (auto simp: set_producing_def buffer_inv_def buffer_rel_def fully_played_def Let_def)
next
  case BFlush
  then show ?thesis using assms
    by (auto simp: tts_flush_def buffer_inv_def buffer_rel_def fully_played_def ids_def Let_def flushed_ids
        simp del: map_map)
next
  case BTakeFlushed
  then show ?thesis using assms
    by (simp add: take_flushed_replies_def buffer_inv_def buffer_rel_def fully_played_def)
next
  case (BPop hold)
  then show ?thesis using assms
    by (auto simp: pop_chunk_marking_def buffer_inv_def buffer_rel_def fully_played_def Let_def split: list.splits)
next
  case BDropHold
  then show ?thesis using assms by (simp add: drop_hold_def buffer_inv_def buffer_rel_def fully_played_def)
next
  case (BStoreCarry c)
  then show ?thesis using assms by (simp add: store_frame_carry_def buffer_inv_def buffer_rel_def fully_played_def)
qed

interpretation ttsbuf: traced_component buffer_step buffer_inv buffer_rel
proof
  fix s op assume "buffer_inv s"
  then show "\<exists>s' out. buffer_step s op = Some (s', out) \<and> buffer_inv s'" using buffer_step_rel by blast
next
  fix s show "buffer_rel s [] [] s" by (simp add: buffer_rel_def fully_played_def)
next
  fix s op s' out assume "buffer_inv s" "buffer_step s op = Some (s', out)"
  then show "buffer_rel s [op] out s'" using buffer_step_rel [of s op] by auto
next
  fix s xs o1 s1 ys o2 s2
  assume a: "buffer_rel s xs o1 s1" and b: "buffer_rel s1 ys o2 s2"
  have "(ids (tb_reply_ledger s) @ opened o1) @ opened o2 = (closed o1 @ ids (tb_reply_ledger s1)) @ opened o2"
    using a by (simp only: buffer_rel_def)
  also have "\<dots> = closed o1 @ closed o2 @ ids (tb_reply_ledger s2)" using b by (simp add: buffer_rel_def)
  finally show "buffer_rel s (xs @ ys) (o1 @ o2) s2" using a b by (simp add: buffer_rel_def)
qed

lemma buffer_new_inv: "buffer_inv tts_buffer_new"
  by (simp add: buffer_inv_def tts_buffer_new_def)

section \<open>Properties\<close>

text \<open>
  C36: every reply that entered the buffer leaves it exactly once, in the order the replies entered:
  ended by the track or dropped by a flush; the ones not yet closed are the ledger.  A reply ends
  only when all that was synthesized for it has been played, and no operation panics.
\<close>

theorem tts_replies_close_once:
  "\<exists>b outs. run_ops buffer_step tts_buffer_new ops = Some (b, outs) \<and>
     opened outs = closed outs @ ids (tb_reply_ledger b) \<and> fully_played outs"
proof -
  obtain b outs where r: "run_ops buffer_step tts_buffer_new ops = Some (b, outs)"
    using ttsbuf.run_ok [OF buffer_new_inv] by blast
  then have "buffer_rel tts_buffer_new ops outs b" by (rule ttsbuf.run_rel [OF buffer_new_inv])
  then show ?thesis using r by (simp add: buffer_rel_def tts_buffer_new_def ids_def)
qed

text \<open>
  idle means drained.  In every reachable state, when the buffer says it is not speaking, no PCM
  is queued, no synthesis is producing and no drain pass holds a popped chunk.
\<close>

theorem tts_idle_means_drained:
  assumes "run_ops buffer_step tts_buffer_new ops = Some (b, outs)" and "\<not> tts_is_speaking b"
  shows "pending_count b = 0 \<and> \<not> is_producing b \<and> \<not> tb_held b"
proof -
  have "buffer_inv b" by (rule ttsbuf.run_inv [OF buffer_new_inv assms(1)])
  then show ?thesis using assms(2)
    by (auto simp: buffer_inv_def tts_is_speaking_def pending_count_def is_producing_def)
qed

theorem tts_idle_means_drained_witness:
  "\<exists>b outs. run_ops buffer_step tts_buffer_new
      [BEnqueue [\<lparr>pcm = [1, 2], duration_ms = 1\<rparr>] None None, BPop True, BPop True, BDropHold] = Some (b, outs) \<and>
    \<not> tts_is_speaking b \<and> pending_count b = 0"
proof -
  let ?ops = "[BEnqueue [\<lparr>pcm = [1, 2], duration_ms = 1\<rparr>] None None, BPop True, BPop True, BDropHold]"
  have "map_option (tts_is_speaking \<circ> fst) (run_ops buffer_step tts_buffer_new ?ops) = Some False"
    by (simp add: enqueue_tagged_if_generation_def pop_chunk_marking_def drop_hold_def tts_is_speaking_def
        tts_buffer_new_def Let_def)
  then obtain b outs where b: "run_ops buffer_step tts_buffer_new ?ops = Some (b, outs)" "\<not> tts_is_speaking b"
    by auto
  then show ?thesis using tts_idle_means_drained [OF b] by blast
qed

text \<open>
  a flush silences the buffer at once and for good: nothing stays queued, the ledger is empty, it
  is not speaking, and a producer that still carries the old generation is refused without effect.
\<close>

theorem tts_flush_silences:
  "tb_queue (snd (tts_flush b)) = [] \<and> tb_reply_ledger (snd (tts_flush b)) = [] \<and>
   \<not> tts_is_speaking (snd (tts_flush b)) \<and>
   enqueue_tagged_if_generation cs (Some (current_generation b)) r (snd (tts_flush b)) =
     (False, snd (tts_flush b)) \<and>
   fst (tts_flush b) = current_generation (snd (tts_flush b))"
  by (simp add: tts_flush_def tts_is_speaking_def enqueue_tagged_if_generation_def current_generation_def Let_def)

end
