(* ===== verification/Tts_Slots.thy ===== *)
theory Tts_Slots
  imports Prelude
begin

text \<open>
  \<open>crates/vendor-sherpa-onnx/src/tts_slots.rs\<close>: the process-wide TTS synthesis slots with two
  priorities.  A waiter (a \<open>oneshot\<close> channel) is a number; \<open>closed\<close> are the waiters whose future was
  dropped.  Each critical section is one step, so that a receiver can be dropped between the moment
  it is picked under the lock and the moment its permit is sent.
\<close>

section \<open>State and operations\<close>

definition MAX_FIRST_IN_A_ROW :: nat where "MAX_FIRST_IN_A_ROW = 3"

datatype tts_priority = First | Continuation

instantiation tts_priority :: linorder
begin

definition less_eq_tts_priority :: "tts_priority \<Rightarrow> tts_priority \<Rightarrow> bool" where
  "less_eq_tts_priority a b \<longleftrightarrow> a = First \<or> b = Continuation"

definition less_tts_priority :: "tts_priority \<Rightarrow> tts_priority \<Rightarrow> bool" where
  "less_tts_priority a b \<longleftrightarrow> a = First \<and> b = Continuation"

instance
  by standard (auto simp: less_eq_tts_priority_def less_tts_priority_def intro: tts_priority.exhaust)

end

record slots_state =
  st_free :: nat
  st_first :: "nat list"
  st_continuation :: "nat list"
  st_first_streak :: nat

definition slots_new :: "nat \<Rightarrow> slots_state" where
  "slots_new slots = \<lparr>st_free = slots, st_first = [], st_continuation = [], st_first_streak = 0\<rparr>"

text \<open>\<open>while queue.front().is_some_and(is_closed) { queue.pop_front() }\<close> on both queues.\<close>

definition prune_closed_front :: "nat set \<Rightarrow> slots_state \<Rightarrow> slots_state" where
  "prune_closed_front closed s =
     s\<lparr>st_first := dropWhile (\<lambda>w. w \<in> closed) (st_first s),
       st_continuation := dropWhile (\<lambda>w. w \<in> closed) (st_continuation s)\<rparr>"

definition pick :: "nat set \<Rightarrow> slots_state \<Rightarrow> nat option \<times> slots_state" where
  "pick closed s =
     (let s = prune_closed_front closed s;
          continuation_waiting = (st_continuation s \<noteq> []);
          serve_continuation = (continuation_waiting \<and>
            (st_first s = [] \<or> MAX_FIRST_IN_A_ROW \<le> st_first_streak s))
      in if serve_continuation then
           (Some (hd (st_continuation s)),
            s\<lparr>st_first_streak := 0, st_continuation := tl (st_continuation s)\<rparr>)
         else
           (case st_first s of
              [] \<Rightarrow> (None, s)
            | w # rest \<Rightarrow>
                (Some w, s\<lparr>st_first := rest,
                   st_first_streak := (if continuation_waiting then st_first_streak s + 1 else 0)\<rparr>)))"

text \<open>
  The first critical section of \<open>acquire\<close>: \<open>True\<close> is a slot taken at once, \<open>False\<close> a new waiter
  queued.
\<close>

definition acquire_or_queue :: "tts_priority \<Rightarrow> nat \<Rightarrow> slots_state \<Rightarrow> bool \<times> slots_state" where
  "acquire_or_queue priority waiter s =
     (if 0 < st_free s then (True, s\<lparr>st_free := st_free s - 1\<rparr>)
      else
        (case priority of
           First \<Rightarrow> (False, s\<lparr>st_first := st_first s @ [waiter]\<rparr>)
         | Continuation \<Rightarrow> (False, s\<lparr>st_continuation := st_continuation s @ [waiter]\<rparr>)))"

text \<open>The critical section of \<open>release\<close>: the waiter to send the slot to, or the slot freed.\<close>

definition release_pick :: "nat set \<Rightarrow> slots_state \<Rightarrow> nat option \<times> slots_state" where
  "release_pick closed s =
     (case pick closed s of
        (Some w, s) \<Rightarrow> (Some w, s)
      | (None, s) \<Rightarrow> (None, s\<lparr>st_free := st_free s + 1\<rparr>))"

section \<open>The process\<close>

text \<open>
  \<open>pr_permits\<close> counts the permits held, \<open>pr_returning\<close> the slots on their way into \<open>release\<close>, and
  \<open>pr_sending\<close> the waiters picked but not yet sent their permit; \<open>pr_next\<close> names the next waiter.
\<close>

record process =
  pr_slots :: slots_state
  pr_closed :: "nat set"
  pr_permits :: nat
  pr_returning :: nat
  pr_sending :: "nat list"
  pr_next :: nat

definition process_new :: "nat \<Rightarrow> process" where
  "process_new slots = \<lparr>pr_slots = slots_new slots, pr_closed = {}, pr_permits = 0, pr_returning = 0,
     pr_sending = [], pr_next = 0\<rparr>"

datatype slots_op =
    Acquire tts_priority
  | DropPermit
  | Release
  | Deliver
  | DropWaiter nat

datatype slots_event = Granted | Queued nat tts_priority | Picked nat | Freed | Delivered nat | Undeliverable nat

fun slots_step :: "process \<Rightarrow> slots_op \<Rightarrow> (process \<times> slots_event list) option" where
  "slots_step p (Acquire priority) =
     (let (now, s) = acquire_or_queue priority (pr_next p) (pr_slots p)
      in if now then Some (p\<lparr>pr_slots := s, pr_permits := pr_permits p + 1\<rparr>, [Granted])
         else Some (p\<lparr>pr_slots := s, pr_next := pr_next p + 1\<rparr>, [Queued (pr_next p) priority]))"
| "slots_step p DropPermit =
     (if pr_permits p = 0 then Some (p, [])
      else Some (p\<lparr>pr_permits := pr_permits p - 1, pr_returning := pr_returning p + 1\<rparr>, []))"
| "slots_step p Release =
     (if pr_returning p = 0 then Some (p, [])
      else
        (let (next, s) = release_pick (pr_closed p) (pr_slots p);
             p = p\<lparr>pr_slots := s, pr_returning := pr_returning p - 1\<rparr>
         in case next of
              Some w \<Rightarrow> Some (p\<lparr>pr_sending := pr_sending p @ [w]\<rparr>, [Picked w])
            | None \<Rightarrow> Some (p, [Freed])))"
| "slots_step p Deliver =
     (case pr_sending p of
        [] \<Rightarrow> Some (p, [])
      | w # rest \<Rightarrow>
          if w \<in> pr_closed p then
            Some (p\<lparr>pr_sending := rest, pr_returning := pr_returning p + 1\<rparr>, [Undeliverable w])
          else Some (p\<lparr>pr_sending := rest, pr_permits := pr_permits p + 1\<rparr>, [Delivered w]))"
| "slots_step p (DropWaiter w) = Some (p\<lparr>pr_closed := insert w (pr_closed p)\<rparr>, [])"

section \<open>Slots are conserved\<close>

text \<open>
  Every slot is free, held by a permit, on its way into \<open>release\<close> or about to be sent, and a slot
  is never idle while somebody waits.
\<close>

definition slots_total :: "process \<Rightarrow> nat" where
  "slots_total p = st_free (pr_slots p) + pr_permits p + pr_returning p + length (pr_sending p)"

definition no_idle_slot :: "slots_state \<Rightarrow> bool" where
  "no_idle_slot s \<longleftrightarrow> st_free s = 0 \<or> st_first s = [] \<and> st_continuation s = []"

definition slots_inv :: "nat \<Rightarrow> process \<Rightarrow> bool" where
  "slots_inv n p \<longleftrightarrow> slots_total p = n \<and> no_idle_slot (pr_slots p) \<and>
     st_first_streak (pr_slots p) \<le> MAX_FIRST_IN_A_ROW"

lemmas slots_inv_defs = slots_inv_def slots_total_def no_idle_slot_def

lemma acquire_or_queue_cases:
  obtains "0 < st_free s" "acquire_or_queue pr w s = (True, s\<lparr>st_free := st_free s - 1\<rparr>)"
  | "st_free s = 0" "pr = First" "acquire_or_queue pr w s = (False, s\<lparr>st_first := st_first s @ [w]\<rparr>)"
  | "st_free s = 0" "pr = Continuation"
    "acquire_or_queue pr w s = (False, s\<lparr>st_continuation := st_continuation s @ [w]\<rparr>)"
  by (cases "st_free s"; cases pr) (simp_all add: acquire_or_queue_def)

lemma pick_free [simp]: "st_free (snd (pick closed s)) = st_free s"
  by (simp add: pick_def prune_closed_front_def Let_def split: list.split)

lemma pick_None:
  "fst (pick closed s) = None \<Longrightarrow>
    st_first (snd (pick closed s)) = [] \<and> st_continuation (snd (pick closed s)) = [] \<and>
    st_first_streak (snd (pick closed s)) = st_first_streak s"
  by (cases "dropWhile (\<lambda>w. w \<in> closed) (st_first s)")
    (auto simp: pick_def prune_closed_front_def Let_def simp del: dropWhile_eq_Nil_conv split: if_splits)

lemma pick_streak:
  "st_first_streak s \<le> MAX_FIRST_IN_A_ROW \<Longrightarrow> st_first_streak (snd (pick closed s)) \<le> MAX_FIRST_IN_A_ROW"
  by (auto simp: pick_def prune_closed_front_def Let_def split: list.split)

lemma release_pick_cases:
  obtains w where "fst (pick closed s) = Some w" "release_pick closed s = (Some w, snd (pick closed s))"
  | "fst (pick closed s) = None"
    "release_pick closed s = (None, (snd (pick closed s))\<lparr>st_free := st_free s + 1\<rparr>)"
proof (cases "pick closed s")
  case (Pair r s')
  then show thesis
    using pick_free [of closed s] by (cases r) (auto simp: release_pick_def that)
qed

lemma slots_step_inv:
  assumes "slots_inv n p"
  shows "\<exists>p' evs. slots_step p op = Some (p', evs) \<and> slots_inv n p'"
proof (cases op)
  case (Acquire pr)
  show ?thesis
    by (rule acquire_or_queue_cases [of "pr_slots p" pr "pr_next p"])
      (use assms in \<open>auto simp: Acquire slots_inv_defs\<close>)
next
  case Release
  show ?thesis
  proof (rule release_pick_cases [of "pr_closed p" "pr_slots p"])
    fix w
    assume "fst (pick (pr_closed p) (pr_slots p)) = Some w"
      and "release_pick (pr_closed p) (pr_slots p) = (Some w, snd (pick (pr_closed p) (pr_slots p)))"
    then show ?thesis
      using assms pick_streak [of "pr_slots p" "pr_closed p"] pick_free [of "pr_closed p" "pr_slots p"]
      by (cases "0 < st_free (pr_slots p)")
        (auto simp: Release slots_inv_defs pick_def prune_closed_front_def split: if_splits)
  next
    assume "fst (pick (pr_closed p) (pr_slots p)) = None"
      and "release_pick (pr_closed p) (pr_slots p) =
        (None, (snd (pick (pr_closed p) (pr_slots p)))\<lparr>st_free := st_free (pr_slots p) + 1\<rparr>)"
    then show ?thesis
      using assms pick_None [of "pr_closed p" "pr_slots p"] by (auto simp: Release slots_inv_defs)
  qed
qed (use assms in \<open>auto simp: slots_inv_defs split: list.split\<close>)

interpretation slots: component slots_step "slots_inv n" for n
  by unfold_locales (rule slots_step_inv)

lemma process_new_inv: "slots_inv n (process_new n)"
  by (simp add: slots_inv_defs process_new_def slots_new_def)

text \<open>
  whatever the order of acquires, permit drops, releases, deliveries and dropped waiters, the
  process never panics and no slot is lost or duplicated: free slots, held permits, slots being
  returned and slots picked for a waiter add up to the number the process was created with, and no
  slot is free while a waiter is queued.
\<close>

theorem slots_conserved:
  "\<exists>p evs. run_ops slots_step (process_new n) ops = Some (p, evs) \<and>
     st_free (pr_slots p) + pr_permits p + pr_returning p + length (pr_sending p) = n \<and>
     (st_free (pr_slots p) = 0 \<or> st_first (pr_slots p) = [] \<and> st_continuation (pr_slots p) = [])"
  using slots.run_ok [OF process_new_inv, of n ops]
  unfolding slots_inv_defs by blast

section \<open>No continuation starves\<close>

definition picks :: "slots_event list \<Rightarrow> nat list" where
  "picks evs = concat (map (\<lambda>e. case e of Picked w \<Rightarrow> [w] | _ \<Rightarrow> []) evs)"

lemma picks_simps [simp]:
  "picks [] = []" "picks (a @ b) = picks a @ picks b" "picks [Granted] = []" "picks [Freed] = []"
  "picks [Queued w pr] = []" "picks [Picked w] = [w]" "picks [Delivered w] = []"
  "picks [Undeliverable w] = []"
  by (simp_all add: picks_def)

text \<open>The number of grants a waiter with the list \<open>ahead\<close> in front of it can still have to wait.\<close>

definition grants_ahead :: "nat list \<Rightarrow> nat \<Rightarrow> nat" where
  "grants_ahead ahead streak = 4 * length ahead + (MAX_FIRST_IN_A_ROW - streak)"

definition waits_behind :: "nat \<Rightarrow> process \<Rightarrow> nat \<Rightarrow> bool" where
  "waits_behind w p k \<longleftrightarrow> (\<exists>ahead behind. st_continuation (pr_slots p) = ahead @ w # behind \<and>
     grants_ahead ahead (st_first_streak (pr_slots p)) \<le> k)"

lemma waits_behindI:
  "st_continuation (pr_slots p) = ahead @ w # behind \<Longrightarrow>
    grants_ahead ahead (st_first_streak (pr_slots p)) \<le> k \<Longrightarrow> waits_behind w p k"
  by (auto simp: waits_behind_def)

lemma waits_unchanged:
  "pr_slots p' = pr_slots p \<Longrightarrow> picks evs = [] \<Longrightarrow> waits_behind w p k \<Longrightarrow>
    w \<in> set (picks evs) \<or> (\<exists>k'. waits_behind w p' k' \<and> k' + length (picks evs) \<le> k)"
  by (intro disjI2 exI [of _ k]) (simp add: waits_behind_def)

lemma dropWhile_keeps:
  "\<not> P w \<Longrightarrow> \<exists>a'. dropWhile P (a @ w # b) = a' @ w # b \<and> length a' \<le> length a"
proof (induction a)
  case (Cons x a)
  then show ?case by (cases "P x") (force intro: le_SucI exI [of _ "x # a"])+
qed (auto intro: exI [of _ "[]"])

lemma pick_progress:
  assumes "st_continuation s = ahead @ w # behind" and "w \<notin> closed"
    and "st_first_streak s \<le> MAX_FIRST_IN_A_ROW"
  shows "fst (pick closed s) = Some w \<or>
    (\<exists>v ahead' behind'. fst (pick closed s) = Some v \<and>
       st_continuation (snd (pick closed s)) = ahead' @ w # behind' \<and>
       grants_ahead ahead' (st_first_streak (snd (pick closed s))) < grants_ahead ahead (st_first_streak s))"
proof -
  obtain a' where a': "dropWhile (\<lambda>w. w \<in> closed) (st_continuation s) = a' @ w # behind"
      "length a' \<le> length ahead"
    using dropWhile_keeps [of "\<lambda>w. w \<in> closed"] assms(1,2) by fastforce
  let ?first = "dropWhile (\<lambda>w. w \<in> closed) (st_first s)"
  show ?thesis
  proof (cases "?first = [] \<or> MAX_FIRST_IN_A_ROW \<le> st_first_streak s")
    case True
    then show ?thesis
      using a' assms(3) True
    proof (cases a')
      case (Cons x a'')
      with True a' have "fst (pick closed s) = Some x"
        "st_continuation (snd (pick closed s)) = a'' @ w # behind"
        "st_first_streak (snd (pick closed s)) = 0"
        by (simp_all add: pick_def prune_closed_front_def Let_def del: dropWhile_eq_Nil_conv)
      moreover have "grants_ahead a'' 0 < grants_ahead ahead (st_first_streak s)"
        using a' Cons assms(3) by (simp add: grants_ahead_def MAX_FIRST_IN_A_ROW_def)
      ultimately show ?thesis by auto
    qed (simp add: pick_def prune_closed_front_def Let_def del: dropWhile_eq_Nil_conv)
  next
    case False
    then obtain v rest where "?first = v # rest" by (cases ?first) auto
    with False a' show ?thesis
      by (auto simp: pick_def prune_closed_front_def grants_ahead_def)
  qed
qed

lemma slots_step_closed: "slots_step p op = Some (p', evs) \<Longrightarrow> pr_closed p \<subseteq> pr_closed p'"
  by (cases op) (auto split: if_splits prod.splits option.splits list.splits simp: Let_def)

lemma slots_run_closed: "run_ops slots_step p ops = Some (p', evs) \<Longrightarrow> pr_closed p \<subseteq> pr_closed p'"
proof (induction ops arbitrary: p evs)
  case (Cons op ops)
  then obtain p1 e1 e2 where "slots_step p op = Some (p1, e1)" "run_ops slots_step p1 ops = Some (p', e2)"
    by (auto split: option.splits)
  with Cons.IH slots_step_closed [of p op p1 e1] show ?case by blast
qed simp

lemma slots_step_waits:
  assumes step: "slots_step p op = Some (p', evs)" and inv: "slots_inv n p"
    and waits: "waits_behind w p k" and open_w: "w \<notin> pr_closed p"
  shows "w \<in> set (picks evs) \<or> (\<exists>k'. waits_behind w p' k' \<and> k' + length (picks evs) \<le> k)"
proof -
  from waits obtain ahead behind where
    a: "st_continuation (pr_slots p) = ahead @ w # behind"
      "grants_ahead ahead (st_first_streak (pr_slots p)) \<le> k"
    by (auto simp: waits_behind_def)
  show ?thesis
  proof (cases op)
    case (Acquire pr)
    have "waits_behind w p' k \<and> picks evs = []"
      by (rule acquire_or_queue_cases [of "pr_slots p" pr "pr_next p"])
        (use step a in \<open>auto simp: Acquire intro: waits_behindI\<close>)
    then show ?thesis by auto
  next
    case Release
    show ?thesis
    proof (cases "pr_returning p = 0")
      case True
      with step waits show ?thesis by (auto simp: Release)
    next
      case False
      have "st_first_streak (pr_slots p) \<le> MAX_FIRST_IN_A_ROW" using inv by (simp add: slots_inv_def)
      from pick_progress [OF a(1) open_w this] show ?thesis
      proof (elim disjE exE conjE)
        assume "fst (pick (pr_closed p) (pr_slots p)) = Some w"
        with step False show ?thesis
          by (cases "pick (pr_closed p) (pr_slots p)") (auto simp: Release release_pick_def)
      next
        fix v ahead' behind'
        assume p: "fst (pick (pr_closed p) (pr_slots p)) = Some v"
          "st_continuation (snd (pick (pr_closed p) (pr_slots p))) = ahead' @ w # behind'"
          "grants_ahead ahead' (st_first_streak (snd (pick (pr_closed p) (pr_slots p))))
            < grants_ahead ahead (st_first_streak (pr_slots p))"
        with step False have "picks evs = [v]" "pr_slots p' = snd (pick (pr_closed p) (pr_slots p))"
          by (cases "pick (pr_closed p) (pr_slots p)"; auto simp: Release release_pick_def)+
        moreover from this(2) p(2)
        have "waits_behind w p' (grants_ahead ahead' (st_first_streak (pr_slots p')))"
          by (auto intro: waits_behindI)
        ultimately show ?thesis using p(3) a(2) by auto
      qed
    qed
  next
    case DropPermit
    then show ?thesis
      by (intro waits_unchanged [OF _ _ waits]) (use step in \<open>auto split: if_splits\<close>)
  next
    case Deliver
    then show ?thesis
      by (intro waits_unchanged [OF _ _ waits]) (use step in \<open>auto split: if_splits list.splits\<close>)
  next
    case (DropWaiter v)
    then show ?thesis
      by (intro waits_unchanged [OF _ _ waits]) (use step in auto)
  qed
qed

lemma slots_run_waits:
  assumes "run_ops slots_step p ops = Some (p', evs)" and "slots_inv n p"
    and "waits_behind w p k" and "w \<notin> pr_closed p'"
  shows "w \<in> set (picks evs) \<or> (\<exists>k'. waits_behind w p' k' \<and> k' + length (picks evs) \<le> k)"
  using assms
proof (induction ops arbitrary: p evs k)
  case (Cons op ops)
  then obtain p1 e1 e2 where 1: "slots_step p op = Some (p1, e1)"
      "run_ops slots_step p1 ops = Some (p', e2)" "evs = e1 @ e2"
    by (auto split: option.splits)
  have inv1: "slots_inv n p1" using slots.step_inv [OF Cons.prems(2) 1(1)] .
  have "w \<notin> pr_closed p"
    using Cons.prems(4) slots_step_closed [OF 1(1)] slots_run_closed [OF 1(2)] by blast
  from slots_step_waits [OF 1(1) Cons.prems(2,3) this] show ?case
  proof (elim disjE exE conjE)
    fix k1
    assume k1: "waits_behind w p1 k1" "k1 + length (picks e1) \<le> k"
    from Cons.IH [OF 1(2) inv1 k1(1) Cons.prems(4)] k1(2) 1(3) show ?thesis
      by (fastforce simp: le_diff_conv2)
  qed (simp add: 1(3))
qed auto

text \<open>
  C37: no starvation.  In a reachable process, a continuation waiter with \<open>k\<close> waiters queued before
  it, that is not dropped, is among the next \<open>4 * k + 4\<close> waiters picked, however many first sentences
  keep arriving.
\<close>

theorem continuation_not_starved:
  assumes reach: "run_ops slots_step (process_new n) before = Some (p, evs0)"
    and queued: "st_continuation (pr_slots p) = ahead @ w # behind"
    and run: "run_ops slots_step p ops = Some (p', evs)"
    and live: "w \<notin> pr_closed p'"
    and grants: "4 * length ahead + 4 \<le> length (picks evs)"
  shows "w \<in> set (picks evs)"
proof -
  have "slots_inv n p" using slots.run_inv [OF process_new_inv reach] .
  moreover have "waits_behind w p (4 * length ahead + 3)"
    using queued by (auto simp: waits_behind_def grants_ahead_def MAX_FIRST_IN_A_ROW_def)
  ultimately show ?thesis
    using slots_run_waits [OF run _ _ live, of n "4 * length ahead + 3"] grants by fastforce
qed

theorem continuation_not_starved_witness:
  "\<exists>p evs0 p' evs. run_ops slots_step (process_new 1)
       [Acquire First, Acquire Continuation, Acquire First, Acquire First, Acquire First, Acquire First]
         = Some (p, evs0) \<and>
     run_ops slots_step p (concat (replicate 4 [DropPermit, Release, Deliver])) = Some (p', evs) \<and>
     0 \<in> set (picks evs)"
proof -
  let ?b = "[Acquire First, Acquire Continuation, Acquire First, Acquire First, Acquire First, Acquire First]"
  let ?o = "concat (replicate 4 [DropPermit, Release, Deliver])"
  have 1: "\<exists>p evs0. run_ops slots_step (process_new 1) ?b = Some (p, evs0) \<and>
      st_continuation (pr_slots p) = [] @ 0 # [] \<and>
      (\<exists>p' evs. run_ops slots_step p ?o = Some (p', evs) \<and> pr_closed p' = {} \<and>
         length (picks evs) = 4)"
    by (simp add: process_new_def slots_new_def acquire_or_queue_def release_pick_def pick_def
        prune_closed_front_def MAX_FIRST_IN_A_ROW_def picks_def eval_nat_numeral)
  then obtain p evs0 p' evs where
    r: "run_ops slots_step (process_new 1) ?b = Some (p, evs0)"
      "st_continuation (pr_slots p) = [] @ 0 # []"
      "run_ops slots_step p ?o = Some (p', evs)" "pr_closed p' = {}" "length (picks evs) = 4"
    by blast
  have "0 \<in> set (picks evs)"
    by (rule continuation_not_starved [OF r(1,2,3)]) (simp_all add: r(4,5))
  with r show ?thesis by blast
qed

end
