(* ===== verification/Stt_Hold.thy ===== *)
theory Stt_Hold
  imports Text_Model Prelude
begin

text \<open>
  \<open>crates/speech/src/stt_hold.rs\<close> (the bounded buffer of a held STT) and
  \<open>crates/speech/src/utterance_replay.rs\<close> (the last utterance kept for replay).
\<close>

section \<open>STT hold\<close>

definition BYTES_PER_MS :: nat where "BYTES_PER_MS = 32"
definition STT_HOLD_DEFAULT_MAX_BUFFER_MS :: nat where "STT_HOLD_DEFAULT_MAX_BUFFER_MS = 45000"
definition STT_HOLD_MAX_BUFFER_MS_CAP :: nat where "STT_HOLD_MAX_BUFFER_MS_CAP = 120000"
definition REPLAY_DEFAULT_MAX_AGE_MS :: nat where "REPLAY_DEFAULT_MAX_AGE_MS = 10000"
definition REPLAY_MAX_AGE_MS_CAP :: nat where "REPLAY_MAX_AGE_MS_CAP = 120000"

datatype stt_hold_mode = BufferReplay | FirstUtterance

definition hold_mode_as_str :: "stt_hold_mode \<Rightarrow> string" where
  "hold_mode_as_str mode =
     (case mode of BufferReplay \<Rightarrow> ''buffer_replay'' | FirstUtterance \<Rightarrow> ''first_utterance'')"

record begin_stt_hold_options =
  bh_mode :: stt_hold_mode
  bh_max_buffer_ms :: "nat option"

definition default_begin_stt_hold_options :: begin_stt_hold_options where
  "default_begin_stt_hold_options = \<lparr>bh_mode = BufferReplay, bh_max_buffer_ms = None\<rparr>"

record replay_config =
  rc_max_age_ms :: "nat option"

definition resolved_replay_max_age_ms :: "replay_config \<Rightarrow> nat" where
  "resolved_replay_max_age_ms config =
     clamp 1 REPLAY_MAX_AGE_MS_CAP (case rc_max_age_ms config of Some a \<Rightarrow> a | None \<Rightarrow> REPLAY_DEFAULT_MAX_AGE_MS)"

definition resolved_hold_max_buffer_ms :: "nat option \<Rightarrow> nat" where
  "resolved_hold_max_buffer_ms max_buffer_ms =
     clamp 1 STT_HOLD_MAX_BUFFER_MS_CAP
       (case max_buffer_ms of Some a \<Rightarrow> a | None \<Rightarrow> STT_HOLD_DEFAULT_MAX_BUFFER_MS)"

text \<open>\<open>as u32\<close> keeps the low 32 bits.\<close>

definition pcm_bytes_to_ms :: "nat \<Rightarrow> nat" where
  "pcm_bytes_to_ms n = (n div BYTES_PER_MS) mod 2 ^ 32"

record stt_hold =
  sh_mode :: stt_hold_mode
  sh_max_bytes :: nat
  sh_pcm :: bytes
  sh_dropped_bytes :: nat
  sh_replaces_utterance_id :: "ustring option"
  sh_first_closed :: bool
  sh_finalize_seen :: bool
  sh_gen_at_begin :: nat
  sh_ever_had_audio :: bool

definition hold_append :: "bytes \<Rightarrow> stt_hold \<Rightarrow> stt_hold" where
  "hold_append chunk h =
     (let h = h\<lparr>sh_ever_had_audio := True, sh_pcm := sh_pcm h @ chunk\<rparr>
      in if sh_max_bytes h < length (sh_pcm h) then
           (let excess = length (sh_pcm h) - sh_max_bytes h;
                excess = excess + excess mod 2;
                excess = min excess (length (sh_pcm h))
            in h\<lparr>sh_pcm := drop excess (sh_pcm h), sh_dropped_bytes := sh_dropped_bytes h + excess\<rparr>)
         else h)"

definition hold_new :: "stt_hold_mode \<Rightarrow> nat \<Rightarrow> bytes option \<Rightarrow> stt_hold" where
  "hold_new mode max_buffer_ms seed =
     (let h = \<lparr>sh_mode = mode, sh_max_bytes = max_buffer_ms * BYTES_PER_MS, sh_pcm = [], sh_dropped_bytes = 0,
               sh_replaces_utterance_id = None, sh_first_closed = False, sh_finalize_seen = False,
               sh_gen_at_begin = 0, sh_ever_had_audio = False\<rparr>
      in case seed of Some s \<Rightarrow> hold_append s h | None \<Rightarrow> h)"

definition hold_push :: "bytes \<Rightarrow> stt_hold \<Rightarrow> stt_hold" where
  "hold_push chunk h =
     (if sh_mode h = FirstUtterance \<and> sh_first_closed h
      then h\<lparr>sh_dropped_bytes := sh_dropped_bytes h + length chunk\<rparr>
      else hold_append chunk h)"

definition hold_note_finalize :: "stt_hold \<Rightarrow> stt_hold" where
  "hold_note_finalize h =
     (let h = h\<lparr>sh_finalize_seen := True\<rparr>
      in if sh_mode h = FirstUtterance \<and> sh_ever_had_audio h then h\<lparr>sh_first_closed := True\<rparr> else h)"

definition hold_take_pcm :: "stt_hold \<Rightarrow> bytes \<times> stt_hold" where
  "hold_take_pcm h = (sh_pcm h, h\<lparr>sh_pcm := []\<rparr>)"

definition hold_is_empty :: "stt_hold \<Rightarrow> bool" where
  "hold_is_empty h \<longleftrightarrow> sh_pcm h = []"

definition hold_buffered_ms :: "stt_hold \<Rightarrow> nat" where
  "hold_buffered_ms h = pcm_bytes_to_ms (length (sh_pcm h))"

definition hold_dropped_ms :: "stt_hold \<Rightarrow> nat" where
  "hold_dropped_ms h = (sh_dropped_bytes h div BYTES_PER_MS) mod 2 ^ 32"

section \<open>What a hold keeps\<close>

datatype hold_op = HPush bytes | HFinalize

fun hold_step :: "stt_hold \<Rightarrow> hold_op \<Rightarrow> (stt_hold \<times> bytes list) option" where
  "hold_step h (HPush chunk) = Some (hold_push chunk h, [chunk])"
| "hold_step h HFinalize = Some (hold_note_finalize h, [])"

text \<open>
  The audio fed is a dropped prefix of whole samples, the buffer, and a tail that came after the kept
  utterance was closed; both ends are counted.
\<close>

definition hold_inv :: "stt_hold \<Rightarrow> bool" where
  "hold_inv h \<longleftrightarrow> 0 < sh_max_bytes h \<and> length (sh_pcm h) \<le> sh_max_bytes h \<and>
     (sh_first_closed h \<longrightarrow> sh_mode h = FirstUtterance)"

definition hold_rel :: "stt_hold \<Rightarrow> hold_op list \<Rightarrow> bytes list \<Rightarrow> stt_hold \<Rightarrow> bool" where
  "hold_rel h ops out h' \<longleftrightarrow>
     sh_mode h' = sh_mode h \<and> sh_max_bytes h' = sh_max_bytes h \<and>
     (sh_first_closed h \<longrightarrow> sh_first_closed h' \<and> sh_pcm h' = sh_pcm h) \<and>
     (\<exists>before after. sh_pcm h @ concat out = before @ sh_pcm h' @ after \<and>
        sh_dropped_bytes h' = sh_dropped_bytes h + length before + length after \<and>
        even (length before) \<and> (after \<noteq> [] \<longrightarrow> sh_first_closed h'))"

text \<open>What one append drops, as a number.\<close>

definition hold_excess :: "nat \<Rightarrow> nat \<Rightarrow> nat" where
  "hold_excess len max_bytes =
     (if max_bytes < len then min (len - max_bytes + (len - max_bytes) mod 2) len else 0)"

lemma hold_excess_le: "hold_excess len m \<le> len" and hold_excess_fits: "len - hold_excess len m \<le> m"
  by (auto simp: hold_excess_def)

lemma hold_excess_even: "0 < m \<Longrightarrow> even (hold_excess len m)"
proof (cases "m < len")
  case True
  assume "0 < m"
  with True have "len - m + (len - m) mod 2 \<le> len" using mod_less_divisor [of 2 "len - m"] by linarith
  with True have "hold_excess len m = len - m + (len - m) mod 2" by (simp add: hold_excess_def)
  moreover have "even (x + x mod 2)" for x :: nat by presburger
  ultimately show ?thesis by (simp only:)
qed (simp add: hold_excess_def)

lemma hold_append_shape:
  "hold_append c h = h\<lparr>sh_ever_had_audio := True,
     sh_pcm := drop (hold_excess (length (sh_pcm h @ c)) (sh_max_bytes h)) (sh_pcm h @ c),
     sh_dropped_bytes := sh_dropped_bytes h + hold_excess (length (sh_pcm h @ c)) (sh_max_bytes h)\<rparr>"
  by (simp add: hold_append_def hold_excess_def Let_def del: drop_append)

lemma hold_append_result:
  assumes "0 < sh_max_bytes h"
  shows "\<exists>n. sh_pcm (hold_append c h) = drop n (sh_pcm h @ c) \<and> n \<le> length (sh_pcm h @ c) \<and>
     even n \<and> sh_dropped_bytes (hold_append c h) = sh_dropped_bytes h + n"
  by (rule exI [of _ "hold_excess (length (sh_pcm h @ c)) (sh_max_bytes h)"])
    (simp add: hold_append_shape hold_excess_even [OF assms] hold_excess_le
      del: drop_append length_append)

lemma hold_append_fields [simp]:
  "sh_mode (hold_append c h) = sh_mode h" "sh_max_bytes (hold_append c h) = sh_max_bytes h"
  "sh_first_closed (hold_append c h) = sh_first_closed h"
  by (simp_all add: hold_append_def Let_def)

lemma hold_append_bound: "length (sh_pcm (hold_append c h)) \<le> sh_max_bytes h"
  by (simp add: hold_append_shape hold_excess_fits del: drop_append length_append)

lemma hold_append_rel: "hold_inv h \<Longrightarrow> \<not> sh_first_closed h \<Longrightarrow> hold_rel h ops [c] (hold_append c h)"
proof -
  assume h: "hold_inv h" "\<not> sh_first_closed h"
  then obtain n where n: "sh_pcm (hold_append c h) = drop n (sh_pcm h @ c)" "n \<le> length (sh_pcm h @ c)"
      "even n" "sh_dropped_bytes (hold_append c h) = sh_dropped_bytes h + n"
    using hold_append_result [of h c] by (auto simp: hold_inv_def)
  have "sh_pcm h @ c = take n (sh_pcm h @ c) @ drop n (sh_pcm h @ c) @ []"
    by (simp del: drop_append take_append)
  moreover have "length (take n (sh_pcm h @ c)) = n" using n(2) by (simp del: take_append)
  ultimately show ?thesis
    unfolding hold_rel_def using n(1,3,4) h(2)
    by (intro conjI exI [of _ "take n (sh_pcm h @ c)"] exI [of _ "[]"])
      (simp_all del: drop_append take_append)
qed

lemma hold_step_rel:
  assumes "hold_inv h" and "hold_step h op = Some (h', out)"
  shows "hold_inv h' \<and> hold_rel h [op] out h'"
proof (cases op)
  case (HPush c)
  show ?thesis
  proof (cases "sh_mode h = FirstUtterance \<and> sh_first_closed h")
    case True
    with assms show ?thesis
      unfolding HPush hold_rel_def
      by (intro conjI exI [of _ "[]"] exI [of _ c]) (auto simp: hold_push_def hold_inv_def)
  next
    case False
    with assms(1) have "\<not> sh_first_closed h" by (auto simp: hold_inv_def)
    with False assms hold_append_rel [OF assms(1), of "[op]" c] hold_append_bound [of c h] show ?thesis
      by (auto simp: HPush hold_push_def hold_inv_def)
  qed
next
  case HFinalize
  with assms show ?thesis
    by (auto simp: hold_note_finalize_def hold_rel_def hold_inv_def Let_def intro!: exI [of _ "[]"])
qed

lemma hold_rel_trans:
  assumes 1: "hold_rel h xs out1 h1" and 2: "hold_rel h1 ys out2 h2"
  shows "hold_rel h (xs @ ys) (out1 @ out2) h2"
proof -
  obtain b1 a1 b2 a2 where
    e1: "sh_pcm h @ concat out1 = b1 @ sh_pcm h1 @ a1"
      "sh_dropped_bytes h1 = sh_dropped_bytes h + length b1 + length a1" "even (length b1)"
      "a1 \<noteq> [] \<longrightarrow> sh_first_closed h1" and
    e2: "sh_pcm h1 @ concat out2 = b2 @ sh_pcm h2 @ a2"
      "sh_dropped_bytes h2 = sh_dropped_bytes h1 + length b2 + length a2" "even (length b2)"
      "a2 \<noteq> [] \<longrightarrow> sh_first_closed h2"
    using 1 2 unfolding hold_rel_def by blast
  have "\<exists>b a. sh_pcm h @ concat (out1 @ out2) = b @ sh_pcm h2 @ a \<and>
      sh_dropped_bytes h2 = sh_dropped_bytes h + length b + length a \<and> even (length b) \<and>
      (a \<noteq> [] \<longrightarrow> sh_first_closed h2)"
  proof (cases "a1 = []")
    case True
    with e1(1) e2(1) have "sh_pcm h @ concat (out1 @ out2) = (b1 @ b2) @ sh_pcm h2 @ a2"
      by (metis append.assoc append_Nil2 concat_append)
    with True e1 e2 show ?thesis by (intro exI [of _ "b1 @ b2"] exI [of _ a2]) simp
  next
    case False
    with e1(4) 2 have c: "sh_first_closed h2" "sh_pcm h2 = sh_pcm h1" by (auto simp: hold_rel_def)
    from arg_cong [OF e2(1), of length] c(2) have "length (concat out2) = length b2 + length a2"
      by (simp del: length_concat)
    with e1 e2(2) c show ?thesis
      by (intro exI [of _ b1] exI [of _ "a1 @ concat out2"]) (simp del: length_concat flip: append_assoc)
  qed
  with 1 2 show ?thesis unfolding hold_rel_def by auto
qed

interpretation hold: traced_component hold_step hold_inv hold_rel
proof unfold_locales
  fix h :: stt_hold and op :: hold_op
  assume "hold_inv h"
  moreover obtain h' out where "hold_step h op = Some (h', out)" by (cases op) auto
  ultimately show "\<exists>h' out. hold_step h op = Some (h', out) \<and> hold_inv h'"
    using hold_step_rel by blast
qed (simp add: hold_rel_def, blast dest: hold_step_rel, rule hold_rel_trans)

lemma hold_new_result:
  assumes "0 < max_buffer_ms"
  shows "hold_inv (hold_new mode max_buffer_ms seed) \<and> sh_mode (hold_new mode max_buffer_ms seed) = mode \<and>
    sh_max_bytes (hold_new mode max_buffer_ms seed) = max_buffer_ms * BYTES_PER_MS \<and>
    (\<exists>before. (case seed of Some s \<Rightarrow> s | None \<Rightarrow> []) = before @ sh_pcm (hold_new mode max_buffer_ms seed) \<and>
      even (length before) \<and> sh_dropped_bytes (hold_new mode max_buffer_ms seed) = length before)"
proof (cases seed)
  case None
  with assms show ?thesis by (simp add: hold_new_def hold_inv_def BYTES_PER_MS_def)
next
  case (Some sd)
  let ?h = "\<lparr>sh_mode = mode, sh_max_bytes = max_buffer_ms * BYTES_PER_MS, sh_pcm = [], sh_dropped_bytes = 0,
     sh_replaces_utterance_id = None, sh_first_closed = False, sh_finalize_seen = False,
     sh_gen_at_begin = 0, sh_ever_had_audio = False\<rparr>"
  have "0 < sh_max_bytes ?h" using assms by (simp add: BYTES_PER_MS_def)
  from hold_append_result [OF this, of sd] obtain n where
    "sh_pcm (hold_append sd ?h) = drop n sd" "n \<le> length sd" "even n"
    "sh_dropped_bytes (hold_append sd ?h) = n" by auto
  moreover have "hold_inv (hold_append sd ?h)"
    using hold_append_bound [of sd ?h] assms by (simp add: hold_inv_def BYTES_PER_MS_def)
  ultimately show ?thesis
    using Some by (auto simp: hold_new_def intro!: exI [of _ "take n sd"])
qed

text \<open>
  of all the audio fed to a hold (its seed and every push), the buffer is one contiguous piece
  of at most \<open>max_buffer_ms\<close>; before it only whole samples were dropped, after it only audio that
  arrived once a first-utterance hold had closed, and every byte missing is counted as dropped.
\<close>

theorem hold_keeps_one_piece:
  assumes "0 < max_buffer_ms" and "run_ops hold_step (hold_new mode max_buffer_ms seed) ops = Some (h, chunks)"
  shows "\<exists>before after. (case seed of Some s \<Rightarrow> s | None \<Rightarrow> []) @ concat chunks = before @ sh_pcm h @ after \<and>
    even (length before) \<and> length (sh_pcm h) \<le> 32 * max_buffer_ms \<and>
    sh_dropped_bytes h = length before + length after \<and>
    (after = [] \<or> mode = FirstUtterance \<and> sh_first_closed h)"
proof -
  let ?n = "hold_new mode max_buffer_ms seed"
  note n = hold_new_result [OF assms(1), of mode seed]
  obtain b0 where b0: "(case seed of Some s \<Rightarrow> s | None \<Rightarrow> []) = b0 @ sh_pcm ?n" "even (length b0)"
      "sh_dropped_bytes ?n = length b0" using n by blast
  have inv: "hold_inv h" by (rule hold.run_inv [OF _ assms(2)]) (use n in blast)
  have rel: "hold_rel ?n ops chunks h" by (rule hold.run_rel [OF _ assms(2)]) (use n in blast)
  then obtain b a where ba: "sh_pcm ?n @ concat chunks = b @ sh_pcm h @ a"
      "sh_dropped_bytes h = sh_dropped_bytes ?n + length b + length a" "even (length b)"
      "a \<noteq> [] \<longrightarrow> sh_first_closed h" and m: "sh_mode h = sh_mode ?n" "sh_max_bytes h = sh_max_bytes ?n"
    unfolding hold_rel_def by blast
  from ba b0 have "(case seed of Some s \<Rightarrow> s | None \<Rightarrow> []) @ concat chunks = (b0 @ b) @ sh_pcm h @ a" by simp
  with ba b0 m n inv show ?thesis
    by (intro exI [of _ "b0 @ b"] exI [of _ a]) (auto simp: hold_inv_def BYTES_PER_MS_def)
qed

theorem hold_keeps_one_piece_witness:
  "\<exists>h chunks before after. run_ops hold_step (hold_new FirstUtterance 1 None)
       [HPush (replicate 20 1), HPush (replicate 20 2), HFinalize, HPush [3, 4]] = Some (h, chunks) \<and>
     concat chunks = before @ sh_pcm h @ after \<and> length (sh_pcm h) \<le> 32"
proof -
  obtain h chunks where r: "run_ops hold_step (hold_new FirstUtterance 1 None)
       [HPush (replicate 20 1), HPush (replicate 20 2), HFinalize, HPush [3, 4]] = Some (h, chunks)"
    by simp
  from hold_keeps_one_piece [OF _ r] obtain before after where
    "concat chunks = before @ sh_pcm h @ after" "length (sh_pcm h) \<le> 32" by auto
  with r show ?thesis by blast
qed

section \<open>Utterance replay\<close>

definition SPEECH_REPLAY_MAX_MS :: nat where "SPEECH_REPLAY_MAX_MS = 15000"
definition SPEECH_REPLAY_MAX_AGE_MS :: nat where "SPEECH_REPLAY_MAX_AGE_MS = 10000"
definition BYTES_PER_MS_16K_MONO :: nat where "BYTES_PER_MS_16K_MONO = 32"

definition replay_max_bytes :: nat where
  "replay_max_bytes = SPEECH_REPLAY_MAX_MS * BYTES_PER_MS_16K_MONO"

record replay_buffer =
  rb_max_bytes :: nat
  rb_pcm :: bytes
  rb_overflow :: bool
  rb_active :: bool

definition replay_with_max_bytes :: "nat \<Rightarrow> replay_buffer" where
  "replay_with_max_bytes max_bytes = \<lparr>rb_max_bytes = max_bytes, rb_pcm = [], rb_overflow = False, rb_active = False\<rparr>"

definition replay_new :: replay_buffer where
  "replay_new = replay_with_max_bytes replay_max_bytes"

definition begin_utterance :: "replay_buffer \<Rightarrow> replay_buffer" where
  "begin_utterance b = b\<lparr>rb_pcm := [], rb_overflow := False, rb_active := True\<rparr>"

definition end_utterance :: "replay_buffer \<Rightarrow> replay_buffer" where
  "end_utterance b = b\<lparr>rb_active := False\<rparr>"

definition replay_push :: "bytes \<Rightarrow> replay_buffer \<Rightarrow> replay_buffer" where
  "replay_push chunk b =
     (if \<not> rb_active b \<or> rb_overflow b then b
      else
        (let new_len = length (rb_pcm b) + length chunk
         in if rb_max_bytes b < new_len
            then b\<lparr>rb_overflow := True, rb_pcm := [], rb_active := False\<rparr>
            else b\<lparr>rb_pcm := rb_pcm b @ chunk\<rparr>))"

definition invalidate :: "replay_buffer \<Rightarrow> replay_buffer" where
  "invalidate b = b\<lparr>rb_pcm := [], rb_overflow := True, rb_active := False\<rparr>"

definition snapshot_pcm :: "replay_buffer \<Rightarrow> bytes option" where
  "snapshot_pcm b = (if rb_overflow b \<or> rb_pcm b = [] then None else Some (rb_pcm b))"

record replay_snapshot =
  rs_pcm :: bytes
  rs_utterance_id :: ustring
  rs_finalized_at :: instant
  rs_overflow :: bool

definition replay_age_ms :: "instant \<Rightarrow> replay_snapshot \<Rightarrow> nat" where
  "replay_age_ms now s = as_millis (saturating_duration_since now (rs_finalized_at s)) mod 2 ^ 64"

definition replayable_within :: "nat \<Rightarrow> instant \<Rightarrow> replay_snapshot \<Rightarrow> bool" where
  "replayable_within max_age_ms now s \<longleftrightarrow>
     \<not> rs_overflow s \<and> rs_pcm s \<noteq> [] \<and> replay_age_ms now s \<le> max_age_ms"

definition replayable :: "instant \<Rightarrow> replay_snapshot \<Rightarrow> bool" where
  "replayable now s = replayable_within SPEECH_REPLAY_MAX_AGE_MS now s"

text \<open>A snapshot is the whole utterance: nothing pushed between its begin and its end is missing.\<close>

lemma replay_keeps_utterance:
  "foldl (\<lambda>b c. replay_push c b) (begin_utterance b0) chunks =
     (if length (concat chunks) \<le> rb_max_bytes b0 then (begin_utterance b0)\<lparr>rb_pcm := concat chunks\<rparr>
      else b0\<lparr>rb_pcm := [], rb_overflow := True, rb_active := False\<rparr>)"
  by (induction chunks rule: rev_induct) (auto simp: begin_utterance_def replay_push_def Let_def)

end
