(* ===== verification/Agent_Config.thy ===== *)
theory Agent_Config
  imports Pipeline Float_Ops Stt_Hold
begin

text \<open>
  \<open>crates/speech/src/config.rs\<close>: the voice agent's configuration and the functions that resolve
  defaults and reject bad values.  \<open>f32\<close> fields are of the float type of the \<open>float_ops\<close> argument; a
  decimal literal is the nearest float of its ratio (\<open>fl_ratio\<close>).  An error message is a constructor
  with the values it is formatted from.
\<close>

section \<open>Events, barge-in, noise suppression\<close>

datatype event_delivery_mode = DeliverCallback | DeliverStream | DeliverBoth

record barge_in_config =
  bi_enabled :: bool
  bi_use_vad :: bool
  bi_flush_tts :: bool
  bi_require_stt_partial :: bool
  bi_min_stt_partial_tokens :: nat
  bi_agent_playback_guard_ms :: nat

definition default_min_stt_partial_tokens :: nat where "default_min_stt_partial_tokens = 2"

definition default_barge_in_config :: barge_in_config where
  "default_barge_in_config = \<lparr>bi_enabled = True, bi_use_vad = True, bi_flush_tts = True,
     bi_require_stt_partial = True, bi_min_stt_partial_tokens = default_min_stt_partial_tokens,
     bi_agent_playback_guard_ms = 0\<rparr>"

definition SHERPA_STREAMING_PARTIAL_INTERVAL_MS :: nat where
  "SHERPA_STREAMING_PARTIAL_INTERVAL_MS = 1280"

definition SEMANTIC_BARGE_IN_TIME_TO_MIN_TOKENS_MS :: nat where
  "SEMANTIC_BARGE_IN_TIME_TO_MIN_TOKENS_MS = 1440"

definition SEMANTIC_BARGE_IN_WORST_CASE_LATENCY_MS :: nat where
  "SEMANTIC_BARGE_IN_WORST_CASE_LATENCY_MS =
     SEMANTIC_BARGE_IN_TIME_TO_MIN_TOKENS_MS + SHERPA_STREAMING_PARTIAL_INTERVAL_MS"

definition resolve_min_stt_partial_tokens :: "nat option \<Rightarrow> nat option \<Rightarrow> nat" where
  "resolve_min_stt_partial_tokens tokens legacy_chars =
     max 1 (case tokens of
              Some n \<Rightarrow> n
            | None \<Rightarrow> (case legacy_chars of Some n \<Rightarrow> n | None \<Rightarrow> default_min_stt_partial_tokens))"

text \<open>\<open>char::is_alphanumeric\<close> is a Unicode table of the standard library: an argument here.\<close>

definition stt_partial_token_count :: "(uchar \<Rightarrow> bool) \<Rightarrow> ustring \<Rightarrow> nat" where
  "stt_partial_token_count alphanumeric t =
     length (filter (\<lambda>tok. list_ex alphanumeric tok) (split_whitespace t))"

datatype noise_suppression_provider = NoSuppression | Rnnoise

section \<open>Speaker gate\<close>

datatype speaker_mismatch_action = Flag | Drop

datatype speaker_gate_barge_in = CallerOnly | Anyone

record speaker_gate_update =
  su_enabled :: "bool option"
  su_on_mismatch :: "speaker_mismatch_action option"
  su_barge_in :: "speaker_gate_barge_in option"

definition DEFAULT_RECHECK_MAX_WINDOWS :: nat where "DEFAULT_RECHECK_MAX_WINDOWS = 12"

record 'f speaker_gate_config =
  sg_enabled :: bool
  sg_model_path :: "ustring option"
  sg_threshold :: 'f
  sg_enroll_speech_ms :: nat
  sg_check_speech_ms :: nat
  sg_min_check_speech_ms :: nat
  sg_suppress_short_barge_in :: bool
  sg_recheck_on_other :: bool
  sg_recheck_max_windows :: nat
  sg_on_mismatch :: speaker_mismatch_action
  sg_verify_timeout_ms :: nat
  sg_barge_in :: speaker_gate_barge_in
  sg_model_load_timeout_ms :: nat

definition default_speaker_gate_config :: "'f float_ops \<Rightarrow> 'f speaker_gate_config" where
  "default_speaker_gate_config fl = \<lparr>sg_enabled = False, sg_model_path = None,
     sg_threshold = fl_ratio fl 459 1000, sg_enroll_speech_ms = 3000, sg_check_speech_ms = 1500,
     sg_min_check_speech_ms = 1500, sg_suppress_short_barge_in = False, sg_recheck_on_other = True,
     sg_recheck_max_windows = DEFAULT_RECHECK_MAX_WINDOWS, sg_on_mismatch = Flag,
     sg_verify_timeout_ms = 500, sg_barge_in = CallerOnly, sg_model_load_timeout_ms = 10000\<rparr>"

datatype 'f speaker_gate_config_error =
    ModelPathRequired
  | ThresholdOutOfRange 'f
  | CheckShorterThanMinimum nat nat
  | OneRecheckWindow

definition validate_speaker_gate ::
  "'f float_ops \<Rightarrow> 'f speaker_gate_config \<Rightarrow> 'f speaker_gate_config_error option" where
  "validate_speaker_gate fl c =
     (if \<not> sg_enabled c then None
      else if (case sg_model_path c of None \<Rightarrow> True | Some p \<Rightarrow> trim p = []) then Some ModelPathRequired
      else if \<not> (fl_lt fl (fl_of_int fl 0) (sg_threshold c) \<and> fl_lt fl (sg_threshold c) (fl_of_int fl 1))
        then Some (ThresholdOutOfRange (sg_threshold c))
      else if sg_check_speech_ms c < sg_min_check_speech_ms c
        then Some (CheckShorterThanMinimum (sg_check_speech_ms c) (sg_min_check_speech_ms c))
      else if sg_recheck_on_other c \<and> sg_recheck_max_windows c = 1 then Some OneRecheckWindow
      else None)"

section \<open>VAD\<close>

datatype vad_sample_rate = Hz8000 | Hz16000

definition vad_sample_rate_as_u32 :: "vad_sample_rate \<Rightarrow> nat" where
  "vad_sample_rate_as_u32 r = (case r of Hz8000 \<Rightarrow> 8000 | Hz16000 \<Rightarrow> 16000)"

record 'f adaptive_vad_config =
  av_warmup_ms :: nat
  av_noise_window_ms :: nat
  av_noise_percentile :: nat
  av_noise_margin_db :: 'f
  av_use_speech_level :: bool
  av_hysteresis_db :: 'f
  av_min_threshold_dbfs :: 'f
  av_max_threshold_dbfs :: 'f
  av_stuck_active_ms :: nat

definition default_adaptive_vad_config :: "'f float_ops \<Rightarrow> 'f adaptive_vad_config" where
  "default_adaptive_vad_config fl = \<lparr>av_warmup_ms = 400, av_noise_window_ms = 3000,
     av_noise_percentile = 70, av_noise_margin_db = fl_of_int fl 6, av_use_speech_level = True,
     av_hysteresis_db = fl_of_int fl 3, av_min_threshold_dbfs = fl_of_int fl (- 50),
     av_max_threshold_dbfs = fl_of_int fl (- 10), av_stuck_active_ms = 8000\<rparr>"

datatype adaptive_vad_config_error =
    NoisePercentileRange
  | NoiseWindowTooShort
  | WarmupBeyondWindow
  | NoiseMarginRange
  | HysteresisRange
  | ThresholdOrder
  | MaxThresholdPositive
  | StuckActiveTooShort

text \<open>\<open>(0.0..=30.0).contains(&x)\<close>; \<open>partial_cmp\<close> is \<open>Less\<close> exactly when \<open><\<close> holds (never for NaN).\<close>

definition validate_adaptive_vad ::
  "'f float_ops \<Rightarrow> 'f adaptive_vad_config \<Rightarrow> adaptive_vad_config_error option" where
  "validate_adaptive_vad fl c =
     (let in_0_30 = (\<lambda>x. fl_le fl (fl_of_int fl 0) x \<and> fl_le fl x (fl_of_int fl 30))
      in if \<not> (1 \<le> av_noise_percentile c \<and> av_noise_percentile c \<le> 99) then Some NoisePercentileRange
         else if av_noise_window_ms c < 500 then Some NoiseWindowTooShort
         else if av_noise_window_ms c < av_warmup_ms c then Some WarmupBeyondWindow
         else if \<not> in_0_30 (av_noise_margin_db c) then Some NoiseMarginRange
         else if \<not> in_0_30 (av_hysteresis_db c) then Some HysteresisRange
         else if \<not> fl_lt fl (av_min_threshold_dbfs c) (av_max_threshold_dbfs c) then Some ThresholdOrder
         else if fl_lt fl (fl_of_int fl 0) (av_max_threshold_dbfs c) then Some MaxThresholdPositive
         else if av_stuck_active_ms c < 1000 then Some StuckActiveTooShort
         else None)"

record 'f vad_config =
  vc_enabled :: bool
  vc_provider :: ustring
  vc_threshold :: 'f
  vc_min_speech_duration_ms :: nat
  vc_min_silence_duration_ms :: nat
  vc_speech_pad_ms :: nat
  vc_sample_rate :: vad_sample_rate
  vc_barge_in :: barge_in_config
  vc_gate_stt :: bool
  vc_gate_stt_open_on_pending :: bool
  vc_stt_gate_hold_ms :: nat
  vc_stt_listen_timeout_ms :: nat
  vc_stt_listen_backlog_slack_ms :: nat
  vc_stt_listen_hard_timeout_ms :: nat
  vc_stt_open_wait_max_ms :: nat
  vc_utterance_finalize_timeout_ms :: nat
  vc_adaptive :: "'f adaptive_vad_config"

definition default_vad_config :: "'f float_ops \<Rightarrow> 'f vad_config" where
  "default_vad_config fl = \<lparr>vc_enabled = True, vc_provider = utext ''energy'',
     vc_threshold = fl_ratio fl 15 100, vc_min_speech_duration_ms = 250,
     vc_min_silence_duration_ms = 1100, vc_speech_pad_ms = 300, vc_sample_rate = Hz16000,
     vc_barge_in = default_barge_in_config, vc_gate_stt = False, vc_gate_stt_open_on_pending = True,
     vc_stt_gate_hold_ms = 400, vc_stt_listen_timeout_ms = 4000, vc_stt_listen_backlog_slack_ms = 200,
     vc_stt_listen_hard_timeout_ms = 0, vc_stt_open_wait_max_ms = 120000,
     vc_utterance_finalize_timeout_ms = 1500, vc_adaptive = default_adaptive_vad_config fl\<rparr>"

definition effective_stt_listen_hard_timeout_ms :: "'f vad_config \<Rightarrow> nat" where
  "effective_stt_listen_hard_timeout_ms vad =
     (if 0 < vc_stt_listen_hard_timeout_ms vad then vc_stt_listen_hard_timeout_ms vad
      else vc_stt_listen_timeout_ms vad * 3)"

section \<open>Vendors and transports\<close>

datatype stt_vendor = SttOpenai | SttDeepgram | SttElevenlabs | SttFishaudio | SttMistral | SttGoogle
  | SttAssemblyai | SttGroq | SttAzure | SttAws | SttLocalSherpa | SttClusterSherpa | SttMock

definition stt_vendor_as_str :: "stt_vendor \<Rightarrow> string" where
  "stt_vendor_as_str v =
     (case v of
        SttOpenai \<Rightarrow> ''openai'' | SttDeepgram \<Rightarrow> ''deepgram'' | SttElevenlabs \<Rightarrow> ''elevenlabs''
      | SttFishaudio \<Rightarrow> ''fishaudio'' | SttMistral \<Rightarrow> ''mistral'' | SttGoogle \<Rightarrow> ''google''
      | SttAssemblyai \<Rightarrow> ''assemblyai'' | SttGroq \<Rightarrow> ''groq'' | SttAzure \<Rightarrow> ''azure'' | SttAws \<Rightarrow> ''aws''
      | SttLocalSherpa \<Rightarrow> ''local-sherpa'' | SttClusterSherpa \<Rightarrow> ''cluster-sherpa'' | SttMock \<Rightarrow> ''mock'')"

datatype tts_vendor = TtsOpenai | TtsDeepgram | TtsElevenlabs | TtsGoogle | TtsCartesia | TtsFishaudio
  | TtsMistral | TtsGroq | TtsAzure | TtsAws | TtsLocalSherpa | TtsClusterSherpa | TtsMock

definition tts_vendor_as_str :: "tts_vendor \<Rightarrow> string" where
  "tts_vendor_as_str v =
     (case v of
        TtsOpenai \<Rightarrow> ''openai'' | TtsDeepgram \<Rightarrow> ''deepgram'' | TtsElevenlabs \<Rightarrow> ''elevenlabs''
      | TtsGoogle \<Rightarrow> ''google'' | TtsCartesia \<Rightarrow> ''cartesia'' | TtsFishaudio \<Rightarrow> ''fishaudio''
      | TtsMistral \<Rightarrow> ''mistral'' | TtsGroq \<Rightarrow> ''groq'' | TtsAzure \<Rightarrow> ''azure'' | TtsAws \<Rightarrow> ''aws''
      | TtsLocalSherpa \<Rightarrow> ''local-sherpa'' | TtsClusterSherpa \<Rightarrow> ''cluster-sherpa'' | TtsMock \<Rightarrow> ''mock'')"

datatype speech_transport = TransportAuto | Websocket | Http

definition transport_as_str :: "speech_transport \<Rightarrow> string" where
  "transport_as_str t = (case t of TransportAuto \<Rightarrow> ''auto'' | Websocket \<Rightarrow> ''websocket'' | Http \<Rightarrow> ''http'')"

definition transport_parse :: "ustring \<Rightarrow> speech_transport option" where
  "transport_parse value =
     (if value = utext ''auto'' then Some TransportAuto
      else if value = utext ''websocket'' then Some Websocket
      else if value = utext ''http'' then Some Http
      else None)"

record stt_config =
  sc_provider :: stt_vendor
  sc_model :: "ustring option"
  sc_model_path :: "ustring option"
  sc_language :: "ustring option"
  sc_api_key :: "ustring option"
  sc_endpoint :: "ustring option"
  sc_transport :: "speech_transport option"

datatype sentence_case = CaseAuto | CaseOff

definition sentence_case_as_wire :: "sentence_case \<Rightarrow> string" where
  "sentence_case_as_wire c = (case c of CaseAuto \<Rightarrow> ''auto'' | CaseOff \<Rightarrow> ''off'')"

definition to_ascii_lowercase :: "ustring \<Rightarrow> ustring" where
  "to_ascii_lowercase t = map (\<lambda>c. if 65 \<le> c \<and> c \<le> 90 then c + 32 else c) t"

definition eq_ignore_ascii_case :: "ustring \<Rightarrow> ustring \<Rightarrow> bool" where
  "eq_ignore_ascii_case a b \<longleftrightarrow> to_ascii_lowercase a = to_ascii_lowercase b"

definition sentence_case_from_wire :: "ustring \<Rightarrow> sentence_case" where
  "sentence_case_from_wire value =
     (if eq_ignore_ascii_case (trim value) (utext ''off'') then CaseOff else CaseAuto)"

record tts_config =
  tc_provider :: tts_vendor
  tc_model :: "ustring option"
  tc_model_path :: "ustring option"
  tc_voice :: "ustring option"
  tc_api_key :: "ustring option"
  tc_endpoint :: "ustring option"
  tc_transport :: "speech_transport option"
  tc_sentence_case :: sentence_case

section \<open>Language identification\<close>

datatype language_id_timing = EndOfUtterance | Early | Continuous

definition language_id_timing_parse :: "ustring \<Rightarrow> language_id_timing option" where
  "language_id_timing_parse value =
     (if value = utext ''end_of_utterance'' then Some EndOfUtterance
      else if value = utext ''early'' then Some Early
      else if value = utext ''continuous'' then Some Continuous
      else None)"

record language_id_config =
  li_enabled :: "bool option"
  li_model_path :: "ustring option"
  li_allowlist :: "ustring list option"
  li_min_speech_ms :: "nat option"
  li_continuous :: "bool option"
  li_timing :: "language_id_timing option"
  li_lid_max_clip_ms :: "nat option"
  li_lid_gate_max_wait_ms :: "nat option"
  li_tts_exclusion :: "bool option"

definition or_default :: "nat \<Rightarrow> nat option \<Rightarrow> nat" where
  "or_default d x = (case x of Some n \<Rightarrow> n | None \<Rightarrow> d)"

definition resolved_lid_max_clip_ms :: "language_id_config \<Rightarrow> nat" where
  "resolved_lid_max_clip_ms c = max 1 (or_default 5000 (li_lid_max_clip_ms c))"

definition resolved_lid_gate_max_wait_ms :: "language_id_config \<Rightarrow> nat" where
  "resolved_lid_gate_max_wait_ms c = max 1 (or_default 3000 (li_lid_gate_max_wait_ms c))"

definition lid_tts_exclusion_enabled :: "language_id_config option \<Rightarrow> tts_config option \<Rightarrow> bool" where
  "lid_tts_exclusion_enabled language_id tts =
     (case (case language_id of Some lid \<Rightarrow> li_tts_exclusion lid | None \<Rightarrow> None) of
        Some explicit \<Rightarrow> explicit
      | None \<Rightarrow> (case tts of Some cfg \<Rightarrow> tc_provider cfg = TtsLocalSherpa | None \<Rightarrow> False))"

definition language_id_enabled :: "language_id_config option \<Rightarrow> bool" where
  "language_id_enabled config =
     (case config of
        None \<Rightarrow> False
      | Some cfg \<Rightarrow>
          if li_enabled cfg = Some False then False
          else (case li_model_path cfg of Some path \<Rightarrow> trim path \<noteq> [] | None \<Rightarrow> False))"

definition resolved_language_id_min_speech_ms :: "language_id_config \<Rightarrow> nat" where
  "resolved_language_id_min_speech_ms c = max 1 (or_default 1000 (li_min_speech_ms c))"

definition effective_language_id_timing :: "language_id_config option \<Rightarrow> language_id_timing" where
  "effective_language_id_timing config =
     (case config of
        Some cfg \<Rightarrow>
          (case (li_timing cfg, li_continuous cfg) of
             (Some t, _) \<Rightarrow> t
           | (None, Some True) \<Rightarrow> Continuous
           | _ \<Rightarrow> EndOfUtterance)
      | None \<Rightarrow> EndOfUtterance)"

definition language_id_continuous :: "language_id_config option \<Rightarrow> bool" where
  "language_id_continuous config \<longleftrightarrow> effective_language_id_timing config = Continuous"

definition language_id_early :: "language_id_config option \<Rightarrow> bool" where
  "language_id_early config \<longleftrightarrow> effective_language_id_timing config = Early"

definition language_id_allowlist_accepts :: "language_id_config \<Rightarrow> ustring \<Rightarrow> bool" where
  "language_id_allowlist_accepts config language =
     (case li_allowlist config of
        None \<Rightarrow> True
      | Some codes \<Rightarrow>
          if codes = [] then True
          else
            (let normalized = to_ascii_lowercase (trim language)
             in list_ex (\<lambda>code. eq_ignore_ascii_case (trim code) normalized) codes))"

section \<open>The whole configuration\<close>

record 'f voice_agent_config =
  ag_vad :: "'f vad_config"
  ag_noise_suppression :: noise_suppression_provider
  ag_speaker_gate :: "'f speaker_gate_config"
  ag_events :: event_delivery_mode
  ag_stt :: "stt_config option"
  ag_tts :: "tts_config option"
  ag_language_id :: "language_id_config option"
  ag_post_utterance_silence_ms :: "nat option"
  ag_replay :: replay_config

definition resolved_post_utterance_silence_ms :: "'f voice_agent_config \<Rightarrow> nat" where
  "resolved_post_utterance_silence_ms config =
     (case ag_post_utterance_silence_ms config of
        Some d \<Rightarrow> d
      | None \<Rightarrow>
          saturating_add_u32
            (saturating_add_u32 (vc_stt_gate_hold_ms (ag_vad config)) (vc_min_silence_duration_ms (ag_vad config)))
            250)"

definition default_voice_agent_config :: "'f float_ops \<Rightarrow> 'f voice_agent_config" where
  "default_voice_agent_config fl = \<lparr>ag_vad = default_vad_config fl, ag_noise_suppression = NoSuppression,
     ag_speaker_gate = default_speaker_gate_config fl, ag_events = DeliverBoth,
     ag_stt = Some \<lparr>sc_provider = SttMock, sc_model = None, sc_model_path = None,
       sc_language = Some (utext ''en''), sc_api_key = None, sc_endpoint = None, sc_transport = None\<rparr>,
     ag_tts = Some \<lparr>tc_provider = TtsMock, tc_model = None, tc_model_path = None, tc_voice = None,
       tc_api_key = None, tc_endpoint = None, tc_transport = None, tc_sentence_case = CaseAuto\<rparr>,
     ag_language_id = None, ag_post_utterance_silence_ms = None, ag_replay = \<lparr>rc_max_age_ms = None\<rparr>\<rparr>"

record voice_session_context =
  sx_session_id :: "ustring option"
  sx_trace_id :: "ustring option"
  sx_project_id :: "ustring option"
  sx_org_id :: "ustring option"
  sx_build_id :: "ustring option"
  sx_traceparent :: "ustring option"

record send_text_to_tts_options =
  so_non_blocking :: bool
  so_interruptible :: bool
  so_reply_id :: "ustring option"

definition default_send_text_to_tts_options :: send_text_to_tts_options where
  "default_send_text_to_tts_options =
     \<lparr>so_non_blocking = False, so_interruptible = True, so_reply_id = None\<rparr>"

section \<open>What validation and resolution guarantee\<close>

lemma to_ascii_lowercase_idem [simp]: "to_ascii_lowercase (to_ascii_lowercase t) = to_ascii_lowercase t"
  by (simp add: to_ascii_lowercase_def)

lemma eq_ignore_ascii_case_lower [simp]:
  "eq_ignore_ascii_case a (to_ascii_lowercase b) = eq_ignore_ascii_case a b"
  by (simp add: eq_ignore_ascii_case_def)

text \<open>The wire names of transports and sentence cases round-trip.\<close>

lemma utext_inj [simp]: "utext a = utext b \<longleftrightarrow> a = b"
  by (auto simp: utext_def inj_map_eq_map inj_of_char)

lemma transport_roundtrip: "transport_parse (utext (transport_as_str t)) = Some t"
  by (cases t) (simp_all add: transport_parse_def transport_as_str_def)

lemma sentence_case_roundtrip: "sentence_case_from_wire (utext (sentence_case_as_wire c)) = c"
  by (cases c) (simp_all add: sentence_case_from_wire_def sentence_case_as_wire_def utext_def
      eq_ignore_ascii_case_def to_ascii_lowercase_def trim_id is_whitespace_def)

lemma stt_vendor_names_inj: "stt_vendor_as_str v = stt_vendor_as_str w \<Longrightarrow> v = w"
  by (cases v; cases w) (simp_all add: stt_vendor_as_str_def)

lemma tts_vendor_names_inj: "tts_vendor_as_str v = tts_vendor_as_str w \<Longrightarrow> v = w"
  by (cases v; cases w) (simp_all add: tts_vendor_as_str_def)

lemma resolved_limits:
  "1 \<le> resolved_replay_max_age_ms r \<and> resolved_replay_max_age_ms r \<le> 120000"
  "1 \<le> resolved_hold_max_buffer_ms m \<and> resolved_hold_max_buffer_ms m \<le> 120000"
  "1 \<le> resolve_min_stt_partial_tokens a b" "1 \<le> resolved_lid_max_clip_ms l"
  by (auto simp: resolved_replay_max_age_ms_def resolved_hold_max_buffer_ms_def clamp_def
      REPLAY_MAX_AGE_MS_CAP_def STT_HOLD_MAX_BUFFER_MS_CAP_def resolve_min_stt_partial_tokens_def
      resolved_lid_max_clip_ms_def)

end
