(* ===== verification/Stt_Pre_Roll.thy ===== *)
theory Stt_Pre_Roll
  imports Agent_Config Pcm
begin

text \<open>
  \<open>crates/speech/src/stt_pre_roll.rs\<close>: the ring of recent mono audio prepended when speech starts,
  and the retainer of short voiced bursts.
\<close>

section \<open>The pre-roll ring\<close>

definition PRE_ROLL_MAX_CONCEALED_MS :: nat where "PRE_ROLL_MAX_CONCEALED_MS = 500"

definition mono_s16le_bytes_for_duration_ms :: "nat \<Rightarrow> nat" where
  "mono_s16le_bytes_for_duration_ms d = STT_PCM_SAMPLE_RATE * d div 1000 * 2"

definition mono_duration_ms_from_bytes :: "nat \<Rightarrow> nat" where
  "mono_duration_ms_from_bytes n = max (n div 2 * 1000 div STT_PCM_SAMPLE_RATE) 1 mod 2 ^ 32"

record pre_roll =
  pr_max_bytes :: nat
  pr_max_concealed_bytes :: nat
  pr_data :: bytes
  pr_segments :: "(nat \<times> bool) list"
  pr_received_bytes :: nat
  pr_concealed_bytes :: nat

definition pre_roll_new :: "nat \<Rightarrow> pre_roll" where
  "pre_roll_new capacity_ms =
     \<lparr>pr_max_bytes = mono_s16le_bytes_for_duration_ms (max capacity_ms 1),
      pr_max_concealed_bytes = mono_s16le_bytes_for_duration_ms PRE_ROLL_MAX_CONCEALED_MS,
      pr_data = [], pr_segments = [], pr_received_bytes = 0, pr_concealed_bytes = 0\<rparr>"

definition stt_pre_roll_capacity_ms :: "'f vad_config \<Rightarrow> nat" where
  "stt_pre_roll_capacity_ms config =
     saturating_add_u32 (vc_speech_pad_ms config) (vc_min_speech_duration_ms config)"

definition pre_roll_from_vad_config :: "'f vad_config \<Rightarrow> pre_roll" where
  "pre_roll_from_vad_config config = pre_roll_new (stt_pre_roll_capacity_ms config)"

definition pre_roll_capacity_ms :: "pre_roll \<Rightarrow> nat" where
  "pre_roll_capacity_ms b = mono_duration_ms_from_bytes (pr_max_bytes b)"

definition segment_drop_len :: "nat \<Rightarrow> nat \<Rightarrow> nat" where
  "segment_drop_len want seg_len =
     (if seg_len \<le> want then seg_len else min (max ((want + 1) div 2 * 2) 2) seg_len)"

text \<open>
  \<open>None\<close> is a panic: a segment index or a drained range out of bounds, or a counter below zero.
\<close>

definition drop_from_segment :: "nat \<Rightarrow> nat \<Rightarrow> pre_roll \<Rightarrow> pre_roll option" where
  "drop_from_segment idx want b =
     (if length (pr_segments b) \<le> idx then None
      else
        (let (seg_len, seg_concealed) = pr_segments b ! idx;
             drop_len = segment_drop_len want seg_len;
             offset = sum_list (map fst (take idx (pr_segments b)))
         in if length (pr_data b) < offset + drop_len then None
            else if (if seg_concealed then pr_concealed_bytes b else pr_received_bytes b) < drop_len then None
            else
              (let b = b\<lparr>pr_data := take offset (pr_data b) @ drop (offset + drop_len) (pr_data b)\<rparr>;
                   b = (if seg_concealed then b\<lparr>pr_concealed_bytes := pr_concealed_bytes b - drop_len\<rparr>
                        else b\<lparr>pr_received_bytes := pr_received_bytes b - drop_len\<rparr>)
               in Some (if drop_len = seg_len
                        then b\<lparr>pr_segments := take idx (pr_segments b) @ drop (Suc idx) (pr_segments b)\<rparr>
                        else b\<lparr>pr_segments := (pr_segments b)[idx := (seg_len - drop_len, seg_concealed)]\<rparr>))))"

text \<open>\<open>segments.iter().position(|(_, c)| *c)\<close>\<close>

definition first_concealed :: "(nat \<times> bool) list \<Rightarrow> nat option" where
  "first_concealed segs =
     (let before = takeWhile (\<lambda>(_, c). \<not> c) segs
      in if length before < length segs then Some (length before) else None)"

text \<open>Every pass removes a segment or at least two bytes of one, so both trim loops end.\<close>

definition trim_size :: "pre_roll \<Rightarrow> nat" where
  "trim_size b = length (pr_segments b) + sum_list (map fst (pr_segments b))"

lemma segment_drop_len_bounds:
  "segment_drop_len want n \<le> n" "segment_drop_len want n = 0 \<longleftrightarrow> n = 0"
  by (auto simp: segment_drop_len_def)

lemma drop_from_segment_at:
  assumes "pr_segments b = xs @ (n, c) # ys" and "drop_from_segment (length xs) want b = Some b'"
  shows "pr_segments b' = xs @ (if segment_drop_len want n = n then [] else [(n - segment_drop_len want n, c)]) @ ys"
  using assms by (auto simp: drop_from_segment_def Let_def split: if_splits)

lemma drop_from_segment_index: "drop_from_segment i want b = Some b' \<Longrightarrow> i < length (pr_segments b)"
  by (auto simp: drop_from_segment_def split: if_splits)

lemma segment_split: "i < length xs \<Longrightarrow> \<exists>ys n c zs. xs = ys @ (n, c) # zs \<and> length ys = i"
  by (metis id_take_nth_drop length_take min.absorb2 nat_less_le prod.exhaust)

lemma drop_from_segment_smaller:
  assumes "drop_from_segment i want b = Some b'"
  shows "trim_size b' < trim_size b"
proof -
  obtain xs n c ys where s: "pr_segments b = xs @ (n, c) # ys" "length xs = i"
    using segment_split [OF drop_from_segment_index [OF assms]] by blast
  then show ?thesis
    using drop_from_segment_at [OF s(1), of want b'] assms segment_drop_len_bounds [of want n]
    by (auto simp: trim_size_def split: if_splits)
qed

function trim_received :: "pre_roll \<Rightarrow> pre_roll option" where
  "trim_received b =
     (if pr_max_bytes b < pr_received_bytes b then
        (case drop_from_segment 0 (pr_received_bytes b - pr_max_bytes b) b of
           None \<Rightarrow> None
         | Some b' \<Rightarrow> trim_received b')
      else Some b)"
  by pat_completeness auto
termination
  by (relation "measure trim_size") (auto dest: drop_from_segment_smaller)

function trim_concealed :: "pre_roll \<Rightarrow> pre_roll option" where
  "trim_concealed b =
     (if pr_max_concealed_bytes b < pr_concealed_bytes b then
        (case first_concealed (pr_segments b) of
           None \<Rightarrow> Some b
         | Some idx \<Rightarrow>
             (case drop_from_segment idx (pr_concealed_bytes b - pr_max_concealed_bytes b) b of
                None \<Rightarrow> None
              | Some b' \<Rightarrow> trim_concealed b'))
      else Some b)"
  by pat_completeness auto
termination
  by (relation "measure trim_size") (auto dest: drop_from_segment_smaller)

declare trim_received.simps [simp del] trim_concealed.simps [simp del]

definition push_frame :: "bytes \<Rightarrow> bool \<Rightarrow> pre_roll \<Rightarrow> pre_roll option" where
  "push_frame mono_bytes concealed b =
     (if mono_bytes = [] then Some b
      else
        (let b = b\<lparr>pr_data := pr_data b @ mono_bytes,
                   pr_segments := pr_segments b @ [(length mono_bytes, concealed)]\<rparr>;
             b = (if concealed then b\<lparr>pr_concealed_bytes := pr_concealed_bytes b + length mono_bytes\<rparr>
                  else b\<lparr>pr_received_bytes := pr_received_bytes b + length mono_bytes\<rparr>)
         in case trim_received b of None \<Rightarrow> None | Some b' \<Rightarrow> trim_concealed b'))"

definition pre_roll_push :: "bytes \<Rightarrow> pre_roll \<Rightarrow> pre_roll option" where
  "pre_roll_push mono_bytes b = push_frame mono_bytes False b"

definition reset_counters :: "pre_roll \<Rightarrow> pre_roll" where
  "reset_counters b = b\<lparr>pr_segments := [], pr_received_bytes := 0, pr_concealed_bytes := 0\<rparr>"

definition pre_roll_drain :: "pre_roll \<Rightarrow> bytes \<times> pre_roll" where
  "pre_roll_drain b =
     (if pr_data b = [] then ([], b) else (pr_data b, (reset_counters b)\<lparr>pr_data := []\<rparr>))"

definition drain_padded_to_capacity :: "pre_roll \<Rightarrow> bytes \<times> pre_roll" where
  "drain_padded_to_capacity b =
     (if pr_data b = [] then ([], b)
      else if pr_max_bytes b \<le> pr_received_bytes b then pre_roll_drain b
      else
        (let even_pad_len = (pr_max_bytes b - pr_received_bytes b) div 2 * 2
         in (replicate even_pad_len 0 @ pr_data b, (reset_counters b)\<lparr>pr_data := []\<rparr>)))"

definition pad_ms_for_len :: "pre_roll \<Rightarrow> nat" where
  "pad_ms_for_len b =
     (if pr_data b = [] \<or> pr_max_bytes b \<le> pr_received_bytes b then 0
      else mono_duration_ms_from_bytes (pr_max_bytes b - pr_received_bytes b))"

definition pre_roll_clear :: "pre_roll \<Rightarrow> pre_roll" where
  "pre_roll_clear b = reset_counters (b\<lparr>pr_data := []\<rparr>)"

section \<open>The counters are exact and the ring is bounded\<close>

definition seg_bytes :: "bool \<Rightarrow> (nat \<times> bool) list \<Rightarrow> nat" where
  "seg_bytes c segs = sum_list (map fst (filter (\<lambda>s. snd s = c) segs))"

lemma seg_bytes_simps [simp]:
  "seg_bytes c [] = 0" "seg_bytes c (xs @ ys) = seg_bytes c xs + seg_bytes c ys"
  "seg_bytes c ((n, d) # xs) = (if d = c then n else 0) + seg_bytes c xs"
  by (simp_all add: seg_bytes_def)

lemma seg_bytes_total: "seg_bytes False segs + seg_bytes True segs = sum_list (map fst segs)"
  by (induction segs) auto

definition pr_counts :: "pre_roll \<Rightarrow> bool" where
  "pr_counts b \<longleftrightarrow> length (pr_data b) = sum_list (map fst (pr_segments b)) \<and>
     pr_received_bytes b = seg_bytes False (pr_segments b) \<and>
     pr_concealed_bytes b = seg_bytes True (pr_segments b)"

definition same_limits :: "pre_roll \<Rightarrow> pre_roll \<Rightarrow> bool" where
  "same_limits b b' \<longleftrightarrow> pr_max_bytes b' = pr_max_bytes b \<and> pr_max_concealed_bytes b' = pr_max_concealed_bytes b"

lemma drop_from_segment_counts:
  assumes "pr_counts b" and s: "pr_segments b = xs @ (n, c) # ys"
  shows "\<exists>b'. drop_from_segment (length xs) want b = Some b' \<and> pr_counts b' \<and> same_limits b b' \<and>
    pr_received_bytes b' + (if c then 0 else segment_drop_len want n) = pr_received_bytes b \<and>
    pr_concealed_bytes b' + (if c then segment_drop_len want n else 0) = pr_concealed_bytes b \<and>
    pr_data b' = take (sum_list (map fst xs)) (pr_data b) @
      drop (sum_list (map fst xs) + segment_drop_len want n) (pr_data b)"
proof -
  let ?d = "segment_drop_len want n"
  have d: "?d \<le> n" by (rule segment_drop_len_bounds)
  have len: "length (pr_data b) = sum_list (map fst xs) + n + sum_list (map fst ys)"
    "pr_received_bytes b = seg_bytes False xs + (if c then 0 else n) + seg_bytes False ys"
    "pr_concealed_bytes b = seg_bytes True xs + (if c then n else 0) + seg_bytes True ys"
    using assms by (auto simp: pr_counts_def)
  with d s show ?thesis
    by (cases c; cases "?d = n") (simp_all add: drop_from_segment_def Let_def pr_counts_def same_limits_def)
qed

lemma trim_received_counts:
  assumes "pr_counts b"
  shows "\<exists>b'. trim_received b = Some b' \<and> pr_counts b' \<and> same_limits b b' \<and>
    pr_received_bytes b' \<le> pr_max_bytes b \<and> pr_concealed_bytes b' \<le> pr_concealed_bytes b"
  using assms
proof (induction b rule: trim_received.induct)
  case (1 b)
  show ?case
  proof (cases "pr_max_bytes b < pr_received_bytes b")
    case True
    let ?over = "pr_received_bytes b - pr_max_bytes b"
    from True "1.prems" obtain n c ys where s: "pr_segments b = [] @ (n, c) # ys"
      by (cases "pr_segments b") (auto simp: pr_counts_def)
    obtain b1 where b1: "drop_from_segment 0 ?over b = Some b1" "pr_counts b1" "same_limits b b1"
        "pr_concealed_bytes b1 \<le> pr_concealed_bytes b"
      using drop_from_segment_counts [OF "1.prems" s, of ?over] by auto
    from "1.IH" [OF True b1(1,2)] b1 True show ?thesis
      by (auto simp: trim_received.simps [of b] same_limits_def)
  next
    case False
    with "1.prems" show ?thesis by (simp add: trim_received.simps same_limits_def)
  qed
qed

lemma first_concealed_SomeD:
  assumes "first_concealed segs = Some i"
  shows "\<exists>xs n ys. segs = xs @ (n, True) # ys \<and> length xs = i"
proof -
  let ?p = "\<lambda>(_, c). \<not> c"
  have i: "i = length (takeWhile ?p segs)" "dropWhile ?p segs \<noteq> []"
    using assms by (auto simp: first_concealed_def Let_def dropWhile_eq_Nil_conv takeWhile_eq_all_conv
        split: if_splits) (metis less_irrefl takeWhile_eq_all_conv)
  then obtain n c ys where "dropWhile ?p segs = (n, c) # ys" by (cases "dropWhile ?p segs") auto
  with i hd_dropWhile [of ?p segs] have "segs = takeWhile ?p segs @ (n, True) # ys"
    by (metis (mono_tags, lifting) case_prodI list.sel(1) takeWhile_dropWhile_id)
  with i(1) show ?thesis by blast
qed

lemma first_concealed_NoneD: "first_concealed segs = None \<Longrightarrow> seg_bytes True segs = 0"
proof -
  assume "first_concealed segs = None"
  then have "length (takeWhile (\<lambda>(_, c). \<not> c) segs) = length segs"
    using length_takeWhile_le [of "\<lambda>(_, c). \<not> c" segs]
    by (auto simp: first_concealed_def Let_def split: if_splits)
  then have "\<forall>s \<in> set segs. \<not> snd s"
    by (metis (mono_tags, lifting) length_takeWhile_le nth_mem split_beta takeWhile_eq_all_conv takeWhile_eq_take take_all)
  then show ?thesis by (auto simp: seg_bytes_def filter_empty_conv)
qed

lemma trim_concealed_counts:
  assumes "pr_counts b"
  shows "\<exists>b'. trim_concealed b = Some b' \<and> pr_counts b' \<and> same_limits b b' \<and>
    pr_concealed_bytes b' \<le> pr_max_concealed_bytes b \<and> pr_received_bytes b' = pr_received_bytes b"
  using assms
proof (induction b rule: trim_concealed.induct)
  case (1 b)
  show ?case
  proof (cases "pr_max_concealed_bytes b < pr_concealed_bytes b")
    case True
    let ?over = "pr_concealed_bytes b - pr_max_concealed_bytes b"
    from True "1.prems" obtain i where i: "first_concealed (pr_segments b) = Some i"
      by (cases "first_concealed (pr_segments b)") (auto simp: pr_counts_def dest: first_concealed_NoneD)
    then obtain xs n ys where s: "pr_segments b = xs @ (n, True) # ys" "length xs = i"
      using first_concealed_SomeD by blast
    obtain b1 where b1: "drop_from_segment i ?over b = Some b1" "pr_counts b1" "same_limits b b1"
        "pr_received_bytes b1 = pr_received_bytes b"
      using drop_from_segment_counts [OF "1.prems" s(1), of ?over] s(2) by auto
    from "1.IH" [OF True i b1(1,2)] b1 True i show ?thesis
      by (auto simp: trim_concealed.simps [of b] same_limits_def)
  next
    case False
    with "1.prems" show ?thesis by (simp add: trim_concealed.simps same_limits_def)
  qed
qed

datatype pre_roll_op = PFrame bytes bool | PDrain | PDrainPadded | PClear

fun pre_roll_step :: "pre_roll \<Rightarrow> pre_roll_op \<Rightarrow> (pre_roll \<times> bytes list) option" where
  "pre_roll_step b (PFrame f concealed) = map_option (\<lambda>b'. (b', [])) (push_frame f concealed b)"
| "pre_roll_step b PDrain = (let (out, b') = pre_roll_drain b in Some (b', [out]))"
| "pre_roll_step b PDrainPadded = (let (out, b') = drain_padded_to_capacity b in Some (b', [out]))"
| "pre_roll_step b PClear = Some (pre_roll_clear b, [])"

definition pre_roll_inv :: "nat \<Rightarrow> pre_roll \<Rightarrow> bool" where
  "pre_roll_inv capacity_ms b \<longleftrightarrow> pr_counts b \<and> same_limits (pre_roll_new capacity_ms) b \<and>
     pr_received_bytes b \<le> pr_max_bytes b \<and> pr_concealed_bytes b \<le> pr_max_concealed_bytes b"

lemma push_frame_inv:
  assumes "pre_roll_inv cap b"
  shows "\<exists>b'. push_frame f concealed b = Some b' \<and> pre_roll_inv cap b'"
proof (cases "f = []")
  case True
  with assms show ?thesis by (simp add: push_frame_def)
next
  case False
  let ?b = "b\<lparr>pr_data := pr_data b @ f, pr_segments := pr_segments b @ [(length f, concealed)]\<rparr>"
  let ?b1 = "if concealed then ?b\<lparr>pr_concealed_bytes := pr_concealed_bytes ?b + length f\<rparr>
    else ?b\<lparr>pr_received_bytes := pr_received_bytes ?b + length f\<rparr>"
  have c: "pr_counts ?b1" "same_limits (pre_roll_new cap) ?b1"
    using assms by (auto simp: pre_roll_inv_def pr_counts_def same_limits_def)
  obtain b2 where b2: "trim_received ?b1 = Some b2" "pr_counts b2" "same_limits ?b1 b2"
      "pr_received_bytes b2 \<le> pr_max_bytes ?b1"
    using trim_received_counts [OF c(1)] by blast
  obtain b3 where b3: "trim_concealed b2 = Some b3" "pr_counts b3" "same_limits b2 b3"
      "pr_concealed_bytes b3 \<le> pr_max_concealed_bytes b2" "pr_received_bytes b3 = pr_received_bytes b2"
    using trim_concealed_counts [OF b2(2)] by blast
  have "push_frame f concealed b = Some b3"
    using False b2(1) b3(1) by (simp add: push_frame_def)
  moreover have "pre_roll_inv cap b3"
    using c(2) b2(3,4) b3 by (simp add: pre_roll_inv_def same_limits_def)
  ultimately show ?thesis by blast
qed

lemma reset_inv: "pre_roll_inv cap b \<Longrightarrow> pre_roll_inv cap ((reset_counters b)\<lparr>pr_data := []\<rparr>)"
  by (simp add: pre_roll_inv_def pr_counts_def same_limits_def reset_counters_def)

interpretation pre_roll: component pre_roll_step "pre_roll_inv cap" for cap
proof unfold_locales
  fix b op
  assume inv: "pre_roll_inv cap b"
  show "\<exists>b' out. pre_roll_step b op = Some (b', out) \<and> pre_roll_inv cap b'"
  proof (cases op)
    case (PFrame f c)
    with push_frame_inv [OF inv, of f c] show ?thesis by auto
  next
    case PClear
    with inv show ?thesis
      by (simp add: pre_roll_clear_def reset_counters_def pre_roll_inv_def pr_counts_def same_limits_def)
  qed (use inv reset_inv [OF inv] in
      \<open>simp_all add: pre_roll_drain_def drain_padded_to_capacity_def\<close>)
qed

lemma pre_roll_new_inv: "pre_roll_inv cap (pre_roll_new cap)"
  by (simp add: pre_roll_inv_def pr_counts_def same_limits_def pre_roll_new_def)

text \<open>
  whatever frames are pushed and however the ring is drained, the trim loops end without a
  panic, the ring holds exactly the bytes its segments and counters say, at most the capacity of
  received audio and at most 500 ms (16000 bytes) of concealed audio.
\<close>

theorem pre_roll_bounded:
  "\<exists>b outs. run_ops pre_roll_step (pre_roll_new capacity_ms) ops = Some (b, outs) \<and>
     length (pr_data b) = sum_list (map fst (pr_segments b)) \<and>
     pr_received_bytes b = seg_bytes False (pr_segments b) \<and>
     pr_concealed_bytes b = seg_bytes True (pr_segments b) \<and>
     pr_received_bytes b \<le> 32 * max capacity_ms 1 \<and> pr_concealed_bytes b \<le> 16000"
proof -
  obtain b outs where r: "run_ops pre_roll_step (pre_roll_new capacity_ms) ops = Some (b, outs)"
      "pre_roll_inv capacity_ms b"
    using pre_roll.run_ok [OF pre_roll_new_inv] by blast
  moreover have "pr_max_bytes (pre_roll_new capacity_ms) = 32 * max capacity_ms 1"
    by (simp add: pre_roll_new_def mono_s16le_bytes_for_duration_ms_def STT_PCM_SAMPLE_RATE_def max_def)
  moreover have "pr_max_concealed_bytes (pre_roll_new capacity_ms) = 16000"
    by (simp add: pre_roll_new_def mono_s16le_bytes_for_duration_ms_def STT_PCM_SAMPLE_RATE_def
        PRE_ROLL_MAX_CONCEALED_MS_def)
  ultimately show ?thesis by (auto simp: pre_roll_inv_def pr_counts_def same_limits_def)
qed

section \<open>Without loss the ring is a plain FIFO of the newest audio\<close>

definition plain_ring :: "nat \<Rightarrow> pre_roll \<Rightarrow> bool" where
  "plain_ring cap b \<longleftrightarrow> pre_roll_inv cap b \<and> (\<forall>s \<in> set (pr_segments b). \<not> snd s \<and> even (fst s))"

lemma plain_seg_bytes: "\<forall>s \<in> set segs. \<not> snd s \<and> even (fst s) \<Longrightarrow>
    seg_bytes True segs = 0 \<and> seg_bytes False segs = sum_list (map fst segs) \<and> even (seg_bytes False segs)"
  by (induction segs) auto

lemma segment_drop_len_even: "even want \<Longrightarrow> 0 < want \<Longrightarrow> even n \<Longrightarrow> segment_drop_len want n = min want n"
  by (auto simp: segment_drop_len_def elim!: evenE)

lemma trim_received_fifo:
  assumes "pr_counts b" and "\<forall>s \<in> set (pr_segments b). \<not> snd s \<and> even (fst s)" and "even (pr_max_bytes b)"
  shows "\<exists>b'. trim_received b = Some b' \<and> pr_data b' = keep_last (pr_max_bytes b) (pr_data b) \<and>
    (\<forall>s \<in> set (pr_segments b'). \<not> snd s \<and> even (fst s))"
  using assms
proof (induction b rule: trim_received.induct)
  case (1 b)
  note p = plain_seg_bytes [OF "1.prems"(2)]
  have r: "pr_received_bytes b = length (pr_data b)" using "1.prems"(1) p by (simp add: pr_counts_def)
  have r2: "even (pr_received_bytes b)" using "1.prems"(1) p unfolding pr_counts_def by metis
  show ?case
  proof (cases "pr_max_bytes b < pr_received_bytes b")
    case True
    let ?over = "pr_received_bytes b - pr_max_bytes b"
    have over: "even ?over" "0 < ?over" using True r2 "1.prems"(3) by simp_all
    from True "1.prems"(1) obtain n c ys where s: "pr_segments b = [] @ (n, c) # ys"
      by (cases "pr_segments b") (auto simp: pr_counts_def)
    have n: "even n" "\<not> c" using "1.prems"(2) s by auto
    let ?d = "segment_drop_len ?over n"
    have d: "?d = min ?over n" by (rule segment_drop_len_even [OF over n(1)])
    then have ed: "even ?d" "?d \<le> ?over" using over(1) n(1) by (auto simp: min_def)
    obtain b1 where b1: "drop_from_segment 0 ?over b = Some b1" "pr_counts b1" "same_limits b b1"
        "pr_data b1 = drop ?d (pr_data b)"
      using drop_from_segment_counts [OF "1.prems"(1) s, of ?over] by auto
    have "pr_segments b1 = (if ?d = n then [] else [(n - ?d, c)]) @ ys"
      using drop_from_segment_at [OF s, of ?over b1] b1(1) by simp
    with "1.prems"(2) s ed(1) n have ev: "\<forall>s \<in> set (pr_segments b1). \<not> snd s \<and> even (fst s)"
      by auto
    have "keep_last (pr_max_bytes b) (pr_data b1) = keep_last (pr_max_bytes b) (pr_data b)"
      using ed(2) r b1(4) True by (simp add: keep_last_def)
    with "1.IH" [OF True b1(1,2) ev] "1.prems"(3) b1 True show ?thesis
      by (auto simp: trim_received.simps [of b] same_limits_def)
  next
    case False
    with "1.prems" r show ?thesis by (simp add: trim_received.simps keep_last_def)
  qed
qed

lemma keep_last_append: "keep_last m (keep_last m xs @ ys) = keep_last m (xs @ ys)"
  by (cases "length xs \<le> m") (simp_all add: keep_last_def add.commute)

lemma keep_last_short: "length xs \<le> m \<Longrightarrow> keep_last m xs = xs"
  by (simp add: keep_last_def)

lemma push_frame_fifo:
  assumes b: "plain_ring cap b" and f: "even (length f)" and m: "pr_max_bytes b = 32 * max cap 1"
  shows "\<exists>b'. push_frame f False b = Some b' \<and> plain_ring cap b' \<and>
    pr_data b' = keep_last (32 * max cap 1) (pr_data b @ f) \<and> pr_max_bytes b' = 32 * max cap 1"
proof (cases "f = []")
  case True
  have "length (pr_data b) \<le> 32 * max cap 1"
    using b m plain_seg_bytes [of "pr_segments b"] by (auto simp: plain_ring_def pre_roll_inv_def pr_counts_def)
  with True b m show ?thesis by (simp add: push_frame_def keep_last_short)
next
  case False
  let ?b1 = "b\<lparr>pr_data := pr_data b @ f, pr_segments := pr_segments b @ [(length f, False)],
     pr_received_bytes := pr_received_bytes b + length f\<rparr>"
  have c: "pr_counts ?b1" "\<forall>s \<in> set (pr_segments ?b1). \<not> snd s \<and> even (fst s)" "even (pr_max_bytes ?b1)"
    using b f m by (auto simp: plain_ring_def pre_roll_inv_def pr_counts_def)
  obtain b2 where b2: "trim_received ?b1 = Some b2" "pr_data b2 = keep_last (pr_max_bytes b) (pr_data b @ f)"
      "\<forall>s \<in> set (pr_segments b2). \<not> snd s \<and> even (fst s)"
    using trim_received_fifo [OF c] by auto
  have "pr_counts b2" "same_limits ?b1 b2" using trim_received_counts [OF c(1)] b2(1) by auto
  then have t: "trim_concealed b2 = Some b2"
    using plain_seg_bytes [OF b2(3)] by (simp add: trim_concealed.simps pr_counts_def)
  then have p: "push_frame f False b = Some b2" using False b2(1) by (simp add: push_frame_def)
  moreover obtain b3 where "push_frame f False b = Some b3" "pre_roll_inv cap b3"
    using push_frame_inv [of cap b f False] b by (auto simp: plain_ring_def)
  ultimately show ?thesis
    using b2(2,3) m \<open>same_limits ?b1 b2\<close> by (auto simp: plain_ring_def same_limits_def)
qed

text \<open>
  C38: without concealed frames the ring is the reference FIFO: after any whole-sample frames it
  holds exactly the newest \<open>max capacity_ms 1\<close> milliseconds of what was pushed.
\<close>

theorem pre_roll_is_fifo:
  assumes "\<forall>f \<in> set frames. even (length f)"
  shows "\<exists>b. run_ops pre_roll_step (pre_roll_new capacity_ms) (map (\<lambda>f. PFrame f False) frames) = Some (b, []) \<and>
    pr_data b = keep_last (32 * max capacity_ms 1) (concat frames)"
proof -
  have "plain_ring capacity_ms b \<Longrightarrow> pr_max_bytes b = 32 * max capacity_ms 1 \<Longrightarrow>
      pr_data b = keep_last (32 * max capacity_ms 1) x \<Longrightarrow>
      \<exists>b'. run_ops pre_roll_step b (map (\<lambda>f. PFrame f False) frames) = Some (b', []) \<and>
        pr_data b' = keep_last (32 * max capacity_ms 1) (x @ concat frames)" for b x
    using assms
  proof (induction frames arbitrary: b x)
    case (Cons f fs)
    from push_frame_fifo [OF Cons.prems(1) _ Cons.prems(2), of f] Cons.prems(4) obtain b1 where
      b1: "push_frame f False b = Some b1" "plain_ring capacity_ms b1"
        "pr_data b1 = keep_last (32 * max capacity_ms 1) (pr_data b @ f)"
        "pr_max_bytes b1 = 32 * max capacity_ms 1" by auto
    from Cons.IH [OF b1(2,4), of "x @ f"] b1(3) Cons.prems(3,4) obtain b2 where
      "run_ops pre_roll_step b1 (map (\<lambda>f. PFrame f False) fs) = Some (b2, [])"
      "pr_data b2 = keep_last (32 * max capacity_ms 1) ((x @ f) @ concat fs)"
      by (auto simp: keep_last_append)
    with b1(1) show ?case by simp
  qed auto
  moreover have "pr_max_bytes (pre_roll_new capacity_ms) = 32 * max capacity_ms 1"
    "pr_data (pre_roll_new capacity_ms) = []" "pr_segments (pre_roll_new capacity_ms) = []"
    by (simp_all add: pre_roll_new_def mono_s16le_bytes_for_duration_ms_def STT_PCM_SAMPLE_RATE_def max_def)
  ultimately show ?thesis
    using pre_roll_new_inv [of capacity_ms]
    by (metis append_Nil empty_iff keep_last_short le0 list.set(1) list.size(3) plain_ring_def)
qed

theorem pre_roll_is_fifo_witness:
  "\<exists>b. run_ops pre_roll_step (pre_roll_new 1)
     (map (\<lambda>f. PFrame f False) [replicate 20 1, replicate 20 2, [3, 4]]) = Some (b, []) \<and>
   pr_data b = replicate 10 1 @ replicate 20 2 @ [3, 4]"
proof -
  have "\<forall>f \<in> set [replicate 20 1, replicate 20 2, [3, 4 :: byte]]. even (length f)" by simp
  from pre_roll_is_fifo [OF this, of 1] show ?thesis
    by (simp add: keep_last_def eval_nat_numeral)
qed

section \<open>Short voiced bursts\<close>

definition SHORT_BURST_RETAIN_MS :: nat where "SHORT_BURST_RETAIN_MS = 3000"
definition SHORT_BURST_MAX_AUDIO_MS :: nat where "SHORT_BURST_MAX_AUDIO_MS = 1500"
definition SHORT_BURST_SEPARATOR_MS :: nat where "SHORT_BURST_SEPARATOR_MS = 200"

record burst_retainer =
  br_current :: bytes
  br_retained :: bytes
  br_since_retained_end_ms :: nat

definition retainer_new :: burst_retainer where
  "retainer_new = \<lparr>br_current = [], br_retained = [], br_since_retained_end_ms = 0\<rparr>"

definition cap_bytes :: nat where
  "cap_bytes = mono_s16le_bytes_for_duration_ms SHORT_BURST_MAX_AUDIO_MS"

text \<open>The \<open>if !self.current.is_empty()\<close> part of \<open>on_frame\<close>: the burst ended.\<close>

definition burst_ended :: "burst_retainer \<Rightarrow> burst_retainer" where
  "burst_ended r =
     (if br_current r = [] then r
      else
        (let gap = (if br_retained r = [] then 0
                    else mono_s16le_bytes_for_duration_ms
                      (br_since_retained_end_ms r - mono_duration_ms_from_bytes (length (br_current r))));
             joined = br_retained r @ replicate gap 0 @ br_current r;
             retained = (if cap_bytes < length joined
                         then drop ((length joined - cap_bytes + 1) div 2 * 2) joined
                         else joined)
         in \<lparr>br_current = [], br_retained = retained, br_since_retained_end_ms = 0\<rparr>))"

definition retainer_on_frame :: "bytes \<Rightarrow> bool \<Rightarrow> nat \<Rightarrow> burst_retainer \<Rightarrow> burst_retainer" where
  "retainer_on_frame mono_bytes voiced_pending duration r =
     (if voiced_pending then
        r\<lparr>br_current := br_current r @ mono_bytes,
          br_since_retained_end_ms := (if br_retained r = [] then br_since_retained_end_ms r
            else saturating_add_u32 (br_since_retained_end_ms r) duration)\<rparr>
      else
        (let r = burst_ended r
         in if br_retained r = [] then r
            else
              (let since = saturating_add_u32 (br_since_retained_end_ms r) duration
               in if SHORT_BURST_RETAIN_MS < since
                  then r\<lparr>br_retained := [], br_since_retained_end_ms := 0\<rparr>
                  else r\<lparr>br_since_retained_end_ms := since\<rparr>)))"

definition take_for_new_stream :: "nat \<Rightarrow> burst_retainer \<Rightarrow> (bytes \<times> bool) option \<times> burst_retainer" where
  "take_for_new_stream ring_capacity_ms r =
     ((if br_retained r = [] then None
       else
         (let retained_ms = mono_duration_ms_from_bytes (length (br_retained r));
              in_ring_ms = min (ring_capacity_ms - br_since_retained_end_ms r) retained_ms;
              out_ms = retained_ms - in_ring_ms
          in if out_ms = 0 then None
             else Some (take (min (mono_s16le_bytes_for_duration_ms out_ms) (length (br_retained r))) (br_retained r),
                        0 < in_ring_ms))),
      retainer_new)"

text \<open>The retained audio never exceeds 1.5 s.\<close>

lemma drop_to_cap: "m < length j \<Longrightarrow> length (drop (Suc (length j - m) div 2 * 2) j) \<le> m"
  by (simp only: length_drop)

lemma burst_ended_cap: "length (br_retained r) \<le> cap_bytes \<Longrightarrow> length (br_retained (burst_ended r)) \<le> cap_bytes"
  unfolding burst_ended_def Let_def
  by (auto intro: drop_to_cap simp del: drop_append length_append length_drop)

lemma retainer_cap:
  "length (br_retained r) \<le> cap_bytes \<Longrightarrow> length (br_retained (retainer_on_frame m v d r)) \<le> cap_bytes"
  using burst_ended_cap [of r] by (simp add: retainer_on_frame_def Let_def)

end
