(* ===== verification/Turn_Latency.thy ===== *)
theory Turn_Latency
  imports Prelude
begin

text \<open>
  \<open>crates/speech/src/turn_latency.rs\<close>: how long a caller waits for an answer.  The conversion of a
  duration to \<open>f64\<close> milliseconds is the argument \<open>as_ms\<close>.
\<close>

section \<open>State and operations\<close>

record 'f reply_timings =
  rt_final_to_audio_ms :: 'f
  rt_turn_response_ms :: "'f option"

record turn_latency_tracker =
  tl_speech_end_at :: "instant option"
  tl_final_at :: "instant option"
  tl_finalize_recorded :: bool

definition ms_between :: "(duration \<Rightarrow> 'f) \<Rightarrow> instant \<Rightarrow> instant \<Rightarrow> 'f" where
  "ms_between as_ms later earlier = as_ms (saturating_duration_since later earlier)"

definition tracker_new :: turn_latency_tracker where
  "tracker_new = \<lparr>tl_speech_end_at = None, tl_final_at = None, tl_finalize_recorded = False\<rparr>"

definition tracker_reset :: "turn_latency_tracker \<Rightarrow> turn_latency_tracker" where
  "tracker_reset t = t\<lparr>tl_speech_end_at := None, tl_final_at := None, tl_finalize_recorded := False\<rparr>"

text \<open>\<open>Some Abandoned\<close> is \<open>True\<close>.\<close>

definition abandon_if_answered_final :: "turn_latency_tracker \<Rightarrow> bool \<times> turn_latency_tracker" where
  "abandon_if_answered_final t = (if tl_final_at t \<noteq> None then (True, tracker_reset t) else (False, t))"

definition on_speech_start :: "turn_latency_tracker \<Rightarrow> bool \<times> turn_latency_tracker" where
  "on_speech_start t = abandon_if_answered_final t"

definition on_speech_end :: "instant \<Rightarrow> turn_latency_tracker \<Rightarrow> turn_latency_tracker" where
  "on_speech_end now t = t\<lparr>tl_speech_end_at := Some now, tl_final_at := None, tl_finalize_recorded := False\<rparr>"

definition on_stt_final :: "(duration \<Rightarrow> 'f) \<Rightarrow> instant \<Rightarrow> turn_latency_tracker \<Rightarrow> 'f option \<times> turn_latency_tracker" where
  "on_stt_final as_ms now t =
     (let (finalize_ms, t) =
        (case tl_speech_end_at t of
           Some speech_end \<Rightarrow>
             if \<not> tl_finalize_recorded t
             then (Some (ms_between as_ms now speech_end), t\<lparr>tl_finalize_recorded := True\<rparr>)
             else (None, t)
         | None \<Rightarrow> (None, t))
      in (finalize_ms, t\<lparr>tl_final_at := Some now\<rparr>))"

definition on_first_reply_audio ::
  "(duration \<Rightarrow> 'f) \<Rightarrow> instant \<Rightarrow> turn_latency_tracker \<Rightarrow> 'f reply_timings option \<times> turn_latency_tracker" where
  "on_first_reply_audio as_ms now t =
     (case tl_final_at t of
        None \<Rightarrow> (None, t)
      | Some final_at \<Rightarrow>
          (Some \<lparr>rt_final_to_audio_ms = ms_between as_ms now final_at,
                 rt_turn_response_ms = map_option (ms_between as_ms now) (tl_speech_end_at t)\<rparr>,
           tracker_reset t))"

definition on_barge_in :: "turn_latency_tracker \<Rightarrow> bool \<times> turn_latency_tracker" where
  "on_barge_in t = abandon_if_answered_final t"

section \<open>Every turn is measured at most once\<close>

datatype latency_op = LSpeechStart | LSpeechEnd instant | LFinal instant | LReplyAudio instant | LBargeIn

datatype 'f latency_event =
    Turn_started | Final_seen | Finalized 'f | Replied "'f reply_timings" | Turn_abandoned

fun latency_step :: "(duration \<Rightarrow> 'f) \<Rightarrow> turn_latency_tracker \<Rightarrow> latency_op \<Rightarrow>
    (turn_latency_tracker \<times> 'f latency_event list) option" where
  "latency_step as_ms t LSpeechStart =
     (let (a, t) = on_speech_start t in Some (t, if a then [Turn_abandoned] else []))"
| "latency_step as_ms t (LSpeechEnd now) = Some (on_speech_end now t, [Turn_started])"
| "latency_step as_ms t (LFinal now) =
     (let (f, t) = on_stt_final as_ms now t
      in Some (t, Final_seen # (case f of Some x \<Rightarrow> [Finalized x] | None \<Rightarrow> [])))"
| "latency_step as_ms t (LReplyAudio now) =
     (let (r, t) = on_first_reply_audio as_ms now t
      in Some (t, case r of Some x \<Rightarrow> [Replied x] | None \<Rightarrow> []))"
| "latency_step as_ms t LBargeIn =
     (let (a, t) = on_barge_in t in Some (t, if a then [Turn_abandoned] else []))"

definition count_if :: "('a \<Rightarrow> bool) \<Rightarrow> 'a list \<Rightarrow> nat" where
  "count_if P xs = length (filter P xs)"

lemma count_if_simps [simp]:
  "count_if P [] = 0" "count_if P (x # xs) = (if P x then 1 else 0) + count_if P xs"
  "count_if P (xs @ ys) = count_if P xs + count_if P ys"
  by (simp_all add: count_if_def)

definition open_final :: "turn_latency_tracker \<Rightarrow> nat" where
  "open_final t = (if tl_final_at t = None then 0 else 1)"

definition open_turn :: "turn_latency_tracker \<Rightarrow> nat" where
  "open_turn t = (if tl_speech_end_at t \<noteq> None \<and> \<not> tl_finalize_recorded t then 1 else 0)"

definition is_answer :: "'f latency_event \<Rightarrow> bool" where
  "is_answer e \<longleftrightarrow> (case e of Replied _ \<Rightarrow> True | Turn_abandoned \<Rightarrow> True | _ \<Rightarrow> False)"

definition is_finalized :: "'f latency_event \<Rightarrow> bool" where
  "is_finalized e \<longleftrightarrow> (case e of Finalized _ \<Rightarrow> True | _ \<Rightarrow> False)"

definition latency_rel :: "turn_latency_tracker \<Rightarrow> latency_op list \<Rightarrow> 'f latency_event list \<Rightarrow>
    turn_latency_tracker \<Rightarrow> bool" where
  "latency_rel t ops evs t' \<longleftrightarrow>
     count_if is_answer evs + open_final t' \<le> count_if (\<lambda>e. e = Final_seen) evs + open_final t \<and>
     count_if is_finalized evs + open_turn t' \<le> count_if (\<lambda>e. e = Turn_started) evs + open_turn t"

lemmas latency_defs = latency_rel_def open_final_def open_turn_def is_answer_def is_finalized_def

lemma latency_step_rel: "latency_step as_ms t op = Some (t', evs) \<Longrightarrow> latency_rel t [op] evs t'"
  by (cases op)
    (auto simp: latency_defs on_speech_start_def on_barge_in_def abandon_if_answered_final_def
      tracker_reset_def on_speech_end_def on_stt_final_def on_first_reply_audio_def Let_def
      split: if_splits option.splits prod.splits)

interpretation latency: traced_component "latency_step as_ms" "\<lambda>_. True" latency_rel for as_ms
proof unfold_locales
  fix t op
  show "\<exists>t' evs. latency_step as_ms t op = Some (t', evs) \<and> True"
    by (cases op) (auto split: prod.splits)
qed (auto simp: latency_rel_def intro: latency_step_rel dest: latency_step_rel)

text \<open>
  a run of the tracker never fails; the finalize latency is recorded at most once per
  \<open>speech_end\<close>, and every final is answered at most once, by the first reply audio or by being
  abandoned.
\<close>

theorem latency_counted_once:
  "\<exists>t evs. run_ops (latency_step as_ms) tracker_new ops = Some (t, evs) \<and>
     count_if is_finalized evs \<le> count_if (\<lambda>e. e = Turn_started) evs \<and>
     count_if is_answer evs \<le> count_if (\<lambda>e. e = Final_seen) evs"
proof -
  obtain t evs where r: "run_ops (latency_step as_ms) tracker_new ops = Some (t, evs)"
    using latency.run_ok [where s = tracker_new and ops = ops and as_ms = as_ms] by auto
  from latency.run_rel [OF _ r] have "latency_rel tracker_new ops evs t" by simp
  with r show ?thesis by (auto simp: latency_defs tracker_new_def)
qed

end
