(* ===== verification/Vad.thy ===== *)
theory Vad
  imports Agent_Config Pcm Tts_Buffer
begin

text \<open>
  \<open>crates/speech/src/vad.rs\<close> in the default build (no \<open>silero-vad\<close> feature): the energy and the
  adaptive detector, the engine that turns frame decisions into transitions, and barge-in.
  \<open>None\<close> is a panic.  The samples are narrowed from \<open>f64\<close> to \<open>f32\<close> once, so the float operations
  come as a bundle of both types.
\<close>

section \<open>Detectors\<close>

record ('d, 'f) vad_floats =
  vf_f64 :: "'d float_ops"
  vf_f32 :: "'f float_ops"
  vf_narrow :: "'d \<Rightarrow> 'f"

definition vad_rms :: "('d, 'f) vad_floats \<Rightarrow> sample list \<Rightarrow> 'f" where
  "vad_rms vf samples = vf_narrow vf (pcm_rms_i16 (vf_f64 vf) samples)"

datatype vad_transition = SpeechStart | SpeechEnd

definition energy_process :: "('d, 'f) vad_floats \<Rightarrow> 'f \<Rightarrow> sample list \<Rightarrow> bool" where
  "energy_process vf threshold mono_i16 = fl_le (vf_f32 vf) threshold (vad_rms vf mono_i16)"

record 'f adaptive_vad =
  ad_cfg :: "'f adaptive_vad_config"
  ad_warmup_threshold :: 'f
  ad_ring :: "'f list"
  ad_ring_pos :: nat
  ad_elapsed_ms :: nat
  ad_active :: bool
  ad_utterance_ms :: nat
  ad_utterance_open :: bool
  ad_stuck_logged :: bool
  ad_stuck_episodes :: nat
  ad_speech_db :: "'f option"
  ad_last_threshold_db :: 'f
  ad_last_noise_db :: 'f

definition adaptive_new :: "'f float_ops \<Rightarrow> 'f \<Rightarrow> 'f adaptive_vad_config \<Rightarrow> 'f adaptive_vad" where
  "adaptive_new fl warmup_threshold cfg = \<lparr>ad_cfg = cfg, ad_warmup_threshold = warmup_threshold,
     ad_ring = [], ad_ring_pos = 0, ad_elapsed_ms = 0, ad_active = False, ad_utterance_ms = 0,
     ad_utterance_open = False, ad_stuck_logged = False, ad_stuck_episodes = 0, ad_speech_db = None,
     ad_last_threshold_db = fl_nan fl, ad_last_noise_db = fl_nan fl\<rparr>"

definition adaptive_reset :: "'f float_ops \<Rightarrow> 'f adaptive_vad \<Rightarrow> 'f adaptive_vad" where
  "adaptive_reset fl v = adaptive_new fl (ad_warmup_threshold v) (ad_cfg v)"

definition adaptive_on_speech_start :: "'f adaptive_vad \<Rightarrow> 'f adaptive_vad" where
  "adaptive_on_speech_start v = v\<lparr>ad_utterance_open := True, ad_utterance_ms := 0\<rparr>"

definition adaptive_on_speech_end :: "'f adaptive_vad \<Rightarrow> 'f adaptive_vad" where
  "adaptive_on_speech_end v = v\<lparr>ad_utterance_open := False, ad_utterance_ms := 0, ad_stuck_logged := False\<rparr>"

record 'f adaptive_vad_state =
  as_threshold_db :: 'f
  as_noise_db :: 'f
  as_speech_db :: 'f
  as_stuck_episodes :: nat

definition adaptive_state :: "'f float_ops \<Rightarrow> 'f adaptive_vad \<Rightarrow> 'f adaptive_vad_state" where
  "adaptive_state fl v = \<lparr>as_threshold_db = ad_last_threshold_db v, as_noise_db = ad_last_noise_db v,
     as_speech_db = (case ad_speech_db v of Some s \<Rightarrow> s | None \<Rightarrow> fl_nan fl),
     as_stuck_episodes = ad_stuck_episodes v\<rparr>"

text \<open>\<open>self.ring[self.ring_pos] = db\<close> panics out of range, \<open>% cap\<close> when \<open>cap\<close> is 0.\<close>

definition push_noise :: "'f \<Rightarrow> nat \<Rightarrow> 'f adaptive_vad \<Rightarrow> 'f adaptive_vad option" where
  "push_noise db cap v =
     (if length (ad_ring v) < cap then Some (v\<lparr>ad_ring := ad_ring v @ [db]\<rparr>)
      else if length (ad_ring v) \<le> ad_ring_pos v \<or> cap = 0 then None
      else Some (v\<lparr>ad_ring := (ad_ring v)[ad_ring_pos v := db], ad_ring_pos := (ad_ring_pos v + 1) mod cap\<rparr>))"

text \<open>\<open>select_nth_unstable_by(rank, total_cmp)\<close> is the element of that rank in the sorted list.\<close>

fun insert_by :: "('a \<Rightarrow> 'a \<Rightarrow> bool) \<Rightarrow> 'a \<Rightarrow> 'a list \<Rightarrow> 'a list" where
  "insert_by le x [] = [x]"
| "insert_by le x (y # ys) = (if le x y then x # y # ys else y # insert_by le x ys)"

definition select_nth :: "('a \<Rightarrow> 'a \<Rightarrow> bool) \<Rightarrow> nat \<Rightarrow> 'a list \<Rightarrow> 'a" where
  "select_nth le rank xs = foldr (insert_by le) xs [] ! rank"

definition noise_level :: "'f float_ops \<Rightarrow> 'f adaptive_vad \<Rightarrow> 'f option" where
  "noise_level fl v =
     (let n = length (ad_ring v)
      in if n = 0 then None
         else
           (let rank = clamp 1 n ((av_noise_percentile (ad_cfg v) * n + 99) div 100) - 1
            in Some (select_nth (fl_total_le fl) rank (ad_ring v))))"

text \<open>\<open>f32::clamp\<close> panics unless \<open>min <= max\<close>.\<close>

definition adaptive_threshold :: "'f float_ops \<Rightarrow> 'f \<Rightarrow> 'f adaptive_vad \<Rightarrow> 'f option" where
  "adaptive_threshold fl noise v =
     (let cfg = ad_cfg v;
          two = fl_of_int fl 2;
          t = fl_add fl noise (av_noise_margin_db cfg);
          t = (if av_use_speech_level cfg then
                 (case ad_speech_db v of
                    Some s \<Rightarrow>
                      if fl_lt fl (fl_add fl noise (fl_mul fl two (av_noise_margin_db cfg))) s
                      then fl_max fl t (fl_div fl (fl_add fl noise s) two) else t
                  | None \<Rightarrow> t)
               else t)
      in if \<not> fl_le fl (av_min_threshold_dbfs cfg) (av_max_threshold_dbfs cfg) then None
         else Some (fl_clamp fl (av_min_threshold_dbfs cfg) (av_max_threshold_dbfs cfg) t))"

text \<open>The decision of one frame: the plain energy rule while warming up, the adaptive one after.\<close>

definition adaptive_decide ::
  "'f float_ops \<Rightarrow> 'f \<Rightarrow> 'f \<Rightarrow> nat \<Rightarrow> bool \<Rightarrow> 'f adaptive_vad \<Rightarrow> (bool \<times> 'f adaptive_vad) option" where
  "adaptive_decide fl rms db cap warming v =
     (if warming then
        (let a = fl_le fl (ad_warmup_threshold v) rms
         in if \<not> a then map_option (\<lambda>v. (a, v)) (push_noise db cap v) else Some (a, v))
      else
        (case noise_level fl v of
           None \<Rightarrow> None
         | Some noise \<Rightarrow>
             (case adaptive_threshold fl noise v of
                None \<Rightarrow> None
              | Some t \<Rightarrow>
                  (let v = v\<lparr>ad_last_threshold_db := t, ad_last_noise_db := noise\<rparr>;
                       a = (if ad_active v then fl_le fl (fl_sub fl t (av_hysteresis_db (ad_cfg v))) db
                            else fl_le fl t db)
                   in if a then
                        Some (a, v\<lparr>ad_speech_db := Some (case ad_speech_db v of
                                Some s \<Rightarrow> fl_add fl s (fl_mul fl (fl_ratio fl 5 100) (fl_sub fl db s))
                              | None \<Rightarrow> db)\<rparr>)
                      else map_option (\<lambda>v. (a, v)) (push_noise db cap v)))))"

text \<open>
  The stuck guard: an utterance open longer than \<open>stuck_active_ms\<close> also feeds its active frames
  into the noise window.
\<close>

definition stuck_guard :: "'f \<Rightarrow> nat \<Rightarrow> nat \<Rightarrow> bool \<Rightarrow> 'f adaptive_vad \<Rightarrow> 'f adaptive_vad option" where
  "stuck_guard db cap frame_ms active v =
     (if \<not> ad_utterance_open v then Some v
      else
        (let v = v\<lparr>ad_utterance_ms := saturating_add_u32 (ad_utterance_ms v) frame_ms\<rparr>
         in if av_stuck_active_ms (ad_cfg v) < ad_utterance_ms v then
              (let v = (if \<not> ad_stuck_logged v
                        then v\<lparr>ad_stuck_logged := True, ad_stuck_episodes := (ad_stuck_episodes v + 1) mod 2 ^ 32\<rparr>
                        else v)
               in if active then push_noise db cap v else Some v)
            else Some v))"

definition adaptive_frame_ms :: "nat \<Rightarrow> nat \<Rightarrow> nat" where
  "adaptive_frame_ms samples sample_rate = max 1 (samples * 1000 div max 1 sample_rate) mod 2 ^ 32"

definition adaptive_process ::
  "('d, 'f) vad_floats \<Rightarrow> sample list \<Rightarrow> nat \<Rightarrow> 'f adaptive_vad \<Rightarrow> (bool \<times> 'f adaptive_vad) option" where
  "adaptive_process vf mono_i16 sample_rate v =
     (let fl = vf_f32 vf;
          frame_ms = adaptive_frame_ms (length mono_i16) sample_rate
      in if frame_ms = 0 then None
         else
           (let cap = max 1 (av_noise_window_ms (ad_cfg v) div frame_ms);
                rms = vad_rms vf mono_i16;
                db = fl_mul fl (fl_of_int fl 20) (fl_log10 fl (fl_max fl rms (fl_ratio fl 1 100000)));
                warming = (ad_elapsed_ms v < av_warmup_ms (ad_cfg v) \<or> ad_ring v = []);
                v = v\<lparr>ad_elapsed_ms := saturating_add_u32 (ad_elapsed_ms v) frame_ms\<rparr>
            in case adaptive_decide fl rms db cap warming v of
                 None \<Rightarrow> None
               | Some (active, v) \<Rightarrow>
                   (case stuck_guard db cap frame_ms active v of
                      None \<Rightarrow> None
                    | Some v \<Rightarrow> Some (active, v\<lparr>ad_active := active\<rparr>))))"

section \<open>The engine\<close>

datatype 'f vad_backend = Energy 'f | Adaptive "'f adaptive_vad"

record 'f vad_engine =
  ve_config :: "'f vad_config"
  ve_backend :: "'f vad_backend"
  ve_speaking :: bool
  ve_speech_ms :: nat
  ve_silence_ms :: nat
  ve_frame_ms :: nat

datatype vad_config_error =
    SileroNotCompiled
  | AdaptiveInvalid adaptive_vad_config_error
  | UnsupportedProvider ustring

definition vad_engine_new :: "'f float_ops \<Rightarrow> 'f vad_config \<Rightarrow> vad_config_error + 'f vad_engine" where
  "vad_engine_new fl config =
     (let engine = (\<lambda>backend. \<lparr>ve_config = config, ve_backend = backend, ve_speaking = False,
                        ve_speech_ms = 0, ve_silence_ms = 0, ve_frame_ms = 20\<rparr>)
      in if vc_provider config = utext ''silero'' then Inl SileroNotCompiled
         else if vc_provider config = utext ''adaptive'' then
           (case validate_adaptive_vad fl (vc_adaptive config) of
              Some e \<Rightarrow> Inl (AdaptiveInvalid e)
            | None \<Rightarrow> Inr (engine (Adaptive (adaptive_new fl (vc_threshold config) (vc_adaptive config)))))
         else if vc_provider config = utext ''energy'' \<or> vc_provider config = [] then
           Inr (engine (Energy (vc_threshold config)))
         else Inl (UnsupportedProvider (vc_provider config)))"

definition update_state :: "bool \<Rightarrow> 'f vad_engine \<Rightarrow> vad_transition list \<times> 'f vad_engine" where
  "update_state active e =
     (if active then
        (let e = e\<lparr>ve_speech_ms := saturating_add_u32 (ve_speech_ms e) (ve_frame_ms e), ve_silence_ms := 0\<rparr>
         in if \<not> ve_speaking e \<and> vc_min_speech_duration_ms (ve_config e) \<le> ve_speech_ms e
            then ([SpeechStart], e\<lparr>ve_speaking := True\<rparr>) else ([], e))
      else
        (let e = e\<lparr>ve_silence_ms := saturating_add_u32 (ve_silence_ms e) (ve_frame_ms e)\<rparr>
         in if ve_speaking e \<and> vc_min_silence_duration_ms (ve_config e) \<le> ve_silence_ms e
            then ([SpeechEnd], e\<lparr>ve_speaking := False, ve_speech_ms := 0\<rparr>) else ([], e)))"

definition backend_process ::
  "('d, 'f) vad_floats \<Rightarrow> sample list \<Rightarrow> 'f vad_backend \<Rightarrow> (bool \<times> 'f vad_backend) option" where
  "backend_process vf mono16 backend =
     (case backend of
        Energy threshold \<Rightarrow> Some (energy_process vf threshold mono16, backend)
      | Adaptive v \<Rightarrow> map_option (\<lambda>(a, v). (a, Adaptive v)) (adaptive_process vf mono16 16000 v))"

definition backend_note :: "vad_transition \<Rightarrow> 'f vad_backend \<Rightarrow> 'f vad_backend" where
  "backend_note t backend =
     (case backend of
        Energy threshold \<Rightarrow> backend
      | Adaptive v \<Rightarrow>
          (case t of
             SpeechStart \<Rightarrow> Adaptive (adaptive_on_speech_start v)
           | SpeechEnd \<Rightarrow> Adaptive (adaptive_on_speech_end v)))"

definition process_webrtc_pcm ::
  "('d, 'f) vad_floats \<Rightarrow> bytes \<Rightarrow> nat \<Rightarrow> 'f vad_engine \<Rightarrow>
   (vad_transition list \<times> bool \<times> 'f vad_engine) option" where
  "process_webrtc_pcm vf frame duration e =
     (if \<not> vc_enabled (ve_config e) then Some ([], False, e)
      else
        (let e = e\<lparr>ve_frame_ms := max 1 duration\<rparr>;
             mono16 = stereo_48k_to_mono_16k frame
         in if mono16 = [] then Some ([], False, e)
            else
              (case backend_process vf mono16 (ve_backend e) of
                 None \<Rightarrow> None
               | Some (active, backend) \<Rightarrow>
                   (let (transitions, e) = update_state active (e\<lparr>ve_backend := backend\<rparr>)
                    in Some (transitions, active,
                         e\<lparr>ve_backend := fold backend_note transitions (ve_backend e)\<rparr>)))))"

definition is_pending_speech :: "'f vad_engine \<Rightarrow> bool" where
  "is_pending_speech e \<longleftrightarrow> \<not> ve_speaking e \<and> 0 < ve_speech_ms e"

definition vad_reset :: "'f float_ops \<Rightarrow> 'f vad_engine \<Rightarrow> 'f vad_engine" where
  "vad_reset fl e =
     e\<lparr>ve_speaking := False, ve_speech_ms := 0, ve_silence_ms := 0,
       ve_backend := (case ve_backend e of Energy t \<Rightarrow> Energy t | Adaptive v \<Rightarrow> Adaptive (adaptive_reset fl v))\<rparr>"

text \<open>
  \<open>handle_barge_in\<close>: the \<open>agent_reply_end\<close> events of the flush (in order) and whether \<open>barge_in\<close> is
  emitted.
\<close>

definition handle_barge_in ::
  "barge_in_config \<Rightarrow> tts_buffer \<Rightarrow> (ustring \<times> nat \<times> bool \<times> nat \<times> bool) list \<times> bool \<times> tts_buffer" where
  "handle_barge_in barge_in b =
     (if \<not> bi_enabled barge_in then ([], False, b)
      else if bi_flush_tts barge_in then
        (let ((_, dropped), b) = flush_with_reply_events b in (dropped, True, b))
      else ([], True, b))"

section \<open>Transitions alternate and nothing panics\<close>

fun alternates :: "bool \<Rightarrow> vad_transition list \<Rightarrow> bool" where
  "alternates speaking [] = True"
| "alternates speaking (SpeechStart # ts) = (\<not> speaking \<and> alternates True ts)"
| "alternates speaking (SpeechEnd # ts) = (speaking \<and> alternates False ts)"

fun speaking_after :: "bool \<Rightarrow> vad_transition list \<Rightarrow> bool" where
  "speaking_after speaking [] = speaking"
| "speaking_after speaking (t # ts) = speaking_after (t = SpeechStart) ts"

lemma alternates_append:
  "alternates s (xs @ ys) \<longleftrightarrow> alternates s xs \<and> alternates (speaking_after s xs) ys"
  by (induction s xs rule: alternates.induct) auto

lemma speaking_after_append: "speaking_after s (xs @ ys) = speaking_after (speaking_after s xs) ys"
  by (induction s xs rule: speaking_after.induct) auto

definition vad_frame_ok :: "bytes \<times> nat \<Rightarrow> bool" where
  "vad_frame_ok f \<longleftrightarrow> length (fst f) < 2 ^ 32"

text \<open>A step of the engine: one inbound frame with its duration.\<close>

definition vad_step :: "('d, 'f) vad_floats \<Rightarrow> 'f vad_engine \<Rightarrow> bytes \<times> nat \<Rightarrow>
    ('f vad_engine \<times> vad_transition list) option" where
  "vad_step vf e f =
     (if vad_frame_ok f
      then map_option (\<lambda>(ts, active, e). (e, ts)) (process_webrtc_pcm vf (fst f) (snd f) e)
      else Some (e, []))"

definition ring_ok :: "'f adaptive_vad \<Rightarrow> bool" where
  "ring_ok v \<longleftrightarrow> ad_ring_pos v < max 1 (length (ad_ring v))"

definition backend_ok :: "'f float_ops \<Rightarrow> 'f vad_backend \<Rightarrow> bool" where
  "backend_ok fl backend =
     (case backend of
        Energy _ \<Rightarrow> True
      | Adaptive v \<Rightarrow> ring_ok v \<and> fl_le fl (av_min_threshold_dbfs (ad_cfg v)) (av_max_threshold_dbfs (ad_cfg v)))"

lemma push_noise_ok:
  "ring_ok v \<Longrightarrow> 0 < cap \<Longrightarrow> \<exists>v'. push_noise db cap v = Some v' \<and> ring_ok v' \<and> ad_cfg v' = ad_cfg v \<and> ad_ring v' \<noteq> []"
proof -
  assume r: "ring_ok v" "0 < cap"
  show ?thesis
  proof (cases "length (ad_ring v) < cap")
    case True
    with r show ?thesis by (auto simp: push_noise_def ring_ok_def)
  next
    case False
    moreover have "(ad_ring_pos v + 1) mod cap < cap" using r(2) by simp
    ultimately have "(ad_ring_pos v + 1) mod cap < length (ad_ring v)" by linarith
    with False r show ?thesis by (auto simp: push_noise_def ring_ok_def)
  qed
qed

lemma noise_level_Some: "ad_ring v \<noteq> [] \<Longrightarrow> \<exists>x. noise_level fl v = Some x"
  by (simp add: noise_level_def Let_def)

lemma adaptive_decide_ok:
  assumes "ring_ok v" and "0 < cap" and "\<not> warming \<Longrightarrow> ad_ring v \<noteq> []"
    and "fl_le fl (av_min_threshold_dbfs (ad_cfg v)) (av_max_threshold_dbfs (ad_cfg v))"
  shows "\<exists>a v'. adaptive_decide fl rms db cap warming v = Some (a, v') \<and> ring_ok v' \<and> ad_cfg v' = ad_cfg v"
proof (cases warming)
  case True
  with push_noise_ok [OF assms(1,2), of db] assms(1) show ?thesis by (auto simp: adaptive_decide_def Let_def)
next
  case False
  then obtain noise where n: "noise_level fl v = Some noise" using noise_level_Some assms(3) by blast
  obtain t where t: "adaptive_threshold fl noise v = Some t"
    using assms(4) by (simp add: adaptive_threshold_def Let_def)
  let ?v = "v\<lparr>ad_last_threshold_db := t, ad_last_noise_db := noise\<rparr>"
  have "ring_ok ?v" using assms(1) by (simp add: ring_ok_def)
  from push_noise_ok [OF this assms(2), of db] assms(1) False n t show ?thesis
    by (auto simp: adaptive_decide_def Let_def ring_ok_def)
qed

lemma stuck_guard_ok:
  assumes "ring_ok v" and "0 < cap"
  shows "\<exists>v'. stuck_guard db cap frame_ms active v = Some v' \<and> ring_ok v' \<and> ad_cfg v' = ad_cfg v"
proof -
  let ?v = "v\<lparr>ad_utterance_ms := saturating_add_u32 (ad_utterance_ms v) frame_ms\<rparr>"
  let ?l = "?v\<lparr>ad_stuck_logged := True, ad_stuck_episodes := (ad_stuck_episodes v + 1) mod 2 ^ 32\<rparr>"
  have "ring_ok ?v" "ring_ok ?l" using assms(1) by (simp_all add: ring_ok_def)
  with push_noise_ok [OF _ assms(2), of ?v db] push_noise_ok [OF _ assms(2), of ?l db] show ?thesis
    using assms(1) by (auto simp: stuck_guard_def Let_def)
qed

lemma adaptive_process_ok:
  assumes "ring_ok v" and "length samples < 2 ^ 32"
    and "fl_le (vf_f32 vf) (av_min_threshold_dbfs (ad_cfg v)) (av_max_threshold_dbfs (ad_cfg v))"
  shows "\<exists>a v'. adaptive_process vf samples 16000 v = Some (a, v') \<and> ring_ok v' \<and> ad_cfg v' = ad_cfg v"
proof -
  let ?fl = "vf_f32 vf" and ?ms = "adaptive_frame_ms (length samples) 16000"
  let ?cap = "max 1 (av_noise_window_ms (ad_cfg v) div ?ms)"
  let ?rms = "vad_rms vf samples"
  let ?db = "fl_mul ?fl (fl_of_int ?fl 20) (fl_log10 ?fl (fl_max ?fl ?rms (fl_ratio ?fl 1 100000)))"
  let ?w = "ad_elapsed_ms v < av_warmup_ms (ad_cfg v) \<or> ad_ring v = []"
  let ?v = "v\<lparr>ad_elapsed_ms := saturating_add_u32 (ad_elapsed_ms v) ?ms\<rparr>"
  have "max 1 (length samples * 1000 div 16000) < 2 ^ 32" using assms(2) by simp
  then have ms: "?ms = max 1 (length samples * 1000 div 16000)"
    unfolding adaptive_frame_ms_def by (simp only: mod_less)
  have "\<exists>a v'. adaptive_decide ?fl ?rms ?db ?cap ?w ?v = Some (a, v') \<and> ring_ok v' \<and> ad_cfg v' = ad_cfg ?v"
    by (rule adaptive_decide_ok) (use assms(1,3) in \<open>auto simp: ring_ok_def\<close>)
  then obtain a v1 where 1: "adaptive_decide ?fl ?rms ?db ?cap ?w ?v = Some (a, v1)" "ring_ok v1"
      "ad_cfg v1 = ad_cfg ?v" by blast
  have "0 < ?cap" by simp
  from stuck_guard_ok [OF 1(2) this, of ?db ?ms a] 1(3) obtain v2 where
    2: "stuck_guard ?db ?cap ?ms a v1 = Some v2" "ring_ok v2" "ad_cfg v2 = ad_cfg v"
    by (elim exE conjE) simp
  have "adaptive_process vf samples 16000 v = Some (a, v2\<lparr>ad_active := a\<rparr>)"
    using 1(1) 2(1) ms unfolding adaptive_process_def Let_def by simp
  with 2 show ?thesis by (simp add: ring_ok_def)
qed

lemma backend_process_ok:
  assumes "backend_ok (vf_f32 vf) backend" and "length samples < 2 ^ 32"
  shows "\<exists>a backend'. backend_process vf samples backend = Some (a, backend') \<and> backend_ok (vf_f32 vf) backend'"
proof (cases backend)
  case (Energy t)
  then show ?thesis by (simp add: backend_process_def backend_ok_def)
next
  case (Adaptive v)
  with assms adaptive_process_ok [of v samples vf] show ?thesis
    by (auto simp: backend_process_def backend_ok_def)
qed

lemma backend_note_ok [simp]: "backend_ok fl (backend_note t b) = backend_ok fl b"
  by (cases b; cases t) (simp_all add: backend_note_def backend_ok_def adaptive_on_speech_start_def
      adaptive_on_speech_end_def ring_ok_def)

lemma backend_notes_ok [simp]: "backend_ok fl (fold backend_note ts b) = backend_ok fl b"
  by (induction ts arbitrary: b) simp_all

lemma update_state_result:
  "alternates (ve_speaking e) (fst (update_state active e)) \<and>
   speaking_after (ve_speaking e) (fst (update_state active e)) = ve_speaking (snd (update_state active e)) \<and>
   ve_backend (snd (update_state active e)) = ve_backend e \<and> ve_config (snd (update_state active e)) = ve_config e"
  by (auto simp: update_state_def Let_def)

lemma length_downmix: "length (downmix xs) \<le> length xs"
  by (induction xs rule: downmix.induct) auto

lemma length_downsample: "length (downsample_by_3 xs) \<le> length xs"
  by (induction xs rule: downsample_by_3.induct) auto

lemma length_mono_frame: "length (stereo_48k_to_mono_16k f) \<le> length f"
proof -
  have "length (samples_of f) \<le> length f"
    unfolding samples_of_def by (induction f rule: pairs.induct) auto
  then have "length (downsample_by_3 (downmix (samples_of f))) \<le> length f"
    by (rule le_trans [OF le_trans [OF length_downsample length_downmix]])
  then show ?thesis by (simp add: stereo_48k_to_mono_16k_def)
qed

definition vad_rel :: "'f vad_engine \<Rightarrow> (bytes \<times> nat) list \<Rightarrow> vad_transition list \<Rightarrow> 'f vad_engine \<Rightarrow> bool" where
  "vad_rel e fs ts e' \<longleftrightarrow> alternates (ve_speaking e) ts \<and> speaking_after (ve_speaking e) ts = ve_speaking e'"

lemma vad_step_result:
  assumes ok: "backend_ok (vf_f32 vf) (ve_backend e)"
  shows "\<exists>e' ts. vad_step vf e f = Some (e', ts) \<and> backend_ok (vf_f32 vf) (ve_backend e') \<and> vad_rel e [f] ts e'"
proof (cases "vad_frame_ok f \<and> vc_enabled (ve_config e) \<and> stereo_48k_to_mono_16k (fst f) \<noteq> []")
  case False
  with ok show ?thesis by (auto simp: vad_step_def process_webrtc_pcm_def vad_rel_def Let_def)
next
  case True
  then have "length (stereo_48k_to_mono_16k (fst f)) < 2 ^ 32"
    using length_mono_frame [of "fst f"] by (simp add: vad_frame_ok_def)
  from backend_process_ok [OF ok this] obtain a b where
    b: "backend_process vf (stereo_48k_to_mono_16k (fst f)) (ve_backend e) = Some (a, b)" "backend_ok (vf_f32 vf) b"
    by blast
  let ?e = "e\<lparr>ve_frame_ms := max 1 (snd f), ve_backend := b\<rparr>"
  note u = update_state_result [of ?e a]
  obtain ts e1 where s: "update_state a ?e = (ts, e1)" by fastforce
  with True b(1) have "vad_step vf e f = Some (e1\<lparr>ve_backend := fold backend_note ts (ve_backend e1)\<rparr>, ts)"
    by (simp add: vad_step_def process_webrtc_pcm_def)
  with u s b(2) show ?thesis by (simp add: vad_rel_def)
qed

interpretation vad: traced_component "vad_step vf" "\<lambda>e. backend_ok (vf_f32 vf) (ve_backend e)" vad_rel
  for vf :: "('d, 'f) vad_floats"
proof unfold_locales
  fix e :: "'f vad_engine" and f
  assume "backend_ok (vf_f32 vf) (ve_backend e)"
  from vad_step_result [OF this, of f]
  show "\<exists>e' ts. vad_step vf e f = Some (e', ts) \<and> backend_ok (vf_f32 vf) (ve_backend e')" by blast
next
  fix e :: "'f vad_engine" and f e' ts
  assume "backend_ok (vf_f32 vf) (ve_backend e)" "vad_step vf e f = Some (e', ts)"
  with vad_step_result [of vf e f] show "vad_rel e [f] ts e'" by auto
qed (auto simp: vad_rel_def alternates_append speaking_after_append)

lemma vad_engine_new_ok:
  assumes "\<And>x y. fl_lt fl x y \<Longrightarrow> fl_le fl x y" and "vad_engine_new fl config = Inr e"
  shows "backend_ok fl (ve_backend e) \<and> \<not> ve_speaking e \<and> ve_speech_ms e = 0 \<and> ve_config e = config"
  using assms by (auto simp: vad_engine_new_def Let_def backend_ok_def adaptive_new_def ring_ok_def
      validate_adaptive_vad_def split: if_splits option.splits)

text \<open>
  an engine that its constructor accepted never panics, whatever frames (below \<open>2 ^ 32\<close> bytes)
  and frame lengths it is fed and whatever the float operations return, provided \<open>x < y\<close> implies
  \<open>x \<le> y\<close>; its transitions alternate, beginning with a start, and \<open>is_speaking\<close> is the last of them.
\<close>

theorem vad_transitions_alternate:
  assumes "\<And>x y. fl_lt (vf_f32 vf) x y \<Longrightarrow> fl_le (vf_f32 vf) x y"
    and "vad_engine_new (vf_f32 vf) config = Inr e"
  shows "\<exists>e' ts. run_ops (vad_step vf) e frames = Some (e', ts) \<and> alternates False ts \<and>
    ve_speaking e' = speaking_after False ts"
proof -
  note n = vad_engine_new_ok [OF assms]
  obtain e' ts where r: "run_ops (vad_step vf) e frames = Some (e', ts)"
    using vad.run_ok [of vf e frames] n by blast
  from vad.run_rel [OF _ r] n r show ?thesis by (auto simp: vad_rel_def)
qed

definition demo_vad_floats :: "(int, int) vad_floats" where
  "demo_vad_floats = \<lparr>vf_f64 = int_ops, vf_f32 = int_ops, vf_narrow = (\<lambda>x. x)\<rparr>"

theorem vad_transitions_alternate_witness:
  "\<exists>e e' ts. vad_engine_new int_ops ((default_vad_config int_ops)\<lparr>vc_provider := utext ''adaptive''\<rparr>) = Inr e \<and>
     run_ops (vad_step demo_vad_floats) e [(replicate 3840 0, 20), (replicate 3840 1, 20)] = Some (e', ts) \<and>
     alternates False ts"
proof -
  let ?c = "(default_vad_config int_ops)\<lparr>vc_provider := utext ''adaptive''\<rparr>"
  have "validate_adaptive_vad int_ops (vc_adaptive ?c) = None" by code_simp
  then obtain e where e: "vad_engine_new int_ops ?c = Inr e"
    by (simp add: vad_engine_new_def Let_def utext_def)
  have "\<And>x y. fl_lt (vf_f32 demo_vad_floats) x y \<Longrightarrow> fl_le (vf_f32 demo_vad_floats) x y"
    by (simp add: demo_vad_floats_def int_ops_def)
  from vad_transitions_alternate [OF this, of ?c e] e show ?thesis
    by (fastforce simp: demo_vad_floats_def)
qed

section \<open>When speech starts\<close>

text \<open>The frame decisions alone: \<open>(active, frame_ms)\<close> in order.\<close>

fun decide_frames :: "(bool \<times> nat) list \<Rightarrow> 'f vad_engine \<Rightarrow> vad_transition list \<times> 'f vad_engine" where
  "decide_frames [] e = ([], e)"
| "decide_frames ((active, d) # ds) e =
     (let (ts, e) = update_state active (e\<lparr>ve_frame_ms := d\<rparr>); (ts', e) = decide_frames ds e in (ts @ ts', e))"

definition active_ms :: "(bool \<times> nat) list \<Rightarrow> nat" where
  "active_ms ds = sum_list (map snd (filter fst ds))"

lemma active_ms_simps [simp]:
  "active_ms [] = 0" "active_ms ((a, d) # ds) = (if a then d else 0) + active_ms ds"
  "active_ms (xs @ ys) = active_ms xs + active_ms ys"
  by (simp_all add: active_ms_def)

lemma decide_frames_append:
  "decide_frames (xs @ ys) e =
     (let (ts, e) = decide_frames xs e; (ts', e) = decide_frames ys e in (ts @ ts', e))"
  by (induction xs e rule: decide_frames.induct) (auto simp: Let_def split: prod.splits)

lemma decide_frames_below:
  assumes "\<not> ve_speaking e" and "ve_speech_ms e + active_ms ds < vc_min_speech_duration_ms (ve_config e)"
    and "vc_min_speech_duration_ms (ve_config e) \<le> u32_max"
  shows "\<exists>e'. decide_frames ds e = ([], e') \<and> \<not> ve_speaking e' \<and> ve_config e' = ve_config e \<and>
    ve_speech_ms e' = ve_speech_ms e + active_ms ds"
  using assms
proof (induction ds arbitrary: e)
  case (Cons x ds)
  obtain a d where x: "x = (a, d)" by fastforce
  define e1 where "e1 = snd (update_state a (e\<lparr>ve_frame_ms := d\<rparr>))"
  have "fst (update_state a (e\<lparr>ve_frame_ms := d\<rparr>)) = [] \<and> \<not> ve_speaking e1 \<and> ve_config e1 = ve_config e \<and>
      ve_speech_ms e1 = ve_speech_ms e + (if a then d else 0)"
    using Cons.prems x unfolding e1_def by (cases a) (simp_all add: update_state_def Let_def saturating_add_u32_def)
  then have u: "update_state a (e\<lparr>ve_frame_ms := d\<rparr>) = ([], e1)" "\<not> ve_speaking e1"
    "ve_config e1 = ve_config e" "ve_speech_ms e1 = ve_speech_ms e + (if a then d else 0)"
    by (simp_all add: e1_def prod_eq_iff)
  obtain e' where "decide_frames ds e1 = ([], e')" "\<not> ve_speaking e'" "ve_config e' = ve_config e"
      "ve_speech_ms e' = ve_speech_ms e1 + active_ms ds"
    using Cons.IH [OF u(2)] Cons.prems x u(3,4) by auto
  with u x show ?case by simp
qed simp

text \<open>
  while nobody speaks, the frames the detector calls active add up to \<open>min_speech_duration_ms\<close>
  whatever silence lies between them: below that sum nothing is reported, and the active frame that
  reaches it is reported as the start of speech.
\<close>

theorem speech_start_accumulates:
  assumes "\<not> ve_speaking e" and "ve_speech_ms e = 0"
    and "active_ms ds < vc_min_speech_duration_ms (ve_config e)"
    and "vc_min_speech_duration_ms (ve_config e) \<le> active_ms ds + d"
    and "vc_min_speech_duration_ms (ve_config e) \<le> 4294967295"
  shows "fst (decide_frames ds e) = [] \<and> fst (decide_frames (ds @ [(True, d)]) e) = [SpeechStart]"
proof -
  obtain e' where e': "decide_frames ds e = ([], e')" "\<not> ve_speaking e'" "ve_config e' = ve_config e"
      "ve_speech_ms e' = active_ms ds"
    using decide_frames_below [OF assms(1), of ds] assms(2,3,5) by (auto simp: u32_max_def)
  then have "fst (update_state True (e'\<lparr>ve_frame_ms := d\<rparr>)) = [SpeechStart]"
    using assms(4,5) by (simp add: update_state_def Let_def saturating_add_u32_def u32_max_def)
  with e'(1) show ?thesis by (simp add: decide_frames_append split: prod.splits)
qed

theorem speech_start_accumulates_witness:
  "\<exists>e. vad_engine_new int_ops (default_vad_config int_ops) = Inr e \<and>
     fst (decide_frames (concat (replicate 12 [(True, 20), (False, 60000)]) @ [(True, 20)]) e) = [SpeechStart]"
proof -
  let ?c = "default_vad_config int_ops"
  let ?e = "\<lparr>ve_config = ?c, ve_backend = Energy (vc_threshold ?c), ve_speaking = False,
     ve_speech_ms = 0, ve_silence_ms = 0, ve_frame_ms = 20\<rparr>"
  have "vad_engine_new int_ops ?c = Inr ?e"
    by (simp add: vad_engine_new_def Let_def default_vad_config_def utext_def)
  moreover have "fst (decide_frames (concat (replicate 12 [(True, 20), (False, 60000)]) @ [(True, 20)]) ?e) = [SpeechStart]"
  proof (rule speech_start_accumulates [THEN conjunct2])
    have "active_ms (concat (replicate 12 [(True, 20), (False, 60000)])) = 240" by code_simp
    then show "active_ms (concat (replicate 12 [(True, 20), (False, 60000)])) < vc_min_speech_duration_ms (ve_config ?e)"
      "vc_min_speech_duration_ms (ve_config ?e) \<le> active_ms (concat (replicate 12 [(True, 20), (False, 60000)])) + 20"
      by (simp_all add: default_vad_config_def)
  qed (simp_all add: default_vad_config_def)
  ultimately show ?thesis by blast
qed

end
