(* ===== verification/Stt_Provider.thy ===== *)
theory Stt_Provider
  imports Agent_Config
begin

text \<open>
  The trait \<open>SttProvider\<close> of \<open>crates/speech/src/pipeline.rs\<close>, the vendor registry that creates providers
  (\<open>registry.rs\<close>) and the provider the repository ships for tests (\<open>crates/vendor-mock/src/stt.rs\<close>).

  A provider is a state and a record of its methods.  A method gets the time of the call; an
  \<open>async\<close> method returns how long it took, so the callers' clock moves and their timeouts can expire
  (a call that a caller does not bound is taken to finish).  Vendors over the network stay arguments:
  what the STT actor relies on is the locale \<open>stt_provider_laws\<close>.
\<close>

section \<open>The trait\<close>

type_synonym 'a speech_result = "speech_error + 'a"

record 'p stt_provider =
  sp_start :: "instant \<Rightarrow> 'p \<Rightarrow> unit speech_result \<times> duration \<times> 'p"
  sp_stop :: "instant \<Rightarrow> 'p \<Rightarrow> unit speech_result \<times> duration \<times> 'p"
  sp_push_audio :: "bytes \<Rightarrow> instant \<Rightarrow> 'p \<Rightarrow> unit speech_result \<times> duration \<times> 'p"
  sp_push_and_poll :: "bytes \<Rightarrow> instant \<Rightarrow> 'p \<Rightarrow> (unit speech_result \<times> stt_transcript list) \<times> duration \<times> 'p"
  sp_wait_ready :: "duration \<Rightarrow> instant \<Rightarrow> 'p \<Rightarrow> bool speech_result \<times> duration \<times> 'p"
  sp_finalize_utterance :: "instant \<Rightarrow> 'p \<Rightarrow> unit speech_result \<times> duration \<times> 'p"
  sp_bind_session_context :: "voice_session_context \<Rightarrow> 'p \<Rightarrow> 'p"
  sp_decode_backlog_ms :: "instant \<Rightarrow> 'p \<Rightarrow> nat"
  sp_emits_partials :: "'p \<Rightarrow> bool"
  sp_stream_open_pending :: "instant \<Rightarrow> 'p \<Rightarrow> bool"
  sp_stream_alive :: "instant \<Rightarrow> 'p \<Rightarrow> bool"
  sp_finalize_mode :: "'p \<Rightarrow> finalize_mode"
  sp_request_finalize :: "instant \<Rightarrow> 'p \<Rightarrow> unit speech_result \<times> duration \<times> 'p"
  sp_poll_output :: "instant \<Rightarrow> 'p \<Rightarrow> (stt_output option) speech_result \<times> duration \<times> 'p"
  sp_finalize_wait_ms :: "'p \<Rightarrow> nat"

text \<open>The trait's default methods, as functions of the methods they call.\<close>

definition default_poll_output ::
  "('p \<Rightarrow> (stt_transcript option) speech_result \<times> 'p) \<Rightarrow> instant \<Rightarrow> 'p \<Rightarrow>
   (stt_output option) speech_result \<times> duration \<times> 'p" where
  "default_poll_output poll_transcript now p =
     (case poll_transcript p of
        (Inl e, p) \<Rightarrow> (Inl e, 0, p)
      | (Inr t, p) \<Rightarrow> (Inr (map_option Transcript t), 0, p))"

definition default_finalize_utterance :: "instant \<Rightarrow> 'p \<Rightarrow> unit speech_result \<times> duration \<times> 'p" where
  "default_finalize_utterance now p = (Inr (), 0, p)"

definition default_wait_ready :: "duration \<Rightarrow> instant \<Rightarrow> 'p \<Rightarrow> bool speech_result \<times> duration \<times> 'p" where
  "default_wait_ready limit now p = (Inr True, 0, p)"

text \<open>
  What the actor relies on: an inline provider stays one and never emits a finalize marker, and
  every output comes out of a finite queue.
\<close>

locale stt_provider_laws =
  fixes P :: "'p stt_provider" and queued :: "'p \<Rightarrow> nat"
  assumes inline_no_marker:
      "sp_finalize_mode P p = Inline \<Longrightarrow> fst (sp_poll_output P now p) \<noteq> Inr (Some FinalizeDone)"
    and inline_poll: "sp_finalize_mode P p = Inline \<Longrightarrow>
      sp_finalize_mode P (snd (snd (sp_poll_output P now p))) = Inline"
    and inline_finalize: "sp_finalize_mode P p = Inline \<Longrightarrow>
      sp_finalize_mode P (snd (snd (sp_finalize_utterance P now p))) = Inline"
    and poll_drains: "fst (sp_poll_output P now p) = Inr (Some x) \<Longrightarrow>
      queued (snd (snd (sp_poll_output P now p))) < queued p"

section \<open>Registry\<close>

record 'p vendor_registry =
  vr_stt :: "stt_vendor \<rightharpoonup> (stt_config \<Rightarrow> 'p speech_result)"

definition registry_new :: "'p vendor_registry" where
  "registry_new = \<lparr>vr_stt = Map.empty\<rparr>"

definition register_stt :: "stt_vendor \<Rightarrow> (stt_config \<Rightarrow> 'p speech_result) \<Rightarrow> 'p vendor_registry \<Rightarrow> 'p vendor_registry" where
  "register_stt vendor factory r = r\<lparr>vr_stt := (vr_stt r)(vendor \<mapsto> factory)\<rparr>"

text \<open>The derived \<open>Debug\<close> prints the variant's name.\<close>

definition stt_vendor_debug :: "stt_vendor \<Rightarrow> string" where
  "stt_vendor_debug v =
     (case v of
        SttOpenai \<Rightarrow> ''Openai'' | SttDeepgram \<Rightarrow> ''Deepgram'' | SttElevenlabs \<Rightarrow> ''Elevenlabs''
      | SttFishaudio \<Rightarrow> ''Fishaudio'' | SttMistral \<Rightarrow> ''Mistral'' | SttGoogle \<Rightarrow> ''Google''
      | SttAssemblyai \<Rightarrow> ''Assemblyai'' | SttGroq \<Rightarrow> ''Groq'' | SttAzure \<Rightarrow> ''Azure'' | SttAws \<Rightarrow> ''Aws''
      | SttLocalSherpa \<Rightarrow> ''LocalSherpa'' | SttClusterSherpa \<Rightarrow> ''ClusterSherpa'' | SttMock \<Rightarrow> ''Mock'')"

definition create_stt :: "'p vendor_registry \<Rightarrow> stt_config \<Rightarrow> 'p speech_result" where
  "create_stt r config =
     (case vr_stt r (sc_provider config) of
        None \<Rightarrow> Inl (Config (utext ''unsupported STT vendor: '' @ utext (stt_vendor_debug (sc_provider config))))
      | Some factory \<Rightarrow> factory config)"

section \<open>The mock provider\<close>

definition FINAL_THRESHOLD_BYTES :: nat where "FINAL_THRESHOLD_BYTES = 3200"

record mock_stt =
  mk_language :: ustring
  mk_buffered :: bytes
  mk_running :: bool
  mk_emitted_partial :: bool

definition mock_new :: "stt_config \<Rightarrow> mock_stt" where
  "mock_new config =
     \<lparr>mk_language = (case sc_language config of Some l \<Rightarrow> l | None \<Rightarrow> utext ''en''), mk_buffered = [],
      mk_running = False, mk_emitted_partial = False\<rparr>"

definition mock_start :: "instant \<Rightarrow> mock_stt \<Rightarrow> unit speech_result \<times> duration \<times> mock_stt" where
  "mock_start now p = (Inr (), 0, p\<lparr>mk_running := True, mk_buffered := [], mk_emitted_partial := False\<rparr>)"

definition mock_stop :: "instant \<Rightarrow> mock_stt \<Rightarrow> unit speech_result \<times> duration \<times> mock_stt" where
  "mock_stop now p = (Inr (), 0, p\<lparr>mk_running := False\<rparr>)"

definition mock_push_audio :: "bytes \<Rightarrow> instant \<Rightarrow> mock_stt \<Rightarrow> unit speech_result \<times> duration \<times> mock_stt" where
  "mock_push_audio audio now p =
     (Inr (), 0, if mk_running p then p\<lparr>mk_buffered := mk_buffered p @ audio\<rparr> else p)"

text \<open>Code point 8230 is the ellipsis of the partial's text.\<close>

definition mock_poll_transcript :: "mock_stt \<Rightarrow> (stt_transcript option) speech_result \<times> mock_stt" where
  "mock_poll_transcript p =
     (if \<not> mk_running p then (Inr None, p)
      else if \<not> mk_emitted_partial p \<and> FINAL_THRESHOLD_BYTES div 2 \<le> length (mk_buffered p) then
        (Inr (Some (Partial (utext ''[mock-'' @ mk_language p @ utext ''] listening'' @ [8230]))),
         p\<lparr>mk_emitted_partial := True\<rparr>)
      else if FINAL_THRESHOLD_BYTES \<le> length (mk_buffered p) then
        (Inr (Some (Final (utext ''[mock-'' @ mk_language p @ utext ''] hello world''))),
         p\<lparr>mk_buffered := [], mk_emitted_partial := False\<rparr>)
      else (Inr None, p))"

text \<open>How many more transcripts a poll loop can get out of the mock.\<close>

definition mock_queued :: "mock_stt \<Rightarrow> nat" where
  "mock_queued p =
     (if \<not> mk_running p then 0
      else (if FINAL_THRESHOLD_BYTES \<le> length (mk_buffered p) then 1 else 0) +
        (if \<not> mk_emitted_partial p \<and> FINAL_THRESHOLD_BYTES div 2 \<le> length (mk_buffered p) then 1 else 0))"

lemma mock_poll_drains:
  "mock_poll_transcript p = (Inr (Some t), p') \<Longrightarrow> mock_queued p' < mock_queued p"
  by (auto simp: mock_poll_transcript_def mock_queued_def FINAL_THRESHOLD_BYTES_def split: if_splits)

text \<open>The trait's \<open>push_and_poll\<close> on the mock: push, then poll until \<open>None\<close> (the mock never fails).\<close>

function mock_poll_all :: "mock_stt \<Rightarrow> stt_transcript list \<times> mock_stt" where
  "mock_poll_all p =
     (case mock_poll_transcript p of
        (Inr (Some t), p') \<Rightarrow> (let (ts, p'') = mock_poll_all p' in (t # ts, p''))
      | (_, p') \<Rightarrow> ([], p'))"
  by pat_completeness auto
termination
  by (relation "measure mock_queued") (auto dest: mock_poll_drains sym)

declare mock_poll_all.simps [simp del]

definition mock_push_and_poll ::
  "bytes \<Rightarrow> instant \<Rightarrow> mock_stt \<Rightarrow> (unit speech_result \<times> stt_transcript list) \<times> duration \<times> mock_stt" where
  "mock_push_and_poll audio now p =
     (let (_, _, p) = mock_push_audio audio now p; (ts, p) = mock_poll_all p in ((Inr (), ts), 0, p))"

definition mock_provider :: "mock_stt stt_provider" where
  "mock_provider = \<lparr>sp_start = mock_start, sp_stop = mock_stop, sp_push_audio = mock_push_audio,
     sp_push_and_poll = mock_push_and_poll, sp_wait_ready = default_wait_ready,
     sp_finalize_utterance = default_finalize_utterance, sp_bind_session_context = (\<lambda>ctx p. p),
     sp_decode_backlog_ms = (\<lambda>now p. 0), sp_emits_partials = (\<lambda>p. True),
     sp_stream_open_pending = (\<lambda>now p. False), sp_stream_alive = (\<lambda>now p. True),
     sp_finalize_mode = (\<lambda>p. Inline), sp_request_finalize = default_finalize_utterance,
     sp_poll_output = default_poll_output mock_poll_transcript,
     sp_finalize_wait_ms = (\<lambda>p. DEFAULT_STT_FINALIZE_WAIT_MS)\<rparr>"

definition mock_create_stt :: "stt_config \<Rightarrow> mock_stt speech_result" where
  "mock_create_stt config = Inr (mock_new config)"

interpretation mock: stt_provider_laws mock_provider mock_queued
proof unfold_locales
  fix p now x
  assume "fst (sp_poll_output mock_provider now p) = Inr (Some x)"
  then obtain t where "mock_poll_transcript p = (Inr (Some t), snd (mock_poll_transcript p))"
    by (cases "mock_poll_transcript p") (auto simp: mock_provider_def default_poll_output_def split: sum.splits)
  from mock_poll_drains [OF this]
  show "mock_queued (snd (snd (sp_poll_output mock_provider now p))) < mock_queued p"
    by (cases "mock_poll_transcript p") (auto simp: mock_provider_def default_poll_output_def split: sum.splits)
qed (auto simp: mock_provider_def default_poll_output_def split: prod.splits sum.splits)

end
