(* ===== verification/Stt_Actor.thy ===== *)
theory Stt_Actor
  imports Stt_Provider "HOL-Library.Monad_Syntax"
begin

text \<open>
  \<open>crates/speech/src/stt_actor.rs\<close>: the task that owns an agent's STT provider.  Commands come in order
  through a mailbox, results go out in order.  The clock is a field: waiting moves it, and so do the
  provider's calls.  \<open>None\<close> is a poll loop that never ends; the laws of the provider rule it out.
  The oneshot channels of the commands are numbers.  Not modelled: log lines, OTel attributes of the
  latency samples, and the test-only audio tap.
\<close>

section \<open>Commands, results, state\<close>

definition STT_ACTOR_STOP_MS :: nat where "STT_ACTOR_STOP_MS = 3000"
definition STT_ACTOR_START_MS :: nat where "STT_ACTOR_START_MS = 15000"
definition STT_REOPEN_BACKOFF_MS :: nat where "STT_REOPEN_BACKOFF_MS = 2000"
definition STT_ACTOR_POLL_MS :: nat where "STT_ACTOR_POLL_MS = 20"
definition STT_ACTOR_BUSY_WINDOW_MS :: nat where "STT_ACTOR_BUSY_WINDOW_MS = 10000"
definition STT_LATE_MARKER_GRACE_MS :: nat where "STT_LATE_MARKER_GRACE_MS = 60000"
definition ACTOR_PCM_BYTES_PER_MS :: nat where "ACTOR_PCM_BYTES_PER_MS = 32"
definition BACKLOG_LOG_ABOVE_MS :: nat where "BACKLOG_LOG_ABOVE_MS = 2000"
definition BACKLOG_REARM_BELOW_MS :: nat where "BACKLOG_REARM_BELOW_MS = 500"

datatype stt_command =
    CStart voice_session_context nat
  | CAudio bytes
  | CEndUtterance nat
  | CSwap stt_config voice_session_context bool nat
  | CWaitReady duration nat
  | CBarrier nat
  | CStop nat

datatype stt_result =
    RTranscript "nat option" nat stt_transcript
  | RFinalizeDone nat nat bool
  | RVendorError "nat option" nat ustring
  | RSwapApplied stt_config "ustring + unit"
  | RBarrierReached nat

text \<open>What is sent on a command's \<open>done\<close> channel.\<close>

datatype actor_answer = AnsResult "unit speech_result" | AnsReady bool | AnsStopped

record stt_actor_status =
  ss_queued_audio_bytes :: nat
  ss_audio_bytes_pushed :: nat
  ss_vendor_backlog_ms :: nat
  ss_open_pending :: bool
  ss_outstanding_finalizes :: nat
  ss_generation :: nat
  ss_emits_partials :: bool

definition default_actor_status :: stt_actor_status where
  "default_actor_status = \<lparr>ss_queued_audio_bytes = 0, ss_audio_bytes_pushed = 0, ss_vendor_backlog_ms = 0,
     ss_open_pending = False, ss_outstanding_finalizes = 0, ss_generation = 0, ss_emits_partials = True\<rparr>"

record stt_actor_options =
  ao_open_wait_max_ms :: nat
  ao_test_final_delay_ms :: nat

record outstanding =
  ou_key :: nat
  ou_gen :: nat
  ou_requested_at :: instant
  ou_finalize_requested_at :: instant
  ou_latency_recorded :: bool
  ou_deadline_base_ms :: nat
  ou_timed_out :: bool
  ou_timed_out_at :: "instant option"

text \<open>The conditions \<open>select!\<close> captures at the head of the loop.\<close>

record select_wait =
  sw_due :: "instant option"
  sw_deadline :: "instant option"
  sw_can_read :: bool
  sw_busy :: bool

record 'p actor =
  ac_now :: instant
  ac_provider :: "'p option"
  ac_status :: stt_actor_status
  ac_results :: "stt_result list"
  ac_answers :: "(nat \<times> actor_answer) list"
  ac_latency_samples :: "duration list"
  ac_outstanding :: "outstanding list"
  ac_inline_late_key :: "nat option"
  ac_gen :: nat
  ac_delayed :: "(instant \<times> stt_result) list"
  ac_parked :: "stt_command option"
  ac_last_work_at :: "instant option"
  ac_backlog_logged :: bool
  ac_reopen_not_before :: "instant option"
  ac_last_open_pending :: bool
  ac_mailbox :: "stt_command list"
  ac_closed :: bool
  ac_exited :: bool
  ac_next_poll :: instant
  ac_wait :: select_wait

record 'p actor_env =
  ev_methods :: "'p stt_provider"
  ev_registry :: "'p vendor_registry"
  ev_options :: stt_actor_options

section \<open>Small pieces\<close>

definition backlog_episode :: "bool \<Rightarrow> nat \<Rightarrow> bool \<times> bool" where
  "backlog_episode prev_logged backlog =
     (if \<not> prev_logged \<and> BACKLOG_LOG_ABOVE_MS < backlog then (True, True)
      else if prev_logged \<and> backlog < BACKLOG_REARM_BELOW_MS then (False, False)
      else (False, prev_logged))"

definition backlog_ms_of :: "stt_actor_status \<Rightarrow> nat" where
  "backlog_ms_of status =
     saturating_add_u32 (min u32_max (ss_queued_audio_bytes status div ACTOR_PCM_BYTES_PER_MS))
       (ss_vendor_backlog_ms status)"

definition open_pending :: "'p actor_env \<Rightarrow> 'p actor \<Rightarrow> bool" where
  "open_pending ev a =
     (case ac_provider a of Some p \<Rightarrow> sp_stream_open_pending (ev_methods ev) (ac_now a) p | None \<Rightarrow> False)"

definition vendor_backlog :: "'p actor_env \<Rightarrow> 'p actor \<Rightarrow> nat" where
  "vendor_backlog ev a =
     (case ac_provider a of Some p \<Rightarrow> sp_decode_backlog_ms (ev_methods ev) (ac_now a) p | None \<Rightarrow> 0)"

definition actor_busy :: "'p actor_env \<Rightarrow> 'p actor \<Rightarrow> bool" where
  "actor_busy ev a \<longleftrightarrow>
     ac_outstanding a \<noteq> [] \<or> ac_parked a \<noteq> None \<or> ac_delayed a \<noteq> [] \<or>
     (case ac_last_work_at a of
        Some at \<Rightarrow> saturating_duration_since (ac_now a) at < ms STT_ACTOR_BUSY_WINDOW_MS
      | None \<Rightarrow> False) \<or>
     open_pending ev a \<or> 0 < vendor_backlog ev a"

section \<open>Results\<close>

definition emit_result :: "stt_actor_options \<Rightarrow> stt_result \<Rightarrow> 'p actor \<Rightarrow> 'p actor" where
  "emit_result opt result a =
     (let delay = ao_test_final_delay_ms opt
      in if delay = 0 then a\<lparr>ac_results := ac_results a @ [result]\<rparr>
         else
           (let holds = (case result of
                           RTranscript _ _ (Final _) \<Rightarrow> True
                         | RFinalizeDone _ _ _ \<Rightarrow> True
                         | _ \<Rightarrow> False);
                own = ac_now a + ms (if holds then delay else 0);
                at = (if ac_delayed a \<noteq> [] \<and> own < fst (last (ac_delayed a))
                      then fst (last (ac_delayed a)) else own)
            in a\<lparr>ac_delayed := ac_delayed a @ [(at, result)]\<rparr>))"

definition release_due :: "'p actor \<Rightarrow> 'p actor" where
  "release_due a =
     (let due = takeWhile (\<lambda>(at, _). at \<le> ac_now a) (ac_delayed a)
      in a\<lparr>ac_delayed := dropWhile (\<lambda>(at, _). at \<le> ac_now a) (ac_delayed a),
           ac_results := ac_results a @ map snd due\<rparr>)"

definition front_key_gen :: "'p actor \<Rightarrow> nat option \<times> nat" where
  "front_key_gen a =
     (case ac_outstanding a of x # _ \<Rightarrow> (Some (ou_key x), ou_gen x) | [] \<Rightarrow> (None, ac_gen a))"

text \<open>The latency sample of the first final of the front utterance.\<close>

definition sample_latency :: "stt_transcript \<Rightarrow> 'p actor \<Rightarrow> 'p actor" where
  "sample_latency transcript a =
     (case (transcript, ac_outstanding a) of
        (Final _, front # rest) \<Rightarrow>
          if ou_latency_recorded front then a
          else a\<lparr>ac_outstanding := front\<lparr>ou_latency_recorded := True\<rparr> # rest,
                 ac_latency_samples := ac_latency_samples a @
                   [saturating_duration_since (ac_now a) (ou_finalize_requested_at front)]\<rparr>
      | _ \<Rightarrow> a)"

definition emit_transcript ::
  "stt_actor_options \<Rightarrow> stt_transcript \<Rightarrow> nat option \<Rightarrow> 'p actor \<Rightarrow> 'p actor" where
  "emit_transcript opt transcript fallback_key a =
     (let (key, gen) = front_key_gen a;
          a = sample_latency transcript a
      in emit_result opt (RTranscript (case key of Some k \<Rightarrow> Some k | None \<Rightarrow> fallback_key) gen transcript) a)"

definition emit_vendor_error :: "stt_actor_options \<Rightarrow> nat option \<Rightarrow> ustring \<Rightarrow> 'p actor \<Rightarrow> 'p actor" where
  "emit_vendor_error opt key message a = emit_result opt (RVendorError key (ac_gen a) message) a"

section \<open>Outputs\<close>

text \<open>The poll loop: the items in order, the error that ended it, the clock and the provider after it.\<close>

partial_function (option) poll_all ::
  "'p stt_provider \<Rightarrow> instant \<Rightarrow> 'p \<Rightarrow> stt_output list \<Rightarrow>
   (stt_output list \<times> ustring option \<times> instant \<times> 'p) option" where
  "poll_all P now p items =
     (case sp_poll_output P now p of
        (Inr (Some item), d, p') \<Rightarrow> poll_all P (now + d) p' (items @ [item])
      | (Inr None, d, p') \<Rightarrow> Some (items, None, now + d, p')
      | (Inl e, d, p') \<Rightarrow> Some (items, Some (speech_error_to_string e), now + d, p'))"

definition deliver_item ::
  "stt_actor_options \<Rightarrow> nat option \<Rightarrow> stt_output \<Rightarrow> 'p actor \<Rightarrow> 'p actor" where
  "deliver_item opt fallback_key item a =
     (case item of
        Transcript t \<Rightarrow> emit_transcript opt t fallback_key a
      | FinalizeDone \<Rightarrow>
          (case ac_outstanding a of
             [] \<Rightarrow> a
           | d # rest \<Rightarrow>
               (let a = a\<lparr>ac_outstanding := rest\<rparr>
                in if \<not> ou_timed_out d then emit_result opt (RFinalizeDone (ou_key d) (ou_gen d) False) a else a)))"

definition drain_outputs :: "'p actor_env \<Rightarrow> nat option \<Rightarrow> 'p actor \<Rightarrow> 'p actor option" where
  "drain_outputs ev fallback_key a =
     (case ac_provider a of
        None \<Rightarrow> Some a
      | Some p \<Rightarrow> do {
          (items, error, now, p) \<leftarrow> poll_all (ev_methods ev) (ac_now a) p [];
          let a = a\<lparr>ac_provider := Some p, ac_now := now\<rparr>;
          let a = (if items \<noteq> [] then a\<lparr>ac_last_work_at := Some now\<rparr> else a);
          let a = fold (deliver_item (ev_options ev) fallback_key) items a;
          Some (case error of
                  None \<Rightarrow> a
                | Some message \<Rightarrow> emit_vendor_error (ev_options ev) (fst (front_key_gen a)) message a)
        })"

section \<open>Deadlines\<close>

definition observe_open_transition :: "'p actor_env \<Rightarrow> 'p actor \<Rightarrow> 'p actor" where
  "observe_open_transition ev a =
     (let now_pending = open_pending ev a;
          a = (case ac_provider a of
                 Some p \<Rightarrow>
                   if ac_last_open_pending a \<and> \<not> now_pending
                   then a\<lparr>ac_outstanding := map (\<lambda>x. if ou_timed_out x then x
                          else x\<lparr>ou_requested_at := ac_now a,
                                 ou_deadline_base_ms := sp_finalize_wait_ms (ev_methods ev) p\<rparr>)
                          (ac_outstanding a)\<rparr>
                   else a
               | None \<Rightarrow> a)
      in a\<lparr>ac_last_open_pending := now_pending\<rparr>)"

definition deadline_of :: "stt_actor_options \<Rightarrow> bool \<Rightarrow> outstanding \<Rightarrow> instant" where
  "deadline_of opt pending x =
     (let base = ou_requested_at x + ms (ou_deadline_base_ms x)
      in if pending then max base (ou_requested_at x + ms (ao_open_wait_max_ms opt)) else base)"

definition grace_expiry :: "outstanding \<Rightarrow> instant option" where
  "grace_expiry x = map_option (\<lambda>at. at + ms STT_LATE_MARKER_GRACE_MS) (ou_timed_out_at x)"

definition grace_expiry_of_front :: "'p actor \<Rightarrow> instant option" where
  "grace_expiry_of_front a = (case ac_outstanding a of x # _ \<Rightarrow> grace_expiry x | [] \<Rightarrow> None)"

definition actor_next_deadline :: "'p actor_env \<Rightarrow> 'p actor \<Rightarrow> instant option \<times> 'p actor" where
  "actor_next_deadline ev a =
     (let a = observe_open_transition ev a;
          finalize = map_option (deadline_of (ev_options ev) (open_pending ev a))
            (find (\<lambda>x. \<not> ou_timed_out x) (ac_outstanding a))
      in (case (finalize, grace_expiry_of_front a) of
            (Some x, Some y) \<Rightarrow> Some (min x y)
          | (Some x, None) \<Rightarrow> Some x
          | (None, y) \<Rightarrow> y, a))"

text \<open>
  The second loop of \<open>expire_deadlines\<close>: from the oldest waiting entry on, every entry whose deadline
  passed is marked and reported, up to the first whose deadline did not.
\<close>

fun expire_waiting :: "stt_actor_options \<Rightarrow> bool \<Rightarrow> instant \<Rightarrow> outstanding list \<Rightarrow>
    outstanding list \<times> stt_result list" where
  "expire_waiting opt pending now [] = ([], [])"
| "expire_waiting opt pending now (e # es) =
     (if ou_timed_out e then (let (es, rs) = expire_waiting opt pending now es in (e # es, rs))
      else if now < deadline_of opt pending e then (e # es, [])
      else
        (let (es, rs) = expire_waiting opt pending now es
         in (e\<lparr>ou_timed_out := True, ou_timed_out_at := Some now\<rparr> # es,
             RFinalizeDone (ou_key e) (ou_gen e) True # rs)))"

definition expire_deadlines :: "'p actor_env \<Rightarrow> 'p actor \<Rightarrow> 'p actor" where
  "expire_deadlines ev a =
     (let a = observe_open_transition ev a;
          a = a\<lparr>ac_outstanding := dropWhile (\<lambda>x. case grace_expiry x of Some at \<Rightarrow> at \<le> ac_now a | None \<Rightarrow> False)
                  (ac_outstanding a)\<rparr>;
          (outs, results) = expire_waiting (ev_options ev) (open_pending ev a) (ac_now a) (ac_outstanding a)
      in fold (emit_result (ev_options ev)) results (a\<lparr>ac_outstanding := outs\<rparr>))"

section \<open>Status and backlog\<close>

definition publish_status :: "'p actor_env \<Rightarrow> 'p actor \<Rightarrow> 'p actor" where
  "publish_status ev a =
     (let a = observe_open_transition ev a
      in a\<lparr>ac_status := (ac_status a)\<lparr>ss_vendor_backlog_ms := vendor_backlog ev a,
             ss_open_pending := open_pending ev a,
             ss_outstanding_finalizes := length (filter (\<lambda>x. \<not> ou_timed_out x) (ac_outstanding a))\<rparr>\<rparr>)"

definition check_backlog :: "'p actor_env \<Rightarrow> 'p actor \<Rightarrow> 'p actor" where
  "check_backlog ev a =
     (let status = (ac_status a)\<lparr>ss_vendor_backlog_ms := vendor_backlog ev a\<rparr>
      in a\<lparr>ac_status := status,
           ac_backlog_logged := snd (backlog_episode (ac_backlog_logged a) (backlog_ms_of status))\<rparr>)"

section \<open>Provider lifecycle\<close>

definition start_bounded :: "'p stt_provider \<Rightarrow> instant \<Rightarrow> 'p \<Rightarrow> unit speech_result \<times> instant \<times> 'p" where
  "start_bounded P now p =
     (case sp_start P now p of
        (r, d, p') \<Rightarrow>
          if d \<le> ms STT_ACTOR_START_MS then (r, now + d, p')
          else (Inl (Stt (utext ''stt start timed out'')), now + ms STT_ACTOR_START_MS, p'))"

text \<open>The result of a stop is only logged.\<close>

definition stop_bounded :: "'p stt_provider \<Rightarrow> instant \<Rightarrow> 'p \<Rightarrow> instant \<times> 'p" where
  "stop_bounded P now p =
     (case sp_stop P now p of (r, d, p') \<Rightarrow> (now + min d (ms STT_ACTOR_STOP_MS), p'))"

definition stop_provider :: "'p actor_env \<Rightarrow> 'p actor \<Rightarrow> 'p actor" where
  "stop_provider ev a =
     (case ac_provider a of
        None \<Rightarrow> a
      | Some p \<Rightarrow>
          (let (now, p) = stop_bounded (ev_methods ev) (ac_now a) p
           in a\<lparr>ac_now := now, ac_provider := Some p\<rparr>))"

definition actor_reply :: "nat \<Rightarrow> actor_answer \<Rightarrow> 'p actor \<Rightarrow> 'p actor" where
  "actor_reply done_channel answer a = a\<lparr>ac_answers := ac_answers a @ [(done_channel, answer)]\<rparr>"

definition reopen_dead_stream :: "'p actor_env \<Rightarrow> 'p actor \<Rightarrow> 'p actor option" where
  "reopen_dead_stream ev a =
     (let P = ev_methods ev;
          dead = (case ac_provider a of Some p \<Rightarrow> \<not> sp_stream_alive P (ac_now a) p | None \<Rightarrow> False)
      in if \<not> dead \<or> ac_outstanding a \<noteq> [] \<or>
            (case ac_reopen_not_before a of Some at \<Rightarrow> ac_now a < at | None \<Rightarrow> False) then Some a
         else do {
           a \<leftarrow> drain_outputs ev None a;
           case ac_provider a of
             None \<Rightarrow> Some a
           | Some p \<Rightarrow>
               (let a = a\<lparr>ac_status := (ac_status a)\<lparr>ss_open_pending := True\<rparr>\<rparr>;
                    (r, now, p) = start_bounded P (ac_now a) p;
                    a = a\<lparr>ac_now := now, ac_provider := Some p\<rparr>;
                    a = (case r of
                           Inr _ \<Rightarrow> a\<lparr>ac_reopen_not_before := None\<rparr>
                         | Inl e \<Rightarrow>
                             emit_vendor_error (ev_options ev) None (speech_error_to_string e)
                               (a\<lparr>ac_reopen_not_before := Some (ac_now a + ms STT_REOPEN_BACKOFF_MS)\<rparr>))
                in Some (publish_status ev a))
         })"

section \<open>Commands\<close>

text \<open>The push itself: error messages and transcripts collected for after it.\<close>

definition push_to_provider ::
  "'p actor_env \<Rightarrow> bytes \<Rightarrow> 'p actor \<Rightarrow> ustring list \<times> stt_transcript list \<times> 'p actor" where
  "push_to_provider ev audio a =
     (let P = ev_methods ev; error_of = (\<lambda>r. case r of Inl e \<Rightarrow> [speech_error_to_string e] | Inr _ \<Rightarrow> [])
      in case ac_provider a of
           None \<Rightarrow> ([], [], a)
         | Some p \<Rightarrow>
             (case sp_finalize_mode P p of
                Inline \<Rightarrow>
                  (let ((r, transcripts), d, p) = sp_push_and_poll P audio (ac_now a) p
                   in (error_of r, transcripts, a\<lparr>ac_now := ac_now a + d, ac_provider := Some p\<rparr>))
              | Deferred \<Rightarrow>
                  (let (r, d, p) = sp_push_audio P audio (ac_now a) p
                   in (error_of r, [], a\<lparr>ac_now := ac_now a + d, ac_provider := Some p\<rparr>))))"

definition is_deferred :: "'p actor_env \<Rightarrow> 'p actor \<Rightarrow> bool" where
  "is_deferred ev a =
     (case ac_provider a of Some p \<Rightarrow> sp_finalize_mode (ev_methods ev) p = Deferred | None \<Rightarrow> False)"

definition on_audio :: "'p actor_env \<Rightarrow> bytes \<Rightarrow> 'p actor \<Rightarrow> 'p actor option" where
  "on_audio ev audio a = do {
     let a = a\<lparr>ac_last_work_at := Some (ac_now a)\<rparr>;
     a \<leftarrow> reopen_dead_stream ev a;
     a \<leftarrow> (case ac_inline_late_key a of
            Some key \<Rightarrow> drain_outputs ev (Some key) (a\<lparr>ac_inline_late_key := None\<rparr>)
          | None \<Rightarrow> Some a);
     let (errors, transcripts, a) = push_to_provider ev audio a;
     let status = ac_status a;
     let a = a\<lparr>ac_status := status\<lparr>ss_queued_audio_bytes := ss_queued_audio_bytes status - length audio,
                  ss_audio_bytes_pushed := (ss_audio_bytes_pushed status + length audio) mod 2 ^ 64\<rparr>\<rparr>;
     let a = fold (\<lambda>t. emit_transcript (ev_options ev) t None) transcripts a;
     let a = fold (emit_vendor_error (ev_options ev) None) errors a;
     a \<leftarrow> (if is_deferred ev a then drain_outputs ev None a else Some a);
     Some (check_backlog ev a)
   }"

definition new_outstanding :: "nat \<Rightarrow> nat \<Rightarrow> instant \<Rightarrow> nat \<Rightarrow> outstanding" where
  "new_outstanding key gen now wait_ms = \<lparr>ou_key = key, ou_gen = gen, ou_requested_at = now,
     ou_finalize_requested_at = now, ou_latency_recorded = False, ou_deadline_base_ms = wait_ms,
     ou_timed_out = False, ou_timed_out_at = None\<rparr>"

definition finalize_deferred :: "'p actor_env \<Rightarrow> nat \<Rightarrow> 'p \<Rightarrow> 'p actor \<Rightarrow> 'p actor option" where
  "finalize_deferred ev key p a =
     (let opt = ev_options ev; gen = ac_gen a;
          entry = new_outstanding key gen (ac_now a) (sp_finalize_wait_ms (ev_methods ev) p);
          (r, d, p) = sp_request_finalize (ev_methods ev) (ac_now a) p;
          a = a\<lparr>ac_now := ac_now a + d, ac_provider := Some p, ac_outstanding := ac_outstanding a @ [entry]\<rparr>
      in case r of
           Inr _ \<Rightarrow> drain_outputs ev None a
         | Inl e \<Rightarrow>
             (let a = a\<lparr>ac_outstanding := butlast (ac_outstanding a)\<rparr>;
                  a = emit_vendor_error opt (Some key) (speech_error_to_string e) a
              in Some (emit_result opt (RFinalizeDone key gen False) a)))"

definition finalize_inline :: "'p actor_env \<Rightarrow> nat \<Rightarrow> 'p \<Rightarrow> 'p actor \<Rightarrow> 'p actor option" where
  "finalize_inline ev key p a =
     (let opt = ev_options ev; gen = ac_gen a; wait_ms = sp_finalize_wait_ms (ev_methods ev) p;
          entry = new_outstanding key gen (ac_now a) wait_ms;
          (r, d, p) = sp_finalize_utterance (ev_methods ev) (ac_now a) p;
          a = a\<lparr>ac_now := ac_now a + min d (ms wait_ms), ac_provider := Some p,
                ac_outstanding := ac_outstanding a @ [entry]\<rparr>;
          pop_back = (\<lambda>a. a\<lparr>ac_outstanding := butlast (ac_outstanding a)\<rparr>);
          late = (\<lambda>a. a\<lparr>ac_inline_late_key := Some key\<rparr>)
      in if ms wait_ms < d then Some (late (emit_result opt (RFinalizeDone key gen True) (pop_back a)))
         else
           (case r of
              Inr _ \<Rightarrow> do {
                a \<leftarrow> drain_outputs ev None a;
                Some (late (emit_result opt (RFinalizeDone key gen False) (pop_back a)))
              }
            | Inl e \<Rightarrow>
                (let a = emit_vendor_error opt (Some key) (speech_error_to_string e) (pop_back a)
                 in Some (late (emit_result opt (RFinalizeDone key gen False) a)))))"

definition on_end_utterance :: "'p actor_env \<Rightarrow> nat \<Rightarrow> 'p actor \<Rightarrow> 'p actor option" where
  "on_end_utterance ev key a =
     (let a = a\<lparr>ac_last_work_at := Some (ac_now a)\<rparr>
      in case ac_provider a of
           None \<Rightarrow> Some (emit_result (ev_options ev) (RFinalizeDone key (ac_gen a) False) a)
         | Some p \<Rightarrow>
             (case sp_finalize_mode (ev_methods ev) p of
                Deferred \<Rightarrow> finalize_deferred ev key p a
              | Inline \<Rightarrow> finalize_inline ev key p a))"

text \<open>\<open>False\<close> when the actor must exit.\<close>

definition handle_command :: "'p actor_env \<Rightarrow> stt_command \<Rightarrow> 'p actor \<Rightarrow> (bool \<times> 'p actor) option" where
  "handle_command ev cmd a =
     (let P = ev_methods ev in
      case cmd of
        CStart ctx reply \<Rightarrow>
          (case ac_provider a of
             None \<Rightarrow> Some (True, actor_reply reply (AnsResult (Inr ())) a)
           | Some p \<Rightarrow>
               (let (r, now, p) = start_bounded P (ac_now a) (sp_bind_session_context P ctx p);
                    a = a\<lparr>ac_now := now, ac_provider := Some p\<rparr>;
                    a = (case r of
                           Inr _ \<Rightarrow> a\<lparr>ac_status := (ac_status a)\<lparr>ss_emits_partials := sp_emits_partials P p\<rparr>\<rparr>
                         | Inl _ \<Rightarrow> a)
                in Some (True, actor_reply reply (AnsResult r) a)))
      | CAudio audio \<Rightarrow> map_option (\<lambda>a. (True, a)) (on_audio ev audio a)
      | CEndUtterance key \<Rightarrow> map_option (\<lambda>a. (True, a)) (on_end_utterance ev key a)
      | CWaitReady limit reply \<Rightarrow>
          (case ac_provider a of
             None \<Rightarrow> Some (True, actor_reply reply (AnsReady True) a)
           | Some p \<Rightarrow>
               (let (r, d, p) = sp_wait_ready P limit (ac_now a) p
                in Some (True, actor_reply reply (AnsReady (case r of Inr b \<Rightarrow> b | Inl _ \<Rightarrow> False))
                     (a\<lparr>ac_now := ac_now a + d, ac_provider := Some p\<rparr>))))
      | CSwap _ _ _ _ \<Rightarrow> Some (True, a\<lparr>ac_parked := Some cmd\<rparr>)
      | CBarrier _ \<Rightarrow> Some (True, a\<lparr>ac_parked := Some cmd\<rparr>)
      | CStop reply \<Rightarrow> Some (False, actor_reply reply AnsStopped (stop_provider ev a)))"

section \<open>Parked commands\<close>

definition refuse_swap :: "stt_actor_options \<Rightarrow> stt_config \<Rightarrow> speech_error \<Rightarrow> nat \<Rightarrow> 'p actor \<Rightarrow> 'p actor" where
  "refuse_swap opt config e reply a =
     actor_reply reply (AnsResult (Inl e))
       (emit_result opt (RSwapApplied config (Inl (speech_error_to_string e))) a)"

definition apply_swap :: "'p actor_env \<Rightarrow> stt_config \<Rightarrow> 'p \<Rightarrow> nat \<Rightarrow> 'p actor \<Rightarrow> 'p actor" where
  "apply_swap ev config new reply a =
     (let a = stop_provider ev a;
          gen = ac_gen a + 1;
          a = a\<lparr>ac_status := (ac_status a)\<lparr>ss_emits_partials := sp_emits_partials (ev_methods ev) new,
                  ss_generation := gen\<rparr>,
                ac_provider := Some new, ac_gen := gen, ac_outstanding := [], ac_inline_late_key := None\<rparr>
      in actor_reply reply (AnsResult (Inr ())) (emit_result (ev_options ev) (RSwapApplied config (Inr ())) a))"

definition run_swap ::
  "'p actor_env \<Rightarrow> stt_config \<Rightarrow> voice_session_context \<Rightarrow> bool \<Rightarrow> nat \<Rightarrow> 'p actor \<Rightarrow> 'p actor" where
  "run_swap ev config ctx running reply a =
     (case create_stt (ev_registry ev) config of
        Inl e \<Rightarrow> refuse_swap (ev_options ev) config e reply a
      | Inr new \<Rightarrow>
          (let new = sp_bind_session_context (ev_methods ev) ctx new
           in if running then
                (case start_bounded (ev_methods ev) (ac_now a) new of
                   (Inl e, now, new) \<Rightarrow> refuse_swap (ev_options ev) config e reply (a\<lparr>ac_now := now\<rparr>)
                 | (Inr _, now, new) \<Rightarrow> apply_swap ev config new reply (a\<lparr>ac_now := now\<rparr>))
              else apply_swap ev config new reply a))"

definition run_parked :: "'p actor_env \<Rightarrow> 'p actor \<Rightarrow> 'p actor" where
  "run_parked ev a =
     (if ac_parked a = None \<or> list_ex (\<lambda>x. \<not> ou_timed_out x) (ac_outstanding a) then a
      else
        (case ac_parked a of
           Some (CBarrier reply) \<Rightarrow> emit_result (ev_options ev) (RBarrierReached reply) (a\<lparr>ac_parked := None\<rparr>)
         | Some (CSwap config ctx running reply) \<Rightarrow> run_swap ev config ctx running reply (a\<lparr>ac_parked := None\<rparr>)
         | _ \<Rightarrow> a\<lparr>ac_parked := None\<rparr>))"

section \<open>The loop\<close>

definition select_head :: "'p actor_env \<Rightarrow> 'p actor \<Rightarrow> 'p actor" where
  "select_head ev a =
     (let due = (case ac_delayed a of (at, _) # _ \<Rightarrow> Some at | [] \<Rightarrow> None);
          (deadline, a) = actor_next_deadline ev a
      in a\<lparr>ac_wait := \<lparr>sw_due = due, sw_deadline = deadline, sw_can_read = (ac_parked a = None),
                        sw_busy = actor_busy ev a\<rparr>\<rparr>)"

datatype select_branch = BranchDue | BranchDeadline | BranchCommand | BranchPoll | StillWaiting

text \<open>\<open>biased\<close>: the first branch that is enabled and ready.\<close>

definition chosen_branch :: "'p actor \<Rightarrow> select_branch" where
  "chosen_branch a =
     (let w = ac_wait a; reached = (\<lambda>t. case t of Some at \<Rightarrow> at \<le> ac_now a | None \<Rightarrow> False)
      in if reached (sw_due w) then BranchDue
         else if reached (sw_deadline w) then BranchDeadline
         else if sw_can_read w \<and> (ac_mailbox a \<noteq> [] \<or> ac_closed a) then BranchCommand
         else if sw_busy w \<and> ac_next_poll a \<le> ac_now a then BranchPoll
         else StillWaiting)"

definition loop_tail :: "'p actor_env \<Rightarrow> 'p actor \<Rightarrow> 'p actor" where
  "loop_tail ev a = select_head ev (publish_status ev (run_parked ev a))"

definition produces_transcripts :: "stt_command \<Rightarrow> bool" where
  "produces_transcripts cmd = (case cmd of CAudio _ \<Rightarrow> True | CEndUtterance _ \<Rightarrow> True | _ \<Rightarrow> False)"

definition read_command :: "'p actor_env \<Rightarrow> 'p actor \<Rightarrow> 'p actor option" where
  "read_command ev a =
     (case ac_mailbox a of
        [] \<Rightarrow> Some ((stop_provider ev a)\<lparr>ac_exited := True\<rparr>)
      | cmd # rest \<Rightarrow> do {
          let a = a\<lparr>ac_mailbox := rest\<rparr>;
          a \<leftarrow> (if \<not> sw_busy (ac_wait a) \<and> ac_last_work_at a \<noteq> None \<and> produces_transcripts cmd
               then drain_outputs ev (ac_inline_late_key a) a else Some a);
          (go_on, a) \<leftarrow> handle_command ev cmd a;
          Some (if go_on then loop_tail ev (a\<lparr>ac_next_poll := ac_now a + ms STT_ACTOR_POLL_MS\<rparr>)
                else a\<lparr>ac_exited := True\<rparr>)
        })"

definition poll_branch :: "'p actor_env \<Rightarrow> 'p actor \<Rightarrow> 'p actor option" where
  "poll_branch ev a = do {
     a \<leftarrow> drain_outputs ev (ac_inline_late_key a) a;
     let a = check_backlog ev a;
     Some (loop_tail ev (a\<lparr>ac_next_poll := ac_now a + ms STT_ACTOR_POLL_MS\<rparr>))
   }"

text \<open>One wake-up of the task.\<close>

definition loop_turn :: "'p actor_env \<Rightarrow> 'p actor \<Rightarrow> 'p actor option" where
  "loop_turn ev a =
     (if ac_exited a then Some a
      else
        (case chosen_branch a of
           BranchDue \<Rightarrow> Some (loop_tail ev (release_due a))
         | BranchDeadline \<Rightarrow> Some (loop_tail ev (expire_deadlines ev a))
         | BranchCommand \<Rightarrow> read_command ev a
         | BranchPoll \<Rightarrow> poll_branch ev a
         | StillWaiting \<Rightarrow> Some a))"

definition actor_new :: "'p actor_env \<Rightarrow> 'p option \<Rightarrow> 'p actor" where
  "actor_new ev provider =
     select_head ev \<lparr>ac_now = 0, ac_provider = provider, ac_status = default_actor_status, ac_results = [],
       ac_answers = [], ac_latency_samples = [], ac_outstanding = [], ac_inline_late_key = None, ac_gen = 0,
       ac_delayed = [], ac_parked = None, ac_last_work_at = None, ac_backlog_logged = False,
       ac_reopen_not_before = None, ac_last_open_pending = False, ac_mailbox = [], ac_closed = False,
       ac_exited = False, ac_next_poll = 0,
       ac_wait = \<lparr>sw_due = None, sw_deadline = None, sw_can_read = True, sw_busy = False\<rparr>\<rparr>"

text \<open>The handle: \<open>send\<close> and \<open>send_audio\<close>, \<open>False\<close> when the actor has exited.\<close>

definition actor_send :: "stt_command \<Rightarrow> 'p actor \<Rightarrow> bool \<times> 'p actor" where
  "actor_send cmd a =
     (if ac_exited a \<or> ac_closed a then (False, a) else (True, a\<lparr>ac_mailbox := ac_mailbox a @ [cmd]\<rparr>))"

definition actor_send_audio :: "bytes \<Rightarrow> 'p actor \<Rightarrow> bool \<times> 'p actor" where
  "actor_send_audio audio a =
     (let count = (\<lambda>f a. a\<lparr>ac_status := (ac_status a)\<lparr>ss_queued_audio_bytes := f (ss_queued_audio_bytes (ac_status a))\<rparr>\<rparr>);
          (sent, a) = actor_send (CAudio audio) (count (\<lambda>n. (n + length audio) mod 2 ^ 64) a)
      in if sent then (True, a) else (False, count (\<lambda>n. n - length audio) a))"

datatype actor_op = Send stt_command | SendAudio bytes | CloseCommands | Pass duration | Turn

section \<open>The trace of a run\<close>

text \<open>
  A trace records the utterances whose end was taken from the mailbox and the results in the order
  they were produced.  \<open>settle\<close> follows the utterances still owed an answer: an answer to an utterance
  that is not owed one, and a swap or barrier while one is owed, are refused.
\<close>

datatype actor_event = Requested nat | Emitted stt_result

fun settle :: "nat multiset \<Rightarrow> actor_event list \<Rightarrow> nat multiset option" where
  "settle m [] = Some m"
| "settle m (Requested k # es) = settle (add_mset k m) es"
| "settle m (Emitted r # es) =
     (case r of
        RFinalizeDone k _ _ \<Rightarrow> if k \<in># m then settle (m - {#k#}) es else None
      | RBarrierReached _ \<Rightarrow> if m = {#} then settle m es else None
      | RSwapApplied _ _ \<Rightarrow> if m = {#} then settle m es else None
      | _ \<Rightarrow> settle m es)"

fun_cases settle_SomeE: "settle m es = Some m'"

definition emitted :: "'p actor \<Rightarrow> stt_result list" where
  "emitted a = ac_results a @ map snd (ac_delayed a)"

definition waiting :: "outstanding list \<Rightarrow> nat multiset" where
  "waiting outs = mset (map ou_key (filter (\<lambda>x. \<not> ou_timed_out x) outs))"

definition turn_requests :: "'p actor \<Rightarrow> nat list" where
  "turn_requests a =
     (if \<not> ac_exited a \<and> chosen_branch a = BranchCommand
      then (case ac_mailbox a of CEndUtterance k # _ \<Rightarrow> [k] | _ \<Rightarrow> []) else [])"

fun actor_step :: "'p actor_env \<Rightarrow> 'p actor \<Rightarrow> actor_op \<Rightarrow> ('p actor \<times> actor_event list) option" where
  "actor_step ev a (Send cmd) = Some (snd (actor_send cmd a), [])"
| "actor_step ev a (SendAudio audio) = Some (snd (actor_send_audio audio a), [])"
| "actor_step ev a CloseCommands = Some (a\<lparr>ac_closed := True\<rparr>, [])"
| "actor_step ev a (Pass d) = Some (a\<lparr>ac_now := ac_now a + d\<rparr>, [])"
| "actor_step ev a Turn =
     map_option (\<lambda>a'. (a', map Requested (turn_requests a) @
        map Emitted (drop (length (emitted a)) (emitted a')))) (loop_turn ev a)"

lemma settle_append: "settle m (xs @ ys) = Option.bind (settle m xs) (\<lambda>m'. settle m' ys)"
  by (induction m xs rule: settle.induct) (auto split: stt_result.splits)

lemma settle_requested: "settle m (map Requested ks) = Some (m + mset ks)"
  by (induction ks arbitrary: m) auto

lemma waiting_simps [simp]:
  "waiting [] = {#}" "waiting (x # xs) = (if ou_timed_out x then {#} else {#ou_key x#}) + waiting xs"
  "waiting (xs @ ys) = waiting xs + waiting ys"
  by (simp_all add: waiting_def)

definition outs_ok :: "outstanding list \<Rightarrow> bool" where
  "outs_ok outs \<longleftrightarrow> (\<forall>x \<in> set outs. ou_timed_out_at x \<noteq> None \<longrightarrow> ou_timed_out x)"

lemma outs_ok_simps [simp]:
  "outs_ok []" "outs_ok (x # xs) \<longleftrightarrow> (ou_timed_out_at x \<noteq> None \<longrightarrow> ou_timed_out x) \<and> outs_ok xs"
  "outs_ok (xs @ ys) \<longleftrightarrow> outs_ok xs \<and> outs_ok ys"
  by (auto simp: outs_ok_def)

definition actor_ok :: "stt_actor_options \<Rightarrow> 'p actor \<Rightarrow> bool" where
  "actor_ok opt a \<longleftrightarrow> (ao_test_final_delay_ms opt = 0 \<longrightarrow> ac_delayed a = []) \<and> outs_ok (ac_outstanding a)"

text \<open>From one state to a later one: what was emitted turns the answers owed from \<open>m\<close> to \<open>m'\<close>.\<close>

definition settles :: "stt_actor_options \<Rightarrow> nat multiset \<Rightarrow> 'p actor \<Rightarrow> nat multiset \<Rightarrow> 'p actor \<Rightarrow> bool" where
  "settles opt m a m' a' \<longleftrightarrow>
     (actor_ok opt a \<longrightarrow> actor_ok opt a' \<and>
       (\<exists>new. emitted a' = emitted a @ new \<and> settle m (map Emitted new) = Some m'))"

lemma settles_refl [simp]: "settles opt m a m a"
  by (simp add: settles_def)

lemma settles_trans [trans]: "settles opt m a m1 a1 \<Longrightarrow> settles opt m1 a1 m2 a2 \<Longrightarrow> settles opt m a m2 a2"
  unfolding settles_def by (auto simp: settle_append)

text \<open>A change that emits nothing.\<close>

lemma settles_silent:
  "ac_results a' = ac_results a \<Longrightarrow> ac_delayed a' = ac_delayed a \<Longrightarrow>
    (outs_ok (ac_outstanding a) \<Longrightarrow> outs_ok (ac_outstanding a')) \<Longrightarrow> settles opt m a m a'"
  by (auto simp: settles_def actor_ok_def emitted_def)

section \<open>Each handler settles what it emits\<close>

lemma emit_result_fields [simp]:
  "ac_outstanding (emit_result opt r a) = ac_outstanding a" "ac_provider (emit_result opt r a) = ac_provider a"
  "ac_gen (emit_result opt r a) = ac_gen a" "ac_parked (emit_result opt r a) = ac_parked a"
  by (simp_all add: emit_result_def Let_def)

lemma emit_settles:
  assumes "settle m [Emitted r] = Some m'"
  shows "settles opt m a m' (emit_result opt r a)"
  using assms unfolding settles_def
  by (auto simp: emit_result_def Let_def actor_ok_def emitted_def)

lemma emit_done: "settles opt (c + add_mset k m) a (c + m) (emit_result opt (RFinalizeDone k g t) a)"
  by (rule emit_settles) simp

lemma emit_vendor_error_settles: "settles opt m a m (emit_vendor_error opt key msg a)"
  unfolding emit_vendor_error_def by (rule emit_settles) simp

lemma emit_vendor_error_fields [simp]:
  "ac_outstanding (emit_vendor_error opt key msg a) = ac_outstanding a"
  "ac_provider (emit_vendor_error opt key msg a) = ac_provider a"
  by (simp_all add: emit_vendor_error_def)

text \<open>What \<open>waiting\<close> reads of the outstanding entries.\<close>

definition skel :: "outstanding list \<Rightarrow> (nat \<times> bool) list" where
  "skel outs = map (\<lambda>x. (ou_key x, ou_timed_out x)) outs"

lemma skel_simps [simp]: "skel (xs @ ys) = skel xs @ skel ys" "skel (butlast xs) = butlast (skel xs)"
  by (simp_all add: skel_def map_butlast)

lemma waiting_skel: "skel xs = skel ys \<Longrightarrow> waiting xs = waiting ys"
proof -
  have "waiting xs = mset (map fst (filter (\<lambda>s. \<not> snd s) (skel xs)))" for xs
    by (simp add: waiting_def skel_def filter_map comp_def)
  then show "skel xs = skel ys \<Longrightarrow> waiting xs = waiting ys" by metis
qed

lemma sample_latency_result:
  "ac_results (sample_latency t a) = ac_results a \<and> ac_delayed (sample_latency t a) = ac_delayed a \<and>
   skel (ac_outstanding (sample_latency t a)) = skel (ac_outstanding a) \<and>
   (outs_ok (ac_outstanding a) \<longrightarrow> outs_ok (ac_outstanding (sample_latency t a))) \<and>
   ac_provider (sample_latency t a) = ac_provider a"
  by (cases t; cases "ac_outstanding a") (auto simp: sample_latency_def skel_def)

lemma emit_transcript_settles: "settles opt m a m (emit_transcript opt t f a)"
proof -
  have "settles opt m a m (sample_latency t a)"
    using sample_latency_result [of t a] by (intro settles_silent) auto
  also have "settles opt m (sample_latency t a) m (emit_transcript opt t f a)"
    unfolding emit_transcript_def Let_def by (simp add: split_beta, rule emit_settles, simp)
  finally show ?thesis .
qed

lemma emit_transcript_skel [simp]:
  "skel (ac_outstanding (emit_transcript opt t f a)) = skel (ac_outstanding a)"
  "ac_provider (emit_transcript opt t f a) = ac_provider a"
  using sample_latency_result [of t a] by (simp_all add: emit_transcript_def Let_def split_beta)

lemma deliver_item_settles:
  "settles opt (c + waiting (ac_outstanding a)) a (c + waiting (ac_outstanding (deliver_item opt f x a)))
     (deliver_item opt f x a)"
proof (cases x)
  case (Transcript t)
  have "waiting (ac_outstanding (deliver_item opt f x a)) = waiting (ac_outstanding a)"
    by (rule waiting_skel) (simp add: Transcript deliver_item_def)
  then show ?thesis by (simp add: Transcript deliver_item_def emit_transcript_settles)
next
  case FinalizeDone
  show ?thesis
  proof (cases "ac_outstanding a")
    case Nil
    then show ?thesis by (simp add: FinalizeDone deliver_item_def)
  next
    case (Cons d rest)
    have pop: "settles opt m a m (a\<lparr>ac_outstanding := rest\<rparr>)" for m
      by (rule settles_silent) (simp_all add: Cons)
    show ?thesis
    proof (cases "ou_timed_out d")
      case True
      with Cons pop show ?thesis by (simp add: FinalizeDone deliver_item_def)
    next
      case False
      with Cons settles_trans [OF pop emit_done] show ?thesis
        by (simp add: FinalizeDone deliver_item_def)
    qed
  qed
qed

lemma deliver_items_settle:
  "settles opt (c + waiting (ac_outstanding a)) a
     (c + waiting (ac_outstanding (fold (deliver_item opt f) xs a))) (fold (deliver_item opt f) xs a)"
  by (induction xs arbitrary: a) (auto intro: settles_trans deliver_item_settles)

lemma deliver_items_provider [simp]: "ac_provider (fold (deliver_item opt f) xs a) = ac_provider a"
  by (induction xs arbitrary: a) (auto simp: deliver_item_def Let_def split: stt_output.splits list.splits)

lemma deliver_transcripts_skel:
  "FinalizeDone \<notin> set xs \<Longrightarrow> skel (ac_outstanding (fold (deliver_item opt f) xs a)) = skel (ac_outstanding a)"
  by (induction xs arbitrary: a) (auto simp: deliver_item_def split: stt_output.splits)

lemma emit_transcripts_settle:
  "settles opt m a m (fold (\<lambda>t. emit_transcript opt t f) ts a)"
  "waiting (ac_outstanding (fold (\<lambda>t. emit_transcript opt t f) ts a)) = waiting (ac_outstanding a)"
proof -
  show "settles opt m a m (fold (\<lambda>t. emit_transcript opt t f) ts a)"
    by (induction ts arbitrary: a) (auto intro: settles_trans emit_transcript_settles)
  have "skel (ac_outstanding (fold (\<lambda>t. emit_transcript opt t f) ts a)) = skel (ac_outstanding a)"
    by (induction ts arbitrary: a) auto
  then show "waiting (ac_outstanding (fold (\<lambda>t. emit_transcript opt t f) ts a)) = waiting (ac_outstanding a)"
    by (rule waiting_skel)
qed

lemma emit_errors_settle:
  "settles opt m a m (fold (emit_vendor_error opt key) es a)"
  "ac_outstanding (fold (emit_vendor_error opt key) es a) = ac_outstanding a"
proof -
  show "settles opt m a m (fold (emit_vendor_error opt key) es a)"
    by (induction es arbitrary: a) (auto intro: settles_trans emit_vendor_error_settles)
  show "ac_outstanding (fold (emit_vendor_error opt key) es a) = ac_outstanding a"
    by (induction es arbitrary: a) auto
qed

text \<open>Status, clock and provider fields do not matter to what is owed.\<close>

definition same_books :: "'p actor \<Rightarrow> 'p actor \<Rightarrow> bool" where
  "same_books a a' \<longleftrightarrow> ac_results a' = ac_results a \<and> ac_delayed a' = ac_delayed a \<and>
     waiting (ac_outstanding a') = waiting (ac_outstanding a) \<and>
     (outs_ok (ac_outstanding a) \<longrightarrow> outs_ok (ac_outstanding a'))"

lemma same_books_settles:
  "same_books a a' \<Longrightarrow> settles opt (c + waiting (ac_outstanding a)) a (c + waiting (ac_outstanding a')) a'"
  unfolding same_books_def by (metis settles_silent)

lemma observe_same_books: "same_books a (observe_open_transition ev a)"
proof -
  have "waiting (map (\<lambda>x. if ou_timed_out x then x else x\<lparr>ou_requested_at := n, ou_deadline_base_ms := b\<rparr>) outs)
      = waiting outs" for outs n b
    by (induction outs) auto
  moreover have "outs_ok outs \<Longrightarrow>
      outs_ok (map (\<lambda>x. if ou_timed_out x then x else x\<lparr>ou_requested_at := n, ou_deadline_base_ms := b\<rparr>) outs)"
    for outs n b
    by (induction outs) auto
  ultimately show ?thesis
    by (simp add: same_books_def observe_open_transition_def Let_def split: option.split)
qed

lemma publish_same_books: "same_books a (publish_status ev a)"
  using observe_same_books [of a ev] by (simp add: publish_status_def Let_def same_books_def)

lemma check_backlog_same_books: "same_books a (check_backlog ev a)"
  by (simp add: check_backlog_def Let_def same_books_def)

lemma select_head_same_books: "same_books a (select_head ev a)"
  using observe_same_books [of a ev]
  by (simp add: select_head_def actor_next_deadline_def Let_def same_books_def)

lemma stop_provider_same_books: "same_books a (stop_provider ev a)"
  by (simp add: stop_provider_def same_books_def split: option.split prod.split)

lemma release_due_settles:
  "settles opt (waiting (ac_outstanding a)) a (waiting (ac_outstanding (release_due a))) (release_due a)"
  by (auto simp: settles_def release_due_def Let_def actor_ok_def emitted_def
      simp flip: map_append)

lemma expire_waiting_settles:
  "expire_waiting opt pending now outs = (outs', rs) \<Longrightarrow>
    settle (c + waiting outs) (map Emitted rs) = Some (c + waiting outs') \<and> (outs_ok outs \<longrightarrow> outs_ok outs')"
proof (induction opt pending now outs arbitrary: outs' rs c rule: expire_waiting.induct)
  case (2 opt pending now e es)
  obtain es' rs' where r: "expire_waiting opt pending now es = (es', rs')" by fastforce
  consider "ou_timed_out e" | "\<not> ou_timed_out e" "now < deadline_of opt pending e"
    | "\<not> ou_timed_out e" "\<not> now < deadline_of opt pending e" by blast
  then show ?case
  proof cases
    case 1
    with "2.IH"(1) [OF 1 r, of c] "2.prems" r show ?thesis by auto
  next
    case 2
    with "2.prems" show ?thesis by auto
  next
    case 3
    with "2.IH"(2) [OF 3 r, of c] "2.prems" r show ?thesis by auto
  qed
qed simp

lemma emits_settle:
  "settle m (map Emitted rs) = Some m' \<Longrightarrow> settles opt m a m' (fold (emit_result opt) rs a)"
proof (induction rs arbitrary: m a)
  case (Cons r rs)
  have "Option.bind (settle m [Emitted r]) (\<lambda>m. settle m (map Emitted rs)) = Some m'"
    using Cons.prems settle_append [of m "[Emitted r]" "map Emitted rs"] by (simp only: append_Cons append_Nil list.map)
  then obtain m1 where m1: "settle m [Emitted r] = Some m1" "settle m1 (map Emitted rs) = Some m'"
    unfolding bind_eq_Some_conv by blast
  from settles_trans [OF emit_settles [OF m1(1)] Cons.IH [OF m1(2)]] show ?case
    by (simp only: fold.simps comp_apply)
qed simp

lemma emits_fields [simp]: "ac_outstanding (fold (emit_result opt) rs a) = ac_outstanding a"
  by (induction rs arbitrary: a) auto

lemma waiting_drop_graced:
  "outs_ok outs \<Longrightarrow> waiting (dropWhile (\<lambda>x. case grace_expiry x of Some at \<Rightarrow> at \<le> now | None \<Rightarrow> False) outs) =
     waiting outs \<and>
   outs_ok (dropWhile (\<lambda>x. case grace_expiry x of Some at \<Rightarrow> at \<le> now | None \<Rightarrow> False) outs)"
  by (induction outs) (auto simp: grace_expiry_def split: option.splits)

lemma expire_deadlines_settles:
  "settles (ev_options ev) (waiting (ac_outstanding a)) a (waiting (ac_outstanding (expire_deadlines ev a)))
     (expire_deadlines ev a)"
proof -
  let ?a1 = "observe_open_transition ev a"
  let ?a2 = "?a1\<lparr>ac_outstanding := dropWhile (\<lambda>x. case grace_expiry x of Some at \<Rightarrow> at \<le> ac_now ?a1 | None \<Rightarrow> False)
    (ac_outstanding ?a1)\<rparr>"
  obtain outs rs where e: "expire_waiting (ev_options ev) (open_pending ev ?a2) (ac_now ?a2) (ac_outstanding ?a2) = (outs, rs)"
    by fastforce
  let ?a3 = "?a2\<lparr>ac_outstanding := outs\<rparr>"
  have 1: "settles (ev_options ev) (waiting (ac_outstanding a)) a (waiting (ac_outstanding ?a1)) ?a1"
    using same_books_settles [OF observe_same_books, of "ev_options ev" "{#}" a ev] by simp
  have 3: "settles (ev_options ev) (waiting (ac_outstanding ?a1)) ?a1 (waiting outs) (fold (emit_result (ev_options ev)) rs ?a3)"
  proof (cases "outs_ok (ac_outstanding ?a1)")
    case True
    note g = waiting_drop_graced [OF True, of "ac_now ?a1"]
    have "settles (ev_options ev) (waiting (ac_outstanding ?a1)) ?a1 (waiting (ac_outstanding ?a1)) ?a3"
      using g expire_waiting_settles [OF e, of "{#}"] by (intro settles_silent) simp_all
    also have "settles (ev_options ev) (waiting (ac_outstanding ?a1)) ?a3 (waiting outs) (fold (emit_result (ev_options ev)) rs ?a3)"
      using g expire_waiting_settles [OF e, of "{#}"] by (intro emits_settle) simp
    finally show ?thesis .
  next
    case False
    then show ?thesis by (simp add: settles_def actor_ok_def)
  qed
  have "expire_deadlines ev a = fold (emit_result (ev_options ev)) rs ?a3"
    using e by (simp add: expire_deadlines_def Let_def)
  with settles_trans [OF 1 3] show ?thesis by simp
qed

lemma actor_reply_same_books: "same_books a (actor_reply d x a)"
  by (simp add: actor_reply_def same_books_def)

lemma run_swap_settles:
  assumes "waiting (ac_outstanding a) = {#}"
  shows "settles (ev_options ev) {#} a {#} (run_swap ev config ctx running d a) \<and>
    waiting (ac_outstanding (run_swap ev config ctx running d a)) = {#}"
proof -
  have refuse: "settles (ev_options ev) {#} b {#} (refuse_swap (ev_options ev) config e d b) \<and>
      ac_outstanding (refuse_swap (ev_options ev) config e d b) = ac_outstanding b" for e b
  proof -
    have "settles (ev_options ev) {#} b {#} (emit_result (ev_options ev) (RSwapApplied config (Inl (speech_error_to_string e))) b)"
      by (rule emit_settles) simp
    also have "settles (ev_options ev) {#} (emit_result (ev_options ev) (RSwapApplied config (Inl (speech_error_to_string e))) b) {#}
        (refuse_swap (ev_options ev) config e d b)"
      by (rule settles_silent) (simp_all add: refuse_swap_def actor_reply_def)
    finally show ?thesis by (simp add: refuse_swap_def actor_reply_def)
  qed
  have apply_new: "settles (ev_options ev) {#} b {#} (apply_swap ev config new d b) \<and>
      ac_outstanding (apply_swap ev config new d b) = []" for new b
  proof -
    let ?b = "(stop_provider ev b)\<lparr>ac_status := (ac_status (stop_provider ev b))\<lparr>
        ss_emits_partials := sp_emits_partials (ev_methods ev) new, ss_generation := ac_gen (stop_provider ev b) + 1\<rparr>,
      ac_provider := Some new, ac_gen := ac_gen (stop_provider ev b) + 1, ac_outstanding := [], ac_inline_late_key := None\<rparr>"
    have "settles (ev_options ev) {#} b {#} ?b"
      using stop_provider_same_books [of b ev] by (intro settles_silent) (simp_all add: same_books_def)
    also have "settles (ev_options ev) {#} ?b {#} (emit_result (ev_options ev) (RSwapApplied config (Inr ())) ?b)"
      by (rule emit_settles) simp
    also have "settles (ev_options ev) {#} (emit_result (ev_options ev) (RSwapApplied config (Inr ())) ?b) {#} (apply_swap ev config new d b)"
      by (intro settles_silent) (simp_all add: apply_swap_def actor_reply_def Let_def)
    finally show ?thesis by (simp add: apply_swap_def actor_reply_def Let_def)
  qed
  have now: "settles (ev_options ev) {#} a {#} (a\<lparr>ac_now := n\<rparr>)" for n by (rule settles_silent) simp_all
  show ?thesis
    unfolding run_swap_def
    using assms refuse apply_new settles_trans [OF now conjunct1 [OF refuse]]
      settles_trans [OF now conjunct1 [OF apply_new]]
    by (auto simp: Let_def split: sum.split prod.split)
qed

lemma no_waiting: "\<not> list_ex (\<lambda>x. \<not> ou_timed_out x) outs \<Longrightarrow> waiting outs = {#}"
  by (induction outs) auto

lemma run_parked_settles:
  shows "settles (ev_options ev) (waiting (ac_outstanding a)) a (waiting (ac_outstanding (run_parked ev a))) (run_parked ev a)"
proof (cases "ac_parked a = None \<or> list_ex (\<lambda>x. \<not> ou_timed_out x) (ac_outstanding a)")
  case True
  then show ?thesis by (auto simp: run_parked_def)
next
  case False
  then have w: "waiting (ac_outstanding a) = {#}" by (intro no_waiting) simp
  let ?a = "a\<lparr>ac_parked := None\<rparr>"
  have s: "settles (ev_options ev) {#} a {#} ?a" by (rule settles_silent) simp_all
  from False obtain cmd where cmd: "ac_parked a = Some cmd" by auto
  note run = run_parked_def [of ev a]
  show ?thesis
  proof (cases cmd)
    case (CBarrier d)
    have "settles (ev_options ev) {#} ?a {#} (emit_result (ev_options ev) (RBarrierReached d) ?a)" by (rule emit_settles) simp
    with settles_trans [OF s this] w False cmd CBarrier show ?thesis by (simp add: run)
  next
    case (CSwap config ctx running d)
    have "waiting (ac_outstanding ?a) = {#}" using w by simp
    from run_swap_settles [OF this, of ev config ctx running d] settles_trans [OF s]
    show ?thesis using w False cmd CSwap by (auto simp: run)
  qed (use s w False cmd in \<open>simp_all add: run\<close>)
qed

lemma loop_tail_settles:
  shows "settles (ev_options ev) (waiting (ac_outstanding a)) a (waiting (ac_outstanding (loop_tail ev a))) (loop_tail ev a)"
proof -
  note run_parked_settles [of ev a]
  also note same_books_settles [OF publish_same_books, of "ev_options ev" "{#}" "run_parked ev a" ev, simplified]
  also note same_books_settles [OF select_head_same_books, of "ev_options ev" "{#}" "publish_status ev (run_parked ev a)" ev, simplified]
  finally show ?thesis by (simp add: loop_tail_def)
qed

section \<open>The handlers that call the provider\<close>

definition requested_by :: "stt_command \<Rightarrow> nat multiset" where
  "requested_by cmd = (case cmd of CEndUtterance k \<Rightarrow> {#k#} | _ \<Rightarrow> {#})"

context stt_provider_laws
begin

lemma poll_all_ends:
  "\<exists>items error now' p'. poll_all P now p acc = Some (acc @ items, error, now', p') \<and>
     (sp_finalize_mode P p = Inline \<longrightarrow> FinalizeDone \<notin> set items \<and> sp_finalize_mode P p' = Inline)"
proof (induction "queued p" arbitrary: now p acc rule: less_induct)
  case less
  obtain r d p1 where poll: "sp_poll_output P now p = (r, d, p1)" by (metis prod_cases3)
  show ?case
  proof (cases "\<exists>x. r = Inr (Some x)")
    case True
    then obtain x where x: "r = Inr (Some x)" by blast
    with poll have "queued p1 < queued p" using poll_drains [of now p x] by simp
    from less [OF this, of "now + d" "acc @ [x]"] obtain items error now' p' where
      "poll_all P (now + d) p1 (acc @ [x]) = Some ((acc @ [x]) @ items, error, now', p')"
      "sp_finalize_mode P p1 = Inline \<longrightarrow> FinalizeDone \<notin> set items \<and> sp_finalize_mode P p' = Inline"
      by blast
    moreover have "sp_finalize_mode P p = Inline \<Longrightarrow> x \<noteq> FinalizeDone \<and> sp_finalize_mode P p1 = Inline"
      using inline_no_marker [of p now] inline_poll [of p now] poll x by auto
    ultimately show ?thesis
      using poll x by (intro exI [of _ "x # items"]) (auto simp: poll_all.simps [of P now p acc])
  next
    case False
    then consider e where "r = Inl e" | "r = Inr None" by (cases r) auto
    then show ?thesis
    proof cases
      case 1
      with poll inline_poll [of p now] show ?thesis
        by (intro exI [of _ "[]"]) (auto simp: poll_all.simps [of P now p acc])
    next
      case 2
      with poll inline_poll [of p now] show ?thesis
        by (intro exI [of _ "[]"]) (auto simp: poll_all.simps [of P now p acc])
    qed
  qed
qed

lemma drain_outputs_settles:
  assumes "ev_methods ev = P"
  shows "\<exists>a'. drain_outputs ev f a = Some a' \<and>
    (\<forall>c. settles (ev_options ev) (c + waiting (ac_outstanding a)) a (c + waiting (ac_outstanding a')) a') \<and>
    (\<forall>p. ac_provider a = Some p \<longrightarrow> sp_finalize_mode P p = Inline \<longrightarrow>
       skel (ac_outstanding a') = skel (ac_outstanding a))"
proof (cases "ac_provider a")
  case None
  then show ?thesis by (simp add: drain_outputs_def)
next
  case (Some p)
  obtain items error now' p' where poll: "poll_all P (ac_now a) p [] = Some (items, error, now', p')"
      "sp_finalize_mode P p = Inline \<longrightarrow> FinalizeDone \<notin> set items"
    using poll_all_ends [of "ac_now a" p "[]"] by auto
  let ?a1 = "a\<lparr>ac_provider := Some p', ac_now := now'\<rparr>"
  let ?a2 = "if items \<noteq> [] then ?a1\<lparr>ac_last_work_at := Some now'\<rparr> else ?a1"
  let ?a3 = "fold (deliver_item (ev_options ev) f) items ?a2"
  let ?a4 = "case error of None \<Rightarrow> ?a3 | Some m \<Rightarrow> emit_vendor_error (ev_options ev) (fst (front_key_gen ?a3)) m ?a3"
  have "drain_outputs ev f a = Some ?a4"
    using Some poll(1) assms by (cases error) (simp_all add: drain_outputs_def Let_def)
  moreover have "settles (ev_options ev) (c + waiting (ac_outstanding a)) a (c + waiting (ac_outstanding ?a4)) ?a4" for c
  proof -
    have "settles (ev_options ev) (c + waiting (ac_outstanding a)) a (c + waiting (ac_outstanding ?a2)) ?a2"
      by (rule same_books_settles) (simp add: same_books_def)
    also have "settles (ev_options ev) (c + waiting (ac_outstanding ?a2)) ?a2 (c + waiting (ac_outstanding ?a3)) ?a3"
      by (rule deliver_items_settle)
    also have "settles (ev_options ev) (c + waiting (ac_outstanding ?a3)) ?a3 (c + waiting (ac_outstanding ?a4)) ?a4"
      by (simp add: emit_vendor_error_settles split: option.split)
    finally show ?thesis .
  qed
  moreover have "skel (ac_outstanding ?a4) = skel (ac_outstanding a)" if "FinalizeDone \<notin> set items"
  proof -
    have "skel (ac_outstanding ?a4) = skel (ac_outstanding ?a3)" by (simp split: option.split)
    also have "\<dots> = skel (ac_outstanding ?a2)" by (rule deliver_transcripts_skel [OF that])
    finally show ?thesis by simp
  qed
  ultimately show ?thesis using poll(2) Some by auto
qed

lemma reopen_settles:
  assumes "ev_methods ev = P"
  shows "\<exists>a'. reopen_dead_stream ev a = Some a' \<and>
    settles (ev_options ev) (waiting (ac_outstanding a)) a (waiting (ac_outstanding a')) a'"
proof -
  obtain a1 where a1: "drain_outputs ev None a = Some a1"
      "settles (ev_options ev) (waiting (ac_outstanding a)) a (waiting (ac_outstanding a1)) a1"
    using drain_outputs_settles [OF assms, of None a] by (metis empty_neutral(1))
  have reopened: "settles (ev_options ev) (waiting (ac_outstanding a1)) a1 (waiting (ac_outstanding (publish_status ev b)))
      (publish_status ev b)"
    if "settles (ev_options ev) (waiting (ac_outstanding a1)) a1 (waiting (ac_outstanding b)) b" for b
    by (rule settles_trans [OF that])
      (use same_books_settles [OF publish_same_books, of "ev_options ev" "{#}" b ev] in simp)
  let ?open = "\<lambda>a. case ac_provider a of None \<Rightarrow> Some a
      | Some p \<Rightarrow>
          (let a = a\<lparr>ac_status := (ac_status a)\<lparr>ss_open_pending := True\<rparr>\<rparr>;
               (r, now, p) = start_bounded (ev_methods ev) (ac_now a) p;
               a = a\<lparr>ac_now := now, ac_provider := Some p\<rparr>;
               a = (case r of
                      Inr _ \<Rightarrow> a\<lparr>ac_reopen_not_before := None\<rparr>
                    | Inl e \<Rightarrow>
                        emit_vendor_error (ev_options ev) None (speech_error_to_string e)
                          (a\<lparr>ac_reopen_not_before := Some (ac_now a + ms STT_REOPEN_BACKOFF_MS)\<rparr>))
           in Some (publish_status ev a))"
  have opened: "\<exists>a'. ?open a1 = Some a' \<and>
      settles (ev_options ev) (waiting (ac_outstanding a1)) a1 (waiting (ac_outstanding a')) a'"
  proof (cases "ac_provider a1")
    case (Some p)
    obtain r now p' where st: "start_bounded (ev_methods ev) (ac_now a1) p = (r, now, p')"
      by (metis prod_cases3)
    have silent: "settles (ev_options ev) m a1 m
        (a1\<lparr>ac_status := s, ac_now := n, ac_provider := q, ac_reopen_not_before := t\<rparr>)"
      for m s n q t by (rule settles_silent) simp_all
    show ?thesis
    proof (cases r)
      case (Inl e)
      then show ?thesis
        using Some st reopened [OF _] settles_trans [OF silent emit_vendor_error_settles] by (simp add: Let_def)
    next
      case (Inr u)
      then show ?thesis using Some st reopened silent by (simp add: Let_def)
    qed
  qed simp
  have "reopen_dead_stream ev a = Some a \<or> reopen_dead_stream ev a = ?open a1"
    unfolding reopen_dead_stream_def Let_def a1(1) bind.bind_lunit by presburger
  then show ?thesis
  proof
    assume "reopen_dead_stream ev a = Some a"
    then show ?thesis by (intro exI [of _ a]) simp
  next
    assume r: "reopen_dead_stream ev a = ?open a1"
    from opened obtain a' where a': "?open a1 = Some a'"
      "settles (ev_options ev) (waiting (ac_outstanding a1)) a1 (waiting (ac_outstanding a')) a'" by blast
    show ?thesis by (rule exI [of _ a'], rule conjI, simp only: r a'(1), rule settles_trans [OF a1(2) a'(2)])
  qed
qed

lemma on_audio_settles:
  assumes "ev_methods ev = P"
  shows "\<exists>a'. on_audio ev audio a = Some a' \<and>
    settles (ev_options ev) (waiting (ac_outstanding a)) a (waiting (ac_outstanding a')) a'"
proof -
  note drain = drain_outputs_settles [OF assms]
  let ?w = "\<lambda>a. waiting (ac_outstanding a)"
  let ?a0 = "a\<lparr>ac_last_work_at := Some (ac_now a)\<rparr>"
  have 0: "settles (ev_options ev) (?w a) a (?w ?a0) ?a0" by (simp, rule settles_silent) simp_all
  obtain a1 where a1: "reopen_dead_stream ev ?a0 = Some a1" "settles (ev_options ev) (?w ?a0) ?a0 (?w a1) a1"
    using reopen_settles [OF assms] by blast
  obtain a2 where a2: "(case ac_inline_late_key a1 of
        Some key \<Rightarrow> drain_outputs ev (Some key) (a1\<lparr>ac_inline_late_key := None\<rparr>) | None \<Rightarrow> Some a1) = Some a2"
      "settles (ev_options ev) (?w a1) a1 (?w a2) a2"
  proof (cases "ac_inline_late_key a1")
    case None
    with that show thesis by simp
  next
    case (Some key)
    let ?b = "a1\<lparr>ac_inline_late_key := None\<rparr>"
    have "settles (ev_options ev) (?w a1) a1 (?w ?b) ?b" by (simp, rule settles_silent) simp_all
    moreover obtain b' where "drain_outputs ev (Some key) ?b = Some b'" "settles (ev_options ev) (?w ?b) ?b (?w b') b'"
      using drain [of "Some key" ?b] by (metis empty_neutral(1))
    ultimately show thesis using that Some settles_trans by fastforce
  qed
  obtain errors transcripts a3 where p: "push_to_provider ev audio a2 = (errors, transcripts, a3)"
    by (metis prod_cases3)
  have b3: "same_books a2 a3"
    using p by (auto simp: push_to_provider_def same_books_def Let_def split: option.splits finalize_mode.splits prod.splits)
  let ?st = "ac_status a3"
  let ?a4 = "a3\<lparr>ac_status := ?st\<lparr>ss_queued_audio_bytes := ss_queued_audio_bytes ?st - length audio,
    ss_audio_bytes_pushed := (ss_audio_bytes_pushed ?st + length audio) mod 2 ^ 64\<rparr>\<rparr>"
  let ?a5 = "fold (\<lambda>t. emit_transcript (ev_options ev) t None) transcripts ?a4"
  let ?a6 = "fold (emit_vendor_error (ev_options ev) None) errors ?a5"
  have "settles (ev_options ev) (?w a2) a2 (?w a3) a3" using same_books_settles [OF b3, of "ev_options ev" "{#}"] by simp
  also have "settles (ev_options ev) (?w a3) a3 (?w ?a4) ?a4" by (simp, rule settles_silent) simp_all
  also have "settles (ev_options ev) (?w ?a4) ?a4 (?w ?a5) ?a5"
    by (simp only: emit_transcripts_settle(2)) (rule emit_transcripts_settle(1))
  also have "settles (ev_options ev) (?w ?a5) ?a5 (?w ?a6) ?a6"
    by (simp only: emit_errors_settle(2)) (rule emit_errors_settle(1))
  finally have 6: "settles (ev_options ev) (?w a2) a2 (?w ?a6) ?a6" .
  obtain a7 where a7: "(if is_deferred ev ?a6 then drain_outputs ev None ?a6 else Some ?a6) = Some a7"
      "settles (ev_options ev) (?w ?a6) ?a6 (?w a7) a7"
  proof (cases "is_deferred ev ?a6")
    case True
    then show thesis using that drain [of None ?a6] by (metis empty_neutral(1))
  qed (use that in simp)
  have 8: "settles (ev_options ev) (?w a7) a7 (?w (check_backlog ev a7)) (check_backlog ev a7)"
    using same_books_settles [OF check_backlog_same_books, of "ev_options ev" "{#}" a7 ev] by simp
  have "on_audio ev audio a = Some (check_backlog ev a7)"
    unfolding on_audio_def Let_def a1(1) bind.bind_lunit a2(1) p prod.case a7(1) ..
  moreover have "settles (ev_options ev) (?w a) a (?w (check_backlog ev a7)) (check_backlog ev a7)"
    by (rule settles_trans [OF 0 settles_trans [OF a1(2) settles_trans [OF a2(2)
      settles_trans [OF 6 settles_trans [OF a7(2) 8]]]]])
  ultimately show ?thesis by blast
qed

lemma pop_back_settles:
  "settles opt m a m (a\<lparr>ac_outstanding := butlast (ac_outstanding a)\<rparr>)"
  by (rule settles_silent) (auto simp: outs_ok_def dest: in_set_butlastD)

lemma late_settles: "settles opt m a m (a\<lparr>ac_inline_late_key := t\<rparr>)"
  by (rule settles_silent) simp_all

lemma finalize_deferred_settles:
  assumes "ev_methods ev = P"
  shows "\<exists>a'. finalize_deferred ev key p a = Some a' \<and>
    settles (ev_options ev) (add_mset key (waiting (ac_outstanding a))) a (waiting (ac_outstanding a')) a'"
proof -
  obtain r d p' where f: "sp_request_finalize (ev_methods ev) (ac_now a) p = (r, d, p')" by (metis prod_cases3)
  let ?entry = "new_outstanding key (ac_gen a) (ac_now a) (sp_finalize_wait_ms (ev_methods ev) p)"
  let ?a1 = "a\<lparr>ac_now := ac_now a + d, ac_provider := Some p', ac_outstanding := ac_outstanding a @ [?entry]\<rparr>"
  have 1: "settles (ev_options ev) m a m ?a1" for m
    by (rule settles_silent) (simp_all add: new_outstanding_def)
  have w: "waiting (ac_outstanding ?a1) = add_mset key (waiting (ac_outstanding a))"
    by (simp add: new_outstanding_def)
  show ?thesis
  proof (cases r)
    case (Inr u)
    obtain a2 where "drain_outputs ev None ?a1 = Some a2"
        "settles (ev_options ev) (waiting (ac_outstanding ?a1)) ?a1 (waiting (ac_outstanding a2)) a2"
      using drain_outputs_settles [OF assms, of None ?a1] by (metis empty_neutral(1))
    with Inr f settles_trans [OF 1] w show ?thesis by (simp add: finalize_deferred_def Let_def)
  next
    case (Inl e)
    let ?a2 = "?a1\<lparr>ac_outstanding := butlast (ac_outstanding ?a1)\<rparr>"
    let ?a3 = "emit_vendor_error (ev_options ev) (Some key) (speech_error_to_string e) ?a2"
    let ?a4 = "emit_result (ev_options ev) (RFinalizeDone key (ac_gen a) False) ?a3"
    let ?m = "add_mset key (waiting (ac_outstanding a))"
    note 1 [of ?m]
    also note pop_back_settles [of _ ?m ?a1]
    also note emit_vendor_error_settles [of _ ?m ?a2 "Some key" "speech_error_to_string e"]
    also note emit_done [of _ "{#}" key "waiting (ac_outstanding a)" ?a3 "ac_gen a" False, simplified empty_neutral]
    finally have "settles (ev_options ev) ?m a (waiting (ac_outstanding a)) ?a4" .
    moreover have "finalize_deferred ev key p a = Some ?a4"
      using Inl f by (simp add: finalize_deferred_def Let_def)
    ultimately show ?thesis by simp
  qed
qed

lemma finalize_inline_settles:
  assumes "ev_methods ev = P" and "sp_finalize_mode P p = Inline"
  shows "\<exists>a'. finalize_inline ev key p a = Some a' \<and>
    settles (ev_options ev) (add_mset key (waiting (ac_outstanding a))) a (waiting (ac_outstanding a')) a'"
proof -
  obtain r d p' where f: "sp_finalize_utterance (ev_methods ev) (ac_now a) p = (r, d, p')" by (metis prod_cases3)
  let ?w = "sp_finalize_wait_ms (ev_methods ev) p"
  let ?entry = "new_outstanding key (ac_gen a) (ac_now a) ?w"
  let ?a1 = "a\<lparr>ac_now := ac_now a + min d (ms ?w), ac_provider := Some p',
    ac_outstanding := ac_outstanding a @ [?entry]\<rparr>"
  let ?m = "add_mset key (waiting (ac_outstanding a))"
  let ?pop = "\<lambda>a :: 'p actor. a\<lparr>ac_outstanding := butlast (ac_outstanding a)\<rparr>"
  have 1: "settles (ev_options ev) m a m ?a1" for m
    by (rule settles_silent) (simp_all add: new_outstanding_def)
  have w: "waiting (ac_outstanding ?a1) = ?m" by (simp add: new_outstanding_def)
  have closed: "settles (ev_options ev) ?m b (waiting (ac_outstanding a))
      ((emit_result (ev_options ev) (RFinalizeDone key g t) b)\<lparr>ac_inline_late_key := Some key\<rparr>)" for b g t
    using settles_trans [OF emit_done [of _ "{#}" key "waiting (ac_outstanding a)" b g t, simplified empty_neutral]
      late_settles] .
  show ?thesis
  proof (cases "ms ?w < d")
    case True
    with f settles_trans [OF 1 settles_trans [OF pop_back_settles closed]] show ?thesis
      by (simp add: finalize_inline_def Let_def)
  next
    case False
    show ?thesis
    proof (cases r)
      case (Inl e)
      let ?b = "emit_vendor_error (ev_options ev) (Some key) (speech_error_to_string e) (?pop ?a1)"
      have "settles (ev_options ev) ?m a ?m ?b"
        by (rule settles_trans [OF 1 settles_trans [OF pop_back_settles emit_vendor_error_settles]])
      from settles_trans [OF this closed] Inl False f show ?thesis
        by (simp add: finalize_inline_def Let_def)
    next
      case (Inr u)
      have mode: "sp_finalize_mode P p' = Inline"
        using inline_finalize [OF assms(2), of "ac_now a"] f assms(1) by simp
      obtain a2 where a2: "drain_outputs ev None ?a1 = Some a2"
          "settles (ev_options ev) (waiting (ac_outstanding ?a1)) ?a1 (waiting (ac_outstanding a2)) a2"
          "skel (ac_outstanding a2) = skel (ac_outstanding ?a1)"
        using drain_outputs_settles [OF assms(1), of None ?a1] mode by (auto dest: spec [of _ "{#}"])
      have "waiting (ac_outstanding a2) = ?m" using waiting_skel [OF a2(3)] w by simp
      with a2(2) w have 2: "settles (ev_options ev) ?m ?a1 ?m a2" by simp
      have "skel (butlast (ac_outstanding a2)) = skel (ac_outstanding a)"
        using arg_cong [OF a2(3), of butlast] by (simp add: skel_def map_butlast butlast_append)
      then have w2: "waiting (butlast (ac_outstanding a2)) = waiting (ac_outstanding a)" by (rule waiting_skel)
      have "finalize_inline ev key p a =
          Some ((emit_result (ev_options ev) (RFinalizeDone key (ac_gen a) False) (?pop a2))\<lparr>ac_inline_late_key := Some key\<rparr>)"
        using Inr False f a2(1) by (simp add: finalize_inline_def Let_def)
      with settles_trans [OF 1 settles_trans [OF 2 settles_trans [OF pop_back_settles closed]]] w2
      show ?thesis by simp
    qed
  qed
qed

lemma on_end_utterance_settles:
  assumes "ev_methods ev = P"
  shows "\<exists>a'. on_end_utterance ev key a = Some a' \<and>
    settles (ev_options ev) (add_mset key (waiting (ac_outstanding a))) a (waiting (ac_outstanding a')) a'"
proof -
  let ?a = "a\<lparr>ac_last_work_at := Some (ac_now a)\<rparr>"
  let ?m = "add_mset key (waiting (ac_outstanding a))"
  have s: "settles (ev_options ev) ?m a ?m ?a" by (rule settles_silent) simp_all
  show ?thesis
  proof (cases "ac_provider a")
    case None
    with settles_trans [OF s emit_done [of _ "{#}" key "waiting (ac_outstanding a)" ?a "ac_gen a" False, simplified empty_neutral]]
    show ?thesis by (simp add: on_end_utterance_def Let_def)
  next
    case (Some p)
    show ?thesis
    proof (cases "sp_finalize_mode P p")
      case Inline
      from finalize_inline_settles [OF assms this, of key ?a] Some Inline assms settles_trans [OF s]
      show ?thesis by (auto simp: on_end_utterance_def Let_def)
    next
      case Deferred
      from finalize_deferred_settles [OF assms, of key p ?a] Some Deferred assms settles_trans [OF s]
      show ?thesis by (auto simp: on_end_utterance_def Let_def)
    qed
  qed
qed

lemma handle_command_settles:
  assumes "ev_methods ev = P"
  shows "\<exists>go_on a'. handle_command ev cmd a = Some (go_on, a') \<and>
    settles (ev_options ev) (requested_by cmd + waiting (ac_outstanding a)) a (waiting (ac_outstanding a')) a'"
proof (cases cmd)
  case (CAudio audio)
  with on_audio_settles [OF assms, of audio a] show ?thesis
    by (auto simp: handle_command_def Let_def requested_by_def)
next
  case (CEndUtterance key)
  with on_end_utterance_settles [OF assms, of key a] show ?thesis
    by (auto simp: handle_command_def Let_def requested_by_def)
next
  case (CStart ctx d)
  have "\<exists>go_on a'. handle_command ev cmd a = Some (go_on, a') \<and> same_books a a'"
    by (cases "ac_provider a")
      (auto simp: CStart handle_command_def Let_def actor_reply_def same_books_def split: prod.split sum.split)
  with same_books_settles [of a _ "ev_options ev" "{#}"] show ?thesis
    by (auto simp: CStart requested_by_def)
next
  case (CWaitReady limit d)
  have "\<exists>go_on a'. handle_command ev cmd a = Some (go_on, a') \<and> same_books a a'"
    by (cases "ac_provider a")
      (auto simp: CWaitReady handle_command_def Let_def actor_reply_def same_books_def split: prod.split)
  with same_books_settles [of a _ "ev_options ev" "{#}"] show ?thesis
    by (auto simp: CWaitReady requested_by_def)
next
  case (CStop d)
  have "same_books a (actor_reply d AnsStopped (stop_provider ev a))"
    using stop_provider_same_books [of a ev] by (simp add: actor_reply_def same_books_def)
  with same_books_settles [of a _ "ev_options ev" "{#}"] show ?thesis
    by (auto simp: CStop handle_command_def Let_def requested_by_def)
qed (auto simp: handle_command_def Let_def requested_by_def intro: settles_silent)

lemma loop_turn_settles:
  assumes "ev_methods ev = P"
  shows "\<exists>a'. loop_turn ev a = Some a' \<and>
    settles (ev_options ev) (waiting (ac_outstanding a) + mset (turn_requests a)) a (waiting (ac_outstanding a')) a'"
proof (cases "ac_exited a")
  case True
  then show ?thesis by (simp add: loop_turn_def turn_requests_def)
next
  case False
  let ?w = "\<lambda>a. waiting (ac_outstanding a)"
  note turn = loop_turn_def [of ev a] turn_requests_def [of a]
  note tail = loop_tail_settles [of ev]
  show ?thesis
  proof (cases "chosen_branch a")
    case BranchDue
    with False settles_trans [OF release_due_settles tail] show ?thesis by (simp add: turn)
  next
    case BranchDeadline
    with False settles_trans [OF expire_deadlines_settles tail] show ?thesis by (simp add: turn)
  next
    case BranchPoll
    obtain a1 where a1: "drain_outputs ev (ac_inline_late_key a) a = Some a1"
        "settles (ev_options ev) (?w a) a (?w a1) a1"
      using drain_outputs_settles [OF assms, of "ac_inline_late_key a" a] by (metis empty_neutral(1))
    let ?a2 = "(check_backlog ev a1)\<lparr>ac_next_poll := ac_now (check_backlog ev a1) + ms STT_ACTOR_POLL_MS\<rparr>"
    have "same_books a1 ?a2" using check_backlog_same_books [of a1 ev] by (simp add: same_books_def)
    from same_books_settles [OF this, of "ev_options ev" "{#}"]
    have "settles (ev_options ev) (?w a) a (?w ?a2) ?a2" using settles_trans [OF a1(2)] by simp
    from settles_trans [OF this tail] a1(1) False BranchPoll show ?thesis
      by (simp add: turn poll_branch_def Let_def)
  next
    case StillWaiting
    with False show ?thesis by (simp add: turn)
  next
    case BranchCommand
    show ?thesis
    proof (cases "ac_mailbox a")
      case Nil
      let ?a = "(stop_provider ev a)\<lparr>ac_exited := True\<rparr>"
      have "same_books a ?a" using stop_provider_same_books [of a ev] by (simp add: same_books_def)
      from same_books_settles [OF this, of "ev_options ev" "{#}"] Nil False BranchCommand show ?thesis
        by (simp add: turn read_command_def)
    next
      case (Cons cmd rest)
      have req: "mset (turn_requests a) = requested_by cmd"
        using Cons False BranchCommand by (simp add: turn requested_by_def split: stt_command.split)
      let ?a0 = "a\<lparr>ac_mailbox := rest\<rparr>"
      have 0: "settles opt m a m ?a0" for opt m by (rule settles_silent) simp_all
      obtain a1 where a1: "(if \<not> sw_busy (ac_wait ?a0) \<and> ac_last_work_at ?a0 \<noteq> None \<and> produces_transcripts cmd
            then drain_outputs ev (ac_inline_late_key ?a0) ?a0 else Some ?a0) = Some a1"
          "settles (ev_options ev) (requested_by cmd + ?w ?a0) ?a0 (requested_by cmd + ?w a1) a1"
        using drain_outputs_settles [OF assms, of "ac_inline_late_key ?a0" ?a0] settles_refl by (metis (no_types))
      obtain go_on a2 where a2: "handle_command ev cmd a1 = Some (go_on, a2)"
          "settles (ev_options ev) (requested_by cmd + ?w a1) a1 (?w a2) a2"
        using handle_command_settles [OF assms] by blast
      let ?a3 = "if go_on then loop_tail ev (a2\<lparr>ac_next_poll := ac_now a2 + ms STT_ACTOR_POLL_MS\<rparr>)
        else a2\<lparr>ac_exited := True\<rparr>"
      have next_poll: "settles opt m a2 m (a2\<lparr>ac_next_poll := t\<rparr>)" for opt m t
        by (rule settles_silent) simp_all
      have "settles (ev_options ev) (?w a2) a2 (?w ?a3) ?a3"
        using settles_trans [OF next_poll tail] by (auto intro: settles_silent)
      from settles_trans [OF 0 settles_trans [OF a1(2) settles_trans [OF a2(2) this]]]
      have "settles (ev_options ev) (requested_by cmd + ?w ?a0) a (?w ?a3) ?a3" .
      moreover have "loop_turn ev a = Some ?a3"
        using False BranchCommand Cons a1(1) a2(1) by (simp add: turn read_command_def Let_def)
      ultimately show ?thesis using req by (simp add: add.commute)
    qed
  qed
qed

end

text \<open>A step extends the account; from a fresh actor a run never diverges and settles.\<close>

definition settles_step :: "'p actor \<Rightarrow> actor_op list \<Rightarrow> actor_event list \<Rightarrow> 'p actor \<Rightarrow> bool" where
  "settles_step a ops tr a' \<longleftrightarrow>
     settle (waiting (ac_outstanding a)) tr = Some (waiting (ac_outstanding a'))"

lemma settles_events:
  assumes "settles opt m a m' a'" and "actor_ok opt a"
  shows "actor_ok opt a' \<and> settle m (map Emitted (drop (length (emitted a)) (emitted a'))) = Some m'"
  using assms by (auto simp: settles_def)

locale stt_actor = stt_provider_laws "ev_methods ev" queued
  for ev :: "'p actor_env" and queued :: "'p \<Rightarrow> nat"
begin

lemma turn_step:
  assumes "actor_ok (ev_options ev) a"
  shows "\<exists>a' tr. actor_step ev a Turn = Some (a', tr) \<and> actor_ok (ev_options ev) a' \<and> settles_step a [Turn] tr a'"
proof -
  obtain a' where a': "loop_turn ev a = Some a'"
      "settles (ev_options ev) (waiting (ac_outstanding a) + mset (turn_requests a)) a (waiting (ac_outstanding a')) a'"
    using loop_turn_settles [of ev a] by auto
  with settles_events [OF a'(2) assms] show ?thesis
    by (simp add: settles_step_def settle_append settle_requested)
qed

lemma step_settles:
  assumes "actor_ok (ev_options ev) a"
  shows "\<exists>a' tr. actor_step ev a op = Some (a', tr) \<and> actor_ok (ev_options ev) a' \<and> settles_step a [op] tr a'"
proof (cases op)
  case (Send cmd)
  with assms show ?thesis by (auto simp: actor_send_def actor_ok_def settles_step_def)
next
  case (SendAudio audio)
  with assms show ?thesis
    by (auto simp: actor_send_def actor_send_audio_def Let_def actor_ok_def settles_step_def)
next
  case CloseCommands
  with assms show ?thesis by (auto simp: actor_ok_def settles_step_def)
next
  case (Pass d)
  with assms show ?thesis by (auto simp: actor_ok_def settles_step_def)
next
  case Turn
  with turn_step [OF assms] show ?thesis by simp
qed

end

sublocale stt_actor \<subseteq> traced_component "actor_step ev" "actor_ok (ev_options ev)" settles_step
proof unfold_locales
  fix a :: "'p actor" and op assume "actor_ok (ev_options ev) a"
  then show "\<exists>a' tr. actor_step ev a op = Some (a', tr) \<and> actor_ok (ev_options ev) a'"
    using step_settles by blast
next
  fix a :: "'p actor" and op a' tr assume "actor_ok (ev_options ev) a" "actor_step ev a op = Some (a', tr)"
  then show "settles_step a [op] tr a'" using step_settles [of a op] by auto
qed (auto simp: settles_step_def settle_append)

context stt_actor
begin

lemma new_actor: "actor_ok (ev_options ev) (actor_new ev provider) \<and> ac_outstanding (actor_new ev provider) = []"
  by (auto simp: actor_new_def select_head_def actor_next_deadline_def Let_def actor_ok_def
      observe_open_transition_def split: option.splits)

lemma run_accounts:
  "\<exists>a tr. run_ops (actor_step ev) (actor_new ev provider) ops = Some (a, tr) \<and>
     settle {#} tr = Some (waiting (ac_outstanding a))"
proof -
  obtain a tr where r: "run_ops (actor_step ev) (actor_new ev provider) ops = Some (a, tr)"
    using run_ok new_actor by blast
  with run_rel [OF _ r] new_actor have "settles_step (actor_new ev provider) ops tr a" by blast
  with r new_actor show ?thesis by (auto simp: settles_step_def)
qed

end

definition mock_env :: "stt_actor_options \<Rightarrow> mock_stt actor_env" where
  "mock_env opt = \<lparr>ev_methods = mock_provider,
     ev_registry = register_stt SttMock mock_create_stt registry_new, ev_options = opt\<rparr>"

interpretation mock_actor: stt_actor "mock_env opt" mock_queued
  for opt
  by (simp add: stt_actor_def mock_env_def mock.stt_provider_laws_axioms)

section \<open>Every finalize is answered\<close>

text \<open>
  C15: From a fresh actor, whatever commands are sent and however the clock and the select loop
  interleave, the task never diverges (given a provider whose output queue is finite and which reports no
  finalize marker in inline mode); every \<open>FinalizeDone\<close> answers an \<open>EndUtterance\<close> that was taken and not
  answered before, a swap or barrier happens only while no answer is owed, and at the end the
  unanswered utterances are exactly the entries that still wait in \<open>outstanding\<close>.
\<close>

theorem finalizes_are_accounted:
  assumes "stt_provider_laws (ev_methods ev) queued"
  shows "\<exists>a tr. run_ops (actor_step ev) (actor_new ev provider) ops = Some (a, tr) \<and>
    settle {#} tr = Some (waiting (ac_outstanding a))"
  using stt_actor.run_accounts [OF stt_actor.intro [OF assms]] .

definition demo_stt_config :: stt_config where
  "demo_stt_config = \<lparr>sc_provider = SttMock, sc_model = None, sc_model_path = None, sc_language = None,
     sc_api_key = None, sc_endpoint = None, sc_transport = None\<rparr>"

definition demo_context :: voice_session_context where
  "demo_context = \<lparr>sx_session_id = None, sx_trace_id = None, sx_project_id = None, sx_org_id = None,
     sx_build_id = None, sx_traceparent = None\<rparr>"

definition demo_actor_ops :: "actor_op list" where
  "demo_actor_ops =
     [Send (CStart demo_context 0), SendAudio (replicate 3200 0), Send (CEndUtterance 7), Turn, Turn, Turn,
      Send (CSwap demo_stt_config demo_context True 1), Pass 1000, Turn, CloseCommands, Turn]"

theorem finalizes_are_accounted_witness:
  "\<exists>a tr. run_ops (actor_step (mock_env \<lparr>ao_open_wait_max_ms = 0, ao_test_final_delay_ms = 0\<rparr>))
       (actor_new (mock_env \<lparr>ao_open_wait_max_ms = 0, ao_test_final_delay_ms = 0\<rparr>) (Some (mock_new demo_stt_config)))
       demo_actor_ops = Some (a, tr) \<and> settle {#} tr = Some (waiting (ac_outstanding a))"
  by (rule finalizes_are_accounted [where queued = mock_queued])
    (simp add: mock_env_def mock.stt_provider_laws_axioms)

section \<open>Overdue finalizes are released\<close>

lemma expire_waiting_all:
  "\<forall>x \<in> set outs. \<not> ou_timed_out x \<longrightarrow> deadline_of opt pending x \<le> now \<Longrightarrow>
    expire_waiting opt pending now outs =
      (map (\<lambda>x. if ou_timed_out x then x else x\<lparr>ou_timed_out := True, ou_timed_out_at := Some now\<rparr>) outs,
       map (\<lambda>x. RFinalizeDone (ou_key x) (ou_gen x) True) (filter (\<lambda>x. \<not> ou_timed_out x) outs))"
  by (induction outs) auto

lemma filter_drop_graced:
  "outs_ok outs \<Longrightarrow>
    filter (\<lambda>x. \<not> ou_timed_out x)
      (dropWhile (\<lambda>x. case grace_expiry x of Some at \<Rightarrow> at \<le> now | None \<Rightarrow> False) outs) =
    filter (\<lambda>x. \<not> ou_timed_out x) outs"
  by (induction outs) (auto simp: grace_expiry_def split: option.splits)

lemma waiting_all_expired: "waiting (map (\<lambda>x. if ou_timed_out x then x else x\<lparr>ou_timed_out := True, ou_timed_out_at := t\<rparr>) outs) = {#}"
  by (induction outs) auto

lemma fold_emit_results:
  "ao_test_final_delay_ms opt = 0 \<Longrightarrow>
    fold (emit_result opt) rs a = a\<lparr>ac_results := ac_results a @ rs\<rparr>"
  by (induction rs arbitrary: a) (auto simp: emit_result_def)

lemma expire_deadlines_all:
  assumes "actor_ok (ev_options ev) a" and "ao_test_final_delay_ms (ev_options ev) = 0"
    and "ac_last_open_pending a = open_pending ev a"
    and "\<forall>x \<in> set (ac_outstanding a). \<not> ou_timed_out x \<longrightarrow>
      deadline_of (ev_options ev) (open_pending ev a) x \<le> ac_now a"
  shows "waiting (ac_outstanding (expire_deadlines ev a)) = {#} \<and>
    ac_results (expire_deadlines ev a) = ac_results a @
      map (\<lambda>x. RFinalizeDone (ou_key x) (ou_gen x) True) (filter (\<lambda>x. \<not> ou_timed_out x) (ac_outstanding a))"
proof -
  have same: "observe_open_transition ev a = a"
    using assms(3) by (simp add: observe_open_transition_def Let_def split: option.split)
  let ?P = "\<lambda>x. case grace_expiry x of Some at \<Rightarrow> at \<le> ac_now a | None \<Rightarrow> False"
  let ?outs = "dropWhile ?P (ac_outstanding a)"
  have ok: "outs_ok (ac_outstanding a)" using assms(1) by (simp add: actor_ok_def)
  have "\<forall>x \<in> set ?outs. \<not> ou_timed_out x \<longrightarrow> deadline_of (ev_options ev) (open_pending ev a) x \<le> ac_now a"
    using assms(4) by (meson set_dropWhileD)
  note e = expire_waiting_all [OF this, unfolded filter_drop_graced [OF ok]]
  have pending: "open_pending ev (a\<lparr>ac_outstanding := outs\<rparr>) = open_pending ev a" for outs
    by (simp add: open_pending_def split: option.split)
  have "expire_deadlines ev a = a\<lparr>ac_outstanding :=
        map (\<lambda>x. if ou_timed_out x then x else x\<lparr>ou_timed_out := True, ou_timed_out_at := Some (ac_now a)\<rparr>) ?outs,
      ac_results := ac_results a @ map (\<lambda>x. RFinalizeDone (ou_key x) (ou_gen x) True)
        (filter (\<lambda>x. \<not> ou_timed_out x) (ac_outstanding a))\<rparr>"
    by (simp add: expire_deadlines_def Let_def same pending e fold_emit_results [OF assms(2)])
  then show ?thesis by (simp add: waiting_all_expired)
qed

lemma run_parked_none_waiting:
  assumes "waiting (ac_outstanding a) = {#}"
  shows "waiting (ac_outstanding (run_parked ev a)) = {#}"
proof -
  have w: "waiting (ac_outstanding (a\<lparr>ac_parked := None\<rparr>)) = {#}" using assms by simp
  show ?thesis
    using assms conjunct2 [OF run_swap_settles [OF w]] by (auto simp: run_parked_def split: option.split stt_command.split)
qed

lemma loop_tail_none_waiting:
  "waiting (ac_outstanding a) = {#} \<Longrightarrow> waiting (ac_outstanding (loop_tail ev a)) = {#}"
  using run_parked_none_waiting [of a ev] publish_same_books [of "run_parked ev a" ev]
    select_head_same_books [of "publish_status ev (run_parked ev a)" ev]
  by (simp add: loop_tail_def same_books_def)

text \<open>
  No utterance waits for ever.  When the select loop wakes on its deadline branch and the deadline of
  every waiting entry has passed, that one wake-up reports each of them, oldest first and under its own
  key and provider generation, as done with \<open>timed_out\<close>, and leaves none waiting.
\<close>

theorem overdue_finalizes_time_out:
  assumes "\<not> ac_exited a" and "chosen_branch a = BranchDeadline" and "actor_ok (ev_options ev) a"
    and "ao_test_final_delay_ms (ev_options ev) = 0" and "ac_last_open_pending a = open_pending ev a"
    and "\<forall>x \<in> set (ac_outstanding a). \<not> ou_timed_out x \<longrightarrow>
      deadline_of (ev_options ev) (open_pending ev a) x \<le> ac_now a"
  shows "\<exists>a' rest. loop_turn ev a = Some a' \<and> waiting (ac_outstanding a') = {#} \<and>
    ac_results a' = ac_results a @
      map (\<lambda>x. RFinalizeDone (ou_key x) (ou_gen x) True) (filter (\<lambda>x. \<not> ou_timed_out x) (ac_outstanding a)) @ rest"
proof -
  let ?b = "expire_deadlines ev a"
  note b = expire_deadlines_all [OF assms(3-6)]
  have ok: "actor_ok (ev_options ev) ?b"
    using expire_deadlines_settles [of ev a] assms(3) by (simp add: settles_def)
  from loop_tail_settles [of ev ?b] ok obtain rest where
    "actor_ok (ev_options ev) (loop_tail ev ?b)" "emitted (loop_tail ev ?b) = emitted ?b @ rest"
    by (auto simp: settles_def)
  with ok assms(4) have "ac_results (loop_tail ev ?b) = ac_results ?b @ rest"
    by (simp add: emitted_def actor_ok_def)
  with b loop_tail_none_waiting [of ?b ev] assms(1,2) show ?thesis by (simp add: loop_turn_def)
qed

definition demo_late_actor :: "mock_stt actor" where
  "demo_late_actor =
     (let a = actor_new (mock_env \<lparr>ao_open_wait_max_ms = 0, ao_test_final_delay_ms = 0\<rparr>) (Some (mock_new demo_stt_config))
      in a\<lparr>ac_outstanding := [(new_outstanding 5 0 0 10)\<lparr>ou_timed_out := True\<rparr>, new_outstanding 6 0 0 20],
           ac_now := 20000000, ac_wait := (ac_wait a)\<lparr>sw_deadline := Some 20000000\<rparr>\<rparr>)"

theorem overdue_finalizes_time_out_witness:
  "\<exists>a' rest. loop_turn (mock_env \<lparr>ao_open_wait_max_ms = 0, ao_test_final_delay_ms = 0\<rparr>) demo_late_actor = Some a' \<and>
     waiting (ac_outstanding a') = {#} \<and> ac_results a' = RFinalizeDone 6 0 True # rest"
proof -
  let ?ev = "mock_env \<lparr>ao_open_wait_max_ms = 0, ao_test_final_delay_ms = 0\<rparr>"
  note defs = demo_late_actor_def actor_new_def select_head_def actor_next_deadline_def observe_open_transition_def Let_def
    open_pending_def mock_env_def mock_provider_def new_outstanding_def chosen_branch_def actor_ok_def deadline_of_def
    ms_def
  have "\<exists>a' rest. loop_turn ?ev demo_late_actor = Some a' \<and> waiting (ac_outstanding a') = {#} \<and>
      ac_results a' = ac_results demo_late_actor @ map (\<lambda>x. RFinalizeDone (ou_key x) (ou_gen x) True)
        (filter (\<lambda>x. \<not> ou_timed_out x) (ac_outstanding demo_late_actor)) @ rest"
    by (rule overdue_finalizes_time_out) (simp_all add: defs)
  then show ?thesis by (simp add: defs)
qed

end
