(* ===== verification/Speaker_Gate.thy ===== *)
theory Speaker_Gate
  imports Agent_Config Float_Ops "HOL-Library.Monad_Syntax" "HOL-Library.AList"
begin

text \<open>
  \<open>crates/speech/src/speaker_gate.rs\<close>: learns the caller's voice and checks every later utterance
  against it.  The frame path (\<open>begin\<close>, \<open>push_frame\<close>, \<open>end_utterance\<close>) collects audio and sends
  checks over a channel; the verifier task owns the embedder and stores verdicts by utterance key.

  A method of the gate is one step; a message of the verifier is up to three (taken from the
  channel, embedded, stored), because other threads run in between.  The embedder is not code of
  the repository: its answer is an argument of the step.  \<open>None\<close> is a panic, \<open>debug_assert!\<close> included.
  Not modelled: log lines and the test hook that parks the delivery of verdicts.
\<close>

section \<open>Data\<close>

definition GATE_BYTES_PER_MS :: nat where "GATE_BYTES_PER_MS = 32"
definition PRE_ROLL_MS :: nat where "PRE_ROLL_MS = 300"
definition BOOK_CAP :: nat where "BOOK_CAP = 32"
definition ENDED_CAP :: nat where "ENDED_CAP = 4"
definition BACKLOG_WARN :: nat where "BACKLOG_WARN = 8"

definition recheck_barge_earliest_ms :: "nat \<Rightarrow> nat \<Rightarrow> nat" where
  "recheck_barge_earliest_ms check_speech_ms window = min u32_max (check_speech_ms * window)"

datatype speaker_outcome = Caller | Other | Unknown

definition speaker_outcome_as_str :: "speaker_outcome \<Rightarrow> string" where
  "speaker_outcome_as_str x = (case x of Caller \<Rightarrow> ''caller'' | Other \<Rightarrow> ''other'' | Unknown \<Rightarrow> ''unknown'')"

record verdict =
  vd_key :: nat
  vd_outcome :: speaker_outcome
  vd_timed_out :: bool
  vd_reason :: "string option"
  vd_recheck :: bool
  vd_window :: nat

definition UNKNOWN_NOT_ENROLLED :: string where "UNKNOWN_NOT_ENROLLED = ''not_enrolled''"
definition UNKNOWN_SHORT :: string where "UNKNOWN_SHORT = ''short''"
definition UNKNOWN_TIMEOUT :: string where "UNKNOWN_TIMEOUT = ''timeout''"
definition UNKNOWN_ERROR :: string where "UNKNOWN_ERROR = ''error''"
definition UNKNOWN_NO_EMBEDDING :: string where "UNKNOWN_NO_EMBEDDING = ''no_embedding''"
definition UNKNOWN_NO_CHECK :: string where "UNKNOWN_NO_CHECK = ''no_check''"
definition UNKNOWN_LOADING :: string where "UNKNOWN_LOADING = ''loading''"

datatype utt_gate = GateOff | GateLoading | GateActive

record utt_settings =
  us_gate :: utt_gate
  us_on_mismatch :: speaker_mismatch_action
  us_barge_in :: speaker_gate_barge_in
  us_cut :: bool

record gate_runtime =
  rt_enabled :: bool
  rt_loaded :: bool
  rt_loading :: bool
  rt_on_mismatch :: speaker_mismatch_action
  rt_barge_in :: speaker_gate_barge_in
  rt_utts :: "(nat \<times> utt_settings) list"

datatype barge_decision = Proceed | Suppress | Defer

record gate_check =
  ck_key :: nat
  ck_pcm :: bytes
  ck_speech_bytes :: nat
  ck_recheck :: bool
  ck_window :: nat
  ck_attempt :: nat

datatype gate_msg = EnrollMsg bytes | CheckMsg gate_check | ResetMsg

record gate_book =
  bk_verdicts :: "(nat \<times> speaker_outcome) list"
  bk_reasons :: "(nat \<times> string) list"
  bk_sent :: "nat list"
  bk_rechecks_in_flight :: "nat list"
  bk_windows_scored :: "(nat \<times> nat) list"
  bk_closed :: "nat list"
  bk_reopened_after :: "(nat \<times> nat) list"

text \<open>\<open>Cur\<close>, the live utterance.\<close>

record gate_cur =
  cu_key :: nat
  cu_buf :: bytes
  cu_pre :: nat
  cu_sent :: bool
  cu_windows_sent :: nat
  cu_speech_seen :: nat
  cu_rechecks_closed :: bool
  cu_reopened :: bool

record gate_feed =
  fd_ring :: bytes
  fd_cur :: "gate_cur option"
  fd_ended :: "(nat \<times> bytes) list"
  fd_pending_barge :: "(nat, nat) btree"
  fd_shorts :: "(nat \<times> nat \<times> nat) list"
  fd_attempts :: nat

datatype gate_warning =
    WarnBacklog nat
  | WarnEnrollTimeout
  | WarnEnrollFailed
  | WarnVerifyTimeout nat nat

text \<open>What the verifier is in the middle of.\<close>

datatype gate_work = Enrolling | Embedding gate_check | Storing verdict

record 'e gate_verifier =
  vf_reference :: "'e list option"
  vf_enroll_pcm :: bytes
  vf_work :: "gate_work option"

record 'e speaker_gate =
  gt_cfg :: "'e speaker_gate_config"
  gt_tx :: "gate_msg list"
  gt_enrolled :: bool
  gt_book :: gate_book
  gt_backlog :: nat
  gt_backlog_logged :: bool
  gt_stale :: nat
  gt_warnings :: "gate_warning list"
  gt_holds :: nat
  gt_superseded :: nat
  gt_feed :: gate_feed
  gt_runtime :: gate_runtime
  gt_verifier :: "'e gate_verifier"

section \<open>Small pieces\<close>

definition gate_warn :: "gate_warning \<Rightarrow> 'e speaker_gate \<Rightarrow> 'e speaker_gate" where
  "gate_warn line g =
     (if length (gt_warnings g) < 64 then g\<lparr>gt_warnings := gt_warnings g @ [line]\<rparr> else g)"

definition push_capped :: "'a \<Rightarrow> 'a list \<Rightarrow> 'a list" where
  "push_capped v q = keep_last BOOK_CAP (q @ [v])"

text \<open>\<open>iter().rev().find(..)\<close> over key-value pairs: the newest entry of a key.\<close>

definition newest :: "nat \<Rightarrow> (nat \<times> 'a) list \<Rightarrow> 'a option" where
  "newest key q = map_option snd (find (\<lambda>(k, _). k = key) (rev q))"

text \<open>The embeddings are \<open>f32\<close>, the sums \<open>f64\<close>.\<close>

record ('d, 'e) gate_floats =
  gf_f64 :: "'d float_ops"
  gf_f32 :: "'e float_ops"
  gf_widen :: "'e \<Rightarrow> 'd"
  gf_narrow :: "'d \<Rightarrow> 'e"

definition cosine :: "('d, 'e) gate_floats \<Rightarrow> 'e list \<Rightarrow> 'e list \<Rightarrow> 'e option" where
  "cosine gf a b =
     (if length a \<noteq> length b \<or> a = [] then None
      else
        (let fl = gf_f64 gf; zero = fl_of_int fl 0;
             (dot, na, nb) = fold (\<lambda>(x, y) (dot, na, nb).
                (fl_add fl dot (fl_mul fl (gf_widen gf x) (gf_widen gf y)),
                 fl_add fl na (fl_mul fl (gf_widen gf x) (gf_widen gf x)),
                 fl_add fl nb (fl_mul fl (gf_widen gf y) (gf_widen gf y)))) (zip a b) (zero, zero, zero)
         in if fl_le fl na zero \<or> fl_le fl nb zero then None
            else Some (gf_narrow gf (fl_div fl dot (fl_mul fl (fl_sqrt fl na) (fl_sqrt fl nb))))))"

definition gate_new :: "'e speaker_gate_config \<Rightarrow> 'e speaker_gate" where
  "gate_new cfg =
     \<lparr>gt_cfg = cfg, gt_tx = [], gt_enrolled = False,
      gt_book = \<lparr>bk_verdicts = [], bk_reasons = [], bk_sent = [], bk_rechecks_in_flight = [],
        bk_windows_scored = [], bk_closed = [], bk_reopened_after = []\<rparr>,
      gt_backlog = 0, gt_backlog_logged = False, gt_stale = 0, gt_warnings = [], gt_holds = 0,
      gt_superseded = 0,
      gt_feed = \<lparr>fd_ring = [], fd_cur = None, fd_ended = [], fd_pending_barge = [], fd_shorts = [], fd_attempts = 0\<rparr>,
      gt_runtime = \<lparr>rt_enabled = sg_enabled cfg, rt_loaded = sg_enabled cfg, rt_loading = False,
        rt_on_mismatch = sg_on_mismatch cfg, rt_barge_in = sg_barge_in cfg, rt_utts = []\<rparr>,
      gt_verifier = \<lparr>vf_reference = None, vf_enroll_pcm = [], vf_work = None\<rparr>\<rparr>"

definition gate_send :: "gate_msg \<Rightarrow> 'e speaker_gate \<Rightarrow> 'e speaker_gate" where
  "gate_send msg g =
     (let pending = gt_backlog g + 1;
          g = g\<lparr>gt_backlog := pending\<rparr>;
          g = (if BACKLOG_WARN < pending
               then (let logged = gt_backlog_logged g; g = g\<lparr>gt_backlog_logged := True\<rparr>
                     in if logged then g else gate_warn (WarnBacklog pending) g)
               else g)
      in g\<lparr>gt_tx := gt_tx g @ [msg]\<rparr>)"

definition note_stale_verdict :: "'e speaker_gate \<Rightarrow> 'e speaker_gate" where
  "note_stale_verdict g = g\<lparr>gt_stale := gt_stale g + 1\<rparr>"

definition gate_reset :: "'e speaker_gate \<Rightarrow> 'e speaker_gate" where
  "gate_reset g =
     gate_send ResetMsg (g\<lparr>gt_enrolled := False,
       gt_feed := (gt_feed g)\<lparr>fd_ended := [], fd_pending_barge := [], fd_shorts := []\<rparr>\<rparr>)"

section \<open>The runtime switch\<close>

definition current_settings :: "gate_runtime \<Rightarrow> utt_settings" where
  "current_settings rt =
     \<lparr>us_gate = (if \<not> rt_enabled rt then GateOff else if rt_loaded rt then GateActive else GateLoading),
      us_on_mismatch = rt_on_mismatch rt, us_barge_in = rt_barge_in rt, us_cut = False\<rparr>"

definition snapshot_utt :: "nat \<Rightarrow> 'e speaker_gate \<Rightarrow> utt_settings \<times> 'e speaker_gate" where
  "snapshot_utt key g =
     (let rt = gt_runtime g
      in case map_of (rt_utts rt) key of
           Some s \<Rightarrow> (s, g)
         | None \<Rightarrow>
             (let s = current_settings rt
              in (s, g\<lparr>gt_runtime := rt\<lparr>rt_utts := push_capped (key, s) (rt_utts rt)\<rparr>\<rparr>)))"

definition utt_settings_of :: "nat \<Rightarrow> 'e speaker_gate \<Rightarrow> utt_settings" where
  "utt_settings_of key g =
     (case map_of (rt_utts (gt_runtime g)) key of Some s \<Rightarrow> s | None \<Rightarrow> current_settings (gt_runtime g))"

definition holds_barge_for :: "nat \<Rightarrow> 'e speaker_gate \<Rightarrow> bool" where
  "holds_barge_for key g =
     (let s = utt_settings_of key g
      in us_gate s = GateActive \<and> \<not> us_cut s \<and> us_barge_in s = CallerOnly)"

definition is_cut :: "nat \<Rightarrow> 'e speaker_gate \<Rightarrow> bool" where
  "is_cut key g = list_ex (\<lambda>(k, s). k = key \<and> us_cut s) (rt_utts (gt_runtime g))"

definition set_policy ::
  "speaker_mismatch_action option \<Rightarrow> speaker_gate_barge_in option \<Rightarrow> 'e speaker_gate \<Rightarrow> 'e speaker_gate" where
  "set_policy on_mismatch barge_in g =
     (let rt = gt_runtime g;
          rt = (case on_mismatch of Some m \<Rightarrow> rt\<lparr>rt_on_mismatch := m\<rparr> | None \<Rightarrow> rt);
          rt = (case barge_in of Some b \<Rightarrow> rt\<lparr>rt_barge_in := b\<rparr> | None \<Rightarrow> rt)
      in g\<lparr>gt_runtime := rt\<rparr>)"

definition set_enabled :: "'e speaker_gate \<Rightarrow> bool \<times> 'e speaker_gate" where
  "set_enabled g =
     (let rt = (gt_runtime g)\<lparr>rt_enabled := True\<rparr>
      in if rt_loaded rt \<or> rt_loading rt then (False, g\<lparr>gt_runtime := rt\<rparr>)
         else (True, g\<lparr>gt_runtime := rt\<lparr>rt_loading := True\<rparr>\<rparr>))"

definition load_timed_out :: "'e speaker_gate \<Rightarrow> 'e speaker_gate" where
  "load_timed_out g = g\<lparr>gt_runtime := (gt_runtime g)\<lparr>rt_enabled := False\<rparr>\<rparr>"

definition late_load_returned :: "'e speaker_gate \<Rightarrow> bool \<times> 'e speaker_gate" where
  "late_load_returned g =
     (if rt_enabled (gt_runtime g) then (True, g)
      else (False, g\<lparr>gt_runtime := (gt_runtime g)\<lparr>rt_loading := False\<rparr>\<rparr>))"

definition finish_load :: "bool \<Rightarrow> 'e speaker_gate \<Rightarrow> 'e speaker_gate" where
  "finish_load ok g =
     (let rt = (gt_runtime g)\<lparr>rt_loading := False\<rparr>
      in g\<lparr>gt_runtime := (if ok then rt\<lparr>rt_loaded := True\<rparr> else rt\<lparr>rt_enabled := False\<rparr>)\<rparr>)"

definition validate_enable :: "'e float_ops \<Rightarrow> 'e speaker_gate \<Rightarrow> 'e speaker_gate_config_error option" where
  "validate_enable fl g = validate_speaker_gate fl ((gt_cfg g)\<lparr>sg_enabled := True\<rparr>)"

definition set_disabled :: "'e speaker_gate \<Rightarrow> 'e speaker_gate" where
  "set_disabled g =
     (let rt = gt_runtime g
      in g\<lparr>gt_runtime := rt\<lparr>rt_enabled := False,
             rt_utts := map (\<lambda>(k, s). (k, if us_gate s = GateActive then s\<lparr>us_cut := True\<rparr> else s)) (rt_utts rt)\<rparr>,
           gt_feed := (gt_feed g)\<lparr>fd_cur := None, fd_shorts := []\<rparr>\<rparr>)"

section \<open>Lookups in the book\<close>

definition outcome_for :: "nat \<Rightarrow> 'e speaker_gate \<Rightarrow> speaker_outcome option" where
  "outcome_for key g = newest key (bk_verdicts (gt_book g))"

definition check_sent :: "nat \<Rightarrow> 'e speaker_gate \<Rightarrow> bool" where
  "check_sent key g \<longleftrightarrow> key \<in> set (bk_sent (gt_book g))"

definition recheck_closed :: "nat \<Rightarrow> 'e speaker_gate \<Rightarrow> bool" where
  "recheck_closed key g \<longleftrightarrow> key \<in> set (bk_closed (gt_book g))"

definition recheck_in_flight :: "nat \<Rightarrow> 'e speaker_gate \<Rightarrow> bool" where
  "recheck_in_flight key g \<longleftrightarrow> key \<in> set (bk_rechecks_in_flight (gt_book g))"

definition gate_windows_scored :: "nat \<Rightarrow> 'e speaker_gate \<Rightarrow> nat" where
  "gate_windows_scored key g =
     (case map_of (bk_windows_scored (gt_book g)) key of Some w \<Rightarrow> w | None \<Rightarrow> 0)"

definition windows_sent_for :: "nat \<Rightarrow> 'e speaker_gate \<Rightarrow> nat" where
  "windows_sent_for key g =
     max (gate_windows_scored key g + of_bool (recheck_in_flight key g)) (of_bool (check_sent key g))"

definition recheck_due :: "nat \<Rightarrow> 'e speaker_gate \<Rightarrow> bool" where
  "recheck_due key g \<longleftrightarrow>
     outcome_for key g = Some Other \<and> \<not> recheck_closed key g \<and> \<not> recheck_in_flight key g"

definition rechecked :: "nat \<Rightarrow> 'e speaker_gate \<Rightarrow> bool" where
  "rechecked key g \<longleftrightarrow> 2 \<le> gate_windows_scored key g"

definition cut_live :: "'e speaker_gate \<Rightarrow> (nat \<times> nat) list \<times> 'e speaker_gate" where
  "cut_live g =
     (let taken = (\<lambda>(k, _). is_cut k g \<and> \<not> recheck_closed k g); feed = gt_feed g
      in (filter taken (fd_pending_barge feed),
          g\<lparr>gt_feed := feed\<lparr>fd_pending_barge := filter (\<lambda>e. \<not> taken e) (fd_pending_barge feed)\<rparr>\<rparr>))"

section \<open>The frame path\<close>

definition rolling :: "'e speaker_gate \<Rightarrow> bool" where
  "rolling g \<longleftrightarrow> sg_recheck_on_other (gt_cfg g) \<and> gt_enrolled g"

definition gate_cap_bytes :: "'e speaker_gate \<Rightarrow> nat" where
  "gate_cap_bytes g =
     (if gt_enrolled g then sg_check_speech_ms (gt_cfg g)
      else max (sg_check_speech_ms (gt_cfg g)) (sg_enroll_speech_ms (gt_cfg g))) * GATE_BYTES_PER_MS"

definition windows_remain :: "nat \<Rightarrow> 'e speaker_gate \<Rightarrow> bool" where
  "windows_remain windows_sent g \<longleftrightarrow>
     sg_recheck_max_windows (gt_cfg g) = 0 \<or> windows_sent < sg_recheck_max_windows (gt_cfg g)"

definition check_bytes :: "'e speaker_gate \<Rightarrow> nat" where
  "check_bytes g = sg_check_speech_ms (gt_cfg g) * GATE_BYTES_PER_MS"

definition min_check_bytes :: "'e speaker_gate \<Rightarrow> nat" where
  "min_check_bytes g = sg_min_check_speech_ms (gt_cfg g) * GATE_BYTES_PER_MS"

text \<open>Pre-roll plus the latest window: what a rolling buffer keeps.\<close>

definition keep_bytes :: "'e speaker_gate \<Rightarrow> nat" where
  "keep_bytes g = PRE_ROLL_MS * GATE_BYTES_PER_MS + check_bytes g"

definition mark_sent :: "nat \<Rightarrow> 'e speaker_gate \<Rightarrow> 'e speaker_gate" where
  "mark_sent key g =
     (if check_sent key g then g
      else g\<lparr>gt_book := (gt_book g)\<lparr>bk_sent := push_capped key (bk_sent (gt_book g))\<rparr>\<rparr>)"

text \<open>The collected frame, before any window is cut.\<close>

definition collect :: "bytes \<Rightarrow> 'e speaker_gate \<Rightarrow> gate_cur \<Rightarrow> gate_cur" where
  "collect frame g cur =
     (let speech = length (cu_buf cur) - cu_pre cur; cap = gate_cap_bytes g;
          cur = (if rolling g \<or> cu_reopened cur then cur\<lparr>cu_buf := cu_buf cur @ frame\<rparr>
                 else if speech < cap then cur\<lparr>cu_buf := cu_buf cur @ take (cap - speech) frame\<rparr>
                 else cur)
      in cur\<lparr>cu_speech_seen := cu_speech_seen cur + length frame\<rparr>)"

definition first_window_due :: "'e speaker_gate \<Rightarrow> gate_cur \<Rightarrow> bool" where
  "first_window_due g cur \<longleftrightarrow>
     \<not> cu_sent cur \<and> check_bytes g \<le> length (cu_buf cur) - cu_pre cur \<and>
     (cu_windows_sent cur + 1) * check_bytes g \<le> cu_speech_seen cur"

definition recheck_window_due :: "'e speaker_gate \<Rightarrow> gate_cur \<Rightarrow> bool" where
  "recheck_window_due g cur \<longleftrightarrow>
     sg_recheck_on_other (gt_cfg g) \<and> cu_sent cur \<and> \<not> cu_rechecks_closed cur \<and>
     windows_remain (cu_windows_sent cur) g \<and>
     (cu_windows_sent cur + 1) * check_bytes g \<le> cu_speech_seen cur \<and>
     gt_enrolled g \<and> recheck_due (cu_key cur) g"

definition trim_window :: "'e speaker_gate \<Rightarrow> gate_cur \<Rightarrow> gate_cur" where
  "trim_window g cur =
     (if (rolling g \<or> cu_reopened cur) \<and> (cu_sent cur \<or> cu_reopened cur) \<and> keep_bytes g < length (cu_buf cur)
      then cur\<lparr>cu_buf := keep_last (keep_bytes g) (cu_buf cur), cu_pre := 0\<rparr>
      else cur)"

text \<open>The clip of a window that goes out now.\<close>

definition window_check :: "'e speaker_gate \<Rightarrow> gate_cur \<Rightarrow> bool \<Rightarrow> gate_check" where
  "window_check g cur is_recheck =
     \<lparr>ck_key = cu_key cur, ck_pcm = keep_last (keep_bytes g) (cu_buf cur), ck_speech_bytes = check_bytes g,
      ck_recheck = is_recheck, ck_window = cu_windows_sent cur + 1, ck_attempt = fd_attempts (gt_feed g) + 1\<rparr>"

text \<open>
  \<open>push_frame\<close> panics where \<open>cur.buf.len() - cur.pre\<close> underflows.
\<close>

definition gate_push_frame :: "bytes \<Rightarrow> 'e speaker_gate \<Rightarrow> 'e speaker_gate option" where
  "gate_push_frame frame g =
     (let feed = gt_feed g; store = (\<lambda>cur feed. feed\<lparr>fd_cur := Some (trim_window g cur)\<rparr>) in
      case fd_cur feed of
        None \<Rightarrow>
          Some (g\<lparr>gt_feed := feed\<lparr>fd_ring := keep_last (PRE_ROLL_MS * GATE_BYTES_PER_MS) (fd_ring feed @ frame)\<rparr>\<rparr>)
      | Some cur \<Rightarrow>
          if length (cu_buf cur) < cu_pre cur then None
          else
            (let cur = collect frame g cur; sent = feed\<lparr>fd_attempts := fd_attempts feed + 1\<rparr> in
             if first_window_due g cur then
               (let check = window_check g cur False;
                    cur = cur\<lparr>cu_sent := True, cu_windows_sent := cu_windows_sent cur + 1\<rparr>
                in Some (gate_send (CheckMsg check) (mark_sent (cu_key cur) (g\<lparr>gt_feed := store cur sent\<rparr>))))
             else if recheck_window_due g cur then
               (let check = window_check g cur True;
                    cur = cur\<lparr>cu_windows_sent := cu_windows_sent cur + 1\<rparr>;
                    book = (gt_book g)\<lparr>bk_rechecks_in_flight :=
                      push_capped (cu_key cur) (bk_rechecks_in_flight (gt_book g))\<rparr>
                in Some (gate_send (CheckMsg check) (g\<lparr>gt_book := book, gt_feed := store cur sent\<rparr>)))
             else Some (g\<lparr>gt_feed := store cur feed\<rparr>)))"

text \<open>
  \<open>end_locked\<close>: \<open>None\<close> where an underflow, the slice of the clip or the drain of the pre-roll panics.
\<close>

definition short_next_window :: "gate_cur \<Rightarrow> nat" where
  "short_next_window cur = (if cu_reopened cur then cu_windows_sent cur + 1 else max (cu_windows_sent cur) 1 + 1)"

definition note_short :: "'e speaker_gate \<Rightarrow> gate_cur \<Rightarrow> nat \<Rightarrow> gate_feed \<Rightarrow> gate_feed" where
  "note_short g cur speech feed =
     (if speech < min_check_bytes g
      then feed\<lparr>fd_shorts := keep_last BOOK_CAP
             (filter (\<lambda>(k, _). k \<noteq> cu_key cur) (fd_shorts feed) @
               [(cu_key cur, cu_speech_seen cur, short_next_window cur)])\<rparr>
      else feed)"

definition keep_for_enrollment :: "gate_cur \<Rightarrow> 'e speaker_gate \<Rightarrow> 'e speaker_gate" where
  "keep_for_enrollment cur g =
     (if gt_enrolled g then g
      else g\<lparr>gt_feed := (gt_feed g)\<lparr>fd_ended :=
        keep_last ENDED_CAP (fd_ended (gt_feed g) @ [(cu_key cur, drop (cu_pre cur) (cu_buf cur))])\<rparr>\<rparr>)"

definition end_locked :: "'e speaker_gate \<Rightarrow> 'e speaker_gate option" where
  "end_locked g =
     (case fd_cur (gt_feed g) of
        None \<Rightarrow> Some g
      | Some cur \<Rightarrow>
          if length (cu_buf cur) < cu_pre cur \<and> (\<not> cu_sent cur \<or> \<not> gt_enrolled g) then None
          else
            (let g = g\<lparr>gt_feed := (gt_feed g)\<lparr>fd_cur := None\<rparr>\<rparr>;
                 g = (if \<not> cu_sent cur then
                        (let speech = (if 0 < cu_windows_sent cur then 0
                                       else min (length (cu_buf cur) - cu_pre cur) (check_bytes g));
                             g = mark_sent (cu_key cur) g;
                             feed = note_short g cur speech (gt_feed g);
                             feed = feed\<lparr>fd_attempts := fd_attempts feed + 1\<rparr>
                         in gate_send (CheckMsg \<lparr>ck_key = cu_key cur, ck_pcm = take (cu_pre cur + speech) (cu_buf cur),
                              ck_speech_bytes = speech, ck_recheck = False, ck_window = cu_windows_sent cur + 1,
                              ck_attempt = fd_attempts feed\<rparr>) (g\<lparr>gt_feed := feed\<rparr>))
                      else if sg_recheck_on_other (gt_cfg g) \<and> outcome_for (cu_key cur) g = Some Other \<and>
                              \<not> recheck_in_flight (cu_key cur) g
                      then g\<lparr>gt_feed := (gt_feed g)\<lparr>fd_pending_barge :=
                             bt_remove (cu_key cur) (fd_pending_barge (gt_feed g))\<rparr>\<rparr>
                      else g)
             in Some (keep_for_enrollment cur g)))"

text \<open>
  \<open>reopen_short\<close>: \<open>None\<close> in the first component when the key is not re-opened.  \<open>next_window - 1\<close> is
  read from the feed's record.
\<close>

definition reopen_short :: "nat \<Rightarrow> 'e speaker_gate \<Rightarrow> gate_cur option \<times> 'e speaker_gate" where
  "reopen_short key g =
     (case find (\<lambda>(k, _). k = key) (fd_shorts (gt_feed g)) of
        None \<Rightarrow> (None, g)
      | Some (_, speech_seen, next_window) \<Rightarrow>
          (let feed = gt_feed g;
               g = g\<lparr>gt_feed := feed\<lparr>fd_shorts := remove1 (key, speech_seen, next_window) (fd_shorts feed)\<rparr>\<rparr>
           in if recheck_closed key g then (None, g)
              else
                (let book = gt_book g;
                     book = book\<lparr>bk_verdicts := filter (\<lambda>(k, _). k \<noteq> key) (bk_verdicts book),
                       bk_reasons := filter (\<lambda>(k, _). k \<noteq> key) (bk_reasons book),
                       bk_reopened_after := push_capped (key, fd_attempts feed)
                         (filter (\<lambda>(k, _). k \<noteq> key) (bk_reopened_after book))\<rparr>
                 in (Some \<lparr>cu_key = key, cu_buf = [], cu_pre = 0, cu_sent = False,
                       cu_windows_sent = next_window - 1, cu_speech_seen = speech_seen,
                       cu_rechecks_closed = False, cu_reopened = True\<rparr>,
                     g\<lparr>gt_book := book\<rparr>))))"

text \<open>The live utterance a \<open>begin\<close> opens for \<open>key\<close>.\<close>

definition joined_cur :: "nat \<Rightarrow> bytes \<Rightarrow> nat \<Rightarrow> bool \<Rightarrow> nat \<Rightarrow> 'e speaker_gate \<Rightarrow> gate_cur" where
  "joined_cur key buf pre sent windows g =
     \<lparr>cu_key = key, cu_buf = buf, cu_pre = pre, cu_sent = sent, cu_windows_sent = windows,
      cu_speech_seen = windows * check_bytes g, cu_rechecks_closed = recheck_closed key g,
      cu_reopened = False\<rparr>"

definition open_cur :: "nat \<Rightarrow> 'e speaker_gate \<Rightarrow> 'e speaker_gate" where
  "open_cur key g =
     (let ended = fd_ended (gt_feed g);
          resumed = (if ended \<noteq> [] \<and> fst (last ended) = key then Some (snd (last ended)) else None);
          g = (if resumed = None then g
               else g\<lparr>gt_feed := (gt_feed g)\<lparr>fd_ended := butlast ended\<rparr>\<rparr>);
          (reopened, g) = reopen_short key g
      in case resumed of
           Some buf \<Rightarrow>
             (let cur = (case reopened of
                           Some cur \<Rightarrow> cur\<lparr>cu_buf := buf, cu_pre := 0\<rparr>
                         | None \<Rightarrow> joined_cur key buf 0 True (windows_sent_for key g) g)
              in g\<lparr>gt_feed := (gt_feed g)\<lparr>fd_cur := Some cur\<rparr>\<rparr>)
         | None \<Rightarrow>
             (let buf = fd_ring (gt_feed g); sent = check_sent key g;
                  cur = (case reopened of
                           Some cur \<Rightarrow> cur\<lparr>cu_buf := buf, cu_pre := length buf\<rparr>
                         | None \<Rightarrow> joined_cur key buf (length buf) sent
                                     (if sent then windows_sent_for key g else 0) g)
              in g\<lparr>gt_feed := (gt_feed g)\<lparr>fd_ring := [], fd_cur := Some cur\<rparr>\<rparr>))"

definition gate_begin :: "nat \<Rightarrow> bytes \<Rightarrow> 'e speaker_gate \<Rightarrow> 'e speaker_gate option" where
  "gate_begin key frame g =
     (let (settings, g) = snapshot_utt key g; live = map_option cu_key (fd_cur (gt_feed g)) in
      if us_gate settings \<noteq> GateActive \<or> us_cut settings then
        (if live \<noteq> None \<and> live \<noteq> Some key then end_locked g else Some g)
      else if live = Some key then gate_push_frame frame g
      else do {
        g \<leftarrow> end_locked g;
        gate_push_frame frame (open_cur key g)
      })"
section \<open>Verdicts and held barge-ins\<close>

definition recheck_open :: "nat \<Rightarrow> 'e speaker_gate \<Rightarrow> bool" where
  "recheck_open key g \<longleftrightarrow>
     sg_recheck_on_other (gt_cfg g) \<and>
     (recheck_in_flight key g \<or>
      (case fd_cur (gt_feed g) of
         Some c \<Rightarrow> cu_key c = key \<and> cu_sent c \<and> \<not> cu_rechecks_closed c \<and> windows_remain (cu_windows_sent c) g
       | None \<Rightarrow> False) \<and> \<not> recheck_closed key g)"

definition set_pending_barge :: "nat \<Rightarrow> nat \<Rightarrow> 'e speaker_gate \<Rightarrow> 'e speaker_gate" where
  "set_pending_barge key epoch g =
     g\<lparr>gt_feed := (gt_feed g)\<lparr>fd_pending_barge := bt_insert key epoch (fd_pending_barge (gt_feed g))\<rparr>\<rparr>"

definition hold_for_recheck :: "nat \<Rightarrow> nat \<Rightarrow> 'e speaker_gate \<Rightarrow> bool \<times> 'e speaker_gate" where
  "hold_for_recheck key epoch g =
     (if recheck_open key g then (True, (set_pending_barge key epoch g)\<lparr>gt_holds := gt_holds g + 1\<rparr>)
      else (False, g))"

definition close_recheck :: "nat \<Rightarrow> 'e speaker_gate \<Rightarrow> 'e speaker_gate" where
  "close_recheck key g =
     (let feed = gt_feed g;
          cur = map_option (\<lambda>c. if cu_key c = key then c\<lparr>cu_rechecks_closed := True\<rparr> else c) (fd_cur feed);
          g = g\<lparr>gt_feed := feed\<lparr>fd_cur := cur\<rparr>\<rparr>
      in if recheck_closed key g then g
         else g\<lparr>gt_book := (gt_book g)\<lparr>bk_closed := push_capped key (bk_closed (gt_book g))\<rparr>\<rparr>)"

definition stored_unknown_reason :: "nat \<Rightarrow> 'e speaker_gate \<Rightarrow> string option" where
  "stored_unknown_reason key g = newest key (bk_reasons (gt_book g))"

definition short_can_rejoin :: "nat \<Rightarrow> 'e speaker_gate \<Rightarrow> bool" where
  "short_can_rejoin key g \<longleftrightarrow>
     list_ex (\<lambda>(k, _). k = key) (fd_shorts (gt_feed g)) \<and> \<not> recheck_closed key g"

definition decide_barge :: "nat \<Rightarrow> 'e speaker_gate \<Rightarrow> barge_decision" where
  "decide_barge key g =
     (if \<not> gt_enrolled g then Proceed
      else
        (case outcome_for key g of
           Some Other \<Rightarrow> if recheck_open key g then Defer else Suppress
         | Some Unknown \<Rightarrow>
             if sg_suppress_short_barge_in (gt_cfg g) \<and> stored_unknown_reason key g = Some UNKNOWN_SHORT then Suppress
             else if stored_unknown_reason key g = Some UNKNOWN_SHORT \<and> short_can_rejoin key g then Defer
             else Proceed
         | Some Caller \<Rightarrow> Proceed
         | None \<Rightarrow> Defer))"

definition unknown_reason :: "nat \<Rightarrow> 'e speaker_gate \<Rightarrow> string" where
  "unknown_reason key g =
     (case stored_unknown_reason key g of
        Some r \<Rightarrow> r
      | None \<Rightarrow>
          (let s = utt_settings_of key g
           in if us_gate s = GateLoading then UNKNOWN_LOADING
              else if us_cut s then UNKNOWN_NO_CHECK
              else if \<not> gt_enrolled g then UNKNOWN_NOT_ENROLLED
              else if check_sent key g then UNKNOWN_TIMEOUT
              else UNKNOWN_NO_CHECK))"

definition verdict_read_by_final :: "nat \<Rightarrow> speaker_outcome \<Rightarrow> 'e speaker_gate \<Rightarrow> verdict" where
  "verdict_read_by_final key outcome g =
     (let reason = (if outcome = Unknown then Some (unknown_reason key g) else None)
      in \<lparr>vd_key = key, vd_outcome = outcome, vd_timed_out = (reason = Some UNKNOWN_TIMEOUT), vd_reason = reason,
          vd_recheck = rechecked key g, vd_window = gate_windows_scored key g\<rparr>)"

definition vetoes_barge :: "verdict \<Rightarrow> 'e speaker_gate \<Rightarrow> bool" where
  "vetoes_barge v g =
     (if vd_recheck v then vd_outcome v \<noteq> Caller
      else vd_outcome v = Other \<or>
        (sg_suppress_short_barge_in (gt_cfg g) \<and> vd_outcome v = Unknown \<and> vd_reason v = Some UNKNOWN_SHORT))"

definition barge_allowed :: "verdict \<Rightarrow> 'e speaker_gate \<Rightarrow> bool" where
  "barge_allowed v g \<longleftrightarrow> \<not> vetoes_barge v g"

definition has_pending_barge :: "nat \<Rightarrow> 'e speaker_gate \<Rightarrow> bool" where
  "has_pending_barge key g \<longleftrightarrow> bt_get (fd_pending_barge (gt_feed g)) key \<noteq> None"

definition take_pending_barge :: "nat \<Rightarrow> 'e speaker_gate \<Rightarrow> nat option \<times> 'e speaker_gate" where
  "take_pending_barge key g =
     (bt_get (fd_pending_barge (gt_feed g)) key,
      g\<lparr>gt_feed := (gt_feed g)\<lparr>fd_pending_barge := bt_remove key (fd_pending_barge (gt_feed g))\<rparr>\<rparr>)"

definition or_unknown :: "speaker_outcome option \<Rightarrow> speaker_outcome" where
  "or_unknown r = (case r of Some x \<Rightarrow> x | None \<Rightarrow> Unknown)"

definition settled_outcome :: "nat \<Rightarrow> 'e speaker_gate \<Rightarrow> speaker_outcome option" where
  "settled_outcome key g =
     (if is_cut key g \<or> \<not> check_sent key g then Some (or_unknown (outcome_for key g))
      else if recheck_in_flight key g then None
      else outcome_for key g)"

text \<open>
  \<open>await_outcome\<close>: the states the waiting final sees, each with the time since it started waiting,
  one per wake-up; the last wake-up is the timeout.  \<open>None\<close> while it still waits.
\<close>

fun await_loop :: "nat \<Rightarrow> ('e speaker_gate \<times> duration) list \<Rightarrow> speaker_outcome option" where
  "await_loop key [] = None"
| "await_loop key ((g, elapsed) # rest) =
     (if outcome_for key g \<noteq> None \<and> \<not> recheck_in_flight key g then outcome_for key g
      else if is_cut key g then Some (or_unknown (outcome_for key g))
      else if ms (sg_verify_timeout_ms (gt_cfg g)) \<le> elapsed then Some (or_unknown (outcome_for key g))
      else await_loop key rest)"

definition await_outcome :: "nat \<Rightarrow> 'e speaker_gate \<Rightarrow> ('e speaker_gate \<times> duration) list \<Rightarrow> speaker_outcome option" where
  "await_outcome key g wakeups =
     (if \<not> check_sent key g then Some (or_unknown (outcome_for key g)) else await_loop key wakeups)"

definition send_enroll :: "bytes \<Rightarrow> 'e speaker_gate \<Rightarrow> 'e speaker_gate" where
  "send_enroll audio g = (if audio = [] then g else gate_send (EnrollMsg audio) g)"

text \<open>\<open>None\<close> where \<open>cur.buf[cur.pre..]\<close> is out of range.\<close>

definition enroll_utterance :: "nat \<Rightarrow> 'e speaker_gate \<Rightarrow> 'e speaker_gate option" where
  "enroll_utterance key g =
     (let feed = gt_feed g; live = (case fd_cur feed of Some cur \<Rightarrow> cu_key cur = key | None \<Rightarrow> False) in
      if gt_enrolled g then Some g
      else if live then
        (let cur = the (fd_cur feed)
         in if length (cu_buf cur) < cu_pre cur then None
            else Some (send_enroll (drop (cu_pre cur) (cu_buf cur)) g))
      else
        (case find (\<lambda>(k, _). k = key) (fd_ended feed) of
           None \<Rightarrow> Some g
         | Some (k, audio) \<Rightarrow>
             Some (send_enroll audio (g\<lparr>gt_feed := feed\<lparr>fd_ended := remove1 (k, audio) (fd_ended feed)\<rparr>\<rparr>))))"

section \<open>The verifier task\<close>

definition verifier_idle :: "'e gate_verifier \<Rightarrow> 'e speaker_gate \<Rightarrow> 'e speaker_gate" where
  "verifier_idle v g = g\<lparr>gt_verifier := v\<lparr>vf_work := None\<rparr>\<rparr>"

definition superseded :: "gate_check \<Rightarrow> 'e speaker_gate \<Rightarrow> bool" where
  "superseded c g =
     (case map_of (bk_reopened_after (gt_book g)) (ck_key c) of Some a \<Rightarrow> ck_attempt c \<le> a | None \<Rightarrow> False)"

definition verdict_of :: "gate_check \<Rightarrow> speaker_outcome \<Rightarrow> bool \<Rightarrow> string option \<Rightarrow> verdict" where
  "verdict_of c outcome timed_out reason =
     \<lparr>vd_key = ck_key c, vd_outcome = outcome, vd_timed_out = timed_out, vd_reason = reason,
      vd_recheck = ck_recheck c, vd_window = ck_window c\<rparr>"

text \<open>The next message; the inner \<open>None\<close> of the book-keeping is the \<open>debug_assert!\<close>.\<close>

definition take_check :: "gate_check \<Rightarrow> 'e speaker_gate \<Rightarrow> 'e speaker_gate option" where
  "take_check c g =
     (let v = gt_verifier g; short = ck_speech_bytes c < min_check_bytes g;
          working = (\<lambda>w. Some (g\<lparr>gt_verifier := v\<lparr>vf_work := Some w\<rparr>\<rparr>))
      in if superseded c g then
           (if vf_reference v = None \<or> short then Some (g\<lparr>gt_superseded := gt_superseded g + 1\<rparr>) else None)
         else if vf_reference v = None then working (Storing (verdict_of c Unknown False (Some UNKNOWN_NOT_ENROLLED)))
         else if short then working (Storing (verdict_of c Unknown False (Some UNKNOWN_SHORT)))
         else working (Embedding c))"

definition verifier_take :: "'e speaker_gate \<Rightarrow> 'e speaker_gate option" where
  "verifier_take g =
     (case (vf_work (gt_verifier g), gt_tx g) of
        (None, msg # rest) \<Rightarrow>
          (let pending = gt_backlog g - 1; v = gt_verifier g;
               g = g\<lparr>gt_tx := rest, gt_backlog := pending,
                     gt_backlog_logged := (gt_backlog_logged g \<and> pending \<noteq> 0)\<rparr>
           in case msg of
                ResetMsg \<Rightarrow>
                  Some (verifier_idle (v\<lparr>vf_reference := None, vf_enroll_pcm := []\<rparr>) (g\<lparr>gt_enrolled := False\<rparr>))
              | EnrollMsg audio \<Rightarrow>
                  if vf_reference v \<noteq> None then Some g
                  else
                    (let v = v\<lparr>vf_enroll_pcm := vf_enroll_pcm v @ audio\<rparr>
                     in if length (vf_enroll_pcm v) < sg_enroll_speech_ms (gt_cfg g) * GATE_BYTES_PER_MS
                        then Some (g\<lparr>gt_verifier := v\<rparr>)
                        else Some (g\<lparr>gt_verifier := v\<lparr>vf_work := Some Enrolling\<rparr>\<rparr>))
              | CheckMsg c \<Rightarrow> take_check c g)
      | _ \<Rightarrow> Some g)"

text \<open>What \<open>embed_bounded\<close> returns.\<close>

datatype 'e embed_result = Embedded "'e list" | NoEmbedding | EmbedTimeout nat | EmbedError

definition finish_enroll :: "'e embed_result \<Rightarrow> 'e speaker_gate \<Rightarrow> 'e speaker_gate" where
  "finish_enroll r g =
     (let v = gt_verifier g; max = sg_enroll_speech_ms (gt_cfg g) * GATE_BYTES_PER_MS * 2
      in case r of
           Embedded e \<Rightarrow> verifier_idle (v\<lparr>vf_reference := Some e, vf_enroll_pcm := []\<rparr>) (g\<lparr>gt_enrolled := True\<rparr>)
         | NoEmbedding \<Rightarrow> verifier_idle (v\<lparr>vf_enroll_pcm := []\<rparr>) g
         | EmbedTimeout _ \<Rightarrow>
             verifier_idle (v\<lparr>vf_enroll_pcm := keep_last max (vf_enroll_pcm v)\<rparr>) (gate_warn WarnEnrollTimeout g)
         | EmbedError \<Rightarrow> verifier_idle (v\<lparr>vf_enroll_pcm := []\<rparr>) (gate_warn WarnEnrollFailed g))"

text \<open>The score of a check, where there is one.\<close>

definition score_of :: "('d, 'e) gate_floats \<Rightarrow> 'e embed_result \<Rightarrow> 'e speaker_gate \<Rightarrow> 'e option" where
  "score_of gf r g =
     (case (r, vf_reference (gt_verifier g)) of
        (Embedded e, Some reference) \<Rightarrow> cosine gf reference e
      | _ \<Rightarrow> None)"

definition judge :: "('d, 'e) gate_floats \<Rightarrow> gate_check \<Rightarrow> 'e embed_result \<Rightarrow> 'e speaker_gate \<Rightarrow>
    speaker_outcome \<times> bool \<times> string option" where
  "judge gf c r g =
     (case r of
        EmbedTimeout _ \<Rightarrow> (Unknown, True, Some UNKNOWN_TIMEOUT)
      | EmbedError \<Rightarrow> (Unknown, False, Some UNKNOWN_ERROR)
      | _ \<Rightarrow>
          (case score_of gf r g of
             None \<Rightarrow> (Unknown, False, Some UNKNOWN_NO_EMBEDDING)
           | Some score \<Rightarrow>
               (if fl_le (gf_f32 gf) (sg_threshold (gt_cfg g)) score then (Caller, False, None)
                else (Other, False, None))))"

definition verifier_embedded :: "('d, 'e) gate_floats \<Rightarrow> 'e embed_result \<Rightarrow> 'e speaker_gate \<Rightarrow> 'e speaker_gate" where
  "verifier_embedded gf r g =
     (case vf_work (gt_verifier g) of
        Some Enrolling \<Rightarrow> finish_enroll r g
      | Some (Embedding c) \<Rightarrow>
          (let (outcome, timed_out, reason) = judge gf c r g;
               g = (case r of EmbedTimeout elapsed \<Rightarrow> gate_warn (WarnVerifyTimeout (ck_key c) elapsed) g | _ \<Rightarrow> g)
           in g\<lparr>gt_verifier := (gt_verifier g)\<lparr>vf_work := Some (Storing (verdict_of c outcome timed_out reason))\<rparr>\<rparr>)
      | _ \<Rightarrow> g)"

definition note_window :: "nat \<Rightarrow> nat \<Rightarrow> (nat \<times> nat) list \<Rightarrow> (nat \<times> nat) list" where
  "note_window key window q =
     (case map_of q key of
        Some w \<Rightarrow> AList.update key (max w window) q
      | None \<Rightarrow> push_capped (key, window) q)"

definition store_verdict :: "verdict \<Rightarrow> gate_book \<Rightarrow> gate_book" where
  "store_verdict v book =
     (let key = vd_key v; outcome = vd_outcome v;
          book = (if vd_recheck v then
                    book\<lparr>bk_verdicts := (if outcome = Caller then push_capped (key, outcome) (bk_verdicts book)
                                         else bk_verdicts book),
                         bk_rechecks_in_flight := filter (\<lambda>k. k \<noteq> key) (bk_rechecks_in_flight book)\<rparr>
                  else
                    book\<lparr>bk_verdicts := push_capped (key, outcome) (bk_verdicts book),
                         bk_reasons := (case vd_reason v of
                                          Some r \<Rightarrow> push_capped (key, r) (bk_reasons book)
                                        | None \<Rightarrow> bk_reasons book)\<rparr>)
      in book\<lparr>bk_windows_scored := note_window key (vd_window v) (bk_windows_scored book)\<rparr>)"

text \<open>The store and the call of \<open>on_verdict\<close>.\<close>

definition verifier_store :: "'e speaker_gate \<Rightarrow> verdict option \<times> 'e speaker_gate" where
  "verifier_store g =
     (case vf_work (gt_verifier g) of
        Some (Storing v) \<Rightarrow>
          (Some v, verifier_idle (gt_verifier g) (g\<lparr>gt_book := store_verdict v (gt_book g)\<rparr>))
      | _ \<Rightarrow> (None, g))"

end
