(* ===== verification/Speaker_Gate_Run.thy ===== *)
theory Speaker_Gate_Run
  imports Speaker_Gate "HOL-Library.Multiset"
begin

text \<open>
  Runs of the speaker gate: the frame path, the agent's calls and the verifier task in any
  interleaving, and what holds of every run.  Utterance keys come from a counter of the agent: a
  start of speech opens the next key or continues the newest one.
\<close>

section \<open>Steps\<close>

datatype 'e gate_op =
    SpeechStart bool bytes
  | GateFrame bytes
  | SpeechEnd
  | HoldForRecheck nat nat
  | CloseRecheck nat
  | SetPending nat nat
  | TakePending nat
  | EnrollFinal nat
  | SetPolicy "speaker_mismatch_action option" "speaker_gate_barge_in option"
  | Enable
  | LoadTimedOut
  | LateLoadReturned
  | FinishLoad bool
  | Disable
  | CutLive
  | ResetEnrollment
  | NoteStale
  | VerifierTake
  | VerifierEmbedded "'e embed_result"
  | VerifierStore

datatype gate_event = Asked gate_check | Superseded gate_check | Measured gate_check bool | Answered verdict

definition channel_checks :: "gate_msg list \<Rightarrow> gate_check list" where
  "channel_checks tx = List.map_filter (\<lambda>m. case m of CheckMsg c \<Rightarrow> Some c | _ \<Rightarrow> None) tx"

definition asked :: "'e speaker_gate \<Rightarrow> 'e speaker_gate \<Rightarrow> gate_event list" where
  "asked g g' = map Asked (channel_checks (drop (length (gt_tx g)) (gt_tx g')))"

definition take_events :: "'e speaker_gate \<Rightarrow> gate_event list" where
  "take_events g =
     (case (vf_work (gt_verifier g), gt_tx g) of
        (None, CheckMsg c # _) \<Rightarrow> if superseded c g then [Superseded c] else []
      | _ \<Rightarrow> [])"

definition embed_events :: "('d, 'e) gate_floats \<Rightarrow> 'e embed_result \<Rightarrow> 'e speaker_gate \<Rightarrow> gate_event list" where
  "embed_events gf r g =
     (case (vf_work (gt_verifier g), score_of gf r g) of
        (Some (Embedding c), Some score) \<Rightarrow> [Measured c (fl_le (gf_f32 gf) (sg_threshold (gt_cfg g)) score)]
      | _ \<Rightarrow> [])"

fun gate_act :: "'e gate_op \<Rightarrow> 'e speaker_gate \<Rightarrow> 'e speaker_gate option" where
  "gate_act (GateFrame frame) g = gate_push_frame frame g"
| "gate_act SpeechEnd g = end_locked g"
| "gate_act (HoldForRecheck key epoch) g = Some (snd (hold_for_recheck key epoch g))"
| "gate_act (CloseRecheck key) g = Some (close_recheck key g)"
| "gate_act (SetPending key epoch) g = Some (set_pending_barge key epoch g)"
| "gate_act (TakePending key) g = Some (snd (take_pending_barge key g))"
| "gate_act (EnrollFinal key) g = enroll_utterance key g"
| "gate_act (SetPolicy m b) g = Some (set_policy m b g)"
| "gate_act Enable g = Some (snd (set_enabled g))"
| "gate_act LoadTimedOut g = Some (load_timed_out g)"
| "gate_act LateLoadReturned g = Some (snd (late_load_returned g))"
| "gate_act (FinishLoad ok) g = Some (finish_load ok g)"
| "gate_act Disable g = Some (set_disabled g)"
| "gate_act CutLive g = Some (snd (cut_live g))"
| "gate_act ResetEnrollment g = Some (gate_reset g)"
| "gate_act NoteStale g = Some (note_stale_verdict g)"
| "gate_act _ g = Some g"

fun gate_step :: "('d, 'e) gate_floats \<Rightarrow> 'e speaker_gate \<times> nat \<Rightarrow> 'e gate_op \<Rightarrow>
    (('e speaker_gate \<times> nat) \<times> gate_event list) option" where
  "gate_step gf (g, k) (SpeechStart new frame) =
     (let k = (if new then k + 1 else k)
      in map_option (\<lambda>g'. ((g', k), asked g g')) (gate_begin k frame g))"
| "gate_step gf (g, k) VerifierTake = map_option (\<lambda>g'. ((g', k), take_events g)) (verifier_take g)"
| "gate_step gf (g, k) (VerifierEmbedded r) = Some ((verifier_embedded gf r g, k), embed_events gf r g)"
| "gate_step gf (g, k) VerifierStore =
     (case verifier_store g of (v, g') \<Rightarrow> Some ((g', k), map Answered (case v of Some v \<Rightarrow> [v] | None \<Rightarrow> [])))"
| "gate_step gf (g, k) op = map_option (\<lambda>g'. ((g', k), asked g g')) (gate_act op g)"

section \<open>What is pending\<close>

text \<open>A check by utterance key, window and kind; the answers come in the order of the questions.\<close>

definition check_id :: "gate_check \<Rightarrow> nat \<times> nat \<times> bool" where
  "check_id c = (ck_key c, ck_window c, ck_recheck c)"

definition verdict_id :: "verdict \<Rightarrow> nat \<times> nat \<times> bool" where
  "verdict_id v = (vd_key v, vd_window v, vd_recheck v)"

definition working_ids :: "gate_work option \<Rightarrow> (nat \<times> nat \<times> bool) list" where
  "working_ids w =
     (case w of
        Some (Embedding c) \<Rightarrow> [check_id c] | Some (Storing v) \<Rightarrow> [verdict_id v] | _ \<Rightarrow> [])"

definition pending_ids :: "'e speaker_gate \<Rightarrow> (nat \<times> nat \<times> bool) list" where
  "pending_ids g = working_ids (vf_work (gt_verifier g)) @ map check_id (channel_checks (gt_tx g))"

fun account :: "(nat \<times> nat \<times> bool) list \<Rightarrow> gate_event list \<Rightarrow> (nat \<times> nat \<times> bool) list option" where
  "account q [] = Some q"
| "account q (Asked c # es) = account (q @ [check_id c]) es"
| "account q (Superseded c # es) = (case q of i # q \<Rightarrow> if i = check_id c then account q es else None | [] \<Rightarrow> None)"
| "account q (Answered v # es) = (case q of i # q \<Rightarrow> if i = verdict_id v then account q es else None | [] \<Rightarrow> None)"
| "account q (Measured c b # es) = account q es"

lemma account_append: "account q (xs @ ys) = Option.bind (account q xs) (\<lambda>q. account q ys)"
  by (induction q xs rule: account.induct) (auto split: list.splits)

lemma account_asked: "account q (map Asked cs) = Some (q @ map check_id cs)"
  by (induction cs arbitrary: q) auto

lemma channel_checks_simps [simp]:
  "channel_checks [] = []"
  "channel_checks (m # tx) = (case m of CheckMsg c \<Rightarrow> [c] | _ \<Rightarrow> []) @ channel_checks tx"
  "channel_checks (xs @ ys) = channel_checks xs @ channel_checks ys"
  by (simp_all add: channel_checks_def map_filter_simps split: gate_msg.split)
     (simp add: List.map_filter_def)

section \<open>The invariant\<close>

text \<open>A check whose verdict will be \<open>short\<close> or \<open>not_enrolled\<close>, sent at the end of a short utterance.\<close>

definition quiet :: "'e speaker_gate \<Rightarrow> gate_check \<Rightarrow> bool" where
  "quiet g c \<longleftrightarrow> ck_speech_bytes c < min_check_bytes g \<and> \<not> ck_recheck c"

definition all_quiet :: "'e speaker_gate \<Rightarrow> nat \<Rightarrow> bool" where
  "all_quiet g k \<longleftrightarrow> (\<forall>c \<in> set (channel_checks (gt_tx g)). ck_key c = k \<longrightarrow> quiet g c)"

definition keys_ok :: "'e speaker_gate \<Rightarrow> nat \<Rightarrow> bool" where
  "keys_ok g k \<longleftrightarrow>
     sorted_wrt (<) (bk_sent (gt_book g)) \<and> (\<forall>i \<in> set (bk_sent (gt_book g)). i \<le> k) \<and>
     (\<forall>c \<in> set (channel_checks (gt_tx g)). ck_key c \<le> k \<and> (ck_key c = k \<longrightarrow> check_sent k g)) \<and>
     (\<forall>e \<in> set (fd_ended (gt_feed g)). fst e \<le> k \<and> (fst e = k \<longrightarrow> check_sent k g))"

definition cur_ok :: "'e speaker_gate \<Rightarrow> nat \<Rightarrow> bool" where
  "cur_ok g k \<longleftrightarrow>
     (case fd_cur (gt_feed g) of
        None \<Rightarrow> True
      | Some c \<Rightarrow> cu_key c = k \<and> cu_pre c \<le> length (cu_buf c) \<and> k \<notin> fst ` set (fd_shorts (gt_feed g)) \<and>
          (if cu_sent c then check_sent k g else all_quiet g k))"

definition shorts_ok :: "'e speaker_gate \<Rightarrow> bool" where
  "shorts_ok g \<longleftrightarrow>
     distinct (map fst (fd_shorts (gt_feed g))) \<and> (\<forall>e \<in> set (fd_shorts (gt_feed g)). all_quiet g (fst e))"

definition reopened_ok :: "'e speaker_gate \<Rightarrow> bool" where
  "reopened_ok g \<longleftrightarrow>
     (\<forall>(i, a) \<in> set (bk_reopened_after (gt_book g)). a \<le> fd_attempts (gt_feed g) \<and>
        (\<forall>c \<in> set (channel_checks (gt_tx g)). ck_key c = i \<and> ck_attempt c \<le> a \<longrightarrow> quiet g c))"

definition flight_ok :: "'e speaker_gate \<Rightarrow> bool" where
  "flight_ok g \<longleftrightarrow>
     (\<forall>i \<in> set (bk_rechecks_in_flight (gt_book g)). \<exists>w. (i, w, True) \<in> set (pending_ids g))"

definition gate_ok :: "'e speaker_gate \<times> nat \<Rightarrow> bool" where
  "gate_ok s \<longleftrightarrow>
     (case s of (g, k) \<Rightarrow> keys_ok g k \<and> cur_ok g k \<and> shorts_ok g \<and> reopened_ok g \<and> flight_ok g)"

lemmas gate_ok_defs = gate_ok_def keys_ok_def cur_ok_def shorts_ok_def reopened_ok_def flight_ok_def
  all_quiet_def quiet_def min_check_bytes_def check_sent_def pending_ids_def

lemma gate_warn_fields [simp]:
  "gt_cfg (gate_warn w g) = gt_cfg g" "gt_tx (gate_warn w g) = gt_tx g" "gt_book (gate_warn w g) = gt_book g"
  "gt_feed (gate_warn w g) = gt_feed g" "gt_verifier (gate_warn w g) = gt_verifier g"
  "gt_enrolled (gate_warn w g) = gt_enrolled g" "gt_runtime (gate_warn w g) = gt_runtime g"
  by (simp_all add: gate_warn_def)

lemma gate_send_fields [simp]:
  "gt_cfg (gate_send m g) = gt_cfg g" "gt_tx (gate_send m g) = gt_tx g @ [m]" "gt_book (gate_send m g) = gt_book g"
  "gt_feed (gate_send m g) = gt_feed g" "gt_verifier (gate_send m g) = gt_verifier g"
  "gt_enrolled (gate_send m g) = gt_enrolled g" "gt_runtime (gate_send m g) = gt_runtime g"
  by (simp_all add: gate_send_def Let_def)

lemma mark_sent_fields [simp]:
  "gt_cfg (mark_sent k g) = gt_cfg g" "gt_tx (mark_sent k g) = gt_tx g" "gt_feed (mark_sent k g) = gt_feed g"
  "gt_verifier (mark_sent k g) = gt_verifier g" "gt_enrolled (mark_sent k g) = gt_enrolled g"
  "gt_runtime (mark_sent k g) = gt_runtime g"
  "bk_reopened_after (gt_book (mark_sent k g)) = bk_reopened_after (gt_book g)"
  "bk_rechecks_in_flight (gt_book (mark_sent k g)) = bk_rechecks_in_flight (gt_book g)"
  "bk_closed (gt_book (mark_sent k g)) = bk_closed (gt_book g)"
  "bk_verdicts (gt_book (mark_sent k g)) = bk_verdicts (gt_book g)"
  by (simp_all add: mark_sent_def)

lemma set_push_capped: "x \<in> set (push_capped v q) \<Longrightarrow> x = v \<or> x \<in> set q"
  by (auto simp: push_capped_def dest: set_keep_last)

lemma push_capped_last: "v \<in> set (push_capped v q)"
  by (simp add: push_capped_def keep_last_def BOOK_CAP_def)

lemma length_push_capped: "length (push_capped v q) \<le> BOOK_CAP"
  by (simp add: push_capped_def)

text \<open>The newest key is in the book of sent checks once it is marked, whatever was evicted.\<close>

lemma mark_sent_book:
  assumes "sorted_wrt (<) (bk_sent (gt_book g))" and "\<forall>i \<in> set (bk_sent (gt_book g)). i \<le> k"
  shows "check_sent k (mark_sent k g)" "sorted_wrt (<) (bk_sent (gt_book (mark_sent k g)))"
    "\<forall>i \<in> set (bk_sent (gt_book (mark_sent k g))). i \<le> k"
proof -
  have new: "sorted_wrt (<) (push_capped k (bk_sent (gt_book g)))" if "k \<notin> set (bk_sent (gt_book g))"
  proof -
    have "\<forall>i \<in> set (bk_sent (gt_book g)). i < k" using assms(2) that by (metis le_neq_implies_less)
    then have "sorted_wrt (<) (bk_sent (gt_book g) @ [k])" using assms(1) by (simp add: sorted_wrt_append)
    then show ?thesis by (simp add: push_capped_def keep_last_def sorted_wrt_drop del: drop_append)
  qed
  show "check_sent k (mark_sent k g)" by (simp add: mark_sent_def check_sent_def push_capped_last)
  show "sorted_wrt (<) (bk_sent (gt_book (mark_sent k g)))"
    using assms(1) new by (simp add: mark_sent_def check_sent_def)
  show "\<forall>i \<in> set (bk_sent (gt_book (mark_sent k g))). i \<le> k"
    using assms(2) by (auto simp: mark_sent_def dest: set_push_capped)
qed

section \<open>The frame path keeps the invariant\<close>

definition extends :: "'e speaker_gate \<Rightarrow> 'e speaker_gate \<Rightarrow> bool" where
  "extends g g' \<longleftrightarrow> (\<exists>tx. gt_tx g' = gt_tx g @ tx) \<and> gt_verifier g' = gt_verifier g \<and> gt_cfg g' = gt_cfg g \<and>
     set (bk_verdicts (gt_book g')) \<subseteq> set (bk_verdicts (gt_book g))"

lemma extends_refl [simp]: "extends g g"
  by (simp add: extends_def)

lemma extends_trans: "extends g1 g2 \<Longrightarrow> extends g2 g3 \<Longrightarrow> extends g1 g3"
  by (auto simp: extends_def)

lemma extends_account: "extends g g' \<Longrightarrow> account (pending_ids g) (asked g g') = Some (pending_ids g')"
  by (auto simp: extends_def asked_def account_asked pending_ids_def)

text \<open>A change outside the fields the invariant reads.\<close>

definition same_core :: "'e speaker_gate \<Rightarrow> 'e speaker_gate \<Rightarrow> bool" where
  "same_core g g' \<longleftrightarrow>
     gt_cfg g' = gt_cfg g \<and> (\<exists>tx. gt_tx g' = gt_tx g @ tx \<and> channel_checks tx = []) \<and>
     gt_verifier g' = gt_verifier g \<and>
     bk_sent (gt_book g') = bk_sent (gt_book g) \<and> bk_verdicts (gt_book g') = bk_verdicts (gt_book g) \<and>
     bk_rechecks_in_flight (gt_book g') = bk_rechecks_in_flight (gt_book g) \<and>
     bk_reopened_after (gt_book g') = bk_reopened_after (gt_book g) \<and>
     fd_cur (gt_feed g') = fd_cur (gt_feed g) \<and> fd_shorts (gt_feed g') = fd_shorts (gt_feed g) \<and>
     fd_ended (gt_feed g') = fd_ended (gt_feed g) \<and> fd_attempts (gt_feed g') = fd_attempts (gt_feed g)"

lemma same_core_ok: "same_core g g' \<Longrightarrow> gate_ok (g, k) \<Longrightarrow> gate_ok (g', k)"
  unfolding same_core_def gate_ok_defs by (clarsimp split: option.splits)

lemma same_core_extends: "same_core g g' \<Longrightarrow> extends g g'"
  by (auto simp: same_core_def extends_def)

lemma collect_fields [simp]:
  "cu_key (collect frame g c) = cu_key c" "cu_pre (collect frame g c) = cu_pre c"
  "cu_sent (collect frame g c) = cu_sent c" "cu_windows_sent (collect frame g c) = cu_windows_sent c"
  "cu_reopened (collect frame g c) = cu_reopened c" "cu_rechecks_closed (collect frame g c) = cu_rechecks_closed c"
  "cu_speech_seen (collect frame g c) = cu_speech_seen c + length frame"
  by (simp_all add: collect_def Let_def)

lemma collect_longer: "length (cu_buf c) \<le> length (cu_buf (collect frame g c))"
  by (simp add: collect_def Let_def)

lemma trim_fields [simp]:
  "cu_key (trim_window g c) = cu_key c" "cu_sent (trim_window g c) = cu_sent c"
  "cu_windows_sent (trim_window g c) = cu_windows_sent c" "cu_reopened (trim_window g c) = cu_reopened c"
  "cu_speech_seen (trim_window g c) = cu_speech_seen c"
  by (simp_all add: trim_window_def)

lemma trim_pre: "cu_pre c \<le> length (cu_buf c) \<Longrightarrow> cu_pre (trim_window g c) \<le> length (cu_buf (trim_window g c))"
  by (simp add: trim_window_def)

text \<open>A check of the newest key that goes out with the next attempt number.\<close>

definition sends_check :: "nat \<Rightarrow> gate_check \<Rightarrow> 'e speaker_gate \<Rightarrow> 'e speaker_gate \<Rightarrow> bool" where
  "sends_check k c g g' \<longleftrightarrow>
     gt_cfg g' = gt_cfg g \<and> gt_tx g' = gt_tx g @ [CheckMsg c] \<and> gt_verifier g' = gt_verifier g \<and>
     ck_key c = k \<and> ck_attempt c = fd_attempts (gt_feed g) + 1 \<and> fd_attempts (gt_feed g') = ck_attempt c \<and>
     bk_sent (gt_book g') = bk_sent (gt_book (mark_sent k g)) \<and>
     bk_reopened_after (gt_book g') = bk_reopened_after (gt_book g) \<and> bk_verdicts (gt_book g') = bk_verdicts (gt_book g) \<and>
     set (bk_rechecks_in_flight (gt_book g')) \<subseteq>
       set (bk_rechecks_in_flight (gt_book g)) \<union> (if ck_recheck c then {k} else {}) \<and>
     fd_ended (gt_feed g') = fd_ended (gt_feed g)"

lemma sends_check_ok:
  assumes "gate_ok (g, k)" and "sends_check k c g g'"
  shows "keys_ok g' k" "reopened_ok g'" "flight_ok g'" "extends g g'" "check_sent k g'"
    "\<And>i. i \<noteq> k \<Longrightarrow> all_quiet g' i = all_quiet g i"
    "all_quiet g' k \<longleftrightarrow> all_quiet g k \<and> quiet g c"
proof -
  have k: "keys_ok g k" and r: "reopened_ok g" and f: "flight_ok g" using assms(1) by (simp_all add: gate_ok_def)
  have sorted: "sorted_wrt (<) (bk_sent (gt_book g))" "\<forall>i \<in> set (bk_sent (gt_book g)). i \<le> k"
    using k by (simp_all add: keys_ok_def)
  note m = mark_sent_book [OF sorted]
  have sent: "check_sent k g'" using m(1) assms(2) by (simp add: sends_check_def check_sent_def)
  show "keys_ok g' k"
    using k m(2,3) sent assms(2) by (auto simp: keys_ok_def sends_check_def)
  show "reopened_ok g'"
    using r assms(2) by (fastforce simp: reopened_ok_def sends_check_def quiet_def min_check_bytes_def)
  show "flight_ok g'"
    using f assms(2) by (fastforce simp: flight_ok_def sends_check_def pending_ids_def check_id_def split: if_splits)
  show "extends g g'" using assms(2) by (auto simp: sends_check_def extends_def)
  show "check_sent k g'" by (fact sent)
  show "\<And>i. i \<noteq> k \<Longrightarrow> all_quiet g' i = all_quiet g i"
    using assms(2) by (auto simp: all_quiet_def quiet_def min_check_bytes_def sends_check_def)
  show "all_quiet g' k \<longleftrightarrow> all_quiet g k \<and> quiet g c"
    using assms(2) by (auto simp: all_quiet_def quiet_def min_check_bytes_def sends_check_def)
qed

lemma push_frame_ok:
  assumes "gate_ok (g, k)"
  shows "\<exists>g'. gate_push_frame frame g = Some g' \<and> gate_ok (g', k) \<and> extends g g'"
proof (cases "fd_cur (gt_feed g)")
  case None
  let ?g = "g\<lparr>gt_feed := (gt_feed g)\<lparr>fd_ring := keep_last (PRE_ROLL_MS * GATE_BYTES_PER_MS) (fd_ring (gt_feed g) @ frame)\<rparr>\<rparr>"
  have "same_core g ?g" by (simp add: same_core_def None)
  with same_core_ok [OF this assms] same_core_extends [OF this] None show ?thesis
    by (simp add: gate_push_frame_def Let_def)
next
  case (Some cur)
  have c: "cu_key cur = k" "cu_pre cur \<le> length (cu_buf cur)" "k \<notin> fst ` set (fd_shorts (gt_feed g))"
      "cu_sent cur \<Longrightarrow> check_sent k g" "\<not> cu_sent cur \<Longrightarrow> all_quiet g k" and short: "shorts_ok g"
    using assms Some by (auto simp: gate_ok_def cur_ok_def split: if_splits)
  let ?cur = "collect frame g cur"
  have pre: "cu_pre ?cur \<le> length (cu_buf ?cur)" using c(2) collect_longer [of cur frame g] by simp
  have shorts: "shorts_ok g'" if "sends_check k ck g g'" and "fd_shorts (gt_feed g') = fd_shorts (gt_feed g)" for ck g'
  proof -
    have "all_quiet g' (fst e)" if e: "e \<in> set (fd_shorts (gt_feed g))" for e
    proof -
      have "fst e \<noteq> k" using c(3) e by (metis image_eqI)
      with sends_check_ok(6) [OF assms \<open>sends_check k ck g g'\<close>] short e show ?thesis
        by (simp add: shorts_ok_def)
    qed
    with short that(2) show ?thesis by (simp add: shorts_ok_def)
  qed
  have sending: "gate_ok (g', k) \<and> extends g g'"
    if "sends_check k ck g g'" "fd_shorts (gt_feed g') = fd_shorts (gt_feed g)"
      "fd_cur (gt_feed g') = Some cur'" "cu_key cur' = k" "cu_pre cur' \<le> length (cu_buf cur')" "cu_sent cur'"
    for ck g' cur'
    using sends_check_ok [OF assms that(1)] shorts [OF that(1,2)] that c(3)
    by (simp add: gate_ok_def cur_ok_def)
  consider "first_window_due g ?cur" | "\<not> first_window_due g ?cur" "recheck_window_due g ?cur"
    | "\<not> first_window_due g ?cur" "\<not> recheck_window_due g ?cur" by blast
  then show ?thesis
  proof cases
    case 1
    let ?check = "window_check g ?cur False"
    let ?sent = "?cur\<lparr>cu_sent := True, cu_windows_sent := cu_windows_sent ?cur + 1\<rparr>"
    let ?feed = "(gt_feed g)\<lparr>fd_attempts := fd_attempts (gt_feed g) + 1, fd_cur := Some (trim_window g ?sent)\<rparr>"
    let ?g = "gate_send (CheckMsg ?check) (mark_sent k (g\<lparr>gt_feed := ?feed\<rparr>))"
    have e: "gate_push_frame frame g = Some ?g"
      using 1 c(1,2) Some by (simp add: gate_push_frame_def Let_def)
    have "sends_check k ?check g ?g"
      by (simp add: sends_check_def window_check_def c(1)) (simp add: mark_sent_def check_sent_def)
    then show ?thesis
      unfolding e using sending [of ?check ?g "trim_window g ?sent"] trim_pre [of ?sent g] pre c(1) by simp
  next
    case 2
    let ?check = "window_check g ?cur True"
    let ?sent = "?cur\<lparr>cu_windows_sent := cu_windows_sent ?cur + 1\<rparr>"
    let ?feed = "(gt_feed g)\<lparr>fd_attempts := fd_attempts (gt_feed g) + 1, fd_cur := Some (trim_window g ?sent)\<rparr>"
    let ?book = "(gt_book g)\<lparr>bk_rechecks_in_flight := push_capped k (bk_rechecks_in_flight (gt_book g))\<rparr>"
    let ?g = "gate_send (CheckMsg ?check) (g\<lparr>gt_book := ?book, gt_feed := ?feed\<rparr>)"
    have e: "gate_push_frame frame g = Some ?g"
      using 2 c(1,2) Some by (simp add: gate_push_frame_def Let_def)
    have sent: "cu_sent cur" using 2 by (simp add: recheck_window_due_def)
    then have "mark_sent k g = g" using c(4) by (simp add: mark_sent_def)
    then have "sends_check k ?check g ?g"
      by (auto simp: sends_check_def window_check_def c(1) dest: set_push_capped)
    then show ?thesis
      unfolding e using sending [of ?check ?g "trim_window g ?sent"] trim_pre [of ?sent g] pre c(1) sent by simp
  next
    case 3
    let ?g = "g\<lparr>gt_feed := (gt_feed g)\<lparr>fd_cur := Some (trim_window g ?cur)\<rparr>\<rparr>"
    have e: "gate_push_frame frame g = Some ?g"
      using 3 c(1,2) Some by (simp add: gate_push_frame_def Let_def)
    have "gate_ok (?g, k)"
      using assms Some trim_pre [OF pre] c unfolding gate_ok_defs by auto
    then show ?thesis unfolding e by (simp add: extends_def)
  qed
qed

lemma ended_ok:
  assumes "gate_ok (g, k)" and "check_sent k g"
  shows "gate_ok (g\<lparr>gt_feed := (gt_feed g)\<lparr>fd_ended := keep_last n (fd_ended (gt_feed g) @ [(k, audio)])\<rparr>\<rparr>, k)"
proof -
  have "fst e \<le> k \<and> (fst e = k \<longrightarrow> check_sent k g)"
    if "e \<in> set (keep_last n (fd_ended (gt_feed g) @ [(k, audio)]))" for e
    using set_keep_last [OF that] assms by (auto simp: gate_ok_def keys_ok_def)
  then show ?thesis using assms by (auto simp: gate_ok_defs split: option.splits)
qed

lemma keep_for_enrollment_ok:
  "gate_ok (g, k) \<Longrightarrow> check_sent k g \<Longrightarrow> cu_key c = k \<Longrightarrow> gate_ok (keep_for_enrollment c g, k)"
  by (simp add: keep_for_enrollment_def ended_ok)

lemma keep_for_enrollment_fields [simp]:
  "gt_tx (keep_for_enrollment c g) = gt_tx g" "gt_verifier (keep_for_enrollment c g) = gt_verifier g"
  "gt_cfg (keep_for_enrollment c g) = gt_cfg g"
  "fd_cur (gt_feed (keep_for_enrollment c g)) = fd_cur (gt_feed g)" "gt_book (keep_for_enrollment c g) = gt_book g"
  by (simp_all add: keep_for_enrollment_def)

lemma note_short_fields [simp]:
  "fd_cur (note_short g c n feed) = fd_cur feed" "fd_ended (note_short g c n feed) = fd_ended feed"
  "fd_attempts (note_short g c n feed) = fd_attempts feed"
  by (simp_all add: note_short_def)

lemma distinct_keep_last: "distinct (map fst xs) \<Longrightarrow> distinct (map fst (keep_last n xs))"
  by (simp add: keep_last_def flip: drop_map)

text \<open>\<open>SpeechEnd\<close> never panics and leaves no live utterance.\<close>

lemma end_locked_ok:
  assumes "gate_ok (g, k)"
  shows "\<exists>g'. end_locked g = Some g' \<and> gate_ok (g', k) \<and> extends g g' \<and> fd_cur (gt_feed g') = None"
proof (cases "fd_cur (gt_feed g)")
  case None
  with assms show ?thesis by (simp add: end_locked_def)
next
  case (Some cur)
  have c: "cu_key cur = k" "cu_pre cur \<le> length (cu_buf cur)" "k \<notin> fst ` set (fd_shorts (gt_feed g))"
      "cu_sent cur \<Longrightarrow> check_sent k g" "\<not> cu_sent cur \<Longrightarrow> all_quiet g k" and short: "shorts_ok g"
    using assms Some by (auto simp: gate_ok_def cur_ok_def split: if_splits)
  let ?g0 = "g\<lparr>gt_feed := (gt_feed g)\<lparr>fd_cur := None\<rparr>\<rparr>"
  have ok0: "gate_ok (?g0, k)" using assms by (auto simp: gate_ok_defs)
  show ?thesis
  proof (cases "cu_sent cur")
    case True
    let ?g1 = "if sg_recheck_on_other (gt_cfg ?g0) \<and> outcome_for k ?g0 = Some Other \<and> \<not> recheck_in_flight k ?g0
      then ?g0\<lparr>gt_feed := (gt_feed ?g0)\<lparr>fd_pending_barge := bt_remove k (fd_pending_barge (gt_feed ?g0))\<rparr>\<rparr> else ?g0"
    have "same_core ?g0 ?g1" by (simp add: same_core_def)
    from same_core_ok [OF this ok0] have ok1: "gate_ok (?g1, k)" .
    have "check_sent k ?g1" using c(4) [OF True] by (simp add: check_sent_def)
    from keep_for_enrollment_ok [OF ok1 this c(1)]
    have "gate_ok (keep_for_enrollment cur ?g1, k)" .
    moreover have "end_locked g = Some (keep_for_enrollment cur ?g1)"
      using Some True c(1,2) by (simp add: end_locked_def Let_def)
    moreover have "extends g (keep_for_enrollment cur ?g1)" by (simp add: extends_def)
    moreover have "fd_cur (gt_feed (keep_for_enrollment cur ?g1)) = None" by simp
    ultimately show ?thesis by blast
  next
    case False
    let ?speech = "if 0 < cu_windows_sent cur then 0 else min (length (cu_buf cur) - cu_pre cur) (check_bytes g)"
    let ?feed = "note_short g cur ?speech (gt_feed ?g0)"
    let ?check = "\<lparr>ck_key = k, ck_pcm = take (cu_pre cur + ?speech) (cu_buf cur), ck_speech_bytes = ?speech,
      ck_recheck = False, ck_window = cu_windows_sent cur + 1, ck_attempt = fd_attempts (gt_feed g) + 1\<rparr>"
    let ?g1 = "gate_send (CheckMsg ?check)
      ((mark_sent k ?g0)\<lparr>gt_feed := ?feed\<lparr>fd_attempts := fd_attempts (gt_feed g) + 1\<rparr>\<rparr>)"
    have sends: "sends_check k ?check g ?g1"
      by (simp add: sends_check_def) (simp add: mark_sent_def check_sent_def)
    note s = sends_check_ok [OF assms this]
    have "shorts_ok ?g1"
    proof (cases "?speech < min_check_bytes g")
      case True
      let ?new = "filter (\<lambda>(i, _). i \<noteq> k) (fd_shorts (gt_feed g)) @ [(k, cu_speech_seen cur, short_next_window cur)]"
      have feed: "fd_shorts (gt_feed ?g1) = keep_last BOOK_CAP ?new" using True c(1) by (simp add: note_short_def)
      have "distinct (map fst ?new)"
        using short by (auto simp: shorts_ok_def distinct_map inj_on_def)
      moreover have "all_quiet ?g1 (fst e)" if e: "e \<in> set ?new" for e
      proof (cases "fst e = k")
        case True
        with s(7) c(5) [OF False] \<open>?speech < min_check_bytes g\<close> show ?thesis by (simp add: quiet_def)
      next
        case False
        with e s(6) [OF False] short show ?thesis by (auto simp: shorts_ok_def)
      qed
      ultimately show ?thesis
        unfolding shorts_ok_def feed using distinct_keep_last by (metis set_keep_last)
    next
      case False
      then have feed: "fd_shorts (gt_feed ?g1) = fd_shorts (gt_feed g)" by (simp add: note_short_def)
      have "all_quiet ?g1 (fst e)" if e: "e \<in> set (fd_shorts (gt_feed g))" for e
      proof -
        have "fst e \<noteq> k" using c(3) e by (metis image_eqI)
        with s(6) short e show ?thesis unfolding shorts_ok_def by blast
      qed
      with short show ?thesis unfolding shorts_ok_def feed by blast
    qed
    with s have ok1: "gate_ok (?g1, k)" by (simp add: gate_ok_def cur_ok_def)
    from keep_for_enrollment_ok [OF this s(5) c(1)]
    have "gate_ok (keep_for_enrollment cur ?g1, k)" .
    moreover have "end_locked g = Some (keep_for_enrollment cur ?g1)"
    proof -
      have same: "check_bytes ?g0 = check_bytes g" "note_short (mark_sent k ?g0) = note_short g"
        by (simp_all add: check_bytes_def note_short_def min_check_bytes_def fun_eq_iff)
      show ?thesis
        using Some False c(1,2) same by (simp add: end_locked_def Let_def)
    qed
    moreover have "extends g (keep_for_enrollment cur ?g1)" by (simp add: extends_def)
    moreover have "fd_cur (gt_feed (keep_for_enrollment cur ?g1)) = None" by simp
    ultimately show ?thesis by blast
  qed
qed

text \<open>The counter moves on between utterances.\<close>

lemma next_key_ok: "gate_ok (g, k) \<Longrightarrow> fd_cur (gt_feed g) = None \<Longrightarrow> k \<le> k' \<Longrightarrow> gate_ok (g, k')"
  by (cases "k = k'") (fastforce simp: gate_ok_def keys_ok_def cur_ok_def)+

lemma find_Some_mem: "find P xs = Some x \<Longrightarrow> x \<in> set xs \<and> P x"
  by (induction xs) (auto split: if_splits)

lemma remove1_key: "distinct (map fst xs) \<Longrightarrow> (k, v) \<in> set xs \<Longrightarrow> k \<notin> fst ` set (remove1 (k, v) xs)"
  by (induction xs) (auto simp: image_iff)

text \<open>Re-opening a key whose last check went out short: every check of it that is still pending is quiet.\<close>

lemma reopen_short_ok:
  assumes "gate_ok (g, k)" and "fd_cur (gt_feed g) = None" and "reopen_short k g = (r, g')"
  shows "gate_ok (g', k)" "extends g g'" "fd_cur (gt_feed g') = None"
    "k \<notin> fst ` set (fd_shorts (gt_feed g'))" "check_sent k g' = check_sent k g"
    "\<And>c. r = Some c \<Longrightarrow> cu_key c = k \<and> \<not> cu_sent c \<and> cu_reopened c \<and> all_quiet g' k"
    "fd_ring (gt_feed g') = fd_ring (gt_feed g)" "fd_ended (gt_feed g') = fd_ended (gt_feed g)"
proof -
  have *: "gate_ok (g', k) \<and> extends g g' \<and> fd_cur (gt_feed g') = None \<and>
    k \<notin> fst ` set (fd_shorts (gt_feed g')) \<and> check_sent k g' = check_sent k g \<and>
    (\<forall>c. r = Some c \<longrightarrow> cu_key c = k \<and> \<not> cu_sent c \<and> cu_reopened c \<and> all_quiet g' k) \<and>
    fd_ring (gt_feed g') = fd_ring (gt_feed g) \<and> fd_ended (gt_feed g') = fd_ended (gt_feed g)"
  proof (cases "find (\<lambda>(i, _). i = k) (fd_shorts (gt_feed g))")
    case None
    then have "k \<notin> fst ` set (fd_shorts (gt_feed g))" by (auto simp: find_None_iff)
    with None assms show ?thesis by (auto simp: reopen_short_def)
  next
    case (Some e)
    obtain seen nw where e: "e = (k, seen, nw)" "(k, seen, nw) \<in> set (fd_shorts (gt_feed g))"
      using find_Some_mem [OF Some] by (cases e) auto
    have short: "shorts_ok g" using assms(1) by (simp add: gate_ok_def)
    let ?rest = "remove1 (k, seen, nw) (fd_shorts (gt_feed g))"
    have gone: "k \<notin> fst ` set ?rest"
      using remove1_key [OF _ e(2)] short by (simp add: shorts_ok_def)
    have sub: "distinct (map fst ?rest)" "set ?rest \<subseteq> set (fd_shorts (gt_feed g))"
      using short by (auto simp: shorts_ok_def distinct_map inj_on_def set_remove1_subset dest: notin_set_remove1)
    let ?g0 = "g\<lparr>gt_feed := (gt_feed g)\<lparr>fd_shorts := ?rest\<rparr>\<rparr>"
    have ok0: "gate_ok (?g0, k)"
      using assms(1,2) sub by (auto simp: gate_ok_defs)
    show ?thesis
    proof (cases "recheck_closed k ?g0")
      case True
      with Some e assms(2,3) ok0 gone show ?thesis
        by (auto simp: reopen_short_def Let_def extends_def check_sent_def)
    next
      case False
      let ?book = "(gt_book ?g0)\<lparr>bk_verdicts := filter (\<lambda>(i, _). i \<noteq> k) (bk_verdicts (gt_book ?g0)),
        bk_reasons := filter (\<lambda>(i, _). i \<noteq> k) (bk_reasons (gt_book ?g0)),
        bk_reopened_after := push_capped (k, fd_attempts (gt_feed g))
          (filter (\<lambda>(i, _). i \<noteq> k) (bk_reopened_after (gt_book ?g0)))\<rparr>"
      let ?g1 = "?g0\<lparr>gt_book := ?book\<rparr>"
      have quiet: "all_quiet g k" using short e(2) unfolding shorts_ok_def by (metis fst_conv)
      have "reopened_ok ?g1"
      proof -
        have "a \<le> fd_attempts (gt_feed g) \<and>
            (\<forall>c \<in> set (channel_checks (gt_tx g)). ck_key c = i \<and> ck_attempt c \<le> a \<longrightarrow> quiet g c)"
          if "(i, a) \<in> set (push_capped (k, fd_attempts (gt_feed g))
            (filter (\<lambda>(i, _). i \<noteq> k) (bk_reopened_after (gt_book g))))" for i a
          using set_push_capped [OF that] quiet assms(1)
          by (auto simp: gate_ok_def reopened_ok_def all_quiet_def)
        then show ?thesis by (auto simp: reopened_ok_def quiet_def min_check_bytes_def)
      qed
      with ok0 have ok1: "gate_ok (?g1, k)"
        by (auto simp: gate_ok_def keys_ok_def cur_ok_def shorts_ok_def flight_ok_def all_quiet_def quiet_def
            min_check_bytes_def check_sent_def pending_ids_def assms(2))
      have "r = Some \<lparr>cu_key = k, cu_buf = [], cu_pre = 0, cu_sent = False, cu_windows_sent = nw - 1,
          cu_speech_seen = seen, cu_rechecks_closed = False, cu_reopened = True\<rparr> \<and> g' = ?g1"
        using Some e(1) assms(3) False by (auto simp: reopen_short_def Let_def)
      with ok1 gone quiet assms(2) show ?thesis
        by (auto simp: extends_def check_sent_def all_quiet_def quiet_def min_check_bytes_def)
    qed
  qed
  show "gate_ok (g', k)" "extends g g'" "fd_cur (gt_feed g') = None"
    "k \<notin> fst ` set (fd_shorts (gt_feed g'))" "check_sent k g' = check_sent k g"
    "\<And>c. r = Some c \<Longrightarrow> cu_key c = k \<and> \<not> cu_sent c \<and> cu_reopened c \<and> all_quiet g' k"
    "fd_ring (gt_feed g') = fd_ring (gt_feed g)" "fd_ended (gt_feed g') = fd_ended (gt_feed g)"
    using * by auto
qed

lemma set_cur_ok:
  assumes "gate_ok (g, k)" and "cu_key c = k" and "cu_pre c \<le> length (cu_buf c)"
    and "k \<notin> fst ` set (fd_shorts (gt_feed g))" and "if cu_sent c then check_sent k g else all_quiet g k"
  shows "gate_ok (g\<lparr>gt_feed := (gt_feed g)\<lparr>fd_cur := Some c\<rparr>\<rparr>, k)"
    and "gate_ok (g\<lparr>gt_feed := (gt_feed g)\<lparr>fd_ring := ring, fd_cur := Some c\<rparr>\<rparr>, k)"
  using assms by (auto simp: gate_ok_defs)

lemma unsent_quiet: "gate_ok (g, k) \<Longrightarrow> \<not> check_sent k g \<Longrightarrow> all_quiet g k"
  by (auto simp: gate_ok_def keys_ok_def all_quiet_def)

lemma open_cur_ok:
  assumes "gate_ok (g, k)" and "fd_cur (gt_feed g) = None"
  shows "gate_ok (open_cur k g, k)" "extends g (open_cur k g)"
proof -
  let ?ended = "fd_ended (gt_feed g)"
  let ?res = "if ?ended \<noteq> [] \<and> fst (last ?ended) = k then Some (snd (last ?ended)) else None"
  let ?g0 = "if ?res = None then g else g\<lparr>gt_feed := (gt_feed g)\<lparr>fd_ended := butlast ?ended\<rparr>\<rparr>"
  have ok0: "gate_ok (?g0, k)" using assms by (auto simp: gate_ok_defs dest: in_set_butlastD)
  have cur0: "fd_cur (gt_feed ?g0) = None" using assms(2) by simp
  obtain r g1 where r: "reopen_short k ?g0 = (r, g1)" by fastforce
  note o = reopen_short_ok [OF ok0 cur0 r]
  have sent0: "check_sent k ?g0 = check_sent k g" by (simp add: check_sent_def)
  have ext: "extends g g1" using o(2) by (simp add: extends_def split: if_splits)
  have "gate_ok (open_cur k g, k) \<and> extends g (open_cur k g)"
  proof (cases ?res)
    case None
    let ?buf = "fd_ring (gt_feed g1)" and ?sent = "check_sent k g1"
    let ?cur = "case r of Some cur \<Rightarrow> cur\<lparr>cu_buf := ?buf, cu_pre := length ?buf\<rparr>
      | None \<Rightarrow> joined_cur k ?buf (length ?buf) ?sent (if ?sent then windows_sent_for k g1 else 0) g1"
    have "cu_key ?cur = k" "cu_pre ?cur \<le> length (cu_buf ?cur)"
        "if cu_sent ?cur then check_sent k g1 else all_quiet g1 k"
      using o(6) unsent_quiet [OF o(1)] by (auto simp: joined_cur_def split: option.split)
    from set_cur_ok(2) [OF o(1) this(1,2) o(4) this(3), of "[]"]
    have "gate_ok (g1\<lparr>gt_feed := (gt_feed g1)\<lparr>fd_ring := [], fd_cur := Some ?cur\<rparr>\<rparr>, k)" .
    moreover have "open_cur k g = g1\<lparr>gt_feed := (gt_feed g1)\<lparr>fd_ring := [], fd_cur := Some ?cur\<rparr>\<rparr>"
      using None r unfolding open_cur_def Let_def by simp
    ultimately show ?thesis using ext by (simp add: extends_def)
  next
    case (Some buf)
    let ?cur = "case r of Some cur \<Rightarrow> cur\<lparr>cu_buf := buf, cu_pre := 0\<rparr>
      | None \<Rightarrow> joined_cur k buf 0 True (windows_sent_for k g1) g1"
    have "?ended \<noteq> []" "fst (last ?ended) = k" using Some by (auto split: if_splits)
    then have "check_sent k g" using assms(1) by (auto simp: gate_ok_def keys_ok_def)
    then have "cu_key ?cur = k" "cu_pre ?cur \<le> length (cu_buf ?cur)"
        "if cu_sent ?cur then check_sent k g1 else all_quiet g1 k"
      using o(5,6) sent0 by (auto simp: joined_cur_def split: option.split)
    from set_cur_ok(1) [OF o(1) this(1,2) o(4) this(3)]
    have "gate_ok (g1\<lparr>gt_feed := (gt_feed g1)\<lparr>fd_cur := Some ?cur\<rparr>\<rparr>, k)" .
    moreover have "open_cur k g = g1\<lparr>gt_feed := (gt_feed g1)\<lparr>fd_cur := Some ?cur\<rparr>\<rparr>"
      using Some r unfolding open_cur_def Let_def by simp
    ultimately show ?thesis using ext by (simp add: extends_def)
  qed
  then show "gate_ok (open_cur k g, k)" "extends g (open_cur k g)" by auto
qed

lemma snapshot_same_core: "same_core g (snd (snapshot_utt k g))"
  by (simp add: snapshot_utt_def same_core_def Let_def split: option.split)

lemma begin_ok:
  assumes "gate_ok (g, k)" and "k \<le> k'"
  shows "\<exists>g'. gate_begin k' frame g = Some g' \<and> gate_ok (g', k') \<and> extends g g'"
proof -
  obtain settings g0 where s: "snapshot_utt k' g = (settings, g0)" by fastforce
  have same: "same_core g g0" using snapshot_same_core [of g k'] s by simp
  note ok0 = same_core_ok [OF same assms(1)] and ext0 = same_core_extends [OF same]
  let ?live = "map_option cu_key (fd_cur (gt_feed g0))"
  have live: "?live = None \<or> ?live = Some k" using ok0 by (auto simp: gate_ok_def cur_ok_def split: option.splits)
  obtain g1 where g1: "end_locked g0 = Some g1" "gate_ok (g1, k)" "extends g0 g1" "fd_cur (gt_feed g1) = None"
    using end_locked_ok [OF ok0] by blast
  note ok1 = next_key_ok [OF g1(2,4) assms(2)]
  have keep: "gate_ok (g0, k')" if "?live = None \<or> ?live = Some k'"
    using that live ok0 next_key_ok [OF ok0 _ assms(2)] by auto
  note begins = gate_begin_def [of k' frame g] s
  show ?thesis
  proof (cases "us_gate settings \<noteq> GateActive \<or> us_cut settings")
    case inactive: True
    show ?thesis
    proof (cases "?live = None \<or> ?live = Some k'")
      case True
      with inactive keep ext0 show ?thesis by (auto simp: begins Let_def)
    next
      case False
      with inactive g1 ok1 extends_trans [OF ext0 g1(3)] show ?thesis by (auto simp: begins Let_def)
    qed
  next
    case active: False
    show ?thesis
    proof (cases "?live = Some k'")
      case True
      obtain g2 where "gate_push_frame frame g0 = Some g2" "gate_ok (g2, k')" "extends g0 g2"
        using push_frame_ok [OF keep, of frame] True by blast
      with active True extends_trans [OF ext0] show ?thesis by (auto simp: begins Let_def)
    next
      case False
      note oc = open_cur_ok [OF ok1 g1(4)]
      obtain g2 where g2: "gate_push_frame frame (open_cur k' g1) = Some g2" "gate_ok (g2, k')" "extends (open_cur k' g1) g2"
        using push_frame_ok [OF oc(1), of frame] by blast
      have "extends g g2" by (rule extends_trans [OF ext0 extends_trans [OF g1(3) extends_trans [OF oc(2) g2(3)]]])
      with active False g1(1) g2 show ?thesis by (auto simp: begins Let_def)
    qed
  qed
qed

section \<open>The other operations\<close>

lemma send_other_same_core: "\<forall>c. m \<noteq> CheckMsg c \<Longrightarrow> same_core g (gate_send m g)"
  by (cases m) (auto simp: same_core_def)

lemma send_enroll_same_core: "same_core g (send_enroll audio g)"
  by (auto simp: send_enroll_def same_core_def)

lemmas send_enroll_ok = same_core_ok [OF send_enroll_same_core] same_core_extends [OF send_enroll_same_core]

lemma enroll_utterance_ok:
  assumes "gate_ok (g, k)"
  shows "\<exists>g'. enroll_utterance key g = Some g' \<and> gate_ok (g', k) \<and> extends g g'"
proof -
  have pop: "gate_ok (g\<lparr>gt_feed := (gt_feed g)\<lparr>fd_ended := remove1 e (fd_ended (gt_feed g))\<rparr>\<rparr>, k)" for e
    using assms by (auto simp: gate_ok_defs dest: notin_set_remove1 split: option.splits)
  have pop_extends: "extends g (g\<lparr>gt_feed := feed\<rparr>)" for feed by (simp add: extends_def)
  have pre: "cu_pre cur \<le> length (cu_buf cur)" if "fd_cur (gt_feed g) = Some cur" for cur
    using assms that by (simp add: gate_ok_def cur_ok_def)
  show ?thesis
    unfolding enroll_utterance_def Let_def
    using assms pre send_enroll_ok(1) [OF assms] send_enroll_ok(1) [OF pop] send_enroll_ok(2)
      extends_trans [OF pop_extends send_enroll_ok(2)]
    by (auto simp: not_less split: option.split)
qed

lemma gate_act_ok:
  assumes "gate_ok (g, k)"
  shows "\<exists>g'. gate_act op g = Some g' \<and> gate_ok (g', k) \<and> extends g g'"
proof -
  have core: ?thesis if "gate_act op g = Some g'" "same_core g g'" for g'
    using that same_core_ok [OF that(2) assms] same_core_extends [OF that(2)] by blast
  show ?thesis
  proof (cases op)
    case (GateFrame frame)
    with push_frame_ok [OF assms] show ?thesis by simp
  next
    case SpeechEnd
    with end_locked_ok [OF assms] show ?thesis by fastforce
  next
    case (EnrollFinal key)
    with enroll_utterance_ok [OF assms] show ?thesis by simp
  next
    case (CloseRecheck key)
    have "gate_ok (close_recheck key g, k)"
      using assms by (auto simp: close_recheck_def Let_def gate_ok_defs recheck_closed_def split: option.splits)
    moreover have "extends g (close_recheck key g)" by (simp add: close_recheck_def Let_def extends_def)
    ultimately show ?thesis using CloseRecheck by simp
  next
    case Disable
    have "gate_ok (set_disabled g, k)" using assms by (auto simp: set_disabled_def gate_ok_defs Let_def)
    moreover have "extends g (set_disabled g)" by (simp add: set_disabled_def Let_def extends_def)
    ultimately show ?thesis using Disable by simp
  next
    case ResetEnrollment
    let ?g = "g\<lparr>gt_enrolled := False, gt_feed := (gt_feed g)\<lparr>fd_ended := [], fd_pending_barge := [], fd_shorts := []\<rparr>\<rparr>"
    have "gate_ok (?g, k)" using assms by (auto simp: gate_ok_defs split: option.splits)
    from same_core_ok [OF send_other_same_core [of ResetMsg] this] ResetEnrollment show ?thesis
      by (simp add: gate_reset_def extends_def)
  qed (rule core, simp, simp add: same_core_def hold_for_recheck_def set_pending_barge_def take_pending_barge_def
      set_policy_def set_enabled_def load_timed_out_def late_load_returned_def finish_load_def cut_live_def
      note_stale_verdict_def Let_def split: option.split)+
qed

text \<open>
  A message less in the channel.  The \<open>debug_assert!\<close> holds: a superseded check is a quiet one.
\<close>

lemma pop_message_ok:
  assumes "gate_ok (g, k)" and "gt_tx g = m # rest"
    and "\<forall>c. m = CheckMsg c \<longrightarrow> ck_recheck c \<longrightarrow> working_ids (vf_work v) = [check_id c]"
    and "vf_work (gt_verifier g) = None"
  shows "gate_ok (g\<lparr>gt_tx := rest, gt_backlog := n, gt_backlog_logged := b, gt_verifier := v\<rparr>, k)"
proof -
  let ?g = "g\<lparr>gt_tx := rest, gt_backlog := n, gt_backlog_logged := b, gt_verifier := v\<rparr>"
  have sub: "set (channel_checks rest) \<subseteq> set (channel_checks (gt_tx g))" by (simp add: assms(2))
  have "flight_ok ?g"
  proof -
    have "\<exists>w. (i, w, True) \<in> set (pending_ids ?g)" if i: "i \<in> set (bk_rechecks_in_flight (gt_book g))" for i
    proof -
      obtain w where "(i, w, True) \<in> set (pending_ids g)" using assms(1) i by (auto simp: gate_ok_def flight_ok_def)
      then have "(\<exists>c. m = CheckMsg c \<and> check_id c = (i, w, True)) \<or> (i, w, True) \<in> set (map check_id (channel_checks rest))"
        using assms(2,4) by (cases m) (auto simp: pending_ids_def working_ids_def)
      with assms(3) show ?thesis by (fastforce simp: pending_ids_def check_id_def)
    qed
    then show ?thesis by (simp add: flight_ok_def)
  qed
  moreover have "keys_ok ?g k \<and> cur_ok ?g k \<and> shorts_ok ?g \<and> reopened_ok ?g"
    using assms(1) sub
    by (fastforce simp: gate_ok_def keys_ok_def cur_ok_def shorts_ok_def reopened_ok_def all_quiet_def quiet_def
        min_check_bytes_def check_sent_def split: option.splits)
  ultimately show ?thesis by (simp add: gate_ok_def)
qed

lemma superseded_quiet:
  assumes "gate_ok (g, k)" and "c \<in> set (channel_checks (gt_tx g))" and "superseded c g"
  shows "quiet g c"
proof -
  obtain a where "map_of (bk_reopened_after (gt_book g)) (ck_key c) = Some a" "ck_attempt c \<le> a"
    using assms(3) by (auto simp: superseded_def split: option.splits)
  with assms(1,2) show ?thesis by (auto simp: gate_ok_def reopened_ok_def dest!: map_of_SomeD)
qed

lemma verifier_take_ok:
  assumes "gate_ok (g, k)"
  shows "\<exists>g'. verifier_take g = Some g' \<and> gate_ok (g', k) \<and>
    account (pending_ids g) (take_events g) = Some (pending_ids g')"
proof (cases "vf_work (gt_verifier g) = None \<and> gt_tx g \<noteq> []")
  case False
  with assms show ?thesis
    by (auto simp: verifier_take_def take_events_def split: option.split list.split)
next
  case True
  then obtain m rest where idle: "vf_work (gt_verifier g) = None" and tx: "gt_tx g = m # rest"
    by (cases "gt_tx g") auto
  let ?n = "gt_backlog g - 1" and ?b = "gt_backlog_logged g \<and> gt_backlog g - 1 \<noteq> 0"
  let ?pop = "\<lambda>v. g\<lparr>gt_tx := rest, gt_backlog := ?n, gt_backlog_logged := ?b, gt_verifier := v\<rparr>"
  note pop = pop_message_ok [OF assms tx _ idle, where n = ?n and b = ?b]
  have pend: "pending_ids g = map check_id (channel_checks (gt_tx g))" by (simp add: pending_ids_def idle working_ids_def)
  have same: "?pop (gt_verifier g) = g\<lparr>gt_tx := rest, gt_backlog := ?n, gt_backlog_logged := ?b\<rparr>" by simp
  show ?thesis
  proof (cases m)
    case ResetMsg
    let ?v = "(gt_verifier g)\<lparr>vf_reference := None, vf_enroll_pcm := [], vf_work := None\<rparr>"
    have "same_core (?pop ?v) ((?pop ?v)\<lparr>gt_enrolled := False\<rparr>)" by (simp add: same_core_def)
    from same_core_ok [OF this pop] ResetMsg
    have "gate_ok ((?pop ?v)\<lparr>gt_enrolled := False\<rparr>, k)" by simp
    moreover have "(?pop ?v)\<lparr>gt_enrolled := False\<rparr> = g\<lparr>gt_tx := rest, gt_backlog := ?n, gt_backlog_logged := ?b,
        gt_enrolled := False, gt_verifier := ?v\<rparr>" by simp
    ultimately have "gate_ok (g\<lparr>gt_tx := rest, gt_backlog := ?n, gt_backlog_logged := ?b,
        gt_enrolled := False, gt_verifier := ?v\<rparr>, k)" by metis
    with idle tx ResetMsg pend show ?thesis
      by (simp add: verifier_take_def take_events_def verifier_idle_def Let_def pending_ids_def working_ids_def not_le)
  next
    case (EnrollMsg audio)
    have ok: "gate_ok (?pop v, k)" for v using pop EnrollMsg by simp
    from ok [of "gt_verifier g"] ok idle tx EnrollMsg pend show ?thesis
      by (simp add: same not_le verifier_take_def take_events_def Let_def pending_ids_def working_ids_def)
  next
    case (CheckMsg c)
    let ?g = "?pop (gt_verifier g)"
    have sup: "superseded c ?g = superseded c g" "min_check_bytes ?g = min_check_bytes g"
      by (simp_all add: superseded_def min_check_bytes_def)
    show ?thesis
    proof (cases "superseded c g")
      case True
      have q: "quiet g c" by (rule superseded_quiet [OF assms _ True]) (simp add: tx CheckMsg)
      have "same_core ?g (?g\<lparr>gt_superseded := gt_superseded ?g + 1\<rparr>)" by (simp add: same_core_def)
      from same_core_ok [OF this pop] q CheckMsg
      have "gate_ok (?g\<lparr>gt_superseded := gt_superseded ?g + 1\<rparr>, k)" by (simp add: quiet_def)
      with True q sup idle tx CheckMsg pend show ?thesis
        by (simp add: verifier_take_def take_check_def take_events_def Let_def pending_ids_def working_ids_def quiet_def not_le)
    next
      case False
      have ok: "gate_ok (?pop (v\<lparr>vf_work := Some w\<rparr>), k)" if "working_ids (Some w) = [check_id c]" for v w
        using pop CheckMsg that by simp
      have ids: "working_ids (Some (Storing (verdict_of c x t r))) = [check_id c]" "working_ids (Some (Embedding c)) = [check_id c]" for x t r
        by (simp_all add: working_ids_def verdict_of_def verdict_id_def check_id_def)
      from False sup idle tx CheckMsg pend ok [OF ids(1)] ok [OF ids(2)] ids show ?thesis
        by (simp add: verifier_take_def take_check_def take_events_def Let_def pending_ids_def not_le)
    qed
  qed
qed

lemma work_ok:
  assumes "gate_ok (g, k)" and "working_ids (vf_work v) = working_ids (vf_work (gt_verifier g))"
  shows "gate_ok (g\<lparr>gt_verifier := v\<rparr>, k)"
  using assms by (auto simp: gate_ok_defs split: option.splits)

lemma same_core_simple: "same_core g g" "same_core g (gate_warn w g)" "same_core g (g\<lparr>gt_enrolled := b\<rparr>)"
  by (simp_all add: same_core_def)

lemma verifier_idle_ok:
  assumes "gate_ok (g, k)" and "vf_work (gt_verifier g) = Some Enrolling" and "same_core g h"
  shows "gate_ok (verifier_idle v h, k)" "pending_ids (verifier_idle v h) = pending_ids g"
proof -
  have "vf_work (gt_verifier h) = Some Enrolling" using assms(2,3) by (simp add: same_core_def)
  with work_ok [OF same_core_ok [OF assms(3,1)], of "v\<lparr>vf_work := None\<rparr>"] assms(2,3)
  show "gate_ok (verifier_idle v h, k)" "pending_ids (verifier_idle v h) = pending_ids g"
    by (auto simp: verifier_idle_def pending_ids_def working_ids_def same_core_def)
qed

lemma verifier_embedded_ok:
  assumes "gate_ok (g, k)"
  shows "gate_ok (verifier_embedded gf r g, k) \<and>
    account (pending_ids g) (embed_events gf r g) = Some (pending_ids (verifier_embedded gf r g))"
proof (cases "vf_work (gt_verifier g)")
  case None
  with assms show ?thesis by (simp add: verifier_embedded_def embed_events_def)
next
  case (Some w)
  show ?thesis
  proof (cases w)
    case Enrolling
    note idle = verifier_idle_ok [OF assms Some [unfolded Enrolling]]
    show ?thesis
      using Some Enrolling
      by (simp add: verifier_embedded_def embed_events_def finish_enroll_def Let_def idle same_core_simple
          split: embed_result.split)
  next
    case (Embedding c)
    obtain x t reason where j: "judge gf c r g = (x, t, reason)" by (metis prod_cases3)
    let ?h = "case r of EmbedTimeout e \<Rightarrow> gate_warn (WarnVerifyTimeout (ck_key c) e) g | _ \<Rightarrow> g"
    let ?v = "(gt_verifier ?h)\<lparr>vf_work := Some (Storing (verdict_of c x t reason))\<rparr>"
    have h: "gate_ok (?h, k)" "gt_tx ?h = gt_tx g" "gt_verifier ?h = gt_verifier g"
      using assms same_core_ok [OF same_core_simple(2)] by (auto split: embed_result.split)
    have ids: "working_ids (vf_work ?v) = working_ids (vf_work (gt_verifier ?h))"
      using Some Embedding h(3) by (simp add: working_ids_def verdict_of_def verdict_id_def check_id_def)
    have e: "verifier_embedded gf r g = ?h\<lparr>gt_verifier := ?v\<rparr>"
      using Some Embedding j by (simp add: verifier_embedded_def Let_def)
    have "account (pending_ids g) (embed_events gf r g) = Some (pending_ids g)"
      by (auto simp: embed_events_def split: option.split gate_work.split)
    with work_ok [OF h(1) ids] ids h show ?thesis unfolding e by (simp add: pending_ids_def)
  next
    case (Storing v)
    with Some assms show ?thesis by (simp add: verifier_embedded_def embed_events_def)
  qed
qed

lemma verifier_store_ok:
  assumes "gate_ok (g, k)" and "verifier_store g = (v, g')"
  shows "gate_ok (g', k) \<and>
    account (pending_ids g) (map Answered (case v of Some v \<Rightarrow> [v] | None \<Rightarrow> [])) = Some (pending_ids g')"
proof (cases "\<exists>x. vf_work (gt_verifier g) = Some (Storing x)")
  case False
  with assms show ?thesis by (auto simp: verifier_store_def split: option.splits gate_work.splits)
next
  case True
  then obtain x where x: "vf_work (gt_verifier g) = Some (Storing x)" by blast
  let ?g = "verifier_idle (gt_verifier g) (g\<lparr>gt_book := store_verdict x (gt_book g)\<rparr>)"
  have g': "v = Some x" "g' = ?g" using assms(2) x by (simp_all add: verifier_store_def)
  have book: "bk_sent (store_verdict x b) = bk_sent b" "bk_reopened_after (store_verdict x b) = bk_reopened_after b"
      "bk_rechecks_in_flight (store_verdict x b) =
        (if vd_recheck x then filter (\<lambda>i. i \<noteq> vd_key x) (bk_rechecks_in_flight b) else bk_rechecks_in_flight b)" for b
    by (simp_all add: store_verdict_def Let_def)
  have pend: "pending_ids g = verdict_id x # pending_ids ?g" by (simp add: pending_ids_def working_ids_def verifier_idle_def x)
  have "flight_ok ?g"
  proof -
    have "\<exists>w. (i, w, True) \<in> set (pending_ids ?g)" if "i \<in> set (bk_rechecks_in_flight (gt_book ?g))" for i
    proof -
      have i: "i \<in> set (bk_rechecks_in_flight (gt_book g))" "vd_recheck x \<longrightarrow> i \<noteq> vd_key x"
        using that by (auto simp: verifier_idle_def book split: if_splits)
      then obtain w where "(i, w, True) \<in> set (pending_ids g)" using assms(1) by (auto simp: gate_ok_def flight_ok_def)
      with i(2) pend show ?thesis by (auto simp: verdict_id_def)
    qed
    then show ?thesis by (simp add: flight_ok_def)
  qed
  moreover have "keys_ok ?g k \<and> cur_ok ?g k \<and> shorts_ok ?g \<and> reopened_ok ?g"
    using assms(1) by (auto simp: gate_ok_def keys_ok_def cur_ok_def shorts_ok_def reopened_ok_def all_quiet_def quiet_def
        min_check_bytes_def check_sent_def verifier_idle_def book split: option.splits)
  ultimately show ?thesis using pend by (simp add: g' gate_ok_def)
qed

section \<open>Blame\<close>

text \<open>The utterances whose stored or coming verdict is \<open>other\<close>.\<close>

definition blamed :: "'e speaker_gate \<Rightarrow> nat set" where
  "blamed g =
     {key. (key, Other) \<in> set (bk_verdicts (gt_book g))} \<union>
     (case vf_work (gt_verifier g) of Some (Storing v) \<Rightarrow> if vd_outcome v = Other then {vd_key v} else {} | _ \<Rightarrow> {})"

definition measured_low :: "gate_event list \<Rightarrow> nat set" where
  "measured_low tr = {key. \<exists>c. Measured c False \<in> set tr \<and> ck_key c = key}"

lemma measured_low_append [simp]: "measured_low (xs @ ys) = measured_low xs \<union> measured_low ys"
  by (auto simp: measured_low_def)

lemma extends_blamed: "extends g g' \<Longrightarrow> blamed g' \<subseteq> blamed g"
  by (auto simp: extends_def blamed_def split: option.splits gate_work.splits)

lemma take_blamed: "verifier_take g = Some g' \<Longrightarrow> blamed g' \<subseteq> blamed g"
  by (auto simp: verifier_take_def take_check_def verifier_idle_def blamed_def verdict_of_def Let_def
      split: option.splits list.splits gate_msg.splits if_splits)

lemma embedded_blamed: "blamed (verifier_embedded gf r g) \<subseteq> blamed g \<union> measured_low (embed_events gf r g)"
proof (cases "\<exists>c. vf_work (gt_verifier g) = Some (Embedding c)")
  case True
  then obtain c where c: "vf_work (gt_verifier g) = Some (Embedding c)" by blast
  obtain x t reason where j: "judge gf c r g = (x, t, reason)" by (metis prod_cases3)
  have "x = Other \<Longrightarrow> Measured c False \<in> set (embed_events gf r g)"
    using j c by (auto simp: judge_def embed_events_def score_of_def split: embed_result.splits option.splits if_splits)
  then show ?thesis
    using c j by (auto simp: verifier_embedded_def blamed_def verdict_of_def measured_low_def Let_def
        split: embed_result.splits)
next
  case False
  then show ?thesis
    by (auto simp: verifier_embedded_def blamed_def finish_enroll_def verifier_idle_def Let_def
        split: option.splits gate_work.splits embed_result.splits)
qed

lemma store_blamed:
  assumes "verifier_store g = (v, g')"
  shows "blamed g' \<subseteq> blamed g"
proof (cases "\<exists>x. vf_work (gt_verifier g) = Some (Storing x)")
  case True
  then obtain x where x: "vf_work (gt_verifier g) = Some (Storing x)" by blast
  have "{key. (key, Other) \<in> set (bk_verdicts (store_verdict x (gt_book g)))} \<subseteq>
      {key. (key, Other) \<in> set (bk_verdicts (gt_book g))} \<union> (if vd_outcome x = Other then {vd_key x} else {})"
    by (auto simp: store_verdict_def Let_def dest!: set_push_capped split: if_splits)
  with assms x show ?thesis unfolding blamed_def by (auto simp: verifier_store_def verifier_idle_def)
next
  case False
  with assms show ?thesis by (auto simp: verifier_store_def split: option.splits gate_work.splits)
qed

section \<open>Runs\<close>

definition gate_accounts ::
  "'e speaker_gate \<times> nat \<Rightarrow> 'e gate_op list \<Rightarrow> gate_event list \<Rightarrow> 'e speaker_gate \<times> nat \<Rightarrow> bool" where
  "gate_accounts s ops tr s' \<longleftrightarrow>
     account (pending_ids (fst s)) tr = Some (pending_ids (fst s')) \<and>
     blamed (fst s') \<subseteq> blamed (fst s) \<union> measured_low tr"

lemma gate_step_ok:
  assumes "gate_ok (g, k)"
  shows "\<exists>s' tr. gate_step gf (g, k) op = Some (s', tr) \<and> gate_ok s' \<and> gate_accounts (g, k) [op] tr s'"
proof -
  have acts: ?thesis if "gate_step gf (g, k) op = map_option (\<lambda>g'. ((g', k), asked g g')) (gate_act op g)"
    using gate_act_ok [OF assms, of op] that extends_account extends_blamed
    by (fastforce simp: gate_accounts_def)
  show ?thesis
  proof (cases op)
    case (SpeechStart new frame)
    let ?k = "if new then k + 1 else k"
    obtain g' where "gate_begin ?k frame g = Some g'" "gate_ok (g', ?k)" "extends g g'"
      using begin_ok [OF assms, of ?k frame] by (metis le_add1 order_refl)
    with SpeechStart extends_account [of g g'] extends_blamed [of g g'] show ?thesis
      by (auto simp: gate_accounts_def Let_def)
  next
    case VerifierTake
    obtain g' where "verifier_take g = Some g'" "gate_ok (g', k)"
        "account (pending_ids g) (take_events g) = Some (pending_ids g')"
      using verifier_take_ok [OF assms] by blast
    with VerifierTake take_blamed [of g g'] show ?thesis by (auto simp: gate_accounts_def)
  next
    case (VerifierEmbedded r)
    with verifier_embedded_ok [OF assms, of gf r] embedded_blamed [of gf r g] show ?thesis
      by (simp add: gate_accounts_def)
  next
    case VerifierStore
    obtain v g' where v: "verifier_store g = (v, g')" by fastforce
    with VerifierStore verifier_store_ok [OF assms v] store_blamed [OF v] show ?thesis
      by (auto simp: gate_accounts_def)
  qed (rule acts, simp)+
qed

interpretation speaker_gate: traced_component "gate_step gf" gate_ok gate_accounts
  for gf :: "('d, 'e) gate_floats"
proof unfold_locales
  fix s :: "'e speaker_gate \<times> nat" and op assume "gate_ok s"
  then show "\<exists>s' tr. gate_step gf s op = Some (s', tr) \<and> gate_ok s'"
    using gate_step_ok [of "fst s" "snd s" gf op] by auto
next
  fix s :: "'e speaker_gate \<times> nat" and op s' tr assume "gate_ok s" "gate_step gf s op = Some (s', tr)"
  then show "gate_accounts s [op] tr s'" using gate_step_ok [of "fst s" "snd s" gf op] by auto
qed (auto simp: gate_accounts_def account_append measured_low_def)

lemma gate_new_ok: "gate_ok (gate_new cfg, 0) \<and> pending_ids (gate_new cfg) = [] \<and> blamed (gate_new cfg) = {}"
  by (simp add: gate_new_def gate_ok_defs working_ids_def blamed_def)

lemma gate_run:
  "\<exists>g k tr. run_ops (gate_step gf) (gate_new cfg, 0) ops = Some ((g, k), tr) \<and> gate_ok (g, k) \<and>
     account [] tr = Some (pending_ids g) \<and> blamed g \<subseteq> measured_low tr"
proof -
  obtain g k tr where r: "run_ops (gate_step gf) (gate_new cfg, 0) ops = Some ((g, k), tr)" "gate_ok (g, k)"
    using speaker_gate.run_ok [of "(gate_new cfg, 0)" gf ops] gate_new_ok [of cfg] by auto
  with speaker_gate.run_rel [OF _ r(1)] gate_new_ok [of cfg] show ?thesis
    by (auto simp: gate_accounts_def)
qed

text \<open>
  C16: Whatever the frame path, the agent and the verifier do in any interleaving, the gate never panics
  (no slice is out of range, and the assertion that a superseded check would not have been scored
  holds), the verdicts answer the checks in the order they were sent, each under the key, window and
  kind of its own check, and every re-check marked as in flight is still on its way, so that no final
  waits for a re-check that will never settle.
\<close>

theorem gate_checks_answered_in_order:
  "\<exists>g k tr. run_ops (gate_step gf) (gate_new cfg, 0) ops = Some ((g, k), tr) \<and>
     account [] tr = Some (pending_ids g) \<and>
     {key. recheck_in_flight key g} \<subseteq> fst ` {i \<in> set (pending_ids g). snd (snd i)}"
proof -
  obtain g k tr where r: "run_ops (gate_step gf) (gate_new cfg, 0) ops = Some ((g, k), tr)" "gate_ok (g, k)"
      "account [] tr = Some (pending_ids g)"
    using gate_run [of gf cfg ops] by blast
  then have "{key. recheck_in_flight key g} \<subseteq> fst ` {i \<in> set (pending_ids g). snd (snd i)}"
    by (force simp: gate_ok_def flight_ok_def recheck_in_flight_def)
  with r show ?thesis by blast
qed


definition demo_gate_floats :: "(int, int) gate_floats" where
  "demo_gate_floats = \<lparr>gf_f64 = int_ops, gf_f32 = int_ops, gf_widen = (\<lambda>x. x), gf_narrow = (\<lambda>x. x)\<rparr>"

text \<open>Windows of one millisecond; the embeddings of the run are \<open>[1]\<close> for the caller and \<open>[- 1]\<close> for the other.\<close>

definition demo_gate_config :: "int speaker_gate_config" where
  "demo_gate_config = (default_speaker_gate_config int_ops)\<lparr>sg_enabled := True, sg_threshold := 1,
     sg_enroll_speech_ms := 1, sg_check_speech_ms := 1, sg_min_check_speech_ms := 1, sg_recheck_on_other := False\<rparr>"

definition demo_gate_ops :: "int gate_op list" where
  "demo_gate_ops =
     [SpeechStart True (replicate 32 0), SpeechEnd, EnrollFinal 1, VerifierTake, VerifierStore, VerifierTake,
      VerifierEmbedded (Embedded [1]), SpeechStart True (replicate 32 0), VerifierTake,
      VerifierEmbedded (Embedded [- 1]), VerifierStore]"


section \<open>A verdict between two locks\<close>

text \<open>
  The verifier looks up whether a check was superseded and stores its verdict under two separate locks.
  A rejoin between them clears the book, and the verdict of the short window is stored after it: the
  final of the re-opened key is labelled from the window that the rejoin had dropped.
\<close>

definition race_gate_config :: "int speaker_gate_config" where
  "race_gate_config = demo_gate_config\<lparr>sg_check_speech_ms := 2, sg_min_check_speech_ms := 2\<rparr>"

definition race_gate_ops :: "int gate_op list" where
  "race_gate_ops =
     [SpeechStart True (replicate 32 0), SpeechEnd, EnrollFinal 1, VerifierTake, VerifierStore, VerifierTake,
      VerifierEmbedded (Embedded [1]), SpeechStart True (replicate 32 0), SpeechEnd, VerifierTake,
      SpeechStart False (replicate 16 0), VerifierStore]"

lemma late_short_verdict_survives:
  "case run_ops (gate_step demo_gate_floats) (gate_new race_gate_config, 0) race_gate_ops of
     Some ((g, k), tr) \<Rightarrow> map_option cu_reopened (fd_cur (gt_feed g)) = Some True \<and> settled_outcome 2 g = Some Unknown
   | None \<Rightarrow> False"
  by code_simp

end
