(* ===== verification/Speaker_Gate_Memory.thy ===== *)
theory Speaker_Gate_Memory
  imports Speaker_Gate_Run
begin

text \<open>
  The buffers of the speaker gate stay bounded in every run, however long an utterance is and however
  large a frame is: the frame path cuts a rolling buffer back, the books evict, the verifier trims its
  enrollment audio.  The channel itself is unbounded, as in the code; what each message carries is not.
\<close>

section \<open>The bound\<close>

definition pre_roll_bytes :: nat where
  "pre_roll_bytes = PRE_ROLL_MS * GATE_BYTES_PER_MS"

definition gate_limit :: "'e speaker_gate_config \<Rightarrow> nat" where
  "gate_limit cfg =
     pre_roll_bytes + max (sg_check_speech_ms cfg) (sg_enroll_speech_ms cfg) * GATE_BYTES_PER_MS"

definition message_bounded :: "nat \<Rightarrow> gate_msg \<Rightarrow> bool" where
  "message_bounded n m = (case m of EnrollMsg a \<Rightarrow> length a \<le> n | CheckMsg c \<Rightarrow> length (ck_pcm c) \<le> n | ResetMsg \<Rightarrow> True)"

definition cur_bounded :: "'e speaker_gate_config \<Rightarrow> gate_cur \<Rightarrow> bool" where
  "cur_bounded cfg c \<longleftrightarrow>
     length (cu_buf c) \<le> gate_limit cfg \<and> cu_pre c \<le> pre_roll_bytes \<and> cu_pre c \<le> length (cu_buf c) \<and>
     (\<not> cu_sent c \<and> \<not> cu_reopened c \<longrightarrow>
        cu_windows_sent c = 0 \<and> length (cu_buf c) - cu_pre c \<le> cu_speech_seen c)"

definition feed_bounded :: "'e speaker_gate_config \<Rightarrow> gate_feed \<Rightarrow> bool" where
  "feed_bounded cfg f \<longleftrightarrow>
     length (fd_ring f) \<le> pre_roll_bytes \<and> (\<forall>c. fd_cur f = Some c \<longrightarrow> cur_bounded cfg c) \<and>
     length (fd_ended f) \<le> ENDED_CAP \<and> (\<forall>e \<in> set (fd_ended f). length (snd e) \<le> gate_limit cfg) \<and>
     length (fd_shorts f) \<le> BOOK_CAP"

definition book_bounded :: "gate_book \<Rightarrow> bool" where
  "book_bounded b \<longleftrightarrow>
     length (bk_verdicts b) \<le> BOOK_CAP \<and> length (bk_reasons b) \<le> BOOK_CAP \<and> length (bk_sent b) \<le> BOOK_CAP \<and>
     length (bk_rechecks_in_flight b) \<le> BOOK_CAP \<and> length (bk_windows_scored b) \<le> BOOK_CAP \<and>
     length (bk_closed b) \<le> BOOK_CAP \<and> length (bk_reopened_after b) \<le> BOOK_CAP"

definition verifier_bounded :: "'e speaker_gate_config \<Rightarrow> 'e gate_verifier \<Rightarrow> bool" where
  "verifier_bounded cfg v \<longleftrightarrow>
     length (vf_enroll_pcm v) \<le> sg_enroll_speech_ms cfg * GATE_BYTES_PER_MS * 2 +
       (if vf_work v = Some Enrolling then gate_limit cfg else 0)"

definition gate_bounded :: "'e speaker_gate_config \<Rightarrow> 'e speaker_gate \<Rightarrow> bool" where
  "gate_bounded cfg g \<longleftrightarrow>
     gt_cfg g = cfg \<and> feed_bounded cfg (gt_feed g) \<and> book_bounded (gt_book g) \<and>
     verifier_bounded cfg (gt_verifier g) \<and> (\<forall>m \<in> set (gt_tx g). message_bounded (gate_limit cfg) m) \<and>
     length (rt_utts (gt_runtime g)) \<le> BOOK_CAP \<and> length (gt_warnings g) \<le> 64"

lemma gate_boundedI:
  "gate_bounded cfg g \<Longrightarrow> gt_cfg g' = gt_cfg g \<Longrightarrow> feed_bounded cfg (gt_feed g') \<Longrightarrow> book_bounded (gt_book g') \<Longrightarrow>
    verifier_bounded cfg (gt_verifier g') \<Longrightarrow> (\<forall>m \<in> set (gt_tx g') - set (gt_tx g). message_bounded (gate_limit cfg) m) \<Longrightarrow>
    length (rt_utts (gt_runtime g')) \<le> BOOK_CAP \<Longrightarrow> length (gt_warnings g') \<le> 64 \<Longrightarrow> gate_bounded cfg g'"
  by (auto simp: gate_bounded_def)

lemma gate_boundedD:
  "gate_bounded cfg g \<Longrightarrow> gt_cfg g = cfg" "gate_bounded cfg g \<Longrightarrow> feed_bounded cfg (gt_feed g)"
  "gate_bounded cfg g \<Longrightarrow> book_bounded (gt_book g)" "gate_bounded cfg g \<Longrightarrow> verifier_bounded cfg (gt_verifier g)"
  "gate_bounded cfg g \<Longrightarrow> length (rt_utts (gt_runtime g)) \<le> BOOK_CAP"
  "gate_bounded cfg g \<Longrightarrow> length (gt_warnings g) \<le> 64"
  "gate_bounded cfg g \<Longrightarrow> m \<in> set (gt_tx g) \<Longrightarrow> message_bounded (gate_limit cfg) m"
  by (simp_all add: gate_bounded_def)

section \<open>Each step keeps it\<close>

lemma warn_bounded: "gate_bounded cfg g \<Longrightarrow> gate_bounded cfg (gate_warn w g)"
  by (auto simp: gate_warn_def gate_bounded_def)

lemma send_bounded:
  assumes "gate_bounded cfg g" and "message_bounded (gate_limit cfg) m"
  shows "gate_bounded cfg (gate_send m g)"
proof -
  have flags: "gate_bounded cfg (h\<lparr>gt_backlog := n\<rparr>)" "gate_bounded cfg (h\<lparr>gt_backlog_logged := b\<rparr>)"
      if "gate_bounded cfg h" for h n b
    using that by (simp_all add: gate_bounded_def)
  have tx: "gate_bounded cfg (h\<lparr>gt_tx := gt_tx h @ [m]\<rparr>)" if "gate_bounded cfg h" for h
    using that assms(2) by (auto simp: gate_bounded_def)
  show ?thesis
    unfolding gate_send_def Let_def
    by (intro tx) (auto intro!: flags warn_bounded assms(1))
qed

lemma mark_bounded: "gate_bounded cfg g \<Longrightarrow> gate_bounded cfg (mark_sent k g)"
  using length_push_capped by (auto simp: mark_sent_def gate_bounded_def book_bounded_def)

lemma set_feed_bounded:
  "gate_bounded cfg g \<Longrightarrow> feed_bounded cfg feed \<Longrightarrow> gate_bounded cfg (g\<lparr>gt_feed := feed\<rparr>)"
  by (simp add: gate_bounded_def)

lemma set_book_bounded:
  "gate_bounded cfg g \<Longrightarrow> book_bounded book \<Longrightarrow> gate_bounded cfg (g\<lparr>gt_book := book\<rparr>)"
  by (simp add: gate_bounded_def)

lemma keep_limit: "gt_cfg g = cfg \<Longrightarrow> keep_bytes g \<le> gate_limit cfg"
  by (simp add: keep_bytes_def gate_limit_def check_bytes_def pre_roll_bytes_def)

text \<open>The only unbounded append, and the cut after it.\<close>

lemma trim_bounded:
  assumes g: "gt_cfg g = cfg" and c: "cur_bounded cfg c"
    and c': "c' = collect frame g c \<and> \<not> first_window_due g c' \<or>
      (\<exists>n. c' = (collect frame g c)\<lparr>cu_sent := True, cu_windows_sent := n\<rparr>) \<or>
      (\<exists>n. c' = (collect frame g c)\<lparr>cu_windows_sent := n\<rparr> \<and> cu_sent c)"
  shows "cur_bounded cfg (trim_window g c')"
proof -
  let ?c = "collect frame g c"
  have same: "cu_buf c' = cu_buf ?c" "cu_pre c' = cu_pre c" "cu_reopened c' = cu_reopened c" "cu_sent c \<Longrightarrow> cu_sent c'"
      "cu_speech_seen c' = cu_speech_seen c + length frame"
    using c' by auto
  have first: "cu_windows_sent c' = 0" "\<not> cu_sent c" "\<not> first_window_due g c'" if "\<not> cu_sent c'" "\<not> cu_reopened c'"
    using that c' c by (auto simp: cur_bounded_def)
  have limit: "gate_cap_bytes g + pre_roll_bytes \<le> gate_limit cfg" "check_bytes g + pre_roll_bytes \<le> gate_limit cfg"
    using g by (auto simp: gate_cap_bytes_def gate_limit_def check_bytes_def)
  have pre: "cu_pre c \<le> pre_roll_bytes" "cu_pre c \<le> length (cu_buf c)" "length (cu_buf c) \<le> gate_limit cfg"
    using c by (simp_all add: cur_bounded_def)
  have longer: "cu_pre c' \<le> length (cu_buf c')" using pre(2) same collect_longer [of c frame g] by simp
  have seen: "length (cu_buf c') - cu_pre c' \<le> cu_speech_seen c'" if "\<not> cu_sent c'" "\<not> cu_reopened c'"
  proof -
    have "length (cu_buf ?c) \<le> length (cu_buf c) + length frame" by (simp add: collect_def Let_def)
    with that first(2) c same show ?thesis by (auto simp: cur_bounded_def)
  qed
  have len: "length (cu_buf (trim_window g c')) \<le> gate_limit cfg"
  proof (cases "rolling g \<or> cu_reopened c'")
    case False
    with same have "length (cu_buf c') \<le> max (length (cu_buf c)) (cu_pre c + gate_cap_bytes g)"
      by (auto simp: collect_def Let_def)
    with pre limit False show ?thesis by (simp add: trim_window_def)
  next
    case rolls: True
    show ?thesis
    proof (cases "cu_sent c' \<or> cu_reopened c'")
      case True
      with rolls keep_limit [OF g] show ?thesis by (auto simp: trim_window_def)
    next
      case False
      with first have "length (cu_buf c') - cu_pre c' < check_bytes g"
        using seen by (auto simp: first_window_due_def)
      with False pre same limit longer show ?thesis by (simp add: trim_window_def)
    qed
  qed
  have "cu_pre (trim_window g c') \<le> pre_roll_bytes"
    using pre same by (simp add: trim_window_def)
  moreover have "length (cu_buf (trim_window g c')) - cu_pre (trim_window g c') \<le> cu_speech_seen c'"
    if "\<not> cu_sent c'" "\<not> cu_reopened c'"
    using seen [OF that] that by (simp add: trim_window_def)
  ultimately show ?thesis using len trim_pre [OF longer] first by (simp add: cur_bounded_def)
qed

lemma push_frame_bounded:
  assumes g: "gate_bounded cfg g" and some: "gate_push_frame frame g = Some g'"
  shows "gate_bounded cfg g'"
proof (cases "fd_cur (gt_feed g)")
  case None
  have "feed_bounded cfg ((gt_feed g)\<lparr>fd_ring := keep_last (PRE_ROLL_MS * GATE_BYTES_PER_MS) (fd_ring (gt_feed g) @ frame)\<rparr>)"
    using gate_boundedD(2) [OF g] None by (simp add: feed_bounded_def pre_roll_bytes_def)
  with g None some show ?thesis by (auto simp: gate_push_frame_def Let_def intro!: set_feed_bounded)
next
  case (Some cur)
  note cfg = gate_boundedD(1) [OF g]
  have cur: "cur_bounded cfg cur" using gate_boundedD(2) [OF g] Some by (simp add: feed_bounded_def)
  have pre: "\<not> length (cu_buf cur) < cu_pre cur" using cur by (simp add: cur_bounded_def)
  let ?cur = "collect frame g cur"
  have feed: "feed_bounded cfg ((gt_feed g)\<lparr>fd_cur := Some (trim_window g c)\<rparr>)"
      "feed_bounded cfg ((gt_feed g)\<lparr>fd_attempts := n, fd_cur := Some (trim_window g c)\<rparr>)"
    if "cur_bounded cfg (trim_window g c)" for c n
    using gate_boundedD(2) [OF g] that by (auto simp: feed_bounded_def)
  note trim = trim_bounded [OF cfg cur]
  have clip: "message_bounded (gate_limit cfg) (CheckMsg (window_check g c b))" for c b
    using keep_limit [OF cfg] by (simp add: message_bounded_def window_check_def)
  consider "first_window_due g ?cur" | "\<not> first_window_due g ?cur" "recheck_window_due g ?cur"
    | "\<not> first_window_due g ?cur" "\<not> recheck_window_due g ?cur" by blast
  then show ?thesis
  proof cases
    case 1
    let ?sent = "?cur\<lparr>cu_sent := True, cu_windows_sent := cu_windows_sent ?cur + 1\<rparr>"
    let ?feed = "(gt_feed g)\<lparr>fd_attempts := fd_attempts (gt_feed g) + 1, fd_cur := Some (trim_window g ?sent)\<rparr>"
    have "g' = gate_send (CheckMsg (window_check g ?cur False)) (mark_sent (cu_key cur) (g\<lparr>gt_feed := ?feed\<rparr>))"
      using 1 pre Some some by (simp add: gate_push_frame_def Let_def)
    moreover have "cur_bounded cfg (trim_window g ?sent)" by (rule trim) blast
    ultimately show ?thesis
      by (auto intro!: send_bounded mark_bounded set_feed_bounded g feed(2) clip)
  next
    case 2
    let ?sent = "?cur\<lparr>cu_windows_sent := cu_windows_sent ?cur + 1\<rparr>"
    let ?feed = "(gt_feed g)\<lparr>fd_attempts := fd_attempts (gt_feed g) + 1, fd_cur := Some (trim_window g ?sent)\<rparr>"
    let ?book = "(gt_book g)\<lparr>bk_rechecks_in_flight := push_capped (cu_key cur) (bk_rechecks_in_flight (gt_book g))\<rparr>"
    have "g' = gate_send (CheckMsg (window_check g ?cur True)) ((g\<lparr>gt_book := ?book\<rparr>)\<lparr>gt_feed := ?feed\<rparr>)"
      using 2 pre Some some by (simp add: gate_push_frame_def Let_def)
    moreover have "cur_bounded cfg (trim_window g ?sent)"
      using 2 by (intro trim) (auto simp: recheck_window_due_def)
    moreover have "book_bounded ?book" using gate_boundedD(3) [OF g] length_push_capped by (auto simp: book_bounded_def)
    ultimately show ?thesis
      by (auto intro!: send_bounded set_feed_bounded set_book_bounded g feed(2) clip)
  next
    case 3
    have "g' = g\<lparr>gt_feed := (gt_feed g)\<lparr>fd_cur := Some (trim_window g ?cur)\<rparr>\<rparr>"
      using 3 pre Some some by (simp add: gate_push_frame_def Let_def)
    moreover have "cur_bounded cfg (trim_window g ?cur)" using 3 by (intro trim) blast
    ultimately show ?thesis by (auto intro!: set_feed_bounded g feed(1))
  qed
qed

lemma feed_ended_bounded:
  "feed_bounded cfg f \<Longrightarrow> length xs \<le> ENDED_CAP \<Longrightarrow>
    (\<And>e. e \<in> set xs \<Longrightarrow> e \<in> set (fd_ended f) \<or> length (snd e) \<le> gate_limit cfg) \<Longrightarrow>
    feed_bounded cfg (f\<lparr>fd_ended := xs\<rparr>)"
  unfolding feed_bounded_def by (simp, blast)

lemma keep_for_enrollment_bounded:
  assumes "gate_bounded cfg g" and "length (cu_buf c) \<le> gate_limit cfg"
  shows "gate_bounded cfg (keep_for_enrollment c g)"
  unfolding keep_for_enrollment_def using assms gate_boundedD(2) [OF assms(1)]
  by (auto intro!: set_feed_bounded feed_ended_bounded dest!: set_keep_last)

lemma end_locked_bounded:
  assumes g: "gate_bounded cfg g" and some: "end_locked g = Some g'"
  shows "gate_bounded cfg g'"
proof (cases "fd_cur (gt_feed g)")
  case None
  with g some show ?thesis by (simp add: end_locked_def)
next
  case (Some cur)
  have cur: "cur_bounded cfg cur" using gate_boundedD(2) [OF g] Some by (simp add: feed_bounded_def)
  let ?g0 = "g\<lparr>gt_feed := (gt_feed g)\<lparr>fd_cur := None\<rparr>\<rparr>"
  have g0: "gate_bounded cfg ?g0" using gate_boundedD(2) [OF g] by (intro set_feed_bounded [OF g]) (simp add: feed_bounded_def)
  let ?speech = "if 0 < cu_windows_sent cur then 0 else min (length (cu_buf cur) - cu_pre cur) (check_bytes ?g0)"
  let ?m = "mark_sent (cu_key cur) ?g0"
  let ?feed = "note_short ?m cur ?speech (gt_feed ?m)"
  let ?check = "CheckMsg \<lparr>ck_key = cu_key cur, ck_pcm = take (cu_pre cur + ?speech) (cu_buf cur), ck_speech_bytes = ?speech,
    ck_recheck = False, ck_window = cu_windows_sent cur + 1, ck_attempt = fd_attempts ?feed + 1\<rparr>"
  let ?held = "?g0\<lparr>gt_feed := (gt_feed ?g0)\<lparr>fd_pending_barge := bt_remove (cu_key cur) (fd_pending_barge (gt_feed ?g0))\<rparr>\<rparr>"
  have "feed_bounded cfg (?feed\<lparr>fd_attempts := n\<rparr>)" for n
    using gate_boundedD(2) [OF g0] by (simp add: note_short_def feed_bounded_def)
  moreover have "message_bounded (gate_limit cfg) ?check" using cur by (auto simp: message_bounded_def cur_bounded_def min.coboundedI1)
  ultimately have sent: "gate_bounded cfg (gate_send ?check (?m\<lparr>gt_feed := ?feed\<lparr>fd_attempts := fd_attempts ?feed + 1\<rparr>\<rparr>))"
    by (intro send_bounded set_feed_bounded mark_bounded g0)
  have held: "gate_bounded cfg ?held"
    using gate_boundedD(2) [OF g0] by (intro set_feed_bounded [OF g0]) (simp add: feed_bounded_def)
  have "length (cu_buf cur) \<le> gate_limit cfg" using cur by (simp add: cur_bounded_def)
  note keep = keep_for_enrollment_bounded [OF _ this]
  show ?thesis
    using some Some keep [OF sent] keep [OF held] keep [OF g0]
    by (auto simp: end_locked_def Let_def split: if_splits)
qed

lemma reopen_short_bounded:
  assumes g: "gate_bounded cfg g" and r: "reopen_short key g = (c, g')"
  shows "gate_bounded cfg g'"
proof -
  have shorts: "gate_bounded cfg (g\<lparr>gt_feed := (gt_feed g)\<lparr>fd_shorts := remove1 e (fd_shorts (gt_feed g))\<rparr>\<rparr>)" for e
    using gate_boundedD(2) [OF g] by (intro set_feed_bounded [OF g]) (auto simp: feed_bounded_def length_remove1)
  have book: "book_bounded (b\<lparr>bk_verdicts := filter P (bk_verdicts b), bk_reasons := filter Q (bk_reasons b),
      bk_reopened_after := push_capped e xs\<rparr>)" if "book_bounded b" for b P Q e xs
    using that length_push_capped by (auto simp: book_bounded_def intro: le_trans [OF length_filter_le])
  show ?thesis
    using r shorts set_book_bounded [OF shorts book [OF gate_boundedD(3) [OF g]]] g
    by (auto simp: reopen_short_def Let_def split: option.splits if_splits)
qed

lemma open_cur_bounded:
  assumes ok: "gate_ok (g, k)" and none: "fd_cur (gt_feed g) = None" and g: "gate_bounded cfg g"
  shows "gate_bounded cfg (open_cur k g)"
proof -
  let ?ended = "fd_ended (gt_feed g)"
  let ?res = "if ?ended \<noteq> [] \<and> fst (last ?ended) = k then Some (snd (last ?ended)) else None"
  let ?g0 = "if ?res = None then g else g\<lparr>gt_feed := (gt_feed g)\<lparr>fd_ended := butlast ?ended\<rparr>\<rparr>"
  have g0: "gate_bounded cfg ?g0"
  proof -
    have "length ?ended \<le> ENDED_CAP" using gate_boundedD(2) [OF g] by (simp add: feed_bounded_def)
    with g gate_boundedD(2) [OF g] show ?thesis
      by (auto intro!: set_feed_bounded feed_ended_bounded dest: in_set_butlastD)
  qed
  have ok0: "gate_ok (?g0, k)" using ok by (auto simp: gate_ok_defs dest: in_set_butlastD split: option.splits)
  have cur0: "fd_cur (gt_feed ?g0) = None" using none by simp
  obtain r g1 where r: "reopen_short k ?g0 = (r, g1)" by fastforce
  note g1 = reopen_short_bounded [OF g0 r] and o = reopen_short_ok [OF ok0 cur0 r]
  have feed: "feed_bounded cfg (gt_feed g1)" by (rule gate_boundedD(2) [OF g1])
  have set: "gate_bounded cfg (g1\<lparr>gt_feed := (gt_feed g1)\<lparr>fd_cur := Some c\<rparr>\<rparr>)"
      "gate_bounded cfg (g1\<lparr>gt_feed := (gt_feed g1)\<lparr>fd_ring := [], fd_cur := Some c\<rparr>\<rparr>)" if "cur_bounded cfg c" for c
    using that feed by (auto intro!: set_feed_bounded [OF g1] simp: feed_bounded_def)
  show ?thesis
  proof (cases ?res)
    case None
    let ?buf = "fd_ring (gt_feed g1)" and ?sent = "check_sent k g1"
    let ?cur = "case r of Some cur \<Rightarrow> cur\<lparr>cu_buf := ?buf, cu_pre := length ?buf\<rparr>
      | None \<Rightarrow> joined_cur k ?buf (length ?buf) ?sent (if ?sent then windows_sent_for k g1 else 0) g1"
    have "length ?buf \<le> pre_roll_bytes" using feed by (simp add: feed_bounded_def)
    then have "cur_bounded cfg ?cur"
      using o(6) by (auto simp: cur_bounded_def joined_cur_def gate_limit_def split: option.split)
    moreover have "open_cur k g = g1\<lparr>gt_feed := (gt_feed g1)\<lparr>fd_ring := [], fd_cur := Some ?cur\<rparr>\<rparr>"
      using None r unfolding open_cur_def Let_def by simp
    ultimately show ?thesis using set(2) by simp
  next
    case (Some buf)
    let ?cur = "case r of Some cur \<Rightarrow> cur\<lparr>cu_buf := buf, cu_pre := 0\<rparr>
      | None \<Rightarrow> joined_cur k buf 0 True (windows_sent_for k g1) g1"
    have "length buf \<le> gate_limit cfg"
      using Some gate_boundedD(2) [OF g] last_in_set [of ?ended] by (auto simp: feed_bounded_def split: if_splits)
    then have "cur_bounded cfg ?cur" using o(6) by (auto simp: cur_bounded_def joined_cur_def split: option.split)
    moreover have "open_cur k g = g1\<lparr>gt_feed := (gt_feed g1)\<lparr>fd_cur := Some ?cur\<rparr>\<rparr>"
      using Some r unfolding open_cur_def Let_def by simp
    ultimately show ?thesis using set(1) by simp
  qed
qed

lemma snapshot_bounded: "gate_bounded cfg g \<Longrightarrow> gate_bounded cfg (snd (snapshot_utt k g))"
  using length_push_capped by (auto simp: snapshot_utt_def gate_bounded_def Let_def split: option.split)

lemma begin_bounded:
  assumes ok: "gate_ok (g, k)" and le: "k \<le> k'" and g: "gate_bounded cfg g" and some: "gate_begin k' frame g = Some g'"
  shows "gate_bounded cfg g'"
proof -
  obtain settings g0 where s: "snapshot_utt k' g = (settings, g0)" by fastforce
  have g0: "gate_bounded cfg g0" using snapshot_bounded [OF g, of k'] s by simp
  have ok0: "gate_ok (g0, k)" using same_core_ok [OF snapshot_same_core ok, of k'] s by simp
  obtain g1 where g1: "end_locked g0 = Some g1" "gate_ok (g1, k)" "fd_cur (gt_feed g1) = None"
    using end_locked_ok [OF ok0] by blast
  note open_b = open_cur_bounded [OF next_key_ok [OF g1(2,3) le] g1(3) end_locked_bounded [OF g0 g1(1)]]
  from some s g1(1) show ?thesis
    using push_frame_bounded [OF open_b, of frame g'] push_frame_bounded [OF g0, of frame g']
      end_locked_bounded [OF g0 g1(1)] g0
    by (auto simp: gate_begin_def Let_def split: if_splits)
qed

lemma enroll_bounded:
  assumes g: "gate_bounded cfg g" and some: "enroll_utterance key g = Some g'"
  shows "gate_bounded cfg g'"
proof -
  have send: "gate_bounded cfg (send_enroll a h)" if "gate_bounded cfg h" "length a \<le> gate_limit cfg" for a h
    using that send_bounded [OF that(1), of "EnrollMsg a"] by (simp add: send_enroll_def message_bounded_def)
  have feed: "feed_bounded cfg (gt_feed g)" by (rule gate_boundedD(2) [OF g])
  have pop: "gate_bounded cfg (g\<lparr>gt_feed := (gt_feed g)\<lparr>fd_ended := remove1 e (fd_ended (gt_feed g))\<rparr>\<rparr>)" for e
    using feed by (intro set_feed_bounded [OF g] feed_ended_bounded)
      (auto simp: feed_bounded_def length_remove1 dest: notin_set_remove1)
  have ended: "length a \<le> gate_limit cfg" if "find P (fd_ended (gt_feed g)) = Some (i, a)" for P i a
    using find_Some_mem [OF that] feed by (auto simp: feed_bounded_def)
  have live: "length (cu_buf c) \<le> gate_limit cfg" if "fd_cur (gt_feed g) = Some c" for c
    using feed that by (simp add: feed_bounded_def cur_bounded_def)
  show ?thesis
    using some g send [OF g] send [OF pop ended] live
    by (auto simp: enroll_utterance_def Let_def intro!: send [OF g] split: option.splits if_splits)
qed

lemma feed_barge_bounded [simp]: "feed_bounded cfg (f\<lparr>fd_pending_barge := b\<rparr>) = feed_bounded cfg f"
  by (simp add: feed_bounded_def)

lemma act_bounded:
  assumes ok: "gate_ok (g, k)" and g: "gate_bounded cfg g" and some: "gate_act op g = Some g'"
  shows "gate_bounded cfg g'"
proof -
  note feed = gate_boundedD(2) [OF g] and book = gate_boundedD(3) [OF g]
  have barge: "gate_bounded cfg (g\<lparr>gt_feed := (gt_feed g)\<lparr>fd_pending_barge := b\<rparr>\<rparr>)" for b
    using feed by (intro set_feed_bounded [OF g]) (simp add: feed_bounded_def)
  have runtime: "gate_bounded cfg (g\<lparr>gt_runtime := rt\<rparr>)" if "length (rt_utts rt) \<le> length (rt_utts (gt_runtime g))" for rt
    using that g by (auto simp: gate_bounded_def)
  show ?thesis
  proof (cases op)
    case (GateFrame frame)
    with push_frame_bounded [OF g] some show ?thesis by simp
  next
    case SpeechEnd
    with end_locked_bounded [OF g] some show ?thesis by simp
  next
    case (EnrollFinal key)
    with enroll_bounded [OF g] some show ?thesis by simp
  next
    case (HoldForRecheck key epoch)
    have holds: "gate_bounded cfg (h\<lparr>gt_holds := n\<rparr>)" if "gate_bounded cfg h" for h n
      using that by (simp add: gate_bounded_def)
    from HoldForRecheck some g show ?thesis
      by (auto simp: hold_for_recheck_def set_pending_barge_def intro!: holds barge)
  next
    case (CloseRecheck key)
    have "feed_bounded cfg ((gt_feed g)\<lparr>fd_cur := map_option (\<lambda>c. if cu_key c = key then c\<lparr>cu_rechecks_closed := True\<rparr> else c)
        (fd_cur (gt_feed g))\<rparr>)"
      using feed by (auto simp: feed_bounded_def cur_bounded_def)
    note f = set_feed_bounded [OF g this]
    have "book_bounded ((gt_book g)\<lparr>bk_closed := push_capped key (bk_closed (gt_book g))\<rparr>)"
      using book length_push_capped by (auto simp: book_bounded_def)
    from set_book_bounded [OF f this] CloseRecheck some f show ?thesis
      by (auto simp: close_recheck_def Let_def)
  next
    case Disable
    have "feed_bounded cfg ((gt_feed g)\<lparr>fd_cur := None, fd_shorts := []\<rparr>)" using feed by (simp add: feed_bounded_def)
    with Disable some g show ?thesis by (auto simp: set_disabled_def gate_bounded_def Let_def)
  next
    case ResetEnrollment
    have "feed_bounded cfg ((gt_feed g)\<lparr>fd_ended := [], fd_pending_barge := [], fd_shorts := []\<rparr>)"
      using feed by (simp add: feed_bounded_def)
    then have "gate_bounded cfg (g\<lparr>gt_enrolled := False,
        gt_feed := (gt_feed g)\<lparr>fd_ended := [], fd_pending_barge := [], fd_shorts := []\<rparr>\<rparr>)"
      using g by (simp add: gate_bounded_def)
    from send_bounded [OF this, of ResetMsg] ResetEnrollment some show ?thesis
      by (simp add: gate_reset_def message_bounded_def)
  qed (use some g in \<open>auto simp: set_pending_barge_def take_pending_barge_def cut_live_def set_policy_def set_enabled_def
      load_timed_out_def late_load_returned_def finish_load_def note_stale_verdict_def Let_def gate_bounded_def
      split: option.splits if_splits\<close>)
qed

lemma take_bounded:
  assumes g: "gate_bounded cfg g" and some: "verifier_take g = Some g'"
  shows "gate_bounded cfg g'"
proof (cases "vf_work (gt_verifier g) = None \<and> gt_tx g \<noteq> []")
  case False
  with g some show ?thesis by (auto simp: verifier_take_def split: option.splits list.splits)
next
  case True
  then obtain m rest where idle: "vf_work (gt_verifier g) = None" and tx: "gt_tx g = m # rest"
    by (cases "gt_tx g") auto
  have v: "length (vf_enroll_pcm (gt_verifier g)) \<le> sg_enroll_speech_ms cfg * GATE_BYTES_PER_MS * 2"
    using gate_boundedD(4) [OF g] idle by (simp add: verifier_bounded_def)
  have m: "message_bounded (gate_limit cfg) m" using gate_boundedD(7) [OF g] tx by simp
  have cfg: "gt_cfg g = cfg" by (rule gate_boundedD(1) [OF g])
  show ?thesis
  proof (cases m)
    case ResetMsg
    with some g idle tx show ?thesis
      by (auto simp: verifier_take_def verifier_idle_def gate_bounded_def verifier_bounded_def Let_def)
  next
    case (EnrollMsg a)
    with m have "length a \<le> gate_limit cfg" by (simp add: message_bounded_def)
    with v have "length (vf_enroll_pcm (gt_verifier g) @ a) \<le> sg_enroll_speech_ms cfg * GATE_BYTES_PER_MS * 2 + gate_limit cfg"
      by simp
    with EnrollMsg some g idle tx v cfg show ?thesis
      by (auto simp: verifier_take_def gate_bounded_def verifier_bounded_def Let_def split: if_splits)
  next
    case (CheckMsg c)
    with some g idle tx v show ?thesis
      by (auto simp: verifier_take_def take_check_def gate_bounded_def verifier_bounded_def Let_def split: if_splits)
  qed
qed

lemma finish_enroll_bounded:
  assumes "gate_bounded cfg g" and "vf_work (gt_verifier g) = Some Enrolling"
  shows "gate_bounded cfg (finish_enroll r g)"
proof -
  have idle: "gate_bounded cfg (verifier_idle v h)"
    if "gate_bounded cfg h" "length (vf_enroll_pcm v) \<le> sg_enroll_speech_ms cfg * GATE_BYTES_PER_MS * 2" for v h
    using that by (simp add: verifier_idle_def gate_bounded_def verifier_bounded_def)
  have enrolled: "gate_bounded cfg (g\<lparr>gt_enrolled := True\<rparr>)" using assms(1) by (simp add: gate_bounded_def)
  show ?thesis
    by (simp add: finish_enroll_def Let_def idle warn_bounded enrolled assms(1) gate_boundedD(1) [OF assms(1)]
        split: embed_result.split)
qed

lemma embedded_bounded:
  assumes g: "gate_bounded cfg g"
  shows "gate_bounded cfg (verifier_embedded gf r g)"
proof -
  have store: "gate_bounded cfg (h\<lparr>gt_verifier := (gt_verifier h)\<lparr>vf_work := Some (Storing x)\<rparr>\<rparr>)"
    if "gate_bounded cfg h" "vf_work (gt_verifier h) = Some (Embedding c)" for h x c
    using that by (simp add: gate_bounded_def verifier_bounded_def)
  show ?thesis
    using g finish_enroll_bounded [OF g] store [OF g] store [OF warn_bounded [OF g]]
    by (auto simp: verifier_embedded_def Let_def split: option.split gate_work.split prod.split embed_result.split)
qed

lemma length_update_known: "map_of q key = Some v \<Longrightarrow> length (AList.update key w q) = length q"
  by (induction q) (auto split: if_splits)

lemma note_window_length: "length q \<le> BOOK_CAP \<Longrightarrow> length (note_window key w q) \<le> BOOK_CAP"
  by (simp add: note_window_def length_push_capped length_update_known split: option.split)

lemma store_bounded:
  assumes g: "gate_bounded cfg g" and r: "verifier_store g = (v, g')"
  shows "gate_bounded cfg g'"
proof -
  have "book_bounded (store_verdict x b)" if "book_bounded b" for x b
    using that by (auto simp: store_verdict_def book_bounded_def Let_def length_push_capped note_window_length
        intro: le_trans [OF length_filter_le] split: option.split)
  with g r show ?thesis
    by (auto simp: verifier_store_def verifier_idle_def gate_bounded_def verifier_bounded_def
        split: option.splits gate_work.splits)
qed

lemma gate_step_bounded:
  assumes "gate_ok (g, k)" and "gate_bounded cfg g" and "gate_step gf (g, k) op = Some ((g', k'), tr)"
  shows "gate_bounded cfg g'"
proof -
  have le: "k \<le> (if new then k + 1 else k)" for new by simp
  have acts: ?thesis if "gate_step gf (g, k) op = map_option (\<lambda>g'. ((g', k), asked g g')) (gate_act op g)"
    using assms(3) act_bounded [OF assms(1,2)] by (auto simp: that)
  show ?thesis
  proof (cases op)
    case (SpeechStart new frame)
    with assms(3) begin_bounded [OF assms(1) le assms(2)] show ?thesis by (auto simp: Let_def)
  next
    case VerifierTake
    with assms(3) take_bounded [OF assms(2)] show ?thesis by auto
  next
    case (VerifierEmbedded r)
    with assms(3) embedded_bounded [OF assms(2)] show ?thesis by auto
  next
    case VerifierStore
    with assms(3) store_bounded [OF assms(2)] show ?thesis by (auto split: prod.splits)
  qed (rule acts, simp)+
qed

interpretation gate_memory: component "gate_step gf" "\<lambda>s. gate_ok s \<and> gate_bounded cfg (fst s)"
  for gf :: "('d, 'e) gate_floats" and cfg
proof unfold_locales
  fix s :: "'e speaker_gate \<times> nat" and op assume s: "gate_ok s \<and> gate_bounded cfg (fst s)"
  then obtain s' tr where "gate_step gf s op = Some (s', tr)" "gate_ok s'"
    using gate_step_ok [of "fst s" "snd s" gf op] by auto
  with gate_step_bounded [of "fst s" "snd s" cfg gf op "fst s'" "snd s'" tr] s
  show "\<exists>s' tr. gate_step gf s op = Some (s', tr) \<and> gate_ok s' \<and> gate_bounded cfg (fst s')" by auto
qed

text \<open>
  C40: In every run the memory of the gate is bounded by its configuration: the live buffer never holds
  more than the pre-roll and the longer of the two speech windows, for any length of an utterance and any
  size of a frame; at most 4 ended utterances and 32 entries of each book are kept; the audio of a
  message and the verifier's enrollment audio are bounded too.
\<close>

theorem gate_memory_bounded:
  "\<exists>g k tr. run_ops (gate_step gf) (gate_new cfg, 0) ops = Some ((g, k), tr) \<and> gate_bounded cfg g"
proof -
  have "gate_ok (gate_new cfg, 0) \<and> gate_bounded cfg (gate_new cfg)"
    using gate_new_ok [of cfg]
    by (simp add: gate_new_def gate_bounded_def feed_bounded_def book_bounded_def verifier_bounded_def)
  with gate_memory.run_ok [where s = "(gate_new cfg, 0)" and gf = gf and cfg = cfg and ops = ops] show ?thesis by auto
qed

end
