(* ===== verification/Tts_Cache.thy ===== *)
theory Tts_Cache
  imports Agent_Config Pcm "HOL-Library.AList" "HOL-Library.Monad_Syntax"
begin

text \<open>
  \<open>crates/speech/src/tts_cache.rs\<close>: the phrase cache of completed syntheses, a least-recently-used map
  bounded by bytes, and the TTS provider that answers from it.  The hash map is its list of entries,
  the recency order a \<open>BTreeMap\<close> from stamps to keys.  \<open>None\<close> is a panic (the byte count would
  underflow).  The wrapped provider is an argument; metrics are not modelled.
\<close>

section \<open>Pieces for the sink, text, keys\<close>

definition SINK_SLICE_MAX_BYTES :: nat where "SINK_SLICE_MAX_BYTES = 192000"

function slice_for_sink :: "bytes \<Rightarrow> bytes list" where
  "slice_for_sink audio =
     (if audio = [] then []
      else take SINK_SLICE_MAX_BYTES audio # slice_for_sink (drop SINK_SLICE_MAX_BYTES audio))"
  by pat_completeness auto
termination
  by (relation "measure length") (auto simp: SINK_SLICE_MAX_BYTES_def)

declare slice_for_sink.simps [simp del]

definition join_with :: "ustring \<Rightarrow> ustring list \<Rightarrow> ustring" where
  "join_with sep ws = (case ws of [] \<Rightarrow> [] | w # ws \<Rightarrow> w @ concat (map (\<lambda>w. sep @ w) ws))"

definition normalize_phrase_text :: "ustring \<Rightarrow> ustring" where
  "normalize_phrase_text text = join_with [32] (split_whitespace text)"

definition DEFAULT_MAX_BYTES :: nat where "DEFAULT_MAX_BYTES = 16 * 1024 * 1024"
definition DEFAULT_MAX_ENTRY_BYTES :: nat where "DEFAULT_MAX_ENTRY_BYTES = 2 * 1024 * 1024"

record phrase_key =
  pk_project_id :: ustring
  pk_vendor :: string
  pk_model :: ustring
  pk_model_path :: ustring
  pk_voice :: ustring
  pk_endpoint :: ustring
  pk_text :: ustring

definition or_empty :: "ustring option \<Rightarrow> ustring" where
  "or_empty t = (case t of Some t \<Rightarrow> t | None \<Rightarrow> [])"

definition phrase_key_new :: "tts_config \<Rightarrow> ustring \<Rightarrow> ustring \<Rightarrow> phrase_key" where
  "phrase_key_new cfg project_id normalized =
     \<lparr>pk_project_id = project_id, pk_vendor = tts_vendor_as_str (tc_provider cfg),
      pk_model = or_empty (tc_model cfg), pk_model_path = or_empty (tc_model_path cfg),
      pk_voice = or_empty (tc_voice cfg), pk_endpoint = or_empty (tc_endpoint cfg), pk_text = normalized\<rparr>"

definition same_group :: "phrase_key \<Rightarrow> phrase_key \<Rightarrow> bool" where
  "same_group a b \<longleftrightarrow> a\<lparr>pk_text := []\<rparr> = b\<lparr>pk_text := []\<rparr>"

section \<open>Settings\<close>

record cache_settings =
  cs_enabled :: bool
  cs_max_bytes :: nat
  cs_max_entry_bytes :: nat
  cs_vendors :: "ustring list"

text \<open>\<open>str::parse::<usize>\<close>: an optional plus sign and digits, below \<open>2 ^ 64\<close>.\<close>

definition parse_usize :: "ustring \<Rightarrow> nat option" where
  "parse_usize t =
     (let digits = (case t of c # r \<Rightarrow> if c = 43 then r else t | [] \<Rightarrow> []);
          n = fold (\<lambda>c n. 10 * n + (c - 48)) digits 0
      in if digits = [] \<or> (\<exists>c \<in> set digits. c < 48 \<or> 57 < c) \<or> 2 ^ 64 \<le> n then None else Some n)"

fun split_on :: "uchar \<Rightarrow> ustring \<Rightarrow> ustring list" where
  "split_on sep [] = [[]]"
| "split_on sep (c # cs) =
     (if c = sep then [] # split_on sep cs
      else (case split_on sep cs of w # ws \<Rightarrow> (c # w) # ws | [] \<Rightarrow> [[c]]))"

definition parse_vendors :: "ustring \<Rightarrow> ustring list" where
  "parse_vendors raw = filter (\<lambda>v. v \<noteq> []) (map (\<lambda>v. to_ascii_lowercase (trim v)) (split_on 44 raw))"

definition cache_settings_from_lookup :: "(string \<Rightarrow> ustring option) \<Rightarrow> cache_settings" where
  "cache_settings_from_lookup lookup =
     (let off = (case lookup ''VOICE_TTS_PHRASE_CACHE'' of
                   None \<Rightarrow> False
                 | Some v \<Rightarrow> to_ascii_lowercase (trim v) \<in> {utext ''0'', utext ''false'', utext ''no'', utext ''off''});
          number = (\<lambda>key default. case Option.bind (lookup key) (\<lambda>v. parse_usize (trim v)) of
                      Some n \<Rightarrow> if 0 < n then n else default
                    | None \<Rightarrow> default);
          vendors = (case lookup ''VOICE_TTS_PHRASE_CACHE_VENDORS'' of Some raw \<Rightarrow> parse_vendors raw | None \<Rightarrow> [])
      in \<lparr>cs_enabled = \<not> off,
          cs_max_bytes = number ''VOICE_TTS_PHRASE_CACHE_MAX_BYTES'' DEFAULT_MAX_BYTES,
          cs_max_entry_bytes = number ''VOICE_TTS_PHRASE_CACHE_MAX_ENTRY_BYTES'' DEFAULT_MAX_ENTRY_BYTES,
          cs_vendors = (if vendors = [] then parse_vendors (utext ''*'') else vendors)\<rparr>)"

definition caches_vendor :: "cache_settings \<Rightarrow> tts_vendor \<Rightarrow> bool" where
  "caches_vendor s vendor \<longleftrightarrow>
     list_ex (\<lambda>item. item = utext ''*'' \<or> item = utext (tts_vendor_as_str vendor)) (cs_vendors s)"

section \<open>The cache\<close>

record cache_entry =
  en_value :: tts_audio_chunk
  en_stamp :: nat

record phrase_cache =
  ch_map :: "(phrase_key \<times> cache_entry) list"
  ch_order :: "(nat, phrase_key) btree"
  ch_bytes :: nat
  ch_next_stamp :: nat
  ch_max_bytes :: nat
  ch_max_entry_bytes :: nat

definition cache_new :: "nat \<Rightarrow> nat \<Rightarrow> phrase_cache" where
  "cache_new max_bytes max_entry_bytes =
     \<lparr>ch_map = [], ch_order = [], ch_bytes = 0, ch_next_stamp = 0, ch_max_bytes = max_bytes,
      ch_max_entry_bytes = max_entry_bytes\<rparr>"

definition cache_bump :: "phrase_cache \<Rightarrow> nat \<times> phrase_cache" where
  "cache_bump c = (ch_next_stamp c, c\<lparr>ch_next_stamp := ch_next_stamp c + 1\<rparr>)"

definition cache_get :: "phrase_key \<Rightarrow> phrase_cache \<Rightarrow> tts_audio_chunk option \<times> phrase_cache" where
  "cache_get key c =
     (let (stamp, c) = cache_bump c in
      case map_of (ch_map c) key of
        None \<Rightarrow> (None, c)
      | Some e \<Rightarrow>
          (Some (en_value e),
           c\<lparr>ch_map := AList.update key (e\<lparr>en_stamp := stamp\<rparr>) (ch_map c),
             ch_order := bt_insert stamp key (bt_remove (en_stamp e) (ch_order c))\<rparr>))"

definition cache_drop :: "phrase_key \<Rightarrow> phrase_cache \<Rightarrow> phrase_cache option" where
  "cache_drop key c =
     (case map_of (ch_map c) key of
        None \<Rightarrow> Some c
      | Some e \<Rightarrow>
          if ch_bytes c < length (pcm (en_value e)) then None
          else Some (c\<lparr>ch_map := AList.delete key (ch_map c), ch_bytes := ch_bytes c - length (pcm (en_value e))\<rparr>))"

text \<open>The eviction loop; an iteration pops the oldest stamp.\<close>

function cache_evict :: "phrase_cache \<Rightarrow> phrase_cache option" where
  "cache_evict c =
     (if ch_bytes c \<le> ch_max_bytes c then Some c
      else
        (case ch_order c of
           [] \<Rightarrow> Some c
         | (_, oldest) # order \<Rightarrow> Option.bind (cache_drop oldest (c\<lparr>ch_order := order\<rparr>)) cache_evict))"
  by pat_completeness auto
termination
  by (relation "measure (\<lambda>c. length (ch_order c))") (auto simp: cache_drop_def split: option.splits if_splits)

declare cache_evict.simps [simp del]

definition cache_insert :: "phrase_key \<Rightarrow> tts_audio_chunk \<Rightarrow> phrase_cache \<Rightarrow> phrase_cache option" where
  "cache_insert key value c =
     (let len = length (pcm value) in
      if len = 0 \<or> ch_max_entry_bytes c < len then Some c
      else do {
        c \<leftarrow> (case map_of (ch_map c) key of
               Some old \<Rightarrow> cache_drop key (c\<lparr>ch_order := bt_remove (en_stamp old) (ch_order c)\<rparr>)
             | None \<Rightarrow> Some c);
        let (stamp, c) = cache_bump c;
        let c = c\<lparr>ch_order := bt_insert stamp key (ch_order c),
                  ch_map := AList.update key \<lparr>en_value = value, en_stamp = stamp\<rparr> (ch_map c),
                  ch_bytes := ch_bytes c + len\<rparr>;
        cache_evict c
      })"

definition group_stats :: "phrase_key \<Rightarrow> phrase_cache \<Rightarrow> nat \<times> nat" where
  "group_stats key c =
     (let group = filter (\<lambda>(k, _). same_group k key) (ch_map c)
      in (length group, sum_list (map (\<lambda>(_, e). length (pcm (en_value e))) group)))"

section \<open>The caching provider\<close>

record tts_synthesis =
  sy_chunks :: "tts_audio_chunk list"
  sy_complete :: bool

text \<open>The sum of the durations is a \<open>u32\<close>.\<close>

definition concat_chunks :: "tts_audio_chunk list \<Rightarrow> tts_audio_chunk option" where
  "concat_chunks chunks =
     (if sum_list (map (length \<circ> pcm) chunks) = 0 then None
      else
        (let nonempty = filter (\<lambda>c. pcm c \<noteq> []) chunks
         in Some \<lparr>pcm = (if length nonempty = 1 then pcm (hd nonempty) else concat (map pcm chunks)),
                  duration_ms = sum_list (map duration_ms chunks) mod 2 ^ 32\<rparr>))"

record caching_tts =
  ct_config :: tts_config
  ct_project_id :: ustring
  ct_last_hit :: "nat option"

definition caching_new :: "tts_config \<Rightarrow> caching_tts" where
  "caching_new config = \<lparr>ct_config = config, ct_project_id = [], ct_last_hit = None\<rparr>"

definition caching_bind :: "voice_session_context \<Rightarrow> caching_tts \<Rightarrow> caching_tts" where
  "caching_bind ctx p =
     p\<lparr>ct_project_id := (case sx_project_id ctx of Some t \<Rightarrow> trim t | None \<Rightarrow> [])\<rparr>"

definition take_cache_hit :: "caching_tts \<Rightarrow> nat option \<times> caching_tts" where
  "take_cache_hit p = (ct_last_hit p, p\<lparr>ct_last_hit := None\<rparr>)"

text \<open>What a hit sends, one bounded chunk per slice; the sink takes them until it refuses one.\<close>

definition hit_slices :: "tts_audio_chunk \<Rightarrow> tts_audio_chunk list" where
  "hit_slices chunk =
     map (\<lambda>slice. \<lparr>pcm = slice,
            duration_ms = max (duration_ms_from_mono_s16le (length slice div 2) WEBRTC_PCM_SAMPLE_RATE) 1\<rparr>)
       (slice_for_sink (pcm chunk))"

text \<open>
  \<open>synthesize_progressive_with_status\<close>.  \<open>cache_text\<close> is the wrapped provider's
  \<open>phrase_cache_text\<close>, \<open>inner\<close> what its synthesis of the text returns (asked only on a miss), \<open>accepts\<close>
  how many chunks a sink takes (\<open>None\<close> without one).  The third result is what the sink got from a hit.
\<close>

definition caching_synthesize ::
  "(ustring \<Rightarrow> ustring) \<Rightarrow> (ustring \<Rightarrow> 'e + tts_synthesis) \<Rightarrow> nat option \<Rightarrow> ustring \<Rightarrow>
   caching_tts \<Rightarrow> phrase_cache \<Rightarrow>
   (('e + tts_synthesis) \<times> tts_audio_chunk list \<times> caching_tts \<times> phrase_cache) option" where
  "caching_synthesize cache_text inner accepts text p c =
     (let normalized = normalize_phrase_text text in
      if normalized = [] then
        Some (Inr \<lparr>sy_chunks = [], sy_complete = True\<rparr>, [], p\<lparr>ct_last_hit := None\<rparr>, c)
      else
        (let key = phrase_key_new (ct_config p) (ct_project_id p) (cache_text normalized);
             (hit, c) = cache_get key c
         in case hit of
              Some chunk \<Rightarrow>
                Some (Inr \<lparr>sy_chunks = [chunk], sy_complete = True\<rparr>,
                  (case accepts of Some n \<Rightarrow> take n (hit_slices chunk) | None \<Rightarrow> []),
                  p\<lparr>ct_last_hit := Some (length text mod 2 ^ 32)\<rparr>, c)
            | None \<Rightarrow>
                (let p = p\<lparr>ct_last_hit := None\<rparr> in
                 case inner text of
                   Inl e \<Rightarrow> Some (Inl e, [], p, c)
                 | Inr out \<Rightarrow>
                     (case (if sy_complete out then concat_chunks (sy_chunks out) else None) of
                        None \<Rightarrow> Some (Inr out, [], p, c)
                      | Some chunk \<Rightarrow> map_option (\<lambda>c. (Inr out, [], p, c)) (cache_insert key chunk c)))))"

definition wraps_with_cache :: "cache_settings \<Rightarrow> tts_config \<Rightarrow> bool" where
  "wraps_with_cache settings config \<longleftrightarrow> cs_enabled settings \<and> caches_vendor settings (tc_provider config)"

end
