(* ===== verification/Tts_Cache_Lru.thy ===== *)
theory Tts_Cache_Lru
  imports Tts_Cache
begin

text \<open>
  The phrase cache implements a least-recently-used list bounded by bytes (\<open>lru_get\<close>,
  \<open>lru_insert\<close>), and the provider that uses it answers a hit only with audio that a complete
  synthesis for the same key had returned.
\<close>

section \<open>The specification\<close>

type_synonym lru = "(phrase_key \<times> tts_audio_chunk) list"

definition lru_bytes :: "lru \<Rightarrow> nat" where
  "lru_bytes xs = sum_list (map (\<lambda>(_, v). length (pcm v)) xs)"

definition lru_get :: "phrase_key \<Rightarrow> lru \<Rightarrow> tts_audio_chunk option \<times> lru" where
  "lru_get key xs =
     (case map_of xs key of
        None \<Rightarrow> (None, xs)
      | Some v \<Rightarrow> (Some v, AList.delete key xs @ [(key, v)]))"

text \<open>Oldest first: the newest suffix that fits.\<close>

fun lru_fit :: "nat \<Rightarrow> lru \<Rightarrow> lru" where
  "lru_fit budget [] = []"
| "lru_fit budget (x # xs) = (if lru_bytes (x # xs) \<le> budget then x # xs else lru_fit budget xs)"

definition lru_insert :: "nat \<Rightarrow> nat \<Rightarrow> phrase_key \<Rightarrow> tts_audio_chunk \<Rightarrow> lru \<Rightarrow> lru" where
  "lru_insert budget max_entry key v xs =
     (if length (pcm v) = 0 \<or> max_entry < length (pcm v) then xs
      else lru_fit budget (AList.delete key xs @ [(key, v)]))"

section \<open>Abstraction and invariant\<close>

definition lru_of :: "phrase_cache \<Rightarrow> lru" where
  "lru_of c = map (\<lambda>(_, k). (k, en_value (the (map_of (ch_map c) k)))) (ch_order c)"

definition entry_bytes :: "(phrase_key \<times> cache_entry) list \<Rightarrow> nat" where
  "entry_bytes m = sum_list (map (\<lambda>(_, e). length (pcm (en_value e))) m)"

text \<open>The map and the order agree; the budget itself may be exceeded inside \<open>cache_insert\<close>.\<close>

definition index_ok :: "phrase_cache \<Rightarrow> bool" where
  "index_ok c \<longleftrightarrow>
     bt_ok (ch_order c) \<and> distinct (map fst (ch_map c)) \<and>
     (\<forall>s k. (s, k) \<in> set (ch_order c) \<longleftrightarrow> (\<exists>e. map_of (ch_map c) k = Some e \<and> en_stamp e = s)) \<and>
     (\<forall>x \<in> set (ch_order c). fst x < ch_next_stamp c) \<and> ch_bytes c = entry_bytes (ch_map c)"

definition cache_ok :: "phrase_cache \<Rightarrow> bool" where
  "cache_ok c \<longleftrightarrow> index_ok c \<and> ch_bytes c \<le> ch_max_bytes c"

lemma entry_bytes_delete:
  "distinct (map fst m) \<Longrightarrow> map_of m k = Some e \<Longrightarrow>
    entry_bytes (AList.delete k m) + length (pcm (en_value e)) = entry_bytes m"
proof (induction m)
  case (Cons x m)
  show ?case
  proof (cases "fst x = k")
    case True
    then have "map_of m k = None" using Cons.prems(1) by (auto simp: map_of_eq_None_iff)
    then have "AList.delete k m = m" by (simp add: map_of_eq_None_iff)
    with True Cons.prems show ?thesis by (cases x) (auto simp: entry_bytes_def)
  next
    case False
    with Cons show ?thesis by (cases x) (auto simp: entry_bytes_def)
  qed
qed simp

lemma order_map: "index_ok c \<Longrightarrow> (s, k) \<in> set (ch_order c) \<Longrightarrow> \<exists>e. map_of (ch_map c) k = Some e \<and> en_stamp e = s"
  by (simp add: index_ok_def)

lemma map_order: "index_ok c \<Longrightarrow> map_of (ch_map c) k = Some e \<Longrightarrow> (en_stamp e, k) \<in> set (ch_order c)"
  by (simp add: index_ok_def)

lemma order_keys_distinct: "index_ok c \<Longrightarrow> distinct (map snd (ch_order c))"
proof -
  assume c: "index_ok c"
  have d: "distinct (map fst (ch_order c))"
    using c by (simp add: index_ok_def bt_ok_def strict_sorted_iff)
  have "inj_on snd (set (ch_order c))"
  proof (rule inj_onI)
    fix x y assume "x \<in> set (ch_order c)" "y \<in> set (ch_order c)" "snd x = snd y"
    then have "(fst x, snd y) \<in> set (ch_order c)" "(fst y, snd y) \<in> set (ch_order c)" by (metis prod.collapse)+
    with order_map [OF c this(1)] order_map [OF c this(2)] \<open>snd x = snd y\<close> show "x = y"
      by (auto simp: prod_eq_iff)
  qed
  then show ?thesis using d by (simp add: distinct_map)
qed

lemma lru_of_keys [simp]: "map fst (lru_of c) = map snd (ch_order c)"
  by (simp add: lru_of_def case_prod_beta comp_def)

lemma lru_of_lookup:
  assumes "index_ok c"
  shows "map_of (lru_of c) k = map_option en_value (map_of (ch_map c) k)"
proof (cases "map_of (ch_map c) k")
  case None
  then have "k \<notin> set (map snd (ch_order c))" using order_map [OF assms] by fastforce
  then have "map_of (lru_of c) k = None" by (metis lru_of_keys map_of_eq_None_iff set_map)
  with None show ?thesis by simp
next
  case (Some e)
  from map_order [OF assms Some] have "(k, en_value e) \<in> set (lru_of c)" by (force simp: lru_of_def Some)
  moreover have "distinct (map fst (lru_of c))" using order_keys_distinct [OF assms] by simp
  ultimately have "map_of (lru_of c) k = Some (en_value e)" by (simp add: map_of_eq_Some_iff)
  with Some show ?thesis by simp
qed

text \<open>Both structures hold the same entries, so the counted bytes are those of the list.\<close>

lemma lru_of_bytes:
  assumes "index_ok c"
  shows "lru_bytes (lru_of c) = ch_bytes c"
proof -
  have d: "distinct (map fst (lru_of c))" using order_keys_distinct [OF assms] by simp
  have dm: "distinct (map fst (ch_map c))" using assms by (simp add: index_ok_def)
  let ?vals = "map (\<lambda>(k, e). (k, en_value e)) (ch_map c)"
  have dv: "distinct (map fst ?vals)" using dm by (simp add: comp_def case_prod_beta)
  have "map_of ?vals = map_of (lru_of c)"
    using lru_of_lookup [OF assms] by (simp add: fun_eq_iff map_of_map)
  then have same: "set ?vals = set (lru_of c)" using map_of_inject_set [OF dv d] by blast
  have dist: "distinct ?vals" "distinct (lru_of c)" using d dv by (blast dest: distinct_map [THEN iffD1])+
  have "sum_list (map (\<lambda>(_, v). length (pcm v)) ?vals) = lru_bytes (lru_of c)"
    unfolding lru_bytes_def sum_list_distinct_conv_sum_set [OF dist(1)] sum_list_distinct_conv_sum_set [OF dist(2)] same ..
  moreover have "sum_list (map (\<lambda>(_, v). length (pcm v)) ?vals) = entry_bytes (ch_map c)"
    by (simp add: entry_bytes_def comp_def split_def)
  ultimately show ?thesis using assms by (simp add: index_ok_def)
qed

section \<open>Each operation simulates the specification\<close>

lemma bt_remove_other: "bt_ok t \<Longrightarrow> (s, k) \<in> set t \<Longrightarrow> distinct (map snd t) \<Longrightarrow>
    map snd (bt_remove s t) = filter (\<lambda>k'. k' \<noteq> k) (map snd t)"
proof (induction t)
  case (Cons x t)
  obtain s' k' where x: "x = (s', k')" by fastforce
  show ?case
  proof (cases "s' = s")
    case True
    then have "k' = k" using Cons.prems x by (auto simp: bt_ok_Cons)
    moreover have "\<forall>y \<in> set t. fst y \<noteq> s" using Cons.prems(1) x True by (auto simp: bt_ok_Cons)
    then have "bt_remove s t = t" by (auto simp: bt_remove_def filter_id_conv)
    moreover have "k \<notin> snd ` set t" using Cons.prems(3) x \<open>k' = k\<close> by simp
    then have "filter (\<lambda>k'. k' \<noteq> k) (map snd t) = map snd t" by (auto simp: filter_id_conv)
    ultimately show ?thesis using x True by (simp add: bt_remove_def)
  next
    case False
    then have "(s, k) \<in> set t" using Cons.prems(2) x by auto
    moreover from this have "k' \<noteq> k" using Cons.prems(3) x by force
    ultimately show ?thesis using Cons x False by (auto simp: bt_remove_def bt_ok_Cons)
  qed
qed simp

lemma lru_of_append:
  assumes "\<forall>x \<in> set t. fst x < s"
  shows "bt_ok t \<Longrightarrow> bt_insert s k t = t @ [(s, k)]"
  using assms by (simp add: bt_insert_last)

text \<open>Moving a key to the newest stamp.\<close>

lemma touch_ok:
  assumes c: "index_ok c" and e: "map_of (ch_map c) k = Some e"
  defines "c' \<equiv> c\<lparr>ch_next_stamp := ch_next_stamp c + 1, ch_map := AList.update k (e\<lparr>en_stamp := ch_next_stamp c\<rparr>) (ch_map c),
    ch_order := bt_insert (ch_next_stamp c) k (bt_remove (en_stamp e) (ch_order c))\<rparr>"
  shows "index_ok c'" "lru_of c' = AList.delete k (lru_of c) @ [(k, en_value e)]" "ch_bytes c' = ch_bytes c"
proof -
  let ?s = "ch_next_stamp c" and ?o = "bt_remove (en_stamp e) (ch_order c)"
  have ok: "bt_ok (ch_order c)" and d: "distinct (map fst (ch_map c))"
      and link: "\<And>s i. (s, i) \<in> set (ch_order c) \<longleftrightarrow> (\<exists>e. map_of (ch_map c) i = Some e \<and> en_stamp e = s)"
      and lt: "\<forall>x \<in> set (ch_order c). fst x < ?s"
    using c by (simp_all add: index_ok_def)
  have o: "bt_ok ?o" "set ?o = {x \<in> set (ch_order c). fst x \<noteq> en_stamp e}" "\<forall>x \<in> set ?o. fst x < ?s"
    using bt_remove_ok [OF ok] lt by (auto simp: bt_remove_def)
  have ins: "bt_insert ?s k ?o = ?o @ [(?s, k)]" by (rule bt_insert_last [OF o(1,3)])
  have mem: "(en_stamp e, k) \<in> set (ch_order c)" using link e by blast
  have uniq: "i = k" if "(en_stamp e, i) \<in> set (ch_order c)" for i
    using that mem bt_get_iff_in [OF ok] by (metis option.inject)
  show "ch_bytes c' = ch_bytes c" by (simp add: c'_def)
  have size: "entry_bytes (AList.update k (e\<lparr>en_stamp := n\<rparr>) m) = entry_bytes m" if "map_of m k = Some e" for n m
    using that by (induction m) (auto simp: entry_bytes_def split: if_splits)
  have "(s, i) \<in> set (?o @ [(?s, k)]) \<longleftrightarrow>
      (\<exists>x. map_of (AList.update k (e\<lparr>en_stamp := ?s\<rparr>) (ch_map c)) i = Some x \<and> en_stamp x = s)" for s i
    using link [of s i] uniq [of i] lt e by (auto simp: o(2) AList.update_conv')
  moreover have "bt_ok (?o @ [(?s, k)])" using bt_insert_ok [OF o(1)] ins by metis
  ultimately show "index_ok c'"
    using c o(3) d size [OF e] by (auto simp: c'_def index_ok_def ins AList.distinct_update)
  have "lru_of c' = map (\<lambda>i. (i, en_value (the (map_of (ch_map c) i)))) (map snd ?o) @ [(k, en_value e)]"
    by (auto simp: c'_def lru_of_def ins AList.update_conv' case_prod_beta e)
  also have "map snd ?o = filter (\<lambda>i. i \<noteq> k) (map snd (ch_order c))"
    by (rule bt_remove_other [OF ok mem order_keys_distinct [OF c]])
  also have "map (\<lambda>i. (i, en_value (the (map_of (ch_map c) i)))) \<dots> = AList.delete k (lru_of c)"
    by (auto simp: lru_of_def AList.delete_eq filter_map comp_def case_prod_beta intro!: map_cong filter_cong)
  finally show "lru_of c' = AList.delete k (lru_of c) @ [(k, en_value e)]" .
qed

lemma get_simulates:
  assumes "cache_ok c"
  shows "cache_ok (snd (cache_get k c)) \<and> fst (cache_get k c) = fst (lru_get k (lru_of c)) \<and>
    lru_of (snd (cache_get k c)) = snd (lru_get k (lru_of c))"
proof (cases "map_of (ch_map c) k")
  case None
  have "index_ok (c\<lparr>ch_next_stamp := ch_next_stamp c + 1\<rparr>)" using assms by (auto simp: cache_ok_def index_ok_def)
  with None assms lru_of_lookup [of c k] show ?thesis
    by (simp add: cache_get_def cache_bump_def lru_get_def cache_ok_def lru_of_def)
next
  case (Some e)
  have c: "index_ok c" using assms by (simp add: cache_ok_def)
  from touch_ok [OF c Some] Some assms lru_of_lookup [OF c, of k] show ?thesis
    by (simp add: cache_get_def cache_bump_def lru_get_def cache_ok_def)
qed

lemma drop_ok:
  assumes c: "index_ok c" and order: "ch_order c = (s, k) # rest \<or> (\<exists>e. map_of (ch_map c) k = Some e \<and> en_stamp e = s)"
  shows "\<exists>c'. cache_drop k (c\<lparr>ch_order := bt_remove s (ch_order c)\<rparr>) = Some c' \<and> index_ok c' \<and>
    lru_of c' = AList.delete k (lru_of c) \<and> ch_max_bytes c' = ch_max_bytes c \<and>
    ch_max_entry_bytes c' = ch_max_entry_bytes c \<and> length (ch_order c') < length (ch_order c) \<and>
    map_of (ch_map c') k = None"
proof -
  have ok: "bt_ok (ch_order c)" and d: "distinct (map fst (ch_map c))"
      and link: "\<And>s i. (s, i) \<in> set (ch_order c) \<longleftrightarrow> (\<exists>e. map_of (ch_map c) i = Some e \<and> en_stamp e = s)"
      and lt: "\<forall>x \<in> set (ch_order c). fst x < ch_next_stamp c" and bytes: "ch_bytes c = entry_bytes (ch_map c)"
    using c by (simp_all add: index_ok_def)
  have mem: "(s, k) \<in> set (ch_order c)" using order link [of s k] by (metis list.set_intros(1))
  then obtain e where e: "map_of (ch_map c) k = Some e" "en_stamp e = s" using link by blast
  let ?o = "bt_remove s (ch_order c)" and ?m = "AList.delete k (ch_map c)"
  have uniq: "i = k" if "(s, i) \<in> set (ch_order c)" for i
    using that mem bt_get_iff_in [OF ok] by (metis option.inject)
  have o: "bt_ok ?o" "set ?o = {x \<in> set (ch_order c). fst x \<noteq> s}" using bt_remove_ok [OF ok] by (auto simp: bt_remove_def)
  have sum: "entry_bytes ?m + length (pcm (en_value e)) = entry_bytes (ch_map c)" by (rule entry_bytes_delete [OF d e(1)])
  let ?c = "c\<lparr>ch_order := ?o, ch_map := ?m, ch_bytes := ch_bytes c - length (pcm (en_value e))\<rparr>"
  have "cache_drop k (c\<lparr>ch_order := ?o\<rparr>) = Some ?c" using e bytes sum by (simp add: cache_drop_def)
  moreover have "(t, i) \<in> set ?o \<longleftrightarrow> (\<exists>x. map_of ?m i = Some x \<and> en_stamp x = t)" for t i
    using link [of t i] uniq [of i] e by (auto simp: o(2) AList.delete_conv')
  then have "index_ok ?c" using o lt sum bytes d by (auto simp: index_ok_def AList.distinct_delete)
  moreover have "lru_of ?c = AList.delete k (lru_of c)"
  proof -
    have "lru_of ?c = map (\<lambda>i. (i, en_value (the (map_of ?m i)))) (map snd ?o)"
      by (simp add: lru_of_def split_def comp_def)
    also have "map snd ?o = filter (\<lambda>i. i \<noteq> k) (map snd (ch_order c))"
      by (rule bt_remove_other [OF ok mem order_keys_distinct [OF c]])
    also have "map (\<lambda>i. (i, en_value (the (map_of ?m i)))) \<dots> =
        map (\<lambda>i. (i, en_value (the (map_of (ch_map c) i)))) (filter (\<lambda>i. i \<noteq> k) (map snd (ch_order c)))"
      by (rule map_cong) (auto simp: AList.delete_conv')
    also have "\<dots> = AList.delete k (lru_of c)"
      by (simp add: lru_of_def AList.delete_eq filter_map comp_def split_def eq_commute [of k])
    finally show ?thesis .
  qed
  moreover have "length ?o < length (ch_order c)"
    using mem unfolding bt_remove_def by (intro length_filter_less [of "(s, k)"]) auto
  moreover have "map_of ?m k = None" by (simp add: AList.delete_conv')
  ultimately show ?thesis by auto
qed

lemma pop_first: "bt_ok ((s, k) # rest) \<Longrightarrow> bt_remove s ((s, k) # rest) = rest"
  by (auto simp: bt_remove_def bt_ok_Cons filter_id_conv)

lemma lru_fit_empty: "lru_fit b xs = xs" if "lru_bytes xs \<le> b"
  using that by (cases xs) auto

text \<open>The eviction loop ends within the budget and leaves the newest suffix that fits.\<close>

lemma evict_simulates:
  "index_ok c \<Longrightarrow> \<exists>c'. cache_evict c = Some c' \<and> cache_ok c' \<and> lru_of c' = lru_fit (ch_max_bytes c) (lru_of c) \<and>
    ch_max_bytes c' = ch_max_bytes c \<and> ch_max_entry_bytes c' = ch_max_entry_bytes c"
proof (induction c rule: cache_evict.induct)
  case (1 c)
  note bytes = lru_of_bytes [OF 1(2)]
  show ?case
  proof (cases "ch_bytes c \<le> ch_max_bytes c")
    case True
    with 1(2) bytes show ?thesis by (simp add: cache_evict.simps [of c] cache_ok_def lru_fit_empty)
  next
    case False
    show ?thesis
    proof (cases "ch_order c")
      case Nil
      then have "lru_of c = []" by (simp add: lru_of_def)
      with bytes False show ?thesis by (simp add: lru_bytes_def)
    next
      case (Cons x rest)
      obtain s k where x: "x = (s, k)" by fastforce
      have "bt_ok (ch_order c)" using 1(2) by (simp add: index_ok_def)
      then have pop: "bt_remove s (ch_order c) = rest" using pop_first Cons x by metis
      obtain c' where c': "cache_drop k (c\<lparr>ch_order := rest\<rparr>) = Some c'" "index_ok c'"
          "lru_of c' = AList.delete k (lru_of c)" "ch_max_bytes c' = ch_max_bytes c"
          "ch_max_entry_bytes c' = ch_max_entry_bytes c"
        using drop_ok [OF 1(2), of s k rest] Cons x pop by auto
      obtain v tl where tl: "lru_of c = (k, v) # tl" "map fst tl = map snd rest"
        using Cons x by (simp add: lru_of_def split_def comp_def)
      have "k \<notin> fst ` set tl" using order_keys_distinct [OF 1(2)] Cons x tl(2) by (metis distinct.simps(2) list.map(2) set_map snd_conv)
      then have "lru_of c' = tl" using c'(3) tl(1) by simp
      moreover have "lru_fit (ch_max_bytes c) (lru_of c) = lru_fit (ch_max_bytes c) tl"
        using False bytes tl(1) by simp
      moreover have "cache_evict c = cache_evict c'" using False Cons x c'(1) by (simp add: cache_evict.simps [of c])
      ultimately show ?thesis using 1(1) [OF False Cons x [symmetric] c'(1,2)] c' by auto
    qed
  qed
qed

lemma delete_absent: "index_ok c \<Longrightarrow> map_of (ch_map c) k = None \<Longrightarrow> AList.delete k (lru_of c) = lru_of c"
  using lru_of_lookup [of c k] map_of_eq_None_iff [of "lru_of c" k] by (simp add: delete_id)

lemma append_ok:
  fixes c :: phrase_cache and k :: phrase_key and v :: tts_audio_chunk
  assumes c: "index_ok c" and none: "map_of (ch_map c) k = None"
  defines "c' \<equiv> c\<lparr>ch_next_stamp := ch_next_stamp c + 1, ch_order := bt_insert (ch_next_stamp c) k (ch_order c),
    ch_map := AList.update k \<lparr>en_value = v, en_stamp = ch_next_stamp c\<rparr> (ch_map c), ch_bytes := ch_bytes c + length (pcm v)\<rparr>"
  shows "index_ok c'" "lru_of c' = lru_of c @ [(k, v)]"
proof -
  have lt: "\<forall>x \<in> set (ch_order c). fst x < ch_next_stamp c" and ok: "bt_ok (ch_order c)"
      and link: "\<And>s i. (s, i) \<in> set (ch_order c) \<longleftrightarrow> (\<exists>e. map_of (ch_map c) i = Some e \<and> en_stamp e = s)"
    using c by (simp_all add: index_ok_def)
  have ins: "bt_insert (ch_next_stamp c) k (ch_order c) = ch_order c @ [(ch_next_stamp c, k)]"
    by (rule bt_insert_last [OF ok lt])
  have size: "entry_bytes (AList.update k e m) = entry_bytes m + length (pcm (en_value e))" if "map_of m k = None" for m e
    using that by (induction m) (auto simp: entry_bytes_def split: if_splits)
  have "bt_ok (ch_order c @ [(ch_next_stamp c, k)])" using bt_insert_ok [OF ok] ins by metis
  moreover have "(s, i) \<in> set (ch_order c @ [(ch_next_stamp c, k)]) \<longleftrightarrow>
      (\<exists>x. map_of (AList.update k \<lparr>en_value = v, en_stamp = ch_next_stamp c\<rparr> (ch_map c)) i = Some x \<and> en_stamp x = s)" for s i
    using link [of s i] none by (auto simp: AList.update_conv')
  ultimately show "index_ok c'"
    using c lt size [OF none] by (auto simp: c'_def index_ok_def ins AList.distinct_update)
  have "k \<notin> set (map snd (ch_order c))" using link none by fastforce
  then show "lru_of c' = lru_of c @ [(k, v)]"
    by (auto simp: c'_def lru_of_def ins AList.update_conv' split_def intro!: map_cong)
qed

lemma insert_simulates:
  assumes "cache_ok c"
  shows "\<exists>c'. cache_insert k v c = Some c' \<and> cache_ok c' \<and>
    lru_of c' = lru_insert (ch_max_bytes c) (ch_max_entry_bytes c) k v (lru_of c) \<and>
    ch_max_bytes c' = ch_max_bytes c \<and> ch_max_entry_bytes c' = ch_max_entry_bytes c"
proof (cases "length (pcm v) = 0 \<or> ch_max_entry_bytes c < length (pcm v)")
  case True
  with assms show ?thesis by (auto simp: cache_insert_def lru_insert_def Let_def)
next
  case fits: False
  have c: "index_ok c" using assms by (simp add: cache_ok_def)
  let ?dropped = "case map_of (ch_map c) k of
    Some old \<Rightarrow> cache_drop k (c\<lparr>ch_order := bt_remove (en_stamp old) (ch_order c)\<rparr>) | None \<Rightarrow> Some c"
  obtain c1 where c1: "?dropped = Some c1" "index_ok c1" "lru_of c1 = AList.delete k (lru_of c)"
      "ch_max_bytes c1 = ch_max_bytes c" "ch_max_entry_bytes c1 = ch_max_entry_bytes c" "map_of (ch_map c1) k = None"
  proof (cases "map_of (ch_map c) k")
    case None
    with c delete_absent [OF c None] that show ?thesis by simp
  next
    case (Some e)
    from drop_ok [OF c, of "en_stamp e" k "[]"] Some that show ?thesis by auto
  qed
  let ?c2 = "c1\<lparr>ch_next_stamp := ch_next_stamp c1 + 1, ch_order := bt_insert (ch_next_stamp c1) k (ch_order c1),
    ch_map := AList.update k \<lparr>en_value = v, en_stamp = ch_next_stamp c1\<rparr> (ch_map c1), ch_bytes := ch_bytes c1 + length (pcm v)\<rparr>"
  have "cache_insert k v c = cache_evict ?c2"
    using fits c1(1) by (simp add: cache_insert_def cache_bump_def Let_def)
  moreover note append_ok [OF c1(2,6), of v] evict_simulates [of ?c2]
  ultimately show ?thesis using fits c1 by (auto simp: lru_insert_def)
qed

section \<open>Runs\<close>

datatype cache_op = CacheGet phrase_key | CacheInsert phrase_key tts_audio_chunk

fun cache_step :: "phrase_cache \<Rightarrow> cache_op \<Rightarrow> (phrase_cache \<times> tts_audio_chunk option list) option" where
  "cache_step c (CacheGet key) = (case cache_get key c of (r, c) \<Rightarrow> Some (c, [r]))"
| "cache_step c (CacheInsert key v) = map_option (\<lambda>c. (c, [])) (cache_insert key v c)"

fun lru_step :: "nat \<Rightarrow> nat \<Rightarrow> lru \<Rightarrow> cache_op \<Rightarrow> (lru \<times> tts_audio_chunk option list) option" where
  "lru_step budget max_entry xs (CacheGet key) = (case lru_get key xs of (r, xs) \<Rightarrow> Some (xs, [r]))"
| "lru_step budget max_entry xs (CacheInsert key v) = Some (lru_insert budget max_entry key v xs, [])"

definition cache_within :: "nat \<Rightarrow> nat \<Rightarrow> phrase_cache \<Rightarrow> bool" where
  "cache_within budget max_entry c \<longleftrightarrow> cache_ok c \<and> ch_max_bytes c = budget \<and> ch_max_entry_bytes c = max_entry"

lemma get_limits [simp]: "ch_max_bytes (snd (cache_get k c)) = ch_max_bytes c" "ch_max_entry_bytes (snd (cache_get k c)) = ch_max_entry_bytes c"
  by (simp_all add: cache_get_def cache_bump_def split: option.split)

lemma cache_step_simulates:
  assumes "cache_within b m c"
  shows "\<exists>c' out. cache_step c op = Some (c', out) \<and> cache_within b m c' \<and> lru_step b m (lru_of c) op = Some (lru_of c', out)"
proof (cases op)
  case (CacheGet key)
  with get_simulates [of c key] get_limits [of key c] assms show ?thesis
    by (auto simp: cache_within_def simp del: get_limits split: prod.splits)
next
  case (CacheInsert key v)
  with insert_simulates [of c key v] assms show ?thesis by (auto simp: cache_within_def)
qed

interpretation phrase_cache: component cache_step "cache_within b m" for b m
  by unfold_locales (use cache_step_simulates in blast)

lemma cache_run_simulates:
  "cache_within b m c \<Longrightarrow> \<exists>c' out. run_ops cache_step c ops = Some (c', out) \<and> cache_within b m c' \<and>
    run_ops (lru_step b m) (lru_of c) ops = Some (lru_of c', out)"
proof (induction ops arbitrary: c)
  case (Cons op ops)
  obtain c1 o1 where 1: "cache_step c op = Some (c1, o1)" "cache_within b m c1" "lru_step b m (lru_of c) op = Some (lru_of c1, o1)"
    using cache_step_simulates [OF Cons.prems] by blast
  from Cons.IH [OF 1(2)] 1(1,3) show ?case by auto
qed simp

lemma cache_new_within: "cache_within b m (cache_new b m)" "lru_of (cache_new b m) = []"
  by (simp_all add: cache_within_def cache_ok_def index_ok_def cache_new_def entry_bytes_def lru_of_def)

text \<open>
  C18: Over any sequence of lookups and insertions the cache never panics, returns what the reference
  least-recently-used list returns, holds exactly its phrases in its order of recency, counts their
  bytes exactly and stays within the byte budget.
\<close>

theorem phrase_cache_is_lru:
  "\<exists>c out. run_ops cache_step (cache_new budget max_entry) ops = Some (c, out) \<and>
     run_ops (lru_step budget max_entry) [] ops = Some (lru_of c, out) \<and>
     ch_bytes c = lru_bytes (lru_of c) \<and> lru_bytes (lru_of c) \<le> budget"
proof -
  obtain c out where r: "run_ops cache_step (cache_new budget max_entry) ops = Some (c, out)"
      "cache_within budget max_entry c" "run_ops (lru_step budget max_entry) [] ops = Some (lru_of c, out)"
    using cache_run_simulates [OF cache_new_within(1), of budget max_entry ops] by (auto simp: cache_new_within(2))
  then show ?thesis using lru_of_bytes [of c] by (auto simp: cache_within_def cache_ok_def)
qed


section \<open>Slices and one chunk\<close>

lemma slices_join [simp]: "concat (slice_for_sink audio) = audio"
  by (induction audio rule: slice_for_sink.induct) (subst slice_for_sink.simps, auto)

lemma slices_bounded: "s \<in> set (slice_for_sink audio) \<Longrightarrow> s \<noteq> [] \<and> length s \<le> SINK_SLICE_MAX_BYTES"
  by (induction audio rule: slice_for_sink.induct)
     (subst (asm) slice_for_sink.simps, auto simp: SINK_SLICE_MAX_BYTES_def split: if_splits)

lemma concat_take_prefix: "\<exists>rest. concat xs = concat (take n xs) @ rest"
  by (rule exI [of _ "concat (drop n xs)"]) (metis append_take_drop_id concat_append)

lemma concat_one_nonempty: "filter (\<lambda>x. x \<noteq> []) xs = [y] \<Longrightarrow> concat xs = y"
  by (induction xs) (auto simp: filter_empty_conv split: if_splits)

lemma concat_chunks_joins:
  assumes "concat_chunks cs = Some chunk"
  shows "pcm chunk = concat (map pcm cs)"
proof -
  let ?ne = "filter (\<lambda>c. pcm c \<noteq> []) cs"
  have "concat (map pcm cs) = pcm (hd ?ne)" if "length ?ne = 1"
  proof -
    from that obtain c where c: "?ne = [c]" by (auto simp: length_Suc_conv)
    have "filter (\<lambda>x. x \<noteq> []) (map pcm cs) = map pcm ?ne" by (simp add: filter_map comp_def)
    then show ?thesis using c concat_one_nonempty [of "map pcm cs" "pcm c"] by simp
  qed
  then show ?thesis using assms by (auto simp: concat_chunks_def Let_def split: if_splits)
qed

section \<open>Callers that share a cache\<close>

text \<open>One synthesis call: the provider it is made on, its text, what the wrapped synthesis would return.\<close>

record 'e cache_call =
  cl_provider :: caching_tts
  cl_text :: ustring
  cl_inner :: "'e + tts_synthesis"
  cl_accepts :: "nat option"

record 'e cache_answer =
  ca_call :: "'e cache_call"
  ca_result :: "'e + tts_synthesis"
  ca_sent :: "tts_audio_chunk list"
  ca_hit :: bool

definition call_key :: "(tts_config \<Rightarrow> ustring \<Rightarrow> ustring) \<Rightarrow> 'e cache_call \<Rightarrow> phrase_key" where
  "call_key cache_text cl =
     phrase_key_new (ct_config (cl_provider cl)) (ct_project_id (cl_provider cl))
       (cache_text (ct_config (cl_provider cl)) (normalize_phrase_text (cl_text cl)))"

definition call_step :: "(tts_config \<Rightarrow> ustring \<Rightarrow> ustring) \<Rightarrow> phrase_cache \<Rightarrow> 'e cache_call \<Rightarrow>
    (phrase_cache \<times> 'e cache_answer list) option" where
  "call_step cache_text c cl =
     map_option (\<lambda>(r, sent, p, c). (c, [\<lparr>ca_call = cl, ca_result = r, ca_sent = sent, ca_hit = (ct_last_hit p \<noteq> None)\<rparr>]))
       (caching_synthesize (cache_text (ct_config (cl_provider cl))) (\<lambda>_. cl_inner cl) (cl_accepts cl) (cl_text cl)
          (cl_provider cl) c)"

text \<open>The answer completed a synthesis of this audio for this key.\<close>

definition stores :: "(tts_config \<Rightarrow> ustring \<Rightarrow> ustring) \<Rightarrow> 'e cache_answer \<Rightarrow> phrase_key \<Rightarrow> tts_audio_chunk \<Rightarrow> bool" where
  "stores cache_text a key chunk \<longleftrightarrow>
     \<not> ca_hit a \<and> call_key cache_text (ca_call a) = key \<and>
     (\<exists>syn. ca_result a = Inr syn \<and> cl_inner (ca_call a) = Inr syn \<and> sy_complete syn \<and>
        concat_chunks (sy_chunks syn) = Some chunk)"

lemma lru_fit_subset: "set (lru_fit b xs) \<subseteq> set xs"
  by (induction xs) auto

lemma lru_insert_subset: "set (lru_insert b m k v xs) \<subseteq> insert (k, v) (set xs)"
  using lru_fit_subset [of b "AList.delete k xs @ [(k, v)]"] by (auto simp: lru_insert_def AList.delete_eq)

lemma lru_get_subset: "set (snd (lru_get k xs)) \<subseteq> set xs" "fst (lru_get k xs) = Some v \<Longrightarrow> (k, v) \<in> set xs"
  by (auto simp: lru_get_def AList.delete_eq dest: map_of_SomeD split: option.splits)

lemma call_step_ok:
  assumes "cache_within b m c"
  shows "\<exists>c' a. call_step cache_text c cl = Some (c', [a]) \<and> cache_within b m c' \<and> ca_call a = cl \<and>
    (\<forall>key chunk. (key, chunk) \<in> set (lru_of c') \<longrightarrow> (key, chunk) \<in> set (lru_of c) \<or> stores cache_text a key chunk) \<and>
    (ca_hit a \<longrightarrow> (\<exists>chunk rest. (call_key cache_text cl, chunk) \<in> set (lru_of c) \<and>
        ca_result a = Inr \<lparr>sy_chunks = [chunk], sy_complete = True\<rparr> \<and> pcm chunk = concat (map pcm (ca_sent a)) @ rest))"
proof -
  let ?n = "normalize_phrase_text (cl_text cl)" and ?k = "call_key cache_text cl"
  obtain hit c1 where g: "cache_get ?k c = (hit, c1)" by fastforce
  have c1: "cache_within b m c1" "set (lru_of c1) \<subseteq> set (lru_of c)"
      and hit: "\<And>v. hit = Some v \<Longrightarrow> (?k, v) \<in> set (lru_of c)"
    using get_simulates [of c ?k] get_limits [of ?k c] assms lru_get_subset [of ?k "lru_of c"]
    by (auto simp: cache_within_def g simp del: get_limits)
  note defs = call_step_def caching_synthesize_def Let_def call_key_def [symmetric]
  show ?thesis
  proof (cases "?n = []")
    case True
    with assms show ?thesis by (simp add: defs)
  next
    case False
    show ?thesis
    proof (cases hit)
      case (Some chunk)
      obtain rest where rest: "pcm chunk = concat (map pcm (case cl_accepts cl of Some n \<Rightarrow> take n (hit_slices chunk) | None \<Rightarrow> [])) @ rest"
        using concat_take_prefix [of "slice_for_sink (pcm chunk)"]
        by (cases "cl_accepts cl") (auto simp: hit_slices_def take_map comp_def)
      from Some False g c1 hit [OF Some] rest show ?thesis
        by (auto simp: defs intro!: exI [of _ rest])
    next
      case None
      show ?thesis
      proof (cases "\<exists>syn chunk. cl_inner cl = Inr syn \<and> sy_complete syn \<and> concat_chunks (sy_chunks syn) = Some chunk")
        case True
        then obtain syn chunk where syn: "cl_inner cl = Inr syn" "sy_complete syn" "concat_chunks (sy_chunks syn) = Some chunk"
          by blast
        from insert_simulates [of c1 ?k chunk] c1(1) obtain c2 where c2: "cache_insert ?k chunk c1 = Some c2"
            "cache_within b m c2" "set (lru_of c2) \<subseteq> insert (?k, chunk) (set (lru_of c1))"
          using lru_insert_subset by (auto simp: cache_within_def)
        from None False g c1 c2 syn show ?thesis
          by (auto simp: defs stores_def)
      next
        case False
        with None \<open>?n \<noteq> []\<close> g c1 show ?thesis
          by (auto simp: defs split: sum.split option.split)
      qed
    qed
  qed
qed

lemma call_run_provenance:
  "cache_within b m c \<Longrightarrow>
     (\<forall>key chunk. (key, chunk) \<in> set (lru_of c) \<longrightarrow> (\<exists>a \<in> set old. stores cache_text a key chunk)) \<Longrightarrow>
     \<exists>c' log. run_ops (call_step cache_text) c calls = Some (c', log) \<and> map ca_call log = calls \<and>
       (\<forall>pre a post. log = pre @ a # post \<longrightarrow> ca_hit a \<longrightarrow>
          (\<exists>chunk rest. (\<exists>s \<in> set (old @ pre). stores cache_text s (call_key cache_text (ca_call a)) chunk) \<and>
             ca_result a = Inr \<lparr>sy_chunks = [chunk], sy_complete = True\<rparr> \<and>
             pcm chunk = concat (map pcm (ca_sent a)) @ rest))"
proof (induction calls arbitrary: c old)
  case (Cons cl calls)
  obtain c1 a1 where step: "call_step cache_text c cl = Some (c1, [a1])" "cache_within b m c1" "ca_call a1 = cl"
      and held: "\<And>key chunk. (key, chunk) \<in> set (lru_of c1) \<Longrightarrow> (key, chunk) \<in> set (lru_of c) \<or> stores cache_text a1 key chunk"
      and hit: "ca_hit a1 \<Longrightarrow> \<exists>chunk rest. (call_key cache_text cl, chunk) \<in> set (lru_of c) \<and>
        ca_result a1 = Inr \<lparr>sy_chunks = [chunk], sy_complete = True\<rparr> \<and> pcm chunk = concat (map pcm (ca_sent a1)) @ rest"
    using call_step_ok [OF Cons.prems(1), of cache_text cl] by blast
  have "\<forall>key chunk. (key, chunk) \<in> set (lru_of c1) \<longrightarrow> (\<exists>a \<in> set (old @ [a1]). stores cache_text a key chunk)"
    using held Cons.prems(2) by fastforce
  from Cons.IH [OF step(2) this] obtain c2 log where run: "run_ops (call_step cache_text) c1 calls = Some (c2, log)"
      "map ca_call log = calls"
      and later: "\<And>pre a post. log = pre @ a # post \<Longrightarrow> ca_hit a \<Longrightarrow>
        \<exists>chunk rest. (\<exists>s \<in> set ((old @ [a1]) @ pre). stores cache_text s (call_key cache_text (ca_call a)) chunk) \<and>
          ca_result a = Inr \<lparr>sy_chunks = [chunk], sy_complete = True\<rparr> \<and> pcm chunk = concat (map pcm (ca_sent a)) @ rest"
    by blast
  have "\<exists>chunk rest. (\<exists>s \<in> set (old @ pre). stores cache_text s (call_key cache_text (ca_call a)) chunk) \<and>
      ca_result a = Inr \<lparr>sy_chunks = [chunk], sy_complete = True\<rparr> \<and> pcm chunk = concat (map pcm (ca_sent a)) @ rest"
    if "a1 # log = pre @ a # post" "ca_hit a" for pre a post
  proof (cases pre)
    case Nil
    with that have "a = a1" by simp
    with Nil hit that(2) step(3) Cons.prems(2) show ?thesis by fastforce
  next
    case (Cons x pre')
    with that have "log = pre' @ a # post" "x = a1" by auto
    with later [of pre' a post] that(2) Cons show ?thesis by simp
  qed
  with step run show ?case by (intro exI [of _ c2] exI [of _ "a1 # log"]) simp
qed simp


text \<open>
  The theorem at a shared cache: a project's greeting is synthesised once and replayed, another
  project's is not answered from it.
\<close>

definition greeting_calls :: "unit cache_call list" where
  "greeting_calls =
     (let p = caching_new \<lparr>tc_provider = TtsOpenai, tc_model = None, tc_model_path = None, tc_voice = None, tc_api_key = None,
                tc_endpoint = None, tc_transport = None, tc_sentence_case = CaseAuto\<rparr>;
          call = (\<lambda>project. \<lparr>cl_provider = p\<lparr>ct_project_id := utext project\<rparr>, cl_text = utext ''hi'',
                cl_inner = Inr \<lparr>sy_chunks = [\<lparr>pcm = [1, 2], duration_ms = 20\<rparr>], sy_complete = True\<rparr>, cl_accepts = None\<rparr>)
      in [call ''a'', call ''a'', call ''b''])"

definition greeting_log :: "unit cache_answer list" where
  "greeting_log = snd (the (run_ops (call_step (\<lambda>_ t. t)) (cache_new 1000 1000) greeting_calls))"

lemma greeting_log_hits: "map ca_hit greeting_log = [False, True, False]"
  by code_simp


end
