(* ===== verification/Tts_Text.thy ===== *)
theory Tts_Text
  imports Agent_Config
begin

text \<open>
  The text a TTS engine gets for a reply: \<open>crates/speech/src/tts_text.rs\<close> (capital letters at sentence
  starts, merging a short opener) and \<open>crates/vendor-sherpa-onnx/src/sentences.rs\<close> (the pieces that are
  synthesised one by one).  The Unicode tables of the standard library are an argument (\<open>char_ops\<close>).
\<close>

record char_ops =
  ch_alphabetic :: "uchar \<Rightarrow> bool"
  ch_alphanumeric :: "uchar \<Rightarrow> bool"
  ch_lowercase :: "uchar \<Rightarrow> bool"
  ch_to_uppercase :: "uchar \<Rightarrow> ustring"
  ch_to_lowercase :: "uchar \<Rightarrow> ustring"
  ch_str_to_lowercase :: "ustring \<Rightarrow> ustring"

section \<open>Sentence starts\<close>

record engine_text =
  et_text :: ustring
  et_adjusted :: nat

definition NON_TERMINAL_ABBREVIATIONS :: "ustring list" where
  "NON_TERMINAL_ABBREVIATIONS = map utext [''mr'', ''mrs'', ''ms'', ''dr'', ''st'', ''vs'', ''etc'']"

definition MAX_OPENER_LETTERS :: nat where "MAX_OPENER_LETTERS = 6"
definition MIN_CAPITALIZED_FRAGMENT_WORDS :: nat where "MIN_CAPITALIZED_FRAGMENT_WORDS = 2"

definition is_terminator :: "uchar \<Rightarrow> bool" where
  "is_terminator c \<longleftrightarrow> c = 46 \<or> c = 33 \<or> c = 63"

text \<open>\<open>rposition\<close> and the start of the token that ends before \<open>i\<close>.\<close>

definition rposition :: "('a \<Rightarrow> bool) \<Rightarrow> 'a list \<Rightarrow> nat option" where
  "rposition P xs = (case filter (\<lambda>i. P (xs ! i)) (rev [0..<length xs]) of [] \<Rightarrow> None | i # _ \<Rightarrow> Some i)"

lemma rposition_SomeD: "rposition P xs = Some i \<Longrightarrow> i < length xs \<and> P (xs ! i)"
proof -
  assume "rposition P xs = Some i"
  then obtain js where "filter (\<lambda>i. P (xs ! i)) (rev [0..<length xs]) = i # js"
    by (auto simp: rposition_def split: list.splits)
  from arg_cong [OF this, of set] show ?thesis by auto
qed

definition token_start :: "ustring \<Rightarrow> nat \<Rightarrow> nat" where
  "token_start chars i = (case rposition is_whitespace (take i chars) of Some p \<Rightarrow> p + 1 | None \<Rightarrow> 0)"

definition is_single_letter_token :: "char_ops \<Rightarrow> ustring \<Rightarrow> nat \<Rightarrow> bool" where
  "is_single_letter_token co chars i =
     (let start = token_start chars i in i - start = 1 \<and> ch_alphabetic co (chars ! start))"

definition fragment_word_count :: "ustring \<Rightarrow> nat \<Rightarrow> nat" where
  "fragment_word_count chars start =
     (let before = takeWhile (\<lambda>c. \<not> is_terminator c) (drop start chars)
      in length (split_whitespace (take (length before + 1) (drop start chars))))"

definition ends_sentence_at :: "char_ops \<Rightarrow> ustring \<Rightarrow> nat \<Rightarrow> bool" where
  "ends_sentence_at co chars i =
     (if chars ! i \<noteq> 46 then True
      else if 0 < i \<and> chars ! (i - 1) = 46 then False
      else
        (let token = drop (token_start chars i) (take i chars)
         in if 46 \<in> set token then False
            else ch_str_to_lowercase co token \<notin> set NON_TERMINAL_ABBREVIATIONS))"

text \<open>One turn of the loop; the inner loop that skips whitespace is \<open>takeWhile\<close>.\<close>

definition engine_step :: "char_ops \<Rightarrow> ustring \<Rightarrow> nat \<Rightarrow> ustring \<times> nat \<times> nat option \<Rightarrow> ustring \<times> nat \<times> nat option" where
  "engine_step co chars i = (\<lambda>(out, adjusted, upper_at).
     let c = chars ! i;
         (out, adjusted, upper_at) =
           (if upper_at = Some i then (out @ ch_to_uppercase co c, adjusted + 1, None)
            else (out @ [c], adjusted, upper_at))
     in if \<not> is_terminator c \<or> \<not> ends_sentence_at co chars i then (out, adjusted, upper_at)
        else
          (let j = i + 1 + length (takeWhile is_whitespace (drop (i + 1) chars))
           in if j > i + 1 \<and> j < length chars \<and> ch_lowercase co (chars ! j) \<and>
                 \<not> is_single_letter_token co chars i \<and>
                 MIN_CAPITALIZED_FRAGMENT_WORDS \<le> fragment_word_count chars j
              then (out, adjusted, Some j)
              else (out, adjusted, upper_at)))"

definition prepare_engine_text :: "char_ops \<Rightarrow> ustring \<Rightarrow> sentence_case \<Rightarrow> engine_text" where
  "prepare_engine_text co text mode =
     (if mode = CaseOff then \<lparr>et_text = text, et_adjusted = 0\<rparr>
      else
        (case fold (engine_step co text) [0..<length text] ([], 0, None) of
           (out, adjusted, _) \<Rightarrow> \<lparr>et_text = out, et_adjusted = adjusted\<rparr>))"

section \<open>A short opener\<close>

definition is_ascii_upper :: "uchar \<Rightarrow> bool" where "is_ascii_upper c \<longleftrightarrow> 65 \<le> c \<and> c \<le> 90"
definition is_ascii_lower :: "uchar \<Rightarrow> bool" where "is_ascii_lower c \<longleftrightarrow> 97 \<le> c \<and> c \<le> 122"
definition is_ascii_letter :: "uchar \<Rightarrow> bool" where "is_ascii_letter c \<longleftrightarrow> is_ascii_upper c \<or> is_ascii_lower c"

definition starts_with_capitalized_word :: "char_ops \<Rightarrow> ustring \<Rightarrow> bool" where
  "starts_with_capitalized_word co rest =
     (let word = takeWhile is_ascii_letter rest in
      case word of
        [] \<Rightarrow> False
      | first # others \<Rightarrow>
          2 \<le> length word \<and> is_ascii_upper first \<and> list_all is_ascii_lower others \<and>
          \<not> (case drop (length word) rest of c # _ \<Rightarrow> ch_alphabetic co c | [] \<Rightarrow> False))"

definition merge_short_opener :: "char_ops \<Rightarrow> ustring \<Rightarrow> ustring" where
  "merge_short_opener co text =
     (let token = takeWhile (\<lambda>c. \<not> is_whitespace c) text in
      if length token = length text then text
      else if token = [] \<or> last token \<notin> {33, 46} then text
      else
        (let word = butlast token;
             is_opener = (2 \<le> length word \<and> length word \<le> MAX_OPENER_LETTERS \<and> list_all is_ascii_letter word \<and>
               ch_str_to_lowercase co word \<notin> set NON_TERMINAL_ABBREVIATIONS)
         in if \<not> is_opener then text
            else
              (let rest = trim_start (drop (length token) text) in
               if \<not> list_ex (ch_alphanumeric co) rest then text
               else word @ [44, 32] @
                 (if starts_with_capitalized_word co rest
                  then (case rest of first # chars \<Rightarrow> ch_to_lowercase co first @ chars | [] \<Rightarrow> [])
                  else rest))))"

section \<open>Pieces\<close>

datatype tts_model_family = Vits | Kokoro | Kitten

definition MAX_SENTENCE_CHARS :: nat where "MAX_SENTENCE_CHARS = 300"
definition MIN_SENTENCE_WORDS :: nat where "MIN_SENTENCE_WORDS = 4"
definition FIRST_PIECE_MAX_WORDS :: nat where "FIRST_PIECE_MAX_WORDS = 12"
definition ASCII_TERMINATORS :: "uchar list" where "ASCII_TERMINATORS = [46, 33, 63, 59]"
definition CJK_TERMINATORS :: "uchar list" where "CJK_TERMINATORS = [12290, 65281, 65311, 65307]"

definition push_trimmed :: "ustring \<Rightarrow> ustring list" where
  "push_trimmed current = (if trim current = [] then [] else [trim current])"

fun raw_sentences :: "ustring \<Rightarrow> ustring \<Rightarrow> ustring list" where
  "raw_sentences current [] = push_trimmed current"
| "raw_sentences current (c # chars) =
     (let current = current @ [c] in
      if c \<in> set CJK_TERMINATORS \<or>
         (c \<in> set ASCII_TERMINATORS \<and> (case chars of next # _ \<Rightarrow> is_whitespace next | [] \<Rightarrow> True))
      then push_trimmed current @ raw_sentences [] chars
      else raw_sentences current chars)"

definition has_alphanumeric :: "char_ops \<Rightarrow> ustring \<Rightarrow> bool" where
  "has_alphanumeric co piece = list_ex (ch_alphanumeric co) piece"

fun merge_symbols :: "char_ops \<Rightarrow> ustring list \<Rightarrow> ustring option \<Rightarrow> ustring list \<Rightarrow> ustring list" where
  "merge_symbols co out pending [] = out"
| "merge_symbols co out pending (piece # pieces) =
     (if has_alphanumeric co piece then
        (case pending of
           Some prefix \<Rightarrow> merge_symbols co (out @ [prefix @ [32] @ piece]) None pieces
         | None \<Rightarrow> merge_symbols co (out @ [piece]) None pieces)
      else if out \<noteq> [] then merge_symbols co (butlast out @ [last out @ [32] @ piece]) pending pieces
      else
        (case pending of
           Some prefix \<Rightarrow> merge_symbols co out (Some (prefix @ [32] @ piece)) pieces
         | None \<Rightarrow> merge_symbols co out (Some piece) pieces))"

definition merge_symbol_only :: "char_ops \<Rightarrow> ustring list \<Rightarrow> ustring list" where
  "merge_symbol_only co pieces = merge_symbols co [] None pieces"

definition is_cjk_letter :: "uchar \<Rightarrow> bool" where
  "is_cjk_letter c \<longleftrightarrow> (12352 \<le> c \<and> c \<le> 12543) \<or> (13312 \<le> c \<and> c \<le> 40959) \<or> (44032 \<le> c \<and> c \<le> 55215) \<or>
     (63744 \<le> c \<and> c \<le> 64255)"

definition is_short :: "char_ops \<Rightarrow> ustring \<Rightarrow> bool" where
  "is_short co piece =
     (if list_ex is_cjk_letter piece then length (filter (ch_alphanumeric co) piece) < MIN_SENTENCE_WORDS
      else length (split_whitespace piece) < MIN_SENTENCE_WORDS)"

definition join_pieces :: "ustring \<Rightarrow> ustring \<Rightarrow> ustring" where
  "join_pieces first second =
     (if first \<noteq> [] \<and> (is_cjk_letter (last first) \<or> last first \<in> set CJK_TERMINATORS)
      then first @ second else first @ [32] @ second)"

fun merge_shorts :: "char_ops \<Rightarrow> ustring list \<Rightarrow> ustring option \<Rightarrow> ustring list \<Rightarrow> ustring list" where
  "merge_shorts co out current [] =
     (case current of
        None \<Rightarrow> out
      | Some tail \<Rightarrow> if out = [] then [tail] else butlast out @ [join_pieces (last out) tail])"
| "merge_shorts co out current (piece # pieces) =
     (let combined = (case current of Some head \<Rightarrow> join_pieces head piece | None \<Rightarrow> piece) in
      if is_short co combined then merge_shorts co out (Some combined) pieces
      else merge_shorts co (out @ [combined]) None pieces)"

definition merge_short :: "char_ops \<Rightarrow> ustring list \<Rightarrow> ustring list" where
  "merge_short co pieces = merge_shorts co [] None pieces"

text \<open>Where a long piece is cut: the length of the head, and how many characters are skipped after it.\<close>

definition long_cut :: "ustring \<Rightarrow> nat \<times> nat" where
  "long_cut rest =
     (case rposition (\<lambda>c. c = 44) (take MAX_SENTENCE_CHARS rest) of
        Some i \<Rightarrow> (i + 1, 0)
      | None \<Rightarrow>
          (case rposition is_whitespace (take (MAX_SENTENCE_CHARS + 1) rest) of
             Some i \<Rightarrow> if 0 < i then (i, 1) else (MAX_SENTENCE_CHARS, 0)
           | None \<Rightarrow> (MAX_SENTENCE_CHARS, 0)))"

lemma long_cut_pos: "0 < fst (long_cut rest)"
  by (auto simp: long_cut_def MAX_SENTENCE_CHARS_def split: option.splits)

function split_long :: "ustring \<Rightarrow> ustring list" where
  "split_long rest =
     (if MAX_SENTENCE_CHARS < length rest then
        push_trimmed (take (fst (long_cut rest)) rest) @
        split_long (dropWhile is_whitespace (drop (fst (long_cut rest) + snd (long_cut rest)) rest))
      else push_trimmed rest)"
  by pat_completeness auto
termination
proof (relation "measure length", simp)
  fix rest :: ustring
  assume "MAX_SENTENCE_CHARS < length rest"
  moreover have "length (dropWhile is_whitespace (drop n rest)) \<le> length rest - n" for n
    by (metis length_drop length_dropWhile_le)
  ultimately show "(dropWhile is_whitespace (drop (fst (long_cut rest) + snd (long_cut rest)) rest), rest) \<in> measure length"
    using long_cut_pos [of rest] by (fastforce simp: MAX_SENTENCE_CHARS_def intro: le_less_trans)
qed

declare split_long.simps [simp del]

definition split_sentences :: "char_ops \<Rightarrow> ustring \<Rightarrow> ustring list" where
  "split_sentences co text = concat (map split_long (merge_short co (merge_symbol_only co (raw_sentences [] text))))"

text \<open>The offset after each word of \<open>split_whitespace\<close>.\<close>

definition word_ends :: "ustring \<Rightarrow> nat list" where
  "word_ends t = filter (\<lambda>e. \<not> is_whitespace (t ! (e - 1)) \<and> (e = length t \<or> is_whitespace (t ! e))) [1..<length t + 1]"

definition first_cut :: "ustring \<Rightarrow> nat option" where
  "first_cut first =
     map_option snd (find (\<lambda>(i, e). MIN_SENTENCE_WORDS \<le> i + 1 \<and> first ! (e - 1) = 44)
       (enumerate 0 (word_ends first)))"

definition split_for_first_audio :: "char_ops \<Rightarrow> ustring \<Rightarrow> ustring list" where
  "split_for_first_audio co text =
     (case split_sentences co text of
        [] \<Rightarrow> []
      | first # others \<Rightarrow>
          if length (split_whitespace first) \<le> FIRST_PIECE_MAX_WORDS then first # others
          else
            (case first_cut first of
               None \<Rightarrow> first # others
             | Some off \<Rightarrow>
                 (let head = trim_end (take off first); rest = trim (drop off first)
                  in if length (split_whitespace rest) < MIN_SENTENCE_WORDS then first # others
                     else head # rest # others)))"

definition engine_pieces :: "char_ops \<Rightarrow> ustring \<Rightarrow> sentence_case \<Rightarrow> tts_model_family \<Rightarrow> ustring list" where
  "engine_pieces co normalized mode family =
     (let merged = (if family = Kitten then merge_short_opener co normalized else normalized);
          engine = et_text (prepare_engine_text co merged mode);
          pieces = split_for_first_audio co engine
      in if pieces = [] then [engine] else pieces)"

section \<open>No text is lost\<close>

definition visible :: "ustring \<Rightarrow> ustring" where
  "visible t = filter (\<lambda>c. \<not> is_whitespace c) t"

definition spoken :: "ustring list \<Rightarrow> ustring" where
  "spoken pieces = visible (concat pieces)"

named_theorems visible_simps

lemma visible_append [visible_simps]: "visible (a @ b) = visible a @ visible b" "visible [] = []"
  by (simp_all add: visible_def)

lemma visible_space [visible_simps]: "visible [32] = []" "visible (32 # t) = visible t"
  by (simp_all add: visible_def is_whitespace_def)

lemma visible_dropWhile [visible_simps]: "visible (dropWhile is_whitespace t) = visible t"
  by (induction t) (auto simp: visible_def)

lemma visible_rev: "visible (rev t) = rev (visible t)"
  by (simp add: visible_def rev_filter)

lemma visible_trim [visible_simps]: "visible (trim_start t) = visible t" "visible (trim_end t) = visible t" "visible (trim t) = visible t"
  by (simp_all add: trim_def trim_start_def trim_end_def visible_rev visible_dropWhile)

lemma trim_Nil_visible: "trim t = [] \<Longrightarrow> visible t = []"
  using visible_trim(3) [of t] by (simp add: visible_append)

lemma spoken_simps [visible_simps]: "spoken [] = []" "spoken (p # ps) = visible p @ spoken ps" "spoken (ps @ qs) = spoken ps @ spoken qs"
  by (simp_all add: spoken_def visible_append)

lemma spoken_snoc: "ps \<noteq> [] \<Longrightarrow> spoken (butlast ps) @ visible (last ps) = spoken ps"
  by (cases ps rule: rev_cases) (simp_all add: visible_simps)

lemma push_trimmed_visible [visible_simps]: "spoken (push_trimmed t) = visible t"
  by (simp add: push_trimmed_def visible_simps trim_Nil_visible)

lemma raw_visible [visible_simps]: "spoken (raw_sentences current t) = visible current @ visible t"
proof (induction current t rule: raw_sentences.induct)
  case (2 current c chars)
  have "visible (c # chars) = visible [c] @ visible chars" using visible_append(1) [of "[c]" chars] by simp
  with 2 show ?case by (auto simp: Let_def visible_simps)
qed (simp add: visible_simps)

lemma join_visible [visible_simps]: "visible (join_pieces a b) = visible a @ visible b"
  by (simp add: join_pieces_def visible_simps)

lemma shorts_visible:
  "spoken (merge_shorts co out current ps) = spoken out @ (case current of Some c \<Rightarrow> visible c | None \<Rightarrow> []) @ spoken ps"
proof (induction co out current ps rule: merge_shorts.induct)
  case (1 co out current)
  then show ?case using spoken_snoc [of out] by (auto simp: visible_simps simp flip: append_assoc split: option.split)
next
  case (2 co out current piece pieces)
  then show ?case by (auto simp: Let_def visible_simps split: option.splits)
qed

lemma merge_short_visible [visible_simps]: "spoken (merge_short co ps) = spoken ps"
  by (simp add: merge_short_def shorts_visible visible_simps)

lemma long_visible [visible_simps]: "spoken (split_long t) = visible t"
proof (induction t rule: split_long.induct)
  case (1 rest)
  show ?case
  proof (cases "MAX_SENTENCE_CHARS < length rest")
    case True
    obtain n k where cut: "long_cut rest = (n, k)" by fastforce
    have "rest = take n rest @ take k (drop n rest) @ drop (n + k) rest"
      by (metis append_take_drop_id drop_drop add.commute)
    moreover have "visible (take k (drop n rest)) = []"
    proof (cases "k = 0")
      case False
      then have "k = 1" "rposition is_whitespace (take (MAX_SENTENCE_CHARS + 1) rest) = Some n"
        using cut by (auto simp: long_cut_def split: option.splits if_splits)
      then have "k = 1" "is_whitespace (rest ! n)"
        using rposition_SomeD [of is_whitespace "take (MAX_SENTENCE_CHARS + 1) rest" n] True by (auto simp del: One_nat_def)
      then show ?thesis
        by (cases "drop n rest") (auto simp: visible_def nth_via_drop)
    qed (simp add: visible_simps)
    ultimately have "visible rest = visible (take n rest) @ visible (drop (n + k) rest)"
      by (metis visible_append(1) append_Nil)
    with 1 True cut show ?thesis by (simp add: split_long.simps [of rest] visible_simps)
  qed (simp add: split_long.simps [of rest] visible_simps)
qed

lemma longs_visible [visible_simps]: "spoken (concat (map split_long ps)) = spoken ps"
  by (induction ps) (simp_all add: visible_simps)

lemma symbols_visible:
  "pending = None \<or> out = [] \<Longrightarrow>
    spoken (merge_symbols co out pending ps) = spoken out @ (case pending of Some p \<Rightarrow> visible p | None \<Rightarrow> []) @ spoken ps \<or>
    (merge_symbols co out pending ps = [] \<and> (\<forall>p \<in> set ps. \<not> has_alphanumeric co p))"
proof (induction co out pending ps rule: merge_symbols.induct)
  case (1 co out pending)
  then show ?case by (auto simp: visible_simps)
next
  case (2 co out pending piece pieces)
  show ?case
  proof (cases "has_alphanumeric co piece")
    case True
    have "os \<noteq> [] \<Longrightarrow> merge_symbols co os None pieces \<noteq> []" for os
      by (induction co os "None :: ustring option" pieces rule: merge_symbols.induct) simp_all
    with True 2 show ?thesis by (auto simp: visible_simps split: option.split)
  next
    case False
    with 2 show ?thesis
      using spoken_snoc [of out] by (auto simp: visible_simps simp flip: append_assoc split: option.splits)
  qed
qed

lemma symbol_only_visible: "spoken (merge_symbol_only co ps) = spoken ps \<or>
    (merge_symbol_only co ps = [] \<and> (\<forall>p \<in> set ps. \<not> has_alphanumeric co p))"
  using symbols_visible [of None "[]" co ps] by (simp add: merge_symbol_only_def visible_simps)

lemma sentences_visible: "spoken (split_sentences co t) = visible t \<or>
    (split_sentences co t = [] \<and> \<not> has_alphanumeric co (visible t))"
proof -
  let ?raw = "raw_sentences [] t"
  have "\<exists>p \<in> set ?raw. has_alphanumeric co p" if "has_alphanumeric co (spoken ?raw)"
    using that by (auto simp: has_alphanumeric_def spoken_def visible_def list_ex_iff)
  moreover have "spoken ?raw = visible t" by (simp add: visible_simps)
  moreover have "spoken (split_sentences co t) = spoken (merge_symbol_only co ?raw)"
    by (simp add: split_sentences_def visible_simps)
  moreover have "split_sentences co t = []" if "merge_symbol_only co ?raw = []"
    using that by (simp add: split_sentences_def merge_short_def)
  ultimately show ?thesis using symbol_only_visible [of co ?raw] by metis
qed

section \<open>Pieces are short, trimmed and not empty\<close>

definition piece_ok :: "ustring \<Rightarrow> bool" where
  "piece_ok p \<longleftrightarrow> p \<noteq> [] \<and> length p \<le> MAX_SENTENCE_CHARS \<and> trim p = p"

lemma trim_ends: "trim t = [] \<or> \<not> is_whitespace (hd (trim t)) \<and> \<not> is_whitespace (last (trim t))"
proof (cases "trim t = []")
  case False
  let ?s = "dropWhile is_whitespace t"
  have "?s \<noteq> []"
  proof
    assume "?s = []"
    then show False using False by (simp add: trim_def trim_start_def trim_end_def del: dropWhile_eq_Nil_conv rev_is_Nil_conv)
  qed
  then have hd: "\<not> is_whitespace (hd ?s)" by (rule hd_dropWhile)
  obtain w where w: "?s = trim t @ w" "\<forall>c \<in> set w. is_whitespace c"
  proof
    show "?s = trim t @ rev (takeWhile is_whitespace (rev ?s))"
      by (metis rev_append rev_rev_ident takeWhile_dropWhile_id trim_def trim_end_def trim_start_def)
  qed (auto dest: set_takeWhileD)
  have "hd (trim t) = hd ?s" using False w(1) by simp
  moreover have "last (trim t) = hd (dropWhile is_whitespace (rev ?s))"
    by (simp add: trim_def trim_start_def trim_end_def last_rev)
  moreover have "dropWhile is_whitespace (rev ?s) \<noteq> []"
    using False by (simp add: trim_def trim_start_def trim_end_def del: dropWhile_eq_Nil_conv)
  ultimately show ?thesis using hd hd_dropWhile [of is_whitespace "rev ?s"] by simp
qed simp

lemma trim_idem [simp]: "trim (trim t) = trim t"
  using trim_ends [of t] trim_id [of "trim t"] by auto

lemma length_trim: "length (trim t) \<le> length t"
  by (metis length_dropWhile_le length_rev trim_def trim_end_def trim_start_def order_trans)

lemma push_trimmed_ok: "length t \<le> MAX_SENTENCE_CHARS \<Longrightarrow> p \<in> set (push_trimmed t) \<Longrightarrow> piece_ok p"
  using length_trim [of t] by (auto simp: push_trimmed_def piece_ok_def split: if_splits)

lemma long_cut_le: "fst (long_cut rest) \<le> MAX_SENTENCE_CHARS"
  by (auto simp: long_cut_def dest!: rposition_SomeD split: option.splits)

lemma split_long_ok: "p \<in> set (split_long t) \<Longrightarrow> piece_ok p"
proof (induction t rule: split_long.induct)
  case (1 rest)
  have "length (take (fst (long_cut rest)) rest) \<le> MAX_SENTENCE_CHARS" using long_cut_le [of rest] by simp
  with 1 show ?case
    using push_trimmed_ok [of rest p] push_trimmed_ok [of "take (fst (long_cut rest)) rest" p]
    by (subst (asm) (2) split_long.simps) (auto split: if_splits)
qed

lemma sentences_ok: "p \<in> set (split_sentences co t) \<Longrightarrow> piece_ok p"
  by (auto simp: split_sentences_def split_long_ok)

lemma first_cut_SomeD: "first_cut first = Some off \<Longrightarrow> 0 < off \<and> off \<le> length first \<and> first ! (off - 1) = 44"
proof -
  assume "first_cut first = Some off"
  then obtain i where "find (\<lambda>(i, e). MIN_SENTENCE_WORDS \<le> i + 1 \<and> first ! (e - 1) = 44) (enumerate 0 (word_ends first)) = Some (i, off)"
    by (auto simp: first_cut_def)
  then have i: "(i, off) \<in> set (enumerate 0 (word_ends first))" "first ! (off - 1) = 44"
    by (auto simp: find_Some_iff in_set_conv_nth)
  have "off \<in> set (word_ends first)" using i(1) by (metis image_eqI map_snd_enumerate set_map snd_conv)
  with i(2) show ?thesis by (auto simp: word_ends_def)
qed

lemma head_ok:
  assumes "piece_ok first" "0 < off" "off \<le> length first" "first ! (off - 1) = 44"
  shows "piece_ok (trim_end (take off first))"
proof -
  let ?h = "take off first"
  have ne: "first \<noteq> []" "?h \<noteq> []" using assms by auto
  have "last ?h = 44" using assms(2-4) ne by (simp add: last_conv_nth min_def)
  then have "trim_end ?h = ?h" by (simp add: trim_end_id is_whitespace_def)
  moreover have "\<not> is_whitespace (hd first)" using assms(1) ne trim_ends [of first] by (simp add: piece_ok_def)
  then have "trim_start ?h = ?h" using ne assms(2) by (simp add: trim_start_id hd_take)
  moreover have "length ?h \<le> MAX_SENTENCE_CHARS" using assms(1) by (auto simp: piece_ok_def)
  ultimately show ?thesis using ne by (simp add: piece_ok_def trim_def)
qed

lemma first_audio:
  "spoken (split_for_first_audio co t) = spoken (split_sentences co t) \<and>
    (\<forall>p \<in> set (split_for_first_audio co t). piece_ok p) \<and>
    (split_for_first_audio co t = [] \<longleftrightarrow> split_sentences co t = [])"
proof (cases "split_sentences co t")
  case (Cons first others)
  note ok = sentences_ok [of _ co t, unfolded Cons]
  show ?thesis
  proof (cases "first_cut first")
    case (Some off)
    note off = first_cut_SomeD [OF Some]
    let ?rest = "trim (drop off first)"
    have "visible (take off first) @ visible (drop off first) = visible first"
      by (metis append_take_drop_id visible_append(1))
    moreover have "piece_ok (trim_end (take off first))" using head_ok [of first off] ok off by simp
    moreover have "piece_ok ?rest" if "\<not> length (split_whitespace ?rest) < MIN_SENTENCE_WORDS"
    proof -
      have "?rest \<noteq> []" using that by (auto simp: split_whitespace_def MIN_SENTENCE_WORDS_def)
      moreover have "length ?rest \<le> MAX_SENTENCE_CHARS"
        using length_trim [of "drop off first"] ok [of first] unfolding piece_ok_def by auto
      ultimately show ?thesis by (simp add: piece_ok_def)
    qed
    ultimately show ?thesis using Cons Some ok
      by (auto simp: split_for_first_audio_def Let_def visible_simps simp flip: append_assoc)
  qed (use Cons ok in \<open>auto simp: split_for_first_audio_def\<close>)
qed (simp add: split_for_first_audio_def)

definition engine_input :: "char_ops \<Rightarrow> ustring \<Rightarrow> sentence_case \<Rightarrow> tts_model_family \<Rightarrow> ustring" where
  "engine_input co normalized mode family =
     et_text (prepare_engine_text co (if family = Kitten then merge_short_opener co normalized else normalized) mode)"

text \<open>
  The pieces given to the TTS engine carry the whole prepared text and nothing else: joined, they
  are that text up to white space.  If it has a letter or digit, every piece is trimmed, not empty and
  at most 300 characters long.
\<close>

theorem engine_pieces_keep_text:
  "spoken (engine_pieces co t mode family) = visible (engine_input co t mode family) \<and>
   (has_alphanumeric co (visible (engine_input co t mode family)) \<longrightarrow>
      (\<forall>p \<in> set (engine_pieces co t mode family). 0 < length p \<and> length p \<le> 300 \<and> trim p = p))"
proof -
  let ?e = "engine_input co t mode family"
  have pieces: "engine_pieces co t mode family =
      (if split_for_first_audio co ?e = [] then [?e] else split_for_first_audio co ?e)"
    by (simp add: engine_pieces_def engine_input_def Let_def)
  have some: "split_for_first_audio co ?e \<noteq> [] \<and> spoken (split_for_first_audio co ?e) = visible ?e \<or>
      split_for_first_audio co ?e = [] \<and> \<not> has_alphanumeric co (visible ?e) \<or> visible ?e = []"
    using sentences_visible [of co ?e] first_audio [of co ?e] by (metis spoken_simps(1))
  have "spoken (engine_pieces co t mode family) = visible ?e"
    using some sentences_visible [of co ?e] first_audio [of co ?e] by (cases "split_for_first_audio co ?e") (auto simp: pieces visible_simps)
  moreover have "split_for_first_audio co ?e \<noteq> []" if "has_alphanumeric co (visible ?e)"
    using some that by (auto simp: has_alphanumeric_def)
  ultimately show ?thesis
    using first_audio [of co ?e] unfolding pieces piece_ok_def MAX_SENTENCE_CHARS_def by auto
qed

section \<open>Capital letters\<close>

text \<open>What the documentation calls a sentence start: a lower-case letter after white space after a
  sentence end.\<close>

definition starts_after :: "char_ops \<Rightarrow> ustring \<Rightarrow> nat \<Rightarrow> nat \<Rightarrow> bool" where
  "starts_after co chars i j \<longleftrightarrow>
     i + 1 < j \<and> j < length chars \<and> is_terminator (chars ! i) \<and> ends_sentence_at co chars i \<and>
     (\<forall>k \<in> {i <..< j}. is_whitespace (chars ! k)) \<and> \<not> is_whitespace (chars ! j) \<and>
     ch_lowercase co (chars ! j) \<and> \<not> is_single_letter_token co chars i \<and>
     MIN_CAPITALIZED_FRAGMENT_WORDS \<le> fragment_word_count chars j"

definition sentence_start :: "char_ops \<Rightarrow> ustring \<Rightarrow> nat \<Rightarrow> bool" where
  "sentence_start co chars j \<longleftrightarrow> (\<exists>i \<in> {..<j}. starts_after co chars i j)"

lemma terminator_visible: "is_terminator c \<Longrightarrow> \<not> is_whitespace c"
  by (auto simp: is_terminator_def is_whitespace_def)

lemma starts_unique: "starts_after co chars i j \<Longrightarrow> starts_after co chars i' j' \<Longrightarrow> i' \<le> j \<Longrightarrow> i \<le> j' \<Longrightarrow> i' < j \<Longrightarrow> i < j' \<Longrightarrow> i = i' \<and> j = j'"
proof -
  assume a: "starts_after co chars i j" "starts_after co chars i' j'" "i' < j" "i < j'"
  have "i = i'"
  proof (rule ccontr)
    assume "i \<noteq> i'"
    then have "i' \<in> {i <..< j} \<or> i \<in> {i' <..< j'}" using a(3,4) by auto
    then have "is_whitespace (chars ! i') \<or> is_whitespace (chars ! i)" using a(1,2) by (auto simp: starts_after_def)
    then show False using a(1,2) terminator_visible by (auto simp: starts_after_def)
  qed
  moreover have "j = j'"
  proof (rule ccontr)
    assume "j \<noteq> j'"
    then have "j \<in> {i' <..< j'} \<or> j' \<in> {i <..< j}" using a(3,4) by auto
    then show False using a(1,2) by (auto simp: starts_after_def)
  qed
  ultimately show ?thesis by simp
qed

lemma skip_whitespace:
  fixes chars :: ustring
  defines "j \<equiv> \<lambda>i. i + 1 + length (takeWhile is_whitespace (drop (i + 1) chars))"
  assumes "i < length chars"
  shows "j i \<le> length chars" "k \<in> {i <..< j i} \<Longrightarrow> is_whitespace (chars ! k)" "j i < length chars \<Longrightarrow> \<not> is_whitespace (chars ! j i)"
proof -
  let ?t = "drop (i + 1) chars"
  have le: "length (takeWhile is_whitespace ?t) \<le> length ?t" by (rule length_takeWhile_le)
  then show "j i \<le> length chars" using assms(2) by (simp add: j_def)
  show "is_whitespace (chars ! k)" if "k \<in> {i <..< j i}"
  proof -
    have "k - (i + 1) < length (takeWhile is_whitespace ?t)" using that by (auto simp: j_def)
    then have "is_whitespace (?t ! (k - (i + 1)))" by (metis nth_mem set_takeWhileD takeWhile_nth)
    then show ?thesis using that assms(2) by (simp add: nth_drop)
  qed
  show "\<not> is_whitespace (chars ! j i)" if "j i < length chars"
  proof -
    have "length (takeWhile is_whitespace ?t) < length ?t" using that by (simp add: j_def)
    from nth_length_takeWhile [OF this] show ?thesis using assms(2) by (simp add: j_def)
  qed
qed

definition next_visible :: "ustring \<Rightarrow> nat \<Rightarrow> nat" where
  "next_visible chars i = i + 1 + length (takeWhile is_whitespace (drop (i + 1) chars))"

lemma starts_after_next:
  assumes i: "i < length chars"
  shows "starts_after co chars i j \<longleftrightarrow>
    is_terminator (chars ! i) \<and> ends_sentence_at co chars i \<and> j = next_visible chars i \<and> i + 1 < j \<and> j < length chars \<and>
    ch_lowercase co (chars ! j) \<and> \<not> is_single_letter_token co chars i \<and>
    MIN_CAPITALIZED_FRAGMENT_WORDS \<le> fragment_word_count chars j"
proof -
  note skip = skip_whitespace [OF i, folded next_visible_def]
  let ?j = "next_visible chars i"
  have j: "j = ?j" if "starts_after co chars i j"
  proof (rule ccontr)
    have white: "\<forall>k \<in> {i <..< j}. is_whitespace (chars ! k)" and end_: "i < j" "\<not> is_whitespace (chars ! j)" "j < length chars"
      using that by (simp_all add: starts_after_def)
    assume "j \<noteq> ?j"
    moreover have "i < ?j" by (simp add: next_visible_def)
    ultimately consider "?j \<in> {i <..< j}" | "j \<in> {i <..< ?j}" using end_(1) by force
    then show False
    proof cases
      case 1
      then have "is_whitespace (chars ! ?j)" "?j < length chars" using white end_(3) by auto
      with skip(3) show False by blast
    next
      case 2
      from skip(2) [OF this] end_(2) show False by blast
    qed
  qed
  have "starts_after co chars i ?j \<longleftrightarrow>
    is_terminator (chars ! i) \<and> ends_sentence_at co chars i \<and> i + 1 < ?j \<and> ?j < length chars \<and>
    ch_lowercase co (chars ! ?j) \<and> \<not> is_single_letter_token co chars i \<and>
    MIN_CAPITALIZED_FRAGMENT_WORDS \<le> fragment_word_count chars ?j"
    unfolding starts_after_def using skip(2,3) by blast
  with j show ?thesis by metis
qed

definition capitalized :: "char_ops \<Rightarrow> ustring \<Rightarrow> nat \<Rightarrow> ustring" where
  "capitalized co chars n =
     concat (map (\<lambda>j. if sentence_start co chars j then ch_to_uppercase co (chars ! j) else [chars ! j]) [0..<n])"

lemma capitalized_Suc: "capitalized co chars (Suc n) =
    capitalized co chars n @ (if sentence_start co chars n then ch_to_uppercase co (chars ! n) else [chars ! n])"
  by (simp add: capitalized_def)

definition start_count :: "char_ops \<Rightarrow> ustring \<Rightarrow> nat \<Rightarrow> nat" where
  "start_count co chars n = card {j. j < n \<and> sentence_start co chars j}"

lemma start_count_Suc: "start_count co chars (Suc n) = start_count co chars n + (if sentence_start co chars n then 1 else 0)"
proof -
  have "{j. j < Suc n \<and> sentence_start co chars j} = {j. j < n \<and> sentence_start co chars j} \<union> {j. j = n \<and> sentence_start co chars n}"
    by (auto simp: less_Suc_eq)
  then show ?thesis by (cases "sentence_start co chars n") (simp_all add: start_count_def)
qed

text \<open>The letter the loop has still to reach.\<close>

definition pends :: "char_ops \<Rightarrow> ustring \<Rightarrow> nat \<Rightarrow> nat \<Rightarrow> bool" where
  "pends co chars n j \<longleftrightarrow> n \<le> j \<and> (\<exists>i \<in> {..<n}. starts_after co chars i j)"

lemma pends_start: "pends co chars n n \<longleftrightarrow> sentence_start co chars n"
  by (simp add: pends_def sentence_start_def)

lemma pends_unique: "pends co chars n j \<Longrightarrow> pends co chars n j' \<Longrightarrow> j = j'"
  using starts_unique by (fastforce simp: pends_def)

lemma pends_Suc_new:
  assumes "starts_after co chars n j"
  shows "pends co chars (Suc n) k \<longleftrightarrow> k = j"
proof
  have "pends co chars (Suc n) j" using assms by (auto simp: pends_def starts_after_def)
  then show "k = j" if "pends co chars (Suc n) k" using pends_unique that by blast
  show "pends co chars (Suc n) k" if "k = j" using \<open>pends co chars (Suc n) j\<close> that by simp
qed

lemma pends_Suc_same:
  assumes "\<And>j. \<not> starts_after co chars n j"
  shows "pends co chars (Suc n) k \<longleftrightarrow> pends co chars n k \<and> k \<noteq> n"
proof -
  have "(\<exists>i \<in> {..<Suc n}. starts_after co chars i k) \<longleftrightarrow> (\<exists>i \<in> {..<n}. starts_after co chars i k)"
    using assms by (auto simp: lessThan_Suc)
  then show ?thesis by (auto simp: pends_def)
qed

lemma engine_step_starts:
  assumes n: "n < length chars"
  shows "engine_step co chars n (out, adjusted, up) =
    (out @ (if up = Some n then ch_to_uppercase co (chars ! n) else [chars ! n]),
     adjusted + (if up = Some n then 1 else 0),
     if starts_after co chars n (next_visible chars n) then Some (next_visible chars n)
     else if up = Some n then None else up)"
proof -
  let ?j = "next_visible chars n"
  have "starts_after co chars n ?j \<longleftrightarrow> \<not> (\<not> is_terminator (chars ! n) \<or> \<not> ends_sentence_at co chars n) \<and>
      (?j > n + 1 \<and> ?j < length chars \<and> ch_lowercase co (chars ! ?j) \<and> \<not> is_single_letter_token co chars n \<and>
       MIN_CAPITALIZED_FRAGMENT_WORDS \<le> fragment_word_count chars ?j)"
    using starts_after_next [OF n] by blast
  then show ?thesis
    unfolding engine_step_def next_visible_def [symmetric] Let_def
    by (cases "is_terminator (chars ! n) \<and> ends_sentence_at co chars n"; cases "up = Some n";
        cases "starts_after co chars n ?j"; simp; blast)
qed

lemma engine_step_next:
  assumes n: "n < length chars" and up: "\<And>j. up = Some j \<longleftrightarrow> pends co chars n j"
  shows "\<exists>up'. engine_step co chars n (capitalized co chars n, start_count co chars n, up) =
      (capitalized co chars (Suc n), start_count co chars (Suc n), up') \<and> (\<forall>j. up' = Some j \<longleftrightarrow> pends co chars (Suc n) j)"
proof -
  let ?j = "next_visible chars n"
  let ?up = "if starts_after co chars n ?j then Some ?j else if up = Some n then None else up"
  have "sentence_start co chars n \<longleftrightarrow> up = Some n" by (simp only: up pends_start)
  then have "engine_step co chars n (capitalized co chars n, start_count co chars n, up) =
      (capitalized co chars (Suc n), start_count co chars (Suc n), ?up)"
    unfolding engine_step_starts [OF n] capitalized_Suc start_count_Suc by (simp only: simp_thms)
  moreover have "?up = Some k \<longleftrightarrow> pends co chars (Suc n) k" for k
  proof (cases "starts_after co chars n ?j")
    case True
    with pends_Suc_new [OF True, of k] show ?thesis by (cases "k = ?j") simp_all
  next
    case False
    then have "\<not> starts_after co chars n j" for j by (metis starts_after_next [OF n])
    note same = pends_Suc_same [OF this, of k]
    show ?thesis
    proof (cases "up = Some n")
      case True
      then have "pends co chars n k \<longleftrightarrow> n = k" using up [of k] by simp
      with True False same show ?thesis by simp
    next
      case not_now: False
      then have "up = Some k \<longrightarrow> k \<noteq> n" by blast
      with not_now False same up [of k] show ?thesis by auto
    qed
  qed
  ultimately show ?thesis by (intro exI [of _ ?up] conjI allI)
qed

lemma engine_loop:
  "n \<le> length chars \<Longrightarrow> \<exists>up. fold (engine_step co chars) [0..<n] ([], 0, None) =
     (capitalized co chars n, start_count co chars n, up) \<and> (\<forall>j. up = Some j \<longleftrightarrow> pends co chars n j)"
proof (induction n)
  case 0
  then show ?case by (simp add: capitalized_def start_count_def pends_def)
next
  case (Suc n)
  then obtain up where run: "fold (engine_step co chars) [0..<n] ([], 0, None) =
      (capitalized co chars n, start_count co chars n, up)" and up: "\<And>j. up = Some j \<longleftrightarrow> pends co chars n j"
    by auto
  from engine_step_next [OF _ up] Suc.prems run show ?case by simp
qed

text \<open>
  Sentence-start capitalization writes the upper case of exactly the letters that start a sentence
  (after white space after a terminator that ends one, in a fragment of two words or more), leaves every
  other character as it is and reports their number.
\<close>

theorem engine_text_capitalizes_starts:
  "prepare_engine_text co chars CaseAuto =
     \<lparr>et_text = concat (map (\<lambda>j. if sentence_start co chars j then ch_to_uppercase co (chars ! j) else [chars ! j])
        [0..<length chars]),
      et_adjusted = card {j. j < length chars \<and> sentence_start co chars j}\<rparr>"
  using engine_loop [of "length chars" chars co] by (auto simp: prepare_engine_text_def capitalized_def start_count_def)

text \<open>The tables for ASCII, to evaluate the definitions on.\<close>

definition ascii_chars :: char_ops where
  "ascii_chars =
     (let lower = (\<lambda>c. if is_ascii_upper c then c + 32 else c)
      in \<lparr>ch_alphabetic = is_ascii_letter, ch_alphanumeric = (\<lambda>c. is_ascii_letter c \<or> (48 \<le> c \<and> c \<le> 57)),
          ch_lowercase = is_ascii_lower, ch_to_uppercase = (\<lambda>c. [if is_ascii_lower c then c - 32 else c]),
          ch_to_lowercase = (\<lambda>c. [lower c]), ch_str_to_lowercase = map lower\<rparr>)"

lemma ascii_example: "engine_pieces ascii_chars (utext ''Hi! Ask me. it is late now, all of you'') CaseAuto Kitten =
    [utext ''Hi, ask me. It is late now, all of you'']"
  by code_simp

theorem engine_pieces_keep_text_witness:
  "list_all (\<lambda>p. 0 < length p \<and> length p \<le> 300 \<and> trim p = p)
     (engine_pieces ascii_chars (utext ''Hi! Ask me. it is late'') CaseAuto Kitten)"
proof -
  have "has_alphanumeric ascii_chars (visible (engine_input ascii_chars (utext ''Hi! Ask me. it is late'') CaseAuto Kitten))"
    by code_simp
  with engine_pieces_keep_text [of ascii_chars "utext ''Hi! Ask me. it is late''" CaseAuto Kitten]
  show ?thesis unfolding list_all_iff by blast
qed

end
