(* ===== verification/Opus_Decode.thy ===== *)
theory Opus_Decode
  imports Mix_Bus Text_Model
begin

text \<open>
  \<open>crates/mixer/src/decode.rs\<close>: the Opus decoder around libopus.  The library is an argument
  (\<open>opus_lib\<close>): how it parses a packet, and its decode call, which writes into the slice of the scratch
  buffer it is given and returns the samples per channel it wrote.  \<open>None\<close> is a panic (a slice out of
  range); \<open>opus_laws\<close> states what the library documents: it never writes past the slice.
\<close>

definition MAX_PACKET_SAMPLES_PER_CHANNEL :: nat where "MAX_PACKET_SAMPLES_PER_CHANNEL = 5760"
definition DEFAULT_PACKET_SAMPLES :: nat where "DEFAULT_PACKET_SAMPLES = 960"

datatype decode_error = Opus int | EmptyPayload | PacketError ustring | OutputError ustring

record 'd opus_lib =
  op_packet :: "bytes \<Rightarrow> ustring option"
  op_nb_samples :: "bytes \<Rightarrow> int + nat"
  op_output :: "nat \<Rightarrow> ustring option"
  op_decode :: "bytes option \<Rightarrow> sample list \<Rightarrow> bool \<Rightarrow> 'd \<Rightarrow> (int + nat) \<times> sample list \<times> 'd"

text \<open>\<open>op_packet\<close> and \<open>op_output\<close> return the error message of the conversion, if it fails.\<close>

definition opus_laws :: "'d opus_lib \<Rightarrow> bool" where
  "opus_laws lib \<longleftrightarrow> (\<forall>packet out fec d.
     case op_decode lib packet out fec d of
       (r, out', _) \<Rightarrow> length out' = length out \<and> (case r of Inr n \<Rightarrow> 2 * n \<le> length out | Inl _ \<Rightarrow> True))"

record 'd opus_decoder =
  od_inner :: 'd
  od_pcm_scratch :: "sample list"
  od_last_packet_samples :: nat

definition opus_new :: "'d \<Rightarrow> 'd opus_decoder" where
  "opus_new inner = \<lparr>od_inner = inner, od_pcm_scratch = replicate (MAX_PACKET_SAMPLES_PER_CHANNEL * 2) 0,
     od_last_packet_samples = DEFAULT_PACKET_SAMPLES\<rparr>"

definition pcm_to_frame :: "sample list \<Rightarrow> frame" where
  "pcm_to_frame samples = frame_new (i16_samples_to_bytes samples) None"

text \<open>\<open>slice::chunks\<close>.\<close>

function slice_chunks :: "nat \<Rightarrow> 'a list \<Rightarrow> 'a list list" where
  "slice_chunks n xs = (if xs = [] \<or> n = 0 then [] else take n xs # slice_chunks n (drop n xs))"
  by pat_completeness auto
termination
  by (relation "measure (\<lambda>(n, xs). length xs)") auto

declare slice_chunks.simps [simp del]

definition split_scratch :: "nat \<Rightarrow> 'd opus_decoder \<Rightarrow> frame list option" where
  "split_scratch decoded od =
     (if length (od_pcm_scratch od) < decoded * 2 then None
      else Some (map (\<lambda>chunk. pcm_to_frame (chunk @ replicate (SAMPLES_PER_FRAME - length chunk) 0))
        (slice_chunks SAMPLES_PER_FRAME (take (decoded * 2) (od_pcm_scratch od)))))"

text \<open>The library's decode call on the first \<open>n\<close> samples per channel of the scratch buffer.\<close>

definition decode_into :: "'d opus_lib \<Rightarrow> bytes option \<Rightarrow> nat \<Rightarrow> bool \<Rightarrow> 'd opus_decoder \<Rightarrow>
    ((decode_error + nat) \<times> 'd opus_decoder) option" where
  "decode_into lib packet n fec od =
     (if length (od_pcm_scratch od) < n * 2 then None
      else
        (case op_output lib n of
           Some e \<Rightarrow> Some (Inl (OutputError e), od)
         | None \<Rightarrow>
             (case op_decode lib packet (take (n * 2) (od_pcm_scratch od)) fec (od_inner od) of
                (r, out, d) \<Rightarrow>
                  Some (case r of Inl e \<Rightarrow> Inl (Opus e) | Inr decoded \<Rightarrow> Inr decoded,
                    od\<lparr>od_inner := d, od_pcm_scratch := out @ drop (n * 2) (od_pcm_scratch od)\<rparr>))))"

definition split_result :: "((decode_error + nat) \<times> 'd opus_decoder) option \<Rightarrow>
    ((decode_error + frame list) \<times> 'd opus_decoder) option" where
  "split_result r =
     (case r of
        None \<Rightarrow> None
      | Some (Inl e, od) \<Rightarrow> Some (Inl e, od)
      | Some (Inr decoded, od) \<Rightarrow> map_option (\<lambda>frames. (Inr frames, od)) (split_scratch decoded od))"

definition try_decode_payload :: "'d opus_lib \<Rightarrow> bytes \<Rightarrow> 'd opus_decoder \<Rightarrow>
    ((decode_error + frame list) \<times> 'd opus_decoder) option" where
  "try_decode_payload lib payload od =
     (if payload = [] then Some (Inl EmptyPayload, od)
      else
        (case op_packet lib payload of
           Some e \<Rightarrow> Some (Inl (PacketError e), od)
         | None \<Rightarrow>
             (case op_nb_samples lib payload of
                Inl e \<Rightarrow> Some (Inl (Opus e), od)
              | Inr per_channel \<Rightarrow>
                  if per_channel = 0 \<or> MAX_PACKET_SAMPLES_PER_CHANNEL < per_channel then
                    Some (Inl (PacketError (utext ''unsupported packet length: '' @ decimal per_channel @
                      utext '' samples per channel'')), od)
                  else
                    (case decode_into lib (Some payload) per_channel False od of
                       Some (Inr decoded, od) \<Rightarrow>
                         split_result (Some (Inr decoded, od\<lparr>od_last_packet_samples := decoded\<rparr>))
                     | r \<Rightarrow> split_result r))))"

definition decode_payload :: "'d opus_lib \<Rightarrow> bytes \<Rightarrow> 'd opus_decoder \<Rightarrow> (frame list \<times> 'd opus_decoder) option" where
  "decode_payload lib payload od =
     map_option (\<lambda>(r, od). (case r of Inr frames \<Rightarrow> frames | Inl _ \<Rightarrow> [], od)) (try_decode_payload lib payload od)"

definition conceal_plc :: "'d opus_lib \<Rightarrow> nat \<Rightarrow> 'd opus_decoder \<Rightarrow>
    ((decode_error + frame list) \<times> 'd opus_decoder) option" where
  "conceal_plc lib samples_per_channel od =
     split_result (decode_into lib None (clamp 1 MAX_PACKET_SAMPLES_PER_CHANNEL samples_per_channel) False od)"

definition decode_fec :: "'d opus_lib \<Rightarrow> bytes \<Rightarrow> nat \<Rightarrow> 'd opus_decoder \<Rightarrow>
    ((decode_error + frame list) \<times> 'd opus_decoder) option" where
  "decode_fec lib next_payload samples_per_channel od =
     (if next_payload = [] then Some (Inl EmptyPayload, od)
      else
        (case op_packet lib next_payload of
           Some e \<Rightarrow> Some (Inl (PacketError e), od)
         | None \<Rightarrow> split_result (decode_into lib (Some next_payload)
             (clamp 1 MAX_PACKET_SAMPLES_PER_CHANNEL samples_per_channel) True od)))"

section \<open>No panic, whole frames\<close>

definition decoder_ok :: "'d opus_decoder \<Rightarrow> bool" where
  "decoder_ok od \<longleftrightarrow> length (od_pcm_scratch od) = MAX_PACKET_SAMPLES_PER_CHANNEL * 2"

definition frames_ok :: "frame list \<Rightarrow> bool" where
  "frames_ok frames \<longleftrightarrow> list_all is_valid frames"

lemma opus_new_ok [simp]: "decoder_ok (opus_new d)"
  by (simp add: decoder_ok_def opus_new_def)

lemma length_chunk: "c \<in> set (slice_chunks n xs) \<Longrightarrow> length c \<le> n"
  by (induction n xs rule: slice_chunks.induct) (subst (asm) (2) slice_chunks.simps, auto split: if_splits)

lemma pcm_to_frame_valid: "length samples = SAMPLES_PER_FRAME \<Longrightarrow> is_valid (pcm_to_frame samples)"
  by (simp add: is_valid_def pcm_to_frame_def frame_new_def length_i16_samples_to_bytes)

lemma split_scratch_ok:
  assumes "decoded * 2 \<le> length (od_pcm_scratch od)"
  shows "\<exists>frames. split_scratch decoded od = Some frames \<and> frames_ok frames"
  using assms length_chunk by (force simp: split_scratch_def frames_ok_def list_all_iff intro!: pcm_to_frame_valid)

lemma decode_into_ok:
  assumes lib: "opus_laws lib" and od: "decoder_ok od" and n: "n \<le> MAX_PACKET_SAMPLES_PER_CHANNEL"
  shows "\<exists>r od'. decode_into lib packet n fec od = Some (r, od') \<and> decoder_ok od' \<and>
    od_last_packet_samples od' = od_last_packet_samples od \<and> (case r of Inr k \<Rightarrow> k \<le> n | Inl _ \<Rightarrow> True)"
proof (cases "op_output lib n")
  case None
  obtain r out d where call: "op_decode lib packet (take (n * 2) (od_pcm_scratch od)) fec (od_inner od) = (r, out, d)"
    by (metis prod.exhaust)
  have "length out = n * 2" "case r of Inr k \<Rightarrow> k \<le> n | Inl _ \<Rightarrow> True"
    using lib [unfolded opus_laws_def, THEN spec [of _ packet], THEN spec [of _ "take (n * 2) (od_pcm_scratch od)"],
        THEN spec [of _ fec], THEN spec [of _ "od_inner od"]] od n
    by (auto simp: call decoder_ok_def split: sum.splits if_splits)
  with None call od n show ?thesis by (auto simp: decode_into_def decoder_ok_def split: sum.split)
next
  case (Some e)
  with od n show ?thesis by (simp add: decode_into_def decoder_ok_def)
qed

definition result_ok :: "((decode_error + frame list) \<times> 'd opus_decoder) option \<Rightarrow> bool" where
  "result_ok x \<longleftrightarrow> (case x of Some (r, od) \<Rightarrow> decoder_ok od \<and> (case r of Inr fs \<Rightarrow> frames_ok fs | Inl _ \<Rightarrow> True) | None \<Rightarrow> False)"

lemma split_result_ok:
  assumes "decoder_ok od" "case r of Inr k \<Rightarrow> k \<le> MAX_PACKET_SAMPLES_PER_CHANNEL | Inl _ \<Rightarrow> True"
  shows "result_ok (split_result (Some (r, od)))"
proof (cases r)
  case (Inr k)
  with split_scratch_ok [of k od] assms show ?thesis by (auto simp: split_result_def result_ok_def decoder_ok_def)
qed (use assms in \<open>simp add: split_result_def result_ok_def\<close>)

lemma conceal_plc_ok: "opus_laws lib \<Longrightarrow> decoder_ok od \<Longrightarrow> result_ok (conceal_plc lib n od)"
proof -
  assume a: "opus_laws lib" "decoder_ok od"
  let ?n = "clamp 1 MAX_PACKET_SAMPLES_PER_CHANNEL n"
  have n: "?n \<le> MAX_PACKET_SAMPLES_PER_CHANNEL" by (simp add: clamp_def MAX_PACKET_SAMPLES_PER_CHANNEL_def)
  obtain r od' where "decode_into lib None ?n False od = Some (r, od')" "decoder_ok od'"
      "case r of Inr k \<Rightarrow> k \<le> ?n | Inl _ \<Rightarrow> True"
    using decode_into_ok [OF a n] by blast
  then show ?thesis using split_result_ok [of od' r] n by (auto simp: conceal_plc_def split: sum.splits)
qed

lemma decode_fec_ok: "opus_laws lib \<Longrightarrow> decoder_ok od \<Longrightarrow> result_ok (decode_fec lib b n od)"
proof -
  assume a: "opus_laws lib" "decoder_ok od"
  let ?n = "clamp 1 MAX_PACKET_SAMPLES_PER_CHANNEL n"
  have n: "?n \<le> MAX_PACKET_SAMPLES_PER_CHANNEL" by (simp add: clamp_def MAX_PACKET_SAMPLES_PER_CHANNEL_def)
  obtain r od' where "decode_into lib (Some b) ?n True od = Some (r, od')" "decoder_ok od'"
      "case r of Inr k \<Rightarrow> k \<le> ?n | Inl _ \<Rightarrow> True"
    using decode_into_ok [OF a n] by blast
  moreover have "result_ok (Some (Inl e, od))" for e :: decode_error using a(2) by (simp add: result_ok_def)
  ultimately show ?thesis using split_result_ok [of od' r] n
    by (auto simp: decode_fec_def split: sum.splits option.split)
qed

lemma try_decode_ok: "opus_laws lib \<Longrightarrow> decoder_ok od \<Longrightarrow> result_ok (try_decode_payload lib b od)"
proof -
  assume a: "opus_laws lib" "decoder_ok od"
  have same: "result_ok (Some (Inl e, od))" for e :: decode_error using a(2) by (simp add: result_ok_def)
  show ?thesis
  proof (cases "\<exists>n. b \<noteq> [] \<and> op_packet lib b = None \<and> op_nb_samples lib b = Inr n \<and> n \<noteq> 0 \<and> n \<le> MAX_PACKET_SAMPLES_PER_CHANNEL")
    case True
    then obtain n where n: "b \<noteq> []" "op_packet lib b = None" "op_nb_samples lib b = Inr n" "n \<noteq> 0" "n \<le> MAX_PACKET_SAMPLES_PER_CHANNEL"
      by blast
    obtain r od' where d: "decode_into lib (Some b) n False od = Some (r, od')" "decoder_ok od'"
        "case r of Inr k \<Rightarrow> k \<le> n | Inl _ \<Rightarrow> True"
      using decode_into_ok [OF a n(5)] by blast
    show ?thesis
    proof (cases r)
      case (Inl e)
      with d n show ?thesis by (simp add: try_decode_payload_def split_result_def result_ok_def)
    next
      case (Inr k)
      have "decoder_ok (od'\<lparr>od_last_packet_samples := k\<rparr>)" using d(2) by (simp add: decoder_ok_def)
      with Inr d n split_result_ok [of "od'\<lparr>od_last_packet_samples := k\<rparr>" r] show ?thesis
        by (simp add: try_decode_payload_def)
    qed
  next
    case False
    then show ?thesis using same by (auto simp: try_decode_payload_def split: option.split sum.split)
  qed
qed

end
