(* ===== verification/Impair.thy ===== *)
theory Impair
  imports Inbound_Types Float_Ops Text_Model "HOL-Library.Multiset"
begin

text \<open>
  \<open>crates/core/src/inbound_audio/impair.rs\<close>: the seeded impairment of an RTP stream.  \<open>f64\<close> is the float
  argument; \<open>str::parse::<f64>\<close> is the argument \<open>parse_f64\<close>.  \<open>None\<close> is a panic (a counter below 0).
\<close>

unbundle bit_operations_syntax

record 'f impairment_config =
  ic_loss :: 'f
  ic_burst :: nat
  ic_burst_rate :: 'f
  ic_reorder :: 'f
  ic_reorder_depth :: nat
  ic_dup :: 'f
  ic_seed :: "64 word"

definition default_impairment_config :: "'f float_ops \<Rightarrow> 'f impairment_config" where
  "default_impairment_config fl =
     \<lparr>ic_loss = fl_of_int fl 0, ic_burst = 3, ic_burst_rate = fl_of_int fl 0, ic_reorder = fl_of_int fl 0,
      ic_reorder_depth = 2, ic_dup = fl_of_int fl 0, ic_seed = 1\<rparr>"

section \<open>Parsing\<close>

text \<open>An error message is a constructor with the values it is formatted from.\<close>

datatype 'f impairment_error =
    NotKeyValue ustring
  | InvalidNumber string ustring
  | OutsideRange string 'f
  | InvalidInteger string ustring
  | NotPositive string
  | UnknownKey ustring

text \<open>Unsigned integers: an optional plus sign, then digits, at most \<open>limit\<close>.\<close>

definition parse_unsigned :: "nat \<Rightarrow> ustring \<Rightarrow> nat option" where
  "parse_unsigned limit t =
     (let digits = (case t of c # r \<Rightarrow> if c = 43 then r else t | [] \<Rightarrow> []);
          n = fold (\<lambda>c n. 10 * n + (c - 48)) digits 0
      in if digits = [] \<or> (\<exists>c \<in> set digits. c < 48 \<or> 57 < c) \<or> limit < n then None else Some n)"

definition parse_prob :: "'f float_ops \<Rightarrow> (ustring \<Rightarrow> 'f option) \<Rightarrow> string \<Rightarrow> ustring \<Rightarrow> 'f impairment_error + 'f" where
  "parse_prob fl parse_f64 key value =
     (case parse_f64 value of
        None \<Rightarrow> Inl (InvalidNumber key value)
      | Some v \<Rightarrow>
          if fl_le fl (fl_of_int fl 0) v \<and> fl_le fl v (fl_of_int fl 1) then Inr v
          else Inl (OutsideRange key v))"

definition parse_count :: "string \<Rightarrow> ustring \<Rightarrow> 'f impairment_error + nat" where
  "parse_count key value =
     (case parse_unsigned (2 ^ 32 - 1) value of
        None \<Rightarrow> Inl (InvalidInteger key value)
      | Some v \<Rightarrow> if v = 0 then Inl (NotPositive key) else Inr v)"

definition split_once :: "uchar \<Rightarrow> ustring \<Rightarrow> (ustring \<times> ustring) option" where
  "split_once sep t =
     (let key = takeWhile (\<lambda>c. c \<noteq> sep) t
      in if length key = length t then None else Some (key, drop (length key + 1) t))"

fun split_char :: "uchar \<Rightarrow> ustring \<Rightarrow> ustring list" where
  "split_char sep [] = [[]]"
| "split_char sep (c # cs) =
     (if c = sep then [] # split_char sep cs
      else (case split_char sep cs of w # ws \<Rightarrow> (c # w) # ws | [] \<Rightarrow> [[c]]))"

definition parse_entry :: "'f float_ops \<Rightarrow> (ustring \<Rightarrow> 'f option) \<Rightarrow> ustring \<Rightarrow> 'f impairment_config \<Rightarrow>
    'f impairment_error + 'f impairment_config" where
  "parse_entry fl parse_f64 part cfg =
     (case split_once 61 part of
        None \<Rightarrow> Inl (NotKeyValue part)
      | Some (key, value) \<Rightarrow>
          (let key = trim key; value = trim value;
               prob = (\<lambda>name set. case parse_prob fl parse_f64 name value of Inl e \<Rightarrow> Inl e | Inr v \<Rightarrow> Inr (set v));
               count = (\<lambda>name set. case parse_count name value of Inl e \<Rightarrow> Inl e | Inr v \<Rightarrow> Inr (set v))
           in if key = utext ''loss'' then prob ''loss'' (\<lambda>v. cfg\<lparr>ic_loss := v\<rparr>)
              else if key = utext ''burst'' then count ''burst'' (\<lambda>v. cfg\<lparr>ic_burst := v\<rparr>)
              else if key = utext ''burst_rate'' then prob ''burst_rate'' (\<lambda>v. cfg\<lparr>ic_burst_rate := v\<rparr>)
              else if key = utext ''reorder'' then prob ''reorder'' (\<lambda>v. cfg\<lparr>ic_reorder := v\<rparr>)
              else if key = utext ''reorder_depth'' then count ''reorder_depth'' (\<lambda>v. cfg\<lparr>ic_reorder_depth := v\<rparr>)
              else if key = utext ''dup'' then prob ''dup'' (\<lambda>v. cfg\<lparr>ic_dup := v\<rparr>)
              else if key = utext ''seed'' then
                (case parse_unsigned (2 ^ 64 - 1) value of
                   None \<Rightarrow> Inl (InvalidInteger ''seed'' value)
                 | Some v \<Rightarrow> Inr (cfg\<lparr>ic_seed := of_nat v\<rparr>))
              else Inl (UnknownKey key)))"

fun parse_entries :: "'f float_ops \<Rightarrow> (ustring \<Rightarrow> 'f option) \<Rightarrow> ustring list \<Rightarrow> 'f impairment_config \<Rightarrow>
    'f impairment_error + 'f impairment_config" where
  "parse_entries fl parse_f64 [] cfg = Inr cfg"
| "parse_entries fl parse_f64 (part # parts) cfg =
     (case parse_entry fl parse_f64 part cfg of Inl e \<Rightarrow> Inl e | Inr cfg \<Rightarrow> parse_entries fl parse_f64 parts cfg)"

definition impairment_parse :: "'f float_ops \<Rightarrow> (ustring \<Rightarrow> 'f option) \<Rightarrow> ustring \<Rightarrow> 'f impairment_error + 'f impairment_config" where
  "impairment_parse fl parse_f64 s =
     parse_entries fl parse_f64 (filter (\<lambda>p. p \<noteq> []) (map trim (split_char 44 s))) (default_impairment_config fl)"

section \<open>Applying it\<close>

record 'f impairment =
  im_cfg :: "'f impairment_config"
  im_state :: "64 word"
  im_burst_left :: nat
  im_held :: "(nat \<times> rtp_packet) list"

definition impairment_new :: "'f impairment_config \<Rightarrow> 'f impairment" where
  "impairment_new cfg =
     \<lparr>im_cfg = cfg, im_state = (if ic_seed cfg = 0 then 0x9E3779B97F4A7C15 else ic_seed cfg),
      im_burst_left = 0, im_held = []\<rparr>"

definition xorshift :: "64 word \<Rightarrow> 64 word" where
  "xorshift x =
     (let x = x XOR push_bit 13 x;
          x = x XOR drop_bit 7 x
      in x XOR push_bit 17 x)"

definition next_f64 :: "'f float_ops \<Rightarrow> 'f impairment \<Rightarrow> 'f \<times> 'f impairment" where
  "next_f64 fl im =
     (let x = xorshift (im_state im)
      in (fl_div fl (fl_of_int fl (uint (drop_bit 11 x))) (fl_of_int fl (2 ^ 53)), im\<lparr>im_state := x\<rparr>))"

text \<open>\<open>retain_mut\<close>: every held packet is one packet nearer to its release.\<close>

fun release_held :: "(nat \<times> rtp_packet) list \<Rightarrow> ((nat \<times> rtp_packet) list \<times> rtp_packet list) option" where
  "release_held [] = Some ([], [])"
| "release_held ((left, p) # held) =
     (if left = 0 then None
      else
        (case release_held held of
           None \<Rightarrow> None
         | Some (kept, released) \<Rightarrow>
             Some (if left = 1 then (kept, p # released) else ((left - 1, p) # kept, released))))"

definition impairment_apply :: "'f float_ops \<Rightarrow> rtp_packet \<Rightarrow> 'f impairment \<Rightarrow> (rtp_packet list \<times> 'f impairment) option" where
  "impairment_apply fl packet im =
     (case release_held (im_held im) of
        None \<Rightarrow> None
      | Some (kept, released) \<Rightarrow>
          (let im = im\<lparr>im_held := kept\<rparr>; cfg = im_cfg im in
           if 0 < im_burst_left im then Some (released, im\<lparr>im_burst_left := im_burst_left im - 1\<rparr>)
           else
             (let (r, im) = next_f64 fl im in
              if fl_lt fl r (ic_burst_rate cfg) then
                (if ic_burst cfg = 0 then None else Some (released, im\<lparr>im_burst_left := ic_burst cfg - 1\<rparr>))
              else
                (let (r, im) = next_f64 fl im in
                 if fl_lt fl r (ic_loss cfg) then Some (released, im)
                 else
                   (let (r, im) = next_f64 fl im in
                    if fl_lt fl r (ic_reorder cfg) then
                      Some (released, im\<lparr>im_held := im_held im @ [(ic_reorder_depth cfg, packet)]\<rparr>)
                    else
                      (let (r, im) = next_f64 fl im; dup = fl_lt fl r (ic_dup cfg)
                       in Some ((if dup then [packet] else []) @ [packet] @ released, im)))))))"

definition impairment_flush :: "'f impairment \<Rightarrow> rtp_packet list \<times> 'f impairment" where
  "impairment_flush im = (map snd (im_held im), im\<lparr>im_held := []\<rparr>)"

section \<open>A parsed configuration never panics\<close>

definition config_ok :: "'f impairment_config \<Rightarrow> bool" where
  "config_ok cfg \<longleftrightarrow> 0 < ic_burst cfg \<and> 0 < ic_reorder_depth cfg"

definition impairment_ok :: "'f impairment \<Rightarrow> bool" where
  "impairment_ok im \<longleftrightarrow> config_ok (im_cfg im) \<and> (\<forall>(left, p) \<in> set (im_held im). 0 < left)"

lemma parse_count_pos: "parse_count key value = Inr v \<Longrightarrow> 0 < v"
  by (auto simp: parse_count_def split: option.splits if_splits)

lemma Inr_case_iff: "(case r of Inl e \<Rightarrow> Inl e | Inr v \<Rightarrow> Inr (f v)) = Inr c \<longleftrightarrow> (\<exists>v. r = Inr v \<and> c = f v)"
  by (cases r) auto

lemma parse_entry_ok:
  fixes cfg :: "'b impairment_config"
  shows "parse_entry fl parse_f64 part cfg = Inr cfg' \<Longrightarrow> config_ok cfg \<Longrightarrow> config_ok cfg'"
proof -
  assume parsed: "parse_entry fl parse_f64 part cfg = Inr cfg'" and ok: "config_ok cfg"
  obtain key v where "split_once 61 part = Some (key, v)"
    using parsed by (cases "split_once 61 part") (auto simp: parse_entry_def)
  with parsed have "(\<exists>v. cfg' = cfg\<lparr>ic_loss := v\<rparr> \<or> cfg' = cfg\<lparr>ic_burst_rate := v\<rparr> \<or> cfg' = cfg\<lparr>ic_reorder := v\<rparr> \<or>
        cfg' = cfg\<lparr>ic_dup := v\<rparr>) \<or> (\<exists>v. cfg' = cfg\<lparr>ic_seed := v\<rparr>) \<or>
      (\<exists>n name. parse_count name (trim v) = (Inr n :: 'b impairment_error + nat) \<and>
        (cfg' = cfg\<lparr>ic_burst := n\<rparr> \<or> cfg' = cfg\<lparr>ic_reorder_depth := n\<rparr>))"
    unfolding parse_entry_def Let_def
    by (simp only: option.case prod.case Inr_case_iff split: if_split_asm option.split_asm) blast+
  with ok parse_count_pos show ?thesis by (auto simp: config_ok_def)
qed

lemma parse_entries_ok: "parse_entries fl parse_f64 parts cfg = Inr cfg' \<Longrightarrow> config_ok cfg \<Longrightarrow> config_ok cfg'"
  by (induction parts arbitrary: cfg) (auto dest: parse_entry_ok split: sum.splits)

lemma impairment_parse_ok: "impairment_parse fl parse_f64 s = Inr cfg \<Longrightarrow> config_ok cfg"
  unfolding impairment_parse_def
  by (erule parse_entries_ok) (simp add: config_ok_def default_impairment_config_def)

lemma release_due_ok:
  "\<forall>(left, p) \<in> set held. 0 < left \<Longrightarrow> \<exists>kept released. release_held held = Some (kept, released) \<and>
    (\<forall>(left, p) \<in> set kept. 0 < left) \<and> mset (map snd held) = mset (map snd kept) + mset released"
proof (induction held)
  case (Cons x held)
  then obtain kept released where "release_held held = Some (kept, released)" "\<forall>(left, p) \<in> set kept. 0 < left"
      "mset (map snd held) = mset (map snd kept) + mset released"
    by auto
  with Cons.prems show ?case by (cases x) auto
qed simp

text \<open>What happened to one packet: dropped, held back, or delivered once or twice (\<open>n\<close> copies of it enter).\<close>

lemma impairment_apply_ok:
  assumes "impairment_ok im"
  shows "\<exists>out im'. impairment_apply fl packet im = Some (out, im') \<and> impairment_ok im' \<and> im_cfg im' = im_cfg im \<and>
    (\<exists>n \<le> 2. mset (map snd (im_held im)) + replicate_mset n packet = mset out + mset (map snd (im_held im')))"
proof -
  obtain kept released where rel: "release_held (im_held im) = Some (kept, released)"
      "\<forall>(left, p) \<in> set kept. 0 < left" "mset (map snd (im_held im)) = mset (map snd kept) + mset released"
    using release_due_ok [of "im_held im"] assms by (auto simp: impairment_ok_def)
  have cfg: "0 < ic_burst (im_cfg im)" "0 < ic_reorder_depth (im_cfg im)"
    using assms by (auto simp: impairment_ok_def config_ok_def)
  have "\<exists>out im'. impairment_apply fl packet im = Some (out, im') \<and> im_cfg im' = im_cfg im \<and>
      (im_held im' = kept \<and> out = released \<or> im_held im' = kept @ [(ic_reorder_depth (im_cfg im), packet)] \<and> out = released \<or>
       im_held im' = kept \<and> out = packet # released \<or> im_held im' = kept \<and> out = packet # packet # released)"
    using cfg by (simp add: impairment_apply_def rel(1) next_f64_def Let_def)
  then obtain out im' where r: "impairment_apply fl packet im = Some (out, im')" "im_cfg im' = im_cfg im"
      "im_held im' = kept \<and> out = released \<or> im_held im' = kept @ [(ic_reorder_depth (im_cfg im), packet)] \<and> out = released \<or>
       im_held im' = kept \<and> out = packet # released \<or> im_held im' = kept \<and> out = packet # packet # released"
    by blast
  have ok: "impairment_ok im'" using r(2,3) rel(2) cfg by (auto simp: impairment_ok_def config_ok_def)
  have "\<exists>n \<le> 2. mset (map snd (im_held im)) + replicate_mset n packet = mset out + mset (map snd (im_held im'))"
    using r(3)
  proof (elim disjE conjE)
    assume "im_held im' = kept" "out = released"
    then show ?thesis using rel(3) by (intro exI [of _ 0]) simp
  next
    assume "im_held im' = kept" "out = packet # packet # released"
    then show ?thesis using rel(3) by (intro exI [of _ 2]) (simp add: numeral_2_eq_2)
  qed (use rel(3) in \<open>auto intro!: exI [of _ 1]\<close>)
  with r ok show ?thesis by blast
qed

end
