(* ===== verification/Inbound_Stage.thy ===== *)
theory Inbound_Stage
  imports Reorder Opus_Decode Impair
begin

text \<open>
  \<open>crates/core/src/inbound_audio/stage.rs\<close> and \<open>conceal.rs\<close>: the reader task of a remote track, the
  channel, and the loop of \<open>read_sample\<close> around the reorder buffer and the decoder.  The state behind the
  mutex survives a cancelled read, so one iteration of the loop up to its wait, and each outcome of the
  wait, is a step of its own.  \<open>None\<close> is a panic.  Log lines are not modelled.
\<close>

section \<open>Concealment\<close>

definition MAX_CONCEALED_PACKETS :: nat where "MAX_CONCEALED_PACKETS = 5"

text \<open>The loop over the packets \<open>is\<close> of the \<open>n\<close> that are concealed.\<close>

fun conceal_loop :: "'d opus_lib \<Rightarrow> nat \<Rightarrow> bytes option \<Rightarrow> nat \<Rightarrow> nat \<Rightarrow> nat list \<Rightarrow> 'd opus_decoder \<Rightarrow> stage_stats \<Rightarrow>
    (frame list \<times> 'd opus_decoder \<times> stage_stats) option" where
  "conceal_loop lib missing next_payload n samples [] od stats = Some ([], od, stats)"
| "conceal_loop lib missing next_payload n samples (i # is) od stats =
     (let (result, stats) =
        (case next_payload of
           Some bytes \<Rightarrow>
             if i = n - 1 \<and> missing \<le> MAX_CONCEALED_PACKETS
             then (decode_fec lib bytes samples od, stats\<lparr>fec_decodes := fec_decodes stats + 1\<rparr>)
             else (conceal_plc lib samples od, stats\<lparr>plc_decodes := plc_decodes stats + 1\<rparr>)
         | None \<Rightarrow> (conceal_plc lib samples od, stats\<lparr>plc_decodes := plc_decodes stats + 1\<rparr>))
      in case result of
           None \<Rightarrow> None
         | Some (Inr frames, od) \<Rightarrow>
             map_option (\<lambda>(out, od, stats). (frames @ out, od, stats))
               (conceal_loop lib missing next_payload n samples is od
                  (stats\<lparr>concealed_samples := concealed_samples stats + samples\<rparr>))
         | Some (Inl _, od) \<Rightarrow>
             conceal_loop lib missing next_payload n samples is od (stats\<lparr>undecodable := undecodable stats + 1\<rparr>))"

definition conceal_lost :: "'d opus_lib \<Rightarrow> nat \<Rightarrow> bytes option \<Rightarrow> 'd opus_decoder \<Rightarrow> stage_stats \<Rightarrow>
    (frame list \<times> 'd opus_decoder \<times> stage_stats) option" where
  "conceal_lost lib missing next_payload od stats =
     (let n = min missing MAX_CONCEALED_PACKETS;
          stats = (if n < missing then stats\<lparr>lost_not_concealed := lost_not_concealed stats + (missing - n)\<rparr> else stats)
      in if n = 0 then Some ([], od, stats)
         else conceal_loop lib missing next_payload n (od_last_packet_samples od) [0..<n] od
                (stats\<lparr>concealment_events := concealment_events stats + 1\<rparr>))"

section \<open>State\<close>

record pcm_sample =
  ps_pcm :: bytes
  ps_duration :: duration
  ps_concealed :: bool

datatype rtp_msg = MsgPacket rtp_packet | MsgError ustring

text \<open>
  \<open>ns_rx\<close> is the channel's content once the reader has been spawned, \<open>ns_reader\<close> the running reader task
  with its impairment.
\<close>

record ('d, 'f) inbound_stage =
  ns_enabled :: bool
  ns_impairment :: "'f impairment_config option"
  ns_started :: bool
  ns_backlog :: nat
  ns_reader :: "'f impairment option option"
  ns_rx :: "rtp_msg list option"
  ns_buffer :: reorder_buffer
  ns_decoder :: "'d opus_decoder"
  ns_pending :: "stage_out list"
  ns_ended :: "ustring option"
  ns_raw_impairment :: "'f impairment option"
  ns_raw_impairment_init :: bool
  ns_raw_pending :: "rtp_packet list"
  ns_raw_ended :: "ustring option"

definition reorder_enabled_from_env :: "ustring option \<Rightarrow> bool" where
  "reorder_enabled_from_env var =
     (case var of
        None \<Rightarrow> True
      | Some v \<Rightarrow> map (\<lambda>c. if 65 \<le> c \<and> c \<le> 90 then c + 32 else c) (trim v) \<notin> {utext ''0'', utext ''false'', utext ''off''})"

definition impairment_from_env :: "'f float_ops \<Rightarrow> (ustring \<Rightarrow> 'f option) \<Rightarrow> ustring option \<Rightarrow> 'f impairment_config option" where
  "impairment_from_env fl parse_f64 var =
     (case var of
        None \<Rightarrow> None
      | Some raw \<Rightarrow>
          if trim raw = [] then None
          else (case impairment_parse fl parse_f64 raw of Inr cfg \<Rightarrow> Some cfg | Inl _ \<Rightarrow> None))"

definition stage_new :: "bool \<Rightarrow> 'f impairment_config option \<Rightarrow> 'd \<Rightarrow> ('d, 'f) inbound_stage" where
  "stage_new enabled impairment inner =
     \<lparr>ns_enabled = enabled, ns_impairment = impairment, ns_started = False, ns_backlog = 0, ns_reader = None,
      ns_rx = None, ns_buffer = reorder_new default_stats, ns_decoder = opus_new inner, ns_pending = [], ns_ended = None,
      ns_raw_impairment = None, ns_raw_impairment_init = False, ns_raw_pending = [], ns_raw_ended = None\<rparr>"

definition stage_stats_of :: "('d, 'f) inbound_stage \<Rightarrow> stage_stats" where
  "stage_stats_of s = rb_stats (ns_buffer s)"

definition set_stats :: "stage_stats \<Rightarrow> ('d, 'f) inbound_stage \<Rightarrow> ('d, 'f) inbound_stage" where
  "set_stats st s = s\<lparr>ns_buffer := (ns_buffer s)\<lparr>rb_stats := st\<rparr>\<rparr>"

section \<open>The reader task\<close>

definition spawn_reader :: "('d, 'f) inbound_stage \<Rightarrow> ('d, 'f) inbound_stage" where
  "spawn_reader s = s\<lparr>ns_rx := Some [], ns_reader := Some (map_option impairment_new (ns_impairment s))\<rparr>"

definition reader_send :: "rtp_msg list \<Rightarrow> ('d, 'f) inbound_stage \<Rightarrow> ('d, 'f) inbound_stage" where
  "reader_send msgs s =
     (case ns_rx s of
        Some queue \<Rightarrow> s\<lparr>ns_rx := Some (queue @ msgs), ns_backlog := ns_backlog s + length msgs\<rparr>
      | None \<Rightarrow> s)"

text \<open>What an impairment makes of one packet.\<close>

definition impair_one :: "'f float_ops \<Rightarrow> 'f impairment option \<Rightarrow> rtp_packet \<Rightarrow>
    (rtp_packet list \<times> 'f impairment option) option" where
  "impair_one fl imp packet =
     (case imp of
        None \<Rightarrow> Some ([packet], None)
      | Some im \<Rightarrow> map_option (\<lambda>(ps, im). (ps, Some im)) (impairment_apply fl packet im))"

definition impair_flush :: "'f impairment option \<Rightarrow> rtp_packet list \<times> 'f impairment option" where
  "impair_flush imp =
     (case imp of None \<Rightarrow> ([], None) | Some im \<Rightarrow> (case impairment_flush im of (ps, im) \<Rightarrow> (ps, Some im)))"

definition reader_packet :: "'f float_ops \<Rightarrow> rtp_packet \<Rightarrow> ('d, 'f) inbound_stage \<Rightarrow>
    (rtp_packet list \<times> ('d, 'f) inbound_stage) option" where
  "reader_packet fl packet s =
     (case ns_reader s of
        None \<Rightarrow> Some ([], s)
      | Some imp \<Rightarrow>
          map_option (\<lambda>(ps, imp). (ps, reader_send (map MsgPacket ps) (s\<lparr>ns_reader := Some imp\<rparr>)))
            (impair_one fl imp packet))"

definition reader_failed :: "ustring \<Rightarrow> ('d, 'f) inbound_stage \<Rightarrow> rtp_packet list \<times> ('d, 'f) inbound_stage" where
  "reader_failed e s =
     (case ns_reader s of
        None \<Rightarrow> ([], s)
      | Some imp \<Rightarrow>
          (let ps = fst (impair_flush imp)
           in (ps, reader_send (map MsgPacket ps @ [MsgError e]) (s\<lparr>ns_reader := None\<rparr>))))"

section \<open>Decoding\<close>

definition frames_to_sample :: "frame list \<Rightarrow> bool \<Rightarrow> pcm_sample" where
  "frames_to_sample frames concealed =
     \<lparr>ps_pcm = (if length frames = 1 then fr_pcm (hd frames) else concat (map fr_pcm frames)),
      ps_duration = ms (FRAME_MS * length frames), ps_concealed = concealed\<rparr>"

definition decode_packet :: "'d opus_lib \<Rightarrow> rtp_packet \<Rightarrow> 'd opus_decoder \<Rightarrow> stage_stats \<Rightarrow>
    (frame list \<times> bool \<times> 'd opus_decoder \<times> stage_stats) option" where
  "decode_packet lib packet od stats =
     (case try_decode_payload lib (payload packet) od of
        None \<Rightarrow> None
      | Some (Inr frames, od) \<Rightarrow> Some (frames, False, od, stats)
      | Some (Inl _, od) \<Rightarrow>
          (case conceal_plc lib (od_last_packet_samples od) od of
             None \<Rightarrow> None
           | Some (r, od) \<Rightarrow>
               Some (case r of Inr frames \<Rightarrow> frames | Inl _ \<Rightarrow> [silence_frame], True, od,
                 stats\<lparr>undecodable := undecodable stats + 1\<rparr>)))"

definition decode_packet_or_silence :: "'d opus_lib \<Rightarrow> rtp_packet \<Rightarrow> 'd opus_decoder \<Rightarrow> (frame list \<times> 'd opus_decoder) option" where
  "decode_packet_or_silence lib packet od =
     map_option (\<lambda>(r, od). (case r of Inr frames \<Rightarrow> frames | Inl _ \<Rightarrow> [silence_frame], od))
       (try_decode_payload lib (payload packet) od)"

definition decode_out :: "'d opus_lib \<Rightarrow> stage_out \<Rightarrow> 'd opus_decoder \<Rightarrow> stage_stats \<Rightarrow>
    (frame list \<times> bool \<times> 'd opus_decoder \<times> stage_stats) option" where
  "decode_out lib out od stats =
     (case out of
        Packet packet \<Rightarrow> decode_packet lib packet od stats
      | Lost missing next_payload \<Rightarrow>
          map_option (\<lambda>(frames, od, stats). (frames, True, od, stats)) (conceal_lost lib missing next_payload od stats))"

section \<open>The loop of \<open>read_sample\<close>\<close>

datatype stage_event =
    Forwarded "rtp_packet list"
  | Arrived rtp_packet
  | Played stage_out "pcm_sample option"
  | ReadFailed ustring
  | RawPlayed rtp_packet "pcm_sample option"
  | RawFailed ustring

text \<open>One iteration up to the wait; no event means that it waits or goes round.\<close>

definition stage_turn :: "'d opus_lib \<Rightarrow> instant \<Rightarrow> ('d, 'f) inbound_stage \<Rightarrow>
    (('d, 'f) inbound_stage \<times> stage_event list) option" where
  "stage_turn lib now s =
     (case ns_pending s of
        out # rest \<Rightarrow>
          (case decode_out lib out (ns_decoder s) (stage_stats_of s) of
             None \<Rightarrow> None
           | Some (frames, concealed, od, stats) \<Rightarrow>
               Some (set_stats stats (s\<lparr>ns_pending := rest, ns_decoder := od\<rparr>),
                 [Played out (if frames = [] then None else Some (frames_to_sample frames concealed))]))
      | [] \<Rightarrow>
          (case reorder_poll now (ns_buffer s) of
             None \<Rightarrow> None
           | Some (b, outs) \<Rightarrow>
               (let s = s\<lparr>ns_buffer := b, ns_pending := outs\<rparr> in
                if outs \<noteq> [] then Some (s, [])
                else
                  (case ns_ended s of
                     Some reason \<Rightarrow>
                       (case reorder_flush now b of
                          (b, outs) \<Rightarrow>
                            (let s = s\<lparr>ns_buffer := b, ns_pending := outs\<rparr>
                             in Some (s, if outs \<noteq> [] then [] else [ReadFailed reason])))
                   | None \<Rightarrow>
                       Some (if ns_rx s = None then s\<lparr>ns_ended := Some (utext ''track ended'')\<rparr> else s, [])))))"

text \<open>The receive branch of the wait; without a message it stays there.\<close>

definition stage_receive :: "instant \<Rightarrow> ('d, 'f) inbound_stage \<Rightarrow> (('d, 'f) inbound_stage \<times> stage_event list) option" where
  "stage_receive now s =
     (case ns_rx s of
        None \<Rightarrow> Some (s, [])
      | Some [] \<Rightarrow> Some (if ns_reader s = None then s\<lparr>ns_ended := Some (utext ''track ended'')\<rparr> else s, [])
      | Some (MsgError e # queue) \<Rightarrow>
          Some (s\<lparr>ns_rx := Some queue, ns_backlog := ns_backlog s - 1, ns_ended := Some e\<rparr>, [])
      | Some (MsgPacket p # queue) \<Rightarrow>
          map_option (\<lambda>b. (s\<lparr>ns_rx := Some queue, ns_backlog := ns_backlog s - 1, ns_buffer := b\<rparr>, [Arrived p]))
            (reorder_push p now (ns_buffer s)))"

section \<open>The raw path\<close>

definition raw_init :: "('d, 'f) inbound_stage \<Rightarrow> ('d, 'f) inbound_stage" where
  "raw_init s =
     (if ns_raw_impairment_init s then s
      else s\<lparr>ns_raw_impairment_init := True, ns_raw_impairment := map_option impairment_new (ns_impairment s)\<rparr>)"

definition raw_turn :: "'d opus_lib \<Rightarrow> ('d, 'f) inbound_stage \<Rightarrow> (('d, 'f) inbound_stage \<times> stage_event list) option" where
  "raw_turn lib s =
     (case ns_raw_pending s of
        packet # rest \<Rightarrow>
          map_option (\<lambda>(frames, od).
              (s\<lparr>ns_raw_pending := rest, ns_decoder := od\<rparr>,
               [RawPlayed packet (if frames = [] then None else Some (frames_to_sample frames False))]))
            (decode_packet_or_silence lib packet (ns_decoder s))
      | [] \<Rightarrow> Some (s, case ns_raw_ended s of Some reason \<Rightarrow> [RawFailed reason] | None \<Rightarrow> []))"

definition raw_packet :: "'f float_ops \<Rightarrow> rtp_packet \<Rightarrow> ('d, 'f) inbound_stage \<Rightarrow> ('d, 'f) inbound_stage option" where
  "raw_packet fl p s =
     map_option (\<lambda>(ps, imp). s\<lparr>ns_raw_impairment := imp, ns_raw_pending := ns_raw_pending s @ ps\<rparr>)
       (impair_one fl (ns_raw_impairment s) p)"

definition raw_failed :: "ustring \<Rightarrow> ('d, 'f) inbound_stage \<Rightarrow> ('d, 'f) inbound_stage" where
  "raw_failed e s =
     (case impair_flush (ns_raw_impairment s) of
        (ps, imp) \<Rightarrow> s\<lparr>ns_raw_impairment := imp, ns_raw_pending := ns_raw_pending s @ ps, ns_raw_ended := Some e\<rparr>)"

section \<open>Steps\<close>

datatype 'f stage_op =
    SetEnabled bool
  | SetImpairment "ustring option"
  | ReadStart
  | ReaderPacket rtp_packet
  | ReaderFailed ustring
  | Turn instant
  | Receive instant
  | RawTurn
  | RawPacket rtp_packet
  | RawError ustring

text \<open>The callers of \<open>set_impairment\<close> pass a configuration they have parsed.\<close>

definition set_impairment :: "'f impairment_config option \<Rightarrow> ('d, 'f) inbound_stage \<Rightarrow> ('d, 'f) inbound_stage" where
  "set_impairment cfg s = s\<lparr>ns_impairment := cfg\<rparr>"

definition stage_set_enabled :: "bool \<Rightarrow> ('d, 'f) inbound_stage \<Rightarrow> ('d, 'f) inbound_stage" where
  "stage_set_enabled on s = s\<lparr>ns_enabled := on\<rparr>"

text \<open>
  \<open>ReadStart\<close> is the prologue of \<open>read_sample\<close>: on the enabled path it spawns the reader once, on the
  other it sets up the raw impairment once.
\<close>

fun stage_step :: "'f float_ops \<Rightarrow> (ustring \<Rightarrow> 'f option) \<Rightarrow> 'd opus_lib \<Rightarrow> ('d, 'f) inbound_stage \<Rightarrow> 'f stage_op \<Rightarrow>
    (('d, 'f) inbound_stage \<times> stage_event list) option" where
  "stage_step fl parse_f64 lib s (SetEnabled on) = Some (stage_set_enabled on s, [])"
| "stage_step fl parse_f64 lib s (SetImpairment raw) =
     Some (case raw of
             None \<Rightarrow> set_impairment None s
           | Some t \<Rightarrow> (case impairment_parse fl parse_f64 t of Inr cfg \<Rightarrow> set_impairment (Some cfg) s | Inl _ \<Rightarrow> s), [])"
| "stage_step fl parse_f64 lib s ReadStart =
     Some (if \<not> ns_enabled s then raw_init s
           else if ns_started s then s else spawn_reader (s\<lparr>ns_started := True\<rparr>), [])"
| "stage_step fl parse_f64 lib s (ReaderPacket p) = map_option (\<lambda>(ps, s). (s, [Forwarded ps])) (reader_packet fl p s)"
| "stage_step fl parse_f64 lib s (ReaderFailed e) = (case reader_failed e s of (ps, s) \<Rightarrow> Some (s, [Forwarded ps]))"
| "stage_step fl parse_f64 lib s (Turn now) = stage_turn lib now s"
| "stage_step fl parse_f64 lib s (Receive now) = stage_receive now s"
| "stage_step fl parse_f64 lib s RawTurn = raw_turn lib s"
| "stage_step fl parse_f64 lib s (RawPacket p) = map_option (\<lambda>s. (s, [])) (raw_packet fl p s)"
| "stage_step fl parse_f64 lib s (RawError e) = Some (raw_failed e s, [])"

section \<open>Concealment accounts for every lost packet\<close>

text \<open>Decoding leaves the books of the reorder buffer alone.\<close>

definition books_kept :: "stage_stats \<Rightarrow> stage_stats \<Rightarrow> bool" where
  "books_kept st st' \<longleftrightarrow> packets_received st' = packets_received st \<and> packets_discarded st' = packets_discarded st \<and>
     lost st' = lost st \<and> resets st' = resets st"

definition concealment_total :: "stage_stats \<Rightarrow> nat" where
  "concealment_total st = fec_decodes st + plc_decodes st + lost_not_concealed st"

lemma books_kept_trans: "books_kept a b \<Longrightarrow> books_kept b c \<Longrightarrow> books_kept a c"
  by (simp add: books_kept_def)

lemma result_okE:
  assumes "result_ok x"
  obtains (frames) fs od where "x = Some (Inr fs, od)" "decoder_ok od" "frames_ok fs"
    | (error) e od where "x = Some (Inl e, od)" "decoder_ok od"
  using assms by (auto simp: result_ok_def split: option.splits prod.splits sum.splits)

lemma conceal_loop_ok:
  assumes lib: "opus_laws lib"
  shows "decoder_ok od \<Longrightarrow> \<exists>frames od' st'. conceal_loop lib missing nx n samples is od st = Some (frames, od', st') \<and>
    decoder_ok od' \<and> frames_ok frames \<and> books_kept st st' \<and> concealment_total st' = concealment_total st + length is"
proof (induction "is" arbitrary: od st)
  case Nil
  then show ?case by (simp add: frames_ok_def books_kept_def)
next
  case (Cons i "is")
  obtain res st1 where c: "(case nx of
           Some bytes \<Rightarrow>
             if i = n - 1 \<and> missing \<le> MAX_CONCEALED_PACKETS
             then (decode_fec lib bytes samples od, st\<lparr>fec_decodes := fec_decodes st + 1\<rparr>)
             else (conceal_plc lib samples od, st\<lparr>plc_decodes := plc_decodes st + 1\<rparr>)
         | None \<Rightarrow> (conceal_plc lib samples od, st\<lparr>plc_decodes := plc_decodes st + 1\<rparr>)) = (res, st1)"
    by fastforce
  then have res: "result_ok res" "books_kept st st1" "concealment_total st1 = concealment_total st + 1"
    using conceal_plc_ok [OF lib Cons.prems] decode_fec_ok [OF lib Cons.prems]
    by (auto simp: books_kept_def concealment_total_def split: option.splits if_splits)
  from res(1) show ?case
  proof (cases rule: result_okE)
    case (frames fs od1)
    let ?st = "st1\<lparr>concealed_samples := concealed_samples st1 + samples\<rparr>"
    obtain fs' od' st' where r: "conceal_loop lib missing nx n samples is od1 ?st = Some (fs', od', st')" "decoder_ok od'" "frames_ok fs'"
        "books_kept ?st st'" "concealment_total st' = concealment_total ?st + length is"
      using Cons.IH [OF frames(2), of ?st] by blast
    with frames res show ?thesis
      by (auto simp: c frames_ok_def books_kept_def concealment_total_def)
  next
    case (error e od1)
    let ?st = "st1\<lparr>undecodable := undecodable st1 + 1\<rparr>"
    obtain fs' od' st' where r: "conceal_loop lib missing nx n samples is od1 ?st = Some (fs', od', st')" "decoder_ok od'" "frames_ok fs'"
        "books_kept ?st st'" "concealment_total st' = concealment_total ?st + length is"
      using Cons.IH [OF error(2), of ?st] by blast
    with error res show ?thesis by (auto simp: c books_kept_def concealment_total_def)
  qed
qed

lemma conceal_lost_ok:
  assumes "opus_laws lib" "decoder_ok od"
  shows "\<exists>frames od' st'. conceal_lost lib missing nx od st = Some (frames, od', st') \<and> decoder_ok od' \<and> frames_ok frames \<and>
    books_kept st st' \<and> concealment_total st' = concealment_total st + missing"
proof -
  let ?n = "min missing MAX_CONCEALED_PACKETS"
  define st1 where "st1 = (if ?n < missing then st\<lparr>lost_not_concealed := lost_not_concealed st + (missing - ?n)\<rparr> else st)"
  have st1: "books_kept st st1" "concealment_total st1 + ?n = concealment_total st + missing"
    by (auto simp: st1_def books_kept_def concealment_total_def)
  show ?thesis
  proof (cases "?n = 0")
    case True
    with assms(2) show ?thesis
      by (auto simp: conceal_lost_def Let_def frames_ok_def books_kept_def concealment_total_def)
  next
    case False
    let ?st = "st1\<lparr>concealment_events := concealment_events st1 + 1\<rparr>"
    obtain fs od' st' where "conceal_loop lib missing nx ?n (od_last_packet_samples od) [0..<?n] od ?st = Some (fs, od', st')"
        "decoder_ok od'" "frames_ok fs" "books_kept ?st st'" "concealment_total st' = concealment_total ?st + length [0..<?n]"
      using conceal_loop_ok [OF assms, of missing nx ?n "od_last_packet_samples od" "[0..<?n]" ?st] by blast
    with False st1 show ?thesis
      by (auto simp: conceal_lost_def Let_def st1_def [symmetric] books_kept_def concealment_total_def)
  qed
qed

fun lost_in :: "stage_out \<Rightarrow> nat" where
  "lost_in (Packet p) = 0"
| "lost_in (Lost n nx) = n"

lemma lost_of_single: "lost_of [x] = lost_in x"
  by (cases x) simp_all

lemma decode_out_ok:
  assumes "opus_laws lib" "decoder_ok od"
  shows "\<exists>frames concealed od' st'. decode_out lib x od st = Some (frames, concealed, od', st') \<and> decoder_ok od' \<and>
    frames_ok frames \<and> books_kept st st' \<and> concealment_total st' = concealment_total st + lost_in x"
proof (cases x)
  case (Lost n nx)
  with conceal_lost_ok [OF assms, of n nx st] show ?thesis by (auto simp: decode_out_def)
next
  case (Packet p)
  have silent: "frames_ok [silence_frame]" by (simp add: frames_ok_def)
  from try_decode_ok [OF assms, of "payload p"] show ?thesis
  proof (cases rule: result_okE)
    case (frames fs od')
    with Packet show ?thesis by (auto simp: decode_out_def decode_packet_def books_kept_def)
  next
    case (error e od1)
    from conceal_plc_ok [OF assms(1) error(2), of "od_last_packet_samples od1"] show ?thesis
    proof (cases rule: result_okE)
      case (frames fs od')
      with Packet error show ?thesis
        by (intro exI [of _ fs] exI [of _ True] exI [of _ od'])
           (simp add: decode_out_def decode_packet_def books_kept_def concealment_total_def)
    next
      case err2: (error e2 od')
      with Packet error silent show ?thesis
        by (intro exI [of _ "[silence_frame]"] exI [of _ True] exI [of _ od'])
           (simp add: decode_out_def decode_packet_def books_kept_def concealment_total_def)
    qed
  qed
qed

section \<open>Invariant and accounts\<close>

definition rx_packets :: "('d, 'f) inbound_stage \<Rightarrow> rtp_packet list" where
  "rx_packets s = concat (map (\<lambda>m. case m of MsgPacket p \<Rightarrow> [p] | MsgError _ \<Rightarrow> []) (case ns_rx s of Some q \<Rightarrow> q | None \<Rightarrow> []))"

definition imp_ok :: "'f impairment option \<Rightarrow> bool" where
  "imp_ok imp \<longleftrightarrow> (case imp of Some im \<Rightarrow> impairment_ok im | None \<Rightarrow> True)"

definition stage_inv :: "('d, 'f) inbound_stage \<Rightarrow> bool" where
  "stage_inv s \<longleftrightarrow> reorder_inv (ns_buffer s) \<and> decoder_ok (ns_decoder s) \<and>
     (case ns_impairment s of Some cfg \<Rightarrow> config_ok cfg | None \<Rightarrow> True) \<and>
     (case ns_reader s of Some imp \<Rightarrow> imp_ok imp | None \<Rightarrow> True) \<and> imp_ok (ns_raw_impairment s) \<and>
     (ns_started s \<longleftrightarrow> ns_rx s \<noteq> None) \<and> (ns_reader s \<noteq> None \<longrightarrow> ns_rx s \<noteq> None) \<and>
     ns_backlog s = (case ns_rx s of Some q \<Rightarrow> length q | None \<Rightarrow> 0)"

fun arrived :: "stage_event list \<Rightarrow> rtp_packet list" where
  "arrived [] = []"
| "arrived (Arrived p # es) = p # arrived es"
| "arrived (_ # es) = arrived es"

fun forwarded :: "stage_event list \<Rightarrow> rtp_packet list" where
  "forwarded [] = []"
| "forwarded (Forwarded ps # es) = ps @ forwarded es"
| "forwarded (_ # es) = forwarded es"

fun played :: "stage_event list \<Rightarrow> stage_out list" where
  "played [] = []"
| "played (Played out sample # es) = out # played es"
| "played (_ # es) = played es"

fun samples :: "stage_event list \<Rightarrow> pcm_sample list" where
  "samples [] = []"
| "samples (Played out (Some sample) # es) = sample # samples es"
| "samples (RawPlayed p (Some sample) # es) = sample # samples es"
| "samples (_ # es) = samples es"

definition sample_ok :: "pcm_sample \<Rightarrow> bool" where
  "sample_ok sample \<longleftrightarrow> (\<exists>k \<in> {1..length (ps_pcm sample)}. length (ps_pcm sample) = FRAME_BYTES * k \<and> ps_duration sample = ms (FRAME_MS * k))"

lemma event_appends [simp]:
  shows arrived_append: "arrived (xs @ ys) = arrived xs @ arrived ys"
    and forwarded_append: "forwarded (xs @ ys) = forwarded xs @ forwarded ys"
    and played_append: "played (xs @ ys) = played xs @ played ys"
    and samples_append: "samples (xs @ ys) = samples xs @ samples ys"
  subgoal by (induction xs rule: arrived.induct) simp_all
  subgoal by (induction xs rule: forwarded.induct) simp_all
  subgoal by (induction xs rule: played.induct) simp_all
  subgoal by (induction xs rule: samples.induct) simp_all
  done

text \<open>
  The stage's output still to be played is what is pending and what the buffer has ready: seen through
  \<open>stage_view\<close>, a run of the stage is a run of the reorder buffer.
\<close>

definition stage_view :: "('d, 'f) inbound_stage \<Rightarrow> reorder_buffer" where
  "stage_view s = (ns_buffer s)\<lparr>rb_ready := ns_pending s @ rb_ready (ns_buffer s)\<rparr>"

definition stage_rel :: "('d, 'f) inbound_stage \<Rightarrow> 'f stage_op list \<Rightarrow> stage_event list \<Rightarrow> ('d, 'f) inbound_stage \<Rightarrow> bool" where
  "stage_rel s ops es s' \<longleftrightarrow>
     reorder_rel (stage_view s) (map (\<lambda>p. Push p 0) (arrived es)) (played es) (stage_view s') \<and>
     concealment_total (stage_stats_of s') = concealment_total (stage_stats_of s) + lost_of (played es) \<and>
     rx_packets s @ forwarded es = arrived es @ rx_packets s' \<and> list_all sample_ok (samples es)"

lemma pushed_pushes [simp]: "pushed (map (\<lambda>p. Push p t) ps) = ps"
  by (induction ps) simp_all

lemma reorder_rel_ops: "reorder_rel b ops outs b' \<Longrightarrow> pushed ops = pushed ops' \<Longrightarrow> reorder_rel b ops' outs b'"
  by (simp add: reorder_rel_def)

lemma reorder_rel_shift:
  "reorder_rel b ops outs b' \<Longrightarrow> reorder_rel (b\<lparr>rb_ready := p @ rb_ready b\<rparr>) ops [] (b'\<lparr>rb_ready := p @ outs @ rb_ready b'\<rparr>)"
  by (auto simp: reorder_rel_def held_packets_def)

lemma reorder_rel_take:
  "books_kept (rb_stats b) st \<Longrightarrow> rb_ready b = out # rest \<Longrightarrow> reorder_rel b [] [out] (b\<lparr>rb_ready := rest, rb_stats := st\<rparr>)"
  unfolding reorder_rel_def books_kept_def held_packets_def
  by (intro exI [of _ "[]"] exI [of _ "{#}"] exI [of _ 0]) (simp add: tiling.nil)

lemma stage_view_cong:
  "ns_buffer s' = ns_buffer s \<Longrightarrow> ns_pending s' = ns_pending s \<Longrightarrow> stage_view s' = stage_view s"
  by (simp add: stage_view_def)

lemma reorder_rel_refl: "reorder_rel b [] [] b"
  unfolding reorder_rel_def by (intro exI [of _ "[]"] exI [of _ "{#}"] exI [of _ 0]) (simp add: tiling.nil)

lemma stage_rel_trans:
  assumes "stage_rel s xs e1 s1" "stage_rel s1 ys e2 s2"
  shows "stage_rel s (xs @ ys) (e1 @ e2) s2"
proof -
  have "reorder_rel (stage_view s) (map (\<lambda>p. Push p 0) (arrived e1) @ map (\<lambda>p. Push p 0) (arrived e2))
      (played e1 @ played e2) (stage_view s2)"
    using assms reorder_rel_trans unfolding stage_rel_def by blast
  moreover have "rx_packets s @ forwarded e1 @ forwarded e2 = arrived e1 @ arrived e2 @ rx_packets s2"
    using assms unfolding stage_rel_def by (metis append.assoc)
  ultimately show ?thesis using assms by (simp add: stage_rel_def)
qed

text \<open>Steps that touch neither the buffer nor the channel.\<close>

lemma stage_rel_quiet:
  assumes "ns_buffer s' = ns_buffer s" "ns_pending s' = ns_pending s" "rx_packets s' = rx_packets s"
    "arrived es = []" "played es = []" "forwarded es = []" "list_all sample_ok (samples es)"
  shows "stage_rel s ops es s'"
  unfolding stage_rel_def stage_view_cong [OF assms(1,2)] assms(3-6) stage_stats_of_def assms(1)
  using assms(7) reorder_rel_refl by simp

lemma frames_sample_ok: "frames_ok frames \<Longrightarrow> frames \<noteq> [] \<Longrightarrow> sample_ok (frames_to_sample frames concealed)"
proof -
  assume f: "frames_ok frames" "frames \<noteq> []"
  from f(1) have len: "length (concat (map fr_pcm frames)) = FRAME_BYTES * length frames"
    by (induction frames) (simp_all add: frames_ok_def is_valid_def)
  have pcm: "ps_pcm (frames_to_sample frames concealed) = concat (map fr_pcm frames)"
    by (cases frames) (auto simp: frames_to_sample_def length_Suc_conv)
  have "1 \<le> length frames" using f(2) by (cases frames) simp_all
  then have "length frames \<in> {1..length (concat (map fr_pcm frames))}" using len by simp
  with len show ?thesis unfolding sample_ok_def pcm
    by (intro bexI [of _ "length frames"]) (simp_all add: frames_to_sample_def)
qed

text \<open>The reorder buffer leaves the counters of concealment alone.\<close>

definition concealed :: "reorder_buffer \<Rightarrow> nat" where
  "concealed b = concealment_total (rb_stats b)"

lemma concealed_parts [simp]:
  "concealed (refresh_wait now b) = concealed b" "concealed (observe now d b) = concealed b"
  "concealed (emit_held_head b) = concealed b" "concealed (declare_lost x y now b) = concealed b"
  "concealed (bump_discarded b) = concealed b" "concealed (push_late ext now b) = concealed b"
  by (simp_all add: concealed_def concealment_total_def refresh_wait_def observe_def emit_held_head_def declare_lost_def
      bump_discarded_def push_late_def Let_def split: list.split option.split)

lemma concealed_updates [simp]:
  "concealed (b\<lparr>rb_gap_since := g\<rparr>) = concealed b" "concealed (b\<lparr>rb_held := h\<rparr>) = concealed b"
  "concealed (b\<lparr>rb_ready := r\<rparr>) = concealed b" "concealed (b\<lparr>rb_next := n\<rparr>) = concealed b"
  "concealed (b\<lparr>rb_max_ext := m\<rparr>) = concealed b" "concealed (b\<lparr>rb_lost_ranges := l\<rparr>) = concealed b"
  "concealed (b\<lparr>rb_stats := (rb_stats b)\<lparr>packets_received := x\<rparr>\<rparr>) = concealed b"
  "concealed (b\<lparr>rb_stats := (rb_stats b)\<lparr>reordered := x\<rparr>\<rparr>) = concealed b"
  "concealed (b\<lparr>rb_stats := (rb_stats b)\<lparr>resets := x\<rparr>\<rparr>) = concealed b"
  by (simp_all add: concealed_def concealment_total_def)

lemma concealed_advance: "advance now b = Some b' \<Longrightarrow> concealed b' = concealed b"
proof (induction now b rule: advance.induct)
  case (1 now b)
  show ?case
  proof (cases "rb_held b")
    case Nil
    with 1(3) show ?thesis by (auto simp: advance.simps [of now b])
  next
    case (Cons x rest)
    obtain first head where x: "x = (first, head)" by fastforce
    with 1 Cons show ?thesis
      by (auto simp: advance.simps [of now b] Let_def split: option.splits if_splits)
  qed
qed

lemma concealed_flush_loop: "concealed (flush_loop now b) = concealed b"
proof (induction now b rule: flush_loop.induct)
  case (1 now b)
  then show ?case by (cases "rb_held b") (auto simp: flush_loop.simps [of now b] Let_def)
qed

lemma concealed_push_new: "push_new p ext nxt now b = Some b' \<Longrightarrow> concealed b' = concealed b"
  by (auto simp: push_new_def Let_def dest!: concealed_advance split: option.splits if_splits)

lemma concealed_reset: "concealed (reorder_reset now p b) = concealed b"
  by (simp add: reorder_reset_def flush_held_def concealed_flush_loop Let_def)

lemma concealed_push: "reorder_push p now b = Some b' \<Longrightarrow> concealed b' = concealed b"
  by (auto simp: reorder_push_def Let_def concealed_reset dest!: concealed_push_new split: option.splits if_splits)

lemma concealed_poll: "reorder_poll now b = Some (b', outs) \<Longrightarrow> concealed b' = concealed b"
  by (auto simp: reorder_poll_def dest!: concealed_advance split: option.splits)

lemma concealed_flush: "reorder_flush now b = (b', outs) \<Longrightarrow> concealed b' = concealed b"
  by (auto simp: reorder_flush_def flush_held_def Let_def concealed_flush_loop)

lemma reorder_inv_stats [simp]: "reorder_inv (b\<lparr>rb_stats := st\<rparr>) = reorder_inv b"
  by (simp add: reorder_inv_def wait_ok_def ranges_ok_def held_ok_def cong: option.case_cong)

definition step_good :: "('d, 'f) inbound_stage \<Rightarrow> 'f stage_op \<Rightarrow> (('d, 'f) inbound_stage \<times> stage_event list) option \<Rightarrow> bool" where
  "step_good s op r \<longleftrightarrow> (case r of Some (s', es) \<Rightarrow> stage_inv s' \<and> stage_rel s [op] es s' | None \<Rightarrow> False)"

lemma step_goodI: "stage_inv s' \<Longrightarrow> stage_rel s [op] es s' \<Longrightarrow> step_good s op (Some (s', es))"
  by (simp add: step_good_def)

lemma impair_one_ok:
  assumes "imp_ok imp"
  shows "\<exists>ps imp'. impair_one fl imp p = Some (ps, imp') \<and> imp_ok imp'"
proof (cases imp)
  case None
  then show ?thesis by (simp add: impair_one_def imp_ok_def)
next
  case (Some im)
  with impairment_apply_ok [of im fl p] assms show ?thesis by (auto simp: impair_one_def imp_ok_def)
qed

lemma impair_flush_ok: "imp_ok imp \<Longrightarrow> imp_ok (snd (impair_flush imp))"
  by (auto simp: impair_flush_def imp_ok_def impairment_flush_def impairment_ok_def split: option.split)

lemma impairment_new_ok: "(case cfg of Some c \<Rightarrow> config_ok c | None \<Rightarrow> True) \<Longrightarrow> imp_ok (map_option impairment_new cfg)"
  by (auto simp: imp_ok_def impairment_new_def impairment_ok_def split: option.splits)

text \<open>Play the head of the pending output.\<close>

lemma turn_play_good:
  assumes inv: "stage_inv s" and lib: "opus_laws lib" and p: "ns_pending s = out # rest"
  shows "step_good s (Turn now) (stage_turn lib now s)"
proof -
  obtain frames concealed od st where d: "decode_out lib out (ns_decoder s) (stage_stats_of s) = Some (frames, concealed, od, st)"
      "decoder_ok od" "frames_ok frames" "books_kept (stage_stats_of s) st"
      "concealment_total st = concealment_total (stage_stats_of s) + lost_in out"
    using decode_out_ok [OF lib, of "ns_decoder s" out "stage_stats_of s"] inv by (auto simp: stage_inv_def)
  let ?s = "set_stats st (s\<lparr>ns_pending := rest, ns_decoder := od\<rparr>)"
  let ?es = "[Played out (if frames = [] then None else Some (frames_to_sample frames concealed))]"
  have view: "stage_view ?s = (stage_view s)\<lparr>rb_ready := rest @ rb_ready (ns_buffer s), rb_stats := st\<rparr>"
    by (simp add: stage_view_def set_stats_def)
  have "reorder_rel (stage_view s) [] [out] (stage_view ?s)"
    unfolding view by (rule reorder_rel_take) (use d(4) p in \<open>simp_all add: stage_view_def stage_stats_of_def\<close>)
  moreover have "concealment_total (stage_stats_of ?s) = concealment_total (stage_stats_of s) + lost_of [out]"
    using d(5) by (simp add: stage_stats_of_def set_stats_def lost_of_single)
  moreover have "rx_packets ?s = rx_packets s" by (simp add: rx_packets_def set_stats_def)
  moreover have "list_all sample_ok (samples ?es)" using frames_sample_ok [OF d(3)] by simp
  ultimately have "stage_rel s [Turn now] ?es ?s" by (simp add: stage_rel_def)
  moreover have "stage_inv ?s"
    using inv d(2) by (simp add: stage_inv_def set_stats_def)
  ultimately show ?thesis by (simp add: stage_turn_def p d(1) step_good_def)
qed

text \<open>Poll, and flush after the end of the track.\<close>

lemma buffer_output_rel:
  assumes p: "ns_pending s = []" and rel: "reorder_rel (ns_buffer s) ops outs b'" "pushed ops = []"
    and s': "ns_buffer s' = b'" "ns_pending s' = outs" "rx_packets s' = rx_packets s"
    and conceal: "concealed b' = concealed (ns_buffer s)"
    and es: "arrived es = []" "played es = []" "forwarded es = []" "samples es = []"
  shows "stage_rel s ops' es s'"
proof -
  have "reorder_rel (stage_view s) [] [] (stage_view s')"
    using reorder_rel_ops [OF reorder_rel_shift [OF rel(1), of "[]"], of "[]"] rel(2) p s' by (simp add: stage_view_def)
  with conceal es s' show ?thesis by (simp add: stage_rel_def stage_stats_of_def concealed_def)
qed

lemma turn_buffer_good:
  assumes inv: "stage_inv s" and p: "ns_pending s = []"
  shows "step_good s (Turn now) (stage_turn lib now s)"
proof -
  have b: "reorder_inv (ns_buffer s)" using inv by (simp add: stage_inv_def)
  obtain b1 outs where poll: "reorder_poll now (ns_buffer s) = Some (b1, outs)" "reorder_inv b1"
      "reorder_rel (ns_buffer s) [Poll now] outs b1"
    using reorder_poll_spec [OF b] by blast
  let ?s1 = "s\<lparr>ns_buffer := b1, ns_pending := outs\<rparr>"
  have inv1: "stage_inv ?s1" using inv poll(2) by (simp add: stage_inv_def)
  have rx: "rx_packets (s\<lparr>ns_buffer := b, ns_pending := os\<rparr>) = rx_packets s" for b os by (simp add: rx_packets_def)
  have rel1: "stage_rel s [Turn now] [] ?s1"
    by (rule buffer_output_rel [OF p poll(3)]) (use concealed_poll [OF poll(1)] rx in simp_all)
  show ?thesis
  proof (cases "outs = [] \<and> ns_ended s \<noteq> None")
    case False
    let ?s2 = "s\<lparr>ns_buffer := b1, ns_pending := outs, ns_ended := Some (utext ''track ended'')\<rparr>"
    have "stage_inv ?s2" using inv1 by (simp add: stage_inv_def)
    moreover have "stage_rel s [Turn now] [] ?s2"
      by (rule buffer_output_rel [OF p poll(3)]) (use concealed_poll [OF poll(1)] in \<open>simp_all add: rx_packets_def\<close>)
    ultimately show ?thesis using False p poll(1) inv1 rel1
      by (auto simp: stage_turn_def Let_def step_good_def split: option.split)
  next
    case True
    then obtain reason where ended: "ns_ended s = Some reason" by blast
    obtain b2 outs2 where flush: "reorder_flush now b1 = (b2, outs2)" by fastforce
    have "reorder_inv b2" "reorder_rel b1 [Flush now] outs2 b2"
      using reorder_flush_spec [OF poll(2), of now] by (simp_all add: flush)
    then have rel2: "reorder_rel (ns_buffer s) [Poll now, Flush now] outs2 b2"
      using reorder_rel_trans [OF poll(3), of "[Flush now]" outs2 b2] True by simp
    let ?s2 = "s\<lparr>ns_buffer := b2, ns_pending := outs2\<rparr>"
    have inv2: "stage_inv ?s2" using inv \<open>reorder_inv b2\<close> by (simp add: stage_inv_def)
    have "stage_rel s [Turn now] es ?s2" if "es = [] \<or> es = [ReadFailed reason]" for es
      by (rule buffer_output_rel [OF p rel2])
         (use that concealed_poll [OF poll(1)] concealed_flush [OF flush] rx in auto)
    then show ?thesis using True p poll(1) ended flush inv2 by (auto simp: stage_turn_def step_good_def)
  qed
qed

lemma receive_good:
  assumes inv: "stage_inv s"
  shows "step_good s (Receive now) (stage_receive now s)"
proof -
  have b: "reorder_inv (ns_buffer s)" using inv by (simp add: stage_inv_def)
  show ?thesis
  proof (cases "\<exists>p queue. ns_rx s = Some (MsgPacket p # queue)")
    case True
    then obtain p queue where rx: "ns_rx s = Some (MsgPacket p # queue)" by blast
    obtain b' where push: "reorder_push p now (ns_buffer s) = Some b'" "reorder_inv b'"
        "reorder_rel (ns_buffer s) [Push p now] [] b'"
      using reorder_push_spec [OF b, of p now] by blast
    let ?s = "s\<lparr>ns_rx := Some queue, ns_backlog := ns_backlog s - 1, ns_buffer := b'\<rparr>"
    have "reorder_rel (stage_view s) [Push p 0] [] (stage_view ?s)"
      using reorder_rel_ops [OF reorder_rel_shift [OF push(3), of "ns_pending s"], of "[Push p 0]"] by (simp add: stage_view_def)
    then have "stage_rel s [Receive now] [Arrived p] ?s"
      using rx concealed_push [OF push(1)] by (simp add: stage_rel_def stage_stats_of_def rx_packets_def concealed_def)
    moreover have "stage_inv ?s" using inv rx push(2) by (simp add: stage_inv_def)
    ultimately show ?thesis using rx push(1) by (simp add: stage_receive_def step_good_def)
  next
    case False
    then consider "ns_rx s = None" | "ns_rx s = Some []" | e queue where "ns_rx s = Some (MsgError e # queue)"
      by (metis list.exhaust not_None_eq rtp_msg.exhaust)
    then show ?thesis
    proof cases
      case 1
      have "stage_rel s [Receive now] [] s" by (rule stage_rel_quiet) simp_all
      with 1 inv show ?thesis by (simp add: stage_receive_def step_good_def)
    next
      case 2
      let ?s = "if ns_reader s = None then s\<lparr>ns_ended := Some (utext ''track ended'')\<rparr> else s"
      have "stage_rel s [Receive now] [] ?s" by (rule stage_rel_quiet) (simp_all add: rx_packets_def)
      moreover have "stage_inv ?s" using inv by (simp add: stage_inv_def)
      ultimately show ?thesis by (simp add: stage_receive_def step_good_def 2)
    next
      case (3 e queue)
      let ?s = "s\<lparr>ns_rx := Some queue, ns_backlog := ns_backlog s - 1, ns_ended := Some e\<rparr>"
      have "stage_rel s [Receive now] [] ?s" by (rule stage_rel_quiet) (use 3 in \<open>simp_all add: rx_packets_def\<close>)
      moreover have "stage_inv ?s" using inv 3 by (simp add: stage_inv_def)
      ultimately show ?thesis by (simp add: stage_receive_def step_good_def 3)
    qed
  qed
qed

lemma reader_send_rel:
  assumes rx: "ns_rx s = Some q" and s0: "ns_rx s0 = ns_rx s" "ns_buffer s0 = ns_buffer s" "ns_pending s0 = ns_pending s"
    and msgs: "concat (map (\<lambda>m. case m of MsgPacket p \<Rightarrow> [p] | MsgError _ \<Rightarrow> []) msgs) = ps"
  shows "stage_rel s ops [Forwarded ps] (reader_send msgs s0)"
proof -
  have "stage_view (reader_send msgs s0) = stage_view s" using rx s0 by (simp add: reader_send_def stage_view_def)
  moreover have "stage_stats_of (reader_send msgs s0) = stage_stats_of s" using rx s0 by (simp add: reader_send_def stage_stats_of_def)
  moreover have "rx_packets (reader_send msgs s0) = rx_packets s @ ps" using rx s0 msgs by (simp add: reader_send_def rx_packets_def)
  ultimately show ?thesis by (simp add: stage_rel_def reorder_rel_refl)
qed

lemma forwarded_packets: "concat (map (\<lambda>m. case m of MsgPacket p \<Rightarrow> [p] | MsgError _ \<Rightarrow> []) (map MsgPacket ps)) = ps"
  by (induction ps) simp_all

lemma reader_send_inv: "stage_inv s \<Longrightarrow> stage_inv (reader_send msgs s)"
  by (auto simp: stage_inv_def reader_send_def split: option.split)

lemma no_forward_rel: "stage_rel s ops [Forwarded []] s"
  by (simp add: stage_rel_def reorder_rel_refl)

lemma reader_packet_good:
  assumes inv: "stage_inv s"
  shows "step_good s op (map_option (\<lambda>(ps, s). (s, [Forwarded ps])) (reader_packet fl p s))"
proof (cases "ns_reader s")
  case None
  then show ?thesis using inv no_forward_rel by (auto simp: reader_packet_def step_good_def)
next
  case (Some imp)
  then obtain q where q: "ns_rx s = Some q" using inv by (auto simp: stage_inv_def)
  obtain ps imp' where imp: "impair_one fl imp p = Some (ps, imp')" "imp_ok imp'"
    using impair_one_ok [of imp fl p] inv Some by (auto simp: stage_inv_def)
  let ?s = "s\<lparr>ns_reader := Some imp'\<rparr>"
  have "stage_inv ?s" using inv imp(2) q by (simp add: stage_inv_def)
  then have "stage_inv (reader_send (map MsgPacket ps) ?s)" by (rule reader_send_inv)
  moreover have "stage_rel s [op] [Forwarded ps] (reader_send (map MsgPacket ps) ?s)"
    by (rule reader_send_rel [OF q _ _ _ forwarded_packets]) simp_all
  ultimately show ?thesis using Some imp(1) by (simp add: reader_packet_def step_good_def)
qed

lemma reader_failed_good:
  assumes inv: "stage_inv s"
  shows "step_good s op (case reader_failed e s of (ps, s) \<Rightarrow> Some (s, [Forwarded ps]))"
proof (cases "ns_reader s")
  case None
  then show ?thesis using inv no_forward_rel by (auto simp: reader_failed_def step_good_def)
next
  case (Some imp)
  then obtain q where q: "ns_rx s = Some q" using inv by (auto simp: stage_inv_def)
  let ?s = "s\<lparr>ns_reader := None\<rparr>" and ?ps = "fst (impair_flush imp)"
  let ?msgs = "map MsgPacket ?ps @ [MsgError e]"
  have "stage_inv ?s" using inv q by (simp add: stage_inv_def)
  then have "stage_inv (reader_send ?msgs ?s)" by (rule reader_send_inv)
  moreover have "concat (map (\<lambda>m. case m of MsgPacket p \<Rightarrow> [p] | MsgError _ \<Rightarrow> []) ?msgs) = ?ps"
    using forwarded_packets [of ?ps] by simp
  then have "stage_rel s [op] [Forwarded ?ps] (reader_send ?msgs ?s)"
    by (intro reader_send_rel [OF q]) simp_all
  ultimately show ?thesis using Some by (simp add: reader_failed_def step_good_def Let_def)
qed

lemma raw_turn_good:
  assumes inv: "stage_inv s" and lib: "opus_laws lib"
  shows "step_good s RawTurn (raw_turn lib s)"
proof (cases "ns_raw_pending s")
  case Nil
  have "stage_rel s [RawTurn] es s" if "es = [] \<or> (\<exists>r. es = [RawFailed r])" for es
    by (rule stage_rel_quiet) (use that in auto)
  with Nil inv show ?thesis by (auto simp: raw_turn_def step_good_def split: option.split)
next
  case (Cons packet rest)
  have od: "decoder_ok (ns_decoder s)" using inv by (simp add: stage_inv_def)
  obtain frames od' where d: "decode_packet_or_silence lib packet (ns_decoder s) = Some (frames, od')" "decoder_ok od'" "frames_ok frames"
    using try_decode_ok [OF lib od, of "payload packet"]
  proof (cases rule: result_okE)
    case (frames fs od')
    then show ?thesis using that by (simp add: decode_packet_or_silence_def)
  next
    case (error e od')
    then show ?thesis using that by (simp add: decode_packet_or_silence_def frames_ok_def)
  qed
  let ?s = "s\<lparr>ns_raw_pending := rest, ns_decoder := od'\<rparr>"
  let ?es = "[RawPlayed packet (if frames = [] then None else Some (frames_to_sample frames False))]"
  have "stage_rel s [RawTurn] ?es ?s"
    by (rule stage_rel_quiet) (use frames_sample_ok [OF d(3)] in \<open>simp_all add: rx_packets_def\<close>)
  moreover have "stage_inv ?s" using inv d(2) by (simp add: stage_inv_def)
  ultimately show ?thesis using Cons d(1) by (simp add: raw_turn_def step_good_def)
qed

lemma same_channel_rel: "ns_buffer s' = ns_buffer s \<Longrightarrow> ns_pending s' = ns_pending s \<Longrightarrow> ns_rx s' = ns_rx s \<Longrightarrow> stage_rel s ops [] s'"
  by (rule stage_rel_quiet) (simp_all add: rx_packets_def)

lemma raw_packet_good:
  assumes inv: "stage_inv s"
  shows "step_good s op (map_option (\<lambda>s. (s, [])) (raw_packet fl p s))"
proof -
  obtain ps imp' where imp: "impair_one fl (ns_raw_impairment s) p = Some (ps, imp')" "imp_ok imp'"
    using impair_one_ok [of "ns_raw_impairment s" fl p] inv by (auto simp: stage_inv_def)
  let ?s = "s\<lparr>ns_raw_impairment := imp', ns_raw_pending := ns_raw_pending s @ ps\<rparr>"
  have "stage_inv ?s" using inv imp(2) by (simp add: stage_inv_def)
  then show ?thesis using imp(1) same_channel_rel [of ?s s] by (simp add: raw_packet_def step_good_def)
qed

lemma raw_failed_good:
  assumes inv: "stage_inv s"
  shows "step_good s op (Some (raw_failed e s, []))"
proof -
  obtain ps imp' where imp: "impair_flush (ns_raw_impairment s) = (ps, imp')" by fastforce
  then have "imp_ok imp'" using impair_flush_ok [of "ns_raw_impairment s"] inv by (simp add: stage_inv_def)
  then have "stage_inv (raw_failed e s)" using inv imp by (simp add: raw_failed_def stage_inv_def)
  moreover have "stage_rel s [op] [] (raw_failed e s)" by (rule same_channel_rel) (simp_all add: raw_failed_def imp)
  ultimately show ?thesis by (simp add: step_good_def)
qed

lemma read_start_good:
  assumes inv: "stage_inv s"
  shows "step_good s op (stage_step fl parse_f64 lib s ReadStart)"
proof -
  have "stage_inv (raw_init s)" using inv impairment_new_ok [of "ns_impairment s"] by (auto simp: stage_inv_def raw_init_def)
  moreover have "stage_rel s [op] [] (raw_init s)" by (rule same_channel_rel) (simp_all add: raw_init_def)
  moreover have "stage_inv (spawn_reader (s\<lparr>ns_started := True\<rparr>))" if "\<not> ns_started s"
    using inv that impairment_new_ok [of "ns_impairment s"] by (simp add: stage_inv_def spawn_reader_def)
  moreover have "stage_rel s [op] [] (spawn_reader (s\<lparr>ns_started := True\<rparr>))" if "\<not> ns_started s"
    by (rule stage_rel_quiet) (use inv that in \<open>simp_all add: spawn_reader_def rx_packets_def stage_inv_def\<close>)
  moreover have "stage_rel s [op] [] s" by (rule same_channel_rel) simp_all
  ultimately show ?thesis using inv by (simp add: step_good_def)
qed

lemma configure_good:
  assumes inv: "stage_inv s"
  shows "step_good s op (stage_step fl parse_f64 lib s (SetEnabled on))"
    and "step_good s op (stage_step fl parse_f64 lib s (SetImpairment raw))"
proof -
  show "step_good s op (stage_step fl parse_f64 lib s (SetEnabled on))"
    using inv same_channel_rel [of "stage_set_enabled on s" s "[op]"] by (simp add: step_good_def stage_set_enabled_def stage_inv_def)
  have "stage_rel s [op] [] s'" if "s' = s \<or> (\<exists>cfg. s' = set_impairment cfg s)" for s'
    by (rule same_channel_rel) (use that in \<open>auto simp: set_impairment_def\<close>)
  moreover have "stage_inv (set_impairment cfg s)" if "case cfg of Some c \<Rightarrow> config_ok c | None \<Rightarrow> True" for cfg
    using inv that by (simp add: set_impairment_def stage_inv_def)
  ultimately have good: "step_good s op (Some (s', []))"
    if "s' = s \<or> (\<exists>cfg. s' = set_impairment cfg s \<and> (case cfg of Some c \<Rightarrow> config_ok c | None \<Rightarrow> True))" for s'
    using that inv by (auto simp: step_good_def)
  have "s' = s \<or> (\<exists>cfg. s' = set_impairment cfg s \<and> (case cfg of Some c \<Rightarrow> config_ok c | None \<Rightarrow> True))"
    if "s' = (case raw of None \<Rightarrow> set_impairment None s
        | Some t \<Rightarrow> (case impairment_parse fl parse_f64 t of Inr cfg \<Rightarrow> set_impairment (Some cfg) s | Inl _ \<Rightarrow> s))" for s'
    using that by (auto dest: impairment_parse_ok split: option.splits sum.splits)
  then show "step_good s op (stage_step fl parse_f64 lib s (SetImpairment raw))"
    unfolding stage_step.simps by (intro good) blast
qed

lemma stage_step_good:
  assumes "stage_inv s" "opus_laws lib"
  shows "step_good s op (stage_step fl parse_f64 lib s op)"
proof (cases op)
  case (Turn now)
  with turn_play_good turn_buffer_good assms show ?thesis by (cases "ns_pending s") simp_all
qed (use assms configure_good read_start_good reader_packet_good reader_failed_good receive_good raw_turn_good
      raw_packet_good raw_failed_good in \<open>simp_all del: stage_step.simps(1-3)\<close>)

interpretation stage: traced_component "stage_step fl parse_f64 lib" "\<lambda>s. stage_inv s \<and> opus_laws lib" stage_rel
  for fl :: "'f float_ops" and parse_f64 :: "ustring \<Rightarrow> 'f option" and lib :: "'d opus_lib"
proof
  show "\<exists>s' es. stage_step fl parse_f64 lib s op = Some (s', es) \<and> stage_inv s' \<and> opus_laws lib"
    if "stage_inv s \<and> opus_laws lib" for s op
    using stage_step_good [of s lib op fl parse_f64] that by (auto simp: step_good_def split: option.splits)
  show "stage_rel s [] [] s" if "stage_inv s \<and> opus_laws lib" for s :: "('d, 'f) inbound_stage"
    by (rule same_channel_rel) simp_all
  show "stage_rel s [op] es s'" if "stage_inv s \<and> opus_laws lib" "stage_step fl parse_f64 lib s op = Some (s', es)" for s op s' es
    using stage_step_good [of s lib op fl parse_f64] that by (auto simp: step_good_def)
qed (rule stage_rel_trans)

lemma stage_new_inv: "(case imp of Some c \<Rightarrow> config_ok c | None \<Rightarrow> True) \<Longrightarrow> stage_inv (stage_new enabled imp inner)"
  by (simp add: stage_inv_def stage_new_def reorder_inv_new imp_ok_def)

lemma impairment_from_env_ok: "case impairment_from_env fl parse_f64 var of Some c \<Rightarrow> config_ok c | None \<Rightarrow> True"
  by (auto simp: impairment_from_env_def dest: impairment_parse_ok split: option.split sum.split)

section \<open>No packet is lost silently\<close>

definition stage_start :: "'f float_ops \<Rightarrow> (ustring \<Rightarrow> 'f option) \<Rightarrow> ustring option \<Rightarrow> ustring option \<Rightarrow> 'd \<Rightarrow> ('d, 'f) inbound_stage" where
  "stage_start fl parse_f64 reorder_var impairment_var inner =
     stage_new (reorder_enabled_from_env reorder_var) (impairment_from_env fl parse_f64 impairment_var) inner"

lemma stage_start_inv: "stage_inv (stage_start fl parse_f64 v w inner)"
  unfolding stage_start_def by (rule stage_new_inv) (rule impairment_from_env_ok)

lemma stage_start_empty: "rx_packets (stage_start fl parse_f64 v w inner) = []"
    "stage_view (stage_start fl parse_f64 v w inner) = reorder_new default_stats"
  by (simp_all add: stage_start_def stage_new_def rx_packets_def stage_view_def reorder_new_def)

lemma stage_accounts:
  assumes lib: "opus_laws lib" and run: "run_ops (stage_step fl parse_f64 lib) (stage_start fl parse_f64 v w inner) ops = Some (s, es)"
  shows "stage_inv s" "forwarded es = arrived es @ rx_packets s" "list_all sample_ok (samples es)"
    "concealment_total (stage_stats_of s) = lost_of (played es)"
    "\<exists>dropped. tiling (resets (stage_stats_of s)) None (played es @ ns_pending s @ rb_ready (ns_buffer s)) (rb_next (ns_buffer s)) \<and>
       mset (arrived es) = mset (packets_of (played es @ ns_pending s @ rb_ready (ns_buffer s))) + mset (held_packets (ns_buffer s)) + dropped \<and>
       packets_discarded (stage_stats_of s) = size dropped \<and>
       lost (stage_stats_of s) = lost_of (played es @ ns_pending s @ rb_ready (ns_buffer s))"
proof -
  let ?s0 = "stage_start fl parse_f64 v w inner"
  have ok: "stage_inv ?s0 \<and> opus_laws lib" using lib stage_start_inv by simp
  show "stage_inv s" using stage.run_inv [OF ok run] by simp
  have rel: "stage_rel ?s0 ops es s" by (rule stage.run_rel [OF ok run])
  then show "forwarded es = arrived es @ rx_packets s" "list_all sample_ok (samples es)"
    by (simp_all add: stage_rel_def stage_start_empty)
  show "concealment_total (stage_stats_of s) = lost_of (played es)"
    using rel by (simp add: stage_rel_def stage_start_def stage_new_def stage_stats_of_def reorder_new_def
        default_stats_def concealment_total_def)
  have "reorder_rel (reorder_new default_stats) (map (\<lambda>p. Push p 0) (arrived es)) (played es) (stage_view s)"
    using rel by (simp add: stage_rel_def stage_start_empty)
  then show "\<exists>dropped. tiling (resets (stage_stats_of s)) None (played es @ ns_pending s @ rb_ready (ns_buffer s)) (rb_next (ns_buffer s)) \<and>
       mset (arrived es) = mset (packets_of (played es @ ns_pending s @ rb_ready (ns_buffer s))) + mset (held_packets (ns_buffer s)) + dropped \<and>
       packets_discarded (stage_stats_of s) = size dropped \<and>
       lost (stage_stats_of s) = lost_of (played es @ ns_pending s @ rb_ready (ns_buffer s))"
    unfolding reorder_rel_def
    by (auto simp: reorder_new_def default_stats_def held_packets_def stage_view_def stage_stats_of_def)
qed

text \<open>
  C5: Whatever the network, the reader, cancelled reads and settings do, the stage never panics.  The
  channel is a queue; what the decoder is given next to what is still pending tiles the sequence space;
  every packet taken from the channel is played, pending, held or counted as discarded; every lost
  packet that was played is concealed or counted; and every sample is a whole number of 20 ms frames.
\<close>

theorem stage_accounts_for_every_packet:
  assumes "opus_laws lib"
  shows "\<exists>s es dropped. run_ops (stage_step fl parse_f64 lib) (stage_start fl parse_f64 v w inner) ops = Some (s, es) \<and>
    forwarded es = arrived es @ rx_packets s \<and>
    tiling (resets (stage_stats_of s)) None (played es @ ns_pending s @ rb_ready (ns_buffer s)) (rb_next (ns_buffer s)) \<and>
    mset (arrived es) = mset (packets_of (played es @ ns_pending s @ rb_ready (ns_buffer s))) +
      mset (held_packets (ns_buffer s)) + dropped \<and>
    packets_discarded (stage_stats_of s) = size dropped \<and>
    lost (stage_stats_of s) = lost_of (played es @ ns_pending s @ rb_ready (ns_buffer s)) \<and>
    fec_decodes (stage_stats_of s) + plc_decodes (stage_stats_of s) + lost_not_concealed (stage_stats_of s) = lost_of (played es) \<and>
    list_all sample_ok (samples es)"
proof -
  obtain s es where run: "run_ops (stage_step fl parse_f64 lib) (stage_start fl parse_f64 v w inner) ops = Some (s, es)"
    using stage.run_ok [OF conjI [OF stage_start_inv assms]] by blast
  from stage_accounts [OF assms run] show ?thesis using run unfolding concealment_total_def by blast
qed

text \<open>An instance of the library: it decodes every packet to what the buffer held.\<close>

definition quiet_opus :: "unit opus_lib" where
  "quiet_opus = \<lparr>op_packet = (\<lambda>_. None), op_nb_samples = (\<lambda>_. Inr 960), op_output = (\<lambda>_. None),
     op_decode = (\<lambda>_ out _ d. (Inr (length out div 2), out, d))\<rparr>"

lemma quiet_opus_laws: "opus_laws quiet_opus"
  by (simp add: opus_laws_def quiet_opus_def)

definition stage_demo_ops :: "int stage_op list" where
  "stage_demo_ops = [ReadStart, ReaderPacket (demo_packet 1), Receive 0, Turn 0, Turn 0, ReaderFailed (utext ''eof''), Receive 1]"

theorem stage_accounts_for_every_packet_witness:
  "\<exists>s es dropped. run_ops (stage_step int_ops (\<lambda>_. None) quiet_opus) (stage_start int_ops (\<lambda>_. None) None None ()) stage_demo_ops = Some (s, es) \<and>
    forwarded es = arrived es @ rx_packets s \<and>
    mset (arrived es) = mset (packets_of (played es @ ns_pending s @ rb_ready (ns_buffer s))) +
      mset (held_packets (ns_buffer s)) + dropped \<and> list_all sample_ok (samples es)"
  using stage_accounts_for_every_packet [OF quiet_opus_laws, of int_ops "\<lambda>_. None" None None "()" stage_demo_ops] by blast

section \<open>After the end of the track\<close>

text \<open>Turns that are left once the track has ended.\<close>

definition remaining :: "('d, 'f) inbound_stage \<Rightarrow> nat" where
  "remaining s = length (ns_pending s) + 2 * length (rb_ready (ns_buffer s)) + 3 * length (rb_held (ns_buffer s))"

lemma tiling_length:
  assumes "tiling r c os c'"
  shows "length os \<le> 2 * length (packets_of os)"
proof -
  have "length os + (case os of Packet p # _ \<Rightarrow> 1 | _ \<Rightarrow> 0) \<le> 2 * length (packets_of os)"
    using assms by (induction rule: tiling.induct) (auto split: list.splits stage_out.splits)
  then show ?thesis by simp
qed

lemma output_count:
  assumes rel: "reorder_rel b ops outs b'" "pushed ops = []" and empty: "rb_ready b' = []"
  shows "length outs + 3 * length (rb_held b') \<le> 2 * length (rb_ready b) + 3 * length (rb_held b)"
    and "outs \<noteq> [] \<Longrightarrow> length outs + 3 * length (rb_held b') < 2 * length (rb_ready b) + 3 * length (rb_held b)"
proof -
  obtain produced dropped r where p: "rb_ready b @ produced = outs" "tiling r (rb_next b) produced (rb_next b')"
      "mset (held_packets b) = mset (packets_of produced) + mset (held_packets b') + dropped"
    using rel empty by (auto simp: reorder_rel_def)
  have "length (rb_held b) = length (packets_of produced) + length (rb_held b') + size dropped"
    using arg_cong [OF p(3), of size] by (simp add: held_packets_def)
  moreover note tiling_length [OF p(2)]
  moreover have "length outs = length (rb_ready b) + length produced" using p(1) by auto
  ultimately have grow: "length produced \<le> 2 * length (packets_of produced)"
      and total: "length (rb_held b) = length (packets_of produced) + length (rb_held b') + size dropped"
      and outs: "length outs = length (rb_ready b) + length produced"
    by linarith+
  show "length outs + 3 * length (rb_held b') \<le> 2 * length (rb_ready b) + 3 * length (rb_held b)"
    using grow total outs by linarith
  assume "outs \<noteq> []"
  then have "0 < length (rb_ready b) + length produced" using outs by (metis length_greater_0_conv)
  then show "length outs + 3 * length (rb_held b') < 2 * length (rb_ready b) + 3 * length (rb_held b)"
    using grow total outs by linarith
qed

lemma ended_turn:
  assumes inv: "stage_inv s" and lib: "opus_laws lib" and ended: "ns_ended s = Some reason"
  shows "\<exists>s' es. stage_turn lib now s = Some (s', es) \<and> ns_ended s' = Some reason \<and>
    (remaining s' < remaining s \<or>
     es = [ReadFailed reason] \<and> ns_pending s' = [] \<and> rb_ready (ns_buffer s') = [] \<and> rb_held (ns_buffer s') = [])"
proof (cases "ns_pending s")
  case (Cons out rest)
  obtain frames concealed od st where "decode_out lib out (ns_decoder s) (stage_stats_of s) = Some (frames, concealed, od, st)"
    using decode_out_ok [OF lib, of "ns_decoder s" out "stage_stats_of s"] inv by (auto simp: stage_inv_def)
  with Cons ended show ?thesis by (simp add: stage_turn_def set_stats_def remaining_def)
next
  case Nil
  have b: "reorder_inv (ns_buffer s)" using inv by (simp add: stage_inv_def)
  obtain b1 outs where poll: "reorder_poll now (ns_buffer s) = Some (b1, outs)" "reorder_inv b1"
      "reorder_rel (ns_buffer s) [Poll now] outs b1" "rb_ready b1 = []"
    using reorder_poll_spec [OF b] by blast
  note polled = output_count [OF poll(3) _ poll(4)]
  show ?thesis
  proof (cases "outs = []")
    case False
    with polled(2) Nil poll ended show ?thesis by (simp add: stage_turn_def remaining_def)
  next
    case True
    obtain b2 outs2 where flush: "reorder_flush now b1 = (b2, outs2)" by fastforce
    have f: "reorder_rel b1 [Flush now] outs2 b2" "rb_held b2 = []"
      using reorder_flush_spec [OF poll(2), of now] by (simp_all add: flush)
    have ready: "rb_ready b2 = []" using flush by (auto simp: reorder_flush_def Let_def)
    note flushed = output_count [OF f(1) _ ready]
    show ?thesis
    proof (cases "outs2 = []")
      case False
      then have "length outs2 + 2 * length (rb_ready b2) + 3 * length (rb_held b2) < remaining s"
        using True Nil polled(1) flushed(2) ready poll(4) by (simp add: remaining_def)
      with False True Nil poll ended flush show ?thesis by (simp add: stage_turn_def remaining_def)
    next
      case drained: True
      with True Nil poll ended flush f(2) ready show ?thesis by (simp add: stage_turn_def)
    qed
  qed
qed

lemma ended_drains:
  "stage_inv s \<Longrightarrow> opus_laws lib \<Longrightarrow> ns_ended s = Some reason \<Longrightarrow> remaining s < length nows \<Longrightarrow>
    \<exists>s' es. run_ops (stage_step fl parse_f64 lib) s (map Turn nows) = Some (s', es) \<and> ReadFailed reason \<in> set es"
proof (induction nows arbitrary: s)
  case (Cons now nows)
  obtain s1 e1 where turn: "stage_turn lib now s = Some (s1, e1)" "ns_ended s1 = Some reason"
      "remaining s1 < remaining s \<or> e1 = [ReadFailed reason]"
    using ended_turn [OF Cons.prems(1-3), of now] by blast
  have step: "stage_step fl parse_f64 lib s (Turn now) = Some (s1, e1)" using turn(1) by simp
  have inv: "stage_inv s1" using stage.step_inv [OF _ step] Cons.prems(1,2) by blast
  show ?case
  proof (cases "remaining s1 < remaining s")
    case True
    then have "remaining s1 < length nows" using Cons.prems(4) by simp
    from Cons.IH [OF inv Cons.prems(2) turn(2) this] obtain s2 e2 where
      "run_ops (stage_step fl parse_f64 lib) s1 (map Turn nows) = Some (s2, e2)" "ReadFailed reason \<in> set e2" by blast
    from run_ops_Cons [OF step this(1)] this(2) show ?thesis by auto
  next
    case False
    obtain s2 e2 where "run_ops (stage_step fl parse_f64 lib) s1 (map Turn nows) = Some (s2, e2)"
      using stage.run_ok [of s1 lib fl parse_f64 "map Turn nows"] inv Cons.prems(2) by blast
    from run_ops_Cons [OF step this] turn(3) False show ?thesis by auto
  qed
qed simp


lemma read_failed_drained:
  assumes inv: "stage_inv s" and lib: "opus_laws lib" and turn: "stage_turn lib now s = Some (s', es')"
    and failed: "ReadFailed reason \<in> set es'"
  shows "es' = [ReadFailed reason] \<and> ns_pending s' = [] \<and> rb_ready (ns_buffer s') = [] \<and> rb_held (ns_buffer s') = []"
proof -
  have pending: "ns_pending s = []"
    using turn failed by (cases "ns_pending s") (auto simp: stage_turn_def split: option.splits prod.splits)
  obtain b1 outs where poll: "reorder_poll now (ns_buffer s) = Some (b1, outs)" "reorder_inv b1" "rb_ready b1 = []"
    using reorder_poll_spec [of "ns_buffer s" now] inv by (auto simp: stage_inv_def)
  obtain b2 outs2 where flush: "reorder_flush now b1 = (b2, outs2)" by fastforce
  have "rb_held b2 = []" using reorder_flush_spec(3) [OF poll(2), of now] by (simp add: flush)
  moreover have "rb_ready b2 = []" using flush by (auto simp: reorder_flush_def Let_def)
  ultimately show ?thesis using turn failed pending poll flush
    by (auto simp: stage_turn_def Let_def split: option.splits if_splits)
qed

text \<open>
  A read fails only after all the audio has been played: every packet that arrived was played or
  counted as discarded, and every loss was played and concealed or counted.
\<close>

theorem stage_fails_only_when_drained:
  assumes "opus_laws lib"
    and "run_ops (stage_step fl parse_f64 lib) (stage_start fl parse_f64 v w inner) (ops @ [Turn now]) = Some (s, es)"
    and "run_ops (stage_step fl parse_f64 lib) (stage_start fl parse_f64 v w inner) ops = Some (s0, es0)"
    and "es = es0 @ fails" and "ReadFailed reason \<in> set fails"
  shows "\<exists>dropped. mset (arrived es) = mset (packets_of (played es)) + dropped \<and>
    packets_discarded (stage_stats_of s) = size dropped \<and> lost (stage_stats_of s) = lost_of (played es) \<and>
    fec_decodes (stage_stats_of s) + plc_decodes (stage_stats_of s) + lost_not_concealed (stage_stats_of s) = lost (stage_stats_of s)"
proof -
  have turn: "stage_turn lib now s0 = Some (s, fails)"
    using assms(2-4) by (auto simp: run_ops_append split: option.splits)
  note drained = read_failed_drained [OF stage_accounts(1) [OF assms(1,3)] assms(1) turn assms(5)]
  from stage_accounts(4,5) [OF assms(1,2)] drained show ?thesis
    by (auto simp: held_packets_def concealment_total_def)
qed

text \<open>A packet that arrives and is played before the track ends.\<close>

lemma stage_demo_states:
  defines "step \<equiv> stage_step int_ops (\<lambda>_. None) quiet_opus" and "start \<equiv> stage_start int_ops (\<lambda>_. None) None None ()"
  shows "\<exists>s. run_ops step start [ReadStart, ReaderFailed (utext ''eof''), Receive 0] = Some (s, [Forwarded []]) \<and>
    ns_ended s = Some (utext ''eof'') \<and> remaining s = 0"
    and "\<exists>s. run_ops step start ([ReadStart, ReaderFailed (utext ''eof''), Receive 0] @ [Turn 0]) =
      Some (s, [Forwarded []] @ [ReadFailed (utext ''eof'')])"
  by (simp_all add: step_def start_def stage_start_def stage_new_def reorder_enabled_from_env_def impairment_from_env_def
      spawn_reader_def reader_failed_def impair_flush_def reader_send_def stage_receive_def remaining_def reorder_new_def
      stage_turn_def reorder_poll_def refresh_wait_def Let_def advance_empty reorder_flush_def flush_held_def flush_loop_empty)


theorem stage_fails_only_when_drained_witness:
  "\<exists>s dropped. run_ops (stage_step int_ops (\<lambda>_. None) quiet_opus) (stage_start int_ops (\<lambda>_. None) None None ())
      ([ReadStart, ReaderFailed (utext ''eof''), Receive 0] @ [Turn 0]) = Some (s, [Forwarded []] @ [ReadFailed (utext ''eof'')]) \<and>
    packets_discarded (stage_stats_of s) = size (dropped :: rtp_packet multiset)"
proof -
  obtain s0 where s0: "run_ops (stage_step int_ops (\<lambda>_. None) quiet_opus) (stage_start int_ops (\<lambda>_. None) None None ())
      [ReadStart, ReaderFailed (utext ''eof''), Receive 0] = Some (s0, [Forwarded []])"
    using stage_demo_states(1) by blast
  obtain s where s: "run_ops (stage_step int_ops (\<lambda>_. None) quiet_opus) (stage_start int_ops (\<lambda>_. None) None None ())
      ([ReadStart, ReaderFailed (utext ''eof''), Receive 0] @ [Turn 0]) = Some (s, [Forwarded []] @ [ReadFailed (utext ''eof'')])"
    using stage_demo_states(2) by blast
  from stage_fails_only_when_drained [OF quiet_opus_laws s s0 refl] s show ?thesis by auto
qed

end
