(* ===== verification/Speech_Events.thy ===== *)
theory Speech_Events
  imports Agent_Config
begin

text \<open>
  \<open>crates/speech/src/events.rs\<close>: the events a voice agent emits and the bus that delivers them.
  A final that waits for its speaker verdict reserves a slot on the bus; everything emitted after
  it queues behind the slot.  The broadcast channel behind the bus is the list of delivered
  events (what a subscriber that keeps up receives).
\<close>

section \<open>Events\<close>

datatype speech_event_kind =
    KUserSpeakingStart | KUserSpeakingEnd | KUserSpeechPartial | KUserSpeechFinal | KUserSpeechIgnored
  | KUserLanguage | KLanguageIdSkipped | KAgentSpeakingStart | KAgentSpeakingEnd | KVadTriggered
  | KSttStreamStart | KSttStreamEnd | KUserSttStart | KUserSttEnd | KUserSttNotFound | KBargeIn | KError
  | KSttConfigUpdated | KTtsConfigUpdated | KSttHoldStarted | KSttHoldEnded | KTtsWait
  | KTtsPhraseCacheHit | KAgentSpeakFailed | KAgentReplyStart | KAgentReplyEnd

record speech_event =
  se_kind :: speech_event_kind
  se_text :: "ustring option"
  se_language :: "ustring option"
  se_error :: "ustring option"
  se_utterance_id :: "ustring option"
  se_replay :: "bool option"
  se_replaces_utterance_id :: "ustring option"
  se_language_mismatch :: "bool option"
  se_voice :: "ustring option"
  se_model_path :: "ustring option"
  se_endpoint :: "ustring option"
  se_hold_mode :: "ustring option"
  se_hold_outcome :: "ustring option"
  se_buffered_ms :: "nat option"
  se_dropped_ms :: "nat option"
  se_reason :: "ustring option"
  se_speech_ms :: "nat option"
  se_first_chunk_ms :: "nat option"
  se_first_audio_ms :: "nat option"
  se_sentence_case_adjusted :: "nat option"
  se_wait_ms :: "nat option"
  se_attempts :: "nat option"
  se_chars :: "nat option"
  se_reply_id :: "ustring option"
  se_played_ms :: "nat option"
  se_synthesized_ms :: "nat option"
  se_synthesis_complete :: "bool option"
  se_interrupted :: "bool option"
  se_speaker :: "ustring option"
  se_speaker_unknown_reason :: "ustring option"
  se_speaker_rechecked :: "bool option"
  se_speaker_check_windows :: "nat option"

definition ev_base :: "speech_event_kind \<Rightarrow> speech_event" where
  "ev_base kind = \<lparr>se_kind = kind, se_text = None, se_language = None, se_error = None, se_utterance_id = None, se_replay = None, se_replaces_utterance_id = None, se_language_mismatch = None, se_voice = None, se_model_path = None, se_endpoint = None, se_hold_mode = None, se_hold_outcome = None, se_buffered_ms = None, se_dropped_ms = None, se_reason = None, se_speech_ms = None, se_first_chunk_ms = None, se_first_audio_ms = None, se_sentence_case_adjusted = None, se_wait_ms = None, se_attempts = None, se_chars = None, se_reply_id = None, se_played_ms = None, se_synthesized_ms = None, se_synthesis_complete = None, se_interrupted = None, se_speaker = None, se_speaker_unknown_reason = None, se_speaker_rechecked = None, se_speaker_check_windows = None\<rparr>"

definition with_reply_id :: "ustring option \<Rightarrow> speech_event \<Rightarrow> speech_event" where
  "with_reply_id reply_id ev = ev\<lparr>se_reply_id := reply_id\<rparr>"

definition with_utterance_id :: "ustring option \<Rightarrow> speech_event \<Rightarrow> speech_event" where
  "with_utterance_id utterance_id ev = ev\<lparr>se_utterance_id := utterance_id\<rparr>"

definition with_text :: "ustring \<Rightarrow> speech_event \<Rightarrow> speech_event" where
  "with_text t ev = ev\<lparr>se_text := Some t\<rparr>"

definition with_speaker :: "ustring \<Rightarrow> speech_event \<Rightarrow> speech_event" where
  "with_speaker speaker ev = ev\<lparr>se_speaker := Some speaker\<rparr>"

definition with_speaker_rechecked :: "speech_event \<Rightarrow> speech_event" where
  "with_speaker_rechecked ev = ev\<lparr>se_speaker_rechecked := Some True\<rparr>"

definition with_speaker_check_windows :: "nat \<Rightarrow> speech_event \<Rightarrow> speech_event" where
  "with_speaker_check_windows n ev = ev\<lparr>se_speaker_check_windows := Some n\<rparr>"

definition with_speaker_unknown_reason :: "ustring \<Rightarrow> speech_event \<Rightarrow> speech_event" where
  "with_speaker_unknown_reason reason ev = ev\<lparr>se_speaker_unknown_reason := Some reason\<rparr>"

definition with_replay :: "bool \<Rightarrow> speech_event \<Rightarrow> speech_event" where
  "with_replay replay ev = ev\<lparr>se_replay := Some replay\<rparr>"

definition with_replaces_utterance_id :: "ustring option \<Rightarrow> speech_event \<Rightarrow> speech_event" where
  "with_replaces_utterance_id i ev = ev\<lparr>se_replaces_utterance_id := i\<rparr>"

definition agent_reply_start :: "ustring \<Rightarrow> nat option \<Rightarrow> speech_event" where
  "agent_reply_start reply_id first_chunk_ms =
     (ev_base KAgentReplyStart)\<lparr>se_reply_id := Some reply_id, se_first_chunk_ms := first_chunk_ms\<rparr>"

definition agent_reply_end :: "ustring \<Rightarrow> nat \<Rightarrow> bool \<Rightarrow> nat \<Rightarrow> bool \<Rightarrow> speech_event" where
  "agent_reply_end reply_id played_ms interrupted synthesized_ms synthesis_complete =
     (ev_base KAgentReplyEnd)\<lparr>se_reply_id := Some reply_id, se_played_ms := Some played_ms,
       se_interrupted := Some interrupted, se_synthesized_ms := Some synthesized_ms,
       se_synthesis_complete := Some synthesis_complete\<rparr>"

definition ev_tts_wait :: "nat \<Rightarrow> nat \<Rightarrow> ustring \<Rightarrow> speech_event" where
  "ev_tts_wait wait_ms attempts reason =
     (ev_base KTtsWait)\<lparr>se_wait_ms := Some wait_ms, se_attempts := Some attempts, se_reason := Some reason\<rparr>"

definition tts_phrase_cache_hit :: "nat \<Rightarrow> speech_event" where
  "tts_phrase_cache_hit chars = (ev_base KTtsPhraseCacheHit)\<lparr>se_chars := Some chars\<rparr>"

definition agent_speak_failed :: "ustring \<Rightarrow> speech_event" where
  "agent_speak_failed reason = (ev_base KAgentSpeakFailed)\<lparr>se_reason := Some reason\<rparr>"

definition stt_hold_started :: "string \<Rightarrow> nat \<Rightarrow> speech_event" where
  "stt_hold_started mode buffered_ms =
     (ev_base KSttHoldStarted)\<lparr>se_hold_mode := Some (utext mode), se_buffered_ms := Some buffered_ms\<rparr>"

definition stt_hold_ended :: "string \<Rightarrow> nat \<Rightarrow> nat \<Rightarrow> speech_event" where
  "stt_hold_ended outcome buffered_ms dropped_ms =
     (ev_base KSttHoldEnded)\<lparr>se_hold_outcome := Some (utext outcome), se_buffered_ms := Some buffered_ms,
       se_dropped_ms := Some dropped_ms\<rparr>"

definition user_speaking_start :: "ustring \<Rightarrow> speech_event" where
  "user_speaking_start utterance_id = with_utterance_id (Some utterance_id) (ev_base KUserSpeakingStart)"

definition user_speaking_end :: "ustring option \<Rightarrow> speech_event" where
  "user_speaking_end utterance_id = with_utterance_id utterance_id (ev_base KUserSpeakingEnd)"

definition user_speech_partial :: "ustring \<Rightarrow> ustring option \<Rightarrow> speech_event" where
  "user_speech_partial t utterance_id =
     with_text t (with_utterance_id utterance_id (ev_base KUserSpeechPartial))"

definition user_speech_ignored :: "ustring option \<Rightarrow> speech_event" where
  "user_speech_ignored utterance_id =
     (with_utterance_id utterance_id (ev_base KUserSpeechIgnored))
       \<lparr>se_reason := Some (utext ''speaker_mismatch''), se_speaker := Some (utext ''other'')\<rparr>"

definition user_speech_final :: "ustring \<Rightarrow> ustring option \<Rightarrow> speech_event" where
  "user_speech_final t utterance_id =
     with_text t (with_utterance_id utterance_id (ev_base KUserSpeechFinal))"

definition user_speech_final_held_replay ::
  "ustring \<Rightarrow> ustring option \<Rightarrow> ustring option \<Rightarrow> speech_event" where
  "user_speech_final_held_replay t utterance_id replaces =
     with_replaces_utterance_id replaces (with_replay True (user_speech_final t utterance_id))"

definition user_speech_final_replay :: "ustring \<Rightarrow> ustring option \<Rightarrow> ustring \<Rightarrow> speech_event" where
  "user_speech_final_replay t utterance_id replaces =
     with_replaces_utterance_id (Some replaces) (with_replay True (user_speech_final t utterance_id))"

definition user_language :: "ustring \<Rightarrow> ustring option \<Rightarrow> speech_event" where
  "user_language code utterance_id =
     with_text code ((with_utterance_id utterance_id (ev_base KUserLanguage))\<lparr>se_language := Some code\<rparr>)"

definition language_id_skipped :: "string \<Rightarrow> nat \<Rightarrow> ustring option \<Rightarrow> speech_event" where
  "language_id_skipped reason speech_ms utterance_id =
     (with_utterance_id utterance_id (ev_base KLanguageIdSkipped))
       \<lparr>se_reason := Some (utext reason), se_speech_ms := Some speech_ms\<rparr>"

definition agent_speaking_start :: speech_event where
  "agent_speaking_start = ev_base KAgentSpeakingStart"

definition agent_speaking_start_with_timing :: "nat option \<Rightarrow> nat option \<Rightarrow> nat option \<Rightarrow> speech_event" where
  "agent_speaking_start_with_timing first_audio_ms first_chunk_ms adjusted =
     (ev_base KAgentSpeakingStart)\<lparr>se_first_audio_ms := first_audio_ms, se_first_chunk_ms := first_chunk_ms,
       se_sentence_case_adjusted := adjusted\<rparr>"

definition agent_speaking_end :: speech_event where "agent_speaking_end = ev_base KAgentSpeakingEnd"
definition vad_triggered :: speech_event where "vad_triggered = ev_base KVadTriggered"
definition stt_stream_start :: speech_event where "stt_stream_start = ev_base KSttStreamStart"

definition stt_stream_end_with_reason :: "string \<Rightarrow> speech_event" where
  "stt_stream_end_with_reason reason = (ev_base KSttStreamEnd)\<lparr>se_reason := Some (utext reason)\<rparr>"

definition user_stt_start :: speech_event where "user_stt_start = ev_base KUserSttStart"
definition user_stt_end :: speech_event where "user_stt_end = ev_base KUserSttEnd"

definition user_stt_not_found_with_reason :: "string \<Rightarrow> ustring option \<Rightarrow> speech_event" where
  "user_stt_not_found_with_reason reason utterance_id =
     (with_utterance_id utterance_id (ev_base KUserSttNotFound))\<lparr>se_reason := Some (utext reason)\<rparr>"

definition ev_barge_in :: speech_event where "ev_barge_in = ev_base KBargeIn"

definition ev_error :: "ustring \<Rightarrow> speech_event" where
  "ev_error message = (ev_base KError)\<lparr>se_error := Some message\<rparr>"

definition stt_config_updated :: "stt_config \<Rightarrow> speech_event" where
  "stt_config_updated config = (ev_base KSttConfigUpdated)\<lparr>se_language := sc_language config,
     se_model_path := sc_model_path config, se_endpoint := sc_endpoint config\<rparr>"

definition tts_config_updated :: "tts_config \<Rightarrow> speech_event" where
  "tts_config_updated config = (ev_base KTtsConfigUpdated)\<lparr>se_voice := tc_voice config,
     se_model_path := tc_model_path config, se_endpoint := tc_endpoint config\<rparr>"

lemmas event_builders =
  ev_base_def with_reply_id_def with_utterance_id_def with_text_def with_speaker_def
  with_speaker_rechecked_def with_speaker_check_windows_def with_speaker_unknown_reason_def
  with_replay_def with_replaces_utterance_id_def agent_reply_start_def agent_reply_end_def ev_tts_wait_def
  tts_phrase_cache_hit_def agent_speak_failed_def stt_hold_started_def stt_hold_ended_def
  user_speaking_start_def user_speaking_end_def user_speech_partial_def user_speech_ignored_def
  user_speech_final_def user_speech_final_held_replay_def user_speech_final_replay_def
  user_language_def language_id_skipped_def agent_speaking_start_def
  agent_speaking_start_with_timing_def agent_speaking_end_def vad_triggered_def stt_stream_start_def
  stt_stream_end_with_reason_def user_stt_start_def user_stt_end_def
  user_stt_not_found_with_reason_def ev_barge_in_def ev_error_def stt_config_updated_def
  tts_config_updated_def

section \<open>The bus\<close>

text \<open>
  \<open>EmitOrder\<close>: an entry is \<open>(slot, event)\<close>; slot 0 is an ordinary event, a reserved slot has no event
  until it is filled.
\<close>

type_synonym 'e bus_entry = "nat \<times> 'e option"

record 'e event_bus =
  eb_next_slot :: nat
  eb_queue :: "'e bus_entry list"
  eb_before_slot :: "nat option"
  eb_sent :: "'e list"

definition bus_new :: "'e event_bus" where
  "bus_new = \<lparr>eb_next_slot = 0, eb_queue = [], eb_before_slot = None, eb_sent = []\<rparr>"

fun deliver_loop :: "'e list \<Rightarrow> 'e bus_entry list \<Rightarrow> 'e list \<times> 'e bus_entry list" where
  "deliver_loop sent ((s, Some e) # q) = deliver_loop (sent @ [e]) q"
| "deliver_loop sent q = (sent, q)"

definition deliver_ready :: "'e event_bus \<Rightarrow> 'e event_bus" where
  "deliver_ready b =
     (let (sent, q) = deliver_loop (eb_sent b) (eb_queue b) in b\<lparr>eb_sent := sent, eb_queue := q\<rparr>)"

text \<open>\<open>iter().position(|(s, _)| s == slot)\<close> and \<open>insert(pos, x)\<close>.\<close>

fun slot_position :: "nat \<Rightarrow> 'e bus_entry list \<Rightarrow> nat option" where
  "slot_position slot [] = None"
| "slot_position slot (x # q) = (if fst x = slot then Some 0 else map_option Suc (slot_position slot q))"

definition insert_at :: "nat \<Rightarrow> 'a \<Rightarrow> 'a list \<Rightarrow> 'a list" where
  "insert_at pos x xs = take pos xs @ x # drop pos xs"

definition before_pos :: "nat option \<Rightarrow> 'e bus_entry list \<Rightarrow> nat option" where
  "before_pos before q = (case before of Some slot \<Rightarrow> slot_position slot q | None \<Rightarrow> None)"

definition bus_emit :: "'e \<Rightarrow> 'e event_bus \<Rightarrow> 'e event_bus" where
  "bus_emit event b =
     (case before_pos (eb_before_slot b) (eb_queue b) of
        Some pos \<Rightarrow> deliver_ready (b\<lparr>eb_queue := insert_at pos (0, Some event) (eb_queue b)\<rparr>)
      | None \<Rightarrow>
          if eb_queue b = [] then b\<lparr>eb_sent := eb_sent b @ [event]\<rparr>
          else b\<lparr>eb_queue := eb_queue b @ [(0, Some event)]\<rparr>)"

definition set_before_slot :: "nat option \<Rightarrow> 'e event_bus \<Rightarrow> 'e event_bus" where
  "set_before_slot slot b = b\<lparr>eb_before_slot := slot\<rparr>"

definition reserve_slot :: "'e event_bus \<Rightarrow> nat \<times> 'e event_bus" where
  "reserve_slot b =
     (let slot = eb_next_slot b + 1
      in (slot, b\<lparr>eb_next_slot := slot, eb_queue := eb_queue b @ [(slot, None)]\<rparr>))"

fun fill_first :: "nat \<Rightarrow> 'e \<Rightarrow> 'e bus_entry list \<Rightarrow> 'e bus_entry list" where
  "fill_first slot event [] = []"
| "fill_first slot event (x # q) =
     (if fst x = slot then (fst x, Some event) # q else x # fill_first slot event q)"

definition fill_slot :: "nat \<Rightarrow> 'e \<Rightarrow> 'e event_bus \<Rightarrow> 'e event_bus" where
  "fill_slot slot event b = deliver_ready (b\<lparr>eb_queue := fill_first slot event (eb_queue b)\<rparr>)"

section \<open>Delivery is production order\<close>

text \<open>
  The specification is one log: an emit appends (or, while a before-slot is set and that entry is
  not delivered yet, inserts before it), a reservation appends a hole, a fill replaces it.  What has
  been delivered is the part of the log before its first hole.
\<close>

datatype 'e bus_op = BEmit 'e | BReserve | BFill nat 'e | BBefore "nat option"

record 'e bus_log =
  bl_next :: nat
  bl_before :: "nat option"
  bl_log :: "'e bus_entry list"

definition filled :: "'e bus_entry \<Rightarrow> bool" where "filled x \<longleftrightarrow> snd x \<noteq> None"

definition log_ready :: "'e bus_entry list \<Rightarrow> 'e bus_entry list" where "log_ready = takeWhile filled"
definition log_waiting :: "'e bus_entry list \<Rightarrow> 'e bus_entry list" where "log_waiting = dropWhile filled"

definition log_events :: "'e bus_entry list \<Rightarrow> 'e list" where
  "log_events l = List.map_filter snd l"

fun bus_step :: "'e event_bus \<Rightarrow> 'e bus_op \<Rightarrow> 'e event_bus" where
  "bus_step b (BEmit e) = bus_emit e b"
| "bus_step b BReserve = snd (reserve_slot b)"
| "bus_step b (BFill s e) = fill_slot s e b"
| "bus_step b (BBefore s) = set_before_slot s b"

fun log_step :: "'e bus_log \<Rightarrow> 'e bus_op \<Rightarrow> 'e bus_log" where
  "log_step l (BEmit e) =
     l\<lparr>bl_log := (case before_pos (bl_before l) (log_waiting (bl_log l)) of
        Some pos \<Rightarrow> log_ready (bl_log l) @ insert_at pos (0, Some e) (log_waiting (bl_log l))
      | None \<Rightarrow> bl_log l @ [(0, Some e)])\<rparr>"
| "log_step l BReserve = l\<lparr>bl_next := bl_next l + 1, bl_log := bl_log l @ [(bl_next l + 1, None)]\<rparr>"
| "log_step l (BFill s e) =
     l\<lparr>bl_log := log_ready (bl_log l) @ fill_first s e (log_waiting (bl_log l))\<rparr>"
| "log_step l (BBefore s) = l\<lparr>bl_before := s\<rparr>"

definition bus_abs :: "'e bus_log \<Rightarrow> 'e event_bus" where
  "bus_abs l = \<lparr>eb_next_slot = bl_next l, eb_queue = log_waiting (bl_log l), eb_before_slot = bl_before l,
     eb_sent = log_events (log_ready (bl_log l))\<rparr>"

definition log_new :: "'e bus_log" where
  "log_new = \<lparr>bl_next = 0, bl_before = None, bl_log = []\<rparr>"

lemma log_events_append [simp]: "log_events (xs @ ys) = log_events xs @ log_events ys"
  by (simp add: log_events_def map_filter_def)

lemma log_events_Cons [simp]: "log_events ((s, Some e) # q) = e # log_events q"
  and log_events_Nil [simp]: "log_events [] = []"
  by (simp_all add: log_events_def map_filter_def)

lemma deliver_loop_eq: "deliver_loop sent q = (sent @ log_events (log_ready q), log_waiting q)"
  by (induction sent q rule: deliver_loop.induct) (simp_all add: log_ready_def log_waiting_def filled_def)

lemma deliver_ready_eq:
  "deliver_ready b = b\<lparr>eb_sent := eb_sent b @ log_events (log_ready (eb_queue b)), eb_queue := log_waiting (eb_queue b)\<rparr>"
  by (simp add: deliver_ready_def deliver_loop_eq)

lemma ready_of_ready [simp]: "log_ready (log_ready l @ q) = log_ready l @ log_ready q"
  and waiting_of_ready [simp]: "log_waiting (log_ready l @ q) = log_waiting q"
proof -
  have *: "\<And>x. x \<in> set (takeWhile filled l) \<Longrightarrow> filled x" by (blast dest: set_takeWhileD)
  show "log_ready (log_ready l @ q) = log_ready l @ log_ready q"
    unfolding log_ready_def by (rule takeWhile_append2) (rule *)
  show "log_waiting (log_ready l @ q) = log_waiting q"
    unfolding log_ready_def log_waiting_def by (rule dropWhile_append2) (rule *)
qed

lemma ready_waiting [simp]: "log_ready l @ log_waiting l = l"
  by (simp add: log_ready_def log_waiting_def)

lemma append_all_ready:
  assumes "log_waiting l = []"
  shows "log_ready (l @ q) = l @ log_ready q" "log_waiting (l @ q) = log_waiting q"
proof -
  have *: "\<And>x. x \<in> set l \<Longrightarrow> filled x" using assms by (simp add: log_waiting_def)
  show "log_ready (l @ q) = l @ log_ready q" unfolding log_ready_def by (rule takeWhile_append2) (rule *)
  show "log_waiting (l @ q) = log_waiting q" unfolding log_waiting_def by (rule dropWhile_append2) (rule *)
qed

lemma append_behind_hole:
  assumes "log_waiting l \<noteq> []"
  shows "log_ready (l @ q) = log_ready l" "log_waiting (l @ q) = log_waiting l @ q"
proof -
  obtain x where x: "x \<in> set l" "\<not> filled x" using assms by (auto simp: log_waiting_def)
  show "log_ready (l @ q) = log_ready l" unfolding log_ready_def by (rule takeWhile_append1) (rule x)+
  show "log_waiting (l @ q) = log_waiting l @ q"
    unfolding log_waiting_def by (rule dropWhile_append1) (rule x)+
qed

lemmas append_at_end = append_all_ready append_behind_hole

lemma ready_all: "log_waiting l = [] \<Longrightarrow> log_ready l = l"
  using ready_waiting [of l] by simp

lemma bus_abs_sel [simp]:
  "eb_next_slot (bus_abs l) = bl_next l" "eb_queue (bus_abs l) = log_waiting (bl_log l)"
  "eb_before_slot (bus_abs l) = bl_before l" "eb_sent (bus_abs l) = log_events (log_ready (bl_log l))"
  by (simp_all add: bus_abs_def)

lemma event_bus_eqI:
  "eb_next_slot a = eb_next_slot b \<Longrightarrow> eb_queue a = eb_queue b \<Longrightarrow> eb_before_slot a = eb_before_slot b \<Longrightarrow>
   eb_sent a = eb_sent b \<Longrightarrow> a = (b :: 'e event_bus)"
  by simp

lemma single_entry [simp]:
  "log_ready [(s, Some e)] = [(s, Some e)]" "log_waiting [(s, Some e)] = []"
  "log_ready [(s, None)] = []" "log_waiting [(s, None)] = [(s, None)]"
  by (simp_all add: log_ready_def log_waiting_def filled_def)

lemma bus_emit_refines: "bus_emit e (bus_abs l) = bus_abs (log_step l (BEmit e))"
proof (cases "before_pos (bl_before l) (log_waiting (bl_log l))")
  case None
  then show ?thesis
    by (cases "log_waiting (bl_log l) = []")
      (rule event_bus_eqI; simp add: bus_emit_def append_at_end ready_all del: list_all_iff)+
next
  case (Some pos)
  then show ?thesis by (intro event_bus_eqI) (simp_all add: bus_emit_def deliver_ready_eq)
qed

lemma bus_reserve_refines: "snd (reserve_slot (bus_abs l)) = bus_abs (log_step l BReserve)"
  by (cases "log_waiting (bl_log l) = []")
    (rule event_bus_eqI; simp add: reserve_slot_def Let_def append_at_end ready_all)+

lemma bus_step_refines: "bus_step (bus_abs l) op = bus_abs (log_step l op)"
proof (cases op)
  case (BFill s e)
  then show ?thesis by (intro event_bus_eqI) (simp_all add: fill_slot_def deliver_ready_eq)
next
  case (BBefore s)
  then show ?thesis by (intro event_bus_eqI) (simp_all add: set_before_slot_def)
qed (simp_all add: bus_emit_refines bus_reserve_refines del: log_step.simps)

lemma bus_run_refines: "foldl bus_step (bus_abs l) ops = bus_abs (foldl log_step l ops)"
  by (induction ops arbitrary: l) (simp_all add: bus_step_refines)

lemma bus_new_abs: "bus_new = bus_abs log_new"
  by (simp add: bus_new_def bus_abs_def log_new_def log_ready_def log_waiting_def)

text \<open>C14: Whatever the order of emits, slot reservations, fills and before-slot changes, the bus delivers
  exactly the events of one production log up to its first open slot, in the order of that log, and
  queues the rest; in particular nothing overtakes a final that waits for its verdict, and once no
  slot is open every event has been delivered.\<close>

theorem bus_delivers_in_production_order:
  "foldl bus_step bus_new ops = bus_abs (foldl log_step log_new ops) \<and>
   (list_all filled (bl_log (foldl log_step log_new ops)) \<longrightarrow>
     eb_sent (foldl bus_step bus_new ops) = log_events (bl_log (foldl log_step log_new ops)) \<and>
     eb_queue (foldl bus_step bus_new ops) = [])"
  unfolding bus_new_abs bus_run_refines
  by (simp add: log_ready_def log_waiting_def list_all_iff takeWhile_eq_all_conv [THEN iffD2])

definition demo_bus_ops :: "nat bus_op list" where
  "demo_bus_ops = [BEmit 10, BReserve, BEmit 30, BFill 1 20, BEmit 40]"

lemma bus_delivers_in_production_order_witness:
  "eb_sent (foldl bus_step bus_new demo_bus_ops) = [10, 20, 30, 40] \<and> eb_queue (foldl bus_step bus_new demo_bus_ops) = []"
proof -
  have f: "list_all filled (bl_log (foldl log_step log_new demo_bus_ops))"
    "log_events (bl_log (foldl log_step log_new demo_bus_ops)) = [10, 20, 30, 40]"
    by code_simp+
  from conjunct2 [OF bus_delivers_in_production_order [of demo_bus_ops]] f show ?thesis by simp
qed

end
