(* ===== verification/Agent_State.thy ===== *)
theory Agent_State
  imports Pcm Speech_Events Stt_Actor Stt_Pre_Roll Turn_Latency
begin

text \<open>
  The state of \<open>crates/speech/src/agent.rs\<close>: one record per user utterance (\<open>SttUtterance\<close>), the
  records an agent keeps (\<open>live\<close>, \<open>closing\<close>, \<open>lid_retained\<close>), the turn-level timers and flags of
  \<open>AgentInner\<close>, and the functions that only read or reset them.  An operation that emits, sends a
  command to the STT actor or answers a waiter appends to a log of the agent.  \<open>Instant::now()\<close> is
  an argument; the utterance-id sequence of the process is a field.
\<close>

section \<open>One utterance\<close>

record utt_lid =
  ul_pcm_buffer :: bytes
  ul_voiced_ms :: nat
  ul_pending_silence_ms :: nat
  ul_buffering :: bool
  ul_identify_in_flight :: bool
  ul_identify_deferred :: bool
  ul_identify_started :: bool
  ul_skip_emitted :: bool
  ul_language_emitted :: bool

definition default_utt_lid :: utt_lid where
  "default_utt_lid = \<lparr>ul_pcm_buffer = [], ul_voiced_ms = 0, ul_pending_silence_ms = 0,
     ul_buffering = False, ul_identify_in_flight = False, ul_identify_deferred = False,
     ul_identify_started = False, ul_skip_emitted = False, ul_language_emitted = False\<rparr>"

datatype utt_kind = UttLive | UttReplay "ustring option"
datatype utt_phase = UttOpen | UttClosing
datatype close_started = CloseHeld | CloseNoRecord | CloseClosing

record replay_final_context =
  rx_replaces_utterance_id :: "ustring option"
  rx_set_at :: instant

definition REPLAY_CONTEXT_MAX_AGE :: duration where "REPLAY_CONTEXT_MAX_AGE = ms 15000"
definition DEFAULT_STT_READY_WAIT_MS :: nat where "DEFAULT_STT_READY_WAIT_MS = 15000"

record stt_utterance =
  ut_key :: nat
  ut_id :: ustring
  ut_kind :: utt_kind
  ut_phase :: utt_phase
  ut_stream_open :: bool
  ut_user_stt_session_open :: bool
  ut_speaking_start_emitted :: bool
  ut_speaking_end_emitted :: bool
  ut_final_emitted :: bool
  ut_not_found_emitted :: bool
  ut_terminal :: bool
  ut_partials_emitted :: bool
  ut_last_partial_text :: "ustring option"
  ut_vad_triggered :: bool
  ut_close_reason :: string
  ut_replay_ctx :: "replay_final_context option"
  ut_terminal_waiter :: "nat option"
  ut_lid :: utt_lid

definition utterance_new :: "nat \<Rightarrow> ustring \<Rightarrow> stt_utterance" where
  "utterance_new key i = \<lparr>ut_key = key, ut_id = i, ut_kind = UttLive, ut_phase = UttOpen,
     ut_stream_open = False, ut_user_stt_session_open = False, ut_speaking_start_emitted = False,
     ut_speaking_end_emitted = False, ut_final_emitted = False, ut_not_found_emitted = False,
     ut_terminal = False, ut_partials_emitted = False, ut_last_partial_text = None,
     ut_vad_triggered = False, ut_close_reason = ''end_of_utterance'', ut_replay_ctx = None,
     ut_terminal_waiter = None, ut_lid = default_utt_lid\<rparr>"

section \<open>The records an agent keeps\<close>

record utt_store =
  us_live :: "stt_utterance option"
  us_next_key :: nat
  us_closing :: "stt_utterance list"
  us_lid_retained :: "stt_utterance list"
  us_id_seq :: nat

definition utterance_id :: "nat \<Rightarrow> ustring" where
  "utterance_id n = utext ''utt-'' @ decimal n"

definition new_record :: "'a utt_store_scheme \<Rightarrow> stt_utterance \<times> 'a utt_store_scheme" where
  "new_record s =
     (utterance_new (us_next_key s) (utterance_id (us_id_seq s)),
      s\<lparr>us_next_key := us_next_key s + 1, us_id_seq := us_id_seq s + 1\<rparr>)"

definition ensure_live :: "'a utt_store_scheme \<Rightarrow> stt_utterance \<times> 'a utt_store_scheme" where
  "ensure_live s =
     (case us_live s of
        Some rec \<Rightarrow> (rec, s)
      | None \<Rightarrow> (let (rec, s) = new_record s in (rec, s\<lparr>us_live := Some rec\<rparr>)))"

definition find_key :: "nat \<Rightarrow> stt_utterance list \<Rightarrow> stt_utterance option" where
  "find_key key rs = find (\<lambda>r. ut_key r = key) rs"

definition live_with_key :: "nat \<Rightarrow> 'a utt_store_scheme \<Rightarrow> stt_utterance option" where
  "live_with_key key s =
     (case us_live s of Some r \<Rightarrow> if ut_key r = key then Some r else None | None \<Rightarrow> None)"

definition record_ref :: "nat \<Rightarrow> 'a utt_store_scheme \<Rightarrow> stt_utterance option" where
  "record_ref key s =
     (case live_with_key key s of
        Some r \<Rightarrow> Some r
      | None \<Rightarrow> find_key key (us_closing s @ us_lid_retained s))"

definition stt_record_ref :: "nat \<Rightarrow> 'a utt_store_scheme \<Rightarrow> stt_utterance option" where
  "stt_record_ref key s =
     (case live_with_key key s of Some r \<Rightarrow> Some r | None \<Rightarrow> find_key key (us_closing s))"

text \<open>\<open>record_mut(key)\<close> followed by a change of the record it returns.\<close>

fun update_first :: "('a \<Rightarrow> bool) \<Rightarrow> ('a \<Rightarrow> 'a) \<Rightarrow> 'a list \<Rightarrow> 'a list" where
  "update_first P f [] = []"
| "update_first P f (x # xs) = (if P x then f x # xs else x # update_first P f xs)"

definition record_mut ::
  "nat \<Rightarrow> (stt_utterance \<Rightarrow> stt_utterance) \<Rightarrow> 'a utt_store_scheme \<Rightarrow> 'a utt_store_scheme" where
  "record_mut key f s =
     (case live_with_key key s of
        Some r \<Rightarrow> s\<lparr>us_live := Some (f r)\<rparr>
      | None \<Rightarrow>
          if find_key key (us_closing s) \<noteq> None
          then s\<lparr>us_closing := update_first (\<lambda>r. ut_key r = key) f (us_closing s)\<rparr>
          else s\<lparr>us_lid_retained := update_first (\<lambda>r. ut_key r = key) f (us_lid_retained s)\<rparr>)"

definition retain_for_lid :: "stt_utterance \<Rightarrow> 'a utt_store_scheme \<Rightarrow> 'a utt_store_scheme" where
  "retain_for_lid rec s =
     (if \<not> (ul_identify_deferred (ut_lid rec) \<or> ul_identify_in_flight (ut_lid rec)) then s
      else
        (let kept = (if 4 \<le> length (us_lid_retained s) then tl (us_lid_retained s) else us_lid_retained s)
         in s\<lparr>us_lid_retained := kept @ [rec]\<rparr>))"

definition live_key :: "'a utt_store_scheme \<Rightarrow> nat option" where
  "live_key s = map_option ut_key (us_live s)"

definition live_id :: "'a utt_store_scheme \<Rightarrow> ustring option" where
  "live_id s = map_option ut_id (us_live s)"

definition live_flag :: "(stt_utterance \<Rightarrow> bool) \<Rightarrow> 'a utt_store_scheme \<Rightarrow> bool" where
  "live_flag f s = (case us_live s of Some r \<Rightarrow> f r | None \<Rightarrow> False)"

definition any_lid_in_flight :: "'a utt_store_scheme \<Rightarrow> bool" where
  "any_lid_in_flight s \<longleftrightarrow>
     live_flag (\<lambda>r. ul_identify_in_flight (ut_lid r)) s \<or>
     list_ex (\<lambda>r. ul_identify_in_flight (ut_lid r)) (us_closing s @ us_lid_retained s)"

definition deferred_lid_keys :: "'a utt_store_scheme \<Rightarrow> nat list" where
  "deferred_lid_keys s =
     (if live_flag (\<lambda>r. ul_identify_deferred (ut_lid r)) s
      then (case live_key s of Some k \<Rightarrow> [k] | None \<Rightarrow> []) else []) @
     map ut_key (filter (\<lambda>r. ul_identify_deferred (ut_lid r)) (us_closing s @ us_lid_retained s))"

section \<open>The agent\<close>

record turn_state = utt_store +
  ts_stt_gate_hold_ms :: nat
  ts_gate_hold_expired_key :: "nat option"
  ts_stt_finalize_pending :: bool
  ts_stt_endpoint_closing_started :: bool
  ts_agent_speaking :: bool
  ts_agent_speaking_since :: "instant option"
  ts_stt_listen_deadline_ms :: nat
  ts_stt_listen_started_at :: "instant option"
  ts_stt_listen_media_ms :: nat
  ts_c1_backlog_deferred_logged :: bool
  ts_stt_open_wait_started_at :: "instant option"
  ts_utterance_finalize_deadline_ms :: nat
  ts_utterance_finalize_armed_at :: "instant option"
  ts_last_inbound_pcm_at :: "instant option"
  ts_utterance_media_ms :: nat
  ts_defer_utterance_finalize_until_hold :: bool
  ts_playback_epoch :: nat
  ts_barge_awaiting_stt_partial :: bool
  ts_stt_barge_fired :: bool
  ts_vad_speaking :: bool

text \<open>A running identify: the audio, the configuration it was started with, the speech in it.\<close>

record lid_job =
  lj_key :: nat
  lj_pcm :: bytes
  lj_config :: language_id_config
  lj_speech_ms :: nat

record 'f agent = turn_state +
  va_config :: "'f voice_agent_config"
  va_running :: bool
  va_actor :: bool
  va_stt_enabled :: bool
  va_stt_pre_roll :: "pre_roll option"
  va_short_burst :: burst_retainer
  va_hold_pending_pcm :: bytes
  va_hold_lookback_pcm :: bytes
  va_turn_latency :: turn_latency_tracker
  va_lid_last_emitted :: "ustring option"
  va_language_id :: bool
  va_lid_jobs :: "lid_job list"
  va_pending_stt_config :: "stt_config option"
  va_utterance_replay_buffer :: replay_buffer
  va_last_replay_snapshot :: "replay_snapshot option"
  va_stt_hold :: "stt_hold option"
  va_replay_begun_at_pre_roll :: bool
  va_held_ignore_logged_key :: "nat option"
  va_session_context :: voice_session_context
  va_events :: "speech_event list"
  va_sent :: "stt_command list"
  va_answers :: "(nat \<times> bool) list"

abbreviation va_vad :: "'f agent \<Rightarrow> 'f vad_config" where
  "va_vad a \<equiv> ag_vad (va_config a)"

definition agent_emit :: "speech_event \<Rightarrow> 'f agent \<Rightarrow> 'f agent" where
  "agent_emit event a = a\<lparr>va_events := va_events a @ [event]\<rparr>"

definition agent_send :: "stt_command \<Rightarrow> 'f agent \<Rightarrow> 'f agent" where
  "agent_send command a = (if va_actor a then a\<lparr>va_sent := va_sent a @ [command]\<rparr> else a)"

definition send_stt_audio :: "bytes \<Rightarrow> 'f agent \<Rightarrow> 'f agent" where
  "send_stt_audio pcm_bytes a = agent_send (CAudio pcm_bytes) a"

text \<open>\<open>fire_terminal_waiter\<close>: the waiter is taken, the answer sent.\<close>

definition fire_terminal_waiter :: "nat \<Rightarrow> bool \<Rightarrow> 'f agent \<Rightarrow> 'f agent" where
  "fire_terminal_waiter key final_emitted a =
     (case record_ref key a of
        None \<Rightarrow> a
      | Some rec \<Rightarrow>
          (case ut_terminal_waiter rec of
             None \<Rightarrow> a
           | Some w \<Rightarrow>
               (record_mut key (\<lambda>r. r\<lparr>ut_terminal_waiter := None\<rparr>) a)
                 \<lparr>va_answers := va_answers a @ [(w, final_emitted)]\<rparr>))"

section \<open>Timers and flags\<close>

definition saturating_add_u64 :: "nat \<Rightarrow> nat \<Rightarrow> nat" where
  "saturating_add_u64 a b = min (2 ^ 64 - 1) (a + b)"

definition stt_endpoint_tail_ms :: "'f vad_config \<Rightarrow> nat" where
  "stt_endpoint_tail_ms vad = clamp 400 600 (vc_min_silence_duration_ms vad)"

definition gate_hold_long_pause_elapsed :: "nat \<Rightarrow> nat \<Rightarrow> bool" where
  "gate_hold_long_pause_elapsed hold_total hold_elapsed \<longleftrightarrow>
     0 < hold_total \<and> min u32_max (hold_total * 9) < min u32_max (hold_elapsed * 10)"

definition utterance_in_progress :: "'a turn_state_scheme \<Rightarrow> bool" where
  "utterance_in_progress s \<longleftrightarrow>
     (ts_stt_finalize_pending s \<and> \<not> live_flag ut_final_emitted s) \<or>
     live_flag (\<lambda>r. ut_vad_triggered r \<or> ut_stream_open r) s \<or>
     0 < ts_stt_gate_hold_ms s \<or> ts_stt_endpoint_closing_started s"

definition stt_pipeline_active :: "'f agent \<Rightarrow> bool" where
  "stt_pipeline_active a \<longleftrightarrow> va_stt_enabled a \<and> ag_stt (va_config a) \<noteq> None"

definition clear_stt_listen_timer :: "'a turn_state_scheme \<Rightarrow> 'a turn_state_scheme" where
  "clear_stt_listen_timer s = s\<lparr>ts_stt_listen_deadline_ms := 0, ts_stt_listen_started_at := None,
     ts_stt_listen_media_ms := 0, ts_c1_backlog_deferred_logged := False, ts_stt_open_wait_started_at := None\<rparr>"

definition clear_utterance_finalize_timer :: "'a turn_state_scheme \<Rightarrow> 'a turn_state_scheme" where
  "clear_utterance_finalize_timer s = s\<lparr>ts_utterance_media_ms := 0, ts_utterance_finalize_deadline_ms := 0,
     ts_utterance_finalize_armed_at := None, ts_defer_utterance_finalize_until_hold := False\<rparr>"

definition reset_stt_pipeline_state :: "'f agent \<Rightarrow> 'f agent" where
  "reset_stt_pipeline_state a =
     (let a = a\<lparr>va_stt_pre_roll := map_option pre_roll_clear (va_stt_pre_roll a),
            va_short_burst := retainer_new, va_hold_pending_pcm := [], va_hold_lookback_pcm := [],
            ts_stt_gate_hold_ms := 0, ts_stt_finalize_pending := False, ts_stt_endpoint_closing_started := False\<rparr>;
          a = clear_utterance_finalize_timer (clear_stt_listen_timer a)
      in a\<lparr>ts_barge_awaiting_stt_partial := False, ts_defer_utterance_finalize_until_hold := False,
           us_live := None, us_closing := []\<rparr>)"

text \<open>\<open>Some a\<close>: C1 must not fire this tick (the clock restarted).\<close>

definition c1_hold_for_stt_open :: "instant \<Rightarrow> bool \<Rightarrow> 'f agent \<Rightarrow> bool \<times> 'f agent" where
  "c1_hold_for_stt_open now pending a =
     (if \<not> pending then (False, a\<lparr>ts_stt_open_wait_started_at := None\<rparr>)
      else
        (let max_ms = vc_stt_open_wait_max_ms (va_vad a)
         in if max_ms = 0 then (False, a)
            else
              (let since = (case ts_stt_open_wait_started_at a of Some t \<Rightarrow> t | None \<Rightarrow> now);
                   a = a\<lparr>ts_stt_open_wait_started_at := Some since\<rparr>
               in if saturating_duration_since now since < ms max_ms
                  then (True, a\<lparr>ts_stt_listen_started_at := Some now, ts_stt_listen_media_ms := 0\<rparr>)
                  else (False, a))))"

definition c1_listen_expired :: "instant \<Rightarrow> nat \<Rightarrow> duration \<Rightarrow> 'f agent \<Rightarrow> bool" where
  "c1_listen_expired now backlog_ms pcm_idle a =
     (if ts_stt_listen_deadline_ms a = 0 then False
      else
        (case ts_stt_listen_started_at a of
           None \<Rightarrow> False
         | Some started_at \<Rightarrow>
             (let timeout_ms = vc_stt_listen_timeout_ms (va_vad a);
                  hard_timeout_ms = effective_stt_listen_hard_timeout_ms (va_vad a);
                  slack = vc_stt_listen_backlog_slack_ms (va_vad a);
                  media_ms = ts_stt_listen_media_ms a;
                  wall = saturating_duration_since now started_at;
                  wall_at_least = (\<lambda>n. ms n \<le> wall);
                  stopped = ms timeout_ms \<le> pcm_idle
              in if hard_timeout_ms \<le> media_ms \<and> wall_at_least hard_timeout_ms then True
                 else if timeout_ms \<le> media_ms \<and> wall_at_least timeout_ms \<and> backlog_ms \<le> slack then True
                 else if stopped \<and> wall_at_least hard_timeout_ms then True
                 else stopped \<and> \<not> ts_vad_speaking a \<and> wall_at_least timeout_ms \<and> backlog_ms \<le> slack)))"

definition maybe_log_c1_backlog_deferred :: "instant \<Rightarrow> nat \<Rightarrow> 'f agent \<Rightarrow> 'f agent" where
  "maybe_log_c1_backlog_deferred now backlog_ms a =
     (if ts_c1_backlog_deferred_logged a then a
      else
        (case ts_stt_listen_started_at a of
           None \<Rightarrow> a
         | Some started_at \<Rightarrow>
             (let elapsed = saturating_duration_since now started_at
              in if ms (vc_stt_listen_timeout_ms (va_vad a)) \<le> elapsed \<and>
                    elapsed < ms (effective_stt_listen_hard_timeout_ms (va_vad a)) \<and>
                    vc_stt_listen_backlog_slack_ms (va_vad a) < backlog_ms
                 then a\<lparr>ts_c1_backlog_deferred_logged := True\<rparr> else a)))"

definition c2_end_of_turn_ready :: "'a turn_state_scheme \<Rightarrow> bool" where
  "c2_end_of_turn_ready s \<longleftrightarrow>
     live_flag (\<lambda>r. ut_partials_emitted r \<and> \<not> ut_final_emitted r) s \<and>
     \<not> (ts_defer_utterance_finalize_until_hold s \<or> 0 < ts_stt_gate_hold_ms s) \<and> \<not> ts_vad_speaking s"

definition disarm_utterance_finalize_timer :: "'a turn_state_scheme \<Rightarrow> 'a turn_state_scheme" where
  "disarm_utterance_finalize_timer s =
     s\<lparr>ts_utterance_finalize_deadline_ms := 0, ts_utterance_finalize_armed_at := None\<rparr>"

definition arm_utterance_finalize_timer :: "instant \<Rightarrow> 'f agent \<Rightarrow> 'f agent" where
  "arm_utterance_finalize_timer now a =
     (if \<not> c2_end_of_turn_ready a then disarm_utterance_finalize_timer a
      else a\<lparr>ts_utterance_finalize_deadline_ms := vc_utterance_finalize_timeout_ms (va_vad a),
             ts_utterance_finalize_armed_at := Some now\<rparr>)"

definition refresh_utterance_finalize_after_partial :: "instant \<Rightarrow> 'f agent \<Rightarrow> 'f agent" where
  "refresh_utterance_finalize_after_partial now a =
     (if c2_end_of_turn_ready a then arm_utterance_finalize_timer now a
      else disarm_utterance_finalize_timer a)"

definition reset_turn_close_flags :: "'a turn_state_scheme \<Rightarrow> 'a turn_state_scheme" where
  "reset_turn_close_flags s = clear_utterance_finalize_timer (clear_stt_listen_timer
     (s\<lparr>ts_stt_finalize_pending := False, ts_stt_endpoint_closing_started := False, ts_stt_gate_hold_ms := 0\<rparr>))"

definition start_new_live_record :: "'a turn_state_scheme \<Rightarrow> 'a turn_state_scheme" where
  "start_new_live_record s =
     (let s = reset_turn_close_flags s;
          previous = us_live s;
          (rec, s) = new_record s;
          s = s\<lparr>us_live := Some rec\<rparr>
      in case previous of Some p \<Rightarrow> retain_for_lid p s | None \<Rightarrow> s)"

definition arm_stt_hold_if_idle :: "'f agent \<Rightarrow> 'f agent" where
  "arm_stt_hold_if_idle a =
     (if \<not> vc_gate_stt (va_vad a) \<or> 0 < ts_stt_gate_hold_ms a then a
      else if ts_vad_speaking a then a
      else
        (let completed = (case us_live a of
               None \<Rightarrow> True
             | Some r \<Rightarrow> ut_final_emitted r \<and> \<not> ut_stream_open r \<and> \<not> ut_vad_triggered r)
         in if completed \<and> \<not> ts_stt_finalize_pending a then a
            else a\<lparr>ts_stt_gate_hold_ms := vc_stt_gate_hold_ms (va_vad a), ts_stt_finalize_pending := True\<rparr>))"

definition agent_playback_guard_active :: "instant \<Rightarrow> 'f agent \<Rightarrow> bool" where
  "agent_playback_guard_active now a =
     (if \<not> ts_agent_speaking a then False
      else
        (case ts_agent_speaking_since a of
           None \<Rightarrow> False
         | Some since \<Rightarrow>
             saturating_duration_since now since
               < ms (bi_agent_playback_guard_ms (vc_barge_in (va_vad a)))))"

definition stt_partial_qualifies_for_barge :: "(uchar \<Rightarrow> bool) \<Rightarrow> ustring \<Rightarrow> 'f agent \<Rightarrow> bool" where
  "stt_partial_qualifies_for_barge alphanumeric t a \<longleftrightarrow>
     max 1 (bi_min_stt_partial_tokens (vc_barge_in (va_vad a))) \<le> stt_partial_token_count alphanumeric t"

definition commit_utterance_replay_snapshot :: "instant \<Rightarrow> ustring \<Rightarrow> 'f agent \<Rightarrow> 'f agent" where
  "commit_utterance_replay_snapshot now i a =
     (let b = end_utterance (va_utterance_replay_buffer a)
      in a\<lparr>va_utterance_replay_buffer := b,
           va_last_replay_snapshot := Some
             (case snapshot_pcm b of
                Some p \<Rightarrow> \<lparr>rs_pcm = p, rs_utterance_id = i, rs_finalized_at = now, rs_overflow = rb_overflow b\<rparr>
              | None \<Rightarrow> \<lparr>rs_pcm = [], rs_utterance_id = i, rs_finalized_at = now, rs_overflow = True\<rparr>)\<rparr>)"

text \<open>\<open>Some\<close> of the channel the swap is answered on; the channel's number is not used by the model.\<close>

definition send_pending_swap :: "'f agent \<Rightarrow> bool \<times> 'f agent" where
  "send_pending_swap a =
     (if \<not> va_actor a then (False, a)
      else
        (case va_pending_stt_config a of
           None \<Rightarrow> (False, a)
         | Some config \<Rightarrow>
             (True, agent_send (CSwap config (va_session_context a) (va_running a) 0)
                (a\<lparr>va_pending_stt_config := None\<rparr>))))"

text \<open>\<open>end_agent_speaking_inner\<close>: returns whether the agent was speaking.\<close>

definition end_agent_speaking :: "bool \<Rightarrow> 'f agent \<Rightarrow> bool \<times> 'f agent" where
  "end_agent_speaking arm a =
     (let a' = a\<lparr>ts_agent_speaking := False, ts_agent_speaking_since := None,
            ts_barge_awaiting_stt_partial := False, ts_stt_barge_fired := False\<rparr>
      in (ts_agent_speaking a, if arm then arm_stt_hold_if_idle a' else a'))"

end
