(* ===== verification/Agent_Lid.thy ===== *)
theory Agent_Lid
  imports Agent_State
begin

text \<open>
  Spoken-language identification of an utterance (\<open>crates/speech/src/agent.rs\<close>): which audio is
  buffered, when an identify starts or is deferred behind a reply, and how its outcome is reported.
  The identify itself is the language-id provider's; what it returned is an argument.
\<close>

section \<open>What a step gets from outside\<close>

datatype lid_result = LidLanguage ustring | LidNone | LidError

text \<open>
  One step of the agent runs under the step lock.  The clock, the status of the STT actor, the TTS
  side (is a protected or any job active, which replies a flush ended, which queued replies were
  dropped) and what an identify answered while the step waited for it are inputs of the step.
\<close>

record step_env =
  en_now :: instant
  en_pcm_idle :: duration
  en_backlog_ms :: nat
  en_open_pending :: bool
  en_emits_partials :: bool
  en_protected :: bool
  en_tts_busy :: bool
  en_alphanumeric :: "uchar \<Rightarrow> bool"
  en_flushed :: "(ustring \<times> nat \<times> nat \<times> bool) list"
  en_dropped :: "ustring list"
  en_lid_answer :: "lid_result option"

section \<open>Buffering\<close>

definition lid_mut :: "nat \<Rightarrow> (utt_lid \<Rightarrow> utt_lid) \<Rightarrow> 'a utt_store_scheme \<Rightarrow> 'a utt_store_scheme" where
  "lid_mut key f s = record_mut key (\<lambda>r. r\<lparr>ut_lid := f (ut_lid r)\<rparr>) s"

definition start_lid_buffering :: "'f agent \<Rightarrow> 'f agent" where
  "start_lid_buffering a =
     (if \<not> language_id_enabled (ag_language_id (va_config a)) then a
      else
        (case us_live a of
           None \<Rightarrow> a
         | Some live \<Rightarrow> a\<lparr>us_live := Some (live\<lparr>ut_lid := (ut_lid live)\<lparr>ul_pcm_buffer := [],
             ul_voiced_ms := 0, ul_pending_silence_ms := 0, ul_buffering := True\<rparr>\<rparr>)\<rparr>))"

definition lid_config_of :: "'f agent \<Rightarrow> language_id_config option" where
  "lid_config_of a = ag_language_id (va_config a)"

definition buffer_lid_frame :: "nat \<Rightarrow> bytes \<Rightarrow> bool \<Rightarrow> bool \<Rightarrow> nat \<Rightarrow> utt_lid \<Rightarrow> utt_lid" where
  "buffer_lid_frame cap mono_bytes frame_active vad_speaking duration l =
     (let room = cap - length (ul_pcm_buffer l);
          l = l\<lparr>ul_pcm_buffer := ul_pcm_buffer l @ take (min room (length mono_bytes)) mono_bytes\<rparr>
      in if frame_active
         then l\<lparr>ul_voiced_ms := saturating_add_u32 (saturating_add_u32 (ul_voiced_ms l) (ul_pending_silence_ms l)) duration,
                ul_pending_silence_ms := 0\<rparr>
         else if vad_speaking
         then l\<lparr>ul_pending_silence_ms := saturating_add_u32 (ul_pending_silence_ms l) duration\<rparr>
         else l)"

text \<open>The key to identify now, if any.\<close>

definition append_lid_pcm ::
  "bytes \<Rightarrow> bool \<Rightarrow> bool \<Rightarrow> nat \<Rightarrow> 'f agent \<Rightarrow> nat option \<times> 'f agent" where
  "append_lid_pcm mono_bytes frame_active vad_speaking duration a =
     (case (us_live a, lid_config_of a) of
        (Some live, Some cfg) \<Rightarrow>
          if \<not> ul_buffering (ut_lid live) \<or> \<not> language_id_enabled (Some cfg) then (None, a)
          else
            (let cap = (16000 * resolved_lid_max_clip_ms cfg * 2 div 1000) * 2;
                 continuous = language_id_continuous (Some cfg);
                 early = language_id_early (Some cfg);
                 lid = buffer_lid_frame cap mono_bytes frame_active vad_speaking duration (ut_lid live);
                 a = a\<lparr>us_live := Some (live\<lparr>ut_lid := lid\<rparr>)\<rparr>
             in if \<not> continuous \<and> \<not> early then (None, a)
                else if early \<and> ul_identify_started lid then (None, a)
                else (if resolved_language_id_min_speech_ms cfg \<le> ul_voiced_ms lid
                      then Some (ut_key live) else None, a))
      | _ \<Rightarrow> (None, a))"

section \<open>Starting an identify\<close>

definition emit_language_id_skipped :: "nat \<Rightarrow> string \<Rightarrow> nat \<Rightarrow> 'f agent \<Rightarrow> 'f agent" where
  "emit_language_id_skipped key reason speech_ms a =
     (case record_ref key a of
        None \<Rightarrow> a
      | Some rec \<Rightarrow>
          if ul_skip_emitted (ut_lid rec) then a
          else agent_emit (language_id_skipped reason speech_ms (Some (ut_id rec)))
                 (lid_mut key (\<lambda>l. l\<lparr>ul_skip_emitted := True\<rparr>) a))"

definition emit_language_id_skipped_once :: "nat \<Rightarrow> string \<Rightarrow> 'f agent \<Rightarrow> 'f agent" where
  "emit_language_id_skipped_once key reason a =
     (case record_ref key a of
        None \<Rightarrow> a
      | Some rec \<Rightarrow> emit_language_id_skipped key reason (ul_voiced_ms (ut_lid rec)) a)"

definition tts_active_for_lid_defer :: "step_env \<Rightarrow> 'f agent \<Rightarrow> bool" where
  "tts_active_for_lid_defer env a \<longleftrightarrow> en_tts_busy env \<or> ts_agent_speaking a"

definition lid_exclusion :: "'f agent \<Rightarrow> bool" where
  "lid_exclusion a = lid_tts_exclusion_enabled (ag_language_id (va_config a)) (ag_tts (va_config a))"

text \<open>The identify waits for the reply to end; the host is told at once.\<close>

definition defer_identify :: "nat \<Rightarrow> 'f agent \<Rightarrow> 'f agent" where
  "defer_identify key a =
     (if record_ref key a = None then a
      else emit_language_id_skipped_once key ''deferred_tts''
             (lid_mut key (\<lambda>l. l\<lparr>ul_identify_deferred := True, ul_identify_started := True\<rparr>) a))"

definition spawn_job :: "language_id_config \<Rightarrow> bool \<Rightarrow> nat \<Rightarrow> stt_utterance \<Rightarrow> 'f agent \<Rightarrow> 'f agent" where
  "spawn_job cfg continuous key rec a =
     (let l = ut_lid rec;
          max_bytes = 16000 * resolved_lid_max_clip_ms cfg * 2 div 1000;
          a = lid_mut key (\<lambda>l. l\<lparr>ul_identify_deferred := False, ul_identify_in_flight := True,
                ul_identify_started := True, ul_buffering := (continuous \<and> ul_buffering l),
                ul_pcm_buffer := [], ul_voiced_ms := 0, ul_pending_silence_ms := 0\<rparr>) a
      in a\<lparr>va_lid_jobs := va_lid_jobs a @ [\<lparr>lj_key = key, lj_pcm = take max_bytes (ul_pcm_buffer l),
             lj_config = cfg, lj_speech_ms = ul_voiced_ms l\<rparr>]\<rparr>)"

definition spawn_identify_language :: "step_env \<Rightarrow> nat \<Rightarrow> bool \<Rightarrow> 'f agent \<Rightarrow> bool \<times> 'f agent" where
  "spawn_identify_language env key force a =
     (let enabled = language_id_enabled (lid_config_of a)
      in if \<not> va_language_id a then (False, a)
         else if tts_active_for_lid_defer env a \<and> lid_exclusion a \<and> enabled then (False, defer_identify key a)
         else
           (case (lid_config_of a, record_ref key a) of
              (Some cfg, Some rec) \<Rightarrow>
                if \<not> enabled then (False, a)
                else
                  (let continuous = language_id_continuous (Some cfg); l = ut_lid rec
                   in if ul_identify_in_flight l
                      then (False, lid_mut key (\<lambda>l. l\<lparr>ul_identify_started := True\<rparr>) a)
                      else if ul_identify_started l \<and> \<not> force \<and> \<not> continuous then (False, a)
                      else if ul_pcm_buffer l = [] \<or>
                              (\<not> force \<and> ul_voiced_ms l < resolved_language_id_min_speech_ms cfg)
                        then (False, a)
                      else (True, spawn_job cfg continuous key rec a))
            | _ \<Rightarrow> (False, a)))"

definition try_spawn_default_mode_lid :: "step_env \<Rightarrow> nat \<Rightarrow> bool \<Rightarrow> 'f agent \<Rightarrow> bool \<times> 'f agent" where
  "try_spawn_default_mode_lid env key force a =
     (let enabled = language_id_enabled (lid_config_of a);
          eligible = enabled \<and> \<not> language_id_continuous (lid_config_of a) \<and>
            (case record_ref key a of
               None \<Rightarrow> False
             | Some r \<Rightarrow> \<not> ul_identify_in_flight (ut_lid r) \<and> (force \<or> \<not> ul_identify_started (ut_lid r)))
      in if \<not> eligible then (False, a)
         else if \<not> force \<and> tts_active_for_lid_defer env a \<and> lid_exclusion a \<and> enabled
           then (False, defer_identify key a)
         else spawn_identify_language env key force a)"

definition maybe_start_lid_at_speech_end :: "step_env \<Rightarrow> 'f agent \<Rightarrow> 'f agent" where
  "maybe_start_lid_at_speech_end env a =
     (case live_key a of None \<Rightarrow> a | Some key \<Rightarrow> snd (try_spawn_default_mode_lid env key False a))"

definition append_lid_pcm_if_buffering ::
  "step_env \<Rightarrow> bytes \<Rightarrow> bool \<Rightarrow> bool \<Rightarrow> nat \<Rightarrow> 'f agent \<Rightarrow> 'f agent" where
  "append_lid_pcm_if_buffering env mono_bytes frame_active vad_speaking duration a =
     (let (identify_key, a) = append_lid_pcm mono_bytes frame_active vad_speaking duration a
      in case identify_key of
           None \<Rightarrow> a
         | Some key \<Rightarrow> snd (spawn_identify_language env key False a))"

definition maybe_spawn_deferred_lid_after_tts :: "step_env \<Rightarrow> 'f agent \<Rightarrow> 'f agent" where
  "maybe_spawn_deferred_lid_after_tts env a =
     (let keys = (if language_id_enabled (lid_config_of a) then deferred_lid_keys a else [])
      in if tts_active_for_lid_defer env a
         then fold (\<lambda>key. lid_mut key (\<lambda>l. l\<lparr>ul_identify_deferred := True\<rparr>)) keys a
         else fold (\<lambda>key a. snd (spawn_identify_language env key True a)) keys a)"

section \<open>The outcome of an identify\<close>

definition drop_retained :: "nat \<Rightarrow> 'a utt_store_scheme \<Rightarrow> 'a utt_store_scheme" where
  "drop_retained key s = s\<lparr>us_lid_retained := filter (\<lambda>r. ut_key r \<noteq> key) (us_lid_retained s)\<rparr>"

text \<open>\<open>None\<close>: reported (or unchanged); \<open>Some ()\<close>-like \<open>True\<close>: no usable code came back.\<close>

definition report_language :: "lid_job \<Rightarrow> stt_utterance \<Rightarrow> lid_result \<Rightarrow> 'f agent \<Rightarrow> bool \<times> 'f agent" where
  "report_language job rec result a =
     (case result of
        LidLanguage language \<Rightarrow>
          (let code = to_ascii_lowercase (trim language)
           in if code = [] then (True, a)
              else if \<not> language_id_allowlist_accepts (lj_config job) code then (True, a)
              else if va_lid_last_emitted a = Some code \<and> ul_language_emitted (ut_lid rec) then (False, a)
              else
                (False, agent_emit (user_language code (Some (ut_id rec)))
                   (lid_mut (lj_key job) (\<lambda>l. l\<lparr>ul_language_emitted := True\<rparr>)
                      (a\<lparr>va_lid_last_emitted := Some code\<rparr>))))
      | LidNone \<Rightarrow> (True, a)
      | LidError \<Rightarrow> (True, a))"

definition apply_identify :: "lid_job \<Rightarrow> lid_result \<Rightarrow> 'f agent \<Rightarrow> 'f agent" where
  "apply_identify job result a =
     (case record_ref (lj_key job) a of
        None \<Rightarrow> a
      | Some rec \<Rightarrow>
          (let (undetermined, a) = report_language job rec result a;
               a = (if undetermined \<and> \<not> ul_language_emitted (ut_lid rec)
                    then emit_language_id_skipped (lj_key job) ''undetermined'' (lj_speech_ms job) a else a);
               a = lid_mut (lj_key job) (\<lambda>l. l\<lparr>ul_identify_in_flight := False, ul_identify_deferred := False\<rparr>) a
           in drop_retained (lj_key job) a))"

text \<open>The first running identify of a record is answered.\<close>

definition finish_identify :: "nat \<Rightarrow> lid_result \<Rightarrow> 'f agent \<Rightarrow> 'f agent" where
  "finish_identify key result a =
     (case find (\<lambda>j. lj_key j = key) (va_lid_jobs a) of
        None \<Rightarrow> a
      | Some job \<Rightarrow> apply_identify job result (a\<lparr>va_lid_jobs := remove1 job (va_lid_jobs a)\<rparr>))"

section \<open>Waiting before an utterance closes\<close>

definition lid_in_flight_of :: "nat \<Rightarrow> 'a utt_store_scheme \<Rightarrow> bool" where
  "lid_in_flight_of key s = (case record_ref key s of Some r \<Rightarrow> ul_identify_in_flight (ut_lid r) | None \<Rightarrow> False)"

text \<open>The wait is bounded: either the identify answered in time or the close goes on without it.\<close>

definition await_lid_gate :: "step_env \<Rightarrow> nat \<Rightarrow> 'f agent \<Rightarrow> 'f agent" where
  "await_lid_gate env key a =
     (if \<not> lid_exclusion a \<or> \<not> lid_in_flight_of key a then a
      else (case en_lid_answer env of None \<Rightarrow> a | Some result \<Rightarrow> finish_identify key result a))"

definition prepare_lid_before_close :: "step_env \<Rightarrow> nat \<Rightarrow> 'f agent \<Rightarrow> 'f agent" where
  "prepare_lid_before_close env key a =
     await_lid_gate env key (snd (try_spawn_default_mode_lid env key False a))"

definition emit_user_speaking_end_for :: "nat \<Rightarrow> 'f agent \<Rightarrow> 'f agent" where
  "emit_user_speaking_end_for key a =
     (case record_ref key a of
        None \<Rightarrow> a
      | Some rec \<Rightarrow>
          (let l = ut_lid rec;
               a = (if language_id_enabled (lid_config_of a) \<and> \<not> ul_identify_started l \<and> \<not> ul_identify_in_flight l
                    then emit_language_id_skipped_once key (if ul_pcm_buffer l = [] then ''no_audio'' else ''too_short'') a
                    else a);
               a = agent_emit (user_speaking_end (Some (ut_id rec))) a
           in lid_mut key (\<lambda>l. l\<lparr>ul_buffering := False\<rparr>) a))"

definition emit_user_speaking_end_after_lid_gate :: "step_env \<Rightarrow> nat \<Rightarrow> 'f agent \<Rightarrow> 'f agent" where
  "emit_user_speaking_end_after_lid_gate env key a =
     emit_user_speaking_end_for key (prepare_lid_before_close env key a)"

definition emit_speaking_end :: "step_env \<Rightarrow> nat \<Rightarrow> bool \<Rightarrow> 'f agent \<Rightarrow> 'f agent" where
  "emit_speaking_end env key wait_lid a =
     (if wait_lid then emit_user_speaking_end_after_lid_gate env key a else emit_user_speaking_end_for key a)"

end
