(* ===== verification/Agent_Utterance.thy ===== *)
theory Agent_Utterance
  imports Agent_Lid "HOL-Library.Monad_Syntax"
begin

text \<open>
  The life of an utterance in \<open>crates/speech/src/agent.rs\<close>: VAD start, C1 and C2, the close towards
  the STT, the application of its results, and the events all of these emit.  An operation that can
  panic returns \<open>None\<close> then.  The agent is one without a speaker gate (\<open>speaker_gate: None\<close>).
\<close>

section \<open>Debug previews of a transcript\<close>

text \<open>
  \<open>&text[..80]\<close> panics when byte 80 is not a character boundary.  The argument of \<open>voice_debug\<close> is
  formatted before the call, whether or not debug output is on.
\<close>

definition utf8_len :: "uchar \<Rightarrow> nat" where
  "utf8_len c = (if c < 128 then 1 else if c < 2048 then 2 else if c < 65536 then 3 else 4)"

fun utf8_length :: "ustring \<Rightarrow> nat" where
  "utf8_length [] = 0"
| "utf8_length (c # cs) = utf8_len c + utf8_length cs"

fun str_slice_to :: "nat \<Rightarrow> ustring \<Rightarrow> ustring option" where
  "str_slice_to n [] = (if n = 0 then Some [] else None)"
| "str_slice_to n (c # cs) =
     (if n = 0 then Some []
      else if utf8_len c \<le> n then map_option (Cons c) (str_slice_to (n - utf8_len c) cs)
      else None)"

definition debug_preview :: "ustring \<Rightarrow> ustring option" where
  "debug_preview t =
     (if 80 < utf8_length t then map_option (\<lambda>p. p @ [8230]) (str_slice_to 80 t) else Some t)"

section \<open>Starting\<close>

definition emit_stt_stream_start_if_needed :: "'f agent \<Rightarrow> 'f agent" where
  "emit_stt_stream_start_if_needed a =
     (let (rec, a) = ensure_live a
      in if ut_stream_open rec then a
         else agent_emit (with_utterance_id (Some (ut_id rec)) stt_stream_start)
                (a\<lparr>us_live := Some (rec\<lparr>ut_stream_open := True\<rparr>)\<rparr>))"

definition emit_user_stt_start_if_needed :: "'f agent \<Rightarrow> 'f agent" where
  "emit_user_stt_start_if_needed a =
     (let (rec, a) = ensure_live a
      in if ut_user_stt_session_open rec then a
         else agent_emit (with_utterance_id (Some (ut_id rec)) user_stt_start)
                (a\<lparr>us_live := Some (rec\<lparr>ut_user_stt_session_open := True\<rparr>)\<rparr>))"

definition emit_user_speaking_start_if_needed :: "nat \<Rightarrow> 'f agent \<Rightarrow> 'f agent" where
  "emit_user_speaking_start_if_needed key a =
     (if \<not> va_stt_enabled a then a
      else
        (case record_ref key a of
           None \<Rightarrow> a
         | Some rec \<Rightarrow>
             if ut_speaking_start_emitted rec then a
             else
               (let is_live = (live_key a = Some key);
                    a = record_mut key (\<lambda>r. r\<lparr>ut_speaking_start_emitted := True\<rparr>) a;
                    a = (if is_live then
                           (if va_replay_begun_at_pre_roll a then a\<lparr>va_replay_begun_at_pre_roll := False\<rparr>
                            else a\<lparr>va_utterance_replay_buffer := begin_utterance (va_utterance_replay_buffer a)\<rparr>)
                         else a);
                    a = agent_emit (user_speaking_start (ut_id rec)) a
                in if is_live then start_lid_buffering a else a)))"

section \<open>Barge-in\<close>

text \<open>The reply ends a flush emits, then those of the queued replies that were dropped.\<close>

definition emit_flushed_replies :: "step_env \<Rightarrow> 'f agent \<Rightarrow> 'f agent" where
  "emit_flushed_replies env a =
     fold (\<lambda>(i, played, synthesized, complete). agent_emit (agent_reply_end i played True synthesized complete))
       (en_flushed env) a"

definition cancel_pending_tts_synthesis :: "step_env \<Rightarrow> 'f agent \<Rightarrow> 'f agent" where
  "cancel_pending_tts_synthesis env a =
     fold (\<lambda>i. agent_emit (agent_reply_end i 0 True 0 False)) (en_dropped env) a"

definition barge_in_with_speaking_end ::
  "step_env \<Rightarrow> barge_in_config \<Rightarrow> ustring option \<Rightarrow> 'f agent \<Rightarrow> 'f agent" where
  "barge_in_with_speaking_end env barge_in i a =
     (if \<not> bi_enabled barge_in then a
      else
        (let (ended, a) = (if bi_flush_tts barge_in then end_agent_speaking False a else (False, a));
             a = (if bi_flush_tts barge_in then emit_flushed_replies env a else a);
             a = agent_emit (with_utterance_id i ev_barge_in) a
         in if ended then agent_emit agent_speaking_end a else a))"

definition stt_barge_wanted :: "step_env \<Rightarrow> nat \<Rightarrow> ustring \<Rightarrow> 'f agent \<Rightarrow> bool" where
  "stt_barge_wanted env key t a \<longleftrightarrow>
     \<not> en_protected env \<and>
     (let cfg = vc_barge_in (va_vad a)
      in bi_enabled cfg \<and> bi_require_stt_partial cfg \<and> ag_stt (va_config a) \<noteq> None) \<and>
     ts_agent_speaking a \<and> live_key a = Some key \<and> live_flag ut_vad_triggered a \<and>
     stt_partial_qualifies_for_barge (en_alphanumeric env) t a \<and> \<not> ts_stt_barge_fired a"

definition try_stt_gated_barge_in :: "step_env \<Rightarrow> nat \<Rightarrow> ustring \<Rightarrow> 'f agent \<Rightarrow> 'f agent" where
  "try_stt_gated_barge_in env key t a =
     (if \<not> stt_barge_wanted env key t a then a
      else
        (let i = map_option ut_id (record_ref key a);
             a = a\<lparr>ts_barge_awaiting_stt_partial := False, ts_stt_barge_fired := True\<rparr>;
             a = a\<lparr>va_turn_latency := snd (on_barge_in (va_turn_latency a))\<rparr>
         in cancel_pending_tts_synthesis env (barge_in_with_speaking_end env (vc_barge_in (va_vad a)) i a)))"

section \<open>VAD speech start\<close>

definition open_stt_session :: "bool \<Rightarrow> 'f agent \<Rightarrow> 'f agent" where
  "open_stt_session has_stt a =
     (if has_stt then emit_stt_stream_start_if_needed (emit_user_stt_start_if_needed a) else a)"

text \<open>The utterance the speech start belongs to is returned with the agent.\<close>

definition mark_vad_triggered ::
  "instant \<Rightarrow> bool \<Rightarrow> bool \<Rightarrow> 'f agent \<Rightarrow> stt_utterance \<times> 'f agent" where
  "mark_vad_triggered now has_stt emits_partials a =
     (let (rec, a) = ensure_live a;
          a = a\<lparr>us_live := Some (rec\<lparr>ut_vad_triggered := True\<rparr>), ts_c1_backlog_deferred_logged := False\<rparr>;
          a = (if has_stt \<and> \<not> ut_partials_emitted rec \<and> emits_partials
               then a\<lparr>ts_stt_listen_deadline_ms := vc_stt_listen_timeout_ms (va_vad a),
                      ts_stt_listen_started_at := Some now, ts_stt_listen_media_ms := 0\<rparr>
               else a)
      in (rec, if \<not> ut_partials_emitted rec then clear_utterance_finalize_timer a else a))"

text \<open>The barge-in of a speech start; \<open>speaking\<close> and \<open>guard_active\<close> were read before the events above.\<close>

definition vad_barge_in ::
  "step_env \<Rightarrow> bool \<Rightarrow> bool \<Rightarrow> bool \<Rightarrow> ustring \<Rightarrow> 'f agent \<Rightarrow> 'f agent" where
  "vad_barge_in env speaking guard_active await_partial i a =
     (if \<not> (bi_enabled (vc_barge_in (va_vad a)) \<and> bi_use_vad (vc_barge_in (va_vad a)) \<and> speaking) then a
      else if en_protected env then a
      else if guard_active then a
      else if await_partial then a\<lparr>ts_barge_awaiting_stt_partial := True\<rparr>
      else cancel_pending_tts_synthesis env
             (barge_in_with_speaking_end env (vc_barge_in (va_vad a)) (Some i) a))"

definition on_vad_speech_start :: "step_env \<Rightarrow> 'f agent \<Rightarrow> 'f agent" where
  "on_vad_speech_start env a =
     (if \<not> vc_enabled (va_vad a) then a
      else
        (let speaking = ts_agent_speaking a;
             guard_active = agent_playback_guard_active (en_now env) a;
             has_stt = stt_pipeline_active a;
             emits_partials = (\<not> va_actor a \<or> en_emits_partials env);
             await_partial = (bi_require_stt_partial (vc_barge_in (va_vad a)) \<and> emits_partials \<and> has_stt);
             a = open_stt_session has_stt (agent_emit vad_triggered a);
             (rec, a) = mark_vad_triggered (en_now env) has_stt emits_partials a
         in vad_barge_in env speaking guard_active await_partial (ut_id rec) a))"

section \<open>Finals\<close>

definition emit_utterance_final :: "step_env \<Rightarrow> nat \<Rightarrow> ustring \<Rightarrow> 'f agent \<Rightarrow> 'f agent" where
  "emit_utterance_final env key t a =
     (if trim t = [] then
        (case record_ref key a of
           None \<Rightarrow> a
         | Some rec \<Rightarrow>
             (let a = record_mut key (\<lambda>r. r\<lparr>ut_replay_ctx := None\<rparr>) a
              in if ut_not_found_emitted rec then a
                 else agent_emit (user_stt_not_found_with_reason ''empty_final'' (Some (ut_id rec)))
                        (record_mut key (\<lambda>r. r\<lparr>ut_not_found_emitted := True, ut_terminal := True\<rparr>) a)))
      else
        (let a = a\<lparr>va_turn_latency := snd (on_stt_final (\<lambda>_. ()) (en_now env) (va_turn_latency a))\<rparr>
         in case record_ref key a of
              None \<Rightarrow> a
            | Some rec \<Rightarrow>
                (let ctx = (case ut_replay_ctx rec of
                       Some c \<Rightarrow> if saturating_duration_since (en_now env) (rx_set_at c) \<le> REPLAY_CONTEXT_MAX_AGE
                                 then Some c else None
                     | None \<Rightarrow> None);
                     fresh = utterance_id (us_id_seq a);
                     event = (case (ut_kind rec, ctx) of
                       (UttReplay replaces, _) \<Rightarrow> user_speech_final_held_replay t (Some (ut_id rec)) replaces
                     | (UttLive, None) \<Rightarrow> user_speech_final t (Some (ut_id rec))
                     | (UttLive, Some c) \<Rightarrow>
                         (case rx_replaces_utterance_id c of
                            Some i \<Rightarrow> user_speech_final_replay t (Some fresh) i
                          | None \<Rightarrow> user_speech_final_held_replay t (Some fresh) None));
                     a = (if ut_kind rec = UttLive \<and> ctx \<noteq> None then a\<lparr>us_id_seq := us_id_seq a + 1\<rparr> else a);
                     a = record_mut key (\<lambda>r. r\<lparr>ut_replay_ctx := None, ut_final_emitted := True, ut_terminal := True\<rparr>) a
                 in fire_terminal_waiter key True (agent_emit event a))))"

section \<open>Closing\<close>

definition close_stt_stream_not_found :: "step_env \<Rightarrow> 'f agent \<Rightarrow> 'f agent" where
  "close_stt_stream_not_found env a =
     (case us_live a of
        None \<Rightarrow> a
      | Some rec \<Rightarrow>
          (let key = ut_key rec;
               i = Some (ut_id rec);
               held = (va_stt_hold a \<noteq> None);
               speaking = ts_vad_speaking a;
               session = ut_user_stt_session_open rec;
               rec' = (if session then rec\<lparr>ut_not_found_emitted := True, ut_terminal := True\<rparr> else rec)
                        \<lparr>ut_stream_open := False, ut_user_stt_session_open := False, ut_vad_triggered := False\<rparr>;
               a = clear_utterance_finalize_timer (clear_stt_listen_timer (a\<lparr>us_live := Some rec'\<rparr>));
               a = a\<lparr>ts_barge_awaiting_stt_partial := False\<rparr>;
               a = (if ut_stream_open rec
                    then agent_emit (with_utterance_id i (stt_stream_end_with_reason ''listen_timeout'')) a else a);
               a = (if session
                    then agent_emit (with_utterance_id i user_stt_end)
                           (agent_emit (user_stt_not_found_with_reason ''no_partial'' i) a)
                    else a);
               a = (if \<not> speaking \<and> \<not> ut_speaking_end_emitted rec
                    then emit_user_speaking_end_after_lid_gate env key
                           (record_mut key (\<lambda>r. r\<lparr>ut_speaking_end_emitted := True\<rparr>) a)
                    else a)
           in if held then a
              else
                (let a = agent_send (CEndUtterance key) a
                 in case us_live a of
                      None \<Rightarrow> a
                    | Some r \<Rightarrow>
                        if \<not> speaking \<and> ut_key r = key
                        then a\<lparr>us_live := None, us_closing := us_closing a @
                               [r\<lparr>ut_phase := UttClosing, ut_close_reason := ''listen_timeout''\<rparr>]\<rparr>
                        else a)))"

text \<open>The endpoint tail in 100 ms chunks, into the held audio or to the STT.\<close>

definition endpoint_chunks :: "'f agent \<Rightarrow> bytes list" where
  "endpoint_chunks a =
     replicate ((stt_endpoint_tail_ms (va_vad a) + 99) div 100) (silence_mono_s16le_bytes 100)"

definition hold_endpoint_tail :: "'f agent \<Rightarrow> stt_hold \<Rightarrow> stt_hold" where
  "hold_endpoint_tail a h =
     (let live_id = (case us_live a of Some r \<Rightarrow> if ut_terminal r then None else Some (ut_id r) | None \<Rightarrow> None);
          h = (if sh_replaces_utterance_id h = None then h\<lparr>sh_replaces_utterance_id := live_id\<rparr> else h)
      in fold hold_push (endpoint_chunks a) h)"

definition send_tail_chunk :: "bytes \<Rightarrow> 'f agent \<Rightarrow> 'f agent" where
  "send_tail_chunk chunk a =
     send_stt_audio chunk (a\<lparr>va_utterance_replay_buffer := replay_push chunk (va_utterance_replay_buffer a)\<rparr>)"

definition begin_utterance_close :: "step_env \<Rightarrow> string \<Rightarrow> bool \<Rightarrow> 'f agent \<Rightarrow> close_started \<times> 'f agent" where
  "begin_utterance_close env reason with_tail a =
     (case va_stt_hold a of
        Some hold \<Rightarrow>
          (let hold = (if with_tail then hold_endpoint_tail a hold else hold)
           in (CloseHeld, a\<lparr>va_stt_hold := Some (hold_note_finalize hold)\<rparr>))
      | None \<Rightarrow>
          (let a = reset_turn_close_flags a
           in case us_live a of
                None \<Rightarrow> (CloseNoRecord, a)
              | Some rec \<Rightarrow>
                  (let a = a\<lparr>us_live := None\<rparr>;
                       a = (if with_tail \<and> va_stt_enabled a then fold send_tail_chunk (endpoint_chunks a) a else a);
                       a = commit_utterance_replay_snapshot (en_now env) (ut_id rec) a;
                       a = a\<lparr>us_closing := us_closing a @ [rec\<lparr>ut_phase := UttClosing, ut_close_reason := reason\<rparr>]\<rparr>;
                       a = agent_send (CEndUtterance (ut_key rec)) a
                   in (CloseClosing, snd (send_pending_swap a)))))"

text \<open>What \<open>finish_record_close\<close> decides under its first lock.\<close>

record close_plan =
  cp_stream_end :: bool
  cp_stt_end :: bool
  cp_forced_text :: "ustring option"
  cp_not_found :: bool
  cp_forced_reason :: bool

definition plan_close :: "bool \<Rightarrow> stt_utterance \<Rightarrow> close_plan" where
  "plan_close hold_active rec =
     (let t = (case ut_last_partial_text rec of Some t \<Rightarrow> t | None \<Rightarrow> []);
          has_text = (trim t \<noteq> []);
          forced_reason = (ut_close_reason rec = ''finalize_timeout'' \<or> ut_close_reason rec = ''pcm_stall'');
          no_final = (\<not> ut_final_emitted rec \<and> \<not> hold_active)
      in \<lparr>cp_stream_end = ut_stream_open rec, cp_stt_end = ut_user_stt_session_open rec,
          cp_forced_text = (if no_final \<and> ut_partials_emitted rec \<and> has_text then Some t else None),
          cp_not_found = (no_final \<and> \<not> has_text \<and>
            (ut_stream_open rec \<or> ut_user_stt_session_open rec \<or> forced_reason) \<and> \<not> ut_not_found_emitted rec),
          cp_forced_reason = forced_reason\<rparr>)"

definition close_record :: "close_plan \<Rightarrow> stt_utterance \<Rightarrow> stt_utterance" where
  "close_record plan r =
     (if cp_not_found plan then r\<lparr>ut_not_found_emitted := True, ut_terminal := True\<rparr> else r)
       \<lparr>ut_stream_open := False, ut_user_stt_session_open := False, ut_vad_triggered := False\<rparr>"

definition emit_close_events :: "close_plan \<Rightarrow> stt_utterance \<Rightarrow> 'f agent \<Rightarrow> 'f agent" where
  "emit_close_events plan rec a =
     (let i = Some (ut_id rec);
          a = (if cp_stream_end plan
               then agent_emit (with_utterance_id i (stt_stream_end_with_reason (ut_close_reason rec))) a else a);
          a = (if cp_not_found plan then agent_emit (user_stt_not_found_with_reason ''no_transcript'' i) a else a)
      in if cp_stt_end plan then agent_emit (with_utterance_id i user_stt_end) a else a)"

text \<open>The last-partial fallback final.\<close>

definition finish_with_partial :: "step_env \<Rightarrow> nat \<Rightarrow> bool \<Rightarrow> bool \<Rightarrow> ustring \<Rightarrow> 'f agent \<Rightarrow> 'f agent option" where
  "finish_with_partial env key inline_live wait_lid t a =
     (let emit_end = (case record_ref key a of Some r \<Rightarrow> \<not> ut_speaking_end_emitted r | None \<Rightarrow> False);
          a = record_mut key (\<lambda>r. r\<lparr>ut_speaking_end_emitted := True, ut_final_emitted := True\<rparr>) a;
          a = (if inline_live
               then a\<lparr>ts_stt_finalize_pending := False, ts_stt_endpoint_closing_started := False\<rparr> else a);
          a = (if emit_end then emit_speaking_end env key wait_lid a else a)
      in do {
           _ \<leftarrow> debug_preview t;
           Some (emit_utterance_final env key t a)
         })"

definition finish_without_text :: "step_env \<Rightarrow> nat \<Rightarrow> bool \<Rightarrow> bool \<Rightarrow> bool \<Rightarrow> 'f agent \<Rightarrow> 'f agent" where
  "finish_without_text env key inline_live wait_lid forced_reason a =
     (let emit_end = (case record_ref key a of Some r \<Rightarrow> \<not> ut_speaking_end_emitted r | None \<Rightarrow> False);
          a = record_mut key (\<lambda>r. r\<lparr>ut_final_emitted := (forced_reason \<or> ut_final_emitted r),
                ut_speaking_end_emitted := True\<rparr>) a;
          a = (if emit_end \<and> inline_live
               then a\<lparr>ts_stt_finalize_pending := False, ts_stt_endpoint_closing_started := False\<rparr> else a)
      in if emit_end then emit_speaking_end env key wait_lid a else a)"

definition finish_record_close :: "step_env \<Rightarrow> nat \<Rightarrow> bool \<Rightarrow> bool \<Rightarrow> 'f agent \<Rightarrow> 'f agent option" where
  "finish_record_close env key inline_live wait_lid a =
     (case record_ref key a of
        None \<Rightarrow> Some a
      | Some rec \<Rightarrow>
          if ut_kind rec \<noteq> UttLive then Some a
          else
            (let plan = plan_close (va_stt_hold a \<noteq> None) rec;
                 a = record_mut key (close_record plan) a;
                 a = (if inline_live then clear_utterance_finalize_timer (clear_stt_listen_timer a) else a);
                 a = a\<lparr>ts_barge_awaiting_stt_partial := False\<rparr>;
                 a = emit_close_events plan rec a
             in case cp_forced_text plan of
                  Some t \<Rightarrow> finish_with_partial env key inline_live wait_lid t a
                | None \<Rightarrow> Some (finish_without_text env key inline_live wait_lid (cp_forced_reason plan) a)))"

definition finish_live_inline :: "step_env \<Rightarrow> bool \<Rightarrow> 'f agent \<Rightarrow> 'f agent option" where
  "finish_live_inline env wait_lid a =
     (case live_key a of
        None \<Rightarrow> Some a
      | Some key \<Rightarrow> finish_record_close env key True wait_lid a)"

definition force_close_utterance :: "step_env \<Rightarrow> string \<Rightarrow> 'f agent \<Rightarrow> 'f agent option" where
  "force_close_utterance env close_reason a =
     (if live_flag (\<lambda>r. ut_stream_open r \<and> \<not> ut_final_emitted r) a
      then (case begin_utterance_close env close_reason True (a\<lparr>ts_stt_endpoint_closing_started := True\<rparr>) of
              (CloseHeld, a) \<Rightarrow> finish_live_inline env True a
            | (_, a) \<Rightarrow> Some a)
      else finish_live_inline env True
             (a\<lparr>us_live := map_option (\<lambda>r. r\<lparr>ut_close_reason := close_reason\<rparr>) (us_live a)\<rparr>))"

definition complete_pending_utterance_if_any :: "step_env \<Rightarrow> 'f agent \<Rightarrow> 'f agent option" where
  "complete_pending_utterance_if_any env a =
     (if \<not> vc_gate_stt (va_vad a) \<or> ag_stt (va_config a) = None then Some a
      else if \<not> (ts_stt_finalize_pending a \<and> \<not> live_flag ut_final_emitted a) then Some a
      else
        (case begin_utterance_close env ''end_of_utterance'' (\<not> ts_stt_endpoint_closing_started a) a of
           (CloseHeld, a) \<Rightarrow> finish_live_inline env True a
         | (_, a) \<Rightarrow> Some a))"

section \<open>Results of the STT\<close>

text \<open>\<open>Inr key\<close>: the record a transcript is applied to; \<open>Inl\<close>: it is late (the utterance, why closed).\<close>

definition resolve_transcript_target ::
  "nat option \<Rightarrow> 'a utt_store_scheme \<Rightarrow> (ustring \<times> string + nat) \<times> 'a utt_store_scheme" where
  "resolve_transcript_target key s =
     (case key of
        Some k \<Rightarrow>
          (case stt_record_ref k s of
             Some rec \<Rightarrow> (if ut_terminal rec then Inl (ut_id rec, ut_close_reason rec) else Inr k, s)
           | None \<Rightarrow> (Inl (utext ''key '' @ decimal k, ''closed''), s))
      | None \<Rightarrow>
          (case us_closing s of
             front # _ \<Rightarrow>
               (if ut_terminal front then Inl (ut_id front, ut_close_reason front) else Inr (ut_key front), s)
           | [] \<Rightarrow> (let (rec, s) = ensure_live s in (Inr (ut_key rec), s))))"

text \<open>\<open>terminal_key_of\<close>: the live-kind record whose terminal event the result will emit.\<close>

definition terminal_key_of :: "stt_result \<Rightarrow> 'a utt_store_scheme \<Rightarrow> nat option \<times> 'a utt_store_scheme" where
  "terminal_key_of result s =
     (case result of
        RTranscript key _ (Final _) \<Rightarrow>
          (case resolve_transcript_target key s of
             (Inr k, s) \<Rightarrow>
               ((case stt_record_ref k s of
                   Some r \<Rightarrow> if ut_kind r = UttLive then Some (ut_key r) else None
                 | None \<Rightarrow> None), s)
           | (Inl _, s) \<Rightarrow> (None, s))
      | RFinalizeDone key _ _ \<Rightarrow>
          ((case find (\<lambda>r. ut_key r = key \<and> ut_kind r = UttLive) (us_closing s) of
              Some r \<Rightarrow> Some (ut_key r) | None \<Rightarrow> None), s)
      | _ \<Rightarrow> (None, s))"

definition apply_partial :: "step_env \<Rightarrow> nat \<Rightarrow> ustring \<Rightarrow> 'f agent \<Rightarrow> 'f agent" where
  "apply_partial env key t a =
     (case record_ref key a of
        None \<Rightarrow> a
      | Some rec \<Rightarrow>
          if ut_kind rec \<noteq> UttLive then a
          else
            (let is_live = (live_key a = Some key);
                 a = record_mut key (\<lambda>r. r\<lparr>ut_partials_emitted := True, ut_last_partial_text := Some t\<rparr>) a;
                 a = (if is_live
                      then refresh_utterance_finalize_after_partial (en_now env) (clear_stt_listen_timer a) else a);
                 a = emit_user_speaking_start_if_needed key a;
                 a = agent_emit (user_speech_partial t (Some (ut_id rec))) a
             in try_stt_gated_barge_in env key t a))"

text \<open>The part of \<open>apply_final\<close> after the barge-in check.\<close>

definition close_with_final :: "step_env \<Rightarrow> nat \<Rightarrow> bool \<Rightarrow> ustring \<Rightarrow> 'f agent \<Rightarrow> 'f agent option" where
  "close_with_final env key is_live t a =
     (case record_ref key a of
        None \<Rightarrow> Some a
      | Some rec \<Rightarrow>
          (let i = Some (ut_id rec);
               emit_end = (\<not> ut_speaking_end_emitted rec);
               close_stream = (ut_stream_open rec \<or> ut_user_stt_session_open rec);
               a = record_mut key (\<lambda>r. r\<lparr>ut_final_emitted := True, ut_vad_triggered := False,
                     ut_speaking_end_emitted := True, ut_stream_open := False, ut_user_stt_session_open := False\<rparr>) a;
               a = (if is_live
                    then clear_utterance_finalize_timer (clear_stt_listen_timer
                           (a\<lparr>ts_stt_finalize_pending := False, ts_stt_endpoint_closing_started := False\<rparr>))
                    else a);
               a = (if close_stream
                    then agent_emit (with_utterance_id i user_stt_end)
                           (agent_emit (with_utterance_id i (stt_stream_end_with_reason ''vendor_final'')) a)
                    else a);
               a = (if emit_end then emit_speaking_end env key False a else a)
           in do {
                _ \<leftarrow> debug_preview t;
                Some (emit_utterance_final env key t a)
              }))"

definition apply_final :: "step_env \<Rightarrow> nat \<Rightarrow> ustring \<Rightarrow> 'f agent \<Rightarrow> 'f agent option" where
  "apply_final env key t a =
     (case record_ref key a of
        None \<Rightarrow> Some a
      | Some rec \<Rightarrow>
          (let is_live = (live_key a = Some key)
           in if ut_kind rec \<noteq> UttLive
              then Some (if trim t = [] then a else emit_utterance_final env key t a)
              else if trim t = [] \<and> is_live \<and> ts_vad_speaking a then Some a
              else close_with_final env key is_live t
                     (try_stt_gated_barge_in env key t (emit_user_speaking_start_if_needed key a))))"

definition old_model_result :: "nat \<Rightarrow> 'f agent \<Rightarrow> bool" where
  "old_model_result gen a = (case va_stt_hold a of Some h \<Rightarrow> sh_gen_at_begin h = gen | None \<Rightarrow> False)"

definition apply_transcript_result ::
  "step_env \<Rightarrow> nat option \<Rightarrow> nat \<Rightarrow> stt_transcript \<Rightarrow> 'f agent \<Rightarrow> 'f agent option" where
  "apply_transcript_result env key gen transcript a =
     (if \<not> va_stt_enabled a then Some a
      else if old_model_result gen a then
        (let log_key = (case key of Some k \<Rightarrow> k | None \<Rightarrow> (case live_key a of Some k \<Rightarrow> k | None \<Rightarrow> 0))
         in Some (if va_held_ignore_logged_key a \<noteq> Some log_key
                  then a\<lparr>va_held_ignore_logged_key := Some log_key\<rparr> else a))
      else
        (case resolve_transcript_target key a of
           (Inl _, a) \<Rightarrow> Some a
         | (Inr target, a) \<Rightarrow>
             (case transcript of
                Partial t \<Rightarrow> Some (apply_partial env target t a)
              | Final t \<Rightarrow> apply_final env target t a)))"

definition apply_finalize_done :: "step_env \<Rightarrow> nat \<Rightarrow> 'f agent \<Rightarrow> 'f agent option" where
  "apply_finalize_done env key a =
     (if find_key key (us_closing a) = None then Some a
      else do {
        a \<leftarrow> finish_record_close env key False False a;
        Some (case find_key key (us_closing a) of
                None \<Rightarrow> a
              | Some rec \<Rightarrow>
                  (let a = a\<lparr>us_closing := remove1 rec (us_closing a)\<rparr>;
                       a = (case ut_terminal_waiter rec of
                              Some w \<Rightarrow> a\<lparr>va_answers := va_answers a @ [(w, ut_final_emitted rec)]\<rparr> | None \<Rightarrow> a)
                   in retain_for_lid (rec\<lparr>ut_terminal_waiter := None\<rparr>) a))
      })"

definition apply_swap_result :: "stt_config \<Rightarrow> ustring + unit \<Rightarrow> 'f agent \<Rightarrow> 'f agent" where
  "apply_swap_result config result a =
     (case result of
        Inr _ \<Rightarrow> agent_emit (stt_config_updated config) (a\<lparr>va_config := (va_config a)\<lparr>ag_stt := Some config\<rparr>\<rparr>)
      | Inl _ \<Rightarrow> a)"

text \<open>
  \<open>handle_stt_result\<close> is two steps: waiting for the LID gate of the utterance it ends (without the
  step lock), then applying the result.
\<close>

definition prepare_stt_result :: "step_env \<Rightarrow> stt_result \<Rightarrow> 'f agent \<Rightarrow> 'f agent" where
  "prepare_stt_result env result a =
     (case terminal_key_of result a of
        (None, a) \<Rightarrow> a
      | (Some key, a) \<Rightarrow> prepare_lid_before_close env key a)"

definition apply_stt_result :: "step_env \<Rightarrow> stt_result \<Rightarrow> 'f agent \<Rightarrow> 'f agent option" where
  "apply_stt_result env result a =
     (case result of
        RTranscript key gen transcript \<Rightarrow> apply_transcript_result env key gen transcript a
      | RFinalizeDone key _ _ \<Rightarrow> apply_finalize_done env key a
      | RVendorError _ _ message \<Rightarrow>
          Some (if va_stt_enabled a then agent_emit (ev_error (utext ''stt: '' @ message)) a else a)
      | RSwapApplied config result \<Rightarrow> Some (apply_swap_result config result a)
      | RBarrierReached done_ch \<Rightarrow> Some a)"

end
