(* ===== verification/Agent_Inbound.thy ===== *)
theory Agent_Inbound
  imports Agent_Utterance Vad
begin

text \<open>
  \<open>process_inbound_pcm_with_meta\<close> of \<open>crates/speech/src/agent.rs\<close>, one 20 ms frame of the caller's audio:
  gate hold, C1 and C2, the switch to a new utterance at a speech start, the VAD transitions, and what
  of the audio goes to the STT, to the pre-roll or waits.  The VAD's answer for the frame is an input
  (the VAD is \<open>Vad\<close>), as is the denoised mono PCM.
\<close>

section \<open>The frame\<close>

record inbound_frame =
  fr_mono :: bytes
  fr_duration_ms :: nat
  fr_concealed :: bool
  fr_vad :: "(speech_error, vad_transition list \<times> bool) sum"
  fr_vad_pending :: bool
  fr_vad_speaking :: bool

definition note_inbound_frame :: "instant \<Rightarrow> nat \<Rightarrow> 'f agent \<Rightarrow> 'f agent" where
  "note_inbound_frame now duration a =
     (let a = a\<lparr>ts_last_inbound_pcm_at := Some now,
            ts_utterance_media_ms := saturating_add_u64 (ts_utterance_media_ms a) duration\<rparr>
      in if 0 < ts_stt_listen_deadline_ms a \<and> ts_stt_listen_started_at a \<noteq> None
         then a\<lparr>ts_stt_listen_media_ms := saturating_add_u32 (ts_stt_listen_media_ms a) duration\<rparr> else a)"

section \<open>Handing audio to the STT\<close>

definition push_stt_audio_bytes :: "bytes \<Rightarrow> 'f agent \<Rightarrow> 'f agent" where
  "push_stt_audio_bytes mono_bytes a =
     (if \<not> va_stt_enabled a then a
      else
        (case va_stt_hold a of
           Some hold \<Rightarrow>
             (let i = (case us_live a of Some r \<Rightarrow> if ut_terminal r then None else Some (ut_id r) | None \<Rightarrow> None);
                  hold = (if sh_replaces_utterance_id hold = None then hold\<lparr>sh_replaces_utterance_id := i\<rparr> else hold)
              in a\<lparr>va_stt_hold := Some (hold_push mono_bytes hold)\<rparr>)
         | None \<Rightarrow>
             (let a = a\<lparr>va_utterance_replay_buffer := replay_push mono_bytes (va_utterance_replay_buffer a)\<rparr>;
                  a = (if \<not> vc_enabled (va_vad a) \<or> \<not> vc_gate_stt (va_vad a) then snd (ensure_live a) else a)
              in send_stt_audio mono_bytes a)))"

text \<open>20 ms chunks of 640 bytes.\<close>

function chunks_640 :: "bytes \<Rightarrow> bytes list" where
  "chunks_640 b = (if b = [] then [] else take 640 b # chunks_640 (drop 640 b))"
  by auto
termination by (relation "measure length") auto

declare chunks_640.simps [simp del]

definition push_stt_audio_frames :: "bytes \<Rightarrow> 'f agent \<Rightarrow> 'f agent" where
  "push_stt_audio_frames mono_bytes a = fold push_stt_audio_bytes (chunks_640 mono_bytes) a"

definition push_hold_lookback :: "bytes \<Rightarrow> 'f agent \<Rightarrow> 'f agent" where
  "push_hold_lookback mono_bytes a =
     (let b = va_hold_lookback_pcm a @ mono_bytes;
          cap = (16000 * stt_pre_roll_capacity_ms (va_vad a) div 1000) * 2
      in a\<lparr>va_hold_lookback_pcm := (if cap < length b then drop ((length b - cap) div 2 * 2) b else b)\<rparr>)"

text \<open>An operation on the pre-roll, when there is one; \<open>None\<close> is its panic.\<close>

definition with_pre_roll :: "(pre_roll \<Rightarrow> pre_roll option) \<Rightarrow> 'f agent \<Rightarrow> 'f agent option" where
  "with_pre_roll f a =
     (case va_stt_pre_roll a of
        None \<Rightarrow> Some a
      | Some p \<Rightarrow> map_option (\<lambda>p. a\<lparr>va_stt_pre_roll := Some p\<rparr>) (f p))"

section \<open>The gate hold\<close>

text \<open>Whether the previous utterance must be completed before this frame.\<close>

definition open_partial :: "'a utt_store_scheme \<Rightarrow> bool" where
  "open_partial s = live_flag (\<lambda>r. ut_partials_emitted r \<and> \<not> ut_final_emitted r) s"

definition gate_hold_step ::
  "step_env \<Rightarrow> vad_transition list \<Rightarrow> nat \<Rightarrow> 'f agent \<Rightarrow> bool \<times> 'f agent" where
  "gate_hold_step env transitions duration a =
     (if SpeechEnd \<in> set transitions then
        (if vc_gate_stt (va_vad a) \<and> va_stt_enabled a then
           (let a = a\<lparr>ts_stt_gate_hold_ms := vc_stt_gate_hold_ms (va_vad a), ts_stt_finalize_pending := True\<rparr>
            in (False, if open_partial a
                       then a\<lparr>ts_defer_utterance_finalize_until_hold := True,
                              ts_utterance_finalize_deadline_ms := 0, ts_utterance_finalize_armed_at := None\<rparr>
                       else a))
         else (False, if open_partial a then arm_utterance_finalize_timer (en_now env) a else a))
      else if 0 < ts_stt_gate_hold_ms a \<and> SpeechStart \<notin> set transitions then
        (if ts_vad_speaking a \<and> \<not> ts_stt_endpoint_closing_started a then
           (let hold_total = vc_stt_gate_hold_ms (va_vad a);
                hold_elapsed = hold_total - ts_stt_gate_hold_ms a
            in if ts_stt_finalize_pending a \<and> \<not> live_flag ut_final_emitted a \<and>
                  gate_hold_long_pause_elapsed hold_total hold_elapsed
               then (True, a)
               else (False, disarm_utterance_finalize_timer (a\<lparr>ts_stt_gate_hold_ms := 0,
                       ts_stt_finalize_pending := False, ts_defer_utterance_finalize_until_hold := False\<rparr>)))
         else
           (let after = ts_stt_gate_hold_ms a - duration;
                a = a\<lparr>ts_stt_gate_hold_ms := after\<rparr>
            in if after = 0 then
                 (let a = a\<lparr>ts_gate_hold_expired_key := live_key a\<rparr>
                  in (False, if ts_defer_utterance_finalize_until_hold a \<and> open_partial a
                             then arm_utterance_finalize_timer (en_now env)
                                    (a\<lparr>ts_defer_utterance_finalize_until_hold := False\<rparr>)
                             else a))
               else (False, a)))
      else (False, a))"

section \<open>C1 and C2\<close>

definition c1_tick :: "step_env \<Rightarrow> duration \<Rightarrow> 'f agent \<Rightarrow> bool \<times> 'f agent" where
  "c1_tick env pcm_idle a =
     (let backlog_ms = (if va_actor a then en_backlog_ms env else 0);
          hold_for_vendor = ((va_actor a \<and> en_open_pending env) \<or> us_closing a \<noteq> []);
          (holding, a) = c1_hold_for_stt_open (en_now env) hold_for_vendor a
      in if holding then (False, a)
         else if c1_listen_expired (en_now env) backlog_ms pcm_idle a then (True, a)
         else (False, maybe_log_c1_backlog_deferred (en_now env) backlog_ms a))"

definition c2_media_tick :: "nat \<Rightarrow> 'f agent \<Rightarrow> bool \<times> 'f agent" where
  "c2_media_tick duration a =
     (if 0 < ts_utterance_finalize_deadline_ms a \<and> \<not> ts_defer_utterance_finalize_until_hold a \<and>
         \<not> ts_vad_speaking a \<and> ts_stt_gate_hold_ms a = 0
      then (let left = ts_utterance_finalize_deadline_ms a - duration
            in (left = 0, a\<lparr>ts_utterance_finalize_deadline_ms := left\<rparr>))
      else (False, a))"

definition timer_ticks :: "step_env \<Rightarrow> nat \<Rightarrow> 'f agent \<Rightarrow> bool \<times> bool \<times> 'f agent" where
  "timer_ticks env duration a =
     (if \<not> vc_enabled (va_vad a) \<or> \<not> stt_pipeline_active a then (False, False, a)
      else
        (let (c1, a) = (if live_flag (\<lambda>r. ut_stream_open r \<and> \<not> ut_partials_emitted r) a \<and>
                           ts_stt_listen_started_at a \<noteq> None \<and> va_stt_hold a = None
                        then c1_tick env 0 a else (False, a));
             (c2, a) = c2_media_tick duration a
         in (c1, c2, a)))"

definition run_timers :: "step_env \<Rightarrow> nat \<Rightarrow> 'f agent \<Rightarrow> 'f agent option" where
  "run_timers env duration a =
     (let (c1, c2, a) = timer_ticks env duration a;
          a = (if c1 then close_stt_stream_not_found env a else a)
      in if c2 then force_close_utterance env ''finalize_timeout'' a else Some a)"

text \<open>The ticker that runs while no inbound call does.\<close>

definition c1_wall_tick :: "step_env \<Rightarrow> 'f agent \<Rightarrow> 'f agent" where
  "c1_wall_tick env a =
     (if va_running a \<and> vc_enabled (va_vad a) \<and> stt_pipeline_active a \<and>
         live_flag (\<lambda>r. ut_stream_open r \<and> \<not> ut_partials_emitted r) a
      then (let (c1, a) = c1_tick env (en_pcm_idle env) a
            in if c1 then close_stt_stream_not_found env a else a)
      else a)"

definition c2_wall_due :: "step_env \<Rightarrow> 'f agent \<Rightarrow> bool" where
  "c2_wall_due env a \<longleftrightarrow>
     va_running a \<and> ts_utterance_finalize_deadline_ms a \<noteq> 0 \<and>
     \<not> (ts_defer_utterance_finalize_until_hold a \<or> 0 < ts_stt_gate_hold_ms a) \<and> \<not> ts_vad_speaking a \<and>
     (case ts_utterance_finalize_armed_at a of
        None \<Rightarrow> False
      | Some armed_at \<Rightarrow>
          (let timeout = ms (vc_utterance_finalize_timeout_ms (va_vad a))
           in timeout \<le> saturating_duration_since (en_now env) armed_at \<and> timeout \<le> en_pcm_idle env))"

definition c2_wall_clock_tick :: "step_env \<Rightarrow> 'f agent \<Rightarrow> 'f agent option" where
  "c2_wall_clock_tick env a =
     (let a = c1_wall_tick env a
      in if c2_wall_due env a then force_close_utterance env ''pcm_stall'' a else Some a)"

section \<open>A speech start: which utterance, which audio\<close>

definition long_pause_new_phrase :: "'f agent \<Rightarrow> bool" where
  "long_pause_new_phrase a =
     (if \<not> vc_gate_stt (va_vad a) then True
      else
        (let hold_total = vc_stt_gate_hold_ms (va_vad a);
             hold_elapsed = hold_total - ts_stt_gate_hold_ms a
         in ts_stt_endpoint_closing_started a \<or> (0 < hold_total \<and> hold_total div 2 < hold_elapsed)))"

definition switch_utterance :: "bool \<Rightarrow> 'f agent \<Rightarrow> 'f agent" where
  "switch_utterance long_pause a =
     (if long_pause \<or> us_live a = None \<or> live_flag ut_final_emitted a then start_new_live_record a
      else disarm_utterance_finalize_timer (a\<lparr>ts_stt_gate_hold_ms := 0, ts_stt_finalize_pending := False,
             ts_stt_endpoint_closing_started := False, ts_defer_utterance_finalize_until_hold := False\<rparr>))"

definition burst_separator :: bytes where
  "burst_separator = replicate ((16000 * SHORT_BURST_SEPARATOR_MS div 1000) * 2) 0"

text \<open>The audio to send first on the stream, and the held onset that continues an open one.\<close>

definition flush_pre_roll ::
  "bytes \<Rightarrow> bytes \<Rightarrow> 'f agent \<Rightarrow> (bytes option \<times> bytes option \<times> 'f agent) option" where
  "flush_pre_roll held_onset held_lookback a =
     (let new_stream = (\<not> live_flag ut_stream_open a);
          in_ring = (new_stream \<and> va_stt_pre_roll a \<noteq> None)
      in do {
        a \<leftarrow> (if new_stream \<and> held_lookback \<noteq> [] then with_pre_roll (pre_roll_push held_lookback) a else Some a);
        a \<leftarrow> (if new_stream \<and> held_onset \<noteq> [] then with_pre_roll (pre_roll_push held_onset) a else Some a);
        let held_same = (if held_onset \<noteq> [] \<and> \<not> in_ring then Some held_onset else None);
        let capacity = (case va_stt_pre_roll a of Some p \<Rightarrow> pre_roll_capacity_ms p | None \<Rightarrow> 0);
        let (burst, retainer) = (if new_stream then take_for_new_stream capacity (va_short_burst a) else (None, retainer_new));
        let a = a\<lparr>va_short_burst := retainer\<rparr>;
        Some (case va_stt_pre_roll a of
                None \<Rightarrow> (None, held_same, a)
              | Some p \<Rightarrow>
                  (let (buffered, p) = (if new_stream \<and> burst = None then drain_padded_to_capacity p else pre_roll_drain p);
                       buffered = (case burst of
                           None \<Rightarrow> buffered
                         | Some (head, contiguous) \<Rightarrow> head @ (if contiguous then [] else burst_separator) @ buffered)
                   in (if buffered = [] then None else Some buffered, held_same, a\<lparr>va_stt_pre_roll := Some p\<rparr>)))
      })"

definition send_pre_roll :: "bytes \<Rightarrow> 'f agent \<Rightarrow> 'f agent" where
  "send_pre_roll buffered a =
     push_stt_audio_bytes buffered
       (if va_stt_enabled a \<and> va_stt_hold a = None
        then a\<lparr>va_utterance_replay_buffer := begin_utterance (va_utterance_replay_buffer a),
               va_replay_begun_at_pre_roll := True\<rparr>
        else a)"

definition start_stream_at_speech :: "step_env \<Rightarrow> 'f agent \<Rightarrow> 'f agent option" where
  "start_stream_at_speech env a =
     (let held_onset = va_hold_pending_pcm a;
          held_lookback = va_hold_lookback_pcm a;
          a = a\<lparr>va_hold_pending_pcm := [], va_hold_lookback_pcm := []\<rparr>;
          long_pause = long_pause_new_phrase a
      in do {
        a \<leftarrow> (if long_pause then complete_pending_utterance_if_any env a else Some a);
        let a = switch_utterance long_pause a;
        (buffered, held_same, a) \<leftarrow>
          (if vc_gate_stt (va_vad a) then flush_pre_roll held_onset held_lookback a else Some (None, None, a));
        let a = (case buffered of Some b \<Rightarrow> send_pre_roll b a | None \<Rightarrow> a);
        Some (case held_same of Some h \<Rightarrow> push_stt_audio_frames h a | None \<Rightarrow> a)
      })"

section \<open>VAD transitions\<close>

definition on_transition :: "step_env \<Rightarrow> bool \<Rightarrow> vad_transition \<Rightarrow> 'f agent \<Rightarrow> 'f agent" where
  "on_transition env stt_enabled transition a =
     (case transition of
        SpeechStart \<Rightarrow>
          (let a = (if stt_pipeline_active a then a
                    else (let (rec, a) = new_record a in a\<lparr>us_live := Some rec\<rparr>));
               a = on_vad_speech_start env a;
               (rec, a) = ensure_live a
           in emit_user_speaking_start_if_needed (ut_key rec) a)
      | SpeechEnd \<Rightarrow>
          (let a = maybe_start_lid_at_speech_end env a
           in if \<not> stt_enabled \<or> ts_agent_speaking a \<or> stt_pipeline_active a \<or> vc_gate_stt (va_vad a) then a
              else (case live_key a of
                      None \<Rightarrow> a
                    | Some key \<Rightarrow> emit_user_speaking_end_after_lid_gate env key a)))"

definition latency_on_transition :: "instant \<Rightarrow> vad_transition \<Rightarrow> turn_latency_tracker \<Rightarrow> turn_latency_tracker" where
  "latency_on_transition now transition t =
     (case transition of SpeechStart \<Rightarrow> snd (on_speech_start t) | SpeechEnd \<Rightarrow> on_speech_end now t)"

section \<open>Where the audio of the frame goes\<close>

definition utterance_closing :: "'a turn_state_scheme \<Rightarrow> bool" where
  "utterance_closing s \<longleftrightarrow> ts_stt_finalize_pending s \<and> \<not> live_flag ut_final_emitted s"

record stt_routing =
  rt_audio_open :: bool
  rt_poll_open :: bool
  rt_should_finalize :: bool
  rt_hold_back :: bool
  rt_lookback_copy :: bool

definition route_frame :: "inbound_frame \<Rightarrow> bool \<Rightarrow> bool \<Rightarrow> 'f agent \<Rightarrow> stt_routing" where
  "route_frame f speech_start stt_active a =
     (let gate_stt = vc_gate_stt (va_vad a);
          stream_open = live_flag ut_stream_open a;
          pending_gate = (vc_gate_stt_open_on_pending (va_vad a) \<and> fr_vad_pending f);
          closing = utterance_closing a;
          audio_open = (if \<not> vc_enabled (va_vad a) then True
                        else if gate_stt then stream_open \<and>
                          (fr_vad_speaking f \<or> 0 < ts_stt_gate_hold_ms a \<or> pending_gate \<or> closing)
                        else True);
          hold_back = (gate_stt \<and> stt_active \<and> stream_open \<and> fr_vad_pending f \<and> \<not> fr_vad_speaking f \<and>
            \<not> speech_start \<and> (0 < ts_stt_gate_hold_ms a \<or> closing))
      in \<lparr>rt_audio_open = audio_open,
          rt_poll_open = (\<not> gate_stt \<or> audio_open \<or> closing \<or> stream_open \<or> 0 < ts_utterance_finalize_deadline_ms a),
          rt_should_finalize = (gate_stt \<and> closing \<and> \<not> ts_agent_speaking a \<and>
            \<not> ts_stt_endpoint_closing_started a \<and> ts_stt_gate_hold_ms a = 0 \<and> \<not> fr_vad_speaking f),
          rt_hold_back = hold_back,
          rt_lookback_copy = (gate_stt \<and> stt_active \<and> \<not> hold_back \<and> stream_open \<and> \<not> fr_vad_speaking f \<and>
            \<not> speech_start \<and> (0 < ts_stt_gate_hold_ms a \<or> closing))\<rparr>)"

text \<open>The audio released from the hold-back: all of it (the hold ended), or the oldest excess.\<close>

definition hold_back_frame ::
  "inbound_frame \<Rightarrow> stt_routing \<Rightarrow> 'f agent \<Rightarrow> (bytes option \<times> 'f agent) option" where
  "hold_back_frame f route a =
     (if rt_hold_back route then
        (let b = va_hold_pending_pcm a @ fr_mono f;
             cap_ms = saturating_add_u32 (vc_stt_gate_hold_ms (va_vad a)) (stt_pre_roll_capacity_ms (va_vad a));
             cap = (16000 * cap_ms div 1000) * 2
         in if cap < length b then
              (let n = (length b - cap) div 2 * 2
               in Some (Some (take n b), push_hold_lookback (take n b) (a\<lparr>va_hold_pending_pcm := drop n b\<rparr>)))
            else Some (None, a\<lparr>va_hold_pending_pcm := b\<rparr>))
      else if va_hold_pending_pcm a \<noteq> [] then
        (let held = va_hold_pending_pcm a;
             a = a\<lparr>va_hold_pending_pcm := []\<rparr>
         in if live_flag ut_stream_open a then Some (Some held, push_hold_lookback held a)
            else map_option (Pair None) (with_pre_roll (pre_roll_push held) a))
      else Some (None, a))"

definition copy_lookback :: "inbound_frame \<Rightarrow> stt_routing \<Rightarrow> 'f agent \<Rightarrow> 'f agent" where
  "copy_lookback f route a =
     (if rt_lookback_copy route then push_hold_lookback (fr_mono f) a
      else if \<not> rt_hold_back route then a\<lparr>va_hold_lookback_pcm := []\<rparr> else a)"

definition forward_frame :: "inbound_frame \<Rightarrow> bool \<Rightarrow> stt_routing \<Rightarrow> bool \<Rightarrow> 'f agent \<Rightarrow> 'f agent option" where
  "forward_frame f stt_active route frame_active a =
     (if rt_hold_back route then Some a
      else if \<not> vc_gate_stt (va_vad a) \<or> rt_audio_open route then Some (push_stt_audio_bytes (fr_mono f) a)
      else if stt_active then
        map_option (\<lambda>a. a\<lparr>va_short_burst := retainer_on_frame (fr_mono f)
            (frame_active \<and> fr_vad_pending f \<and> \<not> fr_vad_speaking f) (fr_duration_ms f) (va_short_burst a)\<rparr>)
          (with_pre_roll (push_frame (fr_mono f) (fr_concealed f)) a)
      else Some a)"

definition finalize_utterance_now :: "step_env \<Rightarrow> 'f agent \<Rightarrow> 'f agent option" where
  "finalize_utterance_now env a =
     (case begin_utterance_close env ''end_of_utterance'' True (a\<lparr>ts_stt_endpoint_closing_started := True\<rparr>) of
        (CloseHeld, a) \<Rightarrow> finish_live_inline env True a
      | (_, a) \<Rightarrow> Some a)"

definition feed_frame ::
  "step_env \<Rightarrow> inbound_frame \<Rightarrow> vad_transition list \<Rightarrow> bool \<Rightarrow> bool \<Rightarrow> 'f agent \<Rightarrow> 'f agent option" where
  "feed_frame env f transitions frame_active stt_active a =
     (let route = route_frame f (SpeechStart \<in> set transitions) stt_active a
      in do {
        (released, a) \<leftarrow> hold_back_frame f route a;
        let a = copy_lookback f route a;
        let a = (case released of Some b \<Rightarrow> push_stt_audio_frames b a | None \<Rightarrow> a);
        a \<leftarrow> forward_frame f stt_active route frame_active a;
        if vc_gate_stt (va_vad a) \<and> \<not> rt_poll_open route \<and> \<not> rt_should_finalize route then Some a
        else
          (let a = (if SpeechEnd \<in> set transitions \<and> \<not> ts_agent_speaking a
                    then a\<lparr>ts_barge_awaiting_stt_partial := False\<rparr> else a)
           in if rt_should_finalize route then finalize_utterance_now env a else Some a)
      })"

section \<open>The whole call\<close>

definition process_voiced ::
  "step_env \<Rightarrow> inbound_frame \<Rightarrow> vad_transition list \<Rightarrow> bool \<Rightarrow> 'f agent \<Rightarrow> 'f agent option" where
  "process_voiced env f transitions frame_active a =
     (let a = a\<lparr>ts_vad_speaking := fr_vad_speaking f\<rparr>;
          (complete_previous, a) = gate_hold_step env transitions (fr_duration_ms f) a;
          a = append_lid_pcm_if_buffering env (fr_mono f) frame_active (fr_vad_speaking f) (fr_duration_ms f) a
      in do {
        a \<leftarrow> run_timers env (fr_duration_ms f) a;
        let a = a\<lparr>va_turn_latency := fold (latency_on_transition (en_now env)) transitions (va_turn_latency a)\<rparr>;
        a \<leftarrow> (if complete_previous \<and> stt_pipeline_active a then complete_pending_utterance_if_any env a else Some a);
        let stt_active = stt_pipeline_active a;
        let stt_enabled = va_stt_enabled a;
        a \<leftarrow> (if SpeechStart \<in> set transitions \<and> stt_active then start_stream_at_speech env a else Some a);
        let a = fold (on_transition env stt_enabled) transitions a;
        if \<not> stt_enabled then Some a else feed_frame env f transitions frame_active stt_active a
      })"

text \<open>The call's result: \<open>Err\<close> when the VAD rejects the frame.\<close>

definition process_inbound_pcm ::
  "step_env \<Rightarrow> inbound_frame \<Rightarrow> 'f agent \<Rightarrow> (speech_error option \<times> 'f agent) option" where
  "process_inbound_pcm env f a =
     (if \<not> va_running a then Some (None, a)
      else
        (let a = note_inbound_frame (en_now env) (fr_duration_ms f) a
         in case fr_vad f of
              Inl e \<Rightarrow> Some (Some e, a)
            | Inr (transitions, frame_active) \<Rightarrow>
                map_option (Pair None) (process_voiced env f transitions frame_active a)))"

end
