(* ===== verification/Agent_Hold.thy ===== *)
theory Agent_Hold
  imports Agent_Inbound
begin

text \<open>
  The host's calls on a running agent (\<open>crates/speech/src/agent.rs\<close>): switching the STT on, off or to
  another vendor, the STT hold around a slow swap, replaying the last utterance, playback of a reply,
  stopping.  A call that awaits between its locked parts is one definition per part.
\<close>

section \<open>STT on, off, another vendor\<close>

definition set_stt_enabled :: "bool \<Rightarrow> 'f agent \<Rightarrow> 'f agent" where
  "set_stt_enabled on a =
     (let a = a\<lparr>va_stt_enabled := on\<rparr> in if on then a else reset_stt_pipeline_state a)"

text \<open>\<open>apply_pending_stt_config_if_any\<close>: without an actor the provider is swapped at once.\<close>

definition apply_pending_stt_config :: "'f agent \<Rightarrow> 'f agent" where
  "apply_pending_stt_config a =
     (if \<not> va_actor a then
        (case va_pending_stt_config a of
           None \<Rightarrow> a
         | Some config \<Rightarrow> apply_swap_result config (Inr ()) (a\<lparr>va_pending_stt_config := None\<rparr>))
      else snd (send_pending_swap a))"

definition update_stt_config :: "stt_config \<Rightarrow> 'f agent \<Rightarrow> 'f agent" where
  "update_stt_config config a =
     (let a = a\<lparr>va_pending_stt_config := Some config\<rparr>
      in if \<not> utterance_in_progress a then apply_pending_stt_config a else a)"

section \<open>The host STT hold\<close>

definition begin_stt_hold ::
  "begin_stt_hold_options \<Rightarrow> nat \<Rightarrow> 'f agent \<Rightarrow> (speech_error + unit) \<times> 'f agent" where
  "begin_stt_hold options gen a =
     (if \<not> va_running a then (Inl NotRunning, a)
      else if va_stt_hold a \<noteq> None then (Inl (Internal (utext ''STT hold already active'')), a)
      else
        (let open_utterance = rb_active (va_utterance_replay_buffer a);
             seed = (if open_utterance then snapshot_pcm (va_utterance_replay_buffer a) else None);
             hold = hold_new (bh_mode options) (resolved_hold_max_buffer_ms (bh_max_buffer_ms options)) seed;
             from_live = (if open_utterance \<or> utterance_in_progress a then live_id a else None);
             replaces = (case from_live of
                 Some i \<Rightarrow> Some i
               | None \<Rightarrow> map_option ut_id (find (\<lambda>r. \<not> ut_terminal r \<and> ut_kind r = UttLive) (rev (us_closing a))));
             hold = hold\<lparr>sh_gen_at_begin := (if va_actor a then gen else 0), sh_replaces_utterance_id := replaces\<rparr>;
             a = a\<lparr>va_stt_hold := Some hold, va_held_ignore_logged_key := None,
                   us_live := map_option (\<lambda>r. r\<lparr>ut_last_partial_text := None\<rparr>) (us_live a),
                   va_last_replay_snapshot := None,
                   va_utterance_replay_buffer := invalidate (va_utterance_replay_buffer a)\<rparr>
         in (Inr (), agent_emit (stt_hold_started (hold_mode_as_str (bh_mode options)) (hold_buffered_ms hold)) a)))"

definition release_stt_hold_drop :: "'f agent \<Rightarrow> 'f agent" where
  "release_stt_hold_drop a =
     (case va_stt_hold a of
        None \<Rightarrow> a
      | Some hold \<Rightarrow> agent_emit (stt_hold_ended ''released_drop'' (hold_buffered_ms hold) (hold_dropped_ms hold))
                       (a\<lparr>va_stt_hold := None\<rparr>))"

definition new_replay_record :: "ustring option \<Rightarrow> 'a utt_store_scheme \<Rightarrow> stt_utterance \<times> 'a utt_store_scheme" where
  "new_replay_record replaces s =
     (let (rec, s) = new_record s;
          rec = rec\<lparr>ut_kind := UttReplay replaces, ut_phase := UttClosing, ut_terminal_waiter := Some (ut_key rec)\<rparr>
      in (rec, s\<lparr>us_closing := us_closing s @ [rec]\<rparr>))"

definition stream_or_speech_open :: "'a turn_state_scheme \<Rightarrow> bool" where
  "stream_or_speech_open s \<longleftrightarrow> live_flag ut_stream_open s \<or> ts_vad_speaking s"

text \<open>The buffer is empty: the hold ends, live audio goes to the STT again.\<close>

definition end_hold_for_replay :: "instant \<Rightarrow> nat \<Rightarrow> stt_hold \<Rightarrow> 'f agent \<Rightarrow> 'f agent" where
  "end_hold_for_replay now fed_bytes hold a =
     (let replaces = sh_replaces_utterance_id hold;
          a = a\<lparr>va_stt_hold := None\<rparr>
      in if stream_or_speech_open a then
           a\<lparr>us_live := map_option (\<lambda>r. r\<lparr>ut_replay_ctx :=
               Some \<lparr>rx_replaces_utterance_id = replaces, rx_set_at = now\<rparr>\<rparr>) (us_live a)\<rparr>
         else if 0 < fed_bytes then
           (let (rec, a) = new_replay_record replaces a in agent_send (CEndUtterance (ut_key rec)) a)
         else a)"

text \<open>
  The held audio goes to the actor, then the hold ends.  \<open>alive\<close>: does the actor's channel still take
  commands.  The result carries the bytes fed and the milliseconds dropped.
\<close>

definition release_stt_hold_feed ::
  "instant \<Rightarrow> bool \<Rightarrow> 'f agent \<Rightarrow> (speech_error + nat \<times> nat) \<times> 'f agent" where
  "release_stt_hold_feed now alive a =
     (if \<not> va_actor a \<or> ag_stt (va_config a) = None then (Inl (Stt (utext ''STT not configured'')), a)
      else
        (case va_stt_hold a of
           None \<Rightarrow> (Inl (Internal (utext ''STT hold ended during release'')), a)
         | Some hold \<Rightarrow>
             (let (held, hold) = hold_take_pcm hold; fed = length held
              in if held \<noteq> [] \<and> \<not> alive then
                   (Inl (Stt (utext ''stt actor stopped'')),
                    agent_emit (stt_hold_ended ''failed'' (pcm_bytes_to_ms fed) (hold_dropped_ms hold))
                      (a\<lparr>va_stt_hold := None\<rparr>))
                 else
                   (Inr (fed, hold_dropped_ms hold),
                    end_hold_for_replay now fed hold (fold send_stt_audio (chunks_640 held) a)))))"

text \<open>After the wait for the replay's final.\<close>

definition release_stt_hold_end :: "nat \<Rightarrow> nat \<Rightarrow> 'f agent \<Rightarrow> 'f agent" where
  "release_stt_hold_end fed dropped a =
     agent_emit (stt_hold_ended ''released_replay'' (pcm_bytes_to_ms fed) dropped) a"

definition cancel_stt_hold :: "step_env \<Rightarrow> 'f agent \<Rightarrow> (speech_error + unit) \<times> 'f agent" where
  "cancel_stt_hold env a =
     (case va_stt_hold a of
        None \<Rightarrow> (Inl (Internal (utext ''no STT hold active'')), a)
      | Some hold \<Rightarrow>
          (let (held, hold) = hold_take_pcm hold;
               fed = (if va_actor a then length held else 0);
               a = fold send_stt_audio (chunks_640 held)
                     (a\<lparr>va_pending_stt_config := None, va_stt_hold := None\<rparr>);
               a = (if sh_finalize_seen hold \<and> \<not> stream_or_speech_open a \<and> 0 < fed
                    then snd (begin_utterance_close env ''end_of_utterance'' False a) else a)
           in (Inr (), agent_emit (stt_hold_ended ''cancelled'' (pcm_bytes_to_ms fed) (hold_dropped_ms hold)) a)))"

section \<open>Replaying the last utterance\<close>

definition replay_check :: "instant \<Rightarrow> 'f agent \<Rightarrow> speech_error + replay_snapshot" where
  "replay_check now a =
     (if \<not> va_running a then Inl NotRunning
      else if va_stt_hold a \<noteq> None then
        Inl (Internal (utext ''cannot replay while an STT hold is active (use release_stt_hold)''))
      else if utterance_in_progress a then
        Inl (Internal (utext ''cannot replay while an utterance is in progress''))
      else
        (case va_last_replay_snapshot a of
           None \<Rightarrow> Inl (Internal (utext ''no buffered utterance available for replay''))
         | Some s \<Rightarrow>
             if \<not> replayable_within (resolved_replay_max_age_ms (ag_replay (va_config a))) now s
             then Inl (Internal (utext ''utterance replay unavailable (overflow, empty, or too old)''))
             else if \<not> va_actor a \<or> ag_stt (va_config a) = None then Inl (Stt (utext ''STT not configured''))
             else Inr s))"

definition replay_enqueue :: "replay_snapshot \<Rightarrow> 'f agent \<Rightarrow> 'f agent" where
  "replay_enqueue snapshot a =
     (let (rec, a) = new_replay_record (Some (rs_utterance_id snapshot)) a;
          a = fold send_stt_audio (chunks_640 (rs_pcm snapshot)) a
      in agent_send (CEndUtterance (ut_key rec)) a)"

section \<open>Playback of a reply\<close>

text \<open>
  The host cancels the reply: a barge-in when barge-ins are the host's to raise, else a plain flush.
  The queued jobs before the cut are the ones dropped.
\<close>

definition flush_tts :: "step_env \<Rightarrow> 'f agent \<Rightarrow> 'f agent" where
  "flush_tts env a =
     (let barge_in = vc_barge_in (va_vad a);
          a = (if bi_enabled barge_in \<and> \<not> bi_use_vad barge_in then barge_in_with_speaking_end env barge_in None a
               else (let (was_speaking, a) = end_agent_speaking True (emit_flushed_replies env a)
                     in if was_speaking then agent_emit agent_speaking_end a else a))
      in cancel_pending_tts_synthesis env a)"

text \<open>The first outbound frame of a reply, and the end of the drain.\<close>

definition playback_start :: "instant \<Rightarrow> nat option \<Rightarrow> nat option \<Rightarrow> nat option \<Rightarrow> 'f agent \<Rightarrow> 'f agent" where
  "playback_start now first_audio first_chunk adjusted a =
     (let a = a\<lparr>va_turn_latency := snd (on_first_reply_audio (\<lambda>_. ()) now (va_turn_latency a))\<rparr>;
          a = (if ts_agent_speaking a then a else a\<lparr>ts_playback_epoch := ts_playback_epoch a + 1\<rparr>);
          a = a\<lparr>ts_agent_speaking := True, ts_agent_speaking_since := Some now, ts_stt_barge_fired := False,
                ts_barge_awaiting_stt_partial := False,
                va_stt_pre_roll := map_option pre_roll_clear (va_stt_pre_roll a),
                va_short_burst := retainer_new, va_hold_pending_pcm := [], va_hold_lookback_pcm := []\<rparr>
      in agent_emit (agent_speaking_start_with_timing first_audio first_chunk adjusted) a)"

definition playback_flushed :: "'f agent \<Rightarrow> 'f agent" where
  "playback_flushed a =
     (let (ended, a) = end_agent_speaking False a in if ended then agent_emit agent_speaking_end a else a)"

definition playback_drained :: "step_env \<Rightarrow> 'f agent \<Rightarrow> 'f agent" where
  "playback_drained env a =
     (let (ended, a) = end_agent_speaking True a;
          a = (if ended then agent_emit agent_speaking_end a else a)
      in maybe_spawn_deferred_lid_after_tts env a)"

text \<open>\<open>stop\<close>: deferred identifies start, utterances still waiting for a final get no terminal event.\<close>

definition stop_agent :: "step_env \<Rightarrow> 'f agent \<Rightarrow> (speech_error + unit) \<times> 'f agent" where
  "stop_agent env a =
     (if \<not> va_running a then (Inl NotRunning, a)
      else
        (let a = a\<lparr>va_running := False, va_stt_hold := None\<rparr>;
             a = cancel_pending_tts_synthesis env (emit_flushed_replies env a);
             a = fold (\<lambda>key a. snd (spawn_identify_language env key True a)) (deferred_lid_keys a) a;
             a = agent_send (CStop 0) a
         in (Inr (), a\<lparr>va_actor := False, us_closing := []\<rparr>)))"

end
