(* ===== verification/Agent_Ledger.thy ===== *)
theory Agent_Ledger
  imports Agent_Hold
begin

text \<open>
  What holds of the records and the event log of an agent whatever happens: keys and ids are unique,
  a record's phase is that of the place it is in, and the events that are emitted_of once per utterance
  are.  The primitive changes of the state preserve this (the first part); every operation is made of
  them (the second).
\<close>

section \<open>Utterance ids\<close>

lemma decimal_value: "foldl (\<lambda>acc d. acc * 10 + (d - 48)) 0 (decimal n) = n"
proof (induction n rule: decimal.induct)
  case (1 n)
  then show ?case by (subst decimal.simps) simp
qed

lemma utterance_id_inj [simp]: "utterance_id m = utterance_id n \<longleftrightarrow> m = n"
  by (metis decimal_value same_append_eq utterance_id_def)

section \<open>All records\<close>

definition all_records :: "'a utt_store_scheme \<Rightarrow> stt_utterance list" where
  "all_records s = (case us_live s of Some r \<Rightarrow> [r] | None \<Rightarrow> []) @ us_closing s @ us_lid_retained s"

lemma update_first_append:
  "update_first P f (xs @ ys) = (if list_ex P xs then update_first P f xs @ ys else xs @ update_first P f ys)"
  by (induction xs) auto

lemma find_key_some: "list_ex (\<lambda>r. ut_key r = key) rs \<longleftrightarrow> find_key key rs \<noteq> None"
  by (induction rs) (auto simp: find_key_def)

lemma find_key_append: "find_key key (xs @ ys) = (case find_key key xs of Some r \<Rightarrow> Some r | None \<Rightarrow> find_key key ys)"
  by (induction xs) (auto simp: find_key_def)

lemma find_key_simps [simp]:
  "find_key key [] = None" "find_key key (r # rs) = (if ut_key r = key then Some r else find_key key rs)"
  by (simp_all add: find_key_def)

lemma find_key_in: "find_key key rs = Some r \<Longrightarrow> r \<in> set rs \<and> ut_key r = key"
  by (induction rs) (auto split: if_splits)

lemma record_ref_find: "record_ref key s = find_key key (all_records s)"
  by (auto simp: record_ref_def all_records_def live_with_key_def find_key_append split: option.split)

lemma all_records_mut: "all_records (record_mut key f s) = update_first (\<lambda>r. ut_key r = key) f (all_records s)"
  by (auto simp: record_mut_def all_records_def live_with_key_def update_first_append find_key_some
      split: option.split)

lemma update_first_map:
  "distinct (map ut_key rs) \<Longrightarrow>
   update_first (\<lambda>r. ut_key r = key) f rs = map (\<lambda>r. if ut_key r = key then f r else r) rs"
proof (induction rs)
  case (Cons r rs)
  moreover have "map (\<lambda>r. if ut_key r = key then f r else r) rs = rs" if "key \<notin> ut_key ` set rs"
    using that by (intro map_idI) auto
  ultimately show ?case by auto
qed simp

section \<open>The invariant\<close>

definition store_ok :: "'a utt_store_scheme \<Rightarrow> bool" where
  "store_ok s \<longleftrightarrow>
     distinct (map ut_key (all_records s)) \<and> distinct (map ut_id (all_records s)) \<and>
     (\<forall>r \<in> set (all_records s). ut_key r < us_next_key s \<and> (\<exists>n < us_id_seq s. ut_id r = utterance_id n))"

definition phases_ok :: "'a utt_store_scheme \<Rightarrow> bool" where
  "phases_ok s \<longleftrightarrow>
     (\<forall>r. us_live s = Some r \<longrightarrow> ut_phase r = UttOpen \<and> ut_kind r = UttLive) \<and>
     (\<forall>r \<in> set (us_closing s). ut_phase r = UttClosing)"

text \<open>Events of the kinds \<open>K\<close> about the utterance \<open>i\<close>; an event may still come while it is owed.\<close>

definition emitted_of :: "(speech_event_kind \<Rightarrow> bool) \<Rightarrow> ustring \<Rightarrow> speech_event list \<Rightarrow> nat" where
  "emitted_of K i evs = length (filter (\<lambda>e. K (se_kind e) \<and> se_utterance_id e = Some i) evs)"

definition owed :: "(stt_utterance \<Rightarrow> bool) \<Rightarrow> ustring \<Rightarrow> 'a utt_store_scheme \<Rightarrow> bool" where
  "owed F i s \<longleftrightarrow>
     (\<exists>r \<in> set (all_records s). ut_id r = i \<and> \<not> F r) \<or> (\<exists>n \<ge> us_id_seq s. i = utterance_id n)"

definition once :: "(speech_event_kind \<Rightarrow> bool) \<Rightarrow> (stt_utterance \<Rightarrow> bool) \<Rightarrow> 'f agent \<Rightarrow> bool" where
  "once K F a \<longleftrightarrow> (\<forall>i. emitted_of K i (va_events a) + of_bool (owed F i a) \<le> 1)"

definition start_kind :: "speech_event_kind \<Rightarrow> bool" where "start_kind k \<longleftrightarrow> k = KUserSpeakingStart"
definition skip_kind :: "speech_event_kind \<Rightarrow> bool" where "skip_kind k \<longleftrightarrow> k = KLanguageIdSkipped"
definition term_kind :: "speech_event_kind \<Rightarrow> bool" where
  "term_kind k \<longleftrightarrow> k = KUserSpeechFinal \<or> k = KUserSttNotFound"
definition counted_kind :: "speech_event_kind \<Rightarrow> bool" where
  "counted_kind k \<longleftrightarrow> start_kind k \<or> skip_kind k \<or> term_kind k"

lemmas kind_defs = start_kind_def skip_kind_def term_kind_def counted_kind_def

abbreviation skip_flag :: "stt_utterance \<Rightarrow> bool" where "skip_flag \<equiv> \<lambda>r. ul_skip_emitted (ut_lid r)"

text \<open>
  What ties the flags to the terminal event, in a run where C1 never cuts an utterance the VAD still
  hears and no unattributed transcript meets an utterance that already ended (\<open>strict\<close>).
\<close>

definition partial_text :: "stt_utterance \<Rightarrow> ustring" where
  "partial_text r = (case ut_last_partial_text r of Some t \<Rightarrow> t | None \<Rightarrow> [])"

definition record_settled :: "stt_utterance \<Rightarrow> bool" where
  "record_settled r \<longleftrightarrow>
     (ut_terminal r \<and> \<not> ut_final_emitted r \<longrightarrow>
        ut_not_found_emitted r \<and> \<not> (ut_partials_emitted r \<and> trim (partial_text r) \<noteq> []))"

definition live_settled :: "stt_utterance \<Rightarrow> bool" where
  "live_settled r \<longleftrightarrow> (ut_user_stt_session_open r \<longrightarrow> \<not> ut_terminal r) \<and> (ut_terminal r \<longrightarrow> ut_final_emitted r)"

text \<open>
  While a close is under way the live record may be untidy; at a speech start it has no final yet.
\<close>

datatype tidiness = Untidy | Tidy | TidyOpen

definition live_ok :: "tidiness \<Rightarrow> stt_utterance \<Rightarrow> bool" where
  "live_ok c r \<longleftrightarrow> (c \<noteq> Untidy \<longrightarrow> live_settled r) \<and> (c = TidyOpen \<longrightarrow> \<not> ut_final_emitted r)"

lemmas settled_flags = live_ok_def live_settled_def record_settled_def

definition store_settled :: "tidiness \<Rightarrow> 'a utt_store_scheme \<Rightarrow> bool" where
  "store_settled c s \<longleftrightarrow> (\<forall>r. us_live s = Some r \<longrightarrow> live_ok c r \<and> record_settled r) \<and>
     (\<forall>r \<in> set (us_closing s). record_settled r)"

text \<open>
  An operation may rely on what it read of the record it is about: not terminal yet, and with \<open>b\<close> also
  flagged final and its session closed (\<open>Some (key, b)\<close>).
\<close>

definition focused :: "(nat \<times> bool) option \<Rightarrow> 'a utt_store_scheme \<Rightarrow> bool" where
  "focused foc s \<longleftrightarrow> (case foc of None \<Rightarrow> True | Some (k, b) \<Rightarrow> k < us_next_key s \<and>
     (\<forall>r \<in> set (all_records s). ut_key r = k \<longrightarrow> \<not> ut_terminal r \<and>
        (b \<longrightarrow> \<not> ut_user_stt_session_open r \<and> ut_final_emitted r)))"

type_synonym mode = "tidiness \<times> (nat \<times> bool) option"

definition agent_inv :: "bool \<Rightarrow> mode \<Rightarrow> 'f agent \<Rightarrow> bool" where
  "agent_inv strict mode a \<longleftrightarrow> store_ok a \<and> phases_ok a \<and> once start_kind ut_speaking_start_emitted a \<and>
     once skip_kind skip_flag a \<and> (strict \<longrightarrow> once term_kind ut_terminal a \<and> store_settled (fst mode) a \<and> focused (snd mode) a)"

section \<open>Primitive changes\<close>

text \<open>Fields the invariant does not read.\<close>

lemma emitted_append [simp]: "emitted_of K i (xs @ ys) = emitted_of K i xs + emitted_of K i ys"
  by (simp add: emitted_of_def)

lemma emitted_simps [simp]:
  "emitted_of K i [] = 0"
  "emitted_of K i (e # es) = (if K (se_kind e) \<and> se_utterance_id e = Some i then 1 else 0) + emitted_of K i es"
  by (simp_all add: emitted_of_def)

lemma agent_emit_sel [simp]:
  "va_events (agent_emit e a) = va_events a @ [e]"
  "us_live (agent_emit e a) = us_live a" "us_closing (agent_emit e a) = us_closing a"
  "us_lid_retained (agent_emit e a) = us_lid_retained a" "us_next_key (agent_emit e a) = us_next_key a"
  "us_id_seq (agent_emit e a) = us_id_seq a" "all_records (agent_emit e a) = all_records a"
  "record_ref k (agent_emit e a) = record_ref k a"
  by (simp_all add: agent_emit_def all_records_def record_ref_find)

lemma record_mut_sel [simp]:
  "us_next_key (record_mut k f a) = us_next_key a" "us_id_seq (record_mut k f a) = us_id_seq a"
  "va_events (record_mut k f b) = va_events b"
  by (auto simp: record_mut_def split: option.split)

definition same_ledger :: "'f agent \<Rightarrow> 'f agent \<Rightarrow> bool" where
  "same_ledger a b \<longleftrightarrow> us_live a = us_live b \<and> us_closing a = us_closing b \<and>
     us_lid_retained a = us_lid_retained b \<and> us_next_key a = us_next_key b \<and> us_id_seq a = us_id_seq b \<and>
     va_events a = va_events b"

lemma same_core_updates [simp]:
  "same_ledger (a\<lparr>ts_stt_gate_hold_ms := x0\<rparr>) a"
  "same_ledger (a\<lparr>ts_gate_hold_expired_key := x1\<rparr>) a"
  "same_ledger (a\<lparr>ts_stt_finalize_pending := x2\<rparr>) a"
  "same_ledger (a\<lparr>ts_stt_endpoint_closing_started := x3\<rparr>) a"
  "same_ledger (a\<lparr>ts_agent_speaking := x4\<rparr>) a"
  "same_ledger (a\<lparr>ts_agent_speaking_since := x5\<rparr>) a"
  "same_ledger (a\<lparr>ts_stt_listen_deadline_ms := x6\<rparr>) a"
  "same_ledger (a\<lparr>ts_stt_listen_started_at := x7\<rparr>) a"
  "same_ledger (a\<lparr>ts_stt_listen_media_ms := x8\<rparr>) a"
  "same_ledger (a\<lparr>ts_c1_backlog_deferred_logged := x9\<rparr>) a"
  "same_ledger (a\<lparr>ts_stt_open_wait_started_at := x10\<rparr>) a"
  "same_ledger (a\<lparr>ts_utterance_finalize_deadline_ms := x11\<rparr>) a"
  "same_ledger (a\<lparr>ts_utterance_finalize_armed_at := x12\<rparr>) a"
  "same_ledger (a\<lparr>ts_last_inbound_pcm_at := x13\<rparr>) a"
  "same_ledger (a\<lparr>ts_utterance_media_ms := x14\<rparr>) a"
  "same_ledger (a\<lparr>ts_defer_utterance_finalize_until_hold := x15\<rparr>) a"
  "same_ledger (a\<lparr>ts_playback_epoch := x16\<rparr>) a"
  "same_ledger (a\<lparr>ts_barge_awaiting_stt_partial := x17\<rparr>) a"
  "same_ledger (a\<lparr>ts_stt_barge_fired := x18\<rparr>) a"
  "same_ledger (a\<lparr>ts_vad_speaking := x19\<rparr>) a"
  "same_ledger (a\<lparr>va_config := x20\<rparr>) a"
  "same_ledger (a\<lparr>va_running := x21\<rparr>) a"
  "same_ledger (a\<lparr>va_actor := x22\<rparr>) a"
  "same_ledger (a\<lparr>va_stt_enabled := x23\<rparr>) a"
  "same_ledger (a\<lparr>va_stt_pre_roll := x24\<rparr>) a"
  "same_ledger (a\<lparr>va_short_burst := x25\<rparr>) a"
  "same_ledger (a\<lparr>va_hold_pending_pcm := x26\<rparr>) a"
  "same_ledger (a\<lparr>va_hold_lookback_pcm := x27\<rparr>) a"
  "same_ledger (a\<lparr>va_turn_latency := x28\<rparr>) a"
  "same_ledger (a\<lparr>va_lid_last_emitted := x29\<rparr>) a"
  "same_ledger (a\<lparr>va_language_id := x30\<rparr>) a"
  "same_ledger (a\<lparr>va_lid_jobs := x31\<rparr>) a"
  "same_ledger (a\<lparr>va_pending_stt_config := x32\<rparr>) a"
  "same_ledger (a\<lparr>va_utterance_replay_buffer := x33\<rparr>) a"
  "same_ledger (a\<lparr>va_last_replay_snapshot := x34\<rparr>) a"
  "same_ledger (a\<lparr>va_stt_hold := x35\<rparr>) a"
  "same_ledger (a\<lparr>va_replay_begun_at_pre_roll := x36\<rparr>) a"
  "same_ledger (a\<lparr>va_held_ignore_logged_key := x37\<rparr>) a"
  "same_ledger (a\<lparr>va_session_context := x38\<rparr>) a"
  "same_ledger (a\<lparr>va_sent := x39\<rparr>) a"
  "same_ledger (a\<lparr>va_answers := x40\<rparr>) a"
  by (simp_all add: same_ledger_def)

lemma all_records_cong:
  "us_live a = us_live b \<Longrightarrow> us_closing a = us_closing b \<Longrightarrow> us_lid_retained a = us_lid_retained b \<Longrightarrow>
   all_records a = all_records b"
  by (simp add: all_records_def)

lemma focused_cong:
  "all_records a = all_records b \<Longrightarrow> us_next_key a = us_next_key b \<Longrightarrow> focused foc a = focused foc b"
  by (cases foc) (auto simp: focused_def)

lemma same_core_cong:
  assumes "same_ledger a b"
  shows "all_records a = all_records b" "store_ok a = store_ok b" "phases_ok a = phases_ok b"
    "owed F i a = owed F i b" "once K F a = once K F b" "agent_inv strict t a = agent_inv strict t b" "record_ref k a = record_ref k b"
proof -
  show r: "all_records a = all_records b" using assms by (intro all_records_cong) (simp_all add: same_ledger_def)
  show s: "store_ok a = store_ok b" and p: "phases_ok a = phases_ok b"
    using assms r by (simp_all add: store_ok_def phases_ok_def same_ledger_def)
  show "record_ref k a = record_ref k b" by (simp add: record_ref_find r)
  have o: "owed F i a = owed F i b" for F i using assms r by (simp add: owed_def same_ledger_def)
  have n: "once K F a = once K F b" for K F using assms o by (simp add: once_def same_ledger_def)
  have "store_settled (fst t) a = store_settled (fst t) b" "focused (snd t) a = focused (snd t) b"
    using assms r by (simp add: store_settled_def same_ledger_def, intro focused_cong) (simp_all add: same_ledger_def)
  then show "owed F i a = owed F i b" "once K F a = once K F b" "agent_inv strict t a = agent_inv strict t b"
    by (simp_all add: o n agent_inv_def s p)
qed

lemma inv_core: "same_ledger a b \<Longrightarrow> agent_inv s t b \<Longrightarrow> agent_inv s t a"
  by (simp add: same_core_cong)

text \<open>A change that keeps every record's identity, phase and flags.\<close>

definition quiet_change :: "(stt_utterance \<Rightarrow> stt_utterance) \<Rightarrow> bool" where
  "quiet_change f \<longleftrightarrow> (\<forall>r. ut_key (f r) = ut_key r \<and> ut_id (f r) = ut_id r \<and> ut_phase (f r) = ut_phase r \<and>
     ut_kind (f r) = ut_kind r \<and> ut_user_stt_session_open (f r) = ut_user_stt_session_open r \<and>
     ut_final_emitted (f r) = ut_final_emitted r \<and> ut_not_found_emitted (f r) = ut_not_found_emitted r \<and>
     ut_terminal (f r) = ut_terminal r \<and> ut_partials_emitted (f r) = ut_partials_emitted r \<and>
     (ut_last_partial_text (f r) = ut_last_partial_text r \<or> ut_last_partial_text (f r) = None) \<and>
     (ut_speaking_start_emitted r \<longrightarrow> ut_speaking_start_emitted (f r)) \<and> (skip_flag r \<longrightarrow> skip_flag (f r)))"

lemma map_update_first:
  "(\<And>r. g (f r) = g r) \<Longrightarrow> map g (update_first P f rs) = map g rs"
  by (induction rs) auto

lemma update_first_mem:
  "r' \<in> set (update_first P f rs) \<Longrightarrow> r' \<in> set rs \<or> (\<exists>r \<in> set rs. r' = f r)"
  by (induction rs) (auto split: if_splits)

lemma store_ok_mono:
  assumes "store_ok a"
    and "mset (map (\<lambda>r. (ut_key r, ut_id r)) (all_records b)) \<subseteq># mset (map (\<lambda>r. (ut_key r, ut_id r)) (all_records a))"
    and "us_next_key a \<le> us_next_key b" "us_id_seq a \<le> us_id_seq b"
  shows "store_ok b"
proof -
  let ?p = "\<lambda>r. (ut_key r, ut_id r)"
  have k: "mset (map ut_key (all_records b)) \<subseteq># mset (map ut_key (all_records a))"
    using image_mset_subseteq_mono [OF assms(2), of fst] by (simp add: image_mset.compositionality comp_def)
  have i: "mset (map ut_id (all_records b)) \<subseteq># mset (map ut_id (all_records a))"
    using image_mset_subseteq_mono [OF assms(2), of snd] by (simp add: image_mset.compositionality comp_def)
  have d: "distinct xs" if "mset xs \<subseteq># mset ys" "distinct ys" for xs ys :: "'z list"
    using that by (metis distinct_append ex_mset mset_append mset_eq_imp_distinct_iff subset_mset.add_diff_inverse)
  have "\<exists>r \<in> set (all_records a). ?p r = ?p r'" if "r' \<in> set (all_records b)" for r'
  proof -
    have "?p r' \<in># mset (map ?p (all_records b))" using that by auto
    with assms(2) have "?p r' \<in># mset (map ?p (all_records a))" by (meson mset_subset_eqD)
    then show ?thesis by auto
  qed
  then have "ut_key r' < us_next_key b \<and> (\<exists>n < us_id_seq b. ut_id r' = utterance_id n)"
    if "r' \<in> set (all_records b)" for r'
    using that assms(1,3,4) unfolding store_ok_def by (smt (verit) order_less_le_trans prod.inject)
  with d [OF k] d [OF i] assms(1) show ?thesis by (simp add: store_ok_def)
qed

lemma owed_mono:
  assumes "owed F i b"
    and "\<And>r'. r' \<in> set (all_records b) \<Longrightarrow> \<not> F r' \<Longrightarrow> \<exists>r \<in> set (all_records a). ut_id r = ut_id r' \<and> \<not> F r"
    and "us_id_seq a \<le> us_id_seq b"
  shows "owed F i a"
proof -
  from assms(1) consider r' where "r' \<in> set (all_records b)" "ut_id r' = i" "\<not> F r'"
    | n where "us_id_seq b \<le> n" "i = utterance_id n"
    unfolding owed_def by blast
  then show ?thesis
  proof cases
    case 1
    with assms(2) [OF 1(1,3)] show ?thesis unfolding owed_def by metis
  next
    case 2
    with assms(3) have "us_id_seq a \<le> n" by linarith
    with 2 show ?thesis unfolding owed_def by blast
  qed
qed

lemma once_mono:
  assumes "once K F a" "va_events b = va_events a"
    and "\<And>r'. r' \<in> set (all_records b) \<Longrightarrow> \<not> F r' \<Longrightarrow> \<exists>r \<in> set (all_records a). ut_id r = ut_id r' \<and> \<not> F r"
    and "us_id_seq a \<le> us_id_seq b"
  shows "once K F b"
proof -
  have "emitted_of K i (va_events b) + of_bool (owed F i b) \<le> 1" for i
  proof -
    have "owed F i b \<Longrightarrow> owed F i a" using owed_mono [OF _ assms(3,4)] by blast
    moreover have "emitted_of K i (va_events a) + of_bool (owed F i a) \<le> 1"
      using assms(1) by (simp add: once_def)
    ultimately show ?thesis by (cases "owed F i b") (simp_all add: assms(2))
  qed
  then show ?thesis by (simp add: once_def)
qed

lemma once_mut:
  assumes "once K F a" "\<And>r. ut_id (f r) = ut_id r" "\<And>r. F r \<Longrightarrow> F (f r)"
  shows "once K F (record_mut key f a)"
proof (rule once_mono [OF assms(1)])
  fix r' assume r': "r' \<in> set (all_records (record_mut key f a))" and nf: "\<not> F r'"
  from r' have "r' \<in> set (all_records a) \<or> (\<exists>r \<in> set (all_records a). r' = f r)"
    unfolding all_records_mut by (rule update_first_mem)
  then show "\<exists>r \<in> set (all_records a). ut_id r = ut_id r' \<and> \<not> F r"
    using assms(2,3) nf by metis
qed simp_all

lemma phases_mut:
  "phases_ok s \<Longrightarrow> (\<And>r. ut_phase (f r) = ut_phase r \<and> ut_kind (f r) = ut_kind r) \<Longrightarrow> phases_ok (record_mut key f s)"
  by (auto simp: phases_ok_def record_mut_def live_with_key_def split: option.splits if_splits
      dest!: update_first_mem)

lemma store_ok_mut:
  "store_ok s \<Longrightarrow> (\<And>r. ut_key (f r) = ut_key r \<and> ut_id (f r) = ut_id r) \<Longrightarrow> store_ok (record_mut key f s)"
proof (rule store_ok_mono)
  assume f: "\<And>r. ut_key (f r) = ut_key r \<and> ut_id (f r) = ut_id r"
  have "map (\<lambda>r. (ut_key r, ut_id r)) (all_records (record_mut key f s)) = map (\<lambda>r. (ut_key r, ut_id r)) (all_records s)"
    unfolding all_records_mut by (rule map_update_first) (simp add: f)
  then show "mset (map (\<lambda>r. (ut_key r, ut_id r)) (all_records (record_mut key f s))) \<subseteq># mset (map (\<lambda>r. (ut_key r, ut_id r)) (all_records s))"
    by simp
qed simp_all

lemma settled_mut:
  assumes "store_settled t s" "\<And>r. live_ok t r \<Longrightarrow> record_settled r \<Longrightarrow> live_ok t (f r) \<and> record_settled (f r)"
    "\<And>r. record_settled r \<Longrightarrow> record_settled (f r)"
  shows "store_settled t (record_mut key f s)"
  using assms by (auto simp: store_settled_def record_mut_def live_with_key_def split: option.splits if_splits
      dest!: update_first_mem)

text \<open>A focus is kept when records only disappear or keep what it reads of them.\<close>

lemma focused_mono:
  assumes "focused foc a" "us_next_key a \<le> us_next_key b"
    and "\<And>r'. r' \<in> set (all_records b) \<Longrightarrow> \<exists>r \<in> set (all_records a). ut_key r = ut_key r' \<and>
           (ut_terminal r' \<longrightarrow> ut_terminal r) \<and> (ut_user_stt_session_open r' \<longrightarrow> ut_user_stt_session_open r) \<and>
           (ut_final_emitted r \<longrightarrow> ut_final_emitted r')"
  shows "focused foc b"
proof (cases foc)
  case (Some kb)
  obtain k c where kb: "kb = (k, c)" by fastforce
  have "\<not> ut_terminal r' \<and> (c \<longrightarrow> \<not> ut_user_stt_session_open r' \<and> ut_final_emitted r')"
    if "r' \<in> set (all_records b)" "ut_key r' = k" for r'
    using assms(1) assms(3) [OF that(1)] that(2) unfolding focused_def Some kb by auto
  with assms(1,2) show ?thesis by (simp add: focused_def Some kb)
qed (simp add: focused_def)

lemma focused_subset:
  "focused foc a \<Longrightarrow> set (all_records b) \<subseteq> set (all_records a) \<Longrightarrow> us_next_key a \<le> us_next_key b \<Longrightarrow> focused foc b"
  by (erule focused_mono) blast+

lemma focused_mut:
  assumes "focused foc a"
    and f: "\<And>r. ut_key (f r) = ut_key r \<and> ut_terminal (f r) = ut_terminal r \<and>
      (ut_user_stt_session_open (f r) \<longrightarrow> ut_user_stt_session_open r) \<and> (ut_final_emitted r \<longrightarrow> ut_final_emitted (f r))"
  shows "focused foc (record_mut key f a)"
proof (rule focused_mono [OF assms(1)])
  fix r' assume "r' \<in> set (all_records (record_mut key f a))"
  then have "r' \<in> set (all_records a) \<or> (\<exists>r \<in> set (all_records a). r' = f r)"
    unfolding all_records_mut by (rule update_first_mem)
  with f show "\<exists>r \<in> set (all_records a). ut_key r = ut_key r' \<and> (ut_terminal r' \<longrightarrow> ut_terminal r) \<and>
      (ut_user_stt_session_open r' \<longrightarrow> ut_user_stt_session_open r) \<and> (ut_final_emitted r \<longrightarrow> ut_final_emitted r')"
    by metis
qed (simp add: record_mut_def split: option.split)

lemma focused_None [simp]: "focused None a"
  by (simp add: focused_def)

definition quiet_to :: "stt_utterance \<Rightarrow> stt_utterance \<Rightarrow> bool" where
  "quiet_to r r' \<longleftrightarrow> ut_key r' = ut_key r \<and> ut_id r' = ut_id r \<and> ut_phase r' = ut_phase r \<and>
     ut_kind r' = ut_kind r \<and> ut_user_stt_session_open r' = ut_user_stt_session_open r \<and>
     ut_final_emitted r' = ut_final_emitted r \<and> ut_not_found_emitted r' = ut_not_found_emitted r \<and>
     ut_terminal r' = ut_terminal r \<and> ut_partials_emitted r' = ut_partials_emitted r \<and>
     (ut_last_partial_text r' = ut_last_partial_text r \<or> ut_last_partial_text r' = None) \<and>
     (ut_speaking_start_emitted r \<longrightarrow> ut_speaking_start_emitted r') \<and> (skip_flag r \<longrightarrow> skip_flag r')"

lemma quiet_change_iff: "quiet_change f \<longleftrightarrow> (\<forall>r. quiet_to r (f r))"
  by (simp add: quiet_change_def quiet_to_def)

lemma quiet_settled:
  assumes "quiet_to r r'"
  shows "live_ok c r \<Longrightarrow> live_ok c r'" "record_settled r \<Longrightarrow> record_settled r'"
proof -
  have "partial_text r' = partial_text r \<or> partial_text r' = []"
    using assms by (auto simp: quiet_to_def partial_text_def)
  with assms show "live_ok c r \<Longrightarrow> live_ok c r'" "record_settled r \<Longrightarrow> record_settled r'"
    unfolding quiet_to_def settled_flags by auto
qed

lemma inv_mut:
  assumes "quiet_change f" "agent_inv s t a"
  shows "agent_inv s t (record_mut key f a)"
proof -
  have q: "quiet_to r (f r)" for r using assms(1) by (simp add: quiet_change_iff)
  note d = q [unfolded quiet_to_def]
  have "store_settled (fst t) (record_mut key f a)" if "store_settled (fst t) a"
    by (rule settled_mut [OF that]) (use quiet_settled [OF q] in blast)+
  moreover have "focused (snd t) (record_mut key f a)" if "focused (snd t) a"
    by (rule focused_mut [OF that]) (use d in blast)
  moreover have "once term_kind ut_terminal (record_mut key f a)" if "once term_kind ut_terminal a"
    by (rule once_mut [OF that]) (use d in blast)+
  moreover have "store_ok (record_mut key f a)" "phases_ok (record_mut key f a)"
    "once start_kind ut_speaking_start_emitted (record_mut key f a)" "once skip_kind skip_flag (record_mut key f a)"
    using assms(2) d unfolding agent_inv_def by (auto intro!: store_ok_mut phases_mut once_mut)
  ultimately show ?thesis using assms(2) by (simp add: agent_inv_def)
qed

lemma once_emit: "once K F a \<Longrightarrow> \<not> K (se_kind e) \<Longrightarrow> once K F (agent_emit e a)"
  by (simp add: once_def owed_def)

lemma emit_store [simp]:
  "store_ok (agent_emit e a) = store_ok a" "phases_ok (agent_emit e a) = phases_ok a"
  "store_settled tidy (agent_emit e a) = store_settled tidy a" "owed F i (agent_emit e a) = owed F i a"
  by (simp_all add: store_ok_def phases_ok_def store_settled_def owed_def)

lemma emit_focused [simp]: "focused foc (agent_emit e a) = focused foc a"
  by (rule focused_cong) simp_all

lemma inv_emit: "\<not> counted_kind (se_kind e) \<Longrightarrow> agent_inv s t a \<Longrightarrow> agent_inv s t (agent_emit e a)"
  by (simp add: agent_inv_def counted_kind_def once_emit)

text \<open>The event itself: the record owed it, and no longer does.\<close>

lemma find_key_all: "distinct (map ut_key rs) \<Longrightarrow> r \<in> set rs \<Longrightarrow> find_key (ut_key r) rs = Some r"
  by (induction rs) auto

lemma distinct_id: "store_ok s \<Longrightarrow> r \<in> set (all_records s) \<Longrightarrow> r' \<in> set (all_records s) \<Longrightarrow> ut_id r = ut_id r' \<Longrightarrow> r = r'"
  unfolding store_ok_def distinct_map inj_on_def by blast

lemma once_emit_record:
  assumes ok: "store_ok a" and o: "once K F a" and rec: "record_ref key a = Some rec" "\<not> F rec"
    and f: "\<And>r. ut_key (f r) = ut_key r" "\<And>r. ut_id (f r) = ut_id r" "\<And>r. F (f r)"
    and e: "se_utterance_id e = Some (ut_id rec)"
  shows "once K F (agent_emit e (record_mut key f a))"
proof -
  have mem: "rec \<in> set (all_records a)" "ut_key rec = key"
    using rec(1) find_key_in unfolding record_ref_find by blast+
  have m: "once K F (record_mut key f a)" using once_mut [OF o f(2)] f(3) by blast
  have all: "all_records (record_mut key f a) = map (\<lambda>r. if ut_key r = key then f r else r) (all_records a)"
    using ok by (simp add: all_records_mut update_first_map store_ok_def)
  have gone: "\<not> owed F (ut_id rec) (record_mut key f a)"
  proof
    assume "owed F (ut_id rec) (record_mut key f a)"
    moreover have False if "us_id_seq (record_mut key f a) \<le> n" "ut_id rec = utterance_id n" for n
      using that ok mem by (auto simp: store_ok_def)
    moreover have False if "r' \<in> set (all_records (record_mut key f a))" "ut_id r' = ut_id rec" "\<not> F r'" for r'
    proof -
      from that(1) obtain r where r: "r \<in> set (all_records a)" "r' = (if ut_key r = key then f r else r)"
        unfolding all by auto
      with that(3) f(3) have "ut_key r \<noteq> key" "r' = r" by (auto split: if_splits)
      with r that(2) distinct_id [OF ok r(1) mem(1)] mem(2) show False by simp
    qed
    ultimately show False unfolding owed_def by blast
  qed
  have here: "owed F (ut_id rec) a" unfolding owed_def using mem rec(2) by blast
  have "emitted_of K i (va_events (agent_emit e (record_mut key f a))) + of_bool (owed F i (agent_emit e (record_mut key f a))) \<le> 1" for i
  proof (cases "i = ut_id rec")
    case True
    moreover have "emitted_of K (ut_id rec) (va_events a) = 0"
      using o here by (auto simp: once_def dest: spec [of _ "ut_id rec"])
    ultimately show ?thesis using gone by (simp add: owed_def)
  next
    case False
    with m e show ?thesis by (auto simp: once_def owed_def)
  qed
  then show ?thesis by (simp add: once_def)
qed


text \<open>Records added, moved and dropped.\<close>

lemma inv_mono:
  assumes "agent_inv s t a" "phases_ok b" "va_events b = va_events a"
    and "mset (map (\<lambda>r. (ut_key r, ut_id r)) (all_records b)) \<subseteq># mset (map (\<lambda>r. (ut_key r, ut_id r)) (all_records a))"
    and "us_next_key a \<le> us_next_key b" "us_id_seq a \<le> us_id_seq b"
    and "\<And>r'. r' \<in> set (all_records b) \<Longrightarrow> \<exists>r \<in> set (all_records a). ut_id r = ut_id r' \<and>
           (ut_speaking_start_emitted r \<longrightarrow> ut_speaking_start_emitted r') \<and> (skip_flag r \<longrightarrow> skip_flag r') \<and>
           (ut_terminal r \<longrightarrow> ut_terminal r')"
    and "s \<Longrightarrow> store_settled (fst t) a \<Longrightarrow> store_settled (fst t) b" "s \<Longrightarrow> focused (snd t) a \<Longrightarrow> focused (snd t) b"
  shows "agent_inv s t b"
proof -
  have "store_ok b" using assms(1) by (intro store_ok_mono [OF _ assms(4-6)]) (simp add: agent_inv_def)
  moreover have "once start_kind ut_speaking_start_emitted b" "once skip_kind skip_flag b"
    "s \<Longrightarrow> once term_kind ut_terminal b"
    using assms(1) by (auto intro!: once_mono [OF _ assms(3) _ assms(6)] simp: agent_inv_def dest!: assms(7))
  ultimately show ?thesis using assms(1,2,8,9) by (simp add: agent_inv_def)
qed

lemma once_add:
  assumes "once K F a" "va_events b = va_events a" "us_id_seq b = Suc (us_id_seq a)"
    and "set (all_records b) \<subseteq> insert rec (set (all_records a))" "ut_id rec = utterance_id (us_id_seq a)"
  shows "once K F b"
proof -
  have "owed F i a" if "owed F i b" for i
  proof -
    from that consider r where "r \<in> set (all_records b)" "ut_id r = i" "\<not> F r"
      | n where "us_id_seq b \<le> n" "i = utterance_id n"
      unfolding owed_def by blast
    then show ?thesis
    proof cases
      case 1
      then have "r = rec \<or> r \<in> set (all_records a)" using assms(4) by blast
      with 1 assms(5) show ?thesis unfolding owed_def by auto
    next
      case 2
      with assms(3) have "us_id_seq a \<le> n" by simp
      with 2 show ?thesis unfolding owed_def by blast
    qed
  qed
  then have "emitted_of K i (va_events b) + of_bool (owed F i b) \<le> 1" for i
    using assms(1) by (cases "owed F i b") (auto simp: once_def assms(2) dest: spec [of _ i])
  then show ?thesis by (simp add: once_def)
qed

lemma store_ok_add:
  assumes "store_ok a" "us_next_key b = Suc (us_next_key a)" "us_id_seq b = Suc (us_id_seq a)"
    and "mset (all_records b) = add_mset rec (mset (all_records a))"
    and "ut_key rec = us_next_key a" "ut_id rec = utterance_id (us_id_seq a)"
  shows "store_ok b"
proof -
  have k: "mset (map ut_key (all_records b)) = mset (ut_key rec # map ut_key (all_records a))"
    and i: "mset (map ut_id (all_records b)) = mset (ut_id rec # map ut_id (all_records a))"
    using assms(4) by simp_all
  have "distinct (ut_key rec # map ut_key (all_records a))"
    using assms(1,5) by (auto simp: store_ok_def)
  moreover have "distinct (ut_id rec # map ut_id (all_records a))"
    using assms(1,6) by (auto simp: store_ok_def)
  moreover have "set (all_records b) = insert rec (set (all_records a))"
    using assms(4) by (metis set_mset_add_mset_insert set_mset_mset)
  ultimately show ?thesis
    using assms mset_eq_imp_distinct_iff [OF k] mset_eq_imp_distinct_iff [OF i]
    by (auto simp: store_ok_def less_Suc_eq)
qed

section \<open>The primitive changes preserve it\<close>

lemma inv_start:
  assumes "agent_inv s t a" "record_ref key a = Some rec" "\<not> ut_speaking_start_emitted rec"
  shows "agent_inv s t (agent_emit (user_speaking_start (ut_id rec))
           (record_mut key (\<lambda>r. r\<lparr>ut_speaking_start_emitted := True\<rparr>) a))"
proof -
  let ?f = "\<lambda>r. r\<lparr>ut_speaking_start_emitted := True\<rparr>"
  have m: "agent_inv s t (record_mut key ?f a)" by (rule inv_mut [OF _ assms(1)]) (simp add: quiet_change_def)
  have "once start_kind ut_speaking_start_emitted
          (agent_emit (user_speaking_start (ut_id rec)) (record_mut key ?f a))"
    using assms by (intro once_emit_record [OF _ _ assms(2)]) (simp_all add: agent_inv_def event_builders)
  with m show ?thesis by (simp add: agent_inv_def once_emit kind_defs event_builders)
qed

lemma inv_skip:
  assumes "agent_inv s t a" "record_ref key a = Some rec" "\<not> skip_flag rec"
  shows "agent_inv s t (agent_emit (language_id_skipped reason n (Some (ut_id rec)))
           (lid_mut key (\<lambda>l. l\<lparr>ul_skip_emitted := True\<rparr>) a))"
proof -
  let ?f = "\<lambda>r. r\<lparr>ut_lid := (ut_lid r)\<lparr>ul_skip_emitted := True\<rparr>\<rparr>"
  have m: "agent_inv s t (record_mut key ?f a)" by (rule inv_mut [OF _ assms(1)]) (simp add: quiet_change_def)
  have "once skip_kind skip_flag
          (agent_emit (language_id_skipped reason n (Some (ut_id rec))) (record_mut key ?f a))"
    using assms by (intro once_emit_record [OF _ _ assms(2)]) (simp_all add: agent_inv_def event_builders)
  with m show ?thesis by (simp add: lid_mut_def agent_inv_def once_emit kind_defs event_builders)
qed

text \<open>A terminal event of a record that has none yet; \<open>f\<close> must leave the record settled.\<close>

lemma inv_terminal:
  assumes inv: "agent_inv s t a" and rec: "record_ref key a = Some rec" and open_rec: "s \<Longrightarrow> \<not> ut_terminal rec"
    and f: "\<And>r. ut_key (f r) = ut_key r \<and> ut_id (f r) = ut_id r \<and> ut_phase (f r) = ut_phase r \<and>
        ut_kind (f r) = ut_kind r \<and> ut_speaking_start_emitted (f r) = ut_speaking_start_emitted r \<and>
        skip_flag (f r) = skip_flag r \<and> ut_terminal (f r)"
    and e: "se_utterance_id e = Some (ut_id rec)" "term_kind (se_kind e)"
    and st: "s \<Longrightarrow> store_settled (fst t) (record_mut key f a)"
  shows "agent_inv s (fst t, None) (agent_emit e (record_mut key f a))"
proof -
  have m: "store_ok (record_mut key f a)" "phases_ok (record_mut key f a)"
    "once start_kind ut_speaking_start_emitted (record_mut key f a)" "once skip_kind skip_flag (record_mut key f a)"
    using inv f by (auto simp: agent_inv_def intro!: store_ok_mut phases_mut once_mut)
  have "once term_kind ut_terminal (agent_emit e (record_mut key f a))" if s
    using inv that open_rec f e by (intro once_emit_record [OF _ _ rec]) (simp_all add: agent_inv_def)
  with m st e(2) show ?thesis by (auto simp: agent_inv_def once_emit kind_defs)
qed

lemma new_record_sel:
  "fst (new_record s) = utterance_new (us_next_key s) (utterance_id (us_id_seq s))"
  "us_live (snd (new_record s)) = us_live s" "us_closing (snd (new_record s)) = us_closing s"
  "us_lid_retained (snd (new_record s)) = us_lid_retained s"
  "us_next_key (snd (new_record s)) = Suc (us_next_key s)" "us_id_seq (snd (new_record s)) = Suc (us_id_seq s)"
  "va_events (snd (new_record a)) = va_events a"
  by (simp_all add: new_record_def)

lemma utterance_new_sel [simp]:
  "ut_key (utterance_new k i) = k" "ut_id (utterance_new k i) = i" "ut_kind (utterance_new k i) = UttLive"
  "ut_phase (utterance_new k i) = UttOpen" "\<not> ut_terminal (utterance_new k i)"
  "\<not> ut_final_emitted (utterance_new k i)" "\<not> ut_user_stt_session_open (utterance_new k i)"
  "\<not> ut_stream_open (utterance_new k i)" "\<not> ut_partials_emitted (utterance_new k i)"
  by (simp_all add: utterance_new_def)

lemma inv_add:
  assumes "agent_inv s t a" "phases_ok b" "va_events b = va_events a"
    and "us_next_key b = Suc (us_next_key a)" "us_id_seq b = Suc (us_id_seq a)"
    and "mset (all_records b) = add_mset rec (mset (all_records a))"
    and "ut_key rec = us_next_key a" "ut_id rec = utterance_id (us_id_seq a)"
    and "s \<Longrightarrow> store_settled (fst t) a \<Longrightarrow> store_settled (fst t) b"
  shows "agent_inv s t b"
proof -
  have foc: "focused (snd t) b" if "focused (snd t) a"
  proof (cases "snd t")
    case (Some kb)
    obtain k c where kb: "kb = (k, c)" by fastforce
    have "set (all_records b) = insert rec (set (all_records a))"
      using assms(6) by (metis set_mset_add_mset_insert set_mset_mset)
    with that assms(4,7) show ?thesis by (auto simp: focused_def Some kb)
  qed simp
  have sub: "set (all_records b) \<subseteq> insert rec (set (all_records a))"
    using assms(6) by (metis order_refl set_mset_add_mset_insert set_mset_mset)
  have "store_ok b" using assms(1) by (intro store_ok_add [OF _ assms(4-8)]) (simp add: agent_inv_def)
  moreover have "once K F b" if "once K F a" for K F by (rule once_add [OF that assms(3,5) sub assms(8)])
  ultimately show ?thesis using assms(1,2,9) foc by (simp add: agent_inv_def)
qed

lemma inv_new_live:
  "agent_inv s t a \<Longrightarrow> us_live a = None \<Longrightarrow>
   agent_inv s t ((snd (new_record a))\<lparr>us_live := Some (fst (new_record a))\<rparr>)"
  by (rule inv_add [where rec = "fst (new_record a)"])
    (auto simp: new_record_sel all_records_def phases_ok_def agent_inv_def store_settled_def settled_flags)

lemma inv_add_closing:
  "agent_inv s t a \<Longrightarrow> ut_key rec = us_next_key a \<Longrightarrow> ut_id rec = utterance_id (us_id_seq a) \<Longrightarrow>
   ut_phase rec = UttClosing \<Longrightarrow> \<not> ut_terminal rec \<Longrightarrow>
   agent_inv s t ((snd (new_record a))\<lparr>us_closing := us_closing a @ [rec]\<rparr>)"
  by (rule inv_add [where rec = rec])
    (auto simp: new_record_sel all_records_def phases_ok_def agent_inv_def store_settled_def settled_flags)

text \<open>Dropping and moving records; \<open>b\<close> keeps some of the records of \<open>a\<close>.\<close>

lemma inv_shrink:
  assumes "agent_inv s t a" "phases_ok b" "va_events b = va_events a" "us_next_key b = us_next_key a"
    "us_id_seq b = us_id_seq a" "mset (all_records b) \<subseteq># mset (all_records a)" "s \<Longrightarrow> store_settled (fst t) a \<Longrightarrow> store_settled (fst t) b"
  shows "agent_inv s t b"
proof (rule inv_mono [OF assms(1-3)])
  show "mset (map (\<lambda>r. (ut_key r, ut_id r)) (all_records b)) \<subseteq># mset (map (\<lambda>r. (ut_key r, ut_id r)) (all_records a))"
    using image_mset_subseteq_mono [OF assms(6), of "\<lambda>r. (ut_key r, ut_id r)"] by simp
  fix r' assume "r' \<in> set (all_records b)"
  with assms(6) have "r' \<in> set (all_records a)" by (metis mset_subset_eqD set_mset_mset)
  then show "\<exists>r \<in> set (all_records a). ut_id r = ut_id r' \<and> (ut_speaking_start_emitted r \<longrightarrow> ut_speaking_start_emitted r') \<and>
      (skip_flag r \<longrightarrow> skip_flag r') \<and> (ut_terminal r \<longrightarrow> ut_terminal r')" by blast
next
  have sub: "set (all_records b) \<subseteq> set (all_records a)" using set_mset_mono [OF assms(6)] by simp
  show "focused (snd t) b" if "focused (snd t) a" by (rule focused_subset [OF that sub]) (simp add: assms(4))
next
  show "store_settled (fst t) b" if s "store_settled (fst t) a" using assms(7) that .
qed (simp_all only: assms(4,5) order_refl)

lemma inv_drop_live: "agent_inv s t a \<Longrightarrow> agent_inv s t (a\<lparr>us_live := None\<rparr>)"
  by (rule inv_shrink) (auto simp: agent_inv_def phases_ok_def all_records_def store_settled_def split: option.split)

lemma inv_clear_closing: "agent_inv s t a \<Longrightarrow> agent_inv s t (a\<lparr>us_closing := []\<rparr>)"
  by (rule inv_shrink) (auto simp: agent_inv_def phases_ok_def all_records_def store_settled_def)

lemma inv_filter_retained: "agent_inv s t a \<Longrightarrow> agent_inv s t (a\<lparr>us_lid_retained := filter P (us_lid_retained a)\<rparr>)"
  by (rule inv_shrink)
    (auto simp: agent_inv_def phases_ok_def all_records_def store_settled_def intro!: subset_mset.add_mono multiset_filter_subset)

lemma inv_remove_closing: "agent_inv s t a \<Longrightarrow> agent_inv s t (a\<lparr>us_closing := remove1 r (us_closing a)\<rparr>)"
  by (rule inv_shrink)
    (auto simp: agent_inv_def phases_ok_def all_records_def store_settled_def dest: notin_set_remove1
      intro!: subset_mset.add_mono diff_subset_eq_self)

lemma inv_ids: "agent_inv s t a \<Longrightarrow> agent_inv s t (a\<lparr>us_id_seq := us_id_seq a + n\<rparr>)"
proof (rule inv_mono)
  show "focused (snd t) (a\<lparr>us_id_seq := us_id_seq a + n\<rparr>)" if "focused (snd t) a"
    using that by (rule focused_subset) (auto simp: all_records_def)
qed (auto simp: agent_inv_def phases_ok_def all_records_def store_settled_def)

text \<open>A record leaves one place for another.\<close>

lemma retained_subset: "mset (if 4 \<le> length xs then tl xs else xs) \<subseteq># mset xs"
  by (cases xs) auto

lemma inv_move:
  assumes inv: "agent_inv s t a"
    and b: "us_next_key b = us_next_key a" "us_id_seq b = us_id_seq a" "va_events b = va_events a"
    and all: "mset (all_records b) \<subseteq># add_mset rec' (mset (all_records a) - {#rec#})" "rec \<in> set (all_records a)"
    and same: "ut_key rec' = ut_key rec" "ut_id rec' = ut_id rec"
      "ut_speaking_start_emitted rec' = ut_speaking_start_emitted rec" "skip_flag rec' = skip_flag rec"
      "ut_terminal rec' = ut_terminal rec" "ut_user_stt_session_open rec' = ut_user_stt_session_open rec"
      "ut_final_emitted rec' = ut_final_emitted rec"
    and ph: "phases_ok b" and st: "s \<Longrightarrow> store_settled (fst t) a \<Longrightarrow> store_settled (fst t) b"
  shows "agent_inv s t b"
proof (rule inv_mono [OF inv ph b(3)])
  let ?p = "\<lambda>r. (ut_key r, ut_id r)"
  have "mset (map ?p (all_records b)) \<subseteq># image_mset ?p (add_mset rec' (mset (all_records a) - {#rec#}))"
    using image_mset_subseteq_mono [OF all(1), of ?p] by simp
  also have "\<dots> = image_mset ?p (add_mset rec (mset (all_records a) - {#rec#}))" using same by simp
  also have "\<dots> = mset (map ?p (all_records a))" using all(2) by simp
  finally show "mset (map ?p (all_records b)) \<subseteq># mset (map ?p (all_records a))" .
  have cover: "r' = rec' \<or> r' \<in> set (all_records a)" if "r' \<in> set (all_records b)" for r'
  proof -
    from that all(1) have "r' \<in># add_mset rec' (mset (all_records a) - {#rec#})" by (metis mset_subset_eqD set_mset_mset)
    then show ?thesis by (auto dest: in_diffD)
  qed
  show "focused (snd t) b" if "focused (snd t) a"
    using that b(1) cover all(2) same by (elim focused_mono) (simp, metis)
  fix r' assume "r' \<in> set (all_records b)"
  from cover [OF this] all(2) same show "\<exists>r \<in> set (all_records a). ut_id r = ut_id r' \<and>
      (ut_speaking_start_emitted r \<longrightarrow> ut_speaking_start_emitted r') \<and> (skip_flag r \<longrightarrow> skip_flag r') \<and>
      (ut_terminal r \<longrightarrow> ut_terminal r')" by metis
qed (use assms in simp_all)

lemma inv_close:
  assumes "agent_inv s t a" "us_live a = Some rec"
  shows "agent_inv s t (a\<lparr>us_live := None, us_closing := us_closing a @ [rec\<lparr>ut_phase := UttClosing, ut_close_reason := c\<rparr>]\<rparr>)"
  by (rule inv_move [OF assms(1), where rec = rec and rec' = "rec\<lparr>ut_phase := UttClosing, ut_close_reason := c\<rparr>"])
    (use assms in \<open>auto simp: agent_inv_def phases_ok_def all_records_def store_settled_def record_settled_def partial_text_def\<close>)

lemma retain_for_lid_sel [simp]:
  "us_live (retain_for_lid p s) = us_live s" "us_closing (retain_for_lid p s) = us_closing s"
  "us_next_key (retain_for_lid p s) = us_next_key s" "us_id_seq (retain_for_lid p s) = us_id_seq s"
  "va_events (retain_for_lid p a) = va_events a"
  by (simp_all add: retain_for_lid_def Let_def)

lemma retain_subset:
  "mset (us_lid_retained (retain_for_lid p s)) \<subseteq># add_mset p (mset (us_lid_retained s))"
  using retained_subset [of "us_lid_retained s"]
  by (auto simp: retain_for_lid_def Let_def intro: subset_mset.order_trans)

lemma inv_retain_live:
  assumes "agent_inv s t a" "us_live a = Some p"
  shows "agent_inv s t (retain_for_lid p (a\<lparr>us_live := None\<rparr>))"
proof (rule inv_shrink [OF assms(1)])
  show "mset (all_records (retain_for_lid p (a\<lparr>us_live := None\<rparr>))) \<subseteq># mset (all_records a)"
    using assms(2) retain_subset [of p "a\<lparr>us_live := None\<rparr>"] by (simp add: all_records_def)
qed (use assms in \<open>auto simp: agent_inv_def phases_ok_def store_settled_def\<close>)

lemma inv_finish_closing:
  assumes "agent_inv s t a" "rec \<in> set (us_closing a)"
  shows "agent_inv s t (retain_for_lid (rec\<lparr>ut_terminal_waiter := None\<rparr>) (a\<lparr>us_closing := remove1 rec (us_closing a)\<rparr>))"
    (is "agent_inv s t (retain_for_lid ?r ?b)")
proof (rule inv_move [OF assms(1), where rec = rec and rec' = ?r])
  show "rec \<in> set (all_records a)" using assms(2) by (simp add: all_records_def)
  let ?l = "case us_live a of Some r \<Rightarrow> [r] | None \<Rightarrow> []"
  have all_eq: "mset (all_records a) = add_mset rec (mset ?l + (mset (us_closing a) - {#rec#}) + mset (us_lid_retained a))"
    using assms(2) by (cases "us_live a") (simp_all add: all_records_def)
  have "mset (all_records (retain_for_lid ?r ?b)) \<subseteq>#
      mset ?l + (mset (us_closing a) - {#rec#}) + add_mset ?r (mset (us_lid_retained a))"
    using retain_subset [of ?r ?b] by (simp add: all_records_def)
  also have "\<dots> = add_mset ?r (mset (all_records a) - {#rec#})"
    by (simp add: all_eq)
  finally show "mset (all_records (retain_for_lid ?r ?b)) \<subseteq># add_mset ?r (mset (all_records a) - {#rec#})" .
qed (use assms in \<open>auto simp: agent_inv_def phases_ok_def store_settled_def dest: notin_set_remove1\<close>)

end
