(* ===== verification/Agent_Invariant.thy ===== *)
theory Agent_Invariant
  imports Agent_Ledger
begin

text \<open>
  Every operation of the agent keeps \<open>agent_inv\<close>.  The rules below follow the way the operations are
  written (bindings, branches, folds over the primitive changes); \<open>inv_intros\<close> collects them.
\<close>

named_theorems inv_intros

section \<open>Bindings and branches\<close>

lemma inv_let [inv_intros]:
  "agent_inv s t v \<Longrightarrow> (\<And>a. agent_inv s t a \<Longrightarrow> agent_inv s t (f a)) \<Longrightarrow> agent_inv s t (Let v f)"
  by simp

lemma inv_let_pair [inv_intros]:
  "agent_inv s t (snd v) \<Longrightarrow> (\<And>x a. agent_inv s t a \<Longrightarrow> agent_inv s t (f x a)) \<Longrightarrow>
   agent_inv s t (let (x, a) = v in f x a)"
  by (cases v) simp

lemma inv_if [inv_intros]:
  "(c \<Longrightarrow> agent_inv s t x) \<Longrightarrow> (\<not> c \<Longrightarrow> agent_inv s t y) \<Longrightarrow> agent_inv s t (if c then x else y)"
  by simp

lemma inv_snd_if [inv_intros]:
  "(c \<Longrightarrow> agent_inv s t (snd x)) \<Longrightarrow> (\<not> c \<Longrightarrow> agent_inv s t (snd y)) \<Longrightarrow> agent_inv s t (snd (if c then x else y))"
  by simp

lemma inv_snd_Pair [inv_intros]: "agent_inv s t a \<Longrightarrow> agent_inv s t (snd (x, a))"
  by simp

lemma inv_case_option [inv_intros]:
  "(x = None \<Longrightarrow> agent_inv s t y) \<Longrightarrow> (\<And>v. x = Some v \<Longrightarrow> agent_inv s t (f v)) \<Longrightarrow>
   agent_inv s t (case x of None \<Rightarrow> y | Some v \<Rightarrow> f v)"
  by (cases x) simp_all

lemma inv_fold [inv_intros]:
  "(\<And>x a. agent_inv s t a \<Longrightarrow> agent_inv s t (f x a)) \<Longrightarrow> agent_inv s t a \<Longrightarrow> agent_inv s t (fold f xs a)"
  by (induction xs arbitrary: a) simp_all

lemmas inv_fields [inv_intros] = same_core_updates [THEN inv_core]
lemmas record_ref_fields [simp] = same_core_updates [THEN same_core_cong(7)]

section \<open>Small steps\<close>

lemma inv_live_to:
  assumes "agent_inv s t a" "us_live a = Some r"
    and q: "ut_key r' = ut_key r" "ut_id r' = ut_id r" "ut_phase r' = ut_phase r" "ut_kind r' = ut_kind r"
      "ut_speaking_start_emitted r \<longrightarrow> ut_speaking_start_emitted r'" "skip_flag r \<longrightarrow> skip_flag r'"
      "ut_terminal r \<longrightarrow> ut_terminal r'"
    and st: "s \<Longrightarrow> live_ok (fst t) r \<Longrightarrow> record_settled r \<Longrightarrow> live_ok (fst t') r' \<and> record_settled r'"
    and foc: "s \<Longrightarrow> focused (snd t) a \<Longrightarrow> focused (snd t') (a\<lparr>us_live := Some r'\<rparr>)"
  shows "agent_inv s t' (a\<lparr>us_live := Some r'\<rparr>)"
proof -
  have all: "all_records a = r # us_closing a @ us_lid_retained a"
    "all_records (a\<lparr>us_live := Some r'\<rparr>) = r' # us_closing a @ us_lid_retained a"
    using assms(2) by (simp_all add: all_records_def)
  have mem: "\<exists>r \<in> set (all_records a). ut_id r = ut_id x \<and>
      (ut_speaking_start_emitted r \<longrightarrow> ut_speaking_start_emitted x) \<and> (skip_flag r \<longrightarrow> skip_flag x) \<and>
      (ut_terminal r \<longrightarrow> ut_terminal x)" if "x \<in> set (all_records (a\<lparr>us_live := Some r'\<rparr>))" for x
  proof (cases "x = r'")
    case True
    with q show ?thesis unfolding all by (intro bexI [of _ r]) simp_all
  next
    case False
    with that show ?thesis unfolding all by (intro bexI [of _ x]) simp_all
  qed
  have sub: "mset (map (\<lambda>r. (ut_key r, ut_id r)) (all_records (a\<lparr>us_live := Some r'\<rparr>))) \<subseteq>#
      mset (map (\<lambda>r. (ut_key r, ut_id r)) (all_records a))"
    unfolding all by (simp add: q(1,2))
  have ph: "phases_ok (a\<lparr>us_live := Some r'\<rparr>)"
    using assms(1,2) q(3,4) by (simp add: agent_inv_def phases_ok_def)
  have base: "agent_inv False t' a" using assms(1) by (simp add: agent_inv_def)
  have loose: "agent_inv False t' (a\<lparr>us_live := Some r'\<rparr>)"
    by (rule inv_mono [OF base ph _ sub _ _ mem]) simp_all
  have "once term_kind ut_terminal (a\<lparr>us_live := Some r'\<rparr>)" if s
  proof (rule once_mono [of term_kind ut_terminal a])
    show "once term_kind ut_terminal a" using assms(1) that by (simp add: agent_inv_def)
    show "\<exists>r \<in> set (all_records a). ut_id r = ut_id x \<and> \<not> ut_terminal r"
      if "x \<in> set (all_records (a\<lparr>us_live := Some r'\<rparr>))" "\<not> ut_terminal x" for x
      using mem [OF that(1)] that(2) by blast
  qed simp_all
  moreover have "store_settled (fst t') (a\<lparr>us_live := Some r'\<rparr>)" "focused (snd t') (a\<lparr>us_live := Some r'\<rparr>)" if s
    using assms(1,2) that st foc by (simp_all add: agent_inv_def store_settled_def)
  ultimately show ?thesis using loose by (simp add: agent_inv_def)
qed

lemma inv_live:
  assumes "agent_inv s t a" "us_live a = Some r" "quiet_to r r'"
  shows "agent_inv s t (a\<lparr>us_live := Some r'\<rparr>)"
proof (rule inv_live_to [OF assms(1,2)])
  show "live_ok (fst t) r' \<and> record_settled r'" if "live_ok (fst t) r" "record_settled r"
    using that quiet_settled [OF assms(3)] by blast
  show "focused (snd t) (a\<lparr>us_live := Some r'\<rparr>)" if "focused (snd t) a"
  proof (rule focused_mono [OF that])
    fix x assume "x \<in> set (all_records (a\<lparr>us_live := Some r'\<rparr>))"
    then have "x = r' \<or> x \<in> set (all_records a)" "r \<in> set (all_records a)"
      using assms(2) by (auto simp: all_records_def)
    with assms(3) show "\<exists>r \<in> set (all_records a). ut_key r = ut_key x \<and> (ut_terminal x \<longrightarrow> ut_terminal r) \<and>
        (ut_user_stt_session_open x \<longrightarrow> ut_user_stt_session_open r) \<and> (ut_final_emitted r \<longrightarrow> ut_final_emitted x)"
      unfolding quiet_to_def by metis
  qed simp
qed (use assms(3) in \<open>simp_all add: quiet_to_def\<close>)

lemma inv_lid_mut:
  "agent_inv s t a \<Longrightarrow> (\<And>l. ul_skip_emitted l \<Longrightarrow> ul_skip_emitted (f l)) \<Longrightarrow> agent_inv s t (lid_mut key f a)"
  unfolding lid_mut_def by (rule inv_mut) (simp_all add: quiet_change_def)

lemma record_ref_lid_mut:
  "record_ref key (lid_mut key f a) = map_option (\<lambda>r. r\<lparr>ut_lid := f (ut_lid r)\<rparr>) (record_ref key a)"
proof -
  have "find_key key (update_first (\<lambda>r. ut_key r = key) g rs) = map_option g (find_key key rs)"
    if "\<And>r. ut_key (g r) = ut_key r" for g rs
    using that by (induction rs) auto
  then show ?thesis by (simp add: record_ref_find lid_mut_def all_records_mut)
qed

lemma ensure_live_live [simp]: "us_live (snd (ensure_live a)) = Some (fst (ensure_live a))"
  by (auto simp: ensure_live_def Let_def split: option.split prod.split)

lemma inv_ensure_live [inv_intros]: "agent_inv s t a \<Longrightarrow> agent_inv s t (snd (ensure_live a))"
  using inv_new_live [of s t a] by (auto simp: ensure_live_def Let_def split: option.split prod.split)

lemma inv_agent_send [inv_intros]: "agent_inv s t a \<Longrightarrow> agent_inv s t (agent_send c a)"
  unfolding agent_send_def by (intro inv_intros) simp_all

lemma inv_send_stt_audio [inv_intros]: "agent_inv s t a \<Longrightarrow> agent_inv s t (send_stt_audio b a)"
  unfolding send_stt_audio_def by (rule inv_agent_send)

lemma inv_fire_waiter [inv_intros]: "agent_inv s t a \<Longrightarrow> agent_inv s t (fire_terminal_waiter key ok a)"
  unfolding fire_terminal_waiter_def by (intro inv_intros inv_mut) (simp_all add: quiet_change_def)

section \<open>Spoken-language identification\<close>

lemma inv_start_lid_buffering [inv_intros]: "agent_inv s t a \<Longrightarrow> agent_inv s t (start_lid_buffering a)"
  unfolding start_lid_buffering_def
  by (intro inv_intros; (assumption | (rule inv_live, assumption, assumption, simp add: quiet_to_def)))

lemma inv_emit_skipped [inv_intros]: "agent_inv s t a \<Longrightarrow> agent_inv s t (emit_language_id_skipped key reason n a)"
  unfolding emit_language_id_skipped_def by (intro inv_intros inv_skip)

lemma inv_emit_skipped_once [inv_intros]:
  "agent_inv s t a \<Longrightarrow> agent_inv s t (emit_language_id_skipped_once key reason a)"
  unfolding emit_language_id_skipped_once_def by (intro inv_intros)

lemma inv_defer_identify [inv_intros]: "agent_inv s t a \<Longrightarrow> agent_inv s t (defer_identify key a)"
  unfolding defer_identify_def by (intro inv_intros inv_lid_mut) simp_all

lemma inv_spawn_job [inv_intros]: "agent_inv s t a \<Longrightarrow> agent_inv s t (spawn_job cfg c key rec a)"
  unfolding spawn_job_def Let_def by (intro inv_intros inv_lid_mut) simp_all

lemma inv_spawn_identify [inv_intros]: "agent_inv s t a \<Longrightarrow> agent_inv s t (snd (spawn_identify_language env key force a))"
  unfolding spawn_identify_language_def Let_def
  by (auto intro!: inv_defer_identify inv_lid_mut inv_spawn_job split: option.split)

lemma inv_try_spawn [inv_intros]: "agent_inv s t a \<Longrightarrow> agent_inv s t (snd (try_spawn_default_mode_lid env key force a))"
  unfolding try_spawn_default_mode_lid_def Let_def by (auto intro: inv_defer_identify inv_spawn_identify)

lemma inv_start_lid_at_speech_end [inv_intros]: "agent_inv s t a \<Longrightarrow> agent_inv s t (maybe_start_lid_at_speech_end env a)"
  unfolding maybe_start_lid_at_speech_end_def by (intro inv_intros)

lemma inv_append_lid_pcm: "agent_inv s t a \<Longrightarrow> agent_inv s t (snd (append_lid_pcm b v w d a))"
proof -
  have skip: "ul_skip_emitted (buffer_lid_frame cap b v w d l) = ul_skip_emitted l" for cap l
    by (simp add: buffer_lid_frame_def Let_def)
  assume a: "agent_inv s t a"
  have "agent_inv s t (a\<lparr>us_live := Some (live\<lparr>ut_lid := buffer_lid_frame cap b v w d (ut_lid live)\<rparr>)\<rparr>)"
    if "us_live a = Some live" for live cap
    by (rule inv_live [OF a that]) (simp add: quiet_to_def skip)
  with a show ?thesis
    unfolding append_lid_pcm_def Let_def by (auto split: option.split)
qed

lemma inv_append_lid [inv_intros]: "agent_inv s t a \<Longrightarrow> agent_inv s t (append_lid_pcm_if_buffering env b v w d a)"
  unfolding append_lid_pcm_if_buffering_def by (intro inv_intros inv_append_lid_pcm)

lemma inv_deferred_lid [inv_intros]: "agent_inv s t a \<Longrightarrow> agent_inv s t (maybe_spawn_deferred_lid_after_tts env a)"
  unfolding maybe_spawn_deferred_lid_after_tts_def Let_def by (intro inv_intros inv_lid_mut) simp_all

lemma inv_report_language: "agent_inv s t a \<Longrightarrow> agent_inv s t (snd (report_language job rec result a))"
proof -
  assume a: "agent_inv s t a"
  have "agent_inv s t (agent_emit (user_language code i) (lid_mut k (\<lambda>l. l\<lparr>ul_language_emitted := True\<rparr>)
          (a\<lparr>va_lid_last_emitted := c\<rparr>)))" for code i k c
    by (rule inv_emit) (simp add: event_builders kind_defs, intro inv_intros inv_lid_mut a, simp)
  with a show ?thesis
    unfolding report_language_def Let_def by (cases result) auto
qed

lemma inv_apply_identify [inv_intros]: "agent_inv s t a \<Longrightarrow> agent_inv s t (apply_identify job result a)"
  unfolding apply_identify_def drop_retained_def
  by (intro inv_intros inv_report_language inv_lid_mut inv_filter_retained) simp_all

lemma inv_finish_identify [inv_intros]: "agent_inv s t a \<Longrightarrow> agent_inv s t (finish_identify key result a)"
  unfolding finish_identify_def by (intro inv_intros)

lemma inv_await_lid_gate [inv_intros]: "agent_inv s t a \<Longrightarrow> agent_inv s t (await_lid_gate env key a)"
  unfolding await_lid_gate_def by (intro inv_intros)

lemma inv_prepare_lid [inv_intros]: "agent_inv s t a \<Longrightarrow> agent_inv s t (prepare_lid_before_close env key a)"
  unfolding prepare_lid_before_close_def by (intro inv_intros)

lemma inv_speaking_end_for [inv_intros]: "agent_inv s t a \<Longrightarrow> agent_inv s t (emit_user_speaking_end_for key a)"
  unfolding emit_user_speaking_end_for_def
  by (rule inv_case_option, assumption, subst Let_def, intro inv_intros inv_lid_mut inv_emit)
    (simp_all add: event_builders kind_defs)

lemma inv_speaking_end_gate [inv_intros]:
  "agent_inv s t a \<Longrightarrow> agent_inv s t (emit_user_speaking_end_after_lid_gate env key a)"
  unfolding emit_user_speaking_end_after_lid_gate_def by (intro inv_intros)

lemma inv_speaking_end [inv_intros]: "agent_inv s t a \<Longrightarrow> agent_inv s t (emit_speaking_end env key w a)"
  unfolding emit_speaking_end_def by (intro inv_intros)

section \<open>Starting an utterance\<close>

lemma inv_stt_stream_start [inv_intros]:
  assumes "agent_inv s t a"
  shows "agent_inv s t (emit_stt_stream_start_if_needed a)"
proof -
  obtain rec a1 where e: "ensure_live a = (rec, a1)" by fastforce
  then have l: "us_live a1 = Some rec" using ensure_live_live [of a] by simp
  have i: "agent_inv s t a1" using inv_ensure_live [OF assms] e by simp
  have "agent_inv s t (a1\<lparr>us_live := Some (rec\<lparr>ut_stream_open := True\<rparr>)\<rparr>)"
    by (rule inv_live [OF i l]) (simp add: quiet_to_def)
  then have "agent_inv s t (agent_emit (with_utterance_id (Some (ut_id rec)) stt_stream_start)
      (a1\<lparr>us_live := Some (rec\<lparr>ut_stream_open := True\<rparr>)\<rparr>))"
    by (rule inv_emit [rotated]) (simp add: event_builders kind_defs)
  with i show ?thesis by (simp add: emit_stt_stream_start_if_needed_def e)
qed

lemma inv_user_stt_start:
  assumes "agent_inv s t a" "s \<Longrightarrow> t = (TidyOpen, None)"
  shows "agent_inv s t (emit_user_stt_start_if_needed a)"
proof -
  obtain rec a1 where e: "ensure_live a = (rec, a1)" by fastforce
  then have l: "us_live a1 = Some rec" using ensure_live_live [of a] by simp
  have i: "agent_inv s t a1" using inv_ensure_live [OF assms(1)] e by simp
  have "agent_inv s t (a1\<lparr>us_live := Some (rec\<lparr>ut_user_stt_session_open := True\<rparr>)\<rparr>)"
  proof (rule inv_live_to [OF i l])
    show "live_ok (fst t) (rec\<lparr>ut_user_stt_session_open := True\<rparr>) \<and>
        record_settled (rec\<lparr>ut_user_stt_session_open := True\<rparr>)" if s "live_ok (fst t) rec" "record_settled rec"
      using that assms(2) by (auto simp: settled_flags partial_text_def)
    show "focused (snd t) (a1\<lparr>us_live := Some (rec\<lparr>ut_user_stt_session_open := True\<rparr>)\<rparr>)" if s
      using assms(2) [OF that] by simp
  qed simp_all
  then have "agent_inv s t (agent_emit (with_utterance_id (Some (ut_id rec)) user_stt_start)
      (a1\<lparr>us_live := Some (rec\<lparr>ut_user_stt_session_open := True\<rparr>)\<rparr>))"
    by (rule inv_emit [rotated]) (simp add: event_builders kind_defs)
  with i show ?thesis by (simp add: emit_user_stt_start_if_needed_def e)
qed

lemma agent_emit_core: "same_ledger a b \<Longrightarrow> same_ledger (agent_emit e a) (agent_emit e b)"
  by (simp add: same_ledger_def)

lemma inv_speaking_start [inv_intros]: "agent_inv s t a \<Longrightarrow> agent_inv s t (emit_user_speaking_start_if_needed key a)"
proof (cases "\<not> va_stt_enabled a \<or> record_ref key a = None \<or> ut_speaking_start_emitted (the (record_ref key a))")
  case True
  then show "agent_inv s t a \<Longrightarrow> ?thesis"
    by (auto simp: emit_user_speaking_start_if_needed_def split: option.split)
next
  case False
  assume a: "agent_inv s t a"
  from False obtain rec where r: "record_ref key a = Some rec" "\<not> ut_speaking_start_emitted rec" by auto
  let ?m = "record_mut key (\<lambda>r. r\<lparr>ut_speaking_start_emitted := True\<rparr>) a"
  let ?b = "if live_key a = Some key then
      (if va_replay_begun_at_pre_roll ?m then ?m\<lparr>va_replay_begun_at_pre_roll := False\<rparr>
       else ?m\<lparr>va_utterance_replay_buffer := begin_utterance (va_utterance_replay_buffer ?m)\<rparr>) else ?m"
  have "same_ledger ?b ?m" by (simp add: same_ledger_def)
  then have "agent_inv s t (agent_emit (user_speaking_start (ut_id rec)) ?b)"
    by (intro inv_core [OF agent_emit_core inv_start [OF a r]])
  then show ?thesis
    using False r by (auto simp: emit_user_speaking_start_if_needed_def Let_def intro: inv_start_lid_buffering)
qed

section \<open>Barge-in and speech start\<close>

lemma inv_let_val: "(\<And>x. x = v \<Longrightarrow> agent_inv s t (f x)) \<Longrightarrow> agent_inv s t (Let v f)"
  by simp

lemma inv_let_ensure_live:
  "agent_inv s t a \<Longrightarrow> (\<And>rec a'. us_live a' = Some rec \<Longrightarrow> agent_inv s t a' \<Longrightarrow> agent_inv s t (f rec a')) \<Longrightarrow>
   agent_inv s t (let (rec, a') = ensure_live a in f rec a')"
  using inv_ensure_live [of s t a] ensure_live_live [of a] by (cases "ensure_live a") simp

lemma uncounted_kinds [simp]:
  "\<not> counted_kind (se_kind (agent_reply_end i p x n c))" "\<not> counted_kind (se_kind (with_utterance_id j ev_barge_in))"
  "\<not> counted_kind (se_kind agent_speaking_end)" "\<not> counted_kind (se_kind vad_triggered)"
  "\<not> counted_kind (se_kind (with_utterance_id j (stt_stream_end_with_reason r)))"
  "\<not> counted_kind (se_kind (with_utterance_id j user_stt_end))" "\<not> counted_kind (se_kind (user_speaking_end j))"
  "\<not> counted_kind (se_kind (user_speech_partial w j))" "\<not> counted_kind (se_kind (ev_error w))"
  "\<not> counted_kind (se_kind (stt_config_updated cfg))" "\<not> counted_kind (se_kind (stt_hold_started m n))"
  "\<not> counted_kind (se_kind (stt_hold_ended m n d))"
  "\<not> counted_kind (se_kind (agent_speaking_start_with_timing f g h))"
  by (simp_all add: event_builders kind_defs)

lemma inv_arm_hold [inv_intros]: "agent_inv s t a \<Longrightarrow> agent_inv s t (arm_stt_hold_if_idle a)"
  unfolding arm_stt_hold_if_idle_def Let_def by (intro inv_intros)

lemma inv_end_speaking [inv_intros]: "agent_inv s t a \<Longrightarrow> agent_inv s t (snd (end_agent_speaking arm a))"
  unfolding end_agent_speaking_def Let_def by (intro inv_intros)

lemma inv_flushed [inv_intros]: "agent_inv s t a \<Longrightarrow> agent_inv s t (emit_flushed_replies env a)"
  unfolding emit_flushed_replies_def by (rule inv_fold) (auto intro: inv_emit)

lemma inv_cancel_tts [inv_intros]: "agent_inv s t a \<Longrightarrow> agent_inv s t (cancel_pending_tts_synthesis env a)"
  unfolding cancel_pending_tts_synthesis_def by (rule inv_fold) (auto intro: inv_emit)

lemma inv_barge_in [inv_intros]: "agent_inv s t a \<Longrightarrow> agent_inv s t (barge_in_with_speaking_end env cfg i a)"
  unfolding barge_in_with_speaking_end_def
  by (rule inv_if, assumption, rule inv_let_pair) (intro inv_intros inv_emit; simp)+

lemma inv_stt_barge [inv_intros]: "agent_inv s t a \<Longrightarrow> agent_inv s t (try_stt_gated_barge_in env key w a)"
  unfolding try_stt_gated_barge_in_def by (rule inv_if, assumption, rule inv_let_val) (intro inv_intros)

lemma inv_clear_timers [inv_intros]:
  fixes a :: "'f agent"
  shows "agent_inv s t a \<Longrightarrow> agent_inv s t (clear_stt_listen_timer a)"
    "agent_inv s t a \<Longrightarrow> agent_inv s t (clear_utterance_finalize_timer a)"
    "agent_inv s t a \<Longrightarrow> agent_inv s t (disarm_utterance_finalize_timer a)"
    "agent_inv s t a \<Longrightarrow> agent_inv s t (reset_turn_close_flags a)"
  by (erule inv_core [rotated]; simp add: same_ledger_def reset_turn_close_flags_def clear_stt_listen_timer_def
      clear_utterance_finalize_timer_def disarm_utterance_finalize_timer_def)+

lemma inv_arm_finalize [inv_intros]: "agent_inv s t a \<Longrightarrow> agent_inv s t (arm_utterance_finalize_timer now a)"
  unfolding arm_utterance_finalize_timer_def by (intro inv_intros)

lemma inv_refresh_finalize [inv_intros]: "agent_inv s t a \<Longrightarrow> agent_inv s t (refresh_utterance_finalize_after_partial now a)"
  unfolding refresh_utterance_finalize_after_partial_def by (intro inv_intros)

lemma live_flag_emit [simp]: "live_flag f (agent_emit e a) = live_flag f a"
  by (simp add: live_flag_def)

lemma inv_mark_vad_triggered:
  assumes "agent_inv s t a"
  shows "agent_inv s t (snd (mark_vad_triggered now h e a))"
proof -
  obtain rec a1 where en: "ensure_live a = (rec, a1)" by fastforce
  then have l: "us_live a1 = Some rec" using ensure_live_live [of a] by simp
  have i: "agent_inv s t a1" using inv_ensure_live [OF assms] en by simp
  have "agent_inv s t (a1\<lparr>us_live := Some (rec\<lparr>ut_vad_triggered := True\<rparr>)\<rparr>)"
    by (rule inv_live [OF i l]) (simp add: quiet_to_def)
  then show ?thesis
    unfolding mark_vad_triggered_def en Let_def prod.case snd_conv by (intro inv_intros)
qed

lemma inv_vad_barge_in [inv_intros]: "agent_inv s t a \<Longrightarrow> agent_inv s t (vad_barge_in env sp g w i a)"
  unfolding vad_barge_in_def by (intro inv_intros)

lemma inv_open_stt_session:
  assumes "agent_inv s t a" "s \<Longrightarrow> h \<Longrightarrow> t = (TidyOpen, None)"
  shows "agent_inv s t (open_stt_session h a)"
  unfolding open_stt_session_def
  by (intro inv_if inv_stt_stream_start inv_user_stt_start) (use assms in simp_all)

lemma inv_vad_speech_start:
  assumes a: "agent_inv s t a" "s \<Longrightarrow> stt_pipeline_active a \<Longrightarrow> t = (TidyOpen, None)"
  shows "agent_inv s t (on_vad_speech_start env a)"
proof -
  have e: "agent_inv s t (agent_emit vad_triggered a)" by (rule inv_emit) (simp_all add: a)
  have "agent_inv s t (open_stt_session (stt_pipeline_active a) (agent_emit vad_triggered a))"
    by (rule inv_open_stt_session [OF e a(2)])
  then show ?thesis
    unfolding on_vad_speech_start_def
    by (intro inv_if a(1) inv_let_val inv_let_pair inv_mark_vad_triggered inv_vad_barge_in) simp_all
qed

section \<open>Finals\<close>

lemma record_ref_mut:
  "(\<And>r. ut_key (f r) = ut_key r) \<Longrightarrow> record_ref key (record_mut key f a) = map_option f (record_ref key a)"
proof -
  assume f: "\<And>r. ut_key (f r) = ut_key r"
  have "find_key key (update_first (\<lambda>r. ut_key r = key) f rs) = map_option f (find_key key rs)" for rs
    using f by (induction rs) auto
  then show ?thesis by (simp add: record_ref_find all_records_mut)
qed

lemma record_ref_in_live: "us_live a = Some r \<Longrightarrow> ut_key r = key \<Longrightarrow> record_ref key a = Some r"
  by (simp add: record_ref_find all_records_def)

text \<open>A change of one record that leaves it store_settled.\<close>

lemma update_first_found:
  "find_key key rs = Some r \<Longrightarrow> set (update_first (\<lambda>r. ut_key r = key) f rs) \<subseteq> insert (f r) (set rs)"
  by (induction rs) (auto split: if_splits)

lemma settled_record:
  assumes "store_settled t s" "record_ref key s = Some rec"
    and "us_live s = Some rec \<Longrightarrow> live_ok t rec \<Longrightarrow> live_ok t' (f rec)" "record_settled (f rec)"
    and mode: "live_with_key key s = None \<Longrightarrow> t' = t"
  shows "store_settled t' (record_mut key f s)"
proof (cases "live_with_key key s")
  case (Some r)
  then have "us_live s = Some r" "r = rec"
    using assms(2) by (auto simp: live_with_key_def record_ref_def split: option.splits if_splits)
  with Some assms(1,3,4) show ?thesis by (simp add: record_mut_def store_settled_def)
next
  case None
  show ?thesis
  proof (cases "find_key key (us_closing s)")
    case (Some r)
    then have "r = rec" using None assms(2) by (simp add: record_ref_def find_key_append)
    then have "\<forall>x \<in> set (update_first (\<lambda>r. ut_key r = key) f (us_closing s)). record_settled x"
      using update_first_found [OF Some, of f] assms(1,4) unfolding store_settled_def by blast
    with None Some assms(1) mode show ?thesis by (simp add: record_mut_def store_settled_def)
  qed (use None assms(1) mode in \<open>simp add: record_mut_def store_settled_def\<close>)
qed

lemma inv_mut_to:
  assumes "agent_inv s t a"
    and f: "\<And>r. ut_key (f r) = ut_key r \<and> ut_id (f r) = ut_id r \<and> ut_phase (f r) = ut_phase r \<and>
        ut_kind (f r) = ut_kind r \<and> (ut_speaking_start_emitted r \<longrightarrow> ut_speaking_start_emitted (f r)) \<and>
        (skip_flag r \<longrightarrow> skip_flag (f r)) \<and> (ut_terminal r \<longrightarrow> ut_terminal (f r))"
    and "s \<Longrightarrow> store_settled (fst t) a \<Longrightarrow> store_settled (fst t') (record_mut key f a)"
    and "s \<Longrightarrow> focused (snd t) a \<Longrightarrow> focused (snd t') (record_mut key f a)"
  shows "agent_inv s t' (record_mut key f a)"
  using assms unfolding agent_inv_def
  by (intro conjI impI store_ok_mut phases_mut once_mut) simp_all

lemma record_mut_emit: "record_mut key f (agent_emit e a) = agent_emit e (record_mut key f a)"
  by (simp add: record_mut_def agent_emit_def live_with_key_def split: option.split)

lemma inv_fresh_terminal:
  assumes inv: "agent_inv s t a" and e: "se_utterance_id e = Some (utterance_id (us_id_seq a))" "term_kind (se_kind e)"
  shows "agent_inv s t (agent_emit e (a\<lparr>us_id_seq := us_id_seq a + 1\<rparr>))"
proof -
  let ?b = "a\<lparr>us_id_seq := us_id_seq a + 1\<rparr>"
  have b: "agent_inv s t ?b" using inv_ids [OF inv, of 1] .
  have all: "all_records ?b = all_records a" by (simp add: all_records_def)
  have gone: "\<not> owed F (utterance_id (us_id_seq a)) ?b" for F
    using inv unfolding agent_inv_def store_ok_def owed_def all by fastforce
  have "once term_kind ut_terminal (agent_emit e ?b)" if s
  proof -
    have o: "once term_kind ut_terminal a" "once term_kind ut_terminal ?b"
      using inv b that by (simp_all add: agent_inv_def)
    have "owed ut_terminal (utterance_id (us_id_seq a)) a" unfolding owed_def by auto
    with o(1) have z: "emitted_of term_kind (utterance_id (us_id_seq a)) (va_events a) = 0"
      by (auto simp: once_def dest: spec [of _ "utterance_id (us_id_seq a)"])
    have "emitted_of term_kind i (va_events (agent_emit e ?b)) + of_bool (owed ut_terminal i (agent_emit e ?b)) \<le> 1" for i
    proof (cases "i = utterance_id (us_id_seq a)")
      case True
      then show ?thesis using z gone by simp
    next
      case False
      with o(2) e show ?thesis by (auto simp: once_def)
    qed
    then show ?thesis by (simp add: once_def)
  qed
  with b e(2) show ?thesis by (auto simp: agent_inv_def once_emit kind_defs)
qed

text \<open>
  The focus on a record: gained from what was read of it, dropped at its terminal event.
\<close>

lemma inv_unfocus: "agent_inv s (c, foc) a \<Longrightarrow> agent_inv s (c, None) a"
  by (simp add: agent_inv_def)

lemma inv_untidy: "agent_inv s (c, foc) a \<Longrightarrow> agent_inv s (Untidy, foc) a"
  by (auto simp: agent_inv_def store_settled_def live_ok_def)

lemma inv_not_open: "agent_inv s (TidyOpen, foc) a \<Longrightarrow> agent_inv s (Tidy, foc) a"
  by (auto simp: agent_inv_def store_settled_def live_ok_def)

lemma record_ref_unique: "store_ok s \<Longrightarrow> r \<in> set (all_records s) \<Longrightarrow> ut_key r = key \<Longrightarrow> record_ref key s = Some r"
  by (auto simp: record_ref_find store_ok_def intro: find_key_all)

lemma inv_focus:
  assumes "agent_inv s (c, None) a" "record_ref key a = Some rec"
    and "s \<Longrightarrow> \<not> ut_terminal rec \<and> (b \<longrightarrow> \<not> ut_user_stt_session_open rec \<and> ut_final_emitted rec)"
  shows "agent_inv s (c, Some (key, b)) a"
proof -
  have ok: "store_ok a" using assms(1) by (simp add: agent_inv_def)
  have mem: "rec \<in> set (all_records a)" "ut_key rec = key"
    using assms(2) find_key_in unfolding record_ref_find by blast+
  have "r = rec" if "r \<in> set (all_records a)" "ut_key r = key" for r
    using record_ref_unique [OF ok that] assms(2) by simp
  moreover have "key < us_next_key a" using ok mem by (auto simp: store_ok_def)
  ultimately have "focused (Some (key, b)) a" if s
    using assms(3) [OF that] by (auto simp: focused_def)
  with assms(1) show ?thesis by (simp add: agent_inv_def)
qed

lemma focused_ref:
  assumes "focused (Some (key, b)) a" "record_ref key a = Some rec"
  shows "\<not> ut_terminal rec" "b \<Longrightarrow> \<not> ut_user_stt_session_open rec \<and> ut_final_emitted rec"
  using assms find_key_in [of key "all_records a" rec] by (simp_all add: focused_def record_ref_find)

lemma inv_empty_final:
  assumes inv: "agent_inv s (c, Some (key, True)) a" and rec: "record_ref key a = Some rec"
  shows "agent_inv s (c, None) (agent_emit (user_stt_not_found_with_reason r (Some (ut_id rec)))
           (record_mut key (\<lambda>r. r\<lparr>ut_not_found_emitted := True, ut_terminal := True\<rparr>) a))"
proof -
  have foc: "\<not> ut_terminal rec \<and> \<not> ut_user_stt_session_open rec \<and> ut_final_emitted rec" if s
    using inv that focused_ref [OF _ rec] by (auto simp: agent_inv_def)
  have "agent_inv s (fst (c, Some (key, True)), None) (agent_emit (user_stt_not_found_with_reason r (Some (ut_id rec)))
           (record_mut key (\<lambda>r. r\<lparr>ut_not_found_emitted := True, ut_terminal := True\<rparr>) a))"
  proof (rule inv_terminal [OF inv rec])
    show "store_settled (fst (c, Some (key, True))) (record_mut key (\<lambda>r. r\<lparr>ut_not_found_emitted := True, ut_terminal := True\<rparr>) a)" if s
      using inv that foc
      by (intro settled_record [OF _ rec]) (auto simp: agent_inv_def settled_flags)
  qed (use foc in \<open>auto simp: event_builders kind_defs\<close>)
  then show ?thesis by simp
qed

definition final_flags :: "stt_utterance \<Rightarrow> stt_utterance" where
  "final_flags r = r\<lparr>ut_replay_ctx := None, ut_final_emitted := True, ut_terminal := True\<rparr>"

text \<open>When a final with text may be emitted_of.\<close>

definition final_ready :: "nat \<Rightarrow> 'f agent \<Rightarrow> bool" where
  "final_ready key a \<longleftrightarrow>
     (\<forall>rec. record_ref key a = Some rec \<longrightarrow> us_live a = Some rec \<longrightarrow> \<not> ut_user_stt_session_open rec)"

lemma final_flags_settled:
  assumes "store_settled c a" "record_ref key a = Some rec" "final_ready key a" "c \<noteq> TidyOpen"
  shows "store_settled c (record_mut key final_flags a)"
  by (rule settled_record [OF assms(1,2)])
    (use assms(2-4) in \<open>simp_all add: final_flags_def final_ready_def settled_flags\<close>)

lemma inv_own_final:
  assumes inv: "agent_inv s (c, Some (key, b)) a" and rec: "record_ref key a = Some rec" and ready: "s \<Longrightarrow> final_ready key a" "c \<noteq> TidyOpen"
    and e: "se_utterance_id e = Some (ut_id rec)" "term_kind (se_kind e)"
  shows "agent_inv s (c, None) (agent_emit e (record_mut key final_flags a))"
proof -
  have foc: "\<not> ut_terminal rec" if s
    using inv that focused_ref(1) [OF _ rec] by (auto simp: agent_inv_def)
  have "agent_inv s (fst (c, Some (key, b)), None) (agent_emit e (record_mut key final_flags a))"
  proof (rule inv_terminal [OF inv rec _ _ e])
    show "store_settled (fst (c, Some (key, b))) (record_mut key final_flags a)" if s
      using inv that by (intro final_flags_settled [OF _ rec ready(1)]) (use ready(2) in \<open>auto simp: agent_inv_def\<close>)
  qed (use foc in \<open>auto simp: final_flags_def\<close>)
  then show ?thesis by simp
qed

lemma inv_fresh_final:
  assumes inv: "agent_inv s (c, Some (key, b)) a" and rec: "record_ref key a = Some rec" and ready: "s \<Longrightarrow> final_ready key a" "c \<noteq> TidyOpen"
    and e: "se_utterance_id e = Some (utterance_id (us_id_seq a))" "term_kind (se_kind e)"
  shows "agent_inv s (c, None) (agent_emit e (record_mut key final_flags (a\<lparr>us_id_seq := us_id_seq a + 1\<rparr>)))"
proof -
  let ?b = "agent_emit e (a\<lparr>us_id_seq := us_id_seq a + 1\<rparr>)"
  have rb: "record_ref key ?b = Some rec" using rec by (simp add: record_ref_find all_records_def)
  have "agent_inv s (c, None) (record_mut key final_flags ?b)"
  proof (rule inv_mut_to [OF inv_fresh_terminal [OF inv e]])
    show "store_settled (fst (c, None)) (record_mut key final_flags ?b)" if s "store_settled (fst (c, Some (key, b))) ?b"
    proof (rule final_flags_settled [OF _ rb])
      show "final_ready key ?b"
        using ready(1) [OF that(1)] rec by (simp add: final_ready_def record_ref_find all_records_def)
    qed (use that(2) ready(2) in simp_all)
  qed (simp_all add: final_flags_def)
  then show ?thesis by (simp add: record_mut_emit)
qed

end
