(* ===== verification/Agent_Closing.thy ===== *)
theory Agent_Closing
  imports Agent_Invariant
begin

text \<open>
  The operations that close an utterance and those that apply a result of the STT keep \<open>agent_inv\<close>.
\<close>

section \<open>Emitting a final\<close>

lemma inv_not_strict: "agent_inv False m a \<Longrightarrow> agent_inv False m' a"
  by (simp add: agent_inv_def)

lemma phases_live: "agent_inv s m a \<Longrightarrow> us_live a = Some rec \<Longrightarrow> ut_kind rec = UttLive"
  by (simp add: agent_inv_def phases_ok_def)

lemma focus_ready: "agent_inv s (c, Some (key, True)) a \<Longrightarrow> s \<Longrightarrow> final_ready key a"
  unfolding final_ready_def agent_inv_def by (auto dest: focused_ref(2))

lemma final_ready_core: "same_ledger a b \<Longrightarrow> final_ready key b \<Longrightarrow> final_ready key a"
  by (simp add: final_ready_def same_core_cong(7)) (simp add: same_ledger_def)

lemma final_flags_eq: "(\<lambda>r. r\<lparr>ut_replay_ctx := None, ut_final_emitted := True, ut_terminal := True\<rparr>) = final_flags"
  by (simp add: fun_eq_iff final_flags_def)

lemma inv_blank_final:
  assumes inv: "agent_inv s (c, Some (key, True)) a" and w: "trim w = []"
  shows "agent_inv s (c, None) (emit_utterance_final env key w a)"
proof (cases "record_ref key a")
  case None
  then show ?thesis using inv_unfocus [OF inv] by (simp add: emit_utterance_final_def w)
next
  case (Some rec)
  let ?b = "record_mut key (\<lambda>r. r\<lparr>ut_replay_ctx := None\<rparr>) a"
  have b: "agent_inv s (c, Some (key, True)) ?b"
    by (rule inv_mut [OF _ inv]) (simp add: quiet_change_def)
  have "record_ref key ?b = Some (rec\<lparr>ut_replay_ctx := None\<rparr>)"
    by (subst record_ref_mut) (simp_all add: Some)
  from inv_empty_final [OF b this] inv_unfocus [OF b] Some show ?thesis
    by (simp add: emit_utterance_final_def w Let_def)
qed

lemma inv_text_final:
  assumes inv: "agent_inv s (c, Some (key, b)) a" and w: "trim w \<noteq> []" and c: "c \<noteq> TidyOpen"
    and ready: "s \<Longrightarrow> final_ready key a"
  shows "agent_inv s (c, None) (emit_utterance_final env key w a)"
proof -
  define a1 where "a1 = a\<lparr>va_turn_latency := snd (on_stt_final (\<lambda>_. ()) (en_now env) (va_turn_latency a))\<rparr>"
  have core: "same_ledger a1 a" by (simp add: a1_def)
  have inv1: "agent_inv s (c, Some (key, b)) a1" and ready1: "s \<Longrightarrow> final_ready key a1"
    using inv_core [OF core inv] final_ready_core [OF core ready] by simp_all
  show ?thesis
  proof (cases "record_ref key a")
    case None
    then show ?thesis using inv_unfocus [OF inv1] w core
      by (simp add: emit_utterance_final_def a1_def)
  next
    case (Some rec)
    have r1: "record_ref key a1 = Some rec" using Some core by (simp add: same_core_cong(7))
    note own = inv_own_final [OF inv1 r1 ready1 c] and fresh = inv_fresh_final [OF inv1 r1 ready1 c, unfolded Suc_eq_plus1 [symmetric]]
    define ctx where "ctx = (case ut_replay_ctx rec of
        Some c \<Rightarrow> if saturating_duration_since (en_now env) (rx_set_at c) \<le> REPLAY_CONTEXT_MAX_AGE then Some c else None
      | None \<Rightarrow> None)"
    have eq: "emit_utterance_final env key w a = fire_terminal_waiter key True
       (agent_emit (case (ut_kind rec, ctx) of
             (UttReplay replaces, _) \<Rightarrow> user_speech_final_held_replay w (Some (ut_id rec)) replaces
           | (UttLive, None) \<Rightarrow> user_speech_final w (Some (ut_id rec))
           | (UttLive, Some c) \<Rightarrow>
               (case rx_replaces_utterance_id c of
                  Some i \<Rightarrow> user_speech_final_replay w (Some (utterance_id (us_id_seq a1))) i
                | None \<Rightarrow> user_speech_final_held_replay w (Some (utterance_id (us_id_seq a1))) None))
         (record_mut key final_flags
           (if ut_kind rec = UttLive \<and> ctx \<noteq> None then a1\<lparr>us_id_seq := us_id_seq a1 + 1\<rparr> else a1)))"
      unfolding emit_utterance_final_def if_not_P [OF w] a1_def [symmetric] ctx_def [symmetric] Let_def
        r1 option.case final_flags_eq by (rule refl)
    show ?thesis
      unfolding eq
    proof (rule inv_fire_waiter, cases "ut_kind rec")
      case UttLive
      then show "agent_inv s (c, None) (agent_emit (case (ut_kind rec, ctx) of
             (UttReplay replaces, _) \<Rightarrow> user_speech_final_held_replay w (Some (ut_id rec)) replaces
           | (UttLive, None) \<Rightarrow> user_speech_final w (Some (ut_id rec))
           | (UttLive, Some c) \<Rightarrow>
               (case rx_replaces_utterance_id c of
                  Some i \<Rightarrow> user_speech_final_replay w (Some (utterance_id (us_id_seq a1))) i
                | None \<Rightarrow> user_speech_final_held_replay w (Some (utterance_id (us_id_seq a1))) None))
         (record_mut key final_flags
           (if ut_kind rec = UttLive \<and> ctx \<noteq> None then a1\<lparr>us_id_seq := us_id_seq a1 + 1\<rparr> else a1)))"
      proof (cases ctx)
        case None
        with UttLive show ?thesis by (simp add: own event_builders kind_defs)
      next
        case (Some x)
        with UttLive show ?thesis
          by (cases "rx_replaces_utterance_id x") (simp_all add: fresh event_builders kind_defs del: utterance_id_inj)
      qed
    qed (simp add: own event_builders kind_defs)
  qed
qed

lemma inv_utterance_final:
  assumes "agent_inv s (c, Some (key, True)) a" "c \<noteq> TidyOpen"
  shows "agent_inv s (c, None) (emit_utterance_final env key w a)"
  using inv_blank_final [OF assms(1)] inv_text_final [OF assms(1) _ assms(2) focus_ready [OF assms(1)]] by blast

section \<open>What language identification leaves alone\<close>

definition turn_view :: "'f agent \<Rightarrow> nat option \<times> 'f voice_agent_config \<times> bool \<times> bool \<times> stt_hold option \<times> bool" where
  "turn_view a = (live_key a, va_config a, va_stt_enabled a, va_actor a, va_stt_hold a, ts_vad_speaking a)"

lemma turn_view_sel:
  assumes "turn_view b = turn_view a"
  shows "live_key b = live_key a" "va_config b = va_config a" "va_stt_enabled b = va_stt_enabled a"
    "va_stt_hold b = va_stt_hold a" "ts_vad_speaking b = ts_vad_speaking a"
    "stt_pipeline_active b = stt_pipeline_active a"
  using assms by (simp_all add: turn_view_def stt_pipeline_active_def)

lemma turn_view_simps [simp]:
  "turn_view (agent_emit e a) = turn_view a"
  "turn_view (a\<lparr>va_lid_jobs := j\<rparr>) = turn_view a"
  "turn_view (a\<lparr>va_lid_last_emitted := l\<rparr>) = turn_view a"
  "turn_view (a\<lparr>us_lid_retained := rs\<rparr>) = turn_view a"
  by (simp_all add: turn_view_def agent_emit_def live_key_def)

lemma turn_view_lid_mut [simp]: "turn_view (lid_mut key f a) = turn_view a"
  by (simp add: turn_view_def lid_mut_def record_mut_def live_with_key_def live_key_def split: option.split)

lemma turn_view_drop [simp]: "turn_view (drop_retained key a) = turn_view a"
  by (simp add: drop_retained_def)

lemma turn_view_skipped [simp]:
  "turn_view (emit_language_id_skipped key reason n a) = turn_view a"
  "turn_view (emit_language_id_skipped_once key reason a) = turn_view a"
  by (simp_all add: emit_language_id_skipped_def emit_language_id_skipped_once_def split: option.split)

lemma turn_view_spawn [simp]:
  "turn_view (defer_identify key a) = turn_view a" "turn_view (spawn_job cfg cont key rec a) = turn_view a"
  by (simp_all add: defer_identify_def spawn_job_def Let_def)

lemma turn_view_identify [simp]:
  "turn_view (snd (spawn_identify_language env key force a)) = turn_view a"
  "turn_view (snd (try_spawn_default_mode_lid env key force a)) = turn_view a"
  by (simp_all add: spawn_identify_language_def try_spawn_default_mode_lid_def Let_def split: option.split)

lemma turn_view_report [simp]: "turn_view (snd (report_language job rec result a)) = turn_view a"
  by (simp add: report_language_def Let_def split: lid_result.split)

lemma turn_view_apply [simp]: "turn_view (apply_identify job result a) = turn_view a"
proof (cases "record_ref (lj_key job) a")
  case (Some rec)
  obtain u b where r: "report_language job rec result a = (u, b)" by fastforce
  have "turn_view b = turn_view a" using turn_view_report [of job rec result a] by (simp add: r)
  then show ?thesis by (simp add: apply_identify_def Some r Let_def)
qed (simp add: apply_identify_def)

lemma turn_view_await [simp]:
  "turn_view (finish_identify key result a) = turn_view a" "turn_view (await_lid_gate env key a) = turn_view a"
  "turn_view (prepare_lid_before_close env key a) = turn_view a"
  by (simp_all add: finish_identify_def await_lid_gate_def prepare_lid_before_close_def split: option.split)

lemma turn_view_speaking_end [simp]:
  "turn_view (emit_user_speaking_end_for key a) = turn_view a"
  "turn_view (emit_user_speaking_end_after_lid_gate env key a) = turn_view a"
  "turn_view (emit_speaking_end env key w a) = turn_view a"
  "turn_view (maybe_start_lid_at_speech_end env a) = turn_view a"
  by (simp_all add: emit_user_speaking_end_for_def emit_user_speaking_end_after_lid_gate_def emit_speaking_end_def
      maybe_start_lid_at_speech_end_def Let_def split: option.split)

section \<open>C1\<close>

text \<open>C1 leaves the live record terminal and without a final until it has moved to \<open>closing\<close>.\<close>

lemma inv_tidy_none:
  "agent_inv s (Untidy, foc) a \<Longrightarrow> us_live a = None \<Longrightarrow> agent_inv s (c, foc) a"
  by (simp add: agent_inv_def store_settled_def)

lemma settled_untidy: "store_settled c a \<Longrightarrow> store_settled Untidy a"
  by (simp add: store_settled_def live_ok_def)

lemma record_mut_live:
  "us_live a = Some r \<Longrightarrow> ut_key r = key \<Longrightarrow> record_mut key f a = a\<lparr>us_live := Some (f r)\<rparr>"
  by (simp add: record_mut_def live_with_key_def)

definition c1_flags :: "bool \<Rightarrow> stt_utterance \<Rightarrow> stt_utterance" where
  "c1_flags session r = (if session then r\<lparr>ut_not_found_emitted := True, ut_terminal := True\<rparr> else r)
     \<lparr>ut_stream_open := False, ut_user_stt_session_open := False, ut_vad_triggered := False\<rparr>"

lemma c1_flags_sel [simp]:
  "ut_key (c1_flags b r) = ut_key r" "ut_id (c1_flags b r) = ut_id r" "ut_phase (c1_flags b r) = ut_phase r"
  "ut_kind (c1_flags b r) = ut_kind r" "ut_speaking_start_emitted (c1_flags b r) = ut_speaking_start_emitted r"
  "ut_lid (c1_flags b r) = ut_lid r" "ut_terminal (c1_flags b r) = (b \<or> ut_terminal r)"
  "ut_final_emitted (c1_flags b r) = ut_final_emitted r" "ut_partials_emitted (c1_flags b r) = ut_partials_emitted r"
  "ut_not_found_emitted (c1_flags b r) = (b \<or> ut_not_found_emitted r)"
  "ut_last_partial_text (c1_flags b r) = ut_last_partial_text r"
  "\<not> ut_user_stt_session_open (c1_flags b r)"
  by (simp_all add: c1_flags_def)

text \<open>What follows the terminal event of a record: other events and fields.\<close>

lemma inv_c1_record:
  assumes inv: "agent_inv s (Tidy, None) a" and live: "us_live a = Some rec"
    and np: "s \<Longrightarrow> \<not> ut_partials_emitted rec"
  shows "agent_inv s (Untidy, None)
    (let a = a\<lparr>us_live := Some (c1_flags (ut_user_stt_session_open rec) rec)\<rparr>
     in if ut_user_stt_session_open rec
        then agent_emit (user_stt_not_found_with_reason ''no_partial'' (Some (ut_id rec))) a else a)"
proof (cases "ut_user_stt_session_open rec")
  case True
  have ref: "record_ref (ut_key rec) a = Some rec" by (rule record_ref_in_live [OF live]) simp
  have st: "s \<Longrightarrow> live_settled rec"
    using inv live by (simp add: agent_inv_def store_settled_def live_ok_def)
  have "agent_inv s (fst (Untidy, None :: (nat \<times> bool) option), None)
      (agent_emit (user_stt_not_found_with_reason ''no_partial'' (Some (ut_id rec)))
        (record_mut (ut_key rec) (c1_flags True) a))"
  proof (rule inv_terminal [OF inv_untidy [OF inv] ref])
    show "store_settled (fst (Untidy, None :: (nat \<times> bool) option)) (record_mut (ut_key rec) (c1_flags True) a)" if s
      using inv that np live
      by (intro settled_record [OF _ ref]) (auto simp: agent_inv_def settled_flags dest: settled_untidy)
  qed (use True st in \<open>auto simp: live_settled_def event_builders kind_defs\<close>)
  with True show ?thesis by (simp add: record_mut_live [OF live])
next
  case False
  have "agent_inv s (Untidy, None) (a\<lparr>us_live := Some (c1_flags False rec)\<rparr>)"
  proof (rule inv_live_to [OF inv live])
    show "live_ok (fst (Untidy, None)) (c1_flags False rec) \<and> record_settled (c1_flags False rec)"
      if "record_settled rec"
      using that by (simp add: settled_flags partial_text_def)
  qed simp_all
  with False show ?thesis by simp
qed

lemma agent_emit_fields [simp]:
  "va_stt_hold (agent_emit e a) = va_stt_hold a" "ts_vad_speaking (agent_emit e a) = ts_vad_speaking a"
  "va_config (agent_emit e a) = va_config a" "va_stt_enabled (agent_emit e a) = va_stt_enabled a"
  by (simp_all add: agent_emit_def)

lemma agent_send_fields [simp]:
  "us_live (agent_send c a) = us_live a" "us_closing (agent_send c a) = us_closing a"
  "us_lid_retained (agent_send c a) = us_lid_retained a" "va_stt_hold (agent_send c a) = va_stt_hold a"
  "us_next_key (agent_send c a) = us_next_key a" "us_id_seq (agent_send c a) = us_id_seq a"
  by (simp_all add: agent_send_def)

text \<open>The events and the state after the record was marked, as one chain of steps.\<close>

definition c1_marked :: "stt_utterance \<Rightarrow> 'f agent \<Rightarrow> 'f agent" where
  "c1_marked rec a = (clear_utterance_finalize_timer (clear_stt_listen_timer
     (a\<lparr>us_live := Some (c1_flags (ut_user_stt_session_open rec) rec)\<rparr>)))\<lparr>ts_barge_awaiting_stt_partial := False\<rparr>"

definition c1_events :: "stt_utterance \<Rightarrow> 'f agent \<Rightarrow> 'f agent" where
  "c1_events rec a =
     (let i = Some (ut_id rec);
          a = (if ut_stream_open rec
               then agent_emit (with_utterance_id i (stt_stream_end_with_reason ''listen_timeout'')) a else a)
      in if ut_user_stt_session_open rec
         then agent_emit (with_utterance_id i user_stt_end)
                (agent_emit (user_stt_not_found_with_reason ''no_partial'' i) a)
         else a)"

definition c1_speaking_end :: "step_env \<Rightarrow> bool \<Rightarrow> stt_utterance \<Rightarrow> 'f agent \<Rightarrow> 'f agent" where
  "c1_speaking_end env speaking rec a =
     (if \<not> speaking \<and> \<not> ut_speaking_end_emitted rec
      then emit_user_speaking_end_after_lid_gate env (ut_key rec)
             (record_mut (ut_key rec) (\<lambda>r. r\<lparr>ut_speaking_end_emitted := True\<rparr>) a)
      else a)"

definition c1_close :: "nat \<Rightarrow> bool \<Rightarrow> 'f agent \<Rightarrow> 'f agent" where
  "c1_close key speaking a =
     (let a = agent_send (CEndUtterance key) a
      in case us_live a of
           None \<Rightarrow> a
         | Some r \<Rightarrow>
             if \<not> speaking \<and> ut_key r = key
             then a\<lparr>us_live := None, us_closing := us_closing a @
                    [r\<lparr>ut_phase := UttClosing, ut_close_reason := ''listen_timeout''\<rparr>]\<rparr>
             else a)"

lemma close_not_found_eq:
  assumes "us_live a = Some rec"
  shows "close_stt_stream_not_found env a =
    (let b = c1_speaking_end env (ts_vad_speaking a) rec (c1_events rec (c1_marked rec a))
     in if va_stt_hold a \<noteq> None then b else c1_close (ut_key rec) (ts_vad_speaking a) b)"
  unfolding close_stt_stream_not_found_def assms option.case c1_speaking_end_def c1_close_def c1_events_def
    c1_marked_def c1_flags_def Let_def
  by (rule refl)

lemma inv_c1_events:
  assumes "agent_inv s (Tidy, None) a" "us_live a = Some rec" "s \<Longrightarrow> \<not> ut_partials_emitted rec"
  shows "agent_inv s (Untidy, None) (c1_events rec (c1_marked rec a))"
proof -
  let ?m = "a\<lparr>us_live := Some (c1_flags (ut_user_stt_session_open rec) rec)\<rparr>"
  let ?e = "\<lambda>b. if ut_stream_open rec
      then agent_emit (with_utterance_id (Some (ut_id rec)) (stt_stream_end_with_reason ''listen_timeout'')) b else b"
  let ?x = "if ut_stream_open rec
      then agent_emit (with_utterance_id (Some (ut_id rec)) (stt_stream_end_with_reason ''listen_timeout'')) a else a"
  have x: "agent_inv s (Tidy, None) ?x" "us_live ?x = Some rec"
    using assms(1,2) by (auto intro: inv_emit)
  have eq: "?x\<lparr>us_live := Some (c1_flags (ut_user_stt_session_open rec) rec)\<rparr> = ?e ?m"
    by (simp add: agent_emit_def)
  have e: "agent_inv s (Untidy, None)
    (if ut_user_stt_session_open rec
     then agent_emit (user_stt_not_found_with_reason ''no_partial'' (Some (ut_id rec))) (?e ?m) else ?e ?m)"
    using inv_c1_record [OF x assms(3)] unfolding eq Let_def .
  have c: "same_ledger (c1_marked rec a) ?m"
    by (simp add: same_ledger_def c1_marked_def clear_utterance_finalize_timer_def clear_stt_listen_timer_def)
  have ce: "same_ledger (?e (c1_marked rec a)) (?e ?m)" using c by (simp add: agent_emit_core)
  show ?thesis
  proof (cases "ut_user_stt_session_open rec")
    case True
    have "agent_inv s (Untidy, None) (agent_emit (user_stt_not_found_with_reason ''no_partial'' (Some (ut_id rec)))
        (?e (c1_marked rec a)))"
      by (rule inv_core [OF agent_emit_core [OF ce]]) (use e True in simp)
    then have "agent_inv s (Untidy, None) (agent_emit (with_utterance_id (Some (ut_id rec)) user_stt_end)
        (agent_emit (user_stt_not_found_with_reason ''no_partial'' (Some (ut_id rec))) (?e (c1_marked rec a))))"
      by (rule inv_emit [rotated]) simp
    with True show ?thesis by (simp add: c1_events_def Let_def)
  next
    case False
    have "agent_inv s (Untidy, None) (?e (c1_marked rec a))"
      by (rule inv_core [OF ce]) (use e False in simp)
    with False show ?thesis by (simp add: c1_events_def Let_def)
  qed
qed

lemma live_key_after_c1: "live_key (c1_speaking_end env sp rec (c1_events rec (c1_marked rec a))) = Some (ut_key rec)"
proof -
  have emit: "live_key (agent_emit e b) = live_key b" for e and b :: "'f agent" by (simp add: live_key_def)
  have "live_key (c1_marked rec a) = Some (ut_key rec)"
    by (simp add: c1_marked_def live_key_def clear_utterance_finalize_timer_def clear_stt_listen_timer_def)
  then have "live_key (c1_events rec (c1_marked rec a)) = Some (ut_key rec)"
    by (simp add: c1_events_def Let_def emit)
  then show ?thesis
    by (simp add: c1_speaking_end_def turn_view_sel(1) [OF turn_view_speaking_end(2)])
      (auto simp: record_mut_def live_with_key_def live_key_def split: option.split)
qed

lemma inv_c1_close:
  assumes b: "agent_inv s (Untidy, None) b" "live_key b = Some key" and sp: "s \<Longrightarrow> \<not> speaking"
  shows "agent_inv s (Tidy, None) (c1_close key speaking b)"
proof -
  obtain r where r: "us_live b = Some r" "ut_key r = key" using b(2) by (auto simp: live_key_def)
  let ?b = "agent_send (CEndUtterance key) b"
  have i: "agent_inv s (Untidy, None) ?b" by (rule inv_agent_send [OF b(1)])
  show ?thesis
  proof (cases speaking)
    case True
    with sp have "\<not> s" by blast
    with i r True show ?thesis by (auto simp: c1_close_def Let_def intro: inv_not_strict)
  next
    case False
    have "agent_inv s (Untidy, None) (?b\<lparr>us_live := None, us_closing := us_closing ?b @
        [r\<lparr>ut_phase := UttClosing, ut_close_reason := ''listen_timeout''\<rparr>]\<rparr>)"
      by (rule inv_close [OF i]) (simp add: r)
    from inv_tidy_none [OF this] False r show ?thesis by (simp add: c1_close_def Let_def)
  qed
qed

lemma inv_close_not_found:
  assumes a: "agent_inv s (Tidy, None) a"
    and s: "s \<Longrightarrow> \<not> ts_vad_speaking a \<and> va_stt_hold a = None \<and> \<not> live_flag ut_partials_emitted a"
  shows "agent_inv s (Tidy, None) (close_stt_stream_not_found env a)"
proof (cases "us_live a")
  case None
  then show ?thesis using a by (simp add: close_stt_stream_not_found_def)
next
  case (Some rec)
  let ?b = "c1_speaking_end env (ts_vad_speaking a) rec (c1_events rec (c1_marked rec a))"
  have np: "s \<Longrightarrow> \<not> ut_partials_emitted rec" using s Some by (simp add: live_flag_def)
  have b: "agent_inv s (Untidy, None) ?b"
    using inv_c1_events [OF a Some np] unfolding c1_speaking_end_def
    by (intro inv_intros inv_mut) (simp_all add: quiet_change_def)
  show ?thesis
  proof (cases "va_stt_hold a")
    case None
    have "agent_inv s (Tidy, None) (c1_close (ut_key rec) (ts_vad_speaking a) ?b)"
      by (rule inv_c1_close [OF b live_key_after_c1]) (use s in blast)
    with None show ?thesis by (simp add: close_not_found_eq [OF Some])
  next
    case (Some h)
    with s have "\<not> s" by auto
    with b Some show ?thesis
      by (simp add: close_not_found_eq [OF \<open>us_live a = Some rec\<close>]) (auto intro: inv_not_strict)
  qed
qed

section \<open>The close of an utterance\<close>

lemma inv_send_tail [inv_intros]: "agent_inv s t a \<Longrightarrow> agent_inv s t (send_tail_chunk c a)"
  unfolding send_tail_chunk_def by (intro inv_intros)

lemma inv_snapshot [inv_intros]: "agent_inv s t a \<Longrightarrow> agent_inv s t (commit_utterance_replay_snapshot now i a)"
  unfolding commit_utterance_replay_snapshot_def Let_def by (intro inv_intros)

lemma inv_pending_swap [inv_intros]: "agent_inv s t a \<Longrightarrow> agent_inv s t (snd (send_pending_swap a))"
  unfolding send_pending_swap_def by (auto intro!: inv_intros split: option.split)

text \<open>Nothing between the record's leaving \<open>live\<close> and its arrival in \<open>closing\<close> touches either.\<close>

definition close_effects :: "step_env \<Rightarrow> bool \<Rightarrow> stt_utterance \<Rightarrow> 'f agent \<Rightarrow> 'f agent" where
  "close_effects env with_tail rec a = commit_utterance_replay_snapshot (en_now env) (ut_id rec)
     (if with_tail \<and> va_stt_enabled a then fold send_tail_chunk (endpoint_chunks a) a else a)"

lemma same_core_refl [simp]: "same_ledger a a"
  by (simp add: same_ledger_def)

lemma same_core_trans: "same_ledger a b \<Longrightarrow> same_ledger b c \<Longrightarrow> same_ledger a c"
  by (simp add: same_ledger_def)

lemma same_core_send [simp]: "same_ledger (agent_send c a) a" "same_ledger (send_stt_audio b a) a"
  by (simp_all add: same_ledger_def agent_send_def send_stt_audio_def)

lemma same_core_fold: "(\<And>x a. same_ledger (f x a) a) \<Longrightarrow> same_ledger (fold f xs a) a"
  by (induction xs arbitrary: a) (auto intro: same_core_trans)

lemma same_core_effects: "same_ledger (close_effects env w rec a) a"
proof -
  have "same_ledger (send_tail_chunk c b) b" for c and b :: "'f agent"
    unfolding send_tail_chunk_def by (rule same_core_trans [OF same_core_send(2)]) simp
  then have "same_ledger (if w \<and> va_stt_enabled a then fold send_tail_chunk (endpoint_chunks a) a else a) a"
    by (auto intro: same_core_fold)
  then show ?thesis
    unfolding close_effects_def commit_utterance_replay_snapshot_def Let_def by (simp add: same_ledger_def)
qed

lemma inv_moved:
  assumes "same_ledger b (a\<lparr>us_live := None\<rparr>)" "agent_inv s t a" "us_live a = Some rec"
  shows "agent_inv s t (b\<lparr>us_closing := us_closing b @ [rec\<lparr>ut_phase := UttClosing, ut_close_reason := c\<rparr>]\<rparr>)"
proof (rule inv_core [OF _ inv_close [OF assms(2,3)]])
  show "same_ledger (b\<lparr>us_closing := us_closing b @ [rec\<lparr>ut_phase := UttClosing, ut_close_reason := c\<rparr>]\<rparr>)
     (a\<lparr>us_live := None, us_closing := us_closing a @ [rec\<lparr>ut_phase := UttClosing, ut_close_reason := c\<rparr>]\<rparr>)"
    using assms(1) by (simp add: same_ledger_def)
qed

lemma inv_begin_close [inv_intros]:
  assumes a: "agent_inv s t a"
  shows "agent_inv s t (snd (begin_utterance_close env reason w a))"
proof (cases "va_stt_hold a")
  case None
  let ?r = "reset_turn_close_flags a"
  have r: "agent_inv s t ?r" using a by (intro inv_intros)
  show ?thesis
  proof (cases "us_live ?r")
    case None
    with \<open>va_stt_hold a = None\<close> r show ?thesis by (simp add: begin_utterance_close_def Let_def)
  next
    case (Some rec)
    let ?b = "close_effects env w rec (?r\<lparr>us_live := None\<rparr>)"
    have m: "agent_inv s t (?b\<lparr>us_closing := us_closing ?b @ [rec\<lparr>ut_phase := UttClosing, ut_close_reason := reason\<rparr>]\<rparr>)"
      by (rule inv_moved [OF same_core_effects r Some])
    have "snd (begin_utterance_close env reason w a) = snd (send_pending_swap (agent_send (CEndUtterance (ut_key rec))
        (?b\<lparr>us_closing := us_closing ?b @ [rec\<lparr>ut_phase := UttClosing, ut_close_reason := reason\<rparr>]\<rparr>)))"
      unfolding begin_utterance_close_def \<open>va_stt_hold a = None\<close> option.case Let_def Some close_effects_def snd_conv
      by (rule refl)
    then show ?thesis using m by (simp only:) (intro inv_intros)
  qed
next
  case (Some h)
  then show ?thesis unfolding begin_utterance_close_def by (auto intro: inv_core [OF _ a])
qed

lemma begin_close_held:
  "fst (begin_utterance_close env reason w a) = CloseHeld \<Longrightarrow> va_stt_hold (snd (begin_utterance_close env reason w a)) \<noteq> None"
  by (auto simp: begin_utterance_close_def Let_def split: option.splits)

definition close_mode :: "nat \<Rightarrow> 'a utt_store_scheme \<Rightarrow> tidiness" where
  "close_mode key s = (if live_with_key key s = None then Tidy else Untidy)"

lemma close_record_sel [simp]:
  "ut_key (close_record p r) = ut_key r" "ut_id (close_record p r) = ut_id r" "ut_phase (close_record p r) = ut_phase r"
  "ut_kind (close_record p r) = ut_kind r" "ut_speaking_start_emitted (close_record p r) = ut_speaking_start_emitted r"
  "ut_lid (close_record p r) = ut_lid r" "ut_terminal (close_record p r) = (cp_not_found p \<or> ut_terminal r)"
  "ut_final_emitted (close_record p r) = ut_final_emitted r"
  "ut_partials_emitted (close_record p r) = ut_partials_emitted r"
  "ut_not_found_emitted (close_record p r) = (cp_not_found p \<or> ut_not_found_emitted r)"
  "ut_last_partial_text (close_record p r) = ut_last_partial_text r"
  "partial_text (close_record p r) = partial_text r"
  "\<not> ut_user_stt_session_open (close_record p r)"
  by (simp_all add: close_record_def partial_text_def)

lemma plan_close_sel:
  "cp_not_found (plan_close h rec) \<Longrightarrow> \<not> ut_final_emitted rec \<and> \<not> h \<and> trim (partial_text rec) = [] \<and> \<not> ut_not_found_emitted rec"
  "cp_forced_text (plan_close h rec) = Some t \<Longrightarrow>
     \<not> ut_final_emitted rec \<and> ut_partials_emitted rec \<and> trim (partial_text rec) \<noteq> [] \<and> t = partial_text rec"
  by (auto simp: plan_close_def Let_def partial_text_def split: if_splits)

text \<open>The record after its events: \<open>finish_record_close\<close> up to the branch on the forced text.\<close>

definition closed_record :: "bool \<Rightarrow> close_plan \<Rightarrow> stt_utterance \<Rightarrow> 'f agent \<Rightarrow> 'f agent" where
  "closed_record inline_live plan rec a =
     emit_close_events plan rec
       ((if inline_live
         then clear_utterance_finalize_timer (clear_stt_listen_timer (record_mut (ut_key rec) (close_record plan) a))
         else record_mut (ut_key rec) (close_record plan) a)\<lparr>ts_barge_awaiting_stt_partial := False\<rparr>)"

lemma inv_close_not_found_event:
  assumes inv: "agent_inv s (Tidy, None) a" and rec: "record_ref key a = Some rec" "s \<Longrightarrow> record_settled rec"
    and plan: "plan = plan_close h rec" "cp_not_found plan"
  shows "agent_inv s (close_mode key a, None)
     (agent_emit (user_stt_not_found_with_reason ''no_transcript'' (Some (ut_id rec))) (record_mut key (close_record plan) a))"
proof -
  have p: "\<not> ut_final_emitted rec" "trim (partial_text rec) = []" "\<not> ut_not_found_emitted rec"
    using plan_close_sel(1) [of h rec] plan by simp_all
  have base: "agent_inv s (close_mode key a, None) a"
    using inv inv_untidy [OF inv] by (simp add: close_mode_def)
  have "agent_inv s (fst (close_mode key a, None :: (nat \<times> bool) option), None)
     (agent_emit (user_stt_not_found_with_reason ''no_transcript'' (Some (ut_id rec))) (record_mut key (close_record plan) a))"
  proof (rule inv_terminal [OF base rec(1)])
    show "\<not> ut_terminal rec" if s using rec(2) [OF that] p by (simp add: record_settled_def)
    show "store_settled (fst (close_mode key a, None :: (nat \<times> bool) option)) (record_mut key (close_record plan) a)" if s
    proof (rule settled_record [OF _ rec(1)])
      show "store_settled (close_mode key a) a" using base that by (simp add: agent_inv_def)
      have "ut_key rec = key" using rec(1) find_key_in unfolding record_ref_find by blast
      then show "live_ok (fst (close_mode key a, None)) (close_record plan rec)" if "us_live a = Some rec"
        using that by (simp add: close_mode_def live_with_key_def live_ok_def)
    qed (use plan p in \<open>simp_all add: record_settled_def\<close>)
  qed (use plan in \<open>simp_all add: event_builders kind_defs\<close>)
  then show ?thesis by simp
qed

lemma inv_close_session:
  assumes inv: "agent_inv s (Tidy, None) a" and rec: "record_ref key a = Some rec" "s \<Longrightarrow> record_settled rec"
    and plan: "\<not> cp_not_found plan"
  shows "agent_inv s (close_mode key a, None) (record_mut key (close_record plan) a)"
proof -
  have base: "agent_inv s (close_mode key a, None) a"
    using inv inv_untidy [OF inv] by (simp add: close_mode_def)
  show ?thesis
  proof (rule inv_mut_to [OF base])
    show "store_settled (fst (close_mode key a, None)) (record_mut key (close_record plan) a)"
      if s "store_settled (fst (close_mode key a, None)) a"
      by (rule settled_record [OF that(2) rec(1)])
        (use rec(2) [OF that(1)] plan in \<open>auto simp: settled_flags\<close>)
  qed simp_all
qed

lemma inv_closed_record:
  assumes inv: "agent_inv s (Tidy, None) a" and rec: "record_ref key a = Some rec" "s \<Longrightarrow> record_settled rec"
    and plan: "plan = plan_close h rec"
  shows "agent_inv s (close_mode key a, None) (closed_record inline_live plan rec a)"
proof -
  have key: "ut_key rec = key" using rec(1) find_key_in unfolding record_ref_find by blast
  let ?m = "record_mut key (close_record plan) a"
  let ?t = "(if inline_live then clear_utterance_finalize_timer (clear_stt_listen_timer ?m) else ?m)
      \<lparr>ts_barge_awaiting_stt_partial := False\<rparr>"
  let ?e = "\<lambda>b. if cp_stream_end plan
      then agent_emit (with_utterance_id (Some (ut_id rec)) (stt_stream_end_with_reason (ut_close_reason rec))) b else b"
  let ?n = "\<lambda>b. if cp_not_found plan
      then agent_emit (user_stt_not_found_with_reason ''no_transcript'' (Some (ut_id rec))) b else b"
  have a: "agent_inv s (Tidy, None) (?e a)" using inv by (auto intro: inv_emit)
  have r: "record_ref key (?e a) = Some rec" using rec(1) by simp
  have cm: "close_mode key (?e a) = close_mode key a"
    by (simp add: close_mode_def live_with_key_def)
  have "agent_inv s (close_mode key (?e a), None) (?n (record_mut key (close_record plan) (?e a)))"
    using inv_close_not_found_event [OF a r rec(2) plan] inv_close_session [OF a r rec(2)] by auto
  then have n: "agent_inv s (close_mode key a, None) (?n (?e ?m))"
    unfolding cm by (simp add: record_mut_emit split: if_splits)
  have "same_ledger ?t ?m"
    by (simp add: same_ledger_def clear_utterance_finalize_timer_def clear_stt_listen_timer_def)
  then have "same_ledger (?n (?e ?t)) (?n (?e ?m))" by (simp add: agent_emit_core)
  then have "agent_inv s (close_mode key a, None) (?n (?e ?t))" by (rule inv_core [OF _ n])
  then show ?thesis
    unfolding closed_record_def emit_close_events_def Let_def key by (auto intro: inv_emit)
qed

lemma closed_record_live:
  "live_with_key key (closed_record i plan rec a) = live_with_key key (record_mut (ut_key rec) (close_record plan) a)"
  "record_ref key (closed_record i plan rec a) = record_ref key (record_mut (ut_key rec) (close_record plan) a)"
  "us_closing (closed_record i plan rec a) = us_closing (record_mut (ut_key rec) (close_record plan) a)"
  by (simp_all add: closed_record_def emit_close_events_def Let_def record_ref_find all_records_def live_with_key_def
      clear_utterance_finalize_timer_def clear_stt_listen_timer_def)

lemma live_with_key_mut:
  "(\<And>r. ut_key (f r) = ut_key r) \<Longrightarrow> live_with_key k (record_mut key f s) = None \<longleftrightarrow> live_with_key k s = None"
  by (auto simp: record_mut_def live_with_key_def split: option.splits if_splits)

lemma settled_live_ok: "agent_inv s (c, foc) a \<Longrightarrow> s \<Longrightarrow> us_live a = Some r \<Longrightarrow> live_ok c r"
  by (simp add: agent_inv_def store_settled_def)

text \<open>A later change of the closed record makes the live record tidy again.\<close>

lemma inv_tidy_record:
  assumes inv: "agent_inv s (c, None) a" and rec: "record_ref key a = Some rec"
    and c: "live_with_key key a = None \<Longrightarrow> c = Tidy"
    and f: "\<And>r. ut_key (f r) = ut_key r \<and> ut_id (f r) = ut_id r \<and> ut_phase (f r) = ut_phase r \<and>
        ut_kind (f r) = ut_kind r \<and> (ut_speaking_start_emitted r \<longrightarrow> ut_speaking_start_emitted (f r)) \<and>
        (skip_flag r \<longrightarrow> skip_flag (f r)) \<and> (ut_terminal r \<longrightarrow> ut_terminal (f r))"
    and ok: "s \<Longrightarrow> us_live a = Some rec \<Longrightarrow> live_settled (f rec)" "s \<Longrightarrow> record_settled (f rec)"
  shows "agent_inv s (Tidy, None) (record_mut key f a)"
proof (rule inv_mut_to [OF inv f])
  show "store_settled (fst (Tidy, None)) (record_mut key f a)" if s "store_settled (fst (c, None)) a"
    by (rule settled_record [OF that(2) rec]) (use ok [OF that(1)] c in \<open>simp_all add: live_ok_def\<close>)
qed simp_all

lemma inv_finish_with_partial:
  assumes inv: "agent_inv s (c, None) a" and rec: "record_ref key a = Some rec"
    and c: "live_with_key key a = None \<Longrightarrow> c = Tidy"
    and nt: "s \<Longrightarrow> \<not> ut_terminal rec" "\<not> ut_user_stt_session_open rec"
  shows "pred_option (agent_inv s (Tidy, None)) (finish_with_partial env key i w t a)"
proof -
  let ?f = "\<lambda>r. r\<lparr>ut_speaking_end_emitted := True, ut_final_emitted := True\<rparr>"
  let ?b = "record_mut key ?f a"
  have b: "agent_inv s (Tidy, None) ?b"
    by (rule inv_tidy_record [OF inv rec c]) (use nt in \<open>simp_all add: settled_flags\<close>)
  have rb: "record_ref key ?b = Some (?f rec)" by (subst record_ref_mut) (simp_all add: rec)
  have foc: "agent_inv s (Tidy, Some (key, True)) ?b"
    by (rule inv_focus [OF b rb]) (use nt in simp)
  show ?thesis
    unfolding finish_with_partial_def Let_def
    by (cases "debug_preview t") (auto intro!: inv_utterance_final inv_speaking_end inv_fields foc)
qed

lemma inv_finish_without_text:
  assumes inv: "agent_inv s (c, None) a" and rec: "record_ref key a = Some rec"
    and c: "live_with_key key a = None \<Longrightarrow> c = Tidy"
    and st: "s \<Longrightarrow> us_live a = Some rec \<Longrightarrow> ut_terminal rec \<Longrightarrow> forced \<or> ut_final_emitted rec"
      "\<not> ut_user_stt_session_open rec" "s \<Longrightarrow> record_settled rec"
  shows "agent_inv s (Tidy, None) (finish_without_text env key i w forced a)"
proof -
  let ?f = "\<lambda>r. r\<lparr>ut_final_emitted := (forced \<or> ut_final_emitted r), ut_speaking_end_emitted := True\<rparr>"
  have b: "agent_inv s (Tidy, None) (record_mut key ?f a)"
    by (rule inv_tidy_record [OF inv rec c])
      (use st in \<open>auto simp: live_settled_def record_settled_def partial_text_def\<close>)
  then show ?thesis
    unfolding finish_without_text_def by (intro inv_let_val) (auto intro!: inv_speaking_end inv_fields)
qed

lemma finish_record_close_eq:
  assumes "record_ref key a = Some rec" "ut_kind rec = UttLive"
  shows "finish_record_close env key i w a =
    (let plan = plan_close (va_stt_hold a \<noteq> None) rec; b = closed_record i plan rec a
     in case cp_forced_text plan of
          Some t \<Rightarrow> finish_with_partial env key i w t b
        | None \<Rightarrow> Some (finish_without_text env key i w (cp_forced_reason plan) b))"
proof -
  have key: "ut_key rec = key" using assms(1) find_key_in unfolding record_ref_find by blast
  have k: "(ut_kind rec \<noteq> UttLive) = False" using assms(2) by simp
  show ?thesis
    unfolding finish_record_close_def assms(1) option.case k if_False closed_record_def key Let_def by (rule refl)
qed

lemma inv_finish_record:
  assumes inv: "agent_inv s (Tidy, None) a" and rs: "\<And>rec. record_ref key a = Some rec \<Longrightarrow> s \<Longrightarrow> record_settled rec"
    and forced: "\<And>rec. s \<Longrightarrow> us_live a = Some rec \<Longrightarrow> ut_key rec = key \<Longrightarrow>
       cp_not_found (plan_close (va_stt_hold a \<noteq> None) rec) \<Longrightarrow> cp_forced_reason (plan_close (va_stt_hold a \<noteq> None) rec)"
  shows "pred_option (agent_inv s (Tidy, None)) (finish_record_close env key i w a)"
proof (cases "record_ref key a")
  case None
  then show ?thesis using inv by (simp add: finish_record_close_def)
next
  case (Some rec)
  have key: "ut_key rec = key" using Some find_key_in unfolding record_ref_find by blast
  define plan where "plan = plan_close (va_stt_hold a \<noteq> None) rec"
  note sel = plan_close_sel [of "va_stt_hold a \<noteq> None" rec, folded plan_def]
  let ?b = "closed_record i plan rec a"
  let ?r = "close_record plan rec"
  have b: "agent_inv s (close_mode key a, None) ?b"
    by (rule inv_closed_record [OF inv Some rs [OF Some] plan_def])
  have rb: "record_ref key ?b = Some ?r"
    unfolding closed_record_live key by (subst record_ref_mut) (simp_all add: Some)
  have lw: "live_with_key key ?b = None \<longleftrightarrow> live_with_key key a = None"
    unfolding closed_record_live key by (rule live_with_key_mut) simp
  have c: "live_with_key key ?b = None \<Longrightarrow> close_mode key a = Tidy"
    unfolding lw by (simp add: close_mode_def)
  show ?thesis
  proof (cases "ut_kind rec = UttLive")
    case False
    then show ?thesis using inv Some by (simp add: finish_record_close_def)
  next
    case True
    have eq: "finish_record_close env key i w a =
        (case cp_forced_text plan of
           Some t \<Rightarrow> finish_with_partial env key i w t ?b
         | None \<Rightarrow> Some (finish_without_text env key i w (cp_forced_reason plan) ?b))"
      unfolding finish_record_close_eq [OF \<open>record_ref key a = Some rec\<close> True] plan_def Let_def by (rule refl)
    show ?thesis
    proof (cases "cp_forced_text plan")
      case (Some t)
      have p: "\<not> ut_final_emitted rec" "ut_partials_emitted rec" "trim (partial_text rec) \<noteq> []"
        using sel(2) [OF Some] by simp_all
      have nn: "\<not> cp_not_found plan" using p sel(1) by blast
      have "pred_option (agent_inv s (Tidy, None)) (finish_with_partial env key i w t ?b)"
        by (rule inv_finish_with_partial [OF b rb c])
          (use rs [OF \<open>record_ref key a = Some rec\<close>] p nn in \<open>auto simp: record_settled_def\<close>)
      then show ?thesis by (simp add: eq Some)
    next
      case None
      have live: "us_live a = Some rec" if "us_live ?b = Some ?r"
      proof -
        have "live_with_key key ?b \<noteq> None" using that key by (simp add: live_with_key_def)
        then have "live_with_key key a \<noteq> None" unfolding lw .
        with \<open>record_ref key a = Some rec\<close> show ?thesis
          by (auto simp: record_ref_def live_with_key_def split: option.splits if_splits)
      qed
      have "agent_inv s (Tidy, None) (finish_without_text env key i w (cp_forced_reason plan) ?b)"
      proof (rule inv_finish_without_text [OF b rb c])
        show "cp_forced_reason plan \<or> ut_final_emitted ?r" if s "us_live ?b = Some ?r" "ut_terminal ?r"
          using forced [OF that(1) live [OF that(2)] key, folded plan_def] settled_live_ok [OF inv that(1) live [OF that(2)]] that(3)
          by (auto simp: settled_flags)
        show "record_settled ?r" if s
          using rs [OF \<open>record_ref key a = Some rec\<close> that] sel(1)
          by (auto simp: record_settled_def)
      qed simp_all
      then show ?thesis by (simp add: eq None)
    qed
  qed
qed

definition forced_reason :: "stt_utterance \<Rightarrow> bool" where
  "forced_reason r \<longleftrightarrow> ut_close_reason r = ''finalize_timeout'' \<or> ut_close_reason r = ''pcm_stall''"

lemma plan_forced [simp]: "cp_forced_reason (plan_close h r) = forced_reason r"
  by (simp add: plan_close_def Let_def forced_reason_def)

lemma record_ref_settled:
  "agent_inv s m a \<Longrightarrow> s \<Longrightarrow> stt_record_ref key a \<noteq> None \<Longrightarrow> record_ref key a = Some rec \<Longrightarrow> record_settled rec"
  by (auto simp: agent_inv_def store_settled_def stt_record_ref_def record_ref_def live_with_key_def find_key_append
      dest: find_key_in split: option.splits if_splits)

lemma inv_finish_live:
  assumes inv: "agent_inv s (Tidy, None) a"
    and f: "\<And>r. s \<Longrightarrow> us_live a = Some r \<Longrightarrow> va_stt_hold a \<noteq> None \<or> forced_reason r"
  shows "pred_option (agent_inv s (Tidy, None)) (finish_live_inline env w a)"
proof (cases "us_live a")
  case (Some r)
  have "pred_option (agent_inv s (Tidy, None)) (finish_record_close env (ut_key r) True w a)"
  proof (rule inv_finish_record [OF inv])
    show "record_settled rec" if "record_ref (ut_key r) a = Some rec" s for rec
      by (rule record_ref_settled [OF inv that(2) _ that(1)]) (simp add: stt_record_ref_def live_with_key_def Some)
    show "cp_forced_reason (plan_close (va_stt_hold a \<noteq> None) rec)"
      if s "us_live a = Some rec" "cp_not_found (plan_close (va_stt_hold a \<noteq> None) rec)" for rec
      using f [OF that(1,2)] plan_close_sel(1) [OF that(3)] by simp
  qed
  then show ?thesis by (simp add: finish_live_inline_def live_key_def Some)
qed (simp add: finish_live_inline_def live_key_def inv)

lemma inv_held_close:
  assumes "agent_inv s (Tidy, None) a"
  shows "pred_option (agent_inv s (Tidy, None))
    (case begin_utterance_close env reason w a of
       (CloseHeld, a) \<Rightarrow> finish_live_inline env wl a | (_, a) \<Rightarrow> Some a)"
proof -
  obtain x b where b: "begin_utterance_close env reason w a = (x, b)" by fastforce
  have i: "agent_inv s (Tidy, None) b" using inv_begin_close [OF assms, of env reason w] by (simp add: b)
  show ?thesis
  proof (cases x)
    case CloseHeld
    then have "va_stt_hold b \<noteq> None" using begin_close_held [of env reason w a] by (simp add: b)
    with inv_finish_live [OF i] show ?thesis by (simp add: b CloseHeld)
  qed (simp_all add: b i)
qed

lemma inv_force_close:
  assumes inv: "agent_inv s (Tidy, None) a" and r: "reason = ''finalize_timeout'' \<or> reason = ''pcm_stall''"
  shows "pred_option (agent_inv s (Tidy, None)) (force_close_utterance env reason a)"
proof (cases "live_flag (\<lambda>r. ut_stream_open r \<and> \<not> ut_final_emitted r) a")
  case True
  have "agent_inv s (Tidy, None) (a\<lparr>ts_stt_endpoint_closing_started := True\<rparr>)" using inv by (intro inv_intros)
  from inv_held_close [OF this] True show ?thesis by (simp add: force_close_utterance_def)
next
  case False
  let ?b = "a\<lparr>us_live := map_option (\<lambda>r. r\<lparr>ut_close_reason := reason\<rparr>) (us_live a)\<rparr>"
  have b: "agent_inv s (Tidy, None) ?b"
  proof (cases "us_live a")
    case None
    then show ?thesis using inv by (intro inv_core [OF _ inv]) (simp add: same_ledger_def)
  next
    case (Some r)
    then show ?thesis using inv_live [OF inv Some, of "r\<lparr>ut_close_reason := reason\<rparr>"] by (simp add: quiet_to_def)
  qed
  have "pred_option (agent_inv s (Tidy, None)) (finish_live_inline env True ?b)"
    by (rule inv_finish_live [OF b]) (use r in \<open>auto simp: forced_reason_def\<close>)
  with False show ?thesis by (simp add: force_close_utterance_def)
qed

lemma inv_complete_pending:
  assumes "agent_inv s (Tidy, None) a"
  shows "pred_option (agent_inv s (Tidy, None)) (complete_pending_utterance_if_any env a)"
  using assms inv_held_close [OF assms] by (simp add: complete_pending_utterance_if_any_def)

section \<open>Results of the STT\<close>

lemma resolve_target:
  assumes inv: "agent_inv s (Tidy, None) a" and res: "resolve_transcript_target key a = (r, b)"
    and keyless: "s \<Longrightarrow> key = None \<Longrightarrow> us_closing a = [] \<Longrightarrow> \<not> live_flag ut_terminal a"
  shows "agent_inv s (Tidy, None) b"
    "r = Inr k \<Longrightarrow> \<exists>rec. record_ref k b = Some rec \<and> stt_record_ref k b \<noteq> None \<and> (s \<longrightarrow> \<not> ut_terminal rec)"
proof -
  have "agent_inv s (Tidy, None) b \<and>
    (r = Inr k \<longrightarrow> (\<exists>rec. record_ref k b = Some rec \<and> stt_record_ref k b \<noteq> None \<and> (s \<longrightarrow> \<not> ut_terminal rec)))"
  proof (cases key)
    case (Some j)
    show ?thesis
    proof (cases "stt_record_ref j a")
      case (Some rec)
      then have "record_ref j a = Some rec"
        by (auto simp: stt_record_ref_def record_ref_def find_key_append split: option.splits)
      with Some res inv \<open>key = Some j\<close> show ?thesis by (auto simp: resolve_transcript_target_def split: if_splits)
    qed (use res inv Some in \<open>auto simp: resolve_transcript_target_def\<close>)
  next
    case None
    show ?thesis
    proof (cases "us_closing a")
      case (Cons front rest)
      have ok: "store_ok a" using inv by (simp add: agent_inv_def)
      have mem: "front \<in> set (all_records a)" by (simp add: all_records_def Cons)
      have "record_ref (ut_key front) a = Some front" by (rule record_ref_unique [OF ok mem]) simp
      moreover have "stt_record_ref (ut_key front) a \<noteq> None"
        by (simp add: stt_record_ref_def Cons split: option.split)
      ultimately show ?thesis
        using res inv None Cons by (auto simp: resolve_transcript_target_def split: if_splits)
    next
      case Nil
      obtain rec c where e: "ensure_live a = (rec, c)" by fastforce
      then have l: "us_live c = Some rec" using ensure_live_live [of a] by simp
      have i: "agent_inv s (Tidy, None) c" using inv_ensure_live [OF inv] e by simp
      have nt: "s \<Longrightarrow> \<not> ut_terminal rec"
        using keyless [OF _ None Nil] e
        by (auto simp: ensure_live_def live_flag_def new_record_def Let_def split: option.splits)
      have "b = c" "r = Inr (ut_key rec)"
        using res None Nil e by (simp_all add: resolve_transcript_target_def)
      then show ?thesis using i nt l
        by (auto simp: record_ref_in_live stt_record_ref_def live_with_key_def)
    qed
  qed
  then show "agent_inv s (Tidy, None) b"
    "r = Inr k \<Longrightarrow> \<exists>rec. record_ref k b = Some rec \<and> stt_record_ref k b \<noteq> None \<and> (s \<longrightarrow> \<not> ut_terminal rec)"
    by blast+
qed

lemma inv_apply_partial:
  assumes inv: "agent_inv s (Tidy, None) a" and nt: "\<And>rec. s \<Longrightarrow> record_ref key a = Some rec \<Longrightarrow> \<not> ut_terminal rec"
  shows "agent_inv s (Tidy, None) (apply_partial env key t a)"
proof (cases "record_ref key a")
  case (Some rec)
  let ?f = "\<lambda>r. r\<lparr>ut_partials_emitted := True, ut_last_partial_text := Some t\<rparr>"
  have "agent_inv s (Tidy, None) (record_mut key ?f a)"
    by (rule inv_tidy_record [OF inv Some])
      (use nt [OF _ Some] settled_live_ok [OF inv] in \<open>auto simp: settled_flags\<close>)
  then have m: "agent_inv s (Tidy, None) (record_mut key ?f a)" .
  show ?thesis
    unfolding apply_partial_def Some option.case
  proof (intro inv_if inv inv_let_val)
    fix is_live a1 a2 a3 a4
    assume eq: "a1 = record_mut key ?f a"
      "a2 = (if is_live then refresh_utterance_finalize_after_partial (en_now env) (clear_stt_listen_timer a1) else a1)"
      "a3 = emit_user_speaking_start_if_needed key a2" "a4 = agent_emit (user_speech_partial t (Some (ut_id rec))) a3"
    have "agent_inv s (Tidy, None) a2" unfolding eq using m by (intro inv_intros)
    then have "agent_inv s (Tidy, None) a3" unfolding eq(3) by (intro inv_intros)
    then have "agent_inv s (Tidy, None) a4" unfolding eq(4) by (rule inv_emit [rotated]) simp
    then show "agent_inv s (Tidy, None) (try_stt_gated_barge_in env key t a4)" by (intro inv_intros)
  qed
qed (simp add: apply_partial_def inv)

lemma inv_close_with_final:
  assumes inv: "agent_inv s (Tidy, Some (key, False)) a"
  shows "pred_option (agent_inv s (Tidy, None)) (close_with_final env key is_live t a)"
proof (cases "record_ref key a")
  case None
  then show ?thesis using inv_unfocus [OF inv] by (simp add: close_with_final_def)
next
  case (Some rec)
  let ?f = "\<lambda>r. r\<lparr>ut_final_emitted := True, ut_vad_triggered := False, ut_speaking_end_emitted := True,
     ut_stream_open := False, ut_user_stt_session_open := False\<rparr>"
  let ?b = "record_mut key ?f a"
  have nt: "s \<Longrightarrow> \<not> ut_terminal rec"
    using inv focused_ref(1) [OF _ Some] by (auto simp: agent_inv_def)
  have b: "agent_inv s (Tidy, None) ?b"
    by (rule inv_tidy_record [OF inv_unfocus [OF inv] Some]) (simp_all add: settled_flags)
  have rb: "record_ref key ?b = Some (?f rec)" by (subst record_ref_mut) (simp_all add: Some)
  have foc: "agent_inv s (Tidy, Some (key, True)) ?b"
    by (rule inv_focus [OF b rb]) (use nt in simp)
  show ?thesis
    unfolding close_with_final_def Some option.case Let_def
    by (cases "debug_preview t")
      (auto intro!: inv_utterance_final inv_speaking_end inv_fields inv_emit inv_clear_timers foc)
qed

lemma inv_apply_final:
  assumes inv: "agent_inv s (Tidy, None) a" and nt: "\<And>rec. s \<Longrightarrow> record_ref key a = Some rec \<Longrightarrow> \<not> ut_terminal rec"
  shows "pred_option (agent_inv s (Tidy, None)) (apply_final env key t a)"
proof (cases "record_ref key a")
  case (Some rec)
  have foc: "agent_inv s (Tidy, Some (key, False)) a"
    by (rule inv_focus [OF inv Some]) (use nt [OF _ Some] in simp)
  show ?thesis
  proof (cases "ut_kind rec = UttLive")
    case True
    have "agent_inv s (Tidy, Some (key, False)) (try_stt_gated_barge_in env key t (emit_user_speaking_start_if_needed key a))"
      using foc by (intro inv_intros)
    from inv_close_with_final [OF this] True Some inv show ?thesis by (auto simp: apply_final_def Let_def)
  next
    case False
    have "final_ready key a" using Some False phases_live [OF inv] by (auto simp: final_ready_def)
    with foc have "agent_inv s (Tidy, None) (emit_utterance_final env key t a)" if "trim t \<noteq> []"
      using inv_text_final [OF foc that] by simp
    with False Some inv show ?thesis by (auto simp: apply_final_def Let_def)
  qed
qed (simp add: apply_final_def inv)

lemma inv_apply_transcript:
  assumes inv: "agent_inv s (Tidy, None) a"
    and keyless: "s \<Longrightarrow> key = None \<Longrightarrow> us_closing a = [] \<Longrightarrow> \<not> live_flag ut_terminal a"
  shows "pred_option (agent_inv s (Tidy, None)) (apply_transcript_result env key gen w a)"
proof -
  obtain r b where r: "resolve_transcript_target key a = (r, b)" by fastforce
  note b = resolve_target [OF inv r keyless]
  have i: "agent_inv s (Tidy, None) b" by (rule b(1))
  have "pred_option (agent_inv s (Tidy, None)) (case r of Inl _ \<Rightarrow> Some b | Inr target \<Rightarrow>
      (case w of Partial t \<Rightarrow> Some (apply_partial env target t b) | Final t \<Rightarrow> apply_final env target t b))"
  proof (cases r)
    case (Inr k)
    have nt: "\<not> ut_terminal rec" if s "record_ref k b = Some rec" for rec
      using b(2) [OF _ _ _ Inr] that by fastforce
    show ?thesis
      using inv_apply_partial [OF i nt] inv_apply_final [OF i nt] Inr by (cases w) simp_all
  qed (use i in simp)
  then have ok: "pred_option (agent_inv s (Tidy, None)) (case (r, b) of (Inl _, a) \<Rightarrow> Some a | (Inr target, a) \<Rightarrow>
      (case w of Partial t \<Rightarrow> Some (apply_partial env target t a) | Final t \<Rightarrow> apply_final env target t a))"
    by (cases r) simp_all
  have log: "agent_inv s (Tidy, None) (a\<lparr>va_held_ignore_logged_key := k\<rparr>)" for k
    by (rule inv_core [OF _ inv]) simp
  show ?thesis
    unfolding apply_transcript_result_def r
    using inv log ok by (simp only: if_split option.pred_inject Let_def) simp
qed

lemma same_core_retain: "same_ledger a b \<Longrightarrow> same_ledger (retain_for_lid p a) (retain_for_lid p b)"
  unfolding same_ledger_def retain_for_lid_def Let_def by simp

text \<open>The closed record leaves \<open>closing\<close>.\<close>

definition leave_closing :: "nat \<Rightarrow> 'f agent \<Rightarrow> 'f agent" where
  "leave_closing key a =
     (case find_key key (us_closing a) of
        None \<Rightarrow> a
      | Some rec \<Rightarrow>
          (let a = a\<lparr>us_closing := remove1 rec (us_closing a)\<rparr>;
               a = (case ut_terminal_waiter rec of
                      Some w \<Rightarrow> a\<lparr>va_answers := va_answers a @ [(w, ut_final_emitted rec)]\<rparr> | None \<Rightarrow> a)
           in retain_for_lid (rec\<lparr>ut_terminal_waiter := None\<rparr>) a))"

lemma apply_finalize_done_eq:
  "apply_finalize_done env key a =
    (if find_key key (us_closing a) = None then Some a
     else map_option (leave_closing key) (finish_record_close env key False False a))"
  unfolding apply_finalize_done_def leave_closing_def map_conv_bind_option comp_def ..

lemma inv_leave_closing:
  assumes b: "agent_inv s t b"
  shows "agent_inv s t (leave_closing key b)"
proof (cases "find_key key (us_closing b)")
  case (Some rec)
  let ?c = "b\<lparr>us_closing := remove1 rec (us_closing b)\<rparr>"
  let ?d = "case ut_terminal_waiter rec of
      Some w \<Rightarrow> ?c\<lparr>va_answers := va_answers ?c @ [(w, ut_final_emitted rec)]\<rparr> | None \<Rightarrow> ?c"
  have "same_ledger ?d ?c" by (cases "ut_terminal_waiter rec") (simp_all only: option.case same_core_updates same_core_refl)
  then have "same_ledger (retain_for_lid (rec\<lparr>ut_terminal_waiter := None\<rparr>) ?d)
      (retain_for_lid (rec\<lparr>ut_terminal_waiter := None\<rparr>) ?c)"
    by (rule same_core_retain)
  moreover have "rec \<in> set (us_closing b)" using find_key_in [OF Some] by simp
  ultimately have "agent_inv s t (retain_for_lid (rec\<lparr>ut_terminal_waiter := None\<rparr>) ?d)"
    by (rule inv_core [OF _ inv_finish_closing [OF b]])
  then show ?thesis unfolding leave_closing_def Some option.case Let_def .
qed (simp add: leave_closing_def b)

lemma inv_finish_done:
  assumes inv: "agent_inv s (Tidy, None) a"
  shows "pred_option (agent_inv s (Tidy, None)) (apply_finalize_done env key a)"
proof (cases "find_key key (us_closing a)")
  case (Some rec)
  have key: "ut_key rec = key" "rec \<in> set (us_closing a)" using find_key_in [OF Some] by simp_all
  have live: "ut_key r \<noteq> key" if "us_live a = Some r" for r
    using inv key that by (auto simp: agent_inv_def store_ok_def all_records_def)
  have "pred_option (agent_inv s (Tidy, None)) (finish_record_close env key False False a)"
  proof (rule inv_finish_record [OF inv])
    show "record_settled r" if "record_ref key a = Some r" s for r
      by (rule record_ref_settled [OF inv that(2) _ that(1)]) (simp add: stt_record_ref_def Some split: option.split)
  qed (use live in blast)
  then show ?thesis
    unfolding apply_finalize_done_eq
    by (cases "finish_record_close env key False False a") (simp_all add: inv inv_leave_closing)
qed (simp add: apply_finalize_done_eq inv)

lemma inv_apply_swap [inv_intros]: "agent_inv s t a \<Longrightarrow> agent_inv s t (apply_swap_result config result a)"
proof -
  assume a: "agent_inv s t a"
  have "agent_inv s t (agent_emit (stt_config_updated config) (a\<lparr>va_config := (va_config a)\<lparr>ag_stt := Some config\<rparr>\<rparr>))"
    by (rule inv_emit) (simp, intro inv_intros a)
  with a show ?thesis by (cases result) (simp_all add: apply_swap_result_def)
qed

lemma terminal_key_inv:
  assumes "agent_inv s (Tidy, None) a"
  shows "agent_inv s (Tidy, None) (snd (terminal_key_of result a))"
proof -
  have r: "agent_inv s (Tidy, None) (snd (resolve_transcript_target key a))" for key
    using inv_ensure_live [OF assms] assms
    by (auto simp: resolve_transcript_target_def split: option.split list.split prod.split)
  show ?thesis
  proof (cases result)
    case (RTranscript key gen w)
    show ?thesis
    proof (cases w)
      case (Final t)
      obtain x b where x: "resolve_transcript_target key a = (x, b)" by fastforce
      with r [of key] show ?thesis by (cases x) (simp_all add: terminal_key_of_def RTranscript Final)
    qed (simp add: terminal_key_of_def RTranscript assms)
  qed (simp_all add: terminal_key_of_def assms)
qed

lemma inv_prepare_result:
  assumes "agent_inv s (Tidy, None) a"
  shows "agent_inv s (Tidy, None) (prepare_stt_result env result a)"
proof -
  obtain k b where k: "terminal_key_of result a = (k, b)" by fastforce
  then have "agent_inv s (Tidy, None) b" using terminal_key_inv [OF assms, of result] by simp
  then show ?thesis
    by (cases k) (auto simp: prepare_stt_result_def k intro: inv_prepare_lid)
qed

lemma inv_apply_result:
  assumes inv: "agent_inv s (Tidy, None) a"
    and keyless: "\<And>gen w. s \<Longrightarrow> result = RTranscript None gen w \<Longrightarrow> us_closing a = [] \<Longrightarrow> \<not> live_flag ut_terminal a"
  shows "pred_option (agent_inv s (Tidy, None)) (apply_stt_result env result a)"
proof (cases result)
  case (RTranscript key gen w)
  then show ?thesis using inv_apply_transcript [OF inv] keyless by (simp add: apply_stt_result_def)
next
  case (RVendorError k g m)
  have "agent_inv s (Tidy, None) (agent_emit (ev_error (utext ''stt: '' @ m)) a)" by (rule inv_emit) (simp_all add: inv)
  with RVendorError inv show ?thesis by (simp add: apply_stt_result_def)
qed (simp_all add: apply_stt_result_def inv inv_finish_done inv_apply_swap)

end
