(* ===== verification/Agent_Steps.thy ===== *)
theory Agent_Steps
  imports Agent_Closing
begin

text \<open>
  The inbound frame, the timers and the host's calls keep \<open>agent_inv\<close>.
\<close>

section \<open>Options\<close>

lemma pred_bind [inv_intros]:
  "pred_option P m \<Longrightarrow> (\<And>x. P x \<Longrightarrow> pred_option Q (f x)) \<Longrightarrow> pred_option Q (m \<bind> f)"
  by (cases m) simp_all

lemma pred_Some [inv_intros]: "P x \<Longrightarrow> pred_option P (Some x)"
  by simp

lemma pred_if [inv_intros]:
  "(c \<Longrightarrow> pred_option P x) \<Longrightarrow> (\<not> c \<Longrightarrow> pred_option P y) \<Longrightarrow> pred_option P (if c then x else y)"
  by simp

lemma pred_let: "(\<And>x. x = v \<Longrightarrow> pred_option P (f x)) \<Longrightarrow> pred_option P (Let v f)"
  by simp

section \<open>Audio\<close>

lemma inv_note_frame [inv_intros]: "agent_inv s t a \<Longrightarrow> agent_inv s t (note_inbound_frame now d a)"
  unfolding note_inbound_frame_def by (intro inv_intros)

lemma inv_push_audio [inv_intros]: "agent_inv s t a \<Longrightarrow> agent_inv s t (push_stt_audio_bytes b a)"
  unfolding push_stt_audio_bytes_def by (intro inv_if inv_case_option; (simp only: Let_def)?; intro inv_intros)

lemma inv_push_frames [inv_intros]: "agent_inv s t a \<Longrightarrow> agent_inv s t (push_stt_audio_frames b a)"
  unfolding push_stt_audio_frames_def by (intro inv_intros)

lemma inv_hold_lookback [inv_intros]: "agent_inv s t a \<Longrightarrow> agent_inv s t (push_hold_lookback b a)"
  unfolding push_hold_lookback_def Let_def by (intro inv_intros)

lemma inv_with_pre_roll [inv_intros]: "agent_inv s t a \<Longrightarrow> pred_option (agent_inv s t) (with_pre_roll f a)"
  unfolding with_pre_roll_def by (auto split: option.split intro: inv_fields simp: option.pred_map comp_def pred_option_def)

section \<open>Timers\<close>

lemma inv_gate_hold [inv_intros]: "agent_inv s t a \<Longrightarrow> agent_inv s t (snd (gate_hold_step env tr d a))"
  unfolding gate_hold_step_def Let_def by (intro inv_intros)

lemma inv_c1_hold [inv_intros]: "agent_inv s t a \<Longrightarrow> agent_inv s t (snd (c1_hold_for_stt_open now p a))"
  unfolding c1_hold_for_stt_open_def Let_def by (intro inv_intros)

lemma inv_c1_log [inv_intros]: "agent_inv s t a \<Longrightarrow> agent_inv s t (maybe_log_c1_backlog_deferred now b a)"
  unfolding maybe_log_c1_backlog_deferred_def by (auto simp: Let_def intro: inv_fields split: option.split)

lemma inv_c1_tick [inv_intros]: "agent_inv s t a \<Longrightarrow> agent_inv s t (snd (c1_tick env idle a))"
proof -
  assume a: "agent_inv s t a"
  show ?thesis
  proof (cases "c1_hold_for_stt_open (en_now env) ((va_actor a \<and> en_open_pending env) \<or> us_closing a \<noteq> []) a")
    case (Pair h b)
    with inv_c1_hold [OF a] have "agent_inv s t b" by (metis snd_conv)
    then show ?thesis unfolding c1_tick_def Let_def Pair prod.case by (intro inv_intros)
  qed
qed

lemma inv_c2_media [inv_intros]: "agent_inv s t a \<Longrightarrow> agent_inv s t (snd (c2_media_tick d a))"
  unfolding c2_media_tick_def Let_def by (intro inv_intros)

text \<open>A new utterance.\<close>

lemma inv_retidy: "agent_inv s (c, foc) a \<Longrightarrow> us_live a = None \<Longrightarrow> agent_inv s (c', foc) a"
  by (simp add: agent_inv_def store_settled_def)

lemma inv_start_new:
  assumes "agent_inv s (Tidy, None) a"
  shows "agent_inv s (TidyOpen, None) (start_new_live_record a)"
proof -
  let ?r = "reset_turn_close_flags a"
  have r: "agent_inv s (Tidy, None) ?r" using assms by (intro inv_intros)
  show ?thesis
  proof (cases "us_live ?r")
    case None
    have "agent_inv s (TidyOpen, None) ((snd (new_record ?r))\<lparr>us_live := Some (fst (new_record ?r))\<rparr>)"
      by (rule inv_new_live [OF inv_retidy [OF r None] None])
    then show ?thesis by (simp add: start_new_live_record_def Let_def None case_prod_unfold)
  next
    case (Some p)
    let ?x = "retain_for_lid p (?r\<lparr>us_live := None\<rparr>)"
    have "agent_inv s (Tidy, None) ?x" by (rule inv_retain_live [OF r Some])
    then have "agent_inv s (TidyOpen, None) ?x" by (rule inv_retidy) simp
    then have "agent_inv s (TidyOpen, None) ((snd (new_record ?x))\<lparr>us_live := Some (fst (new_record ?x))\<rparr>)"
      by (rule inv_new_live) simp
    moreover have "same_ledger (start_new_live_record a) ((snd (new_record ?x))\<lparr>us_live := Some (fst (new_record ?x))\<rparr>)"
      by (simp add: start_new_live_record_def Let_def Some case_prod_unfold same_ledger_def new_record_def)
        (simp add: retain_for_lid_def Let_def)
    ultimately show ?thesis by (rule inv_core [rotated])
  qed
qed

lemma inv_switch:
  assumes "agent_inv s (Tidy, None) a"
  shows "agent_inv s (TidyOpen, None) (switch_utterance lp a)"
proof (cases "lp \<or> us_live a = None \<or> live_flag ut_final_emitted a")
  case True
  then show ?thesis using inv_start_new [OF assms] by (simp add: switch_utterance_def)
next
  case False
  then have "agent_inv s (TidyOpen, None) a"
    using assms by (auto simp: agent_inv_def store_settled_def live_ok_def live_flag_def)
  then have "agent_inv s (TidyOpen, None) (disarm_utterance_finalize_timer (a\<lparr>ts_stt_gate_hold_ms := 0, ts_stt_finalize_pending := False,
             ts_stt_endpoint_closing_started := False, ts_defer_utterance_finalize_until_hold := False\<rparr>))"
    by (intro inv_intros)
  with False show ?thesis unfolding switch_utterance_def by (simp only: if_False)
qed

section \<open>C1 and C2\<close>

lemma c1_tick_frame:
  "us_live (snd (c1_tick env idle a)) = us_live a \<and> va_stt_hold (snd (c1_tick env idle a)) = va_stt_hold a \<and>
   ts_vad_speaking (snd (c1_tick env idle a)) = ts_vad_speaking a"
proof -
  let ?p = "(va_actor a \<and> en_open_pending env) \<or> us_closing a \<noteq> []"
  have h: "us_live (snd (c1_hold_for_stt_open now p a)) = us_live a \<and>
      va_stt_hold (snd (c1_hold_for_stt_open now p a)) = va_stt_hold a \<and>
      ts_vad_speaking (snd (c1_hold_for_stt_open now p a)) = ts_vad_speaking a" for now p
    by (simp add: c1_hold_for_stt_open_def Let_def)
  have l: "us_live (maybe_log_c1_backlog_deferred now k b) = us_live b \<and>
      va_stt_hold (maybe_log_c1_backlog_deferred now k b) = va_stt_hold b \<and>
      ts_vad_speaking (maybe_log_c1_backlog_deferred now k b) = ts_vad_speaking b" for now k and b :: "'a agent"
    by (simp add: maybe_log_c1_backlog_deferred_def Let_def split: option.split)
  obtain x b where b: "c1_hold_for_stt_open (en_now env) ?p a = (x, b)" by fastforce
  have "us_live b = us_live a \<and> va_stt_hold b = va_stt_hold a \<and> ts_vad_speaking b = ts_vad_speaking a"
    using h [of "en_now env" ?p] by (simp add: b)
  then show ?thesis unfolding c1_tick_def Let_def b prod.case using l by simp
qed

lemma c2_media_frame:
  "us_live (snd (c2_media_tick d a)) = us_live a \<and> va_stt_hold (snd (c2_media_tick d a)) = va_stt_hold a \<and>
   ts_vad_speaking (snd (c2_media_tick d a)) = ts_vad_speaking a"
  by (simp add: c2_media_tick_def Let_def)

text \<open>C1 closes an utterance that has no partial, and never under a hold.\<close>

lemma timer_ticks_c1:
  assumes "timer_ticks env d a = (True, c2, b)"
  shows "live_flag (\<lambda>r. ut_stream_open r \<and> \<not> ut_partials_emitted r) b" "va_stt_hold b = None"
    "ts_vad_speaking b = ts_vad_speaking a"
proof -
  let ?g = "live_flag (\<lambda>r. ut_stream_open r \<and> \<not> ut_partials_emitted r) a \<and>
     ts_stt_listen_started_at a \<noteq> None \<and> va_stt_hold a = None"
  obtain c1 x where x: "(if ?g then c1_tick env 0 a else (False, a)) = (c1, x)" by fastforce
  obtain c2' y where y: "c2_media_tick d x = (c2', y)" by fastforce
  have "timer_ticks env d a = (if \<not> vc_enabled (va_vad a) \<or> \<not> stt_pipeline_active a then (False, False, a) else (c1, c2', y))"
    unfolding timer_ticks_def Let_def x prod.case y ..
  with assms have eq: "c1" "b = y" by (auto split: if_splits)
  with x have g: ?g "x = snd (c1_tick env 0 a)" by (auto split: if_splits)
  have "us_live y = us_live a" "va_stt_hold y = va_stt_hold a" "ts_vad_speaking y = ts_vad_speaking a"
    using c2_media_frame [of d x] c1_tick_frame [of env 0 a] y g(2) by simp_all
  with g(1) eq(2) show "live_flag (\<lambda>r. ut_stream_open r \<and> \<not> ut_partials_emitted r) b" "va_stt_hold b = None"
    "ts_vad_speaking b = ts_vad_speaking a"
    by (simp_all add: live_flag_def)
qed

lemma inv_timer_ticks: "agent_inv s t a \<Longrightarrow> agent_inv s t (snd (snd (timer_ticks env d a)))"
proof -
  assume a: "agent_inv s t a"
  let ?g = "live_flag (\<lambda>r. ut_stream_open r \<and> \<not> ut_partials_emitted r) a \<and>
     ts_stt_listen_started_at a \<noteq> None \<and> va_stt_hold a = None"
  obtain c1 x where x: "(if ?g then c1_tick env 0 a else (False, a)) = (c1, x)" by fastforce
  have "agent_inv s t (snd (if ?g then c1_tick env 0 a else (False, a)))" using a by (intro inv_intros)
  then have "agent_inv s t x" by (simp only: x snd_conv)
  then have "agent_inv s t (snd (c2_media_tick d x))" by (intro inv_intros)
  then show ?thesis using a unfolding timer_ticks_def Let_def x prod.case
    by (simp add: case_prod_unfold)
qed

lemma inv_run_timers:
  assumes a: "agent_inv s (Tidy, None) a"
    and c1: "s \<Longrightarrow> \<not> (fst (timer_ticks env d a) \<and> ts_vad_speaking a)"
  shows "pred_option (agent_inv s (Tidy, None)) (run_timers env d a)"
proof -
  obtain x y b where t: "timer_ticks env d a = (x, y, b)" by (metis prod_cases3)
  have b: "agent_inv s (Tidy, None) b" using inv_timer_ticks [OF a, of env d] by (simp add: t)
  have "agent_inv s (Tidy, None) (close_stt_stream_not_found env b)" if x
  proof (rule inv_close_not_found [OF b])
    show "\<not> ts_vad_speaking b \<and> va_stt_hold b = None \<and> \<not> live_flag ut_partials_emitted b" if s
      using c1 [OF that] timer_ticks_c1 [of env d a y b] t \<open>x\<close> by (auto simp: live_flag_def split: option.splits)
  qed
  with b have "agent_inv s (Tidy, None) (if x then close_stt_stream_not_found env b else b)" by simp
  then show ?thesis
    unfolding run_timers_def t Let_def prod.case by (intro pred_if inv_force_close pred_Some) simp_all
qed

lemma inv_wall_tick:
  assumes a: "agent_inv s (Tidy, None) a"
    and c1: "s \<Longrightarrow> \<not> (fst (c1_tick env (en_pcm_idle env) a) \<and> (ts_vad_speaking a \<or> va_stt_hold a \<noteq> None))"
  shows "agent_inv s (Tidy, None) (c1_wall_tick env a)"
proof -
  obtain x b where t: "c1_tick env (en_pcm_idle env) a = (x, b)" by fastforce
  have b: "agent_inv s (Tidy, None) b" using inv_c1_tick [OF a, of env "en_pcm_idle env"] by (simp add: t)
  have fr: "us_live b = us_live a" "va_stt_hold b = va_stt_hold a" "ts_vad_speaking b = ts_vad_speaking a"
    using c1_tick_frame [of env "en_pcm_idle env" a] by (simp_all add: t)
  have "agent_inv s (Tidy, None) (close_stt_stream_not_found env b)"
    if x "live_flag (\<lambda>r. ut_stream_open r \<and> \<not> ut_partials_emitted r) a"
  proof (rule inv_close_not_found [OF b])
    show "\<not> ts_vad_speaking b \<and> va_stt_hold b = None \<and> \<not> live_flag ut_partials_emitted b" if s
      using c1 [OF that] t fr \<open>x\<close> \<open>live_flag (\<lambda>r. ut_stream_open r \<and> \<not> ut_partials_emitted r) a\<close>
      by (auto simp: live_flag_def split: option.splits)
  qed
  then show ?thesis using a b unfolding c1_wall_tick_def t Let_def prod.case by auto
qed

lemma inv_c2_wall:
  assumes "agent_inv s (Tidy, None) a"
    and "s \<Longrightarrow> \<not> (fst (c1_tick env (en_pcm_idle env) a) \<and> (ts_vad_speaking a \<or> va_stt_hold a \<noteq> None))"
  shows "pred_option (agent_inv s (Tidy, None)) (c2_wall_clock_tick env a)"
  unfolding c2_wall_clock_tick_def Let_def
  using inv_wall_tick [OF assms] by (intro pred_if inv_force_close pred_Some) simp_all

section \<open>A speech start\<close>

lemma inv_flush_pre_roll:
  assumes "agent_inv s t a"
  shows "pred_option (\<lambda>(b, h, a). agent_inv s t a) (flush_pre_roll onset lookback a)"
  unfolding flush_pre_roll_def Let_def
  by (intro pred_bind [where P = "agent_inv s t"] pred_if pred_Some inv_with_pre_roll assms)
    (auto simp: case_prod_unfold split: option.split intro!: inv_fields)

lemma inv_send_pre_roll [inv_intros]: "agent_inv s t a \<Longrightarrow> agent_inv s t (send_pre_roll b a)"
  unfolding send_pre_roll_def by (intro inv_intros)

lemma inv_start_stream:
  assumes "agent_inv s (Tidy, None) a"
  shows "pred_option (agent_inv s (TidyOpen, None)) (start_stream_at_speech env a)"
proof -
  let ?a = "a\<lparr>va_hold_pending_pcm := [], va_hold_lookback_pcm := []\<rparr>"
  have a: "agent_inv s (Tidy, None) ?a" using assms by (intro inv_intros)
  show ?thesis
    unfolding start_stream_at_speech_def Let_def
  proof (rule pred_bind)
    show "pred_option (agent_inv s (Tidy, None))
        (if long_pause_new_phrase ?a then complete_pending_utterance_if_any env ?a else Some ?a)"
      by (intro pred_if pred_Some inv_complete_pending a)
    fix b assume b: "agent_inv s (Tidy, None) b"
    let ?b = "switch_utterance (long_pause_new_phrase ?a) b"
    have sw: "agent_inv s (TidyOpen, None) ?b" by (rule inv_switch [OF b])
    show "pred_option (agent_inv s (TidyOpen, None))
        ((if vc_gate_stt (va_vad ?b) then flush_pre_roll (va_hold_pending_pcm a) (va_hold_lookback_pcm a) ?b
          else Some (None, None, ?b)) \<bind>
         (\<lambda>(buffered, held_same, a). Some (case held_same of
              Some h \<Rightarrow> push_stt_audio_frames h (case buffered of Some b \<Rightarrow> send_pre_roll b a | None \<Rightarrow> a)
            | None \<Rightarrow> (case buffered of Some b \<Rightarrow> send_pre_roll b a | None \<Rightarrow> a))))"
      by (rule pred_bind [where P = "\<lambda>(b, h, a). agent_inv s (TidyOpen, None) a"])
        (auto intro!: pred_if inv_flush_pre_roll sw inv_push_frames inv_send_pre_roll split: option.split)
  qed
qed

section \<open>VAD transitions\<close>

definition start_ready :: "bool \<Rightarrow> 'f agent \<Rightarrow> bool" where
  "start_ready s a \<longleftrightarrow> agent_inv s (Tidy, None) a \<and> (stt_pipeline_active a \<longrightarrow> agent_inv s (TidyOpen, None) a)"

lemma start_ready_open: "agent_inv s (TidyOpen, None) a \<Longrightarrow> start_ready s a"
  by (simp add: start_ready_def inv_not_open)

lemma inv_replace_live:
  assumes "agent_inv s (Tidy, None) a"
  shows "agent_inv s (TidyOpen, None) (let (rec, a) = new_record a in a\<lparr>us_live := Some rec\<rparr>)"
proof -
  let ?x = "a\<lparr>us_live := None\<rparr>"
  have "agent_inv s (TidyOpen, None) ?x" by (rule inv_retidy [OF inv_drop_live [OF assms]]) simp
  then have "agent_inv s (TidyOpen, None) ((snd (new_record ?x))\<lparr>us_live := Some (fst (new_record ?x))\<rparr>)"
    by (rule inv_new_live) simp
  then show ?thesis by (simp add: new_record_def)
qed

lemma transition_start:
  assumes "start_ready s a"
  shows "start_ready s (on_transition env on SpeechStart a)"
proof -
  let ?a = "if stt_pipeline_active a then a else (let (rec, a) = new_record a in a\<lparr>us_live := Some rec\<rparr>)"
  have a: "agent_inv s (TidyOpen, None) ?a"
    using assms inv_replace_live [of s a] by (simp add: start_ready_def)
  have v: "agent_inv s (TidyOpen, None) (on_vad_speech_start env ?a)"
    by (rule inv_vad_speech_start [OF a]) simp
  obtain rec b where b: "ensure_live (on_vad_speech_start env ?a) = (rec, b)" by fastforce
  have "agent_inv s (TidyOpen, None) b" using inv_ensure_live [OF v] by (simp add: b)
  then have "agent_inv s (TidyOpen, None) (emit_user_speaking_start_if_needed (ut_key rec) b)" by (rule inv_speaking_start)
  then show ?thesis
    unfolding on_transition_def vad_transition.case Let_def [of "if _ then _ else _"] Let_def [of "on_vad_speech_start _ _"]
      b Let_def [of "(rec, b)"] prod.case
    by (rule start_ready_open)
qed

lemma transition_end:
  assumes "start_ready s a"
  shows "start_ready s (on_transition env on SpeechEnd a)"
proof -
  let ?b = "on_transition env on SpeechEnd a"
  have inv: "agent_inv s t ?b" if "agent_inv s t a" for t
    unfolding on_transition_def vad_transition.case using that by (intro inv_intros)
  have "turn_view ?b = turn_view a"
    unfolding on_transition_def vad_transition.case Let_def by (simp split: option.split)
  then have "stt_pipeline_active ?b = stt_pipeline_active a" by (rule turn_view_sel(6))
  with inv assms show ?thesis by (simp add: start_ready_def)
qed

lemma transitions_ready: "start_ready s a \<Longrightarrow> start_ready s (fold (on_transition env on) ts a)"
proof (induction ts arbitrary: a)
  case (Cons t ts)
  have "start_ready s (on_transition env on t a)"
    using transition_start [OF Cons.prems] transition_end [OF Cons.prems] by (cases t) simp_all
  from Cons.IH [OF this] show ?case by simp
qed simp

lemma inv_transitions:
  assumes "agent_inv s (Tidy, None) a" "SpeechStart \<in> set ts \<Longrightarrow> start_ready s a"
  shows "agent_inv s (Tidy, None) (fold (on_transition env on) ts a)"
proof (cases "SpeechStart \<in> set ts")
  case True
  then show ?thesis using transitions_ready [OF assms(2)] by (simp add: start_ready_def)
next
  case False
  have "agent_inv s (Tidy, None) (fold (on_transition env on) ts a)"
    if "agent_inv s (Tidy, None) a" "SpeechStart \<notin> set ts" for a
    using that
  proof (induction ts arbitrary: a)
    case (Cons t ts)
    have "agent_inv s (Tidy, None) (on_transition env on SpeechEnd a)"
      unfolding on_transition_def vad_transition.case using Cons.prems(1) by (intro inv_intros)
    with Cons show ?case by (cases t) simp_all
  qed simp
  from this [OF assms(1) False] show ?thesis .
qed

section \<open>The audio of a frame\<close>

lemma inv_hold_back:
  assumes "agent_inv s t a"
  shows "pred_option (\<lambda>(b, a). agent_inv s t a) (hold_back_frame f route a)"
proof -
  have w: "agent_inv s t (a\<lparr>va_hold_pending_pcm := b\<rparr>)" for b using assms by (intro inv_intros)
  have "pred_option (\<lambda>(b, a). agent_inv s t a) (map_option (Pair x) m)" if "pred_option (agent_inv s t) m"
    for x :: "bytes option" and m :: "'a agent option"
    using that by (cases m) simp_all
  with w assms show ?thesis
    unfolding hold_back_frame_def Let_def by (auto intro!: pred_if inv_hold_lookback inv_with_pre_roll)
qed

lemma inv_copy_lookback [inv_intros]: "agent_inv s t a \<Longrightarrow> agent_inv s t (copy_lookback f route a)"
  unfolding copy_lookback_def by (intro inv_intros)

lemma pred_map: "pred_option P m \<Longrightarrow> (\<And>x. P x \<Longrightarrow> Q (f x)) \<Longrightarrow> pred_option Q (map_option f m)"
  by (cases m) simp_all

lemma inv_forward [inv_intros]:
  assumes "agent_inv s t a"
  shows "pred_option (agent_inv s t) (forward_frame f active route fa a)"
  unfolding forward_frame_def
  by (intro pred_if pred_Some pred_map [OF inv_with_pre_roll] inv_push_audio inv_intros) (use assms in simp_all)

lemma inv_finalize_now:
  assumes "agent_inv s (Tidy, None) a"
  shows "pred_option (agent_inv s (Tidy, None)) (finalize_utterance_now env a)"
  unfolding finalize_utterance_now_def by (rule inv_held_close) (use assms in \<open>intro inv_intros\<close>)

lemma inv_feed:
  assumes a: "agent_inv s (Tidy, None) a"
  shows "pred_option (agent_inv s (Tidy, None)) (feed_frame env f ts fa active a)"
proof -
  have tail: "pred_option (agent_inv s (Tidy, None))
      (if c then Some b
       else (let a = (if SpeechEnd \<in> set ts \<and> \<not> ts_agent_speaking b then b\<lparr>ts_barge_awaiting_stt_partial := False\<rparr> else b)
             in if d then finalize_utterance_now env a else Some a))"
    if "agent_inv s (Tidy, None) b" for b c d
    unfolding Let_def by (intro pred_if pred_Some inv_finalize_now inv_intros) (use that in simp_all)
  show ?thesis
    unfolding feed_frame_def Let_def [of "route_frame _ _ _ _"]
  proof (rule pred_bind [OF inv_hold_back [OF a]], clarify)
    fix released b assume b: "agent_inv s (Tidy, None) b"
    let ?c = "copy_lookback f (route_frame f (SpeechStart \<in> set ts) active a) b"
    have "agent_inv s (Tidy, None) ?c" using b by (intro inv_intros)
    then have d: "agent_inv s (Tidy, None) (case released of Some x \<Rightarrow> push_stt_audio_frames x ?c | None \<Rightarrow> ?c)"
      by (cases released) (auto intro: inv_push_frames)
    show "pred_option (agent_inv s (Tidy, None))
       (let a' = ?c; a' = case released of None \<Rightarrow> a' | Some b \<Rightarrow> push_stt_audio_frames b a'
        in forward_frame f active (route_frame f (SpeechStart \<in> set ts) active a) fa a' \<bind>
           (\<lambda>a'. if vc_gate_stt (va_vad a') \<and>
                   \<not> rt_poll_open (route_frame f (SpeechStart \<in> set ts) active a) \<and>
                   \<not> rt_should_finalize (route_frame f (SpeechStart \<in> set ts) active a)
                then Some a'
                else let a' = if SpeechEnd \<in> set ts \<and> \<not> ts_agent_speaking a' then a'\<lparr>ts_barge_awaiting_stt_partial := False\<rparr> else a'
                     in if rt_should_finalize (route_frame f (SpeechStart \<in> set ts) active a)
                        then finalize_utterance_now env a' else Some a'))"
      unfolding Let_def [of ?c] Let_def [of "case released of None \<Rightarrow> ?c | Some b \<Rightarrow> push_stt_audio_frames b ?c"]
      by (rule pred_bind [OF inv_forward [OF d]]) (rule tail)
  qed
qed

section \<open>The inbound call\<close>

text \<open>The state in which the timers of a frame are looked at.\<close>

definition before_timers ::
  "step_env \<Rightarrow> inbound_frame \<Rightarrow> vad_transition list \<Rightarrow> bool \<Rightarrow> 'f agent \<Rightarrow> 'f agent" where
  "before_timers env f transitions frame_active a =
     append_lid_pcm_if_buffering env (fr_mono f) frame_active (fr_vad_speaking f) (fr_duration_ms f)
       (snd (gate_hold_step env transitions (fr_duration_ms f) (a\<lparr>ts_vad_speaking := fr_vad_speaking f\<rparr>)))"

text \<open>C1 cuts an utterance the VAD still hears.\<close>

definition frame_cuts_speech :: "step_env \<Rightarrow> inbound_frame \<Rightarrow> 'f agent \<Rightarrow> bool" where
  "frame_cuts_speech env f a \<longleftrightarrow>
     (case fr_vad f of
        Inl _ \<Rightarrow> False
      | Inr (transitions, frame_active) \<Rightarrow>
          (let b = before_timers env f transitions frame_active (note_inbound_frame (en_now env) (fr_duration_ms f) a)
           in fst (timer_ticks env (fr_duration_ms f) b) \<and> ts_vad_speaking b))"

lemma inv_before_timers: "agent_inv s t a \<Longrightarrow> agent_inv s t (before_timers env f ts fa a)"
  unfolding before_timers_def by (intro inv_intros)

lemma inv_process_voiced:
  assumes a: "agent_inv s (Tidy, None) a"
    and c1: "s \<Longrightarrow> \<not> (fst (timer_ticks env (fr_duration_ms f) (before_timers env f ts fa a)) \<and>
                   ts_vad_speaking (before_timers env f ts fa a))"
  shows "pred_option (agent_inv s (Tidy, None)) (process_voiced env f ts fa a)"
proof -
  obtain cp b where g: "gate_hold_step env ts (fr_duration_ms f) (a\<lparr>ts_vad_speaking := fr_vad_speaking f\<rparr>) = (cp, b)"
    by fastforce
  let ?b = "before_timers env f ts fa a"
  have eq: "append_lid_pcm_if_buffering env (fr_mono f) fa (fr_vad_speaking f) (fr_duration_ms f) b = ?b"
    by (simp add: before_timers_def g)
  show ?thesis
    unfolding process_voiced_def Let_def g prod.case eq
  proof (rule pred_bind [OF inv_run_timers [OF inv_before_timers [OF a] c1]])
    fix c assume c: "agent_inv s (Tidy, None) c"
    let ?c = "c\<lparr>va_turn_latency := fold (latency_on_transition (en_now env)) ts (va_turn_latency c)\<rparr>"
    have c': "agent_inv s (Tidy, None) ?c" using c by (intro inv_intros)
    show "pred_option (agent_inv s (Tidy, None))
      ((if cp \<and> stt_pipeline_active ?c then complete_pending_utterance_if_any env ?c else Some ?c) \<bind>
       (\<lambda>a. (if SpeechStart \<in> set ts \<and> stt_pipeline_active a then start_stream_at_speech env a else Some a) \<bind>
          (\<lambda>aa. if \<not> va_stt_enabled a then Some (fold (on_transition env (va_stt_enabled a)) ts aa)
                else feed_frame env f ts fa (stt_pipeline_active a) (fold (on_transition env (va_stt_enabled a)) ts aa))))"
    proof (rule pred_bind [where P = "agent_inv s (Tidy, None)"])
      show "pred_option (agent_inv s (Tidy, None))
          (if cp \<and> stt_pipeline_active ?c then complete_pending_utterance_if_any env ?c else Some ?c)"
        by (intro pred_if pred_Some inv_complete_pending c')
      fix d assume d: "agent_inv s (Tidy, None) d"
      show "pred_option (agent_inv s (Tidy, None))
        ((if SpeechStart \<in> set ts \<and> stt_pipeline_active d then start_stream_at_speech env d else Some d) \<bind>
          (\<lambda>aa. if \<not> va_stt_enabled d then Some (fold (on_transition env (va_stt_enabled d)) ts aa)
                else feed_frame env f ts fa (stt_pipeline_active d) (fold (on_transition env (va_stt_enabled d)) ts aa)))"
      proof (rule pred_bind [where P = "\<lambda>e. agent_inv s (Tidy, None) e \<and> (SpeechStart \<in> set ts \<longrightarrow> start_ready s e)"])
        have "pred_option (\<lambda>e. agent_inv s (Tidy, None) e \<and> (SpeechStart \<in> set ts \<longrightarrow> start_ready s e))
            (start_stream_at_speech env d)"
          using inv_start_stream [OF d, of env]
          by (cases "start_stream_at_speech env d") (auto intro: start_ready_open inv_not_open)
        moreover have "SpeechStart \<in> set ts \<Longrightarrow> \<not> stt_pipeline_active d \<Longrightarrow> start_ready s d"
          using d by (simp add: start_ready_def)
        ultimately show "pred_option (\<lambda>e. agent_inv s (Tidy, None) e \<and> (SpeechStart \<in> set ts \<longrightarrow> start_ready s e))
            (if SpeechStart \<in> set ts \<and> stt_pipeline_active d then start_stream_at_speech env d else Some d)"
          using d by auto
        fix e assume "agent_inv s (Tidy, None) e \<and> (SpeechStart \<in> set ts \<longrightarrow> start_ready s e)"
        then have "agent_inv s (Tidy, None) (fold (on_transition env (va_stt_enabled d)) ts e)"
          by (intro inv_transitions) simp_all
        then show "pred_option (agent_inv s (Tidy, None))
           (if \<not> va_stt_enabled d then Some (fold (on_transition env (va_stt_enabled d)) ts e)
            else feed_frame env f ts fa (stt_pipeline_active d) (fold (on_transition env (va_stt_enabled d)) ts e))"
          by (intro pred_if pred_Some inv_feed)
      qed
    qed
  qed
qed

lemma inv_inbound:
  assumes a: "agent_inv s (Tidy, None) a" and c1: "s \<Longrightarrow> \<not> frame_cuts_speech env f a"
  shows "pred_option (\<lambda>(e, a). agent_inv s (Tidy, None) a) (process_inbound_pcm env f a)"
proof (cases "va_running a")
  case True
  let ?n = "note_inbound_frame (en_now env) (fr_duration_ms f) a"
  have n: "agent_inv s (Tidy, None) ?n" using a by (intro inv_intros)
  show ?thesis
  proof (cases "fr_vad f")
    case (Inr x)
    obtain ts fa where x: "x = (ts, fa)" by fastforce
    have "pred_option (agent_inv s (Tidy, None)) (process_voiced env f ts fa ?n)"
      by (rule inv_process_voiced [OF n]) (use c1 in \<open>simp add: frame_cuts_speech_def Inr x Let_def\<close>)
    then have "pred_option (\<lambda>(e, a). agent_inv s (Tidy, None) a) (map_option (Pair None) (process_voiced env f ts fa ?n))"
      by (rule pred_map) simp
    with True show ?thesis by (simp add: process_inbound_pcm_def Let_def Inr x)
  qed (use True n in \<open>simp add: process_inbound_pcm_def Let_def\<close>)
qed (use a in \<open>simp add: process_inbound_pcm_def\<close>)

section \<open>The host's calls\<close>

lemma inv_set_stt_enabled [inv_intros]: "agent_inv s t a \<Longrightarrow> agent_inv s t (set_stt_enabled on a)"
proof -
  assume a: "agent_inv s t a"
  have r: "agent_inv s t (b\<lparr>us_live := None, us_closing := []\<rparr>)" if "agent_inv s t b" for b :: "'a agent"
    by (rule inv_clear_closing [OF inv_drop_live [OF that]])
  have "agent_inv s t (reset_stt_pipeline_state b)" if "agent_inv s t b" for b :: "'a agent"
    unfolding reset_stt_pipeline_state_def Let_def by (intro r inv_intros that)
  with a show ?thesis unfolding set_stt_enabled_def Let_def by (intro inv_if) (auto intro: inv_fields)
qed

lemma inv_apply_pending [inv_intros]: "agent_inv s t a \<Longrightarrow> agent_inv s t (apply_pending_stt_config a)"
  unfolding apply_pending_stt_config_def by (intro inv_intros)

lemma inv_update_stt [inv_intros]: "agent_inv s t a \<Longrightarrow> agent_inv s t (update_stt_config cfg a)"
  unfolding update_stt_config_def Let_def by (intro inv_intros)

lemma inv_live_map:
  assumes "agent_inv s t a" "\<And>r. quiet_to r (f r)"
  shows "agent_inv s t (a\<lparr>us_live := map_option f (us_live a)\<rparr>)"
proof (cases "us_live a")
  case None
  then show ?thesis using inv_drop_live [OF assms(1)] by simp
next
  case (Some r)
  with inv_live [OF assms(1) Some assms(2)] show ?thesis by simp
qed

lemma inv_begin_hold [inv_intros]: "agent_inv s t a \<Longrightarrow> agent_inv s t (snd (begin_stt_hold o' gen a))"
proof -
  assume a: "agent_inv s t a"
  have l: "agent_inv s t (b\<lparr>us_live := map_option (\<lambda>r. r\<lparr>ut_last_partial_text := None\<rparr>) (us_live b)\<rparr>)"
    if "agent_inv s t b" for b :: "'a agent"
    by (rule inv_live_map [OF that]) (simp add: quiet_to_def)
  have core: "agent_inv s t (b\<lparr>va_stt_hold := h, va_held_ignore_logged_key := None,
      us_live := map_option (\<lambda>r. r\<lparr>ut_last_partial_text := None\<rparr>) (us_live b),
      va_last_replay_snapshot := None, va_utterance_replay_buffer := rb\<rparr>)" if "agent_inv s t b" for b :: "'a agent" and h rb
    by (intro inv_fields) (rule l [of "b\<lparr>va_stt_hold := h, va_held_ignore_logged_key := None\<rparr>", simplified], intro inv_intros that)
  show ?thesis
    unfolding begin_stt_hold_def Let_def by (auto intro!: a inv_emit core)
qed

lemma inv_release_drop [inv_intros]: "agent_inv s t a \<Longrightarrow> agent_inv s t (release_stt_hold_drop a)"
  unfolding release_stt_hold_drop_def by (intro inv_case_option inv_emit inv_intros) simp_all

lemma inv_new_replay [inv_intros]: "agent_inv s t a \<Longrightarrow> agent_inv s t (snd (new_replay_record replaces a))"
proof -
  assume a: "agent_inv s t a"
  let ?rec = "(fst (new_record a))\<lparr>ut_kind := UttReplay replaces, ut_phase := UttClosing,
     ut_terminal_waiter := Some (ut_key (fst (new_record a)))\<rparr>"
  have "agent_inv s t ((snd (new_record a))\<lparr>us_closing := us_closing a @ [?rec]\<rparr>)"
    by (rule inv_add_closing [OF a]) (simp_all add: new_record_sel)
  then show ?thesis by (simp add: new_replay_record_def case_prod_unfold Let_def new_record_sel)
qed

lemma inv_end_hold [inv_intros]: "agent_inv s t a \<Longrightarrow> agent_inv s t (end_hold_for_replay now fed hold a)"
proof -
  assume a: "agent_inv s t a"
  have b: "agent_inv s t (a\<lparr>va_stt_hold := None\<rparr>)" using a by (intro inv_intros)
  show ?thesis
    unfolding end_hold_for_replay_def Let_def
    by (rule inv_if, rule inv_live_map [OF b], simp add: quiet_to_def)
      (auto intro!: inv_let_pair [unfolded Let_def] inv_agent_send inv_new_replay b)
qed

lemma inv_release_feed [inv_intros]: "agent_inv s t a \<Longrightarrow> agent_inv s t (snd (release_stt_hold_feed now alive a))"
  unfolding release_stt_hold_feed_def Let_def
  by (auto simp: case_prod_unfold intro!: inv_emit inv_end_hold inv_fold inv_send_stt_audio inv_fields split: option.split)

lemma inv_release_end [inv_intros]: "agent_inv s t a \<Longrightarrow> agent_inv s t (release_stt_hold_end fed dropped a)"
  unfolding release_stt_hold_end_def by (rule inv_emit [rotated]) simp_all

lemma inv_cancel_hold [inv_intros]: "agent_inv s t a \<Longrightarrow> agent_inv s t (snd (cancel_stt_hold env a))"
  unfolding cancel_stt_hold_def Let_def
  by (auto simp: case_prod_unfold intro!: inv_emit inv_begin_close inv_fold inv_send_stt_audio inv_fields split: option.split)

lemma inv_replay_enqueue [inv_intros]: "agent_inv s t a \<Longrightarrow> agent_inv s t (replay_enqueue snap a)"
  unfolding replay_enqueue_def
  by (rule inv_let_pair, rule inv_new_replay, assumption, unfold Let_def) (intro inv_intros)

lemma inv_playback [inv_intros]:
  fixes a :: "'f agent"
  shows "agent_inv s t a \<Longrightarrow> agent_inv s t (playback_start now p q r a)"
    "agent_inv s t a \<Longrightarrow> agent_inv s t (playback_flushed a)"
    "agent_inv s t a \<Longrightarrow> agent_inv s t (playback_drained env a)"
proof -
  assume a: "agent_inv s t a"
  show "agent_inv s t (playback_start now p q r a)"
    unfolding playback_start_def Let_def by (rule inv_emit, simp, intro inv_intros a)
  have e: "agent_inv s t (if c then agent_emit agent_speaking_end b else b)" if "agent_inv s t b" for c and b :: "'f agent"
    using that by (auto intro: inv_emit)
  show "agent_inv s t (playback_flushed a)"
    unfolding playback_flushed_def by (intro inv_let_pair inv_end_speaking a e)
  show "agent_inv s t (playback_drained env a)"
    unfolding playback_drained_def by (intro inv_let_pair inv_end_speaking a inv_let e inv_deferred_lid)
qed

lemma inv_stop [inv_intros]: "agent_inv s t a \<Longrightarrow> agent_inv s t (snd (stop_agent env a))"
proof -
  assume a: "agent_inv s t a"
  have c: "agent_inv s t (b\<lparr>va_actor := False, us_closing := []\<rparr>)" if "agent_inv s t b" for b :: "'a agent"
    by (rule inv_clear_closing) (intro inv_intros that)
  show ?thesis
    unfolding stop_agent_def Let_def
    by (intro inv_snd_if inv_snd_Pair a c inv_intros)
qed

end
