(* ===== verification/Agent_Run.thy ===== *)
theory Agent_Run
  imports Agent_Steps
begin

text \<open>
  Whole runs of an agent: every call, frame, tick and STT result is one operation, taken in any order
  (the step lock makes them atomic; a call that awaits is several operations).  What every run keeps of
  the records and of the event log, and what an orderly run keeps of the terminal events.
\<close>

section \<open>Construction and start\<close>

text \<open>\<open>VoiceAgent::new\<close>: \<open>first_id\<close> is the state of the process-wide id sequence.\<close>

definition default_session_context :: voice_session_context where
  "default_session_context = \<lparr>sx_session_id = None, sx_trace_id = None, sx_project_id = None,
     sx_org_id = None, sx_build_id = None, sx_traceparent = None\<rparr>"

definition agent_new :: "'f voice_agent_config \<Rightarrow> nat \<Rightarrow> bool \<Rightarrow> 'f agent" where
  "agent_new config first_id language_id =
     \<lparr>us_live = None, us_next_key = 1, us_closing = [], us_lid_retained = [], us_id_seq = first_id,
      ts_stt_gate_hold_ms = 0, ts_gate_hold_expired_key = None, ts_stt_finalize_pending = False,
      ts_stt_endpoint_closing_started = False, ts_agent_speaking = False, ts_agent_speaking_since = None,
      ts_stt_listen_deadline_ms = 0, ts_stt_listen_started_at = None, ts_stt_listen_media_ms = 0,
      ts_c1_backlog_deferred_logged = False, ts_stt_open_wait_started_at = None,
      ts_utterance_finalize_deadline_ms = 0, ts_utterance_finalize_armed_at = None,
      ts_last_inbound_pcm_at = None, ts_utterance_media_ms = 0,
      ts_defer_utterance_finalize_until_hold = False, ts_playback_epoch = 0,
      ts_barge_awaiting_stt_partial = False, ts_stt_barge_fired = False, ts_vad_speaking = False,
      va_config = config, va_running = False, va_actor = False, va_stt_enabled = True,
      va_stt_pre_roll = (if vc_enabled (ag_vad config) \<and> vc_gate_stt (ag_vad config)
                         then Some (pre_roll_from_vad_config (ag_vad config)) else None),
      va_short_burst = retainer_new, va_hold_pending_pcm = [], va_hold_lookback_pcm = [],
      va_turn_latency = tracker_new, va_lid_last_emitted = None,
      va_language_id = (language_id_enabled (ag_language_id config) \<and> language_id), va_lid_jobs = [],
      va_pending_stt_config = None, va_utterance_replay_buffer = replay_new, va_last_replay_snapshot = None,
      va_stt_hold = None, va_replay_begun_at_pre_roll = False, va_held_ignore_logged_key = None,
      va_session_context = default_session_context, va_events = [], va_sent = [], va_answers = []\<rparr>"

text \<open>
  \<open>start\<close>: \<open>creation\<close> is the vendor registry's error, \<open>answer\<close> what starting the provider through the
  actor gave.  A failed start leaves the agent running.
\<close>

definition start_agent ::
  "bool \<Rightarrow> voice_session_context \<Rightarrow> speech_error option \<Rightarrow> speech_error + unit \<Rightarrow> 'f agent \<Rightarrow>
   (speech_error + unit) \<times> 'f agent" where
  "start_agent attached ctx creation answer a =
     (if \<not> attached then (Inl NotAttached, a)
      else if va_running a then (Inl AlreadyRunning, a)
      else
        (let a = a\<lparr>va_running := True, va_session_context := ctx\<rparr>
         in case creation of
              Some e \<Rightarrow> (Inl e, a)
            | None \<Rightarrow> (answer, agent_send (CStart ctx 0) (a\<lparr>va_actor := True\<rparr>))))"

section \<open>Operations\<close>

datatype agent_op =
    OpStart bool voice_session_context "speech_error option" "speech_error + unit"
  | OpInbound inbound_frame
  | OpTick
  | OpPrepareResult stt_result
  | OpResult stt_result
  | OpIdentified nat lid_result
  | OpSttEnabled bool
  | OpUpdateStt stt_config
  | OpApplyPending
  | OpBeginHold begin_stt_hold_options nat
  | OpReleaseDrop
  | OpReleaseFeed bool
  | OpReleaseEnd nat nat
  | OpCancelHold
  | OpReplay replay_snapshot
  | OpPlaybackStart "nat option" "nat option" "nat option"
  | OpPlaybackFlushed
  | OpPlaybackDrained
  | OpFlushTts
  | OpIdsTaken nat
  | OpStop

text \<open>\<open>None\<close>: the task that runs the operation panics.\<close>

fun agent_step :: "step_env \<Rightarrow> agent_op \<Rightarrow> 'f agent \<Rightarrow> 'f agent option" where
  "agent_step env (OpStart attached ctx creation answer) a = Some (snd (start_agent attached ctx creation answer a))"
| "agent_step env (OpInbound f) a = map_option snd (process_inbound_pcm env f a)"
| "agent_step env OpTick a = c2_wall_clock_tick env a"
| "agent_step env (OpPrepareResult result) a = Some (prepare_stt_result env result a)"
| "agent_step env (OpResult result) a = apply_stt_result env result a"
| "agent_step env (OpIdentified key result) a = Some (finish_identify key result a)"
| "agent_step env (OpSttEnabled on) a = Some (set_stt_enabled on a)"
| "agent_step env (OpUpdateStt config) a = Some (update_stt_config config a)"
| "agent_step env OpApplyPending a = Some (apply_pending_stt_config a)"
| "agent_step env (OpBeginHold options gen) a = Some (snd (begin_stt_hold options gen a))"
| "agent_step env OpReleaseDrop a = Some (release_stt_hold_drop a)"
| "agent_step env (OpReleaseFeed alive) a = Some (snd (release_stt_hold_feed (en_now env) alive a))"
| "agent_step env (OpReleaseEnd fed dropped) a = Some (release_stt_hold_end fed dropped a)"
| "agent_step env OpCancelHold a = Some (snd (cancel_stt_hold env a))"
| "agent_step env (OpReplay snapshot) a = Some (replay_enqueue snapshot a)"
| "agent_step env (OpPlaybackStart first_audio first_chunk adjusted) a =
     Some (playback_start (en_now env) first_audio first_chunk adjusted a)"
| "agent_step env OpPlaybackFlushed a = Some (playback_flushed a)"
| "agent_step env OpPlaybackDrained a = Some (playback_drained env a)"
| "agent_step env OpFlushTts a = Some (flush_tts env a)"
| "agent_step env (OpIdsTaken n) a = Some (a\<lparr>us_id_seq := us_id_seq a + n\<rparr>)"
| "agent_step env OpStop a = Some (snd (stop_agent env a))"

primrec agent_run :: "(step_env \<times> agent_op) list \<Rightarrow> 'f agent \<Rightarrow> 'f agent option" where
  "agent_run [] a = Some a"
| "agent_run (x # xs) a = Option.bind (agent_step (fst x) (snd x) a) (agent_run xs)"

text \<open>
  What an orderly run leaves out: C1 while the VAD still hears the user (or, from the ticker, during a
  hold), and a transcript without a key that meets an utterance that already has its terminal event.
\<close>

fun orderly_op :: "step_env \<Rightarrow> agent_op \<Rightarrow> 'f agent \<Rightarrow> bool" where
  "orderly_op env (OpInbound f) a \<longleftrightarrow> \<not> frame_cuts_speech env f a"
| "orderly_op env OpTick a \<longleftrightarrow>
     \<not> (fst (c1_tick env (en_pcm_idle env) a) \<and> (ts_vad_speaking a \<or> va_stt_hold a \<noteq> None))"
| "orderly_op env (OpResult (RTranscript None gen w)) a \<longleftrightarrow>
     us_closing a = [] \<longrightarrow> \<not> live_flag ut_terminal a"
| "orderly_op env op a \<longleftrightarrow> True"

primrec orderly_run :: "(step_env \<times> agent_op) list \<Rightarrow> 'f agent \<Rightarrow> bool" where
  "orderly_run [] a \<longleftrightarrow> True"
| "orderly_run (x # xs) a \<longleftrightarrow> orderly_op (fst x) (snd x) a \<and>
     (case agent_step (fst x) (snd x) a of None \<Rightarrow> True | Some b \<Rightarrow> orderly_run xs b)"

section \<open>Every step keeps the ledger\<close>

lemma inv_start_agent [inv_intros]: "agent_inv s t a \<Longrightarrow> agent_inv s t (snd (start_agent at ctx c w a))"
  unfolding start_agent_def Let_def by (auto intro!: inv_agent_send inv_fields split: option.split)

lemma inv_flush_tts [inv_intros]: "agent_inv s t a \<Longrightarrow> agent_inv s t (flush_tts env a)"
proof -
  assume a: "agent_inv s t a"
  have e: "agent_inv s t (if c then agent_emit agent_speaking_end b else b)" if "agent_inv s t b" for c and b :: "'a agent"
    using that by (auto intro: inv_emit)
  show ?thesis
    unfolding flush_tts_def Let_def [of "vc_barge_in _"]
    by (intro inv_let inv_if inv_barge_in a inv_let_pair inv_end_speaking inv_flushed e inv_cancel_tts)
qed

lemma inv_new_agent: "agent_inv s (Tidy, None) (agent_new cfg n lid)"
proof -
  have "once K F (agent_new cfg n lid)" for K F
    by (auto simp: once_def agent_new_def of_bool_def)
  then show ?thesis
    by (simp add: agent_inv_def) (simp add: agent_new_def store_ok_def phases_ok_def store_settled_def all_records_def)
qed

lemma inv_step:
  assumes a: "agent_inv s (Tidy, None) a" and o: "s \<Longrightarrow> orderly_op env op a"
  shows "pred_option (agent_inv s (Tidy, None)) (agent_step env op a)"
proof (cases op)
  case (OpInbound f)
  have "pred_option (\<lambda>(e, a). agent_inv s (Tidy, None) a) (process_inbound_pcm env f a)"
    by (rule inv_inbound [OF a]) (use o OpInbound in simp)
  then show ?thesis
    unfolding OpInbound agent_step.simps by (rule pred_map) auto
next
  case OpTick
  show ?thesis unfolding OpTick agent_step.simps by (rule inv_c2_wall [OF a]) (use o OpTick in simp)
next
  case (OpResult result)
  show ?thesis
    unfolding OpResult agent_step.simps by (rule inv_apply_result [OF a]) (use o OpResult in simp)
qed (simp_all add: a inv_prepare_result inv_ids inv_intros)

theorem run_keeps_ledger:
  "agent_inv s (Tidy, None) a \<Longrightarrow> (s \<Longrightarrow> orderly_run ops a) \<Longrightarrow> agent_run ops a = Some b \<Longrightarrow>
   agent_inv s (Tidy, None) b"
proof (induction ops arbitrary: a)
  case (Cons x xs)
  from Cons.prems(3) obtain c where c: "agent_step (fst x) (snd x) a = Some c" "agent_run xs c = Some b"
    by (auto split: bind_splits)
  have "pred_option (agent_inv s (Tidy, None)) (agent_step (fst x) (snd x) a)"
    by (rule inv_step [OF Cons.prems(1)]) (use Cons.prems(2) in simp)
  then have "agent_inv s (Tidy, None) c" by (simp add: c)
  then show ?case by (rule Cons.IH [OF _ _ c(2)]) (use Cons.prems(2) c(1) in simp)
qed simp

end
