(* ===== verification/Agent_Properties.thy ===== *)
theory Agent_Properties
  imports Agent_Run
begin

text \<open>
  What the agent promises of its events: the records of every run, the events an utterance has at most
  once, the terminal event, the panic of a debug preview, and a run that emits both terminal events.
\<close>

section \<open>Steps that only add events\<close>

text \<open>Events are appended; every record keeps its id, its kind and its replay context.\<close>

definition grows :: "'f agent \<Rightarrow> 'f agent \<Rightarrow> bool" where
  "grows b a \<longleftrightarrow> (\<exists>evs. va_events b = va_events a @ evs) \<and>
     (\<forall>k. map_option (\<lambda>r. (ut_id r, ut_kind r, ut_replay_ctx r)) (record_ref k b) =
          map_option (\<lambda>r. (ut_id r, ut_kind r, ut_replay_ctx r)) (record_ref k a))"

named_theorems grows_intros "operations that only add events"

lemma grows_refl: "grows a a"
  by (simp add: grows_def)

lemma grows_trans: "grows c b \<Longrightarrow> grows b a \<Longrightarrow> grows c a"
  by (auto simp: grows_def)

lemma grows_core: "same_ledger c b \<Longrightarrow> grows b a \<Longrightarrow> grows c a"
  by (simp add: grows_def same_core_cong(7)) (simp add: same_ledger_def)

lemma grows_emit [grows_intros]: "grows b a \<Longrightarrow> grows (agent_emit e b) a"
  by (auto simp: grows_def)

lemma grows_mut [grows_intros]:
  assumes "\<And>r. ut_key (f r) = ut_key r \<and> ut_id (f r) = ut_id r \<and> ut_kind (f r) = ut_kind r \<and>
      ut_replay_ctx (f r) = ut_replay_ctx r" and "grows b a"
  shows "grows (record_mut key f b) a"
proof -
  have "map_option p (find_key k (update_first (\<lambda>r. ut_key r = key) f rs)) = map_option p (find_key k rs)"
    if "p = (\<lambda>r. (ut_id r, ut_kind r, ut_replay_ctx r))" for p k rs
    using assms(1) that by (induction rs) auto
  then show ?thesis using assms(2) by (simp add: grows_def record_ref_find all_records_mut)
qed

lemma grows_lid_mut [grows_intros]: "grows b a \<Longrightarrow> grows (lid_mut key f b) a"
  unfolding lid_mut_def by (rule grows_mut) simp_all

lemma grows_fields [grows_intros]:
  "grows b a \<Longrightarrow> grows (b\<lparr>ts_barge_awaiting_stt_partial := x1\<rparr>) a"
  "grows b a \<Longrightarrow> grows (b\<lparr>ts_stt_barge_fired := x2\<rparr>) a"
  "grows b a \<Longrightarrow> grows (b\<lparr>va_turn_latency := x3\<rparr>) a"
  "grows b a \<Longrightarrow> grows (b\<lparr>va_replay_begun_at_pre_roll := x4\<rparr>) a"
  "grows b a \<Longrightarrow> grows (b\<lparr>va_utterance_replay_buffer := x5\<rparr>) a"
  "grows b a \<Longrightarrow> grows (b\<lparr>ts_stt_finalize_pending := x6\<rparr>) a"
  "grows b a \<Longrightarrow> grows (b\<lparr>ts_stt_endpoint_closing_started := x7\<rparr>) a"
  "grows b a \<Longrightarrow> grows (b\<lparr>va_answers := x8\<rparr>) a"
  by (auto intro: grows_core [rotated])

lemma grows_if [grows_intros]:
  "(c \<Longrightarrow> grows x a) \<Longrightarrow> (\<not> c \<Longrightarrow> grows y a) \<Longrightarrow> grows (if c then x else y) a"
  by simp

lemma grows_let [grows_intros]:
  "grows v a \<Longrightarrow> (\<And>b. grows b a \<Longrightarrow> grows (f b) a) \<Longrightarrow> grows (Let v f) a"
  by simp

lemma grows_let_val: "(\<And>x. grows (f x) a) \<Longrightarrow> grows (Let v f) a"
  by simp

lemma grows_case [grows_intros]:
  "(x = None \<Longrightarrow> grows y a) \<Longrightarrow> (\<And>v. x = Some v \<Longrightarrow> grows (f v) a) \<Longrightarrow>
   grows (case x of None \<Rightarrow> y | Some v \<Rightarrow> f v) a"
  by (cases x) simp_all

lemma grows_pair [grows_intros]:
  "grows (snd v) a \<Longrightarrow> (\<And>x b. grows b a \<Longrightarrow> grows (f x b) a) \<Longrightarrow> grows (let (x, b) = v in f x b) a"
  by (cases v) simp

lemma grows_fold [grows_intros]:
  "(\<And>x b. grows b a \<Longrightarrow> grows (f x b) a) \<Longrightarrow> grows b a \<Longrightarrow> grows (fold f xs b) a"
  by (induction xs arbitrary: b) simp_all

lemma grows_skipped [grows_intros]:
  "grows b a \<Longrightarrow> grows (emit_language_id_skipped_once key reason b) a"
  unfolding emit_language_id_skipped_once_def emit_language_id_skipped_def by (intro grows_intros)

lemma grows_speaking_end_for: "grows b a \<Longrightarrow> grows (emit_user_speaking_end_for key b) a"
  unfolding emit_user_speaking_end_for_def
  apply (rule grows_case, assumption)
  apply (rule grows_let_val)
  apply (rule grows_let)
  apply (rule grows_if)
  apply (rule grows_skipped, assumption, assumption)
  apply (rule grows_let)
  apply (rule grows_emit, assumption)
  apply (rule grows_lid_mut, assumption)
  done

lemma grows_speaking_start [grows_intros]:
  "grows b a \<Longrightarrow> grows (emit_user_speaking_start_if_needed key b) a"
proof -
  assume b: "grows b a"
  have lid: "grows (start_lid_buffering c) a" if "grows c a" for c :: "'a agent"
  proof (cases "us_live c")
    case (Some r)
    have "c\<lparr>us_live := Some (r\<lparr>ut_lid := l\<rparr>)\<rparr> = record_mut (ut_key r) (\<lambda>r. r\<lparr>ut_lid := l\<rparr>) c" for l
      using Some by (simp add: record_mut_def live_with_key_def)
    then have "grows (c\<lparr>us_live := Some (r\<lparr>ut_lid := l\<rparr>)\<rparr>) a" for l
      using grows_mut [OF _ that, of "\<lambda>r. r\<lparr>ut_lid := l\<rparr>" "ut_key r"] by simp
    then show ?thesis using that Some by (simp add: start_lid_buffering_def)
  qed (use that in \<open>simp add: start_lid_buffering_def\<close>)
  show ?thesis
    unfolding emit_user_speaking_start_if_needed_def
    apply (rule grows_if [OF b], rule grows_case [OF b], rule grows_if [OF b], rule grows_let_val)
    apply (rule grows_let, rule grows_mut, simp, rule b)
    apply (rule grows_let, rule grows_if, rule grows_if, rule grows_fields, assumption, rule grows_fields, assumption, assumption)
    apply (rule grows_let, rule grows_emit, assumption)
    apply (rule grows_if, rule lid, assumption, assumption)
    done
qed

lemma grows_flushed [grows_intros]: "grows b a \<Longrightarrow> grows (emit_flushed_replies env b) a"
  unfolding emit_flushed_replies_def by (rule grows_fold) (auto intro: grows_emit)

lemma grows_cancel_tts [grows_intros]: "grows b a \<Longrightarrow> grows (cancel_pending_tts_synthesis env b) a"
  unfolding cancel_pending_tts_synthesis_def by (rule grows_fold) (auto intro: grows_emit)

lemma grows_barge_in [grows_intros]:
  assumes b: "grows b a"
  shows "grows (barge_in_with_speaking_end env bi i b) a"
proof -
  have "grows (snd (end_agent_speaking False b)) a"
    by (rule grows_core [OF _ b]) (simp add: end_agent_speaking_def Let_def same_ledger_def)
  then have "grows (snd (if bi_flush_tts bi then end_agent_speaking False b else (False, b))) a"
    using b by simp
  then show ?thesis
    unfolding barge_in_with_speaking_end_def
    by (intro grows_if b grows_pair grows_let grows_flushed grows_emit)
qed

lemma grows_stt_barge [grows_intros]:
  assumes b: "grows b a"
  shows "grows (try_stt_gated_barge_in env key t b) a"
  unfolding try_stt_gated_barge_in_def
  by (intro grows_if b grows_let_val [of _ _ "map_option ut_id (record_ref key b)"] grows_let grows_cancel_tts
      grows_barge_in grows_fields)

lemma grows_ref:
  assumes "grows b a" "record_ref key a = Some rec"
  obtains r where "record_ref key b = Some r" "ut_id r = ut_id rec" "ut_kind r = ut_kind rec"
    "ut_replay_ctx r = ut_replay_ctx rec"
proof -
  have "map_option (\<lambda>r. (ut_id r, ut_kind r, ut_replay_ctx r)) (record_ref key b) =
      Some (ut_id rec, ut_kind rec, ut_replay_ctx rec)"
    using assms by (simp add: grows_def)
  then show ?thesis using that by (cases "record_ref key b") simp_all
qed

section \<open>The panic of a debug preview\<close>

lemma str_slice_none: "str_slice_to n t = None \<longleftrightarrow> (\<forall>p q. t = p @ q \<longrightarrow> utf8_length p \<noteq> n)"
proof (induction n t rule: str_slice_to.induct)
  case (2 n c cs)
  have split: "(\<forall>p q. c # cs = p @ q \<longrightarrow> utf8_length p \<noteq> n) \<longleftrightarrow>
      n \<noteq> 0 \<and> (\<forall>p q. cs = p @ q \<longrightarrow> utf8_len c + utf8_length p \<noteq> n)" (is "?l \<longleftrightarrow> ?r")
  proof
    assume l: ?l
    have "utf8_length (c # p) \<noteq> n" if "cs = p @ q" for p q using l that by (metis append_Cons)
    moreover have "utf8_length [] \<noteq> n" using l by blast
    ultimately show ?r by simp
  qed (auto simp: Cons_eq_append_conv)
  have le: "utf8_len c + utf8_length p = n \<longleftrightarrow> utf8_len c \<le> n \<and> utf8_length p = n - utf8_len c" for p
    by auto
  show ?case
    unfolding split le using 2 by auto
qed auto

lemma preview_none: "debug_preview t = None \<longleftrightarrow> 80 < utf8_length t \<and> str_slice_to 80 t = None"
  by (simp add: debug_preview_def)

lemma close_with_final_none:
  "close_with_final env key l t a = None \<longleftrightarrow> record_ref key a \<noteq> None \<and> debug_preview t = None"
  unfolding close_with_final_def Let_def by (cases "debug_preview t") (simp_all split: option.split)

text \<open>C13: A vendor final for a caller's utterance panics the result task exactly when the text is over 80 bytes long
  and no character ends at its byte 80 (the debug line slices the text there), whether or not debug
  output is on; a blank final that is ignored, a replay's final and an unknown key never panic.\<close>

theorem final_panics_iff:
  "apply_final env key t a = None \<longleftrightarrow>
     (\<exists>rec. record_ref key a = Some rec \<and> ut_kind rec = UttLive \<and>
        \<not> (trim t = [] \<and> live_key a = Some key \<and> ts_vad_speaking a)) \<and>
     80 < utf8_length t \<and> (\<nexists>p q. t = p @ q \<and> utf8_length p = 80)"
proof (cases "record_ref key a")
  case (Some rec)
  have e: "grows (try_stt_gated_barge_in env key t (emit_user_speaking_start_if_needed key a)) a"
    by (intro grows_stt_barge grows_speaking_start grows_refl)
  have "record_ref key (try_stt_gated_barge_in env key t (emit_user_speaking_start_if_needed key a)) \<noteq> None"
    by (rule grows_ref [OF e Some]) simp
  then show ?thesis
    using Some by (auto simp: apply_final_def Let_def close_with_final_none preview_none str_slice_none)
qed (simp add: apply_final_def)

section \<open>The end of a finalize\<close>

lemma emitted_pos: "e \<in> set evs \<Longrightarrow> K (se_kind e) \<Longrightarrow> se_utterance_id e = Some i \<Longrightarrow> 0 < emitted_of K i evs"
  by (induction evs) auto

lemma grows_emitted: "grows b a \<Longrightarrow> emitted_of K i (va_events a) \<le> emitted_of K i (va_events b)"
  by (auto simp: grows_def)

text \<open>The text and the replay context decide which terminal event a close without a vendor final owes.\<close>

definition no_outcome :: "stt_utterance \<Rightarrow> bool" where
  "no_outcome r \<longleftrightarrow> \<not> ut_terminal r \<and> \<not> ut_final_emitted r \<and> \<not> ut_not_found_emitted r"

definition close_owes_event :: "stt_utterance \<Rightarrow> bool" where
  "close_owes_event r \<longleftrightarrow> ut_kind r = UttLive \<and> no_outcome r \<and> ut_replay_ctx r = None \<and>
     (ut_stream_open r \<or> ut_user_stt_session_open r) \<and> (ut_partials_emitted r \<or> trim (partial_text r) = [])"

lemma text_final_emits:
  assumes "trim t \<noteq> []" "record_ref key b = Some r" "ut_kind r = UttLive" "ut_replay_ctx r = None"
  shows "0 < emitted_of term_kind (ut_id r) (va_events (emit_utterance_final env key t b))"
proof -
  have w: "va_events (fire_terminal_waiter key True c) = va_events c" for c :: "'a agent"
    by (simp add: fire_terminal_waiter_def split: option.split)
  show ?thesis
    using assms by (simp add: emit_utterance_final_def Let_def w event_builders term_kind_def)
qed

lemma closed_record_grows: "grows (closed_record i plan rec a) a"
proof -
  let ?m = "record_mut (ut_key rec) (close_record plan) a"
  let ?t = "(if i then clear_utterance_finalize_timer (clear_stt_listen_timer ?m) else ?m)
      \<lparr>ts_barge_awaiting_stt_partial := False\<rparr>"
  have "grows ?m a" by (rule grows_mut) (simp_all add: close_record_def grows_refl)
  then have "grows ?t a"
    by (rule grows_core [rotated])
      (simp add: same_ledger_def clear_utterance_finalize_timer_def clear_stt_listen_timer_def)
  then show ?thesis
    unfolding closed_record_def emit_close_events_def Let_def
    by (intro grows_if grows_emit) (simp_all only: if_True if_False)
qed

lemma closed_record_not_found:
  "cp_not_found plan \<Longrightarrow> 0 < emitted_of term_kind (ut_id rec) (va_events (closed_record i plan rec a))"
  unfolding closed_record_def emit_close_events_def Let_def by (auto simp: event_builders term_kind_def)

lemma grows_speaking_end: "grows b a \<Longrightarrow> grows (emit_speaking_end env key False b) a"
  by (simp add: emit_speaking_end_def grows_speaking_end_for)

lemma finish_with_partial_emits:
  assumes e: "grows b a" and r: "record_ref key a = Some rec" "ut_kind rec = UttLive" "ut_replay_ctx rec = None"
    and t: "trim t \<noteq> []" "finish_with_partial env key False False t b = Some c"
  shows "0 < emitted_of term_kind (ut_id rec) (va_events c)"
proof -
  let ?m = "record_mut key (\<lambda>r. r\<lparr>ut_speaking_end_emitted := True, ut_final_emitted := True\<rparr>) b"
  have m: "grows ?m a" by (rule grows_mut) (simp_all add: e)
  obtain d where d: "c = emit_utterance_final env key t d" "grows d a"
  proof
    let ?e = "case record_ref key b of Some r \<Rightarrow> \<not> ut_speaking_end_emitted r | None \<Rightarrow> False"
    show "c = emit_utterance_final env key t (if ?e then emit_speaking_end env key False ?m else ?m)"
      using t(2) by (cases "debug_preview t") (simp_all add: finish_with_partial_def Let_def)
    show "grows (if ?e then emit_speaking_end env key False ?m else ?m) a"
      using m grows_speaking_end [OF m] by simp
  qed
  obtain r where "record_ref key d = Some r" "ut_id r = ut_id rec" "ut_kind r = ut_kind rec" "ut_replay_ctx r = ut_replay_ctx rec"
    by (rule grows_ref [OF d(2) r(1)])
  with text_final_emits [OF t(1), of key d r env] r d(1) show ?thesis by simp
qed

lemma finish_without_text_grows:
  assumes "grows b a" shows "grows (finish_without_text env key False False forced b) a"
proof -
  have "grows (record_mut key (\<lambda>r. r\<lparr>ut_final_emitted := (forced \<or> ut_final_emitted r), ut_speaking_end_emitted := True\<rparr>) b) a"
    by (rule grows_mut) (simp_all add: assms)
  then show ?thesis
    unfolding finish_without_text_def Let_def by (auto intro: grows_speaking_end)
qed

text \<open>The close of a record that owes an event emits one, unless the preview of its last partial panics.\<close>

lemma close_emits:
  assumes r: "record_ref key a = Some rec" "close_owes_event rec" and h: "va_stt_hold a = None"
    and f: "finish_record_close env key False False a = Some c"
  shows "0 < emitted_of term_kind (ut_id rec) (va_events c)"
proof -
  define plan where "plan = plan_close False rec"
  let ?b = "closed_record False plan rec a"
  have live: "ut_kind rec = UttLive" using r(2) by (simp add: close_owes_event_def)
  have hn: "(va_stt_hold a \<noteq> None) = False" using h by simp
  have c: "(case cp_forced_text plan of
        Some t \<Rightarrow> finish_with_partial env key False False t ?b
      | None \<Rightarrow> Some (finish_without_text env key False False (cp_forced_reason plan) ?b)) = Some c"
    using f finish_record_close_eq [OF r(1) live, of env False False] unfolding plan_def Let_def hn by simp
  show ?thesis
  proof (cases "cp_forced_text plan")
    case (Some t)
    have "trim t \<noteq> []" using plan_close_sel(2) [of False rec t] Some by (simp add: plan_def)
    then show ?thesis
      using finish_with_partial_emits [OF closed_record_grows r(1) live, where c = c and t = t] c Some r(2)
      by (simp add: close_owes_event_def)
  next
    case None
    have "cp_not_found plan"
      using None r(2) by (auto simp: plan_def plan_close_def Let_def close_owes_event_def no_outcome_def partial_text_def split: if_splits)
    then have "0 < emitted_of term_kind (ut_id rec) (va_events ?b)" by (rule closed_record_not_found)
    moreover have "grows c ?b"
      using c None finish_without_text_grows [OF grows_refl] by auto
    ultimately show ?thesis using grows_emitted less_le_trans by blast
  qed
qed

lemma close_returns:
  assumes "record_ref key a = Some rec" "debug_preview (partial_text rec) \<noteq> None"
  obtains c where "finish_record_close env key i w a = Some c"
proof (cases "ut_kind rec = UttLive")
  case True
  have "finish_with_partial env key i w t b \<noteq> None"
    if "cp_forced_text (plan_close (va_stt_hold a \<noteq> None) rec) = Some t" for t b
    using assms(2) plan_close_sel(2) [OF that] by (auto simp: finish_with_partial_def Let_def)
  then have "finish_record_close env key i w a \<noteq> None"
    by (auto simp: finish_record_close_eq [OF assms(1) True] Let_def split: option.split)
  then show ?thesis using that by blast
qed (use assms(1) that in \<open>simp add: finish_record_close_def\<close>)

lemma leave_closing_events [simp]: "va_events (leave_closing key b) = va_events b"
  by (simp add: leave_closing_def retain_for_lid_def Let_def split: option.split)

lemma leave_closing_gone:
  assumes "agent_inv s m b" shows "find_key key (us_closing (leave_closing key b)) = None"
proof (cases "find_key key (us_closing b)")
  case (Some r)
  have d: "distinct (map ut_key (us_closing b))" using assms by (simp add: agent_inv_def store_ok_def all_records_def)
  have "find_key key (remove1 r rs) = None" if "find_key key rs = Some r" "distinct (map ut_key rs)" for rs
    using that
  proof (induction rs)
    case (Cons x rs)
    have "find_key key rs = None" if "ut_key x = key"
      using Cons.prems(2) that by (cases "find_key key rs") (auto dest!: find_key_in simp: rev_image_eqI)
    with Cons show ?case by (auto split: if_splits dest: find_key_in)
  qed simp
  then show ?thesis using Some d by (simp add: leave_closing_def retain_for_lid_def Let_def split: option.split)
qed (simp add: leave_closing_def)

section \<open>Whole runs\<close>

definition demo_env :: "nat \<Rightarrow> step_env" where
  "demo_env now_ms = \<lparr>en_now = ms now_ms, en_pcm_idle = 0, en_backlog_ms = 0, en_open_pending = False,
     en_emits_partials = True, en_protected = False, en_tts_busy = False, en_alphanumeric = (\<lambda>_. True),
     en_flushed = [], en_dropped = [], en_lid_answer = None\<rparr>"

definition demo_frame_op :: "nat \<Rightarrow> vad_transition list \<Rightarrow> bool \<Rightarrow> agent_op" where
  "demo_frame_op duration transitions speaking = OpInbound
     \<lparr>fr_mono = [0, 0], fr_duration_ms = duration, fr_concealed = False, fr_vad = Inr (transitions, speaking),
      fr_vad_pending = False, fr_vad_speaking = speaking\<rparr>"

definition demo_agent :: "int agent" where
  "demo_agent = agent_new (default_voice_agent_config int_ops) 1 False"

definition demo_start :: "step_env \<times> agent_op" where
  "demo_start = (demo_env 0, OpStart True default_session_context None (Inr ()))"

text \<open>A turn: the user speaks, a partial and a final come for the audio, the speech ends.\<close>

definition demo_turn :: "(step_env \<times> agent_op) list" where
  "demo_turn =
     [demo_start,
      (demo_env 0, demo_frame_op 20 [SpeechStart] True),
      (demo_env 300, OpResult (RTranscript None 0 (Partial (utext ''hel'')))),
      (demo_env 900, demo_frame_op 20 [SpeechEnd] False),
      (demo_env 950, OpResult (RTranscript None 0 (Final (utext ''hello''))))]"

definition events_about :: "ustring \<Rightarrow> 'f agent \<Rightarrow> speech_event_kind list" where
  "events_about i a = map se_kind (filter (\<lambda>e. se_utterance_id e = Some i) (va_events a))"

lemma demo_turn_run:
  "orderly_run demo_turn demo_agent" "agent_run demo_turn demo_agent \<noteq> None"
  "map_option (events_about (utterance_id 1)) (agent_run demo_turn demo_agent) =
     Some [KUserSttStart, KSttStreamStart, KUserSpeakingStart, KUserSpeechPartial, KSttStreamEnd, KUserSttEnd,
       KUserSpeakingEnd, KUserSpeechFinal]"
  by code_simp+

lemma emitted_about: "emitted_of K i (va_events a) = length (filter K (events_about i a))"
  by (simp add: emitted_of_def events_about_def filter_map comp_def conj_commute)

lemma kind_fun: "start_kind = (=) KUserSpeakingStart" "skip_kind = (=) KLanguageIdSkipped"
  by (auto simp: start_kind_def skip_kind_def)

lemma new_run_inv: "agent_run ops (agent_new cfg n lid) = Some a \<Longrightarrow> agent_inv False (Tidy, None) a"
  by (rule run_keeps_ledger [OF inv_new_agent]) simp_all

lemma orderly_inv:
  "orderly_run ops (agent_new cfg n lid) \<Longrightarrow> agent_run ops (agent_new cfg n lid) = Some a \<Longrightarrow> agent_inv True (Tidy, None) a"
  by (rule run_keeps_ledger [OF inv_new_agent])

lemma emitted_once: "once K F a \<Longrightarrow> emitted_of K i (va_events a) \<le> 1"
  unfolding once_def by (metis add_leD1)

text \<open>C12: In every run (any operations, in any order, any answers of the vendor, the VAD, the language
  identification and the TTS), every record of the agent is well formed: no two records, wherever they
  are kept, share a key or an utterance id, keys are below the next key and ids come from the process-wide
  sequence; the live record is open and a caller's, the closing ones are closing.\<close>

theorem run_keeps_records:
  "agent_run ops (agent_new cfg n lid) = Some a \<Longrightarrow> store_ok a \<and> phases_ok a"
  by (drule new_run_inv) (simp add: agent_inv_def)

lemma run_keeps_records_witness:
  "\<exists>a. agent_run demo_turn demo_agent = Some a \<and> store_ok a \<and> phases_ok a"
  using demo_turn_run(2) run_keeps_records [of demo_turn "default_voice_agent_config int_ops" 1 False]
  unfolding demo_agent_def by fastforce

text \<open>C11: In every run an utterance id is announced at most once by \<open>user_speaking_start\<close>, and its language
  identification is reported as skipped at most once.\<close>

theorem start_and_skip_at_most_once:
  "agent_run ops (agent_new cfg n lid) = Some a \<Longrightarrow>
   count_list (events_about i a) KUserSpeakingStart \<le> 1 \<and> count_list (events_about i a) KLanguageIdSkipped \<le> 1"
proof -
  assume a: "agent_run ops (agent_new cfg n lid) = Some a"
  have o: "once start_kind ut_speaking_start_emitted a" "once skip_kind skip_flag a"
    using new_run_inv [OF a] by (simp_all add: agent_inv_def)
  show ?thesis
    using emitted_once [OF o(1), of i] emitted_once [OF o(2), of i]
    by (simp add: emitted_about count_list_eq_length_filter kind_fun)
qed

lemma start_and_skip_at_most_once_witness:
  "\<exists>a. agent_run demo_turn demo_agent = Some a \<and>
     count_list (events_about (utterance_id 1) a) KUserSpeakingStart \<le> 1 \<and>
     count_list (events_about (utterance_id 1) a) KLanguageIdSkipped \<le> 1"
  using demo_turn_run(2) start_and_skip_at_most_once [of demo_turn "default_voice_agent_config int_ops" 1 False _ "utterance_id 1"]
  unfolding demo_agent_def by fastforce




text \<open>A closing utterance that still owes its event: the tick closes a turn that got a partial only.\<close>

lemma close_keeps_hold:
  "va_stt_hold (snd (send_pending_swap b)) = va_stt_hold b"
  "va_stt_hold (agent_send x b) = va_stt_hold b"
  "va_stt_hold (close_effects env w rec b) = va_stt_hold b"
proof -
  have f: "va_stt_hold (fold send_tail_chunk cs c) = va_stt_hold c" for cs and c :: "'a agent"
    by (induction cs arbitrary: c) (simp_all add: send_tail_chunk_def send_stt_audio_def agent_send_def)
  show "va_stt_hold (close_effects env w rec b) = va_stt_hold b"
    by (simp add: close_effects_def commit_utterance_replay_snapshot_def Let_def f)
qed (simp_all add: send_pending_swap_def agent_send_def split: option.split)

lemma begin_close_moves:
  assumes "va_stt_hold a = None" "us_live a = Some rec"
  shows "us_closing (snd (begin_utterance_close env reason w a)) =
      us_closing a @ [rec\<lparr>ut_phase := UttClosing, ut_close_reason := reason\<rparr>] \<and>
    va_stt_hold (snd (begin_utterance_close env reason w a)) = None \<and>
    fst (begin_utterance_close env reason w a) = CloseClosing"
proof -
  let ?r = "reset_turn_close_flags a"
  let ?b = "close_effects env w rec (?r\<lparr>us_live := None\<rparr>)"
  have r: "us_live ?r = Some rec" "va_stt_hold ?r = None" "us_closing ?r = us_closing a"
    using assms by (simp_all add: reset_turn_close_flags_def clear_stt_listen_timer_def clear_utterance_finalize_timer_def)
  have "begin_utterance_close env reason w a = (CloseClosing, snd (send_pending_swap (agent_send (CEndUtterance (ut_key rec))
      (?b\<lparr>us_closing := us_closing ?b @ [rec\<lparr>ut_phase := UttClosing, ut_close_reason := reason\<rparr>]\<rparr>))))"
    unfolding begin_utterance_close_def assms(1) option.case Let_def r(1) close_effects_def snd_conv by (rule refl)
  moreover have "us_closing ?b = us_closing a" using same_core_effects [of env w rec "?r\<lparr>us_live := None\<rparr>"] r(3)
    by (simp add: same_ledger_def)
  ultimately show ?thesis
    by (simp add: close_keeps_hold r(2) send_pending_swap_def agent_send_def split: option.split)
qed

lemma run_append: "agent_run (xs @ ys) a = Option.bind (agent_run xs a) (agent_run ys)"
  by (induction xs arbitrary: a) (simp_all add: fun_eq_iff split: bind_split)

lemma orderly_append:
  "orderly_run (xs @ ys) a \<longleftrightarrow> orderly_run xs a \<and> (case agent_run xs a of None \<Rightarrow> True | Some b \<Rightarrow> orderly_run ys b)"
  by (induction xs arbitrary: a) (auto split: option.split)

definition half_turn :: "(step_env \<times> agent_op) list" where
  "half_turn =
     [demo_start,
      (demo_env 0, demo_frame_op 20 [SpeechStart] True),
      (demo_env 300, OpResult (RTranscript None 0 (Partial (utext ''hel'')))),
      (demo_env 900, demo_frame_op 20 [SpeechEnd] False)]"

definition stalled_env :: step_env where
  "stalled_env = (demo_env 5000)\<lparr>en_pcm_idle := ms 4000\<rparr>"

lemma half_turn_run:
  "orderly_run half_turn demo_agent"
  "case agent_run half_turn demo_agent of None \<Rightarrow> False | Some a \<Rightarrow>
     us_closing a = [] \<and> va_stt_hold a = None \<and> \<not> ts_vad_speaking a \<and> c2_wall_due stalled_env a \<and>
     (case us_live a of None \<Rightarrow> False | Some r \<Rightarrow> ut_key r = 1 \<and> ut_id r = utterance_id 1 \<and>
        ut_stream_open r \<and> ut_partials_emitted r \<and> close_owes_event r \<and> debug_preview (partial_text r) \<noteq> None)"
  by code_simp+


text \<open>A vendor final of 81 bytes in three-byte characters kills the result task of a default agent.\<close>

lemma long_final_panics:
  "agent_run [demo_start, (demo_env 0, demo_frame_op 20 [SpeechStart] True),
     (demo_env 900, OpResult (RTranscript None 0 (Final (replicate 27 12354))))] demo_agent = None \<and>
   agent_run [demo_start, (demo_env 0, demo_frame_op 20 [SpeechStart] True),
     (demo_env 900, OpResult (RTranscript None 0 (Final (replicate 26 12354))))] demo_agent \<noteq> None"
  by code_simp

definition long_speech :: "(step_env \<times> agent_op) list" where
  "long_speech =
     [demo_start,
      (demo_env 0, demo_frame_op 20 [SpeechStart] True),
      (demo_env 4000, demo_frame_op 4000 [] True),
      (demo_env 4300, OpResult (RFinalizeDone 1 0 False)),
      (demo_env 6000, OpResult (RTranscript None 0 (Final (utext ''hi''))))]"

text \<open>C14: The contract is broken outside orderly runs: with the default configuration a user who speaks past the
  listen timeout before the first partial gets \<open>user_stt_not_found\<close>, and the final of the speech that
  goes on, after the actor has finalized the first part, gives a \<open>user_speech_final\<close> with the same utterance id.\<close>

lemma both_terminal_events:
  "map_option (events_about (utterance_id 1)) (agent_run long_speech demo_agent) =
     Some [KUserSttStart, KSttStreamStart, KUserSpeakingStart, KSttStreamEnd, KUserSttNotFound, KUserSttEnd,
       KUserSpeakingEnd, KUserSpeechFinal] \<and> \<not> orderly_run long_speech demo_agent"
  by code_simp

end
