(* ===== verification/Agent_Hold_Frames.thy ===== *)
theory Agent_Hold_Frames
  imports Agent_Properties
begin

text \<open>
  While the host holds the STT no operation of the inbound path sends anything to the actor: the audio,
  the end of an utterance and a pending configuration change all wait for the release.
\<close>

section \<open>Operations that touch neither the hold nor the commands\<close>

definition hold_view :: "'f agent \<Rightarrow> stt_hold option \<times> stt_command list" where
  "hold_view a = (va_stt_hold a, va_sent a)"

lemma hold_view_mut [simp]: "hold_view (record_mut key f a) = hold_view a" "hold_view (lid_mut key g a) = hold_view a"
  by (simp_all add: hold_view_def record_mut_def lid_mut_def split: option.split)

lemma hold_view_emit [simp]: "hold_view (agent_emit e a) = hold_view a"
  by (simp add: hold_view_def agent_emit_def)

lemma hold_view_store [simp]:
  "hold_view (a\<lparr>us_live := x1\<rparr>) = hold_view a" "hold_view (a\<lparr>us_next_key := x2\<rparr>) = hold_view a"
  "hold_view (a\<lparr>us_closing := x3\<rparr>) = hold_view a" "hold_view (a\<lparr>us_lid_retained := x4\<rparr>) = hold_view a"
  "hold_view (a\<lparr>us_id_seq := x5\<rparr>) = hold_view a"
  by (simp_all add: hold_view_def)

lemma hold_view_turn [simp]:
  "hold_view (a\<lparr>ts_stt_gate_hold_ms := x0\<rparr>) = hold_view a"
  "hold_view (a\<lparr>ts_gate_hold_expired_key := x1\<rparr>) = hold_view a"
  "hold_view (a\<lparr>ts_stt_finalize_pending := x2\<rparr>) = hold_view a"
  "hold_view (a\<lparr>ts_stt_endpoint_closing_started := x3\<rparr>) = hold_view a"
  "hold_view (a\<lparr>ts_agent_speaking := x4\<rparr>) = hold_view a"
  "hold_view (a\<lparr>ts_agent_speaking_since := x5\<rparr>) = hold_view a"
  "hold_view (a\<lparr>ts_stt_listen_deadline_ms := x6\<rparr>) = hold_view a"
  "hold_view (a\<lparr>ts_stt_listen_started_at := x7\<rparr>) = hold_view a"
  "hold_view (a\<lparr>ts_stt_listen_media_ms := x8\<rparr>) = hold_view a"
  "hold_view (a\<lparr>ts_c1_backlog_deferred_logged := x9\<rparr>) = hold_view a"
  "hold_view (a\<lparr>ts_stt_open_wait_started_at := x10\<rparr>) = hold_view a"
  "hold_view (a\<lparr>ts_utterance_finalize_deadline_ms := x11\<rparr>) = hold_view a"
  "hold_view (a\<lparr>ts_utterance_finalize_armed_at := x12\<rparr>) = hold_view a"
  "hold_view (a\<lparr>ts_last_inbound_pcm_at := x13\<rparr>) = hold_view a"
  "hold_view (a\<lparr>ts_utterance_media_ms := x14\<rparr>) = hold_view a"
  "hold_view (a\<lparr>ts_defer_utterance_finalize_until_hold := x15\<rparr>) = hold_view a"
  "hold_view (a\<lparr>ts_barge_awaiting_stt_partial := x17\<rparr>) = hold_view a"
  "hold_view (a\<lparr>ts_stt_barge_fired := x18\<rparr>) = hold_view a"
  "hold_view (a\<lparr>ts_vad_speaking := x19\<rparr>) = hold_view a"
  "hold_view (a\<lparr>va_stt_pre_roll := x24\<rparr>) = hold_view a"
  "hold_view (a\<lparr>va_short_burst := x25\<rparr>) = hold_view a"
  "hold_view (a\<lparr>va_hold_pending_pcm := x26\<rparr>) = hold_view a"
  "hold_view (a\<lparr>va_hold_lookback_pcm := x27\<rparr>) = hold_view a"
  "hold_view (a\<lparr>va_turn_latency := x28\<rparr>) = hold_view a"
  "hold_view (a\<lparr>va_lid_last_emitted := x29\<rparr>) = hold_view a"
  "hold_view (a\<lparr>va_lid_jobs := x31\<rparr>) = hold_view a"
  "hold_view (a\<lparr>va_utterance_replay_buffer := x33\<rparr>) = hold_view a"
  "hold_view (a\<lparr>va_replay_begun_at_pre_roll := x36\<rparr>) = hold_view a"
  "hold_view (a\<lparr>va_answers := x40\<rparr>) = hold_view a"
  by (simp_all add: hold_view_def)

lemma hold_view_fold: "(\<And>x a. hold_view (f x a) = hold_view a) \<Longrightarrow> hold_view (fold f xs a) = hold_view a"
  by (induction xs arbitrary: a) simp_all

lemmas view_simps = Let_def case_prod_unfold

lemma hold_view_timers [simp]:
  "hold_view (clear_stt_listen_timer a) = hold_view a" "hold_view (clear_utterance_finalize_timer a) = hold_view a"
  "hold_view (disarm_utterance_finalize_timer a) = hold_view a" "hold_view (reset_turn_close_flags a) = hold_view a"
  by (simp_all add: clear_stt_listen_timer_def clear_utterance_finalize_timer_def disarm_utterance_finalize_timer_def
      reset_turn_close_flags_def)

lemma hold_view_arm [simp]:
  "hold_view (arm_utterance_finalize_timer now a) = hold_view a"
  "hold_view (refresh_utterance_finalize_after_partial now a) = hold_view a"
  by (simp_all add: arm_utterance_finalize_timer_def refresh_utterance_finalize_after_partial_def)

lemma hold_view_new [simp]: "hold_view (snd (new_record a)) = hold_view a" "hold_view (snd (ensure_live a)) = hold_view a"
  by (simp_all add: new_record_def ensure_live_def view_simps split: option.split)

lemma hold_view_retain [simp]: "hold_view (retain_for_lid rec a) = hold_view a" "hold_view (drop_retained key a) = hold_view a"
  by (simp_all add: retain_for_lid_def drop_retained_def Let_def)

lemma hold_view_start_new [simp]: "hold_view (start_new_live_record a) = hold_view a"
  by (simp add: start_new_live_record_def view_simps split: option.split)

lemma hold_view_arm_hold [simp]: "hold_view (arm_stt_hold_if_idle a) = hold_view a"
  "hold_view (snd (end_agent_speaking arm a)) = hold_view a"
  by (simp_all add: arm_stt_hold_if_idle_def end_agent_speaking_def Let_def)

lemma hold_view_waiter [simp]: "hold_view (fire_terminal_waiter key ok a) = hold_view a"
  by (simp add: fire_terminal_waiter_def split: option.split)

lemma hold_view_lid [simp]:
  "hold_view (start_lid_buffering a) = hold_view a"
  "hold_view (emit_language_id_skipped key reason n a) = hold_view a"
  "hold_view (emit_language_id_skipped_once key reason a) = hold_view a"
  "hold_view (defer_identify key a) = hold_view a"
  "hold_view (spawn_job cfg c key rec a) = hold_view a"
  by (simp_all add: start_lid_buffering_def emit_language_id_skipped_once_def emit_language_id_skipped_def
      defer_identify_def spawn_job_def Let_def split: option.split)

lemma hold_view_spawn [simp]: "hold_view (snd (spawn_identify_language env key force a)) = hold_view a"
  by (simp add: spawn_identify_language_def Let_def split: option.split)

lemma hold_view_try [simp]: "hold_view (snd (try_spawn_default_mode_lid env key force a)) = hold_view a"
  by (simp add: try_spawn_default_mode_lid_def Let_def)

lemma hold_view_speech_end [simp]: "hold_view (maybe_start_lid_at_speech_end env a) = hold_view a"
  by (simp add: maybe_start_lid_at_speech_end_def split: option.split)

lemma hold_view_append [simp]: "hold_view (append_lid_pcm_if_buffering env b v w d a) = hold_view a"
proof -
  have "hold_view (snd (append_lid_pcm b v w d a)) = hold_view a"
    by (simp add: append_lid_pcm_def Let_def split: option.split)
  then show ?thesis by (simp add: append_lid_pcm_if_buffering_def view_simps split: option.split)
qed

lemma hold_view_report [simp]: "hold_view (snd (report_language job rec result a)) = hold_view a"
  by (simp add: report_language_def Let_def split: lid_result.split)

lemma hold_view_identify [simp]: "hold_view (apply_identify job result a) = hold_view a"
  "hold_view (finish_identify key result a) = hold_view a"
  by (simp_all add: apply_identify_def finish_identify_def view_simps split: option.split)

lemma hold_view_speaking_end [simp]:
  "hold_view (await_lid_gate env key a) = hold_view a"
  "hold_view (prepare_lid_before_close env key a) = hold_view a"
  "hold_view (emit_user_speaking_end_for key a) = hold_view a"
  "hold_view (emit_user_speaking_end_after_lid_gate env key a) = hold_view a"
  "hold_view (emit_speaking_end env key w a) = hold_view a"
  by (simp_all add: await_lid_gate_def prepare_lid_before_close_def emit_user_speaking_end_for_def
      emit_user_speaking_end_after_lid_gate_def emit_speaking_end_def Let_def split: option.split)

lemma hold_view_starts [simp]:
  "hold_view (emit_stt_stream_start_if_needed a) = hold_view a"
  "hold_view (emit_user_stt_start_if_needed a) = hold_view a"
  "hold_view (emit_user_speaking_start_if_needed key a) = hold_view a"
  by (simp_all add: emit_stt_stream_start_if_needed_def emit_user_stt_start_if_needed_def
      emit_user_speaking_start_if_needed_def view_simps split: option.split)

lemma hold_view_tts [simp]:
  "hold_view (emit_flushed_replies env a) = hold_view a" "hold_view (cancel_pending_tts_synthesis env a) = hold_view a"
  "hold_view (barge_in_with_speaking_end env bi i a) = hold_view a"
proof -
  show f: "hold_view (emit_flushed_replies env a) = hold_view a" for a :: "'a agent"
    unfolding emit_flushed_replies_def by (rule hold_view_fold) (simp add: case_prod_unfold)
  show "hold_view (cancel_pending_tts_synthesis env a) = hold_view a"
    unfolding cancel_pending_tts_synthesis_def by (rule hold_view_fold) simp
  show "hold_view (barge_in_with_speaking_end env bi i a) = hold_view a"
    by (simp add: barge_in_with_speaking_end_def view_simps f)
qed

lemma hold_view_start [simp]: "hold_view (on_vad_speech_start env a) = hold_view a"
proof -
  have "hold_view (snd (mark_vad_triggered now h e b)) = hold_view b" for now h e and b :: "'a agent"
    by (simp add: mark_vad_triggered_def view_simps)
  then show ?thesis by (simp add: on_vad_speech_start_def open_stt_session_def vad_barge_in_def view_simps)
qed

lemma hold_view_final [simp]: "hold_view (emit_utterance_final env key t a) = hold_view a"
  by (simp add: emit_utterance_final_def Let_def split: option.split)

lemma hold_view_closed [simp]: "hold_view (emit_close_events plan rec a) = hold_view a"
  "hold_view (finish_without_text env key i w forced a) = hold_view a"
  by (simp_all add: emit_close_events_def finish_without_text_def Let_def)

lemma hold_view_c1 [simp]: "hold_view (snd (c1_tick env idle a)) = hold_view a"
proof -
  have "hold_view (snd (c1_hold_for_stt_open now p b)) = hold_view b" for now p and b :: "'a agent"
    by (simp add: c1_hold_for_stt_open_def Let_def)
  moreover have "hold_view (maybe_log_c1_backlog_deferred now k b) = hold_view b" for now k and b :: "'a agent"
    by (simp add: maybe_log_c1_backlog_deferred_def Let_def split: option.split)
  ultimately show ?thesis by (simp add: c1_tick_def view_simps)
qed

lemma hold_view_c2 [simp]: "hold_view (snd (c2_media_tick d a)) = hold_view a"
  by (simp add: c2_media_tick_def Let_def)

lemma hold_view_gate [simp]: "hold_view (snd (gate_hold_step env ts d a)) = hold_view a"
  by (simp add: gate_hold_step_def Let_def)

lemma hold_view_lookback [simp]: "hold_view (push_hold_lookback b a) = hold_view a"
  "hold_view (copy_lookback f route a) = hold_view a" "hold_view (switch_utterance lp a) = hold_view a"
  "hold_view (note_inbound_frame now d a) = hold_view a"
  by (simp_all add: push_hold_lookback_def copy_lookback_def switch_utterance_def note_inbound_frame_def Let_def)

lemma hold_view_transition [simp]: "hold_view (on_transition env e tr a) = hold_view a"
  by (simp add: on_transition_def view_simps split: vad_transition.split option.split)

section \<open>A hold stops everything\<close>

definition held_at :: "stt_command list \<Rightarrow> 'f agent \<Rightarrow> bool" where
  "held_at sent a \<longleftrightarrow> va_stt_hold a \<noteq> None \<and> va_sent a = sent"

lemma held_keep: "held_at sent a \<Longrightarrow> hold_view b = hold_view a \<Longrightarrow> held_at sent b"
  by (simp add: held_at_def hold_view_def)

lemma held_push: "held_at sent a \<Longrightarrow> held_at sent (push_stt_audio_bytes b a)"
  by (auto simp: held_at_def push_stt_audio_bytes_def Let_def split: option.split)

lemma held_push_frames: "held_at sent a \<Longrightarrow> held_at sent (push_stt_audio_frames b a)"
proof -
  have "held_at sent a \<Longrightarrow> held_at sent (fold push_stt_audio_bytes cs a)" for cs
    by (induction cs arbitrary: a) (simp_all add: held_push)
  then show "held_at sent a \<Longrightarrow> ?thesis" by (simp add: push_stt_audio_frames_def)
qed

lemma held_begin_close:
  "held_at sent a \<Longrightarrow> held_at sent (snd (begin_utterance_close env reason w a)) \<and>
     fst (begin_utterance_close env reason w a) = CloseHeld"
  by (auto simp: held_at_def begin_utterance_close_def Let_def)

lemma held_finish_partial:
  "held_at sent a \<Longrightarrow> pred_option (held_at sent) (finish_with_partial env key i w t a)"
  by (cases "debug_preview t") (auto simp: finish_with_partial_def Let_def intro: held_keep)

lemma held_finish_record:
  assumes a: "held_at sent a"
  shows "pred_option (held_at sent) (finish_record_close env key i w a)"
proof (cases "record_ref key a")
  case (Some rec)
  define plan where "plan = plan_close (va_stt_hold a \<noteq> None) rec"
  define b where "b = emit_close_events plan rec
    ((if i then clear_utterance_finalize_timer (clear_stt_listen_timer (record_mut key (close_record plan) a))
      else record_mut key (close_record plan) a)\<lparr>ts_barge_awaiting_stt_partial := False\<rparr>)"
  have b: "held_at sent b" by (rule held_keep [OF a]) (simp add: b_def)
  have "finish_record_close env key i w a = (if ut_kind rec \<noteq> UttLive then Some a else
      (case cp_forced_text plan of
         Some t \<Rightarrow> finish_with_partial env key i w t b
       | None \<Rightarrow> Some (finish_without_text env key i w (cp_forced_reason plan) b)))"
    unfolding finish_record_close_def Some option.case Let_def plan_def b_def by (rule refl)
  moreover have "held_at sent (finish_without_text env key i w (cp_forced_reason plan) b)"
    by (rule held_keep [OF b]) simp
  ultimately show ?thesis
    using a held_finish_partial [OF b] by (simp split: option.split)
qed (simp add: finish_record_close_def a)

lemma held_finish_live: "held_at sent a \<Longrightarrow> pred_option (held_at sent) (finish_live_inline env w a)"
  by (simp add: finish_live_inline_def held_finish_record split: option.split)

text \<open>A close under a hold only notes the finalize in it and ends the live record at once.\<close>

lemma held_close_live:
  assumes "held_at sent a"
  shows "pred_option (held_at sent) (case begin_utterance_close env reason w a of
      (CloseHeld, a) \<Rightarrow> finish_live_inline env True a | (_, a) \<Rightarrow> Some a)"
  using held_begin_close [OF assms, of env reason w]
  by (cases "begin_utterance_close env reason w a") (simp add: held_finish_live)

lemma held_force_close:
  assumes a: "held_at sent a"
  shows "pred_option (held_at sent) (force_close_utterance env reason a)"
proof -
  have "held_at sent (a\<lparr>ts_stt_endpoint_closing_started := True\<rparr>)"
    "held_at sent (a\<lparr>us_live := map_option (\<lambda>r. r\<lparr>ut_close_reason := reason\<rparr>) (us_live a)\<rparr>)"
    by (rule held_keep [OF a]; simp)+
  then show ?thesis
    unfolding force_close_utterance_def by (simp only: if_split held_close_live held_finish_live) simp
qed

lemma held_complete_pending:
  "held_at sent a \<Longrightarrow> pred_option (held_at sent) (complete_pending_utterance_if_any env a)"
  unfolding complete_pending_utterance_if_any_def
  by (simp only: if_split held_close_live option.pred_inject) simp

lemma held_timers:
  assumes a: "held_at sent a"
  shows "pred_option (held_at sent) (run_timers env d a)"
proof -
  obtain c1 c2 b where t: "timer_ticks env d a = (c1, c2, b)" by (cases "timer_ticks env d a") auto
  have "hold_view (snd (snd (timer_ticks env d a))) = hold_view a"
    by (simp add: timer_ticks_def view_simps)
  then have b: "held_at sent b" by (intro held_keep [OF a]) (simp add: t)
  moreover have "\<not> c1" using timer_ticks_c1(2) [of env d a c2 b] b t by (cases c1) (simp_all add: held_at_def)
  ultimately show ?thesis by (simp add: run_timers_def t held_force_close)
qed

section \<open>The speech start and the audio\<close>

lemma held_with_pre_roll: "held_at sent a \<Longrightarrow> pred_option (held_at sent) (with_pre_roll f a)"
  by (auto simp: with_pre_roll_def option.pred_map comp_def pred_option_def split: option.split intro: held_keep)

lemma held_flush_pre_roll:
  assumes a: "held_at sent a"
  shows "pred_option (\<lambda>(x, y, b). held_at sent b) (flush_pre_roll onset lookback a)"
proof -
  have if_pre: "held_at sent b \<Longrightarrow> pred_option (held_at sent) (if c then with_pre_roll f b else Some b)" for c f b
    by (simp add: held_with_pre_roll)
  show ?thesis
    unfolding flush_pre_roll_def Let_def case_prod_unfold
    by (rule pred_bind [OF if_pre [OF a]], rule pred_bind, erule if_pre, rule pred_Some)
      (auto split: option.split intro: held_keep)
qed

lemma held_start_stream:
  assumes a: "held_at sent a"
  shows "pred_option (held_at sent) (start_stream_at_speech env a)"
proof -
  have pre: "held_at sent (send_pre_roll p b)" if "held_at sent b" for p b
    unfolding send_pre_roll_def by (rule held_push) (use that in \<open>simp add: held_at_def\<close>)
  have flush: "pred_option (\<lambda>(x, y, b). held_at sent b)
      (if c then flush_pre_roll u v b else Some (None, None, b))" if "held_at sent b" for c u v b
    by (simp add: held_flush_pre_roll that)
  have pending: "pred_option (held_at sent) (if c then complete_pending_utterance_if_any env b else Some b)"
    if "held_at sent b" for c b
    by (simp add: held_complete_pending that)
  show ?thesis
    unfolding start_stream_at_speech_def Let_def
    by (rule pred_bind [OF pending], rule held_keep [OF a], simp, rule pred_bind, rule flush, erule held_keep, simp)
      (auto intro!: held_push_frames pre split: option.split)
qed

lemma held_hold_back:
  assumes a: "held_at sent a"
  shows "pred_option (\<lambda>(x, b). held_at sent b) (hold_back_frame f route a)"
  using a held_with_pre_roll [OF held_keep [OF a], of "a\<lparr>va_hold_pending_pcm := []\<rparr>"]
  by (auto simp: hold_back_frame_def Let_def option.pred_map comp_def intro: held_keep)

lemma held_forward:
  assumes a: "held_at sent a"
  shows "pred_option (held_at sent) (forward_frame f e route act a)"
proof -
  have "pred_option (\<lambda>x. held_at sent (x\<lparr>va_short_burst := g x\<rparr>)) (with_pre_roll h a)" for g h
    by (rule option.pred_mono_strong [OF held_with_pre_roll [OF a]]) (auto intro: held_keep)
  then show ?thesis using a held_push [OF a] by (simp add: forward_frame_def option.pred_map comp_def)
qed

lemma held_finalize_now:
  assumes a: "held_at sent a"
  shows "pred_option (held_at sent) (finalize_utterance_now env a)"
  unfolding finalize_utterance_now_def by (rule held_close_live) (rule held_keep [OF a], simp)

lemma held_feed:
  assumes a: "held_at sent a"
  shows "pred_option (held_at sent) (feed_frame env f ts act e a)"
proof -
  let ?r = "route_frame f (SpeechStart \<in> set ts) e a"
  have release: "held_at sent (case rel of Some b \<Rightarrow> push_stt_audio_frames b (copy_lookback f ?r b') | None \<Rightarrow> copy_lookback f ?r b')"
    if "held_at sent b'" for rel b'
    using that by (auto intro!: held_push_frames split: option.split intro: held_keep)
  have finish: "pred_option (held_at sent) (if c then finalize_utterance_now env b else Some b)" if "held_at sent b" for c b
    by (simp add: held_finalize_now that)
  show ?thesis
    unfolding feed_frame_def Let_def
    by (rule pred_bind [OF held_hold_back [OF a]], clarsimp, rule pred_bind, rule held_forward, rule release, assumption)
      (auto intro!: held_finalize_now intro: held_keep)
qed

section \<open>The frame\<close>

lemma held_voiced:
  assumes a: "held_at sent a"
  shows "pred_option (held_at sent) (process_voiced env f ts act a)"
proof -
  have opt: "pred_option (held_at sent) (if c then g b else Some b)"
    if "held_at sent b" "\<And>b. held_at sent b \<Longrightarrow> pred_option (held_at sent) (g b)" for c g b
    using that by simp
  have tr: "held_at sent (fold (on_transition env e) xs b)" if "held_at sent b" for e xs b
    by (rule held_keep [OF that], rule hold_view_fold) simp
  show ?thesis
    unfolding process_voiced_def case_prod_unfold Let_def
    by (rule pred_bind [OF held_timers], rule held_keep [OF a], simp,
        rule pred_bind, rule opt, erule held_keep, simp, erule held_complete_pending,
        rule pred_bind, erule opt, erule held_start_stream) (simp add: held_feed tr)
qed

lemma held_inbound:
  assumes a: "held_at sent a"
  shows "pred_option (\<lambda>(e, b). held_at sent b) (process_inbound_pcm env f a)"
proof -
  have n: "held_at sent (note_inbound_frame now d a)" for now d by (rule held_keep [OF a]) simp
  show ?thesis
    using a n held_voiced [OF n]
    by (simp add: process_inbound_pcm_def Let_def option.pred_map comp_def split: sum.split prod.split)
qed

section \<open>Ticks and results\<close>

lemma held_tick:
  assumes a: "held_at sent a"
  shows "pred_option (held_at sent) (c2_wall_clock_tick env a)"
proof -
  have close: "held_at sent (close_stt_stream_not_found env b)" if "held_at sent b" for b
  proof (rule held_keep [OF that])
    show "hold_view (close_stt_stream_not_found env b) = hold_view b"
      using that by (simp add: held_at_def close_stt_stream_not_found_def Let_def split: option.split)
  qed
  have "held_at sent (c1_wall_tick env a)"
    using a by (auto simp: c1_wall_tick_def view_simps intro!: close elim: held_keep)
  then show ?thesis by (simp add: c2_wall_clock_tick_def Let_def held_force_close)
qed

lemma held_resolve: "hold_view (snd (resolve_transcript_target key a)) = hold_view a"
  by (auto simp: resolve_transcript_target_def view_simps split: option.split list.split)

lemma hold_view_barge [simp]: "hold_view (try_stt_gated_barge_in env key t a) = hold_view a"
  by (simp add: try_stt_gated_barge_in_def Let_def)

lemma hold_view_partial [simp]: "hold_view (apply_partial env key t a) = hold_view a"
  by (simp add: apply_partial_def Let_def split: option.split)

lemma held_close_with_final:
  assumes a: "held_at sent a"
  shows "pred_option (held_at sent) (close_with_final env key l t a)"
  by (cases "debug_preview t")
    (auto simp: close_with_final_def Let_def split: option.split intro!: held_keep [OF a])

lemma held_apply_final:
  assumes a: "held_at sent a"
  shows "pred_option (held_at sent) (apply_final env key t a)"
proof -
  have "held_at sent (try_stt_gated_barge_in env key t (emit_user_speaking_start_if_needed key a))"
    "held_at sent (emit_utterance_final env key t a)"
    by (rule held_keep [OF a]; simp)+
  then show ?thesis using a by (simp add: apply_final_def Let_def held_close_with_final split: option.split)
qed

lemma held_transcript:
  assumes a: "held_at sent a"
  shows "pred_option (held_at sent) (apply_transcript_result env key gen w a)"
proof -
  obtain r b where r: "resolve_transcript_target key a = (r, b)" by fastforce
  have b: "held_at sent b" by (rule held_keep [OF a]) (metis held_resolve r snd_conv)
  have "held_at sent (a\<lparr>va_held_ignore_logged_key := k\<rparr>)" for k using a by (simp add: held_at_def)
  moreover have "held_at sent (apply_partial env k t b)" for k t by (rule held_keep [OF b]) simp
  ultimately show ?thesis
    using a b held_apply_final [OF b]
    by (simp add: apply_transcript_result_def r Let_def split: sum.split stt_transcript.split)
qed

lemma held_result:
  assumes a: "held_at sent a"
  shows "pred_option (held_at sent) (apply_stt_result env result a)"
proof -
  have leave: "held_at sent (leave_closing key b)" if "held_at sent b" for key b
    by (rule held_keep [OF that]) (simp add: leave_closing_def Let_def split: option.split)
  have finish: "pred_option (held_at sent) (apply_finalize_done env key a)" for key
    using a by (auto simp: apply_finalize_done_eq option.pred_map comp_def
        intro: leave option.pred_mono_strong [OF held_finish_record [OF a]])
  have emit: "held_at sent (agent_emit e b)" if "held_at sent b" for e b
    by (rule held_keep [OF that]) simp
  have "held_at sent (apply_swap_result c r a)" for c r
    using a emit [of "a\<lparr>va_config := (va_config a)\<lparr>ag_stt := Some c\<rparr>\<rparr>"]
    by (simp add: apply_swap_result_def held_at_def split: sum.split)
  then show ?thesis
    using a finish held_transcript [OF a] emit [OF a]
    by (simp add: apply_stt_result_def split: stt_result.split)
qed

lemma held_prepare:
  assumes a: "held_at sent a"
  shows "held_at sent (prepare_stt_result env result a)"
proof (rule held_keep [OF a])
  have "hold_view (snd (terminal_key_of result a)) = hold_view a"
    using held_resolve by (auto simp: terminal_key_of_def view_simps split: stt_result.split stt_transcript.split sum.split)
  then show "hold_view (prepare_stt_result env result a) = hold_view a"
    by (simp add: prepare_stt_result_def case_prod_unfold split: option.split)
qed

fun from_audio_or_vendor :: "agent_op \<Rightarrow> bool" where
  "from_audio_or_vendor (OpInbound f) = True"
| "from_audio_or_vendor OpTick = True"
| "from_audio_or_vendor (OpPrepareResult result) = True"
| "from_audio_or_vendor (OpResult result) = True"
| "from_audio_or_vendor (OpIdentified key result) = True"
| "from_audio_or_vendor op = False"

lemma held_step:
  assumes a: "held_at sent a" and op: "from_audio_or_vendor op"
  shows "pred_option (held_at sent) (agent_step env op a)"
proof (cases op)
  case (OpInbound f)
  show ?thesis
    unfolding OpInbound agent_step.simps option.pred_map comp_def
    by (rule option.pred_mono_strong [OF held_inbound [OF a]]) auto
next
  case (OpIdentified key result)
  then show ?thesis using held_keep [OF a hold_view_identify(2)] by simp
qed (use op in \<open>simp_all add: held_tick held_prepare held_result a\<close>)

lemma held_run:
  "held_at sent a \<Longrightarrow> list_all (\<lambda>x. from_audio_or_vendor (snd x)) ops \<Longrightarrow> pred_option (held_at sent) (agent_run ops a)"
proof (induction ops arbitrary: a)
  case (Cons x ops)
  show ?case
    unfolding agent_run.simps
    by (rule pred_bind [OF held_step [OF Cons.prems(1)] Cons.IH]) (use Cons.prems(2) in simp_all)
qed simp

text \<open>C10: While the host holds the STT, nothing is sent to the actor: whatever frames, ticks and STT results
  come, no audio, no end of an utterance and no configuration change reaches it, and the hold stays
  until the host releases or cancels it.\<close>

theorem hold_sends_nothing:
  "va_stt_hold a \<noteq> None \<Longrightarrow> list_all (\<lambda>(env, op). from_audio_or_vendor op) ops \<Longrightarrow> agent_run ops a = Some b \<Longrightarrow>
   va_sent b = va_sent a \<and> va_stt_hold b \<noteq> None"
  using held_run [of "va_sent a" a ops] by (simp add: held_at_def case_prod_unfold)

definition demo_held :: "(step_env \<times> agent_op) list" where
  "demo_held = [demo_start, (demo_env 0, demo_frame_op 20 [SpeechStart] True),
     (demo_env 100, OpBeginHold default_begin_stt_hold_options 0)]"

definition demo_while_held :: "(step_env \<times> agent_op) list" where
  "demo_while_held = [(demo_env 120, demo_frame_op 20 [] True), (demo_env 200, OpTick),
     (demo_env 300, OpResult (RTranscript (Some 1) 1 (Final (utext ''hi'')))),
     (demo_env 400, demo_frame_op 20 [SpeechEnd] False)]"

lemma demo_held_run:
  "case agent_run demo_held demo_agent of None \<Rightarrow> False | Some a \<Rightarrow>
     va_stt_hold a \<noteq> None \<and> length (va_sent a) = 2 \<and> agent_run demo_while_held a \<noteq> None"
  "list_all (\<lambda>(env, op). from_audio_or_vendor op) demo_while_held"
  by code_simp+

lemma hold_sends_nothing_witness:
  "\<exists>a b. agent_run demo_held demo_agent = Some a \<and> length (va_sent a) = 2 \<and>
     agent_run demo_while_held a = Some b \<and> va_sent b = va_sent a \<and> va_stt_hold b \<noteq> None"
proof -
  from demo_held_run(1) obtain a b where a: "agent_run demo_held demo_agent = Some a" "va_stt_hold a \<noteq> None"
      "length (va_sent a) = 2" "agent_run demo_while_held a = Some b"
    by (auto split: option.splits)
  from hold_sends_nothing [OF a(2) demo_held_run(2) a(4)] a show ?thesis by blast
qed

end
