(* ===== verification/Session_Recorder.thy ===== *)
theory Session_Recorder
  imports Wav_Stream
begin

text \<open>
  \<open>crates/speech/src/session_recorder.rs\<close>: the stereo recording of a session.  Each direction has a
  media clock that places its chunks one after the other; \<open>build\<close> drops the quiet chunks, groups the
  loud ones into speech runs, lays the runs of both directions out as turns and mixes them into one
  stereo buffer (left outbound, right inbound), which \<open>finalize\<close> encodes as WAV or Opus in Ogg.

  The wall clock is an argument of a push; milliseconds are \<open>nat\<close>, the \<open>u32\<close> operations on them saturate
  or wrap as written.  The Opus encoder and the Ogg writer are third-party and arguments.
\<close>

section \<open>Data\<close>

definition SESSION_AUDIO_SAMPLE_RATE :: nat where "SESSION_AUDIO_SAMPLE_RATE = 48000"
definition SESSION_AUDIO_CHANNELS :: nat where "SESSION_AUDIO_CHANNELS = 2"
definition SESSION_RECORDER_DEFAULT_OPUS_BITRATE_BPS :: int where
  "SESSION_RECORDER_DEFAULT_OPUS_BITRATE_BPS = 256000"
definition SPEECH_RUN_MERGE_GAP_MS :: nat where "SPEECH_RUN_MERGE_GAP_MS = 250"
definition DEFAULT_PEAK_THRESHOLD :: int where "DEFAULT_PEAK_THRESHOLD = 200"
definition DEFAULT_MAX_DURATION_MS :: nat where "DEFAULT_MAX_DURATION_MS = 90000"
definition OPUS_FRAME_SAMPLES_PER_CHANNEL :: nat where "OPUS_FRAME_SAMPLES_PER_CHANNEL = 960"

datatype session_audio_format = FormatWav | FormatOpus

record media_clock_state =
  mc_media_end_ms :: nat
  mc_last_wall_ms :: nat
  mc_last_duration_ms :: nat

record pcm_chunk =
  pk_offset_ms :: nat
  pk_wall_offset_ms :: nat
  pk_mono :: "sample list"

datatype session_channel = ChOutbound | ChInbound

record speech_run =
  sr_channel :: session_channel
  sr_wall_start_ms :: nat
  sr_wall_end_ms :: nat
  sr_chunks :: "pcm_chunk list"

record session_audio_build =
  sb_pcm :: bytes
  sb_duration_ms :: nat
  sb_outbound_frames :: nat
  sb_inbound_frames :: nat

record session_finalize_result =
  sf_format :: session_audio_format
  sf_data :: bytes
  sf_duration_ms :: nat
  sf_outbound_frames :: nat
  sf_inbound_frames :: nat

datatype session_recorder_error = RecClosed | RecEmpty | RecOpusEncode ustring | RecOggMux ustring

record session_recorder =
  rc_max_duration_ms :: nat
  rc_started_at_ms :: nat
  rc_first_push_at_ms :: "nat option"
  rc_outbound :: "pcm_chunk list"
  rc_inbound :: "pcm_chunk list"
  rc_outbound_clock :: "media_clock_state option"
  rc_inbound_clock :: "media_clock_state option"
  rc_outbound_frames :: nat
  rc_inbound_frames :: nat
  rc_closed :: bool

definition recorder_new :: "nat option \<Rightarrow> session_recorder" where
  "recorder_new max_duration_ms =
     \<lparr>rc_max_duration_ms = (case max_duration_ms of Some m \<Rightarrow> m | None \<Rightarrow> DEFAULT_MAX_DURATION_MS),
      rc_started_at_ms = 0, rc_first_push_at_ms = None, rc_outbound = [], rc_inbound = [],
      rc_outbound_clock = None, rc_inbound_clock = None, rc_outbound_frames = 0, rc_inbound_frames = 0,
      rc_closed = False\<rparr>"

section \<open>Capturing\<close>

definition resolve_media_clock_offset_ms ::
  "nat \<Rightarrow> nat \<Rightarrow> nat \<Rightarrow> media_clock_state option \<Rightarrow> nat \<times> media_clock_state" where
  "resolve_media_clock_offset_ms wall_offset_ms duration now_wall_ms state =
     (let offset = (case state of None \<Rightarrow> wall_offset_ms | Some c \<Rightarrow> mc_media_end_ms c)
      in (offset, \<lparr>mc_media_end_ms = saturating_add_u32 offset duration, mc_last_wall_ms = now_wall_ms,
                   mc_last_duration_ms = duration\<rparr>))"

definition pcm_to_mono_s16 :: "bytes \<Rightarrow> sample list" where
  "pcm_to_mono_s16 b =
     (if length b < 2 then []
      else if length b mod 4 \<noteq> 0 then samples_of b
      else downmix (samples_of b))"

definition chunk_duration_ms_from_samples :: "nat \<Rightarrow> nat \<Rightarrow> nat" where
  "chunk_duration_ms_from_samples sample_count sample_rate =
     (if sample_rate = 0 then 0 else sample_count * 1000 div sample_rate mod 2 ^ 32)"

definition recorder_accepting :: "nat \<Rightarrow> session_recorder \<Rightarrow> bool" where
  "recorder_accepting now_wall_ms r =
     (if rc_closed r then False
      else (case rc_first_push_at_ms r of
              None \<Rightarrow> True
            | Some epoch \<Rightarrow> now_wall_ms - epoch < rc_max_duration_ms r))"

definition ensure_epoch :: "nat \<Rightarrow> session_recorder \<Rightarrow> nat \<times> session_recorder" where
  "ensure_epoch now_wall_ms r =
     (let r = (if rc_first_push_at_ms r = None
               then r\<lparr>rc_first_push_at_ms := Some now_wall_ms,
                      rc_started_at_ms := (if rc_started_at_ms r = 0 then now_wall_ms else rc_started_at_ms r)\<rparr>
               else r)
      in (case rc_first_push_at_ms r of Some e \<Rightarrow> e | None \<Rightarrow> now_wall_ms, r))"

definition push_channel :: "session_channel \<Rightarrow> nat \<Rightarrow> bytes \<Rightarrow> session_recorder \<Rightarrow> session_recorder" where
  "push_channel side now_wall_ms b r =
     (if rc_closed r then r
      else if \<not> recorder_accepting now_wall_ms r then r
      else
        (let mono = pcm_to_mono_s16 b
         in if mono = [] then r
            else
              (let (epoch, r) = ensure_epoch now_wall_ms r;
                   duration = chunk_duration_ms_from_samples (length mono) SESSION_AUDIO_SAMPLE_RATE;
                   wall_offset = (now_wall_ms - epoch) mod 2 ^ 32;
                   prior = (case side of ChOutbound \<Rightarrow> rc_outbound_clock r | ChInbound \<Rightarrow> rc_inbound_clock r);
                   (offset, clock) = resolve_media_clock_offset_ms wall_offset duration now_wall_ms prior;
                   chunk = \<lparr>pk_offset_ms = offset, pk_wall_offset_ms = wall_offset, pk_mono = mono\<rparr>
               in case side of
                    ChOutbound \<Rightarrow> r\<lparr>rc_outbound_clock := Some clock, rc_outbound := rc_outbound r @ [chunk],
                                     rc_outbound_frames := rc_outbound_frames r + 1\<rparr>
                  | ChInbound \<Rightarrow> r\<lparr>rc_inbound_clock := Some clock, rc_inbound := rc_inbound r @ [chunk],
                                    rc_inbound_frames := rc_inbound_frames r + 1\<rparr>)))"

section \<open>Speech runs\<close>

text \<open>\<open>i16::abs\<close> overflows on the least sample: \<open>None\<close> is the panic.  \<open>all\<close> stops at a loud sample.\<close>

fun is_nearly_silent_mono :: "int \<Rightarrow> sample list \<Rightarrow> bool option" where
  "is_nearly_silent_mono threshold [] = Some True"
| "is_nearly_silent_mono threshold (s # ss) =
     (if sint s = - 32768 then None
      else if \<bar>sint s\<bar> < threshold then is_nearly_silent_mono threshold ss else Some False)"

record run_scan =
  sn_runs :: "speech_run list"
  sn_last_media_end_ms :: nat
  sn_last_wall_ms :: nat

text \<open>One chunk of the loop; \<open>sn_runs\<close> is in reverse, its head the run that may grow.\<close>

definition scan_chunk ::
  "session_channel \<Rightarrow> nat \<Rightarrow> int \<Rightarrow> nat \<Rightarrow> run_scan \<Rightarrow> pcm_chunk \<Rightarrow> run_scan option" where
  "scan_chunk channel sample_rate threshold merge_gap_ms s chunk =
     Option.bind (is_nearly_silent_mono threshold (pk_mono chunk)) (\<lambda>silent.
       if silent then Some s
       else
         (let dur = chunk_duration_ms_from_samples (length (pk_mono chunk)) sample_rate
          in if dur = 0 then Some s
             else
               (let media_gap = pk_offset_ms chunk - sn_last_media_end_ms s;
                    wall_gap = pk_wall_offset_ms chunk - sn_last_wall_ms s;
                    wall_end = saturating_add_u32 (pk_wall_offset_ms chunk) dur;
                    runs = (case sn_runs s of
                        run # rest \<Rightarrow>
                          if media_gap \<le> merge_gap_ms \<and> wall_gap \<le> merge_gap_ms
                          then run\<lparr>sr_chunks := sr_chunks run @ [chunk], sr_wall_end_ms := wall_end\<rparr> # rest
                          else \<lparr>sr_channel = channel, sr_wall_start_ms = pk_wall_offset_ms chunk,
                                sr_wall_end_ms = wall_end, sr_chunks = [chunk]\<rparr> # run # rest
                      | [] \<Rightarrow> [\<lparr>sr_channel = channel, sr_wall_start_ms = pk_wall_offset_ms chunk,
                               sr_wall_end_ms = wall_end, sr_chunks = [chunk]\<rparr>])
                in Some \<lparr>sn_runs = runs, sn_last_media_end_ms = saturating_add_u32 (pk_offset_ms chunk) dur,
                         sn_last_wall_ms = pk_wall_offset_ms chunk\<rparr>)))"

primrec scan_chunks ::
  "session_channel \<Rightarrow> nat \<Rightarrow> int \<Rightarrow> nat \<Rightarrow> pcm_chunk list \<Rightarrow> run_scan \<Rightarrow> run_scan option" where
  "scan_chunks channel rate threshold gap [] s = Some s"
| "scan_chunks channel rate threshold gap (c # cs) s =
     Option.bind (scan_chunk channel rate threshold gap s c) (scan_chunks channel rate threshold gap cs)"

definition collect_speech_runs ::
  "session_channel \<Rightarrow> nat \<Rightarrow> int \<Rightarrow> nat \<Rightarrow> pcm_chunk list \<Rightarrow> speech_run list option" where
  "collect_speech_runs channel rate threshold gap chunks =
     map_option (\<lambda>s. rev (sn_runs s))
       (scan_chunks channel rate threshold gap chunks
          \<lparr>sn_runs = [], sn_last_media_end_ms = 0, sn_last_wall_ms = 0\<rparr>)"

text \<open>\<open>None\<close>: a run without chunks.\<close>

definition speech_run_media_duration_ms :: "nat \<Rightarrow> speech_run \<Rightarrow> nat option" where
  "speech_run_media_duration_ms rate run =
     (case sr_chunks run of
        [] \<Rightarrow> None
      | first # _ \<Rightarrow>
          (let final = last (sr_chunks run)
           in Some (saturating_add_u32 (pk_offset_ms final) (chunk_duration_ms_from_samples (length (pk_mono final)) rate)
                    - pk_offset_ms first)))"

section \<open>Turns\<close>

text \<open>Stable order by wall start, inbound before outbound at the same one: the pair as one number.\<close>

definition run_order :: "speech_run \<Rightarrow> nat" where
  "run_order run = 2 * sr_wall_start_ms run + (case sr_channel run of ChInbound \<Rightarrow> 0 | ChOutbound \<Rightarrow> 1)"

definition chunk_end_ms :: "nat \<Rightarrow> pcm_chunk \<Rightarrow> nat" where
  "chunk_end_ms rate c = saturating_add_u32 (pk_offset_ms c) (chunk_duration_ms_from_samples (length (pk_mono c)) rate)"

record turn_layout =
  tl_outbound :: "pcm_chunk list"
  tl_inbound :: "pcm_chunk list"
  tl_media_pos :: nat
  tl_prev_wall_end_ms :: "nat option"

definition place_chunk :: "nat \<Rightarrow> nat \<Rightarrow> pcm_chunk \<Rightarrow> pcm_chunk" where
  "place_chunk media_pos base c = c\<lparr>pk_offset_ms := saturating_add_u32 media_pos (pk_offset_ms c - base)\<rparr>"

definition place_run :: "nat \<Rightarrow> speech_run \<Rightarrow> turn_layout \<Rightarrow> turn_layout option" where
  "place_run rate run t =
     Option.bind (speech_run_media_duration_ms rate run) (\<lambda>media_dur.
       let wall_end = max (sr_wall_end_ms run) (saturating_add_u32 (sr_wall_start_ms run) media_dur);
           media_pos = (case tl_prev_wall_end_ms t of
               None \<Rightarrow> tl_media_pos t
             | Some prev \<Rightarrow> saturating_add_u32 (tl_media_pos t) (sr_wall_start_ms run - prev));
           placed = map (place_chunk media_pos (pk_offset_ms (hd (sr_chunks run)))) (sr_chunks run);
           run_end = fold (\<lambda>c e. max e (chunk_end_ms rate c)) placed media_pos;
           t = (case sr_channel run of
                  ChOutbound \<Rightarrow> t\<lparr>tl_outbound := tl_outbound t @ placed\<rparr>
                | ChInbound \<Rightarrow> t\<lparr>tl_inbound := tl_inbound t @ placed\<rparr>)
       in Some (t\<lparr>tl_media_pos := run_end, tl_prev_wall_end_ms := Some wall_end\<rparr>))"

primrec place_runs :: "nat \<Rightarrow> speech_run list \<Rightarrow> turn_layout \<Rightarrow> turn_layout option" where
  "place_runs rate [] t = Some t"
| "place_runs rate (run # runs) t = Option.bind (place_run rate run t) (place_runs rate runs)"

definition serialize_speech_turns_by_wall_time ::
  "nat \<Rightarrow> int \<Rightarrow> pcm_chunk list \<Rightarrow> pcm_chunk list \<Rightarrow> (pcm_chunk list \<times> pcm_chunk list) option" where
  "serialize_speech_turns_by_wall_time rate threshold outbound inbound =
     Option.bind (collect_speech_runs ChOutbound rate threshold SPEECH_RUN_MERGE_GAP_MS outbound) (\<lambda>runs_out.
     Option.bind (collect_speech_runs ChInbound rate threshold SPEECH_RUN_MERGE_GAP_MS inbound) (\<lambda>runs_in.
       map_option (\<lambda>t. (tl_outbound t, tl_inbound t))
         (place_runs rate (sort_key run_order (runs_out @ runs_in))
            \<lparr>tl_outbound = [], tl_inbound = [], tl_media_pos = 0, tl_prev_wall_end_ms = None\<rparr>)))"

section \<open>Mixing\<close>

text \<open>\<open>f64::from(ms) / 1000.0 * f64::from(rate)\<close>; of a value that is not negative, \<open>floor\<close> and the cast truncate.\<close>

definition ms_to_frames :: "'f float_ops \<Rightarrow> nat \<Rightarrow> nat \<Rightarrow> 'f" where
  "ms_to_frames fl rate n =
     fl_mul fl (fl_div fl (fl_of_int fl (int n)) (fl_of_int fl 1000)) (fl_of_int fl (int rate))"

definition timeline_end_ms :: "nat \<Rightarrow> pcm_chunk list \<Rightarrow> nat \<Rightarrow> nat" where
  "timeline_end_ms rate chunks e = fold (\<lambda>c e. max e (chunk_end_ms rate c)) chunks e"

definition start_frame :: "'f float_ops \<Rightarrow> nat \<Rightarrow> nat \<Rightarrow> pcm_chunk \<Rightarrow> nat" where
  "start_frame fl rate total_frames c = min (as_usize fl (ms_to_frames fl rate (pk_offset_ms c))) total_frames"

text \<open>One chunk into one channel of the interleaved buffer; the loop breaks at the end of the buffer.\<close>

definition paint_chunk :: "'f float_ops \<Rightarrow> nat \<Rightarrow> nat \<Rightarrow> nat \<Rightarrow> pcm_chunk \<Rightarrow> sample list \<Rightarrow> sample list" where
  "paint_chunk fl rate total_frames channel c buf =
     (let start = start_frame fl rate total_frames c
      in fold (\<lambda>(i, s) buf. buf[(start + i) * 2 + channel := s])
           (enumerate 0 (take (total_frames - start) (pk_mono c))) buf)"

definition mix_stereo_timeline ::
  "'f float_ops \<Rightarrow> nat \<Rightarrow> nat \<Rightarrow> pcm_chunk list \<Rightarrow> pcm_chunk list \<Rightarrow> bytes \<times> nat" where
  "mix_stereo_timeline fl rate max_duration_ms outbound inbound =
     (let end_ms = timeline_end_ms rate inbound (timeline_end_ms rate outbound 0);
          duration = min max_duration_ms end_ms;
          total_frames = max 1 (as_usize fl (fl_ceil fl (ms_to_frames fl rate duration)));
          buf = replicate (total_frames * 2) 0;
          buf = fold (paint_chunk fl rate total_frames 0) outbound buf;
          buf = fold (paint_chunk fl rate total_frames 1) inbound buf
      in (i16_samples_to_bytes buf, duration))"

definition recorder_build ::
  "'f float_ops \<Rightarrow> session_recorder \<Rightarrow> (session_recorder_error + session_audio_build) option" where
  "recorder_build fl r =
     (if rc_outbound_frames r = 0 \<and> rc_inbound_frames r = 0 then Some (Inl RecEmpty)
      else
        map_option (\<lambda>(outbound, inbound).
            let (b, duration) = mix_stereo_timeline fl SESSION_AUDIO_SAMPLE_RATE (rc_max_duration_ms r) outbound inbound
            in Inr \<lparr>sb_pcm = b, sb_duration_ms = duration, sb_outbound_frames = rc_outbound_frames r,
                    sb_inbound_frames = rc_inbound_frames r\<rparr>)
          (serialize_speech_turns_by_wall_time SESSION_AUDIO_SAMPLE_RATE DEFAULT_PEAK_THRESHOLD
             (rc_outbound r) (rc_inbound r)))"

section \<open>Export\<close>

text \<open>The header fields are \<open>u32\<close>/\<open>u16\<close>; \<open>None\<close> is the panic of an overflowing product or sum.\<close>

definition encode_pcm16le_wav :: "bytes \<Rightarrow> nat \<Rightarrow> nat \<Rightarrow> bytes option" where
  "encode_pcm16le_wav pcm_interleaved sample_rate channels =
     (let data_size = of_nat (length pcm_interleaved) :: 32 word;
          block_align = channels * 2;
          byte_rate = sample_rate * block_align
      in if 2 ^ 32 \<le> byte_rate \<or> 2 ^ 32 \<le> 36 + unat data_size then None
         else Some (ascii ''RIFF'' @ u32_to_le (36 + data_size) @ ascii ''WAVE'' @ ascii ''fmt '' @
           u32_to_le 16 @ u16_to_le 1 @ u16_to_le (of_nat channels) @
           u32_to_le (of_nat sample_rate) @ u32_to_le (of_nat byte_rate) @
           u16_to_le (of_nat block_align) @ u16_to_le 16 @ ascii ''data'' @ u32_to_le data_size @ pcm_interleaved))"

text \<open>What the recorder uses of the Opus encoder and of the Ogg writer (all packets written, or its error).\<close>

datatype ogg_end_info = EndPage | EndStream

record ogg_packet =
  og_data :: bytes
  og_serial :: "32 word"
  og_end :: ogg_end_info
  og_granule :: nat

record 'e opus_encoder =
  oe_new :: "ustring + 'e"
  oe_set_bitrate :: "int \<Rightarrow> 'e \<Rightarrow> ustring + 'e"
  oe_encode :: "sample list \<Rightarrow> 'e \<Rightarrow> ustring + bytes \<times> 'e"
  oe_lookahead :: "'e \<Rightarrow> ustring + nat"
  oe_ogg_bytes :: "ogg_packet list \<Rightarrow> ustring + bytes"

definition build_opus_head :: "nat \<Rightarrow> nat \<Rightarrow> nat \<Rightarrow> bytes" where
  "build_opus_head channels preskip sample_rate =
     ascii ''OpusHead'' @ [1, of_nat channels] @ u16_to_le (of_nat preskip) @ u32_to_le (of_nat sample_rate) @
     u16_to_le 0 @ [0]"

definition build_opus_tags :: "bytes \<Rightarrow> bytes" where
  "build_opus_tags vendor = ascii ''OpusTags'' @ u32_to_le (of_nat (length vendor)) @ vendor @ u32_to_le 0"

text \<open>The audio packets: the granule of a packet is the pre-skip plus the samples up to its end.\<close>

primrec ogg_audio_packets :: "bytes list \<Rightarrow> nat \<Rightarrow> ogg_packet list" where
  "ogg_audio_packets [] granule = []"
| "ogg_audio_packets (p # ps) granule =
     (let granule = min (2 ^ 64 - 1) (granule + OPUS_FRAME_SAMPLES_PER_CHANNEL)
      in \<lparr>og_data = p, og_serial = 0x4F505553, og_end = (if ps = [] then EndStream else EndPage), og_granule = granule\<rparr>
         # ogg_audio_packets ps granule)"

definition mux_opus_packets_to_ogg :: "bytes list \<Rightarrow> nat \<Rightarrow> nat \<Rightarrow> ogg_packet list" where
  "mux_opus_packets_to_ogg packets channels preskip =
     [\<lparr>og_data = build_opus_head channels preskip SESSION_AUDIO_SAMPLE_RATE, og_serial = 0x4F505553,
       og_end = EndPage, og_granule = 0\<rparr>,
      \<lparr>og_data = build_opus_tags (ascii ''node-webrtc-rust-session-recorder''), og_serial = 0x4F505553,
       og_end = EndPage, og_granule = 0\<rparr>] @ ogg_audio_packets packets preskip"

function opus_frames :: "sample list \<Rightarrow> sample list list" where
  "opus_frames ss =
     (if ss = [] then []
      else (let n = OPUS_FRAME_SAMPLES_PER_CHANNEL * SESSION_AUDIO_CHANNELS; frame = take n ss
            in (frame @ replicate (n - length frame) 0) # opus_frames (drop n ss)))"
  by auto
termination by (relation "measure length") (auto simp: OPUS_FRAME_SAMPLES_PER_CHANNEL_def SESSION_AUDIO_CHANNELS_def)

declare opus_frames.simps [simp del]

primrec encode_frames :: "'e opus_encoder \<Rightarrow> sample list list \<Rightarrow> 'e \<Rightarrow> session_recorder_error + bytes list \<times> 'e" where
  "encode_frames oe [] e = Inr ([], e)"
| "encode_frames oe (f # fs) e =
     (case oe_encode oe f e of
        Inl m \<Rightarrow> Inl (RecOpusEncode m)
      | Inr (packet, e) \<Rightarrow>
          if packet = [] then Inl (RecOpusEncode (utext ''encoder produced empty packet''))
          else (case encode_frames oe fs e of Inl m \<Rightarrow> Inl m | Inr (packets, e) \<Rightarrow> Inr (packet # packets, e)))"

definition encode_opus_ogg ::
  "'e opus_encoder \<Rightarrow> bytes \<Rightarrow> nat \<Rightarrow> nat \<Rightarrow> int \<Rightarrow> session_recorder_error + bytes" where
  "encode_opus_ogg oe pcm_interleaved sample_rate channels bitrate =
     (if sample_rate \<noteq> SESSION_AUDIO_SAMPLE_RATE then
        Inl (RecOpusEncode (utext ''unsupported sample rate '' @ decimal sample_rate @ utext ''; expected '' @
          decimal SESSION_AUDIO_SAMPLE_RATE))
      else if channels \<noteq> SESSION_AUDIO_CHANNELS then
        Inl (RecOpusEncode (utext ''unsupported channel count '' @ decimal channels @ utext ''; expected '' @
          decimal SESSION_AUDIO_CHANNELS))
      else
        (case oe_new oe of
           Inl m \<Rightarrow> Inl (RecOpusEncode m)
         | Inr e \<Rightarrow>
             (case oe_set_bitrate oe bitrate e of
                Inl m \<Rightarrow> Inl (RecOpusEncode m)
              | Inr e \<Rightarrow>
                  (case encode_frames oe (opus_frames (samples_of pcm_interleaved)) e of
                     Inl m \<Rightarrow> Inl m
                   | Inr (packets, e) \<Rightarrow>
                       (case oe_lookahead oe e of
                          Inl m \<Rightarrow> Inl (RecOpusEncode m)
                        | Inr preskip \<Rightarrow>
                            (case oe_ogg_bytes oe (mux_opus_packets_to_ogg packets channels (min 65535 preskip)) of
                               Inl m \<Rightarrow> Inl (RecOggMux m) | Inr b \<Rightarrow> Inr b))))))"

definition recorder_finalize ::
  "'f float_ops \<Rightarrow> 'e opus_encoder \<Rightarrow> session_audio_format \<Rightarrow> session_recorder \<Rightarrow>
   ((session_recorder_error + session_finalize_result) \<times> session_recorder) option" where
  "recorder_finalize fl oe format r =
     (if rc_closed r then Some (Inl RecClosed, r)
      else
        (let r = r\<lparr>rc_closed := True\<rparr>
         in Option.bind (recorder_build fl r) (\<lambda>built.
              case built of
                Inl e \<Rightarrow> Some (Inl e, r)
              | Inr b \<Rightarrow>
                  (let result = (\<lambda>data. \<lparr>sf_format = format, sf_data = data, sf_duration_ms = sb_duration_ms b,
                         sf_outbound_frames = sb_outbound_frames b, sf_inbound_frames = sb_inbound_frames b\<rparr>)
                   in case format of
                        FormatWav \<Rightarrow> map_option (\<lambda>data. (Inr (result data), r))
                          (encode_pcm16le_wav (sb_pcm b) SESSION_AUDIO_SAMPLE_RATE SESSION_AUDIO_CHANNELS)
                      | FormatOpus \<Rightarrow>
                          Some (case encode_opus_ogg oe (sb_pcm b) SESSION_AUDIO_SAMPLE_RATE SESSION_AUDIO_CHANNELS
                                  SESSION_RECORDER_DEFAULT_OPUS_BITRATE_BPS of
                                  Inl e \<Rightarrow> (Inl e, r) | Inr data \<Rightarrow> (Inr (result data), r))))))"

end
