(* ===== verification/Session_Turns.thy ===== *)
theory Session_Turns
  imports Complex_Main Session_Recorder
begin

text \<open>
  What the recorder keeps: nothing loud is lost or reordered within a direction, the turns of the two
  directions never overlap, and the mixed buffer holds the samples of every chunk.
\<close>

section \<open>Spans on a timeline\<close>

fun spans_in_order :: "nat \<Rightarrow> (nat \<times> nat) list \<Rightarrow> bool" where
  "spans_in_order pos [] \<longleftrightarrow> True"
| "spans_in_order pos ((s, e) # xs) \<longleftrightarrow> pos \<le> s \<and> s \<le> e \<and> spans_in_order e xs"

definition span_of :: "nat \<Rightarrow> pcm_chunk \<Rightarrow> nat \<times> nat" where
  "span_of rate c = (pk_offset_ms c, chunk_end_ms rate c)"

lemma spans_weaken: "spans_in_order p xs \<Longrightarrow> q \<le> p \<Longrightarrow> spans_in_order q xs"
  by (cases xs) auto

lemma spans_append:
  "spans_in_order p (xs @ ys) \<longleftrightarrow> spans_in_order p xs \<and> spans_in_order (if xs = [] then p else snd (last xs)) ys"
  by (induction xs arbitrary: p) auto

lemma spans_append_left: "spans_in_order p (xs @ ys) \<Longrightarrow> spans_in_order p xs"
  by (simp add: spans_append)

lemma spans_append_right: "spans_in_order p (xs @ ys) \<Longrightarrow> spans_in_order 0 ys"
  by (auto simp: spans_append intro: spans_weaken)

lemma spans_ends: "spans_in_order p xs \<Longrightarrow> (s, e) \<in> set xs \<Longrightarrow> p \<le> s \<and> s \<le> e"
  by (induction xs arbitrary: p) fastforce+

lemma spans_last: "spans_in_order p xs \<Longrightarrow> (s, e) \<in> set xs \<Longrightarrow> e \<le> snd (last xs)"
proof (induction xs arbitrary: p)
  case (Cons x xs)
  obtain a b where x: "x = (a, b)" by fastforce
  show ?case
  proof (cases "xs = []")
    case True
    then show ?thesis using Cons.prems x by simp
  next
    case False
    then have "b \<le> snd (last xs)"
      using spans_ends [of b xs "fst (last xs)" "snd (last xs)"] Cons.prems(1) x by simp
    then show ?thesis using Cons False x by auto
  qed
qed simp

lemma spans_join:
  "spans_in_order p xs \<Longrightarrow> (\<And>s e. (s, e) \<in> set xs \<Longrightarrow> e \<le> q) \<Longrightarrow> p \<le> q \<Longrightarrow> spans_in_order q ys \<Longrightarrow>
   spans_in_order p (xs @ ys)"
proof -
  assume a: "spans_in_order p xs" "\<And>s e. (s, e) \<in> set xs \<Longrightarrow> e \<le> q" "p \<le> q" "spans_in_order q ys"
  have "(if xs = [] then p else snd (last xs)) \<le> q"
    using a(2) [of "fst (last xs)" "snd (last xs)"] a(3) by simp
  then show ?thesis unfolding spans_append using a(1,4) by (blast intro: spans_weaken)
qed

lemma spans_filter: "spans_in_order p (map f cs) \<Longrightarrow> spans_in_order p (map f (filter P cs))"
proof (induction cs arbitrary: p)
  case (Cons c cs)
  then show ?case by (cases "f c") (auto intro: spans_weaken)
qed simp

section \<open>Speech runs\<close>

definition loud_chunk :: "nat \<Rightarrow> int \<Rightarrow> pcm_chunk \<Rightarrow> bool" where
  "loud_chunk rate threshold c \<longleftrightarrow> is_nearly_silent_mono threshold (pk_mono c) = Some False \<and>
     chunk_duration_ms_from_samples (length (pk_mono c)) rate \<noteq> 0"

definition run_ok :: "session_channel \<Rightarrow> speech_run \<Rightarrow> bool" where
  "run_ok channel run \<longleftrightarrow> sr_chunks run \<noteq> [] \<and> sr_channel run = channel \<and>
     sr_wall_start_ms run = pk_wall_offset_ms (hd (sr_chunks run))"

lemma scan_chunk_runs:
  assumes "scan_chunk channel rate threshold gap s c = Some s'" "list_all (run_ok channel) (sn_runs s)"
  shows "list_all (run_ok channel) (sn_runs s') \<and>
    concat (map sr_chunks (rev (sn_runs s'))) =
      concat (map sr_chunks (rev (sn_runs s))) @ (if loud_chunk rate threshold c then [c] else [])"
proof -
  obtain quiet where q: "is_nearly_silent_mono threshold (pk_mono c) = Some quiet"
    using assms(1) by (cases "is_nearly_silent_mono threshold (pk_mono c)") (simp_all add: scan_chunk_def)
  show ?thesis
  proof (cases "loud_chunk rate threshold c")
    case False
    then have "s' = s" using assms(1) q by (auto simp: scan_chunk_def loud_chunk_def Let_def split: if_splits)
    then show ?thesis using False assms(2) by simp
  next
    case True
    then have l: "\<not> quiet" "chunk_duration_ms_from_samples (length (pk_mono c)) rate \<noteq> 0" using q by (simp_all add: loud_chunk_def)
    show ?thesis
    proof (cases "sn_runs s")
      case Nil
      then show ?thesis using assms(1) q l True by (auto simp: scan_chunk_def Let_def run_ok_def)
    next
      case (Cons run rest)
      then show ?thesis using assms q l True by (auto simp: scan_chunk_def Let_def run_ok_def)
    qed
  qed
qed

lemma scan_chunks_runs:
  "scan_chunks channel rate threshold gap cs s = Some s' \<Longrightarrow> list_all (run_ok channel) (sn_runs s) \<Longrightarrow>
   list_all (run_ok channel) (sn_runs s') \<and>
   concat (map sr_chunks (rev (sn_runs s'))) =
     concat (map sr_chunks (rev (sn_runs s))) @ filter (loud_chunk rate threshold) cs"
proof (induction cs arbitrary: s)
  case (Cons c cs)
  from Cons.prems(1) obtain u where u: "scan_chunk channel rate threshold gap s c = Some u"
      "scan_chunks channel rate threshold gap cs u = Some s'"
    by (auto split: bind_splits)
  from scan_chunk_runs [OF u(1) Cons.prems(2)] Cons.IH [OF u(2)] show ?case by simp
qed simp

lemma collect_runs:
  assumes "collect_speech_runs channel rate threshold gap chunks = Some runs"
  shows "list_all (run_ok channel) runs \<and> concat (map sr_chunks runs) = filter (loud_chunk rate threshold) chunks"
  using assms scan_chunks_runs [of channel rate threshold gap chunks _ _]
  by (fastforce simp: collect_speech_runs_def list_all_iff)

lemma sorted_heads:
  "sorted (map f (concat xss)) \<Longrightarrow> list_all (\<lambda>xs. xs \<noteq> []) xss \<Longrightarrow> sorted (map (\<lambda>xs. f (hd xs)) xss)"
proof (induction xss)
  case (Cons xs xss)
  have "f (hd xs) \<le> f (hd ys)" if "ys \<in> set xss" for ys
  proof -
    have "hd ys \<in> set (concat xss)" using that Cons.prems(2) by (auto simp: list_all_iff intro!: bexI [of _ ys])
    moreover have "hd xs \<in> set xs" using Cons.prems(2) by simp
    ultimately show ?thesis using Cons.prems(1) by (auto simp: sorted_append)
  qed
  then show ?case using Cons by (simp add: sorted_append)
qed simp

lemma runs_sorted:
  assumes r: "list_all (run_ok channel) runs" and w: "sorted (map pk_wall_offset_ms (concat (map sr_chunks runs)))"
  shows "sorted (map run_order runs)"
proof -
  have h: "sorted (map (\<lambda>xs. pk_wall_offset_ms (hd xs)) (map sr_chunks runs))"
    by (rule sorted_heads [OF w]) (use r in \<open>auto simp: list_all_iff run_ok_def\<close>)
  have "map run_order runs =
      map (\<lambda>n. 2 * n + (case channel of ChInbound \<Rightarrow> 0 | ChOutbound \<Rightarrow> 1)) (map (\<lambda>xs. pk_wall_offset_ms (hd xs)) (map sr_chunks runs))"
    using r by (simp add: list_all_iff run_ok_def run_order_def)
  also have "sorted \<dots>" using h by (auto simp: sorted_iff_nth_mono)
  finally show ?thesis .
qed

text \<open>The stable sort keeps the runs of each direction in order.\<close>

lemma sorted_runs_of:
  assumes out: "list_all (run_ok ChOutbound) ro" "sorted (map run_order ro)"
    and inb: "list_all (run_ok ChInbound) ri" "sorted (map run_order ri)"
  shows "filter (\<lambda>r. sr_channel r = ChOutbound) (sort_key run_order (ro @ ri)) = ro"
    "filter (\<lambda>r. sr_channel r = ChInbound) (sort_key run_order (ro @ ri)) = ri"
proof -
  have o: "filter (\<lambda>r. sr_channel r = ChOutbound) (ro @ ri) = ro" "filter (\<lambda>r. sr_channel r = ChInbound) (ro @ ri) = ri"
    using out(1) inb(1) by (auto simp: list_all_iff run_ok_def filter_id_conv filter_empty_conv)
  show "filter (\<lambda>r. sr_channel r = ChOutbound) (sort_key run_order (ro @ ri)) = ro"
    "filter (\<lambda>r. sr_channel r = ChInbound) (sort_key run_order (ro @ ri)) = ri"
    unfolding filter_sort o using out(2) inb(2) by (simp_all add: sort_key_id_if_sorted)
qed

section \<open>Placing the runs\<close>

lemma fold_max_start: "x \<le> fold (\<lambda>c e. max e (f c)) cs (x :: nat)"
  by (induction cs arbitrary: x) (auto intro: max.cobounded1 [THEN order_trans])

lemma fold_max_ge: "c \<in> set cs \<Longrightarrow> f c \<le> fold (\<lambda>c e. max e (f c)) cs (x :: nat)"
  by (induction cs arbitrary: x) (auto intro: order_trans [OF _ fold_max_start])

lemma fold_max_cases: "fold (\<lambda>c e. max e (f c)) cs (x :: nat) = x \<or> (\<exists>c \<in> set cs. fold (\<lambda>c e. max e (f c)) cs x = f c)"
proof (induction cs arbitrary: x)
  case (Cons c cs)
  then show ?case using Cons.IH [of "max x (f c)"] by (auto simp: max_def split: if_splits)
qed simp

lemma saturating_exact: "saturating_add_u32 a b < u32_max \<Longrightarrow> saturating_add_u32 a b = a + b"
  by (auto simp: saturating_add_u32_def)

lemma saturating_mono: "a \<le> b \<Longrightarrow> saturating_add_u32 a c \<le> saturating_add_u32 b c"
  by (auto simp: saturating_add_u32_def)

lemma place_sel [simp]: "pk_mono (place_chunk m base c) = pk_mono c"
  by (simp add: place_chunk_def)

lemma place_exact:
  assumes "chunk_end_ms rate (place_chunk m base c) < u32_max" "chunk_end_ms rate c < u32_max"
  shows "pk_offset_ms (place_chunk m base c) = m + (pk_offset_ms c - base)"
    "base \<le> pk_offset_ms c \<Longrightarrow> chunk_end_ms rate (place_chunk m base c) = m + (chunk_end_ms rate c - base)"
proof -
  note e = saturating_exact [OF assms(1) [unfolded chunk_end_ms_def]] saturating_exact [OF assms(2) [unfolded chunk_end_ms_def]]
  have "pk_offset_ms (place_chunk m base c) < u32_max" using assms(1) e(1) by (simp add: chunk_end_ms_def)
  then show o: "pk_offset_ms (place_chunk m base c) = m + (pk_offset_ms c - base)"
    unfolding place_chunk_def by simp (rule saturating_exact, simp)
  show "base \<le> pk_offset_ms c \<Longrightarrow> chunk_end_ms rate (place_chunk m base c) = m + (chunk_end_ms rate c - base)"
    using e o by (simp add: chunk_end_ms_def)
qed

lemma place_spans:
  "spans_in_order p (map (span_of rate) cs) \<Longrightarrow> base \<le> p \<Longrightarrow> list_all (\<lambda>c. chunk_end_ms rate c < u32_max) cs \<Longrightarrow>
   list_all (\<lambda>c. chunk_end_ms rate (place_chunk m base c) < u32_max) cs \<Longrightarrow>
   spans_in_order (m + (p - base)) (map (\<lambda>c. span_of rate (place_chunk m base c)) cs)"
proof (induction cs arbitrary: p)
  case (Cons c cs)
  let ?e = "chunk_end_ms rate c"
  have s: "p \<le> pk_offset_ms c" "pk_offset_ms c \<le> ?e" "spans_in_order ?e (map (span_of rate) cs)"
    using Cons.prems(1) by (simp_all add: span_of_def [of rate c])
  have e: "pk_offset_ms (place_chunk m base c) = m + (pk_offset_ms c - base)"
    "chunk_end_ms rate (place_chunk m base c) = m + (?e - base)"
    using place_exact [of rate m base c] Cons.prems(2-4) s(1) by simp_all
  have "spans_in_order (m + (?e - base)) (map (\<lambda>c. span_of rate (place_chunk m base c)) cs)"
    by (rule Cons.IH) (use s Cons.prems in simp_all)
  then show ?case using s Cons.prems(2) by (simp add: span_of_def [of rate "place_chunk m base c"] e diff_le_mono)
qed simp

definition placed_run :: "nat \<Rightarrow> speech_run \<Rightarrow> turn_layout \<Rightarrow> turn_layout \<Rightarrow> pcm_chunk list \<Rightarrow> bool" where
  "placed_run rate run t t' placed \<longleftrightarrow> map pk_mono placed = map pk_mono (sr_chunks run) \<and>
     tl_outbound t' = tl_outbound t @ (if sr_channel run = ChOutbound then placed else []) \<and>
     tl_inbound t' = tl_inbound t @ (if sr_channel run = ChInbound then placed else []) \<and>
     tl_media_pos t \<le> tl_media_pos t' \<and> tl_media_pos t' \<le> u32_max \<and>
     (\<exists>c \<in> set placed. tl_media_pos t' \<le> chunk_end_ms rate c) \<and>
     (tl_media_pos t' < u32_max \<and> spans_in_order 0 (map (span_of rate) (sr_chunks run)) \<and>
      list_all (\<lambda>c. chunk_end_ms rate c < u32_max) (sr_chunks run) \<longrightarrow>
      spans_in_order (tl_media_pos t) (map (span_of rate) placed) \<and>
      list_all (\<lambda>c. chunk_end_ms rate c \<le> tl_media_pos t') placed)"

lemma place_run_spans:
  assumes p: "place_run rate run t = Some t'" and m0: "tl_media_pos t \<le> u32_max"
  shows "\<exists>placed. placed_run rate run t t' placed"
proof -
  obtain d where d: "speech_run_media_duration_ms rate run = Some d"
    using p by (cases "speech_run_media_duration_ms rate run") (simp_all add: place_run_def)
  then obtain x xs where x: "sr_chunks run = x # xs"
    by (cases "sr_chunks run") (simp_all add: speech_run_media_duration_ms_def)
  define m where "m = (case tl_prev_wall_end_ms t of None \<Rightarrow> tl_media_pos t
      | Some prev \<Rightarrow> saturating_add_u32 (tl_media_pos t) (sr_wall_start_ms run - prev))"
  define placed where "placed = map (place_chunk m (pk_offset_ms x)) (sr_chunks run)"
  define e where "e = fold (\<lambda>c e. max e (chunk_end_ms rate c)) placed m"
  have m: "tl_media_pos t \<le> m"
    using m0 by (auto simp: m_def saturating_add_u32_def split: option.split)
  have t': "tl_media_pos t' = e"
    "tl_outbound t' = tl_outbound t @ (if sr_channel run = ChOutbound then placed else [])"
    "tl_inbound t' = tl_inbound t @ (if sr_channel run = ChInbound then placed else [])"
    using p d x unfolding e_def placed_def m_def by (auto simp: place_run_def Let_def split: session_channel.splits)
  have ends: "chunk_end_ms rate c \<le> e" if "c \<in> set placed" for c
    using fold_max_ge [OF that] by (simp add: e_def)
  have "spans_in_order (tl_media_pos t) (map (span_of rate) placed)"
    if u: "e < u32_max" "spans_in_order 0 (map (span_of rate) (sr_chunks run))"
      "list_all (\<lambda>c. chunk_end_ms rate c < u32_max) (sr_chunks run)"
  proof -
    have "spans_in_order (pk_offset_ms x) (map (span_of rate) (sr_chunks run))"
      using u(2) by (simp add: x span_of_def)
    moreover have "list_all (\<lambda>c. chunk_end_ms rate (place_chunk m (pk_offset_ms x) c) < u32_max) (sr_chunks run)"
      using ends u(1) by (auto simp: list_all_iff placed_def intro: le_less_trans)
    ultimately have "spans_in_order (m + (pk_offset_ms x - pk_offset_ms x))
        (map (\<lambda>c. span_of rate (place_chunk m (pk_offset_ms x) c)) (sr_chunks run))"
      by (rule place_spans [OF _ order_refl u(3)])
    then show ?thesis using m by (auto simp: placed_def comp_def intro: spans_weaken)
  qed
  moreover have "map pk_mono placed = map pk_mono (sr_chunks run)" by (simp add: placed_def comp_def)
  moreover have "m \<le> e" unfolding e_def by (rule fold_max_start)
  moreover have "e \<le> u32_max"
  proof -
    have "fold (\<lambda>c e. max e (chunk_end_ms rate c)) cs z \<le> u32_max" if "z \<le> u32_max" for cs z
      using that by (induction cs arbitrary: z) (auto simp: chunk_end_ms_def saturating_add_u32_def)
    then show ?thesis using m0 by (auto simp: e_def m_def saturating_add_u32_def split: option.split)
  qed
  moreover have "\<exists>c \<in> set placed. e \<le> chunk_end_ms rate c"
  proof -
    have m32: "m \<le> u32_max" using m0 by (auto simp: m_def saturating_add_u32_def split: option.split)
    have "m \<le> chunk_end_ms rate (place_chunk m (pk_offset_ms x) x)"
      using m32 by (simp add: chunk_end_ms_def place_chunk_def saturating_add_u32_def)
    moreover have "place_chunk m (pk_offset_ms x) x \<in> set placed" by (simp add: placed_def x)
    ultimately show ?thesis using fold_max_cases [of "chunk_end_ms rate" placed m] unfolding e_def by fastforce
  qed
  ultimately have "placed_run rate run t t' placed"
    using t' m ends by (auto simp: placed_run_def list_all_iff)
  then show ?thesis ..
qed

lemma place_runs_pos:
  "place_runs rate runs t = Some t' \<Longrightarrow> tl_media_pos t \<le> u32_max \<Longrightarrow> tl_media_pos t \<le> tl_media_pos t' \<and> tl_media_pos t' \<le> u32_max"
proof (induction runs arbitrary: t)
  case (Cons r runs)
  from Cons.prems(1) obtain u where u: "place_run rate r t = Some u" "place_runs rate runs u = Some t'"
    by (auto split: bind_splits)
  have "tl_media_pos t \<le> tl_media_pos u \<and> tl_media_pos u \<le> u32_max"
    using place_run_spans [OF u(1) Cons.prems(2)] by (auto simp: placed_run_def)
  then show ?case using Cons.IH [OF u(2)] by auto
qed simp

lemma place_runs_end:
  "place_runs rate runs t = Some t' \<Longrightarrow> tl_media_pos t \<le> u32_max \<Longrightarrow>
   set (tl_outbound t) \<subseteq> set (tl_outbound t') \<and> set (tl_inbound t) \<subseteq> set (tl_inbound t') \<and>
   (tl_media_pos t' \<le> tl_media_pos t \<or>
    (\<exists>c \<in> set (tl_outbound t') \<union> set (tl_inbound t'). tl_media_pos t' \<le> chunk_end_ms rate c))"
proof (induction runs arbitrary: t)
  case (Cons r runs)
  from Cons.prems(1) obtain u where u: "place_run rate r t = Some u" "place_runs rate runs u = Some t'"
    by (auto split: bind_splits)
  obtain pl where pl: "placed_run rate r t u pl" using place_run_spans [OF u(1) Cons.prems(2)] by blast
  then obtain c where "c \<in> set (tl_outbound u) \<union> set (tl_inbound u)" "tl_media_pos u \<le> chunk_end_ms rate c"
    by (cases "sr_channel r") (auto simp: placed_run_def)
  moreover have "set (tl_outbound t) \<subseteq> set (tl_outbound u)" "set (tl_inbound t) \<subseteq> set (tl_inbound u)"
    "tl_media_pos u \<le> u32_max"
    using pl by (auto simp: placed_run_def)
  ultimately show ?case using Cons.IH [OF u(2)] by (meson Un_iff order_trans subsetD subsetI)
qed simp

text \<open>All turns, in the order they were placed.\<close>

definition unsaturated_run :: "nat \<Rightarrow> speech_run \<Rightarrow> bool" where
  "unsaturated_run rate r \<longleftrightarrow> spans_in_order 0 (map (span_of rate) (sr_chunks r)) \<and>
     list_all (\<lambda>c. chunk_end_ms rate c < u32_max) (sr_chunks r)"

definition turns_of :: "session_channel \<Rightarrow> (session_channel \<times> pcm_chunk) list \<Rightarrow> pcm_chunk list" where
  "turns_of ch placed = map snd (filter (\<lambda>x. fst x = ch) placed)"

lemma turns_append [simp]: "turns_of ch (xs @ ys) = turns_of ch xs @ turns_of ch ys"
  by (simp add: turns_of_def)

lemma turns_same: "turns_of ch (map (Pair c) cs) = (if c = ch then cs else [])"
  by (induction cs) (auto simp: turns_of_def)

lemma place_runs_spans:
  "place_runs rate runs t = Some t' \<Longrightarrow> tl_media_pos t \<le> u32_max \<Longrightarrow> tl_media_pos t' < u32_max \<Longrightarrow>
   list_all (unsaturated_run rate) runs \<Longrightarrow>
   \<exists>placed. spans_in_order (tl_media_pos t) (map (span_of rate) (map snd placed)) \<and>
     tl_outbound t' = tl_outbound t @ turns_of ChOutbound placed \<and>
     tl_inbound t' = tl_inbound t @ turns_of ChInbound placed \<and>
     map (\<lambda>(ch, c). (ch, pk_mono c)) placed =
       concat (map (\<lambda>r. map (\<lambda>c. (sr_channel r, pk_mono c)) (sr_chunks r)) runs)"
proof (induction runs arbitrary: t)
  case Nil
  then show ?case by (intro exI [of _ "[]"]) (simp add: turns_of_def)
next
  case (Cons r runs)
  from Cons.prems(1) obtain u where u: "place_run rate r t = Some u" "place_runs rate runs u = Some t'"
    by (auto split: bind_splits)
  obtain pl where pl: "placed_run rate r t u pl" using place_run_spans [OF u(1) Cons.prems(2)] by blast
  have pos: "tl_media_pos t \<le> tl_media_pos u" "tl_media_pos u \<le> u32_max" "tl_media_pos u < u32_max"
    using pl place_runs_pos [OF u(2)] Cons.prems(3) by (auto simp: placed_run_def)
  have first: "spans_in_order (tl_media_pos t) (map (span_of rate) pl)"
    "list_all (\<lambda>c. chunk_end_ms rate c \<le> tl_media_pos u) pl"
    using pl pos Cons.prems(4) by (simp_all add: placed_run_def unsaturated_run_def)
  obtain rest where rest: "spans_in_order (tl_media_pos u) (map (span_of rate) (map snd rest))"
      "tl_outbound t' = tl_outbound u @ turns_of ChOutbound rest" "tl_inbound t' = tl_inbound u @ turns_of ChInbound rest"
      "map (\<lambda>(ch, c). (ch, pk_mono c)) rest = concat (map (\<lambda>r. map (\<lambda>c. (sr_channel r, pk_mono c)) (sr_chunks r)) runs)"
    using Cons.IH [OF u(2) pos(2) Cons.prems(3)] Cons.prems(4) by auto
  let ?placed = "map (Pair (sr_channel r)) pl @ rest"
  have "spans_in_order (tl_media_pos t) (map (span_of rate) (map snd ?placed))"
    unfolding map_append
    by (rule spans_join [where q = "tl_media_pos u"])
      (use first rest(1) pos(1) in \<open>auto simp: list_all_iff span_of_def comp_def\<close>)
  moreover have "map (\<lambda>c. (sr_channel r, pk_mono c)) pl = map (\<lambda>c. (sr_channel r, pk_mono c)) (sr_chunks r)"
    using pl by (simp add: placed_run_def) (metis (no_types, lifting) list.map_comp comp_def map_eq_conv map_map)
  ultimately show ?case
    using pl rest(2-4) by (intro exI [of _ ?placed]) (auto simp: placed_run_def turns_same comp_def)
qed

lemma unsaturated_runs:
  assumes "concat (map sr_chunks runs) = filter P cs" "spans_in_order 0 (map (span_of rate) cs)"
    "list_all (\<lambda>c. chunk_end_ms rate c < u32_max) cs"
  shows "list_all (unsaturated_run rate) runs"
proof -
  have "spans_in_order 0 (map (span_of rate) (concat (map sr_chunks runs)))"
    unfolding assms(1) by (rule spans_filter [OF assms(2)])
  moreover have "list_all (\<lambda>c. chunk_end_ms rate c < u32_max) (concat (map sr_chunks runs))"
    unfolding assms(1) using assms(3) by (auto simp: list_all_iff)
  ultimately show ?thesis
  proof (induction runs)
    case (Cons r runs)
    have "spans_in_order 0 (map (span_of rate) (sr_chunks r) @ map (span_of rate) (concat (map sr_chunks runs)))"
      using Cons.prems(1) by simp
    from spans_append_left [OF this] spans_append_right [OF this] Cons show ?case
      by (simp add: unsaturated_run_def)
  qed simp
qed

lemma concat_channel:
  "map pk_mono (map snd (filter (\<lambda>x. fst x = ch) placed)) =
   map snd (filter (\<lambda>x. fst x = ch) (map (\<lambda>(ch, c). (ch, pk_mono c)) placed))"
  by (induction placed) auto

lemma turns_of_runs:
  assumes "map (\<lambda>(ch, c). (ch, pk_mono c)) placed =
      concat (map (\<lambda>r. map (\<lambda>c. (sr_channel r, pk_mono c)) (sr_chunks r)) runs)"
  shows "map pk_mono (turns_of ch placed) = map pk_mono (concat (map sr_chunks (filter (\<lambda>r. sr_channel r = ch) runs)))"
proof -
  have "map snd (filter (\<lambda>x. fst x = ch) (concat (map (\<lambda>r. map (\<lambda>c. (sr_channel r, pk_mono c)) (sr_chunks r)) runs))) =
      map pk_mono (concat (map sr_chunks (filter (\<lambda>r. sr_channel r = ch) runs)))"
    by (induction runs) (auto simp: filter_map comp_def)
  then show ?thesis unfolding turns_of_def concat_channel assms .
qed

text \<open>The turns of the two directions: nothing loud is lost or reordered, and nothing overlaps.\<close>

definition kept_turns ::
  "nat \<Rightarrow> int \<Rightarrow> pcm_chunk list \<Rightarrow> pcm_chunk list \<Rightarrow> (session_channel \<times> pcm_chunk) list \<Rightarrow> bool" where
  "kept_turns rate threshold outbound inbound placed \<longleftrightarrow>
     spans_in_order 0 (map (span_of rate) (map snd placed)) \<and>
     map pk_mono (turns_of ChOutbound placed) = map pk_mono (filter (loud_chunk rate threshold) outbound) \<and>
     map pk_mono (turns_of ChInbound placed) = map pk_mono (filter (loud_chunk rate threshold) inbound)"

definition well_captured :: "nat \<Rightarrow> pcm_chunk list \<Rightarrow> bool" where
  "well_captured rate cs \<longleftrightarrow> spans_in_order 0 (map (span_of rate) cs) \<and> sorted (map pk_wall_offset_ms cs) \<and>
     list_all (\<lambda>c. chunk_end_ms rate c < u32_max) cs"

lemma serialize_keeps_turns:
  assumes s: "serialize_speech_turns_by_wall_time rate threshold outbound inbound = Some (o', i')"
    and w: "well_captured rate outbound" "well_captured rate inbound"
    and e: "timeline_end_ms rate i' (timeline_end_ms rate o' 0) < u32_max"
  shows "\<exists>placed. o' = turns_of ChOutbound placed \<and> i' = turns_of ChInbound placed \<and>
    kept_turns rate threshold outbound inbound placed"
proof -
  let ?t = "\<lparr>tl_outbound = [], tl_inbound = [], tl_media_pos = 0, tl_prev_wall_end_ms = None\<rparr>"
  from s obtain ro ri t' where
      ro: "collect_speech_runs ChOutbound rate threshold SPEECH_RUN_MERGE_GAP_MS outbound = Some ro"
    and ri: "collect_speech_runs ChInbound rate threshold SPEECH_RUN_MERGE_GAP_MS inbound = Some ri"
    and t': "place_runs rate (sort_key run_order (ro @ ri)) ?t = Some t'" "o' = tl_outbound t'" "i' = tl_inbound t'"
    by (auto simp: serialize_speech_turns_by_wall_time_def split: bind_splits)
  note co = collect_runs [OF ro] and ci = collect_runs [OF ri]
  let ?runs = "sort_key run_order (ro @ ri)"
  have so: "sorted (map run_order ro)" and si: "sorted (map run_order ri)"
    using runs_sorted [of ChOutbound ro] runs_sorted [of ChInbound ri] co ci w
    by (auto simp: well_captured_def sorted_filter)
  note f = sorted_runs_of [OF conjunct1 [OF co] so conjunct1 [OF ci] si]
  have "list_all (unsaturated_run rate) ro" "list_all (unsaturated_run rate) ri"
    using unsaturated_runs [OF conjunct2 [OF co]] unsaturated_runs [OF conjunct2 [OF ci]] w
    by (simp_all add: well_captured_def)
  then have u: "list_all (unsaturated_run rate) ?runs" by (auto simp: list_all_iff)
  have "tl_media_pos t' < u32_max"
  proof -
    have "chunk_end_ms rate c \<le> timeline_end_ms rate i' (timeline_end_ms rate o' 0)" if "c \<in> set o' \<union> set i'" for c
      using that fold_max_ge [of c i' "chunk_end_ms rate"] fold_max_ge [of c o' "chunk_end_ms rate" 0]
        fold_max_start [of _ "chunk_end_ms rate" i'] unfolding timeline_end_ms_def by (meson UnE order_trans)
    then show ?thesis
      using place_runs_end [OF t'(1)] e unfolding t'(2,3) by (auto simp: u32_max_def intro: le_less_trans order_trans)
  qed
  then obtain placed where p: "spans_in_order 0 (map (span_of rate) (map snd placed))"
      "o' = turns_of ChOutbound placed" "i' = turns_of ChInbound placed"
      "map (\<lambda>(ch, c). (ch, pk_mono c)) placed =
         concat (map (\<lambda>r. map (\<lambda>c. (sr_channel r, pk_mono c)) (sr_chunks r)) ?runs)"
    using place_runs_spans [OF t'(1) _ _ u] t'(2,3) by auto
  have "kept_turns rate threshold outbound inbound placed"
    unfolding kept_turns_def turns_of_runs [OF p(4)] f using p(1) co ci by simp
  then show ?thesis using p(2,3) by blast
qed

section \<open>Capturing\<close>

text \<open>Any pushes, each with its direction and the wall clock it read.\<close>

definition recorder_run :: "(session_channel \<times> nat \<times> bytes) list \<Rightarrow> session_recorder \<Rightarrow> session_recorder" where
  "recorder_run pushes r = fold (\<lambda>(side, now, b). push_channel side now b) pushes r"

definition clock_ok :: "pcm_chunk list \<Rightarrow> media_clock_state option \<Rightarrow> bool" where
  "clock_ok cs clock \<longleftrightarrow> spans_in_order 0 (map (span_of SESSION_AUDIO_SAMPLE_RATE) cs) \<and>
     list_all (\<lambda>c. pk_mono c \<noteq> [] \<and> pk_offset_ms c \<le> u32_max) cs \<and>
     (case clock of None \<Rightarrow> cs = []
      | Some k \<Rightarrow> cs \<noteq> [] \<and> mc_media_end_ms k = chunk_end_ms SESSION_AUDIO_SAMPLE_RATE (last cs))"

definition walls_ok :: "nat \<Rightarrow> session_recorder \<Rightarrow> pcm_chunk list \<Rightarrow> bool" where
  "walls_ok now r cs \<longleftrightarrow> sorted (map pk_wall_offset_ms cs) \<and>
     list_all (\<lambda>c. pk_wall_offset_ms c < rc_max_duration_ms r \<or> pk_wall_offset_ms c = 0) cs \<and>
     (case rc_first_push_at_ms r of None \<Rightarrow> cs = []
      | Some epoch \<Rightarrow> epoch \<le> now \<and> list_all (\<lambda>c. pk_wall_offset_ms c \<le> now - epoch) cs)"

definition recorder_ok :: "nat \<Rightarrow> session_recorder \<Rightarrow> bool" where
  "recorder_ok now r \<longleftrightarrow> clock_ok (rc_outbound r) (rc_outbound_clock r) \<and> clock_ok (rc_inbound r) (rc_inbound_clock r) \<and>
     rc_outbound_frames r = length (rc_outbound r) \<and> rc_inbound_frames r = length (rc_inbound r) \<and>
     walls_ok now r (rc_outbound r) \<and> walls_ok now r (rc_inbound r)"

lemma clock_push:
  assumes k: "clock_ok cs clock" and ss: "ss \<noteq> []" and w: "wall \<le> u32_max"
    and r: "resolve_media_clock_offset_ms wall
        (chunk_duration_ms_from_samples (length ss) SESSION_AUDIO_SAMPLE_RATE) now clock = (offset, clock')"
  shows "clock_ok (cs @ [\<lparr>pk_offset_ms = offset, pk_wall_offset_ms = wall, pk_mono = ss\<rparr>]) (Some clock')"
proof -
  let ?c = "\<lparr>pk_offset_ms = offset, pk_wall_offset_ms = wall, pk_mono = ss\<rparr>"
  have o: "offset = (case clock of None \<Rightarrow> wall | Some c \<Rightarrow> mc_media_end_ms c)"
    and e: "mc_media_end_ms clock' = chunk_end_ms SESSION_AUDIO_SAMPLE_RATE ?c"
    using r by (auto simp: resolve_media_clock_offset_ms_def Let_def chunk_end_ms_def)
  have le: "offset \<le> u32_max" using w k o
    by (auto simp: clock_ok_def chunk_end_ms_def saturating_add_u32_def split: option.splits)
  then have "offset \<le> chunk_end_ms SESSION_AUDIO_SAMPLE_RATE ?c"
    by (simp add: chunk_end_ms_def saturating_add_u32_def)
  moreover have "(if cs = [] then 0 else snd (last (map (span_of SESSION_AUDIO_SAMPLE_RATE) cs))) \<le> offset"
    using k o by (auto simp: clock_ok_def last_map span_of_def split: option.splits)
  ultimately show ?thesis
    using k ss le e by (simp add: clock_ok_def spans_append span_of_def [of _ ?c])
qed

lemma walls_push:
  assumes w: "walls_ok now r cs" and n: "now \<le> now'" and e: "rc_first_push_at_ms r' = Some epoch" "epoch \<le> now'"
    and r: "rc_max_duration_ms r' = rc_max_duration_ms r" "rc_first_push_at_ms r = None \<or> rc_first_push_at_ms r = Some epoch"
    and acc: "now' - epoch < rc_max_duration_ms r \<or> now' - epoch = 0"
  shows "walls_ok now' r' cs" "walls_ok now' r' (cs @ [\<lparr>pk_offset_ms = off, pk_wall_offset_ms = now' - epoch, pk_mono = m\<rparr>])"
proof -
  show a: "walls_ok now' r' cs"
    using w e r unfolding walls_ok_def
    by (auto simp: list_all_iff dest!: bspec intro: order_trans [OF _ diff_le_mono [OF n]])
  show "walls_ok now' r' (cs @ [\<lparr>pk_offset_ms = off, pk_wall_offset_ms = now' - epoch, pk_mono = m\<rparr>])"
    using a acc r e unfolding walls_ok_def by (auto simp: list_all_iff sorted_append)
qed

lemma recorder_push:
  assumes ok: "recorder_ok now r" and n: "now \<le> now'" and m: "rc_max_duration_ms r \<le> u32_max"
  shows "recorder_ok now' (push_channel side now' b r)"
proof -
  have keep: "recorder_ok now' r"
  proof -
    have "walls_ok now' r cs" if "walls_ok now r cs" for cs
      using that n unfolding walls_ok_def
      by (auto simp: list_all_iff split: option.splits intro: order_trans [OF _ diff_le_mono [OF n]])
    then show ?thesis using ok by (simp add: recorder_ok_def)
  qed
  show ?thesis
  proof (cases "rc_closed r \<or> \<not> recorder_accepting now' r \<or> pcm_to_mono_s16 b = []")
    case True
    then show ?thesis using keep by (auto simp: push_channel_def Let_def)
  next
    case False
    let ?mono = "pcm_to_mono_s16 b"
    obtain epoch r1 where e: "ensure_epoch now' r = (epoch, r1)" by fastforce
    have r1: "rc_first_push_at_ms r1 = Some epoch" "rc_first_push_at_ms r = None \<or> rc_first_push_at_ms r = Some epoch"
        "rc_max_duration_ms r1 = rc_max_duration_ms r" "rc_outbound r1 = rc_outbound r" "rc_inbound r1 = rc_inbound r"
        "rc_outbound_clock r1 = rc_outbound_clock r" "rc_inbound_clock r1 = rc_inbound_clock r"
        "rc_outbound_frames r1 = rc_outbound_frames r" "rc_inbound_frames r1 = rc_inbound_frames r"
      using e by (auto simp: ensure_epoch_def Let_def split: if_splits option.splits)
    have ep: "epoch \<le> now'" "now' - epoch < rc_max_duration_ms r \<or> now' - epoch = 0"
      using e False ok n
      by (auto simp: ensure_epoch_def Let_def recorder_accepting_def recorder_ok_def walls_ok_def split: if_splits option.splits)
    then have w: "(now' - epoch) mod 2 ^ 32 = now' - epoch" "now' - epoch \<le> u32_max"
      using m by (auto simp: u32_max_def)
    obtain off clock where c: "resolve_media_clock_offset_ms (now' - epoch)
        (chunk_duration_ms_from_samples (length ?mono) SESSION_AUDIO_SAMPLE_RATE) now'
        (case side of ChOutbound \<Rightarrow> rc_outbound_clock r | ChInbound \<Rightarrow> rc_inbound_clock r) = (off, clock)" by fastforce
    let ?c = "\<lparr>pk_offset_ms = off, pk_wall_offset_ms = now' - epoch, pk_mono = ?mono\<rparr>"
    have p: "push_channel side now' b r = (case side of
        ChOutbound \<Rightarrow> r1\<lparr>rc_outbound_clock := Some clock, rc_outbound := rc_outbound r1 @ [?c],
          rc_outbound_frames := rc_outbound_frames r1 + 1\<rparr>
      | ChInbound \<Rightarrow> r1\<lparr>rc_inbound_clock := Some clock, rc_inbound := rc_inbound r1 @ [?c],
          rc_inbound_frames := rc_inbound_frames r1 + 1\<rparr>)"
      using False c by (cases side) (simp_all add: push_channel_def Let_def e w(1) [simplified] r1)
    have wk: "walls_ok now' r' cs" "walls_ok now' r' (cs @ [?c])"
      if "walls_ok now r cs" "rc_first_push_at_ms r' = Some epoch" "rc_max_duration_ms r' = rc_max_duration_ms r" for cs r'
      using walls_push [OF that(1) n that(2) ep(1) that(3) r1(2) ep(2)] by simp_all
    show ?thesis
    proof (cases side)
      case ChOutbound
      have "clock_ok (rc_outbound r @ [?c]) (Some clock)"
        by (rule clock_push [OF _ _ w(2)]) (use ok False c ChOutbound in \<open>simp_all add: recorder_ok_def\<close>)
      then show ?thesis using ok p ChOutbound wk r1 by (simp add: recorder_ok_def)
    next
      case ChInbound
      have "clock_ok (rc_inbound r @ [?c]) (Some clock)"
        by (rule clock_push [OF _ _ w(2)]) (use ok False c ChInbound in \<open>simp_all add: recorder_ok_def\<close>)
      then show ?thesis using ok p ChInbound wk r1 by (simp add: recorder_ok_def)
    qed
  qed
qed

lemma push_max [simp]: "rc_max_duration_ms (push_channel side now b r) = rc_max_duration_ms r"
  by (auto simp: push_channel_def ensure_epoch_def Let_def split: session_channel.split option.split prod.split)

lemma recorder_run_ok:
  "recorder_ok now r \<Longrightarrow> sorted (now # map (\<lambda>(side, n, b). n) pushes) \<Longrightarrow> rc_max_duration_ms r \<le> u32_max \<Longrightarrow>
   \<exists>now'. recorder_ok now' (recorder_run pushes r)"
proof (induction pushes arbitrary: now r)
  case (Cons x pushes)
  obtain side n b where x: "x = (side, n, b)" by (cases x) auto
  have "recorder_ok n (push_channel side n b r)"
    by (rule recorder_push) (use Cons.prems x in auto)
  then have "\<exists>now'. recorder_ok now' (recorder_run pushes (push_channel side n b r))"
    by (rule Cons.IH) (use Cons.prems x in auto)
  then show ?case by (simp add: recorder_run_def x)
qed (auto simp: recorder_run_def)

lemma recorder_new_ok: "recorder_ok now (recorder_new m)"
  by (simp add: recorder_ok_def recorder_new_def clock_ok_def walls_ok_def)

section \<open>Mixing\<close>

text \<open>
  \<open>f64\<close>: the quotient and the product are correctly rounded, so the truncated start frame of a
  millisecond is its exact frame or the one before (at 580 ms it is the one before).
\<close>

definition frames_near :: "'f float_ops \<Rightarrow> nat \<Rightarrow> bool" where
  "frames_near fl n \<longleftrightarrow>
     as_usize fl (ms_to_frames fl SESSION_AUDIO_SAMPLE_RATE n) \<le> 48 * n \<and>
     48 * n \<le> as_usize fl (ms_to_frames fl SESSION_AUDIO_SAMPLE_RATE n) + 1"

lemma paint_fold:
  "length (fold (\<lambda>(i, s) buf. buf[(start + i) * 2 + ch := s]) (enumerate k ss) buf) = length buf"
  by (induction ss arbitrary: k buf) simp_all

lemma paint_fold_nth:
  assumes "ch < 2" "ch' < 2" "f * 2 + ch' < length buf" "(start + k + length ss) * 2 \<le> length buf"
  shows "fold (\<lambda>(i, s) buf. buf[(start + i) * 2 + ch := s]) (enumerate k ss) buf ! (f * 2 + ch') =
    (if ch' = ch \<and> start + k \<le> f \<and> f < start + k + length ss then ss ! (f - start - k) else buf ! (f * 2 + ch'))"
  using assms(3,4)
proof (induction ss arbitrary: k buf)
  case (Cons s ss)
  let ?b = "buf[(start + k) * 2 + ch := s]"
  have e: "(start + k) * 2 + ch = f * 2 + ch' \<longleftrightarrow> start + k = f \<and> ch = ch'"
    using assms(1,2) by presburger
  have b: "?b ! (f * 2 + ch') = (if start + k = f \<and> ch' = ch then s else buf ! (f * 2 + ch'))"
    using Cons.prems(1) e by (auto simp: nth_list_update)
  have "fold (\<lambda>(i, s) buf. buf[(start + i) * 2 + ch := s]) (enumerate (Suc k) ss) ?b ! (f * 2 + ch') =
    (if ch' = ch \<and> start + Suc k \<le> f \<and> f < start + Suc k + length ss then ss ! (f - start - Suc k) else ?b ! (f * 2 + ch'))"
    by (rule Cons.IH) (use Cons.prems in simp_all)
  moreover have "(s # ss) ! (f - start - k) = ss ! (f - start - Suc k)" if "start + Suc k \<le> f"
    using that by (simp add: nth_Cons')
  ultimately show ?case using b by (auto simp: nth_Cons')
qed auto

lemma length_paint [simp]: "length (paint_chunk fl rate frames ch c buf) = length buf"
  unfolding paint_chunk_def Let_def by (rule paint_fold)

definition covers :: "'f float_ops \<Rightarrow> nat \<Rightarrow> nat \<Rightarrow> pcm_chunk \<Rightarrow> nat \<Rightarrow> bool" where
  "covers fl rate frames c f \<longleftrightarrow>
     start_frame fl rate frames c \<le> f \<and> f < start_frame fl rate frames c + length (pk_mono c)"

lemma paint_nth:
  assumes "ch < 2" "ch' < 2" "f < frames" "length buf = frames * 2"
  shows "paint_chunk fl rate frames ch c buf ! (f * 2 + ch') =
    (if ch' = ch \<and> covers fl rate frames c f then pk_mono c ! (f - start_frame fl rate frames c) else buf ! (f * 2 + ch'))"
proof -
  let ?s = "start_frame fl rate frames c"
  have "?s \<le> frames" by (simp add: start_frame_def)
  then show ?thesis
    using paint_fold_nth [OF assms(1,2), of f buf ?s 0 "take (frames - ?s) (pk_mono c)"] assms
    unfolding paint_chunk_def Let_def covers_def by auto
qed

lemma length_paints [simp]: "length (fold (paint_chunk fl rate frames ch) cs buf) = length buf"
  by (induction cs arbitrary: buf) simp_all

lemma paints_other:
  assumes "ch < 2" "ch' < 2" "f < frames" "length buf = frames * 2"
    and "\<And>c. c \<in> set cs \<Longrightarrow> ch' = ch \<Longrightarrow> \<not> covers fl rate frames c f"
  shows "fold (paint_chunk fl rate frames ch) cs buf ! (f * 2 + ch') = buf ! (f * 2 + ch')"
  using assms(4,5)
proof (induction cs arbitrary: buf)
  case (Cons c cs)
  have "fold (paint_chunk fl rate frames ch) cs (paint_chunk fl rate frames ch c buf) ! (f * 2 + ch') =
      paint_chunk fl rate frames ch c buf ! (f * 2 + ch')"
    by (rule Cons.IH) (use Cons.prems in auto)
  then show ?case using paint_nth [OF assms(1-3) Cons.prems(1), of fl rate c] Cons.prems(2) by auto
qed simp

text \<open>A whole-millisecond chunk keeps every sample but perhaps its last, whatever is painted after it.\<close>

definition whole_ms :: "pcm_chunk \<Rightarrow> bool" where
  "whole_ms c \<longleftrightarrow> length (pk_mono c) mod 48 = 0 \<and> length (pk_mono c) < 48 * 2 ^ 32"

lemma whole_ms_end:
  assumes "whole_ms c" "chunk_end_ms SESSION_AUDIO_SAMPLE_RATE c < u32_max"
  shows "48 * chunk_end_ms SESSION_AUDIO_SAMPLE_RATE c = 48 * pk_offset_ms c + length (pk_mono c)"
proof -
  obtain n where n: "length (pk_mono c) = 48 * n" "n < 2 ^ 32"
    using assms(1) by (auto simp: whole_ms_def elim!: dvdE [OF mod_0_imp_dvd])
  have "chunk_duration_ms_from_samples (length (pk_mono c)) SESSION_AUDIO_SAMPLE_RATE = n"
    using n by (simp add: chunk_duration_ms_from_samples_def SESSION_AUDIO_SAMPLE_RATE_def)
  then have "chunk_end_ms SESSION_AUDIO_SAMPLE_RATE c = pk_offset_ms c + n"
    using saturating_exact [OF assms(2) [unfolded chunk_end_ms_def]] by (simp add: chunk_end_ms_def)
  then show ?thesis using n(1) by simp
qed

lemma paints_keep:
  assumes cs: "cs = pre @ c # post" "spans_in_order p (map (span_of SESSION_AUDIO_SAMPLE_RATE) cs)"
    and c: "whole_ms c" "chunk_end_ms SESSION_AUDIO_SAMPLE_RATE c < u32_max"
    and near: "list_all (\<lambda>c. frames_near fl (pk_offset_ms c)) cs"
    and i: "i + 1 < length (pk_mono c)" "start_frame fl SESSION_AUDIO_SAMPLE_RATE frames c + i < frames"
    and b: "ch < 2" "length buf = frames * 2"
  shows "fold (paint_chunk fl SESSION_AUDIO_SAMPLE_RATE frames ch) cs buf !
      ((start_frame fl SESSION_AUDIO_SAMPLE_RATE frames c + i) * 2 + ch) = pk_mono c ! i"
proof -
  let ?rate = SESSION_AUDIO_SAMPLE_RATE
  let ?s = "start_frame fl ?rate frames c"
  let ?pre = "fold (paint_chunk fl ?rate frames ch) pre buf"
  have s: "?s \<le> 48 * pk_offset_ms c" using near cs(1) by (auto simp: start_frame_def frames_near_def min.coboundedI1)
  have later: "\<not> covers fl ?rate frames d (?s + i)" if d: "d \<in> set post" for d
  proof -
    have "spans_in_order (chunk_end_ms ?rate c) (map (span_of ?rate) post)"
      using cs by (simp add: spans_append span_of_def [of _ c])
    then have "chunk_end_ms ?rate c \<le> pk_offset_ms d"
      using spans_ends [of _ _ "pk_offset_ms d" "chunk_end_ms ?rate d"] d by (force simp: span_of_def)
    then have "48 * pk_offset_ms c + length (pk_mono c) \<le> 48 * pk_offset_ms d"
      using whole_ms_end [OF c] by simp
    moreover have "48 * pk_offset_ms d \<le> as_usize fl (ms_to_frames fl ?rate (pk_offset_ms d)) + 1"
      using near d cs(1) by (auto simp: list_all_iff frames_near_def)
    ultimately have "?s + i < as_usize fl (ms_to_frames fl ?rate (pk_offset_ms d))" using s i(1) by linarith
    then have "?s + i < start_frame fl ?rate frames d" using i(2) by (simp add: start_frame_def)
    then show ?thesis by (simp add: covers_def)
  qed
  have "fold (paint_chunk fl ?rate frames ch) post (paint_chunk fl ?rate frames ch c ?pre) ! ((?s + i) * 2 + ch) =
      paint_chunk fl ?rate frames ch c ?pre ! ((?s + i) * 2 + ch)"
    by (rule paints_other) (use b i later in auto)
  also have "\<dots> = pk_mono c ! i"
    using paint_nth [of ch ch "?s + i" frames ?pre fl ?rate c] b i by (simp add: covers_def)
  finally show ?thesis by (simp add: cs(1))
qed

section \<open>The whole recording\<close>

definition column :: "session_channel \<Rightarrow> nat" where
  "column ch = (case ch of ChOutbound \<Rightarrow> 0 | ChInbound \<Rightarrow> 1)"

text \<open>Sample \<open>i\<close> of a placed chunk is in the mixed buffer, unless it is the last one or cut off.\<close>

definition played_at :: "'f float_ops \<Rightarrow> bytes \<Rightarrow> session_channel \<Rightarrow> pcm_chunk \<Rightarrow> nat \<Rightarrow> bool" where
  "played_at fl b ch c i \<longleftrightarrow>
     (let start = start_frame fl SESSION_AUDIO_SAMPLE_RATE (length b div 4) c
      in i + 1 < length (pk_mono c) \<and> start + i < length b div 4 \<longrightarrow>
         samples_of b ! ((start + i) * 2 + column ch) = pk_mono c ! i)"

lemma turns_spans: "spans_in_order 0 (map (span_of rate) (map snd placed)) \<Longrightarrow> spans_in_order 0 (map (span_of rate) (turns_of ch placed))"
  using spans_filter [of 0 "\<lambda>x. span_of rate (snd x)" placed "\<lambda>x. fst x = ch"] by (simp add: turns_of_def comp_def)

lemma mix_keeps:
  assumes mix: "mix_stereo_timeline fl SESSION_AUDIO_SAMPLE_RATE m out inb = (b, d)"
    and o: "out = turns_of ChOutbound placed" "inb = turns_of ChInbound placed"
    and sp: "spans_in_order 0 (map (span_of SESSION_AUDIO_SAMPLE_RATE) (map snd placed))"
    and c: "(ch, c) \<in> set placed" "whole_ms c" "chunk_end_ms SESSION_AUDIO_SAMPLE_RATE c < u32_max"
    and near: "list_all (\<lambda>c. frames_near fl (pk_offset_ms c)) (out @ inb)"
  shows "played_at fl b ch c i"
proof -
  let ?rate = SESSION_AUDIO_SAMPLE_RATE
  define frames where "frames = max 1 (as_usize fl (fl_ceil fl (ms_to_frames fl ?rate d)))"
  let ?b0 = "replicate (frames * 2) (0 :: sample)"
  let ?b1 = "fold (paint_chunk fl ?rate frames 0) out ?b0"
  let ?b2 = "fold (paint_chunk fl ?rate frames 1) inb ?b1"
  have b: "b = i16_samples_to_bytes ?b2" using mix by (auto simp: mix_stereo_timeline_def Let_def frames_def)
  have len: "length b div 4 = frames" by (simp add: b)
  have mem: "c \<in> set (turns_of ch placed)" using c(1) by (force simp: turns_of_def)
  then obtain pre post where split: "turns_of ch placed = pre @ c # post" by (meson split_list)
  have near': "list_all (\<lambda>c. frames_near fl (pk_offset_ms c)) (turns_of ch placed)"
    using near o by (cases ch) auto
  have keep: "fold (paint_chunk fl ?rate frames k) (turns_of ch placed) buf ! ((start_frame fl ?rate frames c + i) * 2 + k) = pk_mono c ! i"
    if "i + 1 < length (pk_mono c)" "start_frame fl ?rate frames c + i < frames" "k < 2" "length buf = frames * 2" for k buf
    by (rule paints_keep [OF split turns_spans [OF sp] c(2,3) near' that(1,2,3,4)])
  have "?b2 ! ((start_frame fl ?rate frames c + i) * 2 + column ch) = pk_mono c ! i"
    if i: "i + 1 < length (pk_mono c)" "start_frame fl ?rate frames c + i < frames"
  proof (cases ch)
    case ChOutbound
    have "?b2 ! ((start_frame fl ?rate frames c + i) * 2 + 0) = ?b1 ! ((start_frame fl ?rate frames c + i) * 2 + 0)"
      by (rule paints_other) (use i in simp_all)
    then show ?thesis using keep [OF i, of 0 ?b0] o(1) ChOutbound by (simp add: column_def)
  next
    case ChInbound
    then show ?thesis using keep [OF i, of 1 ?b1] o(2) by (simp add: column_def)
  qed
  then show ?thesis by (simp add: played_at_def Let_def len b samples_roundtrip)
qed


text \<open>Exact arithmetic on the rationals, to evaluate the recorder on.\<close>

definition rat_ops :: "rat float_ops" where
  "rat_ops = \<lparr>fl_of_int = of_int, fl_ratio = (\<lambda>a b. of_int a / of_int b), fl_add = (+), fl_sub = (-),
     fl_mul = (*), fl_div = (/), fl_lt = (<), fl_le = (\<le>), fl_eq = (=),
     fl_is_nan = (\<lambda>_. False), fl_neg = uminus, fl_abs = abs, fl_sqrt = (\<lambda>x. x),
     fl_sin = (\<lambda>_. 0), fl_cos = (\<lambda>_. 1), fl_atan2 = (\<lambda>_ _. 0), fl_log10 = (\<lambda>x. x), fl_ceil = (\<lambda>x. of_int \<lceil>x\<rceil>),
     fl_round = (\<lambda>x. of_int (round x)), fl_pi = 3, fl_epsilon = 0, fl_neg_inf = - 1000000,
     fl_to_int = (\<lambda>x. if 0 \<le> x then \<lfloor>x\<rfloor> else \<lceil>x\<rceil>),
     fl_of_bits = (\<lambda>b. of_int (sint b)), fl_max = max, fl_nan = 0, fl_total_le = (\<le>)\<rparr>"

definition demo_pushes :: "(session_channel \<times> nat \<times> bytes) list" where
  "demo_pushes = [(ChInbound, 1000, replicate 192 1), (ChOutbound, 1000, replicate 192 2),
     (ChOutbound, 1010, replicate 192 0), (ChInbound, 1400, replicate 192 3)]"

definition demo_recorder :: session_recorder where
  "demo_recorder = recorder_run demo_pushes (recorder_new (Some 5000))"

lemma downmix_replicate: "downmix (replicate (2 * n) s) = replicate n (word_of_int (rust_div (2 * sint s) 2))"
  by (induction n) simp_all

lemma samples_replicate: "samples_of (replicate (2 * n) b) = replicate n (i16_from_le b b)"
  by (induction n) (simp_all add: samples_of_def)

lemma demo_mono: "pcm_to_mono_s16 (replicate 192 b) = replicate 48 (word_of_int (rust_div (2 * sint (i16_from_le b b)) 2))"
  using samples_replicate [of 96 b] downmix_replicate [of 48 "i16_from_le b b"] by (simp add: pcm_to_mono_s16_def)

lemma demo_samples: "word_of_int (rust_div (2 * sint (i16_from_le b b)) 2) = (if b = 0 then 0 else 257 * (ucast b :: sample))"
  if "b = 0 \<or> b = 1 \<or> b = 2 \<or> b = 3"
proof -
  have "i16_from_le 0 0 = 0" "i16_from_le 1 1 = 257" "i16_from_le 2 2 = 514" "i16_from_le 3 3 = 771" by code_simp+
  then show ?thesis using that by (auto simp: rust_div_def)
qed

lemma silent_zeros: "is_nearly_silent_mono 200 (replicate n 0) = Some True"
  by (induction n) simp_all

lemma loud_replicate: "0 < n \<Longrightarrow> 200 \<le> sint s \<Longrightarrow> is_nearly_silent_mono 200 (replicate n s) = Some False"
  by (cases n) auto

definition demo_chunk :: "nat \<Rightarrow> nat \<Rightarrow> sample \<Rightarrow> pcm_chunk" where
  "demo_chunk off wall s = \<lparr>pk_offset_ms = off, pk_wall_offset_ms = wall, pk_mono = replicate 48 s\<rparr>"

lemma demo_recorder_chunks:
  "rc_outbound demo_recorder = [demo_chunk 0 0 514, demo_chunk 1 10 0]"
  "rc_inbound demo_recorder = [demo_chunk 0 0 257, demo_chunk 1 400 771]"
  "rc_outbound_frames demo_recorder = 2" "rc_max_duration_ms demo_recorder = 5000"
  by (simp_all add: demo_recorder_def recorder_run_def demo_pushes_def push_channel_def Let_def demo_mono demo_samples
      recorder_accepting_def recorder_new_def ensure_epoch_def resolve_media_clock_offset_ms_def demo_chunk_def
      chunk_duration_ms_from_samples_def SESSION_AUDIO_SAMPLE_RATE_def saturating_add_u32_def u32_max_def)

lemma demo_loud:
  "is_nearly_silent_mono 200 (replicate 48 257) = Some False" "is_nearly_silent_mono 200 (replicate 48 514) = Some False"
  "is_nearly_silent_mono 200 (replicate 48 771) = Some False"
  by (simp_all add: loud_replicate)

lemma demo_dur: "chunk_duration_ms_from_samples 48 48000 = 1"
  by (simp add: chunk_duration_ms_from_samples_def)

lemma demo_serialized:
  "serialize_speech_turns_by_wall_time SESSION_AUDIO_SAMPLE_RATE DEFAULT_PEAK_THRESHOLD
     (rc_outbound demo_recorder) (rc_inbound demo_recorder) =
   Some ([demo_chunk 1 0 514], [demo_chunk 0 0 257, demo_chunk 401 400 771])"
  unfolding demo_recorder_chunks demo_chunk_def
  by (simp add: serialize_speech_turns_by_wall_time_def collect_speech_runs_def scan_chunk_def Let_def
      SESSION_AUDIO_SAMPLE_RATE_def DEFAULT_PEAK_THRESHOLD_def demo_loud silent_zeros demo_dur SPEECH_RUN_MERGE_GAP_MS_def
      saturating_add_u32_def u32_max_def run_order_def place_run_def speech_run_media_duration_ms_def place_chunk_def
      chunk_end_ms_def)

lemma rat_frames: "frames_near rat_ops n" if "n < 1000000"
proof -
  have "48 * rat_of_nat n = of_int (48 * int n)" by simp
  then have "\<lfloor>48 * rat_of_nat n\<rfloor> = 48 * int n" by (simp only: floor_of_int)
  then have "as_usize rat_ops (ms_to_frames rat_ops SESSION_AUDIO_SAMPLE_RATE n) = 48 * n"
    using that by (simp add: as_usize_def ms_to_frames_def rat_ops_def SESSION_AUDIO_SAMPLE_RATE_def clamp_def)
  then show ?thesis by (simp add: frames_near_def)
qed


section \<open>The start frame in binary64\<close>

text \<open>
  Non-negative binary64 values as mantissa and exponent, rounded to nearest, ties to even, with 53
  significant bits: the three operations that \<open>ms_to_frames\<close> uses and the truncating cast.
\<close>

fun bit_count :: "nat \<Rightarrow> nat" where
  "bit_count n = (if n = 0 then 0 else Suc (bit_count (n div 2)))"

declare bit_count.simps [simp del]

definition round_half_even :: "nat \<Rightarrow> nat \<Rightarrow> nat" where
  "round_half_even num den =
     (let n = num div den; r = 2 * (num mod den)
      in if r < den \<or> (r = den \<and> even n) then n else n + 1)"

definition f64_quotient :: "nat \<Rightarrow> nat \<Rightarrow> int \<Rightarrow> nat \<times> int" where
  "f64_quotient p q e =
     (if p = 0 \<or> q = 0 then (0, 0)
      else
        (let k = 53 + int (bit_count q) - int (bit_count p);
             num = (if 0 \<le> k then p * 2 ^ nat k else p);
             den = (if 0 \<le> k then q else q * 2 ^ nat (- k))
         in if num div den < 2 ^ 53 then (round_half_even num den, e - k)
            else (round_half_even num (2 * den), e - k + 1)))"

definition f64_value :: "nat \<times> int \<Rightarrow> int" where
  "f64_value x = (if 0 \<le> snd x then int (fst x) * 2 ^ nat (snd x) else int (fst x) div 2 ^ nat (- snd x))"

definition f64_ops :: "(nat \<times> int) float_ops" where
  "f64_ops = \<lparr>fl_of_int = (\<lambda>n. (nat n, 0)), fl_ratio = (\<lambda>a b. f64_quotient (nat a) (nat b) 0),
     fl_add = (\<lambda>x y. x), fl_sub = (\<lambda>x y. x),
     fl_mul = (\<lambda>x y. f64_quotient (fst x * fst y) 1 (snd x + snd y)),
     fl_div = (\<lambda>x y. f64_quotient (fst x) (fst y) (snd x - snd y)),
     fl_lt = (\<lambda>x y. f64_value x < f64_value y), fl_le = (\<lambda>x y. f64_value x \<le> f64_value y), fl_eq = (=),
     fl_is_nan = (\<lambda>_. False), fl_neg = (\<lambda>x. x), fl_abs = (\<lambda>x. x), fl_sqrt = (\<lambda>x. x),
     fl_sin = (\<lambda>_. (0, 0)), fl_cos = (\<lambda>_. (1, 0)), fl_atan2 = (\<lambda>_ _. (0, 0)), fl_log10 = (\<lambda>x. x), fl_ceil = (\<lambda>x. x),
     fl_round = (\<lambda>x. x), fl_pi = (3, 0), fl_epsilon = (0, 0), fl_neg_inf = (0, 0), fl_to_int = f64_value,
     fl_of_bits = (\<lambda>b. (unat b, 0)), fl_max = (\<lambda>x y. x), fl_nan = (0, 0),
     fl_total_le = (\<lambda>x y. f64_value x \<le> f64_value y)\<rparr>"

lemma bit_count_demo:
  "bit_count 560 = 10" "bit_count 580 = 10" "bit_count 1000 = 10" "bit_count (Suc 0) = 1"
  by (simp_all add: bit_count.simps)

text \<open>At 560 ms the start frame is exact, at 580 ms one frame early: the chunk there overwrites the last sample
  of the one before.\<close>

lemma f64_ms:
  "ms_to_frames f64_ops 48000 n = f64_quotient (fst (f64_quotient n 1000 0) * 48000) 1 (snd (f64_quotient n 1000 0))"
  by (simp add: ms_to_frames_def f64_ops_def)

lemma f64_divided:
  "f64_quotient 560 1000 0 = (5044031582654956, -53)" "f64_quotient 580 1000 0 = (5224175567749775, -53)"
  by (simp_all add: f64_quotient_def bit_count_demo round_half_even_def)

lemma bit_count_scaled: "bit_count 242113515967437888000 = 68" "bit_count 250760427251989200000 = 68"
  by (simp_all add: bit_count.simps)

lemma start_frame_one_early:
  "as_usize f64_ops (ms_to_frames f64_ops SESSION_AUDIO_SAMPLE_RATE 560) = 48 * 560"
  "as_usize f64_ops (ms_to_frames f64_ops SESSION_AUDIO_SAMPLE_RATE 580) = 48 * 580 - 1"
proof -
  have "f64_quotient 242113515967437888000 1 (- 53) = (7388718138654721, -38)" "f64_quotient 250760427251989200000 1 (- 53) = (7652600929320959, -38)"
    by (simp_all add: f64_quotient_def bit_count_scaled bit_count_demo round_half_even_def)
  then show "as_usize f64_ops (ms_to_frames f64_ops SESSION_AUDIO_SAMPLE_RATE 560) = 48 * 560"
    "as_usize f64_ops (ms_to_frames f64_ops SESSION_AUDIO_SAMPLE_RATE 580) = 48 * 580 - 1"
    unfolding SESSION_AUDIO_SAMPLE_RATE_def f64_ms
    by (simp_all add: f64_divided as_usize_def f64_ops_def f64_value_def clamp_def)
qed

section \<open>The panic, the end and the export\<close>

lemma scan_chunks_none:
  "scan_chunks channel rate threshold gap cs s = None \<longleftrightarrow>
     list_ex (\<lambda>c. is_nearly_silent_mono threshold (pk_mono c) = None) cs"
proof (induction cs arbitrary: s)
  case (Cons c cs)
  have "scan_chunk channel rate threshold gap s c = None \<longleftrightarrow> is_nearly_silent_mono threshold (pk_mono c) = None"
    by (cases "is_nearly_silent_mono threshold (pk_mono c)") (auto simp: scan_chunk_def Let_def)
  then show ?case
    using Cons.IH by (cases "scan_chunk channel rate threshold gap s c") auto
qed simp

lemma place_runs_some:
  "list_all (\<lambda>r. sr_chunks r \<noteq> []) runs \<Longrightarrow> place_runs rate runs t \<noteq> None"
proof (induction runs arbitrary: t)
  case (Cons r runs)
  obtain d where "speech_run_media_duration_ms rate r = Some d"
    using Cons.prems by (cases "sr_chunks r") (auto simp: speech_run_media_duration_ms_def Let_def)
  then obtain u where "place_run rate r t = Some u" by (simp add: place_run_def Let_def)
  then show ?case using Cons by simp
qed simp

lemma serialize_none:
  "serialize_speech_turns_by_wall_time rate threshold out inb = None \<longleftrightarrow>
     list_ex (\<lambda>c. is_nearly_silent_mono threshold (pk_mono c) = None) (out @ inb)"
proof -
  let ?bad = "list_ex (\<lambda>c. is_nearly_silent_mono threshold (pk_mono c) = None)"
  let ?o = "collect_speech_runs ChOutbound rate threshold SPEECH_RUN_MERGE_GAP_MS out"
  let ?i = "collect_speech_runs ChInbound rate threshold SPEECH_RUN_MERGE_GAP_MS inb"
  have c: "?o = None \<longleftrightarrow> ?bad out" "?i = None \<longleftrightarrow> ?bad inb"
    by (simp_all add: collect_speech_runs_def scan_chunks_none)
  show ?thesis
  proof (cases "?bad (out @ inb)")
    case False
    then obtain ro ri where r: "?o = Some ro" "?i = Some ri" using c by auto
    have "place_runs rate (sort_key run_order (ro @ ri)) t \<noteq> None" for t
      using collect_runs [OF r(1)] collect_runs [OF r(2)]
      by (intro place_runs_some) (auto simp: list_all_iff run_ok_def)
    then show ?thesis using r False by (simp add: serialize_speech_turns_by_wall_time_def)
  next
    case True
    then show ?thesis using c by (cases ?o) (auto simp: serialize_speech_turns_by_wall_time_def)
  qed
qed

text \<open>A build panics exactly when a stored chunk holds the least sample before any loud one.\<close>

lemma recorder_build_panics:
  "recorder_build fl r = None \<longleftrightarrow> (rc_outbound_frames r \<noteq> 0 \<or> rc_inbound_frames r \<noteq> 0) \<and>
     list_ex (\<lambda>c. is_nearly_silent_mono DEFAULT_PEAK_THRESHOLD (pk_mono c) = None) (rc_outbound r @ rc_inbound r)"
  by (simp add: recorder_build_def serialize_none)

lemma clipped_frame_panics:
  "recorder_build fl (recorder_run [(ChOutbound, 0, concat (replicate 96 [0, 128]))] (recorder_new None)) = None"
proof -
  have m: "pcm_to_mono_s16 (concat (replicate 96 [0, 128])) = replicate 48 (- 32768)" by code_simp
  have "is_nearly_silent_mono 200 (replicate 48 (- 32768)) = None"
    by (simp add: numeral_eq_Suc)
  then show ?thesis
    unfolding recorder_build_panics
    by (simp add: recorder_run_def push_channel_def Let_def m recorder_accepting_def recorder_new_def ensure_epoch_def
        resolve_media_clock_offset_ms_def DEFAULT_PEAK_THRESHOLD_def)
qed

lemma finalize_closes:
  "recorder_finalize fl oe format r = Some (res, r') \<Longrightarrow> rc_closed r' \<and>
   recorder_finalize fl oe format' r' = Some (Inl RecClosed, r') \<and> push_channel side now b r' = r'"
  by (auto simp: recorder_finalize_def push_channel_def Let_def map_option_case
      split: if_splits bind_splits sum.splits session_audio_format.splits option.splits)

lemma wav_export_mono: "encode_pcm16le_wav b 16000 1 = mono16_le_to_wav b"
  by (simp add: encode_pcm16le_wav_def mono16_le_to_wav_def Let_def STT_PCM_SAMPLE_RATE_def add.commute)

text \<open>The Ogg timeline: one page per packet, granules 960 samples apart from the pre-skip, one end of stream.\<close>

lemma ogg_timeline:
  "granule + 960 * length packets < 2 ^ 64 \<Longrightarrow>
   map og_granule (ogg_audio_packets packets granule) = map (\<lambda>i. granule + 960 * (i + 1)) [0..<length packets] \<and>
   map og_data (ogg_audio_packets packets granule) = packets \<and>
   map og_end (ogg_audio_packets packets granule) =
     replicate (length packets - 1) EndPage @ (if packets = [] then [] else [EndStream])"
proof (induction packets arbitrary: granule)
  case (Cons p ps)
  have "granule + 960 + 960 * length ps < 2 ^ 64" using Cons.prems by simp
  note ih = Cons.IH [OF this]
  have g: "min (2 ^ 64 - 1) (granule + OPUS_FRAME_SAMPLES_PER_CHANNEL) = granule + 960"
    using Cons.prems by (simp add: OPUS_FRAME_SAMPLES_PER_CHANNEL_def)
  have u: "[0..<length (p # ps)] = 0 # map Suc [0..<length ps]"
    by (simp add: upt_conv_Cons map_Suc_upt del: upt_Suc)
  show ?case
    unfolding ogg_audio_packets.simps Let_def g u using ih by (cases ps) (simp_all add: comp_def)
qed simp

lemma opus_frames_join:
  "\<exists>pad. concat (opus_frames ss) = ss @ replicate pad 0 \<and> pad < 1920 \<and> list_all (\<lambda>f. length f = 1920) (opus_frames ss)"
proof (induction ss rule: opus_frames.induct)
  case (1 ss)
  show ?case
  proof (cases "ss = []")
    case False
    have n: "OPUS_FRAME_SAMPLES_PER_CHANNEL * SESSION_AUDIO_CHANNELS = 1920"
      by (simp add: OPUS_FRAME_SAMPLES_PER_CHANNEL_def SESSION_AUDIO_CHANNELS_def)
    obtain pad where ih: "concat (opus_frames (drop 1920 ss)) = drop 1920 ss @ replicate pad 0" "pad < 1920"
        "list_all (\<lambda>f. length f = 1920) (opus_frames (drop 1920 ss))"
      using 1 [OF False refl refl] n by auto
    have e: "opus_frames ss = (take 1920 ss @ replicate (1920 - length (take 1920 ss)) 0) # opus_frames (drop 1920 ss)"
      by (subst opus_frames.simps) (simp add: False n Let_def)
    show ?thesis
    proof (cases "1920 < length ss")
      case True
      then show ?thesis using ih e by (intro exI [of _ pad]) (simp add: append_take_drop_id [symmetric])
    next
      case short: False
      then have "opus_frames (drop 1920 ss) = []" by (subst opus_frames.simps) simp
      then show ?thesis using e short False by (intro exI [of _ "1920 - length ss"]) simp
    qed
  qed (simp add: opus_frames.simps)
qed

end
