(* ===== verification/Denoise.thy ===== *)
theory Denoise
  imports Pcm
begin

text \<open>
  \<open>crates/denoise/src/lib.rs\<close>: the stereo 48 kHz noise suppressor around RNNoise.  The network
  (\<open>nnnoiseless::DenoiseState\<close>) is third-party and an argument; \<open>fs\<close> is \<open>f32\<close>, \<open>fd\<close> is \<open>f64\<close>.
  The lemmas show that the cuts of the input never show in the output and how long the output is.
\<close>

section \<open>The suppressor\<close>

definition RNN_FRAME_SIZE :: nat where "RNN_FRAME_SIZE = 480"
definition STEREO_20MS_BYTES :: nat where "STEREO_20MS_BYTES = 3840"
definition STEREO_10MS_BYTES :: nat where "STEREO_10MS_BYTES = STEREO_20MS_BYTES div 2"

record ('n, 'f) rnnoise =
  rn_new :: 'n
  rn_process_frame :: "'n \<Rightarrow> 'f list \<Rightarrow> 'f list \<times> 'n"

text \<open>What the crate documents of \<open>process_frame\<close>: a frame of 480 samples gives 480 samples.\<close>

definition rnnoise_ok :: "('n, 'f) rnnoise \<Rightarrow> bool" where
  "rnnoise_ok lib \<longleftrightarrow> (\<forall>st chunk. length chunk = RNN_FRAME_SIZE \<longrightarrow>
     length (fst (rn_process_frame lib st chunk)) = RNN_FRAME_SIZE)"

record ('n, 'f) denoiser =
  dn_denoise :: 'n
  dn_remainder :: "'f list"
  dn_out_buf :: "'f list"

definition denoiser_new :: "('n, 'f) rnnoise \<Rightarrow> 'f float_ops \<Rightarrow> ('n, 'f) denoiser" where
  "denoiser_new lib fs =
     (let silence = replicate RNN_FRAME_SIZE (fl_of_int fs 0);
          (_, denoise) = rn_process_frame lib (rn_new lib) silence
      in \<lparr>dn_denoise = denoise, dn_remainder = [], dn_out_buf = replicate RNN_FRAME_SIZE (fl_of_int fs 0)\<rparr>)"

definition downmix_stereo_s16le_to_mono_f32 :: "'f float_ops \<Rightarrow> bytes \<Rightarrow> 'f list" where
  "downmix_stereo_s16le_to_mono_f32 fs pcm =
     map (\<lambda>(left, right). fl_mul fs (fl_add fs (fl_of_int fs (sint left)) (fl_of_int fs (sint right)))
            (fl_ratio fs 1 2)) (pairs (samples_of pcm))"

definition stereo_s16le_from_mono_f32 :: "'f float_ops \<Rightarrow> 'f list \<Rightarrow> bytes" where
  "stereo_s16le_from_mono_f32 fs samples =
     concat (map (\<lambda>s.
       (let b = i16_to_le (as_i16 fs (fl_clamp fs (fl_of_int fs (- 32768)) (fl_of_int fs 32767) s))
        in b @ b)) samples)"

text \<open>The \<open>while\<close> loop over whole RNNoise frames; the samples it produced and the new state.\<close>

function denoise_frames ::
  "('n, 'f) rnnoise \<Rightarrow> ('n, 'f) denoiser \<Rightarrow> 'f list \<times> ('n, 'f) denoiser" where
  "denoise_frames lib d =
     (if RNN_FRAME_SIZE \<le> length (dn_remainder d) then
        (let chunk = take RNN_FRAME_SIZE (dn_remainder d);
             (out, st) = rn_process_frame lib (dn_denoise d) chunk;
             (rest, d') = denoise_frames lib
               (d\<lparr>dn_denoise := st, dn_remainder := drop RNN_FRAME_SIZE (dn_remainder d), dn_out_buf := out\<rparr>)
         in (out @ rest, d'))
      else ([], d))"
  by pat_completeness auto
termination
  by (relation "measure (\<lambda>(_, d). length (dn_remainder d))") (auto simp: RNN_FRAME_SIZE_def)

declare denoise_frames.simps [simp del]

definition process_s16le_stereo ::
  "('n, 'f) rnnoise \<Rightarrow> 'f float_ops \<Rightarrow> bytes \<Rightarrow> ('n, 'f) denoiser \<Rightarrow> bytes \<times> ('n, 'f) denoiser" where
  "process_s16le_stereo lib fs pcm d =
     (if pcm = [] then ([], d)
      else
        (let mono_in = downmix_stereo_s16le_to_mono_f32 fs pcm;
             (mono_out, d) = denoise_frames lib (d\<lparr>dn_remainder := dn_remainder d @ mono_in\<rparr>)
         in (stereo_s16le_from_mono_f32 fs mono_out, d)))"

text \<open>\<open>stereo_pcm_rms\<close>, in \<open>f64\<close> (the final narrowing to \<open>f32\<close> is the caller's).\<close>

definition stereo_pcm_rms :: "'d float_ops \<Rightarrow> bytes \<Rightarrow> 'd" where
  "stereo_pcm_rms fd pcm =
     (let chunks = pairs (samples_of pcm);
          square = (\<lambda>s. (let x = fl_div fd (fl_of_int fd (sint s)) (fl_of_int fd 32767) in fl_mul fd x x));
          sum_sq = fold (\<lambda>(l, r) acc. fl_add fd (fl_add fd acc (square l)) (square r)) chunks (fl_of_int fd 0);
          count = 2 * length chunks
      in if length pcm < 4 then fl_of_int fd 0
         else fl_sqrt fd (fl_div fd sum_sq (fl_of_int fd (int count))))"

section \<open>The loop\<close>

lemma denoise_frames_short: "length (dn_remainder d) < RNN_FRAME_SIZE \<Longrightarrow> denoise_frames lib d = ([], d)"
  by (simp add: denoise_frames.simps)

definition next_frame :: "('n, 'f) rnnoise \<Rightarrow> ('n, 'f) denoiser \<Rightarrow> 'f list \<times> ('n, 'f) denoiser" where
  "next_frame lib d =
     (let (out, st) = rn_process_frame lib (dn_denoise d) (take RNN_FRAME_SIZE (dn_remainder d))
      in (out, \<lparr>dn_denoise = st, dn_remainder = drop RNN_FRAME_SIZE (dn_remainder d), dn_out_buf = out\<rparr>))"

lemma denoise_frames_step:
  assumes "RNN_FRAME_SIZE \<le> length (dn_remainder d)"
  shows "denoise_frames lib d =
    (fst (next_frame lib d) @ fst (denoise_frames lib (snd (next_frame lib d))),
     snd (denoise_frames lib (snd (next_frame lib d))))"
  using assms by (subst denoise_frames.simps) (cases d, simp add: next_frame_def Let_def split: prod.split)

lemma next_frame_remainder [simp]:
  "dn_remainder (snd (next_frame lib d)) = drop RNN_FRAME_SIZE (dn_remainder d)"
  by (simp add: next_frame_def Let_def split: prod.split)

lemma next_frame_more:
  assumes "RNN_FRAME_SIZE \<le> length (dn_remainder d)"
  shows "next_frame lib (d\<lparr>dn_remainder := dn_remainder d @ xs\<rparr>) =
    (let (out, d') = next_frame lib d in (out, d'\<lparr>dn_remainder := dn_remainder d' @ xs\<rparr>))"
  using assms by (simp add: next_frame_def Let_def split: prod.split)

lemma next_frame_length:
  "rnnoise_ok lib \<Longrightarrow> RNN_FRAME_SIZE \<le> length (dn_remainder d) \<Longrightarrow>
   length (fst (next_frame lib d)) = RNN_FRAME_SIZE"
  by (auto simp: next_frame_def rnnoise_ok_def Let_def split: prod.split)
    (metis fst_conv length_take min.absorb2)

lemma denoise_induct [case_names short frame]:
  assumes "\<And>d. length (dn_remainder d) < RNN_FRAME_SIZE \<Longrightarrow> P d"
    and "\<And>d. RNN_FRAME_SIZE \<le> length (dn_remainder d) \<Longrightarrow> P (snd (next_frame lib d)) \<Longrightarrow> P d"
  shows "P d"
proof (induction "length (dn_remainder d)" arbitrary: d rule: less_induct)
  case less
  show ?case
  proof (cases "RNN_FRAME_SIZE \<le> length (dn_remainder d)")
    case True
    then have "length (dn_remainder (snd (next_frame lib d))) < length (dn_remainder d)"
      by (simp add: RNN_FRAME_SIZE_def)
    then show ?thesis using less assms(2) [OF True] by blast
  qed (use assms(1) in simp)
qed

lemma denoise_frames_remainder: "length (dn_remainder (snd (denoise_frames lib d))) < RNN_FRAME_SIZE"
  by (induction d rule: denoise_induct [where lib = lib])
    (simp_all add: denoise_frames_short denoise_frames_step)

text \<open>Running the loop early changes nothing: samples that arrive later follow the remainder.\<close>

lemma denoise_frames_more:
  "denoise_frames lib (d\<lparr>dn_remainder := dn_remainder d @ xs\<rparr>) =
     (let (out, d1) = denoise_frames lib d;
          (rest, d2) = denoise_frames lib (d1\<lparr>dn_remainder := dn_remainder d1 @ xs\<rparr>)
      in (out @ rest, d2))"
proof (induction d rule: denoise_induct [where lib = lib])
  case (short d)
  then show ?case by (simp add: denoise_frames_short)
next
  case (frame d)
  let ?d = "d\<lparr>dn_remainder := dn_remainder d @ xs\<rparr>"
  have n: "next_frame lib ?d = (fst (next_frame lib d),
      (snd (next_frame lib d))\<lparr>dn_remainder := dn_remainder (snd (next_frame lib d)) @ xs\<rparr>)"
    using next_frame_more [OF frame(1), of lib xs] by (simp add: Let_def case_prod_unfold)
  have "RNN_FRAME_SIZE \<le> length (dn_remainder ?d)" using frame(1) by simp
  from denoise_frames_step [OF this, of lib] frame show ?case
    unfolding n by (simp add: denoise_frames_step [OF frame(1)] Let_def case_prod_unfold)
qed

lemma denoise_frames_length:
  assumes "rnnoise_ok lib"
  shows "length (fst (denoise_frames lib d)) + length (dn_remainder (snd (denoise_frames lib d))) =
    length (dn_remainder d)"
proof (induction d rule: denoise_induct [where lib = lib])
  case (short d)
  then show ?case by (simp add: denoise_frames_short)
next
  case (frame d)
  then show ?case by (simp add: denoise_frames_step [OF frame(1)] next_frame_length [OF assms])
qed

lemma denoise_frames_dvd:
  assumes "rnnoise_ok lib"
  shows "RNN_FRAME_SIZE dvd length (fst (denoise_frames lib d))"
proof (induction d rule: denoise_induct [where lib = lib])
  case (short d)
  then show ?case by (simp add: denoise_frames_short)
next
  case (frame d)
  then show ?case by (simp add: denoise_frames_step [OF frame(1)] next_frame_length [OF assms])
qed

section \<open>Any cut of the input gives the same output\<close>

lemma stereo_from_append [simp]:
  "stereo_s16le_from_mono_f32 fs (xs @ ys) = stereo_s16le_from_mono_f32 fs xs @ stereo_s16le_from_mono_f32 fs ys"
  "stereo_s16le_from_mono_f32 fs [] = []"
  by (simp_all add: stereo_s16le_from_mono_f32_def)

lemma length_stereo_from [simp]: "length (stereo_s16le_from_mono_f32 fs xs) = 4 * length xs"
  by (induction xs) (simp_all add: stereo_s16le_from_mono_f32_def Let_def)

lemma downmix_append:
  assumes "4 dvd length xs"
  shows "downmix_stereo_s16le_to_mono_f32 fs (xs @ ys) =
    downmix_stereo_s16le_to_mono_f32 fs xs @ downmix_stereo_s16le_to_mono_f32 fs ys"
proof -
  have "even (length xs)" using assms by (metis dvd_trans even_numeral)
  moreover have "even (length (samples_of xs))" using assms by (auto elim!: dvdE)
  ultimately show ?thesis
    by (simp add: downmix_stereo_s16le_to_mono_f32_def samples_of_append pairs_append)
qed

lemma length_downmix_stereo [simp]: "length (downmix_stereo_s16le_to_mono_f32 fs pcm) = length pcm div 4"
  by (simp add: downmix_stereo_s16le_to_mono_f32_def div_mult2_eq [symmetric])

text \<open>The suppressor between two calls: less than one RNNoise frame is held back.\<close>

definition denoiser_ok :: "('n, 'f) denoiser \<Rightarrow> bool" where
  "denoiser_ok d \<longleftrightarrow> length (dn_remainder d) < RNN_FRAME_SIZE"

lemma denoiser_new_ok: "denoiser_ok (denoiser_new lib fs)"
  by (simp add: denoiser_ok_def denoiser_new_def RNN_FRAME_SIZE_def split: prod.split)

lemma process_ok: "denoiser_ok d \<Longrightarrow> denoiser_ok (snd (process_s16le_stereo lib fs pcm d))"
  by (auto simp: process_s16le_stereo_def denoiser_ok_def split: prod.split)
    (metis denoise_frames_remainder snd_conv)

lemma process_eq:
  assumes "denoiser_ok d"
  shows "process_s16le_stereo lib fs pcm d =
    (let (out, d') = denoise_frames lib (d\<lparr>dn_remainder := dn_remainder d @ downmix_stereo_s16le_to_mono_f32 fs pcm\<rparr>)
     in (stereo_s16le_from_mono_f32 fs out, d'))"
proof (cases "pcm = []")
  case True
  then have "downmix_stereo_s16le_to_mono_f32 fs pcm = []"
    by (simp add: downmix_stereo_s16le_to_mono_f32_def samples_of_def)
  then show ?thesis using True assms by (simp add: process_s16le_stereo_def denoise_frames_short denoiser_ok_def)
qed (simp add: process_s16le_stereo_def Let_def)

lemma process_append:
  assumes "denoiser_ok d" and "4 dvd length xs"
  shows "process_s16le_stereo lib fs (xs @ ys) d =
    (let (out, d1) = process_s16le_stereo lib fs xs d; (rest, d2) = process_s16le_stereo lib fs ys d1
     in (out @ rest, d2))"
proof -
  let ?f = "downmix_stereo_s16le_to_mono_f32 fs"
  obtain out d1 where 1: "denoise_frames lib (d\<lparr>dn_remainder := dn_remainder d @ ?f xs\<rparr>) = (out, d1)"
    by (rule prod.exhaust)
  have ok: "denoiser_ok d1"
    using denoise_frames_remainder [of lib "d\<lparr>dn_remainder := dn_remainder d @ ?f xs\<rparr>"] 1
    by (simp add: denoiser_ok_def)
  show ?thesis
    using denoise_frames_more [of lib "d\<lparr>dn_remainder := dn_remainder d @ ?f xs\<rparr>" "?f ys"] 1
    by (simp add: process_eq [OF assms(1)] process_eq [OF ok] downmix_append [OF assms(2)] Let_def
        split: prod.splits)
qed

text \<open>How many bytes one call gives: all that completes an RNNoise frame.\<close>

lemma process_length:
  assumes "rnnoise_ok lib" and "denoiser_ok d"
  shows "length (fst (process_s16le_stereo lib fs pcm d)) =
    4 * RNN_FRAME_SIZE * ((length (dn_remainder d) + length pcm div 4) div RNN_FRAME_SIZE) \<and>
    length (dn_remainder (snd (process_s16le_stereo lib fs pcm d))) =
    (length (dn_remainder d) + length pcm div 4) mod RNN_FRAME_SIZE"
proof -
  let ?d = "d\<lparr>dn_remainder := dn_remainder d @ downmix_stereo_s16le_to_mono_f32 fs pcm\<rparr>"
  obtain out d' where p: "denoise_frames lib ?d = (out, d')" by (rule prod.exhaust)
  have s: "length out + length (dn_remainder d') = length (dn_remainder d) + length pcm div 4"
      "length (dn_remainder d') < RNN_FRAME_SIZE"
    using denoise_frames_length [OF assms(1), of ?d] denoise_frames_remainder [of lib ?d] p by simp_all
  have "RNN_FRAME_SIZE dvd length out"
    using denoise_frames_dvd [OF assms(1), of ?d] p by simp
  then obtain k where k: "length out = RNN_FRAME_SIZE * k" by (rule dvdE)
  then have "length (dn_remainder d) + length pcm div 4 = length (dn_remainder d') + k * RNN_FRAME_SIZE"
    using s(1) by (simp add: mult.commute)
  then have "(length (dn_remainder d) + length pcm div 4) div RNN_FRAME_SIZE = k"
      "(length (dn_remainder d) + length pcm div 4) mod RNN_FRAME_SIZE = length (dn_remainder d')"
    using s(2) by simp_all
  then show ?thesis by (simp add: process_eq [OF assms(2)] p k)
qed

end
