(* ===== verification/Conference_Room.thy ===== *)
theory Conference_Room
  imports Mix_Graph Denoise Opus_Decode
begin

text \<open>
  \<open>crates/conference\<close>: errors, mute matrix, rooms, participants and the server.  A room shares its
  mix graph with the tasks of its participants.  The peer connections wrap the third-party
  \<open>webrtc\<close> crate: the result of each call on them is an argument (an error as its message).  Events
  go to the channels of the current subscription; the functions return what they send.  Log lines,
  the receive statistics and the JSON form of the messages are not modelled.
\<close>

section \<open>Errors\<close>

datatype conference_error_code =
  RoomNotFound | ParticipantNotFound | RoomFull | InvalidMuteScope | SignalingError | InternalError

fun code_as_str :: "conference_error_code \<Rightarrow> ustring" where
  "code_as_str RoomNotFound = utext ''ROOM_NOT_FOUND''"
| "code_as_str ParticipantNotFound = utext ''PARTICIPANT_NOT_FOUND''"
| "code_as_str RoomFull = utext ''ROOM_FULL''"
| "code_as_str InvalidMuteScope = utext ''INVALID_MUTE_SCOPE''"
| "code_as_str SignalingError = utext ''SIGNALING_ERROR''"
| "code_as_str InternalError = utext ''INTERNAL''"

datatype conference_error = Coded conference_error_code ustring | Core ustring

fun conference_error_code_of :: "conference_error \<Rightarrow> conference_error_code" where
  "conference_error_code_of (Coded code _) = code"
| "conference_error_code_of (Core _) = InternalError"

fun conference_error_to_string :: "conference_error \<Rightarrow> ustring" where
  "conference_error_to_string (Coded code message) = code_as_str code @ utext '': '' @ message"
| "conference_error_to_string (Core e) = utext ''core error: '' @ e"

section \<open>The mute matrix\<close>

datatype mute_scope = Global | Listener

definition matrix_set_mute ::
  "bool \<Rightarrow> participant_id \<Rightarrow> mute_scope \<Rightarrow> participant_id option \<Rightarrow> ('d, 'f) mix_graph \<Rightarrow>
     conference_error + ('d, 'f) mix_graph" where
  "matrix_set_mute muted target scope listener g =
     (case scope of
        Global \<Rightarrow> Inr (set_global_mute target muted g)
      | Listener \<Rightarrow>
          (case listener of
             None \<Rightarrow> Inl (Coded InvalidMuteScope (utext ''listener scope requires listenerId''))
           | Some listener_id \<Rightarrow> Inr (set_listener_mute listener_id target muted g)))"

definition matrix_mute where "matrix_mute = matrix_set_mute True"
definition matrix_unmute where "matrix_unmute = matrix_set_mute False"

definition should_include :: "participant_id \<Rightarrow> participant_id \<Rightarrow> ('d, 'f) mix_graph \<Rightarrow> bool" where
  "should_include listener target g =
     (if listener = target then False
      else if \<not> mg_mixing_enabled g then False
      else \<not> is_globally_muted target g \<and> \<not> is_listener_muted listener target g \<and>
        (case mg_listener_routes g listener of None \<Rightarrow> True | Some allowed \<Rightarrow> target \<in> allowed))"

section \<open>Rooms\<close>

datatype room_event =
    ParticipantJoined participant_id
  | ParticipantLeft participant_id
  | ParticipantKicked participant_id "ustring option"
  | ParticipantMuted participant_id mute_scope "participant_id option"
  | MixingEnabledChanged bool

datatype ice_credential_type = Password | Oauth

record ice_server =
  ice_urls :: "ustring list"
  ice_username :: "ustring option"
  ice_credential :: "ustring option"
  ice_credential_type :: ice_credential_type

record room_config =
  rc_max_participants :: nat
  rc_ice_servers :: "ice_server list"
  rc_noise_suppression :: bool

definition room_config_default :: room_config where
  "room_config_default =
     \<lparr>rc_max_participants = 32, rc_ice_servers = [], rc_noise_suppression = True\<rparr>"

text \<open>A participant: its peer connection and its outbound task, both as numbers.\<close>

record participant =
  pt_id :: participant_id
  pt_pc :: nat
  pt_outbound_task :: nat

text \<open>
  \<open>rm_subscribed\<close> tells whether \<open>event_senders\<close> is set.  The participants are kept in key order; the
  code's \<open>HashMap\<close> visits them in an order of its own, which \<open>list_participants\<close> and \<open>close\<close> take
  as an argument.
\<close>

record ('d, 'f) room =
  rm_id :: ustring
  rm_participants :: "(participant_id, participant) btree"
  rm_mix_graph :: "('d, 'f) mix_graph"
  rm_config :: room_config
  rm_subscribed :: bool

definition room_new :: "'f float_ops \<Rightarrow> ustring \<Rightarrow> room_config \<Rightarrow> ('d, 'f) room" where
  "room_new fs name config =
     \<lparr>rm_id = name, rm_participants = [], rm_mix_graph = graph_new fs, rm_config = config, rm_subscribed = False\<rparr>"

definition subscribe_events :: "('d, 'f) room \<Rightarrow> ('d, 'f) room" where
  "subscribe_events r = r\<lparr>rm_subscribed := True\<rparr>"

definition emit :: "('d, 'f) room \<Rightarrow> room_event \<Rightarrow> room_event list" where
  "emit r e = (if rm_subscribed r then [e] else [])"

definition with_graph :: "('d, 'f) mix_graph \<Rightarrow> ('d, 'f) room \<Rightarrow> ('d, 'f) room" where
  "with_graph g r = r\<lparr>rm_mix_graph := g\<rparr>"

definition room_set_mixing_enabled :: "bool \<Rightarrow> ('d, 'f) room \<Rightarrow> room_event list \<times> ('d, 'f) room" where
  "room_set_mixing_enabled enabled r =
     (emit r (MixingEnabledChanged enabled), with_graph (set_mixing_enabled enabled (rm_mix_graph r)) r)"

definition in_room :: "participant_id \<Rightarrow> ('d, 'f) room \<Rightarrow> bool" where
  "in_room p r \<longleftrightarrow> bt_get (rm_participants r) p \<noteq> None"

definition not_in_room :: "participant_id \<Rightarrow> ('d, 'f) room \<Rightarrow> conference_error" where
  "not_in_room p r =
     Coded ParticipantNotFound (utext ''participant '' @ p @ utext '' not in room '' @ rm_id r)"

definition ensure_participant_exists :: "participant_id \<Rightarrow> ('d, 'f) room \<Rightarrow> conference_error + unit" where
  "ensure_participant_exists p r = (if in_room p r then Inr () else Inl (not_in_room p r))"

text \<open>
  \<open>Participant::spawn\<close>: \<open>track\<close> is the error of \<open>pc.add_track\<close>, \<open>task\<close> the number of the spawned
  outbound task.
\<close>

definition participant_spawn ::
  "'d float_ops \<Rightarrow> participant_id \<Rightarrow> nat \<Rightarrow> ustring option \<Rightarrow> nat \<Rightarrow> ('d, 'f) mix_graph \<Rightarrow>
     conference_error + (participant \<times> ('d, 'f) mix_graph)" where
  "participant_spawn fl p pc track task g =
     (case track of
        Some e \<Rightarrow> Inl (Core e)
      | None \<Rightarrow> Inr (\<lparr>pt_id = p, pt_pc = pc, pt_outbound_task = task\<rparr>, add_input fl p g))"

text \<open>\<open>new_pc\<close> is the result of \<open>PeerConnection::new\<close>.\<close>

definition add_participant ::
  "'d float_ops \<Rightarrow> participant_id \<Rightarrow> ustring + nat \<Rightarrow> ustring option \<Rightarrow> nat \<Rightarrow> ('d, 'f) room \<Rightarrow>
     (conference_error + unit) \<times> room_event list \<times> ('d, 'f) room" where
  "add_participant fl p new_pc track task r =
     (if in_room p r then
        (Inl (Coded InternalError (utext ''participant '' @ p @ utext '' already in room'')), [], r)
      else if rc_max_participants (rm_config r) \<le> length (rm_participants r) then
        (Inl (Coded RoomFull (utext ''room '' @ rm_id r @ utext '' is full (max '' @
           decimal (rc_max_participants (rm_config r)) @ utext '')'')), [], r)
      else
        (case new_pc of
           Inl e \<Rightarrow> (Inl (Core e), [], r)
         | Inr pc \<Rightarrow>
             (case participant_spawn fl p pc track task (rm_mix_graph r) of
                Inl e \<Rightarrow> (Inl e, [], r)
              | Inr (participant, g) \<Rightarrow>
                  (Inr (), emit r (ParticipantJoined p),
                   r\<lparr>rm_mix_graph := g, rm_participants := bt_insert p participant (rm_participants r)\<rparr>))))"

text \<open>
  Leaving has two halves: up to \<open>pc.close().await\<close> (the participant is out of the map, its outbound
  task aborted, its input removed), and what follows the answer of the peer connection.  The tasks
  of the room run in between.
\<close>

definition remove_begin ::
  "participant_id \<Rightarrow> ('d, 'f) room \<Rightarrow> (conference_error + participant) \<times> ('d, 'f) room" where
  "remove_begin p r =
     (case bt_get (rm_participants r) p of
        None \<Rightarrow> (Inl (not_in_room p r), r)
      | Some participant \<Rightarrow>
          (Inr participant,
           r\<lparr>rm_participants := bt_remove p (rm_participants r),
             rm_mix_graph := remove_input (pt_id participant) (rm_mix_graph r)\<rparr>))"

definition remove_end ::
  "participant_id \<Rightarrow> bool \<Rightarrow> ustring option \<Rightarrow> ('d, 'f) room \<Rightarrow> (conference_error + unit) \<times> room_event list" where
  "remove_end p emit_left close r =
     (case close of
        Some e \<Rightarrow> (Inl (Core e), [])
      | None \<Rightarrow> (Inr (), if emit_left then emit r (ParticipantLeft p) else []))"

definition kick_end ::
  "participant_id \<Rightarrow> ustring option \<Rightarrow> ustring option \<Rightarrow> ('d, 'f) room \<Rightarrow>
     (conference_error + unit) \<times> room_event list" where
  "kick_end p reason close r =
     (case remove_end p False close r of
        (Inl e, evs) \<Rightarrow> (Inl e, evs)
      | (Inr _, evs) \<Rightarrow> (Inr (), evs @ emit r (ParticipantKicked p reason)))"

definition ensure_both :: "participant_id \<Rightarrow> participant_id option \<Rightarrow> ('d, 'f) room \<Rightarrow> conference_error + unit" where
  "ensure_both target listener r =
     (case ensure_participant_exists target r of
        Inl e \<Rightarrow> Inl e
      | Inr _ \<Rightarrow> (case listener of None \<Rightarrow> Inr () | Some l \<Rightarrow> ensure_participant_exists l r))"

definition mute_participant ::
  "participant_id \<Rightarrow> mute_scope \<Rightarrow> participant_id option \<Rightarrow> ('d, 'f) room \<Rightarrow>
     (conference_error + unit) \<times> room_event list \<times> ('d, 'f) room" where
  "mute_participant target scope listener r =
     (case ensure_both target listener r of
        Inl e \<Rightarrow> (Inl e, [], r)
      | Inr _ \<Rightarrow>
          (case matrix_mute target scope listener (rm_mix_graph r) of
             Inl e \<Rightarrow> (Inl e, [], r)
           | Inr g \<Rightarrow> (Inr (), emit r (ParticipantMuted target scope listener), with_graph g r)))"

definition unmute_participant ::
  "participant_id \<Rightarrow> mute_scope \<Rightarrow> participant_id option \<Rightarrow> ('d, 'f) room \<Rightarrow>
     (conference_error + unit) \<times> ('d, 'f) room" where
  "unmute_participant target scope listener r =
     (case ensure_both target listener r of
        Inl e \<Rightarrow> (Inl e, r)
      | Inr _ \<Rightarrow>
          (case matrix_unmute target scope listener (rm_mix_graph r) of
             Inl e \<Rightarrow> (Inl e, r)
           | Inr g \<Rightarrow> (Inr (), with_graph g r)))"

datatype connection_state = PcNew | PcConnecting | PcConnected | PcDisconnected | PcFailed | PcClosed

definition list_participants ::
  "(nat \<Rightarrow> connection_state) \<Rightarrow> participant_id list \<Rightarrow> ('d, 'f) room \<Rightarrow> (participant_id \<times> connection_state) list" where
  "list_participants conn order r =
     map (\<lambda>participant. (pt_id participant, conn (pt_pc participant)))
       (List.map_filter (bt_get (rm_participants r)) order)"

definition inject_frame_at ::
  "'d float_ops \<Rightarrow> participant_id \<Rightarrow> frame \<Rightarrow> instant \<Rightarrow> ('d, 'f) room \<Rightarrow> (conference_error + unit) \<times> ('d, 'f) room" where
  "inject_frame_at fl p f now r =
     (case ensure_participant_exists p r of
        Inl e \<Rightarrow> (Inl e, r)
      | Inr _ \<Rightarrow> (Inr (), with_graph (push_frame_at fl p f now (rm_mix_graph r)) r))"

text \<open>\<open>None\<close> is a panic of the render.\<close>

definition render_output_at ::
  "'d float_ops \<Rightarrow> 'f float_ops \<Rightarrow> participant_id \<Rightarrow> instant \<Rightarrow> ('d, 'f) room \<Rightarrow>
     ((conference_error + frame) \<times> ('d, 'f) room) option" where
  "render_output_at fl fs listener now r =
     (case ensure_participant_exists listener r of
        Inl e \<Rightarrow> Some (Inl e, r)
      | Inr _ \<Rightarrow>
          map_option (\<lambda>(f, g). (Inr f, with_graph g r)) (render_output fl fs listener now (rm_mix_graph r)))"

definition room_source_stats :: "participant_id \<Rightarrow> ('d, 'f) room \<Rightarrow> source_stats option" where
  "room_source_stats p r = graph_source_stats p (rm_mix_graph r)"

section \<open>Signaling\<close>

datatype signaling_message =
    Join participant_id "ustring option"
  | SdpOffer participant_id ustring
  | SdpAnswer participant_id ustring
  | IceCandidate participant_id ustring "ustring option" "nat option"
  | Leave participant_id

datatype signaling_response = OfferResponse participant_id ustring | AnswerResponse participant_id ustring

text \<open>What the peer connection answers to the calls of one message.\<close>

record pc_results =
  pr_create :: "ustring option"
  pr_set_local :: "ustring option"
  pr_set_remote :: "ustring option"
  pr_local_description :: "ustring option"
  pr_add_ice :: "ustring option"

definition core_call :: "ustring option \<Rightarrow> conference_error + 'a \<Rightarrow> conference_error + 'a" where
  "core_call call k = (case call of Some e \<Rightarrow> Inl (Core e) | None \<Rightarrow> k)"

definition local_sdp :: "string \<Rightarrow> pc_results \<Rightarrow> conference_error + ustring" where
  "local_sdp missing pr =
     (case pr_local_description pr of
        None \<Rightarrow> Inl (Coded SignalingError (utext missing))
      | Some sdp \<Rightarrow> Inr sdp)"

definition participant_mut :: "participant_id \<Rightarrow> ('d, 'f) room \<Rightarrow> conference_error + participant" where
  "participant_mut p r =
     (case bt_get (rm_participants r) p of Some participant \<Rightarrow> Inr participant | None \<Rightarrow> Inl (not_in_room p r))"

text \<open>The offer that a join sends once the participant is in the room.\<close>

definition join_offer ::
  "participant_id \<Rightarrow> pc_results \<Rightarrow> ('d, 'f) room \<Rightarrow> conference_error + signaling_response list" where
  "join_offer p pr r =
     (case bt_get (rm_participants r) p of
        None \<Rightarrow> Inl (Coded InternalError (utext ''participant missing after join''))
      | Some _ \<Rightarrow>
          core_call (pr_create pr) (core_call (pr_set_local pr)
            (case local_sdp ''offer not available'' pr of
               Inl e \<Rightarrow> Inl e
             | Inr sdp \<Rightarrow> Inr [OfferResponse p sdp])))"

text \<open>\<open>handle_signaling\<close> of the messages that do not change the room (all but join and leave).\<close>

fun handle_description ::
  "signaling_message \<Rightarrow> pc_results \<Rightarrow> ('d, 'f) room \<Rightarrow> conference_error + signaling_response list" where
  "handle_description (SdpAnswer p sdp) pr r =
     (case participant_mut p r of Inl e \<Rightarrow> Inl e | Inr _ \<Rightarrow> core_call (pr_set_remote pr) (Inr []))"
| "handle_description (SdpOffer p sdp) pr r =
     (case participant_mut p r of
        Inl e \<Rightarrow> Inl e
      | Inr _ \<Rightarrow>
          core_call (pr_set_remote pr) (core_call (pr_create pr) (core_call (pr_set_local pr)
            (case local_sdp ''answer not available'' pr of
               Inl e \<Rightarrow> Inl e
             | Inr sdp \<Rightarrow> Inr [AnswerResponse p sdp]))))"
| "handle_description (IceCandidate p candidate mid mline) pr r =
     (case participant_mut p r of Inl e \<Rightarrow> Inl e | Inr _ \<Rightarrow> core_call (pr_add_ice pr) (Inr []))"
| "handle_description _ pr r = Inr []"

definition handle_join ::
  "'d float_ops \<Rightarrow> participant_id \<Rightarrow> ustring + nat \<Rightarrow> ustring option \<Rightarrow> nat \<Rightarrow> pc_results \<Rightarrow> ('d, 'f) room \<Rightarrow>
     (conference_error + signaling_response list) \<times> room_event list \<times> ('d, 'f) room" where
  "handle_join fl p new_pc track task pr r =
     (case add_participant fl p new_pc track task r of
        (Inl e, evs, r') \<Rightarrow> (Inl e, evs, r')
      | (Inr _, evs, r') \<Rightarrow> (join_offer p pr r', evs, r'))"

section \<open>The server\<close>

text \<open>Rooms are shared handles (\<open>Arc\<close>), here numbers.  \<open>destroy_room\<close> returns the room to close.\<close>

type_synonym conference_server = "(ustring, nat) btree"

definition server_new :: conference_server where "server_new = []"

definition create_room :: "ustring \<Rightarrow> nat \<Rightarrow> conference_server \<Rightarrow> (conference_error + nat) \<times> conference_server" where
  "create_room name room s =
     (if bt_get s name \<noteq> None then
        (Inl (Coded InternalError (utext ''room '' @ name @ utext '' already exists'')), s)
      else (Inr room, bt_insert name room s))"

definition get_room :: "ustring \<Rightarrow> conference_server \<Rightarrow> conference_error + nat" where
  "get_room name s =
     (case bt_get s name of
        Some room \<Rightarrow> Inr room
      | None \<Rightarrow> Inl (Coded RoomNotFound (utext ''room '' @ name @ utext '' not found'')))"

definition list_rooms :: "conference_server \<Rightarrow> ustring list" where
  "list_rooms s = map fst s"

definition destroy_room :: "ustring \<Rightarrow> conference_server \<Rightarrow> (conference_error + nat) \<times> conference_server" where
  "destroy_room name s =
     (case bt_get s name of
        Some room \<Rightarrow> (Inr room, bt_remove name s)
      | None \<Rightarrow> (Inl (Coded RoomNotFound (utext ''room '' @ name @ utext '' not found'')), s))"

section \<open>The tasks of a participant\<close>

definition PCM_KICK_BYTES :: nat where "PCM_KICK_BYTES = 960"
definition PCM_KICK_MS :: nat where "PCM_KICK_MS = 5"

record ('n, 'f) inbound_task =
  it_participant_id :: participant_id
  it_denoiser :: "('n, 'f) denoiser option"
  it_seen_undecodable :: nat

definition inbound_start ::
  "('n, 'f) rnnoise \<Rightarrow> 'f float_ops \<Rightarrow> participant_id \<Rightarrow> bool \<Rightarrow> ('n, 'f) inbound_task" where
  "inbound_start lib fs p noise_suppression =
     \<lparr>it_participant_id = p, it_denoiser = (if noise_suppression then Some (denoiser_new lib fs) else None),
      it_seen_undecodable = 0\<rparr>"

definition apply_noise_suppression ::
  "('n, 'f) rnnoise \<Rightarrow> 'f float_ops \<Rightarrow> ('n, 'f) denoiser option \<Rightarrow> frame \<Rightarrow> frame \<times> ('n, 'f) denoiser option" where
  "apply_noise_suppression lib fs dn f =
     (case dn of
        None \<Rightarrow> (f, None)
      | Some d \<Rightarrow>
          (let (pcm, d) = process_s16le_stereo lib fs (fr_pcm f) d
           in (frame_new pcm (fr_timestamp_us f), Some d)))"

text \<open>The frames of one sample; \<open>now\<close> is the clock at each push.\<close>

fun push_sample_chunks ::
  "('n, 'f) rnnoise \<Rightarrow> 'd float_ops \<Rightarrow> 'f float_ops \<Rightarrow> participant_id \<Rightarrow> instant \<Rightarrow> bytes list \<Rightarrow>
     ('n, 'f) denoiser option \<times> ('d, 'f) mix_graph \<Rightarrow> ('n, 'f) denoiser option \<times> ('d, 'f) mix_graph" where
  "push_sample_chunks lib fl fs p now [] (dn, g) = (dn, g)"
| "push_sample_chunks lib fl fs p now (chunk # chunks) (dn, g) =
     (let (f, dn) = apply_noise_suppression lib fs dn (frame_new chunk None)
      in push_sample_chunks lib fl fs p now chunks (dn, push_frame_at fl p f now g))"

text \<open>One sample of the loop \<open>run_inbound_loop\<close>: \<open>undecodable\<close> is the counter of the track.\<close>

definition inbound_sample ::
  "('n, 'f) rnnoise \<Rightarrow> 'd float_ops \<Rightarrow> 'f float_ops \<Rightarrow> bytes \<Rightarrow> nat \<Rightarrow> instant \<Rightarrow> ('n, 'f) inbound_task \<Rightarrow>
     ('d, 'f) mix_graph \<Rightarrow> ('n, 'f) inbound_task \<times> ('d, 'f) mix_graph" where
  "inbound_sample lib fl fs pcm undecodable now t g =
     (let (t, g) =
            (if it_seen_undecodable t < undecodable
             then (t\<lparr>it_seen_undecodable := undecodable\<rparr>, graph_note_decode_error (it_participant_id t) now g)
             else (t, g))
      in if \<not> mg_mixing_enabled g then (t, g)
         else
           (let (dn, g) = push_sample_chunks lib fl fs (it_participant_id t) now (slice_chunks FRAME_BYTES pcm)
                  (it_denoiser t, g)
            in (t\<lparr>it_denoiser := dn\<rparr>, g)))"

text \<open>
  The outbound task between its await points: waiting for the connection, sleeping until the next
  slot, or with slots of a burst left to render and write.
\<close>

datatype outbound_phase = Connecting instant | Sleeping pacer | Burst pacer "instant list"

definition outbound_start :: "instant \<Rightarrow> outbound_phase" where
  "outbound_start now = Connecting (now + ms 30000)"

text \<open>
  One step: \<open>conn\<close> is the state of the connection, \<open>write_ok\<close> the outcome of \<open>write_sample\<close>.  The
  result is the next phase (\<open>None\<close> when the task returns), the sample written and its duration, and
  the graph; the outer \<open>None\<close> is a panic of the render.
\<close>

fun outbound_step ::
  "'d float_ops \<Rightarrow> 'f float_ops \<Rightarrow> participant_id \<Rightarrow> connection_state \<Rightarrow> instant \<Rightarrow> bool \<Rightarrow> outbound_phase \<Rightarrow>
     ('d, 'f) mix_graph \<Rightarrow>
     (outbound_phase option \<times> (bytes \<times> duration) list \<times> ('d, 'f) mix_graph) option" where
  "outbound_step fl fs p conn now write_ok (Connecting deadline) g =
     Some (if conn = PcConnected then
             (if write_ok then Some (Sleeping (pacer_new now)) else None,
              [(replicate PCM_KICK_BYTES 0, ms PCM_KICK_MS)], g)
           else if conn = PcFailed \<or> conn = PcClosed then (None, [], g)
           else if deadline \<le> now then (None, [], g)
           else (Some (Connecting deadline), [], g))"
| "outbound_step fl fs p conn now write_ok (Sleeping pacer) g =
     Some (if now < next_due pacer then (Some (Sleeping pacer), [], g)
           else if conn \<noteq> PcConnected then (None, [], g)
           else (let ((at, _), pacer) = due_slots now pacer
                 in (Some (if at = [] then Sleeping pacer else Burst pacer at), [], g)))"
| "outbound_step fl fs p conn now write_ok (Burst pacer []) g = Some (Some (Sleeping pacer), [], g)"
| "outbound_step fl fs p conn now write_ok (Burst pacer (tick_at # at)) g =
     map_option (\<lambda>(f, g).
       (if write_ok then Some (if at = [] then Sleeping pacer else Burst pacer at) else None,
        [(fr_pcm f, ms FRAME_MS)], g)) (render_output fl fs p tick_at g)"

end
