(* ===== verification/Conference_Run.thy ===== *)
theory Conference_Run
  imports Conference_Room
begin

text \<open>
  A conference room at work: the calls of the host, each holding the room's lock until it returns,
  interleaved with the inbound and outbound tasks of the participants, which share the mix graph.
  The properties are the ledger of the membership events, the mute that lasts, the bounds of the
  room, and where a source of the mix can come from.
\<close>

section \<open>The room with its tasks\<close>

text \<open>A call that waits for \<open>pc.close()\<close> of a participant it has just taken out of the room.\<close>

datatype leaving = Removing | Kicking "ustring option" | Closing "participant_id list"

text \<open>
  \<open>se_handlers\<close> are the \<open>on_track\<close> handlers registered so far (participant and noise suppression);
  a task that has returned or was aborted is \<open>None\<close>.
\<close>

record ('d, 'f, 'n) session =
  se_room :: "('d, 'f) room"
  se_handlers :: "(participant_id \<times> bool) list"
  se_inbound :: "('n, 'f) inbound_task option list"
  se_outbound :: "(participant_id \<times> outbound_phase) option list"
  se_pending :: "(participant_id \<times> leaving) option"

definition session_start :: "'f float_ops \<Rightarrow> ustring \<Rightarrow> room_config \<Rightarrow> ('d, 'f, 'n) session" where
  "session_start fs name config =
     \<lparr>se_room = room_new fs name config, se_handlers = [], se_inbound = [], se_outbound = [], se_pending = None\<rparr>"

text \<open>
  What a step gives: an event sent to the subscriber, a sample written to a participant's track, the
  value a call returns, a rendered frame, and the answer of a peer connection to \<open>close\<close>.
\<close>

datatype session_out =
    Event room_event
  | Wrote nat participant_id bytes duration
  | Returned "conference_error + signaling_response list"
  | Rendered frame
  | PcClose participant_id "ustring option"

datatype session_op =
    Subscribe
  | AddParticipant participant_id "ustring + nat" "ustring option" instant
  | Signal signaling_message "ustring + nat" "ustring option" pc_results instant
  | RemoveParticipant participant_id
  | KickParticipant participant_id "ustring option"
  | CloseRoom "participant_id list"
  | PcClosedWith "ustring option"
  | MuteParticipant participant_id mute_scope "participant_id option"
  | UnmuteParticipant participant_id mute_scope "participant_id option"
  | SetMixing bool
  | InjectFrame participant_id frame instant
  | RenderOutput participant_id instant
  | TrackArrived nat
  | Sample nat bytes nat instant
  | TrackEnded nat
  | OutboundWake nat connection_state instant bool

section \<open>Steps\<close>

definition returned :: "conference_error + unit \<Rightarrow> session_out list" where
  "returned res = [Returned (case res of Inl e \<Rightarrow> Inl e | Inr _ \<Rightarrow> Inr [])]"

lemma returned_simps [simp]:
  "returned (Inl e) = [Returned (Inl e)]" "returned (Inr u) = [Returned (Inr [])]"
  by (simp_all add: returned_def)

text \<open>A participant that has just been inserted has a handler and an outbound task.\<close>

definition adopt :: "participant_id \<Rightarrow> instant \<Rightarrow> ('d, 'f) room \<Rightarrow> ('d, 'f, 'n) session \<Rightarrow> ('d, 'f, 'n) session" where
  "adopt p now r s =
     (if in_room p r \<and> \<not> in_room p (se_room s) then
        s\<lparr>se_room := r, se_handlers := se_handlers s @ [(p, rc_noise_suppression (rm_config r))],
          se_outbound := se_outbound s @ [Some (p, outbound_start now)]\<rparr>
      else s\<lparr>se_room := r\<rparr>)"

definition begin_leave ::
  "participant_id \<Rightarrow> leaving \<Rightarrow> ('d, 'f, 'n) session \<Rightarrow> ('d, 'f, 'n) session \<times> session_out list" where
  "begin_leave p how s =
     (case remove_begin p (se_room s) of
        (Inl e, r) \<Rightarrow> (s\<lparr>se_room := r, se_pending := None\<rparr>, [Returned (Inl e)])
      | (Inr participant, r) \<Rightarrow>
          (s\<lparr>se_room := r, se_outbound := (se_outbound s)[pt_outbound_task participant := None],
             se_pending := Some (p, how)\<rparr>, []))"

definition end_leave ::
  "participant_id \<Rightarrow> leaving \<Rightarrow> ustring option \<Rightarrow> ('d, 'f, 'n) session \<Rightarrow>
     ('d, 'f, 'n) session \<times> session_out list" where
  "end_leave p how close s =
     (case how of
        Removing \<Rightarrow>
          (let (res, evs) = remove_end p True close (se_room s)
           in (s\<lparr>se_pending := None\<rparr>, map Event evs @ returned res))
      | Kicking reason \<Rightarrow>
          (let (res, evs) = kick_end p reason close (se_room s)
           in (s\<lparr>se_pending := None\<rparr>, map Event evs @ returned res))
      | Closing rest \<Rightarrow>
          (case remove_end p True close (se_room s) of
             (Inl e, evs) \<Rightarrow> (s\<lparr>se_pending := None\<rparr>, map Event evs @ returned (Inl e))
           | (Inr _, evs) \<Rightarrow>
               (case rest of
                  [] \<Rightarrow> (s\<lparr>se_pending := None\<rparr>, map Event evs @ returned (Inr ()))
                | q # rest \<Rightarrow> apsnd ((@) (map Event evs)) (begin_leave q (Closing rest) s))))"

text \<open>The host's calls; they wait while another one holds the room.\<close>

fun room_call ::
  "'d float_ops \<Rightarrow> 'f float_ops \<Rightarrow> session_op \<Rightarrow> ('d, 'f, 'n) session \<Rightarrow>
     (('d, 'f, 'n) session \<times> session_out list) option" where
  "room_call fl fs Subscribe s = Some (s\<lparr>se_room := subscribe_events (se_room s)\<rparr>, [])"
| "room_call fl fs (AddParticipant p new_pc track now) s =
     (let (res, evs, r) = add_participant fl p new_pc track (length (se_outbound s)) (se_room s)
      in Some (adopt p now r s, map Event evs @ returned res))"
| "room_call fl fs (Signal (Join p room_id) new_pc track pr now) s =
     (let (res, evs, r) = handle_join fl p new_pc track (length (se_outbound s)) pr (se_room s)
      in Some (adopt p now r s, map Event evs @ [Returned res]))"
| "room_call fl fs (Signal (Leave p) new_pc track pr now) s = Some (begin_leave p Removing s)"
| "room_call fl fs (Signal msg new_pc track pr now) s = Some (s, [Returned (handle_description msg pr (se_room s))])"
| "room_call fl fs (RemoveParticipant p) s = Some (begin_leave p Removing s)"
| "room_call fl fs (KickParticipant p reason) s = Some (begin_leave p (Kicking reason) s)"
| "room_call fl fs (CloseRoom order) s =
     (if \<not> (distinct order \<and> set order = fst ` set (rm_participants (se_room s))) then Some (s, [])
      else (case order of
              [] \<Rightarrow> Some (s, returned (Inr ()))
            | p # rest \<Rightarrow> Some (begin_leave p (Closing rest) s)))"
| "room_call fl fs (MuteParticipant target scope listener) s =
     (let (res, evs, r) = mute_participant target scope listener (se_room s)
      in Some (s\<lparr>se_room := r\<rparr>, map Event evs @ returned res))"
| "room_call fl fs (UnmuteParticipant target scope listener) s =
     (let (res, r) = unmute_participant target scope listener (se_room s)
      in Some (s\<lparr>se_room := r\<rparr>, returned res))"
| "room_call fl fs (SetMixing enabled) s =
     (let (evs, r) = room_set_mixing_enabled enabled (se_room s)
      in Some (s\<lparr>se_room := r\<rparr>, map Event evs @ returned (Inr ())))"
| "room_call fl fs (InjectFrame p f now) s =
     (let (res, r) = inject_frame_at fl p f now (se_room s) in Some (s\<lparr>se_room := r\<rparr>, returned res))"
| "room_call fl fs (RenderOutput p now) s =
     map_option (\<lambda>(res, r). (s\<lparr>se_room := r\<rparr>,
         case res of Inl e \<Rightarrow> [Returned (Inl e)] | Inr f \<Rightarrow> [Rendered f]))
       (render_output_at fl fs p now (se_room s))"
| "room_call fl fs _ s = Some (s, [])"

definition task_at :: "'a option list \<Rightarrow> nat \<Rightarrow> 'a option" where
  "task_at tasks i = (if i < length tasks then tasks ! i else None)"

fun session_step ::
  "('n, 'f) rnnoise \<Rightarrow> 'd float_ops \<Rightarrow> 'f float_ops \<Rightarrow> ('d, 'f, 'n) session \<Rightarrow> session_op \<Rightarrow>
     (('d, 'f, 'n) session \<times> session_out list) option" where
  "session_step lib fl fs s (PcClosedWith close) =
     (case se_pending s of
        None \<Rightarrow> Some (s, [])
      | Some (p, how) \<Rightarrow> Some (apsnd ((@) [PcClose p close]) (end_leave p how close s)))"
| "session_step lib fl fs s (TrackArrived h) =
     Some (if h < length (se_handlers s) then
             s\<lparr>se_inbound := se_inbound s @
                [Some (inbound_start lib fs (fst (se_handlers s ! h)) (snd (se_handlers s ! h)))]\<rparr>
           else s, [])"
| "session_step lib fl fs s (Sample i pcm undecodable now) =
     (case task_at (se_inbound s) i of
        None \<Rightarrow> Some (s, [])
      | Some t \<Rightarrow>
          (let (t, g) = inbound_sample lib fl fs pcm undecodable now t (rm_mix_graph (se_room s))
           in Some (s\<lparr>se_room := with_graph g (se_room s), se_inbound := (se_inbound s)[i := Some t]\<rparr>, [])))"
| "session_step lib fl fs s (TrackEnded i) =
     Some (s\<lparr>se_inbound := (se_inbound s)[i := None]\<rparr>, [])"
| "session_step lib fl fs s (OutboundWake i conn now write_ok) =
     (case task_at (se_outbound s) i of
        None \<Rightarrow> Some (s, [])
      | Some (p, phase) \<Rightarrow>
          map_option (\<lambda>(next, writes, g).
            (s\<lparr>se_room := with_graph g (se_room s),
               se_outbound := (se_outbound s)[i := map_option (Pair p) next]\<rparr>,
             map (\<lambda>(pcm, d). Wrote i p pcm d) writes))
            (outbound_step fl fs p conn now write_ok phase (rm_mix_graph (se_room s))))"
| "session_step lib fl fs s op = (if se_pending s = None then room_call fl fs op s else Some (s, []))"

section \<open>Runs of a component that may panic\<close>

text \<open>A run that returns has passed through states of the invariant and every step kept the relation.\<close>

locale panicking_component =
  fixes step :: "'s \<Rightarrow> 'op \<Rightarrow> ('s \<times> 'out list) option"
    and inv :: "'s \<Rightarrow> bool"
    and op_ok :: "'op \<Rightarrow> bool"
    and rel :: "'s \<Rightarrow> 'out list \<Rightarrow> 's \<Rightarrow> bool"
  assumes step_inv: "inv s \<Longrightarrow> op_ok op \<Longrightarrow> step s op = Some (s', out) \<Longrightarrow> inv s'"
    and rel_refl: "inv s \<Longrightarrow> rel s [] s"
    and rel_step: "inv s \<Longrightarrow> op_ok op \<Longrightarrow> step s op = Some (s', out) \<Longrightarrow> rel s out s'"
    and rel_trans: "rel s out1 s1 \<Longrightarrow> rel s1 out2 s2 \<Longrightarrow> rel s (out1 @ out2) s2"
begin

lemma run: "inv s \<Longrightarrow> list_all op_ok ops \<Longrightarrow> run_ops step s ops = Some (s', outs) \<Longrightarrow> inv s' \<and> rel s outs s'"
proof (induction ops arbitrary: s outs)
  case (Cons op ops)
  from Cons.prems(3) obtain s1 o1 o2 where
    1: "step s op = Some (s1, o1)" "run_ops step s1 ops = Some (s', o2)" "outs = o1 @ o2"
    by (auto split: option.splits)
  with Cons.prems have "inv s1" "rel s o1 s1" by (auto intro: step_inv rel_step)
  with Cons.IH [OF _ _ 1(2)] Cons.prems(2) 1(3) rel_trans show ?case by auto
qed (auto intro: rel_refl)

lemmas runs_inv = run [THEN conjunct1] and runs_rel = run [THEN conjunct2]

end

section \<open>The sources of the graph\<close>

definition sources :: "('d, 'f) mix_graph \<Rightarrow> participant_id set" where
  "sources g = fst ` set (mg_inputs g)"

lemma source_iff: "p \<in> sources g \<longleftrightarrow> bt_get (mg_inputs g) p \<noteq> None"
  unfolding sources_def bt_get_None_iff [symmetric] by (simp add: bt_get_None_iff)

text \<open>How an operation of the graph changes the set of its sources, with the order kept.\<close>

definition sources_to :: "participant_id set \<Rightarrow> ('d, 'f) mix_graph \<Rightarrow> bool" where
  "sources_to ps g \<longleftrightarrow> bt_ok (mg_inputs g) \<and> sources g = ps"

lemma source_insert: "sources_to ps g \<Longrightarrow> sources_to (insert p ps) (g\<lparr>mg_inputs := bt_insert p slot (mg_inputs g)\<rparr>)"
  by (auto simp: sources_to_def source_iff bt_insert_ok bt_get_insert split: if_splits)

lemma source_keys: "map fst (mg_inputs g') = map fst (mg_inputs g) \<Longrightarrow> sources_to ps g' = sources_to ps g"
  unfolding sources_to_def sources_def bt_ok_def by (metis list.set_map)

lemma sources_add_input: "sources_to ps g \<Longrightarrow> sources_to (insert p ps) (add_input fl p g)"
  by (simp add: add_input_def source_insert)

lemma sources_push:
  assumes "sources_to ps g"
  shows "sources_to (insert p ps) (push_frame_at fl p f now g)"
proof -
  have "sources_to ps (g\<lparr>mg_clock := c\<rparr>)" for c using assms by (simp add: sources_to_def sources_def)
  from source_insert [OF this] source_insert [OF assms] show ?thesis by (simp add: push_frame_at_def Let_def)
qed

lemma sources_note_error:
  assumes "sources_to ps g"
  shows "sources_to ps (graph_note_decode_error p now g)"
proof (cases "bt_get (mg_inputs g) p")
  case (Some slot)
  then have "insert p ps = ps" using assms by (auto simp: sources_to_def source_iff)
  then show ?thesis using source_insert [OF assms, of p] Some by (simp add: graph_note_decode_error_def)
qed (use assms in \<open>simp add: graph_note_decode_error_def\<close>)

lemma remove_input_inputs [simp]: "mg_inputs (remove_input p g) = bt_remove p (mg_inputs g)"
  by (auto simp: remove_input_def forget_input_def rebuild_group_routes_def leave_members_def Let_def
      split: option.split)

lemma sources_remove: "sources_to ps g \<Longrightarrow> sources_to (ps - {p}) (remove_input p g)"
  by (auto simp: sources_to_def source_iff bt_remove_ok bt_get_remove split: if_splits)

lemma render_keys:
  assumes "render_output fl fs l now g = Some (f, g')"
  shows "map fst (mg_inputs g') = map fst (mg_inputs g)"
proof -
  obtain st g1 where s: "next_listener_step l now (advance_to fl now g) = Some (st, g1)"
    using assms by (auto simp: render_output_def split: option.splits)
  then have k: "map fst (mg_inputs g1) = map fst (mg_inputs g)"
    using next_step_ticks_only [OF s] by (auto simp: advance_to_plan)
  have c: "map fst (mg_inputs (count_step n hs g1)) = map fst (mg_inputs g1)" for n hs
    by (auto simp: count_step_def Let_def comp_def split: prod.split)
  have "g' = g1 \<or> (\<exists>n hs. g' = count_step n hs g1)"
    using assms s by (cases "step_counts st") (auto simp: render_output_def Let_def split: if_splits)
  then show ?thesis using k c by metis
qed

lemma sources_render: "render_output fl fs l now g = Some (f, g') \<Longrightarrow> sources_to ps g' = sources_to ps g"
  by (rule source_keys) (rule render_keys)

lemma sources_mute [simp]:
  "sources_to ps (set_mixing_enabled b g) = sources_to ps g"
  "sources_to ps (set_global_mute p b g) = sources_to ps g"
  "sources_to ps (set_listener_mute l p b g) = sources_to ps g"
  by (simp_all add: sources_to_def sources_def set_mixing_enabled_def set_global_mute_def set_listener_mute_def)

lemma sources_chunks:
  "sources_to ps g \<Longrightarrow> \<exists>qs. ps \<subseteq> qs \<and> qs \<subseteq> insert p ps \<and>
     sources_to qs (snd (push_sample_chunks lib fl fs p now chunks (dn, g)))"
proof (induction chunks arbitrary: dn g ps)
  case (Cons c cs)
  obtain f dn' where d: "apply_noise_suppression lib fs dn (frame_new c None) = (f, dn')" by (rule prod.exhaust)
  from Cons.IH [OF sources_push [OF Cons.prems, of p fl f now], of dn'] d show ?case by auto
qed auto

lemma inbound_id [simp]:
  "it_participant_id (fst (inbound_sample lib fl fs pcm undecodable now t g)) = it_participant_id t"
  by (simp add: inbound_sample_def Let_def split: prod.split)

lemma sources_inbound:
  assumes "sources_to ps g"
  shows "\<exists>qs. ps \<subseteq> qs \<and> qs \<subseteq> insert (it_participant_id t) ps \<and>
    sources_to qs (snd (inbound_sample lib fl fs pcm undecodable now t g))"
proof -
  define g0 where "g0 = (if it_seen_undecodable t < undecodable
    then graph_note_decode_error (it_participant_id t) now g else g)"
  have g: "sources_to ps g0" using assms by (simp add: g0_def sources_note_error)
  have "snd (inbound_sample lib fl fs pcm undecodable now t g) = (if mg_mixing_enabled g0
      then snd (push_sample_chunks lib fl fs (it_participant_id t) now (slice_chunks FRAME_BYTES pcm) (it_denoiser t, g0))
      else g0)"
    by (cases "it_seen_undecodable t < undecodable")
      (simp_all add: inbound_sample_def g0_def Let_def case_prod_unfold del: frame_sizes)
  then show ?thesis
    using g sources_chunks [OF g, of "it_participant_id t" lib fl fs now "slice_chunks FRAME_BYTES pcm" "it_denoiser t"]
    by (cases "mg_mixing_enabled g0") (simp_all only: if_True if_False, blast)
qed

lemma sources_outbound:
  assumes "outbound_step fl fs p conn now write_ok phase g = Some (next, writes, g')"
  shows "sources_to ps g' = sources_to ps g"
  using assms by (induction fl fs p conn now write_ok phase g rule: outbound_step.induct)
    (auto simp: sources_render split: if_splits prod.splits)

section \<open>The invariant\<close>

definition room_ok :: "('d, 'f) room \<Rightarrow> bool" where
  "room_ok r \<longleftrightarrow> bt_ok (rm_participants r) \<and>
     length (rm_participants r) \<le> rc_max_participants (rm_config r) \<and>
     (\<forall>p participant. bt_get (rm_participants r) p = Some participant \<longrightarrow> pt_id participant = p) \<and>
     (\<exists>ps. sources_to ps (rm_mix_graph r) \<and> (\<forall>p. in_room p r \<longrightarrow> p \<in> ps))"

text \<open>Every outbound task that runs is the task of its participant.\<close>

definition session_ok :: "('d, 'f, 'n) session \<Rightarrow> bool" where
  "session_ok s \<longleftrightarrow> room_ok (se_room s) \<and>
     (\<forall>p participant. bt_get (rm_participants (se_room s)) p = Some participant \<longrightarrow>
        pt_outbound_task participant < length (se_outbound s)) \<and>
     (\<forall>i p phase. task_at (se_outbound s) i = Some (p, phase) \<longrightarrow>
        (\<exists>participant. bt_get (rm_participants (se_room s)) p = Some participant \<and>
           pt_outbound_task participant = i)) \<and>
     (\<forall>p how. se_pending s = Some (p, how) \<longrightarrow> \<not> in_room p (se_room s))"

lemma in_room_graph [simp]: "in_room p (with_graph g r) = in_room p r"
  by (simp add: in_room_def with_graph_def)

lemma with_graph_sel [simp]:
  "rm_participants (with_graph g r) = rm_participants r" "rm_mix_graph (with_graph g r) = g"
  "rm_config (with_graph g r) = rm_config r" "rm_subscribed (with_graph g r) = rm_subscribed r"
  by (simp_all add: with_graph_def)

lemma room_ok_graph:
  assumes "room_ok r" and "\<And>ps. sources_to ps (rm_mix_graph r) \<Longrightarrow> \<exists>qs. ps \<subseteq> qs \<and> sources_to qs g"
  shows "room_ok (with_graph g r)"
proof -
  obtain ps where ps: "sources_to ps (rm_mix_graph r)" "\<forall>p. in_room p r \<longrightarrow> p \<in> ps"
    using assms(1) by (auto simp: room_ok_def)
  obtain qs where qs: "ps \<subseteq> qs" "sources_to qs g" using assms(2) [OF ps(1)] by blast
  have "\<exists>ps. sources_to ps (rm_mix_graph (with_graph g r)) \<and> (\<forall>p. in_room p (with_graph g r) \<longrightarrow> p \<in> ps)"
    using ps(2) qs by (intro exI [of _ qs]) auto
  then show ?thesis using assms(1) by (simp add: room_ok_def)
qed

text \<open>A step that leaves the participants alone and loses no source keeps the invariant.\<close>

lemma session_ok_room:
  assumes "session_ok s" and "room_ok r" and "rm_participants r = rm_participants (se_room s)"
  shows "session_ok (s\<lparr>se_room := r\<rparr>)"
  using assms by (simp add: session_ok_def in_room_def)

lemma same_participants_ok:
  assumes "session_ok s" and "rm_participants r = rm_participants (se_room s)"
    and "rm_config r = rm_config (se_room s)" and "rm_mix_graph r = rm_mix_graph (se_room s)"
  shows "session_ok (s\<lparr>se_room := r\<rparr>)"
  by (rule session_ok_room [OF assms(1) _ assms(2)])
    (use assms in \<open>simp add: session_ok_def room_ok_def in_room_def\<close>)

lemma session_ok_graph:
  assumes "session_ok s"
    and "\<And>ps. sources_to ps (rm_mix_graph (se_room s)) \<Longrightarrow> \<exists>qs. ps \<subseteq> qs \<and> sources_to qs g"
  shows "session_ok (s\<lparr>se_room := with_graph g (se_room s)\<rparr>)"
  by (rule session_ok_room [OF assms(1) room_ok_graph])
    (use assms in \<open>auto simp: session_ok_def\<close>)

lemma task_at_append: "task_at (xs @ [x]) i = (if i = length xs then x else task_at xs i)"
  by (auto simp: task_at_def nth_append)

lemma task_at_update: "task_at (xs[j := x]) i = (if i = j \<and> j < length xs then x else task_at xs i)"
  by (auto simp: task_at_def nth_list_update)

subsection \<open>Joining\<close>

lemma add_participant_cases:
  obtains (refused) e where "add_participant fl p new_pc track task r = (Inl e, [], r)"
  | (joined) pc where "\<not> in_room p r" "length (rm_participants r) < rc_max_participants (rm_config r)"
      "add_participant fl p new_pc track task r = (Inr (), emit r (ParticipantJoined p),
         r\<lparr>rm_mix_graph := add_input fl p (rm_mix_graph r),
           rm_participants := bt_insert p \<lparr>pt_id = p, pt_pc = pc, pt_outbound_task = task\<rparr> (rm_participants r)\<rparr>)"
proof (cases "\<exists>e. add_participant fl p new_pc track task r = (Inl e, [], r)")
  case False
  then show thesis using joined
    by (auto simp: add_participant_def participant_spawn_def not_le
        split: if_splits sum.splits option.splits)
qed (use refused in blast)

lemma room_ok_join:
  assumes "room_ok r" and "\<not> in_room p r" and "length (rm_participants r) < rc_max_participants (rm_config r)"
  shows "room_ok (r\<lparr>rm_mix_graph := add_input fl p (rm_mix_graph r),
    rm_participants := bt_insert p \<lparr>pt_id = p, pt_pc = pc, pt_outbound_task = task\<rparr> (rm_participants r)\<rparr>)"
proof -
  obtain ps where "sources_to ps (rm_mix_graph r)" "\<forall>p. in_room p r \<longrightarrow> p \<in> ps"
    using assms(1) by (auto simp: room_ok_def)
  then have "\<exists>ps. sources_to ps (add_input fl p (rm_mix_graph r)) \<and> (\<forall>q. q = p \<or> in_room q r \<longrightarrow> q \<in> ps)"
    by (intro exI [of _ "insert p ps"]) (auto intro: sources_add_input)
  then show ?thesis using assms
    by (auto simp: room_ok_def in_room_def bt_insert_ok bt_get_insert length_bt_insert)
qed

lemma adopt_refused: "adopt p now (se_room s) s = s"
  by (simp add: adopt_def)

lemma adopt_joined:
  fixes s :: "('d, 'f, 'n) session"
  defines "r \<equiv> se_room s"
  assumes "session_ok s" and "se_pending s = None" and "\<not> in_room p r"
    and "length (rm_participants r) < rc_max_participants (rm_config r)"
    and r': "r' = r\<lparr>rm_mix_graph := add_input fl p (rm_mix_graph r), rm_participants :=
      bt_insert p \<lparr>pt_id = p, pt_pc = pc, pt_outbound_task = length (se_outbound s)\<rparr> (rm_participants r)\<rparr>"
  shows "session_ok (adopt p now r' s)" and "in_room q (se_room (adopt p now r' s)) = (q = p \<or> in_room q r)"
    and "se_pending (adopt p now r' s) = None" and "rm_subscribed (se_room (adopt p now r' s)) = rm_subscribed r"
proof -
  have i: "in_room q r' = (q = p \<or> in_room q r)" for q by (simp add: r' in_room_def bt_get_insert)
  then have a: "adopt p now r' s = s\<lparr>se_room := r', se_handlers := se_handlers s @
      [(p, rc_noise_suppression (rm_config r'))], se_outbound := se_outbound s @ [Some (p, outbound_start now)]\<rparr>"
    using assms(4) by (simp add: adopt_def r_def)
  have ok: "room_ok r'" unfolding r'
    by (rule room_ok_join) (use assms in \<open>simp_all add: session_ok_def\<close>)
  have p: "bt_get (rm_participants r) p = None" using assms(4) by (simp add: in_room_def)
  then have "task_at (se_outbound s) i \<noteq> Some (p, phase)" for i phase
    using assms(2) unfolding session_ok_def r_def by (metis option.distinct(1))
  with p show "session_ok (adopt p now r' s)"
    using assms(2,3) ok unfolding a session_ok_def
    by (auto simp: r' r_def bt_get_insert task_at_append less_Suc_eq)
  show "in_room q (se_room (adopt p now r' s)) = (q = p \<or> in_room q r)"
    "se_pending (adopt p now r' s) = None" "rm_subscribed (se_room (adopt p now r' s)) = rm_subscribed r"
    unfolding a using i assms(3) by simp_all (simp add: r')
qed

subsection \<open>Leaving\<close>

lemma begin_leave_cases:
  fixes s :: "('d, 'f, 'n) session"
  assumes "session_ok s"
  obtains (absent) e where "\<not> in_room p (se_room s)"
      "begin_leave p how s = (s\<lparr>se_pending := None\<rparr>, [Returned (Inl e)])"
  | (present) i where "in_room p (se_room s)"
      "begin_leave p how s = (s\<lparr>se_room := (se_room s)\<lparr>rm_participants := bt_remove p (rm_participants (se_room s)),
           rm_mix_graph := remove_input p (rm_mix_graph (se_room s))\<rparr>,
         se_outbound := (se_outbound s)[i := None], se_pending := Some (p, how)\<rparr>, [])"
      "\<forall>participant. bt_get (rm_participants (se_room s)) p = Some participant \<longrightarrow> pt_outbound_task participant = i"
proof (cases "bt_get (rm_participants (se_room s)) p")
  case None
  then show thesis by (intro absent) (simp_all add: in_room_def begin_leave_def remove_begin_def)
next
  case (Some participant)
  then have "pt_id participant = p" using assms by (simp add: session_ok_def room_ok_def)
  then show thesis using Some by (intro present) (simp_all add: in_room_def begin_leave_def remove_begin_def)
qed

lemma length_bt_remove: "length (bt_remove p t) \<le> length t"
  by (simp add: bt_remove_def)

lemma begin_leave_ok:
  assumes "session_ok s"
  shows "session_ok (fst (begin_leave p how s))"
proof (cases rule: begin_leave_cases [OF assms, of p how, case_names absent present])
  case (absent e)
  then show ?thesis using assms by (simp add: session_ok_def)
next
  case (present i)
  let ?r = "(se_room s)\<lparr>rm_participants := bt_remove p (rm_participants (se_room s)),
     rm_mix_graph := remove_input p (rm_mix_graph (se_room s))\<rparr>"
  have in': "in_room q ?r \<longleftrightarrow> in_room q (se_room s) \<and> q \<noteq> p" for q by (simp add: in_room_def bt_get_remove)
  obtain ps where ps: "sources_to ps (rm_mix_graph (se_room s))" "\<forall>p. in_room p (se_room s) \<longrightarrow> p \<in> ps"
    using assms by (auto simp: session_ok_def room_ok_def)
  then have "\<exists>ps. sources_to ps (rm_mix_graph ?r) \<and> (\<forall>q. in_room q ?r \<longrightarrow> q \<in> ps)"
    using sources_remove [OF ps(1), of p] by (intro exI [of _ "ps - {p}"]) (simp add: in')
  then have "room_ok ?r" using assms length_bt_remove [of p "rm_participants (se_room s)"]
    by (auto simp: session_ok_def room_ok_def bt_remove_ok bt_get_remove split: if_splits)
  then show ?thesis using assms present in' [of p]
    by (auto simp: session_ok_def task_at_update bt_get_remove split: if_splits) blast+
qed

lemma end_leave_cases:
  obtains (following) q rest where "how = Closing (q # rest)" "close = None"
      "end_leave p how close s = apsnd ((@) (map Event (emit (se_room s) (ParticipantLeft p))))
         (begin_leave q (Closing rest) s)"
  | (finished) out where "end_leave p how close s = (s\<lparr>se_pending := None\<rparr>, out)"
      "out = (case close of
          Some e \<Rightarrow> [Returned (Inl (Core e))]
        | None \<Rightarrow> map Event (emit (se_room s)
            (case how of Kicking reason \<Rightarrow> ParticipantKicked p reason | _ \<Rightarrow> ParticipantLeft p)) @
            [Returned (Inr [])])"
proof (cases how)
  case Removing
  then show thesis
    by (intro finished [OF _ refl], cases close) (simp_all add: end_leave_def remove_end_def)
next
  case (Kicking reason)
  then show thesis
    by (intro finished [OF _ refl], cases close)
      (simp_all add: end_leave_def kick_end_def remove_end_def)
next
  case (Closing rest)
  show thesis
  proof (cases "rest = [] \<or> close \<noteq> None")
    case True
    then show thesis using Closing
      by (intro finished [OF _ refl])
        (auto simp: end_leave_def remove_end_def split: option.split list.split)
  next
    case False
    then obtain q rest' where "rest = q # rest'" "close = None" by (cases rest) auto
    then show thesis using Closing by (intro following) (simp_all add: end_leave_def remove_end_def)
  qed
qed

lemma end_leave_ok:
  assumes "session_ok s"
  shows "session_ok (fst (end_leave p how close s))"
proof (cases rule: end_leave_cases [of how close p s, case_names following finished])
  case (following q rest)
  then show ?thesis using begin_leave_ok [OF assms] by simp
next
  case (finished out)
  then show ?thesis using assms by (simp add: session_ok_def)
qed

section \<open>Membership\<close>

text \<open>A participant counts as present until the room has heard from its peer connection.\<close>

definition present :: "participant_id \<Rightarrow> ('d, 'f, 'n) session \<Rightarrow> bool" where
  "present p s \<longleftrightarrow> in_room p (se_room s) \<or> (\<exists>how. se_pending s = Some (p, how))"

fun is_join :: "participant_id \<Rightarrow> session_out \<Rightarrow> bool" where
  "is_join p (Event (ParticipantJoined q)) \<longleftrightarrow> q = p"
| "is_join p _ \<longleftrightarrow> False"

text \<open>The end of a stay: left, kicked, or gone without an event because \<open>pc.close()\<close> failed.\<close>

fun is_departure :: "participant_id \<Rightarrow> session_out \<Rightarrow> bool" where
  "is_departure p (Event (ParticipantLeft q)) \<longleftrightarrow> q = p"
| "is_departure p (Event (ParticipantKicked q _)) \<longleftrightarrow> q = p"
| "is_departure p (PcClose q (Some _)) \<longleftrightarrow> q = p"
| "is_departure p _ \<longleftrightarrow> False"

fun is_close :: "participant_id \<Rightarrow> session_out \<Rightarrow> bool" where
  "is_close p (PcClose q _) \<longleftrightarrow> q = p"
| "is_close p _ \<longleftrightarrow> False"

definition joins :: "participant_id \<Rightarrow> session_out list \<Rightarrow> nat" where
  "joins p outs = length (filter (is_join p) outs)"

definition departures :: "participant_id \<Rightarrow> session_out list \<Rightarrow> nat" where
  "departures p outs = length (filter (is_departure p) outs)"

definition closed_in :: "session_out list \<Rightarrow> participant_id set" where
  "closed_in outs = {p. \<exists>x \<in> set outs. is_close p x}"

lemma counts [simp]:
  "joins p [] = 0" "departures p [] = 0" "closed_in [] = {}"
  "joins p (x # xs) = of_bool (is_join p x) + joins p xs"
  "departures p (x # xs) = of_bool (is_departure p x) + departures p xs"
  "closed_in (x # xs) = {p. is_close p x} \<union> closed_in xs"
  "joins p (xs @ ys) = joins p xs + joins p ys"
  "departures p (xs @ ys) = departures p xs + departures p ys"
  "closed_in (xs @ ys) = closed_in xs \<union> closed_in ys"
  by (auto simp: joins_def departures_def closed_in_def)

definition ledger :: "('d, 'f, 'n) session \<Rightarrow> session_out list \<Rightarrow> ('d, 'f, 'n) session \<Rightarrow> bool" where
  "ledger s outs s' \<longleftrightarrow> rm_config (se_room s') = rm_config (se_room s) \<and>
     (rm_subscribed (se_room s) \<longrightarrow> rm_subscribed (se_room s') \<and>
       (\<forall>p. joins p outs + of_bool (present p s) = departures p outs + of_bool (present p s')))"

text \<open>Who the sources of the graph, the handlers and the inbound tasks belong to.\<close>

definition owners :: "('d, 'f, 'n) session \<Rightarrow> participant_id set" where
  "owners s = sources (rm_mix_graph (se_room s)) \<union> fst ` set (se_handlers s) \<union>
     {it_participant_id t | t i. task_at (se_inbound s) i = Some t}"

definition owned :: "('d, 'f, 'n) session \<Rightarrow> session_out list \<Rightarrow> ('d, 'f, 'n) session \<Rightarrow> bool" where
  "owned s outs s' \<longleftrightarrow> (\<forall>gone. owners s \<subseteq> {p. present p s} \<union> gone \<longrightarrow>
     owners s' \<subseteq> {p. present p s'} \<union> (gone \<union> closed_in outs))"

definition session_rel :: "('d, 'f, 'n) session \<Rightarrow> session_out list \<Rightarrow> ('d, 'f, 'n) session \<Rightarrow> bool" where
  "session_rel s outs s' \<longleftrightarrow> ledger s outs s' \<and> owned s outs s'"

lemma session_rel_refl: "session_rel s [] s"
  by (simp add: session_rel_def ledger_def owned_def)

lemma session_rel_trans: "session_rel s o1 s1 \<Longrightarrow> session_rel s1 o2 s2 \<Longrightarrow> session_rel s (o1 @ o2) s2"
proof -
  assume r: "session_rel s o1 s1" "session_rel s1 o2 s2"
  have "joins p (o1 @ o2) + of_bool (present p s) = departures p (o1 @ o2) + of_bool (present p s2)"
    if "rm_subscribed (se_room s)" for p
  proof -
    have "joins p o1 + of_bool (present p s) = departures p o1 + of_bool (present p s1)"
      "joins p o2 + of_bool (present p s1) = departures p o2 + of_bool (present p s2)"
      using r that by (simp_all add: session_rel_def ledger_def)
    then show ?thesis by simp
  qed
  then have "ledger s (o1 @ o2) s2" using r by (simp add: session_rel_def ledger_def)
  moreover have "owned s (o1 @ o2) s2" using r unfolding session_rel_def owned_def
    by (simp add: Un_assoc) blast
  ultimately show ?thesis by (simp add: session_rel_def)
qed

text \<open>A step that touches neither the participants nor the pending departure.\<close>

definition membership_kept :: "('d, 'f, 'n) session \<Rightarrow> ('d, 'f, 'n) session \<Rightarrow> bool" where
  "membership_kept s s' \<longleftrightarrow> rm_participants (se_room s') = rm_participants (se_room s) \<and>
     rm_config (se_room s') = rm_config (se_room s) \<and> se_pending s' = se_pending s \<and>
     (rm_subscribed (se_room s) \<longrightarrow> rm_subscribed (se_room s'))"

fun is_membership :: "session_out \<Rightarrow> bool" where
  "is_membership (Event (ParticipantJoined _)) \<longleftrightarrow> True"
| "is_membership (Event (ParticipantLeft _)) \<longleftrightarrow> True"
| "is_membership (Event (ParticipantKicked _ _)) \<longleftrightarrow> True"
| "is_membership (PcClose _ _) \<longleftrightarrow> True"
| "is_membership _ \<longleftrightarrow> False"

lemma not_membership:
  "\<not> is_membership x \<Longrightarrow> \<not> is_join p x \<and> \<not> is_departure p x \<and> \<not> is_close p x"
  by (cases x rule: is_membership.cases) auto

lemma not_membership_all:
  "list_all (\<lambda>x. \<not> is_membership x) outs \<Longrightarrow> joins p outs = 0 \<and> departures p outs = 0 \<and> closed_in outs = {}"
  by (induction outs) (auto dest: not_membership)

lemma kept_present: "membership_kept s s' \<Longrightarrow> present p s' = present p s"
  by (simp add: membership_kept_def present_def in_room_def)

lemma kept_rel:
  assumes "membership_kept s s'" and "list_all (\<lambda>x. \<not> is_membership x) outs"
    and "owners s' \<subseteq> owners s \<union> {p. present p s}"
  shows "session_rel s outs s'"
proof -
  have "ledger s outs s'" using assms(1) not_membership_all [OF assms(2)] kept_present [OF assms(1)]
    by (simp add: ledger_def membership_kept_def)
  moreover have "owned s outs s'" using assms(3) kept_present [OF assms(1)] by (auto simp: owned_def)
  ultimately show ?thesis by (simp add: session_rel_def)
qed

section \<open>Every step keeps the books\<close>

lemma add_rel:
  fixes s :: "('d, 'f, 'n) session"
  assumes "session_ok s" and "se_pending s = None"
    and "add_participant fl p new_pc track (length (se_outbound s)) (se_room s) = (res, evs, r)"
  shows "session_ok (adopt p now r s) \<and> session_rel s (map Event evs @ [Returned x]) (adopt p now r s)"
proof (cases rule: add_participant_cases [of fl p new_pc track "length (se_outbound s)" "se_room s",
    case_names refused joined])
  case (refused e)
  then have "adopt p now r s = s" "evs = []" using assms(3) by (simp_all add: adopt_def)
  then show ?thesis using assms(1)
    by (simp add: session_rel_def ledger_def owned_def)
next
  case (joined pc)
  have r: "r = (se_room s)\<lparr>rm_mix_graph := add_input fl p (rm_mix_graph (se_room s)), rm_participants :=
      bt_insert p \<lparr>pt_id = p, pt_pc = pc, pt_outbound_task = length (se_outbound s)\<rparr> (rm_participants (se_room s))\<rparr>"
    and evs: "evs = emit (se_room s) (ParticipantJoined p)"
    using joined(3) assms(3) by simp_all
  note a = adopt_joined [OF assms(1,2) joined(1,2) r]
  have pres: "present q (adopt p now r s) = (q = p \<or> present q s)" for q
    using a(2,3) assms(2) by (simp add: present_def)
  have np: "\<not> present p s" using joined(1) assms(2) by (simp add: present_def)
  have "rm_config (se_room (adopt p now r s)) = rm_config (se_room s)" by (simp add: adopt_def r)
  then have l: "ledger s (map Event evs @ [Returned x]) (adopt p now r s)"
    using np by (auto simp: ledger_def a(4) pres evs emit_def)
  obtain ps where ps: "sources_to ps (rm_mix_graph (se_room s))"
    using assms(1) by (auto simp: session_ok_def room_ok_def)
  have "sources (rm_mix_graph (se_room (adopt p now r s))) = insert p (sources (rm_mix_graph (se_room s)))"
    using sources_add_input [OF ps, of p fl] ps by (simp add: adopt_def r sources_to_def)
  then have "owners (adopt p now r s) \<subseteq> insert p (owners s)"
    by (auto simp: owners_def adopt_def)
  then have "owned s (map Event evs @ [Returned x]) (adopt p now r s)"
    by (auto simp: owned_def pres)
  with l a(1) show ?thesis by (simp add: session_rel_def)
qed

lemma begin_leave_rel:
  fixes s :: "('d, 'f, 'n) session"
  assumes "session_ok s" and "se_pending s = None"
  shows "session_rel s (snd (begin_leave p how s)) (fst (begin_leave p how s))"
proof (cases rule: begin_leave_cases [OF assms(1), of p how, case_names absent present])
  case (absent e)
  then have "fst (begin_leave p how s) = s" using assms(2) by simp
  then show ?thesis using absent by (simp add: session_rel_def ledger_def owned_def)
next
  case (present i)
  let ?s = "fst (begin_leave p how s)"
  have pres: "Conference_Run.present q ?s = Conference_Run.present q s" for q
    using present(1,2) assms(2) by (auto simp: present_def in_room_def bt_get_remove)
  obtain ps where ps: "sources_to ps (rm_mix_graph (se_room s))"
    using assms(1) by (auto simp: session_ok_def room_ok_def)
  have "sources (rm_mix_graph (se_room ?s)) \<subseteq> sources (rm_mix_graph (se_room s))"
    using sources_remove [OF ps, of p] ps present(2) by (auto simp: sources_to_def)
  then have "owners ?s \<subseteq> owners s" using present(2) by (auto simp: owners_def)
  then show ?thesis using present(2) pres
    by (auto simp: session_rel_def ledger_def owned_def)
qed

lemma begin_leave_pending: "begin_leave p how (s\<lparr>se_pending := x\<rparr>) = begin_leave p how s"
  by (simp add: begin_leave_def split: prod.split sum.split)

lemma closed_rel:
  assumes "session_ok s" and "se_pending s = Some (p, how)"
    and "evs = (case close of Some e \<Rightarrow> [] | None \<Rightarrow> map Event (emit (se_room s) (ev p)))"
    and "ev p = ParticipantLeft p \<or> (\<exists>reason. ev p = ParticipantKicked p reason)"
    and "list_all (\<lambda>x. \<not> is_membership x) outs"
  shows "session_rel s (PcClose p close # evs @ outs) (s\<lparr>se_pending := None\<rparr>)"
proof -
  have np: "\<not> in_room p (se_room s)" using assms(1,2) by (auto simp: session_ok_def)
  have pres: "present q (s\<lparr>se_pending := None\<rparr>) = (present q s \<and> q \<noteq> p)" for q
    using np assms(2) by (auto simp: present_def)
  have n: "joins q outs = 0" "departures q outs = 0" "closed_in outs = {}" for q
    using not_membership_all [OF assms(5)] by simp_all
  have pp: "present p s" using assms(2) by (simp add: present_def)
  have "departures q (PcClose p close # evs @ outs) = of_bool (q = p)"
      "joins q (PcClose p close # evs @ outs) = 0" if "rm_subscribed (se_room s)" for q
    using that assms(3,4) n by (auto simp: emit_def split: option.split)
  then have "ledger s (PcClose p close # evs @ outs) (s\<lparr>se_pending := None\<rparr>)"
    using pp by (auto simp: ledger_def pres)
  moreover have "owned s (PcClose p close # evs @ outs) (s\<lparr>se_pending := None\<rparr>)"
  proof -
    have "owners (s\<lparr>se_pending := None\<rparr>) = owners s" by (simp add: owners_def)
    then show ?thesis by (auto simp: owned_def pres)
  qed
  ultimately show ?thesis by (simp add: session_rel_def)
qed

lemma end_leave_rel:
  assumes "session_ok s" and "se_pending s = Some (p, how)"
  shows "session_rel s (PcClose p close # snd (end_leave p how close s)) (fst (end_leave p how close s))"
proof (cases rule: end_leave_cases [of how close p s, case_names following finished])
  case (following q rest)
  let ?s = "s\<lparr>se_pending := None\<rparr>"
  have "session_rel s (PcClose p close # map Event (emit (se_room s) (ParticipantLeft p)) @ []) ?s"
    by (rule closed_rel [OF assms, where ev = ParticipantLeft]) (use following in simp_all)
  moreover have "session_ok ?s" using assms(1) by (simp add: session_ok_def)
  then have "session_rel ?s (snd (begin_leave q (Closing rest) s)) (fst (begin_leave q (Closing rest) s))"
    using begin_leave_rel [of ?s q "Closing rest"] by (simp add: begin_leave_pending)
  ultimately show ?thesis using following session_rel_trans by fastforce
next
  case (finished out)
  let ?ev = "\<lambda>p. case how of Kicking reason \<Rightarrow> ParticipantKicked p reason | _ \<Rightarrow> ParticipantLeft p"
  have "session_rel s (PcClose p close # (case close of Some e \<Rightarrow> [] | None \<Rightarrow> map Event (emit (se_room s) (?ev p))) @
      [Returned (case close of Some e \<Rightarrow> Inl (Core e) | None \<Rightarrow> Inr [])]) (s\<lparr>se_pending := None\<rparr>)"
    by (rule closed_rel [OF assms, where ev = ?ev]) (auto split: leaving.split)
  then show ?thesis using finished by (cases close) auto
qed

subsection \<open>Steps that only touch the graph, or nothing\<close>

lemma owners_room [simp]:
  "rm_mix_graph r = rm_mix_graph (se_room s) \<Longrightarrow> owners (s\<lparr>se_room := r\<rparr>) = owners s"
  by (simp add: owners_def)

lemma mute_graph:
  "matrix_set_mute b target scope listener g = Inr g' \<Longrightarrow>
     mg_inputs g' = mg_inputs g \<and> mg_mixing_enabled g' = mg_mixing_enabled g"
  by (auto simp: matrix_set_mute_def set_global_mute_def set_listener_mute_def split: mute_scope.splits option.splits)

text \<open>What a call that neither adds nor removes anyone does to the room.\<close>

definition calm :: "('d, 'f) room \<Rightarrow> ('d, 'f) room \<Rightarrow> bool" where
  "calm r r' \<longleftrightarrow> rm_participants r' = rm_participants r \<and> rm_config r' = rm_config r \<and>
     rm_subscribed r' = rm_subscribed r \<and>
     (\<forall>ps. sources_to ps (rm_mix_graph r) \<longrightarrow>
        (\<exists>qs. ps \<subseteq> qs \<and> qs \<subseteq> ps \<union> {p. in_room p r} \<and> sources_to qs (rm_mix_graph r')))"

lemma calm_refl [simp]: "calm r r"
  by (auto simp: calm_def)

lemma calm_graph:
  "(\<And>ps. sources_to ps (rm_mix_graph r) \<Longrightarrow> \<exists>qs. ps \<subseteq> qs \<and> qs \<subseteq> ps \<union> {p. in_room p r} \<and> sources_to qs g) \<Longrightarrow>
     calm r (with_graph g r)"
  by (simp add: calm_def)

lemma calm_inputs: "mg_inputs g = mg_inputs (rm_mix_graph r) \<Longrightarrow> calm r (with_graph g r)"
  by (rule calm_graph) (auto simp: sources_to_def sources_def)

lemma calm_step:
  assumes "session_ok s" and "calm (se_room s) r" and "list_all (\<lambda>x. \<not> is_membership x) outs"
  shows "session_ok (s\<lparr>se_room := r\<rparr>) \<and> session_rel s outs (s\<lparr>se_room := r\<rparr>)"
proof -
  obtain ps where ps: "sources_to ps (rm_mix_graph (se_room s))" "\<forall>p. in_room p (se_room s) \<longrightarrow> p \<in> ps"
    using assms(1) by (auto simp: session_ok_def room_ok_def)
  obtain qs where qs: "ps \<subseteq> qs" "qs \<subseteq> ps \<union> {p. in_room p (se_room s)}" "sources_to qs (rm_mix_graph r)"
    using assms(2) ps(1) by (auto simp: calm_def)
  have same: "in_room p r = in_room p (se_room s)" for p using assms(2) by (simp add: calm_def in_room_def)
  have "room_ok r" using assms(1,2) ps qs same
    by (auto simp: room_ok_def session_ok_def calm_def intro!: exI [of _ qs])
  then have "session_ok (s\<lparr>se_room := r\<rparr>)"
    using session_ok_room [OF assms(1)] assms(2) by (simp add: calm_def)
  moreover have "owners (s\<lparr>se_room := r\<rparr>) \<subseteq> owners s \<union> {p. present p s}"
    using ps qs by (auto simp: owners_def sources_to_def present_def)
  then have "session_rel s outs (s\<lparr>se_room := r\<rparr>)"
    using assms(2,3) by (intro kept_rel) (simp_all add: membership_kept_def calm_def)
  ultimately show ?thesis by blast
qed

lemma calm_mute: "mute_participant target scope listener r = (res, evs, r') \<Longrightarrow>
    calm r r' \<and> list_all (\<lambda>x. \<not> is_membership x) (map Event evs)"
  by (auto simp: mute_participant_def matrix_mute_def emit_def intro!: calm_inputs dest: mute_graph split: sum.splits)

lemma calm_unmute: "unmute_participant target scope listener r = (res, r') \<Longrightarrow> calm r r'"
  by (auto simp: unmute_participant_def matrix_unmute_def intro!: calm_inputs dest: mute_graph split: sum.splits)

lemma calm_mixing: "room_set_mixing_enabled b r = (evs, r') \<Longrightarrow>
    calm r r' \<and> list_all (\<lambda>x. \<not> is_membership x) (map Event evs)"
  by (auto simp: room_set_mixing_enabled_def set_mixing_enabled_def emit_def intro!: calm_inputs)

lemma calm_push: "in_room p r \<Longrightarrow> calm r (with_graph (push_frame_at fl p f now (rm_mix_graph r)) r)"
  by (rule calm_graph, rule exI, rule conjI [OF _ conjI], rule subset_insertI, fastforce, rule sources_push)

lemma calm_inject: "inject_frame_at fl p f now r = (res, r') \<Longrightarrow> calm r r'"
  by (auto simp: inject_frame_at_def ensure_participant_exists_def intro: calm_push split: if_splits)

lemma calm_render: "render_output_at fl fs p now r = Some (res, r') \<Longrightarrow> calm r r'"
  by (auto simp: render_output_at_def intro!: calm_graph simp: sources_render split: sum.splits)

lemma returned_calm [simp]: "list_all (\<lambda>x. \<not> is_membership x) (returned res)"
  by (cases res) simp_all

lemma returned_single: "\<exists>x. returned res = [Returned x]"
  by (cases res) simp_all

subsection \<open>All steps\<close>

lemma room_call_ok:
  assumes "session_ok s" and "se_pending s = None" and "room_call fl fs op s = Some (s', outs)"
  shows "session_ok s' \<and> session_rel s outs s'"
proof -
  have keep: "session_ok s \<and> session_rel s outs s" if "list_all (\<lambda>x. \<not> is_membership x) outs" for outs
    using that assms(1) by (simp add: kept_rel membership_kept_def)
  have leave: "session_ok s' \<and> session_rel s outs s'" if "begin_leave p how s = (s', outs)" for p how
    using begin_leave_ok [OF assms(1), of p how] begin_leave_rel [OF assms(1,2), of p how] that by simp
  have calm: "session_ok (s\<lparr>se_room := r\<rparr>) \<and> session_rel s outs (s\<lparr>se_room := r\<rparr>)"
    if "calm (se_room s) r" "list_all (\<lambda>x. \<not> is_membership x) outs" for r outs
    using calm_step [OF assms(1) that] .
  show ?thesis
  proof (cases op)
    case Subscribe
    have "session_ok s'" using assms Subscribe
      by (auto simp: subscribe_events_def intro: same_participants_ok)
    moreover have "session_rel s outs s'" using assms Subscribe
      by (auto simp: subscribe_events_def membership_kept_def intro!: kept_rel)
    ultimately show ?thesis ..
  next
    case (AddParticipant p new_pc track now)
    then show ?thesis using assms(3) add_rel [OF assms(1,2)] returned_single
      by (auto split: prod.splits) metis+
  next
    case (Signal msg new_pc track pr now)
    show ?thesis
    proof (cases msg)
      case (Join p room_id)
      have "\<exists>res' evs r. add_participant fl p new_pc track (length (se_outbound s)) (se_room s) = (res', evs, r) \<and>
          (\<exists>x. s' = adopt p now r s \<and> outs = map Event evs @ [Returned x])"
        using assms(3) Signal Join by (auto simp: handle_join_def split: prod.splits sum.splits)
      then show ?thesis using add_rel [OF assms(1,2)] by blast
    next
      case (Leave p)
      then show ?thesis using assms(3) Signal leave by auto
    qed (use assms(3) Signal keep [of "[Returned x]" for x] in auto)
  next
    case (CloseRoom order)
    then have "(s' = s \<and> list_all (\<lambda>x. \<not> is_membership x) outs) \<or> (\<exists>p how. begin_leave p how s = (s', outs))"
      using assms(3) by (auto split: if_splits list.splits)
    then show ?thesis using leave keep by blast
  next
    case (MuteParticipant target scope listener)
    then show ?thesis using assms(3) calm by (auto dest!: calm_mute split: prod.splits)
  next
    case (UnmuteParticipant target scope listener)
    obtain res r where u: "unmute_participant target scope listener (se_room s) = (res, r)" by (rule prod.exhaust)
    then show ?thesis using assms(3) calm [OF calm_unmute [OF u] returned_calm [of res]] UnmuteParticipant by auto
  next
    case (SetMixing b)
    then show ?thesis using assms(3) calm by (auto dest!: calm_mixing split: prod.splits)
  next
    case (InjectFrame p f now)
    obtain res r where u: "inject_frame_at fl p f now (se_room s) = (res, r)" by (rule prod.exhaust)
    then show ?thesis using assms(3) calm [OF calm_inject [OF u] returned_calm [of res]] InjectFrame by auto
  next
    case (RenderOutput p now)
    then obtain res r where u: "render_output_at fl fs p now (se_room s) = Some (res, r)" "s' = s\<lparr>se_room := r\<rparr>"
        "outs = (case res of Inl e \<Rightarrow> [Returned (Inl e)] | Inr f \<Rightarrow> [Rendered f])"
      using assms(3) by auto
    show ?thesis unfolding u(2) by (rule calm [OF calm_render [OF u(1)]]) (simp add: u(3) split: sum.split)
  qed (use assms(3) leave keep [of "[]"] in auto)
qed

lemma inbound_step_ok:
  assumes "session_ok s" and "task_at (se_inbound s) i = Some t"
    and "inbound_sample lib fl fs pcm undecodable now t (rm_mix_graph (se_room s)) = (t', g)"
  defines "s' \<equiv> s\<lparr>se_room := with_graph g (se_room s), se_inbound := (se_inbound s)[i := Some t']\<rparr>"
  shows "session_ok s' \<and> session_rel s [] s'"
proof -
  have id: "it_participant_id t' = it_participant_id t"
    using inbound_id [of lib fl fs pcm undecodable now t "rm_mix_graph (se_room s)"] assms(3) by simp
  obtain ps where ps: "sources_to ps (rm_mix_graph (se_room s))"
    using assms(1) by (auto simp: session_ok_def room_ok_def)
  have grow: "\<exists>qs. ps \<subseteq> qs \<and> qs \<subseteq> insert (it_participant_id t) ps \<and> sources_to qs g"
    if "sources_to ps (rm_mix_graph (se_room s))" for ps
    using sources_inbound [OF that, of t lib fl fs pcm undecodable now] assms(3) by simp
  have "session_ok (s\<lparr>se_room := with_graph g (se_room s)\<rparr>)"
    by (rule session_ok_graph [OF assms(1)]) (use grow in blast)
  then have ok: "session_ok s'" by (simp add: s'_def session_ok_def)
  have "it_participant_id t \<in> owners s" using assms(2) by (auto simp: owners_def)
  moreover have "sources g \<subseteq> insert (it_participant_id t) (sources (rm_mix_graph (se_room s)))"
    using grow [OF ps] ps by (auto simp: sources_to_def)
  moreover have "owners s' \<subseteq> sources g \<union> insert (it_participant_id t) (owners s)"
    by (auto simp: owners_def s'_def task_at_update id split: if_splits)
  moreover have "sources (rm_mix_graph (se_room s)) \<subseteq> owners s" by (auto simp: owners_def)
  ultimately have "owners s' \<subseteq> owners s" by blast
  then have "session_rel s [] s'"
    by (intro kept_rel) (auto simp: membership_kept_def s'_def)
  with ok show ?thesis ..
qed

lemma outbound_step_ok:
  assumes "session_ok s" and "task_at (se_outbound s) i = Some (p, phase)"
    and "outbound_step fl fs p conn now write_ok phase (rm_mix_graph (se_room s)) = Some (next, writes, g)"
  defines "s' \<equiv> s\<lparr>se_room := with_graph g (se_room s),
     se_outbound := (se_outbound s)[i := map_option (Pair p) next]\<rparr>"
  shows "session_ok s' \<and> session_rel s (map (\<lambda>(pcm, d). Wrote i p pcm d) writes) s'"
proof -
  have same: "sources_to ps g = sources_to ps (rm_mix_graph (se_room s))" for ps
    by (rule sources_outbound [OF assms(3)])
  have "session_ok (s\<lparr>se_room := with_graph g (se_room s)\<rparr>)"
    by (rule session_ok_graph [OF assms(1)]) (use same in auto)
  moreover have "\<exists>phase. task_at (se_outbound s) j = Some (q, phase)"
    if "task_at (se_outbound s') j = Some (q, ph)" for j q ph
    using that assms(2) by (auto simp: s'_def task_at_update split: if_splits)
  ultimately have ok: "session_ok s'" by (simp add: session_ok_def s'_def)
  obtain ps where "sources_to ps (rm_mix_graph (se_room s))"
    using assms(1) by (auto simp: session_ok_def room_ok_def)
  then have "sources g = sources (rm_mix_graph (se_room s))" using same [of ps] by (simp add: sources_to_def)
  then have "owners s' = owners s" by (simp add: owners_def s'_def)
  moreover have "list_all (\<lambda>x. \<not> is_membership x) (map (\<lambda>(pcm, d). Wrote i p pcm d) writes)"
    by (auto simp: list_all_iff)
  ultimately have "session_rel s (map (\<lambda>(pcm, d). Wrote i p pcm d) writes) s'"
    by (intro kept_rel) (auto simp: membership_kept_def s'_def)
  with ok show ?thesis ..
qed

lemma session_step_ok:
  assumes "session_ok s" and "session_step lib fl fs s op = Some (s', outs)"
  shows "session_ok s' \<and> session_rel s outs s'"
proof -
  have keep: "session_ok s \<and> session_rel s [] s" using assms(1) by (simp add: session_rel_refl)
  have room: "session_ok s' \<and> session_rel s outs s'"
    if "session_step lib fl fs s op = (if se_pending s = None then room_call fl fs op s else Some (s, []))"
  proof (cases "se_pending s = None")
    case True
    then have "room_call fl fs op s = Some (s', outs)" using that assms(2) by (metis (full_types))
    then show ?thesis by (rule room_call_ok [OF assms(1) True])
  next
    case False
    then have "s' = s \<and> outs = []" using that assms(2) by auto
    then show ?thesis using keep by simp
  qed
  show ?thesis
  proof (cases op)
    case (PcClosedWith close)
    show ?thesis
    proof (cases "se_pending s")
      case (Some x)
      obtain p how where x: "x = (p, how)" by (rule prod.exhaust)
      show ?thesis
        using end_leave_ok [OF assms(1), of p how close] end_leave_rel [OF assms(1), of p how close] assms(2)
          PcClosedWith Some x by (cases "end_leave p how close s") auto
    qed (use assms(2) PcClosedWith keep in auto)
  next
    case (TrackArrived h)
    have "owners (s\<lparr>se_inbound := se_inbound s @ [Some (inbound_start lib fs (fst (se_handlers s ! h)) (snd (se_handlers s ! h)))]\<rparr>)
        \<subseteq> owners s" if "h < length (se_handlers s)"
      using that by (auto simp: owners_def task_at_append inbound_start_def split: if_splits)
    then show ?thesis using assms TrackArrived keep
      by (auto simp: session_ok_def membership_kept_def intro!: kept_rel split: if_splits)
  next
    case (Sample i pcm undecodable now)
    show ?thesis
    proof (cases "task_at (se_inbound s) i")
      case (Some t)
      then show ?thesis using inbound_step_ok [OF assms(1) Some] assms(2) Sample
        by (auto simp: Let_def split: prod.splits)
    qed (use assms(2) Sample keep in auto)
  next
    case (TrackEnded i)
    have "owners (s\<lparr>se_inbound := (se_inbound s)[i := None]\<rparr>) \<subseteq> owners s"
      by (auto simp: owners_def task_at_update split: if_splits)
    then show ?thesis using assms TrackEnded
      by (auto simp: session_ok_def membership_kept_def intro!: kept_rel)
  next
    case (OutboundWake i conn now write_ok)
    show ?thesis
    proof (cases "task_at (se_outbound s) i")
      case (Some x)
      obtain p phase where x: "x = (p, phase)" by (rule prod.exhaust)
      then show ?thesis using outbound_step_ok [OF assms(1), of i p phase] assms(2) OutboundWake Some by auto
    qed (use assms(2) OutboundWake keep in auto)
  qed (use room in simp_all)
qed

interpretation conference: panicking_component "session_step lib fl fs" session_ok "\<lambda>_. True" session_rel
  for lib fl fs
  by unfold_locales (auto dest: session_step_ok intro: session_rel_refl session_rel_trans)

end
