(* ===== verification/Conference_Properties.thy ===== *)
theory Conference_Properties
  imports Conference_Run
begin

text \<open>
  The properties of a conference room over whole runs, each with a witness, and the lemmas behind
  the findings: a participant's input can come back after it has left, and a join with the same id
  then inherits it.
\<close>

section \<open>From the start\<close>

lemma session_start_ok: "session_ok (session_start fs name config)"
  by (auto simp: session_ok_def room_ok_def session_start_def room_new_def graph_new_def sources_to_def
      sources_def in_room_def task_at_def)

lemma session_start_empty:
  "\<not> present p (session_start fs name config)" "owners (session_start fs name config) = {}"
  by (simp_all add: present_def session_start_def room_new_def in_room_def owners_def sources_def graph_new_def
      task_at_def)

lemma config_start [simp]: "rm_config (se_room (session_start fs name config)) = config"
  by (simp add: session_start_def room_new_def)

lemma run_from_start:
  assumes "run_ops (session_step lib fl fs) (session_start fs name config) ops = Some (s, outs)"
  shows "session_ok s" and "session_rel (session_start fs name config) outs s"
  using conference.run [OF session_start_ok _ assms] by (simp_all add: list_all_iff)

lemma run_subscribed:
  fixes s :: "('d, 'f, 'n) session"
  assumes "run_ops (session_step lib fl fs) (session_start fs name config) (Subscribe # ops) = Some (s, outs)"
  shows "rm_config (se_room s) = config"
    and "joins p outs = departures p outs + of_bool (present p s)"
proof -
  let ?s = "(session_start fs name config)\<lparr>se_room := subscribe_events (room_new fs name config)\<rparr>
    :: ('d, 'f, 'n) session"
  have run: "run_ops (session_step lib fl fs) ?s ops = Some (s, outs)"
    using assms by (auto simp: session_start_def split: option.splits)
  have ok: "session_ok ?s"
    by (rule same_participants_ok [OF session_start_ok])
      (simp_all add: subscribe_events_def session_start_def)
  have "\<not> present p ?s" "rm_subscribed (se_room ?s)" "rm_config (se_room ?s) = config"
    by (simp_all add: present_def in_room_def subscribe_events_def session_start_def room_new_def)
  moreover have l: "ledger ?s outs s"
    using conference.run [OF ok _ run] by (simp add: session_rel_def list_all_iff)
  moreover have "rm_subscribed (se_room ?s) \<Longrightarrow>
      joins p outs + of_bool (present p ?s) = departures p outs + of_bool (present p s)"
    using l unfolding ledger_def by blast
  ultimately show "rm_config (se_room s) = config" "joins p outs = departures p outs + of_bool (present p s)"
    by (simp_all add: ledger_def)
qed

section \<open>The membership events\<close>

text \<open>
  C32: the events of a room tell who is in it.  For a subscriber from the start, however the calls and
  the tasks interleave: a participant has joined as often as it has left, been kicked or failed to
  close, plus one while it is present; the room never exceeds its capacity, and every participant
  in it has its input in the mix.
\<close>

theorem membership_events_account:
  assumes "run_ops (session_step lib fl fs) (session_start fs name config) (Subscribe # ops) = Some (s, outs)"
  shows "joins p outs = departures p outs + of_bool (present p s) \<and>
    length (rm_participants (se_room s)) \<le> rc_max_participants config \<and>
    (in_room p (se_room s) \<longrightarrow> bt_get (mg_inputs (rm_mix_graph (se_room s))) p \<noteq> None)"
proof -
  have "session_ok s" by (rule run_from_start [OF assms])
  then show ?thesis using run_subscribed [OF assms]
    by (auto simp: session_ok_def room_ok_def sources_to_def source_iff)
qed

section \<open>Where sources come from\<close>

text \<open>
  nobody else is in the mix.  Every source of the mix graph belongs to a participant that is
  present, or to one whose peer connection has been closed_in (its inbound loop may still push).
\<close>

theorem sources_have_owners:
  assumes "run_ops (session_step lib fl fs) (session_start fs name config) ops = Some (s, outs)"
    and "bt_get (mg_inputs (rm_mix_graph (se_room s))) p \<noteq> None"
  shows "present p s \<or> (\<exists>answer. PcClose p answer \<in> set outs)"
proof -
  have "owned (session_start fs name config) outs s"
    using run_from_start(2) [OF assms(1)] by (simp add: session_rel_def)
  from this [unfolded owned_def, rule_format, of "{}"]
  have "owners s \<subseteq> {p. present p s} \<union> closed_in outs" by (simp add: session_start_empty)
  moreover have "p \<in> owners s" using assms(2) by (simp add: owners_def source_iff)
  ultimately have "present p s \<or> (\<exists>x \<in> set outs. is_close p x)" by (auto simp: closed_in_def)
  moreover have "is_close p x \<Longrightarrow> \<exists>answer. x = PcClose p answer" for x
    by (cases x rule: is_close.cases [of "(p, x)" for x, simplified]) auto
  ultimately show ?thesis by blast
qed

section \<open>A mute lasts\<close>

text \<open>The operations that neither unmute \<open>t\<close> for everyone nor take it out of the room.\<close>

fun leaves_muted :: "participant_id \<Rightarrow> session_op \<Rightarrow> bool" where
  "leaves_muted t (UnmuteParticipant p scope _) \<longleftrightarrow> p \<noteq> t \<or> scope \<noteq> Global"
| "leaves_muted t (RemoveParticipant p) \<longleftrightarrow> p \<noteq> t"
| "leaves_muted t (KickParticipant p _) \<longleftrightarrow> p \<noteq> t"
| "leaves_muted t (Signal (Leave p) _ _ _ _) \<longleftrightarrow> p \<noteq> t"
| "leaves_muted t (CloseRoom _) \<longleftrightarrow> False"
| "leaves_muted t _ \<longleftrightarrow> True"

definition muted_for_all :: "participant_id \<Rightarrow> ('d, 'f, 'n) session \<Rightarrow> bool" where
  "muted_for_all t s \<longleftrightarrow> is_globally_muted t (rm_mix_graph (se_room s)) \<and>
     (\<forall>p rest. se_pending s \<noteq> Some (p, Closing rest))"

lemma mute_of_graph:
  "mg_global_mute (push_frame_at fl p f now g) = mg_global_mute g"
  "mg_global_mute (add_input fl p g) = mg_global_mute g"
  "mg_global_mute (graph_note_decode_error p now g) = mg_global_mute g"
  "mg_global_mute (set_mixing_enabled b g) = mg_global_mute g"
  "mg_global_mute (set_listener_mute l p b g) = mg_global_mute g"
  "mg_global_mute (remove_input p g) = mg_global_mute g - {p}"
  by (auto simp: push_frame_at_def add_input_def graph_note_decode_error_def set_mixing_enabled_def
      set_listener_mute_def remove_input_def forget_input_def rebuild_group_routes_def leave_members_def
      Let_def split: option.split)

lemma mute_of_render:
  assumes "render_output fl fs l now g = Some (f, g')"
  shows "mg_global_mute g' = mg_global_mute g"
proof -
  obtain st g1 where s: "next_listener_step l now (advance_to fl now g) = Some (st, g1)"
    using assms by (auto simp: render_output_def split: option.splits)
  have "mg_global_mute g1 = mg_global_mute g"
    using next_step_ticks_only [OF s] by (auto simp: advance_to_plan)
  moreover have "mg_global_mute (count_step n hs g1) = mg_global_mute g1" for n hs
    by (cases n) (simp add: count_step_def)
  moreover have "g' = g1 \<or> (\<exists>n hs. g' = count_step n hs g1)"
    using assms s by (cases "step_counts st") (auto simp: render_output_def Let_def split: if_splits)
  ultimately show ?thesis by metis
qed

lemma mute_of_chunks:
  "mg_global_mute (snd (push_sample_chunks lib fl fs p now chunks (dn, g))) = mg_global_mute g"
  by (induction chunks arbitrary: dn g) (simp_all add: mute_of_graph case_prod_unfold Let_def)

lemma mute_of_inbound:
  "mg_global_mute (snd (inbound_sample lib fl fs pcm undecodable now t g)) = mg_global_mute g"
  by (simp add: inbound_sample_def case_prod_unfold Let_def mute_of_chunks mute_of_graph)

lemma mute_of_outbound:
  "outbound_step fl fs p conn now write_ok phase g = Some (next, writes, g') \<Longrightarrow>
     mg_global_mute g' = mg_global_mute g"
  by (induction fl fs p conn now write_ok phase g rule: outbound_step.induct)
    (auto simp: mute_of_render split: if_splits prod.splits)

lemma mute_of_add:
  "add_participant fl p new_pc track task r = (res, evs, r') \<Longrightarrow>
     mg_global_mute (rm_mix_graph r') = mg_global_mute (rm_mix_graph r)"
  by (cases rule: add_participant_cases [of fl p new_pc track task r]) (auto simp: mute_of_graph)

lemma mute_of_mute:
  "mute_participant target scope listener r = (res, evs, r') \<Longrightarrow> t \<in> mg_global_mute (rm_mix_graph r) \<Longrightarrow>
     t \<in> mg_global_mute (rm_mix_graph r')"
  by (auto simp: mute_participant_def matrix_mute_def matrix_set_mute_def set_global_mute_def set_listener_mute_def
      split: sum.splits mute_scope.splits option.splits)

lemma mute_of_unmute:
  "unmute_participant target scope listener r = (res, r') \<Longrightarrow> target \<noteq> t \<or> scope \<noteq> Global \<Longrightarrow>
     t \<in> mg_global_mute (rm_mix_graph r) \<Longrightarrow> t \<in> mg_global_mute (rm_mix_graph r')"
  by (auto simp: unmute_participant_def matrix_unmute_def matrix_set_mute_def set_global_mute_def
      set_listener_mute_def split: sum.splits mute_scope.splits option.splits)

lemma mute_of_leave:
  assumes "session_ok s" and "muted_for_all t s" and "p \<noteq> t" and "\<forall>rest. how \<noteq> Closing rest"
  shows "muted_for_all t (fst (begin_leave p how s))"
  using assms(2-4)
  by (cases rule: begin_leave_cases [OF assms(1), of p how])
    (auto simp: muted_for_all_def is_globally_muted_def mute_of_graph)

lemma muted_room:
  "muted_for_all t s \<Longrightarrow> t \<in> mg_global_mute (rm_mix_graph r) \<Longrightarrow> muted_for_all t (s\<lparr>se_room := r\<rparr>)"
  by (simp add: muted_for_all_def is_globally_muted_def)

lemma muted_adopt:
  "muted_for_all t s \<Longrightarrow> mg_global_mute (rm_mix_graph r) = mg_global_mute (rm_mix_graph (se_room s)) \<Longrightarrow>
     muted_for_all t (adopt p now r s)"
  by (simp add: muted_for_all_def is_globally_muted_def adopt_def)

lemma muted_in: "muted_for_all t s \<Longrightarrow> t \<in> mg_global_mute (rm_mix_graph (se_room s))"
  by (simp add: muted_for_all_def is_globally_muted_def)

lemma mute_of_inject:
  "inject_frame_at fl p f now r = (res, r') \<Longrightarrow> mg_global_mute (rm_mix_graph r') = mg_global_mute (rm_mix_graph r)"
  by (auto simp: inject_frame_at_def mute_of_graph split: sum.splits)

lemma mute_of_room_render:
  "render_output_at fl fs p now r = Some (res, r') \<Longrightarrow>
     mg_global_mute (rm_mix_graph r') = mg_global_mute (rm_mix_graph r)"
  by (auto simp: render_output_at_def mute_of_render split: sum.splits)

lemma muted_room_call:
  assumes "session_ok s" and "muted_for_all t s" and "leaves_muted t op"
    and "room_call fl fs op s = Some (s', outs)"
  shows "muted_for_all t s'"
proof -
  have leave: "muted_for_all t s'" if "begin_leave p how s = (s', outs)" "p \<noteq> t" "\<forall>rest. how \<noteq> Closing rest" for p how
    using mute_of_leave [OF assms(1,2) that(2,3)] that(1) by simp
  have room: "muted_for_all t (s\<lparr>se_room := r\<rparr>)"
    if "mg_global_mute (rm_mix_graph r) = mg_global_mute (rm_mix_graph (se_room s))" for r
    using muted_room [OF assms(2)] muted_in [OF assms(2)] that by simp
  note muted = assms(2) muted_in [OF assms(2)]
  show ?thesis
  proof (cases op)
    case (AddParticipant p new_pc track now)
    then show ?thesis using assms(4) by (auto intro: muted_adopt [OF muted(1)] dest: mute_of_add split: prod.splits)
  next
    case (Signal msg new_pc track pr now)
    show ?thesis
    proof (cases msg)
      case (Join p room_id)
      then have "\<exists>res' evs r. add_participant fl p new_pc track (length (se_outbound s)) (se_room s) = (res', evs, r) \<and>
          s' = adopt p now r s"
        using assms(4) Signal by (auto simp: handle_join_def split: prod.splits sum.splits)
      then show ?thesis by (auto intro: muted_adopt [OF muted(1)] dest: mute_of_add)
    next
      case (Leave p)
      then show ?thesis using assms(3,4) Signal leave by auto
    qed (use assms(4) Signal muted in auto)
  next
    case (MuteParticipant target scope listener)
    then show ?thesis using assms(4) muted by (auto intro: muted_room dest: mute_of_mute split: prod.splits)
  next
    case (UnmuteParticipant target scope listener)
    then show ?thesis using assms(3,4) muted by (auto intro: muted_room dest: mute_of_unmute split: prod.splits)
  next
    case (SetMixing b)
    then show ?thesis using assms(4) room by (auto simp: room_set_mixing_enabled_def mute_of_graph)
  next
    case (InjectFrame p f now)
    then show ?thesis using assms(4) room by (auto dest: mute_of_inject split: prod.splits)
  next
    case (RenderOutput p now)
    then show ?thesis using assms(4) by (auto intro!: room mute_of_room_render)
  next
    case Subscribe
    then show ?thesis using assms(4) room by (auto simp: subscribe_events_def)
  qed (use assms(3,4) leave muted in auto)
qed

lemma muted_step:
  assumes "session_ok s" and "muted_for_all t s" and "leaves_muted t op"
    and "session_step lib fl fs s op = Some (s', outs)"
  shows "muted_for_all t s'"
proof -
  have room: "muted_for_all t s'"
    if "session_step lib fl fs s op = (if se_pending s = None then room_call fl fs op s else Some (s, []))"
  proof (cases "se_pending s = None")
    case True
    then have "room_call fl fs op s = Some (s', outs)" using that assms(4) by (metis (full_types))
    then show ?thesis by (rule muted_room_call [OF assms(1-3)])
  next
    case False
    then have "s' = s" using that assms(4) by auto
    then show ?thesis using assms(2) by simp
  qed
  note muted = assms(2) muted_in [OF assms(2)]
  show ?thesis
  proof (cases op)
    case (PcClosedWith close)
    show ?thesis
    proof (cases "se_pending s")
      case (Some x)
      obtain p how where x: "x = (p, how)" by (rule prod.exhaust)
      then have "\<forall>rest. how \<noteq> Closing rest" using muted(1) Some by (simp add: muted_for_all_def)
      then have "fst (end_leave p how close s) = s\<lparr>se_pending := None\<rparr>"
        by (cases rule: end_leave_cases [of how close p s]) auto
      then show ?thesis using assms(4) PcClosedWith Some x muted
        by (cases "end_leave p how close s") (auto simp: muted_for_all_def is_globally_muted_def)
    qed (use assms(2,4) PcClosedWith in auto)
  next
    case (Sample i pcm undecodable now)
    show ?thesis
    proof (cases "task_at (se_inbound s) i")
      case (Some u)
      obtain u' g where g: "inbound_sample lib fl fs pcm undecodable now u (rm_mix_graph (se_room s)) = (u', g)"
        by (rule prod.exhaust)
      then have "mg_global_mute g = mg_global_mute (rm_mix_graph (se_room s))"
        using mute_of_inbound [of lib fl fs pcm undecodable now u "rm_mix_graph (se_room s)"] by simp
      then show ?thesis using assms(4) Sample Some g muted(1) by (auto simp: muted_for_all_def is_globally_muted_def)
    qed (use assms(2,4) Sample in auto)
  next
    case (OutboundWake i conn now write_ok)
    show ?thesis
    proof (cases "task_at (se_outbound s) i")
      case (Some x)
      obtain p phase where x: "x = (p, phase)" by (rule prod.exhaust)
      then show ?thesis using assms(4) OutboundWake Some muted(1)
        by (auto simp: muted_for_all_def is_globally_muted_def dest: mute_of_outbound)
    qed (use assms(2,4) OutboundWake in auto)
  next
    case (TrackArrived h)
    then show ?thesis using assms(4) muted(1)
      by (auto simp: muted_for_all_def is_globally_muted_def split: if_splits)
  next
    case (TrackEnded i)
    then show ?thesis using assms(4) muted(1) by (auto simp: muted_for_all_def is_globally_muted_def)
  qed (use room in simp_all)
qed

interpretation lasting_mute: panicking_component "session_step lib fl fs" session_ok "leaves_muted t"
  "\<lambda>s outs s'. session_ok s \<and> muted_for_all t s \<longrightarrow> session_ok s' \<and> muted_for_all t s'" for lib fl fs t
  by unfold_locales (use session_step_ok muted_step in blast)+

lemma muted_not_audible: "t \<in> mg_global_mute g \<Longrightarrow> \<not> audible l t g"
  by (simp add: audible_def is_globally_muted_def)

text \<open>
  C33: a mute lasts.  Once a participant is muted for everyone, whatever the other participants do and
  whoever comes and goes, until it is unmuted or leaves, every listener hears exactly what it would
  hear if the participant's input were not there.
\<close>

theorem muted_stays_unheard:
  assumes "session_ok s" and "muted_for_all t s" and "list_all (leaves_muted t) ops"
    and "run_ops (session_step lib fl fs) s ops = Some (s', outs)"
  shows "map_option fst (render_output fl fs l now (rm_mix_graph (se_room s'))) =
    map_option fst (render_output fl fs l now
      ((rm_mix_graph (se_room s'))\<lparr>mg_inputs := bt_remove t (mg_inputs (rm_mix_graph (se_room s')))\<rparr>))"
proof -
  have "muted_for_all t s'" using lasting_mute.runs_rel [OF assms(1,3,4)] assms(1,2) by blast
  then have "\<not> audible l t (rm_mix_graph (se_room s'))" by (rule muted_not_audible [OF muted_in])
  then have "filter (\<lambda>(p, _). audible l p (rm_mix_graph (se_room s'))) (mg_inputs (rm_mix_graph (se_room s'))) =
      filter (\<lambda>(p, _). audible l p (rm_mix_graph (se_room s'))) (bt_remove t (mg_inputs (rm_mix_graph (se_room s'))))"
    by (auto simp: bt_remove_def intro!: filter_cong)
  then show ?thesis by (rule render_same_audible)
qed

section \<open>What is written to a track\<close>

lemma clip_all_length: "clip_all xs = Some ys \<Longrightarrow> length ys = length xs"
  by (induction xs arbitrary: ys) (auto split: option.splits)

lemma mix_add_length: "length accum = 1920 \<Longrightarrow> length (mix_add f accum) = 1920"
  by (simp add: mix_add_def)

lemma fold_mix_add_length: "length accum = 1920 \<Longrightarrow> length (fold mix_add fs accum) = 1920"
  by (induction fs arbitrary: accum) (simp_all add: mix_add_length)

lemma mix_is_valid: "mix inputs = Some f \<Longrightarrow> is_valid f"
  by (auto simp: mix_def is_valid_def frame_new_def Let_def fold_mix_add_length dest!: clip_all_length)

lemma render_is_valid: "render_output fl fs l now g = Some (f, g') \<Longrightarrow> is_valid f"
  by (auto simp: render_output_def Let_def mix_is_valid split: option.splits if_splits)

lemma outbound_writes:
  "outbound_step fl fs p conn now write_ok phase g = Some (next, writes, g') \<Longrightarrow> (pcm, d) \<in> set writes \<Longrightarrow>
     (conn = PcConnected \<and> pcm = replicate PCM_KICK_BYTES 0 \<and> d = ms PCM_KICK_MS) \<or>
     (length pcm = FRAME_BYTES \<and> d = ms FRAME_MS)"
  by (induction fl fs p conn now write_ok phase g rule: outbound_step.induct)
    (auto dest: render_is_valid simp: is_valid_def split: if_splits prod.splits)

lemma no_writes [simp]:
  "Wrote i p pcm d \<notin> set (snd (begin_leave q how s))" "Wrote i p pcm d \<notin> set (returned res)"
  by (auto simp: begin_leave_def returned_def split: prod.split sum.split)

lemma render_no_writes [simp]:
  "Wrote i p pcm d \<notin> set (case res of Inl e \<Rightarrow> [Returned (Inl e)] | Inr f \<Rightarrow> [Rendered f])"
  by (cases res) simp_all

lemma begin_leave_no_writes: "begin_leave q how s = (s', outs) \<Longrightarrow> Wrote i p pcm d \<notin> set outs"
  using no_writes(1) [of i p pcm d q how s] by simp

lemma room_call_no_writes:
  "room_call fl fs op s = Some (s', outs) \<Longrightarrow> Wrote i p pcm d \<notin> set outs"
  by (cases "(fl, fs, op, s)" rule: room_call.cases)
    (auto split: prod.splits if_splits list.splits dest: begin_leave_no_writes)


section \<open>An input that comes back\<close>

text \<open>
  Between \<open>remove_input\<close> and the end of \<open>pc.close()\<close> the inbound loop of the participant still runs:
  a sample that arrives then puts its input back into the graph, and nothing takes it out again.
\<close>

lemma push_source: "bt_get (mg_inputs (push_frame_at fl p f now g)) p \<noteq> None"
  by (simp add: push_frame_at_def Let_def bt_get_insert)

lemma push_keeps_source:
  "bt_get (mg_inputs g) q \<noteq> None \<Longrightarrow> bt_get (mg_inputs (push_frame_at fl p f now g)) q \<noteq> None"
  by (simp add: push_frame_at_def Let_def bt_get_insert)

lemma chunks_source:
  "chunks \<noteq> [] \<or> bt_get (mg_inputs g) p \<noteq> None \<Longrightarrow>
     bt_get (mg_inputs (snd (push_sample_chunks lib fl fs p now chunks (dn, g)))) p \<noteq> None"
  by (induction chunks arbitrary: dn g) (auto simp: case_prod_unfold Let_def push_source push_keeps_source simp del: not_None_eq)

lemma late_sample_revives_input:
  assumes "task_at (se_inbound s) i = Some t" and "it_participant_id t = p"
    and "mg_mixing_enabled (rm_mix_graph (se_room s))" and "pcm \<noteq> []"
    and "session_step lib fl fs s (Sample i pcm undecodable now) = Some (s', outs)"
  shows "bt_get (mg_inputs (rm_mix_graph (se_room s'))) p \<noteq> None \<and>
    rm_participants (se_room s') = rm_participants (se_room s)"
proof -
  have n: "mg_mixing_enabled (graph_note_decode_error q now g) = mg_mixing_enabled g" for q g
    by (simp add: graph_note_decode_error_def split: option.split)
  have "slice_chunks FRAME_BYTES pcm \<noteq> []" using assms(4) by (simp add: slice_chunks.simps)
  then have "bt_get (mg_inputs (snd (inbound_sample lib fl fs pcm undecodable now t (rm_mix_graph (se_room s))))) p \<noteq> None"
    using assms(2,3) by (simp add: inbound_sample_def n case_prod_unfold Let_def chunks_source del: frame_sizes not_None_eq)
  then show ?thesis using assms(1,5) by (auto simp: case_prod_unfold Let_def)
qed

text \<open>A join finds the input that is there, with the audio queued in it.\<close>

lemma join_inherits_input:
  assumes "bt_get (mg_inputs (rm_mix_graph r)) p = Some slot"
    and "add_participant fl p new_pc track task r = (Inr x, evs, r')"
  shows "bt_get (mg_inputs (rm_mix_graph r')) p = Some slot"
  using assms by (cases rule: add_participant_cases [of fl p new_pc track task r])
    (auto simp: add_input_def entry_or_new_def bt_get_insert)

section \<open>Witnesses\<close>

definition demo_rnnoise :: "(unit, int) rnnoise" where
  "demo_rnnoise = \<lparr>rn_new = (), rn_process_frame = (\<lambda>st frame. (frame, st))\<rparr>"

definition demo_room :: "session_op list \<Rightarrow> ((int, int, unit) session \<times> session_out list) option" where
  "demo_room ops = run_ops (session_step demo_rnnoise int_ops int_ops)
     (session_start int_ops [7] (room_config_default\<lparr>rc_noise_suppression := False\<rparr>)) ops"

definition demo_join :: "participant_id \<Rightarrow> session_op" where
  "demo_join p = AddParticipant p (Inr 0) None 0"

lemmas demo_defs = demo_room_def demo_join_def session_start_def room_new_def room_config_default_def
  add_participant_def participant_spawn_def in_room_def adopt_def emit_def subscribe_events_def
  begin_leave_def remove_begin_def end_leave_def kick_end_def remove_end_def with_graph_def
  mute_participant_def matrix_mute_def matrix_set_mute_def ensure_both_def ensure_participant_exists_def
  set_global_mute_def graph_new_def add_input_def entry_or_new_def remove_input_def forget_input_def bt_remove_def
  task_at_def

lemma demo_kick:
  "\<exists>s. demo_room [Subscribe, demo_join [1], demo_join [2], KickParticipant [1] None, PcClosedWith None] =
     Some (s, [Event (ParticipantJoined [1]), Returned (Inr []), Event (ParticipantJoined [2]), Returned (Inr []),
       PcClose [1] None, Event (ParticipantKicked [1] None), Returned (Inr [])]) \<and>
     \<not> present [1] s \<and> present [2] s \<and> bt_get (mg_inputs (rm_mix_graph (se_room s))) [2] \<noteq> None"
  by (simp add: demo_defs present_def)

theorem membership_events_account_witness:
  "\<exists>s outs. demo_room [Subscribe, demo_join [1], demo_join [2], KickParticipant [1] None, PcClosedWith None] = Some (s, outs) \<and>
     joins [1] outs = departures [1] outs + of_bool (present [1] s) \<and> joins [1] outs = 1"
proof -
  obtain s where s: "demo_room [Subscribe, demo_join [1], demo_join [2], KickParticipant [1] None, PcClosedWith None] =
     Some (s, [Event (ParticipantJoined [1]), Returned (Inr []), Event (ParticipantJoined [2]), Returned (Inr []),
       PcClose [1] None, Event (ParticipantKicked [1] None), Returned (Inr [])])"
    using demo_kick by blast
  from membership_events_account [OF s [unfolded demo_room_def], of "[1]"] s show ?thesis by auto
qed

theorem sources_have_owners_witness:
  "\<exists>s outs. demo_room [Subscribe, demo_join [1], demo_join [2], KickParticipant [1] None, PcClosedWith None] = Some (s, outs) \<and>
     (present [2] s \<or> (\<exists>answer. PcClose [2] answer \<in> set outs))"
proof -
  obtain s outs where s: "demo_room [Subscribe, demo_join [1], demo_join [2], KickParticipant [1] None, PcClosedWith None] =
      Some (s, outs)" "bt_get (mg_inputs (rm_mix_graph (se_room s))) [2] \<noteq> None"
    using demo_kick by blast
  from sources_have_owners [OF s(1) [unfolded demo_room_def] s(2)] s(1) show ?thesis by blast
qed

lemma demo_mute:
  "\<exists>s outs. demo_room [demo_join [1], demo_join [2], MuteParticipant [1] Global None] = Some (s, outs) \<and>
     muted_for_all [1] s \<and> se_pending s = None"
  by (simp add: demo_defs muted_for_all_def is_globally_muted_def)

theorem muted_stays_unheard_witness:
  "\<exists>s' outs. demo_room [demo_join [1], demo_join [2], MuteParticipant [1] Global None, demo_join [3]] = Some (s', outs) \<and>
     map_option fst (render_output int_ops int_ops [2] (ms 40) (rm_mix_graph (se_room s'))) =
     map_option fst (render_output int_ops int_ops [2] (ms 40)
       ((rm_mix_graph (se_room s'))\<lparr>mg_inputs := bt_remove [1] (mg_inputs (rm_mix_graph (se_room s')))\<rparr>))"
proof -
  obtain s outs where s: "demo_room [demo_join [1], demo_join [2], MuteParticipant [1] Global None] = Some (s, outs)"
      "muted_for_all [1] s" "se_pending s = None"
    using demo_mute by blast
  obtain s' outs' where s': "session_step demo_rnnoise int_ops int_ops s (demo_join [3]) = Some (s', outs')"
    using s(3) by (simp add: demo_join_def Let_def case_prod_unfold)
  have run: "run_ops (session_step demo_rnnoise int_ops int_ops) s [demo_join [3]] = Some (s', outs')"
    using s' by simp
  have "list_all (leaves_muted [1]) [demo_join [3]]" by (simp add: demo_join_def)
  from muted_stays_unheard [OF run_from_start(1) [OF s(1) [unfolded demo_room_def]] s(2) this run, where l = "[2]" and now = "ms 40"]
  show ?thesis
    using s(1) s' run_ops_append [of "session_step demo_rnnoise int_ops int_ops"
        "session_start int_ops [7] (room_config_default\<lparr>rc_noise_suppression := False\<rparr>)"
        "[demo_join [1], demo_join [2], MuteParticipant [1] Global None]" "[demo_join [3]]"]
    by (simp add: demo_room_def del: run_ops.simps(2) session_step.simps) (simp del: session_step.simps)
qed


text \<open>An input that outlives its participant: the room is empty, the graph is not.\<close>

lemma departed_input_stays:
  "\<exists>s outs. demo_room [demo_join [1], TrackArrived 0, RemoveParticipant [1], Sample 0 [0] 0 0, PcClosedWith None] =
     Some (s, outs) \<and> rm_participants (se_room s) = [] \<and>
     bt_get (mg_inputs (rm_mix_graph (se_room s))) [1] \<noteq> None"
  by (simp add: demo_defs inbound_start_def inbound_sample_def apply_noise_suppression_def push_frame_at_def
      slice_chunks.simps Let_def)

end
