(* ===== verification/Pcm_Encoder.thy ===== *)
theory Pcm_Encoder
  imports Mix_Bus Agent_Config
begin

text \<open>
  \<open>crates/core/src/pcm_encoder.rs\<close>: the settings and the SDP line of the Opus encoder, and the encoder
  of a local track.  libopus is an argument (\<open>opus_encoder_lib\<close>), the environment variables too; an
  error message is a constructor with the values it is formatted from, and \<open>None\<close> is a panic.
\<close>

section \<open>Settings\<close>

definition OPUS_MAX_PAYLOAD_BYTES :: nat where "OPUS_MAX_PAYLOAD_BYTES = 1000"
definition OPUS_TARGET_BITRATE_BPS :: int where "OPUS_TARGET_BITRATE_BPS = 400000"
definition OPUS_BITRATE_MIN_BPS :: int where "OPUS_BITRATE_MIN_BPS = 6000"
definition OPUS_BITRATE_MAX_BPS :: int where "OPUS_BITRATE_MAX_BPS = 510000"

text \<open>\<open>str::parse::<i32>\<close>: an optional sign, at least one digit, and a value in range.\<close>

fun parse_digits :: "nat \<Rightarrow> ustring \<Rightarrow> nat option" where
  "parse_digits n [] = Some n"
| "parse_digits n (c # cs) = (if 48 \<le> c \<and> c \<le> 57 then parse_digits (10 * n + (c - 48)) cs else None)"

definition parse_i32 :: "ustring \<Rightarrow> int option" where
  "parse_i32 t =
     (let (sign, digits) =
        (case t of c # cs \<Rightarrow> if c = 45 then (- 1, cs) else if c = 43 then (1, cs) else (1, t) | [] \<Rightarrow> (1, []))
      in if digits = [] then None
         else (case parse_digits 0 digits of
                 None \<Rightarrow> None
               | Some n \<Rightarrow> (let v = sign * int n in if - 2147483648 \<le> v \<and> v \<le> 2147483647 then Some v else None)))"

definition parse_opus_bitrate_bps_from_env :: "ustring option \<Rightarrow> int option" where
  "parse_opus_bitrate_bps_from_env raw =
     (case raw of
        None \<Rightarrow> None
      | Some raw \<Rightarrow>
          (let trimmed = trim raw
           in if trimmed = [] then None
              else map_option (clamp OPUS_BITRATE_MIN_BPS OPUS_BITRATE_MAX_BPS) (parse_i32 trimmed)))"

definition opus_target_bitrate_bps :: "int option \<Rightarrow> int" where
  "opus_target_bitrate_bps from_env = (case from_env of Some v \<Rightarrow> v | None \<Rightarrow> OPUS_TARGET_BITRATE_BPS)"

datatype opus_application = Audio | Voip | LowDelay

definition parse_opus_application :: "ustring option \<Rightarrow> opus_application" where
  "parse_opus_application raw =
     (case raw of
        None \<Rightarrow> Audio
      | Some raw \<Rightarrow>
          (let trimmed = trim raw; lower = to_ascii_lowercase trimmed
           in if trimmed = [] then Audio
              else if lower = utext ''audio'' then Audio
              else if lower = utext ''voip'' then Voip
              else if lower = utext ''lowdelay'' then LowDelay
              else Audio))"

section \<open>The SDP line\<close>

definition opus_sdp_fmtp_line :: "int option \<Rightarrow> ustring" where
  "opus_sdp_fmtp_line from_env =
     utext ''minptime=10;useinbandfec=1;stereo=1;sprop-stereo=1'' @
     (case from_env of None \<Rightarrow> [] | Some bps \<Rightarrow> utext '';maxaveragebitrate='' @ decimal (nat bps))"

text \<open>
  \<open>str::lines\<close>: the pieces between newlines (none after the last one), each without the carriage
  return before its newline.
\<close>

definition strip_cr :: "ustring \<Rightarrow> ustring" where
  "strip_cr t = (if t \<noteq> [] \<and> last t = 13 then butlast t else t)"

fun lines_acc :: "ustring \<Rightarrow> ustring \<Rightarrow> ustring list" where
  "lines_acc w [] = (if w = [] then [] else [rev w])"
| "lines_acc w (c # cs) = (if c = 10 then strip_cr (rev w) # lines_acc [] cs else lines_acc (c # w) cs)"

definition str_lines :: "ustring \<Rightarrow> ustring list" where
  "str_lines t = lines_acc [] t"

definition trim_end_crs :: "ustring \<Rightarrow> ustring" where
  "trim_end_crs t = rev (dropWhile (\<lambda>c. c = 13) (rev t))"

definition trim_end_newlines :: "ustring \<Rightarrow> ustring" where
  "trim_end_newlines t = rev (dropWhile (\<lambda>c. c = 13 \<or> c = 10) (rev t))"

definition strip_prefix :: "ustring \<Rightarrow> ustring \<Rightarrow> ustring option" where
  "strip_prefix pre t = (if take (length pre) t = pre then Some (drop (length pre) t) else None)"

text \<open>\<open>split_once\<close> at the first white space.\<close>

definition before_space :: "ustring \<Rightarrow> ustring option" where
  "before_space t =
     (if list_ex is_whitespace t then Some (takeWhile (\<lambda>c. \<not> is_whitespace c) t) else None)"

definition opus_payload_type :: "ustring \<Rightarrow> ustring option" where
  "opus_payload_type line =
     (case strip_prefix (utext ''a=rtpmap:'') (trim_end_newlines line) of
        None \<Rightarrow> None
      | Some rest \<Rightarrow>
          (case split_whitespace rest of
             pt # codec # _ \<Rightarrow>
               if strip_prefix (utext ''opus/'') (to_ascii_lowercase codec) \<noteq> None then Some pt else None
           | _ \<Rightarrow> None))"

definition opus_pts :: "ustring \<Rightarrow> ustring list" where
  "opus_pts sdp = List.map_filter opus_payload_type (str_lines sdp)"

definition enrich_line :: "ustring \<Rightarrow> ustring list \<Rightarrow> ustring \<Rightarrow> ustring" where
  "enrich_line target pts line =
     (let trimmed = trim_end_crs line
      in case strip_prefix (utext ''a=fmtp:'') trimmed of
           None \<Rightarrow> trimmed
         | Some rest \<Rightarrow>
             (case before_space rest of
                Some pt \<Rightarrow> if pt \<in> set pts then utext ''a=fmtp:'' @ pt @ 32 # target else trimmed
              | None \<Rightarrow> trimmed))"

text \<open>Whether the text contains \<open>"\r\n"\<close>, and the lines put together again.\<close>

fun has_crlf :: "ustring \<Rightarrow> bool" where
  "has_crlf (a # b # cs) \<longleftrightarrow> (a = 13 \<and> b = 10) \<or> has_crlf (b # cs)"
| "has_crlf _ \<longleftrightarrow> False"

fun join_lines :: "ustring \<Rightarrow> ustring list \<Rightarrow> ustring" where
  "join_lines nl [] = []"
| "join_lines nl [l] = l"
| "join_lines nl (l # ls) = l @ nl @ join_lines nl ls"

definition enrich_opus_sdp_fmtp :: "int option \<Rightarrow> ustring \<Rightarrow> ustring" where
  "enrich_opus_sdp_fmtp from_env sdp =
     (let target = opus_sdp_fmtp_line from_env; pts = opus_pts sdp
      in if pts = [] then sdp
         else
           (let nl = (if has_crlf sdp then [13, 10] else [10]);
                joined = join_lines nl (map (enrich_line target pts) (str_lines sdp))
            in if sdp \<noteq> [] \<and> last sdp = 10 then joined @ nl else joined))"

section \<open>The negotiated format\<close>

record negotiated_audio_format =
  nf_mime_type :: ustring
  nf_clock_rate :: nat
  nf_channels :: nat

definition advertised_opus :: negotiated_audio_format where
  "advertised_opus = \<lparr>nf_mime_type = utext ''audio/opus'', nf_clock_rate = 48000, nf_channels = 2\<rparr>"

datatype encode_error =
    ExpectedAudioCodec ustring
  | EncoderInit ustring
  | EncoderBitrate ustring
  | EncoderComplexity ustring
  | UnsupportedCodec ustring
  | NotStereo48k nat nat
  | DurationMismatch duration nat nat
  | LengthMismatch nat nat nat
  | OpusEncodeFailed ustring
  | EmptyPacket

text \<open>\<open>from_codec\<close>, on the capability of the negotiated codec.\<close>

definition from_codec :: "ustring \<Rightarrow> nat \<Rightarrow> nat \<Rightarrow> encode_error + negotiated_audio_format" where
  "from_codec mime_type clock_rate channels =
     (if strip_prefix (utext ''audio/'') (to_ascii_lowercase mime_type) = None
      then Inl (ExpectedAudioCodec mime_type)
      else Inr \<lparr>nf_mime_type = mime_type, nf_clock_rate = clock_rate, nf_channels = channels\<rparr>)"

fun contains_text :: "ustring \<Rightarrow> ustring \<Rightarrow> bool" where
  "contains_text pat [] \<longleftrightarrow> pat = []"
| "contains_text pat (c # cs) \<longleftrightarrow> strip_prefix pat (c # cs) \<noteq> None \<or> contains_text pat cs"

definition is_opus :: "negotiated_audio_format \<Rightarrow> bool" where
  "is_opus format \<longleftrightarrow> contains_text (utext ''opus'') (to_ascii_lowercase (nf_mime_type format))"

text \<open>The cap is computed in \<open>u64\<close>; it is below \<open>2 ^ 23\<close>, so no cast loses anything.\<close>

definition opus_bitrate_for_duration :: "int \<Rightarrow> nat \<Rightarrow> int" where
  "opus_bitrate_for_duration base_bps millis =
     (if millis = 0 then base_bps
      else max OPUS_BITRATE_MIN_BPS (min base_bps (int (OPUS_MAX_PAYLOAD_BYTES * 8 * 1000 div millis))))"

section \<open>The encoder\<close>

text \<open>
  libopus: an encoder made with its application, \<open>set_bitrate\<close> and \<open>set_complexity\<close> (an error message if it fails), and
  \<open>encode\<close>, which writes into the buffer it is given and returns how many bytes it wrote.
\<close>

record 'e opus_encoder_lib =
  oe_new :: "opus_application \<Rightarrow> ustring + 'e"
  oe_set_bitrate :: "int \<Rightarrow> 'e \<Rightarrow> ustring option \<times> 'e"
  oe_set_complexity :: "nat \<Rightarrow> 'e \<Rightarrow> ustring option \<times> 'e"
  oe_encode :: "sample list \<Rightarrow> bytes \<Rightarrow> 'e \<Rightarrow> (ustring + nat) \<times> bytes \<times> 'e"

text \<open>
  What the library documents: it writes inside the buffer only, and an empty buffer is a bad
  argument.
\<close>

definition opus_encoder_laws :: "'e opus_encoder_lib \<Rightarrow> bool" where
  "opus_encoder_laws lib \<longleftrightarrow> (\<forall>pcm_in buf e. case oe_encode lib pcm_in buf e of
     (r, buf', _) \<Rightarrow> length buf' = length buf \<and>
       (case r of Inr n \<Rightarrow> n \<le> length buf \<and> buf \<noteq> [] | Inl _ \<Rightarrow> True))"

record 'e opus_encoder_state =
  es_encoder :: 'e
  es_pcm_scratch :: "sample list"
  es_opus_scratch :: bytes
  es_base_bitrate_bps :: int
  es_current_bitrate_bps :: int

definition new_with_bitrate ::
  "'e opus_encoder_lib \<Rightarrow> opus_application \<Rightarrow> int \<Rightarrow> encode_error + 'e opus_encoder_state" where
  "new_with_bitrate lib application bitrate_bps =
     (case oe_new lib application of
        Inl e \<Rightarrow> Inl (EncoderInit e)
      | Inr enc \<Rightarrow>
          (case oe_set_bitrate lib bitrate_bps enc of
             (Some e, _) \<Rightarrow> Inl (EncoderBitrate e)
           | (None, enc) \<Rightarrow>
               (case oe_set_complexity lib 10 enc of
                  (Some e, _) \<Rightarrow> Inl (EncoderComplexity e)
                | (None, enc) \<Rightarrow>
                    Inr \<lparr>es_encoder = enc, es_pcm_scratch = [],
                      es_opus_scratch = replicate OPUS_MAX_PAYLOAD_BYTES 0,
                      es_base_bitrate_bps = bitrate_bps, es_current_bitrate_bps = bitrate_bps\<rparr>)))"

text \<open>\<open>duration.as_micros() as u64 * 48_000\<close>; \<open>None\<close> is the overflow of the product.\<close>

definition samples_per_channel_for_duration :: "duration \<Rightarrow> nat \<Rightarrow> (encode_error + nat) option" where
  "samples_per_channel_for_duration d pcm_len =
     (let micros = (d div 1000) mod 2 ^ 64; from_duration = micros * 48000 div 1000000; from_buffer = pcm_len div (2 * 2)
      in if 2 ^ 64 \<le> micros * 48000 then None
         else if from_duration = 0 \<and> 0 < from_buffer then Some (Inr from_buffer)
         else if from_duration \<noteq> from_buffer then Some (Inl (DurationMismatch d from_duration from_buffer))
         else Some (Inr from_duration))"

definition retune ::
  "'e opus_encoder_lib \<Rightarrow> duration \<Rightarrow> 'e opus_encoder_state \<Rightarrow> ustring option \<times> 'e opus_encoder_state" where
  "retune lib d st =
     (let effective = opus_bitrate_for_duration (es_base_bitrate_bps st) (min (as_millis d) u32_max)
      in if effective \<noteq> es_current_bitrate_bps st then
           (case oe_set_bitrate lib effective (es_encoder st) of
              (Some e, enc) \<Rightarrow> (Some e, st\<lparr>es_encoder := enc\<rparr>)
            | (None, enc) \<Rightarrow> (None, st\<lparr>es_encoder := enc, es_current_bitrate_bps := effective\<rparr>))
         else (None, st))"

text \<open>
  The scratch buffers are taken out of the state for the call; when the call fails, \<open>?\<close> returns
  before they are put back.
\<close>

definition encode_scratch ::
  "'e opus_encoder_lib \<Rightarrow> bytes \<Rightarrow> 'e opus_encoder_state \<Rightarrow> (encode_error + bytes) option \<times> 'e opus_encoder_state" where
  "encode_scratch lib pcm_in st =
     (let pcm_samples = samples_of pcm_in
      in case oe_encode lib pcm_samples (es_opus_scratch st) (es_encoder st) of
           (Inl e, _, enc) \<Rightarrow>
             (Some (Inl (OpusEncodeFailed e)),
              st\<lparr>es_encoder := enc, es_pcm_scratch := [], es_opus_scratch := []\<rparr>)
         | (Inr len, buf, enc) \<Rightarrow>
             (if len = 0 then Some (Inl EmptyPacket) else if length buf < len then None else Some (Inr (take len buf)),
              st\<lparr>es_encoder := enc, es_pcm_scratch := pcm_samples, es_opus_scratch := buf\<rparr>))"

definition encode_opus ::
  "'e opus_encoder_lib \<Rightarrow> negotiated_audio_format \<Rightarrow> bytes \<Rightarrow> duration \<Rightarrow> 'e opus_encoder_state \<Rightarrow>
     (encode_error + bytes \<times> duration) option \<times> 'e opus_encoder_state" where
  "encode_opus lib format pcm_in d st =
     (if nf_clock_rate format \<noteq> 48000 \<or> nf_channels format \<noteq> 2 then
        (Some (Inl (NotStereo48k (nf_clock_rate format) (nf_channels format))), st)
      else
        (case samples_per_channel_for_duration d (length pcm_in) of
           None \<Rightarrow> (None, st)
         | Some (Inl e) \<Rightarrow> (Some (Inl e), st)
         | Some (Inr samples_per_channel) \<Rightarrow>
             (let expected_bytes = samples_per_channel * nf_channels format * 2
              in if length pcm_in \<noteq> expected_bytes then
                   (Some (Inl (LengthMismatch (length pcm_in) (as_millis d) expected_bytes)), st)
                 else
                   (case retune lib d st of
                      (Some e, st) \<Rightarrow> (Some (Inl (EncoderBitrate e)), st)
                    | (None, st) \<Rightarrow>
                        (case encode_scratch lib pcm_in st of
                           (None, st) \<Rightarrow> (None, st)
                         | (Some (Inl e), st) \<Rightarrow> (Some (Inl e), st)
                         | (Some (Inr payload), st) \<Rightarrow> (Some (Inr (payload, d)), st))))))"

definition pcm_encode ::
  "'e opus_encoder_lib \<Rightarrow> negotiated_audio_format \<Rightarrow> bytes \<Rightarrow> duration \<Rightarrow> 'e opus_encoder_state \<Rightarrow>
     (encode_error + bytes \<times> duration) option \<times> 'e opus_encoder_state" where
  "pcm_encode lib format pcm_in d st =
     (if is_opus format then encode_opus lib format pcm_in d st
      else (Some (Inl (UnsupportedCodec (nf_mime_type format))), st))"

text \<open>The writes of one track, each with the format negotiated at its time.\<close>

fun pcm_encode_all ::
  "'e opus_encoder_lib \<Rightarrow> (negotiated_audio_format \<times> bytes \<times> duration) list \<Rightarrow> 'e opus_encoder_state \<Rightarrow>
     (encode_error + bytes \<times> duration) option list \<times> 'e opus_encoder_state" where
  "pcm_encode_all lib [] st = ([], st)"
| "pcm_encode_all lib ((format, pcm_in, d) # writes) st =
     (let (r, st) = pcm_encode lib format pcm_in d st; (rs, st) = pcm_encode_all lib writes st in (r # rs, st))"

section \<open>What an encoded packet promises\<close>

lemma opus_law:
  assumes "opus_encoder_laws lib" and "oe_encode lib samples buf e = (r, buf', e')"
  shows "length buf' = length buf" and "r = Inr n \<Longrightarrow> n \<le> length buf \<and> buf \<noteq> []"
proof -
  have "case oe_encode lib samples buf e of (r, buf', _) \<Rightarrow> length buf' = length buf \<and>
      (case r of Inr n \<Rightarrow> n \<le> length buf \<and> buf \<noteq> [] | Inl _ \<Rightarrow> True)"
    by (rule assms(1) [unfolded opus_encoder_laws_def, THEN spec, THEN spec, THEN spec])
  then show "length buf' = length buf" "r = Inr n \<Longrightarrow> n \<le> length buf \<and> buf \<noteq> []"
    by (simp_all add: assms(2))
qed

lemma encode_scratch_packet:
  assumes "opus_encoder_laws lib" and "encode_scratch lib pcm_in st = (Some (Inr payload), st')"
  shows "payload \<noteq> [] \<and> length payload \<le> length (es_opus_scratch st) \<and>
    length (es_opus_scratch st') = length (es_opus_scratch st) \<and>
    es_current_bitrate_bps st' = es_current_bitrate_bps st"
proof -
  obtain r buf enc where o: "oe_encode lib (samples_of pcm_in) (es_opus_scratch st) (es_encoder st) = (r, buf, enc)"
    by (rule prod_cases3)
  have l: "length buf = length (es_opus_scratch st)" by (rule opus_law(1) [OF assms(1) o])
  show ?thesis using assms(2) l
    by (cases r) (auto simp: encode_scratch_def o Let_def split: if_splits)
qed

lemma retune_bitrate:
  "retune lib d st = (None, st') \<Longrightarrow>
     es_current_bitrate_bps st' = opus_bitrate_for_duration (es_base_bitrate_bps st) (min (as_millis d) u32_max) \<and>
     es_opus_scratch st' = es_opus_scratch st"
  by (auto simp: retune_def Let_def split: if_splits prod.splits option.splits)

text \<open>Every way out of \<open>encode_opus\<close> but the guards goes through the library.\<close>

lemma encode_opus_cases:
  assumes "encode_opus lib format pcm_in d st = (r, st')"
  obtains (guard) "st' = st" "r = None \<or> (\<exists>e. r = Some (Inl e) \<and> (\<forall>x. e \<noteq> OpusEncodeFailed x))"
  | (bitrate) e where "retune lib d st = (Some e, st')" "r = Some (Inl (EncoderBitrate e))"
  | (library) n st1 q where "nf_clock_rate format = 48000" "nf_channels format = 2"
      "samples_per_channel_for_duration d (length pcm_in) = Some (Inr n)" "length pcm_in = 4 * n"
      "retune lib d st = (None, st1)" "encode_scratch lib pcm_in st1 = (q, st')"
      "r = (case q of None \<Rightarrow> None | Some (Inl e) \<Rightarrow> Some (Inl e) | Some (Inr payload) \<Rightarrow> Some (Inr (payload, d)))"
proof (cases "nf_clock_rate format = 48000 \<and> nf_channels format = 2")
  case False
  then show thesis using assms by (intro guard) (auto simp: encode_opus_def)
next
  case stereo: True
  show thesis
  proof (cases "samples_per_channel_for_duration d (length pcm_in)")
    case None
    then show thesis using assms stereo by (intro guard) (simp_all add: encode_opus_def)
  next
    case (Some c)
    show thesis
    proof (cases c)
      case (Inl e)
      then have "e \<noteq> OpusEncodeFailed x" for x
        using Some by (auto simp: samples_per_channel_for_duration_def Let_def split: if_splits)
      then show thesis using assms stereo Some Inl by (intro guard) (auto simp: encode_opus_def)
    next
      case (Inr n)
      show thesis
      proof (cases "length pcm_in = 4 * n")
        case False
        then show thesis using assms stereo Some Inr by (intro guard) (auto simp: encode_opus_def Let_def)
      next
        case True
        obtain b st1 where b: "retune lib d st = (b, st1)" by (rule prod.exhaust)
        obtain q st2 where q: "encode_scratch lib pcm_in st1 = (q, st2)" by (rule prod.exhaust)
        show thesis
        proof (cases b)
          case None
          then have "r = (case q of None \<Rightarrow> None | Some (Inl e) \<Rightarrow> Some (Inl e)
              | Some (Inr payload) \<Rightarrow> Some (Inr (payload, d))) \<and> st' = st2"
            using assms stereo Some Inr True b q
            by (cases q; cases "the q") (simp_all add: encode_opus_def)
          then show thesis using library stereo Some Inr True b q None by simp
        next
          case (Some e)
          then show thesis using assms stereo \<open>samples_per_channel_for_duration d (length pcm_in) = Some c\<close> Inr True b
            by (intro bitrate) (auto simp: encode_opus_def)
        qed
      qed
    qed
  qed
qed


section \<open>A failed encode\<close>

lemma broken_encode:
  assumes "opus_encoder_laws lib" and "es_opus_scratch st = []"
  shows "es_opus_scratch (snd (pcm_encode lib format pcm_in d st)) = [] \<and>
    fst (pcm_encode lib format pcm_in d st) \<noteq> Some (Inr x)"
proof -
  have sc: "\<exists>e. encode_scratch lib pcm_in st1 = (Some (Inl (OpusEncodeFailed e)),
      st1\<lparr>es_encoder := snd (snd (oe_encode lib (samples_of pcm_in) [] (es_encoder st1))), es_pcm_scratch := [],
        es_opus_scratch := []\<rparr>)" if "es_opus_scratch st1 = []" for st1
  proof -
    obtain r buf enc where o: "oe_encode lib (samples_of pcm_in) [] (es_encoder st1) = (r, buf, enc)"
      by (rule prod_cases3)
    then have "\<exists>e. r = Inl e" using opus_law(2) [OF assms(1) o] by (cases r) auto
    then show ?thesis using that o by (auto simp: encode_scratch_def Let_def)
  qed
  have rt: "es_opus_scratch (snd (retune lib d st)) = []"
    using assms(2) by (auto simp: retune_def Let_def split: prod.split option.split)
  obtain e st1 where r: "retune lib d st = (e, st1)" by (rule prod.exhaust)
  then obtain e' where "encode_scratch lib pcm_in st1 = (Some (Inl (OpusEncodeFailed e')),
      st1\<lparr>es_encoder := snd (snd (oe_encode lib (samples_of pcm_in) [] (es_encoder st1))), es_pcm_scratch := [],
        es_opus_scratch := []\<rparr>)" using sc [of st1] rt by auto
  then show ?thesis using r rt assms(2)
    by (auto simp: pcm_encode_def encode_opus_def Let_def split: option.split sum.split)
qed

lemma broken_encode_all:
  assumes "opus_encoder_laws lib"
  shows "es_opus_scratch st = [] \<Longrightarrow> Some (Inr x) \<notin> set (fst (pcm_encode_all lib writes st))"
proof (induction writes arbitrary: st)
  case (Cons w writes)
  obtain format pcm_in d where w: "w = (format, pcm_in, d)" by (rule prod_cases3)
  obtain r st1 where r: "pcm_encode lib format pcm_in d st = (r, st1)" by (rule prod.exhaust)
  then have "es_opus_scratch st1 = []" "r \<noteq> Some (Inr x)"
    using broken_encode [OF assms Cons.prems, of format pcm_in d x] by simp_all
  then show ?case using Cons.IH [of st1] r w by (simp add: case_prod_unfold Let_def)
qed simp

lemma failed_encode_scratch:
  "pcm_encode lib format pcm_in d st = (Some (Inl (OpusEncodeFailed e)), st') \<Longrightarrow> es_opus_scratch st' = []"
proof -
  assume a: "pcm_encode lib format pcm_in d st = (Some (Inl (OpusEncodeFailed e)), st')"
  then have "encode_opus lib format pcm_in d st = (Some (Inl (OpusEncodeFailed e)), st')"
    by (simp add: pcm_encode_def split: if_split_asm)
  then obtain st1 where "encode_scratch lib pcm_in st1 = (Some (Inl (OpusEncodeFailed e)), st')"
    by (rule encode_opus_cases) (auto split: option.split_asm sum.split_asm)
  then show ?thesis
    by (auto simp: encode_scratch_def Let_def split: prod.splits sum.splits if_splits)
qed

text \<open>
  C25: one rejected frame silences the track.  After libopus has refused to encode a frame (one of
  15 ms, say), the scratch buffer is lost, and no later write of that track is ever encoded again,
  whatever its format, audio and duration.
\<close>

theorem encode_failure_is_permanent:
  assumes "opus_encoder_laws lib"
    and "pcm_encode lib format pcm_in d st = (Some (Inl (OpusEncodeFailed e)), st')"
    and "pcm_encode_all lib writes st' = (rs, st'')"
  shows "\<forall>packet. Some (Inr packet) \<notin> set rs"
  using broken_encode_all [OF assms(1) failed_encode_scratch [OF assms(2)], of _ writes] assms(3) by simp

section \<open>Lines\<close>

definition plain_line :: "ustring \<Rightarrow> bool" where
  "plain_line l \<longleftrightarrow> 10 \<notin> set l \<and> (l \<noteq> [] \<longrightarrow> last l \<noteq> 13)"

lemma lines_acc_piece: "10 \<notin> set l \<Longrightarrow> lines_acc w (l @ 10 # t) = strip_cr (rev w @ l) # lines_acc [] t"
  by (induction l arbitrary: w) auto

lemma str_lines_step:
  assumes "plain_line l" and "nl = [10] \<or> nl = [13, 10]"
  shows "str_lines (l @ nl @ t) = l # str_lines t"
proof -
  have "10 \<notin> set l" using assms(1) by (simp add: plain_line_def)
  then show ?thesis
    using assms lines_acc_piece [of l "[]" t] lines_acc_piece [of "l @ [13]" "[]" t]
    by (auto simp: str_lines_def strip_cr_def plain_line_def)
qed

lemma lines_acc_last: "10 \<notin> set l \<Longrightarrow> lines_acc w l = (if w = [] \<and> l = [] then [] else [rev w @ l])"
  by (induction l arbitrary: w) auto

lemma str_lines_join_end:
  assumes "nl = [10] \<or> nl = [13, 10]" and "list_all plain_line ls"
  shows "str_lines (join_lines nl ls @ nl) = (if ls = [] then str_lines nl else ls)"
  using assms(2)
proof (induction ls)
  case (Cons l ls)
  then show ?case
    using str_lines_step [of l nl "[]"] str_lines_step [of l nl "join_lines nl ls @ nl"] assms(1)
    by (cases ls) (simp_all add: str_lines_def)
qed simp

lemma str_lines_join:
  assumes "nl = [10] \<or> nl = [13, 10]"
  shows "list_all plain_line ls \<Longrightarrow> ls \<noteq> [] \<Longrightarrow> last ls \<noteq> [] \<Longrightarrow> str_lines (join_lines nl ls) = ls"
proof (induction ls)
  case (Cons l ls)
  then show ?case
    using str_lines_step [of l nl "join_lines nl ls"] assms
    by (cases ls) (simp_all add: str_lines_def lines_acc_last plain_line_def)
qed simp

lemma lines_acc_no_newline: "10 \<notin> set w \<Longrightarrow> l \<in> set (lines_acc w t) \<Longrightarrow> 10 \<notin> set l"
proof (induction w t rule: lines_acc.induct)
  case (2 w c cs)
  then show ?case by (auto simp: strip_cr_def split: if_splits dest: in_set_butlastD list.set_sel(2))
qed (auto split: if_splits)

lemma decimal_digits: "c \<in> set (decimal n) \<Longrightarrow> 48 \<le> c \<and> c \<le> 57"
  by (induction n rule: decimal.induct) (subst (asm) (2) decimal.simps, auto split: if_splits)

lemma decimal_neq_Nil: "decimal n \<noteq> []"
  by (subst decimal.simps) simp

lemma target_plain: "plain_line (opus_sdp_fmtp_line from_env)" "opus_sdp_fmtp_line from_env \<noteq> []"
proof -
  have d: "10 \<notin> set (decimal n)" "last (decimal n) \<noteq> 13" for n
    using decimal_digits [of _ n] last_in_set [OF decimal_neq_Nil, of n] by force+
  show "plain_line (opus_sdp_fmtp_line from_env)" "opus_sdp_fmtp_line from_env \<noteq> []"
    using d decimal_neq_Nil
    by (auto simp: plain_line_def opus_sdp_fmtp_line_def utext_def split: option.split)
qed

lemma trim_end_crs_plain: "10 \<notin> set l \<Longrightarrow> plain_line (trim_end_crs l)"
proof -
  assume l: "10 \<notin> set l"
  have "dropWhile (\<lambda>c. c = 13) (rev l) \<noteq> [] \<Longrightarrow> hd (dropWhile (\<lambda>c. c = 13) (rev l)) \<noteq> 13"
    using hd_dropWhile [of "\<lambda>c. c = 13" "rev l"] by blast
  then show ?thesis using l
    by (auto simp: plain_line_def trim_end_crs_def last_rev dest: set_dropWhileD)
qed

lemma strip_prefix_Some: "strip_prefix pre t = Some rest \<Longrightarrow> t = pre @ rest"
  unfolding strip_prefix_def by (metis append_take_drop_id option.discI option.inject)

lemma before_space_sub: "before_space t = Some pt \<Longrightarrow> set pt \<subseteq> set t"
  by (auto simp: before_space_def split: if_splits dest: set_takeWhileD)

lemma enrich_line_plain:
  assumes "10 \<notin> set l"
  shows "plain_line (enrich_line (opus_sdp_fmtp_line from_env) pts l)"
proof -
  note t = trim_end_crs_plain [OF assms]
  show ?thesis
  proof (cases "enrich_line (opus_sdp_fmtp_line from_env) pts l = trim_end_crs l")
    case False
    then obtain rest pt where r: "strip_prefix (utext ''a=fmtp:'') (trim_end_crs l) = Some rest"
        "before_space rest = Some pt"
        "enrich_line (opus_sdp_fmtp_line from_env) pts l =
          utext ''a=fmtp:'' @ pt @ 32 # opus_sdp_fmtp_line from_env"
      by (auto simp: enrich_line_def Let_def split: option.splits if_splits)
    have "10 \<notin> set (trim_end_crs l)" using t by (simp add: plain_line_def)
    then have "10 \<notin> set pt" using strip_prefix_Some [OF r(1)] before_space_sub [OF r(2)] by auto
    then show ?thesis using target_plain [of from_env] by (simp add: r(3) plain_line_def utext_def)
  qed (use t in simp)
qed


section \<open>Witnesses\<close>

text \<open>A library that refuses an empty frame and writes one byte for any other.\<close>

definition demo_opus :: "unit opus_encoder_lib" where
  "demo_opus = \<lparr>oe_new = (\<lambda>_. Inr ()), oe_set_bitrate = (\<lambda>_ e. (None, e)), oe_set_complexity = (\<lambda>_ e. (None, e)),
     oe_encode = (\<lambda>samples buf e. if buf = [] \<or> samples = [] then (Inl [], buf, e) else (Inr 1, buf, e))\<rparr>"

definition demo_encoder :: "unit opus_encoder_state" where
  "demo_encoder = \<lparr>es_encoder = (), es_pcm_scratch = [], es_opus_scratch = replicate OPUS_MAX_PAYLOAD_BYTES 0,
     es_base_bitrate_bps = OPUS_TARGET_BITRATE_BPS, es_current_bitrate_bps = OPUS_TARGET_BITRATE_BPS\<rparr>"

lemma demo_encoder_new: "new_with_bitrate demo_opus Audio OPUS_TARGET_BITRATE_BPS = Inr demo_encoder"
  by (simp add: new_with_bitrate_def demo_opus_def demo_encoder_def)

lemma demo_opus_laws: "opus_encoder_laws demo_opus"
  by (auto simp: opus_encoder_laws_def demo_opus_def Suc_le_eq)

lemma advertised_is_opus:
  "is_opus advertised_opus" "nf_clock_rate advertised_opus = 48000" "nf_channels advertised_opus = 2"
  by (code_simp, simp_all add: advertised_opus_def)


theorem encode_failure_is_permanent_witness:
  "\<exists>st'. pcm_encode demo_opus advertised_opus [] 0 demo_encoder = (Some (Inl (OpusEncodeFailed [])), st') \<and>
     Some (Inr ([0], 0)) \<notin> set (fst (pcm_encode_all demo_opus [(advertised_opus, [0, 0, 0, 0], 0)] st'))"
proof -
  have "\<exists>st'. pcm_encode demo_opus advertised_opus [] 0 demo_encoder = (Some (Inl (OpusEncodeFailed [])), st')"
    by (simp add: pcm_encode_def advertised_is_opus encode_opus_def samples_per_channel_for_duration_def
        retune_def encode_scratch_def demo_opus_def demo_encoder_def opus_bitrate_for_duration_def as_millis_def
        samples_of_def)
  then obtain st' where e: "pcm_encode demo_opus advertised_opus [] 0 demo_encoder = (Some (Inl (OpusEncodeFailed [])), st')"
    by blast
  obtain rs st'' where "pcm_encode_all demo_opus [(advertised_opus, [0, 0, 0, 0], 0)] st' = (rs, st'')"
    by (rule prod.exhaust)
  from encode_failure_is_permanent [OF demo_opus_laws e this] e this show ?thesis by auto
qed

definition demo_sdp :: ustring where
  "demo_sdp = utext ''a=rtpmap:111 opus/48000/2'' @ [13, 10] @ utext ''a=fmtp:111 minptime=10'' @ [13, 10]"


lemma demo_sdp_enriched:
  "enrich_opus_sdp_fmtp None demo_sdp = utext ''a=rtpmap:111 opus/48000/2'' @ [13, 10] @
     utext ''a=fmtp:111 minptime=10;useinbandfec=1;stereo=1;sprop-stereo=1'' @ [13, 10]"
  by code_simp

end
