(* ===== verification/Spec2Isabelle.thy ===== *)
theory Spec2Isabelle
  imports Reorder Stt_Deferred Wav_Stream Mix_Graph Tts_Send_Order Tts_Buffer Tts_Slots Stt_Pre_Roll Turn_Latency Vad Stt_Actor Speaker_Gate_Memory Tts_Cache_Lru Tts_Text Inbound_Stage Agent_Hold_Frames Session_Turns Conference_Properties Pcm_Encoder
begin

text \<open>
  node-webrtc-rust: verification library of the Rust crates of a WebRTC stack for voice agents.

  The program.  A peer's RTP packets come in through \<open>crates/core\<close>: a reader task, a reorder buffer with
  an adaptive wait, loss concealment and an Opus decoder give 20 ms stereo frames.  \<open>crates/speech\<close> is
  the voice agent on top: voice activity detection cuts the audio into utterances, a speaker gate checks
  who speaks, the STT actor owns the transcription provider, replies go through the TTS send order, the
  phrase cache, the text preparation and the outbound TTS buffer.  \<open>crates/mixer\<close> mixes the participants
  of a conference, one output per listener, from elastic queues.  The vendor crates implement the
  providers; of them the parts with an algorithm of their own are modelled.

  Conventions.  A Rust struct is a record whose fields carry a prefix of the component, an enum a
  datatype, a \<open>BTreeMap\<close> a sorted association list (\<open>Prelude\<close>), a string a list of Unicode scalar
  values (\<open>Text_Model\<close>), a byte an \<open>8 word\<close>, a PCM sample a \<open>16 word\<close>; counters that a process cannot
  exhaust are \<open>nat\<close>, casts that lose bits are written out.  An operation that can panic (an index out of
  range, an \<open>expect\<close>, a subtraction below 0) returns an \<open>option\<close>, with \<open>None\<close> the panic.  An error is
  a sum.  The clock is an argument or a field; time is in nanoseconds.  Floating-point operations are an
  argument (\<open>Float_Ops\<close>), so every theorem holds whatever they return.  Code under a mutex is one step; between two await
  points other tasks run, so an async function is one step per await point, and runs (\<open>run_ops\<close>) take the
  steps in any order.

  Theories, their source files and what is shown:

  \<^item> \<open>Prelude\<close>: words, maps, runs, and the locales \<open>ordered_map\<close>, \<open>component\<close> (an invariant
    that rules out panics), \<open>traced_component\<close> (a compositional relation of what was asked and
    answered) and \<open>incremental\<close> (cutting the input changes nothing).
  \<^item> \<open>Reorder\<close>: \<open>core/src/inbound_audio/reorder.rs\<close>.  The output tiles the sequence space, packets
    are conserved, the wait is bounded, a due gap is released.
  \<^item> \<open>Impair\<close>, \<open>Opus_Decode\<close>, \<open>Inbound_Stage\<close>: \<open>impair.rs\<close>, \<open>mixer/src/decode.rs\<close>,
    \<open>conceal.rs\<close> and \<open>stage.rs\<close>.  The composition of reader, channel, reorder buffer, concealment and
    decoder accounts for every packet and ends; it rests on the laws \<open>opus_laws\<close> of libopus.
  \<^item> \<open>Pcm\<close>, \<open>Wav_Stream\<close>: \<open>speech/src/pcm.rs\<close>, \<open>vendor-groq/src/wav.rs\<close>.  Streaming conversions do
    not depend on how the input is cut; a WAV file round-trips.
  \<^item> \<open>Mix_Bus\<close>, \<open>Elastic\<close>, \<open>Spatial\<close>, \<open>Mix_Graph\<close>: \<open>mixer/src\<close> \<open>frame.rs\<close>, \<open>bus.rs\<close>, \<open>elastic.rs\<close>,
    \<open>pacer.rs\<close>, \<open>spatial.rs\<close>, \<open>graph.rs\<close>.  Exact limited sums, frame accounting and latency of the
    queues, non-interference of listeners, exclusive groups.
  \<^item> \<open>Denoise\<close>: \<open>denoise/src/lib.rs\<close>: the noise suppressor around RNNoise, which is an argument.
  \<^item> \<open>Pcm_Encoder\<close>: \<open>core/src/pcm_encoder.rs\<close>: the settings, the SDP parameters and the Opus encoder of a
    local track, over the laws \<open>opus_encoder_laws\<close> of libopus.  A packet fits the RTP budget; one failed
    encode silences the track; the SDP rewrite touches the Opus parameters only.
  \<^item> \<open>Conference_Room\<close>, \<open>Conference_Run\<close>, \<open>Conference_Properties\<close>: \<open>crates/conference\<close>.  Rooms, mutes,
    signaling, the server and the tasks of a participant; then runs in which the calls of the host (one
    holds the room's lock at a time, also while it waits for a peer connection to close) interleave with the
    inbound and outbound tasks.  The locale \<open>panicking_component\<close> lifts a relation from steps to runs that
    return.  Membership events account for who is present, a mute lasts, audio is written to members only,
    and every source has an owner.  The results of the peer connections are arguments.
  \<^item> \<open>Agent_Config\<close>, \<open>Pipeline\<close>: \<open>speech/src/config.rs\<close>, \<open>pipeline.rs\<close>, \<open>error.rs\<close>: the data the
    components exchange, defaults, validation.
  \<^item> \<open>Vad\<close>, \<open>Turn_Latency\<close>, \<open>Stt_Hold\<close>, \<open>Stt_Pre_Roll\<close>, \<open>Stt_Deferred\<close>: the files of the same names in
    \<open>speech/src\<close> (and \<open>utterance_replay.rs\<close>).
  \<^item> \<open>Stt_Provider\<close>, \<open>Stt_Actor\<close>: the provider trait, \<open>registry.rs\<close>, \<open>vendor-mock/src/stt.rs\<close> and
    \<open>stt_actor.rs\<close>.  What the actor relies on is the locale \<open>stt_provider_laws\<close>, interpreted on the mock
    provider of the repository; the actor's locale extends it and gives a \<open>traced_component\<close>.
  \<^item> \<open>Speech_Events\<close>: \<open>events.rs\<close>: the event constructors and the ordering bus, which delivers one production
    log up to its first open slot.
  \<^item> The session object \<open>agent.rs\<close>.  Definitions: \<open>Agent_State\<close> (\<open>SttUtterance\<close>, \<open>AgentInner\<close>, the record store
    and the timers), \<open>Agent_Lid\<close> (spoken-language identification), \<open>Agent_Utterance\<close> (events of an utterance,
    barge-in, closing, STT results), \<open>Agent_Inbound\<close> (\<open>process_inbound_pcm\<close> and the ticker), \<open>Agent_Hold\<close> (STT
    hold, replay, playback, stop), \<open>Agent_Run\<close> (\<open>new\<close>, \<open>start\<close>, one operation, a run).  A task that holds the
    step lock is one operation; what it awaits in between is an operation of its own.  Proofs:
    \<open>Agent_Ledger\<close> states the invariant \<open>agent_inv\<close> (well-formed records; an event that an utterance gets at
    most once was emitted or is still owed) and how primitive changes keep it, \<open>Agent_Invariant\<close>,
    \<open>Agent_Closing\<close> and \<open>Agent_Steps\<close> lift it over the operations, \<open>Agent_Properties\<close> draws what runs promise,
    \<open>Agent_Hold_Frames\<close> shows that a hold lets nothing through to the actor.
  \<^item> \<open>Speaker_Gate\<close>, \<open>Speaker_Gate_Run\<close>, \<open>Speaker_Gate_Memory\<close>: \<open>speaker_gate.rs\<close>, its runs and its memory.
  \<^item> \<open>Tts_Send_Order\<close>, \<open>Tts_Buffer\<close>, \<open>Tts_Slots\<close>: reply order, outbound buffer and ledger, synthesis
    slots (\<open>vendor-sherpa-onnx/src/tts_slots.rs\<close>).
  \<^item> \<open>Tts_Cache\<close>, \<open>Tts_Cache_Lru\<close>: \<open>tts_cache.rs\<close>; the cache refines a least-recently-used list, hits replay
    audio of the same key.
  \<^item> \<open>Session_Recorder\<close>, \<open>Session_Turns\<close>: \<open>session_recorder.rs\<close>.  The recording keeps every loud chunk once,
    in order and without overlap of the two directions; where it can panic; the Ogg timeline.
  \<^item> \<open>Tts_Text\<close>: \<open>tts_text.rs\<close> and \<open>vendor-sherpa-onnx/src/sentences.rs\<close>.  The Unicode tables are an argument.

  Bounds and fuel.  Loops whose end depends on the data recurse with a measure and are total.  The one
  loop that depends on foreign code, the actor's draining of a provider (\<open>poll_all\<close>), is a partial function
  whose \<open>None\<close> is "does not end"; the provider laws give it a measure.  No definition uses fuel.

  Not modelled: WebRTC itself (ICE, DTLS, SRTP, libopus) is third-party; HTTP and WebSocket clients of
  the vendors, the N-API bindings, telemetry and logging are input and output around the parts
  modelled; ONNX inference is foreign code.  Of the session object, left out are the branches with a speaker
  gate (the gate itself is modelled), the TTS synthesis and drain workers (their order, queues, slots,
  cache and buffer are modelled), attaching a track, telemetry and debug lines other than the ones that
  can panic; a panic ends the modelled run.  Of the rooms, left out are the receive statistics and the JSON
  form of the signaling messages.
\<close>

end
